(* ===== verification/Bytes.thy ===== *)
theory Bytes
  imports Prelude
begin

text \<open>
  Rust's \<open>to_le_bytes\<close>/\<open>from_le_bytes\<close> and their big-endian twins, as conversions between words
  and byte lists. \<open>fixed_codec\<close> is the interface every fixed-width field of a page, a WAL record
  or a CDC frame relies on: an encoding of constant width that its decoder inverts.
\<close>

unbundle bit_operations_syntax

primrec to_le :: "nat \<Rightarrow> 'a::len word \<Rightarrow> bytes" where
  "to_le 0 w = []"
| "to_le (Suc n) w = ucast w # to_le n (drop_bit 8 w)"

primrec from_le :: "bytes \<Rightarrow> 'a::len word" where
  "from_le [] = 0"
| "from_le (b # bs) = ucast b OR push_bit 8 (from_le bs)"

definition to_be :: "nat \<Rightarrow> 'a::len word \<Rightarrow> bytes" where
  "to_be n w = rev (to_le n w)"

definition from_be :: "bytes \<Rightarrow> 'a::len word" where
  "from_be bs = from_le (rev bs)"

lemma length_to_le [simp]: "length (to_le n w) = n"
  by (induction n arbitrary: w) auto

lemma length_to_be [simp]: "length (to_be n w) = n"
  by (simp add: to_be_def)

lemma byte_or_shift:
  fixes w :: "'a::len word"
  shows "ucast (ucast w :: u8) OR push_bit 8 (take_bit m (drop_bit 8 w)) = take_bit (8 + m) w"
  by (rule bit_word_eqI) (auto simp: bit_simps)

lemma from_le_to_le: "from_le (to_le n w) = take_bit (8 * n) w"
proof (induction n arbitrary: w)
  case 0
  show ?case by simp
next
  case (Suc n)
  have "8 * Suc n = 8 + 8 * n" by simp
  then show ?case by (simp add: Suc byte_or_shift del: mult_Suc_right)
qed

lemma from_le_to_le_full [simp]:
  fixes w :: "'a::len word"
  shows "LENGTH('a) \<le> 8 * n \<Longrightarrow> from_le (to_le n w) = w"
  by (simp add: from_le_to_le take_bit_word_eq_self)

lemma from_be_to_be_full [simp]:
  fixes w :: "'a::len word"
  shows "LENGTH('a) \<le> 8 * n \<Longrightarrow> from_be (to_be n w) = w"
  by (simp add: from_be_def to_be_def)

text \<open>
  The other direction: decoding \<open>n\<close> bytes into a word of at least \<open>8 * n\<close> bits and encoding
  again gives the bytes back, so no two byte patterns of a field share a value.
\<close>

lemma drop_bit_or_byte:
  fixes w :: "'a::len word"
  assumes "8 + k \<le> LENGTH('a)" and "take_bit k w = w"
  shows "drop_bit 8 (ucast (b :: u8) OR push_bit 8 w) = w"
proof (rule bit_word_eqI)
  fix i assume "i < LENGTH('a)"
  have "bit w i \<Longrightarrow> i < k" using assms(2) by (metis bit_take_bit_iff)
  then show "bit (drop_bit 8 (ucast b OR push_bit 8 w)) i \<longleftrightarrow> bit w i"
    using assms(1) by (auto simp: bit_simps dest: bit_imp_le_length)
qed

lemma take_bit_from_le:
  fixes bs :: bytes
  assumes "8 * length bs \<le> LENGTH('a)"
  shows "take_bit (8 * length bs) (from_le bs :: 'a::len word) = from_le bs"
  using assms
proof (induction bs)
  case Nil
  then show ?case by simp
next
  case (Cons b bs)
  have IH: "take_bit (8 * length bs) (from_le bs :: 'a word) = from_le bs"
    using Cons by simp
  show ?case
  proof (rule bit_word_eqI)
    fix i assume "i < LENGTH('a)"
    have "bit (from_le bs :: 'a word) j \<Longrightarrow> j < 8 * length bs" for j
      using IH by (metis bit_take_bit_iff)
    then show "bit (take_bit (8 * length (b # bs)) (from_le (b # bs) :: 'a word)) i \<longleftrightarrow>
        bit (from_le (b # bs) :: 'a word) i"
      by (fastforce simp: bit_simps dest: bit_imp_le_length)
  qed
qed

lemma ucast_from_le_Cons:
  assumes "8 \<le> LENGTH('a)"
  shows "ucast (from_le (b # bs) :: 'a::len word) = b"
  by (rule bit_word_eqI) (use assms in \<open>auto simp: bit_simps\<close>)

lemma to_le_from_le:
  assumes "8 * length bs \<le> LENGTH('a)"
  shows "to_le (length bs) (from_le bs :: 'a::len word) = bs"
  using assms
proof (induction bs)
  case Nil
  then show ?case by simp
next
  case (Cons b bs)
  have "drop_bit 8 (from_le (b # bs) :: 'a word) = from_le bs"
    unfolding from_le.simps using Cons.prems
    by (intro drop_bit_or_byte [where k = "8 * length bs"] take_bit_from_le) auto
  moreover have "ucast (from_le (b # bs) :: 'a word) = b"
    using Cons.prems by (intro ucast_from_le_Cons) simp
  ultimately show ?case using Cons by (simp del: from_le.simps)
qed

lemma to_be_from_be:
  "8 * length bs \<le> LENGTH('a) \<Longrightarrow> to_be (length bs) (from_be bs :: 'a::len word) = bs"
  using to_le_from_le [of "rev bs", where 'a = 'a] by (simp add: to_be_def from_be_def)

section \<open>The interface of fixed-width fields\<close>

locale fixed_codec =
  fixes enc :: "'v \<Rightarrow> bytes" and dec :: "bytes \<Rightarrow> 'v" and width :: nat
  assumes length_enc [simp]: "length (enc v) = width"
    and dec_enc [simp]: "dec (enc v) = v"
begin

lemma read_written:
  "off + width \<le> length buf \<Longrightarrow> dec (bslice off (off + width) (splice off (enc v) buf)) = v"
  by (simp add: slice_splice_same)

lemma read_prefix: "dec (take width (enc v @ rest)) = v"
  by simp

lemma drop_prefix: "drop width (enc v @ rest) = rest"
  by simp

lemma enc_inject: "enc v = enc w \<longleftrightarrow> v = w"
  by (metis dec_enc)

end

interpretation le16: fixed_codec "to_le 2 :: u16 \<Rightarrow> bytes" from_le 2
  by unfold_locales auto

interpretation le32: fixed_codec "to_le 4 :: u32 \<Rightarrow> bytes" from_le 4
  by unfold_locales auto

interpretation le64: fixed_codec "to_le 8 :: u64 \<Rightarrow> bytes" from_le 8
  by unfold_locales auto

interpretation be16: fixed_codec "to_be 2 :: u16 \<Rightarrow> bytes" from_be 2
  by unfold_locales auto

interpretation be32: fixed_codec "to_be 4 :: u32 \<Rightarrow> bytes" from_be 4
  by unfold_locales auto

interpretation be64: fixed_codec "to_be 8 :: u64 \<Rightarrow> bytes" from_be 8
  by unfold_locales auto

end
