(* ===== verification/RustJson.thy ===== *)
theory RustJson
  imports Bytes
begin

text \<open>
  What the sources use of Rust strings and of \<open>serde_json\<close> values. A \<open>String\<close> is its UTF-8 byte
  list; \<open>utf8_step\<close> is the decoder step shared by \<open>str::from_utf8\<close> and
  \<open>String::from_utf8_lossy\<close>. A \<open>serde_json::Map\<close> (a \<open>BTreeMap\<close>: the \<open>preserve_order\<close> feature is
  off) is its entry list in ascending key order. Numbers stay abstract (\<open>'n\<close>), with the four
  operations the code calls in a record; so do JSON text serialisation and parsing.
\<close>

section \<open>UTF-8\<close>

type_synonym rust_str = bytes

definition byte_at :: "bytes \<Rightarrow> nat \<Rightarrow> u8" where
  "byte_at bs i = (if i < length bs then bs ! i else 0)"

definition is_cont :: "u8 \<Rightarrow> bool" where
  "is_cont b \<longleftrightarrow> 0x80 \<le> b \<and> b \<le> 0xBF"

text \<open>
  One step at the head of a non-empty byte list: whether a well-formed character starts there, and
  how many bytes it (or the maximal ill-formed prefix) takes.
\<close>

definition utf8_step :: "bytes \<Rightarrow> bool \<times> nat" where
  "utf8_step bs =
    (let b0 = byte_at bs 0; b1 = byte_at bs 1; b2 = byte_at bs 2; b3 = byte_at bs 3 in
     if b0 < 0x80 then (True, 1)
     else if 0xC2 \<le> b0 \<and> b0 \<le> 0xDF then (if is_cont b1 then (True, 2) else (False, 1))
     else if 0xE0 \<le> b0 \<and> b0 \<le> 0xEF then
       (if (b0 = 0xE0 \<and> 0xA0 \<le> b1 \<and> b1 \<le> 0xBF) \<or> (0xE1 \<le> b0 \<and> b0 \<le> 0xEC \<and> is_cont b1) \<or>
           (b0 = 0xED \<and> 0x80 \<le> b1 \<and> b1 \<le> 0x9F) \<or> (0xEE \<le> b0 \<and> is_cont b1)
        then (if is_cont b2 then (True, 3) else (False, 2))
        else (False, 1))
     else if 0xF0 \<le> b0 \<and> b0 \<le> 0xF4 then
       (if (b0 = 0xF0 \<and> 0x90 \<le> b1 \<and> b1 \<le> 0xBF) \<or> (0xF1 \<le> b0 \<and> b0 \<le> 0xF3 \<and> is_cont b1) \<or>
           (b0 = 0xF4 \<and> 0x80 \<le> b1 \<and> b1 \<le> 0x8F)
        then (if is_cont b2 then (if is_cont b3 then (True, 4) else (False, 3)) else (False, 2))
        else (False, 1))
     else (False, 1))"

lemma snd_if_pos: "0 < snd p \<Longrightarrow> 0 < snd q \<Longrightarrow> 0 < snd (if c then p else q)"
  by simp

lemma utf8_step_pos: "0 < snd (utf8_step bs)"
  unfolding utf8_step_def Let_def by (intro snd_if_pos) simp_all

lemma utf8_step_shrinks: "bs \<noteq> [] \<Longrightarrow> length (drop (snd (utf8_step bs)) bs) < length bs"
  using utf8_step_pos [of bs] by simp

text \<open>\<open>str::from_utf8\<close> succeeds exactly on \<open>utf8_valid\<close> bytes.\<close>

function utf8_valid :: "bytes \<Rightarrow> bool" where
  "utf8_valid bs =
     (if bs = [] then True
      else fst (utf8_step bs) \<and> utf8_valid (drop (snd (utf8_step bs)) bs))"
  by pat_completeness auto
termination
  by (relation "measure length") (use utf8_step_shrinks in auto)

declare utf8_valid.simps [simp del]

text \<open>\<open>String::from_utf8_lossy\<close>: each maximal ill-formed prefix becomes U+FFFD.\<close>

function utf8_lossy :: "bytes \<Rightarrow> rust_str" where
  "utf8_lossy bs =
     (if bs = [] then []
      else (if fst (utf8_step bs) then take (snd (utf8_step bs)) bs else [0xEF, 0xBF, 0xBD])
           @ utf8_lossy (drop (snd (utf8_step bs)) bs))"
  by pat_completeness auto
termination
  by (relation "measure length") (use utf8_step_shrinks in auto)

declare utf8_lossy.simps [simp del]

lemma utf8_valid_Nil [simp]: "utf8_valid []"
  by (simp add: utf8_valid.simps)

lemma utf8_lossy_valid: "utf8_valid bs \<Longrightarrow> utf8_lossy bs = bs"
proof (induction bs rule: utf8_lossy.induct)
  case (1 bs)
  show ?case
  proof (cases "bs = []")
    case True
    then show ?thesis by (simp add: utf8_lossy.simps)
  next
    case False
    then have "fst (utf8_step bs)" and "utf8_valid (drop (snd (utf8_step bs)) bs)"
      using 1(2) by (simp_all add: utf8_valid.simps [of bs])
    with 1(1) [OF False] False show ?thesis by (simp add: utf8_lossy.simps [of bs])
  qed
qed

lemma utf8_valid_ascii: "(\<forall>b \<in> set bs. b < 0x80) \<Longrightarrow> utf8_valid bs"
proof (induction bs)
  case Nil
  then show ?case by simp
next
  case (Cons b bs)
  then have "utf8_step (b # bs) = (True, 1)"
    by (simp add: utf8_step_def byte_at_def)
  with Cons show ?case by (simp add: utf8_valid.simps [of "b # bs"])
qed

text \<open>A well-formed character is decided by its own bytes, so the lossy conversion is well formed.\<close>

lemma byte_at_take: "i < n \<Longrightarrow> n \<le> length bs \<Longrightarrow> byte_at (take n bs @ ys) i = byte_at bs i"
  by (simp add: byte_at_def nth_append)

lemma byte_at_beyond: "length bs \<le> i \<Longrightarrow> byte_at bs i = 0"
  by (simp add: byte_at_def)

lemma is_cont_0 [simp]: "\<not> is_cont 0"
  by (simp add: is_cont_def)

definition lead3 :: "u8 \<Rightarrow> u8 \<Rightarrow> bool" where
  "lead3 b0 b1 \<longleftrightarrow> (b0 = 0xE0 \<and> 0xA0 \<le> b1 \<and> b1 \<le> 0xBF) \<or> (0xE1 \<le> b0 \<and> b0 \<le> 0xEC \<and> is_cont b1) \<or>
     (b0 = 0xED \<and> 0x80 \<le> b1 \<and> b1 \<le> 0x9F) \<or> (0xEE \<le> b0 \<and> is_cont b1)"

definition lead4 :: "u8 \<Rightarrow> u8 \<Rightarrow> bool" where
  "lead4 b0 b1 \<longleftrightarrow> (b0 = 0xF0 \<and> 0x90 \<le> b1 \<and> b1 \<le> 0xBF) \<or> (0xF1 \<le> b0 \<and> b0 \<le> 0xF3 \<and> is_cont b1) \<or>
     (b0 = 0xF4 \<and> 0x80 \<le> b1 \<and> b1 \<le> 0x8F)"

lemmas utf8_step_cases = utf8_step_def [folded lead3_def lead4_def, unfolded Let_def]

lemma utf8_step_path:
  assumes "utf8_step bs = (True, n)"
  obtains (one) "n = 1" "byte_at bs 0 < 0x80"
    | (two) "n = 2" "\<not> byte_at bs 0 < 0x80" "0xC2 \<le> byte_at bs 0 \<and> byte_at bs 0 \<le> 0xDF"
        "is_cont (byte_at bs 1)"
    | (three) "n = 3" "\<not> byte_at bs 0 < 0x80" "\<not> (0xC2 \<le> byte_at bs 0 \<and> byte_at bs 0 \<le> 0xDF)"
        "0xE0 \<le> byte_at bs 0 \<and> byte_at bs 0 \<le> 0xEF" "lead3 (byte_at bs 0) (byte_at bs 1)"
        "is_cont (byte_at bs 2)"
    | (four) "n = 4" "\<not> byte_at bs 0 < 0x80" "\<not> (0xC2 \<le> byte_at bs 0 \<and> byte_at bs 0 \<le> 0xDF)"
        "\<not> (0xE0 \<le> byte_at bs 0 \<and> byte_at bs 0 \<le> 0xEF)"
        "0xF0 \<le> byte_at bs 0 \<and> byte_at bs 0 \<le> 0xF4" "lead4 (byte_at bs 0) (byte_at bs 1)"
        "is_cont (byte_at bs 2)" "is_cont (byte_at bs 3)"
  using assms unfolding utf8_step_cases by (simp only: split: if_splits) blast+

lemma utf8_step_length:
  assumes "utf8_step bs = (True, n)" and "bs \<noteq> []"
  shows "n \<le> length bs"
proof (rule ccontr)
  assume "\<not> n \<le> length bs"
  then have z: "byte_at bs (n - 1) = 0" by (intro byte_at_beyond) simp
  from assms(1) show False
  proof (cases rule: utf8_step_path)
    case one
    with assms(2) \<open>\<not> n \<le> length bs\<close> show False by (cases bs) simp_all
  qed (use z in simp_all)
qed

lemma utf8_step_prefix:
  assumes "utf8_step bs = (True, n)" and "bs \<noteq> []"
  shows "utf8_step (take n bs @ ys) = (True, n)"
proof -
  have same: "byte_at (take n bs @ ys) i = byte_at bs i" if "i < n" for i
    using that utf8_step_length [OF assms] by (rule byte_at_take)
  from assms(1) show ?thesis
  proof (cases rule: utf8_step_path)
    case one
    then show ?thesis using same [of 0] by (simp add: utf8_step_cases)
  next
    case two
    then show ?thesis using same [of 0] same [of 1] by (simp add: utf8_step_cases)
  next
    case three
    then show ?thesis using same [of 0] same [of 1] same [of 2] by (simp add: utf8_step_cases)
  next
    case four
    then show ?thesis using same [of 0] same [of 1] same [of 2] same [of 3]
      by (simp add: utf8_step_cases)
  qed
qed

lemma utf8_lossy_is_valid [simp]: "utf8_valid (utf8_lossy bs)"
proof (induction bs rule: utf8_lossy.induct)
  case (1 bs)
  show ?case
  proof (cases "bs = []")
    case True
    then show ?thesis by (simp add: utf8_lossy.simps)
  next
    case False
    let ?rest = "utf8_lossy (drop (snd (utf8_step bs)) bs)"
    have IH: "utf8_valid ?rest" using 1 False by simp
    obtain ok n where st: "utf8_step bs = (ok, n)" by (cases "utf8_step bs")
    show ?thesis
    proof (cases ok)
      case True
      then have "utf8_step (take n bs @ ?rest) = (True, n)" and "n \<le> length bs" "0 < n"
        using utf8_step_prefix utf8_step_length st False utf8_step_pos [of bs] by auto
      with IH st True False show ?thesis
        by (simp add: utf8_lossy.simps [of bs] utf8_valid.simps [of "take n bs @ _"])
    next
      case False
      have "utf8_step ([0xEF, 0xBF, 0xBD] @ ?rest) = (True, 3)"
        by (simp add: utf8_step_def byte_at_def is_cont_def)
      with IH st False \<open>bs \<noteq> []\<close> show ?thesis
        by (simp add: utf8_lossy.simps [of bs] utf8_valid.simps [of "0xEF # _"])
    qed
  qed
qed

section \<open>JSON values\<close>

datatype 'n Json =
    Null
  | Bool bool
  | Number 'n
  | String rust_str
  | Array "'n Json list"
  | Object "(rust_str \<times> 'n Json) list"

type_synonym 'n json_map = "(rust_str \<times> 'n Json) list"

text \<open>The string order of Rust: lexicographic on bytes.\<close>

fun str_less :: "rust_str \<Rightarrow> rust_str \<Rightarrow> bool" where
  "str_less [] [] = False"
| "str_less [] (c # cs) = True"
| "str_less (b # bs) [] = False"
| "str_less (b # bs) (c # cs) = (b < c \<or> (b = c \<and> str_less bs cs))"

lemma str_less_irrefl [simp]: "\<not> str_less s s"
  by (induction s) auto

lemma str_less_trans: "str_less a b \<Longrightarrow> str_less b c \<Longrightarrow> str_less a c"
proof (induction a b arbitrary: c rule: str_less.induct)
  case (2 x xs)
  then show ?case by (cases c) auto
next
  case (4 x xs y ys)
  then show ?case by (cases c) (auto dest: less_trans)
qed auto

lemma str_less_asym: "str_less a b \<Longrightarrow> \<not> str_less b a"
  using str_less_trans by fastforce

lemma str_less_linear: "str_less a b \<or> a = b \<or> str_less b a"
  by (induction a b rule: str_less.induct) auto

text \<open>\<open>BTreeMap::insert\<close>: replaces the value of an existing key, else inserts in key order.\<close>

fun map_insert :: "rust_str \<Rightarrow> 'v \<Rightarrow> (rust_str \<times> 'v) list \<Rightarrow> (rust_str \<times> 'v) list" where
  "map_insert k v [] = [(k, v)]"
| "map_insert k v ((k', v') # m) =
     (if k = k' then (k, v) # m
      else if str_less k k' then (k, v) # (k', v') # m
      else (k', v') # map_insert k v m)"

definition map_wf :: "(rust_str \<times> 'v) list \<Rightarrow> bool" where
  "map_wf m \<longleftrightarrow> sorted_wrt (\<lambda>a b. str_less (fst a) (fst b)) m"

lemma map_wf_Nil [simp]: "map_wf []"
  by (simp add: map_wf_def)

lemma map_wf_Cons: "map_wf (e # m) \<longleftrightarrow> (\<forall>e' \<in> set m. str_less (fst e) (fst e')) \<and> map_wf m"
  by (simp add: map_wf_def)

lemma map_insert_last:
  "(\<forall>e \<in> set m. str_less (fst e) k) \<Longrightarrow> map_insert k v m = m @ [(k, v)]"
  by (induction k v m rule: map_insert.induct) (auto dest: str_less_asym)

lemma set_map_insert: "set (map_insert k v m) \<subseteq> insert (k, v) (set m)"
  by (induction k v m rule: map_insert.induct) auto

lemma map_wf_insert: "map_wf m \<Longrightarrow> map_wf (map_insert k v m)"
proof (induction k v m rule: map_insert.induct)
  case (1 k v)
  then show ?case by (simp add: map_wf_Cons)
next
  case (2 k v k' v' m)
  show ?case
  proof (cases "k = k' \<or> str_less k k'")
    case True
    with 2(2) show ?thesis by (auto simp: map_wf_Cons dest: str_less_trans)
  next
    case False
    then have "str_less k' k" using str_less_linear by blast
    with 2 False set_map_insert [of k v m] show ?thesis by (auto simp: map_wf_Cons)
  qed
qed

lemma map_of_insert: "map_wf m \<Longrightarrow> map_of (map_insert k v m) = (map_of m)(k \<mapsto> v)"
  by (induction k v m rule: map_insert.induct) (auto simp: map_wf_Cons fun_eq_iff)

section \<open>External operations\<close>

text \<open>
  \<open>serde_json::Number\<close>: \<open>as_i64\<close>, \<open>as_f64\<close> (an \<open>f64\<close> is its 64-bit pattern), \<open>From<i64>\<close> and
  \<open>from_f64\<close> (\<open>None\<close> for a non-finite value).
\<close>

record 'n num_ops =
  as_i64 :: "'n \<Rightarrow> i64 option"
  as_f64 :: "'n \<Rightarrow> u64 option"
  of_i64 :: "i64 \<Rightarrow> 'n"
  from_f64 :: "u64 \<Rightarrow> 'n option"

text \<open>JSON text: \<open>serde_json::to_vec\<close> and \<open>serde_json::from_slice\<close>.\<close>

record 'n serde_ops =
  to_vec :: "'n Json \<Rightarrow> string + bytes"
  from_slice :: "bytes \<Rightarrow> string + 'n Json"

fun as_object :: "'n Json \<Rightarrow> 'n json_map option" where
  "as_object (Object m) = Some m"
| "as_object _ = None"

end
