(* ===== verification/CdcProtocol.thy ===== *)
theory CdcProtocol
  imports RustJson
begin

text \<open>
  The semantic CDC protocol of \<open>storage/cdc_protocol.rs\<close>: the frame encoder and the cursor-based
  decoder, field for field, with every error of the source. \<open>parses P xs v\<close> says that the reader
  action \<open>P\<close> consumes exactly \<open>xs\<close> and yields \<open>v\<close>; it composes along \<open>bindE\<close>, and with it the
  round trip of whole frames follows from the round trips of their fields.
\<close>

section \<open>Data\<close>

definition PROTOCOL_MAGIC :: bytes where "PROTOCOL_MAGIC = [0x50, 0x45, 0x44, 0x59]"
definition PROTOCOL_MAJOR :: u16 where "PROTOCOL_MAJOR = 1"
definition LOGICAL_MESSAGE_PREFIX :: bytes where
  "LOGICAL_MESSAGE_PREFIX = [0x70, 0x67, 0x5F, 0x65, 0x64, 0x64, 0x79, 0x2F, 0x76, 0x31]"

definition HEADER_LEN :: nat where "HEADER_LEN = 12"
definition PLACEHOLDER_EVENT_LSN :: u64 where "PLACEHOLDER_EVENT_LSN = 0"
definition MAX_FIELD_BYTES :: nat where "MAX_FIELD_BYTES = 1024 * 1024"
definition MAX_FRAME_PAYLOAD_BYTES :: nat where "MAX_FRAME_PAYLOAD_BYTES = 16 * 1024 * 1024"
definition MAX_LABELS :: nat where "MAX_LABELS = 4096"
definition U32_MAX :: nat where "U32_MAX = 4294967295"
definition U16_MAX :: nat where "U16_MAX = 65535"

lemmas cdc_consts =
  HEADER_LEN_def MAX_FIELD_BYTES_def MAX_FRAME_PAYLOAD_BYTES_def MAX_LABELS_def U32_MAX_def
  U16_MAX_def PROTOCOL_MAJOR_def PLACEHOLDER_EVENT_LSN_def

definition KIND_BEGIN :: u8 where "KIND_BEGIN = 0x01"
definition KIND_COMMIT :: u8 where "KIND_COMMIT = 0x02"
definition KIND_NODE_INSERT :: u8 where "KIND_NODE_INSERT = 0x10"
definition KIND_NODE_UPDATE :: u8 where "KIND_NODE_UPDATE = 0x11"
definition KIND_NODE_DELETE :: u8 where "KIND_NODE_DELETE = 0x12"
definition KIND_EDGE_INSERT :: u8 where "KIND_EDGE_INSERT = 0x20"
definition KIND_EDGE_UPDATE :: u8 where "KIND_EDGE_UPDATE = 0x21"
definition KIND_EDGE_DELETE :: u8 where "KIND_EDGE_DELETE = 0x22"
definition KIND_GRAPH_RESET :: u8 where "KIND_GRAPH_RESET = 0x30"

lemmas cdc_kinds =
  KIND_BEGIN_def KIND_COMMIT_def KIND_NODE_INSERT_def KIND_NODE_UPDATE_def KIND_NODE_DELETE_def
  KIND_EDGE_INSERT_def KIND_EDGE_UPDATE_def KIND_EDGE_DELETE_def KIND_GRAPH_RESET_def

record 'n NodeRow =
  node_id :: i64
  labels :: "rust_str list"
  node_properties :: "'n json_map"

record 'n EdgeRow =
  rel_id :: i64
  rel_type :: rust_str
  source_node_id :: i64
  target_node_id :: i64
  edge_properties :: "'n json_map"

datatype 'n Mutation =
    NodeInsert "'n NodeRow"
  | NodeUpdate "'n NodeRow" "'n NodeRow"
  | NodeDelete "'n NodeRow"
  | EdgeInsert "'n EdgeRow"
  | EdgeUpdate "'n EdgeRow" "'n EdgeRow"
  | EdgeDelete "'n EdgeRow"
  | GraphReset

datatype 'n Frame =
    Begin u32
  | Commit u32 u64 u64
  | MutationFrame u64 "'n Mutation"

datatype ProtocolError =
    HeaderTruncated
  | InvalidMagic
  | UnsupportedMajor u16
  | UnsupportedFlags u8
  | UnknownKind u8
  | PayloadLengthMismatch nat nat
  | PayloadTruncated nat nat nat
  | TrailingPayload nat
  | FieldTooLarge string nat nat
  | InvalidUtf8 string
  | InvalidJson string
  | PropertiesNotObject
  | InvalidLogicalMessageEnvelope

section \<open>Encoding\<close>

text \<open>The writers append to the payload they are given, as the Rust ones do to their \<open>Vec\<close>.\<close>

definition write_u16 :: "bytes \<Rightarrow> u16 \<Rightarrow> bytes" where
  "write_u16 payload v = payload @ to_be 2 v"
definition write_u32 :: "bytes \<Rightarrow> u32 \<Rightarrow> bytes" where
  "write_u32 payload v = payload @ to_be 4 v"
definition write_u64 :: "bytes \<Rightarrow> u64 \<Rightarrow> bytes" where
  "write_u64 payload v = payload @ to_be 8 v"
definition write_i64 :: "bytes \<Rightarrow> i64 \<Rightarrow> bytes" where
  "write_i64 payload v = payload @ to_be 8 v"

definition write_bytes :: "bytes \<Rightarrow> string \<Rightarrow> bytes \<Rightarrow> ProtocolError + bytes" where
  "write_bytes payload field value =
     (if length value > MAX_FIELD_BYTES then Inl (FieldTooLarge field (length value) MAX_FIELD_BYTES)
      else if length value > U32_MAX then Inl (FieldTooLarge field (length value) U32_MAX)
      else Inr (write_u32 payload (of_nat (length value)) @ value))"

definition write_string :: "bytes \<Rightarrow> string \<Rightarrow> rust_str \<Rightarrow> ProtocolError + bytes" where
  "write_string payload field value = write_bytes payload field value"

definition write_properties ::
    "'n serde_ops \<Rightarrow> bytes \<Rightarrow> 'n json_map \<Rightarrow> ProtocolError + bytes" where
  "write_properties sd payload properties =
     (case to_vec sd (Object properties) of
        Inl error \<Rightarrow> Inl (InvalidJson error)
      | Inr json \<Rightarrow> write_bytes payload ''properties'' json)"

fun write_labels :: "bytes \<Rightarrow> rust_str list \<Rightarrow> ProtocolError + bytes" where
  "write_labels payload [] = Inr payload"
| "write_labels payload (label # ls) =
     bindE (write_string payload ''label'' label) (\<lambda>p. write_labels p ls)"

definition encode_node :: "'n serde_ops \<Rightarrow> bytes \<Rightarrow> 'n NodeRow \<Rightarrow> ProtocolError + bytes" where
  "encode_node sd payload row =
     (if length (labels row) > MAX_LABELS \<or> length (labels row) > U16_MAX
      then Inl (FieldTooLarge ''label count'' (length (labels row)) (min MAX_LABELS U16_MAX))
      else bindE (write_labels (write_u16 (write_i64 payload (node_id row))
                                  (of_nat (length (labels row)))) (labels row))
             (\<lambda>p. write_properties sd p (node_properties row)))"

definition encode_edge :: "'n serde_ops \<Rightarrow> bytes \<Rightarrow> 'n EdgeRow \<Rightarrow> ProtocolError + bytes" where
  "encode_edge sd payload row =
     bindE (write_string (write_i64 payload (rel_id row)) ''relationship type'' (rel_type row))
       (\<lambda>p. write_properties sd
          (write_i64 (write_i64 p (source_node_id row)) (target_node_id row)) (edge_properties row))"

fun mutation_kind :: "'n Mutation \<Rightarrow> u8" where
  "mutation_kind (NodeInsert new) = KIND_NODE_INSERT"
| "mutation_kind (NodeUpdate old new) = KIND_NODE_UPDATE"
| "mutation_kind (NodeDelete old) = KIND_NODE_DELETE"
| "mutation_kind (EdgeInsert new) = KIND_EDGE_INSERT"
| "mutation_kind (EdgeUpdate old new) = KIND_EDGE_UPDATE"
| "mutation_kind (EdgeDelete old) = KIND_EDGE_DELETE"
| "mutation_kind GraphReset = KIND_GRAPH_RESET"

fun encode_mutation_payload ::
    "'n serde_ops \<Rightarrow> bytes \<Rightarrow> 'n Mutation \<Rightarrow> ProtocolError + bytes" where
  "encode_mutation_payload sd payload (NodeInsert new) = encode_node sd payload new"
| "encode_mutation_payload sd payload (NodeUpdate old new) =
     bindE (encode_node sd payload old) (\<lambda>p. encode_node sd p new)"
| "encode_mutation_payload sd payload (NodeDelete old) = encode_node sd payload old"
| "encode_mutation_payload sd payload (EdgeInsert new) = encode_edge sd payload new"
| "encode_mutation_payload sd payload (EdgeUpdate old new) =
     bindE (encode_edge sd payload old) (\<lambda>p. encode_edge sd p new)"
| "encode_mutation_payload sd payload (EdgeDelete old) = encode_edge sd payload old"
| "encode_mutation_payload sd payload GraphReset = Inr payload"

definition frame_payload :: "'n serde_ops \<Rightarrow> 'n Frame \<Rightarrow> ProtocolError + (u8 \<times> bytes)" where
  "frame_payload sd frame =
     (case frame of
        Begin xid \<Rightarrow> Inr (KIND_BEGIN, write_u32 [] xid)
      | Commit xid commit_lsn end_lsn \<Rightarrow>
          Inr (KIND_COMMIT, write_u64 (write_u64 (write_u32 [] xid) commit_lsn) end_lsn)
      | MutationFrame event_lsn mutation \<Rightarrow>
          bindE (encode_mutation_payload sd (write_u64 [] event_lsn) mutation)
            (\<lambda>p. Inr (mutation_kind mutation, p)))"

definition frame_bytes :: "u8 \<Rightarrow> bytes \<Rightarrow> bytes" where
  "frame_bytes kind payload =
     PROTOCOL_MAGIC @ to_be 2 PROTOCOL_MAJOR @ [kind] @ [0] @
     to_be 4 (of_nat (length payload) :: u32) @ payload"

definition encode_frame :: "'n serde_ops \<Rightarrow> 'n Frame \<Rightarrow> ProtocolError + bytes" where
  "encode_frame sd frame =
     bindE (frame_payload sd frame) (\<lambda>(kind, payload).
       if length payload > MAX_FRAME_PAYLOAD_BYTES
       then Inl (FieldTooLarge ''frame payload'' (length payload) MAX_FRAME_PAYLOAD_BYTES)
       else if length payload > U32_MAX
       then Inl (FieldTooLarge ''frame payload'' (length payload) U32_MAX)
       else Inr (frame_bytes kind payload))"

definition encode_logical_message :: "'n serde_ops \<Rightarrow> 'n Mutation \<Rightarrow> ProtocolError + bytes" where
  "encode_logical_message sd mutation =
     encode_frame sd (MutationFrame PLACEHOLDER_EVENT_LSN mutation)"

section \<open>Decoding\<close>

record Reader =
  payload :: bytes
  offset :: nat

definition reader_new :: "bytes \<Rightarrow> Reader" where
  "reader_new p = \<lparr>payload = p, offset = 0\<rparr>"

definition reader_take :: "nat \<Rightarrow> Reader \<Rightarrow> ProtocolError + (bytes \<times> Reader)" where
  "reader_take needed r =
     (let remaining = length (payload r) - offset r in
      if remaining < needed then Inl (PayloadTruncated (offset r) needed remaining)
      else Inr (bslice (offset r) (offset r + needed) (payload r),
                r\<lparr>offset := offset r + needed\<rparr>))"

definition reader_u16 :: "Reader \<Rightarrow> ProtocolError + (u16 \<times> Reader)" where
  "reader_u16 r = bindE (reader_take 2 r) (\<lambda>(b, r). Inr (from_be b, r))"
definition reader_u32 :: "Reader \<Rightarrow> ProtocolError + (u32 \<times> Reader)" where
  "reader_u32 r = bindE (reader_take 4 r) (\<lambda>(b, r). Inr (from_be b, r))"
definition reader_u64 :: "Reader \<Rightarrow> ProtocolError + (u64 \<times> Reader)" where
  "reader_u64 r = bindE (reader_take 8 r) (\<lambda>(b, r). Inr (from_be b, r))"
definition reader_i64 :: "Reader \<Rightarrow> ProtocolError + (i64 \<times> Reader)" where
  "reader_i64 r = bindE (reader_take 8 r) (\<lambda>(b, r). Inr (from_be b, r))"

definition reader_bytes :: "string \<Rightarrow> Reader \<Rightarrow> ProtocolError + (bytes \<times> Reader)" where
  "reader_bytes field r =
     bindE (reader_u32 r) (\<lambda>(len, r).
       if unat len > MAX_FIELD_BYTES then Inl (FieldTooLarge field (unat len) MAX_FIELD_BYTES)
       else reader_take (unat len) r)"

definition reader_string :: "string \<Rightarrow> Reader \<Rightarrow> ProtocolError + (rust_str \<times> Reader)" where
  "reader_string field r =
     bindE (reader_bytes field r) (\<lambda>(b, r).
       if utf8_valid b then Inr (b, r) else Inl (InvalidUtf8 field))"

definition reader_properties ::
    "'n serde_ops \<Rightarrow> Reader \<Rightarrow> ProtocolError + ('n json_map \<times> Reader)" where
  "reader_properties sd r =
     bindE (reader_bytes ''properties'' r) (\<lambda>(b, r).
       case from_slice sd b of
         Inl error \<Rightarrow> Inl (InvalidJson error)
       | Inr value \<Rightarrow>
           (case as_object value of None \<Rightarrow> Inl PropertiesNotObject | Some m \<Rightarrow> Inr (m, r)))"

fun reader_labels :: "nat \<Rightarrow> Reader \<Rightarrow> ProtocolError + (rust_str list \<times> Reader)" where
  "reader_labels 0 r = Inr ([], r)"
| "reader_labels (Suc n) r =
     bindE (reader_string ''label'' r) (\<lambda>(l, r).
       bindE (reader_labels n r) (\<lambda>(ls, r). Inr (l # ls, r)))"

definition reader_node :: "'n serde_ops \<Rightarrow> Reader \<Rightarrow> ProtocolError + ('n NodeRow \<times> Reader)" where
  "reader_node sd r =
     bindE (reader_i64 r) (\<lambda>(nid, r).
     bindE (reader_u16 r) (\<lambda>(label_count, r).
       if unat label_count > MAX_LABELS
       then Inl (FieldTooLarge ''label count'' (unat label_count) MAX_LABELS)
       else bindE (reader_labels (unat label_count) r) (\<lambda>(ls, r).
            bindE (reader_properties sd r) (\<lambda>(props, r).
              Inr (\<lparr>node_id = nid, labels = ls, node_properties = props\<rparr>, r)))))"

definition reader_edge :: "'n serde_ops \<Rightarrow> Reader \<Rightarrow> ProtocolError + ('n EdgeRow \<times> Reader)" where
  "reader_edge sd r =
     bindE (reader_i64 r) (\<lambda>(rid, r).
     bindE (reader_string ''relationship type'' r) (\<lambda>(rt, r).
     bindE (reader_i64 r) (\<lambda>(src, r).
     bindE (reader_i64 r) (\<lambda>(tgt, r).
     bindE (reader_properties sd r) (\<lambda>(props, r).
       Inr (\<lparr>rel_id = rid, rel_type = rt, source_node_id = src, target_node_id = tgt,
             edge_properties = props\<rparr>, r))))))"

definition reader_finish :: "Reader \<Rightarrow> ProtocolError + unit" where
  "reader_finish r =
     (let trailing = length (payload r) - offset r in
      if trailing = 0 then Inr () else Inl (TrailingPayload trailing))"

definition decode_mutation_payload ::
    "'n serde_ops \<Rightarrow> u8 \<Rightarrow> Reader \<Rightarrow> ProtocolError + ('n Mutation \<times> Reader)" where
  "decode_mutation_payload sd kind r =
     (if kind = KIND_NODE_INSERT then bindE (reader_node sd r) (\<lambda>(new, r). Inr (NodeInsert new, r))
      else if kind = KIND_NODE_UPDATE then
        bindE (reader_node sd r) (\<lambda>(old, r).
        bindE (reader_node sd r) (\<lambda>(new, r). Inr (NodeUpdate old new, r)))
      else if kind = KIND_NODE_DELETE then
        bindE (reader_node sd r) (\<lambda>(old, r). Inr (NodeDelete old, r))
      else if kind = KIND_EDGE_INSERT then
        bindE (reader_edge sd r) (\<lambda>(new, r). Inr (EdgeInsert new, r))
      else if kind = KIND_EDGE_UPDATE then
        bindE (reader_edge sd r) (\<lambda>(old, r).
        bindE (reader_edge sd r) (\<lambda>(new, r). Inr (EdgeUpdate old new, r)))
      else if kind = KIND_EDGE_DELETE then
        bindE (reader_edge sd r) (\<lambda>(old, r). Inr (EdgeDelete old, r))
      else if kind = KIND_GRAPH_RESET then Inr (GraphReset, r)
      else Inl (UnknownKind kind))"

definition decode_payload :: "'n serde_ops \<Rightarrow> u8 \<Rightarrow> Reader \<Rightarrow> ProtocolError + ('n Frame \<times> Reader)" where
  "decode_payload sd kind r =
     (if kind = KIND_BEGIN then bindE (reader_u32 r) (\<lambda>(xid, r). Inr (Begin xid, r))
      else if kind = KIND_COMMIT then
        bindE (reader_u32 r) (\<lambda>(xid, r).
        bindE (reader_u64 r) (\<lambda>(commit_lsn, r).
        bindE (reader_u64 r) (\<lambda>(end_lsn, r). Inr (Commit xid commit_lsn end_lsn, r))))
      else if kind \<in> {KIND_NODE_INSERT, KIND_NODE_UPDATE, KIND_NODE_DELETE, KIND_EDGE_INSERT,
                       KIND_EDGE_UPDATE, KIND_EDGE_DELETE, KIND_GRAPH_RESET} then
        bindE (reader_u64 r) (\<lambda>(event_lsn, r).
        bindE (decode_mutation_payload sd kind r) (\<lambda>(m, r). Inr (MutationFrame event_lsn m, r)))
      else Inl (UnknownKind kind))"

definition decode_frame :: "'n serde_ops \<Rightarrow> bytes \<Rightarrow> ProtocolError + 'n Frame" where
  "decode_frame sd encoded =
     (if length encoded < HEADER_LEN then Inl HeaderTruncated
      else if bslice 0 4 encoded \<noteq> PROTOCOL_MAGIC then Inl InvalidMagic
      else let major = from_be (bslice 4 6 encoded) :: u16 in
      if major \<noteq> PROTOCOL_MAJOR then Inl (UnsupportedMajor major)
      else let kind = encoded ! 6; flags = encoded ! 7 in
      if flags \<noteq> 0 then Inl (UnsupportedFlags flags)
      else let declared = unat (from_be (bslice 8 12 encoded) :: u32);
               actual = length encoded - HEADER_LEN in
      if declared \<noteq> actual then Inl (PayloadLengthMismatch declared actual)
      else if actual > MAX_FRAME_PAYLOAD_BYTES
      then Inl (FieldTooLarge ''frame payload'' actual MAX_FRAME_PAYLOAD_BYTES)
      else bindE (decode_payload sd kind (reader_new (drop HEADER_LEN encoded))) (\<lambda>(frame, r).
           bindE (reader_finish r) (\<lambda>_. Inr frame)))"

definition decode_logical_message :: "'n serde_ops \<Rightarrow> bytes \<Rightarrow> ProtocolError + 'n Mutation" where
  "decode_logical_message sd encoded =
     bindE (decode_frame sd encoded) (\<lambda>frame.
       case frame of
         MutationFrame event_lsn mutation \<Rightarrow>
           (if event_lsn = PLACEHOLDER_EVENT_LSN then Inr mutation
            else Inl InvalidLogicalMessageEnvelope)
       | _ \<Rightarrow> Inl InvalidLogicalMessageEnvelope)"

section \<open>Reader actions and what they consume\<close>

definition at_rest :: "Reader \<Rightarrow> bytes \<Rightarrow> bool" where
  "at_rest r xs \<longleftrightarrow> offset r \<le> length (payload r) \<and> drop (offset r) (payload r) = xs"

definition parses :: "(Reader \<Rightarrow> ProtocolError + ('a \<times> Reader)) \<Rightarrow> bytes \<Rightarrow> 'a \<Rightarrow> bool" where
  "parses P xs v \<longleftrightarrow>
     (\<forall>r ys. at_rest r (xs @ ys) \<longrightarrow> (\<exists>r'. P r = Inr (v, r') \<and> at_rest r' ys))"

lemma parsesI:
  "(\<And>r ys. at_rest r (xs @ ys) \<Longrightarrow> \<exists>r'. P r = Inr (v, r') \<and> at_rest r' ys) \<Longrightarrow> parses P xs v"
  by (simp add: parses_def)

lemma parsesE:
  assumes "parses P xs v" and "at_rest r (xs @ ys)"
  obtains r' where "P r = Inr (v, r')" and "at_rest r' ys"
  using assms by (auto simp: parses_def)

lemma parses_take: "length xs = n \<Longrightarrow> parses (reader_take n) xs xs"
proof (rule parsesI)
  fix r ys
  assume n: "length xs = n" and r: "at_rest r (xs @ ys)"
  have "length (payload r) - offset r = n + length ys"
    using r n by (metis at_rest_def length_append length_drop)
  moreover have "bslice (offset r) (offset r + n) (payload r) = xs"
    using r n by (simp add: bslice_def at_rest_def)
  moreover have "drop (n + offset r) (payload r) = ys"
    using r n unfolding at_rest_def by (metis append_eq_conv_conj drop_drop)
  ultimately show "\<exists>r'. reader_take n r = Inr (xs, r') \<and> at_rest r' ys"
    using r by (auto simp: reader_take_def Let_def at_rest_def add.commute)
qed

lemma parses_return: "parses (\<lambda>r. Inr (v, r)) [] v"
  by (simp add: parses_def)

lemma parses_bind:
  assumes P: "parses P xs v" and Q: "parses (\<lambda>r. Q (v, r)) ys w"
  shows "parses (\<lambda>r. bindE (P r) Q) (xs @ ys) w"
proof (rule parsesI)
  fix r zs
  assume "at_rest r ((xs @ ys) @ zs)"
  then have r: "at_rest r (xs @ (ys @ zs))" by simp
  obtain r1 where 1: "P r = Inr (v, r1)" "at_rest r1 (ys @ zs)"
    using parsesE [OF P r] .
  obtain r2 where "Q (v, r1) = Inr (w, r2)" "at_rest r2 zs"
    using parsesE [OF Q 1(2)] .
  with 1 show "\<exists>r'. bindE (P r) Q = Inr (w, r') \<and> at_rest r' zs" by simp
qed

lemma parses_map:
  assumes "parses P xs v" and "\<And>r. Q (v, r) = Inr (w, r)"
  shows "parses (\<lambda>r. bindE (P r) Q) xs w"
  using parses_bind [OF assms(1), of Q "[]" w] assms(2) by (simp add: parses_return)

text \<open>The interface of a fixed-width wire field: its writer appends what its reader consumes.\<close>

locale wire_field = fixed_codec +
  fixes wr :: "bytes \<Rightarrow> 'a \<Rightarrow> bytes" and rd :: "Reader \<Rightarrow> ProtocolError + ('a \<times> Reader)"
  assumes wr_eq: "wr p v = p @ enc v"
    and rd_eq: "rd r = bindE (reader_take width r) (\<lambda>(b, r). Inr (dec b, r))"
begin

lemma parses_field: "parses rd (enc v) v"
proof -
  have "rd = (\<lambda>r. bindE (reader_take width r) (\<lambda>(b, r). Inr (dec b, r)))"
    by (simp add: rd_eq fun_eq_iff)
  then show ?thesis
    by (simp only:) (rule parses_map, rule parses_take, simp_all)
qed

end

interpretation wire_u16: wire_field "to_be 2" from_be 2 write_u16 reader_u16
  by unfold_locales (simp_all add: write_u16_def reader_u16_def)
interpretation wire_u32: wire_field "to_be 4" from_be 4 write_u32 reader_u32
  by unfold_locales (simp_all add: write_u32_def reader_u32_def)
interpretation wire_u64: wire_field "to_be 8" from_be 8 write_u64 reader_u64
  by unfold_locales (simp_all add: write_u64_def reader_u64_def)
interpretation wire_i64: wire_field "to_be 8" from_be 8 write_i64 reader_i64
  by unfold_locales (simp_all add: write_i64_def reader_i64_def)

lemmas write_eqs = wire_u16.wr_eq wire_u32.wr_eq wire_u64.wr_eq wire_i64.wr_eq
lemmas parses_fields = wire_u16.parses_field wire_u32.parses_field wire_u64.parses_field
  wire_i64.parses_field

section \<open>Round trip\<close>

text \<open>
  Rust strings are valid UTF-8 by type, and \<open>serde_json\<close> documents that parsing what it printed
  gives the object back (for maps whose numbers are finite): both are the hypotheses \<open>row_ok\<close> and
  \<open>frame_ok\<close> collect.
\<close>

definition serde_ok :: "'n serde_ops \<Rightarrow> 'n json_map \<Rightarrow> bool" where
  "serde_ok sd m \<longleftrightarrow>
     (case to_vec sd (Object m) of Inl _ \<Rightarrow> True | Inr bs \<Rightarrow> from_slice sd bs = Inr (Object m))"

definition node_row_ok :: "'n serde_ops \<Rightarrow> 'n NodeRow \<Rightarrow> bool" where
  "node_row_ok sd row \<longleftrightarrow> list_all utf8_valid (labels row) \<and> serde_ok sd (node_properties row)"

definition edge_row_ok :: "'n serde_ops \<Rightarrow> 'n EdgeRow \<Rightarrow> bool" where
  "edge_row_ok sd row \<longleftrightarrow> utf8_valid (rel_type row) \<and> serde_ok sd (edge_properties row)"

fun mutation_ok :: "'n serde_ops \<Rightarrow> 'n Mutation \<Rightarrow> bool" where
  "mutation_ok sd (NodeInsert new) = node_row_ok sd new"
| "mutation_ok sd (NodeUpdate old new) = (node_row_ok sd old \<and> node_row_ok sd new)"
| "mutation_ok sd (NodeDelete old) = node_row_ok sd old"
| "mutation_ok sd (EdgeInsert new) = edge_row_ok sd new"
| "mutation_ok sd (EdgeUpdate old new) = (edge_row_ok sd old \<and> edge_row_ok sd new)"
| "mutation_ok sd (EdgeDelete old) = edge_row_ok sd old"
| "mutation_ok sd GraphReset = True"

fun frame_ok :: "'n serde_ops \<Rightarrow> 'n Frame \<Rightarrow> bool" where
  "frame_ok sd (MutationFrame lsn m) = mutation_ok sd m"
| "frame_ok sd _ = True"

lemma unat_of_nat_small [simp]: "n < 2 ^ LENGTH('a) \<Longrightarrow> unat (of_nat n :: 'a::len word) = n"
  by (simp add: unat_of_nat take_bit_nat_eq_self)

lemma write_bytes_parses:
  assumes "write_bytes p field value = Inr q"
  shows "\<exists>xs. q = p @ xs \<and> parses (reader_bytes field) xs value"
proof (intro exI conjI)
  have len: "length value \<le> MAX_FIELD_BYTES"
    using assms by (auto simp: write_bytes_def split: if_splits)
  then have u: "unat (of_nat (length value) :: u32) = length value"
    by (simp add: cdc_consts)
  show "q = p @ (to_be 4 (of_nat (length value) :: u32) @ value)"
    using assms by (auto simp: write_bytes_def write_eqs split: if_splits)
  show "parses (reader_bytes field) (to_be 4 (of_nat (length value) :: u32) @ value) value"
    unfolding reader_bytes_def [abs_def]
    by (rule parses_bind [OF parses_fields(2)]) (use len u in \<open>simp add: parses_take\<close>)
qed

lemma write_string_parses:
  assumes "write_string p field s = Inr q" and "utf8_valid s"
  shows "\<exists>xs. q = p @ xs \<and> parses (reader_string field) xs s"
proof -
  obtain xs where "q = p @ xs" and P: "parses (reader_bytes field) xs s"
    using write_bytes_parses assms(1) unfolding write_string_def by blast
  moreover have "parses (reader_string field) xs s"
  proof (rule parsesI)
    fix r ys assume "at_rest r (xs @ ys)"
    with P obtain r' where "reader_bytes field r = Inr (s, r')" "at_rest r' ys" by (rule parsesE)
    then show "\<exists>r'. reader_string field r = Inr (s, r') \<and> at_rest r' ys"
      using assms(2) by (simp add: reader_string_def)
  qed
  ultimately show ?thesis by blast
qed

lemma write_properties_parses:
  assumes "write_properties sd p m = Inr q" and "serde_ok sd m"
  shows "\<exists>xs. q = p @ xs \<and> parses (reader_properties sd) xs m"
proof -
  obtain json where json: "to_vec sd (Object m) = Inr json"
    and w: "write_bytes p ''properties'' json = Inr q"
    using assms(1) by (auto simp: write_properties_def split: sum.splits)
  have law: "from_slice sd json = Inr (Object m)" using assms(2) json by (simp add: serde_ok_def)
  obtain xs where "q = p @ xs" and P: "parses (reader_bytes ''properties'') xs json"
    using write_bytes_parses [OF w] by blast
  moreover have "parses (reader_properties sd) xs m"
  proof (rule parsesI)
    fix r ys assume "at_rest r (xs @ ys)"
    with P obtain r' where "reader_bytes ''properties'' r = Inr (json, r')" "at_rest r' ys"
      by (rule parsesE)
    then show "\<exists>r'. reader_properties sd r = Inr (m, r') \<and> at_rest r' ys"
      using law by (simp add: reader_properties_def)
  qed
  ultimately show ?thesis by blast
qed

lemma write_labels_parses:
  "write_labels p ls = Inr q \<Longrightarrow> list_all utf8_valid ls \<Longrightarrow>
   \<exists>xs. q = p @ xs \<and> parses (reader_labels (length ls)) xs ls"
proof (induction ls arbitrary: p)
  case Nil
  then show ?case by (simp add: parses_def)
next
  case (Cons l ls)
  then obtain p1 where w: "write_string p ''label'' l = Inr p1" and v: "utf8_valid l"
    and rest: "write_labels p1 ls = Inr q" "list_all utf8_valid ls"
    by (auto simp: bindE_eq_Inr)
  obtain xs where p1: "p1 = p @ xs" and X: "parses (reader_string ''label'') xs l"
    using write_string_parses [OF w v] by blast
  obtain ys where q: "q = p1 @ ys" and Y: "parses (reader_labels (length ls)) ys ls"
    using Cons.IH [OF rest] by blast
  have "parses (\<lambda>r. bindE (reader_labels (length ls) r) (\<lambda>(ls, r). Inr (l # ls, r))) ys (l # ls)"
    by (rule parses_map [OF Y]) simp
  then have "parses (\<lambda>r. reader_labels (length (l # ls)) r) (xs @ ys) (l # ls)"
    unfolding list.size add_Suc_right add_0_right reader_labels.simps
    by (intro parses_bind [OF X]) simp
  then show ?case using p1 q by auto
qed

lemma encode_node_parses:
  assumes "encode_node sd p row = Inr q" and "node_row_ok sd row"
  shows "\<exists>xs. q = p @ xs \<and> parses (reader_node sd) xs row"
proof -
  let ?n = "length (labels row)" and ?id = "to_be 8 (node_id row)"
  have n: "?n \<le> MAX_LABELS" and fits: "?n \<le> U16_MAX"
    using assms(1) by (auto simp: encode_node_def split: if_splits)
  let ?cnt = "to_be 2 (of_nat ?n :: u16)"
  obtain p1 where w: "write_labels (p @ ?id @ ?cnt) (labels row) = Inr p1"
    and pr: "write_properties sd p1 (node_properties row) = Inr q"
    using assms(1) n fits by (auto simp: encode_node_def write_eqs bindE_eq_Inr split: if_splits)
  obtain ls where p1: "p1 = p @ ?id @ ?cnt @ ls"
    and L: "parses (reader_labels ?n) ls (labels row)"
    using write_labels_parses [OF w] assms(2) by (auto simp: node_row_ok_def)
  obtain ps where q: "q = p1 @ ps" and P: "parses (reader_properties sd) ps (node_properties row)"
    using write_properties_parses [OF pr] assms(2) by (auto simp: node_row_ok_def)
  have u: "unat (of_nat ?n :: u16) = ?n" using n by (simp add: cdc_consts)
  have "parses (reader_node sd) (?id @ ?cnt @ ls @ ps) row"
  proof (rule parsesI)
    fix r ys
    assume r: "at_rest r ((?id @ ?cnt @ ls @ ps) @ ys)"
    obtain r1 where 1: "reader_i64 r = Inr (node_id row, r1)" "at_rest r1 (?cnt @ ls @ ps @ ys)"
      using parsesE [OF parses_fields(4) r [unfolded append_assoc]] .
    obtain r2 where 2: "reader_u16 r1 = Inr (of_nat ?n, r2)" "at_rest r2 (ls @ ps @ ys)"
      using parsesE [OF parses_fields(1) 1(2)] .
    obtain r3 where 3: "reader_labels ?n r2 = Inr (labels row, r3)" "at_rest r3 (ps @ ys)"
      using parsesE [OF L 2(2)] .
    obtain r4 where 4: "reader_properties sd r3 = Inr (node_properties row, r4)" "at_rest r4 ys"
      using parsesE [OF P 3(2)] .
    show "\<exists>r'. reader_node sd r = Inr (row, r') \<and> at_rest r' ys"
      using 1 2 3 4 u n by (simp add: reader_node_def)
  qed
  then show ?thesis using p1 q by auto
qed

lemma encode_edge_parses:
  assumes "encode_edge sd p row = Inr q" and "edge_row_ok sd row"
  shows "\<exists>xs. q = p @ xs \<and> parses (reader_edge sd) xs row"
proof -
  let ?id = "to_be 8 (rel_id row)"
  let ?st = "to_be 8 (source_node_id row) @ to_be 8 (target_node_id row)"
  obtain p1 where w: "write_string (p @ ?id) ''relationship type'' (rel_type row) = Inr p1"
    and pr: "write_properties sd (p1 @ ?st) (edge_properties row) = Inr q"
    using assms(1) by (auto simp: encode_edge_def write_eqs bindE_eq_Inr)
  obtain ts where p1: "p1 = p @ ?id @ ts"
    and T: "parses (reader_string ''relationship type'') ts (rel_type row)"
    using write_string_parses [OF w] assms(2) by (auto simp: edge_row_ok_def)
  obtain ps where q: "q = (p1 @ ?st) @ ps"
    and P: "parses (reader_properties sd) ps (edge_properties row)"
    using write_properties_parses [OF pr] assms(2) by (auto simp: edge_row_ok_def)
  have "parses (reader_edge sd) (?id @ ts @ ?st @ ps) row"
  proof (rule parsesI)
    fix r ys
    assume r: "at_rest r ((?id @ ts @ ?st @ ps) @ ys)"
    obtain r1 where 1: "reader_i64 r = Inr (rel_id row, r1)" "at_rest r1 (ts @ ?st @ ps @ ys)"
      using parsesE [OF parses_fields(4) r [unfolded append_assoc]] by auto
    obtain r2 where 2: "reader_string ''relationship type'' r1 = Inr (rel_type row, r2)"
        "at_rest r2 (to_be 8 (source_node_id row) @ to_be 8 (target_node_id row) @ ps @ ys)"
      using parsesE [OF T 1(2)] by auto
    obtain r3 where 3: "reader_i64 r2 = Inr (source_node_id row, r3)"
        "at_rest r3 (to_be 8 (target_node_id row) @ ps @ ys)"
      using parsesE [OF parses_fields(4) 2(2)] .
    obtain r4 where 4: "reader_i64 r3 = Inr (target_node_id row, r4)" "at_rest r4 (ps @ ys)"
      using parsesE [OF parses_fields(4) 3(2)] .
    obtain r5 where 5: "reader_properties sd r4 = Inr (edge_properties row, r5)" "at_rest r5 ys"
      using parsesE [OF P 4(2)] .
    show "\<exists>r'. reader_edge sd r = Inr (row, r') \<and> at_rest r' ys"
      using 1 2 3 4 5 by (simp add: reader_edge_def)
  qed
  then show ?thesis using p1 q by auto
qed

lemma encode_mutation_payload_parses:
  assumes "encode_mutation_payload sd p m = Inr q" and "mutation_ok sd m"
  shows "\<exists>xs. q = p @ xs \<and> parses (decode_mutation_payload sd (mutation_kind m)) xs m"
proof (cases m)
  case (NodeInsert new)
  then obtain xs where "q = p @ xs" and X: "parses (reader_node sd) xs new"
    using assms encode_node_parses [of sd p new q] by auto
  moreover have "parses (decode_mutation_payload sd KIND_NODE_INSERT) xs (NodeInsert new)"
    unfolding decode_mutation_payload_def [abs_def] by (simp add: parses_map [OF X])
  ultimately show ?thesis using NodeInsert by auto
next
  case (NodeUpdate old new)
  then obtain p1 where e: "encode_node sd p old = Inr p1" "encode_node sd p1 new = Inr q"
    using assms by (auto simp: bindE_eq_Inr)
  obtain xs where p1: "p1 = p @ xs" and X: "parses (reader_node sd) xs old"
    using encode_node_parses [OF e(1)] assms NodeUpdate by auto
  obtain ys where q: "q = p1 @ ys" and Y: "parses (reader_node sd) ys new"
    using encode_node_parses [OF e(2)] assms NodeUpdate by auto
  have "parses (decode_mutation_payload sd KIND_NODE_UPDATE) (xs @ ys) (NodeUpdate old new)"
    unfolding decode_mutation_payload_def [abs_def]
    by (simp add: cdc_kinds) (rule parses_bind [OF X], simp add: parses_map [OF Y])
  then show ?thesis using NodeUpdate p1 q by auto
next
  case (NodeDelete old)
  then obtain xs where "q = p @ xs" and X: "parses (reader_node sd) xs old"
    using assms encode_node_parses [of sd p old q] by auto
  moreover have "parses (decode_mutation_payload sd KIND_NODE_DELETE) xs (NodeDelete old)"
    unfolding decode_mutation_payload_def [abs_def] by (simp add: cdc_kinds parses_map [OF X])
  ultimately show ?thesis using NodeDelete by auto
next
  case (EdgeInsert new)
  then obtain xs where "q = p @ xs" and X: "parses (reader_edge sd) xs new"
    using assms encode_edge_parses [of sd p new q] by auto
  moreover have "parses (decode_mutation_payload sd KIND_EDGE_INSERT) xs (EdgeInsert new)"
    unfolding decode_mutation_payload_def [abs_def] by (simp add: cdc_kinds parses_map [OF X])
  ultimately show ?thesis using EdgeInsert by auto
next
  case (EdgeUpdate old new)
  then obtain p1 where e: "encode_edge sd p old = Inr p1" "encode_edge sd p1 new = Inr q"
    using assms by (auto simp: bindE_eq_Inr)
  obtain xs where p1: "p1 = p @ xs" and X: "parses (reader_edge sd) xs old"
    using encode_edge_parses [OF e(1)] assms EdgeUpdate by auto
  obtain ys where q: "q = p1 @ ys" and Y: "parses (reader_edge sd) ys new"
    using encode_edge_parses [OF e(2)] assms EdgeUpdate by auto
  have "parses (decode_mutation_payload sd KIND_EDGE_UPDATE) (xs @ ys) (EdgeUpdate old new)"
    unfolding decode_mutation_payload_def [abs_def]
    by (simp add: cdc_kinds) (rule parses_bind [OF X], simp add: parses_map [OF Y])
  then show ?thesis using EdgeUpdate p1 q by auto
next
  case (EdgeDelete old)
  then obtain xs where "q = p @ xs" and X: "parses (reader_edge sd) xs old"
    using assms encode_edge_parses [of sd p old q] by auto
  moreover have "parses (decode_mutation_payload sd KIND_EDGE_DELETE) xs (EdgeDelete old)"
    unfolding decode_mutation_payload_def [abs_def] by (simp add: cdc_kinds parses_map [OF X])
  ultimately show ?thesis using EdgeDelete by auto
next
  case GraphReset
  moreover have "parses (decode_mutation_payload sd KIND_GRAPH_RESET) [] GraphReset"
    unfolding decode_mutation_payload_def [abs_def] by (simp add: cdc_kinds parses_return)
  ultimately show ?thesis using assms by auto
qed

lemma mutation_kind_cases:
  "mutation_kind m \<in> {KIND_NODE_INSERT, KIND_NODE_UPDATE, KIND_NODE_DELETE, KIND_EDGE_INSERT,
     KIND_EDGE_UPDATE, KIND_EDGE_DELETE, KIND_GRAPH_RESET}"
  by (cases m) auto

lemma mutation_kind_not_txn [simp]:
  "mutation_kind m \<noteq> KIND_BEGIN" "mutation_kind m \<noteq> KIND_COMMIT"
  by (cases m; simp add: cdc_kinds)+

lemma frame_payload_parses:
  assumes "frame_payload sd f = Inr (k, p)" and "frame_ok sd f"
  shows "parses (decode_payload sd k) p f"
proof (cases f)
  case (Begin xid)
  then show ?thesis using assms unfolding decode_payload_def [abs_def] frame_payload_def
    by (auto simp: write_eqs parses_map [OF parses_fields(2)])
next
  case (Commit xid c e)
  have "k = KIND_COMMIT" and "p = to_be 4 xid @ to_be 8 c @ to_be 8 e"
    using assms Commit by (auto simp: frame_payload_def write_eqs)
  then show ?thesis unfolding Commit decode_payload_def [abs_def]
    by (simp add: cdc_kinds)
      (rule parses_bind [OF parses_fields(2)], simp,
       rule parses_bind [OF parses_fields(3)], simp add: parses_map [OF parses_fields(3)])
next
  case (MutationFrame lsn m)
  then obtain q where e: "encode_mutation_payload sd (to_be 8 lsn) m = Inr q"
    and k: "k = mutation_kind m" and p: "p = q"
    using assms by (auto simp: frame_payload_def write_eqs bindE_eq_Inr)
  obtain xs where q: "q = to_be 8 lsn @ xs"
    and X: "parses (decode_mutation_payload sd k) xs m"
    using encode_mutation_payload_parses [OF e] assms MutationFrame k by auto
  have "decode_payload sd k = (\<lambda>r. bindE (reader_u64 r) (\<lambda>(event_lsn, r).
        bindE (decode_mutation_payload sd k r) (\<lambda>(m, r). Inr (MutationFrame event_lsn m, r))))"
    using mutation_kind_cases [of m] k by (auto simp: decode_payload_def fun_eq_iff)
  then show ?thesis unfolding MutationFrame p q
    by (simp only:) (rule parses_bind [OF parses_fields(3)], simp add: parses_map [OF X])
qed

lemma frame_header:
  fixes p :: bytes
  assumes "length p \<le> U32_MAX"
  shows "length (frame_bytes k p) = HEADER_LEN + length p"
    and "bslice 0 4 (frame_bytes k p) = PROTOCOL_MAGIC"
    and "(from_be (bslice 4 6 (frame_bytes k p)) :: u16) = PROTOCOL_MAJOR"
    and "frame_bytes k p ! 6 = k" and "frame_bytes k p ! 7 = 0"
    and "unat (from_be (bslice 8 12 (frame_bytes k p)) :: u32) = length p"
    and "drop HEADER_LEN (frame_bytes k p) = p"
  using assms
  by (simp_all add: frame_bytes_def PROTOCOL_MAGIC_def HEADER_LEN_def bslice_def nth_append
      drop_Cons' U32_MAX_def nth_Cons')

lemma decode_frame_bytes:
  assumes "length p \<le> MAX_FRAME_PAYLOAD_BYTES"
  shows "decode_frame sd (frame_bytes k p) =
    bindE (decode_payload sd k (reader_new p)) (\<lambda>(frame, r). bindE (reader_finish r) (\<lambda>_. Inr frame))"
proof -
  have "length p \<le> U32_MAX" using assms by (simp add: cdc_consts)
  note h = frame_header [OF this]
  show ?thesis unfolding decode_frame_def Let_def h using assms by simp
qed

lemma frame_roundtrip:
  assumes "encode_frame sd f = Inr bs" and "frame_ok sd f"
  shows "decode_frame sd bs = Inr f"
proof -
  obtain k p where fp: "frame_payload sd f = Inr (k, p)" and bs: "bs = frame_bytes k p"
    and len: "length p \<le> MAX_FRAME_PAYLOAD_BYTES"
    using assms(1) by (auto simp: encode_frame_def bindE_eq_Inr split: if_splits)
  have "at_rest (reader_new p) (p @ [])" by (simp add: at_rest_def reader_new_def)
  then obtain r where "decode_payload sd k (reader_new p) = Inr (f, r)" and "at_rest r []"
    using parsesE [OF frame_payload_parses [OF fp assms(2)]] by blast
  then show ?thesis
    by (simp add: bs decode_frame_bytes len reader_finish_def at_rest_def Let_def)
qed


definition serde_demo :: "unit serde_ops" where
  "serde_demo = \<lparr>to_vec = (\<lambda>j. Inr [0x7B, 0x7D]), from_slice = (\<lambda>b. Inr (Object []))\<rparr>"


text \<open>
  Logical messages: the payload the producer hands to WAL for a mutation is decoded by the
  output plugin to that mutation.
\<close>

theorem decode_encode_logical_message:
  assumes "encode_logical_message sd m = Inr bs" and "mutation_ok sd m"
  shows "decode_logical_message sd bs = Inr m"
proof -
  have "decode_frame sd bs = Inr (MutationFrame PLACEHOLDER_EVENT_LSN m)"
    using assms by (intro frame_roundtrip) (simp_all add: encode_logical_message_def)
  then show ?thesis by (simp add: decode_logical_message_def)
qed

lemma decode_encode_logical_message_witness:
  "decode_logical_message serde_demo (frame_bytes KIND_GRAPH_RESET (to_be 8 (0 :: u64))) =
     Inr GraphReset"
proof -
  have "encode_logical_message serde_demo GraphReset =
      Inr (frame_bytes KIND_GRAPH_RESET (to_be 8 (0 :: u64)))"
    by (simp add: encode_logical_message_def encode_frame_def frame_payload_def write_eqs cdc_consts)
  from decode_encode_logical_message [OF this] show ?thesis by simp
qed

section \<open>What the decoder accepts\<close>

text \<open>A reader action that succeeds stays inside the payload.\<close>

definition advances :: "(Reader \<Rightarrow> ProtocolError + ('a \<times> Reader)) \<Rightarrow> bool" where
  "advances P \<longleftrightarrow> (\<forall>r v r'. P r = Inr (v, r') \<longrightarrow> offset r \<le> length (payload r) \<longrightarrow>
     payload r' = payload r \<and> offset r \<le> offset r' \<and> offset r' \<le> length (payload r))"

lemma advancesI:
  "(\<And>r v r'. P r = Inr (v, r') \<Longrightarrow> offset r \<le> length (payload r) \<Longrightarrow>
     payload r' = payload r \<and> offset r \<le> offset r' \<and> offset r' \<le> length (payload r)) \<Longrightarrow> advances P"
  unfolding advances_def by blast

lemma advancesD:
  "advances P \<Longrightarrow> P r = Inr (v, r') \<Longrightarrow> offset r \<le> length (payload r) \<Longrightarrow>
     payload r' = payload r \<and> offset r \<le> offset r' \<and> offset r' \<le> length (payload r)"
  unfolding advances_def by blast

lemma advances_bind:
  assumes P: "advances P" and Q: "\<And>v. advances (Q v)"
  shows "advances (\<lambda>r. bindE (P r) (\<lambda>(v, r). Q v r))"
proof (rule advancesI)
  fix r v r'
  assume b: "bindE (P r) (\<lambda>(v, r). Q v r) = Inr (v, r')" and le: "offset r \<le> length (payload r)"
  obtain a r1 where 1: "P r = Inr (a, r1)" and 2: "Q a r1 = Inr (v, r')"
    using b by (auto simp: bindE_eq_Inr)
  have A: "payload r1 = payload r \<and> offset r \<le> offset r1 \<and> offset r1 \<le> length (payload r)"
    using advancesD [OF P 1 le] .
  then have "offset r1 \<le> length (payload r1)" by simp
  from advancesD [OF Q 2 this] A
  show "payload r' = payload r \<and> offset r \<le> offset r' \<and> offset r' \<le> length (payload r)" by auto
qed

lemma advances_return: "advances (\<lambda>r. Inr (v, r))"
  by (simp add: advances_def)

lemma advances_fail: "advances (\<lambda>r. Inl e)"
  by (simp add: advances_def)

lemma advances_if: "advances P \<Longrightarrow> advances Q \<Longrightarrow> advances (\<lambda>r. if b then P r else Q r)"
  by (cases b) simp_all

lemmas advances_intros = advances_bind advances_if advances_return advances_fail

lemma advances_take: "advances (reader_take n)"
  by (rule advancesI) (auto simp: reader_take_def Let_def split: if_splits)

lemma advances_fields:
  "advances reader_u16" "advances reader_u32" "advances reader_u64" "advances reader_i64"
  unfolding reader_u16_def [abs_def] reader_u32_def [abs_def] reader_u64_def [abs_def]
    reader_i64_def [abs_def]
  by (intro advances_intros advances_take)+

lemma advances_bytes: "advances (reader_bytes field)"
  unfolding reader_bytes_def [abs_def] by (intro advances_intros advances_take advances_fields)

lemma advances_string: "advances (reader_string field)"
  unfolding reader_string_def [abs_def] by (intro advances_intros advances_bytes)

lemma advances_properties: "advances (reader_properties sd)"
  unfolding reader_properties_def [abs_def]
  by (intro advances_bind advances_bytes)
    (auto simp: advances_def split: sum.splits option.splits)

lemma advances_labels: "advances (reader_labels n)"
proof (induction n)
  case 0
  then show ?case by (simp add: advances_def)
next
  case (Suc n)
  have "advances (\<lambda>r. reader_labels (Suc n) r)"
    unfolding reader_labels.simps by (intro advances_intros advances_string Suc)
  then show ?case by simp
qed

lemmas advances_base = advances_fields advances_string advances_properties advances_labels

lemma advances_node: "advances (reader_node sd)"
  unfolding reader_node_def [abs_def] by (intro advances_intros advances_base)

lemma advances_edge: "advances (reader_edge sd)"
  unfolding reader_edge_def [abs_def] by (intro advances_intros advances_base)

lemma advances_mutation: "advances (decode_mutation_payload sd k)"
  unfolding decode_mutation_payload_def [abs_def]
  by (intro advances_intros advances_node advances_edge)

lemma advances_payload: "advances (decode_payload sd k)"
  unfolding decode_payload_def [abs_def]
  by (intro advances_intros advances_fields advances_mutation)

subsection \<open>Bounds on decoded rows\<close>

definition str_bounded :: "rust_str \<Rightarrow> bool" where
  "str_bounded s \<longleftrightarrow> utf8_valid s \<and> length s \<le> MAX_FIELD_BYTES"

definition node_bounded :: "'n NodeRow \<Rightarrow> bool" where
  "node_bounded row \<longleftrightarrow> length (labels row) \<le> MAX_LABELS \<and> list_all str_bounded (labels row)"

definition edge_bounded :: "'n EdgeRow \<Rightarrow> bool" where
  "edge_bounded row \<longleftrightarrow> str_bounded (rel_type row)"

fun mutation_bounded :: "'n Mutation \<Rightarrow> bool" where
  "mutation_bounded (NodeInsert new) = node_bounded new"
| "mutation_bounded (NodeUpdate old new) = (node_bounded old \<and> node_bounded new)"
| "mutation_bounded (NodeDelete old) = node_bounded old"
| "mutation_bounded (EdgeInsert new) = edge_bounded new"
| "mutation_bounded (EdgeUpdate old new) = (edge_bounded old \<and> edge_bounded new)"
| "mutation_bounded (EdgeDelete old) = edge_bounded old"
| "mutation_bounded GraphReset = True"

fun frame_bounded :: "'n Frame \<Rightarrow> bool" where
  "frame_bounded (MutationFrame lsn m) = mutation_bounded m"
| "frame_bounded _ = True"

lemma reader_take_length: "reader_take n r = Inr (xs, r') \<Longrightarrow> length xs = n"
  by (auto simp: reader_take_def Let_def bslice_def split: if_splits)

lemma reader_string_bounded: "reader_string field r = Inr (s, r') \<Longrightarrow> str_bounded s"
  by (auto simp: reader_string_def reader_bytes_def bindE_eq_Inr str_bounded_def
      dest: reader_take_length split: if_splits)

lemma reader_labels_bounded:
  "reader_labels n r = Inr (ls, r') \<Longrightarrow> length ls = n \<and> list_all str_bounded ls"
  by (induction n arbitrary: r ls r') (auto simp: bindE_eq_Inr dest: reader_string_bounded)

lemma reader_node_bounded: "reader_node sd r = Inr (row, r') \<Longrightarrow> node_bounded row"
  by (auto simp: reader_node_def bindE_eq_Inr node_bounded_def dest: reader_labels_bounded
      split: if_splits)

lemma reader_edge_bounded: "reader_edge sd r = Inr (row, r') \<Longrightarrow> edge_bounded row"
  by (auto simp: reader_edge_def bindE_eq_Inr edge_bounded_def dest: reader_string_bounded)

lemma decode_mutation_bounded:
  "decode_mutation_payload sd k r = Inr (m, r') \<Longrightarrow> mutation_bounded m \<and> k = mutation_kind m"
  by (auto simp: decode_mutation_payload_def bindE_eq_Inr
      dest: reader_node_bounded reader_edge_bounded split: if_splits)

fun frame_kind :: "'n Frame \<Rightarrow> u8" where
  "frame_kind (Begin xid) = KIND_BEGIN"
| "frame_kind (Commit xid c e) = KIND_COMMIT"
| "frame_kind (MutationFrame lsn m) = mutation_kind m"

lemma decode_payload_bounded:
  "decode_payload sd k r = Inr (f, r') \<Longrightarrow> frame_bounded f \<and> k = frame_kind f"
  unfolding decode_payload_def
  by (auto simp: bindE_eq_Inr dest: decode_mutation_bounded split: if_splits)

text \<open>
  C23. What the decoder lets through: an accepted frame has the magic, the supported major version,
  no flags, the kind byte of the decoded frame, a declared length equal to the actual payload
  length and at most 16 MiB; its payload was consumed to the last byte; and its strings are
  valid UTF-8 of at most 1 MiB, with at most 4096 labels per row.
\<close>

theorem decode_frame_sound:
  assumes "decode_frame sd bs = Inr f"
  shows "HEADER_LEN \<le> length bs \<and> take 4 bs = PROTOCOL_MAGIC \<and>
    (from_be (bslice 4 6 bs) :: u16) = PROTOCOL_MAJOR \<and> bs ! 6 = frame_kind f \<and> bs ! 7 = 0 \<and>
    unat (from_be (bslice 8 12 bs) :: u32) = length bs - HEADER_LEN \<and>
    length bs - HEADER_LEN \<le> MAX_FRAME_PAYLOAD_BYTES \<and> frame_bounded f \<and>
    (\<exists>r. decode_payload sd (bs ! 6) (reader_new (drop HEADER_LEN bs)) = Inr (f, r) \<and>
       offset r = length bs - HEADER_LEN)"
proof -
  have h: "HEADER_LEN \<le> length bs" "bslice 0 4 bs = PROTOCOL_MAGIC"
      "(from_be (bslice 4 6 bs) :: u16) = PROTOCOL_MAJOR" "bs ! 7 = 0"
      "unat (from_be (bslice 8 12 bs) :: u32) = length bs - HEADER_LEN"
      "length bs - HEADER_LEN \<le> MAX_FRAME_PAYLOAD_BYTES"
    using assms by (auto simp: decode_frame_def Let_def split: if_splits)
  have "bindE (decode_payload sd (bs ! 6) (reader_new (drop HEADER_LEN bs)))
      (\<lambda>(frame, r). bindE (reader_finish r) (\<lambda>_. Inr frame)) = Inr f"
    using assms h by (simp add: decode_frame_def Let_def)
  then obtain r where d: "decode_payload sd (bs ! 6) (reader_new (drop HEADER_LEN bs)) = Inr (f, r)"
    and fin: "reader_finish r = Inr ()"
    by (auto simp: bindE_eq_Inr)
  have adv: "payload r = drop HEADER_LEN bs" "offset r \<le> length bs - HEADER_LEN"
    using advancesD [OF advances_payload d] by (simp_all add: reader_new_def)
  have "offset r = length bs - HEADER_LEN"
    using fin adv by (auto simp: reader_finish_def Let_def split: if_splits)
  with h d decode_payload_bounded [OF d] show ?thesis
    by (auto simp: bslice_def)
qed

lemma decode_frame_sound_witness:
  "frame_bounded (Begin 7 :: unit Frame) \<and>
     frame_bytes KIND_BEGIN (to_be 4 (7 :: u32)) ! 6 = frame_kind (Begin 7 :: unit Frame)"
proof -
  have "encode_frame serde_demo (Begin 7) = Inr (frame_bytes KIND_BEGIN (to_be 4 (7 :: u32)))"
    by (simp add: encode_frame_def frame_payload_def write_eqs cdc_consts)
  then have "decode_frame serde_demo (frame_bytes KIND_BEGIN (to_be 4 (7 :: u32))) = Inr (Begin 7)"
    by (rule frame_roundtrip) simp
  from decode_frame_sound [OF this] show ?thesis by blast
qed

text \<open>
  Frames are self-delimiting: appending bytes to an accepted frame, or cutting it anywhere,
  makes the decoder reject it, and no other header byte than the length field decides this.
\<close>

theorem decode_frame_delimited:
  assumes "decode_frame sd bs = Inr f"
  shows "(\<forall>xs. xs \<noteq> [] \<longrightarrow> decode_frame sd (bs @ xs) =
       Inl (PayloadLengthMismatch (length bs - HEADER_LEN) (length bs + length xs - HEADER_LEN))) \<and>
    (\<forall>n < length bs. decode_frame sd (take n bs) =
       Inl (if n < HEADER_LEN then HeaderTruncated
            else PayloadLengthMismatch (length bs - HEADER_LEN) (n - HEADER_LEN)))"
proof -
  have h: "12 \<le> length bs" "bslice 0 4 bs = PROTOCOL_MAGIC"
      "(from_be (bslice 4 6 bs) :: u16) = PROTOCOL_MAJOR" "bs ! 7 = 0"
      "unat (from_be (bslice 8 12 bs) :: u32) = length bs - 12"
    using assms by (auto simp: decode_frame_def Let_def HEADER_LEN_def split: if_splits)
  have pre: "bslice a b (bs @ xs) = bslice a b bs" if "b \<le> 12" for a b xs
    using that h(1) by (simp add: slice_append_left)
  have cut: "bslice a b (take n bs) = bslice a b bs" if "b \<le> 12" "12 \<le> n" for a b n
    using that by (simp add: bslice_def drop_take min_def)
  have longer: "length bs - 12 \<noteq> length bs + length xs - 12" if "xs \<noteq> []" for xs :: bytes
    using that h(1) by (cases xs) auto
  have "decode_frame sd (bs @ xs) =
      Inl (PayloadLengthMismatch (length bs - 12) (length bs + length xs - 12))" if "xs \<noteq> []" for xs
    using h longer [OF that] by (simp add: decode_frame_def Let_def HEADER_LEN_def pre nth_append)
  moreover have "decode_frame sd (take n bs) = Inl (if n < 12 then HeaderTruncated
      else PayloadLengthMismatch (length bs - 12) (n - 12))" if "n < length bs" for n
  proof (cases "n < 12")
    case True
    with that show ?thesis by (simp add: decode_frame_def HEADER_LEN_def)
  next
    case False
    with that have "length bs - 12 \<noteq> n - 12" by arith
    with False that h show ?thesis by (simp add: decode_frame_def Let_def HEADER_LEN_def cut)
  qed
  ultimately show ?thesis by (simp add: HEADER_LEN_def)
qed

lemma decode_frame_delimited_witness:
  "decode_frame serde_demo (frame_bytes KIND_BEGIN (to_be 4 (7 :: u32)) @ [0]) =
     Inl (PayloadLengthMismatch 4 5)"
proof -
  have e: "encode_frame serde_demo (Begin 7) = Inr (frame_bytes KIND_BEGIN (to_be 4 (7 :: u32)))"
    by (simp add: encode_frame_def frame_payload_def write_eqs cdc_consts)
  have d: "decode_frame serde_demo (frame_bytes KIND_BEGIN (to_be 4 (7 :: u32))) = Inr (Begin 7)"
    by (rule frame_roundtrip [OF e]) simp
  have "length (frame_bytes KIND_BEGIN (to_be 4 (7 :: u32))) = 16"
    by (simp add: frame_bytes_def PROTOCOL_MAGIC_def)
  with decode_frame_delimited [OF d] show ?thesis by (simp add: HEADER_LEN_def)
qed

end
