(* ===== verification/WalDecode.thy ===== *)
theory WalDecode
  imports CdcProtocol
begin

text \<open>
  The two ends of the logical-message stream: the producer of \<open>storage/cdc_message.rs\<close>, which
  writes one transactional message per graph mutation, and the output plugin of
  \<open>storage/wal_decode.rs\<close>, whose callbacks turn a transaction's messages into CDC frames. The
  plugin is a state machine per transaction: its private pointer is NULL until the first pg_eddy
  message, which also emits the \<open>Begin\<close> frame, and the marker afterwards, which makes \<open>commit\<close>
  emit the \<open>Commit\<close> frame.
\<close>

section \<open>The producer\<close>

record logical_message =
  lm_prefix :: bytes
  lm_message :: bytes
  lm_transactional :: bool
  lm_flush :: bool

text \<open>
  \<open>emit\<close> appends to the transaction's list of logical messages (\<open>LogLogicalMessage\<close>); an encoding
  error raises, which aborts the transaction.
\<close>

definition emit ::
    "'n serde_ops \<Rightarrow> logical_message list \<Rightarrow> 'n Mutation \<Rightarrow> ProtocolError + logical_message list" where
  "emit sd log mutation =
     bindE (encode_logical_message sd mutation) (\<lambda>encoded.
       Inr (log @ [\<lparr>lm_prefix = LOGICAL_MESSAGE_PREFIX, lm_message = encoded,
                    lm_transactional = True, lm_flush = False\<rparr>]))"

section \<open>The output plugin\<close>

text \<open>
  The value of \<open>output_plugin_private\<close>: NULL, the address of \<open>TXN_HAS_PG_EDDY_MESSAGES\<close>, or some
  other pointer. Pointer arguments that may be NULL are options. The output is the list of
  \<open>OutputPluginWrite\<close> calls, each with its \<open>last_write\<close> flag.
\<close>

datatype private_ptr = NullPtr | TransactionMarker | OtherPtr

record ReorderBufferTXN =
  xid :: u32
  txn_end_lsn :: u64
  output_plugin_private :: private_ptr

type_synonym plugin_output = "(bool \<times> bytes) list"

datatype plugin_error =
    NullCallbackTable
  | StartupNullState
  | StartupOptionsNotAccepted
  | BeginNullTransaction
  | MessageNullState
  | MessageNullPayload
  | CommitNullState
  | DecodeFailed ProtocolError
  | EncodeFailed ProtocolError
  | FrameExceedsLimit

datatype output_type = BinaryOutput | TextualOutput

record OutputPluginOptions =
  output_type :: output_type
  receive_rewrites :: bool

definition I32_MAX :: nat where "I32_MAX = 2147483647"

definition write_frame ::
    "'n serde_ops \<Rightarrow> plugin_output \<Rightarrow> 'n Frame \<Rightarrow> bool \<Rightarrow> plugin_error + plugin_output" where
  "write_frame sd out frame last_write =
     (case encode_frame sd frame of
        Inl error \<Rightarrow> Inl (EncodeFailed error)
      | Inr encoded \<Rightarrow>
          (if length encoded > I32_MAX then Inl FrameExceedsLimit
           else Inr (out @ [(last_write, encoded)])))"

text \<open>\<open>option_count\<close> is \<open>list_length(context.output_plugin_options)\<close>.\<close>

definition startup ::
    "nat option \<Rightarrow> OutputPluginOptions option \<Rightarrow> plugin_error + OutputPluginOptions" where
  "startup context options =
     (case (context, options) of
        (Some option_count, Some opts) \<Rightarrow>
          (if option_count \<noteq> 0 then Inl StartupOptionsNotAccepted
           else Inr (opts\<lparr>output_type := BinaryOutput, receive_rewrites := False\<rparr>))
      | _ \<Rightarrow> Inl StartupNullState)"

definition begin_cb :: "ReorderBufferTXN option \<Rightarrow> plugin_error + ReorderBufferTXN" where
  "begin_cb transaction =
     (case transaction of None \<Rightarrow> Inl BeginNullTransaction
      | Some t \<Rightarrow> Inr (t\<lparr>output_plugin_private := NullPtr\<rparr>))"

definition change_cb :: "plugin_output \<Rightarrow> ReorderBufferTXN \<Rightarrow> plugin_output \<times> ReorderBufferTXN" where
  "change_cb out t = (out, t)"

definition message_cb ::
    "'n serde_ops \<Rightarrow> plugin_output option \<Rightarrow> ReorderBufferTXN option \<Rightarrow> u64 \<Rightarrow> bool \<Rightarrow> bytes option \<Rightarrow>
     nat \<Rightarrow> bytes option \<Rightarrow> plugin_error + (plugin_output option \<times> ReorderBufferTXN option)" where
  "message_cb sd context transaction message_lsn transactional prefix message_size message_data =
     (if \<not> transactional \<or> prefix = None then Inr (context, transaction)
      else if prefix \<noteq> Some LOGICAL_MESSAGE_PREFIX then Inr (context, transaction)
      else case (context, transaction) of
        (Some out, Some t) \<Rightarrow>
          (if message_size > 0 \<and> message_data = None then Inl MessageNullPayload
           else let payload = (if message_size = 0 then [] else take message_size (the message_data))
           in case decode_logical_message sd payload of
             Inl error \<Rightarrow> Inl (DecodeFailed error)
           | Inr mutation \<Rightarrow>
               bindE (if output_plugin_private t = NullPtr
                      then bindE (write_frame sd out (Begin (xid t)) False)
                             (\<lambda>out. Inr (out, t\<lparr>output_plugin_private := TransactionMarker\<rparr>))
                      else Inr (out, t))
                 (\<lambda>(out, t). bindE (write_frame sd out (MutationFrame message_lsn mutation) False)
                    (\<lambda>out. Inr (Some out, Some t))))
      | _ \<Rightarrow> Inl MessageNullState)"

definition commit_cb ::
    "'n serde_ops \<Rightarrow> plugin_output option \<Rightarrow> ReorderBufferTXN option \<Rightarrow> u64 \<Rightarrow> plugin_error + plugin_output" where
  "commit_cb sd context transaction commit_lsn =
     (case (context, transaction) of
        (Some out, Some t) \<Rightarrow>
          (if output_plugin_private t \<noteq> TransactionMarker then Inr out
           else write_frame sd out (Commit (xid t) commit_lsn (txn_end_lsn t)) True)
      | _ \<Rightarrow> Inl CommitNullState)"

section \<open>A transaction\<close>

text \<open>
  PostgreSQL's reorder buffer calls \<open>begin\<close>, then the change and message callbacks in order, then
  \<open>commit\<close>, with live decoding state.
\<close>

datatype callback =
    ChangeCall
  | MessageCall u64 bool "bytes option" nat "bytes option"

fun run_calls ::
    "'n serde_ops \<Rightarrow> plugin_output \<Rightarrow> ReorderBufferTXN \<Rightarrow> callback list \<Rightarrow>
     plugin_error + (plugin_output \<times> ReorderBufferTXN)" where
  "run_calls sd out t [] = Inr (out, t)"
| "run_calls sd out t (ChangeCall # cs) = (case change_cb out t of (out, t) \<Rightarrow> run_calls sd out t cs)"
| "run_calls sd out t (MessageCall lsn tr pre len data # cs) =
     bindE (message_cb sd (Some out) (Some t) lsn tr pre len data)
       (\<lambda>(o', t'). run_calls sd (the o') (the t') cs)"

definition run_transaction ::
    "'n serde_ops \<Rightarrow> ReorderBufferTXN \<Rightarrow> callback list \<Rightarrow> u64 \<Rightarrow> plugin_error + plugin_output" where
  "run_transaction sd t cs commit_lsn =
     bindE (begin_cb (Some t)) (\<lambda>t.
       bindE (run_calls sd [] t cs) (\<lambda>(out, t). commit_cb sd (Some out) (Some t) commit_lsn))"

text \<open>The message callback PostgreSQL makes for a logged message, and those of a whole log.\<close>

definition deliver :: "u64 \<Rightarrow> logical_message \<Rightarrow> callback" where
  "deliver lsn m = MessageCall lsn (lm_transactional m) (Some (lm_prefix m)) (length (lm_message m))
     (Some (lm_message m))"

section \<open>Encoders append\<close>

text \<open>
  Whether a row can be encoded does not depend on what precedes it in the payload, so a mutation
  that could be logged with the placeholder LSN can be sent with any LSN.
\<close>

definition appends :: "(bytes \<Rightarrow> ProtocolError + bytes) \<Rightarrow> bool" where
  "appends f \<longleftrightarrow> (\<forall>p. f p = map_sum id (\<lambda>xs. p @ xs) (f []))"

lemma appendsD: "appends f \<Longrightarrow> f p = map_sum id (\<lambda>xs. p @ xs) (f [])"
  unfolding appends_def by blast

lemma appends_const: "appends (\<lambda>p. Inr (p @ xs))"
  by (simp add: appends_def)

lemma appends_Inr: "appends Inr"
  by (simp add: appends_def)

lemma appends_Inl: "appends (\<lambda>p. Inl e)"
  by (simp add: appends_def)

lemma appends_bind:
  assumes f: "appends f" and g: "appends g"
  shows "appends (\<lambda>p. bindE (f p) g)"
  unfolding appends_def
proof
  fix p
  show "bindE (f p) g = map_sum id (\<lambda>xs. p @ xs) (bindE (f []) g)"
  proof (cases "f []")
    case (Inl e)
    with appendsD [OF f, of p] show ?thesis by simp
  next
    case (Inr xs)
    have "f p = Inr (p @ xs)" using appendsD [OF f, of p] Inr by simp
    moreover have "g xs = map_sum id (\<lambda>ys. xs @ ys) (g [])"
      and "g (p @ xs) = map_sum id (\<lambda>ys. (p @ xs) @ ys) (g [])"
      by (rule appendsD [OF g])+
    ultimately show ?thesis using Inr by (cases "g []") simp_all
  qed
qed

lemma appends_prefix: "appends g \<Longrightarrow> appends (\<lambda>p. g (p @ xs))"
  using appends_bind [OF appends_const, of g xs] by simp

lemma appends_if: "appends f \<Longrightarrow> appends g \<Longrightarrow> appends (\<lambda>p. if b then f p else g p)"
  by (cases b) simp_all

lemma appends_write_bytes: "appends (\<lambda>p. write_bytes p field value)"
  unfolding write_bytes_def write_eqs append_assoc
  by (intro appends_if appends_const appends_Inl)

lemma appends_write_string: "appends (\<lambda>p. write_string p field s)"
  unfolding write_string_def by (rule appends_write_bytes)

lemma appends_properties: "appends (\<lambda>p. write_properties sd p m)"
  unfolding write_properties_def
  by (cases "to_vec sd (Object m)") (simp_all add: appends_Inl appends_write_bytes)

lemma appends_labels: "appends (\<lambda>p. write_labels p ls)"
  by (induction ls) (simp_all add: appends_Inr appends_bind appends_write_string)

lemma appends_encode_node: "appends (\<lambda>p. encode_node sd p row)"
  unfolding encode_node_def write_eqs append_assoc
  by (intro appends_if appends_Inl appends_bind appends_prefix appends_labels appends_properties)

lemma appends_encode_edge: "appends (\<lambda>p. encode_edge sd p row)"
  unfolding encode_edge_def write_eqs append_assoc
  by (intro appends_bind appends_prefix appends_write_string appends_properties)

lemma appends_encode_mutation: "appends (\<lambda>p. encode_mutation_payload sd p m)"
  by (cases m) (simp_all add: appends_encode_node appends_encode_edge appends_bind appends_Inr)

lemma encode_mutation_after:
  "encode_mutation_payload sd p m = map_sum id (\<lambda>xs. p @ xs) (encode_mutation_payload sd [] m)"
  by (rule appendsD [OF appends_encode_mutation])

lemma encode_any_lsn:
  assumes "encode_logical_message sd m = Inr bs"
  shows "\<exists>bs'. encode_frame sd (MutationFrame lsn m) = Inr bs' \<and> length bs' = length bs"
proof -
  obtain xs where 0: "encode_mutation_payload sd [] m = Inr xs"
    using assms encode_mutation_after [of sd "to_be 8 PLACEHOLDER_EVENT_LSN" m]
    by (cases "encode_mutation_payload sd [] m")
      (auto simp: encode_logical_message_def encode_frame_def frame_payload_def write_eqs)
  have "encode_mutation_payload sd (to_be 8 l) m = Inr (to_be 8 l @ xs)" for l :: u64
    using encode_mutation_after [of sd "to_be 8 l" m] 0 by simp
  with assms show ?thesis
    by (auto simp: encode_logical_message_def encode_frame_def frame_payload_def write_eqs
        frame_bytes_def split: if_splits)
qed

lemma encode_frame_length: "encode_frame sd f = Inr bs \<Longrightarrow> length bs \<le> 12 + MAX_FRAME_PAYLOAD_BYTES"
  by (auto simp: encode_frame_def bindE_eq_Inr frame_bytes_def PROTOCOL_MAGIC_def split: if_splits)

lemma write_frame_ok:
  "encode_frame sd f = Inr bs \<Longrightarrow> write_frame sd out f l = Inr (out @ [(l, bs)])"
  using encode_frame_length [of sd f bs]
  by (simp add: write_frame_def I32_MAX_def MAX_FRAME_PAYLOAD_BYTES_def)

section \<open>What a transaction sends\<close>

text \<open>
  \<open>delivers sd cs ms\<close>: the callbacks \<open>cs\<close> are those of a transaction that emitted the mutations
  \<open>ms\<close> at the given LSNs, mixed with heap changes and with messages of other extensions.
\<close>

inductive delivers ::
    "'n serde_ops \<Rightarrow> callback list \<Rightarrow> (u64 \<times> 'n Mutation) list \<Rightarrow> bool" for sd where
  delivers_Nil: "delivers sd [] []"
| delivers_change: "delivers sd cs ms \<Longrightarrow> delivers sd (ChangeCall # cs) ms"
| delivers_foreign: "delivers sd cs ms \<Longrightarrow> \<not> tr \<or> pre \<noteq> Some LOGICAL_MESSAGE_PREFIX \<Longrightarrow>
    delivers sd (MessageCall lsn tr pre len data # cs) ms"
| delivers_graph: "delivers sd cs ms \<Longrightarrow> emit sd [] m = Inr [lm] \<Longrightarrow> mutation_ok sd m \<Longrightarrow>
    delivers sd (deliver lsn lm # cs) ((lsn, m) # ms)"

fun txn_frames :: "ReorderBufferTXN \<Rightarrow> (u64 \<times> 'n Mutation) list \<Rightarrow> u64 \<Rightarrow> 'n Frame list" where
  "txn_frames t [] commit_lsn = []"
| "txn_frames t (lm # ms) commit_lsn =
     Begin (xid t) # map (\<lambda>(lsn, m). MutationFrame lsn m) (lm # ms) @
     [Commit (xid t) commit_lsn (txn_end_lsn t)]"

text \<open>The frames carried by a list of writes, none of them marked as the last write.\<close>

definition carries :: "'n serde_ops \<Rightarrow> plugin_output \<Rightarrow> 'n Frame list \<Rightarrow> bool" where
  "carries sd out fs \<longleftrightarrow>
     map (\<lambda>w. decode_frame sd (snd w)) out = map Inr fs \<and> (\<forall>w \<in> set out. \<not> fst w)"

lemma carries_Nil [simp]: "carries sd [] fs \<longleftrightarrow> fs = []"
  by (auto simp: carries_def)

lemma carries_append: "carries sd out fs \<Longrightarrow> carries sd out' gs \<Longrightarrow> carries sd (out @ out') (fs @ gs)"
  by (auto simp: carries_def)

lemma write_frame_carries:
  "encode_frame sd f = Inr bs \<Longrightarrow> frame_ok sd f \<Longrightarrow>
   \<exists>w. write_frame sd out f False = Inr (out @ w) \<and> carries sd w [f]"
  using frame_roundtrip [of sd f bs] by (auto simp: write_frame_ok carries_def)

lemma encode_begin: "encode_frame sd (Begin x) = Inr (frame_bytes KIND_BEGIN (to_be 4 x))"
  by (simp add: encode_frame_def frame_payload_def write_eqs cdc_consts)

lemma encode_commit:
  "encode_frame sd (Commit x c e) = Inr (frame_bytes KIND_COMMIT (to_be 4 x @ to_be 8 c @ to_be 8 e))"
  by (simp add: encode_frame_def frame_payload_def write_eqs cdc_consts)

lemma message_emitted:
  assumes "emit sd [] m = Inr [lm]" and ok: "mutation_ok sd m"
  shows "\<exists>w. message_cb sd (Some out) (Some t) lsn True (Some LOGICAL_MESSAGE_PREFIX)
        (length (lm_message lm)) (Some (lm_message lm)) =
      Inr (Some (out @ w), Some (if output_plugin_private t = NullPtr
        then t\<lparr>output_plugin_private := TransactionMarker\<rparr> else t)) \<and>
    carries sd w ((if output_plugin_private t = NullPtr then [Begin (xid t)] else []) @
      [MutationFrame lsn m])"
proof -
  have enc: "encode_logical_message sd m = Inr (lm_message lm)"
    using assms(1) by (auto simp: emit_def bindE_eq_Inr)
  have dec: "decode_logical_message sd (lm_message lm) = Inr m"
    using frame_roundtrip [OF enc [unfolded encode_logical_message_def]] ok
    by (simp add: decode_logical_message_def)
  have nonempty: "lm_message lm \<noteq> []"
    using dec by (auto simp: decode_logical_message_def decode_frame_def HEADER_LEN_def)
  obtain bs where "encode_frame sd (MutationFrame lsn m) = Inr bs"
    using encode_any_lsn [OF enc] by blast
  then have mut: "\<exists>w. write_frame sd out (MutationFrame lsn m) False = Inr (out @ w) \<and>
      carries sd w [MutationFrame lsn m]" for out
    using ok by (intro write_frame_carries) simp_all
  obtain w0 where w0: "write_frame sd out (Begin (xid t)) False = Inr (out @ w0)"
      "carries sd w0 [Begin (xid t)]"
    using write_frame_carries [OF encode_begin, of sd "xid t" out] frame_ok.simps(2) by blast
  show ?thesis
  proof (cases "output_plugin_private t = NullPtr")
    case True
    obtain w where "write_frame sd (out @ w0) (MutationFrame lsn m) False = Inr ((out @ w0) @ w)"
        and c: "carries sd w [MutationFrame lsn m]"
      using mut by blast
    with w0 True nonempty dec show ?thesis
      using carries_append [OF w0(2) c]
      by (intro exI [of _ "w0 @ w"]) (simp add: message_cb_def)
  next
    case False
    obtain w where "write_frame sd out (MutationFrame lsn m) False = Inr (out @ w)"
        "carries sd w [MutationFrame lsn m]"
      using mut by blast
    with False nonempty dec show ?thesis
      by (intro exI [of _ w]) (simp add: message_cb_def)
  qed
qed

lemma message_ignored:
  "\<not> tr \<or> pre \<noteq> Some LOGICAL_MESSAGE_PREFIX \<Longrightarrow>
   message_cb sd context transaction lsn tr pre len data = Inr (context, transaction)"
  by (auto simp: message_cb_def)

definition marked :: "ReorderBufferTXN \<Rightarrow> ReorderBufferTXN" where
  "marked t = t\<lparr>output_plugin_private := TransactionMarker\<rparr>"

lemma marked_simps [simp]:
  "output_plugin_private (marked t) = TransactionMarker" "xid (marked t) = xid t"
  "txn_end_lsn (marked t) = txn_end_lsn t" "marked (marked t) = marked t"
  by (simp_all add: marked_def)

lemma marked_id: "output_plugin_private t = TransactionMarker \<Longrightarrow> marked t = t"
  by (simp add: marked_def)

definition begins :: "ReorderBufferTXN \<Rightarrow> (u64 \<times> 'n Mutation) list \<Rightarrow> 'n Frame list" where
  "begins t ms = (if ms \<noteq> [] \<and> output_plugin_private t = NullPtr then [Begin (xid t)] else [])"

lemma run_calls_delivers:
  assumes "delivers sd cs ms" and "output_plugin_private t \<noteq> OtherPtr"
  shows "\<exists>w. run_calls sd out t cs = Inr (out @ w, if ms = [] then t else marked t) \<and>
    carries sd w (begins t ms @ map (\<lambda>(lsn, m). MutationFrame lsn m) ms)"
  using assms
proof (induction arbitrary: out t)
  case delivers_Nil
  then show ?case by (intro exI [of _ "[]"]) (simp add: begins_def)
next
  case (delivers_change cs ms)
  then show ?case by (simp add: change_cb_def)
next
  case (delivers_foreign cs ms tr pre lsn len data)
  then show ?case by (simp add: message_ignored)
next
  case (delivers_graph cs ms m lm lsn)
  let ?t = "if output_plugin_private t = NullPtr then marked t else t"
  let ?b = "if output_plugin_private t = NullPtr then [Begin (xid t)] else []"
  have mt: "?t = marked t"
    using delivers_graph.prems by (cases "output_plugin_private t") (simp_all add: marked_id)
  have lm: "lm_transactional lm" "lm_prefix lm = LOGICAL_MESSAGE_PREFIX"
    using delivers_graph.hyps(2) by (auto simp: emit_def bindE_eq_Inr)
  obtain w where w: "message_cb sd (Some out) (Some t) lsn True (Some LOGICAL_MESSAGE_PREFIX)
        (length (lm_message lm)) (Some (lm_message lm)) = Inr (Some (out @ w), Some (marked t))"
      and cw: "carries sd w (?b @ [MutationFrame lsn m])"
    using message_emitted [OF delivers_graph.hyps(2,3), of out t lsn, folded marked_def]
    unfolding mt by blast
  obtain w' where w': "run_calls sd (out @ w) (marked t) cs =
        Inr ((out @ w) @ w', if ms = [] then marked t else marked t)"
      and cw': "carries sd w' (map (\<lambda>(lsn, m). MutationFrame lsn m) ms)"
    using delivers_graph.IH [of "marked t" "out @ w"] by (auto simp: begins_def)
  have "run_calls sd out t (deliver lsn lm # cs) = Inr (out @ (w @ w'), marked t)"
    using w w' lm by (simp add: deliver_def)
  moreover have "carries sd (w @ w') (begins t ((lsn, m) # ms) @
      map (\<lambda>(lsn, m). MutationFrame lsn m) ((lsn, m) # ms))"
    using carries_append [OF cw cw'] by (simp add: begins_def)
  ultimately show ?case by auto
qed


definition reset_message :: logical_message where
  "reset_message = \<lparr>lm_prefix = LOGICAL_MESSAGE_PREFIX,
     lm_message = frame_bytes KIND_GRAPH_RESET (to_be 8 (0 :: u64)),
     lm_transactional = True, lm_flush = False\<rparr>"


end
