(* ===== verification/PropStore.thy ===== *)
theory PropStore
  imports RustJson
begin

text \<open>
  The property codec of \<open>storage/prop_store.rs\<close>: a property map is a packed sequence of
  \<open>key_id, tag, value\<close> cells. The decoder is written as in the source, over the whole buffer with
  positions, with every truncation branch; the loops over a declared element count stop early
  when an element consumes nothing.
\<close>

section \<open>Tags\<close>

definition TAG_INTEGER :: u8 where "TAG_INTEGER = 0x01"
definition TAG_FLOAT :: u8 where "TAG_FLOAT = 0x02"
definition TAG_BOOL :: u8 where "TAG_BOOL = 0x03"
definition TAG_STR_SHORT :: u8 where "TAG_STR_SHORT = 0x04"
definition TAG_STR_LONG :: u8 where "TAG_STR_LONG = 0x05"
definition TAG_DATE :: u8 where "TAG_DATE = 0x06"
definition TAG_LOCALDATETIME :: u8 where "TAG_LOCALDATETIME = 0x07"
definition TAG_DURATION :: u8 where "TAG_DURATION = 0x09"
definition TAG_LIST :: u8 where "TAG_LIST = 0x0C"
definition TAG_MAP :: u8 where "TAG_MAP = 0x0D"
definition TAG_NULL :: u8 where "TAG_NULL = 0x0E"

lemmas tag_defs =
  TAG_INTEGER_def TAG_FLOAT_def TAG_BOOL_def TAG_STR_SHORT_def TAG_STR_LONG_def TAG_DATE_def
  TAG_LOCALDATETIME_def TAG_DURATION_def TAG_LIST_def TAG_MAP_def TAG_NULL_def

section \<open>Encoding\<close>

definition le_u32 :: "nat \<Rightarrow> bytes" where
  "le_u32 n = to_le 4 (of_nat n :: u32)"

definition encode_map_key :: "bytes \<Rightarrow> rust_str \<Rightarrow> bytes" where
  "encode_map_key buf key =
     (if length key \<le> 255 then buf @ [TAG_STR_SHORT] @ [of_nat (length key)]
      else buf @ [TAG_STR_LONG] @ le_u32 (length key)) @ key"

fun encode_value :: "'n num_ops \<Rightarrow> bytes \<Rightarrow> 'n Json \<Rightarrow> bytes"
  and encode_items :: "'n num_ops \<Rightarrow> bytes \<Rightarrow> 'n Json list \<Rightarrow> bytes"
  and encode_entries :: "'n num_ops \<Rightarrow> bytes \<Rightarrow> (rust_str \<times> 'n Json) list \<Rightarrow> bytes" where
  "encode_value ops buf Null = buf @ [TAG_NULL]"
| "encode_value ops buf (Bool b) = buf @ [TAG_BOOL] @ [if b then 1 else 0]"
| "encode_value ops buf (Number n) =
     (case as_i64 ops n of
        Some i \<Rightarrow> buf @ [TAG_INTEGER] @ to_le 8 i
      | None \<Rightarrow>
          (case as_f64 ops n of
             Some f \<Rightarrow> buf @ [TAG_FLOAT] @ to_le 8 f
           | None \<Rightarrow> buf @ [TAG_NULL]))"
| "encode_value ops buf (String s) =
     (if length s \<le> 255 then buf @ [TAG_STR_SHORT] @ [of_nat (length s)]
      else buf @ [TAG_STR_LONG] @ le_u32 (length s)) @ s"
| "encode_value ops buf (Array arr) = encode_items ops (buf @ [TAG_LIST] @ le_u32 (length arr)) arr"
| "encode_value ops buf (Object obj) = encode_entries ops (buf @ [TAG_MAP] @ le_u32 (length obj)) obj"
| "encode_items ops buf [] = buf"
| "encode_items ops buf (item # items) = encode_items ops (encode_value ops buf item) items"
| "encode_entries ops buf [] = buf"
| "encode_entries ops buf ((k, v) # es) =
     encode_entries ops (encode_value ops (encode_map_key buf k) v) es"

text \<open>
  \<open>key_id_for\<close> is a stateful closure: it may register a new key, or fail. The loop of \<open>encode\<close>
  threads its state.
\<close>

fun encode_props ::
    "'n num_ops \<Rightarrow> ('s \<Rightarrow> rust_str \<Rightarrow> 'e + (i32 \<times> 's)) \<Rightarrow> 's \<Rightarrow> bytes \<Rightarrow> 'n json_map \<Rightarrow> 'e + (bytes \<times> 's)" where
  "encode_props ops key_id_for s buf [] = Inr (buf, s)"
| "encode_props ops key_id_for s buf ((key, v) # props) =
     bindE (key_id_for s key) (\<lambda>(kid, s).
       encode_props ops key_id_for s (encode_value ops (buf @ to_le 4 kid) v) props)"

definition encode ::
    "'n num_ops \<Rightarrow> ('s \<Rightarrow> rust_str \<Rightarrow> 'e + (i32 \<times> 's)) \<Rightarrow> 's \<Rightarrow> 'n json_map \<Rightarrow> 'e + (bytes \<times> 's)" where
  "encode ops key_id_for s props = encode_props ops key_id_for s [] props"

section \<open>Decoding\<close>

definition rd_u32 :: "bytes \<Rightarrow> nat \<Rightarrow> nat" where
  "rd_u32 data p = unat (from_le (bslice p (p + 4) data) :: u32)"
definition rd_i32 :: "bytes \<Rightarrow> nat \<Rightarrow> i64" where
  "rd_i32 data p = scast (from_le (bslice p (p + 4) data) :: i32)"
definition rd_i64 :: "bytes \<Rightarrow> nat \<Rightarrow> i64" where
  "rd_i64 data p = from_le (bslice p (p + 8) data)"

definition str_question :: rust_str where "str_question = [0x3F]"
definition str_months :: rust_str where "str_months = [0x6D, 0x6F, 0x6E, 0x74, 0x68, 0x73]"
definition str_days :: rust_str where "str_days = [0x64, 0x61, 0x79, 0x73]"
definition str_nanoseconds :: rust_str where
  "str_nanoseconds = [0x6E, 0x61, 0x6E, 0x6F, 0x73, 0x65, 0x63, 0x6F, 0x6E, 0x64, 0x73]"

definition key_str :: "'n Json \<Rightarrow> rust_str" where
  "key_str v = (case v of String s \<Rightarrow> s | _ \<Rightarrow> str_question)"

text \<open>The scalar tags and the catch-all branch; the two container tags recurse below.\<close>

definition decode_scalar :: "'n num_ops \<Rightarrow> bytes \<Rightarrow> nat \<Rightarrow> u8 \<Rightarrow> 'n Json \<times> nat" where
  "decode_scalar ops data rest tag =
    (if tag = TAG_NULL then (Null, 1)
     else if tag = TAG_BOOL then
       (if rest < length data then (Bool (data ! rest \<noteq> 0), 2) else (Null, 1))
     else if tag = TAG_INTEGER then
       (if rest + 8 \<le> length data then (Number (of_i64 ops (rd_i64 data rest)), 9) else (Null, 1))
     else if tag = TAG_FLOAT then
       (if rest + 8 \<le> length data
        then (Number (case from_f64 ops (rd_i64 data rest) of Some n \<Rightarrow> n | None \<Rightarrow> of_i64 ops 0), 9)
        else (Null, 1))
     else if tag = TAG_STR_SHORT then
       (if rest < length data
        then let len = unat (data ! rest); start = rest + 1 in
             if start + len \<le> length data
             then (String (utf8_lossy (bslice start (start + len) data)), 2 + len)
             else (Null, 1)
        else (Null, 1))
     else if tag = TAG_STR_LONG then
       (if rest + 4 \<le> length data
        then let len = rd_u32 data rest; start = rest + 4 in
             if start + len \<le> length data
             then (String (utf8_lossy (bslice start (start + len) data)), 5 + len)
             else (Null, 1)
        else (Null, 1))
     else if tag = TAG_DATE then
       (if rest + 4 \<le> length data then (Number (of_i64 ops (rd_i32 data rest)), 5) else (Null, 1))
     else if tag = TAG_LOCALDATETIME then
       (if rest + 8 \<le> length data then (Number (of_i64 ops (rd_i64 data rest)), 9) else (Null, 1))
     else if tag = TAG_DURATION then
       (if rest + 16 \<le> length data
        then (Object
               (map_insert str_nanoseconds (Number (of_i64 ops (rd_i64 data (rest + 8))))
                 (map_insert str_days (Number (of_i64 ops (rd_i32 data (rest + 4))))
                   (map_insert str_months (Number (of_i64 ops (rd_i32 data rest))) []))), 17)
        else (Null, 1))
     else (Null, 1))"

function (sequential) decode_value :: "'n num_ops \<Rightarrow> bytes \<Rightarrow> nat \<Rightarrow> 'n Json \<times> nat"
  and decode_items :: "'n num_ops \<Rightarrow> bytes \<Rightarrow> nat \<Rightarrow> nat \<Rightarrow> 'n Json list \<times> nat"
  and decode_entries ::
    "'n num_ops \<Rightarrow> bytes \<Rightarrow> nat \<Rightarrow> nat \<Rightarrow> 'n json_map \<Rightarrow> 'n json_map \<times> nat" where
  "decode_value ops data pos =
    (if pos \<ge> length data then (Null, 0)
     else let tag = data ! pos; rest = pos + 1 in
       if tag = TAG_LIST then
         (if rest + 4 \<le> length data
          then let (arr, inner) = decode_items ops data (rd_u32 data rest) (rest + 4)
               in (Array arr, inner - pos)
          else (Null, 1))
       else if tag = TAG_MAP then
         (if rest + 4 \<le> length data
          then let (obj, inner) = decode_entries ops data (rd_u32 data rest) (rest + 4) []
               in (Object obj, inner - pos)
          else (Null, 1))
       else decode_scalar ops data rest tag)"
| "decode_items ops data 0 inner = ([], inner)"
| "decode_items ops data (Suc n) inner =
    (let (v, c) = decode_value ops data inner in
     if c = 0 then ([v], inner)
     else let (vs, inner') = decode_items ops data n (inner + c) in (v # vs, inner'))"
| "decode_entries ops data 0 inner obj = (obj, inner)"
| "decode_entries ops data (Suc n) inner obj =
    (let (key_val, kc) = decode_value ops data inner;
         (v, vc) = decode_value ops data (inner + kc);
         obj' = map_insert (key_str key_val) v obj in
     if kc = 0 \<or> vc = 0 then (obj', inner + kc + vc)
     else decode_entries ops data n (inner + kc + vc) obj')"
  by pat_completeness auto
termination
  by (relation "measures [
        \<lambda>x. case x of Inl (ops, data, pos) \<Rightarrow> length data - pos
          | Inr (Inl (ops, data, n, pos)) \<Rightarrow> length data - pos
          | Inr (Inr (ops, data, n, pos, obj)) \<Rightarrow> length data - pos,
        \<lambda>x. case x of Inl _ \<Rightarrow> 0 | Inr (Inl (ops, data, n, pos)) \<Rightarrow> Suc n
          | Inr (Inr (ops, data, n, pos, obj)) \<Rightarrow> Suc n]") auto

declare decode_value.simps [simp del]

function (sequential) skip_value :: "bytes \<Rightarrow> nat \<Rightarrow> nat"
  and skip_items :: "bytes \<Rightarrow> nat \<Rightarrow> nat \<Rightarrow> nat"
  and skip_entries :: "bytes \<Rightarrow> nat \<Rightarrow> nat \<Rightarrow> nat" where
  "skip_value data pos =
    (if pos \<ge> length data then 0
     else let tag = data ! pos; rest = pos + 1 in
       if tag = TAG_NULL then 1
       else if tag = TAG_BOOL then 2
       else if tag = TAG_INTEGER \<or> tag = TAG_FLOAT \<or> tag = TAG_LOCALDATETIME then 9
       else if tag = TAG_DATE then 5
       else if tag = TAG_DURATION then 17
       else if tag = TAG_STR_SHORT \<and> rest < length data then 2 + unat (data ! rest)
       else if tag = TAG_STR_LONG \<and> rest + 4 \<le> length data then 5 + rd_u32 data rest
       else if tag = TAG_LIST \<and> rest + 4 \<le> length data
       then skip_items data (rd_u32 data rest) (rest + 4) - pos
       else if tag = TAG_MAP \<and> rest + 4 \<le> length data
       then skip_entries data (rd_u32 data rest) (rest + 4) - pos
       else 1)"
| "skip_items data 0 inner = inner"
| "skip_items data (Suc n) inner =
    (let s = skip_value data inner in
     if s = 0 then inner else skip_items data n (inner + s))"
| "skip_entries data 0 inner = inner"
| "skip_entries data (Suc n) inner =
    (let ks = skip_value data inner in
     if ks = 0 then inner
     else let vs = skip_value data (inner + ks) in
       if vs = 0 then inner + ks else skip_entries data n (inner + ks + vs))"
  by pat_completeness auto
termination
  by (relation "measures [
        \<lambda>x. case x of Inl (data, pos) \<Rightarrow> length data - pos
          | Inr (Inl (data, n, pos)) \<Rightarrow> length data - pos
          | Inr (Inr (data, n, pos)) \<Rightarrow> length data - pos,
        \<lambda>x. case x of Inl _ \<Rightarrow> 0 | Inr (Inl (data, n, pos)) \<Rightarrow> Suc n
          | Inr (Inr (data, n, pos)) \<Rightarrow> Suc n]") auto

declare skip_value.simps [simp del]

function decode_loop ::
    "'n num_ops \<Rightarrow> bytes \<Rightarrow> (i32 \<Rightarrow> rust_str) \<Rightarrow> nat \<Rightarrow> 'n json_map \<Rightarrow> 'n json_map" where
  "decode_loop ops data key_name_for pos props =
    (if pos + 5 \<le> length data
     then let kid = from_le (bslice pos (pos + 4) data); pos = pos + 4;
              (v, consumed) = decode_value ops data pos
          in decode_loop ops data key_name_for (pos + consumed) (map_insert (key_name_for kid) v props)
     else props)"
  by pat_completeness auto
termination
  by (relation "measure (\<lambda>(ops, data, f, pos, props). length data - pos)") auto

declare decode_loop.simps [simp del]

definition decode :: "'n num_ops \<Rightarrow> bytes \<Rightarrow> (i32 \<Rightarrow> rust_str) \<Rightarrow> 'n json_map" where
  "decode ops data key_name_for = decode_loop ops data key_name_for 0 []"

function decode_selected_loop ::
    "'n num_ops \<Rightarrow> bytes \<Rightarrow> i32 set \<Rightarrow> (i32 \<Rightarrow> rust_str) \<Rightarrow> nat \<Rightarrow> 'n json_map \<Rightarrow> 'n json_map" where
  "decode_selected_loop ops data wanted key_name_for pos props =
    (if pos + 5 \<le> length data
     then let kid = from_le (bslice pos (pos + 4) data); pos = pos + 4
          in if kid \<in> wanted
             then let (v, consumed) = decode_value ops data pos
                  in decode_selected_loop ops data wanted key_name_for (pos + consumed)
                       (map_insert (key_name_for kid) v props)
             else decode_selected_loop ops data wanted key_name_for (pos + skip_value data pos) props
     else props)"
  by pat_completeness auto
termination
  by (relation "measure (\<lambda>(ops, data, w, f, pos, props). length data - pos)") auto

declare decode_selected_loop.simps [simp del]

definition decode_selected ::
    "'n num_ops \<Rightarrow> bytes \<Rightarrow> i32 set \<Rightarrow> (i32 \<Rightarrow> rust_str) \<Rightarrow> 'n json_map" where
  "decode_selected ops data wanted_keys key_name_for =
     decode_selected_loop ops data wanted_keys key_name_for 0 []"

section \<open>What the encoder writes\<close>

lemma encode_map_key_append: "encode_map_key buf k = buf @ encode_map_key [] k"
  by (simp add: encode_map_key_def)

lemma encode_items_append:
  assumes "\<And>j b. j \<in> set js \<Longrightarrow> encode_value ops b j = b @ encode_value ops [] j"
  shows "encode_items ops buf js = buf @ encode_items ops [] js"
  using assms
proof (induction js arbitrary: buf)
  case Nil
  then show ?case by simp
next
  case (Cons j js)
  have IH: "encode_items ops b js = b @ encode_items ops [] js" for b
    by (rule Cons.IH, rule Cons.prems) simp
  have j: "encode_value ops buf j = buf @ encode_value ops [] j"
    by (rule Cons.prems) simp
  show ?case
    using IH [of "encode_value ops buf j"] IH [of "encode_value ops [] j"] j by simp
qed

lemma encode_entries_append:
  assumes "\<And>j b. j \<in> snd ` set es \<Longrightarrow> encode_value ops b j = b @ encode_value ops [] j"
  shows "encode_entries ops buf es = buf @ encode_entries ops [] es"
  using assms
proof (induction es arbitrary: buf)
  case Nil
  then show ?case by simp
next
  case (Cons e es)
  obtain k j where e: "e = (k, j)" by (cases e)
  have IH: "encode_entries ops b es = b @ encode_entries ops [] es" for b
    by (rule Cons.IH, rule Cons.prems) simp
  have j: "encode_value ops b j = b @ encode_value ops [] j" for b
    by (rule Cons.prems) (simp add: e)
  show ?case
    using IH [of "encode_value ops (encode_map_key buf k) j"]
      IH [of "encode_value ops (encode_map_key [] k) j"]
      j [of "encode_map_key buf k"] j [of "encode_map_key [] k"] encode_map_key_append [of buf k]
    by (simp add: e)
qed

lemma encode_value_append: "encode_value ops buf j = buf @ encode_value ops [] j"
proof (induction j arbitrary: buf)
  case (Number n)
  then show ?case by (simp split: option.splits)
next
  case (Array arr)
  have "encode_items ops b arr = b @ encode_items ops [] arr" for b
    by (rule encode_items_append) (rule Array.IH)
  from this [of "buf @ [TAG_LIST] @ le_u32 (length arr)"] this [of "[TAG_LIST] @ le_u32 (length arr)"]
  show ?case by simp
next
  case (Object obj)
  have "encode_entries ops b obj = b @ encode_entries ops [] obj" for b
    by (rule encode_entries_append) (auto intro: Object.IH snds.intros simp del: append.simps)
  from this [of "buf @ [TAG_MAP] @ le_u32 (length obj)"] this [of "[TAG_MAP] @ le_u32 (length obj)"]
  show ?case by simp
qed simp_all

lemma encode_items_append': "encode_items ops buf js = buf @ encode_items ops [] js"
  by (rule encode_items_append) (rule encode_value_append)

lemma encode_entries_append': "encode_entries ops buf es = buf @ encode_entries ops [] es"
  by (rule encode_entries_append) (rule encode_value_append)

lemma encode_items_Cons:
  "encode_items ops [] (j # js) = encode_value ops [] j @ encode_items ops [] js"
  by (simp add: encode_items_append' [of ops "encode_value ops [] j"])

lemma encode_entries_Cons:
  "encode_entries ops [] ((k, j) # es) =
     encode_map_key [] k @ encode_value ops [] j @ encode_entries ops [] es"
  using encode_entries_append' [of ops "encode_value ops (encode_map_key [] k) j" es]
    encode_value_append [of ops "encode_map_key [] k" j] by simp

lemma encode_array:
  "encode_value ops [] (Array arr) = TAG_LIST # le_u32 (length arr) @ encode_items ops [] arr"
  using encode_items_append' [of ops "[TAG_LIST] @ le_u32 (length arr)" arr] by simp

lemma encode_object:
  "encode_value ops [] (Object obj) = TAG_MAP # le_u32 (length obj) @ encode_entries ops [] obj"
  using encode_entries_append' [of ops "[TAG_MAP] @ le_u32 (length obj)" obj] by simp

lemmas encode_containers = encode_array encode_object encode_items_Cons encode_entries_Cons

declare encode_value.simps(5,6) [simp del] encode_items.simps(2) [simp del]
  encode_entries.simps(2) [simp del]

lemma length_encode_value_pos: "0 < length (encode_value ops [] j)"
  by (cases j) (simp_all add: encode_array encode_object split: option.splits)

section \<open>Values the codec stores\<close>

text \<open>
  \<open>sized j\<close>: what a Rust \<open>serde_json::Value\<close> is (valid strings, maps with ascending keys), with
  every length below \<open>2 ^ 32\<close>, where the \<open>as u32\<close> casts are exact. \<open>stored j\<close> is the value as the codec
  represents it: numbers become an \<open>i64\<close> or an \<open>f64\<close>.
\<close>

definition str_sized :: "rust_str \<Rightarrow> bool" where
  "str_sized s \<longleftrightarrow> utf8_valid s \<and> length s < 2 ^ 32"

fun sized :: "'n Json \<Rightarrow> bool" where
  "sized (String s) = str_sized s"
| "sized (Array arr) = (length arr < 2 ^ 32 \<and> list_all sized arr)"
| "sized (Object obj) =
     (length obj < 2 ^ 32 \<and> map_wf obj \<and> list_all (\<lambda>e. str_sized (fst e)) obj \<and>
      list_all (\<lambda>e. sized (snd e)) obj)"
| "sized _ = True"

fun stored :: "'n num_ops \<Rightarrow> 'n Json \<Rightarrow> 'n Json" where
  "stored ops (Number n) =
     (case as_i64 ops n of
        Some i \<Rightarrow> Number (of_i64 ops i)
      | None \<Rightarrow>
          (case as_f64 ops n of
             Some f \<Rightarrow> Number (case from_f64 ops f of Some m \<Rightarrow> m | None \<Rightarrow> of_i64 ops 0)
           | None \<Rightarrow> Null))"
| "stored ops (Array arr) = Array (map (stored ops) arr)"
| "stored ops (Object obj) = Object (map (\<lambda>e. (fst e, stored ops (snd e))) obj)"
| "stored ops v = v"

section \<open>Reading back\<close>

text \<open>\<open>at data p xs\<close>: the buffer holds \<open>xs\<close> at position \<open>p\<close>.\<close>

definition at :: "bytes \<Rightarrow> nat \<Rightarrow> bytes \<Rightarrow> bool" where
  "at data p xs \<longleftrightarrow> p + length xs \<le> length data \<and> bslice p (p + length xs) data = xs"

lemma at_append: "at data p (xs @ ys) \<longleftrightarrow> at data p xs \<and> at data (p + length xs) ys"
proof -
  have "bslice p (p + length (xs @ ys)) data =
      bslice p (p + length xs) data @ bslice (p + length xs) (p + length xs + length ys) data"
    using slice_split [of p "p + length xs" "p + length xs + length ys" data] by (simp add: add.assoc)
  then show ?thesis by (auto simp: at_def length_slice append_eq_append_conv)
qed

lemma at_Cons: "at data p (x # xs) \<longleftrightarrow> p < length data \<and> data ! p = x \<and> at data (Suc p) xs"
proof -
  have "at data p [x] \<longleftrightarrow> p < length data \<and> data ! p = x"
    by (auto simp: at_def bslice_def take_Suc_conv_app_nth hd_drop_conv_nth take_Suc)
  then show ?thesis using at_append [of data p "[x]" xs] by simp
qed

lemma at_u32: "n < 2 ^ 32 \<Longrightarrow> at data p (le_u32 n) \<Longrightarrow> p + 4 \<le> length data \<and> rd_u32 data p = n"
  by (auto simp: at_def le_u32_def rd_u32_def unat_of_nat take_bit_nat_eq_self)

lemma at_i64: "at data p (to_le 8 (v :: i64)) \<Longrightarrow> p + 8 \<le> length data \<and> rd_i64 data p = v"
  by (auto simp: at_def rd_i64_def)

definition reads :: "'n num_ops \<Rightarrow> 'n Json \<Rightarrow> bool" where
  "reads ops j \<longleftrightarrow> (\<forall>data p. at data p (encode_value ops [] j) \<longrightarrow>
     decode_value ops data p = (stored ops j, length (encode_value ops [] j)) \<and>
     skip_value data p = length (encode_value ops [] j))"

lemma readsI:
  "(\<And>data p. at data p (encode_value ops [] j) \<Longrightarrow>
     decode_value ops data p = (stored ops j, length (encode_value ops [] j)) \<and>
     skip_value data p = length (encode_value ops [] j)) \<Longrightarrow> reads ops j"
  by (simp add: reads_def)

lemma readsD:
  assumes "reads ops j" and "at data p (encode_value ops [] j)"
  shows "decode_value ops data p = (stored ops j, length (encode_value ops [] j))"
    and "skip_value data p = length (encode_value ops [] j)"
  using assms unfolding reads_def by blast+

lemma reads_scalar:
  assumes "\<not> (\<exists>arr. j = Array arr)" and "\<not> (\<exists>obj. j = Object obj)" and "\<not> (\<exists>s. j = String s)"
  shows "reads ops j"
proof (rule readsI)
  fix data p
  assume *: "at data p (encode_value ops [] j)"
  show "decode_value ops data p = (stored ops j, length (encode_value ops [] j)) \<and>
      skip_value data p = length (encode_value ops [] j)"
    using assms *
    by (cases j)
      (auto simp: at_Cons decode_value.simps [of ops data p] skip_value.simps [of data p]
        decode_scalar_def tag_defs dest!: at_i64 split: option.splits)
qed

lemma at_slice: "at data p xs \<Longrightarrow> p + length xs \<le> length data \<and> bslice p (p + length xs) data = xs"
  by (simp add: at_def)

lemma reads_short_string:
  assumes "utf8_valid s" and len: "length s \<le> 255"
  shows "reads ops (String s)"
proof (rule readsI)
  fix data p
  assume *: "at data p (encode_value ops [] (String s))"
  have u: "unat (of_nat (length s) :: u8) = length s"
    using len by (simp add: unat_of_nat take_bit_nat_eq_self)
  from * len have tag: "p < length data" "data ! p = TAG_STR_SHORT" "Suc p < length data"
      "data ! Suc p = of_nat (length s)" and s: "at data (Suc (Suc p)) s"
    by (simp_all add: at_Cons)
  from at_slice [OF s] have "decode_value ops data p = (String (utf8_lossy s), 2 + length s)"
    using tag u by (simp add: decode_value.simps [of ops data p] decode_scalar_def tag_defs)
  moreover have "skip_value data p = 2 + length s"
    using tag u by (simp add: skip_value.simps [of data p] tag_defs)
  ultimately show "decode_value ops data p = (stored ops (String s), length (encode_value ops [] (String s))) \<and>
      skip_value data p = length (encode_value ops [] (String s))"
    using len assms(1) by (simp add: utf8_lossy_valid)
qed

lemma length_le_u32 [simp]: "length (le_u32 n) = 4"
  by (simp add: le_u32_def)

lemma reads_long_string:
  assumes "str_sized s" and len: "255 < length s"
  shows "reads ops (String s)"
proof (rule readsI)
  fix data p
  assume *: "at data p (encode_value ops [] (String s))"
  have sz: "length s < 2 ^ 32" "utf8_valid s" using assms(1) by (simp_all add: str_sized_def)
  from * len have tag: "p < length data" "data ! p = TAG_STR_LONG"
      and n: "at data (Suc p) (le_u32 (length s))" and s: "at data (Suc p + 4) s"
    by (simp_all add: at_Cons at_append)
  from at_slice [OF s] have "decode_value ops data p = (String (utf8_lossy s), 5 + length s)"
    using tag at_u32 [OF sz(1) n]
    by (simp add: decode_value.simps [of ops data p] decode_scalar_def tag_defs)
  moreover have "skip_value data p = 5 + length s"
    using tag at_u32 [OF sz(1) n] by (simp add: skip_value.simps [of data p] tag_defs)
  ultimately show "decode_value ops data p = (stored ops (String s), length (encode_value ops [] (String s))) \<and>
      skip_value data p = length (encode_value ops [] (String s))"
    using len sz by (simp add: utf8_lossy_valid)
qed

lemma reads_string: "str_sized s \<Longrightarrow> reads ops (String s)"
  using reads_short_string reads_long_string by (metis not_le str_sized_def)

lemma encode_map_key_string: "encode_map_key [] k = encode_value ops [] (String k)"
  by (simp add: encode_map_key_def)

lemma reads_items:
  assumes "\<forall>j \<in> set js. reads ops j" and "at data p (encode_items ops [] js)"
  shows "decode_items ops data (length js) p =
      (map (stored ops) js, p + length (encode_items ops [] js)) \<and>
    skip_items data (length js) p = p + length (encode_items ops [] js)"
  using assms
proof (induction js arbitrary: p)
  case Nil
  then show ?case by simp
next
  case (Cons j js)
  let ?n = "length (encode_value ops [] j)"
  have j: "at data p (encode_value ops [] j)" and js: "at data (p + ?n) (encode_items ops [] js)"
    using Cons.prems(2) by (simp_all add: encode_items_Cons at_append)
  have r: "reads ops j" using Cons.prems(1) by simp
  have "0 < ?n" by (rule length_encode_value_pos)
  then show ?case
    using readsD [OF r j] Cons.IH [OF _ js] Cons.prems(1) by (simp add: encode_items_Cons)
qed

lemma reads_entries:
  assumes "\<forall>e \<in> set es. str_sized (fst e) \<and> reads ops (snd e)" and "map_wf es"
    and "\<forall>e \<in> set obj. \<forall>e' \<in> set es. str_less (fst e) (fst e')"
    and "at data p (encode_entries ops [] es)"
  shows "decode_entries ops data (length es) p obj =
      (obj @ map (\<lambda>e. (fst e, stored ops (snd e))) es, p + length (encode_entries ops [] es)) \<and>
    skip_entries data (length es) p = p + length (encode_entries ops [] es)"
  using assms
proof (induction es arbitrary: p obj)
  case Nil
  then show ?case by simp
next
  case (Cons e es)
  obtain k j where e: "e = (k, j)" by (cases e)
  let ?k = "encode_value ops [] (String k)" and ?j = "encode_value ops [] j"
  let ?obj = "obj @ [(k, stored ops j)]"
  have k: "at data p ?k" and j: "at data (p + length ?k) ?j"
    and es: "at data (p + length ?k + length ?j) (encode_entries ops [] es)"
    using Cons.prems(4)
    by (simp_all add: e encode_entries_Cons encode_map_key_string [of k ops] at_append add.assoc
        del: encode_value.simps(4))
  have rk: "reads ops (String k)" and rj: "reads ops j"
    using Cons.prems(1) by (simp_all add: e reads_string)
  have pos: "0 < length ?k" "0 < length ?j" by (rule length_encode_value_pos)+
  have ins: "map_insert k (stored ops j) obj = ?obj"
    using Cons.prems(3) by (intro map_insert_last) (simp add: e)
  have ord: "\<forall>e' \<in> set es. str_less k (fst e')" and wf: "map_wf es"
    using Cons.prems(2) by (simp_all add: e map_wf_Cons)
  have IH: "decode_entries ops data (length es) (p + length ?k + length ?j) ?obj =
      (?obj @ map (\<lambda>e. (fst e, stored ops (snd e))) es,
       p + length ?k + length ?j + length (encode_entries ops [] es)) \<and>
    skip_entries data (length es) (p + length ?k + length ?j) =
      p + length ?k + length ?j + length (encode_entries ops [] es)"
    using Cons.prems(1,3) ord wf by (intro Cons.IH es) auto
  have len: "length (encode_entries ops [] (e # es)) =
      length ?k + length ?j + length (encode_entries ops [] es)"
    by (simp add: e encode_entries_Cons encode_map_key_string [of k ops] del: encode_value.simps(4))
  show ?case
    unfolding len using pos IH ins
    by (simp add: e readsD [OF rk k] readsD [OF rj j] key_str_def add.assoc del: encode_value.simps(4))
qed

lemma reads_value: "sized j \<Longrightarrow> reads ops j"
proof (induction j)
  case (String s)
  then show ?case by (simp add: reads_string)
next
  case (Array arr)
  then have all: "\<forall>j \<in> set arr. reads ops j" and n: "length arr < 2 ^ 32"
    by (simp_all add: list_all_iff)
  show ?case
  proof (rule readsI)
    fix data p
    assume *: "at data p (encode_value ops [] (Array arr))"
    then have tag: "p < length data" "data ! p = TAG_LIST" and c: "at data (Suc p) (le_u32 (length arr))"
      and items: "at data (5 + p) (encode_items ops [] arr)"
      by (simp_all add: encode_array at_Cons at_append)
    show "decode_value ops data p = (stored ops (Array arr), length (encode_value ops [] (Array arr))) \<and>
        skip_value data p = length (encode_value ops [] (Array arr))"
      using tag at_u32 [OF n c] reads_items [OF all items]
      by (simp add: decode_value.simps [of ops data p] skip_value.simps [of data p] tag_defs
          encode_array)
  qed
next
  case (Object obj)
  then have all: "\<forall>e \<in> set obj. str_sized (fst e) \<and> reads ops (snd e)"
      and wf: "map_wf obj" and n: "length obj < 2 ^ 32"
    by (auto simp: list_all_iff)
  show ?case
  proof (rule readsI)
    fix data p
    assume *: "at data p (encode_value ops [] (Object obj))"
    then have tag: "p < length data" "data ! p = TAG_MAP" and c: "at data (Suc p) (le_u32 (length obj))"
      and es: "at data (5 + p) (encode_entries ops [] obj)"
      by (simp_all add: encode_object at_Cons at_append)
    show "decode_value ops data p = (stored ops (Object obj), length (encode_value ops [] (Object obj))) \<and>
        skip_value data p = length (encode_value ops [] (Object obj))"
      using tag at_u32 [OF n c] reads_entries [OF all wf _ es, of "[]"]
      by (simp add: decode_value.simps [of ops data p] skip_value.simps [of data p] tag_defs
          encode_object)
  qed
qed (simp_all add: reads_scalar)

section \<open>Property maps\<close>

text \<open>
  The cells of a property map under the ids its keys were given, and what the property-key
  registry (\<open>catalog/labels.rs\<close>) promises: an id it handed out reads back as the name.
\<close>

fun cells :: "'n num_ops \<Rightarrow> i32 list \<Rightarrow> 'n json_map \<Rightarrow> bytes" where
  "cells ops (kid # ids) ((k, v) # props) = to_le 4 kid @ encode_value ops [] v @ cells ops ids props"
| "cells ops _ _ = []"

definition registry_ok ::
    "('s \<Rightarrow> rust_str \<Rightarrow> 'e + (i32 \<times> 's)) \<Rightarrow> (i32 \<Rightarrow> rust_str) \<Rightarrow> bool" where
  "registry_ok key_id_for key_name_for \<longleftrightarrow>
     (\<forall>s k kid s'. key_id_for s k = Inr (kid, s') \<longrightarrow> key_name_for kid = k)"

lemma encode_props_cells:
  assumes "encode_props ops f s buf props = Inr (buf', s')" and "registry_ok f g"
  shows "\<exists>ids. map g ids = map fst props \<and> buf' = buf @ cells ops ids props"
  using assms(1)
proof (induction props arbitrary: s buf)
  case Nil
  then show ?case by simp
next
  case (Cons e props)
  obtain k v where e: "e = (k, v)" by (cases e)
  obtain kid s1 where k: "f s k = Inr (kid, s1)"
    and rest: "encode_props ops f s1 (encode_value ops (buf @ to_le 4 kid) v) props = Inr (buf', s')"
    using Cons.prems by (auto simp: e bindE_eq_Inr)
  obtain ids where "map g ids = map fst props"
      "buf' = encode_value ops (buf @ to_le 4 kid) v @ cells ops ids props"
    using Cons.IH [OF rest] by blast
  moreover have "g kid = k" using assms(2) k unfolding registry_ok_def by blast
  ultimately show ?case
    using encode_value_append [of ops "buf @ to_le 4 kid" v]
    by (intro exI [of _ "kid # ids"]) (simp add: e)
qed

definition props_sized :: "'n json_map \<Rightarrow> bool" where
  "props_sized props \<longleftrightarrow> map_wf props \<and> list_all (\<lambda>e. sized (snd e)) props"

definition stored_props :: "'n num_ops \<Rightarrow> i32 set \<Rightarrow> i32 list \<Rightarrow> 'n json_map \<Rightarrow> 'n json_map" where
  "stored_props ops wanted ids props =
     map (\<lambda>(kid, k, v). (k, stored ops v)) (filter (\<lambda>(kid, _). kid \<in> wanted) (zip ids props))"

lemma at_i32: "at data p (to_le 4 (v :: i32)) \<Longrightarrow> p + 4 \<le> length data \<and> from_le (bslice p (p + 4) data) = v"
  by (auto simp: at_def)

lemma at_end: "at data p xs \<Longrightarrow> p + length xs \<le> length data"
  by (simp add: at_def)

lemma decode_selected_cells:
  assumes "length ids = length props" and "map g ids = map fst props" and "props_sized props"
    and "\<forall>e \<in> set acc. \<forall>e' \<in> set props. str_less (fst e) (fst e')"
    and "at data p (cells ops ids props)" and "length data = p + length (cells ops ids props)"
  shows "decode_selected_loop ops data wanted g p acc = acc @ stored_props ops wanted ids props"
  using assms
proof (induction ids props arbitrary: p acc rule: list_induct2)
  case Nil
  then show ?case by (simp add: decode_selected_loop.simps stored_props_def)
next
  case (Cons kid ids e props)
  obtain k v where e: "e = (k, v)" by (cases e)
  let ?v = "encode_value ops [] v"
  have kid: "at data p (to_le 4 kid)" and v: "at data (p + 4) ?v"
    and rest: "at data (p + 4 + length ?v) (cells ops ids props)"
    using Cons.prems(4) by (simp_all add: e at_append add.assoc)
  have more: "p + 5 \<le> length data"
    using at_end [OF v] length_encode_value_pos [of ops v] by linarith
  have r: "reads ops v" using Cons.prems(2) by (simp add: e props_sized_def reads_value)
  have ps: "props_sized props" and ord: "\<forall>e' \<in> set props. str_less k (fst e')"
    using Cons.prems(2) by (simp_all add: e props_sized_def map_wf_Cons)
  have ins: "map_insert k (stored ops v) acc = acc @ [(k, stored ops v)]"
    using Cons.prems(3) by (intro map_insert_last) (simp add: e)
  have "g kid = k" and ids: "map g ids = map fst props"
    using Cons.prems(1) by (simp_all add: e)
  have len: "length data = p + 4 + length ?v + length (cells ops ids props)"
    using Cons.prems(5) by (simp add: e)
  have IH: "decode_selected_loop ops data wanted g (p + 4 + length ?v) acc' =
      acc' @ stored_props ops wanted ids props"
    if "\<forall>e \<in> set acc'. \<forall>e' \<in> set props. str_less (fst e) (fst e')" for acc'
    by (rule Cons.IH [OF ids ps that rest len])
  have step: "decode_selected_loop ops data wanted g p acc =
      decode_selected_loop ops data wanted g (p + 4 + length ?v)
        (if kid \<in> wanted then acc @ [(k, stored ops v)] else acc)"
    using more at_i32 [OF kid] readsD [OF r v] \<open>g kid = k\<close> ins
    by (simp add: decode_selected_loop.simps [of ops data wanted g p acc])
  show ?case
    unfolding step using Cons.prems(3) ord by (subst IH) (auto simp: e stored_props_def)
qed

lemma decode_loop_selected:
  "decode_loop ops data g p acc = decode_selected_loop ops data UNIV g p acc"
proof (induction ops data g p acc rule: decode_loop.induct)
  case (1 ops data g p acc)
  obtain v c where vc: "decode_value ops data (p + 4) = (v, c)" by fastforce
  show ?case
    using 1 [of "from_le (bslice p (p + 4) data)" "p + 4" "(v, c)" v c] vc
    by (simp add: decode_loop.simps [of ops data g p acc]
        decode_selected_loop.simps [of ops data UNIV g p acc])
qed

lemma decode_cells:
  assumes "encode ops f s props = Inr (buf, s')" and "registry_ok f g" and "props_sized props"
  obtains ids where "map g ids = map fst props"
    and "\<And>wanted. decode_selected ops buf wanted g = stored_props ops wanted ids props"
proof -
  obtain ids where ids: "map g ids = map fst props" and buf: "buf = cells ops ids props"
    using encode_props_cells [OF assms(1) [unfolded encode_def] assms(2)] by auto
  have "decode_selected ops buf wanted g = stored_props ops wanted ids props" for wanted
    using decode_selected_cells [of ids props g "[]" buf 0 ops wanted] ids assms(3)
      map_eq_imp_length_eq [OF ids]
    by (simp add: decode_selected_def buf at_def)
  with ids that show thesis by blast
qed

lemma stored_props_UNIV:
  "length ids = length props \<Longrightarrow>
   stored_props ops UNIV ids props = map (\<lambda>(k, v). (k, stored ops v)) props"
  by (induction ids props rule: list_induct2) (auto simp: stored_props_def)

lemma decode_encoded:
  assumes "encode ops key_id_for s props = Inr (buf, s')"
    and "registry_ok key_id_for key_name_for" and "props_sized props"
  shows "decode ops buf key_name_for = map (\<lambda>(k, v). (k, stored ops v)) props"
proof -
  obtain ids where "map key_name_for ids = map fst props"
    and "\<And>wanted. decode_selected ops buf wanted key_name_for = stored_props ops wanted ids props"
    by (rule decode_cells [OF assms]) blast
  then show ?thesis
    using map_eq_imp_length_eq [of key_name_for ids fst props]
    by (simp add: decode_def decode_loop_selected decode_selected_def stored_props_UNIV)
qed

text \<open>The codec loses nothing where every number is one that its \<open>i64\<close> or \<open>f64\<close> form determines.\<close>

definition num_exact :: "'n num_ops \<Rightarrow> 'n \<Rightarrow> bool" where
  "num_exact ops n \<longleftrightarrow>
     (case as_i64 ops n of
        Some i \<Rightarrow> of_i64 ops i = n
      | None \<Rightarrow> (case as_f64 ops n of Some f \<Rightarrow> from_f64 ops f = Some n | None \<Rightarrow> False))"

fun exact :: "'n num_ops \<Rightarrow> 'n Json \<Rightarrow> bool" where
  "exact ops (Number n) = num_exact ops n"
| "exact ops (Array arr) = list_all (exact ops) arr"
| "exact ops (Object obj) = list_all (\<lambda>e. exact ops (snd e)) obj"
| "exact ops _ = True"

lemma stored_exact: "exact ops j \<Longrightarrow> stored ops j = j"
proof (induction j)
  case (Number n)
  then show ?case by (auto simp: num_exact_def split: option.splits)
next
  case (Array arr)
  then show ?case by (simp add: list_all_iff map_idI)
next
  case (Object obj)
  then have "(fst e, stored ops (snd e)) = e" if "e \<in> set obj" for e
    using that by (cases e) (auto simp: list_all_iff)
  then show ?case by (simp add: map_idI)
qed simp_all

text \<open>
  C21. Stored properties read back: whatever ids the registry hands out, decoding the encoding of
  a property map yields the same keys in the same order with every value unchanged, except that
  a number comes back as the \<open>i64\<close> or \<open>f64\<close> it was stored as; and where every number is
  determined by that form, decoding gives the original map.
\<close>

theorem decode_encode:
  assumes "encode ops key_id_for s props = Inr (buf, s')"
    and "registry_ok key_id_for key_name_for" and "props_sized props"
  shows "decode ops buf key_name_for = map (\<lambda>(k, v). (k, stored ops v)) props \<and>
    (list_all (\<lambda>e. exact ops (snd e)) props \<longrightarrow> decode ops buf key_name_for = props)"
  using decode_encoded [OF assms] stored_exact [of ops]
  by (fastforce simp: list_all_iff intro!: map_idI)

text \<open>
  C24. Projection pushdown is sound: decoding only the wanted key ids of an encoded map, skipping
  the others without decoding them, yields exactly the entries of the full decoding whose id is
  wanted.
\<close>

theorem decode_selected_filters:
  assumes "encode ops key_id_for s props = Inr (buf, s')"
    and "registry_ok key_id_for key_name_for" and "props_sized props"
  shows "\<exists>ids. map key_name_for ids = map fst props \<and>
    (\<forall>wanted. decode_selected ops buf wanted key_name_for =
       map snd (filter (\<lambda>c. fst c \<in> wanted) (zip ids (decode ops buf key_name_for))))"
proof -
  obtain ids where ids: "map key_name_for ids = map fst props"
    and sel: "\<And>wanted. decode_selected ops buf wanted key_name_for = stored_props ops wanted ids props"
    by (rule decode_cells [OF assms]) blast
  have "stored_props ops wanted ids props = map snd (filter (\<lambda>c. fst c \<in> wanted)
      (zip ids (map (\<lambda>(k, v). (k, stored ops v)) props)))" for wanted
    unfolding stored_props_def case_prod_beta by (simp add: zip_map2 filter_map comp_def case_prod_beta)
  with ids sel decode_encoded [OF assms] show ?thesis by auto
qed

section \<open>Decoding arbitrary bytes\<close>

text \<open>What every \<open>serde_json::Value\<close> is: its strings are UTF-8, its maps in ascending key order.\<close>

fun json_wf :: "'n Json \<Rightarrow> bool" where
  "json_wf (String s) = utf8_valid s"
| "json_wf (Array arr) = list_all json_wf arr"
| "json_wf (Object obj) =
     (map_wf obj \<and> list_all (\<lambda>e. utf8_valid (fst e)) obj \<and> list_all (\<lambda>e. json_wf (snd e)) obj)"
| "json_wf _ = True"

definition entries_wf :: "'n json_map \<Rightarrow> bool" where
  "entries_wf obj \<longleftrightarrow>
     map_wf obj \<and> list_all (\<lambda>e. utf8_valid (fst e)) obj \<and> list_all (\<lambda>e. json_wf (snd e)) obj"

lemma json_wf_Object: "json_wf (Object obj) \<longleftrightarrow> entries_wf obj"
  by (simp add: entries_wf_def)

lemma entries_wf_Nil: "entries_wf []"
  by (simp add: entries_wf_def)

lemma entries_wf_insert: "entries_wf obj \<Longrightarrow> utf8_valid k \<Longrightarrow> json_wf v \<Longrightarrow> entries_wf (map_insert k v obj)"
  using set_map_insert [of k v obj] by (auto simp: entries_wf_def map_wf_insert list_all_iff)

lemma utf8_valid_names:
  "utf8_valid str_question" "utf8_valid str_months" "utf8_valid str_days" "utf8_valid str_nanoseconds"
  by (simp_all add: utf8_valid_ascii str_question_def str_months_def str_days_def str_nanoseconds_def)

lemma utf8_valid_key_str: "json_wf v \<Longrightarrow> utf8_valid (key_str v)"
  by (cases v) (simp_all add: key_str_def utf8_valid_names)

lemma decode_scalar_wf: "json_wf (fst (decode_scalar ops data rest tag))"
proof -
  have "json_wf (Object (map_insert str_nanoseconds (Number a)
      (map_insert str_days (Number b) (map_insert str_months (Number c) []))))" for a b c :: 'a
    unfolding json_wf_Object by (intro entries_wf_insert entries_wf_Nil utf8_valid_names) simp_all
  then show ?thesis
    unfolding decode_scalar_def Let_def by (simp del: json_wf.simps(3))
qed

lemma decode_scalar_bounds:
  "rest \<le> length data \<Longrightarrow> 0 < snd (decode_scalar ops data rest tag) \<and>
     rest + snd (decode_scalar ops data rest tag) \<le> Suc (length data)"
  unfolding decode_scalar_def Let_def by (simp split: if_splits)

lemma decode_wf_bounds:
  "pos \<le> length data \<Longrightarrow> json_wf (fst (decode_value ops data pos)) \<and>
     pos + snd (decode_value ops data pos) \<le> length data \<and>
     (pos < length data \<longrightarrow> 0 < snd (decode_value ops data pos))"
  "inner \<le> length data \<Longrightarrow> list_all json_wf (fst (decode_items ops data n inner)) \<and>
     inner \<le> snd (decode_items ops data n inner) \<and> snd (decode_items ops data n inner) \<le> length data"
  "inner \<le> length data \<Longrightarrow> entries_wf obj \<Longrightarrow> entries_wf (fst (decode_entries ops data n inner obj)) \<and>
     inner \<le> snd (decode_entries ops data n inner obj) \<and>
     snd (decode_entries ops data n inner obj) \<le> length data"
proof (induction ops data pos and ops data n inner and ops data n inner obj
    rule: decode_value_decode_items_decode_entries.induct)
  case (1 ops data pos)
  show ?case
  proof (cases "pos < length data \<and> (data ! pos = TAG_LIST \<or> data ! pos = TAG_MAP) \<and> pos + 5 \<le> length data")
    case True
    then consider "data ! pos = TAG_LIST" | "data ! pos = TAG_MAP" by blast
    then show ?thesis
    proof cases
      case 1
      obtain arr inner where r: "decode_items ops data (rd_u32 data (Suc pos)) (5 + pos) = (arr, inner)"
        by fastforce
      with 1 True "1.IH"(1) [OF _ refl refl] show ?thesis
        by (simp add: decode_value.simps [of ops data pos] add.commute)
    next
      case 2
      obtain obj inner where r: "decode_entries ops data (rd_u32 data (Suc pos)) (5 + pos) [] = (obj, inner)"
        by fastforce
      have "TAG_MAP \<noteq> TAG_LIST" by (simp add: tag_defs)
      with r 2 True "1.IH"(2) [OF _ refl refl] entries_wf_Nil show ?thesis
        by (auto simp: decode_value.simps [of ops data pos] json_wf_Object add.commute
            simp del: json_wf.simps(3))
    qed
  next
    case False
    with 1(3) decode_scalar_wf [of ops data "Suc pos" "data ! pos"]
      decode_scalar_bounds [of "Suc pos" data ops "data ! pos"]
    show ?thesis
      by (auto simp: decode_value.simps [of ops data pos] Let_def)
  qed
next
  case (2 ops data inner)
  then show ?case by simp
next
  case (3 ops data n inner)
  obtain v c where v: "decode_value ops data inner = (v, c)" by fastforce
  obtain vs inner' where vs: "decode_items ops data n (inner + c) = (vs, inner')" by fastforce
  from 3(1,3) 3(2) [OF v [symmetric] refl] v vs show ?case by (auto simp: Let_def)
next
  case (4 ops data inner obj)
  then show ?case by simp
next
  case (5 ops data n inner obj)
  obtain kv kc where k: "decode_value ops data inner = (kv, kc)" by fastforce
  obtain v vc where v: "decode_value ops data (inner + kc) = (v, vc)" by fastforce
  from 5(1,4,5) 5(2) [OF k [symmetric] refl] 5(3) [OF k [symmetric] refl v [symmetric] refl refl] k v
  show ?case
    by (auto simp: Let_def entries_wf_insert utf8_valid_key_str)
qed

lemma decode_selected_wf:
  "\<forall>kid. utf8_valid (g kid) \<Longrightarrow> entries_wf acc \<Longrightarrow>
   entries_wf (decode_selected_loop ops data wanted g pos acc)"
proof (induction ops data wanted g pos acc rule: decode_selected_loop.induct)
  case (1 ops data wanted g pos acc)
  obtain v c where v: "decode_value ops data (pos + 4) = (v, c)" by fastforce
  have "json_wf v" if "pos + 5 \<le> length data"
    using that decode_wf_bounds(1) [of "pos + 4" data ops] v by simp
  with 1 v show ?case
    by (simp add: decode_selected_loop.simps [of ops data wanted g pos acc] Let_def entries_wf_insert)
qed

text \<open>
  C34. The decoder is safe on corrupt bytes: whatever the buffer holds, decoding a value at any
  position terminates, never consumes bytes past the end of the buffer, consumes at least one
  when there is one (so no reader loops in place), and yields a well-formed JSON value (lossy
  strings included); and the whole map is well formed.
\<close>

theorem decode_safe:
  assumes "pos \<le> length data" and "\<forall>kid. utf8_valid (key_name_for kid)"
  shows "pos + snd (decode_value ops data pos) \<le> length data \<and>
    (pos < length data \<longrightarrow> 0 < snd (decode_value ops data pos)) \<and>
    json_wf (fst (decode_value ops data pos)) \<and> json_wf (Object (decode ops data key_name_for))"
  using decode_wf_bounds(1) [OF assms(1), of ops] decode_selected_wf [OF assms(2) entries_wf_Nil]
  unfolding json_wf_Object decode_def decode_loop_selected by blast

section \<open>Examples\<close>

text \<open>A number type with the two representations the codec distinguishes.\<close>

datatype num_demo = DemoInt i64 | DemoFloat u64 | DemoBig u64

definition ops_demo :: "num_demo num_ops" where
  "ops_demo = \<lparr>
     as_i64 = (\<lambda>n. case n of DemoInt i \<Rightarrow> Some i | _ \<Rightarrow> None),
     as_f64 = (\<lambda>n. case n of DemoFloat f \<Rightarrow> Some f | DemoBig u \<Rightarrow> Some u | _ \<Rightarrow> None),
     of_i64 = DemoInt,
     from_f64 = (\<lambda>f. Some (DemoFloat f))\<rparr>"

definition ids_demo :: "unit \<Rightarrow> rust_str \<Rightarrow> unit + (i32 \<times> unit)" where
  "ids_demo s k =
     (if k = [0x61] then Inr (1, s) else if k = [0x62] then Inr (2, s) else Inl ())"

definition names_demo :: "i32 \<Rightarrow> rust_str" where
  "names_demo kid = (if kid = 1 then [0x61] else [0x62])"

definition props_demo :: "num_demo json_map" where
  "props_demo = [([0x61], Number (DemoInt 5)), ([0x62], Array [Null, Bool True])]"

lemma encode_demo:
  "encode ops_demo ids_demo () props_demo =
     Inr ([1, 0, 0, 0, 1, 5, 0, 0, 0, 0, 0, 0, 0, 2, 0, 0, 0, 0x0C, 2, 0, 0, 0, 0x0E, 3, 1], ())"
  by code_simp

lemma registry_demo: "registry_ok ids_demo names_demo"
  by (simp add: registry_ok_def ids_demo_def names_demo_def)

lemma sized_demo: "props_sized props_demo"
  by (simp add: props_sized_def props_demo_def map_wf_def)

lemma decode_encode_witness:
  "decode ops_demo [1, 0, 0, 0, 1, 5, 0, 0, 0, 0, 0, 0, 0, 2, 0, 0, 0, 0x0C, 2, 0, 0, 0, 0x0E, 3, 1]
     names_demo = props_demo"
  using decode_encode [OF encode_demo registry_demo sized_demo]
  by (simp add: props_demo_def ops_demo_def num_exact_def)

lemma decode_selected_filters_witness:
  "\<exists>ids. map names_demo ids = [[0x61], [0x62]] \<and>
    (\<forall>wanted. decode_selected ops_demo
        [1, 0, 0, 0, 1, 5, 0, 0, 0, 0, 0, 0, 0, 2, 0, 0, 0, 0x0C, 2, 0, 0, 0, 0x0E, 3, 1]
        wanted names_demo =
       map snd (filter (\<lambda>c. fst c \<in> wanted) (zip ids (decode ops_demo
        [1, 0, 0, 0, 1, 5, 0, 0, 0, 0, 0, 0, 0, 2, 0, 0, 0, 0x0C, 2, 0, 0, 0, 0x0E, 3, 1] names_demo))))"
proof -
  from decode_selected_filters [OF encode_demo registry_demo sized_demo] show ?thesis
    by (simp add: props_demo_def)
qed

lemma decode_safe_witness:
  "snd (decode_value ops_demo [0x0C, 9, 0, 0, 0, 0x01, 7] 0) \<le> 7 \<and>
     0 < snd (decode_value ops_demo [0x0C, 9, 0, 0, 0, 0x01, 7] 0)"
  using decode_safe [of 0 "[0x0C, 9, 0, 0, 0, 0x01, 7]" names_demo ops_demo]
  by (simp add: names_demo_def utf8_valid_ascii)

text \<open>
  A number outside the \<open>i64\<close> range takes its \<open>f64\<close> form and does not come back as it was: the
  premise on exact numbers cannot be dropped.
\<close>

lemma big_number_changed:
  "stored ops_demo (Number (DemoBig 0x43E0000000000000)) = Number (DemoFloat 0x43E0000000000000)"
  by (simp add: ops_demo_def)

end
