(* ===== verification/PageLayout.thy ===== *)
theory PageLayout
  imports Bytes
begin

text \<open>
  The page format of \<open>storage/page.rs\<close>: page geometry, WAL opcodes, the offsets of node and edge
  records and the 24-byte adjacency headers kept in a node page's special area. The seven fields
  of an adjacency header share the interface \<open>adj_field\<close>; from it follow that a setter changes
  its own field and no other, and that the header's bytes carry exactly the seven fields.
\<close>

section \<open>Constants\<close>

definition BLCKSZ :: nat where [layout_simps]: "BLCKSZ = 8192"

definition XLOG_PG_EDDY_NODE_INSERT :: u8 where "XLOG_PG_EDDY_NODE_INSERT = 0x00"
definition XLOG_PG_EDDY_NODE_INSERT_OVF :: u8 where "XLOG_PG_EDDY_NODE_INSERT_OVF = 0x10"
definition XLOG_PG_EDDY_NODE_DELETE :: u8 where "XLOG_PG_EDDY_NODE_DELETE = 0x20"
definition XLOG_PG_EDDY_NODE_COMPACT :: u8 where "XLOG_PG_EDDY_NODE_COMPACT = 0x30"
definition XLOG_PG_EDDY_EDGE_INSERT :: u8 where "XLOG_PG_EDDY_EDGE_INSERT = 0x40"
definition XLOG_PG_EDDY_EDGE_DELETE :: u8 where "XLOG_PG_EDDY_EDGE_DELETE = 0x50"
definition XLOG_PG_EDDY_ADJ_UPDATE :: u8 where "XLOG_PG_EDDY_ADJ_UPDATE = 0x60"
definition XLOG_PG_EDDY_VACUUM_PAGE :: u8 where "XLOG_PG_EDDY_VACUUM_PAGE = 0x70"

lemmas xlog_opcodes =
  XLOG_PG_EDDY_NODE_INSERT_def XLOG_PG_EDDY_NODE_INSERT_OVF_def XLOG_PG_EDDY_NODE_DELETE_def
  XLOG_PG_EDDY_NODE_COMPACT_def XLOG_PG_EDDY_EDGE_INSERT_def XLOG_PG_EDDY_EDGE_DELETE_def
  XLOG_PG_EDDY_ADJ_UPDATE_def XLOG_PG_EDDY_VACUUM_PAGE_def

definition MAX_NODE_SLOTS_PER_PAGE :: nat where [layout_simps]: "MAX_NODE_SLOTS_PER_PAGE = 100"
definition ADJ_HEADER_BYTES :: nat where [layout_simps]: "ADJ_HEADER_BYTES = 24"

definition PD_NODE_SPECIAL_SIZE :: nat where
  [layout_simps]: "PD_NODE_SPECIAL_SIZE = MAX_NODE_SLOTS_PER_PAGE * ADJ_HEADER_BYTES"

definition PD_NODE_SPECIAL_OFFSET :: nat where
  [layout_simps]: "PD_NODE_SPECIAL_OFFSET = 8192 - PD_NODE_SPECIAL_SIZE"

definition PROP_INLINE_MAX :: nat where [layout_simps]: "PROP_INLINE_MAX = 512"
definition MAX_LABELS_PER_NODE :: nat where [layout_simps]: "MAX_LABELS_PER_NODE = 32"
definition NODE_FIXED_DATA_SIZE :: nat where [layout_simps]: "NODE_FIXED_DATA_SIZE = 18"

text \<open>Offsets within the data portion of an edge record (after the heap tuple header).\<close>

definition OFF_EDGE_REL_ID :: nat where [layout_simps]: "OFF_EDGE_REL_ID = 0"
definition OFF_EDGE_REL_TYPE_ID :: nat where [layout_simps]: "OFF_EDGE_REL_TYPE_ID = 8"
definition OFF_EDGE_SOURCE_NODE_ID :: nat where [layout_simps]: "OFF_EDGE_SOURCE_NODE_ID = 12"
definition OFF_EDGE_TARGET_NODE_ID :: nat where [layout_simps]: "OFF_EDGE_TARGET_NODE_ID = 20"
definition OFF_EDGE_NEXT_OUT_PAGE :: nat where [layout_simps]: "OFF_EDGE_NEXT_OUT_PAGE = 28"
definition OFF_EDGE_NEXT_OUT_SLOT :: nat where [layout_simps]: "OFF_EDGE_NEXT_OUT_SLOT = 32"
definition OFF_EDGE_NEXT_IN_PAGE :: nat where [layout_simps]: "OFF_EDGE_NEXT_IN_PAGE = 34"
definition OFF_EDGE_NEXT_IN_SLOT :: nat where [layout_simps]: "OFF_EDGE_NEXT_IN_SLOT = 38"
definition OFF_EDGE_PROP_INLINE_LEN :: nat where [layout_simps]: "OFF_EDGE_PROP_INLINE_LEN = 40"
definition OFF_EDGE_PROP_OVERFLOW_PAGE :: nat where
  [layout_simps]: "OFF_EDGE_PROP_OVERFLOW_PAGE = 42"
definition OFF_EDGE_PROP_DATA :: nat where [layout_simps]: "OFF_EDGE_PROP_DATA = 46"
definition EDGE_FIXED_DATA_SIZE :: nat where [layout_simps]: "EDGE_FIXED_DATA_SIZE = 46"

text \<open>Offsets within the data portion of a node record.\<close>

definition OFF_NODE_ID :: nat where [layout_simps]: "OFF_NODE_ID = 0"
definition OFF_ADJ_SLOT :: nat where [layout_simps]: "OFF_ADJ_SLOT = 8"
definition OFF_LABEL_COUNT :: nat where [layout_simps]: "OFF_LABEL_COUNT = 10"
definition OFF_PROP_INLINE_LEN :: nat where [layout_simps]: "OFF_PROP_INLINE_LEN = 11"
definition OFF_PROP_OVERFLOW_PAGE :: nat where [layout_simps]: "OFF_PROP_OVERFLOW_PAGE = 13"
definition OFF_LABEL_IDS :: nat where [layout_simps]: "OFF_LABEL_IDS = 18"

text \<open>The size of a heap tuple header, as \<open>node_item_size\<close> hard-codes it.\<close>

definition HTUP_HEADER :: nat where [layout_simps]: "HTUP_HEADER = 24"

definition node_item_size :: "nat \<Rightarrow> nat \<Rightarrow> nat" where
  "node_item_size nlabels nprop = HTUP_HEADER + NODE_FIXED_DATA_SIZE + nlabels * 4 + nprop"

section \<open>Reads from a byte slice\<close>

text \<open>\<open>None\<close> is the panic of a slice that leaves the buffer.\<close>

definition read_i64 :: "bytes \<Rightarrow> nat \<Rightarrow> i64 option" where
  "read_i64 buf off =
     (if off + 8 \<le> length buf then Some (from_le (bslice off (off + 8) buf)) else None)"

definition read_u16 :: "bytes \<Rightarrow> nat \<Rightarrow> u16 option" where
  "read_u16 buf off =
     (if off + 2 \<le> length buf then Some (from_le (bslice off (off + 2) buf)) else None)"

definition read_u32 :: "bytes \<Rightarrow> nat \<Rightarrow> u32 option" where
  "read_u32 buf off =
     (if off + 4 \<le> length buf then Some (from_le (bslice off (off + 4) buf)) else None)"

definition read_i32 :: "bytes \<Rightarrow> nat \<Rightarrow> i32 option" where
  "read_i32 buf off =
     (if off + 4 \<le> length buf then Some (from_le (bslice off (off + 4) buf)) else None)"

section \<open>Adjacency headers\<close>

text \<open>
  The Rust type is a newtype over \<open>[u8; 24]\<close>; \<open>adj_wf\<close> is the array length, which the list
  representation has to carry along.
\<close>

datatype NodeAdjHeader = NodeAdjHeader (adj_bytes: bytes)

definition adj_wf :: "NodeAdjHeader \<Rightarrow> bool" where
  "adj_wf h \<longleftrightarrow> length (adj_bytes h) = ADJ_HEADER_BYTES"

definition adj_default :: NodeAdjHeader where
  "adj_default = NodeAdjHeader (replicate ADJ_HEADER_BYTES 0)"

definition out_head_pg :: "NodeAdjHeader \<Rightarrow> u32" where
  "out_head_pg h = from_le (bslice 0 4 (adj_bytes h))"
definition out_head_sl :: "NodeAdjHeader \<Rightarrow> u16" where
  "out_head_sl h = from_le (bslice 4 6 (adj_bytes h))"
definition in_head_pg :: "NodeAdjHeader \<Rightarrow> u32" where
  "in_head_pg h = from_le (bslice 6 10 (adj_bytes h))"
definition in_head_sl :: "NodeAdjHeader \<Rightarrow> u16" where
  "in_head_sl h = from_le (bslice 10 12 (adj_bytes h))"
definition out_degree :: "NodeAdjHeader \<Rightarrow> u32" where
  "out_degree h = from_le (bslice 12 16 (adj_bytes h))"
definition in_degree :: "NodeAdjHeader \<Rightarrow> u32" where
  "in_degree h = from_le (bslice 16 20 (adj_bytes h))"
definition graph_partition_id :: "NodeAdjHeader \<Rightarrow> u32" where
  "graph_partition_id h = from_le (bslice 20 24 (adj_bytes h))"

definition set_out_head_pg :: "NodeAdjHeader \<Rightarrow> u32 \<Rightarrow> NodeAdjHeader" where
  "set_out_head_pg h v = NodeAdjHeader (splice 0 (to_le 4 v) (adj_bytes h))"
definition set_out_head_sl :: "NodeAdjHeader \<Rightarrow> u16 \<Rightarrow> NodeAdjHeader" where
  "set_out_head_sl h v = NodeAdjHeader (splice 4 (to_le 2 v) (adj_bytes h))"
definition set_in_head_pg :: "NodeAdjHeader \<Rightarrow> u32 \<Rightarrow> NodeAdjHeader" where
  "set_in_head_pg h v = NodeAdjHeader (splice 6 (to_le 4 v) (adj_bytes h))"
definition set_in_head_sl :: "NodeAdjHeader \<Rightarrow> u16 \<Rightarrow> NodeAdjHeader" where
  "set_in_head_sl h v = NodeAdjHeader (splice 10 (to_le 2 v) (adj_bytes h))"
definition set_out_degree :: "NodeAdjHeader \<Rightarrow> u32 \<Rightarrow> NodeAdjHeader" where
  "set_out_degree h v = NodeAdjHeader (splice 12 (to_le 4 v) (adj_bytes h))"
definition set_in_degree :: "NodeAdjHeader \<Rightarrow> u32 \<Rightarrow> NodeAdjHeader" where
  "set_in_degree h v = NodeAdjHeader (splice 16 (to_le 4 v) (adj_bytes h))"
definition set_graph_partition_id :: "NodeAdjHeader \<Rightarrow> u32 \<Rightarrow> NodeAdjHeader" where
  "set_graph_partition_id h v = NodeAdjHeader (splice 20 (to_le 4 v) (adj_bytes h))"

subsection \<open>The interface of a header field\<close>

locale adj_field = fixed_codec +
  fixes pos :: nat and read :: "NodeAdjHeader \<Rightarrow> 'a" and writ :: "NodeAdjHeader \<Rightarrow> 'a \<Rightarrow> NodeAdjHeader"
  assumes in_header: "pos + width \<le> ADJ_HEADER_BYTES"
    and read_eq: "read h = dec (bslice pos (pos + width) (adj_bytes h))"
    and writ_eq: "writ h v = NodeAdjHeader (splice pos (enc v) (adj_bytes h))"
begin

lemma writ_wf: "adj_wf h \<Longrightarrow> adj_wf (writ h v)"
  using in_header by (simp add: adj_wf_def writ_eq)

lemma read_writ: "adj_wf h \<Longrightarrow> read (writ h v) = v"
  using in_header by (simp add: adj_wf_def read_eq writ_eq read_written)

lemma frame:
  assumes "adj_wf h" and "b \<le> pos \<or> pos + width \<le> a"
  shows "bslice a b (adj_bytes (writ h v)) = bslice a b (adj_bytes h)"
  using assms in_header by (auto simp: adj_wf_def writ_eq slice_splice_before slice_splice_after)

end

interpretation f_out_pg: adj_field "to_le 4" from_le 4 0 out_head_pg set_out_head_pg
  by unfold_locales (auto simp: layout_simps out_head_pg_def set_out_head_pg_def)
interpretation f_out_sl: adj_field "to_le 2" from_le 2 4 out_head_sl set_out_head_sl
  by unfold_locales (auto simp: layout_simps out_head_sl_def set_out_head_sl_def)
interpretation f_in_pg: adj_field "to_le 4" from_le 4 6 in_head_pg set_in_head_pg
  by unfold_locales (auto simp: layout_simps in_head_pg_def set_in_head_pg_def)
interpretation f_in_sl: adj_field "to_le 2" from_le 2 10 in_head_sl set_in_head_sl
  by unfold_locales (auto simp: layout_simps in_head_sl_def set_in_head_sl_def)
interpretation f_out_deg: adj_field "to_le 4" from_le 4 12 out_degree set_out_degree
  by unfold_locales (auto simp: layout_simps out_degree_def set_out_degree_def)
interpretation f_in_deg: adj_field "to_le 4" from_le 4 16 in_degree set_in_degree
  by unfold_locales (auto simp: layout_simps in_degree_def set_in_degree_def)
interpretation f_part: adj_field "to_le 4" from_le 4 20 graph_partition_id set_graph_partition_id
  by unfold_locales (auto simp: layout_simps graph_partition_id_def set_graph_partition_id_def)

lemmas adj_read_defs =
  out_head_pg_def out_head_sl_def in_head_pg_def in_head_sl_def out_degree_def in_degree_def
  graph_partition_id_def

lemmas adj_writ_wf [simp] =
  f_out_pg.writ_wf f_out_sl.writ_wf f_in_pg.writ_wf f_in_sl.writ_wf f_out_deg.writ_wf
  f_in_deg.writ_wf f_part.writ_wf

lemmas adj_read_writ =
  f_out_pg.read_writ f_out_sl.read_writ f_in_pg.read_writ f_in_sl.read_writ f_out_deg.read_writ
  f_in_deg.read_writ f_part.read_writ

lemmas adj_frames =
  f_out_pg.frame f_out_sl.frame f_in_pg.frame f_in_sl.frame f_out_deg.frame f_in_deg.frame
  f_part.frame

lemma adj_wf_default [simp]: "adj_wf adj_default"
  by (simp add: adj_wf_def adj_default_def)

subsection \<open>The abstract header and its refinement\<close>

text \<open>
  What a header means: seven independent values. \<open>adj_view\<close> reads the bytes as that record and
  \<open>adj_encode\<close> writes a record's values through the setters into a zeroed header.
\<close>

record adj =
  a_out_pg :: u32
  a_out_sl :: u16
  a_in_pg :: u32
  a_in_sl :: u16
  a_out_deg :: u32
  a_in_deg :: u32
  a_part :: u32

definition adj_view :: "NodeAdjHeader \<Rightarrow> adj" where
  "adj_view h = \<lparr>a_out_pg = out_head_pg h, a_out_sl = out_head_sl h, a_in_pg = in_head_pg h,
     a_in_sl = in_head_sl h, a_out_deg = out_degree h, a_in_deg = in_degree h,
     a_part = graph_partition_id h\<rparr>"

definition adj_encode :: "adj \<Rightarrow> NodeAdjHeader" where
  "adj_encode a = NodeAdjHeader (to_le 4 (a_out_pg a) @ to_le 2 (a_out_sl a) @ to_le 4 (a_in_pg a) @
     to_le 2 (a_in_sl a) @ to_le 4 (a_out_deg a) @ to_le 4 (a_in_deg a) @ to_le 4 (a_part a))"

lemma adj_view_set_out_head_pg:
  "adj_wf h \<Longrightarrow> adj_view (set_out_head_pg h v) = (adj_view h)\<lparr>a_out_pg := v\<rparr>"
  by (simp add: adj_view_def adj_read_writ) (simp add: adj_read_defs adj_frames)

lemma adj_view_set_out_head_sl:
  "adj_wf h \<Longrightarrow> adj_view (set_out_head_sl h v) = (adj_view h)\<lparr>a_out_sl := v\<rparr>"
  by (simp add: adj_view_def adj_read_writ) (simp add: adj_read_defs adj_frames)

lemma adj_view_set_in_head_pg:
  "adj_wf h \<Longrightarrow> adj_view (set_in_head_pg h v) = (adj_view h)\<lparr>a_in_pg := v\<rparr>"
  by (simp add: adj_view_def adj_read_writ) (simp add: adj_read_defs adj_frames)

lemma adj_view_set_in_head_sl:
  "adj_wf h \<Longrightarrow> adj_view (set_in_head_sl h v) = (adj_view h)\<lparr>a_in_sl := v\<rparr>"
  by (simp add: adj_view_def adj_read_writ) (simp add: adj_read_defs adj_frames)

lemma adj_view_set_out_degree:
  "adj_wf h \<Longrightarrow> adj_view (set_out_degree h v) = (adj_view h)\<lparr>a_out_deg := v\<rparr>"
  by (simp add: adj_view_def adj_read_writ) (simp add: adj_read_defs adj_frames)

lemma adj_view_set_in_degree:
  "adj_wf h \<Longrightarrow> adj_view (set_in_degree h v) = (adj_view h)\<lparr>a_in_deg := v\<rparr>"
  by (simp add: adj_view_def adj_read_writ) (simp add: adj_read_defs adj_frames)

lemma adj_view_set_graph_partition_id:
  "adj_wf h \<Longrightarrow> adj_view (set_graph_partition_id h v) = (adj_view h)\<lparr>a_part := v\<rparr>"
  by (simp add: adj_view_def adj_read_writ) (simp add: adj_read_defs adj_frames)

lemmas adj_view_simps =
  adj_view_set_out_head_pg adj_view_set_out_head_sl adj_view_set_in_head_pg
  adj_view_set_in_head_sl adj_view_set_out_degree adj_view_set_in_degree
  adj_view_set_graph_partition_id

lemma adj_wf_encode [simp]: "adj_wf (adj_encode a)"
  by (simp add: adj_wf_def adj_encode_def layout_simps)

lemma adj_view_encode: "adj_view (adj_encode a) = a"
  by (simp add: adj_view_def adj_read_defs adj_encode_def bslice_def)

lemma field_reencode:
  assumes "b \<le> length buf" and "n = b - a" and "8 * n \<le> LENGTH('w)"
  shows "to_le n (from_le (bslice a b buf) :: 'w::len word) = bslice a b buf"
  using to_le_from_le [of "bslice a b buf", where 'a = 'w] assms by (simp add: length_slice)

lemma adj_encode_view:
  assumes "adj_wf h"
  shows "adj_encode (adj_view h) = h"
proof -
  obtain b where h: "h = NodeAdjHeader b" by (cases h)
  have len: "length b = 24" using assms by (simp add: h adj_wf_def layout_simps)
  have "bslice 0 4 b @ bslice 4 6 b @ bslice 6 10 b @ bslice 10 12 b @ bslice 12 16 b @
      bslice 16 20 b @ bslice 20 24 b = b"
    using len by (simp flip: slice_split)
  then show ?thesis
    by (simp add: h adj_encode_def adj_view_def adj_read_defs field_reencode len)
qed

text \<open>
  A refinement: every setter of an adjacency header is the update of one field of the abstract
  record, leaving the other six alone, and a 24-byte header is determined by its seven fields (the
  layout has neither gaps nor overlaps).
\<close>

theorem adj_header_refines:
  assumes "adj_wf h"
  shows "adj_view (set_out_head_pg h p) = (adj_view h)\<lparr>a_out_pg := p\<rparr> \<and>
    adj_view (set_out_head_sl h s) = (adj_view h)\<lparr>a_out_sl := s\<rparr> \<and>
    adj_view (set_in_head_pg h p) = (adj_view h)\<lparr>a_in_pg := p\<rparr> \<and>
    adj_view (set_in_head_sl h s) = (adj_view h)\<lparr>a_in_sl := s\<rparr> \<and>
    adj_view (set_out_degree h p) = (adj_view h)\<lparr>a_out_deg := p\<rparr> \<and>
    adj_view (set_in_degree h p) = (adj_view h)\<lparr>a_in_deg := p\<rparr> \<and>
    adj_view (set_graph_partition_id h p) = (adj_view h)\<lparr>a_part := p\<rparr> \<and>
    adj_encode (adj_view h) = h"
  using assms by (simp add: adj_view_simps adj_encode_view)

lemma adj_header_refines_witness:
  "adj_view (set_in_degree adj_default 7) = (adj_view adj_default)\<lparr>a_in_deg := 7\<rparr>"
  using adj_header_refines [OF adj_wf_default] by blast

end
