(* ===== verification/PgPage.thy ===== *)
theory PgPage
  imports PageLayout
begin

text \<open>
  PostgreSQL as the storage engine sees it: heap tuple headers, slotted pages with a special
  area, and the primitives of the buffer manager, the page module and the transaction system.
  The primitives are not part of the sources, so they are the fields of a record \<open>pg\<close>, a
  parameter of every operation; \<open>pg_ok\<close> states their documented behaviour. \<open>ref_pg\<close> is one
  concrete instance, with which the examples of the development are evaluated.
\<close>

section \<open>Tuples and pages\<close>

definition HEAP_XMIN_COMMITTED :: u16 where "HEAP_XMIN_COMMITTED = 0x0100"
definition HEAP_XMIN_INVALID :: u16 where "HEAP_XMIN_INVALID = 0x0200"
definition HEAP_XMAX_INVALID :: u16 where "HEAP_XMAX_INVALID = 0x0800"

lemmas heap_flags = HEAP_XMIN_COMMITTED_def HEAP_XMIN_INVALID_def HEAP_XMAX_INVALID_def

definition InvalidTransactionId :: u32 where "InvalidTransactionId = 0"

definition InvalidOffsetNumber :: nat where [simp]: "InvalidOffsetNumber = 0"
definition FirstOffsetNumber :: nat where [simp]: "FirstOffsetNumber = 1"

record heap_header =
  t_xmin :: u32
  t_xmax :: u32
  t_cid :: u32
  t_ctid :: "u32 \<times> u16"
  t_infomask2 :: u16
  t_infomask :: u16
  t_hoff :: u8

text \<open>
  An item is a heap tuple (header and data portion) or, on an overflow page, raw bytes.
  \<open>size_of::<HeapTupleHeaderData>()\<close> is 24.
\<close>

definition hdr_size :: nat where "hdr_size = 24"

datatype item = Tuple heap_header bytes | Raw bytes

fun item_len :: "item \<Rightarrow> nat" where
  "item_len (Tuple hdr data) = hdr_size + length data"
| "item_len (Raw bs) = length bs"

datatype lp_flag = LP_UNUSED | LP_NORMAL | LP_REDIRECT | LP_DEAD

record line =
  lp_flags :: lp_flag
  lp_item :: item

record page =
  pd_lower :: nat
  pd_upper :: nat
  pd_special :: nat
  lines :: "line list"
  special :: bytes
  pd_lsn :: nat

text \<open>The all-zero page with which a relation is extended; its \<open>pd_upper\<close> is 0.\<close>

definition new_page :: page where
  "new_page = \<lparr>pd_lower = 0, pd_upper = 0, pd_special = 0, lines = [], special = [], pd_lsn = 0\<rparr>"

definition max_off :: "page \<Rightarrow> nat" where
  "max_off p = length (lines p)"

text \<open>\<open>PageGetItemId\<close>, \<open>None\<close> where the offset number is not one of the page.\<close>

definition get_line :: "page \<Rightarrow> nat \<Rightarrow> line option" where
  "get_line p off = (if 1 \<le> off \<and> off \<le> max_off p then Some (lines p ! (off - 1)) else None)"

definition set_item :: "page \<Rightarrow> nat \<Rightarrow> item \<Rightarrow> page" where
  "set_item p off it = p\<lparr>lines := (lines p)[off - 1 := (lines p ! (off - 1))\<lparr>lp_item := it\<rparr>]\<rparr>"

definition set_lp_flags :: "page \<Rightarrow> nat \<Rightarrow> lp_flag \<Rightarrow> page" where
  "set_lp_flags p off f = p\<lparr>lines := (lines p)[off - 1 := (lines p ! (off - 1))\<lparr>lp_flags := f\<rparr>]\<rparr>"

definition page_set_lsn :: "page \<Rightarrow> nat \<Rightarrow> page" where
  "page_set_lsn p lsn = p\<lparr>pd_lsn := lsn\<rparr>"

definition maxalign :: "nat \<Rightarrow> nat" where
  "maxalign n = (n + 7) div 8 * 8"

text \<open>\<open>size_of::<ItemIdData>()\<close>.\<close>

definition item_id_size :: nat where "item_id_size = 4"

text \<open>\<open>page_free_space\<close>, the same in \<open>node_store.rs\<close> and \<open>edge_store.rs\<close>.\<close>

definition page_free_space :: "page \<Rightarrow> nat" where
  "page_free_space p = pd_upper p - pd_lower p"

text \<open>The space taken by the items of the line pointers in use.\<close>

definition line_storage :: "line \<Rightarrow> nat" where
  "line_storage l = (if lp_flags l = LP_UNUSED then 0 else maxalign (item_len (lp_item l)))"

definition storage :: "page \<Rightarrow> nat" where
  "storage p = sum_list (map line_storage (lines p))"

definition page_wf :: "page \<Rightarrow> bool" where
  "page_wf p \<longleftrightarrow> pd_lower p = 24 + 4 * length (lines p) \<and> pd_lower p \<le> pd_upper p \<and>
     pd_upper p + storage p \<le> pd_special p \<and> pd_special p \<le> BLCKSZ \<and>
     length (special p) = BLCKSZ - pd_special p"

section \<open>PostgreSQL's primitives\<close>

definition PAI_OVERWRITE :: nat where "PAI_OVERWRITE = 1"

record 'snap pg =
  PageInit :: "nat \<Rightarrow> page"
  PageAddItemExtended :: "page \<Rightarrow> item \<Rightarrow> nat \<Rightarrow> nat \<Rightarrow> page \<times> nat"
  PageRepairFragmentation :: "page \<Rightarrow> page"
  XidInMVCCSnapshot :: "u32 \<Rightarrow> 'snap \<Rightarrow> bool"
  IsCurrentTransactionId :: "u32 \<Rightarrow> bool"
  DidCommit :: "u32 \<Rightarrow> bool"
  Precedes :: "u32 \<Rightarrow> u32 \<Rightarrow> bool"
  CurrentTransactionId :: u32
  CurrentCommandId :: u32
  ActiveSnapshot :: "'snap option"
  OldestNonRemovableTransactionId :: u32

text \<open>Storing an item behind the line pointer \<open>off\<close>, an existing one or the next.\<close>

definition place :: "page \<Rightarrow> nat \<Rightarrow> item \<Rightarrow> page" where
  "place p off it =
     (let l = \<lparr>lp_flags = LP_NORMAL, lp_item = it\<rparr> in
      p\<lparr>lines := (if off \<le> max_off p then (lines p)[off - 1 := l] else lines p @ [l]),
        pd_lower := (if off \<le> max_off p then pd_lower p else pd_lower p + item_id_size),
        pd_upper := pd_upper p - maxalign (item_len it)\<rparr>)"

definition unused :: "page \<Rightarrow> nat \<Rightarrow> bool" where
  "unused p off \<longleftrightarrow> 1 \<le> off \<and> off \<le> max_off p \<and> lp_flags (lines p ! (off - 1)) = LP_UNUSED"

text \<open>
  The documented behaviour. \<open>PageInit\<close> formats an empty page with a zeroed special area.
  \<open>PageAddItemExtended\<close> returns \<open>InvalidOffsetNumber\<close> and leaves the page alone, or stores the item:
  without a requested offset, behind an unused line pointer or a new one; with one (and
  \<open>PAI_OVERWRITE\<close>), there. It does not fail when the aligned item and a line pointer fit.
  \<open>PageRepairFragmentation\<close> moves the items that have storage together at the end of the page; a
  line pointer in use keeps its flags and its item.
\<close>

definition pg_page_init_ok :: "'snap pg \<Rightarrow> bool" where
  "pg_page_init_ok pg \<longleftrightarrow> (\<forall>n. n mod 8 = 0 \<and> n \<le> 8000 \<longrightarrow>
     page_wf (PageInit pg n) \<and> lines (PageInit pg n) = [] \<and> pd_special (PageInit pg n) = BLCKSZ - n \<and>
     pd_upper (PageInit pg n) = BLCKSZ - n \<and> special (PageInit pg n) = replicate n 0 \<and>
     pd_lsn (PageInit pg n) = 0)"

definition pg_add_item_ok :: "'snap pg \<Rightarrow> bool" where
  "pg_add_item_ok pg \<longleftrightarrow> (\<forall>p it p' off. page_wf p \<longrightarrow> PageAddItemExtended pg p it 0 0 = (p', off) \<longrightarrow>
     (off = 0 \<and> p' = p \<and> page_free_space p < maxalign (item_len it) + item_id_size) \<or>
     (p' = place p off it \<and> page_wf p' \<and> (off = max_off p + 1 \<or> unused p off)))"

definition pg_add_item_at_ok :: "'snap pg \<Rightarrow> bool" where
  "pg_add_item_at_ok pg \<longleftrightarrow> (\<forall>p it off. page_wf p \<longrightarrow>
     maxalign (item_len it) + item_id_size \<le> page_free_space p \<longrightarrow>
     off = max_off p + 1 \<or> unused p off \<longrightarrow>
     PageAddItemExtended pg p it off PAI_OVERWRITE = (place p off it, off))"

definition pg_repair_ok :: "'snap pg \<Rightarrow> bool" where
  "pg_repair_ok pg \<longleftrightarrow> (\<forall>p. page_wf p \<longrightarrow> (\<forall>l \<in> set (lines p). lp_flags l \<noteq> LP_UNUSED) \<longrightarrow>
     (let p' = PageRepairFragmentation pg p in
        page_wf p' \<and> lines p' = lines p \<and> special p' = special p \<and> pd_special p' = pd_special p \<and>
        pd_upper p' = pd_special p - storage p \<and> pd_lsn p' = pd_lsn p))"

definition pg_ok :: "'snap pg \<Rightarrow> bool" where
  "pg_ok pg \<longleftrightarrow> pg_page_init_ok pg \<and> pg_add_item_ok pg \<and> pg_add_item_at_ok pg \<and> pg_repair_ok pg"

section \<open>A reference instance\<close>

definition ref_page_init :: "nat \<Rightarrow> page" where
  "ref_page_init n = \<lparr>pd_lower = 24, pd_upper = BLCKSZ - n, pd_special = BLCKSZ - n, lines = [],
     special = replicate n 0, pd_lsn = 0\<rparr>"

definition ref_add_item :: "page \<Rightarrow> item \<Rightarrow> nat \<Rightarrow> nat \<Rightarrow> page \<times> nat" where
  "ref_add_item p it off flags =
     (let off = (if off = 0 then max_off p + 1 else off) in
      if page_free_space p < maxalign (item_len it) + item_id_size then (p, 0)
      else if off = max_off p + 1 \<or> unused p off then (place p off it, off)
      else (p, 0))"

definition ref_pg :: "(nat \<Rightarrow> bool) pg" where
  "ref_pg = \<lparr>
     PageInit = ref_page_init,
     PageAddItemExtended = ref_add_item,
     PageRepairFragmentation = (\<lambda>p. p\<lparr>pd_upper := pd_special p - storage p\<rparr>),
     XidInMVCCSnapshot = (\<lambda>x s. s (unat x)),
     IsCurrentTransactionId = (\<lambda>x. x = 9),
     DidCommit = (\<lambda>x. x < 9),
     Precedes = (\<lambda>a b. a < b),
     CurrentTransactionId = 9,
     CurrentCommandId = 0,
     ActiveSnapshot = None,
     OldestNonRemovableTransactionId = 9\<rparr>"

lemma maxalign_ge: "n \<le> maxalign n"
  by (simp add: maxalign_def)

lemma maxalign_mod: "maxalign n mod 8 = 0"
  by (simp add: maxalign_def)

lemma storage_place:
  assumes "off = max_off p + 1 \<or> unused p off"
  shows "storage (place p off it) = storage p + maxalign (item_len it)"
proof (cases "off \<le> max_off p")
  case True
  then have u: "1 \<le> off" "lp_flags (lines p ! (off - 1)) = LP_UNUSED" "off - 1 < length (lines p)"
    using assms by (auto simp: unused_def max_off_def)
  then have "map line_storage (lines p) ! (off - 1) = 0"
    by (simp add: line_storage_def)
  with True u show ?thesis
    by (simp add: storage_def place_def map_update sum_list_update line_storage_def)
next
  case False
  then show ?thesis by (simp add: storage_def place_def line_storage_def)
qed

lemma place_wf:
  assumes "page_wf p" and "maxalign (item_len it) + item_id_size \<le> page_free_space p"
    and "off = max_off p + 1 \<or> unused p off"
  shows "page_wf (place p off it)"
proof -
  have "pd_special (place p off it) = pd_special p" "special (place p off it) = special p"
    by (simp_all add: place_def Let_def)
  then show ?thesis
    using assms storage_place [OF assms(3), of it]
    by (auto simp: page_wf_def place_def Let_def page_free_space_def item_id_size_def max_off_def)
qed

lemma pg_ok_ref: "pg_ok ref_pg"
proof -
  have "pg_page_init_ok ref_pg"
    by (auto simp: pg_page_init_ok_def ref_pg_def ref_page_init_def page_wf_def storage_def BLCKSZ_def)
  moreover have "pg_add_item_ok ref_pg"
    unfolding pg_add_item_ok_def
    by (auto simp: ref_pg_def ref_add_item_def Let_def place_wf split: if_splits)
  moreover have "pg_add_item_at_ok ref_pg"
    unfolding pg_add_item_at_ok_def
    by (auto simp: ref_pg_def ref_add_item_def Let_def unused_def)
  moreover have "pg_repair_ok ref_pg"
    unfolding pg_repair_ok_def
    by (auto simp: ref_pg_def Let_def page_wf_def storage_def)
  ultimately show ?thesis by (simp add: pg_ok_def)
qed

end
