(* ===== verification/WalLog.thy ===== *)
theory WalLog
  imports PgPage
begin

text \<open>
  The storage state every operation threads through, and the logging half of \<open>storage/wal.rs\<close>:
  one function per record type, which appends the record to the log and returns its LSN. An LSN
  is the ordinal of its record, so LSNs increase as \<open>XLogInsert\<close> hands them out.
\<close>

section \<open>State\<close>

datatype relname = NodeRel | EdgeRel

text \<open>
  A record has an opcode, its registered buffers and its main data. A buffer carries optional
  data and, with \<open>REGBUF_FORCE_IMAGE\<close>, the page as it was when the record was inserted.
\<close>

datatype block_data = NoData | ItemData item | BytesData bytes

record block_ref =
  b_rel :: relname
  b_blk :: nat
  b_data :: block_data
  b_image :: "page option"

record xlog_rec =
  xl_info :: u8
  xl_blocks :: "block_ref list"
  xl_main :: bytes

type_synonym xlog = "xlog_rec list"

definition XLogInsert :: "xlog \<Rightarrow> xlog_rec \<Rightarrow> xlog \<times> nat" where
  "XLogInsert log r = (log @ [r], length log + 1)"

record db =
  node_rel :: "page list"
  edge_rel :: "page list"
  wal :: xlog
  location_cache :: "i64 \<rightharpoonup> nat \<times> nat"

text \<open>
  What can go wrong: the errors the sources raise, reads of a block that does not exist (raised
  by the buffer manager), and \<open>OutOfPage\<close> for an access outside the page image, which the Rust
  code performs through raw pointers without a check.
\<close>

datatype store_error =
    PE101 nat
  | PE200 nat nat
  | PE400_source i64
  | PE400_target i64
  | OverflowAddFailed
  | AddItemFailed nat
  | ReadBeyondEnd nat
  | NotAnOverflowBlock nat
  | OutOfPage nat
  | RedoDataTooShort nat
  | RedoAddItemFailed nat
  | UnknownRecordType u8
  | Disappeared i64

definition get_page :: "page list \<Rightarrow> nat \<Rightarrow> store_error + page" where
  "get_page rel blk = (if blk < length rel then Inr (rel ! blk) else Inl (ReadBeyondEnd blk))"

section \<open>Main data structs\<close>

definition XLogNodeInsert :: "nat \<Rightarrow> bytes" where
  "XLogNodeInsert off = to_le 2 (of_nat off :: u16) @ to_le 2 (0 :: u16)"

definition XLogNodeDelete :: "nat \<Rightarrow> u32 \<Rightarrow> bytes" where
  "XLogNodeDelete off xmax = to_le 2 (of_nat off :: u16) @ to_le 2 (0 :: u16) @ to_le 4 xmax"

definition XLogVacuumPage :: "nat \<Rightarrow> bytes" where
  "XLogVacuumPage n_dead = to_le 2 (of_nat n_dead :: u16)"

definition XLogEdgeInsert :: "nat \<Rightarrow> bytes" where
  "XLogEdgeInsert off = to_le 2 (of_nat off :: u16) @ to_le 2 (0 :: u16)"

definition XLogEdgeDelete :: "nat \<Rightarrow> u32 \<Rightarrow> bytes" where
  "XLogEdgeDelete off xmax = to_le 2 (of_nat off :: u16) @ to_le 2 (0 :: u16) @ to_le 4 xmax"

section \<open>Logging\<close>

definition log_node_insert :: "xlog \<Rightarrow> nat \<Rightarrow> nat \<Rightarrow> item \<Rightarrow> (nat \<times> page) option \<Rightarrow> xlog \<times> nat" where
  "log_node_insert log blk off item_bytes overflow_buf =
     XLogInsert log
       \<lparr>xl_info = (if overflow_buf \<noteq> None then XLOG_PG_EDDY_NODE_INSERT_OVF else XLOG_PG_EDDY_NODE_INSERT),
        xl_blocks = \<lparr>b_rel = NodeRel, b_blk = blk, b_data = ItemData item_bytes, b_image = None\<rparr> #
          (case overflow_buf of
             Some (ovf, page) \<Rightarrow> [\<lparr>b_rel = NodeRel, b_blk = ovf, b_data = NoData, b_image = Some page\<rparr>]
           | None \<Rightarrow> []),
        xl_main = XLogNodeInsert off\<rparr>"

definition log_node_compact :: "xlog \<Rightarrow> nat \<Rightarrow> page \<Rightarrow> xlog \<times> nat" where
  "log_node_compact log blk page =
     XLogInsert log
       \<lparr>xl_info = XLOG_PG_EDDY_NODE_COMPACT,
        xl_blocks = [\<lparr>b_rel = NodeRel, b_blk = blk, b_data = NoData, b_image = Some page\<rparr>],
        xl_main = []\<rparr>"

definition log_node_delete :: "xlog \<Rightarrow> nat \<Rightarrow> nat \<Rightarrow> u32 \<Rightarrow> xlog \<times> nat" where
  "log_node_delete log blk off xmax =
     XLogInsert log
       \<lparr>xl_info = XLOG_PG_EDDY_NODE_DELETE,
        xl_blocks = [\<lparr>b_rel = NodeRel, b_blk = blk, b_data = NoData, b_image = None\<rparr>],
        xl_main = XLogNodeDelete off xmax\<rparr>"

definition log_vacuum_page :: "xlog \<Rightarrow> relname \<Rightarrow> nat \<Rightarrow> nat list \<Rightarrow> xlog \<times> nat" where
  "log_vacuum_page log rel blk dead_offsets =
     XLogInsert log
       \<lparr>xl_info = XLOG_PG_EDDY_VACUUM_PAGE,
        xl_blocks = [\<lparr>b_rel = rel, b_blk = blk, b_data = NoData, b_image = None\<rparr>],
        xl_main = XLogVacuumPage (length dead_offsets) @
          concat (map (\<lambda>off. to_le 2 (of_nat off :: u16)) dead_offsets)\<rparr>"

definition log_edge_insert :: "xlog \<Rightarrow> nat \<Rightarrow> nat \<Rightarrow> item \<Rightarrow> xlog \<times> nat" where
  "log_edge_insert log blk off item_bytes =
     XLogInsert log
       \<lparr>xl_info = XLOG_PG_EDDY_EDGE_INSERT,
        xl_blocks = [\<lparr>b_rel = EdgeRel, b_blk = blk, b_data = ItemData item_bytes, b_image = None\<rparr>],
        xl_main = XLogEdgeInsert off\<rparr>"

definition log_edge_delete :: "xlog \<Rightarrow> nat \<Rightarrow> nat \<Rightarrow> u32 \<Rightarrow> xlog \<times> nat" where
  "log_edge_delete log blk off xmax =
     XLogInsert log
       \<lparr>xl_info = XLOG_PG_EDDY_EDGE_DELETE,
        xl_blocks = [\<lparr>b_rel = EdgeRel, b_blk = blk, b_data = NoData, b_image = None\<rparr>],
        xl_main = XLogEdgeDelete off xmax\<rparr>"

definition log_adj_update :: "xlog \<Rightarrow> nat \<Rightarrow> u16 \<Rightarrow> NodeAdjHeader \<Rightarrow> xlog \<times> nat" where
  "log_adj_update log blk adj_slot_idx new_adj =
     XLogInsert log
       \<lparr>xl_info = XLOG_PG_EDDY_ADJ_UPDATE,
        xl_blocks = [\<lparr>b_rel = NodeRel, b_blk = blk,
          b_data = BytesData (to_le 2 adj_slot_idx @ adj_bytes new_adj), b_image = None\<rparr>],
        xl_main = []\<rparr>"

lemmas log_defs =
  log_node_insert_def log_node_compact_def log_node_delete_def log_vacuum_page_def
  log_edge_insert_def log_edge_delete_def log_adj_update_def XLogInsert_def

text \<open>Every record is appended to the log, and its LSN is its position.\<close>

lemma log_lsn:
  "snd (log_node_insert log blk off it ovf) = length log + 1"
  "snd (log_node_compact log blk p) = length log + 1"
  "snd (log_node_delete log blk off xmax) = length log + 1"
  "snd (log_vacuum_page log r blk offs) = length log + 1"
  "snd (log_edge_insert log blk off it) = length log + 1"
  "snd (log_edge_delete log blk off xmax) = length log + 1"
  "snd (log_adj_update log blk slot adj) = length log + 1"
  by (simp_all add: log_defs)

end
