(* ===== verification/NodeStore.thy ===== *)
theory NodeStore
  imports WalLog
begin

text \<open>
  The node store of \<open>storage/node_store.rs\<close>: the byte format of node items, insert, delete and
  update, the lookups by id, the sequential scan and the overflow blocks that hold large property
  maps. Buffer locks are left out: one operation runs at a time.
\<close>

section \<open>Node items\<close>

record NodeRecord =
  nr_node_id :: i64
  nr_adj_slot_idx :: u16
  nr_overflow_blkno :: u32
  nr_label_ids :: "i32 list"
  nr_prop_bytes :: bytes

text \<open>The header of a freshly built tuple, the same for nodes and edges.\<close>

definition fresh_header :: "'snap pg \<Rightarrow> heap_header" where
  "fresh_header pg = \<lparr>t_xmin = CurrentTransactionId pg, t_xmax = InvalidTransactionId,
     t_cid = CurrentCommandId pg, t_ctid = (0xFFFFFFFF, 0), t_infomask2 = 0,
     t_infomask = HEAP_XMAX_INVALID, t_hoff = of_nat hdr_size\<rparr>"

fun write_label_ids :: "nat \<Rightarrow> i32 list \<Rightarrow> bytes \<Rightarrow> bytes" where
  "write_label_ids i [] data = data"
| "write_label_ids i (lid # lids) data =
     write_label_ids (Suc i) lids (splice (OFF_LABEL_IDS + i * 4) (to_le 4 lid) data)"

definition node_data :: "i64 \<Rightarrow> u16 \<Rightarrow> i32 list \<Rightarrow> bytes \<Rightarrow> u32 \<Rightarrow> bytes" where
  "node_data node_id adj_slot_idx label_ids prop_bytes overflow_blkno =
     (let data = replicate (NODE_FIXED_DATA_SIZE + length label_ids * 4 + length prop_bytes) 0;
          data = splice OFF_NODE_ID (to_le 8 node_id) data;
          data = splice OFF_ADJ_SLOT (to_le 2 adj_slot_idx) data;
          data = splice OFF_LABEL_COUNT [of_nat (length label_ids)] data;
          nprop = (if overflow_blkno = 0 then of_nat (length prop_bytes) else 0 :: u16);
          data = splice OFF_PROP_INLINE_LEN (to_le 2 nprop) data;
          data = splice OFF_PROP_OVERFLOW_PAGE (to_le 4 overflow_blkno) data;
          data = write_label_ids 0 label_ids data
      in if overflow_blkno = 0
         then splice (OFF_LABEL_IDS + length label_ids * 4) prop_bytes data
         else data)"

definition build_node_item_bytes_ovf ::
    "'snap pg \<Rightarrow> i64 \<Rightarrow> u16 \<Rightarrow> i32 list \<Rightarrow> bytes \<Rightarrow> u32 \<Rightarrow> item" where
  "build_node_item_bytes_ovf pg node_id adj_slot_idx label_ids prop_bytes overflow_blkno =
     Tuple (fresh_header pg) (node_data node_id adj_slot_idx label_ids prop_bytes overflow_blkno)"

definition build_node_item_bytes :: "'snap pg \<Rightarrow> i64 \<Rightarrow> u16 \<Rightarrow> i32 list \<Rightarrow> bytes \<Rightarrow> item" where
  "build_node_item_bytes pg node_id adj_slot_idx label_ids prop_bytes =
     build_node_item_bytes_ovf pg node_id adj_slot_idx label_ids prop_bytes 0"

section \<open>Pages of the node relation\<close>

definition is_overflow_page :: "page \<Rightarrow> bool" where
  "is_overflow_page p \<longleftrightarrow> pd_special p = BLCKSZ \<and> pd_special p \<noteq> PD_NODE_SPECIAL_OFFSET"

definition init_node_page :: "'snap pg \<Rightarrow> page" where
  "init_node_page pg = (PageInit pg PD_NODE_SPECIAL_SIZE)\<lparr>special := replicate PD_NODE_SPECIAL_SIZE 0\<rparr>"

text \<open>The backwards loop over the blocks, from \<open>blk\<close> down to 0.\<close>

definition fits :: "page \<Rightarrow> nat \<Rightarrow> bool" where
  "fits p item_size \<longleftrightarrow> page_free_space p \<ge> maxalign item_size + item_id_size"

fun find_page_back :: "page list \<Rightarrow> nat \<Rightarrow> nat \<Rightarrow> nat option" where
  "find_page_back rel item_size blk =
     (if is_overflow_page (rel ! blk) then
        (case blk of 0 \<Rightarrow> None | Suc b \<Rightarrow> find_page_back rel item_size b)
      else if fits (rel ! blk) item_size then Some blk else None)"

declare find_page_back.simps [simp del]

definition find_or_extend_page :: "'snap pg \<Rightarrow> page list \<Rightarrow> nat \<Rightarrow> page list \<times> nat" where
  "find_or_extend_page pg rel item_size =
     (case (if rel = [] then None else find_page_back rel item_size (length rel - 1)) of
        Some blk \<Rightarrow> (rel, blk)
      | None \<Rightarrow> (rel @ [init_node_page pg], length rel))"

definition write_overflow_block :: "'snap pg \<Rightarrow> page list \<Rightarrow> page list \<times> nat" where
  "write_overflow_block pg rel = (rel @ [PageInit pg 0], length rel)"

definition read_overflow_block :: "page list \<Rightarrow> nat \<Rightarrow> store_error + bytes" where
  "read_overflow_block rel blkno =
     bindE (get_page rel blkno) (\<lambda>page.
       if max_off page \<ge> FirstOffsetNumber
       then (case lp_item (lines page ! (FirstOffsetNumber - 1)) of
               Raw bs \<Rightarrow> Inr bs
             | Tuple hdr data \<Rightarrow> Inl (NotAnOverflowBlock blkno))
       else Inr [])"

section \<open>In-page updates\<close>

fun with_header :: "(heap_header \<Rightarrow> heap_header) \<Rightarrow> item \<Rightarrow> item" where
  "with_header f (Tuple hdr data) = Tuple (f hdr) data"
| "with_header f (Raw bs) = Raw bs"

fun with_data :: "(bytes \<Rightarrow> bytes) \<Rightarrow> item \<Rightarrow> item" where
  "with_data f (Tuple hdr data) = Tuple hdr (f data)"
| "with_data f (Raw bs) = Raw bs"

definition modify_item :: "page \<Rightarrow> nat \<Rightarrow> (item \<Rightarrow> item) \<Rightarrow> page" where
  "modify_item p off f = set_item p off (f (lp_item (lines p ! (off - 1))))"

definition patch_adj_slot :: "page \<Rightarrow> nat \<Rightarrow> page" where
  "patch_adj_slot p off =
     modify_item p off (with_data (splice OFF_ADJ_SLOT (to_le 2 (of_nat (off - FirstOffsetNumber) :: u16))))"

text \<open>\<open>ItemPointerSet(&mut hdr.t_ctid, blkno, off)\<close>.\<close>

definition set_ctid :: "page \<Rightarrow> nat \<Rightarrow> nat \<Rightarrow> page" where
  "set_ctid p blkno off =
     modify_item p off (with_header (\<lambda>hdr. hdr\<lparr>t_ctid := (of_nat blkno, of_nat off)\<rparr>))"

text \<open>\<open>HeapTupleHeaderSetXmax\<close>, and the \<open>HEAP_XMAX_INVALID\<close> bit cleared.\<close>

definition delete_header :: "u32 \<Rightarrow> heap_header \<Rightarrow> heap_header" where
  "delete_header xmax hdr =
     hdr\<lparr>t_xmax := xmax, t_infomask := t_infomask hdr AND NOT HEAP_XMAX_INVALID\<rparr>"

definition mark_deleted :: "page \<Rightarrow> nat \<Rightarrow> u32 \<Rightarrow> page" where
  "mark_deleted p off xmax = modify_item p off (with_header (delete_header xmax))"

section \<open>Insert\<close>

definition insert_node ::
    "'snap pg \<Rightarrow> db \<Rightarrow> i64 \<Rightarrow> i32 list \<Rightarrow> bytes \<Rightarrow> store_error + (db \<times> (nat \<times> nat))" where
  "insert_node pg d node_id label_ids prop_bytes =
    (if length label_ids > MAX_LABELS_PER_NODE then Inl (PE101 (length label_ids))
     else
       let needs_overflow = length prop_bytes > PROP_INLINE_MAX;
           inline_props_for_size = (if needs_overflow then [] else prop_bytes);
           item_size_estimate =
             item_len (build_node_item_bytes_ovf pg node_id 0 label_ids inline_props_for_size 0);
           (rel, blkno) = find_or_extend_page pg (node_rel d) item_size_estimate;
           (rel, ovf) = (if needs_overflow
              then (let (rel, ovf_blk) = write_overflow_block pg rel in (rel, Some ovf_blk))
              else (rel, None));
           (inline_props, overflow_blkno) = (case ovf of Some blk \<Rightarrow> ([], of_nat blk) | None \<Rightarrow> (prop_bytes, 0));
           item_bytes = build_node_item_bytes_ovf pg node_id 0 label_ids inline_props overflow_blkno
       in bindE (case ovf of
                   None \<Rightarrow> Inr rel
                 | Some blk \<Rightarrow>
                     (let (page, off) = PageAddItemExtended pg (rel ! blk) (Raw prop_bytes) InvalidOffsetNumber 0
                      in if off = InvalidOffsetNumber then Inl OverflowAddFailed
                         else Inr (rel[blk := page])))
          (\<lambda>rel.
            let (page, off) = PageAddItemExtended pg (rel ! blkno) item_bytes InvalidOffsetNumber 0 in
            if off = InvalidOffsetNumber then Inl (AddItemFailed blkno)
            else let page = set_ctid (patch_adj_slot page off) blkno off;
                     (log, lsn) = log_node_insert (wal d) blkno off item_bytes
                       (map_option (\<lambda>blk. (blk, rel ! blk)) ovf);
                     rel = rel[blkno := page_set_lsn page lsn];
                     rel = (case ovf of Some blk \<Rightarrow> rel[blk := page_set_lsn (rel ! blk) lsn] | None \<Rightarrow> rel)
                 in Inr (d\<lparr>node_rel := rel, wal := log\<rparr>, (blkno, off))))"

section \<open>Reading a node item\<close>

definition xmin_visible :: "'snap pg \<Rightarrow> 'snap option \<Rightarrow> heap_header \<Rightarrow> bool" where
  "xmin_visible pg snapshot hdr =
    (let not_in_snapshot = (\<lambda>xmin. case snapshot of None \<Rightarrow> True | Some s \<Rightarrow> \<not> XidInMVCCSnapshot pg xmin s) in
     if t_infomask hdr AND HEAP_XMIN_COMMITTED \<noteq> 0 then not_in_snapshot (t_xmin hdr)
     else if t_infomask hdr AND HEAP_XMIN_INVALID \<noteq> 0 then False
     else if t_xmin hdr = InvalidTransactionId then False
     else if IsCurrentTransactionId pg (t_xmin hdr) then True
     else if DidCommit pg (t_xmin hdr) then not_in_snapshot (t_xmin hdr)
     else False)"

definition xmax_invalid :: "heap_header \<Rightarrow> bool" where
  "xmax_invalid hdr \<longleftrightarrow> t_infomask hdr AND HEAP_XMAX_INVALID \<noteq> 0"

definition decode_node_data :: "bytes \<Rightarrow> NodeRecord option" where
  "decode_node_data data =
    (let node_id = from_le (bslice OFF_NODE_ID (OFF_NODE_ID + 8) data);
         adj_slot_idx = from_le (bslice OFF_ADJ_SLOT (OFF_ADJ_SLOT + 2) data);
         label_count = unat (data ! OFF_LABEL_COUNT);
         prop_len = unat (from_le (bslice OFF_PROP_INLINE_LEN (OFF_PROP_INLINE_LEN + 2) data) :: u16);
         overflow_blkno = from_le (bslice OFF_PROP_OVERFLOW_PAGE (OFF_PROP_OVERFLOW_PAGE + 4) data);
         labels_end = OFF_LABEL_IDS + label_count * 4
     in if length data < labels_end + prop_len then None
        else Some \<lparr>nr_node_id = node_id, nr_adj_slot_idx = adj_slot_idx, nr_overflow_blkno = overflow_blkno,
          nr_label_ids = map (\<lambda>i. from_le (bslice (OFF_LABEL_IDS + i * 4) (OFF_LABEL_IDS + i * 4 + 4) data))
            [0..<label_count],
          nr_prop_bytes = (if prop_len > 0 then bslice labels_end (labels_end + prop_len) data else [])\<rparr>)"

definition read_node_at_offset ::
    "'snap pg \<Rightarrow> page \<Rightarrow> 'snap option \<Rightarrow> nat \<Rightarrow> NodeRecord option" where
  "read_node_at_offset pg page snapshot off =
     (case get_line page off of
        None \<Rightarrow> None
      | Some iid \<Rightarrow>
          (if lp_flags iid \<noteq> LP_NORMAL then None
           else case lp_item iid of
             Raw bs \<Rightarrow> None
           | Tuple hdr data \<Rightarrow>
               (if \<not> xmin_visible pg snapshot hdr then None
                else if \<not> xmax_invalid hdr then None
                else if item_len (lp_item iid) < hdr_size + NODE_FIXED_DATA_SIZE then None
                else decode_node_data data)))"

text \<open>The callers' handling of a record whose properties are in an overflow block.\<close>

definition resolve_overflow :: "page list \<Rightarrow> NodeRecord \<Rightarrow> store_error + NodeRecord" where
  "resolve_overflow rel r =
     (if nr_overflow_blkno r \<noteq> 0 \<and> nr_prop_bytes r = []
      then bindE (read_overflow_block rel (unat (nr_overflow_blkno r))) (\<lambda>bs. Inr (r\<lparr>nr_prop_bytes := bs\<rparr>))
      else Inr r)"

section \<open>Sequential scan\<close>

record NodeScanState =
  current_blk :: nat
  current_off :: nat
  nblocks :: nat

definition scan_begin :: "page list \<Rightarrow> NodeScanState" where
  "scan_begin rel = \<lparr>current_blk = 0, current_off = FirstOffsetNumber, nblocks = length rel\<rparr>"

text \<open>The inner \<open>while\<close> loop over the offsets of one page.\<close>

function scan_page ::
    "'snap pg \<Rightarrow> page \<Rightarrow> 'snap option \<Rightarrow> nat \<Rightarrow> NodeRecord option \<times> nat" where
  "scan_page pg page snapshot off =
     (if off \<le> max_off page
      then (case read_node_at_offset pg page snapshot off of
              Some r \<Rightarrow> (Some r, off + 1)
            | None \<Rightarrow> scan_page pg page snapshot (off + 1))
      else (None, off))"
  by pat_completeness auto
termination
  by (relation "measure (\<lambda>(pg, page, snapshot, off). Suc (max_off page) - off)") auto

declare scan_page.simps [simp del]

function scan_next ::
    "'snap pg \<Rightarrow> page list \<Rightarrow> 'snap option \<Rightarrow> NodeScanState \<Rightarrow>
     store_error + (NodeRecord option \<times> NodeScanState)" where
  "scan_next pg rel snapshot st =
     (if current_blk st \<ge> nblocks st then Inr (None, st)
      else bindE (get_page rel (current_blk st)) (\<lambda>page.
        let next_blk = st\<lparr>current_blk := current_blk st + 1, current_off := FirstOffsetNumber\<rparr> in
        if is_overflow_page page then scan_next pg rel snapshot next_blk
        else case scan_page pg page snapshot (current_off st) of
          (Some r, off) \<Rightarrow>
            bindE (resolve_overflow rel r) (\<lambda>r. Inr (Some r, st\<lparr>current_off := off\<rparr>))
        | (None, off) \<Rightarrow> scan_next pg rel snapshot next_blk))"
  by pat_completeness auto
termination
  by (relation "measure (\<lambda>(pg, rel, snapshot, st). nblocks st - current_blk st)") auto

declare scan_next.simps [simp del]

section \<open>Lookups\<close>

definition offsets :: "page \<Rightarrow> nat list" where
  "offsets page = [FirstOffsetNumber..<Suc (max_off page)]"

definition find_in_page ::
    "'snap pg \<Rightarrow> 'snap option \<Rightarrow> i64 \<Rightarrow> page \<Rightarrow> NodeRecord option" where
  "find_in_page pg snapshot node_id page =
     (if is_overflow_page page then None
      else first_some (\<lambda>off.
        case read_node_at_offset pg page snapshot off of
          Some r \<Rightarrow> (if nr_node_id r = node_id then Some r else None)
        | None \<Rightarrow> None) (offsets page))"

definition find_node_by_id ::
    "'snap pg \<Rightarrow> db \<Rightarrow> i64 \<Rightarrow> 'snap option \<Rightarrow> store_error + NodeRecord option" where
  "find_node_by_id pg d node_id snapshot =
     bindE (case location_cache d node_id of
              None \<Rightarrow> Inr None
            | Some (blkno, off) \<Rightarrow>
                bindE (get_page (node_rel d) blkno) (\<lambda>page.
                  case read_node_at_offset pg page snapshot off of
                    Some r \<Rightarrow>
                      (if nr_node_id r = node_id
                       then bindE (resolve_overflow (node_rel d) r) (\<lambda>r. Inr (Some r))
                       else Inr None)
                  | None \<Rightarrow> Inr None))
       (\<lambda>hit. case hit of
          Some r \<Rightarrow> Inr (Some r)
        | None \<Rightarrow>
            (case first_some (find_in_page pg snapshot node_id) (node_rel d) of
               Some r \<Rightarrow> bindE (resolve_overflow (node_rel d) r) (\<lambda>r. Inr (Some r))
             | None \<Rightarrow> Inr None))"

definition scan_all_node_locations ::
    "'snap pg \<Rightarrow> page list \<Rightarrow> 'snap option \<Rightarrow> (i64 \<times> nat \<times> nat) list" where
  "scan_all_node_locations pg rel snapshot =
     concat (map (\<lambda>blkno.
       if is_overflow_page (rel ! blkno) then []
       else List.map_filter (\<lambda>off.
         map_option (\<lambda>r. (nr_node_id r, blkno, off)) (read_node_at_offset pg (rel ! blkno) snapshot off))
         (offsets (rel ! blkno))) [0..<length rel])"

definition count_nodes :: "'snap pg \<Rightarrow> page list \<Rightarrow> 'snap option \<Rightarrow> nat" where
  "count_nodes pg rel snapshot =
     sum_list (map (\<lambda>page.
       if is_overflow_page page then 0
       else length (filter (\<lambda>off. read_node_at_offset pg page snapshot off \<noteq> None) (offsets page))) rel)"

text \<open>
  \<open>find_node_location\<close> has its own reading of an item: it asks for a live version (no deleter) of
  the node, but does not look at the inserting transaction.
\<close>

definition live_slot :: "page \<Rightarrow> i64 \<Rightarrow> nat \<Rightarrow> nat option" where
  "live_slot page node_id off =
     (case get_line page off of
        None \<Rightarrow> None
      | Some iid \<Rightarrow>
          (case lp_item iid of
             Raw bs \<Rightarrow> None
           | Tuple hdr data \<Rightarrow>
               (if lp_flags iid = LP_NORMAL \<and> item_len (lp_item iid) \<ge> hdr_size + NODE_FIXED_DATA_SIZE \<and>
                   (from_le (bslice OFF_NODE_ID (OFF_NODE_ID + 8) data) :: i64) = node_id \<and> xmax_invalid hdr
                then Some (unat (from_le (bslice OFF_ADJ_SLOT (OFF_ADJ_SLOT + 2) data) :: u16))
                else None)))"

definition find_location_in_block ::
    "page list \<Rightarrow> i64 \<Rightarrow> nat \<Rightarrow> (nat \<times> nat \<times> nat) option" where
  "find_location_in_block rel node_id blkno =
     (if is_overflow_page (rel ! blkno) then None
      else first_some (\<lambda>off. map_option (\<lambda>slot. (blkno, off, slot)) (live_slot (rel ! blkno) node_id off))
        (offsets (rel ! blkno)))"

definition find_node_location :: "db \<Rightarrow> i64 \<Rightarrow> store_error + (nat \<times> nat \<times> nat) option" where
  "find_node_location d node_id =
     bindE (case location_cache d node_id of
              None \<Rightarrow> Inr None
            | Some (blkno, cached_off) \<Rightarrow>
                bindE (get_page (node_rel d) blkno) (\<lambda>page.
                  Inr (map_option (\<lambda>slot. (blkno, cached_off, slot)) (live_slot page node_id cached_off))))
       (\<lambda>hit. case hit of
          Some loc \<Rightarrow> Inr (Some loc)
        | None \<Rightarrow> Inr (first_some (find_location_in_block (node_rel d) node_id) [0..<length (node_rel d)]))"

section \<open>Delete and update\<close>

definition delete_node_by_id :: "'snap pg \<Rightarrow> db \<Rightarrow> i64 \<Rightarrow> store_error + (db \<times> bool)" where
  "delete_node_by_id pg d node_id =
     bindE (find_node_location d node_id) (\<lambda>loc.
       case loc of
         None \<Rightarrow> Inr (d, False)
       | Some (blkno, off, adj) \<Rightarrow>
           bindE (get_page (node_rel d) blkno) (\<lambda>page.
             let xmax = CurrentTransactionId pg;
                 page = mark_deleted page off xmax;
                 (log, lsn) = log_node_delete (wal d) blkno off xmax
             in Inr (d\<lparr>node_rel := (node_rel d)[blkno := page_set_lsn page lsn], wal := log\<rparr>, True)))"

definition update_node ::
    "'snap pg \<Rightarrow> db \<Rightarrow> i64 \<Rightarrow> i32 list \<Rightarrow> bytes \<Rightarrow> store_error + (db \<times> bool)" where
  "update_node pg d node_id new_label_ids new_prop_bytes =
    (if length new_label_ids > MAX_LABELS_PER_NODE then Inl (PE101 (length new_label_ids))
     else if length new_prop_bytes > PROP_INLINE_MAX then Inl (PE200 (length new_prop_bytes) PROP_INLINE_MAX)
     else bindE (find_node_location d node_id) (\<lambda>loc.
       case loc of
         None \<Rightarrow> Inr (d, False)
       | Some (blkno, old_off, adj_slot_idx) \<Rightarrow>
           let new_item = build_node_item_bytes pg node_id (of_nat adj_slot_idx) new_label_ids new_prop_bytes in
           bindE (get_page (node_rel d) blkno) (\<lambda>page.
             let xmax = CurrentTransactionId pg;
                 deleted = mark_deleted page old_off xmax
             in if page_free_space page < maxalign (item_len new_item) + item_id_size then
                  let (log, lsn_del) = log_node_delete (wal d) blkno old_off xmax;
                      rel = (node_rel d)[blkno := page_set_lsn deleted lsn_del];
                      (rel, blk2) = find_or_extend_page pg rel (item_len new_item);
                      (page2, new_off) = PageAddItemExtended pg (rel ! blk2) new_item InvalidOffsetNumber 0
                  in if new_off = InvalidOffsetNumber then Inl (AddItemFailed blk2)
                     else let page2 = set_ctid page2 blk2 new_off;
                              (log, lsn_ins) = log_node_insert log blk2 new_off new_item None
                          in Inr (d\<lparr>node_rel := rel[blk2 := page_set_lsn page2 lsn_ins], wal := log\<rparr>, True)
                else
                  let (page', new_off) = PageAddItemExtended pg deleted new_item InvalidOffsetNumber 0
                  in if new_off = InvalidOffsetNumber then Inl (AddItemFailed blkno)
                     else let page' = set_ctid page' blkno new_off;
                              (log, lsn_del) = log_node_delete (wal d) blkno old_off xmax;
                              (log, lsn_ins) = log_node_insert log blkno new_off new_item None;
                              lsn = (if lsn_ins > lsn_del then lsn_ins else lsn_del)
                          in Inr (d\<lparr>node_rel := (node_rel d)[blkno := page_set_lsn page' lsn], wal := log\<rparr>, True))))"

end
