(* ===== verification/EdgeStore.thy ===== *)
theory EdgeStore
  imports NodeStore
begin

text \<open>
  The edge store of \<open>storage/edge_store.rs\<close>: the byte format of edge items, insertion at the head
  of the two adjacency chains, logical deletion, in-place property updates, the scans, and the
  traversal of the chains that start in the adjacency headers of the node pages. As in the node
  store, one operation runs at a time, so the order of buffer locks is left out, and with it the
  difference between the two nested loops of \<open>follow_chain\<close>, which only decides when a lock is kept.
\<close>

section \<open>Edge items\<close>

record EdgeRecord =
  er_edge_id :: i64
  er_rel_type_id :: i32
  er_source_node_id :: i64
  er_target_node_id :: i64
  er_prop_bytes :: bytes
  er_block_num :: nat
  er_offset_num :: nat
  er_next_out_page :: u32
  er_next_out_slot :: u16
  er_next_in_page :: u32
  er_next_in_slot :: u16

datatype Direction = Out | In | Both

definition edge_data ::
    "i64 \<Rightarrow> i32 \<Rightarrow> i64 \<Rightarrow> i64 \<Rightarrow> u32 \<Rightarrow> u16 \<Rightarrow> u32 \<Rightarrow> u16 \<Rightarrow> bytes \<Rightarrow> bytes" where
  "edge_data edge_id rel_type_id source_node_id target_node_id next_out_pg next_out_sl next_in_pg next_in_sl
     prop_bytes =
     (let prop_reserved = max PROP_INLINE_MAX (length prop_bytes);
          data = replicate (EDGE_FIXED_DATA_SIZE + prop_reserved) 0;
          data = splice OFF_EDGE_REL_ID (to_le 8 edge_id) data;
          data = splice OFF_EDGE_REL_TYPE_ID (to_le 4 rel_type_id) data;
          data = splice OFF_EDGE_SOURCE_NODE_ID (to_le 8 source_node_id) data;
          data = splice OFF_EDGE_TARGET_NODE_ID (to_le 8 target_node_id) data;
          data = splice OFF_EDGE_NEXT_OUT_PAGE (to_le 4 next_out_pg) data;
          data = splice OFF_EDGE_NEXT_OUT_SLOT (to_le 2 next_out_sl) data;
          data = splice OFF_EDGE_NEXT_IN_PAGE (to_le 4 next_in_pg) data;
          data = splice OFF_EDGE_NEXT_IN_SLOT (to_le 2 next_in_sl) data;
          data = splice OFF_EDGE_PROP_INLINE_LEN (to_le 2 (of_nat (length prop_bytes) :: u16)) data;
          data = splice OFF_EDGE_PROP_OVERFLOW_PAGE (to_le 4 (0 :: u32)) data
      in if prop_bytes \<noteq> [] then splice OFF_EDGE_PROP_DATA prop_bytes data else data)"

definition build_edge_item_bytes ::
    "'snap pg \<Rightarrow> i64 \<Rightarrow> i32 \<Rightarrow> i64 \<Rightarrow> i64 \<Rightarrow> u32 \<Rightarrow> u16 \<Rightarrow> u32 \<Rightarrow> u16 \<Rightarrow> bytes \<Rightarrow> item" where
  "build_edge_item_bytes pg edge_id rel_type_id source_node_id target_node_id next_out_pg next_out_sl
     next_in_pg next_in_sl prop_bytes =
     Tuple (fresh_header pg) (edge_data edge_id rel_type_id source_node_id target_node_id next_out_pg
       next_out_sl next_in_pg next_in_sl prop_bytes)"

definition decode_edge_record :: "bytes \<Rightarrow> nat \<Rightarrow> nat \<Rightarrow> nat \<Rightarrow> EdgeRecord option" where
  "decode_edge_record data data_len blkno off =
     (if data_len < EDGE_FIXED_DATA_SIZE then None
      else let prop_len = unat (from_le (bslice OFF_EDGE_PROP_INLINE_LEN (OFF_EDGE_PROP_INLINE_LEN + 2) data) :: u16)
      in if data_len < EDGE_FIXED_DATA_SIZE + prop_len then None
         else Some \<lparr>
           er_edge_id = from_le (bslice OFF_EDGE_REL_ID (OFF_EDGE_REL_ID + 8) data),
           er_rel_type_id = from_le (bslice OFF_EDGE_REL_TYPE_ID (OFF_EDGE_REL_TYPE_ID + 4) data),
           er_source_node_id = from_le (bslice OFF_EDGE_SOURCE_NODE_ID (OFF_EDGE_SOURCE_NODE_ID + 8) data),
           er_target_node_id = from_le (bslice OFF_EDGE_TARGET_NODE_ID (OFF_EDGE_TARGET_NODE_ID + 8) data),
           er_prop_bytes = bslice OFF_EDGE_PROP_DATA (OFF_EDGE_PROP_DATA + prop_len) data,
           er_block_num = blkno,
           er_offset_num = off,
           er_next_out_page = from_le (bslice OFF_EDGE_NEXT_OUT_PAGE (OFF_EDGE_NEXT_OUT_PAGE + 4) data),
           er_next_out_slot = from_le (bslice OFF_EDGE_NEXT_OUT_SLOT (OFF_EDGE_NEXT_OUT_SLOT + 2) data),
           er_next_in_page = from_le (bslice OFF_EDGE_NEXT_IN_PAGE (OFF_EDGE_NEXT_IN_PAGE + 4) data),
           er_next_in_slot = from_le (bslice OFF_EDGE_NEXT_IN_SLOT (OFF_EDGE_NEXT_IN_SLOT + 2) data)\<rparr>)"

text \<open>Without a snapshot: hint bits first, then the commit log.\<close>

definition edge_xmin_visible :: "'snap pg \<Rightarrow> heap_header \<Rightarrow> bool" where
  "edge_xmin_visible pg hdr \<longleftrightarrow>
     (if t_xmin hdr = InvalidTransactionId then False
      else if t_infomask hdr AND HEAP_XMIN_COMMITTED \<noteq> 0 then True
      else if t_infomask hdr AND HEAP_XMIN_INVALID \<noteq> 0 then False
      else IsCurrentTransactionId pg (t_xmin hdr) \<or> DidCommit pg (t_xmin hdr))"

definition read_edge_at_offset :: "'snap pg \<Rightarrow> page \<Rightarrow> nat \<Rightarrow> nat \<Rightarrow> EdgeRecord option" where
  "read_edge_at_offset pg page blkno off =
     (case get_line page off of
        None \<Rightarrow> None
      | Some iid \<Rightarrow>
          (if lp_flags iid \<noteq> LP_NORMAL then None
           else if item_len (lp_item iid) < hdr_size + EDGE_FIXED_DATA_SIZE then None
           else case lp_item iid of
             Raw bs \<Rightarrow> None
           | Tuple hdr data \<Rightarrow>
               (if \<not> edge_xmin_visible pg hdr then None
                else if \<not> xmax_invalid hdr then None
                else decode_edge_record data (item_len (lp_item iid) - hdr_size) blkno off)))"

section \<open>Pages\<close>

definition init_edge_page :: "'snap pg \<Rightarrow> page" where
  "init_edge_page pg = PageInit pg 0"

definition find_or_extend_edge_page :: "'snap pg \<Rightarrow> page list \<Rightarrow> nat \<Rightarrow> page list \<times> nat" where
  "find_or_extend_edge_page pg rel item_size =
     (if rel \<noteq> [] \<and> page_free_space (rel ! (length rel - 1)) \<ge> maxalign item_size + item_id_size
      then (rel, length rel - 1)
      else (rel @ [init_edge_page pg], length rel))"

text \<open>
  The headers are read and written through raw pointers into the special area. An index whose header
  does not lie in that area is a read behind the end of the page, which the model reports.
\<close>

definition read_adj_header :: "page \<Rightarrow> nat \<Rightarrow> store_error + NodeAdjHeader" where
  "read_adj_header page idx =
     (let offset = idx * ADJ_HEADER_BYTES in
      if offset + ADJ_HEADER_BYTES \<le> length (special page)
      then Inr (NodeAdjHeader (bslice offset (offset + ADJ_HEADER_BYTES) (special page)))
      else Inl (OutOfPage idx))"

definition write_adj_header :: "page \<Rightarrow> nat \<Rightarrow> NodeAdjHeader \<Rightarrow> page" where
  "write_adj_header page idx hdr =
     page\<lparr>special := splice (idx * ADJ_HEADER_BYTES) (adj_bytes hdr) (special page)\<rparr>"

section \<open>Insert\<close>

definition insert_edge ::
    "'snap pg \<Rightarrow> db \<Rightarrow> i64 \<Rightarrow> i32 \<Rightarrow> i64 \<Rightarrow> i64 \<Rightarrow> bytes \<Rightarrow> store_error + db" where
  "insert_edge pg d edge_id rel_type_id src_node_id tgt_node_id prop_bytes =
    (if length prop_bytes > PROP_INLINE_MAX then Inl (PE200 (length prop_bytes) PROP_INLINE_MAX)
     else
       bindE (bindE (find_node_location d src_node_id) (\<lambda>loc.
         case loc of None \<Rightarrow> Inl (PE400_source src_node_id) | Some l \<Rightarrow> Inr l)) (\<lambda>(src_blk, src_off, src_adj_idx).
       bindE (bindE (find_node_location d tgt_node_id) (\<lambda>loc.
         case loc of None \<Rightarrow> Inl (PE400_target tgt_node_id) | Some l \<Rightarrow> Inr l)) (\<lambda>(tgt_blk, tgt_off, tgt_adj_idx).
       bindE (get_page (node_rel d) src_blk) (\<lambda>src_page.
       bindE (get_page (node_rel d) tgt_blk) (\<lambda>tgt_page.
       let same_node_page = (src_blk = tgt_blk);
           self_loop = (same_node_page \<and> src_adj_idx = tgt_adj_idx)
       in
       bindE (read_adj_header src_page src_adj_idx) (\<lambda>src_adj.
       bindE (if self_loop then Inr src_adj else read_adj_header tgt_page tgt_adj_idx) (\<lambda>tgt_adj.
       let edge_item = build_edge_item_bytes pg edge_id rel_type_id src_node_id tgt_node_id
             (out_head_pg src_adj) (out_head_sl src_adj) (in_head_pg tgt_adj) (in_head_sl tgt_adj) prop_bytes;
           (erel, edge_blk) = find_or_extend_edge_page pg (edge_rel d) (item_len edge_item);
           (edge_page, edge_off) = PageAddItemExtended pg (erel ! edge_blk) edge_item InvalidOffsetNumber 0
       in
       if edge_off = InvalidOffsetNumber then Inl (AddItemFailed edge_blk)
       else
         let edge_page = set_ctid edge_page edge_blk edge_off;
             new_src_adj = set_out_head_pg src_adj (of_nat edge_blk);
             new_src_adj = set_out_head_sl new_src_adj (of_nat edge_off);
             new_src_adj = set_out_degree new_src_adj (out_degree src_adj + 1);
             new_tgt_adj = (if self_loop then new_src_adj else tgt_adj);
             new_tgt_adj = set_in_head_pg new_tgt_adj (of_nat edge_blk);
             new_tgt_adj = set_in_head_sl new_tgt_adj (of_nat edge_off);
             new_tgt_adj = set_in_degree new_tgt_adj (in_degree tgt_adj + 1);
             nrel = (node_rel d)[src_blk := write_adj_header src_page src_adj_idx new_src_adj];
             nrel = (if \<not> self_loop
               then nrel[tgt_blk := write_adj_header (nrel ! tgt_blk) tgt_adj_idx new_tgt_adj]
               else nrel[src_blk := write_adj_header (nrel ! src_blk) src_adj_idx new_tgt_adj]);
             (log, lsn_edge) = log_edge_insert (wal d) edge_blk edge_off edge_item;
             final_src_adj = (if self_loop then new_tgt_adj else new_src_adj);
             (log, lsn_src) = log_adj_update log src_blk (of_nat src_adj_idx) final_src_adj;
             (log, lsn_tgt) = (if self_loop then (log, lsn_src)
               else log_adj_update log tgt_blk (of_nat tgt_adj_idx) new_tgt_adj);
             erel = erel[edge_blk := page_set_lsn edge_page lsn_edge];
             nrel = nrel[src_blk := page_set_lsn (nrel ! src_blk) lsn_src];
             nrel = (if \<not> same_node_page then nrel[tgt_blk := page_set_lsn (nrel ! tgt_blk) lsn_tgt] else nrel)
         in Inr (d\<lparr>node_rel := nrel, edge_rel := erel, wal := log\<rparr>))))))))"

section \<open>Delete and update\<close>

definition live_edge :: "i64 \<Rightarrow> page \<Rightarrow> nat \<Rightarrow> bool" where
  "live_edge edge_id page off =
     (case get_line page off of
        None \<Rightarrow> False
      | Some iid \<Rightarrow>
          (if lp_flags iid \<noteq> LP_NORMAL then False
           else if item_len (lp_item iid) < hdr_size + EDGE_FIXED_DATA_SIZE then False
           else case lp_item iid of
             Raw bs \<Rightarrow> False
           | Tuple hdr data \<Rightarrow>
               from_le (bslice OFF_EDGE_REL_ID (OFF_EDGE_REL_ID + 8) data) = edge_id \<and> xmax_invalid hdr))"

definition delete_edge :: "'snap pg \<Rightarrow> db \<Rightarrow> i64 \<Rightarrow> db \<times> bool" where
  "delete_edge pg d edge_id =
     (case first_some (\<lambda>blkno. first_some (\<lambda>off.
             if live_edge edge_id (edge_rel d ! blkno) off then Some (blkno, off) else None)
             (offsets (edge_rel d ! blkno))) [0..<length (edge_rel d)] of
        None \<Rightarrow> (d, False)
      | Some (blkno, found_off) \<Rightarrow>
          let xmax = CurrentTransactionId pg;
              page = mark_deleted (edge_rel d ! blkno) found_off xmax;
              (log, lsn) = log_edge_delete (wal d) blkno found_off xmax
          in (d\<lparr>edge_rel := (edge_rel d)[blkno := page_set_lsn page lsn], wal := log\<rparr>, True))"

definition edge_with_id :: "'snap pg \<Rightarrow> i64 \<Rightarrow> page \<Rightarrow> nat \<Rightarrow> nat \<Rightarrow> EdgeRecord option" where
  "edge_with_id pg edge_id page blkno off =
     (case read_edge_at_offset pg page blkno off of
        Some rec \<Rightarrow> (if er_edge_id rec = edge_id then Some rec else None)
      | None \<Rightarrow> None)"

definition find_edge_by_id :: "'snap pg \<Rightarrow> page list \<Rightarrow> i64 \<Rightarrow> EdgeRecord option" where
  "find_edge_by_id pg rel edge_id =
     first_some (\<lambda>blkno. first_some (edge_with_id pg edge_id (rel ! blkno) blkno) (offsets (rel ! blkno)))
       [0..<length rel]"

definition replace_props :: "bytes \<Rightarrow> bytes \<Rightarrow> bytes" where
  "replace_props new_prop_bytes data =
     (let available_prop_space = length data - EDGE_FIXED_DATA_SIZE;
          data = splice OFF_EDGE_PROP_INLINE_LEN (to_le 2 (of_nat (length new_prop_bytes) :: u16)) data;
          data = splice OFF_EDGE_PROP_DATA (replicate available_prop_space 0) data
      in if new_prop_bytes \<noteq> [] then splice OFF_EDGE_PROP_DATA new_prop_bytes data else data)"

definition update_edge_props :: "'snap pg \<Rightarrow> db \<Rightarrow> i64 \<Rightarrow> bytes \<Rightarrow> store_error + (db \<times> bool)" where
  "update_edge_props pg d edge_id new_prop_bytes =
    (if length new_prop_bytes > PROP_INLINE_MAX then Inl (PE200 (length new_prop_bytes) PROP_INLINE_MAX)
     else case first_some (\<lambda>blkno. first_some (\<lambda>off.
             map_option (\<lambda>rec. (blkno, off)) (edge_with_id pg edge_id (edge_rel d ! blkno) blkno off))
             (offsets (edge_rel d ! blkno))) [0..<length (edge_rel d)] of
        None \<Rightarrow> Inr (d, False)
      | Some (blkno, off) \<Rightarrow>
          let page = edge_rel d ! blkno;
              available_prop_space = item_len (lp_item (lines page ! (off - 1))) - hdr_size - EDGE_FIXED_DATA_SIZE
          in if length new_prop_bytes > available_prop_space
             then Inl (PE200 (length new_prop_bytes) available_prop_space)
             else Inr (d\<lparr>edge_rel := (edge_rel d)[blkno :=
                    modify_item page off (with_data (replace_props new_prop_bytes))]\<rparr>, True))"

section \<open>Scans\<close>

definition count_edges :: "'snap pg \<Rightarrow> page list \<Rightarrow> nat" where
  "count_edges pg rel =
     sum_list (map (\<lambda>blkno. length (filter (\<lambda>off. read_edge_at_offset pg (rel ! blkno) blkno off \<noteq> None)
       (offsets (rel ! blkno)))) [0..<length rel])"

definition scan_all_edges :: "'snap pg \<Rightarrow> page list \<Rightarrow> EdgeRecord list" where
  "scan_all_edges pg rel =
     concat (map (\<lambda>blkno. List.map_filter (read_edge_at_offset pg (rel ! blkno) blkno) (offsets (rel ! blkno)))
       [0..<length rel])"

section \<open>Adjacency chains\<close>

text \<open>
  One slot of a chain: the next pointer and the edge, where the slot is alive and passes the filter;
  \<open>None\<close> is an unused or too short slot, at which the traversal stops. The commit state of the
  inserting transaction is not asked for.
\<close>

definition chain_next :: "bool \<Rightarrow> bytes \<Rightarrow> u32 \<times> u16" where
  "chain_next is_out_chain data =
     (if is_out_chain
      then (from_le (bslice OFF_EDGE_NEXT_OUT_PAGE (OFF_EDGE_NEXT_OUT_PAGE + 4) data),
            from_le (bslice OFF_EDGE_NEXT_OUT_SLOT (OFF_EDGE_NEXT_OUT_SLOT + 2) data))
      else (from_le (bslice OFF_EDGE_NEXT_IN_PAGE (OFF_EDGE_NEXT_IN_PAGE + 4) data),
            from_le (bslice OFF_EDGE_NEXT_IN_SLOT (OFF_EDGE_NEXT_IN_SLOT + 2) data)))"

definition passes_filter :: "i32 option \<Rightarrow> EdgeRecord \<Rightarrow> bool" where
  "passes_filter rel_type_filter rec = (case rel_type_filter of None \<Rightarrow> True | Some t \<Rightarrow> t = er_rel_type_id rec)"

definition chain_slot ::
    "bool \<Rightarrow> i32 option \<Rightarrow> line \<Rightarrow> nat \<Rightarrow> nat \<Rightarrow> ((u32 \<times> u16) \<times> EdgeRecord list) option" where
  "chain_slot is_out_chain rel_type_filter iid pg off =
     (if lp_flags iid \<noteq> LP_NORMAL \<and> lp_flags iid \<noteq> LP_DEAD then None
      else if item_len (lp_item iid) < hdr_size + EDGE_FIXED_DATA_SIZE then None
      else case lp_item iid of
        Raw bs \<Rightarrow> None
      | Tuple hdr data \<Rightarrow>
          Some (chain_next is_out_chain data,
            if xmax_invalid hdr \<and> lp_flags iid = LP_NORMAL
            then (case decode_edge_record data (item_len (lp_item iid) - hdr_size) pg off of
                    Some rec \<Rightarrow> (if passes_filter rel_type_filter rec then [rec] else [])
                  | None \<Rightarrow> [])
            else []))"

text \<open>\<open>None\<close> is a traversal that does not end.\<close>

partial_function (option) follow_chain ::
    "page list \<Rightarrow> u32 \<Rightarrow> u16 \<Rightarrow> bool \<Rightarrow> i32 option \<Rightarrow> EdgeRecord list \<Rightarrow> (store_error + EdgeRecord list) option" where
  "follow_chain rel head_pg head_sl is_out_chain rel_type_filter acc =
     (if head_sl = 0 then Some (Inr acc)
      else case get_page rel (unat head_pg) of
        Inl e \<Rightarrow> Some (Inl e)
      | Inr page \<Rightarrow>
          (case get_line page (unat head_sl) of
             None \<Rightarrow> Some (Inl (OutOfPage (unat head_sl)))
           | Some iid \<Rightarrow>
               (case chain_slot is_out_chain rel_type_filter iid (unat head_pg) (unat head_sl) of
                  None \<Rightarrow> Some (Inr acc)
                | Some ((next_pg, next_sl), recs) \<Rightarrow>
                    follow_chain rel next_pg next_sl is_out_chain rel_type_filter (acc @ recs))))"

fun dedup :: "i64 list \<Rightarrow> EdgeRecord list \<Rightarrow> EdgeRecord list" where
  "dedup seen [] = []"
| "dedup seen (e # es) =
     (if er_edge_id e \<in> set seen then dedup seen es else e # dedup (er_edge_id e # seen) es)"

definition bindOE :: "('e + 'a) option \<Rightarrow> ('a \<Rightarrow> ('e + 'b) option) \<Rightarrow> ('e + 'b) option" where
  "bindOE m f = (case m of None \<Rightarrow> None | Some (Inl e) \<Rightarrow> Some (Inl e) | Some (Inr a) \<Rightarrow> f a)"

definition adjacency_follow ::
    "db \<Rightarrow> i64 \<Rightarrow> Direction \<Rightarrow> i32 option \<Rightarrow> (store_error + EdgeRecord list) option" where
  "adjacency_follow d node_id direction rel_type_filter =
     (case find_node_location d node_id of
        Inl e \<Rightarrow> Some (Inl e)
      | Inr None \<Rightarrow> Some (Inr [])
      | Inr (Some (node_blk, node_off, adj_idx)) \<Rightarrow>
          bindOE (Some (bindE (get_page (node_rel d) node_blk) (\<lambda>page. read_adj_header page adj_idx))) (\<lambda>adj.
          bindOE (if direction \<in> {Out, Both}
                  then follow_chain (edge_rel d) (out_head_pg adj) (out_head_sl adj) True rel_type_filter []
                  else Some (Inr [])) (\<lambda>results.
          bindOE (if direction \<in> {In, Both}
                  then follow_chain (edge_rel d) (in_head_pg adj) (in_head_sl adj) False rel_type_filter results
                  else Some (Inr results)) (\<lambda>results.
          Some (Inr (if direction = Both then dedup [] results else results))))))"

end
