(* ===== verification/NodeFacts.thy ===== *)
theory NodeFacts
  imports NodeStore
begin

text \<open>
  Correctness of the node store. First the item codec; then the abstract view of a node relation,
  the list of its visible versions in scan order, on which the lookups, the scan and the counts
  are specified and which insert, delete and update change as lists change.
\<close>

section \<open>The item codec\<close>

lemma splice_exact:
  "off = length pre \<Longrightarrow> length mid = length ys \<Longrightarrow> splice off ys (pre @ mid @ post) = pre @ ys @ post"
  by (simp add: splice_def)

lemma write_label_ids_exact:
  "length pre = OFF_LABEL_IDS + i * 4 \<Longrightarrow> length mid = 4 * length lids \<Longrightarrow>
   write_label_ids i lids (pre @ mid @ post) = pre @ concat (map (to_le 4) lids) @ post"
proof (induction lids arbitrary: i pre mid)
  case Nil
  then show ?case by simp
next
  case (Cons lid lids)
  have "mid = take 4 mid @ drop 4 mid" by simp
  then have "pre @ mid @ post = pre @ take 4 mid @ (drop 4 mid @ post)" by simp
  moreover have "splice (OFF_LABEL_IDS + i * 4) (to_le 4 lid) (pre @ take 4 mid @ (drop 4 mid @ post)) =
      pre @ to_le 4 lid @ (drop 4 mid @ post)"
    using Cons.prems by (intro splice_exact) simp_all
  ultimately have "write_label_ids i (lid # lids) (pre @ mid @ post) =
      write_label_ids (Suc i) lids ((pre @ to_le 4 lid) @ drop 4 mid @ post)"
    unfolding write_label_ids.simps by (simp only: append_assoc)
  also have "\<dots> = (pre @ to_le 4 lid) @ concat (map (to_le 4) lids) @ post"
    using Cons.prems by (intro Cons.IH) simp_all
  finally show ?case by simp
qed

definition node_prop_len :: "bytes \<Rightarrow> u32 \<Rightarrow> u16" where
  "node_prop_len props ovf = (if ovf = 0 then of_nat (length props) else 0)"

definition node_prop_area :: "bytes \<Rightarrow> u32 \<Rightarrow> bytes" where
  "node_prop_area props ovf = (if ovf = 0 then props else replicate (length props) 0)"

lemma length_label_bytes [simp]: "length (concat (map (to_le 4) lids)) = 4 * length lids"
  by (induction lids) simp_all

lemma node_data_eq:
  "node_data node_id adj lids props ovf =
     to_le 8 node_id @ to_le 2 adj @ [of_nat (length lids)] @ to_le 2 (node_prop_len props ovf) @
     to_le 4 ovf @ [0] @ concat (map (to_le 4) lids) @ node_prop_area props ovf"
proof -
  define A where "A = to_le 8 node_id"
  define B where "B = to_le 2 adj"
  define C where "C = [of_nat (length lids) :: u8]"
  define D where "D = to_le 2 (node_prop_len props ovf)"
  define E where "E = to_le 4 ovf"
  define L where "L = concat (map (to_le 4) lids)"
  let ?z = "\<lambda>n. replicate n (0 :: u8)"
  let ?n = "length lids * 4" and ?m = "length props"
  have len: "length A = 8" "length B = 2" "length C = 1" "length D = 2" "length E = 4" "length L = ?n"
    by (simp_all add: A_def B_def C_def D_def E_def L_def)
  have "NODE_FIXED_DATA_SIZE + length lids * 4 + length props = 8 + (2 + (1 + (2 + (4 + (1 + (?n + ?m))))))"
    by (simp add: NODE_FIXED_DATA_SIZE_def)
  then have z: "?z (NODE_FIXED_DATA_SIZE + length lids * 4 + length props) =
      ?z 8 @ ?z 2 @ ?z 1 @ ?z 2 @ ?z 4 @ ?z 1 @ ?z ?n @ ?z ?m"
    by (simp only: replicate_add)
  have 1: "splice 0 A (?z 8 @ ?z 2 @ ?z 1 @ ?z 2 @ ?z 4 @ ?z 1 @ ?z ?n @ ?z ?m) =
      A @ ?z 2 @ ?z 1 @ ?z 2 @ ?z 4 @ ?z 1 @ ?z ?n @ ?z ?m"
    using splice_exact [of 0 "[]" "?z 8" A] len by simp
  have 2: "splice 8 B (A @ ?z 2 @ ?z 1 @ ?z 2 @ ?z 4 @ ?z 1 @ ?z ?n @ ?z ?m) =
      A @ B @ ?z 1 @ ?z 2 @ ?z 4 @ ?z 1 @ ?z ?n @ ?z ?m"
    using len by (intro splice_exact) simp_all
  have 3: "splice 10 C (A @ B @ ?z 1 @ ?z 2 @ ?z 4 @ ?z 1 @ ?z ?n @ ?z ?m) =
      A @ B @ C @ ?z 2 @ ?z 4 @ ?z 1 @ ?z ?n @ ?z ?m"
    using splice_exact [of 10 "A @ B" "?z 1" C "?z 2 @ ?z 4 @ ?z 1 @ ?z ?n @ ?z ?m"] len by simp
  have 4: "splice 11 D (A @ B @ C @ ?z 2 @ ?z 4 @ ?z 1 @ ?z ?n @ ?z ?m) =
      A @ B @ C @ D @ ?z 4 @ ?z 1 @ ?z ?n @ ?z ?m"
    using splice_exact [of 11 "A @ B @ C" "?z 2" D "?z 4 @ ?z 1 @ ?z ?n @ ?z ?m"] len by simp
  have 5: "splice 13 E (A @ B @ C @ D @ ?z 4 @ ?z 1 @ ?z ?n @ ?z ?m) =
      A @ B @ C @ D @ E @ ?z 1 @ ?z ?n @ ?z ?m"
    using splice_exact [of 13 "A @ B @ C @ D" "?z 4" E "?z 1 @ ?z ?n @ ?z ?m"] len by simp
  have 6: "write_label_ids 0 lids (A @ B @ C @ D @ E @ ?z 1 @ ?z ?n @ ?z ?m) =
      A @ B @ C @ D @ E @ ?z 1 @ L @ ?z ?m"
    using write_label_ids_exact [of "A @ B @ C @ D @ E @ ?z 1" 0 "?z ?n" lids "?z ?m"] len
    by (simp add: OFF_LABEL_IDS_def L_def)
  have 7: "splice (18 + ?n) props (A @ B @ C @ D @ E @ ?z 1 @ L @ ?z ?m) =
      A @ B @ C @ D @ E @ ?z 1 @ L @ props"
    using splice_exact [of "18 + ?n" "A @ B @ C @ D @ E @ ?z 1 @ L" "?z ?m" props "[]"] len by simp
  show ?thesis
    unfolding node_data_def Let_def z OFF_NODE_ID_def OFF_ADJ_SLOT_def OFF_LABEL_COUNT_def
      OFF_PROP_INLINE_LEN_def OFF_PROP_OVERFLOW_PAGE_def OFF_LABEL_IDS_def
      node_prop_len_def [symmetric] A_def [symmetric] B_def [symmetric] C_def [symmetric]
      D_def [symmetric] E_def [symmetric] L_def [symmetric] 1 2 3 4 5 6 7
    by (simp add: node_prop_area_def)
qed

lemma length_node_data [simp]:
  "length (node_data node_id adj lids props ovf) = NODE_FIXED_DATA_SIZE + 4 * length lids + length props"
  by (simp add: node_data_eq NODE_FIXED_DATA_SIZE_def node_prop_area_def)

lemma bslice_concat:
  "i < length lids \<Longrightarrow> b = i * 4 + 4 \<Longrightarrow>
   bslice (i * 4) b (concat (map (to_le 4) lids) @ post) = to_le 4 (lids ! i)"
proof (induction lids arbitrary: i b)
  case Nil
  then show ?case by simp
next
  case (Cons lid lids)
  then show ?case by (cases i) (simp_all add: slice_append_right bslice_def)
qed

definition node_record :: "i64 \<Rightarrow> u16 \<Rightarrow> i32 list \<Rightarrow> bytes \<Rightarrow> u32 \<Rightarrow> NodeRecord" where
  "node_record node_id adj lids props ovf =
     \<lparr>nr_node_id = node_id, nr_adj_slot_idx = adj, nr_overflow_blkno = ovf, nr_label_ids = lids,
      nr_prop_bytes = props\<rparr>"

lemma decode_node_data:
  assumes "length lids \<le> MAX_LABELS_PER_NODE" and "length props \<le> PROP_INLINE_MAX"
    and "ovf \<noteq> 0 \<longrightarrow> props = []"
  shows "decode_node_data (node_data node_id adj lids props ovf) =
     Some (node_record node_id adj lids props ovf)"
proof -
  define pre where "pre = to_le 8 node_id @ to_le 2 adj @ [of_nat (length lids)] @
     to_le 2 (node_prop_len props ovf) @ to_le 4 ovf @ [0]"
  let ?L = "concat (map (to_le 4) lids)"
  have len: "length pre = 18" by (simp add: pre_def)
  have d: "node_data node_id adj lids props ovf = pre @ ?L @ props"
    using assms(3) by (auto simp: node_data_eq pre_def node_prop_area_def)
  have count: "unat (of_nat (length lids) :: u8) = length lids"
    using assms(1) by (simp add: MAX_LABELS_PER_NODE_def unat_of_nat take_bit_nat_eq_self)
  have plen: "unat (node_prop_len props ovf) = length props"
    using assms(2,3) by (auto simp: node_prop_len_def PROP_INLINE_MAX_def unat_of_nat take_bit_nat_eq_self)
  have fields: "bslice 0 8 (pre @ xs) = to_le 8 node_id" "bslice 8 10 (pre @ xs) = to_le 2 adj"
      "(pre @ xs) ! 10 = of_nat (length lids)" "bslice 11 13 (pre @ xs) = to_le 2 (node_prop_len props ovf)"
      "bslice 13 17 (pre @ xs) = to_le 4 ovf" for xs
    by (simp_all add: pre_def bslice_def nth_append)
  have labels: "map (\<lambda>i. from_le (bslice (18 + i * 4) (18 + i * 4 + 4) (pre @ ?L @ props)))
      [0..<length lids] = lids"
    using len by (intro nth_equalityI) (simp_all add: slice_append_right bslice_concat)
  have props: "bslice (18 + length lids * 4) (18 + length lids * 4 + length props) (pre @ ?L @ props) = props"
    using len by (simp add: bslice_def)
  show ?thesis
    unfolding decode_node_data_def Let_def d
    using len props labels
    by (simp add: fields count plen layout_simps node_record_def)
qed

lemma patch_node_data:
  "splice OFF_ADJ_SLOT (to_le 2 (slot :: u16)) (node_data node_id adj lids props ovf) =
     node_data node_id slot lids props ovf"
  unfolding node_data_eq OFF_ADJ_SLOT_def by (intro splice_exact) simp_all

lemma node_data_fields:
  "(from_le (bslice OFF_NODE_ID (OFF_NODE_ID + 8) (node_data node_id adj lids props ovf)) :: i64) = node_id"
  "(from_le (bslice OFF_ADJ_SLOT (OFF_ADJ_SLOT + 2) (node_data node_id adj lids props ovf)) :: u16) = adj"
  by (simp_all add: node_data_eq OFF_NODE_ID_def OFF_ADJ_SLOT_def bslice_def)

section \<open>The abstract view\<close>

text \<open>
  The visible versions of a node relation with their locations, in physical order: what the scan
  returns, and what every reading operation is specified by.
\<close>

definition page_visible ::
    "'snap pg \<Rightarrow> 'snap option \<Rightarrow> nat \<Rightarrow> page \<Rightarrow> nat list \<Rightarrow> (nat \<times> nat \<times> NodeRecord) list" where
  "page_visible pg snapshot blk page offs =
     (if is_overflow_page page then []
      else List.map_filter (\<lambda>off.
        map_option (\<lambda>r. (blk, off, r)) (read_node_at_offset pg page snapshot off)) offs)"

definition block_visible ::
    "'snap pg \<Rightarrow> page list \<Rightarrow> 'snap option \<Rightarrow> nat \<Rightarrow> (nat \<times> nat \<times> NodeRecord) list" where
  "block_visible pg rel snapshot blk = page_visible pg snapshot blk (rel ! blk) (offsets (rel ! blk))"

definition visible ::
    "'snap pg \<Rightarrow> page list \<Rightarrow> 'snap option \<Rightarrow> (nat \<times> nat \<times> NodeRecord) list" where
  "visible pg rel snapshot = concat (map (block_visible pg rel snapshot) [0..<length rel])"

definition vrec :: "nat \<times> nat \<times> NodeRecord \<Rightarrow> NodeRecord" where
  "vrec v = snd (snd v)"

lemma map_filter_append: "List.map_filter f (xs @ ys) = List.map_filter f xs @ List.map_filter f ys"
  by (simp add: List.map_filter_def)

lemma page_visible_Nil [simp]: "page_visible pg snapshot blk page [] = []"
  by (simp add: page_visible_def)

lemma page_visible_Cons:
  "\<not> is_overflow_page page \<Longrightarrow> page_visible pg snapshot blk page (off # offs) =
    (case read_node_at_offset pg page snapshot off of
       None \<Rightarrow> page_visible pg snapshot blk page offs
     | Some r \<Rightarrow> (blk, off, r) # page_visible pg snapshot blk page offs)"
  by (simp add: page_visible_def split: option.splits)

lemma page_visible_overflow [simp]: "is_overflow_page page \<Longrightarrow> page_visible pg snapshot blk page offs = []"
  by (simp add: page_visible_def)

section \<open>Counting and locating\<close>

lemma length_map_filter: "length (List.map_filter f xs) = length (filter (\<lambda>x. f x \<noteq> None) xs)"
  by (induction xs) (auto split: option.splits)

lemma map_map_filter: "map g (List.map_filter f xs) = List.map_filter (\<lambda>x. map_option g (f x)) xs"
  by (induction xs) (auto split: option.splits)

lemma count_nodes_visible: "count_nodes pg rel snapshot = length (visible pg rel snapshot)"
proof -
  have b: "length (block_visible pg rel snapshot blk) = (if is_overflow_page (rel ! blk) then 0
      else length (filter (\<lambda>off. read_node_at_offset pg (rel ! blk) snapshot off \<noteq> None) (offsets (rel ! blk))))"
    for blk
    by (simp add: block_visible_def page_visible_def length_map_filter)
  have "count_nodes pg rel snapshot = sum_list (map (\<lambda>page.
      if is_overflow_page page then 0
      else length (filter (\<lambda>off. read_node_at_offset pg page snapshot off \<noteq> None) (offsets page)))
      (map (\<lambda>i. rel ! i) [0..<length rel]))"
    by (simp add: count_nodes_def map_nth)
  then show ?thesis
    by (simp add: visible_def length_concat comp_def b)
qed

lemma locations_visible:
  "scan_all_node_locations pg rel snapshot =
     map (\<lambda>(blk, off, r). (nr_node_id r, blk, off)) (visible pg rel snapshot)"
proof -
  have "map (\<lambda>(blk, off, r). (nr_node_id r, blk, off)) (block_visible pg rel snapshot blk) =
      (if is_overflow_page (rel ! blk) then []
       else List.map_filter (\<lambda>off. map_option (\<lambda>r. (nr_node_id r, blk, off))
         (read_node_at_offset pg (rel ! blk) snapshot off)) (offsets (rel ! blk)))" for blk
    by (simp add: block_visible_def page_visible_def map_map_filter option.map_comp comp_def)
  then show ?thesis
    by (simp add: scan_all_node_locations_def visible_def map_concat comp_def)
qed

section \<open>Lookup by id\<close>

definition with_id :: "i64 \<Rightarrow> NodeRecord \<Rightarrow> NodeRecord option" where
  "with_id node_id r = (if nr_node_id r = node_id then Some r else None)"

lemma find_in_page_visible:
  "find_in_page pg snapshot node_id page =
     first_some (\<lambda>v. with_id node_id (vrec v)) (page_visible pg snapshot blk page (offsets page))"
proof (cases "is_overflow_page page")
  case True
  then show ?thesis by (simp add: find_in_page_def)
next
  case False
  have "first_some (\<lambda>off. case read_node_at_offset pg page snapshot off of
        Some r \<Rightarrow> (if nr_node_id r = node_id then Some r else None) | None \<Rightarrow> None) offs =
      first_some (\<lambda>v. with_id node_id (vrec v)) (page_visible pg snapshot blk page offs)" for offs
    by (induction offs)
      (auto simp: page_visible_Cons [OF False] with_id_def vrec_def split: option.splits)
  with False show ?thesis by (simp add: find_in_page_def)
qed

lemma first_some_concat: "first_some f (concat xss) = first_some (first_some f) xss"
  by (induction xss) (auto simp: first_some_append split: option.splits)

lemma find_slow_visible:
  "first_some (find_in_page pg snapshot node_id) rel =
     first_some (\<lambda>v. with_id node_id (vrec v)) (visible pg rel snapshot)"
proof -
  have "first_some (find_in_page pg snapshot node_id) (map (\<lambda>i. rel ! i) [0..<length rel]) =
      first_some (\<lambda>v. with_id node_id (vrec v)) (visible pg rel snapshot)"
    unfolding first_some_map visible_def first_some_concat
    by (intro first_some_cong) (simp add: block_visible_def find_in_page_visible)
  then show ?thesis by (simp add: map_nth)
qed

text \<open>A lookup without a cache entry is a search of the visible versions.\<close>

definition search ::
    "page list \<Rightarrow> (nat \<times> nat \<times> NodeRecord) list \<Rightarrow> i64 \<Rightarrow> store_error + NodeRecord option" where
  "search rel vs node_id =
     (case first_some (\<lambda>v. with_id node_id (vrec v)) vs of
        Some r \<Rightarrow> bindE (resolve_overflow rel r) (\<lambda>r. Inr (Some r))
      | None \<Rightarrow> Inr None)"

lemma find_uncached:
  "location_cache d node_id = None \<Longrightarrow>
   find_node_by_id pg d node_id snapshot = search (node_rel d) (visible pg (node_rel d) snapshot) node_id"
  by (simp add: find_node_by_id_def search_def find_slow_visible)

section \<open>The scan\<close>

text \<open>The offsets of a page from \<open>off\<close> on.\<close>

definition from_off :: "page \<Rightarrow> nat \<Rightarrow> nat list" where
  "from_off page off = [off..<Suc (max_off page)]"

lemma from_off_step: "off \<le> max_off page \<Longrightarrow> from_off page off = off # from_off page (Suc off)"
  by (simp add: from_off_def upt_rec)

lemma from_off_end: "\<not> off \<le> max_off page \<Longrightarrow> from_off page off = []"
  by (simp add: from_off_def)

lemma offsets_from: "offsets page = from_off page FirstOffsetNumber"
  by (simp add: offsets_def from_off_def)

definition scan_page_result ::
    "nat \<Rightarrow> page \<Rightarrow> nat \<Rightarrow> (nat \<times> nat \<times> NodeRecord) list \<Rightarrow> NodeRecord option \<times> nat \<Rightarrow> bool" where
  "scan_page_result blk page off vs res \<longleftrightarrow>
     (case fst res of
        None \<Rightarrow> vs = []
      | Some r \<Rightarrow> \<exists>o'. snd res = Suc o' \<and> off \<le> o' \<and> o' \<le> max_off page \<and> vs \<noteq> [] \<and> hd vs = (blk, o', r))"

lemma scan_page_spec:
  assumes "\<not> is_overflow_page page"
  shows "scan_page_result blk page off (page_visible pg snapshot blk page (from_off page off))
      (scan_page pg page snapshot off) \<and>
    (\<forall>r o'. scan_page pg page snapshot off = (Some r, o') \<longrightarrow>
      page_visible pg snapshot blk page (from_off page o') =
        tl (page_visible pg snapshot blk page (from_off page off)))"
  using assms
proof (induction pg page snapshot off rule: scan_page.induct)
  case (1 pg page snapshot off)
  show ?case
  proof (cases "off \<le> max_off page")
    case True
    show ?thesis
    proof (cases "read_node_at_offset pg page snapshot off")
      case None
      have "scan_page pg page snapshot off = scan_page pg page snapshot (Suc off)"
        using True None by (simp add: scan_page.simps [of pg page snapshot off])
      with 1 True None show ?thesis
        by (auto simp: from_off_step page_visible_Cons scan_page_result_def split: option.splits)
    next
      case (Some r)
      with True 1(2) show ?thesis
        by (simp add: from_off_step page_visible_Cons scan_page_result_def
            scan_page.simps [of pg page snapshot off])
    qed
  next
    case False
    then show ?thesis
      by (simp add: from_off_end scan_page_result_def scan_page.simps [of pg page snapshot off])
  qed
qed

text \<open>What a scan has still to return.\<close>

definition remaining ::
    "'snap pg \<Rightarrow> page list \<Rightarrow> 'snap option \<Rightarrow> NodeScanState \<Rightarrow> (nat \<times> nat \<times> NodeRecord) list" where
  "remaining pg rel snapshot st =
     (if current_blk st < nblocks st
      then page_visible pg snapshot (current_blk st) (rel ! current_blk st)
             (from_off (rel ! current_blk st) (current_off st)) @
           concat (map (block_visible pg rel snapshot) [Suc (current_blk st)..<nblocks st])
      else [])"

lemma remaining_begin: "remaining pg rel snapshot (scan_begin rel) = visible pg rel snapshot"
proof (cases "rel = []")
  case True
  then show ?thesis by (simp add: remaining_def scan_begin_def visible_def)
next
  case False
  then have "[0..<length rel] = 0 # [Suc 0..<length rel]" by (simp add: upt_rec)
  with False show ?thesis
    by (simp add: remaining_def scan_begin_def visible_def block_visible_def offsets_from)
qed

lemma remaining_next_block:
  assumes "blk < n"
  shows "remaining pg rel snapshot \<lparr>current_blk = Suc blk, current_off = FirstOffsetNumber, nblocks = n\<rparr> =
    concat (map (block_visible pg rel snapshot) [Suc blk..<n])"
proof (cases "Suc blk < n")
  case True
  then have "[Suc blk..<n] = Suc blk # [Suc (Suc blk)..<n]" by (simp add: upt_rec)
  with True show ?thesis
    by (simp add: remaining_def block_visible_def offsets_from)
next
  case False
  with assms show ?thesis by (simp add: remaining_def)
qed

lemma remaining_rec:
  assumes "blk < n"
  shows "remaining pg rel snapshot \<lparr>current_blk = blk, current_off = off, nblocks = n\<rparr> =
    page_visible pg snapshot blk (rel ! blk) (from_off (rel ! blk) off) @
    remaining pg rel snapshot \<lparr>current_blk = Suc blk, current_off = 1, nblocks = n\<rparr>"
  using assms remaining_next_block [OF assms, of pg rel snapshot]
  by (simp add: remaining_def [of _ _ _ "\<lparr>current_blk = blk, current_off = off, nblocks = n\<rparr>"])

definition scan_step_ok ::
    "'snap pg \<Rightarrow> page list \<Rightarrow> 'snap option \<Rightarrow> (nat \<times> nat \<times> NodeRecord) list \<Rightarrow>
     store_error + (NodeRecord option \<times> NodeScanState) \<Rightarrow> bool" where
  "scan_step_ok pg rel snapshot vs res \<longleftrightarrow>
     (case vs of
        [] \<Rightarrow> \<exists>st. res = Inr (None, st)
      | v # vs' \<Rightarrow> \<exists>st. res = bindE (resolve_overflow rel (vrec v)) (\<lambda>r. Inr (Some r, st)) \<and>
          remaining pg rel snapshot st = vs' \<and> nblocks st = length rel)"

lemma scan_next_spec:
  assumes "nblocks st = length rel"
  shows "scan_step_ok pg rel snapshot (remaining pg rel snapshot st) (scan_next pg rel snapshot st)"
  using assms
proof (induction pg rel snapshot st rule: scan_next.induct)
  case (1 pg rel snapshot st)
  obtain blk off n where st: "st = \<lparr>current_blk = blk, current_off = off, nblocks = n\<rparr>"
    by (cases st) auto
  have n: "n = length rel" using 1(3) by (simp add: st)
  show ?case
  proof (cases "blk < length rel")
    case False
    then show ?thesis
      by (simp add: remaining_def st n scan_next.simps [of pg rel snapshot] scan_step_ok_def)
  next
    case True
    let ?p = "rel ! blk" and ?nb = "\<lparr>current_blk = Suc blk, current_off = 1, nblocks = n\<rparr>"
    let ?vs = "page_visible pg snapshot blk ?p (from_off ?p off)"
    have gp: "get_page rel blk = Inr ?p" using True by (simp add: get_page_def)
    have rest: "remaining pg rel snapshot st = ?vs @ remaining pg rel snapshot ?nb"
      unfolding st using True n by (intro remaining_rec) simp
    have lt: "\<not> nblocks st \<le> current_blk st" using True n by (simp add: st)
    have unf: "scan_next pg rel snapshot st =
        (if is_overflow_page ?p then scan_next pg rel snapshot ?nb
         else case scan_page pg ?p snapshot off of
           (Some r, o') \<Rightarrow> bindE (resolve_overflow rel r)
             (\<lambda>r. Inr (Some r, \<lparr>current_blk = blk, current_off = o', nblocks = n\<rparr>))
         | (None, o') \<Rightarrow> scan_next pg rel snapshot ?nb)"
      by (subst scan_next.simps) (use True gp n in \<open>auto simp: st Let_def split: prod.splits option.splits\<close>)
    show ?thesis
    proof (cases "is_overflow_page ?p")
      case ovf: True
      have "scan_next pg rel snapshot st = scan_next pg rel snapshot ?nb"
        using ovf by (simp add: unf)
      moreover have "remaining pg rel snapshot st = remaining pg rel snapshot ?nb"
        using rest ovf by simp
      ultimately show ?thesis
        using 1(1) [OF lt, of ?p ?nb] gp ovf n by (simp add: st)
    next
      case node: False
      note sp = scan_page_spec [OF node, of blk off pg snapshot]
      show ?thesis
      proof (cases "scan_page pg ?p snapshot off")
        case (Pair res o')
        show ?thesis
        proof (cases res)
          case None
          have "scan_next pg rel snapshot st = scan_next pg rel snapshot ?nb"
            using node Pair None by (simp add: unf)
          moreover have "?vs = []" using sp Pair None by (simp add: scan_page_result_def)
          ultimately show ?thesis
            using 1(2) [OF lt, of ?p ?nb None o'] gp node Pair None n rest by (simp add: st)
        next
          case (Some r)
          let ?st = "\<lparr>current_blk = blk, current_off = o', nblocks = n\<rparr>"
          have step: "scan_next pg rel snapshot st = bindE (resolve_overflow rel r) (\<lambda>r. Inr (Some r, ?st))"
            using node Pair Some by (simp add: unf)
          obtain k where vs: "?vs = (blk, k, r) # tl ?vs"
            using sp Pair Some by (auto simp: scan_page_result_def) (metis list.collapse)
          have "page_visible pg snapshot blk ?p (from_off ?p o') = tl ?vs"
            using sp Pair Some by auto
          then have "remaining pg rel snapshot ?st = tl ?vs @ remaining pg rel snapshot ?nb"
            using True n remaining_rec [of blk n pg rel snapshot o'] by simp
          moreover have "remaining pg rel snapshot st =
              (blk, k, r) # (tl ?vs @ remaining pg rel snapshot ?nb)"
            unfolding rest by (subst vs) simp
          ultimately show ?thesis
            using step n by (auto simp: scan_step_ok_def vrec_def)
        qed
      qed
    qed
  qed
qed

text \<open>
  \<open>while let Some(rec) = state.next()\<close>, with at most \<open>n\<close> calls; \<open>None\<close> when \<open>n\<close> were not enough.
\<close>

fun drain ::
    "'snap pg \<Rightarrow> page list \<Rightarrow> 'snap option \<Rightarrow> nat \<Rightarrow> NodeScanState \<Rightarrow>
     (store_error + NodeRecord list) option" where
  "drain pg rel snapshot 0 st = None"
| "drain pg rel snapshot (Suc n) st =
     (case scan_next pg rel snapshot st of
        Inl e \<Rightarrow> Some (Inl e)
      | Inr (None, st) \<Rightarrow> Some (Inr [])
      | Inr (Some r, st) \<Rightarrow>
          map_option (\<lambda>res. bindE res (\<lambda>rs. Inr (r # rs))) (drain pg rel snapshot n st))"

lemma drain_remaining:
  assumes "nblocks st = length rel" and "length (remaining pg rel snapshot st) < n"
  shows "drain pg rel snapshot n st =
    Some (mapE (\<lambda>v. resolve_overflow rel (vrec v)) (remaining pg rel snapshot st))"
  using assms
proof (induction n arbitrary: st)
  case 0
  then show ?case by simp
next
  case (Suc n)
  note step = scan_next_spec [OF Suc.prems(1), of pg snapshot]
  show ?case
  proof (cases "remaining pg rel snapshot st")
    case Nil
    with step show ?thesis by (auto simp: scan_step_ok_def)
  next
    case (Cons v vs)
    then obtain st' where n: "scan_next pg rel snapshot st =
          bindE (resolve_overflow rel (vrec v)) (\<lambda>r. Inr (Some r, st'))"
        and st': "remaining pg rel snapshot st' = vs" "nblocks st' = length rel"
      using step by (auto simp: scan_step_ok_def)
    have "drain pg rel snapshot n st' = Some (mapE (\<lambda>v. resolve_overflow rel (vrec v)) vs)"
      using Suc.IH [OF st'(2)] Suc.prems(2) Cons st'(1) by simp
    with n Cons show ?thesis
      by (cases "resolve_overflow rel (vrec v)") simp_all
  qed
qed

text \<open>
  C37. Reading operations agree: a sequential scan ends within one call more than there are visible
  nodes and returns exactly the visible versions in physical order, overflow properties resolved;
  counting and locating see the same versions; and a lookup by id without a cache entry is the
  first of them with that id.
\<close>

theorem scan_complete:
  "drain pg (node_rel d) snapshot (Suc (count_nodes pg (node_rel d) snapshot)) (scan_begin (node_rel d)) =
     Some (mapE (\<lambda>v. resolve_overflow (node_rel d) (vrec v)) (visible pg (node_rel d) snapshot)) \<and>
   count_nodes pg (node_rel d) snapshot = length (visible pg (node_rel d) snapshot) \<and>
   scan_all_node_locations pg (node_rel d) snapshot =
     map (\<lambda>(blk, off, r). (nr_node_id r, blk, off)) (visible pg (node_rel d) snapshot) \<and>
   find_node_by_id pg (d\<lparr>location_cache := Map.empty\<rparr>) node_id snapshot =
     search (node_rel d) (visible pg (node_rel d) snapshot) node_id"
proof -
  let ?vs = "visible pg (node_rel d) snapshot"
  have "nblocks (scan_begin (node_rel d)) = length (node_rel d)"
    by (simp add: scan_begin_def)
  from drain_remaining [OF this, of pg snapshot "Suc (length ?vs)"]
  have "drain pg (node_rel d) snapshot (Suc (length ?vs)) (scan_begin (node_rel d)) =
      Some (mapE (\<lambda>v. resolve_overflow (node_rel d) (vrec v)) ?vs)"
    by (simp add: remaining_begin del: drain.simps)
  then show ?thesis
    by (simp add: count_nodes_visible locations_visible find_uncached del: drain.simps)
qed

end
