(* ===== verification/NodeOps.thy ===== *)
theory NodeOps
  imports NodeFacts
begin

text \<open>
  What the mutating operations of the node store do to the abstract view: \<open>insert_node\<close> appends one
  version, \<open>delete_node_by_id\<close> removes one, \<open>update_node\<close> replaces one; all of them keep the
  relation well formed and leave every other version, and every overflow block, alone.
\<close>

section \<open>Well-formed node relations\<close>

definition tuple_line :: "line \<Rightarrow> bool" where
  "tuple_line l \<longleftrightarrow> lp_flags l \<noteq> LP_UNUSED \<and> (\<exists>hdr data. lp_item l = Tuple hdr data)"

definition node_page_ok :: "page \<Rightarrow> bool" where
  "node_page_ok p \<longleftrightarrow> page_wf p \<and> pd_special p = PD_NODE_SPECIAL_OFFSET \<and> list_all tuple_line (lines p)"

definition raw_line :: "line \<Rightarrow> bool" where
  "raw_line l \<longleftrightarrow> (\<exists>bs. lp_item l = Raw bs)"

definition overflow_page_ok :: "page \<Rightarrow> bool" where
  "overflow_page_ok p \<longleftrightarrow> page_wf p \<and> pd_special p = BLCKSZ \<and> list_all raw_line (lines p)"

definition node_rel_ok :: "page list \<Rightarrow> bool" where
  "node_rel_ok rel \<longleftrightarrow> list_all (\<lambda>p. node_page_ok p \<or> overflow_page_ok p) rel"

lemma node_page_not_overflow: "node_page_ok p \<Longrightarrow> \<not> is_overflow_page p"
  by (simp add: node_page_ok_def is_overflow_page_def layout_simps)

lemma overflow_page_is: "overflow_page_ok p \<Longrightarrow> is_overflow_page p"
  by (simp add: overflow_page_ok_def is_overflow_page_def layout_simps)

lemma node_rel_page: "node_rel_ok rel \<Longrightarrow> blk < length rel \<Longrightarrow> node_page_ok (rel ! blk) \<or> overflow_page_ok (rel ! blk)"
  by (auto simp: node_rel_ok_def list_all_length)

lemma node_rel_node_page:
  "node_rel_ok rel \<Longrightarrow> blk < length rel \<Longrightarrow> \<not> is_overflow_page (rel ! blk) \<Longrightarrow> node_page_ok (rel ! blk)"
  using node_rel_page overflow_page_is by blast

lemma node_rel_overflow_page:
  "node_rel_ok rel \<Longrightarrow> blk < length rel \<Longrightarrow> is_overflow_page (rel ! blk) \<Longrightarrow> overflow_page_ok (rel ! blk)"
  using node_rel_page node_page_not_overflow by blast

lemma node_rel_ok_append: "node_rel_ok (rel @ [p]) \<longleftrightarrow> node_rel_ok rel \<and> (node_page_ok p \<or> overflow_page_ok p)"
  by (simp add: node_rel_ok_def)

lemma node_rel_ok_update:
  "node_rel_ok rel \<Longrightarrow> node_page_ok p \<or> overflow_page_ok p \<Longrightarrow> node_rel_ok (rel[blk := p])"
  unfolding node_rel_ok_def list_all_iff using set_update_subset_insert [of rel blk p] by auto

section \<open>Adding an item to a page\<close>

definition append_line :: "page \<Rightarrow> item \<Rightarrow> item \<Rightarrow> page" where
  "append_line p sz it = p\<lparr>lines := lines p @ [\<lparr>lp_flags = LP_NORMAL, lp_item = it\<rparr>],
     pd_lower := pd_lower p + item_id_size, pd_upper := pd_upper p - maxalign (item_len sz)\<rparr>"

lemma append_line_simps [simp]:
  "lines (append_line p sz it) = lines p @ [\<lparr>lp_flags = LP_NORMAL, lp_item = it\<rparr>]"
  "pd_special (append_line p sz it) = pd_special p"
  "special (append_line p sz it) = special p"
  "max_off (append_line p sz it) = Suc (max_off p)"
  by (simp_all add: append_line_def max_off_def)

lemma add_item_append:
  assumes "pg_ok pg" and wf: "page_wf p" and used: "\<forall>l \<in> set (lines p). lp_flags l \<noteq> LP_UNUSED"
    and fit: "fits p (item_len it)"
  shows "PageAddItemExtended pg p it 0 0 = (append_line p it it, Suc (max_off p)) \<and>
    page_wf (append_line p it it)"
proof -
  obtain p' off where r: "PageAddItemExtended pg p it 0 0 = (p', off)" by fastforce
  have "(off = 0 \<and> p' = p \<and> page_free_space p < maxalign (item_len it) + item_id_size) \<or>
     (p' = place p off it \<and> page_wf p' \<and> (off = max_off p + 1 \<or> unused p off))"
    using assms(1) wf r unfolding pg_ok_def pg_add_item_ok_def by blast
  moreover have "\<not> page_free_space p < maxalign (item_len it) + item_id_size"
    using fit by (simp add: fits_def)
  moreover have "\<not> unused p off"
    using used by (auto simp: unused_def max_off_def)
  ultimately have "p' = place p off it" "page_wf p'" "off = Suc (max_off p)" by auto
  then show ?thesis using r by (simp add: place_def append_line_def Let_def)
qed

lemma modify_last:
  "modify_item (append_line p sz it) (Suc (max_off p)) f = append_line p sz (f it)"
  by (simp add: modify_item_def set_item_def append_line_def max_off_def)

lemma wf_append_same:
  assumes "page_wf (append_line p sz it)" and "item_len it' = item_len it"
  shows "page_wf (append_line p sz it')"
  using assms by (simp add: page_wf_def append_line_def storage_def line_storage_def)

lemma wf_set_lsn [simp]: "page_wf (page_set_lsn p lsn) = page_wf p"
  by (simp add: page_wf_def page_set_lsn_def storage_def)

lemma set_lsn_simps [simp]:
  "lines (page_set_lsn p lsn) = lines p" "pd_special (page_set_lsn p lsn) = pd_special p"
  "special (page_set_lsn p lsn) = special p" "max_off (page_set_lsn p lsn) = max_off p"
  by (simp_all add: page_set_lsn_def max_off_def)

lemma max_off_bound: "page_wf p \<Longrightarrow> max_off p \<le> 2042"
  by (auto simp: page_wf_def max_off_def BLCKSZ_def)

section \<open>Reading a line\<close>

definition read_line :: "'snap pg \<Rightarrow> 'snap option \<Rightarrow> line \<Rightarrow> NodeRecord option" where
  "read_line pg snapshot iid =
     (if lp_flags iid \<noteq> LP_NORMAL then None
      else case lp_item iid of
        Raw bs \<Rightarrow> None
      | Tuple hdr data \<Rightarrow>
          (if \<not> xmin_visible pg snapshot hdr then None
           else if \<not> xmax_invalid hdr then None
           else if item_len (lp_item iid) < hdr_size + NODE_FIXED_DATA_SIZE then None
           else decode_node_data data))"

lemma read_node_line:
  "read_node_at_offset pg page snapshot off =
     (case get_line page off of None \<Rightarrow> None | Some iid \<Rightarrow> read_line pg snapshot iid)"
  unfolding read_node_at_offset_def read_line_def by (rule refl)

lemma read_node_cong:
  "lines p' = lines p \<Longrightarrow> read_node_at_offset pg p' snapshot off = read_node_at_offset pg p snapshot off"
  by (simp add: read_node_line get_line_def max_off_def)

lemma page_visible_cong:
  "lines p' = lines p \<Longrightarrow> pd_special p' = pd_special p \<Longrightarrow>
   page_visible pg snapshot blk p' (offsets p') = page_visible pg snapshot blk p (offsets p)"
  by (simp add: page_visible_def is_overflow_page_def offsets_def max_off_def read_node_cong [of p' p])

definition line_entry ::
    "'snap pg \<Rightarrow> 'snap option \<Rightarrow> nat \<Rightarrow> nat \<Rightarrow> line \<Rightarrow> (nat \<times> nat \<times> NodeRecord) list" where
  "line_entry pg snapshot blk off l = (case read_line pg snapshot l of None \<Rightarrow> [] | Some r \<Rightarrow> [(blk, off, r)])"

lemma concat_map_cong:
  "(\<And>x. x \<in> set xs \<Longrightarrow> f x = g x) \<Longrightarrow> concat (map f xs) = concat (map g xs)"
  by (intro arg_cong [of _ _ concat] map_cong) simp_all

lemma map_filter_concat:
  "List.map_filter f (map Suc js) = concat (map (\<lambda>i. case f (Suc i) of None \<Rightarrow> [] | Some y \<Rightarrow> [y]) js)"
  by (induction js) (auto split: option.splits)

lemma offsets_Suc: "offsets p = map Suc [0..<length (lines p)]"
  by (simp add: offsets_def max_off_def map_Suc_upt del: upt_Suc)

lemma page_visible_lines:
  assumes "\<not> is_overflow_page p"
  shows "page_visible pg snapshot blk p (offsets p) =
    concat (map (\<lambda>i. line_entry pg snapshot blk (Suc i) (lines p ! i)) [0..<length (lines p)])"
proof -
  have "page_visible pg snapshot blk p (offsets p) =
      concat (map (\<lambda>i. case map_option (\<lambda>r. (blk, Suc i, r)) (read_node_at_offset pg p snapshot (Suc i)) of
        None \<Rightarrow> [] | Some y \<Rightarrow> [y]) [0..<length (lines p)])"
    using assms by (simp add: page_visible_def offsets_Suc map_filter_concat)
  also have "\<dots> = concat (map (\<lambda>i. line_entry pg snapshot blk (Suc i) (lines p ! i)) [0..<length (lines p)])"
    by (intro arg_cong [of _ _ concat] map_cong refl)
      (simp add: line_entry_def read_node_line get_line_def max_off_def split: option.splits)
  finally show ?thesis .
qed

lemma page_visible_snoc:
  assumes "\<not> is_overflow_page p" and "lines p' = lines p @ [l]" and "pd_special p' = pd_special p"
  shows "page_visible pg snapshot blk p' (offsets p') =
    page_visible pg snapshot blk p (offsets p) @ line_entry pg snapshot blk (Suc (max_off p)) l"
proof -
  have "\<not> is_overflow_page p'" using assms by (simp add: is_overflow_page_def)
  moreover have "concat (map (\<lambda>i. line_entry pg snapshot blk (Suc i) ((lines p @ [l]) ! i)) [0..<length (lines p)]) =
      concat (map (\<lambda>i. line_entry pg snapshot blk (Suc i) (lines p ! i)) [0..<length (lines p)])"
    by (intro concat_map_cong) (simp add: nth_append)
  ultimately show ?thesis
    unfolding page_visible_lines [OF assms(1)] assms(2)
    by (subst page_visible_lines) (simp_all add: assms(2) max_off_def)
qed

section \<open>How the view follows the pages\<close>

lemma visible_snoc:
  "visible pg (rel @ [p]) snapshot =
     visible pg rel snapshot @ page_visible pg snapshot (length rel) p (offsets p)"
proof -
  have "concat (map (block_visible pg (rel @ [p]) snapshot) [0..<length rel]) =
      concat (map (block_visible pg rel snapshot) [0..<length rel])"
    by (intro concat_map_cong) (simp add: block_visible_def nth_append)
  moreover have "block_visible pg (rel @ [p]) snapshot (length rel) =
      page_visible pg snapshot (length rel) p (offsets p)"
    by (simp add: block_visible_def)
  ultimately show ?thesis by (simp add: visible_def)
qed

lemma visible_split:
  assumes "blk < length rel"
  shows "visible pg rel snapshot =
    concat (map (block_visible pg rel snapshot) [0..<blk]) @ block_visible pg rel snapshot blk @
    concat (map (block_visible pg rel snapshot) [Suc blk..<length rel])"
proof -
  have "[0..<length rel] = [0..<blk] @ blk # [Suc blk..<length rel]"
    using assms upt_add_eq_append [of 0 blk "length rel - blk"] by (simp add: upt_conv_Cons)
  then show ?thesis by (simp add: visible_def)
qed

lemma visible_update:
  assumes "blk < length rel"
  shows "visible pg (rel[blk := p]) snapshot =
    concat (map (block_visible pg rel snapshot) [0..<blk]) @
    page_visible pg snapshot blk p (offsets p) @
    concat (map (block_visible pg rel snapshot) [Suc blk..<length rel])"
proof -
  have "block_visible pg (rel[blk := p]) snapshot b = block_visible pg rel snapshot b" if "b \<noteq> blk" for b
    using that by (simp add: block_visible_def)
  then have "concat (map (block_visible pg (rel[blk := p]) snapshot) [0..<blk]) =
      concat (map (block_visible pg rel snapshot) [0..<blk])"
    and "concat (map (block_visible pg (rel[blk := p]) snapshot) [Suc blk..<length rel]) =
      concat (map (block_visible pg rel snapshot) [Suc blk..<length rel])"
    by (auto intro!: concat_map_cong)
  moreover have "block_visible pg (rel[blk := p]) snapshot blk = page_visible pg snapshot blk p (offsets p)"
    using assms by (simp add: block_visible_def)
  ultimately show ?thesis
    using visible_split [of blk "rel[blk := p]" pg snapshot] assms by simp
qed

lemma visible_update_last:
  assumes "blk < length rel" and "\<forall>b. blk < b \<and> b < length rel \<longrightarrow> is_overflow_page (rel ! b)"
    and "page_visible pg snapshot blk p (offsets p) = block_visible pg rel snapshot blk @ new"
  shows "visible pg (rel[blk := p]) snapshot = visible pg rel snapshot @ new"
proof -
  have "\<forall>xs \<in> set (map (block_visible pg rel snapshot) [Suc blk..<length rel]). xs = []"
    using assms(2) by (auto simp: block_visible_def)
  then have nil: "concat (map (block_visible pg rel snapshot) [Suc blk..<length rel]) = []"
    by (rule concat_eq_Nil_conv [THEN iffD2])
  show ?thesis
    unfolding visible_update [OF assms(1)] visible_split [OF assms(1), of pg snapshot] nil assms(3)
    by simp
qed

section \<open>Lines by their location\<close>

text \<open>
  The node relation as a map from item pointers to lines, overflow blocks left out. The operations
  are updates of this map.
\<close>

definition tids :: "page list \<Rightarrow> nat \<times> nat \<Rightarrow> line option" where
  "tids rel = (\<lambda>(blk, off).
     if blk < length rel \<and> \<not> is_overflow_page (rel ! blk) then get_line (rel ! blk) off else None)"

lemma tids_snoc_empty:
  assumes "is_overflow_page p \<or> lines p = []"
  shows "tids (rel @ [p]) = tids rel"
proof
  fix t :: "nat \<times> nat"
  obtain b k where t: "t = (b, k)" by (cases t)
  show "tids (rel @ [p]) t = tids rel t"
    using assms by (auto simp: t tids_def nth_append less_Suc_eq get_line_def max_off_def)
qed

lemma get_line_snoc:
  "lines q = lines p @ [l] \<Longrightarrow> get_line q off = (if off = Suc (max_off p) then Some l else get_line p off)"
  by (auto simp: get_line_def max_off_def nth_append)

lemma get_line_update:
  "lines q = (lines p)[off - 1 := l] \<Longrightarrow> 1 \<le> off \<Longrightarrow> off \<le> max_off p \<Longrightarrow>
   get_line q k = (if k = off then Some l else get_line p k)"
  by (auto simp: get_line_def max_off_def nth_list_update)

lemma tids_update:
  assumes "blk < length rel" and "\<not> is_overflow_page (rel ! blk)" and "\<not> is_overflow_page q"
    and "\<And>k. get_line q k = (if k = off then Some l else get_line (rel ! blk) k)"
  shows "tids (rel[blk := q]) = (tids rel)((blk, off) \<mapsto> l)"
  using assms by (auto simp: tids_def fun_eq_iff nth_list_update)

section \<open>Finding a page\<close>

text \<open>
  The page an insert gets: the node page behind which only overflow blocks lie, or a new one.
\<close>

definition insertion_page :: "page list \<Rightarrow> nat \<Rightarrow> nat \<Rightarrow> bool" where
  "insertion_page rel blk item_size \<longleftrightarrow>
     blk < length rel \<and> \<not> is_overflow_page (rel ! blk) \<and> fits (rel ! blk) item_size \<and>
     (\<forall>b. blk < b \<and> b < length rel \<longrightarrow> is_overflow_page (rel ! b))"

lemma find_page_back_spec:
  assumes "blk < length rel" and "\<forall>b. blk < b \<and> b < length rel \<longrightarrow> is_overflow_page (rel ! b)"
    and "find_page_back rel item_size blk = Some b"
  shows "insertion_page rel b item_size"
  using assms
proof (induction rel item_size blk rule: find_page_back.induct)
  case (1 rel item_size blk)
  show ?case
  proof (cases "is_overflow_page (rel ! blk)")
    case True
    with 1(4) obtain k where k: "blk = Suc k" "find_page_back rel item_size k = Some b"
      by (simp add: find_page_back.simps [of rel item_size blk] split: nat.splits)
    have "\<forall>b. k < b \<and> b < length rel \<longrightarrow> is_overflow_page (rel ! b)"
      using 1(3) True k(1) by (metis Suc_lessI)
    with 1(1) [OF True k(1)] 1(2) k show ?thesis by simp
  next
    case False
    with 1 show ?thesis
      by (simp add: find_page_back.simps [of rel item_size blk] insertion_page_def split: if_splits)
  qed
qed

lemma init_node_page_ok:
  assumes "pg_ok pg"
  shows "node_page_ok (init_node_page pg) \<and> lines (init_node_page pg) = [] \<and>
    page_free_space (init_node_page pg) = 5768"
proof -
  have "page_wf (PageInit pg 2400) \<and> lines (PageInit pg 2400) = [] \<and> pd_special (PageInit pg 2400) = 5792 \<and>
     pd_upper (PageInit pg 2400) = 5792 \<and> special (PageInit pg 2400) = replicate 2400 0"
    using assms unfolding pg_ok_def pg_page_init_ok_def BLCKSZ_def by simp
  moreover from this have "(PageInit pg 2400)\<lparr>special := replicate 2400 0\<rparr> = PageInit pg 2400"
    by (metis page.surjective page.update_convs(5))
  ultimately show ?thesis
    by (simp add: init_node_page_def node_page_ok_def layout_simps page_free_space_def page_wf_def storage_def)
qed

lemma overflow_init_ok:
  assumes "pg_ok pg"
  shows "overflow_page_ok (PageInit pg 0) \<and> lines (PageInit pg 0) = [] \<and>
    page_free_space (PageInit pg 0) = 8168"
proof -
  have "page_wf (PageInit pg 0) \<and> lines (PageInit pg 0) = [] \<and> pd_special (PageInit pg 0) = 8192 \<and>
     pd_upper (PageInit pg 0) = 8192"
    using assms unfolding pg_ok_def pg_page_init_ok_def BLCKSZ_def by auto
  then show ?thesis
    by (simp add: overflow_page_ok_def BLCKSZ_def page_free_space_def page_wf_def)
qed

lemma find_or_extend_spec:
  assumes "pg_ok pg" and ok: "node_rel_ok rel" and size: "maxalign item_size + item_id_size \<le> 5768"
    and r: "find_or_extend_page pg rel item_size = (rel', blk)"
  shows "node_rel_ok rel' \<and> insertion_page rel' blk item_size \<and> (rel' = rel \<or> rel' = rel @ [init_node_page pg]) \<and>
    (\<forall>snapshot. visible pg rel' snapshot = visible pg rel snapshot) \<and> tids rel' = tids rel"
proof -
  note init = init_node_page_ok [OF assms(1)]
  show ?thesis
  proof (cases "if rel = [] then None else find_page_back rel item_size (length rel - 1)")
    case None
    then have "rel' = rel @ [init_node_page pg]" "blk = length rel"
      using r by (simp_all add: find_or_extend_page_def)
    moreover have "page_visible pg snapshot blk (init_node_page pg) (offsets (init_node_page pg)) = []" for snapshot
      using init by (simp add: offsets_Suc)
    ultimately show ?thesis
      using ok init size
      by (auto simp: node_rel_ok_append insertion_page_def fits_def node_page_not_overflow visible_snoc tids_snoc_empty)
  next
    case (Some b)
    then have "rel \<noteq> []" "find_page_back rel item_size (length rel - 1) = Some b"
      by (auto split: if_splits)
    moreover from this have "insertion_page rel b item_size"
      by (intro find_page_back_spec [of "length rel - 1"]) auto
    ultimately show ?thesis
      using r ok by (simp add: find_or_extend_page_def)
  qed
qed

section \<open>Live versions\<close>

text \<open>
  A live line carries a version of the node that nobody has deleted, whatever became of the
  transaction that inserted it.
\<close>

definition live_line :: "i64 \<Rightarrow> line \<Rightarrow> bool" where
  "live_line node_id l \<longleftrightarrow> lp_flags l = LP_NORMAL \<and>
     (\<exists>hdr data. lp_item l = Tuple hdr data \<and> NODE_FIXED_DATA_SIZE \<le> length data \<and>
        from_le (bslice OFF_NODE_ID (OFF_NODE_ID + 8) data) = node_id \<and> xmax_invalid hdr)"

section \<open>A fresh version\<close>

text \<open>The current transaction sees its own work.\<close>

definition txn_ok :: "'snap pg \<Rightarrow> bool" where
  "txn_ok pg \<longleftrightarrow> CurrentTransactionId pg \<noteq> InvalidTransactionId \<and>
     IsCurrentTransactionId pg (CurrentTransactionId pg)"

definition fresh_at :: "'snap pg \<Rightarrow> nat \<Rightarrow> nat \<Rightarrow> heap_header" where
  "fresh_at pg blk off = (fresh_header pg)\<lparr>t_ctid := (of_nat blk, of_nat off)\<rparr>"

lemma fresh_visible: "txn_ok pg \<Longrightarrow> xmin_visible pg snapshot (fresh_at pg blk off) \<and> xmax_invalid (fresh_at pg blk off)"
  by (simp add: txn_ok_def xmin_visible_def xmax_invalid_def fresh_at_def fresh_header_def heap_flags)

lemma read_fresh_line:
  assumes "txn_ok pg" and "length lids \<le> MAX_LABELS_PER_NODE" and "length props \<le> PROP_INLINE_MAX"
    and "ovf \<noteq> 0 \<longrightarrow> props = []"
  shows "read_line pg snapshot \<lparr>lp_flags = LP_NORMAL,
      lp_item = Tuple (fresh_at pg blk off) (node_data node_id adj lids props ovf)\<rparr> =
    Some (node_record node_id adj lids props ovf)"
  using fresh_visible [OF assms(1), of snapshot blk off] decode_node_data [OF assms(2-4)]
  by (simp add: read_line_def hdr_size_def)

text \<open>Adding a freshly built item to an insertion page, whatever is then done to its header and data.\<close>

lemma length_item_build:
  "item_len (build_node_item_bytes_ovf pg node_id adj lids props ovf) = 42 + 4 * length lids + length props"
  by (simp add: build_node_item_bytes_ovf_def hdr_size_def NODE_FIXED_DATA_SIZE_def)

definition version_page ::
    "'snap pg \<Rightarrow> page \<Rightarrow> nat \<Rightarrow> i64 \<Rightarrow> u16 \<Rightarrow> i32 list \<Rightarrow> bytes \<Rightarrow> u32 \<Rightarrow> page" where
  "version_page pg p blk node_id adj lids props ovf =
     append_line p (Tuple (fresh_header pg) (node_data node_id adj lids props ovf))
       (Tuple (fresh_at pg blk (Suc (max_off p))) (node_data node_id adj lids props ovf))"

lemma add_version:
  assumes pg: "pg_ok pg" and ok: "node_page_ok p"
    and fit: "fits p (item_len (build_node_item_bytes_ovf pg node_id adj lids props ovf))"
  shows "\<exists>page. PageAddItemExtended pg p (build_node_item_bytes_ovf pg node_id adj lids props ovf) 0 0 =
      (page, Suc (max_off p)) \<and>
    set_ctid page blk (Suc (max_off p)) = version_page pg p blk node_id adj lids props ovf \<and>
    set_ctid (patch_adj_slot page (Suc (max_off p))) blk (Suc (max_off p)) =
      (version_page pg p blk node_id (of_nat (max_off p)) lids props ovf)
        \<lparr>pd_upper := pd_upper (version_page pg p blk node_id adj lids props ovf)\<rparr> \<and>
    node_page_ok (version_page pg p blk node_id adj lids props ovf)"
proof -
  let ?it = "build_node_item_bytes_ovf pg node_id adj lids props ovf"
  let ?page = "append_line p ?it ?it"
  have "\<forall>l \<in> set (lines p). lp_flags l \<noteq> LP_UNUSED"
    using ok by (simp add: node_page_ok_def tuple_line_def list_all_iff)
  then have add: "PageAddItemExtended pg p ?it 0 0 = (?page, Suc (max_off p))" "page_wf ?page"
    using add_item_append [OF pg _ _ fit] ok by (simp_all add: node_page_ok_def)
  have 1: "set_ctid ?page blk (Suc (max_off p)) = version_page pg p blk node_id adj lids props ovf"
    by (simp add: set_ctid_def modify_last version_page_def build_node_item_bytes_ovf_def fresh_at_def)
  have 2: "set_ctid (patch_adj_slot ?page (Suc (max_off p))) blk (Suc (max_off p)) =
      (version_page pg p blk node_id (of_nat (max_off p)) lids props ovf)
        \<lparr>pd_upper := pd_upper (version_page pg p blk node_id adj lids props ovf)\<rparr>"
    by (simp add: patch_adj_slot_def set_ctid_def modify_last build_node_item_bytes_ovf_def
        patch_node_data version_page_def fresh_at_def) (simp add: append_line_def)
  have "page_wf (version_page pg p blk node_id adj lids props ovf)"
    using add(2) unfolding version_page_def build_node_item_bytes_ovf_def by (rule wf_append_same) simp
  then have 3: "node_page_ok (version_page pg p blk node_id adj lids props ovf)"
    using ok by (simp add: node_page_ok_def version_page_def tuple_line_def)
  from add 1 2 3 show ?thesis by blast
qed

lemma version_page_upper:
  "(version_page pg p blk node_id adj' lids props ovf)
     \<lparr>pd_upper := pd_upper (version_page pg p blk node_id adj lids props ovf)\<rparr> =
   version_page pg p blk node_id adj' lids props ovf"
  by (simp add: version_page_def append_line_def)

lemma visible_version:
  assumes "txn_ok pg" and ins: "insertion_page rel blk sz" and ok: "node_rel_ok rel"
    and "length lids \<le> MAX_LABELS_PER_NODE" and "length props \<le> PROP_INLINE_MAX"
    and "ovf \<noteq> 0 \<longrightarrow> props = []"
  shows "visible pg (rel[blk := page_set_lsn (version_page pg (rel ! blk) blk node_id adj lids props ovf) lsn]) snapshot =
    visible pg rel snapshot @ [(blk, Suc (max_off (rel ! blk)), node_record node_id adj lids props ovf)]"
proof -
  let ?p = "rel ! blk"
  let ?q = "page_set_lsn (version_page pg ?p blk node_id adj lids props ovf) lsn"
  have p: "blk < length rel" "\<not> is_overflow_page ?p" "\<forall>b. blk < b \<and> b < length rel \<longrightarrow> is_overflow_page (rel ! b)"
    using ins by (auto simp: insertion_page_def)
  have "page_visible pg snapshot blk ?q (offsets ?q) =
      page_visible pg snapshot blk ?p (offsets ?p) @ line_entry pg snapshot blk (Suc (max_off ?p))
        \<lparr>lp_flags = LP_NORMAL, lp_item = Tuple (fresh_at pg blk (Suc (max_off ?p)))
          (node_data node_id adj lids props ovf)\<rparr>"
    by (rule page_visible_snoc [OF p(2)]) (simp_all add: version_page_def)
  also have "\<dots> = block_visible pg rel snapshot blk @ [(blk, Suc (max_off ?p), node_record node_id adj lids props ovf)]"
    by (simp add: line_entry_def read_fresh_line [OF assms(1,4-6)] block_visible_def)
  finally show ?thesis by (rule visible_update_last [OF p(1,3)])
qed

lemma tids_version_at:
  assumes "txn_ok pg" and p: "blk < length rel" "\<not> is_overflow_page (rel ! blk)"
  shows "\<exists>l. lp_item l = Tuple (fresh_at pg blk (Suc (max_off (rel ! blk)))) (node_data node_id adj lids props ovf) \<and>
    tids (rel[blk := page_set_lsn (version_page pg (rel ! blk) blk node_id adj lids props ovf) lsn]) =
      (tids rel)((blk, Suc (max_off (rel ! blk))) \<mapsto> l) \<and> live_line node_id l \<and>
    tids rel (blk, Suc (max_off (rel ! blk))) = None"
proof -
  let ?p = "rel ! blk"
  let ?l = "\<lparr>lp_flags = LP_NORMAL, lp_item = Tuple (fresh_at pg blk (Suc (max_off ?p)))
          (node_data node_id adj lids props ovf)\<rparr>"
  let ?q = "page_set_lsn (version_page pg ?p blk node_id adj lids props ovf) lsn"
  have "tids (rel[blk := ?q]) = (tids rel)((blk, Suc (max_off ?p)) \<mapsto> ?l)"
  proof (rule tids_update [OF p])
    show "\<not> is_overflow_page ?q" using p(2) by (simp add: is_overflow_page_def version_page_def)
    show "get_line ?q k = (if k = Suc (max_off ?p) then Some ?l else get_line ?p k)" for k
      by (rule get_line_snoc) (simp add: version_page_def)
  qed
  moreover have "live_line node_id ?l"
    using fresh_visible [OF assms(1)] by (simp add: live_line_def node_data_fields)
  moreover have "tids rel (blk, Suc (max_off ?p)) = None"
    by (simp add: tids_def get_line_def)
  ultimately show ?thesis by (intro exI [of _ ?l]) simp
qed

lemma tids_version:
  assumes "txn_ok pg" and ins: "insertion_page rel blk sz"
  shows "\<exists>l. lp_item l = Tuple (fresh_at pg blk (Suc (max_off (rel ! blk)))) (node_data node_id adj lids props ovf) \<and>
    tids (rel[blk := page_set_lsn (version_page pg (rel ! blk) blk node_id adj lids props ovf) lsn]) =
      (tids rel)((blk, Suc (max_off (rel ! blk))) \<mapsto> l) \<and> live_line node_id l \<and>
    tids rel (blk, Suc (max_off (rel ! blk))) = None"
  using assms tids_version_at [OF assms(1), of blk rel] by (simp add: insertion_page_def)

section \<open>Insert\<close>

text \<open>Every version that keeps its properties in an overflow block points at one.\<close>

definition refs_ok :: "page list \<Rightarrow> bool" where
  "refs_ok rel \<longleftrightarrow> (\<forall>t l hdr data r. tids rel t = Some l \<longrightarrow> lp_item l = Tuple hdr data \<longrightarrow>
     decode_node_data data = Some r \<longrightarrow> nr_overflow_blkno r \<noteq> 0 \<longrightarrow>
     unat (nr_overflow_blkno r) < length rel \<and> is_overflow_page (rel ! unat (nr_overflow_blkno r)))"

text \<open>Overflow blocks that are there stay as they are.\<close>

definition keeps_overflow :: "page list \<Rightarrow> page list \<Rightarrow> bool" where
  "keeps_overflow rel rel' \<longleftrightarrow> length rel \<le> length rel' \<and>
     (\<forall>b < length rel. is_overflow_page (rel ! b) \<longrightarrow> rel' ! b = rel ! b)"

lemma keeps_overflowI:
  assumes "length rel \<le> length rel'" and "\<And>b. b < length rel \<Longrightarrow> is_overflow_page (rel ! b) \<Longrightarrow> rel' ! b = rel ! b"
  shows "keeps_overflow rel rel'"
  using assms by (simp add: keeps_overflow_def)

lemma refs_ok_update:
  assumes "refs_ok rel" and "keeps_overflow rel rel'" and t: "tids rel' = (tids rel)(loc \<mapsto> l)"
    and item: "lp_item l = Tuple hdr data"
    and new: "\<And>r. decode_node_data data = Some r \<Longrightarrow> nr_overflow_blkno r \<noteq> 0 \<Longrightarrow>
      unat (nr_overflow_blkno r) < length rel' \<and> is_overflow_page (rel' ! unat (nr_overflow_blkno r))"
  shows "refs_ok rel'"
  unfolding refs_ok_def
proof (intro allI impI)
  fix u k h da r
  assume *: "tids rel' u = Some k" "lp_item k = Tuple h da" "decode_node_data da = Some r"
    "nr_overflow_blkno r \<noteq> 0"
  show "unat (nr_overflow_blkno r) < length rel' \<and> is_overflow_page (rel' ! unat (nr_overflow_blkno r))"
  proof (cases "u = loc")
    case True
    then show ?thesis using * t item new by simp
  next
    case False
    then have "tids rel u = Some k" using * t by simp
    then have "unat (nr_overflow_blkno r) < length rel \<and> is_overflow_page (rel ! unat (nr_overflow_blkno r))"
      using assms(1) *(2-4) unfolding refs_ok_def by blast
    then show ?thesis using assms(2) by (auto simp: keeps_overflow_def)
  qed
qed

text \<open>The adjacency slot number an item carries.\<close>

fun item_slot :: "item \<Rightarrow> nat" where
  "item_slot (Tuple hdr data) = unat (from_le (bslice OFF_ADJ_SLOT (OFF_ADJ_SLOT + 2) data) :: u16)"
| "item_slot (Raw bs) = 0"

text \<open>Special areas stay, and those of new pages are zero.\<close>

definition keeps_special :: "page list \<Rightarrow> page list \<Rightarrow> bool" where
  "keeps_special rel rel' \<longleftrightarrow> length rel \<le> length rel' \<and>
     (\<forall>b < length rel. special (rel' ! b) = special (rel ! b)) \<and>
     (\<forall>b. length rel \<le> b \<and> b < length rel' \<longrightarrow> set (special (rel' ! b)) \<subseteq> {0})"

lemma keeps_special_refl: "keeps_special rel rel"
  by (auto simp: keeps_special_def)

lemma keeps_special_snoc:
  assumes "keeps_special rel rel'" and "set (special p) \<subseteq> {0}"
  shows "keeps_special rel (rel' @ [p])"
  using assms by (auto simp: keeps_special_def nth_append)

lemma keeps_special_update:
  assumes "keeps_special rel rel'" and "b < length rel'" and "special q = special (rel' ! b)"
  shows "keeps_special rel (rel'[b := q])"
proof -
  have "special (rel'[b := q] ! c) = special (rel' ! c)" if "c < length rel'" for c
    using assms(2,3) that by (cases "b = c") simp_all
  then show ?thesis using assms(1) by (simp add: keeps_special_def)
qed

lemma init_page_special:
  assumes "pg_ok pg"
  shows "set (special (init_node_page pg)) \<subseteq> {0}" "special (PageInit pg 0) = []"
  using assms by (auto simp: init_node_page_def pg_ok_def pg_page_init_ok_def)

definition insert_result ::
    "'snap pg \<Rightarrow> db \<Rightarrow> i64 \<Rightarrow> i32 list \<Rightarrow> bytes \<Rightarrow> db \<Rightarrow> nat \<Rightarrow> nat \<Rightarrow> bool" where
  "insert_result pg d node_id lids props d' blk off \<longleftrightarrow>
     node_rel_ok (node_rel d') \<and> edge_rel d' = edge_rel d \<and> location_cache d' = location_cache d \<and>
     length (wal d') = Suc (length (wal d)) \<and> keeps_overflow (node_rel d) (node_rel d') \<and>
     (refs_ok (node_rel d) \<longrightarrow> refs_ok (node_rel d')) \<and> keeps_special (node_rel d) (node_rel d') \<and>
     (\<exists>l. tids (node_rel d') = (tids (node_rel d))((blk, off) \<mapsto> l) \<and> live_line node_id l \<and>
       tids (node_rel d) (blk, off) = None \<and> item_slot (lp_item l) = off - 1) \<and>
     (\<exists>r. (\<forall>snapshot. visible pg (node_rel d') snapshot = visible pg (node_rel d) snapshot @ [(blk, off, r)]) \<and>
       nr_node_id r = node_id \<and> nr_label_ids r = lids \<and> unat (nr_adj_slot_idx r) = off - 1 \<and>
       resolve_overflow (node_rel d') r = Inr (r\<lparr>nr_prop_bytes := props\<rparr>) \<and>
       (nr_overflow_blkno r = 0 \<longrightarrow> nr_prop_bytes r = props))"

lemma slot_exact: "n \<le> 2042 \<Longrightarrow> unat (of_nat n :: u16) = n"
  by (simp add: unat_of_nat take_bit_nat_eq_self)

lemma insertion_unchanged:
  assumes "insertion_page rel' blk sz" and "rel' = rel \<or> rel' = rel @ [q]"
    and "b < length rel" and "is_overflow_page (rel ! b)"
  shows "blk \<noteq> b \<and> rel' ! b = rel ! b"
proof -
  have "rel' ! b = rel ! b" using assms(2,3) by (auto simp: nth_append)
  moreover have "blk \<noteq> b" using assms(1,4) \<open>rel' ! b = rel ! b\<close> by (auto simp: insertion_page_def)
  ultimately show ?thesis by simp
qed

lemma insert_inline:
  assumes pg: "pg_ok pg" and txn: "txn_ok pg" and ok: "node_rel_ok (node_rel d)"
    and lids: "length lids \<le> MAX_LABELS_PER_NODE" and props: "length props \<le> PROP_INLINE_MAX"
  shows "\<exists>d' blk off. insert_node pg d node_id lids props = Inr (d', (blk, off)) \<and>
    insert_result pg d node_id lids props d' blk off"
proof -
  let ?it = "build_node_item_bytes_ovf pg node_id 0 lids props 0"
  obtain rel blk where f: "find_or_extend_page pg (node_rel d) (item_len ?it) = (rel, blk)" by fastforce
  have "maxalign (item_len ?it) + item_id_size \<le> 5768"
    using lids props by (simp add: length_item_build maxalign_def item_id_size_def layout_simps)
  note fs = find_or_extend_spec [OF pg ok this f]
  then have ins: "insertion_page rel blk (item_len ?it)" and rel_ok: "node_rel_ok rel" by auto
  have p: "node_page_ok (rel ! blk)" "blk < length rel" "fits (rel ! blk) (item_len ?it)"
    using ins rel_ok node_rel_node_page by (auto simp: insertion_page_def)
  let ?n = "max_off (rel ! blk)"
  obtain page where add: "PageAddItemExtended pg (rel ! blk) ?it 0 0 = (page, Suc ?n)"
    and patched: "set_ctid (patch_adj_slot page (Suc ?n)) blk (Suc ?n) =
      version_page pg (rel ! blk) blk node_id (of_nat ?n) lids props 0"
    using add_version [OF pg p(1,3), of blk] unfolding version_page_upper by blast
  let ?v = "version_page pg (rel ! blk) blk node_id (of_nat ?n) lids props 0"
  have "fits (rel ! blk) (item_len (build_node_item_bytes_ovf pg node_id (of_nat ?n) lids props 0))"
    using p(3) by (simp add: length_item_build)
  then have v_ok: "node_page_ok ?v"
    using add_version [OF pg p(1)] by blast
  let ?rel = "rel[blk := page_set_lsn ?v (Suc (length (wal d)))]"
  let ?d = "d\<lparr>node_rel := ?rel, wal := fst (log_node_insert (wal d) blk (Suc ?n) ?it None)\<rparr>"
  let ?r = "node_record node_id (of_nat ?n) lids props 0"
  have run: "insert_node pg d node_id lids props = Inr (?d, (blk, Suc ?n))"
    using lids props f add patched by (simp add: insert_node_def Let_def log_node_insert_def XLogInsert_def)
  have vis: "visible pg ?rel snapshot = visible pg (node_rel d) snapshot @ [(blk, Suc ?n, ?r)]" for snapshot
    using visible_version [OF txn ins rel_ok lids props, of 0 node_id "of_nat ?n"] fs by simp
  have slot: "unat (of_nat ?n :: u16) = ?n"
    using max_off_bound p(1) by (intro slot_exact) (simp add: node_page_ok_def)
  have "blk \<noteq> b \<and> rel ! b = node_rel d ! b"
    if "b < length (node_rel d)" "is_overflow_page (node_rel d ! b)" for b
    using insertion_unchanged [OF ins _ that] fs by blast
  then have "keeps_overflow (node_rel d) ?rel"
    using fs by (intro keeps_overflowI) auto
  moreover have "keeps_special (node_rel d) ?rel"
    using fs p(2) keeps_special_refl init_page_special(1) [OF pg]
    by (intro keeps_special_update) (auto simp: version_page_def intro!: keeps_special_snoc)
  moreover have "node_rel_ok ?rel"
    using v_ok rel_ok by (intro node_rel_ok_update) (auto simp: node_page_ok_def)
  moreover obtain l where l: "lp_item l = Tuple (fresh_at pg blk (Suc ?n)) (node_data node_id (of_nat ?n) lids props 0)"
      "tids ?rel = (tids (node_rel d))((blk, Suc ?n) \<mapsto> l) \<and> live_line node_id l \<and>
      tids (node_rel d) (blk, Suc ?n) = None"
    using tids_version [OF txn ins] fs by metis
  moreover have "refs_ok ?rel" if "refs_ok (node_rel d)"
    using l decode_node_data [OF lids props, of 0]
    by (intro refs_ok_update [OF that \<open>keeps_overflow (node_rel d) ?rel\<close>]) (auto simp: node_record_def)
  ultimately have "insert_result pg d node_id lids props ?d blk (Suc ?n)"
    using vis slot node_data_fields(2) unfolding insert_result_def
    by (auto simp: log_node_insert_def XLogInsert_def node_record_def resolve_overflow_def
        intro!: exI [of _ ?r])
  with run show ?thesis by blast
qed

lemma insert_overflow:
  assumes pg: "pg_ok pg" and txn: "txn_ok pg" and ok: "node_rel_ok (node_rel d)"
    and lids: "length lids \<le> MAX_LABELS_PER_NODE"
    and props: "PROP_INLINE_MAX < length props" "length props \<le> 8160"
    and small: "Suc (length (node_rel d)) < 2 ^ 32"
  shows "\<exists>d' blk off. insert_node pg d node_id lids props = Inr (d', (blk, off)) \<and>
    insert_result pg d node_id lids props d' blk off"
proof -
  let ?it0 = "build_node_item_bytes_ovf pg node_id 0 lids [] 0"
  obtain rel blk where f: "find_or_extend_page pg (node_rel d) (item_len ?it0) = (rel, blk)" by fastforce
  have "maxalign (item_len ?it0) + item_id_size \<le> 5768"
    using lids by (simp add: length_item_build maxalign_def item_id_size_def layout_simps)
  note fs = find_or_extend_spec [OF pg ok this f]
  then have ins: "insertion_page rel blk (item_len ?it0)" and rel_ok: "node_rel_ok rel"
    and len: "length rel \<le> Suc (length (node_rel d))" by auto
  let ?ovf = "length rel"
  have nz: "(of_nat ?ovf :: u32) \<noteq> 0" and unat_ovf: "unat (of_nat ?ovf :: u32) = ?ovf"
  proof -
    show u: "unat (of_nat ?ovf :: u32) = ?ovf"
      using len small by (simp add: unat_of_nat take_bit_nat_eq_self)
    have "0 < ?ovf" using ins by (auto simp: insertion_page_def)
    with u show "(of_nat ?ovf :: u32) \<noteq> 0" by (metis neq0_conv unat_0)
  qed
  let ?it = "build_node_item_bytes_ovf pg node_id 0 lids [] (of_nat ?ovf)"
  have p: "node_page_ok (rel ! blk)" "blk < length rel" "fits (rel ! blk) (item_len ?it)"
    using ins rel_ok node_rel_node_page by (auto simp: insertion_page_def length_item_build)
  note oi = overflow_init_ok [OF pg]
  let ?O = "append_line (PageInit pg 0) (Raw props) (Raw props)"
  have "fits (PageInit pg 0) (item_len (Raw props))"
    using props oi by (simp add: fits_def maxalign_def item_id_size_def)
  then have O: "PageAddItemExtended pg (PageInit pg 0) (Raw props) 0 0 = (?O, Suc (max_off (PageInit pg 0)))"
      "page_wf ?O"
    using add_item_append [OF pg, of "PageInit pg 0" "Raw props"] oi by (simp_all add: overflow_page_ok_def)
  let ?n = "max_off (rel ! blk)"
  obtain page where add: "PageAddItemExtended pg (rel ! blk) ?it 0 0 = (page, Suc ?n)"
    and patched: "set_ctid (patch_adj_slot page (Suc ?n)) blk (Suc ?n) =
      version_page pg (rel ! blk) blk node_id (of_nat ?n) lids [] (of_nat ?ovf)"
    using add_version [OF pg p(1,3), of blk] unfolding version_page_upper by blast
  let ?v = "version_page pg (rel ! blk) blk node_id (of_nat ?n) lids [] (of_nat ?ovf)"
  have "fits (rel ! blk) (item_len (build_node_item_bytes_ovf pg node_id (of_nat ?n) lids [] (of_nat ?ovf)))"
    using p(3) by (simp add: length_item_build)
  then have v_ok: "node_page_ok ?v"
    using add_version [OF pg p(1)] by blast
  let ?lsn = "Suc (length (wal d))"
  let ?Q = "page_set_lsn ?O ?lsn"
  let ?rel = "(rel @ [?Q])[blk := page_set_lsn ?v ?lsn]"
  let ?log = "fst (log_node_insert (wal d) blk (Suc ?n) ?it (Some (?ovf, ?O)))"
  let ?d = "d\<lparr>node_rel := ?rel, wal := ?log\<rparr>"
  let ?r = "node_record node_id (of_nat ?n) lids [] (of_nat ?ovf)"
  have run: "insert_node pg d node_id lids props = Inr (?d, (blk, Suc ?n))"
    using lids props f add patched O p(2)
    by (simp add: insert_node_def Let_def write_overflow_block_def log_node_insert_def XLogInsert_def
        nth_append list_update_append)
  have q_ok: "overflow_page_ok ?Q"
    using O(2) oi by (simp add: overflow_page_ok_def raw_line_def)
  have ins2: "insertion_page (rel @ [?Q]) blk (item_len ?it0)"
    using ins overflow_page_is [OF q_ok] by (auto simp: insertion_page_def nth_append less_Suc_eq length_item_build)
  have rel2_ok: "node_rel_ok (rel @ [?Q])" using rel_ok q_ok by (simp add: node_rel_ok_append)
  have "(rel @ [?Q]) ! blk = rel ! blk" using p(2) by (simp add: nth_append)
  then have vis: "visible pg ?rel snapshot = visible pg (node_rel d) snapshot @ [(blk, Suc ?n, ?r)]" for snapshot
    using visible_version [OF txn ins2 rel2_ok lids, of "[]" "of_nat ?ovf" node_id "of_nat ?n"] fs
      overflow_page_is [OF q_ok]
    by (simp add: visible_snoc)
  have slot: "unat (of_nat ?n :: u16) = ?n"
    using max_off_bound p(1) by (intro slot_exact) (simp add: node_page_ok_def)
  have "?rel ! b = node_rel d ! b" if "b < length (node_rel d)" "is_overflow_page (node_rel d ! b)" for b
    using insertion_unchanged [OF ins _ that] fs that by (auto simp: nth_append)
  then have "keeps_overflow (node_rel d) ?rel"
    using fs by (intro keeps_overflowI) auto
  moreover have "keeps_special (node_rel d) ?rel"
    using fs p(2) keeps_special_refl init_page_special [OF pg] \<open>(rel @ [?Q]) ! blk = rel ! blk\<close>
    by (intro keeps_special_update keeps_special_snoc) (auto simp: version_page_def intro!: keeps_special_snoc)
  moreover have "node_rel_ok ?rel"
    using v_ok rel2_ok by (intro node_rel_ok_update) (auto simp: node_page_ok_def)
  moreover have "read_overflow_block ?rel ?ovf = Inr props"
    using p(2) oi by (simp add: read_overflow_block_def get_page_def nth_append)
  moreover obtain l where l: "lp_item l = Tuple (fresh_at pg blk (Suc ?n)) (node_data node_id (of_nat ?n) lids [] (of_nat ?ovf))"
      "tids ?rel = (tids (node_rel d))((blk, Suc ?n) \<mapsto> l) \<and> live_line node_id l \<and>
      tids (node_rel d) (blk, Suc ?n) = None"
    using tids_version [OF txn ins2] fs \<open>(rel @ [?Q]) ! blk = rel ! blk\<close>
      tids_snoc_empty [of ?Q rel] overflow_page_is [OF q_ok] by metis
  moreover have "?rel ! ?ovf = ?Q" using p(2) by (simp add: nth_append)
  moreover have "refs_ok ?rel" if "refs_ok (node_rel d)"
    using l decode_node_data [OF lids, of "[]" "of_nat ?ovf"] unat_ovf \<open>?rel ! ?ovf = ?Q\<close>
      overflow_page_is [OF q_ok]
    by (intro refs_ok_update [OF that \<open>keeps_overflow (node_rel d) ?rel\<close>]) (auto simp: node_record_def)
  ultimately have "insert_result pg d node_id lids props ?d blk (Suc ?n)"
    using vis slot nz unat_ovf node_data_fields(2) unfolding insert_result_def
    by (auto simp: log_node_insert_def XLogInsert_def node_record_def resolve_overflow_def
        intro!: exI [of _ ?r])
  with run show ?thesis by blast
qed

lemma insert_node_spec:
  assumes "pg_ok pg" and "txn_ok pg" and "node_rel_ok (node_rel d)"
    and "length lids \<le> MAX_LABELS_PER_NODE" and "length props \<le> 8160"
    and "Suc (length (node_rel d)) < 2 ^ 32"
  shows "\<exists>d' blk off. insert_node pg d node_id lids props = Inr (d', (blk, off)) \<and>
    insert_result pg d node_id lids props d' blk off"
  using insert_inline [OF assms(1-4)] insert_overflow [OF assms(1-4) _ assms(5,6)]
  by (cases "length props \<le> PROP_INLINE_MAX") simp_all

section \<open>Uniqueness of live versions\<close>

definition live_at :: "page list \<Rightarrow> i64 \<Rightarrow> nat \<times> nat \<Rightarrow> bool" where
  "live_at rel node_id t \<longleftrightarrow> (\<exists>l. tids rel t = Some l \<and> live_line node_id l)"

definition unique_live :: "page list \<Rightarrow> bool" where
  "unique_live rel \<longleftrightarrow> (\<forall>node_id t t'. live_at rel node_id t \<longrightarrow> live_at rel node_id t' \<longrightarrow> t = t')"

lemma unique_liveD: "unique_live rel \<Longrightarrow> live_at rel i t \<Longrightarrow> live_at rel i t' \<Longrightarrow> t = t'"
  unfolding unique_live_def by blast

lemma read_line_live: "read_line pg snapshot l = Some r \<Longrightarrow> live_line (nr_node_id r) l"
  by (auto simp: read_line_def live_line_def decode_node_data_def Let_def hdr_size_def
      split: if_splits item.splits)

lemma set_line_entries:
  "v \<in> set (concat (map (\<lambda>i. line_entry pg snapshot blk (Suc i) (ls ! i)) [0..<length ls])) \<longleftrightarrow>
   (\<exists>off r. v = (blk, off, r) \<and> 1 \<le> off \<and> off \<le> length ls \<and> read_line pg snapshot (ls ! (off - 1)) = Some r)"
proof
  assume "v \<in> set (concat (map (\<lambda>i. line_entry pg snapshot blk (Suc i) (ls ! i)) [0..<length ls]))"
  then obtain i where "i < length ls" "v \<in> set (line_entry pg snapshot blk (Suc i) (ls ! i))" by auto
  then show "\<exists>off r. v = (blk, off, r) \<and> 1 \<le> off \<and> off \<le> length ls \<and> read_line pg snapshot (ls ! (off - 1)) = Some r"
    by (intro exI [of _ "Suc i"]) (auto simp: line_entry_def split: option.splits)
next
  assume "\<exists>off r. v = (blk, off, r) \<and> 1 \<le> off \<and> off \<le> length ls \<and> read_line pg snapshot (ls ! (off - 1)) = Some r"
  then obtain off r where v: "v = (blk, off, r)" "1 \<le> off" "off \<le> length ls"
    "read_line pg snapshot (ls ! (off - 1)) = Some r" by blast
  then have "v \<in> set (line_entry pg snapshot blk (Suc (off - 1)) (ls ! (off - 1)))" "off - 1 < length ls"
    by (auto simp: line_entry_def)
  then show "v \<in> set (concat (map (\<lambda>i. line_entry pg snapshot blk (Suc i) (ls ! i)) [0..<length ls]))"
    by force
qed

lemma in_visible:
  "(blk, off, r) \<in> set (visible pg rel snapshot) \<longleftrightarrow>
     (\<exists>l. tids rel (blk, off) = Some l \<and> read_line pg snapshot l = Some r)"
proof -
  have b: "(blk, off, r) \<in> set (block_visible pg rel snapshot b) \<longleftrightarrow> b = blk \<and> \<not> is_overflow_page (rel ! b) \<and>
      (\<exists>l. get_line (rel ! b) off = Some l \<and> read_line pg snapshot l = Some r)" for b
  proof (cases "is_overflow_page (rel ! b)")
    case True
    then show ?thesis by (simp add: block_visible_def)
  next
    case False
    then show ?thesis
      unfolding block_visible_def page_visible_lines [OF False] set_line_entries
      by (auto simp: get_line_def max_off_def)
  qed
  show ?thesis by (auto simp: visible_def b tids_def)
qed

lemma visible_live:
  assumes "(blk, off, r) \<in> set (visible pg rel snapshot)"
  shows "live_at rel (nr_node_id r) (blk, off)"
  using assms read_line_live unfolding in_visible live_at_def by blast

lemma visible_functional:
  "(blk, off, r) \<in> set (visible pg rel snapshot) \<Longrightarrow> (blk, off, r') \<in> set (visible pg rel snapshot) \<Longrightarrow> r = r'"
  by (auto simp: in_visible)

lemma visible_unique:
  assumes "unique_live rel" and "(b, k, r) \<in> set (visible pg rel snapshot)"
    and "(b', k', r') \<in> set (visible pg rel snapshot)" and "nr_node_id r = nr_node_id r'"
  shows "r = r'"
proof -
  have "(b, k) = (b', k')"
    using unique_liveD [OF assms(1) visible_live [OF assms(2)]] visible_live [OF assms(3)] assms(4) by simp
  then show ?thesis using visible_functional assms(2,3) by (metis prod.inject)
qed

lemma search_unique:
  assumes "unique_live rel" and "(b, k, r) \<in> set (visible pg rel snapshot)" and "nr_node_id r = node_id"
  shows "search rel (visible pg rel snapshot) node_id = bindE (resolve_overflow rel r) (\<lambda>r. Inr (Some r))"
proof -
  obtain r' where f: "first_some (\<lambda>v. with_id node_id (vrec v)) (visible pg rel snapshot) = Some r'"
  proof (cases "first_some (\<lambda>v. with_id node_id (vrec v)) (visible pg rel snapshot)")
    case None
    then have "with_id node_id (vrec (b, k, r)) = None"
      using assms(2) unfolding first_some_None by blast
    then show thesis using assms(3) by (simp add: with_id_def vrec_def)
  qed blast
  then obtain b' k' where "(b', k', r') \<in> set (visible pg rel snapshot)" "nr_node_id r' = node_id"
    by (force dest: first_some_in simp: with_id_def vrec_def split: if_splits)
  then have "r' = r" using visible_unique [OF assms(1)] assms(2,3) by metis
  with f show ?thesis by (simp add: search_def)
qed

lemma search_none:
  assumes "\<And>b k r. (b, k, r) \<in> set (visible pg rel snapshot) \<Longrightarrow> nr_node_id r \<noteq> node_id"
  shows "search rel (visible pg rel snapshot) node_id = Inr None"
proof -
  have "first_some (\<lambda>v. with_id node_id (vrec v)) (visible pg rel snapshot) = None"
    using assms by (fastforce simp: first_some_None with_id_def vrec_def)
  then show ?thesis by (simp add: search_def)
qed

section \<open>The location cache\<close>

lemma read_overflow_page:
  assumes "overflow_page_ok p"
  shows "read_node_at_offset pg p snapshot off = None"
proof -
  have "read_line pg snapshot l = None" if "l \<in> set (lines p)" for l
    using assms that by (auto simp: overflow_page_ok_def list_all_iff raw_line_def read_line_def)
  then show ?thesis by (auto simp: read_node_line get_line_def max_off_def split: option.splits)
qed

lemma cached_hit:
  assumes "node_rel_ok (node_rel d)" and "unique_live (node_rel d)" and "location_cache d node_id = Some (blkno, off)"
    and "blkno < length (node_rel d)"
  shows "find_node_by_id pg d node_id snapshot =
    search (node_rel d) (visible pg (node_rel d) snapshot) node_id"
proof (cases "\<exists>r. read_node_at_offset pg (node_rel d ! blkno) snapshot off = Some r \<and> nr_node_id r = node_id")
  case True
  then obtain r where r: "read_node_at_offset pg (node_rel d ! blkno) snapshot off = Some r" "nr_node_id r = node_id"
    by blast
  then have "\<not> is_overflow_page (node_rel d ! blkno)"
    using node_rel_overflow_page [OF assms(1,4)]
      read_overflow_page [of "node_rel d ! blkno" pg snapshot off] by auto
  then have "(blkno, off, r) \<in> set (visible pg (node_rel d) snapshot)"
    using r(1) assms(4) by (auto simp: in_visible tids_def read_node_line split: option.splits)
  from search_unique [OF assms(2) this r(2)] show ?thesis
    using assms(3,4) r by (cases "resolve_overflow (node_rel d) r") (simp_all add: find_node_by_id_def get_page_def)
next
  case False
  then have "(case read_node_at_offset pg (node_rel d ! blkno) snapshot off of
      Some r \<Rightarrow> (if nr_node_id r = node_id then bindE (resolve_overflow (node_rel d) r) (\<lambda>r. Inr (Some r)) else Inr None)
    | None \<Rightarrow> Inr None) = Inr None"
    by (auto split: option.splits)
  then show ?thesis
    using assms(3,4) by (simp add: find_node_by_id_def get_page_def search_def find_slow_visible)
qed

definition cache_in_range :: "db \<Rightarrow> bool" where
  "cache_in_range d \<longleftrightarrow> (\<forall>node_id blk off. location_cache d node_id = Some (blk, off) \<longrightarrow> blk < length (node_rel d))"

lemma find_search:
  assumes "node_rel_ok (node_rel d)" and "unique_live (node_rel d)" and "cache_in_range d"
  shows "find_node_by_id pg d node_id snapshot = search (node_rel d) (visible pg (node_rel d) snapshot) node_id"
proof (cases "location_cache d node_id")
  case None
  then show ?thesis by (rule find_uncached)
next
  case (Some loc)
  then obtain blk off where "location_cache d node_id = Some (blk, off)" by (cases loc) simp
  then show ?thesis using cached_hit [OF assms(1,2)] assms(3) unfolding cache_in_range_def by blast
qed

end
