(* ===== verification/NodeLifecycle.thy ===== *)
theory NodeLifecycle
  imports NodeOps
begin

text \<open>
  The life of a node: the store invariant \<open>node_store_ok\<close> (well-formed pages, at most one live
  version per id, overflow references that resolve, a location cache inside the relation) is kept
  by insert, delete and update, and lookups see exactly the effect of each.
\<close>

definition node_store_ok :: "db \<Rightarrow> bool" where
  "node_store_ok d \<longleftrightarrow> node_rel_ok (node_rel d) \<and> unique_live (node_rel d) \<and> refs_ok (node_rel d) \<and>
     cache_in_range d"

definition absent :: "db \<Rightarrow> i64 \<Rightarrow> bool" where
  "absent d node_id \<longleftrightarrow> (\<forall>t. \<not> live_at (node_rel d) node_id t)"

lemma store_find:
  "node_store_ok d \<Longrightarrow>
   find_node_by_id pg d node_id snapshot = search (node_rel d) (visible pg (node_rel d) snapshot) node_id"
  by (simp add: node_store_ok_def find_search)

lemma find_absent:
  assumes "node_store_ok d" and "absent d node_id"
  shows "find_node_by_id pg d node_id snapshot = Inr None"
  unfolding store_find [OF assms(1)]
  by (rule search_none) (use assms(2) visible_live in \<open>fastforce simp: absent_def\<close>)

lemma read_line_decode:
  "read_line pg snapshot l = Some r \<Longrightarrow> \<exists>hdr data. lp_item l = Tuple hdr data \<and> decode_node_data data = Some r"
  by (auto simp: read_line_def split: if_splits item.splits)

lemma resolve_kept:
  assumes "refs_ok rel" and "keeps_overflow rel rel'" and "(b, k, r) \<in> set (visible pg rel snapshot)"
  shows "resolve_overflow rel' r = resolve_overflow rel r"
proof (cases "nr_overflow_blkno r = 0")
  case True
  then show ?thesis by (simp add: resolve_overflow_def)
next
  case False
  obtain l hdr data where "tids rel (b, k) = Some l" "lp_item l = Tuple hdr data" "decode_node_data data = Some r"
    using assms(3) read_line_decode unfolding in_visible by blast
  with assms(1) False have "unat (nr_overflow_blkno r) < length rel" "is_overflow_page (rel ! unat (nr_overflow_blkno r))"
    unfolding refs_ok_def by blast+
  with assms(2) show ?thesis
    by (simp add: resolve_overflow_def read_overflow_block_def get_page_def keeps_overflow_def)
qed

text \<open>A lookup depends only on the visible versions with its id, up to where they are found.\<close>

lemma search_same:
  assumes "unique_live rel" and "unique_live rel'" and "refs_ok rel" and "keeps_overflow rel rel'"
    and "\<And>b k r. nr_node_id r = node_id \<Longrightarrow>
      (b, k, r) \<in> set (visible pg rel' snapshot) \<longleftrightarrow> (b, k, r) \<in> set (visible pg rel snapshot)"
  shows "search rel' (visible pg rel' snapshot) node_id = search rel (visible pg rel snapshot) node_id"
proof (cases "\<exists>b k r. (b, k, r) \<in> set (visible pg rel snapshot) \<and> nr_node_id r = node_id")
  case True
  then obtain b k r where r: "(b, k, r) \<in> set (visible pg rel snapshot)" "nr_node_id r = node_id" by blast
  then have "(b, k, r) \<in> set (visible pg rel' snapshot)" using assms(5) by blast
  then show ?thesis
    using search_unique [OF assms(1) r] search_unique [OF assms(2) _ r(2)] resolve_kept [OF assms(3,4) r(1)]
    by simp
next
  case False
  then have "search rel (visible pg rel snapshot) node_id = Inr None"
    by (intro search_none) blast
  moreover have "search rel' (visible pg rel' snapshot) node_id = Inr None"
    using False assms(5) by (intro search_none) blast
  ultimately show ?thesis by simp
qed

section \<open>Insert\<close>

lemma insert_store_ok:
  assumes "node_store_ok d" and "absent d node_id" and res: "insert_result pg d node_id lids props d' blk off"
  shows "node_store_ok d'"
proof -
  obtain l where l: "tids (node_rel d') = (tids (node_rel d))((blk, off) \<mapsto> l)" "live_line node_id l"
    using res by (auto simp: insert_result_def)
  have live: "live_at (node_rel d') i t \<Longrightarrow> live_at (node_rel d) i t \<or> (i = node_id \<and> t = (blk, off))" for i t
    using l by (auto simp: live_at_def live_line_def split: if_splits)
  have "unique_live (node_rel d')"
    unfolding unique_live_def
  proof (intro allI impI)
    fix i t t'
    assume "live_at (node_rel d') i t" "live_at (node_rel d') i t'"
    then show "t = t'"
      using live assms(1,2) unfolding node_store_ok_def unique_live_def absent_def by metis
  qed
  moreover have "cache_in_range d'"
    using assms(1) res by (fastforce simp: insert_result_def node_store_ok_def cache_in_range_def keeps_overflow_def)
  ultimately show ?thesis
    using assms(1) res by (simp add: insert_result_def node_store_ok_def)
qed

section \<open>Locating a live version\<close>

lemma live_slot_Some:
  "live_slot page node_id off = Some slot \<longleftrightarrow>
     (\<exists>l. get_line page off = Some l \<and> live_line node_id l \<and> slot = item_slot (lp_item l))"
  by (auto simp: live_slot_def live_line_def split: option.splits item.splits)

lemma live_slot_overflow: "overflow_page_ok page \<Longrightarrow> live_slot page node_id off = None"
proof (rule ccontr)
  assume ok: "overflow_page_ok page" and "live_slot page node_id off \<noteq> None"
  then obtain l where l: "get_line page off = Some l" "live_line node_id l"
    using live_slot_Some [of page node_id off] by blast
  then have "l \<in> set (lines page)" by (auto simp: get_line_def max_off_def split: if_splits)
  with ok l(2) show False by (auto simp: overflow_page_ok_def list_all_iff raw_line_def live_line_def)
qed

lemma location_sound:
  assumes "node_store_ok d" and "find_node_location d node_id = Inr (Some (blk, off, slot))"
  shows "live_at (node_rel d) node_id (blk, off) \<and> slot = item_slot (lp_item (the (tids (node_rel d) (blk, off))))"
proof -
  have hit: "live_at (node_rel d) node_id (b, k) \<and> sl = item_slot (lp_item (the (tids (node_rel d) (b, k))))"
    if "b < length (node_rel d)" "live_slot (node_rel d ! b) node_id k = Some sl" for b k sl
  proof -
    have "\<not> is_overflow_page (node_rel d ! b)"
      using node_rel_overflow_page [of "node_rel d" b] live_slot_overflow that assms(1)
      by (fastforce simp: node_store_ok_def)
    with that show ?thesis
      unfolding live_slot_Some by (auto simp: live_at_def tids_def)
  qed
  show ?thesis
  proof (cases "first_some (find_location_in_block (node_rel d) node_id) [0..<length (node_rel d)] = Some (blk, off, slot)")
    case True
    then obtain b where b: "b < length (node_rel d)"
        "find_location_in_block (node_rel d) node_id b = Some (blk, off, slot)"
      by (auto dest: first_some_in)
    then show ?thesis
      using hit [of b off slot]
      by (auto simp: find_location_in_block_def dest!: first_some_in split: if_splits)
  next
    case False
    then obtain b k where "location_cache d node_id = Some (b, k)"
        "bindE (get_page (node_rel d) b) (\<lambda>page. Inr (map_option (\<lambda>slot. (b, k, slot)) (live_slot page node_id k))) =
          Inr (Some (blk, off, slot))"
      using assms(2) by (auto simp: find_node_location_def bindE_eq_Inr split: option.splits)
    then show ?thesis
      using hit [of blk off slot] by (auto simp: get_page_def split: if_splits)
  qed
qed

lemma location_complete:
  assumes "node_store_ok d" and "live_at (node_rel d) node_id t"
  shows "find_node_location d node_id = Inr (Some (fst t, snd t, item_slot (lp_item (the (tids (node_rel d) t)))))"
proof -
  obtain b k where t: "t = (b, k)" by (cases t)
  obtain l where l: "b < length (node_rel d)" "\<not> is_overflow_page (node_rel d ! b)"
      "get_line (node_rel d ! b) k = Some l" "live_line node_id l"
    using assms(2) by (auto simp: t live_at_def tids_def split: if_splits)
  have "\<exists>loc. find_node_location d node_id = Inr (Some loc)"
  proof -
    have "k \<in> set (offsets (node_rel d ! b))"
      using l(3) by (auto simp: offsets_def get_line_def split: if_splits)
    moreover have "live_slot (node_rel d ! b) node_id k \<noteq> None"
      using l by (auto simp: live_slot_Some)
    ultimately have "find_location_in_block (node_rel d) node_id b \<noteq> None"
      using l(2) by (auto simp: find_location_in_block_def first_some_None)
    then have "first_some (find_location_in_block (node_rel d) node_id) [0..<length (node_rel d)] \<noteq> None"
      using l(1) by (auto simp: first_some_None intro!: bexI [of _ b])
    moreover have "\<exists>hit. (case location_cache d node_id of None \<Rightarrow> Inr None
        | Some (blkno, cached_off) \<Rightarrow> bindE (get_page (node_rel d) blkno) (\<lambda>page.
            Inr (map_option (\<lambda>slot. (blkno, cached_off, slot)) (live_slot page node_id cached_off)))) = Inr hit"
      using assms(1) by (auto simp: node_store_ok_def cache_in_range_def get_page_def split: option.splits)
    ultimately show ?thesis
      by (auto simp: find_node_location_def split: option.splits)
  qed
  then obtain b' k' slot where f: "find_node_location d node_id = Inr (Some (b', k', slot))" by auto
  note s = location_sound [OF assms(1) f]
  have "(b', k') = t"
    using unique_liveD [of "node_rel d" node_id "(b', k')" t] s assms by (simp add: node_store_ok_def)
  with f s show ?thesis by auto
qed

lemma location_absent:
  assumes "node_store_ok d" and "absent d node_id"
  shows "find_node_location d node_id = Inr None"
proof (cases "find_node_location d node_id")
  case (Inl e)
  then show ?thesis
    using assms(1)
    by (auto simp: find_node_location_def bindE_eq_Inl node_store_ok_def cache_in_range_def get_page_def
        split: option.splits if_splits)
next
  case (Inr loc)
  then show ?thesis
    using location_sound [OF assms(1), of node_id] assms(2)
    by (cases loc) (fastforce simp: absent_def)+
qed

section \<open>Replacing a line\<close>

lemma entries_without:
  assumes "read_line pg snapshot l' = None"
  shows "concat (map (\<lambda>i. line_entry pg snapshot blk (Suc i) (ls[k := l'] ! i)) [0..<length ls]) =
    filter (\<lambda>v. (fst v, fst (snd v)) \<noteq> (blk, Suc k))
      (concat (map (\<lambda>i. line_entry pg snapshot blk (Suc i) (ls ! i)) [0..<length ls]))"
  unfolding filter_concat map_map comp_def
proof (intro concat_map_cong)
  fix i assume "i \<in> set [0..<length ls]"
  then have "line_entry pg snapshot blk (Suc i) (ls[k := l'] ! i) =
      (if i = k then [] else line_entry pg snapshot blk (Suc i) (ls ! i))"
    using assms by (auto simp: line_entry_def nth_list_update)
  then show "line_entry pg snapshot blk (Suc i) (ls[k := l'] ! i) =
      filter (\<lambda>v. (fst v, fst (snd v)) \<noteq> (blk, Suc k)) (line_entry pg snapshot blk (Suc i) (ls ! i))"
    by (auto simp: line_entry_def split: option.splits)
qed

lemma block_visible_blk: "v \<in> set (block_visible pg rel snapshot b) \<Longrightarrow> fst v = b"
proof (cases "is_overflow_page (rel ! b)")
  case True
  then show "v \<in> set (block_visible pg rel snapshot b) \<Longrightarrow> fst v = b" by (simp add: block_visible_def)
next
  case False
  then show "v \<in> set (block_visible pg rel snapshot b) \<Longrightarrow> fst v = b"
    unfolding block_visible_def page_visible_lines [OF False] set_line_entries by auto
qed

lemma visible_hide:
  assumes "blk < length rel" and "\<not> is_overflow_page (rel ! blk)" and "1 \<le> off"
    and q: "lines q = (lines (rel ! blk))[off - 1 := l']" "pd_special q = pd_special (rel ! blk)"
    and "read_line pg snapshot l' = None"
  shows "visible pg (rel[blk := q]) snapshot =
    filter (\<lambda>v. (fst v, fst (snd v)) \<noteq> (blk, off)) (visible pg rel snapshot)"
proof -
  let ?P = "\<lambda>v :: nat \<times> nat \<times> NodeRecord. (fst v, fst (snd v)) \<noteq> (blk, off)"
  have "\<not> is_overflow_page q" using assms(2) q(2) by (simp add: is_overflow_page_def)
  then have mid: "page_visible pg snapshot blk q (offsets q) = filter ?P (block_visible pg rel snapshot blk)"
    using entries_without [OF assms(6), of blk "lines (rel ! blk)" "off - 1"] assms(3)
    by (simp add: page_visible_lines block_visible_def assms(2) q(1))
  have rest: "filter ?P (concat (map (block_visible pg rel snapshot) bs)) = concat (map (block_visible pg rel snapshot) bs)"
    if "blk \<notin> set bs" for bs
    using that by (intro filter_True) (auto dest: block_visible_blk)
  have "blk \<notin> set [0..<blk]" "blk \<notin> set [Suc blk..<length rel]" by simp_all
  note rest' = rest [OF this(1)] rest [OF this(2)]
  show ?thesis
    unfolding visible_update [OF assms(1)] visible_split [OF assms(1)] filter_append mid rest'
    by (rule refl)
qed

section \<open>Delete\<close>

definition dead_line :: "u32 \<Rightarrow> line \<Rightarrow> line" where
  "dead_line xmax l = l\<lparr>lp_item := with_header (delete_header xmax) (lp_item l)\<rparr>"

lemma delete_flag: "((m :: u16) AND NOT HEAP_XMAX_INVALID) AND HEAP_XMAX_INVALID = 0"
  by (simp add: and.assoc)

lemma delete_header_xmax: "\<not> xmax_invalid (delete_header xmax hdr)"
  using delete_flag [of "t_infomask hdr"] by (cases hdr) (simp add: xmax_invalid_def delete_header_def)

lemma dead_not_read: "read_line pg snapshot (dead_line xmax l) = None"
  by (cases "lp_item l")
    (auto simp: read_line_def dead_line_def delete_header_xmax)

lemma dead_not_live: "\<not> live_line i (dead_line xmax l)"
  by (cases "lp_item l")
    (auto simp: live_line_def dead_line_def delete_header_xmax)

lemma item_len_with_header [simp]: "item_len (with_header f it) = item_len it"
  by (cases it) simp_all

lemma mark_deleted_lines:
  "lines (mark_deleted p off xmax) = (lines p)[off - 1 := dead_line xmax (lines p ! (off - 1))]"
  "pd_special (mark_deleted p off xmax) = pd_special p"
  "page_free_space (mark_deleted p off xmax) = page_free_space p"
  "special (mark_deleted p off xmax) = special p"
  by (simp_all add: mark_deleted_def modify_item_def set_item_def dead_line_def page_free_space_def)

lemma mark_deleted_wf:
  assumes "page_wf p"
  shows "page_wf (mark_deleted p off xmax)"
proof -
  have dead: "line_storage (dead_line xmax l) = line_storage l" for l
    by (simp add: line_storage_def dead_line_def)
  have "map line_storage ((lines p)[off - 1 := dead_line xmax (lines p ! (off - 1))]) = map line_storage (lines p)"
  proof (rule nth_equalityI)
    fix i assume "i < length (map line_storage ((lines p)[off - 1 := dead_line xmax (lines p ! (off - 1))]))"
    then show "map line_storage ((lines p)[off - 1 := dead_line xmax (lines p ! (off - 1))]) ! i =
        map line_storage (lines p) ! i"
      by (cases "off - 1 = i") (simp_all add: dead)
  qed simp
  then have "storage (mark_deleted p off xmax) = storage p"
    by (simp add: storage_def mark_deleted_lines)
  then show ?thesis
    using assms by (simp add: page_wf_def mark_deleted_lines)
      (simp add: mark_deleted_def modify_item_def set_item_def)
qed

lemma mark_deleted_ok:
  assumes "node_page_ok p"
  shows "node_page_ok (mark_deleted p off xmax)"
proof -
  have "page_wf (mark_deleted p off xmax)"
    using assms mark_deleted_wf by (simp add: node_page_ok_def)
  moreover have "tuple_line (dead_line xmax (lines p ! (off - 1)))" if "off - 1 < length (lines p)"
  proof -
    have "tuple_line (lines p ! (off - 1))"
      using assms that by (auto simp: node_page_ok_def list_all_length)
    then show ?thesis by (auto simp: tuple_line_def dead_line_def)
  qed
  then have "list_all tuple_line ((lines p)[off - 1 := dead_line xmax (lines p ! (off - 1))])"
    using assms by (cases "off - 1 < length (lines p)")
      (auto simp: node_page_ok_def list_all_length nth_list_update)
  ultimately show ?thesis
    using assms by (simp add: node_page_ok_def mark_deleted_lines)
qed

lemma live_line_id: "live_line i l \<Longrightarrow> live_line j l \<Longrightarrow> i = j"
  by (auto simp: live_line_def)

lemma live_at_id: "live_at rel i t \<Longrightarrow> live_at rel j t \<Longrightarrow> i = j"
  using live_line_id by (fastforce simp: live_at_def)

text \<open>What marking the live version at \<open>(blk, off)\<close> as deleted does to the node relation.\<close>

definition mark_in :: "page list \<Rightarrow> nat \<Rightarrow> nat \<Rightarrow> u32 \<Rightarrow> nat \<Rightarrow> page list" where
  "mark_in rel blk off xmax lsn = rel[blk := page_set_lsn (mark_deleted (rel ! blk) off xmax) lsn]"

lemma tids_page:
  assumes "tids rel (blk, off) = Some l"
  shows "blk < length rel \<and> \<not> is_overflow_page (rel ! blk) \<and> 1 \<le> off \<and> off \<le> max_off (rel ! blk) \<and>
    lines (rel ! blk) ! (off - 1) = l"
  using assms by (auto simp: tids_def get_line_def split: if_splits)

lemma mark_in_tids:
  assumes "tids rel (blk, off) = Some l"
  shows "tids (mark_in rel blk off xmax lsn) = (tids rel)((blk, off) \<mapsto> dead_line xmax l)"
  unfolding mark_in_def
proof (rule tids_update)
  note t = tids_page [OF assms]
  then show "blk < length rel" "\<not> is_overflow_page (rel ! blk)" by simp_all
  show "\<not> is_overflow_page (page_set_lsn (mark_deleted (rel ! blk) off xmax) lsn)"
    using t by (simp add: is_overflow_page_def mark_deleted_lines)
  show "get_line (page_set_lsn (mark_deleted (rel ! blk) off xmax) lsn) k =
      (if k = off then Some (dead_line xmax l) else get_line (rel ! blk) k)" for k
    using t by (intro get_line_update) (auto simp: mark_deleted_lines)
qed

lemma mark_in_visible:
  assumes "tids rel (blk, off) = Some l"
  shows "visible pg (mark_in rel blk off xmax lsn) snapshot =
    filter (\<lambda>v. (fst v, fst (snd v)) \<noteq> (blk, off)) (visible pg rel snapshot)"
proof -
  note t = tids_page [OF assms]
  show ?thesis
    unfolding mark_in_def
    by (rule visible_hide [where l' = "dead_line xmax (lines (rel ! blk) ! (off - 1))"])
      (use t in \<open>simp_all add: mark_deleted_lines dead_not_read\<close>)
qed

lemma mark_in_keeps:
  assumes "tids rel (blk, off) = Some l"
  shows "keeps_overflow rel (mark_in rel blk off xmax lsn)"
  using tids_page [OF assms] by (intro keeps_overflowI) (auto simp: mark_in_def nth_list_update)

lemma dead_line_item: "lp_item l = Tuple hdr data \<Longrightarrow> lp_item (dead_line xmax l) = Tuple (delete_header xmax hdr) data"
  by (simp add: dead_line_def)

lemma mark_in_ok:
  assumes "node_rel_ok rel" and "refs_ok rel" and l: "tids rel (blk, off) = Some l" and live: "live_line node_id l"
  shows "node_rel_ok (mark_in rel blk off xmax lsn) \<and> refs_ok (mark_in rel blk off xmax lsn)"
proof
  note t = tids_page [OF l]
  have "node_page_ok (rel ! blk)" using node_rel_node_page [OF assms(1)] t by blast
  then have "node_page_ok (page_set_lsn (mark_deleted (rel ! blk) off xmax) lsn)"
    using mark_deleted_ok by (simp add: node_page_ok_def)
  then show "node_rel_ok (mark_in rel blk off xmax lsn)"
    unfolding mark_in_def by (intro node_rel_ok_update assms(1)) simp
  obtain hdr data where it: "lp_item l = Tuple hdr data"
    using live by (auto simp: live_line_def)
  show "refs_ok (mark_in rel blk off xmax lsn)"
  proof (rule refs_ok_update [OF assms(2) mark_in_keeps [OF l] mark_in_tids [OF l] dead_line_item [OF it]])
    fix r assume r: "decode_node_data data = Some r" "nr_overflow_blkno r \<noteq> 0"
    then have "unat (nr_overflow_blkno r) < length rel \<and> is_overflow_page (rel ! unat (nr_overflow_blkno r))"
      using assms(2) l it unfolding refs_ok_def by blast
    then show "unat (nr_overflow_blkno r) < length (mark_in rel blk off xmax lsn) \<and>
        is_overflow_page (mark_in rel blk off xmax lsn ! unat (nr_overflow_blkno r))"
      using mark_in_keeps [OF l, of xmax lsn] by (auto simp: keeps_overflow_def)
  qed
qed

lemma mark_in_live:
  assumes "tids rel (blk, off) = Some l"
  shows "live_at (mark_in rel blk off xmax lsn) i t \<longleftrightarrow> live_at rel i t \<and> t \<noteq> (blk, off)"
  by (auto simp: live_at_def mark_in_tids [OF assms] dead_not_live)

lemma mark_in_unique:
  assumes "unique_live rel" and "tids rel (blk, off) = Some l"
  shows "unique_live (mark_in rel blk off xmax lsn)"
  using assms(1) unfolding unique_live_def mark_in_live [OF assms(2)] by blast

lemma delete_run:
  assumes ok: "node_store_ok d" and live: "live_at (node_rel d) node_id (blk, off)"
  shows "delete_node_by_id pg d node_id =
    Inr (d\<lparr>node_rel := mark_in (node_rel d) blk off (CurrentTransactionId pg) (Suc (length (wal d))),
           wal := fst (log_node_delete (wal d) blk off (CurrentTransactionId pg))\<rparr>, True)"
proof -
  obtain l where "tids (node_rel d) (blk, off) = Some l"
    using live by (auto simp: live_at_def)
  then have "blk < length (node_rel d)" using tids_page by blast
  then show ?thesis
    using location_complete [OF ok live]
    by (simp add: delete_node_by_id_def get_page_def mark_in_def log_node_delete_def XLogInsert_def Let_def)
qed

lemma delete_correct:
  assumes ok: "node_store_ok d" and live: "live_at (node_rel d) node_id (blk, off)"
  shows "\<exists>d'. delete_node_by_id pg d node_id = Inr (d', True) \<and> node_store_ok d' \<and> absent d' node_id \<and>
    edge_rel d' = edge_rel d \<and> location_cache d' = location_cache d \<and>
    (\<forall>(pg' :: 's pg) snapshot. visible pg' (node_rel d') snapshot =
        filter (\<lambda>v. (fst v, fst (snd v)) \<noteq> (blk, off)) (visible pg' (node_rel d) snapshot)) \<and>
    (\<forall>(pg' :: 's pg) snapshot other. find_node_by_id pg' d' other snapshot =
        (if other = node_id then Inr None else find_node_by_id pg' d other snapshot))"
proof -
  let ?x = "CurrentTransactionId pg" and ?n = "Suc (length (wal d))"
  let ?rel = "mark_in (node_rel d) blk off ?x ?n"
  let ?d = "d\<lparr>node_rel := ?rel, wal := fst (log_node_delete (wal d) blk off ?x)\<rparr>"
  obtain l where l: "tids (node_rel d) (blk, off) = Some l" "live_line node_id l"
    using live by (auto simp: live_at_def)
  have parts: "node_rel_ok (node_rel d)" "unique_live (node_rel d)" "refs_ok (node_rel d)" "cache_in_range d"
    using ok by (simp_all add: node_store_ok_def)
  have ok': "node_store_ok ?d"
    using mark_in_ok [OF parts(1,3) l] mark_in_unique [OF parts(2) l(1)] parts(4)
    by (simp add: node_store_ok_def cache_in_range_def mark_in_def)
  have absent': "absent ?d node_id"
    using unique_liveD [OF parts(2) live] by (auto simp: absent_def mark_in_live [OF l(1)])
  have vis: "visible pg' (node_rel ?d) snapshot =
      filter (\<lambda>v. (fst v, fst (snd v)) \<noteq> (blk, off)) (visible pg' (node_rel d) snapshot)" for pg' :: "'s pg" and snapshot
    using mark_in_visible [OF l(1)] by simp
  have find: "find_node_by_id pg' ?d other snapshot =
      (if other = node_id then Inr None else find_node_by_id pg' d other snapshot)"
    for pg' :: "'s pg" and snapshot other
  proof (cases "other = node_id")
    case True
    then show ?thesis using find_absent [OF ok' absent'] by simp
  next
    case False
    have "search (node_rel ?d) (visible pg' (node_rel ?d) snapshot) other =
        search (node_rel d) (visible pg' (node_rel d) snapshot) other"
    proof (rule search_same)
      show "unique_live (node_rel ?d)" using ok' by (simp add: node_store_ok_def)
      show "keeps_overflow (node_rel d) (node_rel ?d)" using mark_in_keeps [OF l(1)] by simp
      fix b k and r :: NodeRecord assume r: "nr_node_id r = other"
      have "(b, k) \<noteq> (blk, off)" if "(b, k, r) \<in> set (visible pg' (node_rel d) snapshot)"
        using live_at_id [OF live] visible_live [OF that] r False by auto
      then show "(b, k, r) \<in> set (visible pg' (node_rel ?d) snapshot) \<longleftrightarrow>
          (b, k, r) \<in> set (visible pg' (node_rel d) snapshot)"
        unfolding vis by auto
    qed (use parts in simp_all)
    then show ?thesis using False by (simp only: store_find [OF ok'] store_find [OF ok] if_False)
  qed
  show ?thesis
    by (intro exI [of _ ?d] conjI allI) (use delete_run [OF ok live, of pg] ok' absent' vis find in simp_all)
qed

lemma delete_absent:
  "node_store_ok d \<Longrightarrow> absent d node_id \<Longrightarrow> delete_node_by_id pg d node_id = Inr (d, False)"
  by (simp add: delete_node_by_id_def location_absent)

section \<open>Update\<close>

lemma keeps_overflow_trans: "keeps_overflow a b \<Longrightarrow> keeps_overflow b c \<Longrightarrow> keeps_overflow a c"
  by (auto simp: keeps_overflow_def)

lemma refs_ok_same:
  assumes "refs_ok rel" and "keeps_overflow rel rel'" and "tids rel' = tids rel"
  shows "refs_ok rel'"
  unfolding refs_ok_def
proof (intro allI impI)
  fix t l hdr data r
  assume "tids rel' t = Some l" "lp_item l = Tuple hdr data" "decode_node_data data = Some r" "nr_overflow_blkno r \<noteq> 0"
  then have "unat (nr_overflow_blkno r) < length rel \<and> is_overflow_page (rel ! unat (nr_overflow_blkno r))"
    using assms(1,3) unfolding refs_ok_def by metis
  then show "unat (nr_overflow_blkno r) < length rel' \<and> is_overflow_page (rel' ! unat (nr_overflow_blkno r))"
    using assms(2) by (auto simp: keeps_overflow_def)
qed

text \<open>Adding a version with inline properties to a page that has room for it.\<close>

definition add_in ::
    "'snap pg \<Rightarrow> page list \<Rightarrow> nat \<Rightarrow> i64 \<Rightarrow> u16 \<Rightarrow> i32 list \<Rightarrow> bytes \<Rightarrow> nat \<Rightarrow> page list" where
  "add_in pg rel blk node_id adj lids props lsn =
     rel[blk := page_set_lsn (version_page pg (rel ! blk) blk node_id adj lids props 0) lsn]"

definition version_line :: "'snap pg \<Rightarrow> nat \<Rightarrow> nat \<Rightarrow> i64 \<Rightarrow> u16 \<Rightarrow> i32 list \<Rightarrow> bytes \<Rightarrow> line \<Rightarrow> bool" where
  "version_line pg blk off node_id adj lids props l \<longleftrightarrow>
     lp_item l = Tuple (fresh_at pg blk off) (node_data node_id adj lids props 0) \<and> live_line node_id l"

lemma version_line_read:
  assumes "txn_ok pg" and "length lids \<le> MAX_LABELS_PER_NODE" and "length props \<le> PROP_INLINE_MAX"
    and "version_line pg blk off node_id adj lids props l"
  shows "read_line pg snapshot l = Some (node_record node_id adj lids props 0)"
proof -
  have "l = \<lparr>lp_flags = LP_NORMAL, lp_item = Tuple (fresh_at pg blk off) (node_data node_id adj lids props 0)\<rparr>"
    using assms(4) by (cases l) (simp add: version_line_def live_line_def)
  then show ?thesis using read_fresh_line [OF assms(1-3), of 0] by simp
qed

lemma add_in_tids:
  assumes "txn_ok pg" and "blk < length rel" and "\<not> is_overflow_page (rel ! blk)"
  shows "\<exists>l. version_line pg blk (Suc (max_off (rel ! blk))) node_id adj lids props l \<and>
    tids (add_in pg rel blk node_id adj lids props lsn) = (tids rel)((blk, Suc (max_off (rel ! blk))) \<mapsto> l) \<and>
    tids rel (blk, Suc (max_off (rel ! blk))) = None"
  using tids_version_at [OF assms, of node_id adj lids props 0 lsn] by (auto simp: version_line_def add_in_def)

lemma version_page_ok:
  assumes "pg_ok pg" and "node_page_ok p" and "fits p (42 + 4 * length lids + length props)"
  shows "node_page_ok (version_page pg p blk node_id adj lids props ovf)"
proof -
  have "fits p (item_len (build_node_item_bytes_ovf pg node_id adj lids props ovf))"
    using assms(3) by (simp add: length_item_build)
  from add_version [OF assms(1,2) this, of blk] show ?thesis by blast
qed

lemma add_in_ok:
  assumes pg: "pg_ok pg" "txn_ok pg" and blk: "blk < length rel" "\<not> is_overflow_page (rel ! blk)"
    and fit: "fits (rel ! blk) (42 + 4 * length lids + length props)"
    and len: "length lids \<le> MAX_LABELS_PER_NODE" "length props \<le> PROP_INLINE_MAX"
    and rel: "node_rel_ok rel" "refs_ok rel" "unique_live rel" and new: "\<And>t. \<not> live_at rel node_id t"
  shows "node_rel_ok (add_in pg rel blk node_id adj lids props lsn)"
    and "refs_ok (add_in pg rel blk node_id adj lids props lsn)"
    and "unique_live (add_in pg rel blk node_id adj lids props lsn)"
    and "keeps_overflow rel (add_in pg rel blk node_id adj lids props lsn)"
proof -
  let ?rel = "add_in pg rel blk node_id adj lids props lsn"
  have "node_page_ok (rel ! blk)" using node_rel_node_page rel(1) blk by blast
  then have "node_page_ok (version_page pg (rel ! blk) blk node_id adj lids props 0)"
    using fit by (intro version_page_ok [OF pg(1)])
  then show "node_rel_ok ?rel"
    unfolding add_in_def by (intro node_rel_ok_update rel(1)) (simp add: node_page_ok_def)
  show keeps: "keeps_overflow rel ?rel"
  proof (rule keeps_overflowI)
    fix b assume "is_overflow_page (rel ! b)"
    with blk(2) have "blk \<noteq> b" by auto
    then show "?rel ! b = rel ! b" by (simp add: add_in_def)
  qed (simp add: add_in_def)
  obtain l where l: "version_line pg blk (Suc (max_off (rel ! blk))) node_id adj lids props l"
      "tids ?rel = (tids rel)((blk, Suc (max_off (rel ! blk))) \<mapsto> l)"
    using add_in_tids [OF pg(2) blk] by blast
  have item: "lp_item l = Tuple (fresh_at pg blk (Suc (max_off (rel ! blk)))) (node_data node_id adj lids props 0)"
    using l(1) by (simp add: version_line_def)
  show "refs_ok ?rel"
    by (rule refs_ok_update [OF rel(2) keeps l(2) item]) (simp_all add: decode_node_data [OF len] node_record_def)
  have live: "live_at ?rel i t \<longleftrightarrow> (if t = (blk, Suc (max_off (rel ! blk))) then i = node_id else live_at rel i t)" for i t
    using l live_line_id by (auto simp: live_at_def version_line_def)
  show "unique_live ?rel"
    using rel(3) new unfolding unique_live_def live by (metis (full_types))
qed

text \<open>An update marks the old version and adds the new one, to the same page or another.\<close>

lemma replace_view:
  assumes len: "length lids \<le> MAX_LABELS_PER_NODE" "length props \<le> PROP_INLINE_MAX" and txn: "txn_ok pg"
    and old: "tids rel (blk, off) = Some l" "live_line node_id l"
    and mid: "tids rel2 = (tids rel)((blk, off) \<mapsto> dead_line xmax l)"
    and blk2: "blk2 < length rel2" "\<not> is_overflow_page (rel2 ! blk2)"
  shows "\<exists>off2. (blk2, off2) \<noteq> (blk, off) \<and>
    (\<forall>snapshot b k r. (b, k, r) \<in> set (visible pg (add_in pg rel2 blk2 node_id adj lids props lsn) snapshot) \<longleftrightarrow>
      (if (b, k) = (blk2, off2) then r = node_record node_id adj lids props 0
       else (b, k) \<noteq> (blk, off) \<and> (b, k, r) \<in> set (visible pg rel snapshot))) \<and>
    (\<forall>snapshot r. (blk2, off2, r) \<notin> set (visible pg rel snapshot)) \<and>
    live_at (add_in pg rel2 blk2 node_id adj lids props lsn) node_id (blk2, off2)"
proof -
  let ?o = "Suc (max_off (rel2 ! blk2))"
  obtain n where n: "version_line pg blk2 ?o node_id adj lids props n"
      "tids (add_in pg rel2 blk2 node_id adj lids props lsn) = (tids rel2)((blk2, ?o) \<mapsto> n)"
      "tids rel2 (blk2, ?o) = None"
    using add_in_tids [OF txn blk2] by blast
  have ne: "(blk2, ?o) \<noteq> (blk, off)" "tids rel (blk2, ?o) = None"
    using n(3) by (auto simp: mid split: if_splits)
  have read: "read_line pg snapshot n = Some (node_record node_id adj lids props 0)" for snapshot
    by (rule version_line_read [OF txn len n(1)])
  have "(b, k, r) \<in> set (visible pg (add_in pg rel2 blk2 node_id adj lids props lsn) snapshot) \<longleftrightarrow>
      (if (b, k) = (blk2, ?o) then r = node_record node_id adj lids props 0
       else (b, k) \<noteq> (blk, off) \<and> (b, k, r) \<in> set (visible pg rel snapshot))" for snapshot b k r
    using ne unfolding in_visible n(2) mid by (auto simp: read dead_not_read)
  moreover have "live_at (add_in pg rel2 blk2 node_id adj lids props lsn) node_id (blk2, ?o)"
    using n by (auto simp: live_at_def version_line_def)
  ultimately show ?thesis using ne by (intro exI [of _ ?o]) (auto simp: in_visible)
qed

text \<open>The outcome of an update: a new version that replaces the old one.\<close>

definition update_result ::
    "'snap pg \<Rightarrow> db \<Rightarrow> i64 \<Rightarrow> nat \<times> nat \<Rightarrow> NodeRecord \<Rightarrow> db \<Rightarrow> nat \<times> nat \<Rightarrow> bool" where
  "update_result pg d node_id old rec d' new \<longleftrightarrow> new \<noteq> old \<and>
     (\<forall>snapshot r. (fst new, snd new, r) \<notin> set (visible pg (node_rel d) snapshot)) \<and>
     (\<forall>snapshot b k r. (b, k, r) \<in> set (visible pg (node_rel d') snapshot) \<longleftrightarrow>
        (if (b, k) = new then r = rec
         else (b, k) \<noteq> old \<and> (b, k, r) \<in> set (visible pg (node_rel d) snapshot)))"

lemma update_store:
  assumes pg: "pg_ok pg" "txn_ok pg" and ok: "node_store_ok d"
    and len: "length lids \<le> MAX_LABELS_PER_NODE" "length props \<le> PROP_INLINE_MAX"
    and old: "tids (node_rel d) (blk, off) = Some l" "live_line node_id l"
    and mid: "tids rel2 = tids (mark_in (node_rel d) blk off xmax lsn)" "node_rel_ok rel2"
      "keeps_overflow (mark_in (node_rel d) blk off xmax lsn) rel2"
    and blk2: "blk2 < length rel2" "\<not> is_overflow_page (rel2 ! blk2)"
      "fits (rel2 ! blk2) (42 + 4 * length lids + length props)"
    and d': "node_rel d' = add_in pg rel2 blk2 node_id adj lids props lsn2"
      "location_cache d' = location_cache d"
  shows "\<exists>off2. node_store_ok d' \<and> live_at (node_rel d') node_id (blk2, off2) \<and>
    update_result pg d node_id (blk, off) (node_record node_id adj lids props 0) d' (blk2, off2) \<and>
    (\<forall>snapshot. find_node_by_id pg d' node_id snapshot = Inr (Some (node_record node_id adj lids props 0))) \<and>
    (\<forall>snapshot other. other \<noteq> node_id \<longrightarrow> find_node_by_id pg d' other snapshot = find_node_by_id pg d other snapshot)"
proof -
  let ?m = "mark_in (node_rel d) blk off xmax lsn"
  have parts: "node_rel_ok (node_rel d)" "unique_live (node_rel d)" "refs_ok (node_rel d)" "cache_in_range d"
    using ok by (simp_all add: node_store_ok_def)
  have lives: "live_at rel2 i t \<longleftrightarrow> live_at ?m i t" for i t
    by (simp add: live_at_def mid(1))
  have live: "live_at (node_rel d) node_id (blk, off)" using old by (auto simp: live_at_def)
  have fresh: "\<not> live_at rel2 node_id t" for t
    using unique_liveD [OF parts(2) live] unfolding lives mark_in_live [OF old(1)] by blast
  have refs2: "refs_ok rel2"
    using mark_in_ok [OF parts(1,3) old] by (intro refs_ok_same [OF _ mid(3,1)]) blast
  have uniq2: "unique_live rel2"
    using mark_in_unique [OF parts(2) old(1)] unfolding unique_live_def lives by blast
  note added = add_in_ok [OF pg blk2 len mid(2) refs2 uniq2 fresh]
  have keeps: "keeps_overflow (node_rel d) (node_rel d')"
    unfolding d' by (rule keeps_overflow_trans [OF keeps_overflow_trans [OF mark_in_keeps [OF old(1)] mid(3)]
      added(4)])
  have ok': "node_store_ok d'"
    using added parts(4) keeps d' by (fastforce simp: node_store_ok_def cache_in_range_def keeps_overflow_def)
  obtain off2 where res: "update_result pg d node_id (blk, off) (node_record node_id adj lids props 0) d' (blk2, off2)"
    and live2: "live_at (node_rel d') node_id (blk2, off2)"
    using replace_view [OF len pg(2) old mid(1) [unfolded mark_in_tids [OF old(1)]] blk2(1,2)]
    unfolding update_result_def d'(1) fst_conv snd_conv by blast
  have found: "find_node_by_id pg d' node_id snapshot = Inr (Some (node_record node_id adj lids props 0))" for snapshot
  proof -
    have "(blk2, off2, node_record node_id adj lids props 0) \<in> set (visible pg (node_rel d') snapshot)"
      using res by (simp add: update_result_def)
    moreover have "unique_live (node_rel d')" using ok' by (simp add: node_store_ok_def)
    ultimately show ?thesis
      unfolding store_find [OF ok']
      by (subst search_unique) (auto simp: node_record_def resolve_overflow_def)
  qed
  have others: "find_node_by_id pg d' other snapshot = find_node_by_id pg d other snapshot"
    if "other \<noteq> node_id" for other snapshot
    unfolding store_find [OF ok'] store_find [OF ok]
  proof (rule search_same)
    show "unique_live (node_rel d')" using ok' by (simp add: node_store_ok_def)
    fix b k and r :: NodeRecord assume r: "nr_node_id r = other"
    have "(b, k) \<noteq> (blk, off)" if "(b, k, r) \<in> set (visible pg (node_rel d) snapshot)"
      using live_at_id [OF live] visible_live [OF that] r \<open>other \<noteq> node_id\<close> by auto
    moreover have "(b, k, r) \<notin> set (visible pg (node_rel d) snapshot)" if "(b, k) = (blk2, off2)"
      using res that by (simp add: update_result_def)
    ultimately show "(b, k, r) \<in> set (visible pg (node_rel d') snapshot) \<longleftrightarrow>
        (b, k, r) \<in> set (visible pg (node_rel d) snapshot)"
      using res r that by (auto simp: update_result_def node_record_def)
  qed (use parts keeps in simp_all)
  show ?thesis
    using ok' live2 res found others by blast
qed

definition old_slot :: "page list \<Rightarrow> nat \<times> nat \<Rightarrow> nat" where
  "old_slot rel t = item_slot (lp_item (the (tids rel t)))"

lemma free_space_set_lsn: "page_free_space (page_set_lsn p lsn) = page_free_space p"
  by (simp add: page_free_space_def page_set_lsn_def)

lemma set_lsn_self: "page_set_lsn p (pd_lsn p) = p"
  by (cases p) (simp add: page_set_lsn_def)

lemma build_inline: "build_node_item_bytes pg node_id adj lids props = build_node_item_bytes_ovf pg node_id adj lids props 0"
  by (simp add: build_node_item_bytes_def)

lemma update_same_page:
  assumes pg: "pg_ok pg" "txn_ok pg" and ok: "node_store_ok d"
    and len: "length lids \<le> MAX_LABELS_PER_NODE" "length props \<le> PROP_INLINE_MAX"
    and old: "tids (node_rel d) (blk, off) = Some l" "live_line node_id l"
    and fit: "fits (node_rel d ! blk) (42 + 4 * length lids + length props)"
  shows "\<exists>d' rel2 lsn lsn2. update_node pg d node_id lids props = Inr (d', True) \<and>
    rel2 = mark_in (node_rel d) blk off (CurrentTransactionId pg) lsn \<and>
    node_rel d' = add_in pg rel2 blk node_id (of_nat (old_slot (node_rel d) (blk, off))) lids props lsn2 \<and>
    location_cache d' = location_cache d \<and> edge_rel d' = edge_rel d"
proof -
  let ?adj = "of_nat (old_slot (node_rel d) (blk, off)) :: u16"
  let ?p = "node_rel d ! blk"
  let ?del = "mark_deleted ?p off (CurrentTransactionId pg)"
  let ?it = "build_node_item_bytes_ovf pg node_id ?adj lids props 0"
  have live: "live_at (node_rel d) node_id (blk, off)" using old by (auto simp: live_at_def)
  note t = tids_page [OF old(1)]
  have p_ok: "node_page_ok ?p"
    using node_rel_node_page t ok by (auto simp: node_store_ok_def)
  have del_ok: "node_page_ok ?del" by (rule mark_deleted_ok [OF p_ok])
  have "fits ?del (item_len ?it)"
    using fit by (simp add: fits_def mark_deleted_lines length_item_build)
  then obtain page where add: "PageAddItemExtended pg ?del ?it 0 0 = (page, Suc (max_off ?del))"
    and page: "set_ctid page blk (Suc (max_off ?del)) = version_page pg ?del blk node_id ?adj lids props 0"
    using add_version [OF pg(1) del_ok] by metis
  let ?rel2 = "mark_in (node_rel d) blk off (CurrentTransactionId pg) (pd_lsn ?del)"
  have rel2: "?rel2 = (node_rel d)[blk := ?del]" by (simp add: mark_in_def set_lsn_self)
  have "\<not> page_free_space ?p < maxalign (item_len ?it) + item_id_size"
    using fit by (simp add: fits_def length_item_build)
  then have "\<exists>lsn2 log. update_node pg d node_id lids props =
      Inr (d\<lparr>node_rel := (node_rel d)[blk := page_set_lsn (version_page pg ?del blk node_id ?adj lids props 0) lsn2],
             wal := log\<rparr>, True)"
    using location_complete [OF ok live] len t add page
    by (simp add: update_node_def get_page_def build_inline old_slot_def Let_def case_prod_beta
        log_node_delete_def log_node_insert_def XLogInsert_def) (rule exI, rule exI, rule refl)
  moreover have "add_in pg ?rel2 blk node_id ?adj lids props lsn2 =
      (node_rel d)[blk := page_set_lsn (version_page pg ?del blk node_id ?adj lids props 0) lsn2]" for lsn2
    using t by (simp add: add_in_def rel2)
  ultimately obtain lsn2 log where "update_node pg d node_id lids props =
      Inr (d\<lparr>node_rel := add_in pg ?rel2 blk node_id ?adj lids props lsn2, wal := log\<rparr>, True)"
    by auto
  then show ?thesis
    by (intro exI [of _ "d\<lparr>node_rel := add_in pg ?rel2 blk node_id ?adj lids props lsn2, wal := log\<rparr>"]
        exI [of _ ?rel2] exI [of _ "pd_lsn ?del"] exI [of _ lsn2]) simp
qed

lemma update_other_page:
  assumes pg: "pg_ok pg" "txn_ok pg" and ok: "node_store_ok d"
    and len: "length lids \<le> MAX_LABELS_PER_NODE" "length props \<le> PROP_INLINE_MAX"
    and old: "tids (node_rel d) (blk, off) = Some l" "live_line node_id l"
    and fit: "\<not> fits (node_rel d ! blk) (42 + 4 * length lids + length props)"
  shows "\<exists>d' rel2 blk2 lsn lsn2. update_node pg d node_id lids props = Inr (d', True) \<and>
    tids rel2 = tids (mark_in (node_rel d) blk off (CurrentTransactionId pg) lsn) \<and> node_rel_ok rel2 \<and>
    keeps_overflow (mark_in (node_rel d) blk off (CurrentTransactionId pg) lsn) rel2 \<and>
    insertion_page rel2 blk2 (42 + 4 * length lids + length props) \<and>
    node_rel d' = add_in pg rel2 blk2 node_id (of_nat (old_slot (node_rel d) (blk, off))) lids props lsn2 \<and>
    location_cache d' = location_cache d \<and> edge_rel d' = edge_rel d"
proof -
  let ?adj = "of_nat (old_slot (node_rel d) (blk, off)) :: u16"
  let ?x = "CurrentTransactionId pg"
  let ?p = "node_rel d ! blk"
  let ?it = "build_node_item_bytes_ovf pg node_id ?adj lids props 0"
  let ?lsn = "Suc (length (wal d))"
  let ?m = "mark_in (node_rel d) blk off ?x ?lsn"
  have live: "live_at (node_rel d) node_id (blk, off)" using old by (auto simp: live_at_def)
  note t = tids_page [OF old(1)]
  have m_ok: "node_rel_ok ?m"
    using mark_in_ok [OF _ _ old] ok by (simp add: node_store_ok_def)
  obtain rel2 blk2 where f: "find_or_extend_page pg ?m (item_len ?it) = (rel2, blk2)" by fastforce
  have size: "maxalign (item_len ?it) + item_id_size \<le> 5768"
    using len by (simp add: length_item_build maxalign_def item_id_size_def layout_simps)
  note fs = find_or_extend_spec [OF pg(1) m_ok size f]
  then have b2: "blk2 < length rel2" "\<not> is_overflow_page (rel2 ! blk2)" "fits (rel2 ! blk2) (item_len ?it)"
    by (auto simp: insertion_page_def)
  have keeps: "keeps_overflow ?m rel2"
    using fs by (intro keeps_overflowI) (auto simp: nth_append)
  have "node_page_ok (rel2 ! blk2)" using node_rel_node_page b2 fs by blast
  then obtain page where add: "PageAddItemExtended pg (rel2 ! blk2) ?it 0 0 = (page, Suc (max_off (rel2 ! blk2)))"
    and page: "set_ctid page blk2 (Suc (max_off (rel2 ! blk2))) =
      version_page pg (rel2 ! blk2) blk2 node_id ?adj lids props 0"
    using add_version [OF pg(1) _ b2(3)] by metis
  have f': "find_or_extend_page pg ((node_rel d)[blk := page_set_lsn (mark_deleted ?p off ?x) ?lsn]) (item_len ?it) =
      (rel2, blk2)"
    using f by (simp add: mark_in_def)
  have "page_free_space ?p < maxalign (item_len ?it) + item_id_size"
    using fit by (simp add: fits_def length_item_build)
  then have "\<exists>lsn2 log. update_node pg d node_id lids props =
      Inr (d\<lparr>node_rel := add_in pg rel2 blk2 node_id ?adj lids props lsn2, wal := log\<rparr>, True)"
    using location_complete [OF ok live] len t add page f'
    by (simp add: update_node_def get_page_def build_inline old_slot_def Let_def case_prod_beta
        log_node_delete_def XLogInsert_def add_in_def) (rule exI, rule exI, rule refl)
  then obtain lsn2 log where "update_node pg d node_id lids props =
      Inr (d\<lparr>node_rel := add_in pg rel2 blk2 node_id ?adj lids props lsn2, wal := log\<rparr>, True)" by blast
  with fs keeps show ?thesis
    by (intro exI [of _ "d\<lparr>node_rel := add_in pg rel2 blk2 node_id ?adj lids props lsn2, wal := log\<rparr>"]
        exI [of _ rel2] exI [of _ blk2] exI [of _ ?lsn] exI [of _ lsn2]) (simp add: length_item_build)
qed

lemma update_correct:
  assumes pg: "pg_ok pg" "txn_ok pg" and ok: "node_store_ok d"
    and len: "length lids \<le> MAX_LABELS_PER_NODE" "length props \<le> PROP_INLINE_MAX"
    and live: "live_at (node_rel d) node_id (blk, off)"
  shows "\<exists>d' t. update_node pg d node_id lids props = Inr (d', True) \<and>
    node_store_ok d' \<and> live_at (node_rel d') node_id t \<and> edge_rel d' = edge_rel d \<and>
    update_result pg d node_id (blk, off)
      (node_record node_id (of_nat (old_slot (node_rel d) (blk, off))) lids props 0) d' t \<and>
    (\<forall>snapshot. find_node_by_id pg d' node_id snapshot =
      Inr (Some (node_record node_id (of_nat (old_slot (node_rel d) (blk, off))) lids props 0))) \<and>
    (\<forall>snapshot other. other \<noteq> node_id \<longrightarrow> find_node_by_id pg d' other snapshot = find_node_by_id pg d other snapshot)"
proof -
  obtain l where old: "tids (node_rel d) (blk, off) = Some l" "live_line node_id l"
    using live by (auto simp: live_at_def)
  show ?thesis
  proof (cases "fits (node_rel d ! blk) (42 + 4 * length lids + length props)")
    case True
    obtain d' lsn lsn2 where u: "update_node pg d node_id lids props = Inr (d', True)"
        "node_rel d' = add_in pg (mark_in (node_rel d) blk off (CurrentTransactionId pg) lsn) blk node_id
          (of_nat (old_slot (node_rel d) (blk, off))) lids props lsn2"
        "location_cache d' = location_cache d" "edge_rel d' = edge_rel d"
      using update_same_page [OF pg ok len old True] by blast
    let ?m = "mark_in (node_rel d) blk off (CurrentTransactionId pg) lsn"
    have m: "node_rel_ok ?m" "keeps_overflow ?m ?m"
      using mark_in_ok [OF _ _ old] ok by (simp_all add: node_store_ok_def keeps_overflow_def)
    have blk: "blk < length ?m" "\<not> is_overflow_page (?m ! blk)" "fits (?m ! blk) (42 + 4 * length lids + length props)"
      using tids_page [OF old(1)] True
      by (simp_all add: mark_in_def is_overflow_page_def mark_deleted_lines fits_def free_space_set_lsn)
    from update_store [OF pg ok len old refl m blk u(2,3)] u(1,4) show ?thesis by blast
  next
    case False
    obtain d' rel2 blk2 lsn lsn2 where u: "update_node pg d node_id lids props = Inr (d', True)"
        "tids rel2 = tids (mark_in (node_rel d) blk off (CurrentTransactionId pg) lsn)" "node_rel_ok rel2"
        "keeps_overflow (mark_in (node_rel d) blk off (CurrentTransactionId pg) lsn) rel2"
        "insertion_page rel2 blk2 (42 + 4 * length lids + length props)"
        "node_rel d' = add_in pg rel2 blk2 node_id (of_nat (old_slot (node_rel d) (blk, off))) lids props lsn2"
        "location_cache d' = location_cache d" "edge_rel d' = edge_rel d"
      using update_other_page [OF pg ok len old False] by blast
    have blk2: "blk2 < length rel2" "\<not> is_overflow_page (rel2 ! blk2)"
        "fits (rel2 ! blk2) (42 + 4 * length lids + length props)"
      using u(5) by (auto simp: insertion_page_def)
    from update_store [OF pg ok len old u(2,3,4) blk2 u(6,7)] u(1,8) show ?thesis by blast
  qed
qed

section \<open>The properties\<close>

text \<open>The examples: an empty store, and the same after one insert, under the reference primitives.\<close>

definition empty_db :: db where
  "empty_db = \<lparr>node_rel = [], edge_rel = [], wal = [], location_cache = Map.empty\<rparr>"

definition demo_db :: db where
  "demo_db = (case insert_node ref_pg empty_db 7 [1, 2] [42] of Inr (d, t) \<Rightarrow> d | Inl e \<Rightarrow> empty_db)"

lemma txn_ok_ref: "txn_ok ref_pg"
  by (simp add: txn_ok_def ref_pg_def InvalidTransactionId_def)

lemma empty_db_ok: "node_store_ok empty_db" "absent empty_db node_id" "Suc (length (node_rel empty_db)) < 2 ^ 32"
  by (simp_all add: node_store_ok_def empty_db_def node_rel_ok_def unique_live_def live_at_def tids_def refs_ok_def
      cache_in_range_def absent_def)

lemma demo_db_ok: "node_store_ok demo_db \<and> (\<exists>blk off. live_at (node_rel demo_db) 7 (blk, off))"
proof -
  obtain blk off where run: "insert_node ref_pg empty_db 7 [1, 2] [42] = Inr (demo_db, (blk, off))"
    and res: "insert_result ref_pg empty_db 7 [1, 2] [42] demo_db blk off"
    using insert_node_spec [OF pg_ok_ref txn_ok_ref, of empty_db "[1, 2]" "[42]" 7] empty_db_ok
    by (auto simp: demo_db_def node_store_ok_def layout_simps)
  have "live_at (node_rel demo_db) 7 (blk, off)"
    using res by (auto simp: insert_result_def live_at_def)
  then show ?thesis using insert_store_ok [OF _ _ res] empty_db_ok by blast
qed

text \<open>
  C5. A node that is inserted is there: on a well-formed store without that id (up to 32 labels, up
  to 8160 property bytes, so inline or in an overflow block) \<open>insert_node\<close> succeeds, keeps the store
  invariant, appends one version to every scan, and from then on a lookup by the inserting
  transaction finds the id with its labels and full properties, while lookups of all other ids
  give what they gave before.
\<close>

theorem insert_node_correct:
  assumes "pg_ok pg" and "txn_ok pg" and "node_store_ok d" and "absent d node_id"
    and "length lids \<le> MAX_LABELS_PER_NODE" and "length props \<le> 8160"
    and "Suc (length (node_rel d)) < 2 ^ 32"
  shows "\<exists>d' blk off. insert_node pg d node_id lids props = Inr (d', (blk, off)) \<and> node_store_ok d' \<and>
    (\<forall>snapshot.
      (\<exists>r. visible pg (node_rel d') snapshot = visible pg (node_rel d) snapshot @ [(blk, off, r)]) \<and>
      (\<exists>r. find_node_by_id pg d' node_id snapshot = Inr (Some r) \<and> nr_node_id r = node_id \<and>
        nr_label_ids r = lids \<and> nr_prop_bytes r = props) \<and>
      (\<forall>other. other \<noteq> node_id \<longrightarrow>
        find_node_by_id pg d' other snapshot = find_node_by_id pg d other snapshot))"
proof -
  obtain d' blk off where run: "insert_node pg d node_id lids props = Inr (d', (blk, off))"
    and res: "insert_result pg d node_id lids props d' blk off"
    using insert_node_spec [OF assms(1,2) _ assms(5-7), of node_id] assms(3) by (auto simp: node_store_ok_def)
  have ok: "node_store_ok d'" by (rule insert_store_ok [OF assms(3,4) res])
  obtain r where vis: "visible pg (node_rel d') snapshot = visible pg (node_rel d) snapshot @ [(blk, off, r)]"
      and r: "nr_node_id r = node_id" "nr_label_ids r = lids"
      "resolve_overflow (node_rel d') r = Inr (r\<lparr>nr_prop_bytes := props\<rparr>)" for snapshot
    using res by (auto simp: insert_result_def)
  have found: "find_node_by_id pg d' node_id snapshot = Inr (Some (r\<lparr>nr_prop_bytes := props\<rparr>))" for snapshot
    unfolding store_find [OF ok] using ok r vis
    by (subst search_unique [of _ blk off r]) (simp_all add: node_store_ok_def)
  have "find_node_by_id pg d' other snapshot = find_node_by_id pg d other snapshot"
    if "other \<noteq> node_id" for other snapshot
    unfolding store_find [OF ok] store_find [OF assms(3)]
    using ok assms(3) res vis r(1) that
    by (intro search_same) (auto simp: node_store_ok_def insert_result_def)
  with run ok vis found r show ?thesis by (intro exI [of _ d'] exI [of _ blk] exI [of _ off]) auto
qed

theorem insert_node_correct_witness:
  "\<exists>d' blk off. insert_node ref_pg empty_db 7 [1, 2] [42] = Inr (d', (blk, off)) \<and> node_store_ok d' \<and>
    (\<exists>r. find_node_by_id ref_pg d' 7 None = Inr (Some r) \<and> nr_label_ids r = [1, 2] \<and> nr_prop_bytes r = [42])"
proof -
  have "length [1, 2 :: i32] \<le> MAX_LABELS_PER_NODE" "length [42 :: u8] \<le> 8160"
    by (simp_all add: layout_simps)
  from insert_node_correct [OF pg_ok_ref txn_ok_ref empty_db_ok(1,2) this empty_db_ok(3), of 7]
  show ?thesis by blast
qed

text \<open>
  C32. Deleting a node: on a well-formed store an absent id changes nothing and gives \<open>False\<close>; a live
  one gives \<open>True\<close>, keeps the store invariant, and takes exactly its one version out of every view:
  lookups of the id find nothing, all others what they found before. That holds for the view of
  every transaction and snapshot \<open>pg'\<close>, whether or not the deleter commits: a version is gone as
  soon as its \<open>HEAP_XMAX_INVALID\<close> bit is cleared, so also after the deleting transaction aborts.
\<close>

theorem delete_node_correct:
  fixes pg' :: "'s pg"
  assumes "node_store_ok d"
  shows "(absent d node_id \<longrightarrow> delete_node_by_id pg d node_id = Inr (d, False)) \<and>
    (\<forall>blk off. live_at (node_rel d) node_id (blk, off) \<longrightarrow>
      (\<exists>d'. delete_node_by_id pg d node_id = Inr (d', True) \<and> node_store_ok d' \<and> absent d' node_id \<and>
        (\<forall>snapshot. visible pg' (node_rel d') snapshot =
          filter (\<lambda>v. (fst v, fst (snd v)) \<noteq> (blk, off)) (visible pg' (node_rel d) snapshot)) \<and>
        (\<forall>snapshot other. find_node_by_id pg' d' other snapshot =
          (if other = node_id then Inr None else find_node_by_id pg' d other snapshot))))"
proof (intro conjI impI allI)
  show "delete_node_by_id pg d node_id = Inr (d, False)" if "absent d node_id"
    using delete_absent [OF assms that] .
next
  fix blk off assume live: "live_at (node_rel d) node_id (blk, off)"
  from delete_correct [OF assms live, where pg = pg and 's = 's]
  show "\<exists>d'. delete_node_by_id pg d node_id = Inr (d', True) \<and> node_store_ok d' \<and> absent d' node_id \<and>
        (\<forall>snapshot. visible pg' (node_rel d') snapshot =
          filter (\<lambda>v. (fst v, fst (snd v)) \<noteq> (blk, off)) (visible pg' (node_rel d) snapshot)) \<and>
        (\<forall>snapshot other. find_node_by_id pg' d' other snapshot =
          (if other = node_id then Inr None else find_node_by_id pg' d other snapshot))"
    by (elim exE conjE) (intro exI conjI, assumption+, simp_all)
qed

theorem delete_node_correct_witness:
  "\<exists>d'. delete_node_by_id ref_pg demo_db 7 = Inr (d', True) \<and> absent d' 7 \<and>
    find_node_by_id ref_pg d' 7 None = Inr None"
proof -
  obtain blk off where "live_at (node_rel demo_db) 7 (blk, off)" using demo_db_ok by blast
  with delete_node_correct [of demo_db 7 ref_pg ref_pg] demo_db_ok
  obtain d' where "delete_node_by_id ref_pg demo_db 7 = Inr (d', True)" "absent d' 7"
      "\<forall>snapshot other. find_node_by_id ref_pg d' other snapshot =
        (if other = 7 then Inr None else find_node_by_id ref_pg demo_db other snapshot)"
    by blast
  then show ?thesis by (intro exI [of _ d']) simp
qed

text \<open>
  C7. Updating a node (up to 32 labels, inline properties): on a well-formed store the live version
  is replaced by one new version, on the same page where it fits and on another one otherwise; the
  store invariant holds again, lookups of the id give the new labels and properties with the old
  version's adjacency slot number, and lookups of all other ids are unchanged.
\<close>

theorem update_node_correct:
  assumes "pg_ok pg" and "txn_ok pg" and "node_store_ok d" and "live_at (node_rel d) node_id (blk, off)"
    and "length lids \<le> MAX_LABELS_PER_NODE" and "length props \<le> PROP_INLINE_MAX"
  shows "\<exists>d' t r. update_node pg d node_id lids props = Inr (d', True) \<and> node_store_ok d' \<and>
    r = node_record node_id (of_nat (old_slot (node_rel d) (blk, off))) lids props 0 \<and>
    live_at (node_rel d') node_id t \<and> update_result pg d node_id (blk, off) r d' t \<and>
    (\<forall>snapshot. find_node_by_id pg d' node_id snapshot = Inr (Some r)) \<and>
    (\<forall>snapshot other. other \<noteq> node_id \<longrightarrow> find_node_by_id pg d' other snapshot = find_node_by_id pg d other snapshot)"
  using update_correct [OF assms(1-3,5,6,4)] by blast

theorem update_node_correct_witness:
  "\<exists>d' r. update_node ref_pg demo_db 7 [3] [43, 44] = Inr (d', True) \<and>
    find_node_by_id ref_pg d' 7 None = Inr (Some r) \<and> nr_label_ids r = [3] \<and> nr_prop_bytes r = [43, 44]"
proof -
  obtain blk off where live: "live_at (node_rel demo_db) 7 (blk, off)" using demo_db_ok by blast
  have "length [3 :: i32] \<le> MAX_LABELS_PER_NODE" "length [43, 44 :: u8] \<le> PROP_INLINE_MAX"
    by (simp_all add: layout_simps)
  from update_node_correct [OF pg_ok_ref txn_ok_ref conjunct1 [OF demo_db_ok] live this]
  show ?thesis by (elim exE conjE) (auto simp: node_record_def)
qed



end
