(* ===== verification/EdgeFacts.thy ===== *)
theory EdgeFacts
  imports EdgeStore NodeLifecycle
begin

text \<open>
  Facts about the edge relation on its own: the item codec, the map from item pointers to lines, the
  adjacency chains as an inductive relation, and the traversal as the walk along such a chain. The
  invariant \<open>edge_rel_ok\<close> makes every chain pointer lead to an older edge, so every chain ends.
\<close>

section \<open>The item codec\<close>

lemma length_edge_data [simp]:
  "length props \<le> PROP_INLINE_MAX \<Longrightarrow>
   length (edge_data eid ty src tgt op os ip ii props) = EDGE_FIXED_DATA_SIZE + PROP_INLINE_MAX"
  by (simp add: edge_data_def Let_def layout_simps)

lemma edge_data_fields:
  fixes eid ty src tgt op os ip ii props
  assumes "length props \<le> PROP_INLINE_MAX"
  defines "data \<equiv> edge_data eid ty src tgt op os ip ii props"
  shows "bslice 0 8 data = to_le 8 eid" "bslice 8 12 data = to_le 4 ty" "bslice 12 20 data = to_le 8 src"
    "bslice 20 28 data = to_le 8 tgt" "bslice 28 32 data = to_le 4 op" "bslice 32 34 data = to_le 2 os"
    "bslice 34 38 data = to_le 4 ip" "bslice 38 40 data = to_le 2 ii"
    "bslice 40 42 data = to_le 2 (of_nat (length props) :: u16)"
    "bslice 46 (46 + length props) data = props"
  using assms(1) unfolding data_def edge_data_def Let_def
  by (simp_all add: layout_simps slice_simps) (simp add: bslice_def)

definition edge_record ::
    "i64 \<Rightarrow> i32 \<Rightarrow> i64 \<Rightarrow> i64 \<Rightarrow> u32 \<Rightarrow> u16 \<Rightarrow> u32 \<Rightarrow> u16 \<Rightarrow> bytes \<Rightarrow> nat \<Rightarrow> nat \<Rightarrow> EdgeRecord" where
  "edge_record eid ty src tgt op os ip ii props blk off =
     \<lparr>er_edge_id = eid, er_rel_type_id = ty, er_source_node_id = src, er_target_node_id = tgt,
      er_prop_bytes = props, er_block_num = blk, er_offset_num = off, er_next_out_page = op,
      er_next_out_slot = os, er_next_in_page = ip, er_next_in_slot = ii\<rparr>"

lemma decode_edge_data:
  assumes "length props \<le> PROP_INLINE_MAX"
    and "n = length (edge_data eid ty src tgt op os ip ii props)"
  shows "decode_edge_record (edge_data eid ty src tgt op os ip ii props) n blk off =
    Some (edge_record eid ty src tgt op os ip ii props blk off)"
proof -
  have "unat (of_nat (length props) :: u16) = length props"
    using assms(1) by (simp add: layout_simps unat_of_nat take_bit_nat_eq_self)
  then show ?thesis
    using edge_data_fields [OF assms(1)] assms
    by (simp add: decode_edge_record_def Let_def layout_simps edge_record_def)
qed

lemma chain_next_edge_data:
  assumes "length props \<le> PROP_INLINE_MAX"
  shows "chain_next o' (edge_data eid ty src tgt op os ip ii props) = (if o' then (op, os) else (ip, ii))"
  using edge_data_fields [OF assms] by (simp add: chain_next_def layout_simps)

lemma replace_props_fields:
  assumes "EDGE_FIXED_DATA_SIZE \<le> length data" and "length props \<le> length data - EDGE_FIXED_DATA_SIZE"
    and "length props < 2 ^ 16"
  shows "length (replace_props props data) = length data"
    "b \<le> 40 \<Longrightarrow> bslice a b (replace_props props data) = bslice a b data"
    "bslice 40 42 (replace_props props data) = to_le 2 (of_nat (length props) :: u16)"
    "bslice 46 (46 + length props) (replace_props props data) = props"
  using assms unfolding replace_props_def Let_def
  by (simp_all add: layout_simps slice_simps) (simp add: bslice_def)

lemma replace_props_next:
  assumes "EDGE_FIXED_DATA_SIZE \<le> length data" and "length props \<le> length data - EDGE_FIXED_DATA_SIZE"
    and "length props < 2 ^ 16"
  shows "chain_next o' (replace_props props data) = chain_next o' data"
  by (simp add: chain_next_def replace_props_fields [OF assms] layout_simps)

section \<open>Lines of the edge relation\<close>

definition elines :: "page list \<Rightarrow> nat \<times> nat \<Rightarrow> line option" where
  "elines rel = (\<lambda>(blk, off). if blk < length rel then get_line (rel ! blk) off else None)"

definition edge_line :: "line \<Rightarrow> bool" where
  "edge_line l \<longleftrightarrow> lp_flags l \<in> {LP_NORMAL, LP_DEAD} \<and>
     (\<exists>hdr data. lp_item l = Tuple hdr data \<and> length data = EDGE_FIXED_DATA_SIZE + PROP_INLINE_MAX)"

definition edge_page_ok :: "page \<Rightarrow> bool" where
  "edge_page_ok p \<longleftrightarrow> page_wf p \<and> pd_special p = BLCKSZ \<and> list_all edge_line (lines p)"

text \<open>A line's two chain pointers.\<close>

definition links :: "bool \<Rightarrow> line \<Rightarrow> u32 \<times> u16" where
  "links o' l = (case lp_item l of Tuple hdr data \<Rightarrow> chain_next o' data | Raw bs \<Rightarrow> (0, 0))"

definition loc_of :: "u32 \<times> u16 \<Rightarrow> nat \<times> nat" where
  "loc_of p = (unat (fst p), unat (snd p))"

definition loc_less :: "nat \<times> nat \<Rightarrow> nat \<times> nat \<Rightarrow> bool" where
  "loc_less s t \<longleftrightarrow> fst s < fst t \<or> fst s = fst t \<and> snd s < snd t"

definition ptr_ok :: "page list \<Rightarrow> u32 \<times> u16 \<Rightarrow> bool" where
  "ptr_ok rel p \<longleftrightarrow> snd p = 0 \<or> elines rel (loc_of p) \<noteq> None"

definition links_ok :: "page list \<Rightarrow> bool" where
  "links_ok rel \<longleftrightarrow> (\<forall>t l o'. elines rel t = Some l \<longrightarrow>
     snd (links o' l) = 0 \<or> elines rel (loc_of (links o' l)) \<noteq> None \<and> loc_less (loc_of (links o' l)) t)"

definition edge_rel_ok :: "page list \<Rightarrow> bool" where
  "edge_rel_ok rel \<longleftrightarrow> list_all edge_page_ok rel \<and> links_ok rel"

lemma elines_page: "elines rel (b, k) = Some l \<Longrightarrow>
  b < length rel \<and> 1 \<le> k \<and> k \<le> max_off (rel ! b) \<and> lines (rel ! b) ! (k - 1) = l"
  by (auto simp: elines_def get_line_def split: if_splits)

lemma elines_line:
  assumes "list_all edge_page_ok rel" and "elines rel t = Some l"
  shows "edge_line l"
proof -
  obtain b k where "t = (b, k)" by (cases t)
  then show ?thesis
    using elines_page [of rel b k l] assms
    by (fastforce simp: list_all_length edge_page_ok_def max_off_def)
qed

lemma elines_update:
  assumes "b < length rel" and "\<And>k. get_line q k = (if k = off then Some l else get_line (rel ! b) k)"
  shows "elines (rel[b := q]) = (elines rel)((b, off) \<mapsto> l)"
  using assms by (auto simp: elines_def fun_eq_iff nth_list_update)

lemma elines_snoc_empty:
  assumes "lines p = []"
  shows "elines (rel @ [p]) = elines rel"
proof
  fix t :: "nat \<times> nat"
  obtain b k where "t = (b, k)" by (cases t)
  then show "elines (rel @ [p]) t = elines rel t"
    using assms by (auto simp: elines_def nth_append less_Suc_eq get_line_def max_off_def)
qed

text \<open>All locations, in scan order.\<close>

definition locs :: "page list \<Rightarrow> (nat \<times> nat) list" where
  "locs rel = concat (map (\<lambda>b. map (Pair b) (offsets (rel ! b))) [0..<length rel])"

lemma locs_snoc: "locs (rel @ [p]) = locs rel @ map (Pair (length rel)) (offsets p)"
proof -
  have "concat (map (\<lambda>b. map (Pair b) (offsets ((rel @ [p]) ! b))) [0..<length rel]) = locs rel"
    unfolding locs_def by (intro concat_map_cong) (simp add: nth_append)
  then show ?thesis by (simp add: locs_def)
qed

lemma in_locs: "t \<in> set (locs rel) \<longleftrightarrow> elines rel t \<noteq> None"
proof (cases t)
  case (Pair b k)
  have off: "k \<in> set (offsets p) \<longleftrightarrow> 1 \<le> k \<and> k \<le> max_off p" for p by (auto simp: offsets_def)
  have "(b, k) \<in> set (locs rel) \<longleftrightarrow> b < length rel \<and> k \<in> set (offsets (rel ! b))" by (auto simp: locs_def)
  then show ?thesis by (simp add: Pair off elines_def get_line_def)
qed

lemma locs_update:
  assumes "max_off q = max_off (rel ! b)"
  shows "locs (rel[b := q]) = locs rel"
proof -
  have "offsets (rel[b := q] ! c) = offsets (rel ! c)" if "c < length rel" for c
    using that assms by (cases "b = c") (simp_all add: offsets_def)
  then show ?thesis unfolding locs_def by (intro arg_cong [of _ _ concat] map_cong) auto
qed

lemma locs_last:
  assumes "rel \<noteq> []" and "b = length rel - 1" and "max_off q = Suc (max_off (rel ! b))"
  shows "locs (rel[b := q]) = locs rel @ [(b, max_off q)]"
proof -
  have rel: "rel = butlast rel @ [last rel]" and b: "b = length (butlast rel)" using assms(1,2) by simp_all
  have last: "rel ! b = last rel" using assms(1,2) by (simp add: last_conv_nth)
  have "rel[b := q] = butlast rel @ [q]"
    using list_update_length [of "butlast rel" "last rel" "[]" q] assms(1) by (simp add: b)
  then have "locs (rel[b := q]) = locs (butlast rel) @ map (Pair b) (offsets q)" by (simp only: locs_snoc b)
  moreover have "locs rel = locs (butlast rel) @ map (Pair b) (offsets (last rel))" by (subst rel) (simp only: locs_snoc b)
  ultimately show ?thesis using assms(3) last by (simp add: offsets_def)
qed

lemma loc_less_wf: "wfp loc_less"
proof -
  have "{(s, t). loc_less s t} = less_than <*lex*> less_than"
    by (auto simp: loc_less_def)
  then show ?thesis by (simp add: wfp_def wf_lex_prod)
qed

section \<open>Chains\<close>

inductive chain :: "page list \<Rightarrow> bool \<Rightarrow> u32 \<times> u16 \<Rightarrow> (nat \<times> nat) list \<Rightarrow> bool" for rel o' where
  chain_end: "chain rel o' (pg, 0) []"
| chain_step: "snd p \<noteq> 0 \<Longrightarrow> elines rel (loc_of p) = Some l \<Longrightarrow> chain rel o' (links o' l) ts \<Longrightarrow>
    chain rel o' p (loc_of p # ts)"

inductive_cases chain_NilE: "chain rel o' p []"
inductive_cases chain_ConsE: "chain rel o' p (t # ts)"

lemma chain_zero: "snd p = 0 \<Longrightarrow> chain rel o' p ts \<longleftrightarrow> ts = []"
  by (cases p) (auto intro: chain_end elim: chain.cases)

lemma chain_unique: "chain rel o' p ts \<Longrightarrow> chain rel o' p ts' \<Longrightarrow> ts' = ts"
proof (induction arbitrary: ts' rule: chain.induct)
  case (chain_end pg)
  then show ?case by (simp add: chain_zero)
next
  case (chain_step p l ts)
  from chain_step.prems show ?case
  proof (cases rule: chain.cases)
    case (chain_end pg)
    then show ?thesis using chain_step.hyps(1) by simp
  next
    case (chain_step l' us)
    then have "l' = l" using chain_step.hyps(2) by simp
    then show ?thesis using chain_step chain_step.IH by simp
  qed
qed

text \<open>Every pointer into a well-formed edge relation starts a chain.\<close>

lemma chain_from:
  assumes "links_ok rel" and "elines rel t = Some l" and "snd p \<noteq> 0" and "loc_of p = t"
  shows "\<exists>ts. chain rel o' p ts"
  using assms(2-4)
proof (induction t arbitrary: p l rule: wfp_induct_rule [OF loc_less_wf])
  case (1 t)
  have "\<exists>ts. chain rel o' (links o' l) ts"
  proof (cases "snd (links o' l) = 0")
    case True
    then show ?thesis by (simp add: chain_zero)
  next
    case False
    then obtain l' where "elines rel (loc_of (links o' l)) = Some l'" "loc_less (loc_of (links o' l)) t"
      using assms(1) 1(2) unfolding links_ok_def by blast
    then show ?thesis using 1(1) False by blast
  qed
  then show ?case using 1 chain_step by blast
qed

lemma chain_exists:
  assumes "links_ok rel" and "ptr_ok rel p"
  shows "\<exists>ts. chain rel o' p ts"
proof (cases "snd p = 0")
  case True
  then show ?thesis by (simp add: chain_zero)
next
  case False
  then obtain l where "elines rel (loc_of p) = Some l" using assms(2) by (auto simp: ptr_ok_def)
  from chain_from [OF assms(1) this False refl] show ?thesis .
qed

lemma chain_lines: "chain rel o' p ts \<Longrightarrow> t \<in> set ts \<Longrightarrow> elines rel t \<noteq> None"
  by (induction rule: chain.induct) auto

text \<open>A chain stays when its lines keep their pointers.\<close>

lemma chain_kept:
  assumes "chain rel o' p ts"
    and "\<And>t l. elines rel t = Some l \<Longrightarrow> \<exists>l'. elines rel' t = Some l' \<and> links o' l' = links o' l"
  shows "chain rel' o' p ts"
  using assms(1)
proof (induction rule: chain.induct)
  case (chain_end pg)
  show ?case by (rule chain.chain_end)
next
  case (chain_step p l ts)
  obtain l' where "elines rel' (loc_of p) = Some l'" "links o' l' = links o' l"
    using assms(2) [OF chain_step(2)] by blast
  then show ?case using chain_step chain.chain_step [of p rel' l' o' ts] by simp
qed

section \<open>The traversal is the walk along the chain\<close>

definition line_recs :: "i32 option \<Rightarrow> nat \<times> nat \<Rightarrow> line \<Rightarrow> EdgeRecord list" where
  "line_recs filt t l = (case lp_item l of
       Raw bs \<Rightarrow> []
     | Tuple hdr data \<Rightarrow>
         (if xmax_invalid hdr \<and> lp_flags l = LP_NORMAL
          then (case decode_edge_record data (length data) (fst t) (snd t) of
                  Some rec \<Rightarrow> (if passes_filter filt rec then [rec] else [])
                | None \<Rightarrow> [])
          else []))"

definition walk :: "page list \<Rightarrow> i32 option \<Rightarrow> (nat \<times> nat) list \<Rightarrow> EdgeRecord list" where
  "walk rel filt ts = concat (map (\<lambda>t. line_recs filt t (the (elines rel t))) ts)"

lemma chain_slot_line:
  assumes "edge_line l"
  shows "chain_slot o' filt l b k = Some (links o' l, line_recs filt (b, k) l)"
  using assms by (auto simp: chain_slot_def edge_line_def links_def line_recs_def hdr_size_def)

lemma follow_chain_walk:
  assumes "list_all edge_page_ok rel" and "chain rel o' p ts"
  shows "follow_chain rel (fst p) (snd p) o' filt acc = Some (Inr (acc @ walk rel filt ts))"
  using assms(2)
proof (induction arbitrary: acc rule: chain.induct)
  case (chain_end pg)
  show ?case by (subst follow_chain.simps) (simp add: walk_def)
next
  case (chain_step p l ts)
  have l: "edge_line l" by (rule elines_line [OF assms(1) chain_step(2)])
  have loc: "unat (fst p) < length rel" "get_line (rel ! unat (fst p)) (unat (snd p)) = Some l"
    using chain_step(2) by (auto simp: elines_def loc_of_def split: if_splits)
  have "follow_chain rel (fst p) (snd p) o' filt acc =
      follow_chain rel (fst (links o' l)) (snd (links o' l)) o' filt (acc @ line_recs filt (loc_of p) l)"
    by (subst follow_chain.simps)
      (use chain_step(1) loc in \<open>simp add: get_page_def chain_slot_line [OF l] loc_of_def case_prod_beta\<close>)
  also have "\<dots> = Some (Inr (acc @ walk rel filt (loc_of p # ts)))"
    unfolding chain_step.IH using chain_step(2) by (simp add: walk_def)
  finally show ?case .
qed

lemma passes_None [simp]: "passes_filter None r = True"
  by (simp add: passes_filter_def)

lemma line_recs_filter: "line_recs filt t l = filter (passes_filter filt) (line_recs None t l)"
proof (cases "lp_item l")
  case (Tuple hdr data)
  show ?thesis
  proof (cases "decode_edge_record data (length data) (fst t) (snd t)")
    case None
    have "line_recs f t l = []" for f
      unfolding line_recs_def Tuple by (simp only: item.case None option.case if_cancel)
    then show ?thesis by (simp only: filter.simps)
  next
    case (Some a)
    have "line_recs f t l = (if xmax_invalid hdr \<and> lp_flags l = LP_NORMAL then (if passes_filter f a then [a] else []) else [])" for f
      unfolding line_recs_def Tuple by (simp only: item.case Some option.case)
    then show ?thesis by (simp only: filter.simps passes_None if_True split: if_split) blast
  qed
next
  case (Raw bs)
  have "line_recs f t l = []" for f
    unfolding line_recs_def Raw by (simp only: item.case)
  then show ?thesis by (simp only: filter.simps)
qed

lemma walk_filter: "walk rel filt ts = filter (passes_filter filt) (walk rel None ts)"
  unfolding walk_def filter_concat map_map comp_def
  by (intro arg_cong [of _ _ concat] map_cong refl line_recs_filter)

section \<open>Removing duplicates\<close>

lemma dedup_set: "set (map er_edge_id (dedup seen es)) = set (map er_edge_id es) - set seen"
  by (induction seen es rule: dedup.induct) auto

lemma dedup_distinct: "distinct (map er_edge_id (dedup seen es))"
proof (induction seen es rule: dedup.induct)
  case (2 seen e es)
  then show ?case using dedup_set [of "er_edge_id e # seen" es] by auto
qed simp

lemma dedup_subset: "set (dedup seen es) \<subseteq> set es"
  by (induction seen es rule: dedup.induct) auto

end
