(* ===== verification/EdgeOps.thy ===== *)
theory EdgeOps
  imports EdgeFacts
begin

text \<open>
  The graph invariant over both relations, and what the edge operations do to the adjacency lists:
  \<open>insert_edge\<close> puts the new edge at the head of two lists, \<open>delete_edge\<close> takes one edge out of
  every list, \<open>update_edge_props\<close> changes an edge in place, and nothing else changes.
\<close>

section \<open>Node relations that differ in headers only\<close>

definition same_items :: "page list \<Rightarrow> page list \<Rightarrow> bool" where
  "same_items rel rel' \<longleftrightarrow> length rel' = length rel \<and> (\<forall>b < length rel.
     lines (rel' ! b) = lines (rel ! b) \<and> pd_special (rel' ! b) = pd_special (rel ! b) \<and>
     pd_lower (rel' ! b) = pd_lower (rel ! b) \<and> pd_upper (rel' ! b) = pd_upper (rel ! b) \<and>
     length (special (rel' ! b)) = length (special (rel ! b)))"

lemma same_items_refl: "same_items rel rel"
  by (simp add: same_items_def)

lemma same_items_trans: "same_items a b \<Longrightarrow> same_items b c \<Longrightarrow> same_items a c"
  by (simp add: same_items_def)

lemma same_items_overflow: "same_items rel rel' \<Longrightarrow> b < length rel \<Longrightarrow> is_overflow_page (rel' ! b) = is_overflow_page (rel ! b)"
  by (simp add: same_items_def is_overflow_page_def)

lemma same_items_tids:
  assumes "same_items rel rel'"
  shows "tids rel' = tids rel"
proof
  fix t :: "nat \<times> nat"
  obtain b k where "t = (b, k)" by (cases t)
  then show "tids rel' t = tids rel t"
    using assms same_items_overflow [OF assms, of b]
    by (auto simp: tids_def same_items_def get_line_def max_off_def)
qed

lemma same_items_node_rel_ok:
  assumes "same_items rel rel'" and "node_rel_ok rel"
  shows "node_rel_ok rel'"
  using assms
  by (simp add: node_rel_ok_def list_all_length same_items_def node_page_ok_def overflow_page_ok_def page_wf_def
      storage_def)

lemma same_items_live: "same_items rel rel' \<Longrightarrow> live_at rel' i t = live_at rel i t"
  by (simp add: live_at_def same_items_tids)

lemma same_items_store:
  assumes "same_items (node_rel d) (node_rel d')" and "location_cache d' = location_cache d" and "node_store_ok d"
  shows "node_store_ok d'"
proof -
  have "refs_ok (node_rel d')"
    unfolding refs_ok_def same_items_tids [OF assms(1)]
  proof (intro allI impI)
    fix t l hdr data r
    assume *: "tids (node_rel d) t = Some l" "lp_item l = Tuple hdr data" "decode_node_data data = Some r"
      "nr_overflow_blkno r \<noteq> 0"
    then have "unat (nr_overflow_blkno r) < length (node_rel d) \<and> is_overflow_page (node_rel d ! unat (nr_overflow_blkno r))"
      using assms(3) unfolding node_store_ok_def refs_ok_def by blast
    then show "unat (nr_overflow_blkno r) < length (node_rel d') \<and> is_overflow_page (node_rel d' ! unat (nr_overflow_blkno r))"
      using same_items_overflow [OF assms(1)] assms(1) by (simp add: same_items_def)
  qed
  moreover have "unique_live (node_rel d')"
    using assms(3) by (simp add: node_store_ok_def unique_live_def same_items_live [OF assms(1)])
  moreover have "cache_in_range d'"
    using assms by (simp add: node_store_ok_def cache_in_range_def same_items_def)
  ultimately show ?thesis
    using same_items_node_rel_ok [OF assms(1)] assms(3) by (simp add: node_store_ok_def)
qed

lemma location_same:
  assumes "node_store_ok d" and "node_store_ok d'" and "tids (node_rel d') = tids (node_rel d)"
  shows "find_node_location d' i = find_node_location d i"
proof (cases "absent d i")
  case True
  moreover from this have "absent d' i" using assms(3) by (simp add: absent_def live_at_def)
  ultimately show ?thesis using location_absent assms(1,2) by simp
next
  case False
  then obtain t where t: "live_at (node_rel d) i t" by (auto simp: absent_def)
  then have "live_at (node_rel d') i t" using assms(3) by (simp add: live_at_def)
  then show ?thesis
    using location_complete [OF assms(1) t] location_complete [OF assms(2)] assms(3) by simp
qed

section \<open>Adjacency headers of the node relation\<close>

definition header_at :: "page list \<Rightarrow> nat \<times> nat \<Rightarrow> store_error + NodeAdjHeader" where
  "header_at rel x = bindE (get_page rel (fst x)) (\<lambda>page. read_adj_header page (snd x))"

definition in_special :: "page list \<Rightarrow> nat \<times> nat \<Rightarrow> bool" where
  "in_special rel x \<longleftrightarrow> fst x < length rel \<and> snd x * 24 + 24 \<le> length (special (rel ! fst x))"

lemma header_at_eq:
  "header_at rel x =
     (if fst x < length rel then
        (if in_special rel x
         then Inr (NodeAdjHeader (bslice (snd x * 24) (snd x * 24 + 24) (special (rel ! fst x))))
         else Inl (OutOfPage (snd x)))
      else Inl (ReadBeyondEnd (fst x)))"
  by (simp add: header_at_def get_page_def read_adj_header_def in_special_def layout_simps Let_def)

lemma header_wf: "header_at rel x = Inr h \<Longrightarrow> adj_wf h"
  by (auto simp: header_at_eq in_special_def adj_wf_def layout_simps slice_simps split: if_splits)

lemma header_in_special: "header_at rel x = Inr h \<Longrightarrow> in_special rel x"
  by (auto simp: header_at_eq split: if_splits)

definition put_header :: "page list \<Rightarrow> nat \<times> nat \<Rightarrow> NodeAdjHeader \<Rightarrow> page list" where
  "put_header rel x h = rel[fst x := write_adj_header (rel ! fst x) (snd x) h]"

definition put_lsn :: "page list \<Rightarrow> nat \<Rightarrow> nat \<Rightarrow> page list" where
  "put_lsn rel b lsn = rel[b := page_set_lsn (rel ! b) lsn]"

lemma same_items_put_header:
  assumes "in_special rel x" and "adj_wf h"
  shows "same_items rel (put_header rel x h)"
  using assms by (auto simp: same_items_def put_header_def write_adj_header_def in_special_def adj_wf_def
      layout_simps nth_list_update)

lemma same_items_put_lsn: "same_items rel (put_lsn rel b lsn)"
proof -
  have "lines (rel[b := page_set_lsn (rel ! b) lsn] ! c) = lines (rel ! c) \<and>
      pd_special (rel[b := page_set_lsn (rel ! b) lsn] ! c) = pd_special (rel ! c) \<and>
      pd_lower (rel[b := page_set_lsn (rel ! b) lsn] ! c) = pd_lower (rel ! c) \<and>
      pd_upper (rel[b := page_set_lsn (rel ! b) lsn] ! c) = pd_upper (rel ! c) \<and>
      length (special (rel[b := page_set_lsn (rel ! b) lsn] ! c)) = length (special (rel ! c))"
    if "c < length rel" for c
    using that by (cases "b = c") (simp_all add: page_set_lsn_def)
  then show ?thesis by (simp add: same_items_def put_lsn_def)
qed

lemma in_special_same: "same_items rel rel' \<Longrightarrow> in_special rel' x = in_special rel x"
  by (auto simp: same_items_def in_special_def)

lemma header_put_lsn: "header_at (put_lsn rel b lsn) x = header_at rel x"
proof -
  have "special (rel[b := page_set_lsn (rel ! b) lsn] ! c) = special (rel ! c)" if "c < length rel" for c
    using that by (cases "b = c") simp_all
  then show ?thesis by (simp add: header_at_eq in_special_def put_lsn_def)
qed

lemma header_put:
  assumes x: "in_special rel x" and h: "adj_wf h"
  shows "header_at (put_header rel x h) y = (if y = x then Inr h else header_at rel y)"
proof -
  have len: "length (adj_bytes h) = 24" using h by (simp add: adj_wf_def layout_simps)
  have s: "special (put_header rel x h ! fst x) = splice (snd x * 24) (adj_bytes h) (special (rel ! fst x))"
    using x by (simp add: put_header_def write_adj_header_def in_special_def layout_simps)
  have sp: "in_special (put_header rel x h) y = in_special rel y"
    by (rule in_special_same [OF same_items_put_header [OF x h]])
  consider "y = x" | "fst y \<noteq> fst x" | "fst y = fst x" "snd y < snd x" | "fst y = fst x" "snd x < snd y"
    by (metis linorder_less_linear prod_eqI)
  then show ?thesis
  proof cases
    case 1
    then show ?thesis
      using x sp s len
      by (simp add: header_at_eq slice_simps in_special_def put_header_def)
  next
    case 2
    then have "put_header rel x h ! fst y = rel ! fst y" by (simp add: put_header_def)
    then show ?thesis using 2 by (auto simp: header_at_eq in_special_def put_header_def)
  next
    case 3
    then have "bslice (snd y * 24) (snd y * 24 + 24) (special (put_header rel x h ! fst y)) =
        bslice (snd y * 24) (snd y * 24 + 24) (special (rel ! fst y))"
      using x len by (simp add: s slice_splice_before in_special_def)
    then show ?thesis using 3 sp x by (auto simp: header_at_eq in_special_def put_header_def)
  next
    case 4
    then have "bslice (snd y * 24) (snd y * 24 + 24) (special (put_header rel x h ! fst y)) =
        bslice (snd y * 24) (snd y * 24 + 24) (special (rel ! fst y))"
      using x len by (simp add: s slice_splice_after in_special_def)
    then show ?thesis using 4 sp x by (auto simp: header_at_eq in_special_def put_header_def)
  qed
qed

section \<open>The graph invariant\<close>

definition out_head :: "NodeAdjHeader \<Rightarrow> u32 \<times> u16" where
  "out_head h = (out_head_pg h, out_head_sl h)"

definition in_head :: "NodeAdjHeader \<Rightarrow> u32 \<times> u16" where
  "in_head h = (in_head_pg h, in_head_sl h)"

definition heads_ok :: "db \<Rightarrow> bool" where
  "heads_ok d \<longleftrightarrow> (\<forall>x h. header_at (node_rel d) x = Inr h \<longrightarrow>
     ptr_ok (edge_rel d) (out_head h) \<and> ptr_ok (edge_rel d) (in_head h))"

text \<open>No two live nodes of a page share an adjacency slot.\<close>

definition slots_distinct :: "page list \<Rightarrow> bool" where
  "slots_distinct rel \<longleftrightarrow> (\<forall>i j t t'. live_at rel i t \<longrightarrow> live_at rel j t' \<longrightarrow> fst t = fst t' \<longrightarrow>
     old_slot rel t = old_slot rel t' \<longrightarrow> t = t')"

text \<open>
  The slot of a live node belongs to one of the page's items, and slots that belong to none head
  empty lists.
\<close>

definition slots_used :: "page list \<Rightarrow> bool" where
  "slots_used rel \<longleftrightarrow> (\<forall>i t. live_at rel i t \<longrightarrow> tids rel (fst t, Suc (old_slot rel t)) \<noteq> None)"

definition unused_empty :: "page list \<Rightarrow> bool" where
  "unused_empty rel \<longleftrightarrow> (\<forall>x h. header_at rel x = Inr h \<longrightarrow> tids rel (fst x, Suc (snd x)) = None \<longrightarrow>
     snd (out_head h) = 0 \<and> snd (in_head h) = 0)"

definition graph_ok :: "db \<Rightarrow> bool" where
  "graph_ok d \<longleftrightarrow> node_store_ok d \<and> edge_rel_ok (edge_rel d) \<and> heads_ok d \<and>
     slots_distinct (node_rel d) \<and> slots_used (node_rel d) \<and> unused_empty (node_rel d)"

lemma graph_okD:
  assumes "graph_ok d"
  shows "node_store_ok d" "edge_rel_ok (edge_rel d)" "heads_ok d" "slots_distinct (node_rel d)"
    "slots_used (node_rel d)" "unused_empty (node_rel d)" "unique_live (node_rel d)"
    "list_all edge_page_ok (edge_rel d)" "links_ok (edge_rel d)"
  using assms by (simp_all add: graph_ok_def node_store_ok_def edge_rel_ok_def)

text \<open>Where a live node's adjacency header is.\<close>

definition slot_of :: "page list \<Rightarrow> nat \<times> nat \<Rightarrow> nat \<times> nat" where
  "slot_of rel t = (fst t, old_slot rel t)"

lemma live_in_special:
  assumes "node_store_ok d" and "live_at (node_rel d) i t" and "old_slot (node_rel d) t < MAX_NODE_SLOTS_PER_PAGE"
  shows "in_special (node_rel d) (slot_of (node_rel d) t)"
proof -
  obtain l where l: "tids (node_rel d) (fst t, snd t) = Some l" using assms(2) by (auto simp: live_at_def)
  note p = tids_page [OF l]
  then have "node_page_ok (node_rel d ! fst t)"
    using node_rel_node_page assms(1) by (auto simp: node_store_ok_def)
  then have "length (special (node_rel d ! fst t)) = 2400"
    by (simp add: node_page_ok_def page_wf_def layout_simps)
  then show ?thesis using p assms(3) by (simp add: in_special_def slot_of_def layout_simps)
qed

lemma live_location:
  "node_store_ok d \<Longrightarrow> live_at (node_rel d) i t \<Longrightarrow>
   find_node_location d i = Inr (Some (fst t, snd t, old_slot (node_rel d) t))"
  by (simp add: location_complete old_slot_def)

definition directed :: "Direction \<Rightarrow> EdgeRecord list \<Rightarrow> EdgeRecord list \<Rightarrow> EdgeRecord list" where
  "directed dir outs ins = (case dir of Out \<Rightarrow> outs | In \<Rightarrow> ins | Both \<Rightarrow> dedup [] (outs @ ins))"

lemma follow_live:
  assumes "graph_ok d" and "live_at (node_rel d) i t" and "header_at (node_rel d) (slot_of (node_rel d) t) = Inr h"
    and "chain (edge_rel d) True (out_head h) ts" and "chain (edge_rel d) False (in_head h) ts'"
  shows "adjacency_follow d i dir filt =
    Some (Inr (directed dir (walk (edge_rel d) filt ts) (walk (edge_rel d) filt ts')))"
proof -
  have e: "list_all edge_page_ok (edge_rel d)" using assms(1) by (simp add: graph_ok_def edge_rel_ok_def)
  note outs = follow_chain_walk [OF e assms(4), unfolded out_head_def fst_conv snd_conv]
  note ins = follow_chain_walk [OF e assms(5), unfolded in_head_def fst_conv snd_conv]
  have loc: "find_node_location d i = Inr (Some (fst t, snd t, old_slot (node_rel d) t))"
    using live_location assms(1,2) by (simp add: graph_ok_def)
  have h: "bindE (get_page (node_rel d) (fst t)) (\<lambda>page. read_adj_header page (old_slot (node_rel d) t)) = Inr h"
    using assms(3) by (simp add: header_at_def slot_of_def)
  show ?thesis
    unfolding adjacency_follow_def
    by (cases dir) (simp_all add: loc h outs ins bindOE_def directed_def)
qed

lemma follow_absent:
  "graph_ok d \<Longrightarrow> absent d i \<Longrightarrow> adjacency_follow d i dir filt = Some (Inr [])"
  by (simp add: adjacency_follow_def graph_ok_def location_absent)

lemma follow_no_header:
  assumes "graph_ok d" and "live_at (node_rel d) i t" and "header_at (node_rel d) (slot_of (node_rel d) t) = Inl e"
  shows "adjacency_follow d i dir filt = Some (Inl e)"
proof -
  have "find_node_location d i = Inr (Some (fst t, snd t, old_slot (node_rel d) t))"
    using live_location assms(1,2) by (simp add: graph_ok_def)
  then show ?thesis
    using assms(3) by (simp add: adjacency_follow_def bindOE_def header_at_def slot_of_def)
qed

lemma heads_chains:
  assumes "graph_ok d" and "header_at (node_rel d) x = Inr h"
  shows "\<exists>ts ts'. chain (edge_rel d) True (out_head h) ts \<and> chain (edge_rel d) False (in_head h) ts'"
proof -
  have "links_ok (edge_rel d)" "ptr_ok (edge_rel d) (out_head h)" "ptr_ok (edge_rel d) (in_head h)"
    using assms unfolding graph_ok_def edge_rel_ok_def heads_ok_def by blast+
  then show ?thesis using chain_exists by meson
qed

end
