(* ===== verification/EdgeInsert.thy ===== *)
theory EdgeInsert
  imports EdgeOps
begin

text \<open>
  \<open>insert_edge\<close>: the edge item is appended to the edge relation with the two old chain heads as its
  next pointers, and the two adjacency headers are made to point at it. The adjacency lists of the
  source (outgoing) and of the target (incoming) gain the edge at their front; all others stay.
\<close>

section \<open>The edge page\<close>

text \<open>The location behind all others.\<close>

definition behind :: "page list \<Rightarrow> nat \<times> nat \<Rightarrow> bool" where
  "behind rel x \<longleftrightarrow> (\<forall>t l. elines rel t = Some l \<longrightarrow> loc_less t x)"

lemma find_or_extend_edge_spec:
  assumes pg: "pg_ok pg" and ok: "list_all edge_page_ok rel" and size: "maxalign n + item_id_size \<le> 8168"
    and f: "find_or_extend_edge_page pg rel n = (rel', b)"
  shows "list_all edge_page_ok rel' \<and> elines rel' = elines rel \<and> b < length rel' \<and> length rel' \<le> Suc (length rel) \<and>
    fits (rel' ! b) n \<and> behind rel (b, Suc (max_off (rel' ! b))) \<and> b = length rel' - 1 \<and> locs rel' = locs rel"
proof (cases "rel \<noteq> [] \<and> page_free_space (rel ! (length rel - 1)) \<ge> maxalign n + item_id_size")
  case True
  then have r: "rel' = rel" "b = length rel - 1"
    using f by (auto simp: find_or_extend_edge_page_def)
  have "loc_less t (length rel - 1, Suc (max_off (rel ! (length rel - 1))))" if "elines rel t = Some l" for t l
  proof -
    obtain b k where t: "t = (b, k)" by (cases t)
    with elines_page that have "b < length rel" "k \<le> max_off (rel ! b)" by blast+
    then show ?thesis by (cases "b = length rel - 1") (auto simp: t loc_less_def)
  qed
  then have "behind rel (length rel - 1, Suc (max_off (rel ! (length rel - 1))))" by (simp add: behind_def)
  then show ?thesis using r ok True by (simp add: fits_def)
next
  case False
  then have r: "rel' = rel @ [init_edge_page pg]" "b = length rel"
    using f by (auto simp: find_or_extend_edge_page_def)
  have init: "page_wf (init_edge_page pg) \<and> pd_special (init_edge_page pg) = BLCKSZ \<and> lines (init_edge_page pg) = [] \<and>
      page_free_space (init_edge_page pg) = 8168"
    using overflow_init_ok [OF pg] by (simp add: init_edge_page_def overflow_page_ok_def)
  have "behind rel (length rel, Suc 0)"
    using elines_page by (fastforce simp: behind_def loc_less_def)
  moreover have "max_off (init_edge_page pg) = 0" using init by (simp add: max_off_def)
  ultimately show ?thesis
    using r ok size init elines_snoc_empty [of "init_edge_page pg" rel]
    by (simp add: edge_page_ok_def fits_def locs_snoc offsets_def)
qed

definition edge_line_at :: "'snap pg \<Rightarrow> nat \<Rightarrow> nat \<Rightarrow> bytes \<Rightarrow> line" where
  "edge_line_at pg blk off data = \<lparr>lp_flags = LP_NORMAL, lp_item = Tuple (fresh_at pg blk off) data\<rparr>"

lemma add_edge_page:
  assumes pg: "pg_ok pg" and p: "edge_page_ok p" and fit: "fits p (hdr_size + length data)"
    and data: "length data = EDGE_FIXED_DATA_SIZE + PROP_INLINE_MAX"
  shows "\<exists>page. PageAddItemExtended pg p (Tuple (fresh_header pg) data) 0 0 = (page, Suc (max_off p)) \<and>
    edge_page_ok (page_set_lsn (set_ctid page b (Suc (max_off p))) lsn) \<and>
    lines (page_set_lsn (set_ctid page b (Suc (max_off p))) lsn) = lines p @ [edge_line_at pg b (Suc (max_off p)) data]"
proof -
  let ?it = "Tuple (fresh_header pg) data"
  have "\<forall>l \<in> set (lines p). lp_flags l \<noteq> LP_UNUSED"
    using p by (auto simp: edge_page_ok_def edge_line_def list_all_iff)
  then have add: "PageAddItemExtended pg p ?it 0 0 = (append_line p ?it ?it, Suc (max_off p))"
      "page_wf (append_line p ?it ?it)"
    using add_item_append [OF pg, of p ?it] p fit by (simp_all add: edge_page_ok_def)
  have c: "set_ctid (append_line p ?it ?it) b (Suc (max_off p)) =
      append_line p ?it (Tuple (fresh_at pg b (Suc (max_off p))) data)"
    by (simp add: set_ctid_def modify_last fresh_at_def)
  have "page_wf (append_line p ?it (Tuple (fresh_at pg b (Suc (max_off p))) data))"
    using add(2) by (rule wf_append_same) simp
  then show ?thesis
    using add(1) p data by (simp add: c edge_page_ok_def edge_line_at_def edge_line_def)
qed

section \<open>The run of an insert\<close>

definition link_out :: "nat \<times> nat \<Rightarrow> NodeAdjHeader \<Rightarrow> NodeAdjHeader" where
  "link_out e h = set_out_degree (set_out_head_sl (set_out_head_pg h (of_nat (fst e))) (of_nat (snd e)))
     (out_degree h + 1)"

definition link_in :: "nat \<times> nat \<Rightarrow> NodeAdjHeader \<Rightarrow> NodeAdjHeader" where
  "link_in e h = set_in_degree (set_in_head_sl (set_in_head_pg h (of_nat (fst e))) (of_nat (snd e)))
     (in_degree h + 1)"

definition relink :: "nat \<times> nat \<Rightarrow> bool \<Rightarrow> bool \<Rightarrow> NodeAdjHeader \<Rightarrow> NodeAdjHeader" where
  "relink e is_src is_tgt h =
     (let h = (if is_src then link_out e h else h) in if is_tgt then link_in e h else h)"

lemma link_wf [simp]: "adj_wf h \<Longrightarrow> adj_wf (link_out e h)" "adj_wf h \<Longrightarrow> adj_wf (link_in e h)"
  by (simp_all add: link_out_def link_in_def)

lemma link_out_view: "adj_wf h \<Longrightarrow> adj_view (link_out e h) =
  (adj_view h)\<lparr>a_out_pg := of_nat (fst e), a_out_sl := of_nat (snd e), a_out_deg := out_degree h + 1\<rparr>"
  by (simp add: link_out_def adj_view_simps)

lemma link_in_view: "adj_wf h \<Longrightarrow> adj_view (link_in e h) =
  (adj_view h)\<lparr>a_in_pg := of_nat (fst e), a_in_sl := of_nat (snd e), a_in_deg := in_degree h + 1\<rparr>"
  by (simp add: link_in_def adj_view_simps)

lemma view_reads:
  "out_head h = (a_out_pg (adj_view h), a_out_sl (adj_view h))" "in_head h = (a_in_pg (adj_view h), a_in_sl (adj_view h))"
  "out_degree h = a_out_deg (adj_view h)" "in_degree h = a_in_deg (adj_view h)"
  by (simp_all add: adj_view_def out_head_def in_head_def)

lemma link_heads:
  assumes "adj_wf h"
  shows "out_head (link_out e h) = (of_nat (fst e), of_nat (snd e))" "in_head (link_out e h) = in_head h"
    "in_head (link_in e h) = (of_nat (fst e), of_nat (snd e))" "out_head (link_in e h) = out_head h"
    "in_degree (link_out e h) = in_degree h"
  using assms by (simp_all add: view_reads link_out_view link_in_view)

lemma relink_heads:
  assumes "adj_wf h"
  shows "adj_wf (relink e s t h)"
    "out_head (relink e s t h) = (if s then (of_nat (fst e), of_nat (snd e)) else out_head h)"
    "in_head (relink e s t h) = (if t then (of_nat (fst e), of_nat (snd e)) else in_head h)"
  using assms by (simp_all add: relink_def link_heads)

text \<open>The node relation after an insert: two headers and two LSNs.\<close>

definition linked ::
    "page list \<Rightarrow> nat \<times> nat \<Rightarrow> nat \<times> nat \<Rightarrow> NodeAdjHeader \<Rightarrow> NodeAdjHeader \<Rightarrow> nat \<Rightarrow> nat \<Rightarrow> page list" where
  "linked rel s t hs ht lsn_s lsn_t =
     (let rel = put_header (put_header rel s hs) t ht; rel = put_lsn rel (fst s) lsn_s
      in if fst s = fst t then rel else put_lsn rel (fst t) lsn_t)"

lemma linked_same_items:
  assumes "in_special rel s" and "in_special rel t" and "adj_wf hs" and "adj_wf ht"
  shows "same_items rel (linked rel s t hs ht ls lt)"
proof -
  note 1 = same_items_put_header [OF assms(1,3)]
  have "in_special (put_header rel s hs) t" using in_special_same [OF 1] assms(2) by simp
  from same_items_put_header [OF this assms(4)]
  show ?thesis
    using 1 same_items_put_lsn same_items_trans unfolding linked_def Let_def by (smt (verit))
qed

lemma linked_headers:
  assumes "in_special rel s" and "in_special rel t" and "adj_wf hs" and "adj_wf ht"
  shows "header_at (linked rel s t hs ht ls lt) x = (if x = t then Inr ht else if x = s then Inr hs else header_at rel x)"
proof -
  have "in_special (put_header rel s hs) t"
    using in_special_same [OF same_items_put_header [OF assms(1,3)]] assms(2) by simp
  then have "header_at (put_header (put_header rel s hs) t ht) x =
      (if x = t then Inr ht else if x = s then Inr hs else header_at rel x)"
    by (simp only: header_put [OF _ assms(4)] header_put [OF assms(1,3)])
  then show ?thesis
    unfolding linked_def Let_def if_distrib [of "\<lambda>r. header_at r x"] header_put_lsn if_cancel by simp
qed

definition edge_bytes ::
    "i64 \<Rightarrow> i32 \<Rightarrow> i64 \<Rightarrow> i64 \<Rightarrow> NodeAdjHeader \<Rightarrow> NodeAdjHeader \<Rightarrow> bytes \<Rightarrow> bytes" where
  "edge_bytes eid ty src tgt hs ht props =
     edge_data eid ty src tgt (out_head_pg hs) (out_head_sl hs) (in_head_pg ht) (in_head_sl ht) props"

lemma header_read:
  "header_at rel (b, i) = Inr h \<Longrightarrow> get_page rel b = Inr (rel ! b) \<and> read_adj_header (rel ! b) i = Inr h"
  by (auto simp: header_at_def get_page_def split: if_splits)

text \<open>The log records of an insert.\<close>

definition edge_insert_record :: "nat \<Rightarrow> nat \<Rightarrow> item \<Rightarrow> xlog_rec" where
  "edge_insert_record blk off it = \<lparr>xl_info = XLOG_PG_EDDY_EDGE_INSERT,
     xl_blocks = [\<lparr>b_rel = EdgeRel, b_blk = blk, b_data = ItemData it, b_image = None\<rparr>],
     xl_main = XLogEdgeInsert off\<rparr>"

definition adj_record :: "nat \<times> nat \<Rightarrow> NodeAdjHeader \<Rightarrow> xlog_rec" where
  "adj_record x h = \<lparr>xl_info = XLOG_PG_EDDY_ADJ_UPDATE,
     xl_blocks = [\<lparr>b_rel = NodeRel, b_blk = fst x,
       b_data = BytesData (to_le 2 (of_nat (snd x) :: u16) @ adj_bytes h), b_image = None\<rparr>],
     xl_main = []\<rparr>"

lemma log_inserts:
  "log_edge_insert log blk off it = (log @ [edge_insert_record blk off it], Suc (length log))"
  "log_adj_update log blk (of_nat slot) h = (log @ [adj_record (blk, slot) h], Suc (length log))"
  by (simp_all add: log_defs edge_insert_record_def adj_record_def)

definition insert_records ::
    "nat \<times> nat \<Rightarrow> item \<Rightarrow> nat \<times> nat \<Rightarrow> nat \<times> nat \<Rightarrow> NodeAdjHeader \<Rightarrow> NodeAdjHeader \<Rightarrow> xlog" where
  "insert_records e it s t hs ht =
     edge_insert_record (fst e) (snd e) it #
     (if s = t then [adj_record s (relink e True True ht)]
      else [adj_record s (link_out e hs), adj_record t (relink e False True ht)])"

lemma insert_edge_raw:
  assumes src: "find_node_location d src = Inr (Some (sb, so, si))" "header_at (node_rel d) (sb, si) = Inr hs"
    and tgt: "find_node_location d tgt = Inr (Some (tb, to', ti))" "header_at (node_rel d) (tb, ti) = Inr ht"
    and props: "length props \<le> PROP_INLINE_MAX"
    and it: "it = build_edge_item_bytes pg eid ty src tgt (out_head_pg hs) (out_head_sl hs) (in_head_pg ht) (in_head_sl ht) props"
    and f: "find_or_extend_edge_page pg (edge_rel d) (item_len it) = (erel, eb)"
    and add: "PageAddItemExtended pg (erel ! eb) it 0 0 = (page, off)" and off: "off \<noteq> 0"
  shows "\<exists>ls lt. insert_edge pg d eid ty src tgt props = Inr (d\<lparr>
    node_rel := linked (node_rel d) (sb, si) (tb, ti) (link_out (eb, off) hs)
      (relink (eb, off) ((sb, si) = (tb, ti)) True ht) ls lt,
    edge_rel := erel[eb := page_set_lsn (set_ctid page eb off) (Suc (length (wal d)))],
    wal := wal d @ insert_records (eb, off) it (sb, si) (tb, ti) hs ht\<rparr>)"
proof -
  let ?e = "(eb, off)"
  let ?same = "sb = tb \<and> si = ti"
  have same: "?same \<Longrightarrow> hs = ht" using src(2) tgt(2) by simp
  note h = header_read [OF src(2)] header_read [OF tgt(2)]
  have wf: "adj_wf hs" using src(2) header_wf by blast
  have hd: "set_out_degree (set_out_head_sl (set_out_head_pg hs (of_nat eb)) (of_nat off)) (out_degree hs + 1) =
      link_out ?e hs"
    by (simp add: link_out_def)
  show ?thesis
  proof (cases ?same)
    case True
    have it': "build_edge_item_bytes pg eid ty src tgt (out_head_pg hs) (out_head_sl hs) (in_head_pg hs) (in_head_sl hs) props = it"
      using same [OF True] by (simp add: it)
    have hi: "set_in_degree (set_in_head_sl (set_in_head_pg (link_out ?e hs) (of_nat eb)) (of_nat off))
        (in_degree hs + 1) = relink ?e True True ht"
      using wf same [OF True] by (simp add: relink_def link_in_def link_heads)
    show ?thesis
      using True props src(1) tgt(1) h(1) off
      by (simp add: insert_edge_def it' f add hd hi log_inserts linked_def put_header_def
          put_lsn_def Let_def case_prod_beta insert_records_def) (intro exI, rule refl)
  next
    case False
    have hi: "set_in_degree (set_in_head_sl (set_in_head_pg ht (of_nat eb)) (of_nat off)) (in_degree ht + 1) =
        relink ?e False True ht"
      by (simp add: relink_def link_in_def)
    have "sb \<noteq> tb \<or> sb = tb \<and> si \<noteq> ti" using False by blast
    then show ?thesis
    proof
      assume "sb \<noteq> tb"
      with props src(1) tgt(1) h off show ?thesis
        by (simp add: insert_edge_def f add hd hi it [symmetric] log_inserts insert_records_def
            linked_def put_header_def put_lsn_def Let_def case_prod_beta) (intro exI, rule refl)
    next
      assume "sb = tb \<and> si \<noteq> ti"
      with props src(1) tgt(1) h off show ?thesis
        by (simp add: insert_edge_def f add hd hi it [symmetric] log_inserts insert_records_def
            linked_def put_header_def put_lsn_def Let_def case_prod_beta) (intro exI, rule refl)
    qed
  qed
qed

lemma insert_edge_run:
  assumes pg: "pg_ok pg" and edges: "list_all edge_page_ok (edge_rel d)"
    and src: "find_node_location d src = Inr (Some (sb, so, si))" "header_at (node_rel d) (sb, si) = Inr hs"
    and tgt: "find_node_location d tgt = Inr (Some (tb, to', ti))" "header_at (node_rel d) (tb, ti) = Inr ht"
    and props: "length props \<le> PROP_INLINE_MAX"
  shows "\<exists>d' e ls lt. insert_edge pg d eid ty src tgt props = Inr d' \<and>
    node_rel d' = linked (node_rel d) (sb, si) (tb, ti) (link_out e hs) (relink e ((sb, si) = (tb, ti)) True ht) ls lt \<and>
    location_cache d' = location_cache d \<and>
    list_all edge_page_ok (edge_rel d') \<and> behind (edge_rel d) e \<and>
    fst e \<le> length (edge_rel d) \<and> 1 \<le> snd e \<and> snd e \<le> 2043 \<and> locs (edge_rel d') = locs (edge_rel d) @ [e] \<and>
    elines (edge_rel d') = (elines (edge_rel d))(e \<mapsto> edge_line_at pg (fst e) (snd e) (edge_bytes eid ty src tgt hs ht props))"
proof -
  let ?data = "edge_bytes eid ty src tgt hs ht props"
  let ?it = "Tuple (fresh_header pg) ?data"
  have len: "length ?data = 558" using props by (simp add: edge_bytes_def layout_simps)
  obtain erel eb where f: "find_or_extend_edge_page pg (edge_rel d) (item_len ?it) = (erel, eb)" by fastforce
  have "maxalign (item_len ?it) + item_id_size \<le> 8168"
    using len by (simp add: hdr_size_def maxalign_def item_id_size_def)
  note fs = find_or_extend_edge_spec [OF pg edges this f]
  have eb: "list_all edge_page_ok erel" "eb < length erel" "fits (erel ! eb) (item_len ?it)"
    using fs by blast+
  then have p: "edge_page_ok (erel ! eb)" "fits (erel ! eb) (hdr_size + length ?data)" "eb < length erel"
    by (simp_all add: list_all_length)
  have "length ?data = EDGE_FIXED_DATA_SIZE + PROP_INLINE_MAX" using len by (simp add: layout_simps)
  from add_edge_page [OF pg p(1,2) this, of eb "Suc (length (wal d))"] obtain page where
    add: "PageAddItemExtended pg (erel ! eb) ?it 0 0 = (page, Suc (max_off (erel ! eb)))" and
    q: "edge_page_ok (page_set_lsn (set_ctid page eb (Suc (max_off (erel ! eb)))) (Suc (length (wal d))))"
      "lines (page_set_lsn (set_ctid page eb (Suc (max_off (erel ! eb)))) (Suc (length (wal d)))) =
        lines (erel ! eb) @ [edge_line_at pg eb (Suc (max_off (erel ! eb))) ?data]"
    by blast
  define off where "off = Suc (max_off (erel ! eb))"
  define it where "it = build_edge_item_bytes pg eid ty src tgt (out_head_pg hs) (out_head_sl hs) (in_head_pg ht) (in_head_sl ht) props"
  have it: "it = ?it" by (simp add: it_def build_edge_item_bytes_def edge_bytes_def)
  let ?q = "page_set_lsn (set_ctid page eb off) (Suc (length (wal d)))"
  let ?e = "(eb, off)"
  have off: "off \<noteq> 0" by (simp add: off_def)
  let ?nrel = "linked (node_rel d) (sb, si) (tb, ti) (link_out ?e hs) (relink ?e ((sb, si) = (tb, ti)) True ht)"
  obtain ls lt log where run: "insert_edge pg d eid ty src tgt props =
      Inr (d\<lparr>node_rel := ?nrel ls lt, edge_rel := erel[eb := ?q], wal := log\<rparr>)"
    using insert_edge_raw [OF src tgt props it_def _ _ off, of erel eb page] f add it by (auto simp: off_def)
  moreover have "elines (erel[eb := ?q]) = (elines (edge_rel d))(?e \<mapsto> edge_line_at pg eb off ?data)"
    using fs elines_update [of eb erel ?q off "edge_line_at pg eb off ?data"] get_line_snoc [OF q(2)]
    by (simp add: off_def)
  moreover have "list_all edge_page_ok (erel[eb := ?q])"
    using fs q(1) set_update_subset_insert [of erel eb ?q] by (auto simp: list_all_iff off_def)
  moreover have "locs (erel[eb := ?q]) = locs (edge_rel d) @ [?e]"
  proof -
    have max: "max_off ?q = Suc (max_off (erel ! eb))" using q(2) by (simp add: max_off_def off_def)
    have off': "max_off ?q = off" unfolding max by (rule off_def [symmetric])
    have "erel \<noteq> []" "eb = length erel - 1" "locs erel = locs (edge_rel d)" using fs by auto
    from locs_last [OF this(1,2) max] this(3) show ?thesis by (simp only: off')
  qed
  moreover have "off \<le> 2043"
    using p(1) max_off_bound by (simp add: edge_page_ok_def off_def)
  moreover have "behind (edge_rel d) ?e" "eb \<le> length (edge_rel d)"
    using fs unfolding off_def by auto
  ultimately show ?thesis
    using run off
    by (intro exI [of _ "d\<lparr>node_rel := ?nrel ls lt, edge_rel := erel[eb := ?q], wal := log\<rparr>"] exI [of _ ?e]
        exI [of _ ls] exI [of _ lt]) simp
qed

section \<open>The graph after an insert\<close>

text \<open>What the run gives, as a relation between the two states.\<close>

definition edge_added ::
    "'snap pg \<Rightarrow> db \<Rightarrow> i64 \<Rightarrow> i32 \<Rightarrow> i64 \<Rightarrow> i64 \<Rightarrow> bytes \<Rightarrow> nat \<times> nat \<Rightarrow> nat \<times> nat \<Rightarrow>
     NodeAdjHeader \<Rightarrow> NodeAdjHeader \<Rightarrow> nat \<times> nat \<Rightarrow> db \<Rightarrow> bool" where
  "edge_added pg d eid ty src tgt props s t hs ht e d' \<longleftrightarrow>
     same_items (node_rel d) (node_rel d') \<and> location_cache d' = location_cache d \<and>
     header_at (node_rel d) s = Inr hs \<and> header_at (node_rel d) t = Inr ht \<and>
     (\<forall>x h. header_at (node_rel d) x = Inr h \<longrightarrow> header_at (node_rel d') x = Inr (relink e (x = s) (x = t) h)) \<and>
     (\<forall>x err. header_at (node_rel d) x = Inl err \<longrightarrow> header_at (node_rel d') x = Inl err) \<and>
     list_all edge_page_ok (edge_rel d') \<and> behind (edge_rel d) e \<and>
     fst e < 2 ^ 32 \<and> 1 \<le> snd e \<and> snd e < 2 ^ 16 \<and> locs (edge_rel d') = locs (edge_rel d) @ [e] \<and>
     elines (edge_rel d') = (elines (edge_rel d))
       (e \<mapsto> edge_line_at pg (fst e) (snd e) (edge_bytes eid ty src tgt hs ht props))"

lemma insert_edge_added:
  assumes pg: "pg_ok pg" and edges: "list_all edge_page_ok (edge_rel d)"
    and src: "find_node_location d src = Inr (Some (sb, so, si))" "header_at (node_rel d) (sb, si) = Inr hs"
    and tgt: "find_node_location d tgt = Inr (Some (tb, to', ti))" "header_at (node_rel d) (tb, ti) = Inr ht"
    and props: "length props \<le> PROP_INLINE_MAX" and small: "length (edge_rel d) < 2 ^ 32"
  shows "\<exists>d' e. insert_edge pg d eid ty src tgt props = Inr d' \<and>
    edge_added pg d eid ty src tgt props (sb, si) (tb, ti) hs ht e d'"
proof -
  let ?s = "(sb, si)" and ?t = "(tb, ti)"
  obtain d' e ls lt where run: "insert_edge pg d eid ty src tgt props = Inr d'"
    and nrel: "node_rel d' = linked (node_rel d) ?s ?t (link_out e hs) (relink e (?s = ?t) True ht) ls lt"
    and rest: "location_cache d' = location_cache d" "list_all edge_page_ok (edge_rel d')" "behind (edge_rel d) e"
      "fst e \<le> length (edge_rel d)" "1 \<le> snd e" "snd e \<le> 2043" "locs (edge_rel d') = locs (edge_rel d) @ [e]"
      "elines (edge_rel d') = (elines (edge_rel d))
        (e \<mapsto> edge_line_at pg (fst e) (snd e) (edge_bytes eid ty src tgt hs ht props))"
    using insert_edge_run [OF pg edges src tgt props] by blast
  have wf: "adj_wf hs" "adj_wf ht" using src(2) tgt(2) header_wf by blast+
  note sp = header_in_special [OF src(2)] header_in_special [OF tgt(2)]
  note hw = link_wf(1) [OF wf(1), of e] relink_heads(1) [OF wf(2), of e "?s = ?t" True]
  note headers = linked_headers [OF sp hw, of ls lt, folded nrel]
  have "header_at (node_rel d') x = Inr (relink e (x = ?s) (x = ?t) h)" if "header_at (node_rel d) x = Inr h" for x h
    using that src(2) tgt(2) headers [of x] by (auto simp: relink_def)
  moreover have "header_at (node_rel d') x = Inl err" if "header_at (node_rel d) x = Inl err" for x err
    using that src(2) tgt(2) headers [of x] by auto
  moreover have "same_items (node_rel d) (node_rel d')"
    unfolding nrel by (rule linked_same_items [OF sp hw])
  ultimately have "edge_added pg d eid ty src tgt props ?s ?t hs ht e d'"
    using rest src(2) tgt(2) small by (simp add: edge_added_def)
  with run show ?thesis by blast
qed

lemma loc_of_nat: "fst e < 2 ^ 32 \<Longrightarrow> snd e < 2 ^ 16 \<Longrightarrow> loc_of (of_nat (fst e), of_nat (snd e)) = e"
  by (simp add: loc_of_def unat_of_nat take_bit_nat_eq_self)

lemma links_new:
  "length props \<le> PROP_INLINE_MAX \<Longrightarrow>
   links o' (edge_line_at pg b k (edge_bytes eid ty src tgt hs ht props)) = (if o' then out_head hs else in_head ht)"
  by (simp add: links_def edge_line_at_def edge_bytes_def chain_next_edge_data out_head_def in_head_def)

lemma behindD: "behind rel e \<Longrightarrow> elines rel t = Some l \<Longrightarrow> loc_less t e"
  unfolding behind_def by blast

lemma behind_fresh:
  assumes "behind rel e"
  shows "elines rel e = None"
proof (cases "elines rel e")
  case (Some l)
  then have "loc_less e e" using assms unfolding behind_def by blast
  then show ?thesis by (simp add: loc_less_def)
qed

lemma added_header:
  assumes "edge_added pg d eid ty src tgt props s t hs ht e d'"
  shows "header_at (node_rel d) x = Inr h \<Longrightarrow> header_at (node_rel d') x = Inr (relink e (x = s) (x = t) h)"
    and "header_at (node_rel d) x = Inl err \<Longrightarrow> header_at (node_rel d') x = Inl err"
  using assms unfolding edge_added_def by blast+

lemma old_slot_same: "tids rel' = tids rel \<Longrightarrow> old_slot rel' t = old_slot rel t"
  by (simp add: old_slot_def)

lemma slots_distinct_same:
  "tids rel' = tids rel \<Longrightarrow> slots_distinct rel' = slots_distinct rel"
  by (simp only: slots_distinct_def live_at_def old_slot_def)

lemma slot_of_same: "tids rel' = tids rel \<Longrightarrow> slot_of rel' t = slot_of rel t"
  by (simp only: slot_of_def old_slot_def)

lemma slot_of_live:
  assumes "slots_distinct rel" and "live_at rel i t" and "live_at rel j u" and "slot_of rel t = slot_of rel u"
  shows "t = u"
  using assms unfolding slots_distinct_def slot_of_def by blast

lemma added_graph_ok:
  assumes ok: "graph_ok d" and add: "edge_added pg d eid ty src tgt props s t hs ht e d'"
    and props: "length props \<le> PROP_INLINE_MAX"
    and src: "live_at (node_rel d) src us" "s = slot_of (node_rel d) us"
    and tgt: "live_at (node_rel d) tgt ut" "t = slot_of (node_rel d) ut"
  shows "graph_ok d'"
proof -
  let ?l = "edge_line_at pg (fst e) (snd e) (edge_bytes eid ty src tgt hs ht props)"
  have el: "elines (edge_rel d') = (elines (edge_rel d))(e \<mapsto> ?l)" and e: "fst e < 2 ^ 32" "snd e < 2 ^ 16"
    and bh: "behind (edge_rel d) e" and pages: "list_all edge_page_ok (edge_rel d')"
    and st: "header_at (node_rel d) s = Inr hs" "header_at (node_rel d) t = Inr ht"
    and same: "same_items (node_rel d) (node_rel d')" "location_cache d' = location_cache d"
    using add by (simp_all add: edge_added_def)
  have ptr: "ptr_ok (edge_rel d') p" if "ptr_ok (edge_rel d) p" for p
    using that by (auto simp: ptr_ok_def el)
  have new: "ptr_ok (edge_rel d') (of_nat (fst e), of_nat (snd e))"
    using loc_of_nat [OF e] by (simp add: ptr_ok_def el)
  have heads: "ptr_ok (edge_rel d) (out_head h) \<and> ptr_ok (edge_rel d) (in_head h)" if "header_at (node_rel d) x = Inr h" for x h
    using ok that unfolding graph_ok_def heads_ok_def by blast
  have "heads_ok d'"
    unfolding heads_ok_def
  proof (intro allI impI)
    fix x h' assume h': "header_at (node_rel d') x = Inr h'"
    then obtain h where h: "header_at (node_rel d) x = Inr h"
      using added_header(2) [OF add] by (cases "header_at (node_rel d) x") auto
    then have "h' = relink e (x = s) (x = t) h" using added_header(1) [OF add] h' by simp
    then show "ptr_ok (edge_rel d') (out_head h') \<and> ptr_ok (edge_rel d') (in_head h')"
      using relink_heads(2,3) [OF header_wf [OF h], of e "x = s" "x = t"] heads [OF h] ptr new by simp
  qed
  moreover have "links_ok (edge_rel d')"
    unfolding links_ok_def
  proof (intro allI impI)
    fix u l o' assume l: "elines (edge_rel d') u = Some l"
    show "snd (links o' l) = 0 \<or> elines (edge_rel d') (loc_of (links o' l)) \<noteq> None \<and> loc_less (loc_of (links o' l)) u"
    proof (cases "u = e")
      case True
      then have "links o' l = (if o' then out_head hs else in_head ht)" using l by (auto simp: el links_new [OF props])
      then have "ptr_ok (edge_rel d) (links o' l)" using heads [OF st(1)] heads [OF st(2)] by simp
      moreover have "elines (edge_rel d') (loc_of (links o' l)) \<noteq> None \<and> loc_less (loc_of (links o' l)) u"
        if "elines (edge_rel d) (loc_of (links o' l)) = Some k" for k
        using behindD [OF bh that] that True by (auto simp: el)
      ultimately show ?thesis by (auto simp: ptr_ok_def)
    next
      case False
      then have "elines (edge_rel d) u = Some l" using l by (simp add: el)
      then show ?thesis
        using ok unfolding graph_ok_def edge_rel_ok_def links_ok_def el fun_upd_apply by (metis option.distinct(1))
    qed
  qed
  moreover have "node_store_ok d'"
    using same_items_store [OF same] ok by (simp add: graph_ok_def)
  moreover have "slots_distinct (node_rel d')"
    using slots_distinct_same [OF same_items_tids [OF same(1)]] ok by (simp add: graph_ok_def)
  moreover have "slots_used (node_rel d')"
    using graph_okD(5) [OF ok]
    by (simp only: slots_used_def live_at_def old_slot_def same_items_tids [OF same(1)])
  moreover have "unused_empty (node_rel d')"
    unfolding unused_empty_def same_items_tids [OF same(1)]
  proof (intro allI impI)
    fix x h' assume h': "header_at (node_rel d') x = Inr h'" and none: "tids (node_rel d) (fst x, Suc (snd x)) = None"
    then have "x \<noteq> s" "x \<noteq> t"
      using graph_okD(5) [OF ok] src tgt unfolding slots_used_def slot_of_def by (metis fst_conv snd_conv)+
    then have "header_at (node_rel d) x = Inr h'"
      using h' added_header [OF add, of x] by (cases "header_at (node_rel d) x") (auto simp: relink_def)
    then show "snd (out_head h') = 0 \<and> snd (in_head h') = 0"
      using graph_okD(6) [OF ok] none unfolding unused_empty_def by blast
  qed
  ultimately show ?thesis using pages by (simp add: graph_ok_def edge_rel_ok_def)
qed

text \<open>The adjacency lists.\<close>

definition map_ok :: "('a \<Rightarrow> 'b) \<Rightarrow> ('e + 'a) option \<Rightarrow> ('e + 'b) option" where
  "map_ok f r = map_option (map_sum (\<lambda>e. e) f) r"

lemma walk_kept:
  assumes "\<And>t. t \<in> set ts \<Longrightarrow> elines rel' t = elines rel t"
  shows "walk rel' filt ts = walk rel filt ts"
  unfolding walk_def using assms by (intro arg_cong [of _ _ concat] map_cong refl) simp

lemma walk_Cons: "walk rel filt (t # ts) = line_recs filt t (the (elines rel t)) @ walk rel filt ts"
  by (simp add: walk_def)

definition added_record ::
    "i64 \<Rightarrow> i32 \<Rightarrow> i64 \<Rightarrow> i64 \<Rightarrow> bytes \<Rightarrow> NodeAdjHeader \<Rightarrow> NodeAdjHeader \<Rightarrow> nat \<times> nat \<Rightarrow> EdgeRecord" where
  "added_record eid ty src tgt props hs ht e =
     edge_record eid ty src tgt (out_head_pg hs) (out_head_sl hs) (in_head_pg ht) (in_head_sl ht) props (fst e) (snd e)"

lemma new_line_recs:
  assumes "length props \<le> PROP_INLINE_MAX"
  shows "line_recs filt e (edge_line_at pg (fst e) (snd e) (edge_bytes eid ty src tgt hs ht props)) =
    (if passes_filter filt (added_record eid ty src tgt props hs ht e)
     then [added_record eid ty src tgt props hs ht e] else [])"
proof -
  have "xmax_invalid (fresh_at pg (fst e) (snd e))"
    by (simp add: xmax_invalid_def fresh_at_def fresh_header_def heap_flags)
  then show ?thesis
    unfolding line_recs_def edge_line_at_def line.select_convs item.case edge_bytes_def
      decode_edge_data [OF assms refl] option.case added_record_def by simp
qed

definition front :: "bool \<Rightarrow> i32 option \<Rightarrow> EdgeRecord \<Rightarrow> EdgeRecord list" where
  "front is_new filt rec = (if is_new \<and> passes_filter filt rec then [rec] else [])"

lemma added_chain:
  assumes ok: "graph_ok d" and add: "edge_added pg d eid ty src tgt props s t hs ht e d'"
    and props: "length props \<le> PROP_INLINE_MAX" and h: "header_at (node_rel d) x = Inr h"
    and head: "head h = (if o' then out_head h else in_head h)"
    and head': "head (relink e (x = s) (x = t) h) =
      (if o' then out_head (relink e (x = s) (x = t) h) else in_head (relink e (x = s) (x = t) h))"
    and ts: "chain (edge_rel d) o' (head h) ts"
  shows "chain (edge_rel d') o' (head (relink e (x = s) (x = t) h)) (if x = (if o' then s else t) then e # ts else ts) \<and>
    walk (edge_rel d') filt (if x = (if o' then s else t) then e # ts else ts) =
      front (x = (if o' then s else t)) filt (added_record eid ty src tgt props hs ht e) @ walk (edge_rel d) filt ts"
proof -
  let ?l = "edge_line_at pg (fst e) (snd e) (edge_bytes eid ty src tgt hs ht props)"
  have el: "elines (edge_rel d') = (elines (edge_rel d))(e \<mapsto> ?l)" and e: "fst e < 2 ^ 32" "snd e < 2 ^ 16" "1 \<le> snd e"
    and bh: "behind (edge_rel d) e"
    and st: "header_at (node_rel d) s = Inr hs" "header_at (node_rel d) t = Inr ht"
    using add unfolding edge_added_def by blast+
  note fresh = behind_fresh [OF bh]
  have same: "elines (edge_rel d') u = elines (edge_rel d) u" if "u \<in> set ts" for u
    using chain_lines [OF ts that] fresh by (auto simp: el)
  have old: "chain (edge_rel d') o' (head h) ts"
  proof (rule chain_kept [OF ts])
    show "\<exists>l'. elines (edge_rel d') u = Some l' \<and> links o' l' = links o' l" if "elines (edge_rel d) u = Some l" for u l
      using that fresh by (auto simp: el)
  qed
  show ?thesis
  proof (cases "x = (if o' then s else t)")
    case True
    have hh: "h = (if o' then hs else ht)" using True h st by (cases o') simp_all
    have "head (relink e (x = s) (x = t) h) = (of_nat (fst e), of_nat (snd e))"
      using True relink_heads(2,3) [OF header_wf [OF h], of e] unfolding head' by (cases o') simp_all
    moreover have "chain (edge_rel d') o' (of_nat (fst e), of_nat (snd e)) (e # ts)"
    proof -
      let ?p = "(of_nat (fst e) :: u32, of_nat (snd e) :: u16)"
      have loc: "loc_of ?p = e" by (rule loc_of_nat [OF e(1,2)])
      then have "snd ?p \<noteq> 0" using e(3) by (auto simp: loc_of_def dest: arg_cong [of _ _ snd])
      moreover have "links o' ?l = head h" using hh head by (simp add: links_new [OF props])
      ultimately show ?thesis
        using chain_step [of ?p "edge_rel d'" ?l o' ts] old unfolding loc by (simp add: el)
    qed
    ultimately show ?thesis
      using True walk_kept [OF same, where filt = filt]
      by (simp add: walk_Cons el front_def new_line_recs [OF props])
  next
    case False
    have "head (relink e (x = s) (x = t) h) = head h"
      using False relink_heads(2,3) [OF header_wf [OF h], of e] unfolding head' head by (cases o') simp_all
    then show ?thesis using False old walk_kept [OF same, where filt = filt] by (simp add: front_def)
  qed
qed

lemma added_follow:
  assumes ok: "graph_ok d" and add: "edge_added pg d eid ty src tgt props s t hs ht e d'"
    and props: "length props \<le> PROP_INLINE_MAX"
    and src: "live_at (node_rel d) src us" "s = slot_of (node_rel d) us"
    and tgt: "live_at (node_rel d) tgt ut" "t = slot_of (node_rel d) ut"
  shows "adjacency_follow d' n Out filt =
      map_ok (\<lambda>es. front (n = src) filt (added_record eid ty src tgt props hs ht e) @ es) (adjacency_follow d n Out filt)"
    and "adjacency_follow d' n In filt =
      map_ok (\<lambda>es. front (n = tgt) filt (added_record eid ty src tgt props hs ht e) @ es) (adjacency_follow d n In filt)"
proof -
  let ?r = "added_record eid ty src tgt props hs ht e"
  have ok': "graph_ok d'" by (rule added_graph_ok [OF ok add props src tgt])
  have same: "same_items (node_rel d) (node_rel d')" using add by (simp add: edge_added_def)
  note tid = same_items_tids [OF same]
  note uniq = slot_of_live [OF graph_okD(4) [OF ok]]
  have goal: "adjacency_follow d' n Out filt = map_ok (\<lambda>es. front (n = src) filt ?r @ es) (adjacency_follow d n Out filt) \<and>
      adjacency_follow d' n In filt = map_ok (\<lambda>es. front (n = tgt) filt ?r @ es) (adjacency_follow d n In filt)"
  proof (cases "absent d n")
    case True
    then have "absent d' n" using same_items_live [OF same] by (simp add: absent_def)
    moreover have "n \<noteq> src" "n \<noteq> tgt" using True src(1) tgt(1) unfolding absent_def by blast+
    ultimately show ?thesis
      using True by (simp add: follow_absent [OF ok] follow_absent [OF ok'] map_ok_def front_def)
  next
    case False
    then obtain u where u: "live_at (node_rel d) n u" unfolding absent_def by blast
    then have u': "live_at (node_rel d') n u" using same_items_live [OF same] by simp
    let ?x = "slot_of (node_rel d) u"
    have slot: "slot_of (node_rel d') u = ?x" by (rule slot_of_same [OF tid])
    have is_src: "?x = s \<longleftrightarrow> n = src"
      using uniq [OF u src(1)] live_at_id [OF u] src unique_liveD [OF graph_okD(7) [OF ok] u, of us] by blast
    have is_tgt: "?x = t \<longleftrightarrow> n = tgt"
      using uniq [OF u tgt(1)] live_at_id [OF u] tgt unique_liveD [OF graph_okD(7) [OF ok] u, of ut] by blast
    show ?thesis
    proof (cases "header_at (node_rel d) ?x")
      case (Inl err)
      then have "?x \<noteq> s" "?x \<noteq> t" using add by (auto simp: edge_added_def)
      then have "n \<noteq> src" "n \<noteq> tgt" using is_src is_tgt by auto
      moreover have "header_at (node_rel d') (slot_of (node_rel d') u) = Inl err"
        unfolding slot by (rule added_header(2) [OF add Inl])
      ultimately show ?thesis
        using follow_no_header [OF ok u Inl] follow_no_header [OF ok' u'] by (simp add: map_ok_def)
    next
      case (Inr h)
      obtain ts ts' where ts: "chain (edge_rel d) True (out_head h) ts" "chain (edge_rel d) False (in_head h) ts'"
        using heads_chains [OF ok Inr] by blast
      have h': "header_at (node_rel d') (slot_of (node_rel d') u) = Inr (relink e (?x = s) (?x = t) h)"
        unfolding slot by (rule added_header(1) [OF add Inr])
      note outs = added_chain [OF ok add props Inr, of out_head True ts filt, simplified, OF ts(1)]
      note ins = added_chain [OF ok add props Inr, of in_head False ts' filt, simplified, OF ts(2)]
      show ?thesis
        unfolding follow_live [OF ok u Inr ts] follow_live [OF ok' u' h' conjunct1 [OF outs] conjunct1 [OF ins]]
        using outs ins by (simp add: directed_def map_ok_def is_src is_tgt)
    qed
  qed
  then show "adjacency_follow d' n Out filt =
      map_ok (\<lambda>es. front (n = src) filt ?r @ es) (adjacency_follow d n Out filt)"
    and "adjacency_follow d' n In filt =
      map_ok (\<lambda>es. front (n = tgt) filt ?r @ es) (adjacency_follow d n In filt)" by blast+
qed

end
