(* ===== verification/GraphOps.thy ===== *)
theory GraphOps
  imports EdgeInsert
begin

text \<open>
  What the node operations do to the graph: a new node is isolated, deleting a node or updating it
  in its page leaves every adjacency list of the other nodes alone, and an update that moves the
  node to another page leaves its adjacency header behind.
\<close>

section \<open>Headers under node operations\<close>

lemma from_le_zero: "set bs \<subseteq> {0} \<Longrightarrow> from_le bs = 0"
  by (induction bs) simp_all

lemma set_bslice: "set (bslice a b xs) \<subseteq> set xs"
  unfolding bslice_def using set_take_subset set_drop_subset by (metis subset_trans)

definition empty_header :: "NodeAdjHeader \<Rightarrow> bool" where
  "empty_header h \<longleftrightarrow> snd (out_head h) = 0 \<and> snd (in_head h) = 0"

lemma zero_header: "set (adj_bytes h) \<subseteq> {0} \<Longrightarrow> empty_header h"
  unfolding empty_header_def out_head_def in_head_def snd_conv out_head_sl_def in_head_sl_def
  using set_bslice subset_trans by (metis from_le_zero)

lemma kept_header:
  assumes "keeps_special rel rel'" and "fst x < length rel"
  shows "header_at rel' x = header_at rel x"
  using assms by (auto simp: header_at_eq in_special_def keeps_special_def)

lemma new_header:
  assumes "keeps_special rel rel'" and "length rel \<le> fst x" and "header_at rel' x = Inr h"
  shows "empty_header h"
proof -
  have "set (special (rel' ! fst x)) \<subseteq> {0}"
    using assms header_in_special [OF assms(3)] by (simp add: keeps_special_def in_special_def)
  moreover have "adj_bytes h = bslice (snd x * 24) (snd x * 24 + 24) (special (rel' ! fst x))"
    using assms(3) by (auto simp: header_at_eq split: if_splits)
  ultimately show ?thesis using set_bslice zero_header by (metis subset_trans)
qed

lemma follow_same:
  assumes "graph_ok d" and "graph_ok d'" and e: "edge_rel d' = edge_rel d"
    and "live_at (node_rel d) n t" and "live_at (node_rel d') n t'"
    and h: "header_at (node_rel d') (slot_of (node_rel d') t') = header_at (node_rel d) (slot_of (node_rel d) t)"
  shows "adjacency_follow d' n dir filt = adjacency_follow d n dir filt"
proof (cases "header_at (node_rel d) (slot_of (node_rel d) t)")
  case (Inl err)
  then show ?thesis using follow_no_header assms by simp
next
  case (Inr h)
  obtain ts ts' where ts: "chain (edge_rel d) True (out_head h) ts" "chain (edge_rel d) False (in_head h) ts'"
    using heads_chains [OF assms(1) Inr] by blast
  then show ?thesis
    using follow_live [OF assms(1,4) Inr ts] follow_live [OF assms(2,5), of h ts ts'] assms(6) Inr e by simp
qed

lemma absent_same:
  assumes "graph_ok d" and "graph_ok d'" and "absent d n" and "absent d' n"
  shows "adjacency_follow d' n dir filt = adjacency_follow d n dir filt"
  using follow_absent assms by simp

lemma directed_empty: "directed dir [] [] = []"
  by (simp add: directed_def split: Direction.split)

lemma follow_empty:
  assumes "graph_ok d" and "live_at (node_rel d) n t" and "header_at (node_rel d) (slot_of (node_rel d) t) = Inr h"
    and "empty_header h"
  shows "adjacency_follow d n dir filt = Some (Inr [])"
proof -
  have "chain (edge_rel d) True (out_head h) []" "chain (edge_rel d) False (in_head h) []"
    using assms(4) by (simp_all add: chain_zero empty_header_def)
  from follow_live [OF assms(1-3) this] show ?thesis by (simp add: walk_def directed_empty)
qed

text \<open>One live version is added, with a slot that no other live version of its page has.\<close>

lemma slots_distinct_add:
  assumes D: "slots_distinct rel"
    and old: "\<And>i t. live_at rel' i t \<Longrightarrow> t \<noteq> new_t \<Longrightarrow> live_at rel i t \<and> old_slot rel' t = old_slot rel t"
    and new: "\<And>i t. live_at rel' i t \<Longrightarrow> t \<noteq> new_t \<Longrightarrow> fst t = fst new_t \<Longrightarrow> old_slot rel t \<noteq> old_slot rel' new_t"
  shows "slots_distinct rel'"
  unfolding slots_distinct_def
proof (intro allI impI)
  fix i j t t'
  assume *: "live_at rel' i t" "live_at rel' j t'" "fst t = fst t'" "old_slot rel' t = old_slot rel' t'"
  show "t = t'"
  proof (cases "t = new_t")
    case True
    have False if ne: "t' \<noteq> new_t"
      using new [OF *(2) ne] old [OF *(2) ne] * True by simp
    then show ?thesis using True by blast
  next
    case F: False
    show ?thesis
    proof (cases "t' = new_t")
      case True
      then show ?thesis using new [OF *(1) F] old [OF *(1) F] * by simp
    next
      case False
      then have "live_at rel i t" "live_at rel j t'" "old_slot rel t = old_slot rel t'"
        using old [OF *(1) F] old [OF *(2)] *(4) by simp_all
      then show ?thesis using D *(3) unfolding slots_distinct_def by blast
    qed
  qed
qed

section \<open>Inserting a node\<close>

lemma insert_node_graph:
  assumes ok: "graph_ok d" and absent: "absent d node_id" and res: "insert_result pg d node_id lids props d' blk off"
  shows "graph_ok d'"
    and "n \<noteq> node_id \<Longrightarrow> adjacency_follow d' n dir filt = adjacency_follow d n dir filt"
    and "adjacency_follow d' node_id dir filt =
      (if off \<le> MAX_NODE_SLOTS_PER_PAGE then Some (Inr []) else Some (Inl (OutOfPage (off - 1))))"
    and "absent d' n \<longleftrightarrow> absent d n \<and> n \<noteq> node_id"
proof -
  let ?r = "node_rel d" and ?r' = "node_rel d'" and ?t = "(blk, off)"
  note D = graph_okD [OF ok]
  obtain l where l: "tids ?r' = (tids ?r)(?t \<mapsto> l)" "live_line node_id l" "tids ?r ?t = None"
      "item_slot (lp_item l) = off - 1"
    using res by (auto simp: insert_result_def)
  have e: "edge_rel d' = edge_rel d" and sp: "keeps_special ?r ?r'" and len: "length ?r \<le> length ?r'"
    using res by (simp_all add: insert_result_def keeps_special_def)
  have store: "node_store_ok d'" by (rule insert_store_ok [OF D(1) absent res])
  have off: "1 \<le> off" using tids_page [of ?r' blk off l] l(1) by simp
  have live: "live_at ?r' i t \<longleftrightarrow> (if t = ?t then i = node_id else live_at ?r i t)" for i t
    using l live_line_id by (auto simp: live_at_def)
  have slot: "old_slot ?r' t = (if t = ?t then off - 1 else old_slot ?r t)" for t
    using l by (simp add: old_slot_def)
  have heads: "heads_ok d'"
    unfolding heads_ok_def e
  proof (intro allI impI)
    fix x h assume h: "header_at ?r' x = Inr h"
    show "ptr_ok (edge_rel d) (out_head h) \<and> ptr_ok (edge_rel d) (in_head h)"
    proof (cases "fst x < length ?r")
      case True
      then have "header_at ?r x = Inr h" using kept_header [OF sp] h by simp
      then show ?thesis using D(3) unfolding heads_ok_def by blast
    next
      case False
      then show ?thesis using new_header [OF sp _ h] by (simp add: ptr_ok_def empty_header_def)
    qed
  qed
  have used: "slots_used ?r'"
    unfolding slots_used_def
  proof (intro allI impI)
    fix i t assume "live_at ?r' i t"
    moreover have "tids ?r (fst t, Suc (old_slot ?r t)) \<noteq> None" if "live_at ?r i t"
      using D(5) that unfolding slots_used_def by blast
    ultimately show "tids ?r' (fst t, Suc (old_slot ?r' t)) \<noteq> None"
      using off by (cases "t = ?t") (auto simp: live slot l(1))
  qed
  have clash: False if "live_at ?r i t" "fst t = blk" "old_slot ?r t = off - 1" for i t
    using D(5) that l(3) off unfolding slots_used_def by (metis Suc_diff_le diff_Suc_1 One_nat_def)
  have distinct: "slots_distinct ?r'"
  proof (rule slots_distinct_add [OF D(4), where new_t = ?t])
    fix i t assume *: "live_at ?r' i t" "t \<noteq> ?t"
    then show "live_at ?r i t \<and> old_slot ?r' t = old_slot ?r t" by (simp add: live slot)
    then show "old_slot ?r t \<noteq> old_slot ?r' ?t" if "fst t = fst ?t"
      using clash [of i t] that by (auto simp: slot)
  qed
  have unused: "unused_empty ?r'"
    unfolding unused_empty_def
  proof (intro allI impI)
    fix x h assume h: "header_at ?r' x = Inr h" and none: "tids ?r' (fst x, Suc (snd x)) = None"
    have "tids ?r (fst x, Suc (snd x)) = None"
      using none by (auto simp: l(1) split: if_splits)
    moreover have "header_at ?r x = Inr h" if "fst x < length ?r" using kept_header [OF sp that] h by simp
    ultimately show "snd (out_head h) = 0 \<and> snd (in_head h) = 0"
      using D(6) new_header [OF sp _ h] unfolding unused_empty_def empty_header_def by (meson not_less)
  qed
  show ok': "graph_ok d'"
    using store heads used distinct unused D(2) e by (simp add: graph_ok_def)
  show "adjacency_follow d' n dir filt = adjacency_follow d n dir filt" if "n \<noteq> node_id"
  proof (cases "absent d n")
    case True
    then have "absent d' n" using that by (auto simp: absent_def live)
    then show ?thesis using absent_same ok ok' True by blast
  next
    case False
    then obtain t where t: "live_at ?r n t" by (auto simp: absent_def)
    then have ne: "t \<noteq> ?t" using l(3) by (auto simp: live_at_def)
    then have t': "live_at ?r' n t" using t by (simp add: live)
    have "fst t < length ?r" using t tids_page [of ?r "fst t" "snd t"] by (auto simp: live_at_def)
    then have "header_at ?r' (slot_of ?r' t) = header_at ?r (slot_of ?r t)"
      using kept_header [OF sp, of "slot_of ?r t"] ne by (simp add: slot_of_def slot)
    from follow_same [OF ok ok' e t t' this] show ?thesis .
  qed
  show "absent d' n \<longleftrightarrow> absent d n \<and> n \<noteq> node_id"
  proof -
    have "live_at ?r n t \<Longrightarrow> t \<noteq> ?t" for t using l(3) by (auto simp: live_at_def)
    then show ?thesis unfolding absent_def live by metis
  qed
  have t: "live_at ?r' node_id ?t" by (simp add: live)
  have s: "slot_of ?r' ?t = (blk, off - 1)" by (simp add: slot_of_def slot)
  show "adjacency_follow d' node_id dir filt =
      (if off \<le> MAX_NODE_SLOTS_PER_PAGE then Some (Inr []) else Some (Inl (OutOfPage (off - 1))))"
  proof (cases "header_at ?r' (blk, off - 1)")
    case (Inl err)
    have p: "blk < length ?r'" "\<not> is_overflow_page (?r' ! blk)"
      using tids_page [of ?r' blk off l] l(1) by simp_all
    then have sz: "length (special (?r' ! blk)) = 2400"
      using node_rel_node_page [of ?r' blk] store
      by (simp add: node_store_ok_def node_page_ok_def page_wf_def layout_simps)
    have "\<not> off \<le> MAX_NODE_SLOTS_PER_PAGE \<and> err = OutOfPage (off - 1)"
      using Inl p(1) sz off by (auto simp: header_at_eq in_special_def layout_simps split: if_splits)
    then show ?thesis using follow_no_header [OF ok' t] Inl by (simp add: s)
  next
    case (Inr h)
    have p: "blk < length ?r'" "\<not> is_overflow_page (?r' ! blk)"
      using tids_page [of ?r' blk off l] l(1) by simp_all
    then have sz: "length (special (?r' ! blk)) = 2400"
      using node_rel_node_page [of ?r' blk] store
      by (simp add: node_store_ok_def node_page_ok_def page_wf_def layout_simps)
    have small: "off \<le> MAX_NODE_SLOTS_PER_PAGE"
      using header_in_special [OF Inr] sz off by (auto simp: in_special_def layout_simps)
    have "empty_header h"
    proof (cases "blk < length ?r")
      case True
      then have "header_at ?r (blk, off - 1) = Inr h" using kept_header [OF sp, of "(blk, off - 1)"] Inr by simp
      moreover have "tids ?r (fst (blk, off - 1), Suc (snd (blk, off - 1))) = None" using l(3) off by simp
      ultimately show ?thesis using D(6) unfolding unused_empty_def empty_header_def by blast
    next
      case False
      then show ?thesis using new_header [OF sp _ Inr] by simp
    qed
    then show ?thesis using follow_empty [OF ok' t] Inr small by (simp add: s)
  qed
qed

section \<open>Deleting a node\<close>

lemma same_headers:
  assumes "length rel' = length rel" and "\<And>b. b < length rel \<Longrightarrow> special (rel' ! b) = special (rel ! b)"
  shows "header_at rel' x = header_at rel x"
  using assms by (auto simp: header_at_eq in_special_def)

lemma mark_in_headers: "header_at (mark_in rel blk off xmax lsn) x = header_at rel x"
proof (rule same_headers)
  fix b assume "b < length rel"
  then show "special (mark_in rel blk off xmax lsn ! b) = special (rel ! b)"
    by (cases "blk = b") (simp_all add: mark_in_def mark_deleted_lines)
qed (simp add: mark_in_def)

lemma slots_usedD: "slots_used rel \<Longrightarrow> live_at rel i t \<Longrightarrow> tids rel (fst t, Suc (old_slot rel t)) \<noteq> None"
  unfolding slots_used_def by blast

lemma delete_node_graph:
  assumes ok: "graph_ok d" and live: "live_at (node_rel d) node_id (blk, off)"
    and del: "delete_node_by_id pg d node_id = Inr (d', True)"
  shows "graph_ok d'"
    and "adjacency_follow d' n dir filt = (if n = node_id then Some (Inr []) else adjacency_follow d n dir filt)"
    and "edge_rel d' = edge_rel d"
    and "absent d' n \<longleftrightarrow> absent d n \<or> n = node_id"
proof -
  let ?r = "node_rel d" and ?r' = "node_rel d'" and ?t = "(blk, off)"
  note D = graph_okD [OF ok]
  obtain l where l: "tids ?r ?t = Some l" using live by (auto simp: live_at_def)
  have run: "?r' = mark_in ?r blk off (CurrentTransactionId pg) (Suc (length (wal d)))" and e: "edge_rel d' = edge_rel d"
    using delete_run [OF D(1) live, of pg] del by auto
  have store: "node_store_ok d'" and absent: "absent d' node_id"
    using delete_correct [OF D(1) live, of pg] del by auto
  have headers: "header_at ?r' x = header_at ?r x" for x unfolding run by (rule mark_in_headers)
  have lives: "live_at ?r' i t \<longleftrightarrow> live_at ?r i t \<and> t \<noteq> ?t" for i t
    unfolding run by (rule mark_in_live [OF l])
  have tid: "tids ?r' = (tids ?r)(?t \<mapsto> dead_line (CurrentTransactionId pg) l)"
    unfolding run by (rule mark_in_tids [OF l])
  have slot: "old_slot ?r' t = old_slot ?r t" if "t \<noteq> ?t" for t
    using that by (simp add: old_slot_def tid)
  have "heads_ok d'" using D(3) by (simp only: heads_ok_def headers e)
  moreover have "slots_distinct ?r'"
    using D(4) unfolding slots_distinct_def lives by (metis slot)
  moreover have "slots_used ?r'"
    unfolding slots_used_def
  proof (intro allI impI)
    fix i t assume "live_at ?r' i t"
    then have "live_at ?r i t" "t \<noteq> ?t" by (simp_all add: lives)
    then show "tids ?r' (fst t, Suc (old_slot ?r' t)) \<noteq> None"
      using slots_usedD [OF D(5), of i t] by (simp add: slot tid)
  qed
  moreover have "unused_empty ?r'"
    unfolding unused_empty_def headers
  proof (intro allI impI)
    fix x h assume "header_at ?r x = Inr h" "tids ?r' (fst x, Suc (snd x)) = None"
    moreover from this have "tids ?r (fst x, Suc (snd x)) = None" by (auto simp: tid split: if_splits)
    ultimately show "snd (out_head h) = 0 \<and> snd (in_head h) = 0"
      using D(6) unfolding unused_empty_def by blast
  qed
  ultimately show ok': "graph_ok d'" using store D(2) e by (simp add: graph_ok_def)
  show "edge_rel d' = edge_rel d" by (rule e)
  show "absent d' n \<longleftrightarrow> absent d n \<or> n = node_id"
    using absent live_at_id [OF live] unfolding absent_def lives by metis
  show "adjacency_follow d' n dir filt = (if n = node_id then Some (Inr []) else adjacency_follow d n dir filt)"
  proof (cases "n = node_id \<or> absent d n")
    case True
    then have "absent d' n" using absent by (auto simp: absent_def lives)
    then show ?thesis using True follow_absent [OF ok'] follow_absent [OF ok] by auto
  next
    case False
    then obtain t where t: "live_at ?r n t" by (auto simp: absent_def)
    then have ne: "t \<noteq> ?t" using live_at_id [OF live] False by blast
    then have "live_at ?r' n t" using t by (simp add: lives)
    from follow_same [OF ok ok' e t this] show ?thesis
      using False ne by (simp add: headers slot_of_def slot)
  qed
qed

section \<open>Updating a node\<close>

lemma add_in_headers: "header_at (add_in pg rel blk node_id adj lids props lsn) x = header_at rel x"
proof (rule same_headers)
  fix b assume "b < length rel"
  then show "special (add_in pg rel blk node_id adj lids props lsn ! b) = special (rel ! b)"
    by (cases "blk = b") (simp_all add: add_in_def version_page_def)
qed (simp add: add_in_def)

lemma version_line_slot:
  "version_line pg blk off node_id adj lids props l \<Longrightarrow> item_slot (lp_item l) = unat adj"
  using node_data_fields(2) [of node_id adj lids props 0] by (auto simp: version_line_def)

lemma old_slot_small: "unat (of_nat (old_slot rel t) :: u16) = old_slot rel t"
proof (cases "lp_item (the (tids rel t))")
  case (Tuple hdr data)
  then show ?thesis by (simp add: old_slot_def)
qed (simp add: old_slot_def)

lemma update_in_place_graph:
  assumes pg: "pg_ok pg" "txn_ok pg" and ok: "graph_ok d" and live: "live_at (node_rel d) node_id (blk, off)"
    and len: "length lids \<le> MAX_LABELS_PER_NODE" "length props \<le> PROP_INLINE_MAX"
    and fit: "fits (node_rel d ! blk) (42 + 4 * length lids + length props)"
  shows "\<exists>d'. update_node pg d node_id lids props = Inr (d', True) \<and> graph_ok d' \<and> edge_rel d' = edge_rel d \<and>
    (\<forall>n. absent d' n \<longleftrightarrow> absent d n) \<and>
    (\<forall>n dir filt. adjacency_follow d' n dir filt = adjacency_follow d n dir filt)"
proof -
  let ?r = "node_rel d" and ?t = "(blk, off)" and ?x = "CurrentTransactionId pg"
  note D = graph_okD [OF ok]
  obtain l where l: "tids ?r ?t = Some l" "live_line node_id l" using live by (auto simp: live_at_def)
  obtain d' lsn lsn2 where u: "update_node pg d node_id lids props = Inr (d', True)"
      "node_rel d' = add_in pg (mark_in ?r blk off ?x lsn) blk node_id (of_nat (old_slot ?r ?t)) lids props lsn2"
      "edge_rel d' = edge_rel d"
    using update_same_page [OF pg D(1) len l fit] by blast
  let ?r' = "node_rel d'" and ?m = "mark_in ?r blk off ?x lsn"
  have store: "node_store_ok d'" using update_correct [OF pg D(1) len live] u(1) by auto
  have headers: "header_at ?r' x = header_at ?r x" for x
    unfolding u(2) add_in_headers by (rule mark_in_headers)
  have m: "blk < length ?m" "\<not> is_overflow_page (?m ! blk)"
    using tids_page [OF l(1)] by (simp_all add: mark_in_def is_overflow_page_def mark_deleted_lines)
  let ?o = "Suc (max_off (?m ! blk))" and ?adj = "of_nat (old_slot ?r ?t) :: u16"
  obtain n where n: "version_line pg blk ?o node_id ?adj lids props n" "tids ?r' = (tids ?m)((blk, ?o) \<mapsto> n)"
      "tids ?m (blk, ?o) = None"
    using add_in_tids [OF pg(2) m] unfolding u(2) by blast
  have tid: "tids ?r' = (tids ?r)(?t \<mapsto> dead_line ?x l, (blk, ?o) \<mapsto> n)"
    by (simp only: n(2) mark_in_tids [OF l(1)])
  have ne: "?o \<noteq> off" "tids ?r (blk, ?o) = None"
    using n(3) by (auto simp: mark_in_tids [OF l(1)] split: if_splits)
  have lives: "live_at ?r' i t \<longleftrightarrow> (if t = (blk, ?o) then i = node_id else live_at ?r i t \<and> t \<noteq> ?t)" for i t
    using n(1) live_line_id by (auto simp: live_at_def tid dead_not_live version_line_def)
  have slot: "old_slot ?r' t = (if t = (blk, ?o) then old_slot ?r ?t else old_slot ?r t)" if "t \<noteq> ?t" for t
    using that version_line_slot [OF n(1)] old_slot_small [of ?r ?t] by (simp add: old_slot_def tid)
  have twin: "t = ?t" if "live_at ?r i t" "fst t = blk" "old_slot ?r t = old_slot ?r ?t" for i t
    using D(4) live that unfolding slots_distinct_def by (metis fst_conv)
  have "heads_ok d'" using D(3) by (simp only: heads_ok_def headers u(3))
  moreover have "slots_distinct ?r'"
  proof (rule slots_distinct_add [OF D(4), where new_t = "(blk, ?o)"])
    fix i t assume *: "live_at ?r' i t" "t \<noteq> (blk, ?o)"
    then have t: "t \<noteq> ?t" "live_at ?r i t" by (simp_all add: lives)
    then show "live_at ?r i t \<and> old_slot ?r' t = old_slot ?r t" using *(2) by (simp add: slot)
    show "old_slot ?r t \<noteq> old_slot ?r' (blk, ?o)" if "fst t = fst (blk, ?o)"
      using twin [OF t(2)] that t(1) slot [of "(blk, ?o)"] ne(1) by auto
  qed
  moreover have "slots_used ?r'"
    unfolding slots_used_def
  proof (intro allI impI)
    fix i t assume *: "live_at ?r' i t"
    then have t: "t \<noteq> ?t" using ne(1) by (auto simp: lives split: if_splits)
    then show "tids ?r' (fst t, Suc (old_slot ?r' t)) \<noteq> None"
      using * slots_usedD [OF D(5) live] slots_usedD [OF D(5), of i t] unfolding lives slot [OF t] tid
      by (cases "t = (blk, ?o)") simp_all
  qed
  moreover have "unused_empty ?r'"
    unfolding unused_empty_def headers
  proof (intro allI impI)
    fix x h assume "header_at ?r x = Inr h" "tids ?r' (fst x, Suc (snd x)) = None"
    moreover from this have "tids ?r (fst x, Suc (snd x)) = None" by (auto simp: tid split: if_splits)
    ultimately show "snd (out_head h) = 0 \<and> snd (in_head h) = 0"
      using D(6) unfolding unused_empty_def by blast
  qed
  ultimately have ok': "graph_ok d'" using store D(2) u(3) by (simp add: graph_ok_def)
  have "adjacency_follow d' i dir filt = adjacency_follow d i dir filt" for i dir filt
  proof (cases "absent d i")
    case True
    then have "i \<noteq> node_id" using live unfolding absent_def by blast
    then have "absent d' i" using True by (simp add: absent_def lives)
    then show ?thesis using absent_same [OF ok ok' True] by blast
  next
    case False
    then obtain t where t: "live_at ?r i t" by (auto simp: absent_def)
    show ?thesis
    proof (cases "t = ?t")
      case True
      then have i: "i = node_id" using t live live_at_id by blast
      have "live_at ?r' i (blk, ?o)" by (simp add: lives i)
      moreover have "slot_of ?r' (blk, ?o) = slot_of ?r t" using slot [of "(blk, ?o)"] ne(1) by (simp add: slot_of_def True)
      ultimately show ?thesis using follow_same [OF ok ok' u(3) t] headers by simp
    next
      case F: False
      then have "t \<noteq> (blk, ?o)" using t ne(2) by (auto simp: live_at_def)
      then have "live_at ?r' i t" "slot_of ?r' t = slot_of ?r t" using t F slot [OF F] by (simp_all add: lives slot_of_def)
      then show ?thesis using follow_same [OF ok ok' u(3) t] headers by simp
    qed
  qed
  moreover have "absent d' i \<longleftrightarrow> absent d i" for i
  proof -
    have "live_at ?r i t \<Longrightarrow> t \<noteq> (blk, ?o)" for t using ne(2) by (auto simp: live_at_def)
    then show ?thesis using live live_at_id [OF live] unfolding absent_def lives by metis
  qed
  ultimately show ?thesis using u(1,3) ok' by blast
qed

end
