(* ===== verification/GraphEdges.thy ===== *)
theory GraphEdges
  imports GraphOps
begin

text \<open>
  The edge scans as a walk over all locations, and what \<open>delete_edge\<close> and \<open>update_edge_props\<close> do:
  one line of the edge relation changes, its chain pointers stay, so every adjacency list and every
  scan changes in that edge only.
\<close>

section \<open>Scans\<close>

definition edge_entry :: "'snap pg \<Rightarrow> nat \<times> nat \<Rightarrow> line \<Rightarrow> EdgeRecord list" where
  "edge_entry pg t l = (case lp_item l of
       Tuple hdr data \<Rightarrow> (if edge_xmin_visible pg hdr then line_recs None t l else [])
     | Raw bs \<Rightarrow> [])"

definition scan_view :: "'snap pg \<Rightarrow> page list \<Rightarrow> EdgeRecord list" where
  "scan_view pg rel = concat (map (\<lambda>t. edge_entry pg t (the (elines rel t))) (locs rel))"

definition opt_list :: "'a option \<Rightarrow> 'a list" where
  "opt_list x = (case x of None \<Rightarrow> [] | Some y \<Rightarrow> [y])"

lemma opt_list_simps [simp]: "opt_list None = []" "opt_list (Some y) = [y]"
  by (simp_all add: opt_list_def)

lemma map_filter_opt: "List.map_filter f xs = concat (map (\<lambda>x. opt_list (f x)) xs)"
  by (induction xs) (auto split: option.splits)

lemma line_recs_None:
  "lp_item l = Tuple hdr data \<Longrightarrow> line_recs None t l =
    (if xmax_invalid hdr \<and> lp_flags l = LP_NORMAL then opt_list (decode_edge_record data (length data) (fst t) (snd t)) else [])"
  by (cases "decode_edge_record data (length data) (fst t) (snd t)") (simp_all add: line_recs_def)

lemma read_edge_entry:
  assumes "edge_line l" and "get_line page k = Some l"
  shows "opt_list (read_edge_at_offset pg page b k) = edge_entry pg (b, k) l"
proof -
  obtain hdr data where l: "lp_item l = Tuple hdr data" "EDGE_FIXED_DATA_SIZE \<le> length data"
    using assms(1) by (auto simp: edge_line_def)
  then show ?thesis
    by (simp add: read_edge_at_offset_def assms(2) edge_entry_def line_recs_None hdr_size_def)
qed

lemma concat_map_nested: "concat (map f (concat xss)) = concat (map (\<lambda>xs. concat (map f xs)) xss)"
  by (induction xss) simp_all

lemma scan_all_view:
  assumes "list_all edge_page_ok rel"
  shows "scan_all_edges pg rel = scan_view pg rel"
proof -
  have "concat (map (\<lambda>k. opt_list (read_edge_at_offset pg (rel ! b) b k)) (offsets (rel ! b))) =
      concat (map (\<lambda>k. edge_entry pg (b, k) (the (elines rel (b, k)))) (offsets (rel ! b)))"
    if "b < length rel" for b
  proof (rule concat_map_cong)
    fix k assume "k \<in> set (offsets (rel ! b))"
    then have "get_line (rel ! b) k = Some (lines (rel ! b) ! (k - 1))"
      by (auto simp: offsets_def get_line_def)
    then have "elines rel (b, k) = Some (lines (rel ! b) ! (k - 1))" "get_line (rel ! b) k = Some (lines (rel ! b) ! (k - 1))"
      using that by (simp_all add: elines_def)
    from read_edge_entry [OF elines_line [OF assms this(1)] this(2)] this(1)
    show "opt_list (read_edge_at_offset pg (rel ! b) b k) = edge_entry pg (b, k) (the (elines rel (b, k)))"
      by simp
  qed
  then have "concat (map (\<lambda>b. List.map_filter (read_edge_at_offset pg (rel ! b) b) (offsets (rel ! b))) [0..<length rel]) =
      concat (map (\<lambda>b. concat (map (\<lambda>k. edge_entry pg (b, k) (the (elines rel (b, k)))) (offsets (rel ! b)))) [0..<length rel])"
    by (intro concat_map_cong) (simp add: map_filter_opt)
  also have "\<dots> = scan_view pg rel"
    unfolding scan_view_def locs_def concat_map_nested map_map comp_def by (rule refl)
  finally show ?thesis by (simp only: scan_all_edges_def)
qed

lemma count_scan: "count_edges pg rel = length (scan_all_edges pg rel)"
  by (simp add: count_edges_def scan_all_edges_def length_concat comp_def length_map_filter)

definition edge_id_is :: "i64 \<Rightarrow> EdgeRecord \<Rightarrow> EdgeRecord option" where
  "edge_id_is eid e = (if er_edge_id e = eid then Some e else None)"

lemma first_some_map_filter: "first_some f (List.map_filter g xs) =
    first_some (\<lambda>x. case g x of None \<Rightarrow> None | Some y \<Rightarrow> f y) xs"
  by (induction xs) (auto split: option.splits)

lemma find_edge_scan: "find_edge_by_id pg rel eid = first_some (edge_id_is eid) (scan_all_edges pg rel)"
  unfolding find_edge_by_id_def scan_all_edges_def first_some_concat first_some_map first_some_map_filter
  by (intro arg_cong2 [of _ _ _ _ first_some] ext refl) (simp add: edge_with_id_def edge_id_is_def split: option.split)

section \<open>Changing one line\<close>

text \<open>The line at \<open>t\<close> becomes \<open>l'\<close>, with the same chain pointers.\<close>

definition line_changed :: "page list \<Rightarrow> nat \<times> nat \<Rightarrow> line \<Rightarrow> line \<Rightarrow> page list \<Rightarrow> bool" where
  "line_changed rel t l l' rel' \<longleftrightarrow> elines rel t = Some l \<and> elines rel' = (elines rel)(t \<mapsto> l') \<and>
     locs rel' = locs rel \<and> list_all edge_page_ok rel' \<and> (\<forall>o'. links o' l' = links o' l)"

lemma changed_links_ok:
  assumes "line_changed rel t l l' rel'" and "links_ok rel"
  shows "links_ok rel'"
proof -
  have c: "elines rel t = Some l" "elines rel' = (elines rel)(t \<mapsto> l')" "links o' l' = links o' l" for o'
    using assms(1) by (simp_all add: line_changed_def)
  have dom: "elines rel' u \<noteq> None \<longleftrightarrow> elines rel u \<noteq> None" for u by (simp add: c(1,2))
  show ?thesis
    unfolding links_ok_def
  proof (intro allI impI)
    fix u k o' assume "elines rel' u = Some k"
    then obtain k0 where "elines rel u = Some k0" "links o' k = links o' k0"
      using c by (cases "u = t") auto
    then show "snd (links o' k) = 0 \<or> elines rel' (loc_of (links o' k)) \<noteq> None \<and> loc_less (loc_of (links o' k)) u"
      using assms(2) unfolding links_ok_def dom by metis
  qed
qed

lemma changed_graph_ok:
  assumes "graph_ok d" and c: "line_changed (edge_rel d) t l l' (edge_rel d')"
    and n: "node_rel d' = node_rel d" "location_cache d' = location_cache d"
  shows "graph_ok d'"
proof -
  note D = graph_okD [OF assms(1)]
  have "ptr_ok (edge_rel d') p" if "ptr_ok (edge_rel d) p" for p
    using that c by (auto simp: ptr_ok_def line_changed_def)
  then have "heads_ok d'" using D(3) unfolding heads_ok_def n by blast
  moreover have "node_store_ok d'" using D(1) by (simp add: node_store_ok_def cache_in_range_def n)
  ultimately show ?thesis
    using D changed_links_ok [OF c D(9)] c by (simp add: graph_ok_def edge_rel_ok_def line_changed_def n)
qed

text \<open>
  Where the change of the line turns its record list by \<open>g\<close>, and \<open>g\<close> leaves the records of all other
  lines alone, it turns every walk and every scan by \<open>g\<close>.
\<close>

locale record_change =
  fixes g :: "EdgeRecord list \<Rightarrow> EdgeRecord list"
  assumes g_append: "g (xs @ ys) = g xs @ g ys" and g_Nil: "g [] = []"
begin

lemma g_concat: "g (concat xss) = concat (map g xss)"
  by (induction xss) (simp_all add: g_append g_Nil)

lemma walk_changed:
  assumes c: "line_changed rel t l l' rel'" and "\<forall>u \<in> set ts. elines rel u \<noteq> None"
    and own: "line_recs filt t l' = g (line_recs filt t l)"
    and others: "\<And>u k. elines rel u = Some k \<Longrightarrow> u \<noteq> t \<Longrightarrow> g (line_recs filt u k) = line_recs filt u k"
  shows "walk rel' filt ts = g (walk rel filt ts)"
proof -
  have "line_recs filt u (the (elines rel' u)) = g (line_recs filt u (the (elines rel u)))" if "u \<in> set ts" for u
    using that assms(2) own others [of u] c by (cases "u = t") (auto simp: line_changed_def)
  then show ?thesis unfolding walk_def g_concat map_map comp_def by (rule concat_map_cong)
qed

lemma scan_changed:
  assumes c: "line_changed rel t l l' rel'" and own: "edge_entry pg t l' = g (edge_entry pg t l)"
    and others: "\<And>u k. elines rel u = Some k \<Longrightarrow> u \<noteq> t \<Longrightarrow> g (edge_entry pg u k) = edge_entry pg u k"
  shows "scan_view pg rel' = g (scan_view pg rel)"
proof -
  have "edge_entry pg u (the (elines rel' u)) = g (edge_entry pg u (the (elines rel u)))" if "u \<in> set (locs rel)" for u
    using that own others [of u] c by (cases "u = t") (auto simp: line_changed_def in_locs)
  moreover have "locs rel' = locs rel" using c by (simp add: line_changed_def)
  ultimately show ?thesis
    unfolding scan_view_def g_concat map_map comp_def by (simp only:) (rule concat_map_cong)
qed

lemma follow_changed:
  assumes ok: "graph_ok d" and c: "line_changed (edge_rel d) t l l' (edge_rel d')"
    and n: "node_rel d' = node_rel d" "location_cache d' = location_cache d"
    and own: "line_recs filt t l' = g (line_recs filt t l)"
    and others: "\<And>u k. elines (edge_rel d) u = Some k \<Longrightarrow> u \<noteq> t \<Longrightarrow> g (line_recs filt u k) = line_recs filt u k"
    and dd: "\<And>es. dedup [] (g es) = g (dedup [] es)"
  shows "adjacency_follow d' i dir filt = map_ok g (adjacency_follow d i dir filt)"
proof -
  have ok': "graph_ok d'" by (rule changed_graph_ok [OF ok c n])
  have dir: "directed dir (g xs) (g ys) = g (directed dir xs ys)" for xs ys
    by (cases dir) (simp_all add: directed_def dd flip: g_append)
  show ?thesis
  proof (cases "absent d i")
    case True
    then have "absent d' i" by (simp add: absent_def n)
    then show ?thesis using True follow_absent [OF ok] follow_absent [OF ok'] by (simp add: map_ok_def g_Nil)
  next
    case False
    then obtain u where u: "live_at (node_rel d) i u" by (auto simp: absent_def)
    then have u': "live_at (node_rel d') i u" by (simp add: n)
    show ?thesis
    proof (cases "header_at (node_rel d) (slot_of (node_rel d) u)")
      case (Inl err)
      then show ?thesis
        using follow_no_header [OF ok u Inl] follow_no_header [OF ok' u'] by (simp add: map_ok_def n)
    next
      case (Inr h)
      obtain ts ts' where ts: "chain (edge_rel d) True (out_head h) ts" "chain (edge_rel d) False (in_head h) ts'"
        using heads_chains [OF ok Inr] by blast
      have kept: "chain (edge_rel d') o' p us" if "chain (edge_rel d) o' p us" for o' p us
      proof (rule chain_kept [OF that])
        show "\<exists>k'. elines (edge_rel d') v = Some k' \<and> links o' k' = links o' k" if "elines (edge_rel d) v = Some k" for v k
          using that c by (cases "v = t") (auto simp: line_changed_def)
      qed
      have w: "walk (edge_rel d') filt us = g (walk (edge_rel d) filt us)" if "chain (edge_rel d) o' p us" for o' p us
        by (rule walk_changed [OF c _ own others]) (use chain_lines [OF that] in auto)
      have h': "header_at (node_rel d') (slot_of (node_rel d') u) = Inr h" using Inr by (simp add: n)
      show ?thesis
        unfolding follow_live [OF ok u Inr ts] follow_live [OF ok' u' h' kept [OF ts(1)] kept [OF ts(2)]]
          w [OF ts(1)] w [OF ts(2)] dir by (simp add: map_ok_def)
    qed
  qed
qed

end

end
