(* ===== verification/EdgeLifecycle.thy ===== *)
theory EdgeLifecycle
  imports GraphEdges
begin

text \<open>
  What \<open>delete_edge\<close> and \<open>update_edge_props\<close> do to the graph: the search finds the one live edge with
  the id, one line of the edge relation changes, and the interpretations of \<open>record_change\<close> carry
  the change to every adjacency list and every scan.
\<close>

section \<open>Live edges\<close>

definition live_edge_line :: "i64 \<Rightarrow> line \<Rightarrow> bool" where
  "live_edge_line eid l \<longleftrightarrow> lp_flags l = LP_NORMAL \<and>
     (\<exists>hdr data. lp_item l = Tuple hdr data \<and> xmax_invalid hdr \<and>
        (from_le (bslice OFF_EDGE_REL_ID (OFF_EDGE_REL_ID + 8) data) :: i64) = eid)"

definition edge_at :: "page list \<Rightarrow> i64 \<Rightarrow> nat \<times> nat \<Rightarrow> bool" where
  "edge_at rel eid t \<longleftrightarrow> (\<exists>l. elines rel t = Some l \<and> live_edge_line eid l)"

definition no_edge :: "page list \<Rightarrow> i64 \<Rightarrow> bool" where
  "no_edge rel eid \<longleftrightarrow> (\<forall>t. \<not> edge_at rel eid t)"

definition unique_edges :: "page list \<Rightarrow> bool" where
  "unique_edges rel \<longleftrightarrow> (\<forall>eid t u. edge_at rel eid t \<longrightarrow> edge_at rel eid u \<longrightarrow> t = u)"

lemma unique_edgesD: "unique_edges rel \<Longrightarrow> edge_at rel eid t \<Longrightarrow> edge_at rel eid u \<Longrightarrow> t = u"
  unfolding unique_edges_def by blast

lemma live_edge_line_eq:
  assumes "edge_line l" and "get_line page off = Some l"
  shows "live_edge eid page off \<longleftrightarrow> live_edge_line eid l"
  using assms by (auto simp: live_edge_def live_edge_line_def edge_line_def hdr_size_def)

lemma decode_edge_id:
  "decode_edge_record data n b k = Some e \<Longrightarrow>
   er_edge_id e = from_le (bslice OFF_EDGE_REL_ID (OFF_EDGE_REL_ID + 8) data)"
  by (auto simp: decode_edge_record_def Let_def split: if_splits)

lemma line_recs_live:
  assumes "e \<in> set (line_recs filt t l)"
  shows "live_edge_line (er_edge_id e) l"
proof (cases "lp_item l")
  case (Tuple hdr data)
  have "e \<in> set (line_recs None t l)" using assms line_recs_filter by (metis filter_is_subset subsetD)
  then have "xmax_invalid hdr" "lp_flags l = LP_NORMAL" "decode_edge_record data (length data) (fst t) (snd t) = Some e"
    unfolding line_recs_None [OF Tuple] by (auto simp: opt_list_def split: if_splits option.splits)
  then show ?thesis using decode_edge_id Tuple by (simp add: live_edge_line_def)
next
  case (Raw bs)
  then show ?thesis using assms by (simp add: line_recs_def)
qed

lemma entry_live: "e \<in> set (edge_entry pg t l) \<Longrightarrow> live_edge_line (er_edge_id e) l"
  by (rule line_recs_live [of e None t]) (auto simp: edge_entry_def split: item.splits if_splits)

lemma line_recs_other:
  assumes "unique_edges rel" and "edge_at rel eid t" and "elines rel u = Some k" and "u \<noteq> t"
    and "e \<in> set (line_recs filt u k)"
  shows "er_edge_id e \<noteq> eid"
  using assms line_recs_live [OF assms(5)] unique_edgesD [OF assms(1,2), of u] by (auto simp: edge_at_def)

lemma entry_other:
  assumes "unique_edges rel" and "edge_at rel eid t" and "elines rel u = Some k" and "u \<noteq> t"
    and "e \<in> set (edge_entry pg u k)"
  shows "er_edge_id e \<noteq> eid"
  using assms entry_live [OF assms(5)] unique_edgesD [OF assms(1,2), of u] by (auto simp: edge_at_def)

lemma live_edge_line_id: "live_edge_line i l \<Longrightarrow> live_edge_line j l \<Longrightarrow> i = j"
  by (auto simp: live_edge_line_def)

lemma elines_offsets: "elines rel (b, k) = Some l \<longleftrightarrow>
  b < length rel \<and> k \<in> set (offsets (rel ! b)) \<and> get_line (rel ! b) k = Some l"
  by (auto simp: elines_def offsets_def get_line_def)

text \<open>The search of \<open>delete_edge\<close>.\<close>

definition find_live_edge :: "page list \<Rightarrow> i64 \<Rightarrow> (nat \<times> nat) option" where
  "find_live_edge rel eid = first_some (\<lambda>b. first_some (\<lambda>off.
     if live_edge eid (rel ! b) off then Some (b, off) else None) (offsets (rel ! b))) [0..<length rel]"

lemma find_live_edge:
  assumes "list_all edge_page_ok rel"
  shows "find_live_edge rel eid = None \<longleftrightarrow> no_edge rel eid"
    "find_live_edge rel eid = Some t \<Longrightarrow> edge_at rel eid t"
proof -
  have at: "edge_at rel eid (b, k) \<longleftrightarrow> b < length rel \<and> k \<in> set (offsets (rel ! b)) \<and> live_edge eid (rel ! b) k" for b k
  proof -
    have "live_edge eid (rel ! b) k \<Longrightarrow> \<exists>l. get_line (rel ! b) k = Some l"
      by (cases "get_line (rel ! b) k") (auto simp: live_edge_def)
    then show ?thesis
      using elines_line [OF assms, of "(b, k)"] live_edge_line_eq elines_offsets [of rel b k]
      unfolding edge_at_def by blast
  qed
  show "find_live_edge rel eid = None \<longleftrightarrow> no_edge rel eid"
    unfolding no_edge_def split_paired_All at by (auto simp: find_live_edge_def first_some_None split: if_splits)
  show "edge_at rel eid t" if found: "find_live_edge rel eid = Some t"
  proof -
    obtain b where "b < length rel"
        "first_some (\<lambda>off. if live_edge eid (rel ! b) off then Some (b, off) else None) (offsets (rel ! b)) = Some t"
      using first_some_in [OF found [unfolded find_live_edge_def]] by auto
    from this(1) first_some_in [OF this(2)]
    obtain k where "b < length rel" "k \<in> set (offsets (rel ! b))" "live_edge eid (rel ! b) k" "t = (b, k)"
      by (auto split: if_splits)
    then show ?thesis by (simp add: at)
  qed
qed

section \<open>Changes of one record\<close>

interpretation drop_edge: record_change "filter (\<lambda>e. er_edge_id e \<noteq> eid)" for eid
  by unfold_locales simp_all

interpretation change_edges: record_change "map f" for f
  by unfold_locales simp_all

lemma dedup_filter:
  "(\<And>i. P i \<Longrightarrow> i \<in> set seen \<longleftrightarrow> i \<in> set seen') \<Longrightarrow>
   dedup seen' (filter (\<lambda>e. P (er_edge_id e)) es) = filter (\<lambda>e. P (er_edge_id e)) (dedup seen es)"
proof (induction seen es arbitrary: seen' rule: dedup.induct)
  case (2 seen e es)
  have "dedup (er_edge_id e # seen') (filter (\<lambda>e. P (er_edge_id e)) es) =
      filter (\<lambda>e. P (er_edge_id e)) (dedup (er_edge_id e # seen) es)" if "er_edge_id e \<notin> set seen"
    using that 2(2) [OF that, of "er_edge_id e # seen'"] 2(3) by simp
  moreover have "dedup seen' (filter (\<lambda>e. P (er_edge_id e)) es) =
      filter (\<lambda>e. P (er_edge_id e)) (dedup (er_edge_id e # seen) es)" if "er_edge_id e \<notin> set seen" "\<not> P (er_edge_id e)"
    by (rule 2(2) [OF that(1)]) (use 2(3) that in auto)
  moreover have "dedup seen' (filter (\<lambda>e. P (er_edge_id e)) es) =
      filter (\<lambda>e. P (er_edge_id e)) (dedup seen es)" if "er_edge_id e \<in> set seen"
    by (rule 2(1) [OF that 2(3)])
  ultimately show ?case using 2(3) [of "er_edge_id e"] by auto
qed simp

lemma dedup_map:
  assumes "\<And>e. er_edge_id (f e) = er_edge_id e"
  shows "dedup seen (map f es) = map f (dedup seen es)"
  by (induction seen es rule: dedup.induct) (simp_all add: assms)

lemma edge_id_is_iff:
  "er_edge_id e = eid \<Longrightarrow> edge_id_is eid e = Some e" "er_edge_id e \<noteq> eid \<Longrightarrow> edge_id_is eid e = None"
  by (simp_all add: edge_id_is_def)

lemma first_id_filter: "first_some (edge_id_is other) (filter (\<lambda>e. er_edge_id e \<noteq> eid) es) =
    (if other = eid then None else first_some (edge_id_is other) es)"
proof (induction es)
  case (Cons e es)
  then show ?case by (cases "er_edge_id e = other") (auto simp: edge_id_is_iff)
qed simp

lemma first_id_map:
  assumes "\<And>e. er_edge_id (f e) = er_edge_id e"
  shows "first_some (edge_id_is other) (map f es) = map_option f (first_some (edge_id_is other) es)"
proof (induction es)
  case (Cons e es)
  then show ?case by (cases "er_edge_id e = other") (simp_all add: edge_id_is_iff assms)
qed simp

text \<open>Replacing one page of the edge relation by one that differs in the line at \<open>off\<close>.\<close>

lemma page_line_changed:
  assumes "list_all edge_page_ok rel" and at: "elines rel (b, off) = Some l"
    and q: "lines q = (lines (rel ! b))[off - 1 := l']" "edge_page_ok q"
    and "\<And>o'. links o' l' = links o' l"
  shows "line_changed rel (b, off) l l' (rel[b := q])"
proof -
  have p: "b < length rel" "1 \<le> off" "off \<le> max_off (rel ! b)"
    using elines_page [OF at] by blast+
  have "elines (rel[b := q]) = (elines rel)((b, off) \<mapsto> l')"
    by (rule elines_update [OF p(1) get_line_update [OF q(1) p(2,3)]])
  moreover have "locs (rel[b := q]) = locs rel"
    by (rule locs_update) (simp add: max_off_def q(1))
  moreover have "list_all edge_page_ok (rel[b := q])"
    using assms(1) q(2) p(1) by (simp add: list_all_length nth_list_update)
  ultimately show ?thesis using at assms(5) by (simp add: line_changed_def)
qed

section \<open>Delete\<close>

lemma edge_dead_links: "links o' (dead_line xmax l) = links o' l"
  by (cases "lp_item l") (simp_all add: links_def dead_line_def)

lemma edge_dead_recs: "line_recs filt t (dead_line xmax l) = []"
  by (cases "lp_item l") (simp_all add: line_recs_def dead_line_def delete_header_xmax)

lemma edge_dead_entry: "edge_entry pg t (dead_line xmax l) = []"
  by (simp add: edge_entry_def edge_dead_recs split: item.split)

lemma edge_dead_live: "\<not> live_edge_line i (dead_line xmax l)"
  by (cases "lp_item l") (auto simp: live_edge_line_def dead_line_def delete_header_xmax)

lemma edge_mark_ok:
  assumes "edge_page_ok p"
  shows "edge_page_ok (page_set_lsn (mark_deleted p off xmax) lsn)"
proof -
  have "edge_line (dead_line xmax l)" if "edge_line l" for l
    using that by (auto simp: edge_line_def dead_line_def)
  then have "list_all edge_line ((lines p)[off - 1 := dead_line xmax (lines p ! (off - 1))])"
    using assms by (cases "off - 1 < length (lines p)") (auto simp: edge_page_ok_def list_all_length nth_list_update)
  then show ?thesis
    using assms mark_deleted_wf [of p off xmax] by (simp add: edge_page_ok_def page_set_lsn_def mark_deleted_lines page_wf_def storage_def)
qed

lemma delete_edge_run:
  "delete_edge pg d eid = (case find_live_edge (edge_rel d) eid of
     None \<Rightarrow> (d, False)
   | Some (b, off) \<Rightarrow> (d\<lparr>edge_rel := (edge_rel d)[b := page_set_lsn (mark_deleted (edge_rel d ! b) off
         (CurrentTransactionId pg)) (Suc (length (wal d)))],
       wal := fst (log_edge_delete (wal d) b off (CurrentTransactionId pg))\<rparr>, True))"
  by (simp add: delete_edge_def find_live_edge_def log_edge_delete_def XLogInsert_def Let_def split: option.split)

lemma edge_deleted:
  assumes ok: "graph_ok d" and uniq: "unique_edges (edge_rel d)" and at: "edge_at (edge_rel d) eid t"
  shows "\<exists>d' l xmax. delete_edge pg d eid = (d', True) \<and> edge_at (edge_rel d) eid t \<and> elines (edge_rel d) t = Some l \<and>
    line_changed (edge_rel d) t l (dead_line xmax l) (edge_rel d') \<and>
    node_rel d' = node_rel d \<and> location_cache d' = location_cache d"
proof -
  note pages = graph_okD(8) [OF ok]
  obtain l where l: "elines (edge_rel d) t = Some l" using at by (auto simp: edge_at_def)
  have "\<not> no_edge (edge_rel d) eid" using at unfolding no_edge_def by blast
  then obtain u where u: "find_live_edge (edge_rel d) eid = Some u"
    using find_live_edge(1) [OF pages, of eid] by blast
  have "find_live_edge (edge_rel d) eid = Some t"
    using u unique_edgesD [OF uniq at find_live_edge(2) [OF pages u]] by simp
  moreover obtain b off where t: "t = (b, off)" by (cases t)
  moreover have "line_changed (edge_rel d) (b, off) l (dead_line xmax l)
      ((edge_rel d)[b := page_set_lsn (mark_deleted (edge_rel d ! b) off xmax) n])" for xmax n
  proof (rule page_line_changed [OF pages l [unfolded t] _ edge_mark_ok edge_dead_links])
    show "lines (page_set_lsn (mark_deleted (edge_rel d ! b) off xmax) n) =
        (lines (edge_rel d ! b))[off - 1 := dead_line xmax l]"
      using elines_page [OF l [unfolded t]] by (simp add: page_set_lsn_def mark_deleted_lines)
    show "edge_page_ok (edge_rel d ! b)"
      using pages elines_page [OF l [unfolded t]] by (simp add: list_all_length)
  qed
  ultimately show ?thesis using at l by (simp add: delete_edge_run) blast
qed

lemma dead_edge_at:
  assumes c: "line_changed rel t l (dead_line xmax l) rel'"
  shows "edge_at rel' i u \<longleftrightarrow> edge_at rel i u \<and> u \<noteq> t"
  using c edge_dead_live by (auto simp: edge_at_def line_changed_def)

definition without :: "i64 \<Rightarrow> EdgeRecord list \<Rightarrow> EdgeRecord list" where
  "without eid es = filter (\<lambda>e. er_edge_id e \<noteq> eid) es"

lemma delete_edge_graph:
  assumes ok: "graph_ok d" and uniq: "unique_edges (edge_rel d)" and at: "edge_at (edge_rel d) eid t"
  shows "\<exists>d'. delete_edge pg d eid = (d', True) \<and> graph_ok d' \<and> unique_edges (edge_rel d') \<and>
    (\<forall>i. no_edge (edge_rel d') i \<longleftrightarrow> no_edge (edge_rel d) i \<or> i = eid) \<and> node_rel d' = node_rel d \<and>
    (\<forall>n dir filt. adjacency_follow d' n dir filt = map_ok (without eid) (adjacency_follow d n dir filt)) \<and>
    scan_all_edges pg' (edge_rel d') = without eid (scan_all_edges pg' (edge_rel d))"
proof -
  obtain d' l xmax where del: "delete_edge pg d eid = (d', True)" and l: "elines (edge_rel d) t = Some l"
    and c: "line_changed (edge_rel d) t l (dead_line xmax l) (edge_rel d')"
    and n: "node_rel d' = node_rel d" "location_cache d' = location_cache d"
    using edge_deleted [OF assms] by blast
  have live: "live_edge_line eid l" using at l by (auto simp: edge_at_def)
  have gone: "filter (\<lambda>e. er_edge_id e \<noteq> eid) es = []" if "\<And>e. e \<in> set es \<Longrightarrow> live_edge_line (er_edge_id e) l" for es
    using that live_edge_line_id [OF live] by (auto simp: filter_empty_conv)
  have ok': "graph_ok d'" by (rule changed_graph_ok [OF ok c n])
  have "adjacency_follow d' i dir filt = map_ok (without eid) (adjacency_follow d i dir filt)" for i dir filt
    unfolding without_def
  proof (rule drop_edge.follow_changed [OF ok c n])
    show "line_recs filt t (dead_line xmax l) = filter (\<lambda>e. er_edge_id e \<noteq> eid) (line_recs filt t l)"
      by (simp add: edge_dead_recs gone line_recs_live)
    show "filter (\<lambda>e. er_edge_id e \<noteq> eid) (line_recs filt u k) = line_recs filt u k"
      if "elines (edge_rel d) u = Some k" "u \<noteq> t" for u k
      by (intro filter_True ballI line_recs_other [OF uniq at that])
    show "dedup [] (filter (\<lambda>e. er_edge_id e \<noteq> eid) es) = filter (\<lambda>e. er_edge_id e \<noteq> eid) (dedup [] es)" for es
      by (rule dedup_filter [where P = "\<lambda>i. i \<noteq> eid"]) simp
  qed
  moreover have "scan_view pg' (edge_rel d') = without eid (scan_view pg' (edge_rel d))"
    unfolding without_def
  proof (rule drop_edge.scan_changed [OF c])
    show "edge_entry pg' t (dead_line xmax l) = filter (\<lambda>e. er_edge_id e \<noteq> eid) (edge_entry pg' t l)"
      by (simp add: edge_dead_entry gone entry_live)
    show "filter (\<lambda>e. er_edge_id e \<noteq> eid) (edge_entry pg' u k) = edge_entry pg' u k"
      if "elines (edge_rel d) u = Some k" "u \<noteq> t" for u k
      by (intro filter_True ballI entry_other [OF uniq at that])
  qed
  then have "scan_all_edges pg' (edge_rel d') = without eid (scan_all_edges pg' (edge_rel d))"
    using graph_okD(8) [OF ok] graph_okD(8) [OF ok'] by (simp add: scan_all_view)
  moreover have "unique_edges (edge_rel d')"
    using uniq unfolding unique_edges_def dead_edge_at [OF c] by blast
  moreover have "no_edge (edge_rel d') i \<longleftrightarrow> no_edge (edge_rel d) i \<or> i = eid" for i
  proof (cases "i = eid")
    case True
    then show ?thesis using unique_edgesD [OF uniq at] unfolding no_edge_def dead_edge_at [OF c] by blast
  next
    case False
    then have "\<not> edge_at (edge_rel d) i t" using live l live_edge_line_id by (auto simp: edge_at_def)
    then show ?thesis using False unfolding no_edge_def dead_edge_at [OF c] by blast
  qed
  ultimately show ?thesis using del ok' n(1) by blast
qed

lemma delete_edge_absent:
  "graph_ok d \<Longrightarrow> no_edge (edge_rel d) eid \<Longrightarrow> delete_edge pg d eid = (d, False)"
  using find_live_edge(1) [of "edge_rel d" eid] by (simp add: delete_edge_run graph_okD(8))

section \<open>Updating the properties\<close>

definition with_props :: "i64 \<Rightarrow> bytes \<Rightarrow> EdgeRecord \<Rightarrow> EdgeRecord" where
  "with_props eid props e = (if er_edge_id e = eid then e\<lparr>er_prop_bytes := props\<rparr> else e)"

lemma with_props_id [simp]: "er_edge_id (with_props eid props e) = er_edge_id e"
  by (simp add: with_props_def)

definition props_line :: "bytes \<Rightarrow> line \<Rightarrow> line" where
  "props_line props l = l\<lparr>lp_item := with_data (replace_props props) (lp_item l)\<rparr>"

lemma props_line_next:
  assumes "edge_line l" and "length props \<le> PROP_INLINE_MAX"
  shows "links o' (props_line props l) = links o' l"
proof -
  obtain hdr data where l: "lp_item l = Tuple hdr data" "length data = EDGE_FIXED_DATA_SIZE + PROP_INLINE_MAX"
    using assms(1) by (auto simp: edge_line_def)
  then show ?thesis
    using replace_props_next [of data props o'] assms(2) by (simp add: links_def props_line_def layout_simps)
qed

lemma decode_replaced:
  assumes "length data = EDGE_FIXED_DATA_SIZE + PROP_INLINE_MAX" and "length props \<le> PROP_INLINE_MAX"
    and dec: "decode_edge_record data (length data) b k = Some e"
  shows "decode_edge_record (replace_props props data) (length data) b k = Some (e\<lparr>er_prop_bytes := props\<rparr>)"
proof -
  have p: "EDGE_FIXED_DATA_SIZE \<le> length data" "length props \<le> length data - EDGE_FIXED_DATA_SIZE" "length props < 2 ^ 16"
    using assms(1,2) by (simp_all add: layout_simps)
  note f = replace_props_fields [OF p]
  have n: "unat (of_nat (length props) :: u16) = length props"
    using p(3) by (simp add: unat_of_nat take_bit_nat_eq_self)
  have "decode_edge_record (replace_props props data) (length data) b k = Some \<lparr>
      er_edge_id = from_le (bslice 0 8 data), er_rel_type_id = from_le (bslice 8 12 data),
      er_source_node_id = from_le (bslice 12 20 data), er_target_node_id = from_le (bslice 20 28 data),
      er_prop_bytes = props, er_block_num = b, er_offset_num = k,
      er_next_out_page = from_le (bslice 28 32 data), er_next_out_slot = from_le (bslice 32 34 data),
      er_next_in_page = from_le (bslice 34 38 data), er_next_in_slot = from_le (bslice 38 40 data)\<rparr>"
    using assms(1,2) f n by (simp add: decode_edge_record_def Let_def layout_simps)
  moreover have "e\<lparr>er_prop_bytes := props\<rparr> = \<lparr>
      er_edge_id = from_le (bslice 0 8 data), er_rel_type_id = from_le (bslice 8 12 data),
      er_source_node_id = from_le (bslice 12 20 data), er_target_node_id = from_le (bslice 20 28 data),
      er_prop_bytes = props, er_block_num = b, er_offset_num = k,
      er_next_out_page = from_le (bslice 28 32 data), er_next_out_slot = from_le (bslice 32 34 data),
      er_next_in_page = from_le (bslice 34 38 data), er_next_in_slot = from_le (bslice 38 40 data)\<rparr>"
    using dec by (auto simp: decode_edge_record_def Let_def layout_simps split: if_splits)
  ultimately show ?thesis by simp
qed

lemma props_line_recs:
  assumes "edge_line l" and props: "length props \<le> PROP_INLINE_MAX" and live: "live_edge_line eid l"
    and dec: "e \<in> set (line_recs None t l)"
  shows "line_recs filt t (props_line props l) = map (with_props eid props) (line_recs filt t l)"
proof -
  obtain hdr data where l: "lp_item l = Tuple hdr data" "length data = EDGE_FIXED_DATA_SIZE + PROP_INLINE_MAX"
    using assms(1) by (auto simp: edge_line_def)
  have h: "xmax_invalid hdr" "lp_flags l = LP_NORMAL"
      and e: "decode_edge_record data (length data) (fst t) (snd t) = Some e"
    using dec unfolding line_recs_None [OF l(1)] by (auto simp: opt_list_def split: if_splits option.splits)
  note e' = decode_replaced [OF l(2) props e]
  have len: "length (replace_props props data) = length data"
    by (rule replace_props_fields(1)) (use l(2) props in \<open>simp_all add: layout_simps\<close>)
  have pl: "lp_item (props_line props l) = Tuple hdr (replace_props props data)" "lp_flags (props_line props l) = lp_flags l"
    by (simp_all add: props_line_def l(1))
  have id: "er_edge_id e = eid"
    using live decode_edge_id [OF e] l(1) by (auto simp: live_edge_line_def)
  have "passes_filter filt (e\<lparr>er_prop_bytes := props\<rparr>) = passes_filter filt e"
    by (cases filt) (simp_all add: passes_filter_def)
  moreover have "line_recs filt t (props_line props l) =
      (if passes_filter filt (e\<lparr>er_prop_bytes := props\<rparr>) then [e\<lparr>er_prop_bytes := props\<rparr>] else [])"
    using h by (simp only: line_recs_def pl item.case len e' option.case simp_thms if_True)
  moreover have "line_recs filt t l = (if passes_filter filt e then [e] else [])"
    using h by (simp only: line_recs_def l(1) item.case e option.case simp_thms if_True)
  moreover have "with_props eid props e = e\<lparr>er_prop_bytes := props\<rparr>" using id by (simp add: with_props_def)
  ultimately show ?thesis by (cases "passes_filter filt e") (simp_all only: list.map if_True if_False)
qed

lemma props_line_entry:
  assumes "edge_line l" and "length props \<le> PROP_INLINE_MAX" and "live_edge_line eid l" and "e \<in> set (line_recs None t l)"
  shows "edge_entry pg t (props_line props l) = map (with_props eid props) (edge_entry pg t l)"
proof -
  obtain hdr data where l: "lp_item l = Tuple hdr data" using assms(1) by (auto simp: edge_line_def)
  then have "lp_item (props_line props l) = Tuple hdr (replace_props props data)" by (simp add: props_line_def)
  then show ?thesis using props_line_recs [OF assms, of None] l by (simp add: edge_entry_def)
qed

lemma props_line_live:
  assumes "edge_line l" and props: "length props \<le> PROP_INLINE_MAX"
  shows "live_edge_line i (props_line props l) \<longleftrightarrow> live_edge_line i l"
proof -
  obtain hdr data where l: "lp_item l = Tuple hdr data" "length data = EDGE_FIXED_DATA_SIZE + PROP_INLINE_MAX"
    using assms(1) by (auto simp: edge_line_def)
  have "bslice 0 8 (replace_props props data) = bslice 0 8 data"
    by (rule replace_props_fields(2)) (use l(2) props in \<open>simp_all add: layout_simps\<close>)
  then show ?thesis using l(1) by (simp add: live_edge_line_def props_line_def layout_simps)
qed

text \<open>The search of \<open>update_edge_props\<close> and of \<open>find_edge_by_id\<close>.\<close>

definition find_edge_slot :: "'snap pg \<Rightarrow> page list \<Rightarrow> i64 \<Rightarrow> (nat \<times> nat) option" where
  "find_edge_slot pg rel eid = first_some (\<lambda>blkno. first_some (\<lambda>off.
     map_option (\<lambda>rec. (blkno, off)) (edge_with_id pg eid (rel ! blkno) blkno off)) (offsets (rel ! blkno))) [0..<length rel]"

definition location_of :: "EdgeRecord \<Rightarrow> nat \<times> nat" where
  "location_of e = (er_block_num e, er_offset_num e)"

lemma decode_location: "decode_edge_record data n b k = Some e \<Longrightarrow> location_of e = (b, k)"
  by (auto simp: decode_edge_record_def Let_def location_of_def split: if_splits)

lemma first_some_map_option: "first_some (\<lambda>x. map_option f (g x)) xs = map_option f (first_some g xs)"
  by (induction xs) (auto split: option.splits)

lemma find_edge_slot: "find_edge_slot pg rel eid = map_option location_of (find_edge_by_id pg rel eid)"
proof -
  have "map_option (\<lambda>rec. (b, k)) (edge_with_id pg eid p b k) = map_option location_of (edge_with_id pg eid p b k)" for b k p
    using decode_location
    by (fastforce simp: edge_with_id_def read_edge_at_offset_def split: option.splits item.splits if_splits)
  then show ?thesis
    by (simp add: find_edge_slot_def find_edge_by_id_def first_some_map_option)
qed

lemma entry_location: "e \<in> set (edge_entry pg t l) \<Longrightarrow> location_of e = t \<and> e \<in> set (line_recs None t l)"
proof (cases "lp_item l")
  case (Tuple hdr data)
  assume "e \<in> set (edge_entry pg t l)"
  then have "e \<in> set (line_recs None t l)" by (auto simp: edge_entry_def Tuple split: if_splits)
  then show ?thesis
    using decode_location [of data "length data" "fst t" "snd t" e]
    unfolding line_recs_None [OF Tuple] by (auto simp: opt_list_def split: if_splits option.splits)
qed (simp add: edge_entry_def)

lemma find_edge_found:
  assumes "list_all edge_page_ok rel" and "find_edge_by_id pg rel eid = Some e"
  shows "\<exists>l. elines rel (location_of e) = Some l \<and> live_edge_line eid l \<and>
    e \<in> set (line_recs None (location_of e) l) \<and> er_edge_id e = eid"
proof -
  have "e \<in> set (scan_view pg rel)" "er_edge_id e = eid"
    using assms(2) unfolding find_edge_scan scan_all_view [OF assms(1)]
    by (auto dest!: first_some_in simp: edge_id_is_def split: if_splits)
  then obtain t where t: "t \<in> set (locs rel)" "e \<in> set (edge_entry pg t (the (elines rel t)))"
    by (auto simp: scan_view_def)
  then have "elines rel t = Some (the (elines rel t))" by (simp add: in_locs)
  then show ?thesis
    using entry_location [OF t(2)] entry_live [OF t(2)] \<open>er_edge_id e = eid\<close> by auto
qed

lemma props_page_ok:
  assumes "edge_page_ok p" and "length props \<le> PROP_INLINE_MAX" and "1 \<le> off" and "off \<le> max_off p"
  shows "edge_page_ok (modify_item p off (with_data (replace_props props)))"
    "lines (modify_item p off (with_data (replace_props props))) =
      (lines p)[off - 1 := props_line props (lines p ! (off - 1))]"
proof -
  let ?q = "modify_item p off (with_data (replace_props props))" and ?l = "lines p ! (off - 1)"
  show q: "lines ?q = (lines p)[off - 1 := props_line props ?l]"
    by (simp add: modify_item_def set_item_def props_line_def)
  have n: "off - 1 < length (lines p)" using assms(3,4) by (simp add: max_off_def)
  then have l: "edge_line ?l" using assms(1) by (simp add: edge_page_ok_def list_all_length)
  then obtain hdr data where d: "lp_item ?l = Tuple hdr data" "length data = EDGE_FIXED_DATA_SIZE + PROP_INLINE_MAX"
    by (auto simp: edge_line_def)
  have len: "length (replace_props props data) = length data"
    by (rule replace_props_fields(1)) (use d(2) assms(2) in \<open>simp_all add: layout_simps\<close>)
  have "edge_line (props_line props ?l)" using l d len by (simp add: edge_line_def props_line_def)
  then have "list_all edge_line (lines ?q)"
    using assms(1) n unfolding q by (simp add: edge_page_ok_def list_all_length nth_list_update)
  moreover have "line_storage (props_line props ?l) = line_storage ?l"
    using d len by (simp add: line_storage_def props_line_def)
  then have "map line_storage (lines ?q) = map line_storage (lines p)"
    unfolding q map_update by (metis n nth_map list_update_id)
  then have "storage ?q = storage p" by (simp only: storage_def)
  then have "page_wf ?q"
    using assms(1) by (simp add: edge_page_ok_def page_wf_def q) (simp add: modify_item_def set_item_def)
  ultimately show "edge_page_ok ?q"
    using assms(1) by (simp add: edge_page_ok_def) (simp add: modify_item_def set_item_def)
qed

lemma update_edge_run:
  assumes "list_all edge_page_ok (edge_rel d)" and props: "length props \<le> PROP_INLINE_MAX"
    and found: "find_edge_by_id pg (edge_rel d) eid = Some e"
  shows "\<exists>d' l. update_edge_props pg d eid props = Inr (d', True) \<and> elines (edge_rel d) (location_of e) = Some l \<and>
    line_changed (edge_rel d) (location_of e) l (props_line props l) (edge_rel d') \<and>
    node_rel d' = node_rel d \<and> location_cache d' = location_cache d \<and> wal d' = wal d"
proof -
  obtain l where l: "elines (edge_rel d) (location_of e) = Some l"
    using find_edge_found [OF assms(1) found] by blast
  obtain b off where t: "location_of e = (b, off)" by (cases "location_of e")
  note p = elines_page [OF l [unfolded t]]
  have ok: "edge_page_ok (edge_rel d ! b)" using assms(1) p by (simp add: list_all_length)
  have el: "edge_line l" by (rule elines_line [OF assms(1) l])
  then have space: "item_len (lp_item (lines (edge_rel d ! b) ! (off - 1))) - hdr_size - EDGE_FIXED_DATA_SIZE = PROP_INLINE_MAX"
    using p by (auto simp: edge_line_def hdr_size_def)
  let ?q = "modify_item (edge_rel d ! b) off (with_data (replace_props props))"
  have "find_edge_slot pg (edge_rel d) eid = Some (b, off)" by (simp add: find_edge_slot found t)
  then have "update_edge_props pg d eid props = Inr (d\<lparr>edge_rel := (edge_rel d)[b := ?q]\<rparr>, True)"
    using props space by (simp add: update_edge_props_def find_edge_slot_def Let_def)
  moreover have "line_changed (edge_rel d) (b, off) l (props_line props l) ((edge_rel d)[b := ?q])"
    by (rule page_line_changed [OF assms(1) l [unfolded t] _ _ props_line_next [OF el props]])
      (use props_page_ok [OF ok props] p in auto)
  ultimately show ?thesis using l by (auto simp: t)
qed

lemma props_edge_at:
  assumes "list_all edge_page_ok rel" and "length props \<le> PROP_INLINE_MAX"
    and c: "line_changed rel t l (props_line props l) rel'"
  shows "edge_at rel' i u \<longleftrightarrow> edge_at rel i u"
  using c props_line_live [OF elines_line [OF assms(1)] assms(2), of t l]
  by (auto simp: edge_at_def line_changed_def)

lemma update_edge_graph:
  assumes ok: "graph_ok d" and uniq: "unique_edges (edge_rel d)" and props: "length props \<le> PROP_INLINE_MAX"
    and found: "find_edge_by_id pg (edge_rel d) eid = Some e"
  shows "\<exists>d'. update_edge_props pg d eid props = Inr (d', True) \<and> graph_ok d' \<and> unique_edges (edge_rel d') \<and>
    node_rel d' = node_rel d \<and> wal d' = wal d \<and> (\<forall>i. no_edge (edge_rel d') i \<longleftrightarrow> no_edge (edge_rel d) i) \<and>
    (\<forall>n dir filt. adjacency_follow d' n dir filt = map_ok (map (with_props eid props)) (adjacency_follow d n dir filt)) \<and>
    scan_all_edges pg' (edge_rel d') = map (with_props eid props) (scan_all_edges pg' (edge_rel d))"
proof -
  note pages = graph_okD(8) [OF ok]
  obtain d' l where upd: "update_edge_props pg d eid props = Inr (d', True)" and l: "elines (edge_rel d) (location_of e) = Some l"
    and c: "line_changed (edge_rel d) (location_of e) l (props_line props l) (edge_rel d')"
    and n: "node_rel d' = node_rel d" "location_cache d' = location_cache d" and w: "wal d' = wal d"
    using update_edge_run [OF pages props found] by blast
  obtain live: "live_edge_line eid l" and rec: "e \<in> set (line_recs None (location_of e) l)"
    using find_edge_found [OF pages found] l by auto
  have at: "edge_at (edge_rel d) eid (location_of e)" using live l by (auto simp: edge_at_def)
  have el: "edge_line l" by (rule elines_line [OF pages l])
  have same: "map (with_props eid props) es = es" if "\<And>e. e \<in> set es \<Longrightarrow> er_edge_id e \<noteq> eid" for es
    using that by (simp add: map_idI with_props_def)
  have ok': "graph_ok d'" by (rule changed_graph_ok [OF ok c n])
  have "adjacency_follow d' i dir filt = map_ok (map (with_props eid props)) (adjacency_follow d i dir filt)" for i dir filt
  proof (rule change_edges.follow_changed [OF ok c n])
    show "line_recs filt (location_of e) (props_line props l) =
        map (with_props eid props) (line_recs filt (location_of e) l)"
      by (rule props_line_recs [OF el props live rec])
    show "map (with_props eid props) (line_recs filt u k) = line_recs filt u k"
      if "elines (edge_rel d) u = Some k" "u \<noteq> location_of e" for u k
      by (rule same [OF line_recs_other [OF uniq at that]])
    show "dedup [] (map (with_props eid props) es) = map (with_props eid props) (dedup [] es)" for es
      by (rule dedup_map) simp
  qed
  moreover have "scan_view pg' (edge_rel d') = map (with_props eid props) (scan_view pg' (edge_rel d))"
    by (rule change_edges.scan_changed [OF c props_line_entry [OF el props live rec] same [OF entry_other [OF uniq at]]])
  then have "scan_all_edges pg' (edge_rel d') = map (with_props eid props) (scan_all_edges pg' (edge_rel d))"
    using pages graph_okD(8) [OF ok'] by (simp add: scan_all_view)
  moreover have "unique_edges (edge_rel d')"
    using uniq unfolding unique_edges_def props_edge_at [OF pages props c] .
  moreover have "no_edge (edge_rel d') i \<longleftrightarrow> no_edge (edge_rel d) i" for i
    unfolding no_edge_def props_edge_at [OF pages props c] by blast
  ultimately show ?thesis using upd ok' n(1) w by blast
qed

lemma update_edge_absent:
  assumes "length props \<le> PROP_INLINE_MAX" and "find_edge_by_id pg (edge_rel d) eid = None"
  shows "update_edge_props pg d eid props = Inr (d, False)"
proof -
  have "find_edge_slot pg (edge_rel d) eid = None" by (simp add: find_edge_slot assms(2))
  then show ?thesis using assms(1) by (simp add: update_edge_props_def find_edge_slot_def)
qed

end
