(* ===== verification/GraphProperties.thy ===== *)
theory GraphProperties
  imports EdgeLifecycle
begin

text \<open>
  The edge operations on the whole graph: what one insert, delete or update means for the invariant,
  for all adjacency lists and for the scans, and the traversal as a total function.
\<close>

section \<open>Insert\<close>

lemma fresh_edge_visible:
  assumes "txn_ok pg"
  shows "edge_xmin_visible pg (fresh_at pg b k)"
proof -
  have "(HEAP_XMAX_INVALID AND HEAP_XMIN_COMMITTED) = 0" "(HEAP_XMAX_INVALID AND HEAP_XMIN_INVALID) = 0"
    by (simp_all add: HEAP_XMAX_INVALID_def HEAP_XMIN_COMMITTED_def HEAP_XMIN_INVALID_def)
  then show ?thesis
    using assms by (simp add: edge_xmin_visible_def fresh_at_def fresh_header_def txn_ok_def)
qed

lemma new_edge_entry:
  assumes "txn_ok pg" and "length props \<le> PROP_INLINE_MAX"
  shows "edge_entry pg e (edge_line_at pg (fst e) (snd e) (edge_bytes eid ty src tgt hs ht props)) =
    [added_record eid ty src tgt props hs ht e]"
  using new_line_recs [OF assms(2), of None e] fresh_edge_visible [OF assms(1)]
  by (simp add: edge_entry_def edge_line_at_def)

lemma new_edge_live:
  assumes "length props \<le> PROP_INLINE_MAX"
  shows "live_edge_line i (edge_line_at pg (fst e) (snd e) (edge_bytes eid ty src tgt hs ht props)) \<longleftrightarrow> i = eid"
proof -
  have "e' \<in> set (line_recs None e (edge_line_at pg (fst e) (snd e) (edge_bytes eid ty src tgt hs ht props))) \<longleftrightarrow>
      e' = added_record eid ty src tgt props hs ht e" for e'
    by (simp add: new_line_recs [OF assms])
  then have "live_edge_line eid (edge_line_at pg (fst e) (snd e) (edge_bytes eid ty src tgt hs ht props))"
    using line_recs_live [of "added_record eid ty src tgt props hs ht e" None e]
    by (simp add: added_record_def edge_record_def)
  then show ?thesis using live_edge_line_id by blast
qed

lemma added_edge_at:
  assumes "edge_added pg d eid ty src tgt props s t hs ht e d'" and "length props \<le> PROP_INLINE_MAX"
  shows "edge_at (edge_rel d') i u \<longleftrightarrow> (if u = e then i = eid else edge_at (edge_rel d) i u)"
proof -
  have "elines (edge_rel d') = (elines (edge_rel d))
      (e \<mapsto> edge_line_at pg (fst e) (snd e) (edge_bytes eid ty src tgt hs ht props))"
    using assms(1) by (simp add: edge_added_def)
  then show ?thesis by (simp add: edge_at_def new_edge_live [OF assms(2)])
qed

lemma added_scan:
  assumes txn: "txn_ok pg" and ok: "list_all edge_page_ok (edge_rel d)"
    and add: "edge_added pg d eid ty src tgt props s t hs ht e d'" and props: "length props \<le> PROP_INLINE_MAX"
  shows "scan_all_edges pg (edge_rel d') = scan_all_edges pg (edge_rel d) @ [added_record eid ty src tgt props hs ht e]"
proof -
  let ?l = "edge_line_at pg (fst e) (snd e) (edge_bytes eid ty src tgt hs ht props)"
  have el: "elines (edge_rel d') = (elines (edge_rel d))(e \<mapsto> ?l)" and locs: "locs (edge_rel d') = locs (edge_rel d) @ [e]"
    and fresh: "elines (edge_rel d) e = None" and ok': "list_all edge_page_ok (edge_rel d')"
    using add behind_fresh by (simp_all add: edge_added_def)
  have "concat (map (\<lambda>u. edge_entry pg u (the (elines (edge_rel d') u))) (locs (edge_rel d))) = scan_view pg (edge_rel d)"
    unfolding scan_view_def
  proof (rule concat_map_cong)
    fix u assume "u \<in> set (locs (edge_rel d))"
    then have "u \<noteq> e" using fresh by (auto simp: in_locs)
    then show "edge_entry pg u (the (elines (edge_rel d') u)) = edge_entry pg u (the (elines (edge_rel d) u))"
      by (simp add: el)
  qed
  moreover have "edge_entry pg e (the (elines (edge_rel d') e)) = [added_record eid ty src tgt props hs ht e]"
    using new_edge_entry [OF txn props, of e] by (simp add: el)
  ultimately have "scan_view pg (edge_rel d') = scan_view pg (edge_rel d) @ [added_record eid ty src tgt props hs ht e]"
    by (simp add: scan_view_def locs)
  then show ?thesis by (simp add: scan_all_view [OF ok] scan_all_view [OF ok'])
qed

text \<open>A live node whose adjacency header lies inside the special area of its page.\<close>

definition linkable :: "db \<Rightarrow> i64 \<Rightarrow> bool" where
  "linkable d n \<longleftrightarrow> (\<exists>t. live_at (node_rel d) n t \<and> old_slot (node_rel d) t < MAX_NODE_SLOTS_PER_PAGE)"

lemma linkable_header:
  assumes "graph_ok d" and "linkable d n"
  shows "\<exists>t h. live_at (node_rel d) n t \<and> header_at (node_rel d) (slot_of (node_rel d) t) = Inr h \<and>
    find_node_location d n = Inr (Some (fst t, snd t, old_slot (node_rel d) t))"
proof -
  obtain t where t: "live_at (node_rel d) n t" "old_slot (node_rel d) t < MAX_NODE_SLOTS_PER_PAGE"
    using assms(2) by (auto simp: linkable_def)
  note store = graph_okD(1) [OF assms(1)]
  have "in_special (node_rel d) (slot_of (node_rel d) t)" by (rule live_in_special [OF store t])
  then have "\<exists>h. header_at (node_rel d) (slot_of (node_rel d) t) = Inr h" 
    by (simp add: header_at_eq in_special_def)
  then show ?thesis using t(1) live_location [OF store t(1)] by blast
qed

text \<open>An edge record with these contents, wherever it is stored.\<close>

definition edge_is :: "EdgeRecord \<Rightarrow> i64 \<Rightarrow> i32 \<Rightarrow> i64 \<Rightarrow> i64 \<Rightarrow> bytes \<Rightarrow> bool" where
  "edge_is e eid ty src tgt props \<longleftrightarrow> er_edge_id e = eid \<and> er_rel_type_id e = ty \<and> er_source_node_id e = src \<and>
     er_target_node_id e = tgt \<and> er_prop_bytes e = props"

lemma insert_edge_graph:
  assumes pg: "pg_ok pg" "txn_ok pg" and ok: "graph_ok d" and uniq: "unique_edges (edge_rel d)"
    and fresh: "no_edge (edge_rel d) eid" and src: "linkable d src" and tgt: "linkable d tgt"
    and props: "length props \<le> PROP_INLINE_MAX" and small: "length (edge_rel d) < 2 ^ 32"
  shows "\<exists>d' rec. insert_edge pg d eid ty src tgt props = Inr d' \<and> graph_ok d' \<and> unique_edges (edge_rel d') \<and>
    same_items (node_rel d) (node_rel d') \<and>
    (\<forall>i. no_edge (edge_rel d') i \<longleftrightarrow> no_edge (edge_rel d) i \<and> i \<noteq> eid) \<and>
    edge_is rec eid ty src tgt props \<and>
    (\<forall>n filt. adjacency_follow d' n Out filt = map_ok ((@) (front (n = src) filt rec)) (adjacency_follow d n Out filt) \<and>
      adjacency_follow d' n In filt = map_ok ((@) (front (n = tgt) filt rec)) (adjacency_follow d n In filt)) \<and>
    scan_all_edges pg (edge_rel d') = scan_all_edges pg (edge_rel d) @ [rec]"
proof -
  note pages = graph_okD(8) [OF ok]
  obtain us hs where us: "live_at (node_rel d) src us" "header_at (node_rel d) (slot_of (node_rel d) us) = Inr hs"
      "find_node_location d src = Inr (Some (fst us, snd us, old_slot (node_rel d) us))"
    using linkable_header [OF ok src] by blast
  obtain ut ht where ut: "live_at (node_rel d) tgt ut" "header_at (node_rel d) (slot_of (node_rel d) ut) = Inr ht"
      "find_node_location d tgt = Inr (Some (fst ut, snd ut, old_slot (node_rel d) ut))"
    using linkable_header [OF ok tgt] by blast
  let ?s = "slot_of (node_rel d) us" and ?t = "slot_of (node_rel d) ut"
  obtain d' e where run: "insert_edge pg d eid ty src tgt props = Inr d'"
    and add: "edge_added pg d eid ty src tgt props ?s ?t hs ht e d'"
    using insert_edge_added [OF pg(1) pages us(3) _ ut(3) _ props small, of hs ht eid ty] us(2) ut(2)
    by (auto simp: slot_of_def)
  note at = added_edge_at [OF add props]
  have "elines (edge_rel d) e = None" using add behind_fresh by (simp add: edge_added_def)
  then have old: "\<not> edge_at (edge_rel d) i e" for i by (simp add: edge_at_def)
  have "unique_edges (edge_rel d')"
    using uniq fresh unfolding unique_edges_def no_edge_def at by (metis (no_types))
  moreover have "no_edge (edge_rel d') i \<longleftrightarrow> no_edge (edge_rel d) i \<and> i \<noteq> eid" for i
    using old [of i] unfolding no_edge_def at by metis
  moreover have "graph_ok d'" by (rule added_graph_ok [OF ok add props us(1) refl ut(1) refl])
  moreover have "same_items (node_rel d) (node_rel d')" using add by (simp add: edge_added_def)
  moreover have "edge_is (added_record eid ty src tgt props hs ht e) eid ty src tgt props"
    by (simp add: edge_is_def added_record_def edge_record_def)
  ultimately show ?thesis
    using run added_follow [OF ok add props us(1) refl ut(1) refl] added_scan [OF pg(2) pages add props] by blast
qed

section \<open>The traversal is total\<close>

lemma follow_linkable:
  assumes ok: "graph_ok d" and link: "linkable d n"
  shows "\<exists>outs ins. \<forall>filt dir. adjacency_follow d n dir filt =
    Some (Inr (directed dir (filter (passes_filter filt) outs) (filter (passes_filter filt) ins)))"
proof -
  obtain t h where t: "live_at (node_rel d) n t" and h: "header_at (node_rel d) (slot_of (node_rel d) t) = Inr h"
    using linkable_header [OF ok link] by blast
  obtain ts ts' where ts: "chain (edge_rel d) True (out_head h) ts" "chain (edge_rel d) False (in_head h) ts'"
    using heads_chains [OF ok h] by blast
  show ?thesis
    by (intro exI allI) (unfold follow_live [OF ok t h ts], subst (1 2) walk_filter, rule refl)
qed

lemma follow_not_linkable:
  assumes "graph_ok d" and "\<not> absent d n" and "\<not> linkable d n"
  shows "\<exists>slot. adjacency_follow d n dir filt = Some (Inl (OutOfPage slot)) \<and> MAX_NODE_SLOTS_PER_PAGE \<le> slot"
proof -
  obtain t where t: "live_at (node_rel d) n t" using assms(2) unfolding absent_def by blast
  have slot: "MAX_NODE_SLOTS_PER_PAGE \<le> old_slot (node_rel d) t"
    using assms(3) t unfolding linkable_def by (meson not_le)
  obtain l where l: "tids (node_rel d) (fst t, snd t) = Some l" using t by (auto simp: live_at_def)
  note p = tids_page [OF l]
  then have "node_page_ok (node_rel d ! fst t)"
    using node_rel_node_page graph_okD(1) [OF assms(1)] by (auto simp: node_store_ok_def)
  then have "length (special (node_rel d ! fst t)) = 2400"
    by (simp add: node_page_ok_def page_wf_def layout_simps)
  then have "header_at (node_rel d) (slot_of (node_rel d) t) = Inl (OutOfPage (old_slot (node_rel d) t))"
    using p slot by (simp add: header_at_def slot_of_def get_page_def read_adj_header_def layout_simps)
  from follow_no_header [OF assms(1) t this] show ?thesis using slot by blast
qed

section \<open>Examples\<close>

text \<open>Two nodes, and the same with an edge from the first to the second.\<close>

definition demo_nodes :: db where
  "demo_nodes = (case bindE (insert_node ref_pg empty_db 1 [] []) (\<lambda>(d, t). insert_node ref_pg d 2 [] []) of
     Inr (d, t) \<Rightarrow> d | Inl e \<Rightarrow> empty_db)"

definition demo_graph :: db where
  "demo_graph = (case insert_edge ref_pg demo_nodes 5 3 1 2 [42] of Inr d \<Rightarrow> d | Inl e \<Rightarrow> empty_db)"

lemma tids_below:
  assumes "tids rel (b, k) \<noteq> None" and "1 \<le> i" and "i \<le> k"
  shows "tids rel (b, i) \<noteq> None"
  using assms by (auto simp: tids_def get_line_def split: if_splits)

lemma graph_ok_empty: "graph_ok empty_db" "unique_edges (edge_rel empty_db)" "no_edge (edge_rel empty_db) i"
proof -
  have e: "elines [] t = None" "tids [] t = None" for t by (auto simp: elines_def tids_def split: prod.split)
  have h: "header_at [] x = Inl (ReadBeyondEnd (fst x))" for x by (simp add: header_at_def get_page_def)
  show "graph_ok empty_db"
    using empty_db_ok(1)
    by (simp add: graph_ok_def edge_rel_ok_def links_ok_def heads_ok_def slots_distinct_def slots_used_def
        unused_empty_def live_at_def empty_db_def e h)
  show "unique_edges (edge_rel empty_db)" "no_edge (edge_rel empty_db) i"
    by (simp_all add: unique_edges_def no_edge_def edge_at_def empty_db_def e)
qed

lemma demo_insert:
  assumes ok: "graph_ok d" and absent: "absent d n"
    and few: "\<And>b. tids (node_rel d) (b, m) = None" and m: "1 \<le> m" "m \<le> 50"
  shows "\<exists>d' t. insert_node ref_pg d n [] [] = Inr (d', t) \<and> graph_ok d' \<and> edge_rel d' = edge_rel d \<and>
    linkable d' n \<and> (\<forall>i. i \<noteq> n \<longrightarrow> linkable d i \<longrightarrow> linkable d' i) \<and> (\<forall>i. i \<noteq> n \<longrightarrow> absent d i \<longrightarrow> absent d' i) \<and>
    (\<forall>b. tids (node_rel d') (b, Suc m) = None) \<and> snd t \<le> m"
proof -
  have "node_rel_ok (node_rel d)" using graph_okD(1) [OF ok] by (simp add: node_store_ok_def)
  then obtain d' blk off where run: "insert_node ref_pg d n [] [] = Inr (d', (blk, off))"
    and res: "insert_result ref_pg d n [] [] d' blk off"
    using insert_inline [OF pg_ok_ref txn_ok_ref, of d "[]" "[]" n] by auto
  obtain l where l: "tids (node_rel d') = (tids (node_rel d))((blk, off) \<mapsto> l)" "live_line n l"
      "tids (node_rel d) (blk, off) = None" "item_slot (lp_item l) = off - 1"
    using res by (auto simp: insert_result_def)
  have pos: "1 \<le> off" using tids_page [of "node_rel d'" blk off l] l(1) by simp
  have "off \<le> m"
  proof (rule ccontr)
    assume "\<not> off \<le> m"
    then have "tids (node_rel d') (blk, m) \<noteq> None" using tids_below [of "node_rel d'" blk off m] l(1) m by simp
    then show False using few [of blk] \<open>\<not> off \<le> m\<close> by (simp add: l(1))
  qed
  have slot: "old_slot (node_rel d') t = (if t = (blk, off) then off - 1 else old_slot (node_rel d) t)" for t
    using l by (simp add: old_slot_def)
  have live: "live_at (node_rel d') i t \<longleftrightarrow> (if t = (blk, off) then i = n else live_at (node_rel d) i t)" for i t
    using l live_line_id by (auto simp: live_at_def)
  have "linkable d' n"
    unfolding linkable_def by (rule exI [of _ "(blk, off)"]) (use \<open>off \<le> m\<close> m pos in \<open>simp add: live slot layout_simps\<close>)
  moreover have "linkable d' i" if link: "linkable d i" for i
  proof -
    obtain t where "live_at (node_rel d) i t" "old_slot (node_rel d) t < MAX_NODE_SLOTS_PER_PAGE"
      using link unfolding linkable_def by blast
    moreover from this(1) l(3) have "t \<noteq> (blk, off)" by (auto simp: live_at_def)
    ultimately show ?thesis unfolding linkable_def by (intro exI [of _ t]) (simp add: live slot)
  qed
  moreover have "absent d' i" if "absent d i" "i \<noteq> n" for i
    using that unfolding absent_def live by simp
  moreover have "tids (node_rel d') (b, Suc m) = None" for b
  proof -
    have "tids (node_rel d) (b, Suc m) = None"
      using few [of b] tids_below [of "node_rel d" b "Suc m" m] m by (cases "tids (node_rel d) (b, Suc m)") simp_all
    then show ?thesis using \<open>off \<le> m\<close> by (simp add: l(1))
  qed
  ultimately show ?thesis
    using run insert_node_graph(1) [OF ok absent res] res \<open>off \<le> m\<close> by (auto simp: insert_result_def)
qed

lemma demo_steps:
  "\<exists>d t t'. insert_node ref_pg empty_db 1 [] [] = Inr (d, t) \<and> snd t \<le> 1 \<and>
    insert_node ref_pg d 2 [] [] = Inr (demo_nodes, t') \<and> snd t' \<le> 2 \<and>
    graph_ok demo_nodes \<and> edge_rel demo_nodes = [] \<and> linkable demo_nodes 1 \<and> linkable demo_nodes 2"
proof -
  have "tids (node_rel empty_db) (b, 1) = None" for b by (simp add: empty_db_def tids_def)
  then obtain d t where d: "insert_node ref_pg empty_db 1 [] [] = Inr (d, t)" "graph_ok d" "edge_rel d = edge_rel empty_db"
      "linkable d 1" "\<forall>i. i \<noteq> 1 \<longrightarrow> absent empty_db i \<longrightarrow> absent d i" "\<forall>b. tids (node_rel d) (b, Suc 1) = None" "snd t \<le> 1"
    using demo_insert [OF graph_ok_empty(1) empty_db_ok(2), of 1 1] by auto
  then have "absent d 2" using empty_db_ok(2) by simp
  then obtain d' t' where "insert_node ref_pg d 2 [] [] = Inr (d', t')" "graph_ok d'" "edge_rel d' = edge_rel d"
      "linkable d' 2" "linkable d' 1" "snd t' \<le> 2"
    using demo_insert [OF d(2), of 2 2] d(4,6) by (fastforce simp: numeral_2_eq_2)
  moreover from this have "d' = demo_nodes" using d(1) by (simp add: demo_nodes_def)
  ultimately show ?thesis using d(1,3,7) by (metis db.select_convs(2) empty_db_def)
qed

lemma demo_nodes_ok:
  "graph_ok demo_nodes \<and> edge_rel demo_nodes = [] \<and> linkable demo_nodes 1 \<and> linkable demo_nodes 2"
  using demo_steps by blast

lemma no_edges: "edge_rel d = [] \<Longrightarrow> unique_edges (edge_rel d) \<and> no_edge (edge_rel d) i"
  by (simp add: unique_edges_def no_edge_def edge_at_def elines_def split: prod.split)

lemma follow_no_edges:
  assumes ok: "graph_ok d" and none: "edge_rel d = []" and link: "linkable d n"
  shows "adjacency_follow d n dir filt = Some (Inr [])"
proof -
  obtain t h where t: "live_at (node_rel d) n t" and h: "header_at (node_rel d) (slot_of (node_rel d) t) = Inr h"
    using linkable_header [OF ok link] by blast
  have "ptr_ok [] (out_head h) \<and> ptr_ok [] (in_head h)"
    using graph_okD(3) [OF ok] h none unfolding heads_ok_def by metis
  then have "empty_header h"
    by (simp add: ptr_ok_def empty_header_def elines_def split: prod.splits)
  from follow_empty [OF ok t h this] show ?thesis .
qed

lemma demo_graph_ok:
  "insert_edge ref_pg demo_nodes 5 3 1 2 [42] = Inr demo_graph \<and> graph_ok demo_graph \<and>
   unique_edges (edge_rel demo_graph) \<and> (\<exists>t. edge_at (edge_rel demo_graph) 5 t) \<and>
   (\<exists>e. find_edge_by_id ref_pg (edge_rel demo_graph) 5 = Some e) \<and> linkable demo_graph 1 \<and>
   (\<exists>rec. edge_is rec 5 3 1 2 [42] \<and> adjacency_follow demo_graph 1 Out None = Some (Inr [rec]))"
proof -
  note ok = demo_nodes_ok
  have "length [42 :: u8] \<le> PROP_INLINE_MAX" "length (edge_rel demo_nodes) < 2 ^ 32"
    using ok by (simp_all add: layout_simps)
  then obtain d rec where d: "insert_edge ref_pg demo_nodes 5 3 1 2 [42] = Inr d" "graph_ok d" "unique_edges (edge_rel d)"
      "same_items (node_rel demo_nodes) (node_rel d)" "\<forall>i. no_edge (edge_rel d) i \<longleftrightarrow> no_edge (edge_rel demo_nodes) i \<and> i \<noteq> 5"
      "edge_is rec 5 3 1 2 [42]"
      "\<forall>n filt. adjacency_follow d n Out filt = map_ok ((@) (front (n = 1) filt rec)) (adjacency_follow demo_nodes n Out filt)"
      "scan_all_edges ref_pg (edge_rel d) = scan_all_edges ref_pg (edge_rel demo_nodes) @ [rec]"
    using insert_edge_graph [OF pg_ok_ref txn_ok_ref, of demo_nodes 5 1 2 "[42]" 3] ok no_edges by blast
  have g: "demo_graph = d" by (simp add: demo_graph_def d(1))
  have "\<not> no_edge (edge_rel d) 5" using d(5) by blast
  moreover have "scan_all_edges ref_pg (edge_rel demo_nodes) = []" using ok by (simp add: scan_all_edges_def)
  then have "find_edge_by_id ref_pg (edge_rel d) 5 = Some rec"
    using d(6,8) by (simp add: find_edge_scan edge_id_is_iff edge_is_def)
  moreover have "linkable d 1"
    using ok same_items_live [OF d(4)] same_items_tids [OF d(4)] by (simp add: linkable_def old_slot_def)
  moreover have "adjacency_follow demo_nodes 1 Out None = Some (Inr [])"
    using ok by (intro follow_no_edges) simp_all
  ultimately show ?thesis using d g by (auto simp: no_edge_def map_ok_def front_def)
qed

section \<open>The properties\<close>

text \<open>
  C2. On a well-formed graph, an edge with a fresh id between two live nodes can be inserted: the
  invariant stays, the edge becomes the first outgoing edge of its source and the first incoming edge
  of its target (where it passes the type filter), all other adjacency lists stay as they are, and
  every scan gains the edge at its end.
\<close>

theorem insert_edge_correct:
  assumes "pg_ok pg" and "txn_ok pg" and "graph_ok d" and "unique_edges (edge_rel d)"
    and "no_edge (edge_rel d) eid" and "linkable d src" and "linkable d tgt"
    and "length props \<le> PROP_INLINE_MAX" and "length (edge_rel d) < 2 ^ 32"
  shows "\<exists>d' rec. insert_edge pg d eid ty src tgt props = Inr d' \<and> graph_ok d' \<and> unique_edges (edge_rel d') \<and>
    edge_is rec eid ty src tgt props \<and>
    (\<forall>n filt. adjacency_follow d' n Out filt = map_ok ((@) (front (n = src) filt rec)) (adjacency_follow d n Out filt) \<and>
      adjacency_follow d' n In filt = map_ok ((@) (front (n = tgt) filt rec)) (adjacency_follow d n In filt)) \<and>
    scan_all_edges pg (edge_rel d') = scan_all_edges pg (edge_rel d) @ [rec] \<and>
    count_edges pg (edge_rel d') = Suc (count_edges pg (edge_rel d))"
proof -
  obtain d' rec where run: "insert_edge pg d eid ty src tgt props = Inr d'" "graph_ok d'" "unique_edges (edge_rel d')"
      "edge_is rec eid ty src tgt props"
      "\<forall>n filt. adjacency_follow d' n Out filt = map_ok ((@) (front (n = src) filt rec)) (adjacency_follow d n Out filt) \<and>
        adjacency_follow d' n In filt = map_ok ((@) (front (n = tgt) filt rec)) (adjacency_follow d n In filt)"
      "scan_all_edges pg (edge_rel d') = scan_all_edges pg (edge_rel d) @ [rec]"
    using insert_edge_graph [OF assms] by blast
  have "count_edges pg (edge_rel d') = Suc (count_edges pg (edge_rel d))" by (simp add: count_scan run(6))
  then show ?thesis using run by blast
qed

theorem insert_edge_correct_witness:
  "\<exists>d' rec. insert_edge ref_pg demo_nodes 5 3 1 2 [42] = Inr d' \<and> edge_is rec 5 3 1 2 [42] \<and>
    scan_all_edges ref_pg (edge_rel d') = [rec] \<and> count_edges ref_pg (edge_rel d') = 1"
proof -
  have "length [42 :: u8] \<le> PROP_INLINE_MAX" "length (edge_rel demo_nodes) < 2 ^ 32"
      "scan_all_edges ref_pg (edge_rel demo_nodes) = []" "count_edges ref_pg (edge_rel demo_nodes) = 0"
    using demo_nodes_ok by (simp_all add: layout_simps scan_all_edges_def count_edges_def)
  with insert_edge_correct [OF pg_ok_ref txn_ok_ref, of demo_nodes 5 1 2 "[42]" 3] demo_nodes_ok no_edges
  show ?thesis by fastforce
qed

text \<open>
  \<open>insert_edge\<close> refuses properties that are too long and edges whose source or target does not
  exist, with the error of the source, and leaves everything as it is.
\<close>

theorem insert_edge_errors:
  assumes "graph_ok d"
  shows "(PROP_INLINE_MAX < length props \<longrightarrow>
      insert_edge pg d eid ty src tgt props = Inl (PE200 (length props) PROP_INLINE_MAX)) \<and>
    (length props \<le> PROP_INLINE_MAX \<and> absent d src \<longrightarrow>
      insert_edge pg d eid ty src tgt props = Inl (PE400_source src)) \<and>
    (length props \<le> PROP_INLINE_MAX \<and> \<not> absent d src \<and> absent d tgt \<longrightarrow>
      insert_edge pg d eid ty src tgt props = Inl (PE400_target tgt))"
proof -
  have "\<exists>t. find_node_location d src = Inr (Some (fst t, snd t, old_slot (node_rel d) t))" if "\<not> absent d src"
    using that live_location [OF graph_okD(1) [OF assms]] unfolding absent_def by blast
  then show ?thesis
    using location_absent [OF graph_okD(1) [OF assms]] by (auto simp: insert_edge_def)
qed

theorem insert_edge_errors_witness:
  "insert_edge ref_pg empty_db 6 3 1 2 [] = Inl (PE400_source 1)"
  using insert_edge_errors [OF graph_ok_empty(1), of "[]" ref_pg 6 3 1 2] empty_db_ok(2) by simp

text \<open>
  C6. \<open>delete_edge\<close> reports whether a live edge has the id; if so, the invariant stays, exactly the
  edges with that id leave all adjacency lists (in both directions) and every scan, in place, and a
  lookup of the id finds nothing, while lookups of other ids give what they gave before.
\<close>

theorem delete_edge_correct:
  fixes pg' :: "'s pg"
  assumes "graph_ok d" and "unique_edges (edge_rel d)"
  shows "(no_edge (edge_rel d) eid \<longrightarrow> delete_edge pg d eid = (d, False)) \<and>
    (\<not> no_edge (edge_rel d) eid \<longrightarrow>
      (\<exists>d'. delete_edge pg d eid = (d', True) \<and> graph_ok d' \<and> unique_edges (edge_rel d') \<and>
        no_edge (edge_rel d') eid \<and> node_rel d' = node_rel d \<and>
        (\<forall>n dir filt. adjacency_follow d' n dir filt = map_ok (without eid) (adjacency_follow d n dir filt)) \<and>
        scan_all_edges pg' (edge_rel d') = without eid (scan_all_edges pg' (edge_rel d)) \<and>
        (\<forall>other. find_edge_by_id pg' (edge_rel d') other =
          (if other = eid then None else find_edge_by_id pg' (edge_rel d) other))))"
proof (cases "no_edge (edge_rel d) eid")
  case True
  then show ?thesis using delete_edge_absent [OF assms(1)] by simp
next
  case False
  then obtain t where "edge_at (edge_rel d) eid t" unfolding no_edge_def by blast
  then obtain d' where d': "delete_edge pg d eid = (d', True)" "graph_ok d'" "unique_edges (edge_rel d')"
      "no_edge (edge_rel d') eid" "node_rel d' = node_rel d"
      "\<forall>n dir filt. adjacency_follow d' n dir filt = map_ok (without eid) (adjacency_follow d n dir filt)"
      "scan_all_edges pg' (edge_rel d') = without eid (scan_all_edges pg' (edge_rel d))"
    using delete_edge_graph [OF assms, of eid _ pg pg'] by blast
  have "find_edge_by_id pg' (edge_rel d') other =
      (if other = eid then None else find_edge_by_id pg' (edge_rel d) other)" for other
    by (simp only: find_edge_scan d'(7) without_def first_id_filter)
  then show ?thesis using False d' by blast
qed

theorem delete_edge_correct_witness:
  "\<exists>d'. delete_edge ref_pg demo_graph 5 = (d', True) \<and> adjacency_follow d' 1 Out None = Some (Inr []) \<and>
    find_edge_by_id ref_pg (edge_rel d') 5 = None"
proof -
  have ok: "graph_ok demo_graph" "unique_edges (edge_rel demo_graph)" "\<not> no_edge (edge_rel demo_graph) 5"
    using demo_graph_ok unfolding no_edge_def by blast+
  obtain rec where rec: "edge_is rec 5 3 1 2 [42]" "adjacency_follow demo_graph 1 Out None = Some (Inr [rec])"
    using demo_graph_ok by blast
  obtain d' where "delete_edge ref_pg demo_graph 5 = (d', True)"
      "adjacency_follow d' 1 Out None = map_ok (without 5) (adjacency_follow demo_graph 1 Out None)"
      "find_edge_by_id ref_pg (edge_rel d') 5 = None"
    using delete_edge_correct [OF ok(1,2), of 5 ref_pg ref_pg] ok(3) by auto
  then show ?thesis using rec by (simp add: map_ok_def without_def edge_is_def)
qed

text \<open>
  C33. \<open>update_edge_props\<close> refuses more than 512 bytes, reports an edge that a lookup does not find, and
  otherwise replaces the properties of that edge, and nothing else, in all adjacency lists and scans.
  The space reserved for the old properties always suffices. Nothing is written to the log: a crash
  recovery does not see the update.
\<close>

theorem update_edge_props_correct:
  fixes pg' :: "'s pg"
  assumes "graph_ok d" and "unique_edges (edge_rel d)"
  shows "(PROP_INLINE_MAX < length props \<longrightarrow>
      update_edge_props pg d eid props = Inl (PE200 (length props) PROP_INLINE_MAX)) \<and>
    (length props \<le> PROP_INLINE_MAX \<and> find_edge_by_id pg (edge_rel d) eid = None \<longrightarrow>
      update_edge_props pg d eid props = Inr (d, False)) \<and>
    (length props \<le> PROP_INLINE_MAX \<and> find_edge_by_id pg (edge_rel d) eid \<noteq> None \<longrightarrow>
      (\<exists>d'. update_edge_props pg d eid props = Inr (d', True) \<and> graph_ok d' \<and> unique_edges (edge_rel d') \<and>
        node_rel d' = node_rel d \<and> wal d' = wal d \<and>
        (\<forall>n dir filt. adjacency_follow d' n dir filt =
          map_ok (map (with_props eid props)) (adjacency_follow d n dir filt)) \<and>
        scan_all_edges pg' (edge_rel d') = map (with_props eid props) (scan_all_edges pg' (edge_rel d)) \<and>
        (\<forall>other. find_edge_by_id pg' (edge_rel d') other =
          map_option (with_props eid props) (find_edge_by_id pg' (edge_rel d) other))))"
proof -
  have "update_edge_props pg d eid props = Inl (PE200 (length props) PROP_INLINE_MAX)" if "PROP_INLINE_MAX < length props"
    using that by (simp add: update_edge_props_def)
  moreover have "\<exists>d'. update_edge_props pg d eid props = Inr (d', True) \<and> graph_ok d' \<and> unique_edges (edge_rel d') \<and>
      node_rel d' = node_rel d \<and> wal d' = wal d \<and>
      (\<forall>n dir filt. adjacency_follow d' n dir filt =
        map_ok (map (with_props eid props)) (adjacency_follow d n dir filt)) \<and>
      scan_all_edges pg' (edge_rel d') = map (with_props eid props) (scan_all_edges pg' (edge_rel d)) \<and>
      (\<forall>other. find_edge_by_id pg' (edge_rel d') other =
        map_option (with_props eid props) (find_edge_by_id pg' (edge_rel d) other))"
    if len: "length props \<le> PROP_INLINE_MAX" and "find_edge_by_id pg (edge_rel d) eid \<noteq> None"
  proof -
    from that(2) obtain e where "find_edge_by_id pg (edge_rel d) eid = Some e" by blast
    from update_edge_graph [OF assms len this, of pg'] obtain d' where d':
        "update_edge_props pg d eid props = Inr (d', True)" "graph_ok d'" "unique_edges (edge_rel d')"
        "node_rel d' = node_rel d" "wal d' = wal d"
        "\<forall>n dir filt. adjacency_follow d' n dir filt =
          map_ok (map (with_props eid props)) (adjacency_follow d n dir filt)"
        "scan_all_edges pg' (edge_rel d') = map (with_props eid props) (scan_all_edges pg' (edge_rel d))"
      by blast
    have "find_edge_by_id pg' (edge_rel d') other =
        map_option (with_props eid props) (find_edge_by_id pg' (edge_rel d) other)" for other
      by (simp only: find_edge_scan d'(7) first_id_map with_props_id)
    then show ?thesis using d' by blast
  qed
  ultimately show ?thesis using update_edge_absent by blast
qed

theorem update_edge_props_correct_witness:
  "\<exists>d' e. update_edge_props ref_pg demo_graph 5 [7, 8] = Inr (d', True) \<and> wal d' = wal demo_graph \<and>
    find_edge_by_id ref_pg (edge_rel d') 5 = Some e \<and> er_prop_bytes e = [7, 8]"
proof -
  obtain e where e: "find_edge_by_id ref_pg (edge_rel demo_graph) 5 = Some e" using demo_graph_ok by blast
  have "length [7, 8 :: u8] \<le> PROP_INLINE_MAX" by (simp add: layout_simps)
  then obtain d' where "update_edge_props ref_pg demo_graph 5 [7, 8] = Inr (d', True)" "wal d' = wal demo_graph"
      "find_edge_by_id ref_pg (edge_rel d') 5 = map_option (with_props 5 [7, 8]) (find_edge_by_id ref_pg (edge_rel demo_graph) 5)"
    using update_edge_props_correct [of demo_graph "[7, 8]" ref_pg 5 ref_pg] demo_graph_ok e by blast
  moreover have "er_edge_id e = 5"
    using find_edge_found [OF _ e] graph_okD(8) [of demo_graph] demo_graph_ok by blast
  ultimately show ?thesis using e by (simp add: with_props_def)
qed

text \<open>
  C8. A traversal ends for every node, direction and filter, whatever edges were inserted and deleted:
  the chains of a well-formed graph have no cycles. It is empty for a node that does not exist; for
  a node with an adjacency header it lists the outgoing edges, the incoming edges, or both without
  repeating an id, the type filter being applied to the unfiltered lists; for a node whose slot
  number lies behind the special area it is an access outside the page.
\<close>

theorem adjacency_total:
  assumes "graph_ok d"
  shows "(\<forall>dir filt. adjacency_follow d n dir filt \<noteq> None) \<and>
    (absent d n \<longrightarrow> (\<forall>dir filt. adjacency_follow d n dir filt = Some (Inr []))) \<and>
    (linkable d n \<longrightarrow> (\<exists>outs ins. \<forall>filt.
      adjacency_follow d n Out filt = Some (Inr (filter (passes_filter filt) outs)) \<and>
      adjacency_follow d n In filt = Some (Inr (filter (passes_filter filt) ins)) \<and>
      (\<exists>both. adjacency_follow d n Both filt = Some (Inr both) \<and> distinct (map er_edge_id both) \<and>
        set both \<subseteq> set (filter (passes_filter filt) (outs @ ins)) \<and>
        er_edge_id ` set both = er_edge_id ` set (filter (passes_filter filt) (outs @ ins))))) \<and>
    (\<not> absent d n \<and> \<not> linkable d n \<longrightarrow> (\<forall>dir filt. \<exists>slot \<ge> MAX_NODE_SLOTS_PER_PAGE.
      adjacency_follow d n dir filt = Some (Inl (OutOfPage slot))))"
proof -
  have both: "distinct (map er_edge_id (dedup [] es)) \<and> set (dedup [] es) \<subseteq> set es \<and>
      er_edge_id ` set (dedup [] es) = er_edge_id ` set es" for es
    using dedup_distinct [of "[]" es] dedup_subset [of "[]" es] dedup_set [of "[]" es] by simp
  note absent = follow_absent [OF assms, of n]
  note bad = follow_not_linkable [OF assms, of n]
  show ?thesis
  proof (cases "linkable d n")
    case True
    then obtain outs ins where f: "\<forall>filt dir. adjacency_follow d n dir filt =
        Some (Inr (directed dir (filter (passes_filter filt) outs) (filter (passes_filter filt) ins)))"
      using follow_linkable [OF assms] by blast
    have "\<not> absent d n" using True by (auto simp: linkable_def absent_def)
    moreover have "\<forall>filt. adjacency_follow d n Out filt = Some (Inr (filter (passes_filter filt) outs)) \<and>
        adjacency_follow d n In filt = Some (Inr (filter (passes_filter filt) ins)) \<and>
        (\<exists>both. adjacency_follow d n Both filt = Some (Inr both) \<and> distinct (map er_edge_id both) \<and>
          set both \<subseteq> set (filter (passes_filter filt) (outs @ ins)) \<and>
          er_edge_id ` set both = er_edge_id ` set (filter (passes_filter filt) (outs @ ins)))"
    proof (intro allI conjI exI)
      fix filt
      let ?es = "filter (passes_filter filt) outs @ filter (passes_filter filt) ins"
      show "adjacency_follow d n Out filt = Some (Inr (filter (passes_filter filt) outs))"
        "adjacency_follow d n In filt = Some (Inr (filter (passes_filter filt) ins))"
        "adjacency_follow d n Both filt = Some (Inr (dedup [] ?es))"
        by (simp_all add: f directed_def)
      show "distinct (map er_edge_id (dedup [] ?es))"
        "set (dedup [] ?es) \<subseteq> set (filter (passes_filter filt) (outs @ ins))"
        "er_edge_id ` set (dedup [] ?es) = er_edge_id ` set (filter (passes_filter filt) (outs @ ins))"
        unfolding filter_append using both [of ?es] by blast+
    qed
    ultimately show ?thesis using True f by blast
  next
    case F: False
    show ?thesis
    proof (cases "absent d n")
      case True
      then show ?thesis using F absent by simp
    next
      case False
      have "\<exists>slot \<ge> MAX_NODE_SLOTS_PER_PAGE. adjacency_follow d n dir filt = Some (Inl (OutOfPage slot))" for dir filt
        using bad [OF False F, of dir filt] by blast
      then show ?thesis using F False by (metis option.distinct(1))
    qed
  qed
qed

theorem adjacency_total_witness:
  "(\<exists>outs. adjacency_follow demo_graph 1 Out None = Some (Inr outs)) \<and> adjacency_follow demo_graph 9 Both None \<noteq> None"
proof -
  have ok: "graph_ok demo_graph" and link: "linkable demo_graph 1" using demo_graph_ok by blast+
  obtain outs where "adjacency_follow demo_graph 1 Out None = Some (Inr outs)"
    using conjunct1 [OF conjunct2 [OF conjunct2 [OF adjacency_total [OF ok, of 1]]]] link by meson
  moreover have "adjacency_follow demo_graph 9 Both None \<noteq> None"
    using conjunct1 [OF adjacency_total [OF ok, of 9]] by (elim allE)
  ultimately show ?thesis by simp
qed

end
