(* ===== verification/GraphRefinement.thy ===== *)
theory GraphRefinement
  imports GraphProperties
begin

text \<open>
  The abstract graph the two relations implement: a set of nodes and a list of edges in the order of
  their insertion. \<open>graph_run\<close> is a run of the stores' operations in any order, by any transactions,
  beside the run of the specification; the invariant \<open>implements\<close> holds all along, so that every
  adjacency list of the chains is a filter of the abstract edge list.
\<close>

section \<open>The specification\<close>

record edge =
  e_id :: i64
  e_type :: i32
  e_source :: i64
  e_target :: i64
  e_props :: bytes

record graph =
  g_nodes :: "i64 set"
  g_used :: "i64 set"
  g_edges :: "edge list"

definition edge_view :: "EdgeRecord \<Rightarrow> edge" where
  "edge_view r = \<lparr>e_id = er_edge_id r, e_type = er_rel_type_id r, e_source = er_source_node_id r,
     e_target = er_target_node_id r, e_props = er_prop_bytes r\<rparr>"

definition of_type :: "i32 option \<Rightarrow> edge \<Rightarrow> bool" where
  "of_type filt e \<longleftrightarrow> (case filt of None \<Rightarrow> True | Some ty \<Rightarrow> ty = e_type e)"

text \<open>Newest first; \<open>Both\<close> lists a self-loop once.\<close>

definition spec_out :: "graph \<Rightarrow> i64 \<Rightarrow> i32 option \<Rightarrow> edge list" where
  "spec_out g n filt = filter (\<lambda>e. e_source e = n \<and> of_type filt e) (rev (g_edges g))"

definition spec_in :: "graph \<Rightarrow> i64 \<Rightarrow> i32 option \<Rightarrow> edge list" where
  "spec_in g n filt = filter (\<lambda>e. e_target e = n \<and> of_type filt e) (rev (g_edges g))"

definition spec_follow :: "graph \<Rightarrow> i64 \<Rightarrow> Direction \<Rightarrow> i32 option \<Rightarrow> edge list" where
  "spec_follow g n dir filt = (if n \<notin> g_nodes g then [] else case dir of
     Out \<Rightarrow> spec_out g n filt
   | In \<Rightarrow> spec_in g n filt
   | Both \<Rightarrow> spec_out g n filt @ filter (\<lambda>e. e_source e \<noteq> n) (spec_in g n filt))"

definition add_node :: "i64 \<Rightarrow> graph \<Rightarrow> graph" where
  "add_node n g = g\<lparr>g_nodes := insert n (g_nodes g), g_used := insert n (g_used g)\<rparr>"

definition drop_node :: "i64 \<Rightarrow> graph \<Rightarrow> graph" where
  "drop_node n g = g\<lparr>g_nodes := g_nodes g - {n}\<rparr>"

definition add_edge :: "edge \<Rightarrow> graph \<Rightarrow> graph" where
  "add_edge e g = g\<lparr>g_edges := g_edges g @ [e]\<rparr>"

definition remove_edge :: "i64 \<Rightarrow> graph \<Rightarrow> graph" where
  "remove_edge i g = g\<lparr>g_edges := filter (\<lambda>e. e_id e \<noteq> i) (g_edges g)\<rparr>"

definition set_props :: "i64 \<Rightarrow> bytes \<Rightarrow> edge \<Rightarrow> edge" where
  "set_props i props e = (if e_id e = i then e\<lparr>e_props := props\<rparr> else e)"

definition change_props :: "i64 \<Rightarrow> bytes \<Rightarrow> graph \<Rightarrow> graph" where
  "change_props i props g = g\<lparr>g_edges := map (set_props i props) (g_edges g)\<rparr>"

section \<open>Runs\<close>

text \<open>
  Node ids come from a sequence and are never used again; edge ids are fresh. A node is inserted where
  its slot number has a header, and updates stay on the page; the other cases are the defects of the
  code that the traversal and update theorems show.
\<close>

type_synonym snap = "nat \<Rightarrow> bool"

inductive graph_run :: "db \<Rightarrow> graph \<Rightarrow> bool" where
  run_empty: "graph_run empty_db \<lparr>g_nodes = {}, g_used = {}, g_edges = []\<rparr>"
| run_node_insert: "graph_run d g \<Longrightarrow> pg_ok (pg :: snap pg) \<Longrightarrow> txn_ok pg \<Longrightarrow> n \<notin> g_used g \<Longrightarrow>
    length lids \<le> MAX_LABELS_PER_NODE \<Longrightarrow> length props \<le> 8160 \<Longrightarrow>
    (PROP_INLINE_MAX < length props \<longrightarrow> Suc (length (node_rel d)) < 2 ^ 32) \<Longrightarrow>
    insert_node pg d n lids props = Inr (d', (blk, off)) \<Longrightarrow> off \<le> MAX_NODE_SLOTS_PER_PAGE \<Longrightarrow>
    graph_run d' (add_node n g)"
| run_node_delete: "graph_run d g \<Longrightarrow> delete_node_by_id (pg :: snap pg) d n = Inr (d', b) \<Longrightarrow> graph_run d' (drop_node n g)"
| run_node_update: "graph_run d g \<Longrightarrow> pg_ok (pg :: snap pg) \<Longrightarrow> txn_ok pg \<Longrightarrow>
    length lids \<le> MAX_LABELS_PER_NODE \<Longrightarrow> length props \<le> PROP_INLINE_MAX \<Longrightarrow>
    \<forall>blk off. live_at (node_rel d) n (blk, off) \<longrightarrow> fits (node_rel d ! blk) (42 + 4 * length lids + length props) \<Longrightarrow>
    update_node pg d n lids props = Inr (d', b) \<Longrightarrow> graph_run d' g"
| run_edge_insert: "graph_run d g \<Longrightarrow> pg_ok (pg :: snap pg) \<Longrightarrow> txn_ok pg \<Longrightarrow> eid \<notin> e_id ` set (g_edges g) \<Longrightarrow>
    length (edge_rel d) < 2 ^ 32 \<Longrightarrow> insert_edge pg d eid ty src tgt props = Inr d' \<Longrightarrow>
    graph_run d' (add_edge \<lparr>e_id = eid, e_type = ty, e_source = src, e_target = tgt, e_props = props\<rparr> g)"
| run_edge_delete: "graph_run d g \<Longrightarrow> delete_edge (pg :: snap pg) d eid = (d', b) \<Longrightarrow> graph_run d' (remove_edge eid g)"
| run_edge_update: "graph_run d g \<Longrightarrow> update_edge_props (pg :: snap pg) d eid props = Inr (d', b) \<Longrightarrow>
    graph_run d' (if b then change_props eid props g else g)"

section \<open>The invariant\<close>

definition lists :: "db \<Rightarrow> i64 \<Rightarrow> Direction \<Rightarrow> i32 option \<Rightarrow> edge list \<Rightarrow> bool" where
  "lists d n dir filt es \<longleftrightarrow> (\<exists>rs. adjacency_follow d n dir filt = Some (Inr rs) \<and> map edge_view rs = es)"

definition implements :: "db \<Rightarrow> graph \<Rightarrow> bool" where
  "implements d g \<longleftrightarrow> graph_ok d \<and> unique_edges (edge_rel d) \<and>
     (\<forall>n. n \<in> g_nodes g \<longleftrightarrow> \<not> absent d n) \<and> g_nodes g \<subseteq> g_used g \<and>
     e_source ` set (g_edges g) \<subseteq> g_used g \<and> e_target ` set (g_edges g) \<subseteq> g_used g \<and>
     distinct (map e_id (g_edges g)) \<and> (\<forall>i. no_edge (edge_rel d) i \<longleftrightarrow> i \<notin> e_id ` set (g_edges g)) \<and>
     (\<forall>n \<in> g_nodes g. \<forall>filt. lists d n Out filt (spec_out g n filt) \<and> lists d n In filt (spec_in g n filt))"

lemma implementsD:
  assumes "implements d g"
  shows "graph_ok d" "unique_edges (edge_rel d)" "n \<in> g_nodes g \<longleftrightarrow> \<not> absent d n" "g_nodes g \<subseteq> g_used g"
    "e_source ` set (g_edges g) \<subseteq> g_used g" "e_target ` set (g_edges g) \<subseteq> g_used g"
    "distinct (map e_id (g_edges g))" "no_edge (edge_rel d) i \<longleftrightarrow> i \<notin> e_id ` set (g_edges g)"
    "n \<in> g_nodes g \<Longrightarrow> lists d n Out filt (spec_out g n filt)" "n \<in> g_nodes g \<Longrightarrow> lists d n In filt (spec_in g n filt)"
  using assms by (simp_all add: implements_def)

lemma implementsI:
  assumes "graph_ok d" and "unique_edges (edge_rel d)" and "\<And>n. n \<in> g_nodes g \<longleftrightarrow> \<not> absent d n"
    and "g_nodes g \<subseteq> g_used g" and "e_source ` set (g_edges g) \<subseteq> g_used g" and "e_target ` set (g_edges g) \<subseteq> g_used g"
    and "distinct (map e_id (g_edges g))" and "\<And>i. no_edge (edge_rel d) i \<longleftrightarrow> i \<notin> e_id ` set (g_edges g)"
    and "\<And>n filt. n \<in> g_nodes g \<Longrightarrow> lists d n Out filt (spec_out g n filt) \<and> lists d n In filt (spec_in g n filt)"
  shows "implements d g"
  unfolding implements_def by (intro conjI allI ballI assms(1-8) assms(9) [THEN conjunct1] assms(9) [THEN conjunct2])

lemma lists_map_ok:
  assumes "adjacency_follow d' n dir filt = map_ok f (adjacency_follow d n dir filt)" and "lists d n dir filt es"
    and "\<And>rs. map edge_view (f rs) = h (map edge_view rs)"
  shows "lists d' n dir filt (h es)"
  using assms by (auto simp: lists_def map_ok_def)

lemma lists_linkable:
  assumes "graph_ok d" and "\<not> absent d n" and "lists d n dir filt es"
  shows "linkable d n"
  using follow_not_linkable [OF assms(1,2)] assms(3) unfolding lists_def by (metis Inl_Inr_False option.inject)

lemma view_passes: "passes_filter filt r = of_type filt (edge_view r)"
  by (cases filt) (simp_all add: passes_filter_def of_type_def edge_view_def)

lemma view_front: "map edge_view (front b filt r) = (if b \<and> of_type filt (edge_view r) then [edge_view r] else [])"
  by (simp add: front_def view_passes)

lemma view_without: "map edge_view (without i rs) = filter (\<lambda>e. e_id e \<noteq> i) (map edge_view rs)"
  by (simp add: without_def filter_map comp_def edge_view_def)

lemma view_with_props: "map edge_view (map (with_props i props) rs) = map (set_props i props) (map edge_view rs)"
  by (simp add: edge_view_def with_props_def set_props_def)

lemma set_props_fields [simp]:
  "e_id (set_props i props e) = e_id e" "e_source (set_props i props e) = e_source e"
  "e_target (set_props i props e) = e_target e" "of_type filt (set_props i props e) = of_type filt e"
  by (simp_all add: set_props_def of_type_def split: option.split)

lemma spec_add_edge:
  "spec_out (add_edge e g) n filt = (if n = e_source e \<and> of_type filt e then [e] else []) @ spec_out g n filt"
  "spec_in (add_edge e g) n filt = (if n = e_target e \<and> of_type filt e then [e] else []) @ spec_in g n filt"
  by (auto simp: spec_out_def spec_in_def add_edge_def)

lemma spec_remove_edge:
  "spec_out (remove_edge i g) n filt = filter (\<lambda>e. e_id e \<noteq> i) (spec_out g n filt)"
  "spec_in (remove_edge i g) n filt = filter (\<lambda>e. e_id e \<noteq> i) (spec_in g n filt)"
  by (simp_all add: spec_out_def spec_in_def remove_edge_def rev_filter conj_commute)

lemma spec_change_props:
  "spec_out (change_props i props g) n filt = map (set_props i props) (spec_out g n filt)"
  "spec_in (change_props i props g) n filt = map (set_props i props) (spec_in g n filt)"
  by (simp_all add: spec_out_def spec_in_def change_props_def rev_map filter_map comp_def)

section \<open>Every operation preserves it\<close>

lemma implements_insert_node:
  assumes imp: "implements d g" and pg: "pg_ok pg" "txn_ok pg" and fresh: "n \<notin> g_used g"
    and len: "length lids \<le> MAX_LABELS_PER_NODE" "length props \<le> 8160"
    and small: "PROP_INLINE_MAX < length props \<longrightarrow> Suc (length (node_rel d)) < 2 ^ 32"
    and run: "insert_node pg d n lids props = Inr (d', (blk, off))" and off: "off \<le> MAX_NODE_SLOTS_PER_PAGE"
  shows "implements d' (add_node n g)"
proof -
  note D = implementsD [OF imp]
  have absent: "absent d n" using D(3) [of n] D(4) fresh by blast
  have "node_rel_ok (node_rel d)" using graph_okD(1) [OF D(1)] by (simp add: node_store_ok_def)
  then have res: "insert_result pg d n lids props d' blk off"
    using insert_node_spec [OF pg _ len, of d n] insert_inline [OF pg _ len(1), of d props n] small run
    by (cases "PROP_INLINE_MAX < length props") auto
  then have e: "edge_rel d' = edge_rel d" by (simp add: insert_result_def)
  note after = insert_node_graph [OF D(1) absent res]
  have "\<And>filt. spec_out g n filt = [] \<and> spec_in g n filt = []"
    using D(5,6) fresh by (auto simp: spec_out_def spec_in_def filter_empty_conv)
  moreover have spec: "spec_out (add_node n g) = spec_out g" "spec_in (add_node n g) = spec_in g" "g_edges (add_node n g) = g_edges g"
    "g_nodes (add_node n g) = insert n (g_nodes g)" "g_used (add_node n g) = insert n (g_used g)"
    by (simp_all add: fun_eq_iff spec_out_def spec_in_def add_node_def)
  ultimately have "lists d' m Out filt (spec_out (add_node n g) m filt) \<and> lists d' m In filt (spec_in (add_node n g) m filt)"
    if "m \<in> g_nodes (add_node n g)" for m filt
    using after(2) [of m _ filt] after(3) [of _ filt] D(9,10) [of m filt] that off
    unfolding spec by (cases "m = n") (auto simp: lists_def)
  moreover have "m \<in> g_nodes (add_node n g) \<longleftrightarrow> \<not> absent d' m" for m
    using after(4) [of m] D(3) [of m] by (auto simp: spec)
  ultimately show ?thesis
    unfolding implements_def spec e using D(2,4-8) after(1) by blast
qed

lemma implements_delete_node:
  assumes imp: "implements d g" and run: "delete_node_by_id pg d n = Inr (d', b)"
  shows "implements d' (drop_node n g)"
proof (cases "absent d n")
  case True
  note D = implementsD [OF imp]
  have "d' = d" using run delete_absent [OF graph_okD(1) [OF D(1)] True, of pg] by simp
  moreover have "drop_node n g = g" using D(3) [of n] True by (simp add: drop_node_def)
  ultimately show ?thesis using imp by simp
next
  case False
  note D = implementsD [OF imp]
  obtain blk off where live: "live_at (node_rel d) n (blk, off)" using False unfolding absent_def by fastforce
  have del: "delete_node_by_id pg d n = Inr (d', True)"
    using run delete_run [OF graph_okD(1) [OF D(1)] live, of pg] by simp
  note after = delete_node_graph [OF D(1) live del]
  have spec: "spec_out (drop_node n g) = spec_out g" "spec_in (drop_node n g) = spec_in g" "g_edges (drop_node n g) = g_edges g"
    "g_nodes (drop_node n g) = g_nodes g - {n}" "g_used (drop_node n g) = g_used g"
    by (simp_all add: fun_eq_iff spec_out_def spec_in_def drop_node_def)
  have "lists d' m Out filt (spec_out g m filt) \<and> lists d' m In filt (spec_in g m filt)" if "m \<in> g_nodes g - {n}" for m filt
    using after(2) [of m] D(9,10) [of m filt] that by (simp add: lists_def)
  moreover have "m \<in> g_nodes g - {n} \<longleftrightarrow> \<not> absent d' m" for m
    using after(4) [of m] D(3) [of m] by auto
  ultimately show ?thesis
    unfolding implements_def spec after(3) using D(2,4-8) after(1) by blast
qed

lemma implements_update_node:
  assumes imp: "implements d g" and pg: "pg_ok pg" "txn_ok pg"
    and len: "length lids \<le> MAX_LABELS_PER_NODE" "length props \<le> PROP_INLINE_MAX"
    and fit: "\<forall>blk off. live_at (node_rel d) n (blk, off) \<longrightarrow> fits (node_rel d ! blk) (42 + 4 * length lids + length props)"
    and run: "update_node pg d n lids props = Inr (d', b)"
  shows "implements d' g"
proof (cases "absent d n")
  case True
  have "update_node pg d n lids props = Inr (d, False)"
    using len location_absent [OF graph_okD(1) [OF implementsD(1) [OF imp]] True] by (simp add: update_node_def)
  then show ?thesis using imp run by simp
next
  case False
  note D = implementsD [OF imp]
  obtain blk off where live: "live_at (node_rel d) n (blk, off)" using False unfolding absent_def by fastforce
  then obtain d2 where "update_node pg d n lids props = Inr (d2, True)" and after: "graph_ok d2" "edge_rel d2 = edge_rel d"
      "\<forall>n. absent d2 n \<longleftrightarrow> absent d n" "\<forall>n dir filt. adjacency_follow d2 n dir filt = adjacency_follow d n dir filt"
    using update_in_place_graph [OF pg D(1) live len] fit by blast
  then have "d2 = d'" using run by simp
  with after show ?thesis using imp by (simp add: implements_def lists_def)
qed

lemma insert_edge_linkable:
  assumes ok: "graph_ok d" and run: "insert_edge pg d eid ty src tgt props = Inr d'"
  shows "length props \<le> PROP_INLINE_MAX \<and> \<not> absent d src \<and> \<not> absent d tgt"
proof -
  have len: "length props \<le> PROP_INLINE_MAX" using run by (auto simp: insert_edge_def split: if_splits)
  note store = graph_okD(1) [OF ok]
  have src: "\<not> absent d src"
    using location_absent [OF store, of src] run len by (auto simp: insert_edge_def)
  then obtain t where "live_at (node_rel d) src t" unfolding absent_def by blast
  then have "find_node_location d src = Inr (Some (fst t, snd t, old_slot (node_rel d) t))" by (rule live_location [OF store])
  then have "\<not> absent d tgt"
    using location_absent [OF store, of tgt] run len by (auto simp: insert_edge_def)
  with len src show ?thesis by blast
qed

lemma implements_insert_edge:
  assumes imp: "implements d g" and pg: "pg_ok pg" "txn_ok pg" and fresh: "eid \<notin> e_id ` set (g_edges g)"
    and small: "length (edge_rel d) < 2 ^ 32" and run: "insert_edge pg d eid ty src tgt props = Inr d'"
  shows "implements d' (add_edge \<lparr>e_id = eid, e_type = ty, e_source = src, e_target = tgt, e_props = props\<rparr> g)"
proof -
  let ?e = "\<lparr>e_id = eid, e_type = ty, e_source = src, e_target = tgt, e_props = props\<rparr>"
  note D = implementsD [OF imp]
  have len: "length props \<le> PROP_INLINE_MAX" and st: "\<not> absent d src" "\<not> absent d tgt"
    using insert_edge_linkable [OF D(1) run] by blast+
  have nodes: "src \<in> g_nodes g" "tgt \<in> g_nodes g" using D(3) st by blast+
  then have link: "linkable d src" "linkable d tgt" using lists_linkable [OF D(1)] D(9) st by blast+
  have "no_edge (edge_rel d) eid" using D(8) fresh by blast
  from insert_edge_graph [OF pg D(1,2) this link len small, of ty] run
  obtain rec where after: "graph_ok d'" "unique_edges (edge_rel d')" "same_items (node_rel d) (node_rel d')"
      "\<forall>i. no_edge (edge_rel d') i \<longleftrightarrow> no_edge (edge_rel d) i \<and> i \<noteq> eid" "edge_is rec eid ty src tgt props"
      "\<forall>n filt. adjacency_follow d' n Out filt = map_ok ((@) (front (n = src) filt rec)) (adjacency_follow d n Out filt) \<and>
        adjacency_follow d' n In filt = map_ok ((@) (front (n = tgt) filt rec)) (adjacency_follow d n In filt)"
    by auto
  have view: "edge_view rec = ?e" using after(5) by (simp add: edge_is_def edge_view_def)
  have lists: "lists d' n Out filt (spec_out (add_edge ?e g) n filt) \<and> lists d' n In filt (spec_in (add_edge ?e g) n filt)"
    if n: "n \<in> g_nodes g" for n filt
  proof
    show "lists d' n Out filt (spec_out (add_edge ?e g) n filt)"
      unfolding spec_add_edge
      by (rule lists_map_ok [OF conjunct1 [OF after(6) [rule_format, of n filt]] D(9) [OF n]]) (simp add: view_front view)
    show "lists d' n In filt (spec_in (add_edge ?e g) n filt)"
      unfolding spec_add_edge
      by (rule lists_map_ok [OF conjunct2 [OF after(6) [rule_format, of n filt]] D(10) [OF n]]) (simp add: view_front view)
  qed
  have spec: "g_nodes (add_edge ?e g) = g_nodes g" "g_used (add_edge ?e g) = g_used g"
    "g_edges (add_edge ?e g) = g_edges g @ [?e]"
    by (simp_all add: add_edge_def)
  have "absent d' n \<longleftrightarrow> absent d n" for n using same_items_live [OF after(3)] by (simp add: absent_def)
  then have nodes': "n \<in> g_nodes g \<longleftrightarrow> \<not> absent d' n" for n using D(3) [of n] by simp
  have edges': "no_edge (edge_rel d') i \<longleftrightarrow> i \<notin> e_id ` set (g_edges g @ [?e])" for i
    using after(4) D(8) [of i] by auto
  have ids: "distinct (map e_id (g_edges g @ [?e]))" using D(7) fresh by simp
  have ends: "e_source ` set (g_edges g @ [?e]) \<subseteq> g_used g" "e_target ` set (g_edges g @ [?e]) \<subseteq> g_used g"
    using D(4-6) nodes by auto
  show ?thesis
    by (rule implementsI [OF after(1,2)]; unfold spec) (rule nodes' D(4) ends ids edges' | erule lists)+
qed

lemma implements_delete_edge:
  assumes imp: "implements d g" and run: "delete_edge pg d eid = (d', b)"
  shows "implements d' (remove_edge eid g)"
proof -
  note D = implementsD [OF imp]
  have spec: "g_nodes (remove_edge eid g) = g_nodes g" "g_used (remove_edge eid g) = g_used g"
    "g_edges (remove_edge eid g) = filter (\<lambda>e. e_id e \<noteq> eid) (g_edges g)"
    by (simp_all add: remove_edge_def)
  show ?thesis
  proof (cases "no_edge (edge_rel d) eid")
    case True
    then have "d' = d" using run delete_edge_absent [OF D(1) True, of pg] by simp
    moreover have "remove_edge eid g = g"
    proof -
      have "filter (\<lambda>e. e_id e \<noteq> eid) (g_edges g) = g_edges g"
        using True D(8) [of eid] by (intro filter_True) auto
      then show ?thesis by (simp add: remove_edge_def)
    qed
    ultimately show ?thesis using imp by simp
  next
    case False
    then obtain t where "edge_at (edge_rel d) eid t" unfolding no_edge_def by blast
    from delete_edge_graph [OF D(1,2) this, of pg pg] run
    have after: "graph_ok d'" "unique_edges (edge_rel d')" "node_rel d' = node_rel d"
        "\<forall>i. no_edge (edge_rel d') i \<longleftrightarrow> no_edge (edge_rel d) i \<or> i = eid"
        "\<And>n dir filt. adjacency_follow d' n dir filt = map_ok (without eid) (adjacency_follow d n dir filt)"
      by auto
    have lists: "lists d' n Out filt (spec_out (remove_edge eid g) n filt) \<and> lists d' n In filt (spec_in (remove_edge eid g) n filt)"
      if n: "n \<in> g_nodes g" for n filt
      unfolding spec_remove_edge
      by (intro conjI lists_map_ok [OF after(5) D(9) [OF n]] lists_map_ok [OF after(5) D(10) [OF n]] view_without)
    have edges': "no_edge (edge_rel d') i \<longleftrightarrow> i \<notin> e_id ` set (filter (\<lambda>e. e_id e \<noteq> eid) (g_edges g))" for i
      using after(4) D(8) [of i] by auto
    have ids: "distinct (map e_id (filter (\<lambda>e. e_id e \<noteq> eid) (g_edges g)))"
      using D(7) by (simp add: distinct_map_filter)
    have nodes': "n \<in> g_nodes g \<longleftrightarrow> \<not> absent d' n" for n using D(3) [of n] by (simp add: absent_def after(3))
    have ends: "e_source ` set (filter (\<lambda>e. e_id e \<noteq> eid) (g_edges g)) \<subseteq> g_used g"
      "e_target ` set (filter (\<lambda>e. e_id e \<noteq> eid) (g_edges g)) \<subseteq> g_used g" using D(5,6) by auto
    show ?thesis
      by (rule implementsI [OF after(1,2)]; unfold spec) (rule nodes' D(4) ends ids edges' | erule lists)+
  qed
qed

lemma implements_update_edge:
  assumes imp: "implements d g" and run: "update_edge_props pg d eid props = Inr (d', b)"
  shows "implements d' (if b then change_props eid props g else g)"
proof -
  note D = implementsD [OF imp]
  have len: "length props \<le> PROP_INLINE_MAX" using run by (auto simp: update_edge_props_def split: if_splits)
  have spec: "g_nodes (change_props eid props g) = g_nodes g" "g_used (change_props eid props g) = g_used g"
    "g_edges (change_props eid props g) = map (set_props eid props) (g_edges g)"
    by (simp_all add: change_props_def)
  show ?thesis
  proof (cases "find_edge_by_id pg (edge_rel d) eid")
    case None
    then show ?thesis using update_edge_absent [OF len None] run imp by simp
  next
    case (Some e)
    obtain d2 where u: "update_edge_props pg d eid props = Inr (d2, True)" and after2: "graph_ok d2" "unique_edges (edge_rel d2)"
        "node_rel d2 = node_rel d" "\<forall>i. no_edge (edge_rel d2) i \<longleftrightarrow> no_edge (edge_rel d) i"
        "\<forall>n dir filt. adjacency_follow d2 n dir filt = map_ok (map (with_props eid props)) (adjacency_follow d n dir filt)"
      using update_edge_graph [OF D(1,2) len Some, of pg] by (elim exE conjE)
    have b: b and same: "d2 = d'" using u run by simp_all
    note after = after2(1-3) [unfolded same] after2(4,5) [rule_format, unfolded same]
    have lists: "lists d' n Out filt (spec_out (change_props eid props g) n filt) \<and>
        lists d' n In filt (spec_in (change_props eid props g) n filt)" if n: "n \<in> g_nodes g" for n filt
      unfolding spec_change_props
      by (intro conjI lists_map_ok [OF after(5) D(9) [OF n]] lists_map_ok [OF after(5) D(10) [OF n]] view_with_props)
    have ids': "e_id ` set (map (set_props eid props) (g_edges g)) = e_id ` set (g_edges g)"
      by (simp add: image_image)
    have edges': "no_edge (edge_rel d') i \<longleftrightarrow> i \<notin> e_id ` set (map (set_props eid props) (g_edges g))" for i
      unfolding ids' after(4) by (rule D(8))
    have ids: "distinct (map e_id (map (set_props eid props) (g_edges g)))"
      using D(7) by (simp add: comp_def)
    have nodes': "n \<in> g_nodes g \<longleftrightarrow> \<not> absent d' n" for n using D(3) [of n] by (simp add: absent_def after(3))
    have ends: "e_source ` set (map (set_props eid props) (g_edges g)) \<subseteq> g_used g"
      "e_target ` set (map (set_props eid props) (g_edges g)) \<subseteq> g_used g"
      using D(5,6) by (simp_all add: image_image)
    have "implements d' (change_props eid props g)"
      by (rule implementsI [OF after(1,2)]; unfold spec) (rule nodes' D(4) ends ids edges' | erule lists)+
    then show ?thesis using b by simp
  qed
qed

lemma graph_ok_start: "implements empty_db \<lparr>g_nodes = {}, g_used = {}, g_edges = []\<rparr>"
  using graph_ok_empty empty_db_ok(2) by (simp add: implements_def)

lemma run_implements: "graph_run d g \<Longrightarrow> implements d g"
proof (induction rule: graph_run.induct)
  case run_empty
  show ?case by (rule graph_ok_start)
next
  case (run_node_insert d g pg n lids props d' blk off)
  show ?case by (rule implements_insert_node [OF run_node_insert.IH run_node_insert.hyps(2-)])
next
  case (run_node_delete d g pg n d' b)
  show ?case by (rule implements_delete_node [OF run_node_delete.IH run_node_delete.hyps(2-)])
next
  case (run_node_update d g pg lids props n d' b)
  show ?case by (rule implements_update_node [OF run_node_update.IH run_node_update.hyps(2-)])
next
  case (run_edge_insert d g pg eid ty src tgt props d')
  show ?case by (rule implements_insert_edge [OF run_edge_insert.IH run_edge_insert.hyps(2-)])
next
  case (run_edge_delete d g pg eid d' b)
  show ?case by (rule implements_delete_edge [OF run_edge_delete.IH run_edge_delete.hyps(2-)])
next
  case (run_edge_update d g pg eid props d' b)
  show ?case by (rule implements_update_edge [OF run_edge_update.IH run_edge_update.hyps(2-)])
qed

section \<open>Both directions\<close>

lemma dedup_keep: "distinct (map er_edge_id es) \<Longrightarrow>
  dedup seen es = filter (\<lambda>e. er_edge_id e \<notin> set seen) es"
proof (induction seen es rule: dedup.induct)
  case (2 seen e es)
  then have "filter (\<lambda>x. er_edge_id x \<noteq> er_edge_id e \<and> er_edge_id x \<notin> set seen) es = filter (\<lambda>x. er_edge_id x \<notin> set seen) es"
    by (intro filter_cong refl) (metis distinct.simps(2) imageI list.simps(9) set_map)
  then show ?case using 2 by simp
qed simp

lemma dedup_append: "dedup seen (xs @ ys) = dedup seen xs @ dedup (rev (map er_edge_id (dedup seen xs)) @ seen) ys"
  by (induction seen xs rule: dedup.induct) simp_all

lemma dedup_two:
  assumes "distinct (map er_edge_id xs)" and "distinct (map er_edge_id ys)"
  shows "dedup [] (xs @ ys) = xs @ filter (\<lambda>e. er_edge_id e \<notin> er_edge_id ` set xs) ys"
  using assms by (simp add: dedup_append dedup_keep)

lemma lists_both:
  assumes imp: "implements d g" and n: "n \<in> g_nodes g"
  shows "lists d n Both filt (spec_out g n filt @ filter (\<lambda>e. e_source e \<noteq> n) (spec_in g n filt))"
proof -
  note D = implementsD [OF imp]
  have "linkable d n" using lists_linkable [OF D(1)] D(9) D(3) n by blast
  then obtain outs ins where f: "\<And>dir. adjacency_follow d n dir filt =
      Some (Inr (directed dir (filter (passes_filter filt) outs) (filter (passes_filter filt) ins)))"
    using follow_linkable [OF D(1)] by blast
  define xs where "xs = filter (passes_filter filt) outs"
  define ys where "ys = filter (passes_filter filt) ins"
  have x: "map edge_view xs = spec_out g n filt" and y: "map edge_view ys = spec_in g n filt"
    using D(9,10) [OF n, of filt] f [of Out] f [of In] unfolding xs_def ys_def by (auto simp: lists_def directed_def)
  have id: "er_edge_id = e_id \<circ> edge_view" by (simp add: fun_eq_iff edge_view_def)
  have "distinct (map e_id (rev (g_edges g)))" using D(7) by (simp flip: rev_map)
  then have dist: "distinct (map er_edge_id xs)" "distinct (map er_edge_id ys)"
    using x y by (simp_all only: id flip: map_map) (simp_all add: spec_out_def spec_in_def distinct_map_filter)
  have ids: "er_edge_id r \<in> er_edge_id ` set xs \<longleftrightarrow> e_source (edge_view r) = n" if r: "r \<in> set ys" for r
  proof -
    have r': "edge_view r \<in> set (spec_in g n filt)" using r y by (metis image_eqI set_map)
    have xs: "er_edge_id ` set xs = e_id ` set (spec_out g n filt)"
      by (simp add: id image_comp flip: x)
    have "e_id e = e_id e' \<longleftrightarrow> e = e'" if "e \<in> set (g_edges g)" "e' \<in> set (g_edges g)" for e e'
      using D(7) that by (auto simp: distinct_map dest: inj_onD)
    then show ?thesis
      using r' unfolding xs by (auto simp: id spec_in_def spec_out_def)
  qed
  have "adjacency_follow d n Both filt = Some (Inr (xs @ filter (\<lambda>r. e_source (edge_view r) \<noteq> n) ys))"
    using f [of Both] ids by (simp add: directed_def dedup_two [OF dist] flip: xs_def ys_def cong: filter_cong)
  then show ?thesis by (simp add: lists_def filter_map comp_def flip: x y)
qed

lemma lists_spec:
  assumes imp: "implements d g"
  shows "lists d n dir filt (spec_follow g n dir filt)"
proof (cases "n \<in> g_nodes g")
  case True
  then show ?thesis
    using implementsD(9,10) [OF imp True] lists_both [OF imp True] by (cases dir) (simp_all add: spec_follow_def)
next
  case False
  then have "absent d n" using implementsD(3) [OF imp] by blast
  then show ?thesis
    using False follow_absent [OF implementsD(1) [OF imp]] by (simp add: lists_def spec_follow_def)
qed

section \<open>The property\<close>


lemma demo_run: "graph_run demo_graph \<lparr>g_nodes = {1, 2}, g_used = {1, 2}, g_edges =
    [\<lparr>e_id = 5, e_type = 3, e_source = 1, e_target = 2, e_props = [42]\<rparr>]\<rparr>"
proof -
  let ?g = "\<lparr>g_nodes = {}, g_used = {}, g_edges = []\<rparr>"
  obtain d b k b' k' where steps: "insert_node ref_pg empty_db 1 [] [] = Inr (d, (b, k))" "k \<le> 1"
      "insert_node ref_pg d 2 [] [] = Inr (demo_nodes, (b', k'))" "k' \<le> 2" "edge_rel demo_nodes = []"
    using demo_steps by fastforce
  have small: "k \<le> MAX_NODE_SLOTS_PER_PAGE" "k' \<le> MAX_NODE_SLOTS_PER_PAGE" using steps by (simp_all add: layout_simps)
  have "graph_run d (add_node 1 ?g)"
    by (rule run_node_insert [OF run_empty pg_ok_ref txn_ok_ref _ _ _ _ steps(1) small(1)]) (simp_all add: layout_simps)
  then have "graph_run demo_nodes (add_node 2 (add_node 1 ?g))"
    by (rule run_node_insert [OF _ pg_ok_ref txn_ok_ref _ _ _ _ steps(3) small(2)]) (simp_all add: layout_simps add_node_def)
  then have "graph_run demo_graph
      (add_edge \<lparr>e_id = 5, e_type = 3, e_source = 1, e_target = 2, e_props = [42]\<rparr> (add_node 2 (add_node 1 ?g)))"
    by (rule run_edge_insert [OF _ pg_ok_ref txn_ok_ref _ _ conjunct1 [OF demo_graph_ok]])
      (simp_all add: add_node_def steps(5))
  then show ?thesis by (simp add: add_edge_def add_node_def insert_commute)
qed


end
