(* ===== verification/Vacuum.thy ===== *)
theory Vacuum
  imports GraphProperties
begin

text \<open>
  Vacuum, from \<open>storage/vacuum.rs\<close> and \<open>compact_node_page\<close> of \<open>storage/node_store.rs\<close>: the loop over
  the blocks of a relation that marks dead tuples \<open>LP_DEAD\<close>, clears the adjacency headers of dead
  nodes, and compacts and logs the page. The shared and the exclusive lock of one block are held
  one after the other; as elsewhere, no other operation runs in between.
\<close>

section \<open>The program\<close>

record VacuumStats =
  dead_nodes :: nat
  live_nodes :: nat
  dead_edges :: nat
  live_edges :: nat

definition stats_default :: VacuumStats where
  "stats_default = \<lparr>dead_nodes = 0, live_nodes = 0, dead_edges = 0, live_edges = 0\<rparr>"

text \<open>What the scan of a page finds at an offset: nothing to count, a live tuple, or a dead one, for node
  pages with its adjacency slot.\<close>

datatype slot_state = Skipped | LiveTuple | DeadTuple "nat option"

definition dead_to_all :: "'snap pg \<Rightarrow> u32 \<Rightarrow> heap_header \<Rightarrow> bool" where
  "dead_to_all pg oldest_xmin hdr \<longleftrightarrow> t_xmax hdr \<noteq> InvalidTransactionId \<and>
     Precedes pg (t_xmax hdr) oldest_xmin \<and> DidCommit pg (t_xmax hdr)"

definition scan_slot :: "'snap pg \<Rightarrow> u32 \<Rightarrow> bool \<Rightarrow> page \<Rightarrow> nat \<Rightarrow> slot_state" where
  "scan_slot pg oldest_xmin is_node_page page off =
     (case get_line page off of
        None \<Rightarrow> Skipped
      | Some iid \<Rightarrow>
          (if lp_flags iid \<noteq> LP_NORMAL then Skipped
           else if item_len (lp_item iid) < hdr_size + 1 then Skipped
           else case lp_item iid of
             Raw bs \<Rightarrow> Skipped
           | Tuple hdr data \<Rightarrow>
               (if xmax_invalid hdr then LiveTuple
                else if dead_to_all pg oldest_xmin hdr then
                  DeadTuple (if is_node_page \<and> item_len (lp_item iid) \<ge> hdr_size + NODE_FIXED_DATA_SIZE
                    then Some (unat (from_le (bslice OFF_ADJ_SLOT (OFF_ADJ_SLOT + 2) data) :: u16)) else None)
                else LiveTuple)))"

fun is_dead :: "slot_state \<Rightarrow> bool" where
  "is_dead (DeadTuple s) = True"
| "is_dead st = False"

fun dead_slot :: "slot_state \<Rightarrow> nat option" where
  "dead_slot (DeadTuple s) = s"
| "dead_slot st = None"

definition mark_dead :: "nat \<Rightarrow> page \<Rightarrow> page" where
  "mark_dead off page =
     (if lp_flags (lines page ! (off - 1)) = LP_NORMAL then set_lp_flags page off LP_DEAD else page)"

fun clear_headers :: "nat list \<Rightarrow> page \<Rightarrow> store_error + page" where
  "clear_headers [] page = Inr page"
| "clear_headers (slot # slots) page =
     (let offset = slot * ADJ_HEADER_BYTES in
      if offset + ADJ_HEADER_BYTES \<le> length (special page)
      then clear_headers slots (page\<lparr>special := splice offset (replicate ADJ_HEADER_BYTES 0) (special page)\<rparr>)
      else Inl (OutOfPage slot))"

definition compact_node_page ::
    "'snap pg \<Rightarrow> xlog \<Rightarrow> nat \<Rightarrow> page \<Rightarrow> nat list \<Rightarrow> store_error + (page \<times> xlog \<times> nat)" where
  "compact_node_page pg log blkno page dead_adj_slots =
     bindE (clear_headers dead_adj_slots page) (\<lambda>page.
       let page = PageRepairFragmentation pg page;
           (log, lsn) = log_node_compact log blkno page
       in Inr (page, log, lsn))"

definition rel_pages :: "relname \<Rightarrow> db \<Rightarrow> page list" where
  "rel_pages r d = (case r of NodeRel \<Rightarrow> node_rel d | EdgeRel \<Rightarrow> edge_rel d)"

definition put_page :: "relname \<Rightarrow> nat \<Rightarrow> page \<Rightarrow> db \<Rightarrow> db" where
  "put_page r blkno page d = (case r of
     NodeRel \<Rightarrow> d\<lparr>node_rel := (node_rel d)[blkno := page]\<rparr>
   | EdgeRel \<Rightarrow> d\<lparr>edge_rel := (edge_rel d)[blkno := page]\<rparr>)"

text \<open>The body of the loop over the blocks.\<close>

definition vacuum_block ::
    "'snap pg \<Rightarrow> relname \<Rightarrow> u32 \<Rightarrow> db \<times> VacuumStats \<Rightarrow> nat \<Rightarrow> store_error + (db \<times> VacuumStats)" where
  "vacuum_block pg r oldest_xmin = (\<lambda>(d, stats) blkno.
     let page = rel_pages r d ! blkno in
     if is_overflow_page page then Inr (d, stats)
     else
       let is_node_page = (pd_special page \<noteq> BLCKSZ);
           found = map (\<lambda>off. (off, scan_slot pg oldest_xmin is_node_page page off)) (offsets page);
           dead_offsets = map fst (filter (\<lambda>(off, st). is_dead st) found);
           dead_adj_slots = List.map_filter (\<lambda>(off, st). dead_slot st) found;
           page_live = length (filter (\<lambda>(off, st). st = LiveTuple) found);
           page_dead = length dead_offsets;
           stats = (if is_node_page
             then stats\<lparr>live_nodes := live_nodes stats + page_live, dead_nodes := dead_nodes stats + page_dead\<rparr>
             else stats\<lparr>live_edges := live_edges stats + page_live, dead_edges := dead_edges stats + page_dead\<rparr>)
       in if dead_offsets = [] then Inr (d, stats)
          else let page = fold mark_dead dead_offsets page in
            if is_node_page then
              bindE (compact_node_page pg (wal d) blkno page dead_adj_slots) (\<lambda>(page, log, lsn).
                Inr (put_page r blkno (page_set_lsn page lsn) (d\<lparr>wal := log\<rparr>), stats))
            else let (log, lsn) = log_vacuum_page (wal d) r blkno dead_offsets
                 in Inr (put_page r blkno (page_set_lsn page lsn) (d\<lparr>wal := log\<rparr>), stats))"

definition vacuum_relation :: "'snap pg \<Rightarrow> relname \<Rightarrow> db \<Rightarrow> store_error + (db \<times> VacuumStats)" where
  "vacuum_relation pg r d =
     foldE (vacuum_block pg r (OldestNonRemovableTransactionId pg)) (d, stats_default) [0..<length (rel_pages r d)]"

section \<open>The edge relation\<close>

lemma foldE_same: "(\<And>x. x \<in> set xs \<Longrightarrow> f s x = Inr s) \<Longrightarrow> foldE f s xs = Inr s"
  by (induction xs) simp_all

lemma vacuum_skips:
  assumes "list_all is_overflow_page (rel_pages r d)"
  shows "vacuum_relation pg r d = Inr (d, stats_default)"
  unfolding vacuum_relation_def
  by (rule foldE_same) (use assms in \<open>simp add: vacuum_block_def list_all_length\<close>)

section \<open>What happens to a node page\<close>

definition dead_tuple :: "'snap pg \<Rightarrow> u32 \<Rightarrow> line \<Rightarrow> bool" where
  "dead_tuple pg oldest_xmin l \<longleftrightarrow> lp_flags l = LP_NORMAL \<and> hdr_size + 1 \<le> item_len (lp_item l) \<and>
     (\<exists>hdr data. lp_item l = Tuple hdr data \<and> \<not> xmax_invalid hdr \<and> dead_to_all pg oldest_xmin hdr)"

definition vac_line :: "'snap pg \<Rightarrow> u32 \<Rightarrow> line \<Rightarrow> line" where
  "vac_line pg oldest_xmin l = (if dead_tuple pg oldest_xmin l then l\<lparr>lp_flags := LP_DEAD\<rparr> else l)"

text \<open>The slots whose headers are cleared.\<close>

definition cleared :: "'snap pg \<Rightarrow> u32 \<Rightarrow> page \<Rightarrow> nat set" where
  "cleared pg oldest_xmin p = {item_slot (lp_item l) | l. l \<in> set (lines p) \<and> dead_tuple pg oldest_xmin l \<and>
     hdr_size + NODE_FIXED_DATA_SIZE \<le> item_len (lp_item l)}"

lemma scan_slot_dead:
  "is_dead (scan_slot pg oldest b p off) \<longleftrightarrow> (\<exists>l. get_line p off = Some l \<and> dead_tuple pg oldest l)"
  by (auto simp: scan_slot_def dead_tuple_def split: option.splits item.splits)

lemma scan_slot_slot:
  "dead_slot (scan_slot pg oldest True p off) = Some s \<longleftrightarrow> (\<exists>l. get_line p off = Some l \<and> dead_tuple pg oldest l \<and>
     hdr_size + NODE_FIXED_DATA_SIZE \<le> item_len (lp_item l) \<and> s = item_slot (lp_item l))"
  by (auto simp: scan_slot_def dead_tuple_def split: option.splits item.splits)

lemma in_lines: "l \<in> set (lines p) \<longleftrightarrow> (\<exists>off \<in> set (offsets p). get_line p off = Some l)"
proof
  assume "l \<in> set (lines p)"
  then obtain i where "i < length (lines p)" "lines p ! i = l" by (auto simp: in_set_conv_nth)
  then show "\<exists>off \<in> set (offsets p). get_line p off = Some l"
    by (intro bexI [of _ "Suc i"]) (auto simp: get_line_def offsets_def max_off_def)
qed (auto simp: get_line_def max_off_def split: if_splits)

lemma marked_lines:
  assumes "\<And>off. off \<in> set offs \<Longrightarrow> 1 \<le> off \<and> off \<le> max_off p \<and> lp_flags (lines p ! (off - 1)) = LP_NORMAL"
    and "distinct offs"
  shows "fold mark_dead offs p = p\<lparr>lines := map (\<lambda>i. (lines p ! i)
    \<lparr>lp_flags := if Suc i \<in> set offs then LP_DEAD else lp_flags (lines p ! i)\<rparr>) [0..<length (lines p)]\<rparr>"
  using assms
proof (induction offs arbitrary: p)
  case Nil
  have "map (\<lambda>i. (lines p ! i)\<lparr>lp_flags := lp_flags (lines p ! i)\<rparr>) [0..<length (lines p)] = lines p"
    by (simp add: map_nth)
  then show ?case by simp
next
  case (Cons off offs)
  have off: "1 \<le> off" "off \<le> max_off p" "lp_flags (lines p ! (off - 1)) = LP_NORMAL"
    using Cons.prems(1) [of off] by simp_all
  define q where "q = set_lp_flags p off LP_DEAD"
  have q: "lines q = (lines p)[off - 1 := (lines p ! (off - 1))\<lparr>lp_flags := LP_DEAD\<rparr>]" "mark_dead off p = q"
    using off by (simp_all add: q_def set_lp_flags_def mark_dead_def)
  have "o' \<noteq> off" if "o' \<in> set offs" for o' using Cons.prems(2) that by auto
  then have "1 \<le> o' \<and> o' \<le> max_off q \<and> lp_flags (lines q ! (o' - 1)) = LP_NORMAL" if "o' \<in> set offs" for o'
  proof -
    have "off - 1 \<noteq> o' - 1" using Cons.prems(1) [of o'] Cons.prems(2) that off(1) by (metis distinct.simps(2) le_add_diff_inverse list.set_intros(2))
    then show ?thesis using Cons.prems(1) [of o'] that by (simp add: q max_off_def)
  qed
  from Cons.IH [OF this] Cons.prems(2)
  have "fold mark_dead offs q = q\<lparr>lines := map (\<lambda>i. (lines q ! i)
      \<lparr>lp_flags := if Suc i \<in> set offs then LP_DEAD else lp_flags (lines q ! i)\<rparr>) [0..<length (lines q)]\<rparr>"
    by simp
  moreover have "map (\<lambda>i. (lines q ! i)\<lparr>lp_flags := if Suc i \<in> set offs then LP_DEAD else lp_flags (lines q ! i)\<rparr>)
      [0..<length (lines q)] = map (\<lambda>i. (lines p ! i)
      \<lparr>lp_flags := if Suc i \<in> set (off # offs) then LP_DEAD else lp_flags (lines p ! i)\<rparr>) [0..<length (lines p)]"
    using off by (intro nth_equalityI) (auto simp: q nth_list_update)
  moreover have "q\<lparr>lines := ls\<rparr> = p\<lparr>lines := ls\<rparr>" for ls by (simp add: q_def set_lp_flags_def)
  ultimately show ?case by (simp add: q)
qed

definition dead_offs :: "'snap pg \<Rightarrow> u32 \<Rightarrow> page \<Rightarrow> nat list" where
  "dead_offs pg oldest_xmin p =
     filter (\<lambda>off. \<exists>l. get_line p off = Some l \<and> dead_tuple pg oldest_xmin l) (offsets p)"

lemma marked_page:
  "fold mark_dead (dead_offs pg oldest p) p = p\<lparr>lines := map (vac_line pg oldest) (lines p)\<rparr>"
proof -
  have off: "1 \<le> off \<and> off \<le> max_off p \<and> lp_flags (lines p ! (off - 1)) = LP_NORMAL"
    if "off \<in> set (dead_offs pg oldest p)" for off
    using that by (auto simp: dead_offs_def get_line_def dead_tuple_def offsets_def split: if_splits)
  have dist: "distinct (dead_offs pg oldest p)" by (simp add: dead_offs_def offsets_def)
  have "Suc i \<in> set (dead_offs pg oldest p) \<longleftrightarrow> dead_tuple pg oldest (lines p ! i)" if "i < length (lines p)" for i
  proof -
    have "Suc i \<in> set (offsets p)"
      using that unfolding offsets_def max_off_def set_upt atLeastLessThan_iff FirstOffsetNumber_def by linarith
    moreover have "get_line p (Suc i) = Some (lines p ! i)"
      using that by (simp add: get_line_def max_off_def)
    ultimately show ?thesis by (simp add: dead_offs_def)
  qed
  then have "map (\<lambda>i. (lines p ! i)\<lparr>lp_flags := if Suc i \<in> set (dead_offs pg oldest p) then LP_DEAD
      else lp_flags (lines p ! i)\<rparr>) [0..<length (lines p)] = map (vac_line pg oldest) (lines p)"
    by (intro nth_equalityI) (simp_all add: vac_line_def)
  then show ?thesis by (simp only: marked_lines [OF off dist])
qed

text \<open>The headers of a special area.\<close>

definition header_bytes :: "bytes \<Rightarrow> nat \<Rightarrow> bytes" where
  "header_bytes sp i = bslice (i * 24) (i * 24 + 24) sp"

lemma header_bytes_clear:
  assumes "slot * 24 + 24 \<le> length sp"
  shows "header_bytes (splice (slot * 24) (replicate 24 0) sp) i = (if i = slot then replicate 24 0 else header_bytes sp i)"
proof -
  consider "i = slot" | "i < slot" | "slot < i" by linarith
  then show ?thesis using assms by cases (simp_all add: header_bytes_def slice_simps)
qed

lemma clear_headers_run:
  assumes "\<forall>s \<in> set slots. s * 24 + 24 \<le> length (special p)"
  shows "\<exists>sp. clear_headers slots p = Inr (p\<lparr>special := sp\<rparr>) \<and> length sp = length (special p) \<and>
    (\<forall>i. header_bytes sp i = (if i \<in> set slots then replicate 24 0 else header_bytes (special p) i))"
  using assms
proof (induction slots arbitrary: p)
  case Nil
  show ?case by (rule exI [of _ "special p"]) simp
next
  case (Cons s slots)
  let ?q = "p\<lparr>special := splice (s * 24) (replicate 24 0) (special p)\<rparr>"
  have s: "s * 24 + 24 \<le> length (special p)" using Cons.prems by simp
  then have len: "length (special ?q) = length (special p)" by simp
  then obtain sp where sp: "clear_headers slots ?q = Inr (?q\<lparr>special := sp\<rparr>)" "length sp = length (special p)"
      "\<forall>i. header_bytes sp i = (if i \<in> set slots then replicate 24 0 else header_bytes (special ?q) i)"
    using Cons.IH [of ?q] Cons.prems by (auto simp: len)
  have "clear_headers (s # slots) p = Inr (p\<lparr>special := sp\<rparr>)"
    using s sp(1) by (simp add: layout_simps Let_def)
  moreover have "header_bytes sp i = (if i \<in> set (s # slots) then replicate 24 0 else header_bytes (special p) i)" for i
  proof -
    have "header_bytes sp i = (if i \<in> set slots then replicate 24 0 else header_bytes (special ?q) i)"
      using sp(3) by blast
    also have "header_bytes (special ?q) i = (if i = s then replicate 24 0 else header_bytes (special p) i)"
      using header_bytes_clear [OF s, of i] by simp
    finally show ?thesis by simp
  qed
  ultimately show ?case using sp(2) by blast
qed

text \<open>The page after the block was vacuumed.\<close>

definition vacuumed :: "'snap pg \<Rightarrow> u32 \<Rightarrow> page \<Rightarrow> page \<Rightarrow> bool" where
  "vacuumed pg oldest_xmin p q \<longleftrightarrow> node_page_ok q \<and> lines q = map (vac_line pg oldest_xmin) (lines p) \<and>
     (\<forall>i. header_bytes (special q) i =
       (if i \<in> cleared pg oldest_xmin p then replicate 24 0 else header_bytes (special p) i))"

lemma vac_line_storage: "line_storage (vac_line pg oldest l) = line_storage l"
  by (auto simp: vac_line_def line_storage_def dead_tuple_def)

lemma vac_line_tuple: "tuple_line l \<Longrightarrow> tuple_line (vac_line pg oldest l)"
  by (auto simp: vac_line_def tuple_line_def)

lemma vac_line_item [simp]: "lp_item (vac_line pg oldest l) = lp_item l"
  by (simp add: vac_line_def)

lemma marked_ok:
  assumes "node_page_ok p" and "length sp = length (special p)"
  shows "node_page_ok (p\<lparr>lines := map (vac_line pg oldest) (lines p), special := sp\<rparr>)"
proof -
  have "storage (p\<lparr>lines := map (vac_line pg oldest) (lines p), special := sp\<rparr>) = storage p"
    by (simp add: storage_def comp_def vac_line_storage)
  moreover have "list_all tuple_line (map (vac_line pg oldest) (lines p))"
    using assms(1) vac_line_tuple by (auto simp: node_page_ok_def list_all_iff)
  ultimately show ?thesis using assms by (simp add: node_page_ok_def page_wf_def)
qed

lemma vacuumed_none:
  assumes "node_page_ok p" and "dead_offs pg oldest p = []"
  shows "vacuumed pg oldest p p"
proof -
  have none: "\<not> dead_tuple pg oldest l" if "l \<in> set (lines p)" for l
    using assms(2) that by (auto simp: dead_offs_def in_lines filter_empty_conv)
  then have "map (vac_line pg oldest) (lines p) = lines p" "cleared pg oldest p = {}"
    by (auto simp: vac_line_def cleared_def intro: map_idI)
  then show ?thesis using assms(1) by (simp add: vacuumed_def)
qed

lemma dead_slots_set:
  "set (List.map_filter (\<lambda>(off, st). dead_slot st)
     (map (\<lambda>off. (off, scan_slot pg oldest True p off)) (offsets p))) = cleared pg oldest p"
proof -
  have "set (List.map_filter f xs) = {y. \<exists>x \<in> set xs. f x = Some y}" for f :: "nat \<times> slot_state \<Rightarrow> nat option" and xs
    by (force simp: List.map_filter_def)
  then show ?thesis by (auto simp: scan_slot_slot cleared_def in_lines)
qed

lemma dead_offs_scan:
  "map fst (filter (\<lambda>(off, st). is_dead st) (map (\<lambda>off. (off, scan_slot pg oldest b p off)) (offsets p))) =
     dead_offs pg oldest p"
  by (simp add: dead_offs_def filter_map comp_def scan_slot_dead)

lemma compact_run:
  assumes pg: "pg_ok pg" and p: "node_page_ok p" and slots: "set slots = cleared pg oldest p"
    and small: "\<forall>s \<in> cleared pg oldest p. s < MAX_NODE_SLOTS_PER_PAGE"
  shows "\<exists>q log lsn. compact_node_page pg log0 blk (fold mark_dead (dead_offs pg oldest p) p) slots = Inr (q, log, lsn) \<and>
    vacuumed pg oldest p q"
proof -
  let ?m = "p\<lparr>lines := map (vac_line pg oldest) (lines p)\<rparr>"
  have len: "length (special p) = 2400" using p by (simp add: node_page_ok_def page_wf_def layout_simps)
  have "\<forall>s \<in> set slots. s * 24 + 24 \<le> length (special ?m)"
    using small slots len by (auto simp: layout_simps)
  then obtain sp where sp: "clear_headers slots ?m = Inr (?m\<lparr>special := sp\<rparr>)" "length sp = length (special p)"
      "\<forall>i. header_bytes sp i = (if i \<in> set slots then replicate 24 0 else header_bytes (special p) i)"
    using clear_headers_run [of slots ?m] by auto
  let ?q = "p\<lparr>lines := map (vac_line pg oldest) (lines p), special := sp\<rparr>"
  have ok: "node_page_ok ?q" by (rule marked_ok [OF p sp(2)])
  then have "page_wf ?q" "\<forall>l \<in> set (lines ?q). lp_flags l \<noteq> LP_UNUSED"
    by (auto simp: node_page_ok_def list_all_iff tuple_line_def)
  then have rep: "page_wf (PageRepairFragmentation pg ?q)" "lines (PageRepairFragmentation pg ?q) = lines ?q"
      "special (PageRepairFragmentation pg ?q) = special ?q" "pd_special (PageRepairFragmentation pg ?q) = pd_special ?q"
    using pg unfolding pg_ok_def pg_repair_ok_def Let_def by blast+
  then have "vacuumed pg oldest p (PageRepairFragmentation pg ?q)"
    using ok sp(3) slots by (simp add: vacuumed_def node_page_ok_def)
  then show ?thesis
    using sp(1) by (simp add: compact_node_page_def marked_page log_node_compact_def XLogInsert_def Let_def)
qed

end
