(* ===== verification/WalRedo.thy ===== *)
theory WalRedo
  imports Vacuum
begin

text \<open>
  The redo half of \<open>storage/wal.rs\<close>: the dispatch on the opcode, one handler per record type, and the
  describing callbacks. What \<open>XLogReadBufferForRedo\<close> does with a block is a parameter.
\<close>

section \<open>Records as recovery sees them\<close>

text \<open>
  A decoded record with the two positions PostgreSQL keeps of it: where it starts (the \<open>lsn\<close> field of the
  decoded record) and where it ends, which is the value \<open>XLogInsert\<close> returned.
\<close>

record XLogReaderState =
  xlr_rec :: xlog_rec
  rec_lsn :: nat
  EndRecPtr :: nat

datatype XLogRedoAction = BLK_NEEDS_REDO | BLK_DONE | BLK_RESTORED | BLK_NOTFOUND

type_synonym redo_buffer = "XLogReaderState \<Rightarrow> nat \<Rightarrow> db \<Rightarrow> db \<times> XLogRedoAction"

definition XLR_INFO_MASK :: u8 where "XLR_INFO_MASK = 0x0F"

definition xlog_rec_get_info :: "XLogReaderState \<Rightarrow> u8" where
  "xlog_rec_get_info st = xl_info (xlr_rec st)"

definition xlog_rec_get_data :: "XLogReaderState \<Rightarrow> bytes" where
  "xlog_rec_get_data st = xl_main (xlr_rec st)"

definition xlog_rec_get_data_len :: "XLogReaderState \<Rightarrow> nat" where
  "xlog_rec_get_data_len st = length (xl_main (xlr_rec st))"

definition xlog_rec_get_lsn :: "XLogReaderState \<Rightarrow> nat" where
  "xlog_rec_get_lsn st = rec_lsn st"

text \<open>
  \<open>XLogRecGetBlockData\<close>: the data of a block is an item or bytes; without data the pointer is null and
  the length 0.
\<close>

fun data_item :: "block_data \<Rightarrow> item" where
  "data_item NoData = Raw []"
| "data_item (ItemData it) = it"
| "data_item (BytesData bs) = Raw bs"

fun data_bytes :: "block_data \<Rightarrow> bytes" where
  "data_bytes (BytesData bs) = bs"
| "data_bytes data = []"

definition block_data :: "XLogReaderState \<Rightarrow> nat \<Rightarrow> block_data" where
  "block_data st i = b_data (xl_blocks (xlr_rec st) ! i)"

text \<open>
  The common frame of the handlers: the buffer is read for redo, and the page of the block is
  changed according to the action.
\<close>

definition on_redo ::
    "redo_buffer \<Rightarrow> XLogReaderState \<Rightarrow> nat \<Rightarrow> (page \<Rightarrow> store_error + page) \<Rightarrow> (page \<Rightarrow> page) \<Rightarrow> db \<Rightarrow> store_error + db" where
  "on_redo rb st i needs_redo restored d =
     (let (d, action) = rb st i d;
          b = xl_blocks (xlr_rec st) ! i;
          page = rel_pages (b_rel b) d ! b_blk b
      in case action of
           BLK_NEEDS_REDO \<Rightarrow> bindE (needs_redo page) (\<lambda>page. Inr (put_page (b_rel b) (b_blk b) page d))
         | BLK_RESTORED \<Rightarrow> Inr (put_page (b_rel b) (b_blk b) (restored page) d)
         | _ \<Rightarrow> Inr d)"

section \<open>The handlers\<close>

definition offset_number :: "bytes \<Rightarrow> nat" where
  "offset_number data = unat (from_le (bslice 0 2 data) :: u16)"

definition xmax_field :: "bytes \<Rightarrow> u32" where
  "xmax_field data = from_le (bslice 4 8 data)"

definition redo_node_insert ::
    "'snap pg \<Rightarrow> redo_buffer \<Rightarrow> XLogReaderState \<Rightarrow> db \<Rightarrow> store_error + db" where
  "redo_node_insert pg rb st d =
     (let main_data_len = xlog_rec_get_data_len st in
      if main_data_len < 4 then Inl (RedoDataTooShort main_data_len)
      else
        let off = offset_number (xlog_rec_get_data st);
            item_data = data_item (block_data st 0);
            lsn = xlog_rec_get_lsn st
        in bindE (on_redo rb st 0 (\<lambda>page.
               let page = (if pd_upper page = 0 then init_node_page pg else page);
                   (page, result) = PageAddItemExtended pg page item_data off PAI_OVERWRITE
               in if result = InvalidOffsetNumber then Inl (RedoAddItemFailed off)
                  else Inr (page_set_lsn page lsn)) (\<lambda>page. page) d)
             (\<lambda>d. if xlog_rec_get_info st AND NOT XLR_INFO_MASK = XLOG_PG_EDDY_NODE_INSERT_OVF
                  then on_redo rb st 1 Inr (\<lambda>ovf_page. page_set_lsn ovf_page lsn) d
                  else Inr d))"

definition redo_node_compact :: "redo_buffer \<Rightarrow> XLogReaderState \<Rightarrow> db \<Rightarrow> store_error + db" where
  "redo_node_compact rb st = on_redo rb st 0 Inr (\<lambda>page. page_set_lsn page (xlog_rec_get_lsn st))"

text \<open>An offset number behind the line pointers is an access outside the page's items.\<close>

definition redo_xmax :: "nat \<Rightarrow> u32 \<Rightarrow> nat \<Rightarrow> page \<Rightarrow> store_error + page" where
  "redo_xmax off xmax lsn page =
     (case get_line page off of
        None \<Rightarrow> Inl (OutOfPage off)
      | Some iid \<Rightarrow> Inr (page_set_lsn
          (if lp_flags iid = LP_NORMAL then mark_deleted page off xmax else page) lsn))"

definition redo_node_delete :: "redo_buffer \<Rightarrow> XLogReaderState \<Rightarrow> db \<Rightarrow> store_error + db" where
  "redo_node_delete rb st d =
     (let main_data_len = xlog_rec_get_data_len st in
      if main_data_len < 8 then Inl (RedoDataTooShort main_data_len)
      else
        let off = offset_number (xlog_rec_get_data st);
            xmax = xmax_field (xlog_rec_get_data st)
        in on_redo rb st 0 (redo_xmax off xmax (xlog_rec_get_lsn st)) (\<lambda>page. page) d)"

definition redo_dead :: "page \<Rightarrow> nat \<Rightarrow> store_error + page" where
  "redo_dead page off =
     (case get_line page off of
        None \<Rightarrow> Inl (OutOfPage off)
      | Some iid \<Rightarrow> Inr (if lp_flags iid = LP_NORMAL then set_lp_flags page off LP_DEAD else page))"

definition redo_vacuum_page :: "redo_buffer \<Rightarrow> XLogReaderState \<Rightarrow> db \<Rightarrow> store_error + db" where
  "redo_vacuum_page rb st d =
     (let main_data_len = xlog_rec_get_data_len st in
      if main_data_len < 2 then Inl (RedoDataTooShort main_data_len)
      else
        let data = xlog_rec_get_data st;
            n_dead = unat (from_le (bslice 0 2 data) :: u16);
            expected_len = 2 + n_dead * 2
        in if main_data_len < expected_len then Inl (RedoDataTooShort main_data_len)
           else on_redo rb st 0 (\<lambda>page.
               bindE (foldE redo_dead page
                   (map (\<lambda>i. unat (from_le (bslice (2 + i * 2) (4 + i * 2) data) :: u16)) [0..<n_dead]))
                 (\<lambda>page. Inr (page_set_lsn page (xlog_rec_get_lsn st)))) (\<lambda>page. page) d)"

definition redo_edge_insert ::
    "'snap pg \<Rightarrow> redo_buffer \<Rightarrow> XLogReaderState \<Rightarrow> db \<Rightarrow> store_error + db" where
  "redo_edge_insert pg rb st d =
     (let main_data_len = xlog_rec_get_data_len st in
      if main_data_len < 4 then Inl (RedoDataTooShort main_data_len)
      else
        let off = offset_number (xlog_rec_get_data st);
            item_data = data_item (block_data st 0);
            lsn = xlog_rec_get_lsn st
        in on_redo rb st 0 (\<lambda>page.
             let page = (if pd_upper page = 0 then init_edge_page pg else page);
                 (page, result) = PageAddItemExtended pg page item_data off PAI_OVERWRITE
             in if result = InvalidOffsetNumber then Inl (RedoAddItemFailed off)
                else Inr (page_set_lsn page lsn)) (\<lambda>page. page) d)"

definition redo_edge_delete :: "redo_buffer \<Rightarrow> XLogReaderState \<Rightarrow> db \<Rightarrow> store_error + db" where
  "redo_edge_delete rb st d =
     (let main_data_len = xlog_rec_get_data_len st in
      if main_data_len < 8 then Inl (RedoDataTooShort main_data_len)
      else
        let off = offset_number (xlog_rec_get_data st);
            xmax = xmax_field (xlog_rec_get_data st)
        in on_redo rb st 0 (redo_xmax off xmax (xlog_rec_get_lsn st)) (\<lambda>page. page) d)"

text \<open>The header is copied to the special area through a raw pointer.\<close>

definition redo_adj_update :: "redo_buffer \<Rightarrow> XLogReaderState \<Rightarrow> db \<Rightarrow> store_error + db" where
  "redo_adj_update rb st d =
     (let payload = data_bytes (block_data st 0) in
      if length payload < 2 + ADJ_HEADER_BYTES then Inl (RedoDataTooShort (length payload))
      else
        let adj_slot_idx = unat (from_le (bslice 0 2 payload) :: u16);
            new_adj_bytes = bslice 2 (2 + ADJ_HEADER_BYTES) payload
        in on_redo rb st 0 (\<lambda>page.
             let offset = adj_slot_idx * ADJ_HEADER_BYTES in
             if offset + ADJ_HEADER_BYTES \<le> length (special page)
             then Inr (page_set_lsn (page\<lparr>special := splice offset new_adj_bytes (special page)\<rparr>) (xlog_rec_get_lsn st))
             else Inl (OutOfPage adj_slot_idx)) (\<lambda>page. page) d)"

section \<open>Dispatch\<close>

definition rmgr_redo :: "'snap pg \<Rightarrow> redo_buffer \<Rightarrow> XLogReaderState \<Rightarrow> db \<Rightarrow> store_error + db" where
  "rmgr_redo pg rb st d =
     (let info = xlog_rec_get_info st AND NOT XLR_INFO_MASK in
      if info = XLOG_PG_EDDY_NODE_INSERT \<or> info = XLOG_PG_EDDY_NODE_INSERT_OVF then redo_node_insert pg rb st d
      else if info = XLOG_PG_EDDY_NODE_COMPACT then redo_node_compact rb st d
      else if info = XLOG_PG_EDDY_NODE_DELETE then redo_node_delete rb st d
      else if info = XLOG_PG_EDDY_EDGE_INSERT then redo_edge_insert pg rb st d
      else if info = XLOG_PG_EDDY_EDGE_DELETE then redo_edge_delete rb st d
      else if info = XLOG_PG_EDDY_ADJ_UPDATE then redo_adj_update rb st d
      else if info = XLOG_PG_EDDY_VACUUM_PAGE then redo_vacuum_page rb st d
      else Inl (UnknownRecordType info))"

text \<open>\<open>rmgr_desc\<close> appends to the buffer it is given, if any.\<close>

definition rmgr_desc :: "string option \<Rightarrow> XLogReaderState \<Rightarrow> string option" where
  "rmgr_desc buf st =
     (case buf of
        None \<Rightarrow> None
      | Some s \<Rightarrow>
          let info = xlog_rec_get_info st AND NOT XLR_INFO_MASK;
              msg = (if info = XLOG_PG_EDDY_NODE_INSERT then ''node_insert''
                else if info = XLOG_PG_EDDY_NODE_INSERT_OVF then ''node_insert_ovf''
                else if info = XLOG_PG_EDDY_NODE_COMPACT then ''node_compact''
                else if info = XLOG_PG_EDDY_NODE_DELETE then ''node_delete''
                else if info = XLOG_PG_EDDY_EDGE_INSERT then ''edge_insert''
                else if info = XLOG_PG_EDDY_EDGE_DELETE then ''edge_delete''
                else if info = XLOG_PG_EDDY_ADJ_UPDATE then ''adj_update''
                else if info = XLOG_PG_EDDY_VACUUM_PAGE then ''vacuum_page''
                else ''unknown'')
          in Some (s @ msg))"

definition rmgr_identify :: "u8 \<Rightarrow> string" where
  "rmgr_identify info =
     (let info = info AND NOT XLR_INFO_MASK in
      if info = XLOG_PG_EDDY_NODE_INSERT then ''NODE_INSERT''
      else if info = XLOG_PG_EDDY_NODE_INSERT_OVF then ''NODE_INSERT_OVF''
      else if info = XLOG_PG_EDDY_NODE_COMPACT then ''NODE_COMPACT''
      else if info = XLOG_PG_EDDY_NODE_DELETE then ''NODE_DELETE''
      else if info = XLOG_PG_EDDY_EDGE_INSERT then ''EDGE_INSERT''
      else if info = XLOG_PG_EDDY_EDGE_DELETE then ''EDGE_DELETE''
      else if info = XLOG_PG_EDDY_ADJ_UPDATE then ''ADJ_UPDATE''
      else if info = XLOG_PG_EDDY_VACUUM_PAGE then ''VACUUM_PAGE''
      else ''UNKNOWN'')"

text \<open>Recovery: the records of a piece of the log, the first of which has the given position.\<close>

fun replay :: "'snap pg \<Rightarrow> redo_buffer \<Rightarrow> nat \<Rightarrow> xlog \<Rightarrow> db \<Rightarrow> store_error + db" where
  "replay pg rb pos [] d = Inr d"
| "replay pg rb pos (r # rs) d =
     bindE (rmgr_redo pg rb \<lparr>xlr_rec = r, rec_lsn = pos, EndRecPtr = Suc pos\<rparr> d) (replay pg rb (Suc pos) rs)"

section \<open>PostgreSQL's part\<close>

text \<open>
  The documented behaviour of \<open>XLogReadBufferForRedo\<close>: a block with a page image is restored from it,
  whatever is on disk, and gets the end position of the record as its LSN; otherwise the block needs
  redo exactly if its LSN is behind the end position of the record, and is not found if it is not in
  the relation.
\<close>

definition redo_buffer_ok :: "redo_buffer \<Rightarrow> bool" where
  "redo_buffer_ok rb \<longleftrightarrow> (\<forall>st i d. i < length (xl_blocks (xlr_rec st)) \<longrightarrow>
     (let b = xl_blocks (xlr_rec st) ! i; rel = rel_pages (b_rel b) d in
      b_blk b < length rel \<longrightarrow>
      rb st i d = (case b_image b of
        Some p \<Rightarrow> (put_page (b_rel b) (b_blk b) (page_set_lsn p (EndRecPtr st)) d, BLK_RESTORED)
      | None \<Rightarrow> (d, if EndRecPtr st \<le> pd_lsn (rel ! b_blk b) then BLK_DONE else BLK_NEEDS_REDO))) \<and>
     (let b = xl_blocks (xlr_rec st) ! i in
      \<not> b_blk b < length (rel_pages (b_rel b) d) \<and> b_image b = None \<longrightarrow> rb st i d = (d, BLK_NOTFOUND)))"

definition ref_redo :: redo_buffer where
  "ref_redo st i d =
     (let b = xl_blocks (xlr_rec st) ! i; rel = rel_pages (b_rel b) d in
      if b_blk b < length rel then
        (case b_image b of
           Some p \<Rightarrow> (put_page (b_rel b) (b_blk b) (page_set_lsn p (EndRecPtr st)) d, BLK_RESTORED)
         | None \<Rightarrow> (d, if EndRecPtr st \<le> pd_lsn (rel ! b_blk b) then BLK_DONE else BLK_NEEDS_REDO))
      else (d, BLK_NOTFOUND))"

lemma redo_buffer_ref: "redo_buffer_ok ref_redo"
  by (auto simp: redo_buffer_ok_def ref_redo_def Let_def)

text \<open>
  A page image that PostgreSQL adds on its own (the first change of a page after a checkpoint, with
  \<open>full_page_writes\<close>) replaces the data of the block, since no block is registered with
  \<open>REGBUF_KEEP_DATA\<close>.
\<close>

definition with_fpi :: "page \<Rightarrow> block_ref \<Rightarrow> block_ref" where
  "with_fpi p b = b\<lparr>b_data := NoData, b_image := Some p\<rparr>"

text \<open>\<open>PageAddItemExtended\<close> does not overwrite a line pointer in use, with \<open>PAI_OVERWRITE\<close> either.\<close>

definition pg_no_overwrite :: "'snap pg \<Rightarrow> bool" where
  "pg_no_overwrite pg \<longleftrightarrow> (\<forall>p it off. page_wf p \<longrightarrow> 1 \<le> off \<longrightarrow> off \<le> max_off p \<longrightarrow> \<not> unused p off \<longrightarrow>
     PageAddItemExtended pg p it off PAI_OVERWRITE = (p, InvalidOffsetNumber))"

lemma pg_no_overwrite_ref: "pg_no_overwrite ref_pg"
  by (auto simp: pg_no_overwrite_def ref_pg_def ref_add_item_def Let_def)

end
