(* ===== verification/RedoFacts.thy ===== *)
theory RedoFacts
  imports WalRedo
begin

text \<open>
  What the handlers do with the records the stores write: the fields of the records are read back, and
  a page whose LSN is behind the record is changed as the operation changed it.
\<close>

section \<open>Fields\<close>

lemma record_fields:
  assumes "off < 2 ^ 16"
  shows "offset_number (XLogNodeInsert off) = off" "offset_number (XLogEdgeInsert off) = off"
    "offset_number (XLogNodeDelete off xmax) = off" "offset_number (XLogEdgeDelete off xmax) = off"
    "xmax_field (XLogNodeDelete off xmax) = xmax" "xmax_field (XLogEdgeDelete off xmax) = xmax"
  using assms
  by (simp_all add: offset_number_def xmax_field_def XLogNodeInsert_def XLogEdgeInsert_def XLogNodeDelete_def
      XLogEdgeDelete_def bslice_def unat_of_nat take_bit_nat_eq_self)

lemma record_lengths:
  "length (XLogNodeInsert off) = 4" "length (XLogEdgeInsert off) = 4" "length (XLogNodeDelete off xmax) = 8"
  "length (XLogEdgeDelete off xmax) = 8"
  by (simp_all add: XLogNodeInsert_def XLogEdgeInsert_def XLogNodeDelete_def XLogEdgeDelete_def)

lemma info_bits:
  "XLOG_PG_EDDY_NODE_INSERT AND NOT XLR_INFO_MASK = XLOG_PG_EDDY_NODE_INSERT"
  "XLOG_PG_EDDY_NODE_INSERT_OVF AND NOT XLR_INFO_MASK = XLOG_PG_EDDY_NODE_INSERT_OVF"
  "XLOG_PG_EDDY_NODE_DELETE AND NOT XLR_INFO_MASK = XLOG_PG_EDDY_NODE_DELETE"
  "XLOG_PG_EDDY_NODE_COMPACT AND NOT XLR_INFO_MASK = XLOG_PG_EDDY_NODE_COMPACT"
  "XLOG_PG_EDDY_EDGE_INSERT AND NOT XLR_INFO_MASK = XLOG_PG_EDDY_EDGE_INSERT"
  "XLOG_PG_EDDY_EDGE_DELETE AND NOT XLR_INFO_MASK = XLOG_PG_EDDY_EDGE_DELETE"
  "XLOG_PG_EDDY_ADJ_UPDATE AND NOT XLR_INFO_MASK = XLOG_PG_EDDY_ADJ_UPDATE"
  "XLOG_PG_EDDY_VACUUM_PAGE AND NOT XLR_INFO_MASK = XLOG_PG_EDDY_VACUUM_PAGE"
  by code_simp+

text \<open>Which handler a record gets.\<close>

lemma dispatch:
  "xl_info (xlr_rec st) = XLOG_PG_EDDY_NODE_INSERT \<Longrightarrow> rmgr_redo pg rb st d = redo_node_insert pg rb st d"
  "xl_info (xlr_rec st) = XLOG_PG_EDDY_NODE_INSERT_OVF \<Longrightarrow> rmgr_redo pg rb st d = redo_node_insert pg rb st d"
  "xl_info (xlr_rec st) = XLOG_PG_EDDY_NODE_DELETE \<Longrightarrow> rmgr_redo pg rb st d = redo_node_delete rb st d"
  "xl_info (xlr_rec st) = XLOG_PG_EDDY_NODE_COMPACT \<Longrightarrow> rmgr_redo pg rb st d = redo_node_compact rb st d"
  "xl_info (xlr_rec st) = XLOG_PG_EDDY_EDGE_INSERT \<Longrightarrow> rmgr_redo pg rb st d = redo_edge_insert pg rb st d"
  "xl_info (xlr_rec st) = XLOG_PG_EDDY_EDGE_DELETE \<Longrightarrow> rmgr_redo pg rb st d = redo_edge_delete rb st d"
  "xl_info (xlr_rec st) = XLOG_PG_EDDY_ADJ_UPDATE \<Longrightarrow> rmgr_redo pg rb st d = redo_adj_update rb st d"
  "xl_info (xlr_rec st) = XLOG_PG_EDDY_VACUUM_PAGE \<Longrightarrow> rmgr_redo pg rb st d = redo_vacuum_page rb st d"
  by (simp_all add: rmgr_redo_def xlog_rec_get_info_def Let_def info_bits) (simp_all add: xlog_opcodes)

section \<open>The buffer\<close>

lemma redo_bufferD:
  assumes "redo_buffer_ok rb" and "i < length (xl_blocks (xlr_rec st))" and "xl_blocks (xlr_rec st) ! i = b"
    and "b_blk b < length (rel_pages (b_rel b) d)"
  shows "rb st i d = (case b_image b of
      Some p \<Rightarrow> (put_page (b_rel b) (b_blk b) (page_set_lsn p (EndRecPtr st)) d, BLK_RESTORED)
    | None \<Rightarrow> (d, if EndRecPtr st \<le> pd_lsn (rel_pages (b_rel b) d ! b_blk b) then BLK_DONE else BLK_NEEDS_REDO))"
  using assms unfolding redo_buffer_ok_def Let_def by blast

lemma on_redo_needed:
  assumes rb: "redo_buffer_ok rb" and i: "i < length (xl_blocks (xlr_rec st))"
    and b: "xl_blocks (xlr_rec st) ! i = b" "b_image b = None" "b_blk b < length (rel_pages (b_rel b) d)"
    and lsn: "pd_lsn (rel_pages (b_rel b) d ! b_blk b) < EndRecPtr st"
  shows "on_redo rb st i f g d =
    bindE (f (rel_pages (b_rel b) d ! b_blk b)) (\<lambda>page. Inr (put_page (b_rel b) (b_blk b) page d))"
proof -
  have "rb st i d = (d, BLK_NEEDS_REDO)"
    using redo_bufferD [OF rb i b(1,3)] b(2) lsn by simp
  then show ?thesis by (simp add: on_redo_def b)
qed

lemma on_redo_image:
  assumes rb: "redo_buffer_ok rb" and i: "i < length (xl_blocks (xlr_rec st))"
    and b: "xl_blocks (xlr_rec st) ! i = b" "b_image b = Some p" "b_blk b < length (rel_pages (b_rel b) d)"
  shows "on_redo rb st i f g d = Inr (put_page (b_rel b) (b_blk b) (g (page_set_lsn p (EndRecPtr st))) d)"
proof -
  have "rb st i d = (put_page (b_rel b) (b_blk b) (page_set_lsn p (EndRecPtr st)) d, BLK_RESTORED)"
    using redo_bufferD [OF rb i b(1,3)] b(2) by simp
  then show ?thesis
    using b(3) by (cases "b_rel b") (simp_all add: on_redo_def b rel_pages_def put_page_def)
qed

lemma on_redo_done:
  assumes rb: "redo_buffer_ok rb" and i: "i < length (xl_blocks (xlr_rec st))"
    and b: "xl_blocks (xlr_rec st) ! i = b" "b_image b = None" "b_blk b < length (rel_pages (b_rel b) d)"
    and lsn: "EndRecPtr st \<le> pd_lsn (rel_pages (b_rel b) d ! b_blk b)"
  shows "on_redo rb st i f g d = Inr d"
proof -
  have "rb st i d = (d, BLK_DONE)"
    using redo_bufferD [OF rb i b(1,3)] b(2) lsn by simp
  then show ?thesis by (simp add: on_redo_def)
qed

lemma put_page_simps [simp]:
  "rel_pages r (put_page r blk p d) = (rel_pages r d)[blk := p]"
  "put_page r blk q (put_page r blk p d) = put_page r blk q d"
  "wal (put_page r blk p d) = wal d" "location_cache (put_page r blk p d) = location_cache d"
  by (cases r; simp add: rel_pages_def put_page_def)+

lemma put_page_rels:
  "node_rel (put_page r blk p d) = (if r = NodeRel then (node_rel d)[blk := p] else node_rel d)"
  "edge_rel (put_page r blk p d) = (if r = EdgeRel then (edge_rel d)[blk := p] else edge_rel d)"
  by (cases r; simp add: put_page_def)+

text \<open>Equality of states up to the LSNs of the pages and the log itself.\<close>

definition unlsn :: "page \<Rightarrow> page" where
  "unlsn p = p\<lparr>pd_lsn := 0\<rparr>"

definition same_content :: "db \<Rightarrow> db \<Rightarrow> bool" where
  "same_content d d' \<longleftrightarrow> map unlsn (node_rel d) = map unlsn (node_rel d') \<and>
     map unlsn (edge_rel d) = map unlsn (edge_rel d') \<and> location_cache d = location_cache d'"

lemma unlsn_set [simp]: "unlsn (page_set_lsn p lsn) = unlsn p"
  by (simp add: unlsn_def page_set_lsn_def)

text \<open>Log positions: no page is ahead of the log.\<close>

definition lsns_ok :: "db \<Rightarrow> bool" where
  "lsns_ok d \<longleftrightarrow> (\<forall>r. \<forall>p \<in> set (rel_pages r d). pd_lsn p \<le> length (wal d))"

lemma lsns_page: "lsns_ok d \<Longrightarrow> blk < length (rel_pages r d) \<Longrightarrow> pd_lsn (rel_pages r d ! blk) \<le> length (wal d)"
  unfolding lsns_ok_def using nth_mem by blast

section \<open>Deletes\<close>

lemma replay_one: "replay pg rb pos [r] d = rmgr_redo pg rb \<lparr>xlr_rec = r, rec_lsn = pos, EndRecPtr = Suc pos\<rparr> d"
proof -
  have e: "bindE m Inr = m" for m :: "store_error + db" by (cases m) simp_all
  have "replay pg rb (Suc pos) [] = Inr" by (simp add: fun_eq_iff)
  then show ?thesis by (simp add: e)
qed

definition delete_record :: "relname \<Rightarrow> nat \<Rightarrow> nat \<Rightarrow> u32 \<Rightarrow> xlog_rec" where
  "delete_record r blk off xmax =
     \<lparr>xl_info = (case r of NodeRel \<Rightarrow> XLOG_PG_EDDY_NODE_DELETE | EdgeRel \<Rightarrow> XLOG_PG_EDDY_EDGE_DELETE),
      xl_blocks = [\<lparr>b_rel = r, b_blk = blk, b_data = NoData, b_image = None\<rparr>],
      xl_main = (case r of NodeRel \<Rightarrow> XLogNodeDelete off xmax | EdgeRel \<Rightarrow> XLogEdgeDelete off xmax)\<rparr>"

lemma log_deletes:
  "fst (log_node_delete log blk off xmax) = log @ [delete_record NodeRel blk off xmax]"
  "fst (log_edge_delete log blk off xmax) = log @ [delete_record EdgeRel blk off xmax]"
  by (simp_all add: log_defs delete_record_def)

lemma redo_delete:
  assumes rb: "redo_buffer_ok rb" and blk: "blk < length (rel_pages r d)" and p: "rel_pages r d ! blk = p"
    and lsn: "pd_lsn p \<le> pos" and l: "get_line p off = Some l" "lp_flags l = LP_NORMAL" and off: "off < 2 ^ 16"
  shows "replay pg rb pos [delete_record r blk off xmax] d =
    Inr (put_page r blk (page_set_lsn (mark_deleted p off xmax) pos) d)"
proof -
  let ?st = "\<lparr>xlr_rec = delete_record r blk off xmax, rec_lsn = pos, EndRecPtr = Suc pos\<rparr>"
  have "on_redo rb ?st 0 (redo_xmax off xmax pos) (\<lambda>page. page) d =
      bindE (redo_xmax off xmax pos p) (\<lambda>page. Inr (put_page r blk page d))"
    using on_redo_needed [OF rb, of 0 ?st, OF _ refl] blk p lsn by (simp add: delete_record_def)
  then have "on_redo rb ?st 0 (redo_xmax off xmax pos) (\<lambda>page. page) d =
      Inr (put_page r blk (page_set_lsn (mark_deleted p off xmax) pos) d)"
    using l by (simp add: redo_xmax_def)
  then show ?thesis
    unfolding replay_one
    by (cases r) (simp_all add: dispatch delete_record_def redo_node_delete_def redo_edge_delete_def
        xlog_rec_get_data_len_def xlog_rec_get_data_def xlog_rec_get_lsn_def record_lengths record_fields [OF off] Let_def)
qed

lemma tids_off_small:
  assumes "node_rel_ok rel" and "tids rel (blk, off) = Some l"
  shows "off < 2 ^ 16"
proof -
  note t = tids_page [OF assms(2)]
  then have "node_page_ok (rel ! blk)" using node_rel_node_page [OF assms(1)] by blast
  then have "max_off (rel ! blk) \<le> 2042" by (simp add: node_page_ok_def max_off_bound)
  then show ?thesis using t by simp
qed

lemma redo_delete_node:
  assumes ok: "node_store_ok d" and lsn: "lsns_ok d" and rb: "redo_buffer_ok rb"
    and del: "delete_node_by_id pg d n = Inr (d', b)"
  shows "\<exists>d''. replay pg' rb (length (wal d)) (drop (length (wal d)) (wal d')) d = Inr d'' \<and> same_content d'' d'"
proof (cases "absent d n")
  case True
  then have "d' = d" using delete_absent [OF ok True, of pg] del by simp
  then show ?thesis by (simp add: same_content_def)
next
  case False
  then obtain blk off where live: "live_at (node_rel d) n (blk, off)" unfolding absent_def by fastforce
  then obtain l where l: "tids (node_rel d) (blk, off) = Some l" "live_line n l" by (auto simp: live_at_def)
  let ?x = "CurrentTransactionId pg" and ?pos = "length (wal d)"
  note t = tids_page [OF l(1)]
  have d': "d' = d\<lparr>node_rel := mark_in (node_rel d) blk off ?x (Suc ?pos), wal := fst (log_node_delete (wal d) blk off ?x)\<rparr>"
    using delete_run [OF ok live, of pg] del by simp
  have p: "blk < length (rel_pages NodeRel d)" "rel_pages NodeRel d ! blk = node_rel d ! blk"
    using t by (simp_all add: rel_pages_def)
  have "get_line (node_rel d ! blk) off = Some l" using t by (simp add: get_line_def)
  moreover have "lp_flags l = LP_NORMAL" using l(2) by (simp add: live_line_def)
  moreover have "off < 2 ^ 16" using tids_off_small [OF _ l(1)] ok by (simp add: node_store_ok_def)
  moreover have "pd_lsn (node_rel d ! blk) \<le> ?pos" using lsns_page [OF lsn p(1)] p(2) by simp
  ultimately have "replay pg' rb ?pos [delete_record NodeRel blk off ?x] d =
      Inr (put_page NodeRel blk (page_set_lsn (mark_deleted (node_rel d ! blk) off ?x) ?pos) d)"
    using redo_delete [OF rb p] by blast
  moreover have "drop ?pos (wal d') = [delete_record NodeRel blk off ?x]" by (simp add: d' log_deletes)
  ultimately show ?thesis
    by (simp add: same_content_def d' put_page_rels mark_in_def map_update)
qed

lemma redo_delete_edge:
  assumes ok: "graph_ok d" and lsn: "lsns_ok d" and rb: "redo_buffer_ok rb"
    and del: "delete_edge pg d eid = (d', b)"
  shows "\<exists>d''. replay pg' rb (length (wal d)) (drop (length (wal d)) (wal d')) d = Inr d'' \<and> same_content d'' d'"
proof (cases "find_live_edge (edge_rel d) eid")
  case None
  then show ?thesis using del by (simp add: delete_edge_run same_content_def)
next
  case (Some t)
  obtain blk off where t: "t = (blk, off)" by (cases t)
  let ?x = "CurrentTransactionId pg" and ?pos = "length (wal d)"
  have d': "d' = d\<lparr>edge_rel := (edge_rel d)[blk := page_set_lsn (mark_deleted (edge_rel d ! blk) off ?x) (Suc ?pos)],
      wal := fst (log_edge_delete (wal d) blk off ?x)\<rparr>"
    using del Some t by (simp add: delete_edge_run)
  have "edge_at (edge_rel d) eid (blk, off)" using find_live_edge(2) [OF graph_okD(8) [OF ok]] Some t by blast
  then obtain l where l: "elines (edge_rel d) (blk, off) = Some l" "live_edge_line eid l" by (auto simp: edge_at_def)
  note e = elines_page [OF l(1)]
  have p: "blk < length (rel_pages EdgeRel d)" "rel_pages EdgeRel d ! blk = edge_rel d ! blk"
    using e by (simp_all add: rel_pages_def)
  have "edge_page_ok (edge_rel d ! blk)" using graph_okD(8) [OF ok] e by (simp add: list_all_length)
  then have "off < 2 ^ 16" using max_off_bound [of "edge_rel d ! blk"] e by (simp add: edge_page_ok_def)
  moreover have "get_line (edge_rel d ! blk) off = Some l" using e by (simp add: get_line_def)
  moreover have "lp_flags l = LP_NORMAL" using l(2) by (simp add: live_edge_line_def)
  moreover have "pd_lsn (edge_rel d ! blk) \<le> ?pos" using lsns_page [OF lsn p(1)] p(2) by simp
  ultimately have "replay pg' rb ?pos [delete_record EdgeRel blk off ?x] d =
      Inr (put_page EdgeRel blk (page_set_lsn (mark_deleted (edge_rel d ! blk) off ?x) ?pos) d)"
    using redo_delete [OF rb p] by blast
  moreover have "drop ?pos (wal d') = [delete_record EdgeRel blk off ?x]" by (simp add: d' log_deletes)
  ultimately show ?thesis by (simp add: same_content_def d' put_page_rels map_update)
qed

end
