(* ===== verification/RedoInserts.thy ===== *)
theory RedoInserts
  imports RedoFacts
begin

text \<open>
  Recovery of inserts, from a disk on which a page that the insert added is missing its contents: the
  page is formatted by redo, the item goes to its offset, the adjacency headers are copied. An
  edge insert is recovered up to the \<open>t_ctid\<close> of the item, which nothing reads; a node insert loses its
  adjacency slot.
\<close>

section \<open>One record\<close>

lemma replay_append:
  "replay pg rb pos (xs @ ys) d = bindE (replay pg rb pos xs d) (replay pg rb (pos + length xs) ys)"
proof (induction xs arbitrary: pos d)
  case (Cons x xs)
  show ?case
    by (cases "rmgr_redo pg rb \<lparr>xlr_rec = x, rec_lsn = pos, EndRecPtr = Suc pos\<rparr> d") (simp_all add: Cons)
qed simp

definition node_insert_record :: "nat \<Rightarrow> nat \<Rightarrow> item \<Rightarrow> xlog_rec" where
  "node_insert_record blk off it = \<lparr>xl_info = XLOG_PG_EDDY_NODE_INSERT,
     xl_blocks = [\<lparr>b_rel = NodeRel, b_blk = blk, b_data = ItemData it, b_image = None\<rparr>],
     xl_main = XLogNodeInsert off\<rparr>"

lemma log_node_inserts: "log_node_insert log blk off it None = (log @ [node_insert_record blk off it], Suc (length log))"
  by (simp add: log_defs node_insert_record_def)

lemma redo_add_edge:
  assumes rb: "redo_buffer_ok rb" and blk: "blk < length (edge_rel d)" and lsn: "pd_lsn (edge_rel d ! blk) \<le> pos"
    and add: "PageAddItemExtended pg (if pd_upper (edge_rel d ! blk) = 0 then init_edge_page pg else edge_rel d ! blk)
      it off PAI_OVERWRITE = (q, off)"
    and off: "1 \<le> off" "off < 2 ^ 16"
  shows "replay pg rb pos [edge_insert_record blk off it] d = Inr (put_page EdgeRel blk (page_set_lsn q pos) d)"
proof -
  let ?st = "\<lparr>xlr_rec = edge_insert_record blk off it, rec_lsn = pos, EndRecPtr = Suc pos\<rparr>"
  have "on_redo rb ?st 0 f g d = bindE (f (edge_rel d ! blk)) (\<lambda>page. Inr (put_page EdgeRel blk page d))" for f g
    using on_redo_needed [OF rb, of 0 ?st _ d f g, OF _ refl] blk lsn by (simp add: edge_insert_record_def rel_pages_def)
  moreover have "rmgr_redo pg rb ?st d = redo_edge_insert pg rb ?st d"
    by (rule dispatch(5)) (simp add: edge_insert_record_def)
  moreover have "xlog_rec_get_data ?st = XLogEdgeInsert off" "xlog_rec_get_data_len ?st = 4"
      "data_item (block_data ?st 0) = it" "xlog_rec_get_lsn ?st = pos"
    by (simp_all add: xlog_rec_get_data_def xlog_rec_get_data_len_def edge_insert_record_def record_lengths
        block_data_def xlog_rec_get_lsn_def)
  ultimately show ?thesis
    using add off(1) by (simp add: replay_one redo_edge_insert_def record_fields [OF off(2)] Let_def)
qed

lemma redo_add_node:
  assumes rb: "redo_buffer_ok rb" and blk: "blk < length (node_rel d)" and lsn: "pd_lsn (node_rel d ! blk) \<le> pos"
    and add: "PageAddItemExtended pg (if pd_upper (node_rel d ! blk) = 0 then init_node_page pg else node_rel d ! blk)
      it off PAI_OVERWRITE = (q, off)"
    and off: "1 \<le> off" "off < 2 ^ 16"
  shows "replay pg rb pos [node_insert_record blk off it] d = Inr (put_page NodeRel blk (page_set_lsn q pos) d)"
proof -
  let ?st = "\<lparr>xlr_rec = node_insert_record blk off it, rec_lsn = pos, EndRecPtr = Suc pos\<rparr>"
  have "on_redo rb ?st 0 f g d = bindE (f (node_rel d ! blk)) (\<lambda>page. Inr (put_page NodeRel blk page d))" for f g
    using on_redo_needed [OF rb, of 0 ?st _ d f g, OF _ refl] blk lsn by (simp add: node_insert_record_def rel_pages_def)
  moreover have "rmgr_redo pg rb ?st d = redo_node_insert pg rb ?st d"
    by (rule dispatch(1)) (simp add: node_insert_record_def)
  moreover have "xlog_rec_get_info ?st = XLOG_PG_EDDY_NODE_INSERT" by (simp add: xlog_rec_get_info_def node_insert_record_def)
  then have "xlog_rec_get_info ?st AND NOT XLR_INFO_MASK \<noteq> XLOG_PG_EDDY_NODE_INSERT_OVF"
    by (simp add: info_bits) (simp add: xlog_opcodes)
  moreover have "xlog_rec_get_data ?st = XLogNodeInsert off" "xlog_rec_get_data_len ?st = 4"
      "data_item (block_data ?st 0) = it" "xlog_rec_get_lsn ?st = pos"
    by (simp_all add: xlog_rec_get_data_def xlog_rec_get_data_len_def node_insert_record_def record_lengths
        block_data_def xlog_rec_get_lsn_def)
  ultimately show ?thesis
    using add off(1) by (simp add: replay_one redo_node_insert_def record_fields [OF off(2)] Let_def)
qed

lemma redo_adj:
  assumes rb: "redo_buffer_ok rb" and x: "in_special (node_rel d) x" "snd x < 2 ^ 16" and h: "adj_wf h"
    and lsn: "pd_lsn (node_rel d ! fst x) \<le> pos"
  shows "replay pg rb pos [adj_record x h] d =
    Inr (put_page NodeRel (fst x) (page_set_lsn (write_adj_header (node_rel d ! fst x) (snd x) h) pos) d)"
proof -
  let ?st = "\<lparr>xlr_rec = adj_record x h, rec_lsn = pos, EndRecPtr = Suc pos\<rparr>"
  have "fst x < length (node_rel d)" using x(1) by (simp add: in_special_def)
  then have "on_redo rb ?st 0 f g d = bindE (f (node_rel d ! fst x)) (\<lambda>page. Inr (put_page NodeRel (fst x) page d))" for f g
    using on_redo_needed [OF rb, of 0 ?st _ d f g, OF _ refl] lsn by (simp add: adj_record_def rel_pages_def)
  moreover have "rmgr_redo pg rb ?st d = redo_adj_update rb ?st d"
    by (rule dispatch(7)) (simp add: adj_record_def)
  moreover have "data_bytes (block_data ?st 0) = to_le 2 (of_nat (snd x) :: u16) @ adj_bytes h" "xlog_rec_get_lsn ?st = pos"
    by (simp_all add: block_data_def adj_record_def xlog_rec_get_lsn_def)
  moreover have "unat (of_nat (snd x) :: u16) = snd x" using x(2) by (simp add: unat_of_nat take_bit_nat_eq_self)
  moreover have "length (adj_bytes h) = 24" using h by (simp add: adj_wf_def layout_simps)
  ultimately show ?thesis
    using x(1)
    by (simp add: replay_one redo_adj_update_def bslice_def write_adj_header_def in_special_def layout_simps Let_def)
qed

section \<open>Relations that differ in LSNs\<close>

lemma unlsn_same_items:
  assumes "map unlsn rel = map unlsn rel'"
  shows "same_items rel rel' \<and> (\<forall>x. header_at rel' x = header_at rel x)"
proof -
  have len: "length rel' = length rel" using assms by (metis length_map)
  have "unlsn (rel ! b) = unlsn (rel' ! b)" if "b < length rel" for b
    using assms that len by (metis nth_map)
  then have p: "lines (rel' ! b) = lines (rel ! b) \<and> pd_special (rel' ! b) = pd_special (rel ! b) \<and>
      pd_lower (rel' ! b) = pd_lower (rel ! b) \<and> pd_upper (rel' ! b) = pd_upper (rel ! b) \<and>
      special (rel' ! b) = special (rel ! b)" if "b < length rel" for b
    using that by (cases "rel ! b"; cases "rel' ! b") (fastforce simp: unlsn_def)
  then have "same_items rel rel'" using len by (simp add: same_items_def)
  moreover have "header_at rel' x = header_at rel x" for x by (rule same_headers) (use p len in auto)
  ultimately show ?thesis by blast
qed

lemma graph_same_nodes:
  assumes ok: "graph_ok d" and n: "same_items (node_rel d) (node_rel d')"
    "\<And>x. header_at (node_rel d') x = header_at (node_rel d) x"
    and e: "edge_rel d' = edge_rel d" "location_cache d' = location_cache d"
  shows "graph_ok d'" and "adjacency_follow d' i dir filt = adjacency_follow d i dir filt"
proof -
  note D = graph_okD [OF ok]
  have live: "live_at (node_rel d') i t = live_at (node_rel d) i t" for i t by (rule same_items_live [OF n(1)])
  have slot: "old_slot (node_rel d') t = old_slot (node_rel d) t" for t
    by (simp add: old_slot_def same_items_tids [OF n(1)])
  show ok': "graph_ok d'"
    using D same_items_store [OF n(1) e(2) D(1)]
    by (simp add: graph_ok_def heads_ok_def slots_distinct_def slots_used_def unused_empty_def n(2) e live slot
        same_items_tids [OF n(1)])
  show "adjacency_follow d' i dir filt = adjacency_follow d i dir filt"
  proof (cases "absent d i")
    case True
    then have "absent d' i" by (simp add: absent_def live)
    then show ?thesis using absent_same [OF ok ok' True] by blast
  next
    case False
    then obtain t where t: "live_at (node_rel d) i t" by (auto simp: absent_def)
    show ?thesis
      by (rule follow_same [OF ok ok' e(1) t]) (simp_all add: live t n(2) slot_of_def slot)
  qed
qed

lemma unlsn_write: "unlsn (write_adj_header p i h) = write_adj_header (unlsn p) i h"
  by (simp add: unlsn_def write_adj_header_def)

lemma unlsn_put_header:
  "fst x < length rel \<Longrightarrow> map unlsn (put_header rel x h) = put_header (map unlsn rel) x h"
  by (simp add: put_header_def map_update unlsn_write)

lemma unlsn_put_lsn: "map unlsn (put_lsn rel b lsn) = map unlsn rel"
proof -
  have "map unlsn (rel[b := page_set_lsn (rel ! b) lsn]) = (map unlsn rel)[b := unlsn (rel ! b)]"
    by (simp add: map_update)
  also have "\<dots> = map unlsn rel" by (cases "b < length rel") (simp_all add: list_update_beyond)
  finally show ?thesis by (simp add: put_lsn_def)
qed

lemma unlsn_linked:
  assumes "fst s < length rel" and "fst t < length rel"
  shows "map unlsn (linked rel s t hs ht ls lt) = put_header (put_header (map unlsn rel) s hs) t ht"
proof -
  have "fst t < length (put_header rel s hs)" using assms by (simp add: put_header_def)
  then show ?thesis using assms by (simp add: linked_def Let_def unlsn_put_lsn unlsn_put_header)
qed

lemma put_header_twice:
  assumes "in_special rel x" and "adj_wf h" and "adj_wf h'"
  shows "put_header (put_header rel x h) x h' = put_header rel x h'"
proof -
  have "splice k b (splice k a sp) = splice k b sp" if "length a = length b" "k + length a \<le> length sp"
    for k :: nat and a b sp :: bytes
  proof -
    have "k \<le> length sp" using that(2) by simp
    then show ?thesis using that by (simp add: splice_def min_absorb2)
  qed
  then show ?thesis
    using assms by (simp add: put_header_def write_adj_header_def in_special_def adj_wf_def layout_simps)
qed

section \<open>An edge insert\<close>

text \<open>The disk before recovery: pages the run added are there, but empty.\<close>

definition on_disk :: "db \<Rightarrow> db \<Rightarrow> db" where
  "on_disk d d' = d\<lparr>node_rel := node_rel d @ replicate (length (node_rel d') - length (node_rel d)) new_page,
     edge_rel := edge_rel d @ replicate (length (edge_rel d') - length (edge_rel d)) new_page\<rparr>"

lemma add_item_at:
  assumes pg: "pg_ok pg" and p: "page_wf p" "fits p (item_len it)"
  shows "PageAddItemExtended pg p it (Suc (max_off p)) PAI_OVERWRITE = (append_line p it it, Suc (max_off p))"
proof -
  have "place p (Suc (max_off p)) it = append_line p it it" by (simp add: place_def append_line_def Let_def max_off_def)
  then show ?thesis
    using pg p unfolding pg_ok_def pg_add_item_at_ok_def fits_def by (metis Suc_eq_plus1)
qed

interpretation same_records: record_change "\<lambda>rs. rs"
  by unfold_locales simp_all

lemma redo_headers:
  assumes rb: "redo_buffer_ok rb" and s: "in_special (node_rel d) s" "snd s < 2 ^ 16" "adj_wf hs"
    and t: "in_special (node_rel d) t" "snd t < 2 ^ 16" "adj_wf ht"
    and lsn: "\<forall>p \<in> set (node_rel d). pd_lsn p \<le> pos"
  shows "\<exists>d'. replay pg rb pos [adj_record s hs, adj_record t ht] d = Inr d' \<and>
    map unlsn (node_rel d') = put_header (put_header (map unlsn (node_rel d)) s hs) t ht \<and>
    edge_rel d' = edge_rel d \<and> location_cache d' = location_cache d"
proof -
  let ?r = "node_rel d"
  let ?p = "page_set_lsn (write_adj_header (?r ! fst s) (snd s) hs) pos"
  let ?d1 = "put_page NodeRel (fst s) ?p d"
  have b: "fst s < length ?r" "fst t < length ?r" using s t by (simp_all add: in_special_def)
  have d1: "replay pg rb pos [adj_record s hs] d = Inr ?d1"
    by (rule redo_adj [OF rb s]) (use lsn b in simp)
  have r1: "node_rel ?d1 = put_lsn (put_header ?r s hs) (fst s) pos"
    using b by (simp add: put_page_rels put_lsn_def put_header_def)
  have same: "same_items ?r (node_rel ?d1)"
    unfolding r1 using same_items_put_header [OF s(1,3)] same_items_put_lsn same_items_trans by blast
  have sp: "in_special (node_rel ?d1) t" using in_special_same [OF same] t(1) by simp
  have "pd_lsn (node_rel ?d1 ! fst t) \<le> Suc pos"
    using lsn b by (cases "fst s = fst t") (simp_all add: put_page_rels page_set_lsn_def le_SucI)
  from redo_adj [OF rb sp t(2,3) this]
  have d2: "replay pg rb (Suc pos) [adj_record t ht] ?d1 = Inr (put_page NodeRel (fst t)
      (page_set_lsn (write_adj_header (node_rel ?d1 ! fst t) (snd t) ht) (Suc pos)) ?d1)" .
  let ?d2 = "put_page NodeRel (fst t) (page_set_lsn (write_adj_header (node_rel ?d1 ! fst t) (snd t) ht) (Suc pos)) ?d1"
  have b1: "fst t < length (node_rel ?d1)" using sp by (simp add: in_special_def)
  have "node_rel ?d2 = put_lsn (put_header (node_rel ?d1) t ht) (fst t) (Suc pos)"
    using b1 by (simp add: put_page_rels [of NodeRel "fst t"] put_lsn_def put_header_def)
  then have "map unlsn (node_rel ?d2) = put_header (map unlsn (node_rel ?d1)) t ht"
    using b1 by (simp only: unlsn_put_lsn unlsn_put_header)
  also have "map unlsn (node_rel ?d1) = put_header (map unlsn ?r) s hs"
    unfolding r1 unlsn_put_lsn using b by (simp add: unlsn_put_header)
  finally have "map unlsn (node_rel ?d2) = put_header (put_header (map unlsn ?r) s hs) t ht" .
  moreover have "replay pg rb pos ([adj_record s hs] @ [adj_record t ht]) d = Inr ?d2"
    unfolding replay_append d1 using d2 by simp
  ultimately show ?thesis by (intro exI [of _ ?d2]) (simp add: put_page_rels)
qed

text \<open>The line of a recovered edge has no \<open>t_ctid\<close>; nothing reads it.\<close>

lemma fresh_line:
  fixes pg :: "'s pg" and pg' :: "'t pg"
  shows "links o' \<lparr>lp_flags = LP_NORMAL, lp_item = Tuple (fresh_header pg) data\<rparr> = links o' (edge_line_at pg b k data)"
    and "line_recs filt t \<lparr>lp_flags = LP_NORMAL, lp_item = Tuple (fresh_header pg) data\<rparr> =
      line_recs filt t (edge_line_at pg b k data)"
    and "edge_entry pg' t \<lparr>lp_flags = LP_NORMAL, lp_item = Tuple (fresh_header pg) data\<rparr> =
      edge_entry pg' t (edge_line_at pg b k data)"
proof -
  have x: "xmax_invalid (fresh_at pg b k) = xmax_invalid (fresh_header pg)"
      "edge_xmin_visible pg' (fresh_at pg b k) = edge_xmin_visible pg' (fresh_header pg)"
    by (simp_all add: fresh_at_def xmax_invalid_def edge_xmin_visible_def)
  show "links o' \<lparr>lp_flags = LP_NORMAL, lp_item = Tuple (fresh_header pg) data\<rparr> = links o' (edge_line_at pg b k data)"
    by (simp add: links_def edge_line_at_def)
  show r: "line_recs filt t \<lparr>lp_flags = LP_NORMAL, lp_item = Tuple (fresh_header pg) data\<rparr> =
      line_recs filt t (edge_line_at pg b k data)" for filt
    by (simp add: line_recs_def edge_line_at_def x)
  show "edge_entry pg' t \<lparr>lp_flags = LP_NORMAL, lp_item = Tuple (fresh_header pg) data\<rparr> =
      edge_entry pg' t (edge_line_at pg b k data)"
    using r [of None] by (simp add: edge_entry_def edge_line_at_def x)
qed

lemma append_line_ok:
  assumes "page_wf (append_line p it it)" and "pd_special p = BLCKSZ" and "list_all edge_line (lines p)"
    and "it = Tuple hdr data" and "length data = EDGE_FIXED_DATA_SIZE + PROP_INLINE_MAX"
  shows "edge_page_ok (page_set_lsn (append_line p it it) lsn)"
  using assms by (simp add: edge_page_ok_def edge_line_def)

text \<open>A slot with a header has a small number.\<close>

lemma special_small:
  assumes "graph_ok d" and "in_special (node_rel d) x"
  shows "snd x < 2 ^ 16"
proof -
  have "node_rel_ok (node_rel d)" using graph_okD(1) [OF assms(1)] by (simp add: node_store_ok_def)
  then have "page_wf (node_rel d ! fst x)"
    using assms(2) node_rel_page by (fastforce simp: in_special_def node_page_ok_def overflow_page_ok_def)
  then have "length (special (node_rel d ! fst x)) \<le> 8192" by (simp add: page_wf_def layout_simps)
  moreover have "snd x * 24 + 24 \<le> length (special (node_rel d ! fst x))" using assms(2) by (simp add: in_special_def)
  ultimately have "snd x * 24 + 24 \<le> 8192" by (rule order_trans [rotated])
  then show ?thesis by simp
qed

text \<open>The parts of a run of \<open>insert_edge\<close>.\<close>

definition insert_parts ::
    "'snap pg \<Rightarrow> db \<Rightarrow> db \<Rightarrow> page list \<Rightarrow> nat \<Rightarrow> nat \<Rightarrow> bytes \<Rightarrow> nat \<times> nat \<Rightarrow> nat \<times> nat \<Rightarrow>
     NodeAdjHeader \<Rightarrow> NodeAdjHeader \<Rightarrow> bool" where
  "insert_parts pg d d' erel eb off data s t hs ht \<longleftrightarrow>
     (erel = edge_rel d \<and> eb < length (edge_rel d) \<or> erel = edge_rel d @ [init_edge_page pg] \<and> eb = length (edge_rel d)) \<and>
     edge_page_ok (erel ! eb) \<and> fits (erel ! eb) (hdr_size + length data) \<and> off = Suc (max_off (erel ! eb)) \<and>
     page_wf (append_line (erel ! eb) (Tuple (fresh_header pg) data) (Tuple (fresh_header pg) data)) \<and>
     length data = EDGE_FIXED_DATA_SIZE + PROP_INLINE_MAX \<and>
     header_at (node_rel d) s = Inr hs \<and> header_at (node_rel d) t = Inr ht \<and>
     (\<exists>ls lt. node_rel d' = linked (node_rel d) s t (link_out (eb, off) hs) (relink (eb, off) (s = t) True ht) ls lt) \<and>
     edge_rel d' = erel[eb := page_set_lsn (append_line (erel ! eb) (Tuple (fresh_header pg) data)
       (Tuple (fresh_at pg eb off) data)) (Suc (length (wal d)))] \<and>
     drop (length (wal d)) (wal d') = insert_records (eb, off) (Tuple (fresh_header pg) data) s t hs ht \<and>
     location_cache d' = location_cache d"

lemma find_or_extend_cases:
  assumes "find_or_extend_edge_page pg rel n = (erel, eb)"
  shows "erel = rel \<and> eb < length rel \<or> erel = rel @ [init_edge_page pg] \<and> eb = length rel"
  using assms by (auto simp: find_or_extend_edge_page_def split: if_splits)

lemma insert_edge_parts:
  assumes pg: "pg_ok pg" and ok: "graph_ok d" and src: "linkable d src" and tgt: "linkable d tgt"
    and props: "length props \<le> PROP_INLINE_MAX" and run: "insert_edge pg d eid ty src tgt props = Inr d'"
  shows "\<exists>erel eb off data s t hs ht. insert_parts pg d d' erel eb off data s t hs ht"
proof -
  obtain us hs where us: "header_at (node_rel d) (slot_of (node_rel d) us) = Inr hs"
      "find_node_location d src = Inr (Some (fst us, snd us, old_slot (node_rel d) us))"
    using linkable_header [OF ok src] by blast
  obtain ut ht where ut: "header_at (node_rel d) (slot_of (node_rel d) ut) = Inr ht"
      "find_node_location d tgt = Inr (Some (fst ut, snd ut, old_slot (node_rel d) ut))"
    using linkable_header [OF ok tgt] by blast
  let ?s = "slot_of (node_rel d) us" and ?t = "slot_of (node_rel d) ut"
  note loc = us(2) us(1) [unfolded slot_of_def] ut(2) ut(1) [unfolded slot_of_def]
  let ?data = "edge_bytes eid ty src tgt hs ht props"
  define it where "it = build_edge_item_bytes pg eid ty src tgt (out_head_pg hs) (out_head_sl hs) (in_head_pg ht) (in_head_sl ht) props"
  have it: "it = Tuple (fresh_header pg) ?data" by (simp add: it_def build_edge_item_bytes_def edge_bytes_def)
  have len: "length ?data = EDGE_FIXED_DATA_SIZE + PROP_INLINE_MAX" using props by (simp add: edge_bytes_def layout_simps)
  obtain erel eb where f: "find_or_extend_edge_page pg (edge_rel d) (item_len it) = (erel, eb)" by fastforce
  have "maxalign (item_len it) + item_id_size \<le> 8168"
    using len by (simp add: it hdr_size_def maxalign_def item_id_size_def layout_simps)
  from find_or_extend_edge_spec [OF pg graph_okD(8) [OF ok] this f]
  have p: "edge_page_ok (erel ! eb)" "fits (erel ! eb) (item_len it)" by (auto simp: list_all_length)
  then have wf: "page_wf (erel ! eb)" by (simp add: edge_page_ok_def)
  define off where "off = Suc (max_off (erel ! eb))"
  have "\<forall>l \<in> set (lines (erel ! eb)). lp_flags l \<noteq> LP_UNUSED"
    using p(1) by (auto simp: edge_page_ok_def edge_line_def list_all_iff)
  from add_item_append [OF pg wf this p(2)]
  have add: "PageAddItemExtended pg (erel ! eb) it 0 0 = (append_line (erel ! eb) it it, off)" "page_wf (append_line (erel ! eb) it it)"
    by (simp_all add: off_def)
  have c: "set_ctid (append_line (erel ! eb) it it) eb off = append_line (erel ! eb) it (Tuple (fresh_at pg eb off) ?data)"
    by (simp add: it off_def set_ctid_def modify_last fresh_at_def)
  have "off \<noteq> 0" by (simp add: off_def)
  from insert_edge_raw [OF loc props it_def f add(1) this] run obtain ls lt where
    "d' = d\<lparr>node_rel := linked (node_rel d) ?s ?t (link_out (eb, off) hs) (relink (eb, off) (?s = ?t) True ht) ls lt,
      edge_rel := erel[eb := page_set_lsn (set_ctid (append_line (erel ! eb) it it) eb off) (Suc (length (wal d)))],
      wal := wal d @ insert_records (eb, off) it ?s ?t hs ht\<rparr>"
    unfolding slot_of_def by auto
  then have "insert_parts pg d d' erel eb off ?data ?s ?t hs ht"
    using find_or_extend_cases [OF f] p add(2) len us(1) ut(1) unfolding insert_parts_def c
    by (auto simp: it off_def)
  then show ?thesis by blast
qed

lemma redo_edge_page:
  assumes pg: "pg_ok pg" and rb: "redo_buffer_ok rb" and lsn: "lsns_ok d"
    and parts: "insert_parts pg d d' erel eb off data s t hs ht"
  shows "\<exists>d1. replay pg rb (length (wal d)) [edge_insert_record eb off (Tuple (fresh_header pg) data)] (on_disk d d') = Inr d1 \<and>
    node_rel d1 = node_rel d \<and> location_cache d1 = location_cache d \<and>
    edge_rel d1 = erel[eb := page_set_lsn (append_line (erel ! eb) (Tuple (fresh_header pg) data)
      (Tuple (fresh_header pg) data)) (length (wal d))]"
proof -
  let ?it = "Tuple (fresh_header pg) data" and ?pos = "length (wal d)" and ?disk = "on_disk d d'"
  have p: "edge_page_ok (erel ! eb)" "fits (erel ! eb) (item_len ?it)" "off = Suc (max_off (erel ! eb))"
      "length (edge_rel d') = length erel"
    using parts by (auto simp: insert_parts_def)
  have nodes: "node_rel ?disk = node_rel d" "location_cache ?disk = location_cache d"
    using parts by (auto simp: insert_parts_def on_disk_def linked_def put_header_def put_lsn_def Let_def)
  have wf: "page_wf (erel ! eb)" using p(1) by (simp add: edge_page_ok_def)
  have off: "1 \<le> off" "off < 2 ^ 16" using max_off_bound [OF wf] by (simp_all add: p(3))
  have add: "PageAddItemExtended pg (erel ! eb) ?it off PAI_OVERWRITE = (append_line (erel ! eb) ?it ?it, off)"
    unfolding p(3) by (rule add_item_at [OF pg wf p(2)])
  have page: "eb < length (edge_rel ?disk) \<and> pd_lsn (edge_rel ?disk ! eb) \<le> ?pos \<and>
      (if pd_upper (edge_rel ?disk ! eb) = 0 then init_edge_page pg else edge_rel ?disk ! eb) = erel ! eb \<and>
      (edge_rel ?disk)[eb := q] = erel[eb := q]" for q
  proof (cases "eb < length (edge_rel d)")
    case True
    then have e: "erel = edge_rel d" using parts by (auto simp: insert_parts_def)
    then have "edge_rel ?disk = edge_rel d" using p(4) by (simp add: on_disk_def)
    moreover have "pd_lsn (edge_rel d ! eb) \<le> ?pos"
      using lsns_page [OF lsn, of eb EdgeRel] True by (simp add: rel_pages_def)
    moreover have "pd_upper (erel ! eb) \<noteq> 0" using wf by (simp add: page_wf_def)
    ultimately show ?thesis using True e by simp
  next
    case False
    then have e: "erel = edge_rel d @ [init_edge_page pg]" "eb = length (edge_rel d)"
      using parts by (auto simp: insert_parts_def)
    then have "edge_rel ?disk = edge_rel d @ [new_page]" using p(4) by (simp add: on_disk_def)
    then show ?thesis using e by (simp add: new_page_def list_update_append)
  qed
  from redo_add_edge [OF rb, of eb ?disk ?pos pg ?it off] page add off
  have "replay pg rb ?pos [edge_insert_record eb off ?it] ?disk =
      Inr (put_page EdgeRel eb (page_set_lsn (append_line (erel ! eb) ?it ?it) ?pos) ?disk)" by simp
  moreover have "edge_rel (put_page EdgeRel eb q ?disk) = erel[eb := q]" for q
    using page [of q] by (simp add: put_page_rels)
  ultimately show ?thesis using nodes by (simp add: put_page_rels)
qed

lemma lsn_nodes:
  assumes "lsns_ok d"
  shows "\<forall>p \<in> set (node_rel d). pd_lsn p \<le> length (wal d)"
proof -
  have "\<forall>p \<in> set (rel_pages NodeRel d). pd_lsn p \<le> length (wal d)" using assms unfolding lsns_ok_def by blast
  then show ?thesis by (simp add: rel_pages_def)
qed

lemma redo_insert_headers:
  assumes rb: "redo_buffer_ok rb" and ok: "graph_ok d" and lsn: "lsns_ok d"
    and parts: "insert_parts pg d d' erel eb off data s t hs ht"
    and d1: "node_rel d1 = node_rel d" "location_cache d1 = location_cache d"
  shows "\<exists>d2. replay pg rb (Suc (length (wal d))) (tl (insert_records (eb, off) it s t hs ht)) d1 = Inr d2 \<and>
    map unlsn (node_rel d2) = map unlsn (node_rel d') \<and> edge_rel d2 = edge_rel d1 \<and> location_cache d2 = location_cache d"
proof -
  let ?e = "(eb, off)" and ?pos = "Suc (length (wal d))"
  have h: "header_at (node_rel d) s = Inr hs" "header_at (node_rel d) t = Inr ht"
    using parts by (auto simp: insert_parts_def)
  note sp = header_in_special [OF h(1)] header_in_special [OF h(2)]
  note small = special_small [OF ok sp(1)] special_small [OF ok sp(2)]
  have wf: "adj_wf (link_out ?e hs)" "adj_wf (relink ?e b True ht)" for b
    using header_wf [OF h(1)] header_wf [OF h(2)] relink_heads(1) by simp_all
  have bounds: "fst s < length (node_rel d)" "fst t < length (node_rel d)" using sp by (simp_all add: in_special_def)
  have goal: "map unlsn (node_rel d') =
      put_header (put_header (map unlsn (node_rel d)) s (link_out ?e hs)) t (relink ?e (s = t) True ht)"
    using parts bounds by (auto simp: insert_parts_def unlsn_linked)
  have lsns: "\<forall>p \<in> set (node_rel d). pd_lsn p \<le> ?pos"
    using lsn_nodes [OF lsn] by (simp add: le_SucI)
  show ?thesis
  proof (cases "s = t")
    case True
    have "in_special (map unlsn (node_rel d)) s"
      using sp(1) by (simp add: in_special_def unlsn_def)
    from put_header_twice [OF this wf(1) wf(2)] goal True
    have "map unlsn (node_rel d') = put_header (map unlsn (node_rel d)) s (relink ?e True True ht)" by simp
    moreover have "replay pg rb ?pos [adj_record s (relink ?e True True ht)] d1 = Inr (put_page NodeRel (fst s)
        (page_set_lsn (write_adj_header (node_rel d ! fst s) (snd s) (relink ?e True True ht)) ?pos) d1)"
      using redo_adj [OF rb, of d1 s, OF _ small(1) wf(2) [of True], of ?pos pg] sp(1) lsns bounds d1 by simp
    moreover have "map unlsn ((node_rel d)[fst s := page_set_lsn (write_adj_header (node_rel d ! fst s) (snd s) h) n]) =
        put_header (map unlsn (node_rel d)) s h" for h n
      using bounds by (simp add: map_update put_header_def unlsn_write)
    ultimately show ?thesis
      using True d1 by (simp add: insert_records_def put_page_rels)
  next
    case False
    obtain d2 where d2: "replay pg rb ?pos [adj_record s (link_out ?e hs), adj_record t (relink ?e False True ht)] d1 = Inr d2"
        "map unlsn (node_rel d2) = put_header (put_header (map unlsn (node_rel d)) s (link_out ?e hs)) t (relink ?e False True ht)"
        "edge_rel d2 = edge_rel d1" "location_cache d2 = location_cache d1"
      using redo_headers [OF rb, of d1 s "link_out ?e hs" t "relink ?e False True ht" ?pos pg] sp small wf lsns d1 by auto
    then have "tl (insert_records ?e it s t hs ht) = [adj_record s (link_out ?e hs), adj_record t (relink ?e False True ht)]"
      using False by (simp add: insert_records_def)
    then show ?thesis using d2 goal False d1 by simp
  qed
qed

lemma recover_insert_edge:
  fixes pg :: "'s pg" and pg' :: "'t pg"
  assumes pg: "pg_ok pg" and ok: "graph_ok d" and lsn: "lsns_ok d" and rb: "redo_buffer_ok rb"
    and src: "linkable d src" and tgt: "linkable d tgt" and props: "length props \<le> PROP_INLINE_MAX"
    and run: "insert_edge pg d eid ty src tgt props = Inr d'" and ok': "graph_ok d'"
  shows "\<exists>d''. replay pg rb (length (wal d)) (drop (length (wal d)) (wal d')) (on_disk d d') = Inr d'' \<and> graph_ok d'' \<and>
    (\<forall>n dir filt. adjacency_follow d'' n dir filt = adjacency_follow d' n dir filt) \<and>
    scan_all_edges pg' (edge_rel d'') = scan_all_edges pg' (edge_rel d')"
proof -
  obtain erel eb off data s t hs ht where parts: "insert_parts pg d d' erel eb off data s t hs ht"
    using insert_edge_parts [OF pg ok src tgt props run] by blast
  let ?it = "Tuple (fresh_header pg) data" and ?pos = "length (wal d)"
  let ?q = "page_set_lsn (append_line (erel ! eb) ?it ?it) ?pos"
  have p: "edge_page_ok (erel ! eb)" "off = Suc (max_off (erel ! eb))" "page_wf (append_line (erel ! eb) ?it ?it)"
      "length data = EDGE_FIXED_DATA_SIZE + PROP_INLINE_MAX" "eb < length erel" "location_cache d' = location_cache d"
      "edge_rel d' = erel[eb := page_set_lsn (append_line (erel ! eb) ?it (Tuple (fresh_at pg eb off) data)) (Suc ?pos)]"
      "drop ?pos (wal d') = insert_records (eb, off) ?it s t hs ht"
    using parts by (auto simp: insert_parts_def)
  obtain d1 where d1: "replay pg rb ?pos [edge_insert_record eb off ?it] (on_disk d d') = Inr d1"
      "node_rel d1 = node_rel d" "location_cache d1 = location_cache d" "edge_rel d1 = erel[eb := ?q]"
    using redo_edge_page [OF pg rb lsn parts] by blast
  obtain d2 where d2: "replay pg rb (Suc ?pos) (tl (insert_records (eb, off) ?it s t hs ht)) d1 = Inr d2"
      "map unlsn (node_rel d2) = map unlsn (node_rel d')" "edge_rel d2 = edge_rel d1" "location_cache d2 = location_cache d"
    using redo_insert_headers [OF rb ok lsn parts d1(2,3)] by blast
  have "insert_records (eb, off) ?it s t hs ht =
      [edge_insert_record eb off ?it] @ tl (insert_records (eb, off) ?it s t hs ht)"
    by (simp add: insert_records_def)
  then have run2: "replay pg rb ?pos (drop ?pos (wal d')) (on_disk d d') = Inr d2"
    unfolding p(8)
    by (rule ssubst [where P = "\<lambda>rs. replay pg rb ?pos rs (on_disk d d') = Inr d2"])
      (use d1(1) d2(1) in \<open>simp only: replay_append, simp\<close>)
  let ?l = "edge_line_at pg eb off data" and ?l' = "\<lparr>lp_flags = LP_NORMAL, lp_item = ?it\<rparr>"
  let ?m = "d'\<lparr>edge_rel := edge_rel d2\<rparr>"
  have lines: "lines (edge_rel d' ! eb) = lines (erel ! eb) @ [?l]" using p(5,7) by (simp add: edge_line_at_def)
  have at: "elines (edge_rel d') (eb, off) = Some ?l"
    using lines p(2,5,7) by (simp add: elines_def get_line_def max_off_def)
  have "lines ?q = (lines (edge_rel d' ! eb))[off - 1 := ?l']"
    using lines by (simp add: p(2) max_off_def list_update_append)
  moreover have "edge_page_ok ?q"
    by (rule append_line_ok [OF p(3)]) (use p(1,4) in \<open>simp_all add: edge_page_ok_def\<close>)
  ultimately have "line_changed (edge_rel d') (eb, off) ?l ?l' ((edge_rel d')[eb := ?q])"
    by (rule page_line_changed [OF graph_okD(8) [OF ok'] at]) (rule fresh_line)
  then have c: "line_changed (edge_rel d') (eb, off) ?l ?l' (edge_rel ?m)"
    using p(7) d1(4) d2(3) by simp
  have okm: "graph_ok ?m" by (rule changed_graph_ok [OF ok' c]) simp_all
  have follow: "adjacency_follow ?m n dir filt = adjacency_follow d' n dir filt" for n dir filt
  proof -
    have id: "map_ok (\<lambda>rs. rs) x = x" for x :: "(store_error + EdgeRecord list) option"
    proof (cases x)
      case (Some y)
      then show ?thesis by (cases y) (simp_all add: map_ok_def)
    qed (simp add: map_ok_def)
    from same_records.follow_changed [OF ok' c _ _ fresh_line(2), where i = n and dir = dir and filt = filt] show ?thesis by (simp add: id)
  qed
  have scan: "scan_all_edges pg' (edge_rel ?m) = scan_all_edges pg' (edge_rel d')"
    using same_records.scan_changed [OF c fresh_line(3)] graph_okD(8) [OF ok'] graph_okD(8) [OF okm]
    by (simp add: scan_all_view)
  note items = unlsn_same_items [OF d2(2) [symmetric]]
  have nodes: "same_items (node_rel ?m) (node_rel d2)" using items by simp
  have headers: "header_at (node_rel d2) x = header_at (node_rel ?m) x" for x
    using spec [OF conjunct2 [OF items], of x] by simp
  have "edge_rel d2 = edge_rel ?m" "location_cache d2 = location_cache ?m" using d2(4) p(6) by simp_all
  note same = graph_same_nodes [OF okm nodes headers this]
  show ?thesis using run2 same follow scan by (intro exI [of _ d2]) simp
qed

section \<open>A node insert\<close>

lemma insert_inline_run:
  assumes pg: "pg_ok pg" and ok: "node_rel_ok (node_rel d)"
    and lids: "length lids \<le> MAX_LABELS_PER_NODE" and props: "length props \<le> PROP_INLINE_MAX"
    and run: "insert_node pg d n lids props = Inr (d', (blk, off))"
  shows "\<exists>rel it. it = build_node_item_bytes_ovf pg n 0 lids props 0 \<and> (rel = node_rel d \<or> rel = node_rel d @ [init_node_page pg]) \<and>
    node_rel_ok rel \<and> insertion_page rel blk (item_len it) \<and> tids rel = tids (node_rel d) \<and> off = Suc (max_off (rel ! blk)) \<and>
    node_page_ok (rel ! blk) \<and> node_page_ok (append_line (rel ! blk) it it) \<and> length (node_rel d') = length rel \<and>
    wal d' = wal d @ [node_insert_record blk off it] \<and> edge_rel d' = edge_rel d"
proof -
  define it where "it = build_node_item_bytes_ovf pg n 0 lids props 0"
  obtain rel b where f: "find_or_extend_page pg (node_rel d) (item_len it) = (rel, b)" by fastforce
  have "maxalign (item_len it) + item_id_size \<le> 5768"
    using lids props by (simp add: it_def length_item_build maxalign_def item_id_size_def layout_simps)
  note fs = find_or_extend_spec [OF pg ok this f]
  then have p: "insertion_page rel b (item_len it)" "node_rel_ok rel" "node_page_ok (rel ! b)" "b < length rel"
      "fits (rel ! b) (item_len it)"
    using node_rel_node_page by (auto simp: insertion_page_def)
  have "\<forall>l \<in> set (lines (rel ! b)). lp_flags l \<noteq> LP_UNUSED"
    using p(3) by (simp add: node_page_ok_def tuple_line_def list_all_iff)
  then have add: "PageAddItemExtended pg (rel ! b) it 0 0 = (append_line (rel ! b) it it, Suc (max_off (rel ! b)))"
      "page_wf (append_line (rel ! b) it it)"
    using add_item_append [OF pg _ _ p(5)] p(3) by (simp_all add: node_page_ok_def)
  then have "node_page_ok (append_line (rel ! b) it it)"
    using p(3) by (simp add: node_page_ok_def tuple_line_def it_def build_node_item_bytes_ovf_def)
  moreover have "b = blk \<and> off = Suc (max_off (rel ! b)) \<and> length (node_rel d') = length rel \<and>
      wal d' = wal d @ [node_insert_record b (Suc (max_off (rel ! b))) it] \<and> edge_rel d' = edge_rel d"
    using run lids props f add(1) by (auto simp: insert_node_def Let_def log_node_inserts it_def)
  ultimately show ?thesis using fs p by (intro exI [of _ rel] exI [of _ it]) (simp add: it_def)
qed

lemma fresh_node_line:
  "live_line n \<lparr>lp_flags = LP_NORMAL, lp_item = build_node_item_bytes_ovf pg n adj lids props 0\<rparr> \<and>
   item_slot (build_node_item_bytes_ovf pg n adj lids props 0) = unat adj"
  using node_data_fields(2) [of n adj lids props 0]
  by (simp add: live_line_def build_node_item_bytes_ovf_def node_data_fields(1) fresh_header_def xmax_invalid_def heap_flags)

lemma recovered_store:
  assumes ok: "node_store_ok d" and absent: "absent d n" and rel: "node_rel_ok rel" "tids rel = tids (node_rel d)"
    "keeps_overflow (node_rel d) rel"
    and blk: "blk < length rel" "node_page_ok (rel ! blk)"
    and it: "it = build_node_item_bytes_ovf pg n 0 lids props 0" "node_page_ok (append_line (rel ! blk) it it)"
    and len: "length lids \<le> MAX_LABELS_PER_NODE" "length props \<le> PROP_INLINE_MAX"
    and d': "node_rel d' = rel[blk := page_set_lsn (append_line (rel ! blk) it it) lsn]" "location_cache d' = location_cache d"
  shows "node_store_ok d' \<and> tids (node_rel d') = (tids (node_rel d))((blk, Suc (max_off (rel ! blk))) \<mapsto>
    \<lparr>lp_flags = LP_NORMAL, lp_item = it\<rparr>)"
proof -
  let ?q = "page_set_lsn (append_line (rel ! blk) it it) lsn" and ?l = "\<lparr>lp_flags = LP_NORMAL, lp_item = it\<rparr>"
  let ?t = "(blk, Suc (max_off (rel ! blk)))"
  have q: "node_page_ok ?q" using it(2) unfolding node_page_ok_def by simp
  note no = node_page_not_overflow [OF blk(2)] node_page_not_overflow [OF q]
  have tids: "tids (node_rel d') = (tids (node_rel d))(?t \<mapsto> ?l)"
    unfolding d'(1) rel(2) [symmetric]
    by (rule tids_update [OF blk(1) no], rule get_line_snoc) simp
  have l: "live_line n ?l" using fresh_node_line [of n pg 0 lids props] it(1) by simp
  have "keeps_overflow rel (node_rel d')"
  proof (rule keeps_overflowI)
    fix b assume "b < length rel" "is_overflow_page (rel ! b)"
    then have "b \<noteq> blk" using no(1) by blast
    then show "node_rel d' ! b = rel ! b" by (simp add: d'(1))
  qed (simp add: d'(1))
  then have keeps: "keeps_overflow (node_rel d) (node_rel d')" using keeps_overflow_trans rel(3) by blast
  have parts: "unique_live (node_rel d)" "refs_ok (node_rel d)" "cache_in_range d"
    using ok by (simp_all add: node_store_ok_def)
  have live: "live_at (node_rel d') i t \<Longrightarrow> live_at (node_rel d) i t \<or> (i = n \<and> t = ?t)" for i t
    using live_line_id [OF l] by (auto simp: live_at_def tids split: if_splits)
  have "unique_live (node_rel d')"
    unfolding unique_live_def
  proof (intro allI impI)
    fix i t t' assume "live_at (node_rel d') i t" "live_at (node_rel d') i t'"
    then show "t = t'" using live parts(1) absent unfolding unique_live_def absent_def by metis
  qed
  moreover have "refs_ok (node_rel d')"
    using decode_node_data [OF len, of 0] it(1)
    by (intro refs_ok_update [OF parts(2) keeps tids]) (auto simp: node_record_def build_node_item_bytes_ovf_def)
  moreover have "node_rel_ok (node_rel d')" unfolding d'(1) by (rule node_rel_ok_update [OF rel(1)]) (simp add: q)
  moreover have "cache_in_range d'"
    using parts(3) keeps by (fastforce simp: cache_in_range_def keeps_overflow_def d'(2))
  ultimately show ?thesis using tids by (simp add: node_store_ok_def)
qed

lemma live_other:
  assumes "tids rel' = (tids rel)(u \<mapsto> k)" and "live_line n k" and "tids rel u = None" and "m \<noteq> n"
  shows "live_at rel' m t \<longleftrightarrow> live_at rel m t" and "live_at rel m t \<Longrightarrow> old_slot rel' t = old_slot rel t"
proof -
  have "\<not> live_line m k" using live_line_id assms(2,4) by blast
  then show "live_at rel' m t \<longleftrightarrow> live_at rel m t" using assms(1,3) by (simp add: live_at_def)
  assume "live_at rel m t"
  then have "t \<noteq> u" using assms(3) by (auto simp: live_at_def)
  then show "old_slot rel' t = old_slot rel t" by (simp add: old_slot_def assms(1))
qed

lemma recover_insert_node:
  assumes pg: "pg_ok pg" "txn_ok pg" and ok: "node_store_ok d" and absent: "absent d n" and lsn: "lsns_ok d"
    and rb: "redo_buffer_ok rb"
    and len: "length lids \<le> MAX_LABELS_PER_NODE" "length props \<le> PROP_INLINE_MAX"
    and run: "insert_node pg d n lids props = Inr (d', (blk, off))"
  shows "\<exists>d''. replay pg rb (length (wal d)) (drop (length (wal d)) (wal d')) (on_disk d d') = Inr d'' \<and> node_store_ok d'' \<and>
    find_node_location d' n = Inr (Some (blk, off, off - 1)) \<and> find_node_location d'' n = Inr (Some (blk, off, 0)) \<and>
    (\<forall>m. m \<noteq> n \<longrightarrow> find_node_location d'' m = find_node_location d' m)"
proof -
  let ?pos = "length (wal d)" and ?disk = "on_disk d d'"
  have rel_ok: "node_rel_ok (node_rel d)" using ok by (simp add: node_store_ok_def)
  obtain rel it where it: "it = build_node_item_bytes_ovf pg n 0 lids props 0"
    and rel: "rel = node_rel d \<or> rel = node_rel d @ [init_node_page pg]" "node_rel_ok rel" "tids rel = tids (node_rel d)"
    and ins: "insertion_page rel blk (item_len it)" and off: "off = Suc (max_off (rel ! blk))"
    and p: "node_page_ok (rel ! blk)" "node_page_ok (append_line (rel ! blk) it it)"
    and d': "length (node_rel d') = length rel" "wal d' = wal d @ [node_insert_record blk off it]" "edge_rel d' = edge_rel d"
    using insert_inline_run [OF pg(1) rel_ok len run] by blast
  have wf: "page_wf (rel ! blk)" using p(1) by (simp add: node_page_ok_def)
  have blk: "blk < length rel" "fits (rel ! blk) (item_len it)" using ins by (simp_all add: insertion_page_def)
  have disk: "edge_rel ?disk = edge_rel d" "location_cache ?disk = location_cache d" by (simp_all add: on_disk_def d'(3))
  have page: "blk < length (node_rel ?disk) \<and> pd_lsn (node_rel ?disk ! blk) \<le> ?pos \<and>
      (if pd_upper (node_rel ?disk ! blk) = 0 then init_node_page pg else node_rel ?disk ! blk) = rel ! blk \<and>
      (node_rel ?disk)[blk := q] = rel[blk := q]" for q
  proof (cases "rel = node_rel d")
    case True
    then have "node_rel ?disk = rel" using d'(1) by (simp add: on_disk_def)
    moreover have "pd_lsn (rel ! blk) \<le> ?pos" using lsn_nodes [OF lsn] blk(1) True by simp
    moreover have "pd_upper (rel ! blk) \<noteq> 0" using wf by (simp add: page_wf_def)
    ultimately show ?thesis using blk(1) by simp
  next
    case False
    then have e: "rel = node_rel d @ [init_node_page pg]" using rel(1) by blast
    then have dk: "node_rel ?disk = node_rel d @ [new_page]" using d'(1) by (simp add: on_disk_def)
    show ?thesis
    proof (cases "blk = length (node_rel d)")
      case True
      then show ?thesis unfolding dk e by (simp add: new_page_def list_update_append)
    next
      case F: False
      then have b: "blk < length (node_rel d)" using blk(1) e by simp
      have "\<not> is_overflow_page (rel ! length (node_rel d))"
        using init_node_page_ok [OF pg(1)] node_page_not_overflow by (simp add: e)
      then have False using ins b e by (auto simp: insertion_page_def)
      then show ?thesis ..
    qed
  qed
  have "PageAddItemExtended pg (rel ! blk) it off PAI_OVERWRITE = (append_line (rel ! blk) it it, off)"
    unfolding off by (rule add_item_at [OF pg(1) wf blk(2)])
  moreover have "1 \<le> off" "off < 2 ^ 16" using max_off_bound [OF wf] by (simp_all add: off)
  ultimately have run': "replay pg rb ?pos [node_insert_record blk off it] ?disk =
      Inr (put_page NodeRel blk (page_set_lsn (append_line (rel ! blk) it it) ?pos) ?disk)"
    using redo_add_node [OF rb, of blk ?disk ?pos pg it off "append_line (rel ! blk) it it"] page by simp
  let ?d = "put_page NodeRel blk (page_set_lsn (append_line (rel ! blk) it it) ?pos) ?disk"
  have "node_rel ?d = rel[blk := page_set_lsn (append_line (rel ! blk) it it) ?pos]" "location_cache ?d = location_cache d"
    using page disk by (simp_all add: put_page_rels)
  moreover have "keeps_overflow (node_rel d) rel"
    using rel(1) by (intro keeps_overflowI) (auto simp: nth_append)
  ultimately have store: "node_store_ok ?d" "tids (node_rel ?d) = (tids (node_rel d))((blk, off) \<mapsto> \<lparr>lp_flags = LP_NORMAL, lp_item = it\<rparr>)"
    using recovered_store [OF ok absent rel(2,3) _ blk(1) p(1) it p(2) len, of ?d ?pos] off by simp_all
  have new: "find_node_location ?d n = Inr (Some (blk, off, 0))"
    using live_location [OF store(1), of n "(blk, off)"] store(2) fresh_node_line [of n pg 0 lids props] it
    by (simp add: live_at_def old_slot_def)
  have res: "insert_result pg d n lids props d' blk off"
    using insert_inline [OF pg rel_ok len, of n] run by auto
  then obtain l where l: "tids (node_rel d') = (tids (node_rel d))((blk, off) \<mapsto> l)" "live_line n l" "item_slot (lp_item l) = off - 1"
      "tids (node_rel d) (blk, off) = None"
    by (auto simp: insert_result_def)
  have store': "node_store_ok d'" by (rule insert_store_ok [OF ok absent res])
  have old: "find_node_location d' n = Inr (Some (blk, off, off - 1))"
    using live_location [OF store', of n "(blk, off)"] l by (simp add: live_at_def old_slot_def)
  have "find_node_location ?d m = find_node_location d' m" if m: "m \<noteq> n" for m
  proof -
    have k: "live_line n \<lparr>lp_flags = LP_NORMAL, lp_item = it\<rparr>" using fresh_node_line [of n pg 0 lids props] it by simp
    note 1 = live_other [OF store(2) k l(4) m] and 2 = live_other [OF l(1,2,4) m]
    show ?thesis
    proof (cases "absent d m")
      case True
      then have "absent ?d m" "absent d' m" using 1(1) 2(1) unfolding absent_def by blast+
      then show ?thesis using location_absent [OF store(1)] location_absent [OF store'] by simp
    next
      case False
      then obtain t where t: "live_at (node_rel d) m t" unfolding absent_def by blast
      have "live_at (node_rel ?d) m t" by (rule iffD2 [OF 1(1) t])
      moreover have "live_at (node_rel d') m t" by (rule iffD2 [OF 2(1) t])
      moreover have "old_slot (node_rel ?d) t = old_slot (node_rel d') t" by (rule trans [OF 1(2) [OF t] sym [OF 2(2) [OF t]]])
      ultimately show ?thesis by (simp only: live_location [OF store(1)] live_location [OF store'])
    qed
  qed
  then show ?thesis using run' d'(2) store(1) new old by (intro exI [of _ ?d]) simp
qed

end
