(* ===== verification/VacuumFacts.thy ===== *)
theory VacuumFacts
  imports Vacuum
begin

text \<open>
  What vacuum does to the node relation, the graph and the statistics: no live version is touched,
  and exactly the adjacency lists of the nodes whose slot number a dead version of their page shares
  become empty.
\<close>

section \<open>One block\<close>

definition live_tuple :: "'snap pg \<Rightarrow> u32 \<Rightarrow> line \<Rightarrow> bool" where
  "live_tuple pg oldest_xmin l \<longleftrightarrow> lp_flags l = LP_NORMAL \<and> hdr_size + 1 \<le> item_len (lp_item l) \<and>
     (\<exists>hdr data. lp_item l = Tuple hdr data) \<and> \<not> dead_tuple pg oldest_xmin l"

definition page_count :: "(line \<Rightarrow> bool) \<Rightarrow> page \<Rightarrow> nat" where
  "page_count P p = (if is_overflow_page p then 0 else length (filter P (lines p)))"

definition rel_count :: "(line \<Rightarrow> bool) \<Rightarrow> page list \<Rightarrow> nat" where
  "rel_count P rel = sum_list (map (page_count P) rel)"

lemma count_offsets:
  "length (filter (\<lambda>off. \<exists>l. get_line p off = Some l \<and> P l) (offsets p)) = length (filter P (lines p))"
proof -
  have "filter (\<lambda>i. \<exists>l. get_line p (Suc i) = Some l \<and> P l) [0..<length (lines p)] =
      filter (\<lambda>i. P (lines p ! i)) [0..<length (lines p)]"
    by (rule filter_cong) (simp_all add: get_line_def max_off_def)
  moreover have "length (filter (\<lambda>i. P (lines p ! i)) [0..<length (lines p)]) =
      length (filter P (map (\<lambda>i. lines p ! i) [0..<length (lines p)]))"
    by (simp add: filter_map comp_def)
  ultimately show ?thesis by (simp add: offsets_Suc filter_map comp_def map_nth)
qed

lemma dead_offs_count: "length (dead_offs pg oldest p) = length (filter (dead_tuple pg oldest) (lines p))"
  unfolding dead_offs_def by (rule count_offsets)

lemma live_scan: "scan_slot pg oldest b p off = LiveTuple \<longleftrightarrow>
  (\<exists>l. get_line p off = Some l \<and> live_tuple pg oldest l)"
  by (auto simp: scan_slot_def live_tuple_def dead_tuple_def split: option.splits item.splits)

lemma live_count:
  "length (filter (\<lambda>(off, st). st = LiveTuple) (map (\<lambda>off. (off, scan_slot pg oldest b p off)) (offsets p))) =
     length (filter (live_tuple pg oldest) (lines p))"
  by (simp add: filter_map comp_def live_scan count_offsets)

lemma vacuumed_set_lsn: "vacuumed pg oldest p q \<Longrightarrow> vacuumed pg oldest p (page_set_lsn q lsn)"
  unfolding vacuumed_def node_page_ok_def wf_set_lsn set_lsn_simps by blast

lemma vacuum_block_run:
  assumes pg: "pg_ok pg" and p: "node_page_ok (node_rel d ! blk)"
    and small: "\<forall>s \<in> cleared pg oldest (node_rel d ! blk). s < MAX_NODE_SLOTS_PER_PAGE"
  shows "\<exists>q log. vacuum_block pg NodeRel oldest (d, st) blk =
      Inr (d\<lparr>node_rel := (node_rel d)[blk := q], wal := log\<rparr>,
        st\<lparr>dead_nodes := dead_nodes st + page_count (dead_tuple pg oldest) (node_rel d ! blk),
           live_nodes := live_nodes st + page_count (live_tuple pg oldest) (node_rel d ! blk)\<rparr>) \<and>
    vacuumed pg oldest (node_rel d ! blk) q"
proof -
  let ?p = "node_rel d ! blk"
  let ?slots = "List.map_filter (\<lambda>(off, st). dead_slot st)
    (map (\<lambda>off. (off, scan_slot pg oldest True ?p off)) (offsets ?p))"
  have page: "\<not> is_overflow_page ?p" "pd_special ?p \<noteq> BLCKSZ"
    using p node_page_not_overflow by (auto simp: node_page_ok_def layout_simps)
  note facts = dead_offs_scan live_count dead_offs_count
  show ?thesis
  proof (cases "dead_offs pg oldest ?p = []")
    case True
    then have "vacuum_block pg NodeRel oldest (d, st) blk =
        Inr (d\<lparr>node_rel := (node_rel d)[blk := ?p], wal := wal d\<rparr>,
          st\<lparr>dead_nodes := dead_nodes st + page_count (dead_tuple pg oldest) ?p,
             live_nodes := live_nodes st + page_count (live_tuple pg oldest) ?p\<rparr>)"
      unfolding vacuum_block_def rel_pages_def prod.case relname.case Let_def facts
      using page dead_offs_count [of pg oldest ?p] by (simp add: page_count_def)
    then show ?thesis using vacuumed_none [OF p True] by blast
  next
    case False
    obtain q log lsn where q: "compact_node_page pg (wal d) blk (fold mark_dead (dead_offs pg oldest ?p) ?p) ?slots =
        Inr (q, log, lsn)" "vacuumed pg oldest ?p q"
      using compact_run [OF pg p dead_slots_set small] by blast
    have "vacuum_block pg NodeRel oldest (d, st) blk =
        Inr (d\<lparr>node_rel := (node_rel d)[blk := page_set_lsn q lsn], wal := log\<rparr>,
          st\<lparr>dead_nodes := dead_nodes st + page_count (dead_tuple pg oldest) ?p,
             live_nodes := live_nodes st + page_count (live_tuple pg oldest) ?p\<rparr>)"
      unfolding vacuum_block_def rel_pages_def prod.case relname.case Let_def facts
      using page False q(1) by (simp add: page_count_def put_page_def)
    then show ?thesis using vacuumed_set_lsn [OF q(2)] by blast
  qed
qed

section \<open>The relation\<close>

definition vac_page :: "'snap pg \<Rightarrow> u32 \<Rightarrow> page \<Rightarrow> page \<Rightarrow> bool" where
  "vac_page pg oldest p q \<longleftrightarrow> (if is_overflow_page p then q = p else vacuumed pg oldest p q)"

definition small_slots :: "'snap pg \<Rightarrow> u32 \<Rightarrow> page list \<Rightarrow> bool" where
  "small_slots pg oldest rel \<longleftrightarrow>
     (\<forall>p \<in> set rel. \<not> is_overflow_page p \<longrightarrow> (\<forall>s \<in> cleared pg oldest p. s < MAX_NODE_SLOTS_PER_PAGE))"

lemma vacuum_step:
  assumes pg: "pg_ok pg" and "node_rel_ok [p]" and "small_slots pg oldest [p]" and p: "node_rel d ! blk = p"
    and stats: "dead_edges st = 0" "live_edges st = 0"
  shows "\<exists>q log st'. vacuum_block pg NodeRel oldest (d, st) blk =
      Inr (d\<lparr>node_rel := (node_rel d)[blk := q], wal := log\<rparr>, st') \<and> vac_page pg oldest p q \<and>
      dead_nodes st' = dead_nodes st + page_count (dead_tuple pg oldest) p \<and>
      live_nodes st' = live_nodes st + page_count (live_tuple pg oldest) p \<and> dead_edges st' = 0 \<and> live_edges st' = 0"
proof (cases "is_overflow_page p")
  case True
  have "d = d\<lparr>node_rel := (node_rel d)[blk := p], wal := wal d\<rparr>" by (simp flip: p)
  then have "vacuum_block pg NodeRel oldest (d, st) blk = Inr (d\<lparr>node_rel := (node_rel d)[blk := p], wal := wal d\<rparr>, st)"
    using True by (simp add: vacuum_block_def rel_pages_def p)
  moreover have "vac_page pg oldest p p" "page_count P p = 0" for P
    using True by (simp_all add: vac_page_def page_count_def)
  ultimately show ?thesis using stats by (metis add_0_right)
next
  case False
  then have "node_page_ok p" using assms(2) overflow_page_is by (auto simp: node_rel_ok_def)
  moreover have "\<forall>s \<in> cleared pg oldest p. s < MAX_NODE_SLOTS_PER_PAGE"
    using assms(3) False by (simp add: small_slots_def)
  ultimately obtain q log where q: "vacuum_block pg NodeRel oldest (d, st) blk =
      Inr (d\<lparr>node_rel := (node_rel d)[blk := q], wal := log\<rparr>,
        st\<lparr>dead_nodes := dead_nodes st + page_count (dead_tuple pg oldest) p,
           live_nodes := live_nodes st + page_count (live_tuple pg oldest) p\<rparr>)" "vacuumed pg oldest p q"
    using vacuum_block_run [OF pg, of d blk oldest st] unfolding p by blast
  show ?thesis
    by (rule exI, rule exI, rule exI, intro conjI, rule q(1)) (use q(2) False stats in \<open>simp_all add: vac_page_def\<close>)
qed

definition vac_result :: "'snap pg \<Rightarrow> u32 \<Rightarrow> db \<Rightarrow> VacuumStats \<Rightarrow> db \<Rightarrow> VacuumStats \<Rightarrow> nat \<Rightarrow> bool" where
  "vac_result pg oldest d st d' st' k \<longleftrightarrow> length (node_rel d') = length (node_rel d) \<and>
     (\<forall>b < length (node_rel d). if b < k then vac_page pg oldest (node_rel d ! b) (node_rel d' ! b)
        else node_rel d' ! b = node_rel d ! b) \<and>
     edge_rel d' = edge_rel d \<and> location_cache d' = location_cache d \<and>
     dead_nodes st' = dead_nodes st + rel_count (dead_tuple pg oldest) (take k (node_rel d)) \<and>
     live_nodes st' = live_nodes st + rel_count (live_tuple pg oldest) (take k (node_rel d)) \<and>
     dead_edges st' = 0 \<and> live_edges st' = 0"

lemma vacuum_prefix:
  assumes pg: "pg_ok pg" and ok: "node_rel_ok (node_rel d)" and small: "small_slots pg oldest (node_rel d)"
    and stats: "dead_edges st = 0" "live_edges st = 0" and "k \<le> length (node_rel d)"
  shows "\<exists>d' st'. foldE (vacuum_block pg NodeRel oldest) (d, st) [0..<k] = Inr (d', st') \<and>
    vac_result pg oldest d st d' st' k"
  using assms(6)
proof (induction k)
  case 0
  then show ?case using stats by (simp add: vac_result_def rel_count_def)
next
  case (Suc k)
  then obtain d' st' where run: "foldE (vacuum_block pg NodeRel oldest) (d, st) [0..<k] = Inr (d', st')"
    and res: "vac_result pg oldest d st d' st' k" by auto
  have k: "k < length (node_rel d)" using Suc.prems by simp
  have p: "node_rel d' ! k = node_rel d ! k" using res k by (simp add: vac_result_def)
  have "node_rel_ok [node_rel d ! k]" "small_slots pg oldest [node_rel d ! k]"
    using ok small nth_mem [OF k] by (simp_all add: node_rel_ok_def list_all_iff small_slots_def)
  then obtain q log st2 where q: "vacuum_block pg NodeRel oldest (d', st') k =
      Inr (d'\<lparr>node_rel := (node_rel d')[k := q], wal := log\<rparr>, st2)" "vac_page pg oldest (node_rel d ! k) q"
      "dead_nodes st2 = dead_nodes st' + page_count (dead_tuple pg oldest) (node_rel d ! k)"
      "live_nodes st2 = live_nodes st' + page_count (live_tuple pg oldest) (node_rel d ! k)"
      "dead_edges st2 = 0" "live_edges st2 = 0"
    using vacuum_step [OF pg, of "node_rel d ! k" oldest d' k st'] p res by (auto simp: vac_result_def)
  let ?d2 = "d'\<lparr>node_rel := (node_rel d')[k := q], wal := log\<rparr>"
  have "foldE (vacuum_block pg NodeRel oldest) (d, st) [0..<Suc k] = Inr (?d2, st2)"
    using run q(1) by (simp add: foldE_append)
  moreover have "vac_result pg oldest d st ?d2 st2 (Suc k)"
    using res q(2-6) k
    by (auto simp: vac_result_def rel_count_def take_Suc_conv_app_nth less_Suc_eq nth_list_update)
  ultimately show ?case by blast
qed

lemma vacuum_run:
  assumes "pg_ok pg" and "node_rel_ok (node_rel d)"
    and "small_slots pg (OldestNonRemovableTransactionId pg) (node_rel d)"
  shows "\<exists>d' st. vacuum_relation pg NodeRel d = Inr (d', st) \<and>
    vac_result pg (OldestNonRemovableTransactionId pg) d stats_default d' st (length (node_rel d))"
  using vacuum_prefix [OF assms, of stats_default "length (node_rel d)"]
  by (simp add: vacuum_relation_def rel_pages_def stats_default_def)

section \<open>The node relation after it\<close>

definition vac_rel :: "'snap pg \<Rightarrow> u32 \<Rightarrow> page list \<Rightarrow> page list \<Rightarrow> bool" where
  "vac_rel pg oldest rel rel' \<longleftrightarrow> length rel' = length rel \<and>
     (\<forall>b < length rel. vac_page pg oldest (rel ! b) (rel' ! b))"

lemma vac_relD:
  assumes "vac_rel pg oldest rel rel'"
  shows "length rel' = length rel" and "b < length rel \<Longrightarrow> is_overflow_page (rel ! b) \<Longrightarrow> rel' ! b = rel ! b"
    and "b < length rel \<Longrightarrow> \<not> is_overflow_page (rel ! b) \<Longrightarrow> vacuumed pg oldest (rel ! b) (rel' ! b)"
  using assms unfolding vac_rel_def vac_page_def by auto

lemma vac_overflow:
  assumes "vac_rel pg oldest rel rel'" and "b < length rel"
  shows "is_overflow_page (rel' ! b) = is_overflow_page (rel ! b)"
  using vac_relD(2,3) [OF assms] node_page_not_overflow unfolding vacuumed_def by metis

lemma vac_tids:
  assumes "vac_rel pg oldest rel rel'"
  shows "tids rel' t = map_option (vac_line pg oldest) (tids rel t)"
proof -
  obtain b k where t: "t = (b, k)" by (cases t)
  show ?thesis
  proof (cases "b < length rel \<and> \<not> is_overflow_page (rel ! b)")
    case True
    then have "lines (rel' ! b) = map (vac_line pg oldest) (lines (rel ! b))"
      using vac_relD(3) [OF assms] by (simp add: vacuumed_def)
    then show ?thesis
      using True vac_relD(1) [OF assms] vac_overflow [OF assms, of b]
      by (auto simp: t tids_def get_line_def max_off_def)
  next
    case False
    then show ?thesis using vac_relD(1) [OF assms] vac_overflow [OF assms, of b] by (auto simp: t tids_def)
  qed
qed

text \<open>A live version is never dead.\<close>

lemma live_not_dead: "live_line i l \<Longrightarrow> \<not> dead_tuple pg oldest l"
  by (auto simp: live_line_def dead_tuple_def)

lemma vac_line_live: "live_line i (vac_line pg oldest l) = live_line i l"
  using live_not_dead [of i l pg oldest] by (auto simp: vac_line_def live_line_def)

lemma vac_line_read: "read_line pg' snapshot (vac_line pg oldest l) = read_line pg' snapshot l"
  by (auto simp: vac_line_def dead_tuple_def read_line_def split: item.splits)

lemma vac_live: "vac_rel pg oldest rel rel' \<Longrightarrow> live_at rel' i t = live_at rel i t"
  by (auto simp: live_at_def vac_tids vac_line_live)

lemma vac_old_slot:
  assumes "vac_rel pg oldest rel rel'" and "live_at rel i t"
  shows "old_slot rel' t = old_slot rel t"
  using assms by (auto simp: old_slot_def vac_tids live_at_def)

lemma vac_visible:
  assumes "vac_rel pg oldest rel rel'"
  shows "visible pg' rel' snapshot = visible pg' rel snapshot"
proof -
  have "block_visible pg' rel' snapshot b = block_visible pg' rel snapshot b" if b: "b < length rel" for b
  proof (cases "is_overflow_page (rel ! b)")
    case True
    then show ?thesis using vac_relD(2) [OF assms b] by (simp add: block_visible_def)
  next
    case False
    then have l: "lines (rel' ! b) = map (vac_line pg oldest) (lines (rel ! b))"
      using vac_relD(3) [OF assms b] by (simp add: vacuumed_def)
    have "line_entry pg' snapshot b (Suc i) (lines (rel' ! b) ! i) =
        line_entry pg' snapshot b (Suc i) (lines (rel ! b) ! i)" if "i < length (lines (rel ! b))" for i
      using that by (simp add: l line_entry_def vac_line_read)
    then show ?thesis
      unfolding block_visible_def
      using False vac_overflow [OF assms b] by (auto simp: page_visible_lines l intro!: concat_map_cong)
  qed
  then show ?thesis
    unfolding visible_def vac_relD(1) [OF assms] by (intro concat_map_cong) simp
qed

section \<open>Headers\<close>

definition zero_bytes :: NodeAdjHeader where
  "zero_bytes = NodeAdjHeader (replicate 24 0)"

lemma zero_bytes_empty: "empty_header zero_bytes"
  by (rule zero_header) (simp add: zero_bytes_def)

text \<open>The slots that vacuum clears, by block.\<close>

definition cleared_at :: "'snap pg \<Rightarrow> u32 \<Rightarrow> page list \<Rightarrow> nat \<times> nat \<Rightarrow> bool" where
  "cleared_at pg oldest rel x \<longleftrightarrow> fst x < length rel \<and> \<not> is_overflow_page (rel ! fst x) \<and>
     snd x \<in> cleared pg oldest (rel ! fst x)"

lemma vac_special_length:
  assumes "vac_rel pg oldest rel rel'" and "node_rel_ok rel" and "b < length rel"
  shows "length (special (rel' ! b)) = length (special (rel ! b))"
proof (cases "is_overflow_page (rel ! b)")
  case True
  then show ?thesis using vac_relD(2) [OF assms(1,3)] by simp
next
  case False
  then have "node_page_ok (rel ! b)" "node_page_ok (rel' ! b)"
    using node_rel_node_page [OF assms(2,3)] vac_relD(3) [OF assms(1,3)] by (simp_all add: vacuumed_def)
  then show ?thesis by (simp add: node_page_ok_def page_wf_def)
qed

lemma vac_header:
  assumes v: "vac_rel pg oldest rel rel'" and ok: "node_rel_ok rel"
  shows "header_at rel' x = (if cleared_at pg oldest rel x \<and> in_special rel x then Inr zero_bytes else header_at rel x)"
proof (cases "fst x < length rel")
  case True
  have sp: "in_special rel' x = in_special rel x"
    using True vac_relD(1) [OF v] vac_special_length [OF v ok True] by (simp add: in_special_def)
  show ?thesis
  proof (cases "is_overflow_page (rel ! fst x)")
    case T: True
    then show ?thesis
      using vac_relD(2) [OF v True] vac_relD(1) [OF v] sp by (simp add: header_at_eq cleared_at_def)
  next
    case False
    then have "header_bytes (special (rel' ! fst x)) (snd x) = (if snd x \<in> cleared pg oldest (rel ! fst x)
        then replicate 24 0 else header_bytes (special (rel ! fst x)) (snd x))"
      using vac_relD(3) [OF v True] by (simp add: vacuumed_def)
    then show ?thesis
      using True False vac_relD(1) [OF v] sp
      by (simp add: header_at_eq header_bytes_def cleared_at_def zero_bytes_def)
  qed
next
  case False
  then show ?thesis using vac_relD(1) [OF v] by (simp add: header_at_eq in_special_def)
qed

section \<open>The graph after it\<close>

lemma vac_store:
  assumes v: "vac_rel pg oldest (node_rel d) (node_rel d')" and ok: "node_store_ok d"
    and cache: "location_cache d' = location_cache d"
  shows "node_store_ok d'"
proof -
  let ?r = "node_rel d" and ?r' = "node_rel d'"
  have parts: "node_rel_ok ?r" "unique_live ?r" "refs_ok ?r" "cache_in_range d"
    using ok by (simp_all add: node_store_ok_def)
  have page: "node_page_ok (?r' ! b) \<or> overflow_page_ok (?r' ! b)" if b: "b < length ?r" for b
    using node_rel_page [OF parts(1) b] vac_relD(2,3) [OF v b] node_page_not_overflow
    by (cases "is_overflow_page (?r ! b)") (auto simp: vacuumed_def)
  have "node_rel_ok ?r'" using page vac_relD(1) [OF v] by (simp add: node_rel_ok_def list_all_length)
  moreover have "unique_live ?r'" using parts(2) by (simp add: unique_live_def vac_live [OF v])
  moreover have "refs_ok ?r'"
    unfolding refs_ok_def
  proof (intro allI impI)
    fix t l hdr data r
    assume *: "tids ?r' t = Some l" "lp_item l = Tuple hdr data" "decode_node_data data = Some r"
      "nr_overflow_blkno r \<noteq> 0"
    then obtain l0 where "tids ?r t = Some l0" "lp_item l0 = Tuple hdr data" by (auto simp: vac_tids [OF v])
    then have "unat (nr_overflow_blkno r) < length ?r \<and> is_overflow_page (?r ! unat (nr_overflow_blkno r))"
      using parts(3) *(3,4) unfolding refs_ok_def by blast
    then show "unat (nr_overflow_blkno r) < length ?r' \<and> is_overflow_page (?r' ! unat (nr_overflow_blkno r))"
      using vac_relD(1) [OF v] vac_overflow [OF v] by simp
  qed
  moreover have "cache_in_range d'"
    using parts(4) vac_relD(1) [OF v] cache by (simp add: cache_in_range_def)
  ultimately show ?thesis by (simp add: node_store_ok_def)
qed

lemma vac_graph:
  assumes v: "vac_rel pg oldest (node_rel d) (node_rel d')" and ok: "graph_ok d"
    and same: "location_cache d' = location_cache d" "edge_rel d' = edge_rel d"
  shows "graph_ok d'"
proof -
  let ?r = "node_rel d" and ?r' = "node_rel d'"
  note D = graph_okD [OF ok]
  have store: "node_store_ok d'" by (rule vac_store [OF v D(1) same(1)])
  have rel: "node_rel_ok ?r" using D(1) by (simp add: node_store_ok_def)
  have zero: "snd (out_head h) = 0 \<and> snd (in_head h) = 0 \<or> header_at ?r x = Inr h" if "header_at ?r' x = Inr h" for x h
    using that zero_bytes_empty by (auto simp: vac_header [OF v rel] empty_header_def split: if_splits)
  have "heads_ok d'"
    unfolding heads_ok_def same(2)
  proof (intro allI impI)
    fix x h assume "header_at ?r' x = Inr h"
    from zero [OF this] show "ptr_ok (edge_rel d) (out_head h) \<and> ptr_ok (edge_rel d) (in_head h)"
      using D(3) unfolding heads_ok_def ptr_ok_def by blast
  qed
  moreover have "slots_distinct ?r'"
    using D(4) unfolding slots_distinct_def vac_live [OF v] by (metis vac_old_slot [OF v])
  moreover have "slots_used ?r'"
    unfolding slots_used_def vac_live [OF v]
  proof (intro allI impI)
    fix i t assume "live_at ?r i t"
    then show "tids ?r' (fst t, Suc (old_slot ?r' t)) \<noteq> None"
      using slots_usedD [OF D(5)] by (simp add: vac_old_slot [OF v] vac_tids [OF v])
  qed
  moreover have "unused_empty ?r'"
    unfolding unused_empty_def
  proof (intro allI impI)
    fix x h assume "header_at ?r' x = Inr h" and none: "tids ?r' (fst x, Suc (snd x)) = None"
    have "tids ?r (fst x, Suc (snd x)) = None" using none by (simp add: vac_tids [OF v])
    with zero [OF \<open>header_at ?r' x = Inr h\<close>] show "snd (out_head h) = 0 \<and> snd (in_head h) = 0"
      using D(6) unfolding unused_empty_def by blast
  qed
  ultimately show ?thesis using store D(2) same(2) by (simp add: graph_ok_def)
qed

lemma vac_follow:
  assumes v: "vac_rel pg oldest (node_rel d) (node_rel d')" and ok: "graph_ok d"
    and same: "location_cache d' = location_cache d" "edge_rel d' = edge_rel d"
    and small: "small_slots pg oldest (node_rel d)" and live: "live_at (node_rel d) n t"
  shows "adjacency_follow d' n dir filt =
    (if cleared_at pg oldest (node_rel d) (slot_of (node_rel d) t) then Some (Inr []) else adjacency_follow d n dir filt)"
proof -
  let ?r = "node_rel d" and ?r' = "node_rel d'"
  note D = graph_okD [OF ok]
  have ok': "graph_ok d'" by (rule vac_graph [OF v ok same])
  have rel: "node_rel_ok ?r" using D(1) by (simp add: node_store_ok_def)
  have live': "live_at ?r' n t" using live by (simp add: vac_live [OF v])
  have slot: "slot_of ?r' t = slot_of ?r t" by (simp add: slot_of_def vac_old_slot [OF v live])
  show ?thesis
  proof (cases "cleared_at pg oldest ?r (slot_of ?r t)")
    case True
    then have "old_slot ?r t < MAX_NODE_SLOTS_PER_PAGE"
      using small by (auto simp: cleared_at_def small_slots_def slot_of_def)
    from live_in_special [OF D(1) live this] True have "header_at ?r' (slot_of ?r' t) = Inr zero_bytes"
      by (simp add: slot vac_header [OF v rel])
    from follow_empty [OF ok' live' this zero_bytes_empty] True show ?thesis by simp
  next
    case False
    then have "header_at ?r' (slot_of ?r' t) = header_at ?r (slot_of ?r t)"
      by (simp add: slot vac_header [OF v rel])
    from follow_same [OF ok ok' same(2) live live' this] False show ?thesis by simp
  qed
qed

section \<open>Nothing dead is left\<close>

lemma tids_in_lines: "tids rel (b, k) = Some l \<Longrightarrow> l \<in> set (lines (rel ! b))"
  unfolding in_lines tids_def get_line_def offsets_def by (force split: if_splits)

lemma small_slots_tids:
  "small_slots pg oldest rel \<longleftrightarrow> (\<forall>t l. tids rel t = Some l \<longrightarrow> dead_tuple pg oldest l \<longrightarrow>
     hdr_size + NODE_FIXED_DATA_SIZE \<le> item_len (lp_item l) \<longrightarrow> item_slot (lp_item l) < MAX_NODE_SLOTS_PER_PAGE)"
  (is "?lhs \<longleftrightarrow> ?rhs")
proof
  assume small: ?lhs
  show ?rhs
  proof (intro allI impI)
    fix t l assume *: "tids rel t = Some l" "dead_tuple pg oldest l" "hdr_size + NODE_FIXED_DATA_SIZE \<le> item_len (lp_item l)"
    obtain b k where t: "t = (b, k)" by (cases t)
    note p = tids_page [OF *(1) [unfolded t]]
    have "l \<in> set (lines (rel ! b))" by (rule tids_in_lines) (use *(1) t in simp)
    then have "item_slot (lp_item l) \<in> cleared pg oldest (rel ! b)" using * by (auto simp: cleared_def)
    then show "item_slot (lp_item l) < MAX_NODE_SLOTS_PER_PAGE"
      using small p by (auto simp: small_slots_def)
  qed
next
  assume tids: ?rhs
  show ?lhs
    unfolding small_slots_def
  proof (intro ballI impI)
    fix p s assume p: "p \<in> set rel" "\<not> is_overflow_page p" and "s \<in> cleared pg oldest p"
    then obtain l where l: "l \<in> set (lines p)" "dead_tuple pg oldest l" "s = item_slot (lp_item l)"
        "hdr_size + NODE_FIXED_DATA_SIZE \<le> item_len (lp_item l)"
      by (auto simp: cleared_def)
    obtain b where b: "b < length rel" "rel ! b = p" using p(1) by (auto simp: in_set_conv_nth)
    obtain k where "get_line p k = Some l" using l(1) by (auto simp: in_lines)
    then have "tids rel (b, k) = Some l" using b p(2) by (simp add: tids_def)
    then show "s < MAX_NODE_SLOTS_PER_PAGE" using tids l(2-4) by blast
  qed
qed

lemma no_dead_left:
  assumes v: "vac_rel pg oldest rel rel'"
  shows "rel_count (dead_tuple pg oldest) rel' = 0"
proof -
  have "page_count (dead_tuple pg oldest) (rel' ! b) = 0" if b: "b < length rel" for b
  proof (cases "is_overflow_page (rel ! b)")
    case True
    then show ?thesis using vac_overflow [OF v b] by (simp add: page_count_def)
  next
    case False
    then have "lines (rel' ! b) = map (vac_line pg oldest) (lines (rel ! b))"
      using vac_relD(3) [OF v b] by (simp add: vacuumed_def)
    moreover have "\<not> dead_tuple pg oldest (vac_line pg oldest l)" for l
      by (simp add: vac_line_def) (simp add: dead_tuple_def)
    ultimately show ?thesis by (simp add: page_count_def filter_empty_conv)
  qed
  then show ?thesis
    using vac_relD(1) [OF v] by (auto simp: rel_count_def in_set_conv_nth)
qed

text \<open>The summary of a run.\<close>

lemma vacuum_nodes:
  assumes pg: "pg_ok pg" and ok: "graph_ok d"
    and small: "small_slots pg (OldestNonRemovableTransactionId pg) (node_rel d)"
  shows "\<exists>d' st. vacuum_relation pg NodeRel d = Inr (d', st) \<and>
    vac_rel pg (OldestNonRemovableTransactionId pg) (node_rel d) (node_rel d') \<and>
    location_cache d' = location_cache d \<and> edge_rel d' = edge_rel d \<and>
    st = \<lparr>dead_nodes = rel_count (dead_tuple pg (OldestNonRemovableTransactionId pg)) (node_rel d),
      live_nodes = rel_count (live_tuple pg (OldestNonRemovableTransactionId pg)) (node_rel d),
      dead_edges = 0, live_edges = 0\<rparr>"
proof -
  have "node_rel_ok (node_rel d)" using graph_okD(1) [OF ok] by (simp add: node_store_ok_def)
  from vacuum_run [OF pg this small] obtain d' st where "vacuum_relation pg NodeRel d = Inr (d', st)"
    and res: "vac_result pg (OldestNonRemovableTransactionId pg) d stats_default d' st (length (node_rel d))" by blast
  moreover have "vac_rel pg (OldestNonRemovableTransactionId pg) (node_rel d) (node_rel d')"
      "location_cache d' = location_cache d" "edge_rel d' = edge_rel d"
    using res by (simp_all add: vac_result_def vac_rel_def)
  moreover have "st = \<lparr>dead_nodes = rel_count (dead_tuple pg (OldestNonRemovableTransactionId pg)) (node_rel d),
      live_nodes = rel_count (live_tuple pg (OldestNonRemovableTransactionId pg)) (node_rel d),
      dead_edges = 0, live_edges = 0\<rparr>"
    using res by (intro VacuumStats.equality) (simp_all add: vac_result_def stats_default_def)
  ultimately show ?thesis by blast
qed

text \<open>An update leaves the old version, with its slot number, to vacuum.\<close>

lemma dead_line_dead:
  assumes "live_line n l" and "xmax \<noteq> InvalidTransactionId" and "Precedes pg xmax oldest" and "DidCommit pg xmax"
  shows "dead_tuple pg oldest (dead_line xmax l) \<and> item_slot (lp_item (dead_line xmax l)) = item_slot (lp_item l) \<and>
    hdr_size + NODE_FIXED_DATA_SIZE \<le> item_len (lp_item (dead_line xmax l))"
proof -
  obtain hdr data where l: "lp_item l = Tuple hdr data" "NODE_FIXED_DATA_SIZE \<le> length data" "lp_flags l = LP_NORMAL"
    using assms(1) by (auto simp: live_line_def)
  have "t_xmax (delete_header xmax hdr) = xmax" by (simp add: delete_header_def)
  then show ?thesis
    using l assms(2-4) delete_header_xmax [of xmax hdr]
    by (simp add: dead_tuple_def dead_line_def dead_to_all_def layout_simps)
qed

lemma update_in_place_tids:
  assumes pg: "pg_ok pg" "txn_ok pg" and ok: "graph_ok d" and live: "live_at (node_rel d) n (blk, off)"
    and len: "length lids \<le> MAX_LABELS_PER_NODE" "length props \<le> PROP_INLINE_MAX"
    and fit: "fits (node_rel d ! blk) (42 + 4 * length lids + length props)"
  shows "\<exists>d' l l' off'. update_node pg d n lids props = Inr (d', True) \<and>
    tids (node_rel d) (blk, off) = Some l \<and> live_line n l \<and> live_line n l' \<and>
    item_slot (lp_item l') = item_slot (lp_item l) \<and> off' \<noteq> off \<and>
    tids (node_rel d') = (tids (node_rel d))((blk, off) \<mapsto> dead_line (CurrentTransactionId pg) l, (blk, off') \<mapsto> l')"
proof -
  let ?r = "node_rel d" and ?x = "CurrentTransactionId pg" and ?adj = "of_nat (old_slot (node_rel d) (blk, off)) :: u16"
  obtain l where l: "tids ?r (blk, off) = Some l" "live_line n l" using live by (auto simp: live_at_def)
  obtain d' lsn lsn2 where u: "update_node pg d n lids props = Inr (d', True)"
      "node_rel d' = add_in pg (mark_in ?r blk off ?x lsn) blk n ?adj lids props lsn2"
    using update_same_page [OF pg graph_okD(1) [OF ok] len l fit] by blast
  let ?m = "mark_in ?r blk off ?x lsn"
  have "blk < length ?m" "\<not> is_overflow_page (?m ! blk)"
    using tids_page [OF l(1)] by (simp_all add: mark_in_def is_overflow_page_def mark_deleted_lines)
  from add_in_tids [OF pg(2) this] obtain l' where l': "version_line pg blk (Suc (max_off (?m ! blk))) n ?adj lids props l'"
      "tids (node_rel d') = (tids ?m)((blk, Suc (max_off (?m ! blk))) \<mapsto> l')" "tids ?m (blk, Suc (max_off (?m ! blk))) = None"
    unfolding u(2) by blast
  have "item_slot (lp_item l') = item_slot (lp_item l)"
    using version_line_slot [OF l'(1)] old_slot_small [of ?r "(blk, off)"] l(1) by (simp add: old_slot_def)
  moreover have "Suc (max_off (?m ! blk)) \<noteq> off" using l'(3) by (auto simp: mark_in_tids [OF l(1)])
  moreover have "live_line n l'" using l'(1) by (simp add: version_line_def)
  moreover note l'(2) [unfolded mark_in_tids [OF l(1)]]
  ultimately show ?thesis using u(1) l by blast
qed

lemma update_then_vacuum:
  assumes pg: "pg_ok pg" "txn_ok pg" and ok: "graph_ok d" and live: "live_at (node_rel d) n (blk, off)"
    and len: "length lids \<le> MAX_LABELS_PER_NODE" "length props \<le> PROP_INLINE_MAX"
    and fit: "fits (node_rel d ! blk) (42 + 4 * length lids + length props)"
    and slot: "old_slot (node_rel d) (blk, off) < MAX_NODE_SLOTS_PER_PAGE"
    and pg': "pg_ok pg'" and old: "CurrentTransactionId pg \<noteq> InvalidTransactionId"
      "Precedes pg' (CurrentTransactionId pg) (OldestNonRemovableTransactionId pg')" "DidCommit pg' (CurrentTransactionId pg)"
    and small: "small_slots pg' (OldestNonRemovableTransactionId pg') (node_rel d)"
  shows "\<exists>d1 d2 st. update_node pg d n lids props = Inr (d1, True) \<and>
    (\<forall>dir filt. adjacency_follow d1 n dir filt = adjacency_follow d n dir filt) \<and>
    vacuum_relation pg' NodeRel d1 = Inr (d2, st) \<and> (\<forall>dir filt. adjacency_follow d2 n dir filt = Some (Inr []))"
proof -
  let ?o = "OldestNonRemovableTransactionId pg'" and ?x = "CurrentTransactionId pg"
  obtain d1 where d1: "update_node pg d n lids props = Inr (d1, True)" "graph_ok d1"
      "\<forall>n dir filt. adjacency_follow d1 n dir filt = adjacency_follow d n dir filt"
    using update_in_place_graph [OF pg ok live len fit] by blast
  obtain d1' l l' off' where u: "update_node pg d n lids props = Inr (d1', True)" and
      t: "tids (node_rel d) (blk, off) = Some l" "live_line n l" "live_line n l'"
      "item_slot (lp_item l') = item_slot (lp_item l)" "off' \<noteq> off"
      "tids (node_rel d1') = (tids (node_rel d))((blk, off) \<mapsto> dead_line ?x l, (blk, off') \<mapsto> l')"
    using update_in_place_tids [OF pg ok live len fit] by blast
  have "d1' = d1" using u d1(1) by simp
  note t = t [unfolded this]
  note dead = dead_line_dead [OF t(2) old(1), of pg' ?o, OF old(2,3)]
  have s: "item_slot (lp_item l) < MAX_NODE_SLOTS_PER_PAGE" using slot t(1) by (simp add: old_slot_def)
  have small1: "small_slots pg' ?o (node_rel d1)"
    unfolding small_slots_tids
  proof (intro allI impI)
    fix u m assume m: "tids (node_rel d1) u = Some m" "dead_tuple pg' ?o m"
      "hdr_size + NODE_FIXED_DATA_SIZE \<le> item_len (lp_item m)"
    have "tids (node_rel d1) u = (if u = (blk, off') then Some l' else if u = (blk, off)
        then Some (dead_line ?x l) else tids (node_rel d) u)" by (simp add: t(6))
    with m(1) consider "m = dead_line ?x l" | "m = l'" | "tids (node_rel d) u = Some m"
      by (metis option.inject)
    then show "item_slot (lp_item m) < MAX_NODE_SLOTS_PER_PAGE"
    proof cases
      case 3
      then show ?thesis using small m(2,3) unfolding small_slots_tids by blast
    qed (use dead s t(4) in simp_all)
  qed
  obtain d2 st where v: "vacuum_relation pg' NodeRel d1 = Inr (d2, st)" "vac_rel pg' ?o (node_rel d1) (node_rel d2)"
      "location_cache d2 = location_cache d1" "edge_rel d2 = edge_rel d1"
    using vacuum_nodes [OF pg' d1(2) small1] by blast
  have live1: "live_at (node_rel d1) n (blk, off')" using t(3) by (simp add: live_at_def t(6))
  have at: "tids (node_rel d1) (blk, off) = Some (dead_line ?x l)" using t(5) by (simp add: t(6))
  note p = tids_page [OF at]
  have "dead_line ?x l \<in> set (lines (node_rel d1 ! blk))" by (rule tids_in_lines [OF at])
  then have "item_slot (lp_item l) \<in> cleared pg' ?o (node_rel d1 ! blk)"
    using dead unfolding cleared_def by (metis (mono_tags, lifting) mem_Collect_eq)
  then have "cleared_at pg' ?o (node_rel d1) (slot_of (node_rel d1) (blk, off'))"
    using p t(4) by (simp add: cleared_at_def slot_of_def old_slot_def t(6))
  then have "adjacency_follow d2 n dir filt = Some (Inr [])" for dir filt
    using vac_follow [OF v(2) d1(2) v(3,4) small1 live1] by simp
  then show ?thesis using d1(1,3) v(1) by blast
qed

end
