(* ===== verification/VacuumProperties.thy ===== *)
theory VacuumProperties
  imports VacuumFacts
begin

text \<open>
  The properties of vacuum: what it does to the node relation, that it does nothing to the edge
  relation, and that it takes the adjacency list from a node that was updated in place.
\<close>

section \<open>Examples\<close>

text \<open>A later transaction, to which all work of the example's transaction is in the past.\<close>

definition later_pg :: "(nat \<Rightarrow> bool) pg" where
  "later_pg = ref_pg\<lparr>CurrentTransactionId := 12, OldestNonRemovableTransactionId := 11, DidCommit := (\<lambda>x. x < 11)\<rparr>"

lemma pg_ok_later: "pg_ok later_pg"
  using pg_ok_ref
  by (simp add: later_pg_def pg_ok_def pg_page_init_ok_def pg_add_item_ok_def pg_add_item_at_ok_def pg_repair_ok_def)

definition no_deleted :: "page list \<Rightarrow> bool" where
  "no_deleted rel \<longleftrightarrow> (\<forall>t l. tids rel t = Some l \<longrightarrow> (\<exists>i. live_line i l))"

lemma no_deleted_small: "no_deleted rel \<Longrightarrow> small_slots pg oldest rel"
  unfolding small_slots_tids no_deleted_def using live_not_dead by blast

lemma no_deleted_insert:
  assumes ok: "graph_ok d" and none: "no_deleted (node_rel d)" and run: "insert_node ref_pg d n [] [] = Inr (d', t)"
  shows "no_deleted (node_rel d')"
proof -
  have "node_rel_ok (node_rel d)" using graph_okD(1) [OF ok] by (simp add: node_store_ok_def)
  then obtain blk off where "insert_result ref_pg d n [] [] d' blk off"
    using insert_inline [OF pg_ok_ref txn_ok_ref, of d "[]" "[]" n] run by auto
  then obtain l where "tids (node_rel d') = (tids (node_rel d))((blk, off) \<mapsto> l)" "live_line n l"
    by (auto simp: insert_result_def)
  then show ?thesis using none unfolding no_deleted_def by (metis fun_upd_apply option.inject)
qed

lemma demo_no_deleted: "no_deleted (node_rel demo_graph)"
proof -
  obtain d t t' where steps: "insert_node ref_pg empty_db 1 [] [] = Inr (d, t)"
      "insert_node ref_pg d 2 [] [] = Inr (demo_nodes, t')"
    using demo_steps by blast
  have "no_deleted (node_rel empty_db)" by (simp add: no_deleted_def empty_db_def tids_def split: prod.split)
  from no_deleted_insert [OF graph_ok_empty(1) this steps(1)] have d: "no_deleted (node_rel d)" .
  have "node_rel_ok (node_rel empty_db)" using graph_okD(1) [OF graph_ok_empty(1)] by (simp add: node_store_ok_def)
  then obtain blk off where "insert_result ref_pg empty_db 1 [] [] d blk off"
    using insert_inline [OF pg_ok_ref txn_ok_ref, of empty_db "[]" "[]" 1] steps(1) by auto
  from insert_node_graph(1) [OF graph_ok_empty(1) empty_db_ok(2) this]
  have nodes: "no_deleted (node_rel demo_nodes)" using no_deleted_insert d steps(2) by blast
  have "length [42 :: u8] \<le> PROP_INLINE_MAX" "length (edge_rel demo_nodes) < 2 ^ 32"
    using demo_nodes_ok by (simp_all add: layout_simps)
  then obtain d' where "insert_edge ref_pg demo_nodes 5 3 1 2 [42] = Inr d'" "same_items (node_rel demo_nodes) (node_rel d')"
    using insert_edge_graph [OF pg_ok_ref txn_ok_ref, of demo_nodes 5 1 2 "[42]" 3] demo_nodes_ok no_edges by blast
  then show ?thesis
    using nodes demo_graph_ok same_items_tids by (simp add: no_deleted_def)
qed

text \<open>The page of the example has room for more.\<close>

lemma demo_space: "map (\<lambda>p. (pd_lower p, pd_upper p)) (node_rel demo_nodes) = [(32, 5696)]"
  by code_simp

lemma demo_fits:
  assumes "live_at (node_rel demo_graph) n (blk, off)"
  shows "fits (node_rel demo_graph ! blk) 42"
proof -
  have "length [42 :: u8] \<le> PROP_INLINE_MAX" "length (edge_rel demo_nodes) < 2 ^ 32"
    using demo_nodes_ok by (simp_all add: layout_simps)
  then obtain d' where "insert_edge ref_pg demo_nodes 5 3 1 2 [42] = Inr d'" "same_items (node_rel demo_nodes) (node_rel d')"
    using insert_edge_graph [OF pg_ok_ref txn_ok_ref, of demo_nodes 5 1 2 "[42]" 3] demo_nodes_ok no_edges by blast
  then have same: "same_items (node_rel demo_nodes) (node_rel demo_graph)" using demo_graph_ok by simp
  obtain l where "tids (node_rel demo_graph) (blk, off) = Some l" using assms by (auto simp: live_at_def)
  note p = tids_page [OF this]
  have one: "length (node_rel demo_nodes) = 1" "pd_lower (node_rel demo_nodes ! 0) = 32" "pd_upper (node_rel demo_nodes ! 0) = 5696"
    using demo_space by auto
  then have "blk = 0" using p same by (simp add: same_items_def)
  then show ?thesis
    using same one by (simp add: same_items_def fits_def page_free_space_def maxalign_def item_id_size_def)
qed

section \<open>The properties\<close>

text \<open>
  C31. Vacuum of the node relation, when the slot numbers of the dead versions have headers: it succeeds;
  every snapshot sees the same versions in the same order, the same nodes exist and the graph
  invariant holds; an adjacency list becomes empty where a dead version of the page has the slot
  number of the node, and is unchanged elsewhere; the statistics count the dead and the live
  versions of all node pages; and no dead version is left.
\<close>

theorem vacuum_nodes_correct:
  fixes pg :: "'s pg" and pg' :: "'t pg"
  assumes "pg_ok pg" and "graph_ok d" and "small_slots pg (OldestNonRemovableTransactionId pg) (node_rel d)"
  shows "\<exists>d' st. vacuum_relation pg NodeRel d = Inr (d', st) \<and> graph_ok d' \<and> edge_rel d' = edge_rel d \<and>
    (\<forall>snapshot. visible pg' (node_rel d') snapshot = visible pg' (node_rel d) snapshot) \<and>
    (\<forall>n. absent d' n \<longleftrightarrow> absent d n) \<and>
    (\<forall>n t dir filt. live_at (node_rel d) n t \<longrightarrow> adjacency_follow d' n dir filt =
      (if cleared_at pg (OldestNonRemovableTransactionId pg) (node_rel d) (slot_of (node_rel d) t)
       then Some (Inr []) else adjacency_follow d n dir filt)) \<and>
    dead_nodes st = rel_count (dead_tuple pg (OldestNonRemovableTransactionId pg)) (node_rel d) \<and>
    live_nodes st = rel_count (live_tuple pg (OldestNonRemovableTransactionId pg)) (node_rel d) \<and>
    dead_edges st = 0 \<and> live_edges st = 0 \<and>
    rel_count (dead_tuple pg (OldestNonRemovableTransactionId pg)) (node_rel d') = 0"
proof -
  let ?o = "OldestNonRemovableTransactionId pg"
  obtain d' st where run: "vacuum_relation pg NodeRel d = Inr (d', st)" and v: "vac_rel pg ?o (node_rel d) (node_rel d')"
    and same: "location_cache d' = location_cache d" "edge_rel d' = edge_rel d"
    and st: "st = \<lparr>dead_nodes = rel_count (dead_tuple pg ?o) (node_rel d),
      live_nodes = rel_count (live_tuple pg ?o) (node_rel d), dead_edges = 0, live_edges = 0\<rparr>"
    using vacuum_nodes [OF assms] by blast
  show ?thesis
    by (intro exI conjI allI impI, rule run)
      (simp_all add: vac_graph [OF v assms(2) same] same vac_visible [OF v] absent_def vac_live [OF v]
        vac_follow [OF v assms(2) same assms(3)] st no_dead_left [OF v])
qed

theorem vacuum_nodes_correct_witness:
  "\<exists>d' st. vacuum_relation later_pg NodeRel demo_graph = Inr (d', st) \<and> graph_ok d' \<and> dead_edges st = 0"
proof -
  have "graph_ok demo_graph" using demo_graph_ok by blast
  from vacuum_nodes_correct [OF pg_ok_later this no_deleted_small [OF demo_no_deleted], of ref_pg]
  show ?thesis by blast
qed

text \<open>
  C38. Vacuum does nothing to the edge relation: all its pages pass \<open>is_overflow_page\<close>, so that it
  marks no dead edge, writes no log record and counts neither live nor dead edges.
\<close>

theorem vacuum_edges_skipped:
  assumes "graph_ok d"
  shows "vacuum_relation pg EdgeRel d =
    Inr (d, \<lparr>dead_nodes = 0, live_nodes = 0, dead_edges = 0, live_edges = 0\<rparr>)"
proof -
  have "list_all is_overflow_page (rel_pages EdgeRel d)"
    using graph_okD(8) [OF assms] by (auto simp: rel_pages_def list_all_iff edge_page_ok_def is_overflow_page_def layout_simps)
  from vacuum_skips [OF this] show ?thesis by (simp add: stats_default_def)
qed

theorem vacuum_edges_skipped_witness:
  "vacuum_relation later_pg EdgeRel demo_graph =
    Inr (demo_graph, \<lparr>dead_nodes = 0, live_nodes = 0, dead_edges = 0, live_edges = 0\<rparr>)"
  using vacuum_edges_skipped [of demo_graph later_pg] demo_graph_ok by blast

text \<open>
  C4. The interplay of update and vacuum. An update in place keeps the adjacency lists of the node, but
  the new version shares its slot number with the old one; once the update has committed and no
  snapshot can see the old version, vacuum clears the header of the old version, and with it the
  adjacency lists of the live node: all its edges disappear from its traversals.
\<close>

theorem vacuum_after_update:
  assumes "pg_ok pg" and "txn_ok pg" and "graph_ok d" and "live_at (node_rel d) n (blk, off)"
    and "length lids \<le> MAX_LABELS_PER_NODE" and "length props \<le> PROP_INLINE_MAX"
    and "fits (node_rel d ! blk) (42 + 4 * length lids + length props)"
    and "old_slot (node_rel d) (blk, off) < MAX_NODE_SLOTS_PER_PAGE"
    and "pg_ok pg'" and "CurrentTransactionId pg \<noteq> InvalidTransactionId"
    and "Precedes pg' (CurrentTransactionId pg) (OldestNonRemovableTransactionId pg')"
    and "DidCommit pg' (CurrentTransactionId pg)"
    and "small_slots pg' (OldestNonRemovableTransactionId pg') (node_rel d)"
  shows "\<exists>d1 d2 st. update_node pg d n lids props = Inr (d1, True) \<and>
    (\<forall>dir filt. adjacency_follow d1 n dir filt = adjacency_follow d n dir filt) \<and>
    vacuum_relation pg' NodeRel d1 = Inr (d2, st) \<and> (\<forall>dir filt. adjacency_follow d2 n dir filt = Some (Inr []))"
  using assms by (rule update_then_vacuum)

theorem vacuum_after_update_witness:
  "\<exists>rec d1 d2 st. adjacency_follow demo_graph 1 Out None = Some (Inr [rec]) \<and>
    update_node ref_pg demo_graph 1 [] [] = Inr (d1, True) \<and> adjacency_follow d1 1 Out None = Some (Inr [rec]) \<and>
    vacuum_relation later_pg NodeRel d1 = Inr (d2, st) \<and> adjacency_follow d2 1 Out None = Some (Inr [])"
proof -
  have ok: "graph_ok demo_graph" using demo_graph_ok by blast
  obtain rec where "adjacency_follow demo_graph 1 Out None = Some (Inr [rec])" using demo_graph_ok by blast
  moreover obtain blk off where t: "live_at (node_rel demo_graph) 1 (blk, off)"
      "old_slot (node_rel demo_graph) (blk, off) < MAX_NODE_SLOTS_PER_PAGE"
    using demo_graph_ok unfolding linkable_def by auto
  have "fits (node_rel demo_graph ! blk) (42 + 4 * length ([] :: i32 list) + length ([] :: bytes))"
    using demo_fits [OF t(1)] by simp
  from vacuum_after_update [OF pg_ok_ref txn_ok_ref ok t(1) _ _ this t(2) pg_ok_later _ _ _
      no_deleted_small [OF demo_no_deleted]]
  obtain d1 d2 st where "update_node ref_pg demo_graph 1 [] [] = Inr (d1, True)"
      "\<forall>dir filt. adjacency_follow d1 1 dir filt = adjacency_follow demo_graph 1 dir filt"
      "vacuum_relation later_pg NodeRel d1 = Inr (d2, st)" "\<forall>dir filt. adjacency_follow d2 1 dir filt = Some (Inr [])"
    by (auto simp: layout_simps ref_pg_def later_pg_def InvalidTransactionId_def)
  ultimately show ?thesis by auto
qed

end
