(* ===== verification/LsnOrder.thy ===== *)
theory LsnOrder
  imports RedoFacts GraphRefinement
begin

text \<open>
  The order of pages and log: no operation leaves a page with an LSN that the log has not reached. This
  is what makes recovery replay a record on every page that is behind it.
\<close>

definition lsn_le :: "nat \<Rightarrow> page list \<Rightarrow> bool" where
  "lsn_le n rel \<longleftrightarrow> (\<forall>i < length rel. pd_lsn (rel ! i) \<le> n)"

lemma lsns_split: "lsns_ok d \<longleftrightarrow> lsn_le (length (wal d)) (node_rel d) \<and> lsn_le (length (wal d)) (edge_rel d)"
proof -
  have "(\<forall>p \<in> set rel. pd_lsn p \<le> n) \<longleftrightarrow> lsn_le n rel" for rel n
    by (simp add: lsn_le_def all_set_conv_all_nth)
  moreover have "(\<forall>r. P r) \<longleftrightarrow> P NodeRel \<and> P EdgeRel" for P using relname.exhaust by metis
  ultimately show ?thesis by (simp add: lsns_ok_def rel_pages_def)
qed

lemma lsn_le_mono: "lsn_le n rel \<Longrightarrow> n \<le> m \<Longrightarrow> lsn_le m rel"
  by (auto simp: lsn_le_def intro: order_trans)

lemma nth_update: "i < length xs \<Longrightarrow> xs[b := p] ! i = (if i = b then p else xs ! i)"
  by (cases "i = b") simp_all

lemma lsn_le_update: "lsn_le n rel \<Longrightarrow> pd_lsn p \<le> n \<Longrightarrow> lsn_le n (rel[b := p])"
  by (simp add: lsn_le_def nth_update)

lemma lsn_le_snoc: "lsn_le n rel \<Longrightarrow> pd_lsn p \<le> n \<Longrightarrow> lsn_le n (rel @ [p])"
  by (simp add: lsn_le_def nth_append less_Suc_eq)

text \<open>A page that is written again does not count.\<close>

definition lsn_but :: "nat \<Rightarrow> nat \<Rightarrow> page list \<Rightarrow> bool" where
  "lsn_but b n rel \<longleftrightarrow> (\<forall>i < length rel. i \<noteq> b \<longrightarrow> pd_lsn (rel ! i) \<le> n)"

lemma lsn_but_simps:
  "lsn_le n rel \<Longrightarrow> lsn_but b n (rel[b := p])"
  "lsn_but b n rel \<Longrightarrow> pd_lsn p \<le> n \<Longrightarrow> lsn_but b n (rel[c := p])"
  "lsn_but b n rel \<Longrightarrow> pd_lsn p \<le> n \<Longrightarrow> lsn_le n (rel[b := p])"
  by (simp_all add: lsn_but_def lsn_le_def nth_update)

lemma pd_lsn_set [simp]: "pd_lsn (page_set_lsn p lsn) = lsn"
  by (simp add: page_set_lsn_def)

lemma new_page_lsns:
  assumes "pg_ok pg"
  shows "pd_lsn (init_node_page pg) = 0" "pd_lsn (init_edge_page pg) = 0" "pd_lsn (PageInit pg 0) = 0"
proof -
  have "pd_lsn (PageInit pg m) = 0" if "m mod 8 = 0" "m \<le> 8000" for m
    using assms that by (simp add: pg_ok_def pg_page_init_ok_def)
  from this [of 2400] this [of 0]
  show "pd_lsn (init_node_page pg) = 0" "pd_lsn (init_edge_page pg) = 0" "pd_lsn (PageInit pg 0) = 0"
    by (simp_all add: init_node_page_def init_edge_page_def layout_simps)
qed

lemma find_or_extend_lsn:
  assumes "pg_ok pg" and "lsn_le n rel" and "find_or_extend_page pg rel sz = (rel', b)"
  shows "lsn_le n rel'"
  using assms new_page_lsns(1) [OF assms(1)]
  by (auto simp: find_or_extend_page_def split: option.splits intro: lsn_le_snoc)

lemma insert_node_lsns:
  assumes pg: "pg_ok pg" and ok: "lsns_ok d" and run: "insert_node pg d n lids props = Inr (d', t)"
  shows "lsns_ok d'"
proof -
  let ?n = "Suc (length (wal d))"
  have start: "lsn_le ?n (node_rel d)" "lsn_le ?n (edge_rel d)"
    using ok lsn_le_mono by (auto simp: lsns_split)
  let ?big = "PROP_INLINE_MAX < length props"
  let ?it = "build_node_item_bytes_ovf pg n 0 lids (if ?big then [] else props) 0"
  obtain rel blk where f: "find_or_extend_page pg (node_rel d) (item_len ?it) = (rel, blk)" by fastforce
  note rel = find_or_extend_lsn [OF pg start(1) f]
  have rel1: "lsn_le ?n (rel @ [PageInit pg 0])" by (rule lsn_le_snoc [OF rel]) (simp add: new_page_lsns [OF pg])
  have len: "length lids \<le> MAX_LABELS_PER_NODE" using run by (auto simp: insert_node_def split: if_splits)
  show ?thesis
  proof (cases ?big)
    case False
    have step: "lsn_le ?n (rel[blk := page_set_lsn q ?n])" for q by (rule lsn_le_update [OF rel]) simp
    show ?thesis
      using False run f len start(2) step
      by (auto simp: insert_node_def log_node_insert_def XLogInsert_def Let_def lsns_split split: if_splits prod.splits)
  next
    case True
    let ?o = "length rel"
    have step: "lsn_le ?n ((rel @ [PageInit pg 0])[?o := p, blk := page_set_lsn q ?n, ?o := page_set_lsn r ?n])" for p q r
      by (intro lsn_but_simps rel1) simp_all
    show ?thesis
      using True run f len start(2) step
      by (auto simp: insert_node_def write_overflow_block_def log_node_insert_def XLogInsert_def Let_def lsns_split
          bindE_eq_Inr split: if_splits prod.splits)
  qed
qed

lemma delete_node_lsns:
  assumes ok: "lsns_ok d" and run: "delete_node_by_id pg d n = Inr (d', b)"
  shows "lsns_ok d'"
proof -
  let ?n = "Suc (length (wal d))"
  have start: "lsn_le ?n (node_rel d)" "lsn_le ?n (edge_rel d)"
    using ok lsn_le_mono by (auto simp: lsns_split)
  have "lsn_le ?n ((node_rel d)[blk := page_set_lsn q ?n])" for blk q by (rule lsn_le_update [OF start(1)]) simp
  then show ?thesis
    using run ok start(2)
    by (auto simp: delete_node_by_id_def log_node_delete_def XLogInsert_def Let_def lsns_split bindE_eq_Inr
        split: option.splits)
qed

lemma update_node_lsns:
  assumes pg: "pg_ok pg" and ok: "lsns_ok d" and run: "update_node pg d n lids props = Inr (d', b)"
  shows "lsns_ok d'"
proof -
  let ?n = "Suc (Suc (length (wal d)))"
  have start: "lsn_le ?n (node_rel d)" "lsn_le ?n (edge_rel d)"
    using ok lsn_le_mono by (auto simp: lsns_split)
  have one: "lsn_le ?n ((node_rel d)[blk := page_set_lsn q ?n])" for blk q by (rule lsn_le_update [OF start(1)]) simp
  have old: "lsn_le ?n ((node_rel d)[blk := page_set_lsn q (Suc (length (wal d)))])" for blk q
    by (rule lsn_le_update [OF start(1)]) simp
  have two: "lsn_le ?n ((fst (find_or_extend_page pg ((node_rel d)[blk := page_set_lsn r (Suc (length (wal d)))]) sz))
      [b := page_set_lsn q ?n])" for b sz q r blk
    by (rule lsn_le_update [OF find_or_extend_lsn [OF pg old prod.collapse [symmetric]]]) simp
  show ?thesis
    using run ok start(2) one two
    by (auto simp: update_node_def log_node_delete_def log_node_insert_def XLogInsert_def Let_def lsns_split bindE_eq_Inr
        case_prod_beta split: option.splits if_splits)
qed

lemma insert_edge_lsns:
  assumes pg: "pg_ok pg" and ok: "lsns_ok d" and run: "insert_edge pg d eid ty src tgt props = Inr d'"
  shows "lsns_ok d'"
proof -
  have page: "lsn_le m ((fst (find_or_extend_edge_page pg (edge_rel d) sz))[b := page_set_lsn q k])"
    if "length (wal d) \<le> m" "k \<le> m" for sz m k b q
  proof -
    have "lsn_le m (edge_rel d)" using ok lsn_le_mono that(1) by (auto simp: lsns_split)
    then have "lsn_le m (fst (find_or_extend_edge_page pg (edge_rel d) sz))"
      using new_page_lsns(2) [OF pg] lsn_le_snoc [of m "edge_rel d" "init_edge_page pg"]
      by (auto simp: find_or_extend_edge_page_def)
    then show ?thesis by (rule lsn_le_update) (simp add: that(2))
  qed
  have nodes: "lsn_le m ((node_rel d)[a := p, b := q, a := page_set_lsn r k, b := page_set_lsn s l])"
    if "length (wal d) \<le> m" "k \<le> m" "l \<le> m" for m a b p q r s k l
  proof -
    have "lsn_le m (node_rel d)" using ok lsn_le_mono that(1) by (auto simp: lsns_split)
    then have "\<forall>i < length (node_rel d). i \<noteq> a \<longrightarrow> i \<noteq> b \<longrightarrow> pd_lsn (node_rel d ! i) \<le> m" by (simp add: lsn_le_def)
    then show ?thesis using that(2,3) by (simp add: lsn_le_def nth_update)
  qed
  have single: "lsn_le m ((node_rel d)[a := p, a := q, a := page_set_lsn r k])"
    if "length (wal d) \<le> m" "k \<le> m" for m a p q r k
    using nodes [OF that that(2), of a p a q r r] by simp
  show ?thesis
    using run page nodes single
    by (auto simp: insert_edge_def log_edge_insert_def log_adj_update_def XLogInsert_def Let_def lsns_split bindE_eq_Inr
        case_prod_beta split: option.splits if_splits)
qed

lemma delete_edge_lsns:
  assumes ok: "lsns_ok d" and run: "delete_edge pg d eid = (d', b)"
  shows "lsns_ok d'"
proof -
  let ?n = "Suc (length (wal d))"
  have start: "lsn_le ?n (node_rel d)" "lsn_le ?n (edge_rel d)"
    using ok lsn_le_mono by (auto simp: lsns_split)
  have "lsn_le ?n ((edge_rel d)[blk := page_set_lsn q ?n])" for blk q by (rule lsn_le_update [OF start(2)]) simp
  then show ?thesis
    using run ok start(1)
    by (auto simp: delete_edge_def log_edge_delete_def XLogInsert_def Let_def lsns_split split: option.splits)
qed

lemma update_edge_lsns:
  assumes ok: "lsns_ok d" and run: "update_edge_props pg d eid props = Inr (d', b)"
  shows "lsns_ok d'"
proof -
  have "lsn_le n (rel[blk := modify_item (rel ! blk) off f])" if "lsn_le n rel" for n rel blk off f
  proof -
    have "pd_lsn (modify_item (rel ! blk) off f) = pd_lsn (rel ! blk)" by (simp add: modify_item_def set_item_def)
    then show ?thesis
      using that by (simp add: lsn_le_def nth_update)
  qed
  then show ?thesis
    using run ok by (auto simp: update_edge_props_def lsns_split Let_def split: option.splits if_splits)
qed

lemma run_lsns: "graph_run d g \<Longrightarrow> lsns_ok d"
proof (induction rule: graph_run.induct)
  case run_empty
  show ?case by (simp add: lsns_split lsn_le_def empty_db_def)
qed (blast intro: insert_node_lsns delete_node_lsns update_node_lsns insert_edge_lsns delete_edge_lsns update_edge_lsns)+

end
