(* ===== verification/RedoProperties.thy ===== *)
theory RedoProperties
  imports RedoInserts VacuumProperties LsnOrder
begin

text \<open>
  The properties of recovery: which operations it reproduces, what it loses, and where it stops with an
  error.
\<close>

section \<open>Vacuum\<close>

definition compact_record :: "nat \<Rightarrow> page \<Rightarrow> xlog_rec" where
  "compact_record blk p = \<lparr>xl_info = XLOG_PG_EDDY_NODE_COMPACT,
     xl_blocks = [\<lparr>b_rel = NodeRel, b_blk = blk, b_data = NoData, b_image = Some p\<rparr>], xl_main = []\<rparr>"

lemma redo_compact:
  assumes rb: "redo_buffer_ok rb" and blk: "blk < length (node_rel d)"
  shows "replay pg rb pos [compact_record blk p] d = Inr (put_page NodeRel blk (page_set_lsn p pos) d)"
proof -
  let ?st = "\<lparr>xlr_rec = compact_record blk p, rec_lsn = pos, EndRecPtr = Suc pos\<rparr>"
  have "on_redo rb ?st 0 f g d = Inr (put_page NodeRel blk (g (page_set_lsn p (Suc pos))) d)" for f g
    using on_redo_image [OF rb, of 0 ?st _ p d f g, OF _ refl] blk by (simp add: compact_record_def rel_pages_def)
  moreover have "rmgr_redo pg rb ?st d = redo_node_compact rb ?st d"
    by (rule dispatch(4)) (simp add: compact_record_def)
  moreover have "page_set_lsn (page_set_lsn p n) m = page_set_lsn p m" for n m by (simp add: page_set_lsn_def)
  ultimately show ?thesis by (simp add: replay_one redo_node_compact_def xlog_rec_get_lsn_def)
qed

text \<open>What the body of the loop does to the log.\<close>

lemma vacuum_block_log:
  assumes "vacuum_block pg NodeRel oldest (d, st) blk = Inr (d', st')"
  shows "d' = d \<or> (\<exists>p. d' = d\<lparr>node_rel := (node_rel d)[blk := page_set_lsn p (Suc (length (wal d)))],
    wal := wal d @ [compact_record blk p]\<rparr>)"
proof (cases "is_overflow_page (node_rel d ! blk)")
  case True
  then show ?thesis using assms by (simp add: vacuum_block_def rel_pages_def)
next
  case False
  then have node: "pd_special (node_rel d ! blk) \<noteq> BLCKSZ" by (auto simp: is_overflow_page_def layout_simps)
  have compact: "\<exists>p. d\<lparr>node_rel := (node_rel d)[blk := page_set_lsn page lsn], wal := log\<rparr> =
      d\<lparr>node_rel := (node_rel d)[blk := page_set_lsn p (Suc (length (wal d)))], wal := wal d @ [compact_record blk p]\<rparr>"
    if "compact_node_page pg (wal d) blk q slots = Inr (page, log, lsn)" for q slots page log lsn
    using that by (auto simp: compact_node_page_def log_node_compact_def XLogInsert_def compact_record_def Let_def bindE_eq_Inr)
  have swap: "d\<lparr>wal := log, node_rel := ps\<rparr> = d\<lparr>node_rel := ps, wal := log\<rparr>" for log ps by (cases d) simp
  show ?thesis
    using assms False node
    unfolding vacuum_block_def rel_pages_def put_page_def prod.case relname.case Let_def
    by (auto simp: bindE_eq_Inr swap dest!: compact split: if_splits)
qed

lemma same_content_put:
  assumes "same_content e d" and "blk < length (node_rel d)" and "unlsn p = unlsn q"
  shows "same_content (put_page NodeRel blk p e) (d\<lparr>node_rel := (node_rel d)[blk := q], wal := log\<rparr>)"
  using assms by (simp add: same_content_def put_page_rels map_update)

lemma vacuum_recovered:
  assumes rb: "redo_buffer_ok rb" and "vacuum_relation pg NodeRel d = Inr (d', st)"
  shows "\<exists>d''. replay pg' rb (length (wal d)) (drop (length (wal d)) (wal d')) d = Inr d'' \<and> same_content d'' d'"
proof -
  let ?f = "vacuum_block pg NodeRel (OldestNonRemovableTransactionId pg)" and ?pos = "length (wal d)"
  have "\<exists>recs e. wal d1 = wal d @ recs \<and> replay pg' rb ?pos recs d = Inr e \<and> same_content e d1 \<and>
      length (node_rel d1) = length (node_rel d)"
    if "foldE ?f (d, s0) [0..<k] = Inr (d1, s1)" "k \<le> length (node_rel d)" for k d1 s1 s0
    using that
  proof (induction k arbitrary: d1 s1)
    case 0
    then show ?case by (simp add: same_content_def)
  next
    case (Suc k)
    then obtain d0 s' where run: "foldE ?f (d, s0) [0..<k] = Inr (d0, s')" and step: "?f (d0, s') k = Inr (d1, s1)"
      by (auto simp: foldE_append bindE_eq_Inr)
    obtain recs e where IH: "wal d0 = wal d @ recs" "replay pg' rb ?pos recs d = Inr e" "same_content e d0"
        "length (node_rel d0) = length (node_rel d)"
      using Suc.IH [OF run] Suc.prems(2) by auto
    from vacuum_block_log [OF step] show ?case
    proof (elim disjE exE)
      assume "d1 = d0"
      then show ?thesis using IH by blast
    next
      fix p assume d1: "d1 = d0\<lparr>node_rel := (node_rel d0)[k := page_set_lsn p (Suc (length (wal d0)))],
        wal := wal d0 @ [compact_record k p]\<rparr>"
      have k: "k < length (node_rel d0)" using Suc.prems(2) IH(4) by simp
      then have "k < length (node_rel e)" using IH(3) by (metis length_map same_content_def)
      from redo_compact [OF rb this] have "replay pg' rb ?pos (recs @ [compact_record k p]) d =
          Inr (put_page NodeRel k (page_set_lsn p (?pos + length recs)) e)"
        by (simp only: replay_append IH(2) bindE_Inr)
      moreover have "same_content (put_page NodeRel k (page_set_lsn p (?pos + length recs)) e) d1"
        unfolding d1 by (rule same_content_put [OF IH(3) k]) simp
      ultimately show ?thesis using IH(1,4) d1 by simp
    qed
  qed
  then show ?thesis
    using assms(2) by (fastforce simp: vacuum_relation_def rel_pages_def)
qed

section \<open>Records replayed twice\<close>

lemma redo_edge_twice:
  assumes pg: "pg_ok pg" "pg_no_overwrite pg" and rb: "redo_buffer_ok rb"
    and blk: "blk < length (edge_rel d)" "page_wf (edge_rel d ! blk)" "pd_lsn (edge_rel d ! blk) \<le> pos"
    and fit: "fits (edge_rel d ! blk) (item_len it)" and off: "off = Suc (max_off (edge_rel d ! blk))"
  shows "\<exists>d'. replay pg rb pos [edge_insert_record blk off it] d = Inr d' \<and> pd_lsn (edge_rel d' ! blk) = pos \<and>
    replay pg rb pos [edge_insert_record blk off it] d' = Inl (RedoAddItemFailed off)"
proof -
  let ?p = "edge_rel d ! blk" and ?q = "page_set_lsn (append_line (edge_rel d ! blk) it it) pos"
  have up: "pd_upper ?p \<noteq> 0" using blk(2) by (simp add: page_wf_def)
  have o: "1 \<le> off" "off < 2 ^ 16" using max_off_bound [OF blk(2)] by (simp_all add: off)
  have add: "PageAddItemExtended pg ?p it off PAI_OVERWRITE = (append_line ?p it it, off)"
    unfolding off by (rule add_item_at [OF pg(1) blk(2) fit])
  then have once: "replay pg rb pos [edge_insert_record blk off it] d = Inr (put_page EdgeRel blk ?q d)"
    using redo_add_edge [OF rb blk(1,3)] up o by simp
  let ?d = "put_page EdgeRel blk ?q d" and ?st = "\<lparr>xlr_rec = edge_insert_record blk off it, rec_lsn = pos, EndRecPtr = Suc pos\<rparr>"
  have page: "edge_rel ?d ! blk = ?q" "blk < length (edge_rel ?d)" using blk(1) by (simp_all add: put_page_rels)
  have "place ?p off it = append_line ?p it it" by (simp add: place_def append_line_def Let_def off max_off_def)
  then have "page_wf ?q" using place_wf [OF blk(2), of it off] fit by (simp add: fits_def off)
  then have wf: "page_wf ?q" "pd_upper ?q \<noteq> 0" by (simp_all add: page_wf_def)
  have "max_off ?q = off" by (simp add: max_off_def off)
  moreover have "\<not> unused ?q off" by (simp add: unused_def max_off_def off nth_append)
  ultimately have fail: "PageAddItemExtended pg ?q it off PAI_OVERWRITE = (?q, InvalidOffsetNumber)"
    using pg(2) wf(1) o(1) unfolding pg_no_overwrite_def by simp
  have "on_redo rb ?st 0 f g ?d = bindE (f ?q) (\<lambda>page. Inr (put_page EdgeRel blk page ?d))" for f g
    using on_redo_needed [OF rb, of 0 ?st _ ?d f g, OF _ refl] page by (simp add: edge_insert_record_def rel_pages_def page_set_lsn_def)
  moreover have "rmgr_redo pg rb ?st ?d = redo_edge_insert pg rb ?st ?d"
    by (rule dispatch(5)) (simp add: edge_insert_record_def)
  moreover have "xlog_rec_get_data ?st = XLogEdgeInsert off" "xlog_rec_get_data_len ?st = 4"
      "data_item (block_data ?st 0) = it" "xlog_rec_get_lsn ?st = pos"
    by (simp_all add: xlog_rec_get_data_def xlog_rec_get_data_len_def edge_insert_record_def record_lengths
        block_data_def xlog_rec_get_lsn_def)
  ultimately have "replay pg rb pos [edge_insert_record blk off it] ?d = Inl (RedoAddItemFailed off)"
    using fail wf(2) by (simp add: replay_one redo_edge_insert_def record_fields [OF o(2)] Let_def)
  moreover have "pd_lsn ?q = pos" by (simp add: page_set_lsn_def)
  ultimately show ?thesis using once page(1) by (intro exI [of _ ?d]) simp
qed

section \<open>Full page images\<close>

text \<open>A record whose first block carries an image that PostgreSQL added.\<close>

definition fpi :: "page \<Rightarrow> xlog_rec \<Rightarrow> xlog_rec" where
  "fpi p r = r\<lparr>xl_blocks := (case xl_blocks r of [] \<Rightarrow> [] | b # bs \<Rightarrow> with_fpi p b # bs)\<rparr>"

lemma fpi_image:
  assumes rb: "redo_buffer_ok rb" and b: "xl_blocks r = b # bs" "b_blk b < length (rel_pages (b_rel b) d)"
  shows "on_redo rb \<lparr>xlr_rec = fpi p r, rec_lsn = pos, EndRecPtr = Suc pos\<rparr> 0 f (\<lambda>page. page) d =
    Inr (put_page (b_rel b) (b_blk b) (page_set_lsn p (Suc pos)) d)"
  using on_redo_image [OF rb, of 0 "\<lparr>xlr_rec = fpi p r, rec_lsn = pos, EndRecPtr = Suc pos\<rparr>" "with_fpi p b" p d f "\<lambda>page. page"]
    b by (simp add: fpi_def with_fpi_def)

lemma fpi_fields:
  "xl_info (fpi p r) = xl_info r" "xl_main (fpi p r) = xl_main r"
  by (simp_all add: fpi_def)

lemma redo_fpi_delete:
  assumes "redo_buffer_ok rb" and "blk < length (rel_pages r d)" and "off < 2 ^ 16"
  shows "replay pg rb pos [fpi p (delete_record r blk off xmax)] d = Inr (put_page r blk (page_set_lsn p (Suc pos)) d)"
  using fpi_image [OF assms(1), of "delete_record r blk off xmax"] assms(2)
  unfolding replay_one
  by (cases r) (simp_all add: dispatch fpi_fields delete_record_def redo_node_delete_def redo_edge_delete_def
      xlog_rec_get_data_len_def record_lengths Let_def)

lemma redo_fpi_inserts:
  assumes rb: "redo_buffer_ok rb"
  shows "blk < length (edge_rel d) \<Longrightarrow>
      replay pg rb pos [fpi p (edge_insert_record blk off it)] d = Inr (put_page EdgeRel blk (page_set_lsn p (Suc pos)) d)"
    and "blk < length (node_rel d) \<Longrightarrow>
      replay pg rb pos [fpi p (node_insert_record blk off it)] d = Inr (put_page NodeRel blk (page_set_lsn p (Suc pos)) d)"
proof -
  have ne: "XLOG_PG_EDDY_NODE_INSERT AND NOT XLR_INFO_MASK \<noteq> XLOG_PG_EDDY_NODE_INSERT_OVF"
    by (simp add: info_bits) (simp add: xlog_opcodes)
  show "replay pg rb pos [fpi p (edge_insert_record blk off it)] d = Inr (put_page EdgeRel blk (page_set_lsn p (Suc pos)) d)"
    if "blk < length (edge_rel d)"
    using fpi_image [OF rb, of "edge_insert_record blk off it"] that
    unfolding replay_one
    by (simp add: dispatch fpi_fields edge_insert_record_def redo_edge_insert_def rel_pages_def
        xlog_rec_get_data_len_def record_lengths Let_def)
  show "replay pg rb pos [fpi p (node_insert_record blk off it)] d = Inr (put_page NodeRel blk (page_set_lsn p (Suc pos)) d)"
    if "blk < length (node_rel d)"
    using fpi_image [OF rb, of "node_insert_record blk off it"] that ne
    unfolding replay_one
    by (simp add: dispatch fpi_fields node_insert_record_def redo_node_insert_def rel_pages_def
        xlog_rec_get_data_len_def xlog_rec_get_info_def record_lengths Let_def)
qed

lemma redo_fpi_adj: "replay pg rb pos [fpi p (adj_record x h)] d = Inl (RedoDataTooShort 0)"
proof -
  let ?st = "\<lparr>xlr_rec = fpi p (adj_record x h), rec_lsn = pos, EndRecPtr = Suc pos\<rparr>"
  have "rmgr_redo pg rb ?st d = redo_adj_update rb ?st d"
    by (rule dispatch(7)) (simp add: fpi_fields adj_record_def)
  moreover have "data_bytes (block_data ?st 0) = []" by (simp add: block_data_def fpi_def adj_record_def with_fpi_def)
  ultimately show ?thesis by (simp add: replay_one redo_adj_update_def)
qed

section \<open>Examples\<close>

lemma demo_lsns: "lsns_ok demo_nodes" "lsns_ok demo_graph"
proof -
  obtain d t t' where steps: "insert_node ref_pg empty_db 1 [] [] = Inr (d, t)"
      "insert_node ref_pg d 2 [] [] = Inr (demo_nodes, t')"
    using demo_steps by blast
  have "lsns_ok empty_db" by (simp add: lsns_split lsn_le_def empty_db_def)
  then show "lsns_ok demo_nodes" using insert_node_lsns [OF pg_ok_ref] steps by blast
  then show "lsns_ok demo_graph" using insert_edge_lsns [OF pg_ok_ref] demo_graph_ok by blast
qed

text \<open>A store with one empty edge page and one empty node page.\<close>

definition demo_pages :: db where
  "demo_pages = empty_db\<lparr>node_rel := [init_node_page ref_pg], edge_rel := [init_edge_page ref_pg]\<rparr>"

lemma demo_pages_edge:
  "edge_rel demo_pages = [\<lparr>pd_lower = 24, pd_upper = 8192, pd_special = 8192, lines = [], special = [], pd_lsn = 0\<rparr>]"
  by (simp add: demo_pages_def init_edge_page_def ref_pg_def ref_page_init_def layout_simps)

text \<open>The second node of the example is the second item of its page.\<close>

definition one_node :: db where
  "one_node = (case insert_node ref_pg empty_db 1 [] [] of Inr (d, t) \<Rightarrow> d | Inl e \<Rightarrow> empty_db)"

lemma demo_offset: "\<exists>d. insert_node ref_pg one_node 2 [] [] = Inr (d, (0, 2))"
proof -
  have "(case insert_node ref_pg one_node 2 [] [] of Inr (d, t) \<Rightarrow> t | Inl e \<Rightarrow> (0, 0)) = (0, 2)"
    by code_simp
  then show ?thesis by (auto split: sum.splits)
qed

lemma one_node_ok: "node_store_ok one_node" "absent one_node 2" "lsns_ok one_node"
proof -
  have "node_rel_ok (node_rel empty_db)" using graph_okD(1) [OF graph_ok_empty(1)] by (simp add: node_store_ok_def)
  then obtain d blk off where d: "insert_node ref_pg empty_db 1 [] [] = Inr (d, (blk, off))"
    and res: "insert_result ref_pg empty_db 1 [] [] d blk off"
    using insert_inline [OF pg_ok_ref txn_ok_ref, of empty_db "[]" "[]" 1] by auto
  have e: "one_node = d" by (simp add: one_node_def d)
  note g = insert_node_graph [OF graph_ok_empty(1) empty_db_ok(2) res]
  show "node_store_ok one_node" using graph_okD(1) [OF g(1)] e by simp
  show "absent one_node 2" using g(4) [of 2] empty_db_ok(2) e by simp
  have "lsns_ok empty_db" by (simp add: lsns_split lsn_le_def empty_db_def)
  then show "lsns_ok one_node" using insert_node_lsns [OF pg_ok_ref _ d] e by simp
qed

section \<open>The properties\<close>

text \<open>
  Recovery of deletes: replaying what \<open>delete_node_by_id\<close> or \<open>delete_edge\<close> has logged on the pages
  as they were before gives the pages after the delete, up to the LSNs.
\<close>

theorem redo_deletes:
  assumes "graph_ok d" and "lsns_ok d" and "redo_buffer_ok rb"
  shows "(\<forall>n d' b. delete_node_by_id pg d n = Inr (d', b) \<longrightarrow>
      (\<exists>d''. replay pg rb (length (wal d)) (drop (length (wal d)) (wal d')) d = Inr d'' \<and> same_content d'' d')) \<and>
    (\<forall>eid d' b. delete_edge pg d eid = (d', b) \<longrightarrow>
      (\<exists>d''. replay pg rb (length (wal d)) (drop (length (wal d)) (wal d')) d = Inr d'' \<and> same_content d'' d'))"
  using redo_delete_node [OF graph_okD(1) [OF assms(1)] assms(2,3)] redo_delete_edge [OF assms] by blast

theorem redo_deletes_witness:
  "\<exists>d' d''. delete_edge ref_pg demo_graph 5 = (d', True) \<and>
    replay ref_pg ref_redo (length (wal demo_graph)) (drop (length (wal demo_graph)) (wal d')) demo_graph = Inr d'' \<and>
    same_content d'' d'"
proof -
  obtain t where ok: "graph_ok demo_graph" "unique_edges (edge_rel demo_graph)" "edge_at (edge_rel demo_graph) 5 t"
    using demo_graph_ok by blast
  obtain d' where d': "delete_edge ref_pg demo_graph 5 = (d', True)" using delete_edge_graph [OF ok, of ref_pg ref_pg] by blast
  from redo_deletes [OF ok(1) demo_lsns(2) redo_buffer_ref, of ref_pg] d' show ?thesis by blast
qed





text \<open>
  Recovery of vacuum: the page images of the compaction records restore every page as vacuum left it.
\<close>

theorem redo_vacuum:
  assumes "redo_buffer_ok rb" and "vacuum_relation pg NodeRel d = Inr (d', st)"
  shows "\<exists>d''. replay pg' rb (length (wal d)) (drop (length (wal d)) (wal d')) d = Inr d'' \<and> same_content d'' d'"
  using assms by (rule vacuum_recovered)

theorem redo_vacuum_witness:
  "\<exists>d' st d''. vacuum_relation later_pg NodeRel demo_graph = Inr (d', st) \<and>
    replay ref_pg ref_redo (length (wal demo_graph)) (drop (length (wal demo_graph)) (wal d')) demo_graph = Inr d'' \<and>
    same_content d'' d'"
proof -
  have "graph_ok demo_graph" using demo_graph_ok by blast
  then obtain d' st where v: "vacuum_relation later_pg NodeRel demo_graph = Inr (d', st)"
    using vacuum_nodes [OF pg_ok_later _ no_deleted_small [OF demo_no_deleted]] by blast
  from redo_vacuum [OF redo_buffer_ref v, of ref_pg] v show ?thesis by blast
qed

text \<open>
  C11. Redo sets the LSN of the page to the start of the record, not to its end. A page written to disk
  after that looks as if the record had not been replayed: when recovery starts again, the insert is
  replayed a second time and fails, because its line pointer is in use.
\<close>

theorem redo_insert_not_idempotent:
  assumes "pg_ok pg" and "pg_no_overwrite pg" and "redo_buffer_ok rb"
    and "blk < length (edge_rel d)" and "page_wf (edge_rel d ! blk)" and "pd_lsn (edge_rel d ! blk) \<le> pos"
    and "fits (edge_rel d ! blk) (item_len it)" and "off = Suc (max_off (edge_rel d ! blk))"
  shows "\<exists>d'. replay pg rb pos (fst (log_edge_insert [] blk off it)) d = Inr d' \<and> pd_lsn (edge_rel d' ! blk) = pos \<and>
    replay pg rb pos (fst (log_edge_insert [] blk off it)) d' = Inl (RedoAddItemFailed off)"
  unfolding log_inserts fst_conv append_Nil using assms by (rule redo_edge_twice)

theorem redo_insert_not_idempotent_witness:
  "\<exists>d'. replay ref_pg ref_redo 4 (fst (log_edge_insert [] 0 1 (Raw [7]))) demo_pages = Inr d' \<and>
    replay ref_pg ref_redo 4 (fst (log_edge_insert [] 0 1 (Raw [7]))) d' = Inl (RedoAddItemFailed 1)"
proof -
  have "0 < length (edge_rel demo_pages)" "page_wf (edge_rel demo_pages ! 0)" "pd_lsn (edge_rel demo_pages ! 0) \<le> 4"
      "fits (edge_rel demo_pages ! 0) (item_len (Raw [7]))" "1 = Suc (max_off (edge_rel demo_pages ! 0))"
    by (simp_all add: demo_pages_edge page_wf_def storage_def fits_def page_free_space_def maxalign_def item_id_size_def
        max_off_def layout_simps)
  from redo_insert_not_idempotent [OF pg_ok_ref pg_no_overwrite_ref redo_buffer_ref this] show ?thesis by blast
qed

text \<open>
  C10. Page images that PostgreSQL adds by itself (after a checkpoint, with \<open>full_page_writes\<close>) take the
  place of the block data. Records of inserts and deletes are then replayed by restoring the image, with
  the right LSN; but the handler of adjacency updates asks for its block data before it looks at the
  action, and stops recovery with an error.
\<close>

theorem redo_full_page_images:
  assumes "redo_buffer_ok rb"
  shows "(blk < length (node_rel d) \<and> off < 2 ^ 16 \<longrightarrow>
      replay pg rb pos (map (fpi p) (fst (log_node_delete [] blk off xmax))) d = Inr (put_page NodeRel blk (page_set_lsn p (Suc pos)) d)) \<and>
    (blk < length (edge_rel d) \<and> off < 2 ^ 16 \<longrightarrow>
      replay pg rb pos (map (fpi p) (fst (log_edge_delete [] blk off xmax))) d = Inr (put_page EdgeRel blk (page_set_lsn p (Suc pos)) d)) \<and>
    (blk < length (edge_rel d) \<longrightarrow> replay pg rb pos (map (fpi p) (fst (log_edge_insert [] blk off it))) d =
      Inr (put_page EdgeRel blk (page_set_lsn p (Suc pos)) d)) \<and>
    (blk < length (node_rel d) \<longrightarrow> replay pg rb pos (map (fpi p) (fst (log_node_insert [] blk off it None))) d =
      Inr (put_page NodeRel blk (page_set_lsn p (Suc pos)) d)) \<and>
    replay pg rb pos (map (fpi p) (fst (log_adj_update [] blk (of_nat slot) h))) d = Inl (RedoDataTooShort 0)"
proof -
  have "replay pg rb pos [fpi p (delete_record NodeRel blk off xmax)] d = Inr (put_page NodeRel blk (page_set_lsn p (Suc pos)) d)"
    if "blk < length (node_rel d)" "off < 2 ^ 16"
    by (rule redo_fpi_delete [OF assms]) (use that in \<open>simp_all add: rel_pages_def\<close>)
  moreover have "replay pg rb pos [fpi p (delete_record EdgeRel blk off xmax)] d = Inr (put_page EdgeRel blk (page_set_lsn p (Suc pos)) d)"
    if "blk < length (edge_rel d)" "off < 2 ^ 16"
    by (rule redo_fpi_delete [OF assms]) (use that in \<open>simp_all add: rel_pages_def\<close>)
  moreover note redo_fpi_inserts [OF assms, of blk d pg pos p off it] redo_fpi_adj [of pg rb pos p "(blk, slot)" h d]
  ultimately show ?thesis unfolding log_inserts log_node_inserts log_deletes fst_conv append_Nil list.map by blast
qed

theorem redo_full_page_images_witness:
  "replay ref_pg ref_redo 4 (map (fpi new_page) (fst (log_edge_insert [] 0 1 (Raw [7])))) demo_pages =
      Inr (put_page EdgeRel 0 (page_set_lsn new_page 5) demo_pages) \<and>
    replay ref_pg ref_redo 4 (map (fpi new_page) (fst (log_adj_update [] 0 (of_nat 3) (NodeAdjHeader (replicate 24 0))))) demo_pages =
      Inl (RedoDataTooShort 0)"
  using redo_full_page_images [OF redo_buffer_ref, of 0 demo_pages 1 ref_pg 4 new_page 0 "Raw [7]" 3 "NodeAdjHeader (replicate 24 0)"]
  by (simp add: demo_pages_edge)

text \<open>
  In every state the stores can reach, no page has an LSN beyond the end of the log, so that recovery
  finds every page behind the records that are still to be replayed.
\<close>

theorem log_order:
  assumes "graph_run d g"
  shows "\<forall>p \<in> set (node_rel d) \<union> set (edge_rel d). pd_lsn p \<le> length (wal d)"
proof -
  have "lsn_le (length (wal d)) rel \<Longrightarrow> p \<in> set rel \<Longrightarrow> pd_lsn p \<le> length (wal d)" for rel p
    by (auto simp: lsn_le_def in_set_conv_nth)
  then show ?thesis using run_lsns [OF assms] by (auto simp: lsns_split)
qed

theorem log_order_witness:
  "list_all (\<lambda>p. pd_lsn p \<le> length (wal demo_graph)) (node_rel demo_graph @ edge_rel demo_graph)"
  using log_order [OF demo_run] by (simp add: list_all_iff)

end
