(* ===== verification/CypherAst.thy ===== *)
theory CypherAst
  imports Prelude
begin

text \<open>
  The syntax tree of \<open>cypher/ast.rs\<close>. The Rust types are mutually recursive through expressions only,
  so patterns, items, clauses and queries are types over the type \<open>'e\<close> of their expressions, and
  \<open>Expr\<close> closes the recursion. A Rust struct is a datatype with one constructor and selectors.
\<close>

datatype CmpOp = Eq | Neq | Lt | Gt | Le | Ge

datatype ArithOp = Add | Sub | Mul | Div | Mod | Pow

datatype ListPredicateKind = Any | All | NoneOf | Single

datatype RelDirection = Out | In | Both

datatype VarLength = VarLength (vl_min: u32) (vl_max: "u32 option")

datatype 'e NodePattern = NodePattern
  (np_variable: "string option")
  (np_labels: "string list")
  (np_properties: "(string \<times> 'e) list")
  (has_explicit_map: bool)

datatype 'e RelPattern = RelPattern
  (rp_variable: "string option")
  (rel_types: "string list")
  (direction: RelDirection)
  (rp_properties: "(string \<times> 'e) list")
  (rp_length: "VarLength option")

datatype 'e PatternElement = Node "'e NodePattern" | Relationship "'e RelPattern"

datatype 'e Pattern = Pattern (p_variable: "string option") (elements: "'e PatternElement list")

datatype 'e ReturnItem = ReturnItem (ri_expr: 'e) (ri_alias: "string option")

datatype 'e OrderItem = OrderItem (oi_expr: 'e) (ascending: bool)

datatype 'e SetItem =
    SetProperty 'e 'e
  | SetVariable string 'e
  | MergeMap string 'e
  | SetLabel string "string list"

datatype 'e RemoveItem = RemoveProperty 'e string | RemoveLabel string "string list"

text \<open>
  The fields of a clause are in the order of the source: for \<open>Match\<close> \<open>optional\<close>, \<open>patterns\<close>,
  \<open>where_clause\<close>; for \<open>With\<close> and \<open>Return\<close> \<open>distinct\<close>, \<open>items\<close>, \<open>order_by\<close>, \<open>skip\<close>, \<open>limit\<close>, and for
  \<open>With\<close> its \<open>where_clause\<close>.
\<close>

datatype (plugins only: code size) 'e Query = Query
    (clauses: "'e QueryClause list")
    (union_with: "(bool \<times> 'e Query) option")
and 'e QueryClause =
    Match bool "'e Pattern list" "'e option"
  | Unwind 'e string
  | CallSubquery "'e Query"
  | CallProcedure string "'e list" "(string \<times> string option) list" bool
  | With bool "'e ReturnItem list" "'e OrderItem list" "'e option" "'e option" "'e option"
  | Return bool "'e ReturnItem list" "'e OrderItem list" "'e option" "'e option"
  | Create "'e Pattern list"
  | Merge "'e Pattern" "'e SetItem list" "'e SetItem list"
  | SetClause "'e SetItem list"
  | Remove "'e RemoveItem list"
  | Delete "'e list" bool
  | Foreach string 'e "'e QueryClause list"
  | CreateIndex string string
  | DropIndex string string
  | ShowIndexes
  | CreateConstraint string string string
  | DropConstraint string string string
  | ShowConstraints

datatype (plugins only: code size) Expr =
    Variable string
  | Property Expr string
  | IntLit i64
  | FloatLit u64
  | StringLit string
  | BoolLit bool
  | NullLit
  | Parameter string
  | Compare Expr CmpOp Expr
  | And Expr Expr
  | Or Expr Expr
  | Xor Expr Expr
  | Not Expr
  | IsNull Expr
  | IsNotNull Expr
  | Arith Expr ArithOp Expr
  | Neg Expr
  | FunctionCall string "Expr list"
  | Star
  | List "Expr list"
  | InList Expr Expr
  | StartsWith Expr Expr
  | EndsWith Expr Expr
  | Contains Expr Expr
  | Regex Expr Expr
  | CaseSearched "(Expr \<times> Expr) list" "Expr option"
  | CaseSimple Expr "(Expr \<times> Expr) list" "Expr option"
  | ListComprehension string Expr "Expr option" "Expr option"
  | ListPredicate ListPredicateKind string Expr Expr
  | Subscript Expr Expr
  | ListSlice Expr "Expr option" "Expr option"
  | ShortestPath bool "Expr Pattern"
  | PatternComprehension "string option" "Expr Pattern" "Expr option" Expr
  | Exists "Expr Query" bool
  | HasLabel Expr "string list"
  | MapLiteral "(string \<times> Expr) list"

type_synonym query = "Expr Query"
type_synonym clause = "Expr QueryClause"

text \<open>\<open>Display\<close> of the operators.\<close>

definition cmp_op_text :: "CmpOp \<Rightarrow> string" where
  "cmp_op_text op =
    (case op of Eq \<Rightarrow> ''='' | Neq \<Rightarrow> ''<>'' | Lt \<Rightarrow> ''<'' | Gt \<Rightarrow> ''>'' | Le \<Rightarrow> ''<='' | Ge \<Rightarrow> ''>='')"

definition arith_op_text :: "ArithOp \<Rightarrow> string" where
  "arith_op_text op =
    (case op of Add \<Rightarrow> ''+'' | Sub \<Rightarrow> ''-'' | Mul \<Rightarrow> ''*'' | Div \<Rightarrow> ''/'' | Mod \<Rightarrow> ''%'' | Pow \<Rightarrow> ''^'')"

end
