(* ===== verification/CypherLexer.thy ===== *)
theory CypherLexer
  imports Prelude
begin

text \<open>
  The tokeniser of \<open>cypher/lexer.rs\<close>. A Rust string is the list of its UTF-8 bytes, one \<open>char\<close> per
  byte. The index \<open>pos\<close> of the source is carried as the rest of the input from \<open>pos\<close> on, so that
  \<open>pos = len - length rest\<close>; the loops that only move \<open>pos\<close> are \<open>takeWhile\<close> and \<open>dropWhile\<close>.
  A slice of the input that does not begin at a character boundary panics, which is the value
  \<open>LexPanic\<close>. An \<open>f64\<close> is its bit pattern; \<open>parse_f64\<close> is the correctly rounded conversion of the
  standard library.
\<close>

section \<open>Tokens\<close>

text \<open>The keywords of \<open>Token\<close>, then its punctuation, arrows and operators.\<close>

datatype (plugins only: code size) Keyword =
    MATCH | OPTIONAL_MATCH | WHERE | RETURN | AS | DISTINCT | ORDER_BY | LIMIT | SKIP | AND_KW | OR_KW
  | XOR_KW | NOT_KW | IN_KW | IS | NULL | TRUE | FALSE | CREATE | DELETE | DETACH | SET | MERGE | REMOVE
  | FOREACH | ON | CALL | YIELD | WITH | UNWIND | CASE | WHEN | THEN_KW | ELSE | END | SHOW | INDEX
  | INDEXES | DROP | CONSTRAINT | ASSERT | UNIQUE | CONSTRAINTS

datatype (plugins only: code size) Punct =
    LParen | RParen | LBracket | RBracket | LBrace | RBrace | Colon | Comma | Dot | Pipe | DotDot
  | Dash | LArrow | RArrow
  | EqSign | NeqSign | LtSign | GtSign | LeSign | GeSign | RegexMatch | Plus | PlusEq | StarSign | Slash
  | Percent | Caret

datatype Token =
    Kw Keyword
  | Ident string
  | StringTok string
  | IntTok i64
  | IntLitBig
  | FloatTok u64
  | ParameterTok string
  | Sym Punct
  | Eof

record SpannedToken =
  token :: Token
  st_offset :: nat

record LexError =
  le_message :: string
  le_offset :: nat

datatype lex_failure = LexErr LexError | LexPanic

section \<open>Characters\<close>

definition code :: "char \<Rightarrow> nat" where
  "code c = of_char c"

definition is_ascii_digit :: "char \<Rightarrow> bool" where
  "is_ascii_digit c \<longleftrightarrow> 48 \<le> code c \<and> code c \<le> 57"

definition is_upper :: "char \<Rightarrow> bool" where
  "is_upper c \<longleftrightarrow> 65 \<le> code c \<and> code c \<le> 90"

definition is_lower :: "char \<Rightarrow> bool" where
  "is_lower c \<longleftrightarrow> 97 \<le> code c \<and> code c \<le> 122"

definition is_ascii_alphabetic :: "char \<Rightarrow> bool" where
  "is_ascii_alphabetic c \<longleftrightarrow> is_upper c \<or> is_lower c"

definition is_ascii_alphanumeric :: "char \<Rightarrow> bool" where
  "is_ascii_alphanumeric c \<longleftrightarrow> is_ascii_alphabetic c \<or> is_ascii_digit c"

definition is_ascii_hexdigit :: "char \<Rightarrow> bool" where
  "is_ascii_hexdigit c \<longleftrightarrow> is_ascii_digit c \<or> (65 \<le> code c \<and> code c \<le> 70) \<or> (97 \<le> code c \<and> code c \<le> 102)"

definition is_ascii_whitespace :: "char \<Rightarrow> bool" where
  "is_ascii_whitespace c \<longleftrightarrow> c \<in> {CHR 0x20, CHR 0x09, CHR 0x0A, CHR 0x0C, CHR 0x0D}"

definition is_octdigit :: "char \<Rightarrow> bool" where
  "is_octdigit c \<longleftrightarrow> 48 \<le> code c \<and> code c \<le> 55"

definition is_word_char :: "char \<Rightarrow> bool" where
  "is_word_char c \<longleftrightarrow> is_ascii_alphanumeric c \<or> c = CHR ''_''"

definition to_upper :: "char \<Rightarrow> char" where
  "to_upper c = (if is_lower c then char_of (code c - 32) else c)"

definition to_lower :: "char \<Rightarrow> char" where
  "to_lower c = (if is_upper c then char_of (code c + 32) else c)"

abbreviation to_ascii_uppercase :: "string \<Rightarrow> string" where
  "to_ascii_uppercase \<equiv> map to_upper"

abbreviation to_ascii_lowercase :: "string \<Rightarrow> string" where
  "to_ascii_lowercase \<equiv> map to_lower"

definition eq_ignore_ascii_case :: "string \<Rightarrow> string \<Rightarrow> bool" where
  "eq_ignore_ascii_case a b \<longleftrightarrow> to_ascii_lowercase a = to_ascii_lowercase b"

text \<open>A continuation byte; the length of the character a leading byte announces.\<close>

definition is_cont_char :: "char \<Rightarrow> bool" where
  "is_cont_char c \<longleftrightarrow> 128 \<le> code c \<and> code c < 192"

definition char_len :: "char \<Rightarrow> nat" where
  "char_len c = (if code c < 128 then 1 else if code c < 224 then 2 else if code c < 240 then 3 else 4)"

text \<open>\<open>String::push\<close> of a code point below \<open>0x10000\<close>; \<open>b as char\<close> is the code point of the byte.\<close>

definition utf8_encode :: "nat \<Rightarrow> string" where
  "utf8_encode n =
    (if n < 128 then [char_of n]
     else if n < 2048 then [char_of (192 + n div 64), char_of (128 + n mod 64)]
     else [char_of (224 + n div 4096), char_of (128 + n div 64 mod 64), char_of (128 + n mod 64)])"

definition byte_as_char :: "char \<Rightarrow> string" where
  "byte_as_char c = utf8_encode (code c)"

definition char_from_u32 :: "nat \<Rightarrow> nat option" where
  "char_from_u32 n = (if 0xD800 \<le> n \<and> n \<le> 0xDFFF \<or> 0x110000 \<le> n then None else Some n)"

section \<open>Numbers\<close>

definition digit_value :: "char \<Rightarrow> nat" where
  "digit_value c =
    (if is_ascii_digit c then code c - 48 else if is_lower c then code c - 87 else code c - 55)"

definition radix_value :: "nat \<Rightarrow> string \<Rightarrow> nat" where
  "radix_value b s = foldl (\<lambda>n c. n * b + digit_value c) 0 s"

text \<open>The text of an unsigned integer, as \<open>Display\<close> writes it.\<close>

fun decimal :: "nat \<Rightarrow> string" where
  "decimal n = (if n < 10 then [char_of (48 + n)] else decimal (n div 10) @ [char_of (48 + n mod 10)])"

declare decimal.simps [simp del]

text \<open>
  \<open>u32::from_str_radix(s, 16)\<close> on the four bytes of an escape: a leading plus sign is accepted.
\<close>

definition from_str_radix_16 :: "string \<Rightarrow> nat option" where
  "from_str_radix_16 s =
    (let ds = (if s \<noteq> [] \<and> hd s = CHR ''+'' \<and> tl s \<noteq> [] then tl s else s) in
     if ds \<noteq> [] \<and> list_all is_ascii_hexdigit ds then Some (radix_value 16 ds) else None)"

text \<open>
  The nearest \<open>f64\<close> to \<open>p / q\<close>, ties to even: \<open>s\<close> is the significand for the exponent \<open>k\<close>, chosen so
  that a normal number has 53 bits and a subnormal one the least exponent. A carry out of the
  significand moves into the exponent bits by itself.
\<close>

fun bit_len :: "nat \<Rightarrow> nat" where
  "bit_len n = (if n = 0 then 0 else Suc (bit_len (n div 2)))"

declare bit_len.simps [simp del]

definition scale2 :: "nat \<Rightarrow> int \<Rightarrow> nat" where
  "scale2 n k = (if 0 \<le> k then n * 2 ^ nat k else n)"

definition round_div :: "nat \<Rightarrow> nat \<Rightarrow> nat" where
  "round_div p q =
    (let d = p div q; r = p mod q in
     if 2 * r < q \<or> (2 * r = q \<and> even d) then d else d + 1)"

definition F64_INFINITY :: nat where "F64_INFINITY = 0x7FF0000000000000"

definition f64_of_ratio :: "nat \<Rightarrow> nat \<Rightarrow> nat" where
  "f64_of_ratio p q =
    (if p = 0 then 0
     else
       let l = int (bit_len p) - int (bit_len q);
           e = (if scale2 q l \<le> scale2 p (- l) then l else l - 1);
           k = max (e - 52) (- 1074);
           s = round_div (scale2 p (- k)) (scale2 q k);
           bits = nat (k + 1074) * 2 ^ 52 + s
       in min bits F64_INFINITY)"

definition is_infinite_f64 :: "u64 \<Rightarrow> bool" where
  "is_infinite_f64 v \<longleftrightarrow> unat v = F64_INFINITY"

text \<open>
  \<open>str::parse::<f64>\<close> on the strings of digits, at most one dot, and at most one exponent that the
  lexer collects.
\<close>

definition parse_exponent :: "string \<Rightarrow> int option" where
  "parse_exponent s =
    (let neg = (s \<noteq> [] \<and> hd s = CHR ''-'');
         ds = (if s \<noteq> [] \<and> hd s \<in> {CHR ''+'', CHR ''-''} then tl s else s) in
     if ds \<noteq> [] \<and> list_all is_ascii_digit ds
     then Some (if neg then - int (radix_value 10 ds) else int (radix_value 10 ds))
     else None)"

definition parse_f64 :: "string \<Rightarrow> u64 option" where
  "parse_f64 s =
    (let ip = takeWhile is_ascii_digit s;
         r = dropWhile is_ascii_digit s;
         fp = (if r \<noteq> [] \<and> hd r = CHR ''.'' then takeWhile is_ascii_digit (tl r) else []);
         r = (if r \<noteq> [] \<and> hd r = CHR ''.'' then dropWhile is_ascii_digit (tl r) else r);
         ex = (if r = [] then Some 0
               else if hd r \<in> {CHR ''e'', CHR ''E''} then parse_exponent (tl r) else None) in
     if ip @ fp = [] then None
     else map_option (\<lambda>x.
       let m = radix_value 10 (ip @ fp); x = x - int (length fp) in
       of_nat (if 0 \<le> x then f64_of_ratio (m * 10 ^ nat x) 1 else f64_of_ratio m (10 ^ nat (- x)))) ex)"

text \<open>\<open>str::parse::<i64>\<close> on a non-empty string of digits.\<close>

definition parse_i64 :: "string \<Rightarrow> i64 option" where
  "parse_i64 s = (let v = radix_value 10 s in if v < 2 ^ 63 then Some (of_nat v) else None)"

section \<open>Messages\<close>

definition em_dash :: string where
  "em_dash = [CHR '' '', char_of (226 :: nat), char_of (128 :: nat), char_of (148 :: nat), CHR '' '']"

definition lex_error :: "string \<Rightarrow> nat \<Rightarrow> lex_failure" where
  "lex_error m off = LexErr \<lparr>le_message = m, le_offset = off\<rparr>"

definition unicode_error :: "string \<Rightarrow> nat \<Rightarrow> lex_failure" where
  "unicode_error m off = lex_error (''SyntaxError: InvalidUnicodeLiteral'' @ em_dash @ m) off"

definition overflow_error :: "nat \<Rightarrow> lex_failure" where
  "overflow_error off = lex_error
     (''SyntaxError: IntegerOverflow'' @ em_dash @ ''integer literal out of range for i64'') off"

section \<open>Quoted tokens\<close>

text \<open>The character after a backslash: the text it stands for, and how many bytes it takes.\<close>

definition unicode_escape :: "nat \<Rightarrow> string \<Rightarrow> lex_failure + string" where
  "unicode_escape start r =
    (if length r < 4
     then Inl (unicode_error (CHR 0x5C # ''u escape requires 4 hex digits'') start)
     else case from_str_radix_16 (take 4 r) of
       None \<Rightarrow> Inl (unicode_error (''invalid hex digits in '' @ CHR 0x5C # ''u escape'') start)
     | Some cp \<Rightarrow>
         (case char_from_u32 cp of
           None \<Rightarrow> Inl (unicode_error ''invalid Unicode codepoint'' start)
         | Some ch \<Rightarrow> Inr (utf8_encode ch)))"

definition lex_escape :: "bool \<Rightarrow> nat \<Rightarrow> char \<Rightarrow> string \<Rightarrow> lex_failure + (string \<times> nat)" where
  "lex_escape single start c r =
    (if c = CHR ''n'' then Inr ([CHR 0x0A], 1)
     else if c = CHR ''t'' then Inr ([CHR 0x09], 1)
     else if c = CHR ''r'' then Inr ([CHR 0x0D], 1)
     else if c = CHR 0x5C then Inr ([CHR 0x5C], 1)
     else if single \<and> c = CHR 0x27 then Inr ([CHR 0x27], 1)
     else if c = CHR 0x22 then Inr ([CHR 0x22], 1)
     else if c = CHR ''/'' then Inr (''/'', 1)
     else if c = CHR ''b'' then Inr ([CHR 0x08], 1)
     else if c = CHR ''f'' then Inr ([CHR 0x0C], 1)
     else if c = CHR ''u'' then bindE (unicode_escape start r) (\<lambda>s. Inr (s, 5))
     else Inr (CHR 0x5C # byte_as_char c, 1))"

lemma lex_escape_pos: "lex_escape single start c r = Inr (s, n) \<Longrightarrow> 0 < n"
  by (auto simp: lex_escape_def bindE_def split: if_splits sum.splits)

lemma char_len_pos [simp]: "0 < char_len c"
  by (simp add: char_len_def)

text \<open>\<open>input[pos..].chars().next().unwrap()\<close>: the character and what follows it.\<close>

definition next_char :: "char \<Rightarrow> string \<Rightarrow> lex_failure + (string \<times> string)" where
  "next_char c r =
    (if is_cont_char c then Inl LexPanic
     else Inr (take (char_len c) (c # r), drop (char_len c) (c # r)))"

lemma next_char_shrinks: "next_char c r = Inr (ch, r') \<Longrightarrow> length r' < Suc (length r)"
  using char_len_pos [of c] by (auto simp: next_char_def split: if_splits)

text \<open>
  The bodies of a literal. An end of the input closes the literal like a quote. In single quotes a
  doubled quote is one quote.
\<close>

function single_quoted :: "nat \<Rightarrow> string \<Rightarrow> string \<Rightarrow> lex_failure + (string \<times> string)" where
  "single_quoted start [] s = Inr (s, [])"
| "single_quoted start (c # r) s =
     (if c = CHR 0x27 then
        (if r \<noteq> [] \<and> hd r = CHR 0x27 then single_quoted start (tl r) (s @ [CHR 0x27]) else Inr (s, r))
      else if c = CHR 0x5C \<and> r \<noteq> [] then
        (case lex_escape True start (hd r) (tl r) of
          Inl e \<Rightarrow> Inl e
        | Inr (t, n) \<Rightarrow> single_quoted start (drop n r) (s @ t))
      else
        (case next_char c r of
          Inl e \<Rightarrow> Inl e
        | Inr (ch, r') \<Rightarrow> single_quoted start r' (s @ ch)))"
  by pat_completeness auto
termination
  by (relation "measure (\<lambda>(_, r, _). length r)") (auto dest: lex_escape_pos next_char_shrinks)

function double_quoted :: "nat \<Rightarrow> string \<Rightarrow> string \<Rightarrow> lex_failure + (string \<times> string)" where
  "double_quoted start [] s = Inr (s, [])"
| "double_quoted start (c # r) s =
     (if c = CHR 0x22 then Inr (s, r)
      else if c = CHR 0x5C \<and> r \<noteq> [] then
        (case lex_escape False start (hd r) (tl r) of
          Inl e \<Rightarrow> Inl e
        | Inr (t, n) \<Rightarrow> double_quoted start (drop n r) (s @ t))
      else
        (case next_char c r of
          Inl e \<Rightarrow> Inl e
        | Inr (ch, r') \<Rightarrow> double_quoted start r' (s @ ch)))"
  by pat_completeness auto
termination
  by (relation "measure (\<lambda>(_, r, _). length r)") (auto dest: lex_escape_pos next_char_shrinks)

function backtick_quoted :: "string \<Rightarrow> string \<Rightarrow> lex_failure + (string \<times> string)" where
  "backtick_quoted [] s = Inr (s, [])"
| "backtick_quoted (c # r) s =
     (if c = CHR 0x60 then Inr (s, r)
      else
        (case next_char c r of
          Inl e \<Rightarrow> Inl e
        | Inr (ch, r') \<Rightarrow> backtick_quoted r' (s @ ch)))"
  by pat_completeness auto
termination
  by (relation "measure (\<lambda>(r, _). length r)") (auto dest: next_char_shrinks)

section \<open>Number tokens\<close>

text \<open>A literal with a radix prefix: at most \<open>2 ^ 63\<close>, and that one only for a later unary minus.\<close>

definition radix_token :: "nat \<Rightarrow> string \<Rightarrow> nat \<Rightarrow> string \<Rightarrow> string \<Rightarrow> lex_failure + (Token \<times> string)" where
  "radix_token b incomplete start ds rest =
    (if ds = [] then Inl (lex_error incomplete start)
     else let v = radix_value b ds in
       if 2 ^ 64 \<le> v then Inl (overflow_error start)
       else if v > 2 ^ 63 then Inl (overflow_error start)
       else if v = 2 ^ 63 then Inr (IntLitBig, rest)
       else Inr (IntTok (of_nat v), rest))"

text \<open>The text of a decimal number, whether it has a dot or an exponent, and what follows it.\<close>

function num_chars :: "bool \<Rightarrow> bool \<Rightarrow> string \<Rightarrow> string \<Rightarrow> string \<times> bool \<times> string" where
  "num_chars has_dot has_e [] num = (num, has_dot, [])"
| "num_chars has_dot has_e (c # r) num =
     (if is_ascii_digit c then num_chars has_dot has_e r (num @ [c])
      else if c = CHR ''.'' \<and> \<not> has_dot \<and> \<not> has_e then
        (if r \<noteq> [] \<and> hd r = CHR ''.'' then (num, has_dot, c # r)
         else num_chars True has_e r (num @ ''.''))
      else if c \<in> {CHR ''e'', CHR ''E''} \<and> \<not> has_e then
        (if r \<noteq> [] \<and> hd r \<in> {CHR ''+'', CHR ''-''}
         then num_chars True True (tl r) (num @ [CHR ''e'', hd r])
         else num_chars True True r (num @ ''e''))
      else (num, has_dot, c # r))"
  by pat_completeness auto
termination
  by (relation "measure (\<lambda>(_, _, r, _). length r)") auto

definition number_token :: "nat \<Rightarrow> string \<Rightarrow> bool \<Rightarrow> lex_failure + Token" where
  "number_token start num has_dot =
    (if has_dot then
       (case parse_f64 num of
         None \<Rightarrow> Inl (lex_error (''invalid float literal: '' @ num) start)
       | Some v \<Rightarrow>
           if is_infinite_f64 v
           then Inl (lex_error (''SyntaxError: FloatingPointOverflow'' @ em_dash
                       @ ''float literal out of range'') start)
           else Inr (FloatTok v))
     else
       (case parse_i64 num of
         Some v \<Rightarrow> Inr (IntTok v)
       | None \<Rightarrow> if num = ''9223372036854775808'' then Inr IntLitBig else Inl (overflow_error start)))"

definition lex_number :: "nat \<Rightarrow> string \<Rightarrow> lex_failure + (Token \<times> string)" where
  "lex_number start rest =
    (let c = hd rest; r = tl rest in
     if c = CHR ''0'' \<and> r \<noteq> [] \<and> hd r \<in> {CHR ''x'', CHR ''X''} then
       radix_token 16 ''incomplete hexadecimal integer'' start
         (takeWhile is_ascii_hexdigit (tl r)) (dropWhile is_ascii_hexdigit (tl r))
     else if c = CHR ''0'' \<and> r \<noteq> [] \<and> hd r \<in> {CHR ''o'', CHR ''O''} then
       radix_token 8 ''incomplete octal integer'' start
         (takeWhile is_octdigit (tl r)) (dropWhile is_octdigit (tl r))
     else
       (case num_chars False False rest [] of
         (num, has_dot, rest') \<Rightarrow> bindE (number_token start num has_dot) (\<lambda>t. Inr (t, rest'))))"

section \<open>Words\<close>

definition keyword_table :: "(string \<times> Keyword) list" where
  "keyword_table =
    [(''MATCH'', MATCH), (''WHERE'', WHERE), (''RETURN'', RETURN), (''AS'', AS), (''DISTINCT'', DISTINCT),
     (''LIMIT'', LIMIT), (''SKIP'', SKIP), (''AND'', AND_KW), (''OR'', OR_KW), (''XOR'', XOR_KW),
     (''NOT'', NOT_KW), (''IN'', IN_KW), (''IS'', IS), (''NULL'', NULL), (''TRUE'', TRUE), (''FALSE'', FALSE),
     (''CREATE'', CREATE), (''DELETE'', DELETE), (''DETACH'', DETACH), (''SET'', SET), (''MERGE'', MERGE),
     (''REMOVE'', REMOVE), (''FOREACH'', FOREACH), (''ON'', ON), (''CALL'', CALL), (''YIELD'', YIELD),
     (''WITH'', WITH), (''UNWIND'', UNWIND), (''CASE'', CASE), (''WHEN'', WHEN), (''THEN'', THEN_KW),
     (''ELSE'', ELSE), (''END'', END), (''SHOW'', SHOW), (''INDEX'', INDEX), (''INDEXES'', INDEXES),
     (''DROP'', DROP), (''CONSTRAINT'', CONSTRAINT), (''ASSERT'', ASSERT), (''UNIQUE'', UNIQUE),
     (''CONSTRAINTS'', CONSTRAINTS)]"

text \<open>The second word of a two-word keyword: if it does not follow, the first word is an identifier.\<close>

definition two_words :: "string \<Rightarrow> Keyword \<Rightarrow> string \<Rightarrow> string \<Rightarrow> Token \<times> string" where
  "two_words second kw word r =
    (let r' = dropWhile is_ascii_whitespace r in
     if eq_ignore_ascii_case (takeWhile is_ascii_alphabetic r') second
     then (Kw kw, dropWhile is_ascii_alphabetic r')
     else (Ident word, r))"

definition word_token :: "string \<Rightarrow> string \<Rightarrow> Token \<times> string" where
  "word_token word r =
    (let upper = to_ascii_uppercase word in
     if upper = ''OPTIONAL'' then two_words ''MATCH'' OPTIONAL_MATCH word r
     else if upper = ''ORDER'' then two_words ''BY'' ORDER_BY word r
     else case map_of keyword_table upper of
       Some kw \<Rightarrow> (Kw kw, r)
     | None \<Rightarrow> (Ident word, r))"

section \<open>Operators and punctuation\<close>

definition starts_with :: "string \<Rightarrow> string \<Rightarrow> bool" where
  "starts_with p s \<longleftrightarrow> take (length p) s = p"

definition punctuation :: "(string \<times> Punct) list" where
  "punctuation =
    [(''('', LParen), ('')'', RParen), (''['', LBracket), ('']'', RBracket), (''{'', LBrace), (''}'', RBrace),
     ('':'', Colon), ('','', Comma), (''|'', Pipe), (''+='', PlusEq), (''+'', Plus), (''*'', StarSign),
     (''%'', Percent), (''^'', Caret), (''-'', Dash), (''/'', Slash), (''..'', DotDot), (''.'', Dot),
     (''=~'', RegexMatch), (''='', EqSign), (''<>'', NeqSign), (''<='', LeSign), (''<'', LArrow),
     (''>='', GeSign), (''>'', RArrow)]"

fun first_prefix :: "(string \<times> Punct) list \<Rightarrow> string \<Rightarrow> (Punct \<times> string) option" where
  "first_prefix [] s = None"
| "first_prefix ((p, t) # ps) s =
     (if starts_with p s then Some (t, drop (length p) s) else first_prefix ps s)"

section \<open>The tokeniser\<close>

text \<open>After \<open>/*\<close>: what follows the first \<open>*/\<close>.\<close>

fun skip_block_comment :: "string \<Rightarrow> string option" where
  "skip_block_comment (a # b # r) =
     (if a = CHR ''*'' \<and> b = CHR ''/'' then Some r else skip_block_comment (b # r))"
| "skip_block_comment _ = None"

definition quoted_token :: "(string \<Rightarrow> Token) \<Rightarrow> lex_failure + (string \<times> string) \<Rightarrow> lex_failure + (Token option \<times> string)"
  where
  "quoted_token tok r = bindE r (\<lambda>(s, rest). Inr (Some (tok s), rest))"

text \<open>
  One turn of the main loop on a non-empty rest: whitespace and comments give no token.
\<close>

definition lex_step :: "nat \<Rightarrow> string \<Rightarrow> lex_failure + (Token option \<times> string)" where
  "lex_step len rest =
    (let start = len - length rest; c = hd rest; r = tl rest in
     if is_ascii_whitespace c then Inr (None, r)
     else if starts_with ''//'' rest then Inr (None, dropWhile (\<lambda>c. c \<noteq> CHR 0x0A) rest)
     else if starts_with ''/*'' rest then
       (case skip_block_comment (drop 2 rest) of
         None \<Rightarrow> Inl (lex_error ''unterminated block comment'' start)
       | Some r' \<Rightarrow> Inr (None, r'))
     else if c = CHR 0x27 then quoted_token StringTok (single_quoted start r [])
     else if c = CHR 0x22 then quoted_token StringTok (double_quoted start r [])
     else if c = CHR 0x60 then quoted_token Ident (backtick_quoted r [])
     else if is_ascii_digit c \<or> c = CHR ''.'' \<and> r \<noteq> [] \<and> is_ascii_digit (hd r) then
       bindE (lex_number start rest) (\<lambda>(t, r'). Inr (Some t, r'))
     else if c = CHR ''$'' then
       Inr (Some (ParameterTok (takeWhile is_word_char r)), dropWhile is_word_char r)
     else if is_ascii_alphabetic c \<or> c = CHR ''_'' then
       (case word_token (takeWhile is_word_char rest) (dropWhile is_word_char rest) of
         (t, r') \<Rightarrow> Inr (Some t, r'))
     else
       (case first_prefix punctuation rest of
         Some (p, r') \<Rightarrow> Inr (Some (Sym p), r')
       | None \<Rightarrow> Inl (lex_error (''unexpected character: '' @ [CHR 0x27] @ byte_as_char c @ [CHR 0x27]) start)))"

text \<open>Every turn consumes at least one byte, so the loop ends.\<close>

lemma length_dropWhile [simp, intro]: "length (dropWhile P xs) \<le> length xs"
  by (induction xs) auto

lemma single_quoted_shrinks: "single_quoted start r s = Inr (t, r') \<Longrightarrow> length r' \<le> length r"
proof (induction start r s rule: single_quoted.induct)
  case (2 start c r s)
  then show ?case
    by (cases r) (fastforce split: if_splits sum.splits dest: next_char_shrinks)+
qed simp

lemma double_quoted_shrinks: "double_quoted start r s = Inr (t, r') \<Longrightarrow> length r' \<le> length r"
proof (induction start r s rule: double_quoted.induct)
  case (2 start c r s)
  then show ?case
    by (cases r) (fastforce split: if_splits sum.splits dest: next_char_shrinks)+
qed simp

lemma backtick_quoted_shrinks: "backtick_quoted r s = Inr (t, r') \<Longrightarrow> length r' \<le> length r"
proof (induction r s rule: backtick_quoted.induct)
  case (2 c r s)
  then show ?case
    by (fastforce split: if_splits sum.splits dest: next_char_shrinks)
qed simp

lemma num_chars_shrinks: "num_chars d e r num = (num', d', r') \<Longrightarrow> length r' \<le> length r"
proof (induction d e r num rule: num_chars.induct)
  case (2 d e c r num)
  then show ?case by (cases r) (auto split: if_splits)
qed simp

lemma radix_token_shrinks:
  "radix_token b m start ds rest = Inr (t, r') \<Longrightarrow> r' = rest \<and> ds \<noteq> []"
  by (auto simp: radix_token_def Let_def split: if_splits)

lemma length_tl_less: "r \<noteq> [] \<Longrightarrow> length xs \<le> length (tl r) \<Longrightarrow> length xs < length r"
  by (cases r) auto

lemma lex_number_shrinks:
  assumes "rest \<noteq> []" and "is_ascii_digit (hd rest) \<or> hd rest = CHR ''.'' \<and> tl rest \<noteq> [] \<and> is_ascii_digit (hd (tl rest))"
    and "lex_number start rest = Inr (t, r')"
  shows "length r' < length rest"
proof -
  obtain c r where rest: "rest = c # r" using assms(1) by (cases rest) auto
  have dot: "\<not> is_ascii_digit CHR ''.''" by (simp add: is_ascii_digit_def code_def)
  have dd: "is_ascii_digit (hd r) \<Longrightarrow> hd r \<noteq> CHR ''.''" using dot by metis
  have "length r' \<le> length r" if "num_chars False False (c # r) [] = (num, d, r')" for num d
    using that assms(2) rest dot dd by (auto split: if_splits dest: num_chars_shrinks)
  moreover have "length (dropWhile P (tl r)) \<le> length r" for P
    by (cases r) (auto intro: le_trans [OF length_dropWhile])
  ultimately show ?thesis
    using assms(3) rest
    by (auto simp: lex_number_def Let_def bindE_eq_Inr le_imp_less_Suc split: if_splits prod.splits
             dest!: radix_token_shrinks)
qed

lemma two_words_shrinks: "two_words second kw word r = (t, r') \<Longrightarrow> length r' \<le> length r"
  using le_trans [OF length_dropWhile length_dropWhile, of is_ascii_alphabetic is_ascii_whitespace r]
  by (auto simp: two_words_def Let_def split: if_splits)

lemma word_token_shrinks: "word_token word r = (t, r') \<Longrightarrow> length r' \<le> length r"
  by (auto simp: word_token_def Let_def split: if_splits option.splits dest: two_words_shrinks)

lemma first_prefix_shrinks:
  "first_prefix ps s = Some (t, r') \<Longrightarrow> \<forall>(p, _) \<in> set ps. p \<noteq> [] \<Longrightarrow> s \<noteq> [] \<Longrightarrow> length r' < length s"
  by (induction ps s rule: first_prefix.induct) (auto split: if_splits)

lemma skip_block_comment_shrinks: "skip_block_comment s = Some r \<Longrightarrow> length r \<le> length s"
  by (induction s rule: skip_block_comment.induct) (auto split: if_splits)

lemma lex_step_shrinks:
  assumes "lex_step len (c # r) = Inr (t, r')"
  shows "length r' \<le> length r"
proof -
  let ?rest = "c # r"
  have num: "length r' \<le> length r"
    if "is_ascii_digit c \<or> c = CHR ''.'' \<and> r \<noteq> [] \<and> is_ascii_digit (hd r)"
      "lex_number (len - Suc (length r)) ?rest = Inr (t, r')" for t
    using lex_number_shrinks [of ?rest "len - Suc (length r)" t r'] that by simp
  have word: "length r' \<le> length r"
    if "is_ascii_alphabetic c \<or> c = CHR ''_''"
      "word_token (takeWhile is_word_char ?rest) (dropWhile is_word_char ?rest) = (t, r')" for t
    using that word_token_shrinks [OF that(2)]
    by (auto simp: is_word_char_def is_ascii_alphanumeric_def intro: le_trans [OF _ length_dropWhile])
  have sym: "length r' \<le> length r" if "first_prefix punctuation ?rest = Some (t, r')" for t
    using first_prefix_shrinks [OF that] by (simp add: punctuation_def)
  have com: "length r' \<le> length r"
    if "starts_with ''/*'' ?rest" "skip_block_comment (drop 2 ?rest) = Some r'"
    using skip_block_comment_shrinks [OF that(2)] by simp
  have line: "length (dropWhile (\<lambda>c. c \<noteq> CHR 0x0A) ?rest) \<le> length r" if "starts_with ''//'' ?rest"
    using that by (auto simp: starts_with_def)
  show ?thesis
    using assms num word sym com line unfolding lex_step_def Let_def quoted_token_def
    by (auto simp: bindE_eq_Inr dest: single_quoted_shrinks double_quoted_shrinks backtick_quoted_shrinks
             split: if_splits option.splits prod.splits)
qed

function lex_loop :: "nat \<Rightarrow> string \<Rightarrow> SpannedToken list \<Rightarrow> lex_failure + SpannedToken list" where
  "lex_loop len [] toks = Inr (toks @ [\<lparr>token = Eof, st_offset = len\<rparr>])"
| "lex_loop len (c # r) toks =
     (case lex_step len (c # r) of
       Inl e \<Rightarrow> Inl e
     | Inr (None, r') \<Rightarrow> lex_loop len r' toks
     | Inr (Some t, r') \<Rightarrow>
         lex_loop len r' (toks @ [\<lparr>token = t, st_offset = len - length (c # r)\<rparr>]))"
  by pat_completeness auto
termination
  by (relation "measure (\<lambda>(_, r, _). length r)") (auto dest: lex_step_shrinks)

definition lex :: "string \<Rightarrow> lex_failure + SpannedToken list" where
  "lex input = lex_loop (length input) input []"

end
