(* ===== verification/CypherParser.thy ===== *)
theory CypherParser
  imports CypherAst CypherLexer
begin

text \<open>
  The recursive-descent parser of \<open>cypher/parser.rs\<close>. A method of \<open>Parser\<close> is a function from the
  parser state to an error or a value and the next state; \<open>None\<close> is the value of a run that is out of
  fuel. Loops and the methods that call themselves take a bound \<open>n\<close>; the methods that reach
  \<open>parse_expr\<close> or \<open>parse_query\<close> again take these two as arguments \<open>pe\<close> and \<open>pq\<close>, and the last section
  ties the knot. \<open>CypherTotal\<close> shows that as much fuel as there are tokens is always enough.
\<close>

section \<open>Parser state and results\<close>

record Parser =
  tokens :: "SpannedToken list"
  pos :: nat
  source :: string

text \<open>The messages of the source: a constructor per format string, with its arguments.\<close>

datatype parse_msg =
    ExpectedGot Token Token
  | ExpectedIdentifier Token
  | ExpectedAs Token
  | ExpectedCreateOrMatch Token
  | ExpectedForeachVariable Token
  | ExpectedNestedVariable Token
  | ExpectedSetOperator Token
  | ExpectedRemoveOperator Token
  | UnexpectedInForeach Token
  | UnexpectedInQuery Token
  | UnexpectedAfterReturn Token
  | UnexpectedInExpression Token
  | Message string

record ParseError =
  pe_message :: parse_msg
  pe_offset :: nat

type_synonym 'a parser = "Parser \<Rightarrow> (ParseError + 'a \<times> Parser) option"

definition ret :: "'a \<Rightarrow> 'a parser" where
  "ret a p = Some (Inr (a, p))"

definition bindP :: "'a parser \<Rightarrow> ('a \<Rightarrow> 'b parser) \<Rightarrow> 'b parser" where
  "bindP f g p =
    (case f p of
      None \<Rightarrow> None
    | Some (Inl e) \<Rightarrow> Some (Inl e)
    | Some (Inr (a, p')) \<Rightarrow> g a p')"

definition thenP :: "'a parser \<Rightarrow> 'b parser \<Rightarrow> 'b parser" where
  "thenP f g p = (bindP f (\<lambda>_. g)) p"

definition peek :: "Parser \<Rightarrow> Token" where
  "peek p = token (tokens p ! pos p)"

definition offset :: "Parser \<Rightarrow> nat" where
  "offset p = st_offset (tokens p ! pos p)"

definition fail_at :: "parse_msg \<Rightarrow> nat \<Rightarrow> 'a parser" where
  "fail_at m off p = Some (Inl \<lparr>pe_message = m, pe_offset = off\<rparr>)"

definition failP :: "(Token \<Rightarrow> parse_msg) \<Rightarrow> 'a parser" where
  "failP m p = fail_at (m (peek p)) (offset p) p"

definition advance :: "unit parser" where
  "advance p = ret () (if pos p + 1 < length (tokens p) then p\<lparr>pos := pos p + 1\<rparr> else p)"

definition expect :: "Token \<Rightarrow> unit parser" where
  "expect t p = (if peek p = t then advance p else failP (ExpectedGot t) p)"

definition peek_at :: "Parser \<Rightarrow> nat \<Rightarrow> Token" where
  "peek_at p k = token (tokens p ! min (pos p + k) (length (tokens p) - 1))"

definition is_ident :: "Token \<Rightarrow> bool" where
  "is_ident t \<longleftrightarrow> (case t of Ident _ \<Rightarrow> True | _ \<Rightarrow> False)"

text \<open>The token \<open>t\<close> decides: after it goes \<open>f\<close>, else \<open>g\<close>. \<open>branch\<close> decides on the state.\<close>

definition branch :: "(Parser \<Rightarrow> bool) \<Rightarrow> 'a parser \<Rightarrow> 'a parser \<Rightarrow> 'a parser" where
  "branch c f g p = (if c p then f p else g p)"

definition opt :: "Token \<Rightarrow> 'a parser \<Rightarrow> 'a parser \<Rightarrow> 'a parser" where
  "opt t f g p = (branch (\<lambda>p. peek p = t) (thenP advance f) g) p"

text \<open>\<open>while *self.peek() == Token::Comma { self.advance(); acc.push(f()?) }\<close>\<close>

fun comma_tail :: "nat \<Rightarrow> 'a parser \<Rightarrow> 'a list \<Rightarrow> 'a list parser" where
  "comma_tail 0 f acc p = None"
| "comma_tail (Suc n) f acc p =
     (opt (Sym Comma) (bindP f (\<lambda>x. comma_tail n f (acc @ [x]))) (ret acc)) p"

definition comma_list :: "nat \<Rightarrow> 'a parser \<Rightarrow> 'a list parser" where
  "comma_list n f p = (bindP f (\<lambda>x. comma_tail n f [x])) p"

definition comma_list_until :: "nat \<Rightarrow> Token \<Rightarrow> 'a parser \<Rightarrow> 'a list parser" where
  "comma_list_until n close f p = (branch (\<lambda>p. peek p \<noteq> close) (comma_list n f) (ret [])) p"

definition optional :: "Token \<Rightarrow> 'a parser \<Rightarrow> 'a option parser" where
  "optional t f p = (opt t (bindP f (\<lambda>x. ret (Some x))) (ret None)) p"

section \<open>Identifiers\<close>

definition eat_ident :: "string parser" where
  "eat_ident p =
    (case peek p of
      Ident name \<Rightarrow> thenP advance (ret name) p
    | _ \<Rightarrow> failP ExpectedIdentifier p)"

definition flexible :: "(Keyword \<times> string) list" where
  "flexible =
    [(END, ''end''), (YIELD, ''yield''), (CALL, ''call''), (ON, ''on''), (REMOVE, ''remove''),
     (MERGE, ''merge''), (NULL, ''null''), (TRUE, ''true''), (FALSE, ''false''), (NOT_KW, ''not''),
     (AND_KW, ''and''), (OR_KW, ''or''), (XOR_KW, ''xor''), (IN_KW, ''in''), (IS, ''is''), (AS, ''as''),
     (WITH, ''with''), (RETURN, ''return''), (MATCH, ''match''), (WHERE, ''where''), (CREATE, ''create''),
     (DELETE, ''delete''), (DETACH, ''detach''), (SET, ''set''), (DISTINCT, ''distinct''),
     (SKIP, ''skip''), (LIMIT, ''limit''), (UNWIND, ''unwind''), (CASE, ''case''), (WHEN, ''when''),
     (THEN_KW, ''then''), (ELSE, ''else''), (SHOW, ''show''), (INDEX, ''index''), (INDEXES, ''indexes''),
     (DROP, ''drop''), (CONSTRAINT, ''constraint''), (ASSERT, ''assert''), (UNIQUE, ''unique''),
     (CONSTRAINTS, ''constraints'')]"

definition eat_ident_flexible :: "string parser" where
  "eat_ident_flexible p =
    (case peek p of
      Ident name \<Rightarrow> thenP advance (ret name) p
    | Kw k \<Rightarrow>
        (case map_of flexible k of
          Some name \<Rightarrow> thenP advance (ret name) p
        | None \<Rightarrow> failP ExpectedIdentifier p)
    | _ \<Rightarrow> failP ExpectedIdentifier p)"

text \<open>
  A key keeps the case of the source text. The source is read at the offset of a token that is no
  identifier: a keyword is followed by an ASCII byte there, and any other token begins with an ASCII
  byte that is no letter, so the classes of ASCII characters are those of Unicode here.
\<close>

definition eat_map_key :: "string parser" where
  "eat_map_key p =
    (case peek p of
      Ident name \<Rightarrow> thenP advance (ret name) p
    | _ \<Rightarrow>
        (let original = takeWhile is_word_char (drop (offset p) (source p)) in
         if original \<noteq> [] \<and> (is_ascii_alphabetic (hd original) \<or> hd original = CHR ''_'')
         then thenP advance (ret original) p
         else eat_ident_flexible p))"

text \<open>\<open>while *self.peek() == Token::Colon { self.advance(); labels.push(eat_ident_flexible()?) }\<close>\<close>

fun colon_labels :: "nat \<Rightarrow> string list \<Rightarrow> string list parser" where
  "colon_labels 0 labels p = None"
| "colon_labels (Suc n) labels p =
     (opt (Sym Colon) (bindP eat_ident_flexible (\<lambda>l. colon_labels n (labels @ [l]))) (ret labels)) p"

section \<open>Patterns\<close>

text \<open>The lookahead of a pattern predicate; \<open>None\<close> again stands for a loop out of fuel.\<close>

fun skip_labels :: "nat \<Rightarrow> Parser \<Rightarrow> nat \<Rightarrow> nat option" where
  "skip_labels 0 p off = None"
| "skip_labels (Suc n) p off =
     (if peek_at p off = Sym Colon
      then skip_labels n p (if is_ident (peek_at p (off + 1)) then off + 2 else off + 1)
      else Some off)"

text \<open>\<open>Some None\<close> is the \<open>return false\<close> at the end of the input.\<close>

fun skip_braces :: "nat \<Rightarrow> Parser \<Rightarrow> nat \<Rightarrow> nat \<Rightarrow> nat option option" where
  "skip_braces 0 p depth off = None"
| "skip_braces (Suc n) p depth off =
     (if depth = 0 then Some (Some off)
      else if peek_at p off = Sym LBrace then skip_braces n p (depth + 1) (off + 1)
      else if peek_at p off = Sym RBrace then skip_braces n p (depth - 1) (off + 1)
      else if peek_at p off = Eof then Some None
      else skip_braces n p depth (off + 1))"

definition ends_node_pattern :: "Parser \<Rightarrow> nat \<Rightarrow> bool" where
  "ends_node_pattern p off \<longleftrightarrow>
    peek_at p off = Sym RParen \<and> peek_at p (off + 1) \<in> {Sym Dash, Sym LArrow}"

definition looks_like_pattern_predicate :: "nat \<Rightarrow> bool parser" where
  "looks_like_pattern_predicate n p =
    (let off = (if is_ident (peek_at p 1) then 2 else 1) in
     case skip_labels n p off of
       None \<Rightarrow> None
     | Some off \<Rightarrow>
         if peek_at p off = Sym LBrace then
           (case skip_braces n p 1 (off + 1) of
             None \<Rightarrow> None
           | Some None \<Rightarrow> ret False p
           | Some (Some off) \<Rightarrow> ret (ends_node_pattern p off) p)
         else ret (ends_node_pattern p off) p)"

definition property_entry :: "Expr parser \<Rightarrow> (string \<times> Expr) parser" where
  "property_entry pe p =
     (bindP eat_map_key (\<lambda>key. thenP (expect (Sym Colon)) (bindP pe (\<lambda>val. ret (key, val))))) p"

definition parse_property_map :: "nat \<Rightarrow> Expr parser \<Rightarrow> (string \<times> Expr) list parser" where
  "parse_property_map n pe p =
     (thenP (expect (Sym LBrace))
       (bindP (comma_list_until n (Sym RBrace) (property_entry pe))
         (\<lambda>props. thenP (expect (Sym RBrace)) (ret props)))) p"

definition optional_variable :: "string option parser" where
  "optional_variable p =
     (branch (\<lambda>p. is_ident (peek p)) (bindP eat_ident (\<lambda>v. ret (Some v))) (ret None)) p"

definition parse_node_pattern :: "nat \<Rightarrow> Expr parser \<Rightarrow> Expr NodePattern parser" where
  "parse_node_pattern n pe p =
     (thenP (expect (Sym LParen))
       (bindP optional_variable (\<lambda>variable.
        bindP (colon_labels n []) (\<lambda>labels.
        bindP (branch (\<lambda>p. peek p = Sym LBrace)
                (bindP (parse_property_map n pe) (\<lambda>ps. ret (ps, True))) (ret ([], False)))
          (\<lambda>(properties, has_map).
        thenP (expect (Sym RParen)) (ret (NodePattern variable labels properties has_map))))))) p"

text \<open>\<open>|TYPE\<close> or \<open>|:TYPE\<close>\<close>

fun more_types :: "nat \<Rightarrow> string list \<Rightarrow> string list parser" where
  "more_types 0 types p = None"
| "more_types (Suc n) types p =
     (opt (Sym Pipe)
       (thenP (opt (Sym Colon) (ret ()) (ret ()))
         (bindP eat_ident_flexible (\<lambda>t. more_types n (types @ [t]))))
       (ret types)) p"

definition parse_rel_types :: "nat \<Rightarrow> string list parser" where
  "parse_rel_types n p =
     (opt (Sym Colon) (bindP eat_ident_flexible (\<lambda>t. more_types n [t])) (ret [])) p"

text \<open>\<open>if let Token::IntLit(n) = self.peek() { let n = *n as u32; .. }\<close>: the cast drops the high bits.\<close>

definition int_bound :: "u32 option parser" where
  "int_bound p =
    (case peek p of
      IntTok v \<Rightarrow> thenP advance (ret (Some (ucast v))) p
    | _ \<Rightarrow> ret None p)"

definition parse_var_length :: "VarLength option parser" where
  "parse_var_length p =
     (opt (Sym StarSign)
       (bindP int_bound (\<lambda>lo.
          let min = (case lo of Some v \<Rightarrow> v | None \<Rightarrow> 1) in
          bindP (opt (Sym DotDot) int_bound (ret lo)) (\<lambda>max. ret (Some (VarLength min max)))))
       (ret None)) p"

definition parse_rel_detail ::
    "nat \<Rightarrow> Expr parser \<Rightarrow> (string option \<times> string list \<times> (string \<times> Expr) list \<times> VarLength option) parser" where
  "parse_rel_detail n pe p =
     (opt (Sym LBracket)
       (bindP optional_variable (\<lambda>variable.
        bindP (parse_rel_types n) (\<lambda>types.
        bindP parse_var_length (\<lambda>length.
        bindP (branch (\<lambda>p. peek p = Sym LBrace) (parse_property_map n pe) (ret [])) (\<lambda>properties.
        thenP (expect (Sym RBracket)) (ret (variable, types, properties, length)))))))
       (ret (None, [], [], None))) p"

definition rel_direction :: "bool \<Rightarrow> bool \<Rightarrow> RelDirection" where
  "rel_direction left_arrow right_arrow =
    (if \<not> left_arrow \<and> right_arrow then Out else if left_arrow \<and> \<not> right_arrow then In else Both)"

definition parse_rel_and_node ::
    "nat \<Rightarrow> Expr parser \<Rightarrow> (Expr RelPattern \<times> Expr NodePattern) parser" where
  "parse_rel_and_node n pe p =
     (bindP (opt (Sym LArrow) (thenP (expect (Sym Dash)) (ret True)) (thenP (expect (Sym Dash)) (ret False)))
       (\<lambda>left_arrow.
     bindP (parse_rel_detail n pe) (\<lambda>(variable, types, properties, length).
     thenP (expect (Sym Dash))
       (bindP (opt (Sym RArrow) (ret True) (ret False)) (\<lambda>right_arrow.
        bindP (parse_node_pattern n pe) (\<lambda>node.
          ret (RelPattern variable types (rel_direction left_arrow right_arrow) properties length, node))))))) p"

fun pattern_elements ::
    "nat \<Rightarrow> nat \<Rightarrow> Expr parser \<Rightarrow> Expr PatternElement list \<Rightarrow> Expr PatternElement list parser" where
  "pattern_elements 0 n pe acc p = None"
| "pattern_elements (Suc k) n pe acc p =
     (branch (\<lambda>p. peek p \<in> {Sym Dash, Sym LArrow})
       (bindP (parse_rel_and_node n pe) (\<lambda>(rel, node).
          pattern_elements k n pe (acc @ [Relationship rel, Node node])))
       (ret acc)) p"

definition parse_pattern :: "nat \<Rightarrow> Expr parser \<Rightarrow> Expr Pattern parser" where
  "parse_pattern n pe p =
     (bindP (branch (\<lambda>p. is_ident (peek p) \<and> peek_at p 1 = Sym EqSign)
             (bindP eat_ident (\<lambda>name. thenP advance (ret (Some name)))) (ret None)) (\<lambda>path_variable.
     bindP (parse_node_pattern n pe) (\<lambda>node.
     bindP (pattern_elements n n pe [Node node]) (\<lambda>elems. ret (Pattern path_variable elems))))) p"

definition parse_patterns :: "nat \<Rightarrow> Expr parser \<Rightarrow> Expr Pattern list parser" where
  "parse_patterns n pe p = (comma_list n (parse_pattern n pe)) p"

definition try_parse_where :: "Expr parser \<Rightarrow> Expr option parser" where
  "try_parse_where pe p = (optional (Kw WHERE) pe) p"

section \<open>Operators\<close>

text \<open>
  The loop of a left-associative level: while \<open>op\<close> knows the token, one more operand of the level
  below is combined with what has been read.
\<close>

fun binary_loop ::
    "nat \<Rightarrow> (Token \<Rightarrow> (Expr \<Rightarrow> Expr \<Rightarrow> Expr) option) \<Rightarrow> Expr parser \<Rightarrow> Expr \<Rightarrow> Expr parser" where
  "binary_loop 0 op sub left p = None"
| "binary_loop (Suc n) op sub left p =
     (case op (peek p) of
       None \<Rightarrow> ret left p
     | Some mk \<Rightarrow> thenP advance (bindP sub (\<lambda>right. binary_loop n op sub (mk left right))) p)"

definition binary_level ::
    "nat \<Rightarrow> (Token \<Rightarrow> (Expr \<Rightarrow> Expr \<Rightarrow> Expr) option) \<Rightarrow> Expr parser \<Rightarrow> Expr parser" where
  "binary_level n op sub p = (bindP sub (binary_loop n op sub)) p"

definition power_op :: "Token \<Rightarrow> (Expr \<Rightarrow> Expr \<Rightarrow> Expr) option" where
  "power_op t = (if t = Sym Caret then Some (\<lambda>l r. Arith l Pow r) else None)"

definition multiplication_op :: "Token \<Rightarrow> (Expr \<Rightarrow> Expr \<Rightarrow> Expr) option" where
  "multiplication_op t =
    (if t = Sym StarSign then Some (\<lambda>l r. Arith l Mul r)
     else if t = Sym Slash then Some (\<lambda>l r. Arith l Div r)
     else if t = Sym Percent then Some (\<lambda>l r. Arith l Mod r)
     else None)"

definition addition_op :: "Token \<Rightarrow> (Expr \<Rightarrow> Expr \<Rightarrow> Expr) option" where
  "addition_op t =
    (if t = Sym Plus then Some (\<lambda>l r. Arith l Add r)
     else if t = Sym Dash then Some (\<lambda>l r. Arith l Sub r)
     else None)"

definition and_op :: "Token \<Rightarrow> (Expr \<Rightarrow> Expr \<Rightarrow> Expr) option" where
  "and_op t = (if t = Kw AND_KW then Some And else None)"

definition xor_op :: "Token \<Rightarrow> (Expr \<Rightarrow> Expr \<Rightarrow> Expr) option" where
  "xor_op t = (if t = Kw XOR_KW then Some Xor else None)"

definition or_op :: "Token \<Rightarrow> (Expr \<Rightarrow> Expr \<Rightarrow> Expr) option" where
  "or_op t = (if t = Kw OR_KW then Some Or else None)"

definition cmp_op :: "Token \<Rightarrow> CmpOp option" where
  "cmp_op t =
    (if t = Sym EqSign then Some Eq
     else if t = Sym NeqSign then Some Neq
     else if t = Sym LArrow then Some Lt
     else if t = Sym RArrow then Some Gt
     else if t = Sym LeSign then Some Le
     else if t = Sym GeSign then Some Ge
     else None)"

text \<open>A minus sign before the literal \<open>9223372036854775808\<close> gives \<open>i64::MIN\<close>.\<close>

definition i64_MIN :: i64 where "i64_MIN = 0x8000000000000000"

fun parse_unary :: "nat \<Rightarrow> Expr parser \<Rightarrow> Expr parser" where
  "parse_unary 0 primary p = None"
| "parse_unary (Suc n) primary p =
     (opt (Sym Dash)
       (opt IntLitBig (ret (IntLit i64_MIN)) (bindP (parse_unary n primary) (\<lambda>e. ret (Neg e))))
       primary) p"

definition parse_power :: "nat \<Rightarrow> Expr parser \<Rightarrow> Expr parser" where
  "parse_power n primary p = (binary_level n power_op (parse_unary n primary)) p"

definition parse_multiplication :: "nat \<Rightarrow> Expr parser \<Rightarrow> Expr parser" where
  "parse_multiplication n primary p = (binary_level n multiplication_op (parse_power n primary)) p"

definition parse_addition :: "nat \<Rightarrow> Expr parser \<Rightarrow> Expr parser" where
  "parse_addition n primary p = (binary_level n addition_op (parse_multiplication n primary)) p"

definition parse_is_null :: "nat \<Rightarrow> Expr parser \<Rightarrow> Expr parser" where
  "parse_is_null n primary p =
     (bindP (parse_addition n primary) (\<lambda>e.
       opt (Kw IS)
         (opt (Kw NOT_KW) (thenP (expect (Kw NULL)) (ret (IsNotNull e)))
           (thenP (expect (Kw NULL)) (ret (IsNull e))))
         (ret e))) p"

definition parse_inlist :: "nat \<Rightarrow> Expr parser \<Rightarrow> Expr parser" where
  "parse_inlist n primary p =
     (bindP (parse_is_null n primary) (\<lambda>left.
       opt (Kw IN_KW) (bindP (parse_is_null n primary) (\<lambda>l. ret (InList left l))) (ret left))) p"

text \<open>\<open>a < x = b <> c\<close> is \<open>(a < x) AND (x = b) AND (b <> c)\<close>.\<close>

fun compare_loop :: "nat \<Rightarrow> Expr parser \<Rightarrow> Expr \<Rightarrow> Expr \<Rightarrow> Expr parser" where
  "compare_loop 0 sub result prev p = None"
| "compare_loop (Suc n) sub result prev p =
     (case cmp_op (peek p) of
       None \<Rightarrow> ret result p
     | Some op \<Rightarrow>
         thenP advance (bindP sub (\<lambda>right.
           compare_loop n sub (And result (Compare prev op right)) right)) p)"

definition string_predicate :: "Token \<Rightarrow> string" where
  "string_predicate t = (case t of Ident s \<Rightarrow> to_ascii_uppercase s | _ \<Rightarrow> [])"

text \<open>What follows the left operand \<open>l\<close> of a comparison.\<close>

definition comparison_operator :: "nat \<Rightarrow> Expr parser \<Rightarrow> Expr \<Rightarrow> Expr parser" where
  "comparison_operator n sub l p =
    (case cmp_op (peek p) of
      Some op \<Rightarrow>
        thenP advance (bindP sub (\<lambda>right. compare_loop n sub (Compare l op right) right)) p
    | None \<Rightarrow> ret l p)"

definition comparison_tail :: "nat \<Rightarrow> Expr parser \<Rightarrow> Expr \<Rightarrow> Expr parser" where
  "comparison_tail n sub l p =
    (branch (\<lambda>p. string_predicate (peek p) = ''STARTS'')
       (thenP advance (thenP (expect (Kw WITH)) (bindP sub (\<lambda>right. ret (StartsWith l right)))))
    (branch (\<lambda>p. string_predicate (peek p) = ''ENDS'')
       (thenP advance (thenP (expect (Kw WITH)) (bindP sub (\<lambda>right. ret (EndsWith l right)))))
    (branch (\<lambda>p. string_predicate (peek p) = ''CONTAINS'')
       (thenP advance (bindP sub (\<lambda>right. ret (Contains l right))))
    (opt (Sym RegexMatch) (bindP sub (\<lambda>right. ret (Regex l right)))
       (comparison_operator n sub l))))) p"

definition parse_comparison :: "nat \<Rightarrow> Expr parser \<Rightarrow> Expr parser" where
  "parse_comparison n primary p =
    (bindP (parse_inlist n primary) (comparison_tail n (parse_inlist n primary))) p"

fun parse_not :: "nat \<Rightarrow> Expr parser \<Rightarrow> Expr parser" where
  "parse_not 0 comparison p = None"
| "parse_not (Suc n) comparison p =
     (opt (Kw NOT_KW) (bindP (parse_not n comparison) (\<lambda>e. ret (Not e))) comparison) p"

definition parse_and :: "nat \<Rightarrow> Expr parser \<Rightarrow> Expr parser" where
  "parse_and n primary p = (binary_level n and_op (parse_not n (parse_comparison n primary))) p"

definition parse_xor :: "nat \<Rightarrow> Expr parser \<Rightarrow> Expr parser" where
  "parse_xor n primary p = (binary_level n xor_op (parse_and n primary)) p"

definition parse_or :: "nat \<Rightarrow> Expr parser \<Rightarrow> Expr parser" where
  "parse_or n primary p = (binary_level n or_op (parse_xor n primary)) p"

section \<open>Primary expressions\<close>

definition slice_end :: "Expr parser \<Rightarrow> Expr \<Rightarrow> Expr option \<Rightarrow> Expr parser" where
  "slice_end pe e lo p =
     (bindP (branch (\<lambda>p. peek p \<noteq> Sym RBracket) (bindP pe (\<lambda>x. ret (Some x))) (ret None)) (\<lambda>hi.
       thenP (expect (Sym RBracket)) (ret (ListSlice e lo hi)))) p"

definition property_access :: "nat \<Rightarrow> Expr parser \<Rightarrow> Expr \<Rightarrow> Expr parser" where
  "property_access n pe e p =
     (bindP eat_ident_flexible (\<lambda>prop.
       opt (Sym LParen)
         (bindP (branch (\<lambda>p. peek p \<noteq> Sym RParen) (bindP pe (\<lambda>x. comma_tail n pe [e, x])) (ret [e]))
           (\<lambda>args. thenP (expect (Sym RParen)) (ret (FunctionCall prop args))))
         (ret (Property e prop)))) p"

definition subscript_access :: "Expr parser \<Rightarrow> Expr \<Rightarrow> Expr parser" where
  "subscript_access pe e p =
     (opt (Sym DotDot) (slice_end pe e None)
       (bindP pe (\<lambda>inner.
          opt (Sym DotDot) (slice_end pe e (Some inner))
            (thenP (expect (Sym RBracket)) (ret (Subscript e inner)))))) p"

definition label_follows :: "Parser \<Rightarrow> bool" where
  "label_follows p \<longleftrightarrow>
    peek p = Sym Colon \<and>
    (is_ident (peek_at p 1) \<or>
     peek_at p 1 \<in> {Kw END, Kw ON, Kw YIELD, Kw CALL, Kw REMOVE, Kw MERGE, Kw WITH})"

fun test_labels :: "nat \<Rightarrow> string list \<Rightarrow> string list parser" where
  "test_labels 0 labels p = None"
| "test_labels (Suc n) labels p =
     (branch label_follows
       (thenP advance (bindP eat_ident_flexible (\<lambda>l. test_labels n (labels @ [l]))))
       (ret labels)) p"

fun property_chain :: "nat \<Rightarrow> nat \<Rightarrow> Expr parser \<Rightarrow> Expr \<Rightarrow> Expr parser" where
  "property_chain 0 n pe e p = None"
| "property_chain (Suc k) n pe e p =
     (opt (Sym Dot) (bindP (property_access n pe e) (property_chain k n pe))
    (opt (Sym LBracket) (bindP (subscript_access pe e) (property_chain k n pe))
    (branch label_follows
       (bindP (test_labels n []) (\<lambda>labels. property_chain k n pe (HasLabel e labels)))
       (ret e)))) p"

definition parse_property_chain :: "nat \<Rightarrow> Expr parser \<Rightarrow> Expr \<Rightarrow> Expr parser" where
  "parse_property_chain n pe e p = (property_chain n n pe e) p"

fun case_branches :: "nat \<Rightarrow> Expr parser \<Rightarrow> (Expr \<times> Expr) list \<Rightarrow> (Expr \<times> Expr) list parser" where
  "case_branches 0 pe acc p = None"
| "case_branches (Suc n) pe acc p =
     (opt (Kw WHEN)
       (bindP pe (\<lambda>w. thenP (expect (Kw THEN_KW)) (bindP pe (\<lambda>t. case_branches n pe (acc @ [(w, t)])))))
       (ret acc)) p"

definition parse_case_expr :: "nat \<Rightarrow> Expr parser \<Rightarrow> Expr parser" where
  "parse_case_expr n pe p =
     (bindP (branch (\<lambda>p. peek p = Kw WHEN) (ret None) (bindP pe (\<lambda>t. ret (Some t)))) (\<lambda>test.
     bindP (case_branches n pe []) (\<lambda>branches.
     bindP (optional (Kw ELSE) pe) (\<lambda>otherwise.
     thenP (expect (Kw END))
       (ret (case test of
         Some t \<Rightarrow> CaseSimple t branches otherwise
       | None \<Rightarrow> CaseSearched branches otherwise)))))) p"

definition parse_paren :: "nat \<Rightarrow> Expr parser \<Rightarrow> Expr parser" where
  "parse_paren n pe p =
     (bindP (looks_like_pattern_predicate n) (\<lambda>pattern.
       if pattern then
         bindP (parse_pattern n pe) (\<lambda>pat.
         bindP (optional (Kw WHERE) pe) (\<lambda>where_clause.
           ret (Exists (Query [Match False [pat] where_clause] None) True)))
       else
         thenP advance (bindP pe (\<lambda>inner. thenP (expect (Sym RParen)) (ret inner))))) p"

definition list_comprehension :: "Expr parser \<Rightarrow> Expr parser" where
  "list_comprehension pe p =
     (bindP eat_ident (\<lambda>var.
     thenP advance
    (bindP pe (\<lambda>list_expr.
     bindP (optional (Kw WHERE) pe) (\<lambda>predicate.
     bindP (optional (Sym Pipe) pe) (\<lambda>projection.
     thenP (expect (Sym RBracket)) (ret (ListComprehension var list_expr predicate projection)))))))) p"

text \<open>Both forms of a pattern comprehension; the path variable is that of the pattern.\<close>

definition pattern_comprehension :: "nat \<Rightarrow> Expr parser \<Rightarrow> bool \<Rightarrow> Expr parser" where
  "pattern_comprehension n pe named p =
     (bindP (parse_pattern n pe) (\<lambda>pattern.
     bindP (optional (Kw WHERE) pe) (\<lambda>predicate.
     thenP (expect (Sym Pipe))
    (bindP pe (\<lambda>projection.
     thenP (expect (Sym RBracket))
       (ret (PatternComprehension (if named then p_variable pattern else None)
               pattern predicate projection))))))) p"

definition parse_bracket :: "nat \<Rightarrow> Expr parser \<Rightarrow> Expr parser" where
  "parse_bracket n pe p =
     (branch (\<lambda>p. is_ident (peek p) \<and> peek_at p 1 = Kw IN_KW) (list_comprehension pe)
    (branch (\<lambda>p. peek p = Sym LParen) (pattern_comprehension n pe False)
    (branch (\<lambda>p. is_ident (peek p) \<and> peek_at p 1 = Sym EqSign) (pattern_comprehension n pe True)
       (bindP (comma_list_until n (Sym RBracket) pe) (\<lambda>elems.
          thenP (expect (Sym RBracket)) (ret (List elems))))))) p"

section \<open>Calls\<close>

definition is_aggregate_fn_name :: "string \<Rightarrow> bool" where
  "is_aggregate_fn_name name \<longleftrightarrow>
     name \<in> set [''count'', ''sum'', ''avg'', ''min'', ''max'', ''collect'', ''stdev'', ''stdevp'',
                 ''percentilecont'', ''percentiledisc'']"

definition list_predicate_kind :: "string \<Rightarrow> ListPredicateKind option" where
  "list_predicate_kind lc =
     map_of [(''any'', Any), (''all'', All), (''none'', NoneOf), (''single'', Single)] lc"

definition list_predicate :: "nat \<Rightarrow> Expr parser \<Rightarrow> ListPredicateKind \<Rightarrow> Expr parser" where
  "list_predicate n pe kind p =
     (bindP eat_ident (\<lambda>var.
     thenP (expect (Kw IN_KW))
    (bindP pe (\<lambda>list_expr.
     bindP (opt (Kw WHERE) pe (ret (BoolLit True))) (\<lambda>predicate.
     thenP (expect (Sym RParen))
       (parse_property_chain n pe (ListPredicate kind var list_expr predicate))))))) p"

text \<open>\<open>filter(x IN list WHERE pred)\<close> and \<open>extract(x IN list | expr)\<close>.\<close>

definition filter_call :: "nat \<Rightarrow> Expr parser \<Rightarrow> Expr parser" where
  "filter_call n pe p =
     (bindP eat_ident (\<lambda>var.
     thenP (expect (Kw IN_KW))
    (bindP pe (\<lambda>list_expr.
     bindP (optional (Kw WHERE) pe) (\<lambda>predicate.
     thenP (expect (Sym RParen))
       (parse_property_chain n pe (ListComprehension var list_expr predicate None))))))) p"

definition extract_call :: "nat \<Rightarrow> Expr parser \<Rightarrow> Expr parser" where
  "extract_call n pe p =
     (bindP eat_ident (\<lambda>var.
     thenP (expect (Kw IN_KW))
    (bindP pe (\<lambda>list_expr.
     bindP (optional (Sym Pipe) pe) (\<lambda>projection.
     thenP (expect (Sym RParen))
       (parse_property_chain n pe (ListComprehension var list_expr None projection))))))) p"

definition shortest_path_call :: "nat \<Rightarrow> Expr parser \<Rightarrow> bool \<Rightarrow> Expr parser" where
  "shortest_path_call n pe all p =
     (bindP (parse_pattern n pe) (\<lambda>pattern. thenP (expect (Sym RParen)) (ret (ShortestPath all pattern)))) p"

definition call_arguments :: "nat \<Rightarrow> Expr parser \<Rightarrow> string \<Rightarrow> (string \<times> Expr list) parser" where
  "call_arguments n pe name p =
     (branch (\<lambda>p. peek p = Sym RParen) (ret (name, []))
    (branch (\<lambda>p. is_aggregate_fn_name (to_ascii_lowercase name) \<and> peek p = Kw DISTINCT)
       (thenP advance (bindP (comma_list_until n (Sym RParen) pe) (\<lambda>args.
          ret (to_ascii_lowercase name @ ''_distinct'', args))))
    (opt (Sym StarSign) (ret (name, [Star]))
       (bindP (comma_list n pe) (\<lambda>args. ret (name, args)))))) p"

definition function_call :: "nat \<Rightarrow> Expr parser \<Rightarrow> string \<Rightarrow> Expr parser" where
  "function_call n pe name p =
    ((let lc = to_ascii_lowercase name; comprehension = (\<lambda>p. is_ident (peek p) \<and> peek_at p 1 = Kw IN_KW) in
     case list_predicate_kind lc of
       Some kind \<Rightarrow> list_predicate n pe kind
     | None \<Rightarrow>
         branch (\<lambda>p. lc = ''filter'' \<and> comprehension p) (filter_call n pe)
        (branch (\<lambda>p. lc = ''extract'' \<and> comprehension p) (extract_call n pe)
        (branch (\<lambda>p. lc = ''shortestpath'' \<or> lc = ''allshortestpaths'')
           (shortest_path_call n pe (lc = ''allshortestpaths''))
           (bindP (call_arguments n pe name) (\<lambda>(fn_name, args).
              thenP (expect (Sym RParen)) (parse_property_chain n pe (FunctionCall fn_name args)))))))) p"

definition parse_exists_subquery :: "nat \<Rightarrow> Expr parser \<Rightarrow> query parser" where
  "parse_exists_subquery n pe p =
     (thenP (opt (Kw MATCH) (ret ()) (ret ()))
       (bindP (parse_patterns n pe) (\<lambda>patterns.
        bindP (try_parse_where pe) (\<lambda>where_clause.
          ret (Query [Match False patterns where_clause] None))))) p"

definition exists_block :: "nat \<Rightarrow> Expr parser \<Rightarrow> query parser \<Rightarrow> Expr parser" where
  "exists_block n pe pq p =
     (bindP (branch (\<lambda>p. peek p = Sym LParen) (parse_exists_subquery n pe) pq) (\<lambda>subquery.
       thenP (expect (Sym RBrace)) (ret (Exists subquery False)))) p"

definition parse_named :: "nat \<Rightarrow> Expr parser \<Rightarrow> query parser \<Rightarrow> string \<Rightarrow> Expr parser" where
  "parse_named n pe pq name p =
     (branch (\<lambda>p. eq_ignore_ascii_case name ''exists'' \<and> peek p = Sym LBrace)
       (thenP advance (exists_block n pe pq))
       (opt (Sym LParen) (function_call n pe name) (parse_property_chain n pe (Variable name)))) p"

text \<open>The literals are the tokens that stand for an expression by themselves.\<close>

definition literal :: "Token \<Rightarrow> Expr option" where
  "literal t =
    (case t of
      IntTok v \<Rightarrow> Some (IntLit v)
    | FloatTok v \<Rightarrow> Some (FloatLit v)
    | StringTok s \<Rightarrow> Some (StringLit s)
    | ParameterTok s \<Rightarrow> Some (Parameter s)
    | Kw k \<Rightarrow>
        (if k = TRUE then Some (BoolLit True)
         else if k = FALSE then Some (BoolLit False)
         else if k = NULL then Some NullLit
         else None)
    | _ \<Rightarrow> None)"

text \<open>The expressions that begin with a bracket or \<open>CASE\<close>.\<close>

definition compound :: "nat \<Rightarrow> Expr parser \<Rightarrow> Token \<Rightarrow> Expr parser" where
  "compound n pe t p =
    (if t = Sym LParen then parse_paren n pe
     else if t = Sym LBracket then thenP advance (parse_bracket n pe)
     else if t = Kw CASE then thenP advance (parse_case_expr n pe)
     else if t = Sym LBrace then bindP (parse_property_map n pe) (\<lambda>pairs. ret (MapLiteral pairs))
     else failP UnexpectedInExpression) p"

definition parse_primary :: "nat \<Rightarrow> Expr parser \<Rightarrow> query parser \<Rightarrow> Expr parser" where
  "parse_primary n pe pq p =
    (case peek p of
      IntLitBig \<Rightarrow>
        fail_at (Message (''SyntaxError: IntegerOverflow'' @ em_dash @ ''integer literal out of range for i64''))
          (offset p) p
    | Ident name \<Rightarrow> thenP advance (parse_named n pe pq name) p
    | t \<Rightarrow>
        (case literal t of
          Some e \<Rightarrow> thenP advance (parse_property_chain n pe e) p
        | None \<Rightarrow> bindP (compound n pe t) (parse_property_chain n pe) p))"

end
