(* ===== verification/CypherClauses.thy ===== *)
theory CypherClauses
  imports CypherParser
begin

text \<open>
  The clauses of \<open>cypher/parser.rs\<close>, the query loop with \<open>UNION\<close>, and the entry point \<open>parse\<close>, in which
  \<open>parse_expr\<close> and \<open>parse_query\<close> are tied to themselves by a bound on the depth of nesting.
\<close>

section \<open>Projections\<close>

function expr_contains_variable :: "Expr \<Rightarrow> bool" where
  "expr_contains_variable e =
    (case e of
      Variable _ \<Rightarrow> True
    | Property inner _ \<Rightarrow> expr_contains_variable inner
    | FunctionCall _ args \<Rightarrow> list_ex expr_contains_variable args
    | Arith a _ b \<Rightarrow> expr_contains_variable a \<or> expr_contains_variable b
    | And a b \<Rightarrow> expr_contains_variable a \<or> expr_contains_variable b
    | Or a b \<Rightarrow> expr_contains_variable a \<or> expr_contains_variable b
    | Compare a _ b \<Rightarrow> expr_contains_variable a \<or> expr_contains_variable b
    | Neg inner \<Rightarrow> expr_contains_variable inner
    | Not inner \<Rightarrow> expr_contains_variable inner
    | IsNull inner \<Rightarrow> expr_contains_variable inner
    | IsNotNull inner \<Rightarrow> expr_contains_variable inner
    | HasLabel inner _ \<Rightarrow> expr_contains_variable inner
    | _ \<Rightarrow> False)"
  by pat_completeness auto
termination
  by (relation "measure size") (auto simp: less_Suc_eq_le intro: size_list_estimation')

declare expr_contains_variable.simps [simp del]

definition skip_limit_negative :: "string \<Rightarrow> string" where
  "skip_limit_negative clause =
     ''SyntaxError::NegativeIntegerArgument: '' @ clause @ '' must be a non-negative integer''"

definition skip_limit_float :: "string \<Rightarrow> string" where
  "skip_limit_float clause =
     ''SyntaxError::InvalidArgumentType: '' @ clause @ '' must be an integer, not a float''"

definition skip_limit_variable :: "string \<Rightarrow> string" where
  "skip_limit_variable clause =
     ''SyntaxError::NonConstantExpression: '' @ clause @ '' must be a constant expression''"

definition constant_expr :: "Expr \<Rightarrow> string \<Rightarrow> string + unit" where
  "constant_expr e clause =
    (if expr_contains_variable e then Inl (skip_limit_variable clause) else Inr ())"

definition validate_skip_limit_expr :: "Expr \<Rightarrow> string \<Rightarrow> string + unit" where
  "validate_skip_limit_expr e clause =
    (case e of
      IntLit n \<Rightarrow> if sint n < 0 then Inl (skip_limit_negative clause) else Inr ()
    | FloatLit _ \<Rightarrow> Inl (skip_limit_float clause)
    | Neg inner \<Rightarrow>
        (case inner of
          IntLit _ \<Rightarrow> Inl (skip_limit_negative clause)
        | FloatLit _ \<Rightarrow> Inl (skip_limit_float clause)
        | _ \<Rightarrow> constant_expr inner clause)
    | Parameter _ \<Rightarrow> Inr ()
    | _ \<Rightarrow> constant_expr e clause)"

definition validated :: "string \<Rightarrow> Expr parser \<Rightarrow> Expr parser" where
  "validated clause pe p =
     (bindP pe (\<lambda>e p.
       case validate_skip_limit_expr e clause of
         Inl m \<Rightarrow> fail_at (Message m) (offset p) p
       | Inr _ \<Rightarrow> ret e p)) p"

definition try_parse_skip :: "Expr parser \<Rightarrow> Expr option parser" where
  "try_parse_skip pe p = (optional (Kw SKIP) (validated ''SKIP'' pe)) p"

definition try_parse_limit :: "Expr parser \<Rightarrow> Expr option parser" where
  "try_parse_limit pe p = (optional (Kw LIMIT) (validated ''LIMIT'' pe)) p"

text \<open>The word after a sort key: \<open>DESC\<close>, \<open>ASC\<close> or neither.\<close>

definition is_word :: "string list \<Rightarrow> Token \<Rightarrow> bool" where
  "is_word ws t \<longleftrightarrow> (case t of Ident s \<Rightarrow> list_ex (eq_ignore_ascii_case s) ws | _ \<Rightarrow> False)"

definition order_item :: "Expr parser \<Rightarrow> Expr OrderItem parser" where
  "order_item pe p =
     (bindP pe (\<lambda>e.
       branch (\<lambda>p. is_word [''DESC'', ''DESCENDING''] (peek p)) (thenP advance (ret (OrderItem e False)))
      (branch (\<lambda>p. is_word [''ASC'', ''ASCENDING''] (peek p)) (thenP advance (ret (OrderItem e True)))
         (ret (OrderItem e True))))) p"

definition try_parse_order_by :: "nat \<Rightarrow> Expr parser \<Rightarrow> Expr OrderItem list parser" where
  "try_parse_order_by n pe p = (opt (Kw ORDER_BY) (comma_list n (order_item pe)) (ret [])) p"

definition parse_return_item :: "Expr parser \<Rightarrow> Expr ReturnItem parser" where
  "parse_return_item pe p =
     (bindP (opt (Sym StarSign) (ret Star) pe) (\<lambda>e.
     bindP (optional (Kw AS) eat_ident) (\<lambda>alias. ret (ReturnItem e alias)))) p"

definition parse_return_clause_items :: "nat \<Rightarrow> Expr parser \<Rightarrow> Expr ReturnItem list parser" where
  "parse_return_clause_items n pe p = (comma_list n (parse_return_item pe)) p"

definition parse_return_items :: "nat \<Rightarrow> Expr parser \<Rightarrow> (bool \<times> Expr ReturnItem list) parser" where
  "parse_return_items n pe p =
     (bindP (opt (Kw DISTINCT) (ret True) (ret False)) (\<lambda>distinct.
     bindP (parse_return_clause_items n pe) (\<lambda>items. ret (distinct, items)))) p"

definition parse_with :: "nat \<Rightarrow> Expr parser \<Rightarrow> clause parser" where
  "parse_with n pe p =
     (bindP (parse_return_items n pe) (\<lambda>(distinct, items).
     bindP (try_parse_order_by n pe) (\<lambda>order_by.
     bindP (try_parse_skip pe) (\<lambda>skip.
     bindP (try_parse_limit pe) (\<lambda>limit.
     bindP (try_parse_where pe) (\<lambda>where_clause.
       ret (With distinct items order_by skip limit where_clause))))))) p"

definition parse_return :: "nat \<Rightarrow> Expr parser \<Rightarrow> clause parser" where
  "parse_return n pe p =
     (bindP (parse_return_items n pe) (\<lambda>(distinct, items).
     bindP (try_parse_order_by n pe) (\<lambda>order_by.
     bindP (try_parse_skip pe) (\<lambda>skip.
     bindP (try_parse_limit pe) (\<lambda>limit.
       ret (Return distinct items order_by skip limit)))))) p"

section \<open>Reading clauses\<close>

definition parse_match :: "nat \<Rightarrow> Expr parser \<Rightarrow> bool \<Rightarrow> clause parser" where
  "parse_match n pe is_optional p =
     (bindP (parse_patterns n pe) (\<lambda>patterns.
     bindP (try_parse_where pe) (\<lambda>where_clause. ret (Match is_optional patterns where_clause)))) p"

definition expect_as :: "unit parser" where
  "expect_as p =
    (case peek p of
      Ident s \<Rightarrow> if eq_ignore_ascii_case s ''AS'' then advance p else failP ExpectedAs p
    | _ \<Rightarrow> expect (Kw AS) p)"

definition parse_unwind :: "Expr parser \<Rightarrow> clause parser" where
  "parse_unwind pe p =
     (bindP pe (\<lambda>e. thenP expect_as (bindP eat_ident_flexible (\<lambda>alias. ret (Unwind e alias))))) p"

fun procedure_name :: "nat \<Rightarrow> string \<Rightarrow> string parser" where
  "procedure_name 0 name p = None"
| "procedure_name (Suc n) name p =
     (opt (Sym Dot) (bindP eat_ident_flexible (\<lambda>next. procedure_name n (name @ ''.'' @ next))) (ret name)) p"

definition yield_item :: "(string \<times> string option) parser" where
  "yield_item p =
     (bindP eat_ident_flexible (\<lambda>col.
     bindP (optional (Kw AS) eat_ident_flexible) (\<lambda>alias. ret (col, alias)))) p"

definition parse_call_procedure :: "nat \<Rightarrow> Expr parser \<Rightarrow> clause parser" where
  "parse_call_procedure n pe p =
     (bindP (bindP eat_ident_flexible (procedure_name n)) (\<lambda>proc_name.
     bindP (opt (Sym LParen)
              (bindP (comma_list_until n (Sym RParen) pe) (\<lambda>args.
                 thenP (expect (Sym RParen)) (ret (args, False))))
              (ret ([], True))) (\<lambda>(args, implicit).
     bindP (opt (Kw YIELD)
              (opt (Sym StarSign) (ret [(''*'', None)]) (comma_list n yield_item))
              (ret [])) (\<lambda>yield_items.
       ret (CallProcedure proc_name args yield_items implicit))))) p"

definition parse_call :: "nat \<Rightarrow> Expr parser \<Rightarrow> query parser \<Rightarrow> clause parser" where
  "parse_call n pe pq p =
     (opt (Sym LBrace)
       (bindP pq (\<lambda>subquery. thenP (expect (Sym RBrace)) (ret (CallSubquery subquery))))
       (parse_call_procedure n pe)) p"

section \<open>Writing clauses\<close>

definition set_value :: "(Expr \<Rightarrow> Expr SetItem) \<Rightarrow> Expr parser \<Rightarrow> Expr SetItem parser" where
  "set_value item pe p = (bindP pe (\<lambda>val. ret (item val))) p"

definition set_property :: "Expr parser \<Rightarrow> string \<Rightarrow> Expr SetItem parser" where
  "set_property pe var p =
     (bindP eat_ident_flexible (\<lambda>prop.
     thenP (expect (Sym EqSign)) (set_value (SetProperty (Property (Variable var) prop)) pe))) p"

definition parse_set_item :: "nat \<Rightarrow> Expr parser \<Rightarrow> Expr SetItem parser" where
  "parse_set_item n pe p =
     (opt (Sym LParen)
       (bindP eat_ident_flexible (\<lambda>var.
        thenP (expect (Sym RParen)) (thenP (expect (Sym Dot)) (set_property pe var))))
       (bindP eat_ident_flexible (\<lambda>var.
          branch (\<lambda>p. peek p = Sym Colon) (bindP (colon_labels n []) (\<lambda>labels. ret (SetLabel var labels)))
         (opt (Sym Dot) (set_property pe var)
         (opt (Sym EqSign) (set_value (SetVariable var) pe)
         (opt (Sym PlusEq) (set_value (MergeMap var) pe)
            (failP ExpectedSetOperator))))))) p"

definition parse_set_items :: "nat \<Rightarrow> Expr parser \<Rightarrow> Expr SetItem list parser" where
  "parse_set_items n pe p = (comma_list n (parse_set_item n pe)) p"

definition parse_remove_item :: "nat \<Rightarrow> Expr RemoveItem parser" where
  "parse_remove_item n p =
     (bindP eat_ident_flexible (\<lambda>var.
       opt (Sym Dot) (bindP eat_ident_flexible (\<lambda>prop. ret (RemoveProperty (Variable var) prop)))
      (branch (\<lambda>p. peek p = Sym Colon) (bindP (colon_labels n []) (\<lambda>labels. ret (RemoveLabel var labels)))
         (failP ExpectedRemoveOperator)))) p"

definition parse_remove_items :: "nat \<Rightarrow> Expr RemoveItem list parser" where
  "parse_remove_items n p = (comma_list n (parse_remove_item n)) p"

definition parse_expr_list :: "nat \<Rightarrow> Expr parser \<Rightarrow> Expr list parser" where
  "parse_expr_list n pe p = (comma_list n pe) p"

definition parse_create :: "nat \<Rightarrow> Expr parser \<Rightarrow> clause parser" where
  "parse_create n pe p = (bindP (parse_patterns n pe) (\<lambda>patterns. ret (Create patterns))) p"

definition parse_delete :: "nat \<Rightarrow> Expr parser \<Rightarrow> bool \<Rightarrow> clause parser" where
  "parse_delete n pe detach p = (bindP (parse_expr_list n pe) (\<lambda>exprs. ret (Delete exprs detach))) p"

definition parse_detach :: "nat \<Rightarrow> Expr parser \<Rightarrow> clause parser" where
  "parse_detach n pe p = (thenP (expect (Kw DELETE)) (parse_delete n pe True)) p"

definition parse_set :: "nat \<Rightarrow> Expr parser \<Rightarrow> clause parser" where
  "parse_set n pe p = (bindP (parse_set_items n pe) (\<lambda>items. ret (SetClause items))) p"

definition parse_remove :: "nat \<Rightarrow> clause parser" where
  "parse_remove n p = (bindP (parse_remove_items n) (\<lambda>items. ret (Remove items))) p"

text \<open>\<open>ON CREATE SET ..\<close> and \<open>ON MATCH SET ..\<close>: the last one of a kind counts.\<close>

fun merge_actions ::
    "nat \<Rightarrow> nat \<Rightarrow> Expr parser \<Rightarrow> Expr SetItem list \<Rightarrow> Expr SetItem list \<Rightarrow> (Expr SetItem list \<times> Expr SetItem list) parser" where
  "merge_actions 0 n pe on_create on_match p = None"
| "merge_actions (Suc k) n pe on_create on_match p =
     (opt (Kw ON)
       (branch (\<lambda>p. is_word [''CREATE''] (peek p) \<or> peek p = Kw CREATE)
          (thenP advance (thenP (expect (Kw SET))
            (bindP (parse_set_items n pe) (\<lambda>items. merge_actions k n pe items on_match))))
       (branch (\<lambda>p. is_word [''MATCH''] (peek p) \<or> peek p = Kw MATCH)
          (thenP advance (thenP (expect (Kw SET))
            (bindP (parse_set_items n pe) (\<lambda>items. merge_actions k n pe on_create items))))
          (failP ExpectedCreateOrMatch)))
       (ret (on_create, on_match))) p"

definition parse_merge :: "nat \<Rightarrow> Expr parser \<Rightarrow> clause parser" where
  "parse_merge n pe p =
     (bindP (parse_pattern n pe) (\<lambda>pattern.
     bindP (merge_actions n n pe [] []) (\<lambda>(on_create, on_match). ret (Merge pattern on_create on_match)))) p"

text \<open>The head \<open>(variable IN list |\<close> of a \<open>FOREACH\<close>.\<close>

definition foreach_head :: "(Token \<Rightarrow> parse_msg) \<Rightarrow> Expr parser \<Rightarrow> (string \<times> Expr) parser" where
  "foreach_head msg pe p =
     (thenP (expect (Sym LParen))
       (bindP (\<lambda>p. case peek p of Ident s \<Rightarrow> thenP advance (ret s) p | _ \<Rightarrow> failP msg p) (\<lambda>variable.
        thenP (expect (Kw IN_KW))
       (bindP pe (\<lambda>list_expr.
        thenP (expect (Sym Pipe)) (ret (variable, list_expr))))))) p"

text \<open>
  A nested \<open>FOREACH\<close> knows \<open>CREATE\<close> and \<open>SET\<close>; at any other token its loop ends without an error, and
  without a closing parenthesis.
\<close>

fun nested_foreach_body :: "nat \<Rightarrow> nat \<Rightarrow> Expr parser \<Rightarrow> clause list \<Rightarrow> clause list parser" where
  "nested_foreach_body 0 n pe acc p = None"
| "nested_foreach_body (Suc k) n pe acc p =
     (opt (Sym RParen) (ret acc)
    (opt (Kw CREATE) (bindP (parse_create n pe) (\<lambda>c. nested_foreach_body k n pe (acc @ [c])))
    (opt (Kw SET) (bindP (parse_set n pe) (\<lambda>c. nested_foreach_body k n pe (acc @ [c])))
       (ret acc)))) p"

definition parse_nested_foreach :: "nat \<Rightarrow> Expr parser \<Rightarrow> clause parser" where
  "parse_nested_foreach n pe p =
     (bindP (foreach_head ExpectedNestedVariable pe) (\<lambda>(variable, list_expr).
     bindP (nested_foreach_body n n pe []) (\<lambda>body. ret (Foreach variable list_expr body)))) p"

definition foreach_clause :: "nat \<Rightarrow> Expr parser \<Rightarrow> clause parser" where
  "foreach_clause n pe p =
     (opt (Kw CREATE) (parse_create n pe)
    (opt (Kw DELETE) (parse_delete n pe False)
    (opt (Kw DETACH) (parse_detach n pe)
    (opt (Kw SET) (parse_set n pe)
    (opt (Kw REMOVE) (parse_remove n)
    (opt (Kw MERGE) (bindP (parse_pattern n pe) (\<lambda>pattern. ret (Merge pattern [] [])))
    (opt (Kw FOREACH) (parse_nested_foreach n pe)
       (failP UnexpectedInForeach)))))))) p"

fun foreach_body :: "nat \<Rightarrow> nat \<Rightarrow> Expr parser \<Rightarrow> clause list \<Rightarrow> clause list parser" where
  "foreach_body 0 n pe acc p = None"
| "foreach_body (Suc k) n pe acc p =
     (opt (Sym RParen) (ret acc)
       (bindP (foreach_clause n pe) (\<lambda>c. foreach_body k n pe (acc @ [c])))) p"

definition parse_foreach :: "nat \<Rightarrow> Expr parser \<Rightarrow> clause parser" where
  "parse_foreach n pe p =
     (bindP (foreach_head ExpectedForeachVariable pe) (\<lambda>(variable, list_expr).
     bindP (foreach_body n n pe []) (\<lambda>body. ret (Foreach variable list_expr body)))) p"

section \<open>Schema statements\<close>

text \<open>\<open>ON :Label(prop)\<close>\<close>

definition index_spec :: "(string \<times> string) parser" where
  "index_spec p =
     (thenP (expect (Kw ON)) (thenP (expect (Sym Colon))
       (bindP eat_ident_flexible (\<lambda>label.
        thenP (expect (Sym LParen))
       (bindP eat_ident_flexible (\<lambda>prop.
        thenP (expect (Sym RParen)) (ret (label, prop)))))))) p"

text \<open>\<open>ON (n:Label) ASSERT EXISTS(n.prop)\<close> or \<open>ON (n:Label) ASSERT n.prop IS UNIQUE\<close>\<close>

definition variable_property :: "string parser" where
  "variable_property p = (thenP eat_ident_flexible (thenP (expect (Sym Dot)) eat_ident_flexible)) p"

definition constraint_spec :: "(string \<times> string \<times> string) parser" where
  "constraint_spec p =
     (thenP (expect (Kw ON)) (thenP (expect (Sym LParen)) (thenP eat_ident_flexible
    (thenP (expect (Sym Colon))
       (bindP eat_ident_flexible (\<lambda>label.
        thenP (expect (Sym RParen)) (thenP (expect (Kw ASSERT))
       (bindP (branch (\<lambda>p. peek p = Ident ''exists'' \<or> peek p = Ident ''EXISTS'')
                (thenP advance (thenP (expect (Sym LParen))
                  (bindP variable_property (\<lambda>prop. thenP (expect (Sym RParen)) (ret (prop, ''EXISTS''))))))
                (bindP variable_property (\<lambda>prop.
                  thenP (expect (Kw IS)) (thenP (expect (Kw UNIQUE)) (ret (prop, ''UNIQUE''))))))
         (\<lambda>(prop, kind). ret (label, prop, kind)))))))))) p"

definition parse_create_statement :: "nat \<Rightarrow> Expr parser \<Rightarrow> clause parser" where
  "parse_create_statement n pe p =
     (opt (Kw INDEX) (bindP index_spec (\<lambda>(label, prop). ret (CreateIndex label prop)))
    (opt (Kw CONSTRAINT)
       (bindP constraint_spec (\<lambda>(label, prop, kind). ret (CreateConstraint label prop kind)))
       (parse_create n pe))) p"

definition parse_drop :: "clause parser" where
  "parse_drop p =
     (opt (Kw CONSTRAINT)
       (bindP constraint_spec (\<lambda>(label, prop, kind). ret (DropConstraint label prop kind)))
       (thenP (expect (Kw INDEX)) (bindP index_spec (\<lambda>(label, prop). ret (DropIndex label prop))))) p"

definition parse_show :: "clause parser" where
  "parse_show p =
     (opt (Kw CONSTRAINTS) (ret ShowConstraints) (thenP (expect (Kw INDEXES)) (ret ShowIndexes))) p"

section \<open>Queries\<close>

text \<open>One turn of the clause loop: the clause, and whether it ends the loop.\<close>

definition goes_on :: "clause parser \<Rightarrow> (clause \<times> bool) parser" where
  "goes_on f p = (bindP f (\<lambda>c. ret (c, False))) p"

definition terminal :: "clause parser \<Rightarrow> (clause \<times> bool) parser" where
  "terminal f p = (bindP f (\<lambda>c. ret (c, True))) p"

definition parse_clause :: "nat \<Rightarrow> Expr parser \<Rightarrow> query parser \<Rightarrow> (clause \<times> bool) parser" where
  "parse_clause n pe pq p =
     (opt (Kw MATCH) (goes_on (parse_match n pe False))
    (opt (Kw OPTIONAL_MATCH) (goes_on (parse_match n pe True))
    (opt (Kw UNWIND) (goes_on (parse_unwind pe))
    (opt (Kw CALL) (goes_on (parse_call n pe pq))
    (opt (Kw WITH) (goes_on (parse_with n pe))
    (opt (Kw RETURN) (terminal (parse_return n pe))
    (opt (Kw CREATE) (goes_on (parse_create_statement n pe))
    (opt (Kw DROP) (goes_on parse_drop)
    (opt (Kw SHOW) (terminal parse_show)
    (opt (Kw DELETE) (goes_on (parse_delete n pe False))
    (opt (Kw DETACH) (goes_on (parse_detach n pe))
    (opt (Kw SET) (goes_on (parse_set n pe))
    (opt (Kw REMOVE) (goes_on (parse_remove n))
    (opt (Kw MERGE) (goes_on (parse_merge n pe))
    (opt (Kw FOREACH) (goes_on (parse_foreach n pe))
       (failP UnexpectedInQuery)))))))))))))))) p"

definition ends_query :: "Parser \<Rightarrow> bool" where
  "ends_query p \<longleftrightarrow> peek p = Eof \<or> peek p = Sym RBrace"

fun parse_clauses :: "nat \<Rightarrow> (clause \<times> bool) parser \<Rightarrow> clause list \<Rightarrow> clause list parser" where
  "parse_clauses 0 clause acc p = None"
| "parse_clauses (Suc n) clause acc p =
     (branch ends_query (ret acc)
       (bindP clause (\<lambda>(c, last).
          if last then ret (acc @ [c]) else parse_clauses n clause (acc @ [c])))) p"

definition mixes_union :: "bool \<Rightarrow> query \<Rightarrow> bool" where
  "mixes_union all right \<longleftrightarrow>
     (case union_with right of Some (right_all, _) \<Rightarrow> right_all \<noteq> all | None \<Rightarrow> False)"

definition parse_union :: "query parser \<Rightarrow> clause list \<Rightarrow> query parser" where
  "parse_union pq cs p =
     (thenP advance
       (bindP (branch (\<lambda>p. is_word [''ALL''] (peek p)) (thenP advance (ret True)) (ret False)) (\<lambda>all.
        bindP pq (\<lambda>right p.
          if mixes_union all right then
            fail_at (Message ''SyntaxError::InvalidClauseComposition: cannot mix UNION and UNION ALL'')
              (offset p) p
          else ret (Query cs (Some (all, right))) p)))) p"

definition parse_query_with :: "nat \<Rightarrow> Expr parser \<Rightarrow> query parser \<Rightarrow> query parser" where
  "parse_query_with n pe pq p =
     (bindP (parse_clauses n (parse_clause n pe pq) []) (\<lambda>cs.
       branch ends_query (ret (Query cs None))
      (branch (\<lambda>p. is_word [''UNION''] (peek p)) (parse_union pq cs)
         (failP UnexpectedAfterReturn)))) p"

fun parse_expr :: "nat \<Rightarrow> Expr parser"
  and parse_query :: "nat \<Rightarrow> query parser" where
  "parse_expr 0 p = None"
| "parse_expr (Suc n) p = parse_or (Suc n) (parse_primary (Suc n) (parse_expr n) (parse_query n)) p"
| "parse_query 0 p = None"
| "parse_query (Suc n) p = parse_query_with (Suc n) (parse_expr n) (parse_query n) p"

datatype parse_failure = ParseErr ParseError | ParsePanic

definition parser_new :: "SpannedToken list \<Rightarrow> string \<Rightarrow> Parser" where
  "parser_new toks src = \<lparr>tokens = toks, pos = 0, source = src\<rparr>"

text \<open>The entry point, with a bound on the nesting that no query reaches.\<close>

definition parse :: "string \<Rightarrow> (parse_failure + query) option" where
  "parse input =
    (case lex input of
      Inl LexPanic \<Rightarrow> Some (Inl ParsePanic)
    | Inl (LexErr e) \<Rightarrow>
        Some (Inl (ParseErr \<lparr>pe_message = Message (le_message e), pe_offset = le_offset e\<rparr>))
    | Inr toks \<Rightarrow>
        (case parse_query (length toks) (parser_new toks input) of
          None \<Rightarrow> None
        | Some (Inl e) \<Rightarrow> Some (Inl (ParseErr e))
        | Some (Inr (q, _)) \<Rightarrow> Some (Inr q)))"

end
