(* ===== verification/CypherLexFacts.thy ===== *)
theory CypherLexFacts
  imports CypherLexer
begin

text \<open>
  What the tokeniser promises the parser: one \<open>Eof\<close>, at the end; ascending offsets; integer literals
  below \<open>2 ^ 63\<close> and finite floats. And when it does not panic.
\<close>

section \<open>The tokens of a step\<close>

fun token_ok :: "Token \<Rightarrow> bool" where
  "token_ok (IntTok v) = (0 \<le> sint v)"
| "token_ok (FloatTok v) = (unat v < F64_INFINITY)"
| "token_ok Eof = False"
| "token_ok _ = True"

lemma sint_of_nat_small: "n < 2 ^ 63 \<Longrightarrow> 0 \<le> sint (of_nat n :: i64)"
proof -
  assume n: "n < 2 ^ 63"
  then have "sint (of_nat n :: i64) = signed_take_bit 63 (int n)"
    by (simp add: signed_of_nat)
  also have "\<dots> = int n"
    using n by (intro signed_take_bit_int_eq_self) auto
  finally show ?thesis by simp
qed

lemma parse_i64_range: "parse_i64 s = Some v \<Longrightarrow> 0 \<le> sint v"
  by (auto simp: parse_i64_def Let_def sint_of_nat_small split: if_splits)

lemma f64_of_ratio_le: "f64_of_ratio p q \<le> F64_INFINITY"
  by (simp add: f64_of_ratio_def Let_def)

lemma parse_f64_range: "parse_f64 s = Some v \<Longrightarrow> unat v \<le> F64_INFINITY"
proof -
  have small: "unat (of_nat n :: u64) \<le> F64_INFINITY" if "n \<le> F64_INFINITY" for n
    using that by (simp add: unat_of_nat take_bit_nat_eq_self F64_INFINITY_def)
  assume "parse_f64 s = Some v"
  then show ?thesis
    by (auto simp: parse_f64_def Let_def f64_of_ratio_le small split: if_splits)
qed

lemma number_token_ok: "number_token start num d = Inr t \<Longrightarrow> token_ok t"
  by (auto simp: number_token_def is_infinite_f64_def parse_i64_range
           dest: parse_f64_range split: if_splits option.splits)

lemma radix_token_ok: "radix_token b m start ds rest = Inr (t, r) \<Longrightarrow> token_ok t"
  by (auto simp: radix_token_def Let_def sint_of_nat_small split: if_splits)

lemma lex_number_ok: "lex_number start rest = Inr (t, r) \<Longrightarrow> token_ok t"
  by (auto simp: lex_number_def Let_def bindE_eq_Inr number_token_ok split: if_splits prod.splits
           dest: radix_token_ok)

lemma word_token_ok: "word_token word r = (t, r') \<Longrightarrow> token_ok t"
  by (auto simp: word_token_def two_words_def Let_def split: if_splits option.splits)

lemma lex_step_ok: "lex_step len rest = Inr (Some t, r) \<Longrightarrow> token_ok t"
  unfolding lex_step_def Let_def quoted_token_def
  by (auto simp: bindE_eq_Inr dest: lex_number_ok word_token_ok
           split: if_splits option.splits prod.splits)

section \<open>The token list\<close>

definition spans :: "nat \<Rightarrow> nat \<Rightarrow> SpannedToken list \<Rightarrow> bool" where
  "spans lo len ts \<longleftrightarrow>
     sorted_wrt (\<lambda>a b. st_offset a < st_offset b) ts \<and>
     list_all (\<lambda>t. lo \<le> st_offset t \<and> st_offset t < len \<and> token_ok (token t)) ts"

lemma spans_snoc:
  assumes "spans lo a ts" and "a \<le> off" and "off < b" and "lo \<le> off" and "token_ok t"
  shows "spans lo b (ts @ [\<lparr>token = t, st_offset = off\<rparr>])"
  using assms by (auto simp: spans_def sorted_wrt_append list_all_iff)

lemma spans_mono: "spans lo a ts \<Longrightarrow> a \<le> b \<Longrightarrow> spans lo b ts"
  by (auto simp: spans_def list_all_iff)

lemma lex_loop_ok:
  assumes "lex_loop len rest toks = Inr out" and "length rest \<le> len"
    and "spans 0 (len - length rest) toks"
  shows "\<exists>ts. out = ts @ [\<lparr>token = Eof, st_offset = len\<rparr>] \<and> spans 0 len ts"
  using assms
proof (induction len rest toks rule: lex_loop.induct)
  case (2 len c r toks)
  let ?off = "len - length (c # r)"
  obtain t r' where step: "lex_step len (c # r) = Inr (t, r')"
    using "2.prems"(1) by (auto split: sum.splits prod.splits)
  have less: "length r' \<le> length r" by (rule lex_step_shrinks [OF step])
  show ?case
  proof (cases t)
    case None
    have "spans 0 (len - length r') toks"
      by (rule spans_mono [OF "2.prems"(3)]) (use less in simp)
    then show ?thesis
      using "2.IH"(1) [OF step refl None] "2.prems"(1,2) step None less by auto
  next
    case (Some t')
    have "spans 0 (len - length r') (toks @ [\<lparr>token = t', st_offset = ?off\<rparr>])"
      using "2.prems"(2,3) less lex_step_ok [of len "c # r"] step Some
      by (intro spans_snoc [where a = ?off]) auto
    then show ?thesis
      using "2.IH"(2) [OF step refl Some] "2.prems"(1,2) step Some less by auto
  qed
qed auto

lemma lex_ok:
  assumes "lex s = Inr out"
  shows "\<exists>ts. out = ts @ [\<lparr>token = Eof, st_offset = length s\<rparr>] \<and> spans 0 (length s) ts"
  using lex_loop_ok [of "length s" s "[]" out] assms by (simp add: lex_def spans_def)

section \<open>Whole characters\<close>

text \<open>Strings that are sequences of whole characters.\<close>

function utf8_chars :: "string \<Rightarrow> bool" where
  "utf8_chars [] = True"
| "utf8_chars (c # r) =
     (\<not> is_cont_char c \<and> char_len c \<le> Suc (length r) \<and>
      list_all is_cont_char (take (char_len c - 1) r) \<and> utf8_chars (drop (char_len c - 1) r))"
  by pat_completeness auto
termination
  by (relation "measure length") auto

text \<open>Every backslash is followed by an ASCII byte.\<close>

fun escapes_ascii :: "string \<Rightarrow> bool" where
  "escapes_ascii (c # d # r) = ((c = CHR 0x5C \<longrightarrow> code d < 128) \<and> escapes_ascii (d # r))"
| "escapes_ascii _ = True"

definition whole :: "string \<Rightarrow> bool" where
  "whole s \<longleftrightarrow> utf8_chars s \<and> escapes_ascii s"

lemma starts_with_simps [simp]:
  "starts_with [] s"
  "starts_with (a # p) (c # s) \<longleftrightarrow> a = c \<and> starts_with p s"
  "\<not> starts_with (a # p) []"
  by (auto simp: starts_with_def)

lemma escapes_tl: "escapes_ascii (c # r) \<Longrightarrow> escapes_ascii r"
  by (cases r) auto

lemma escapes_drop: "escapes_ascii s \<Longrightarrow> escapes_ascii (drop n s)"
proof (induction n arbitrary: s)
  case (Suc n)
  then show ?case using escapes_tl by (cases s) auto
qed simp

lemma whole_ascii: "code c < 128 \<Longrightarrow> whole (c # r) \<longleftrightarrow> utf8_chars r \<and> escapes_ascii (c # r)"
  by (simp add: whole_def is_cont_char_def char_len_def)

lemma whole_tl: "whole (c # r) \<Longrightarrow> code c < 128 \<Longrightarrow> whole r"
  using whole_ascii [of c r] escapes_tl [of c r] whole_def [of r] by blast

lemma whole_drop: "whole s \<Longrightarrow> list_all (\<lambda>c. code c < 128) (take n s) \<Longrightarrow> whole (drop n s)"
proof (induction n arbitrary: s)
  case (Suc n)
  then show ?case using whole_tl by (cases s) auto
qed simp

lemma whole_dropWhile: "whole s \<Longrightarrow> (\<And>c. P c \<Longrightarrow> code c < 128) \<Longrightarrow> whole (dropWhile P s)"
  using whole_tl by (induction s) auto

lemma utf8_suffix: "utf8_chars (a @ b) \<Longrightarrow> b = [] \<or> \<not> is_cont_char (hd b) \<Longrightarrow> utf8_chars b"
proof (induction "length a" arbitrary: a rule: less_induct)
  case less
  show ?case
  proof (cases a)
    case (Cons c r)
    let ?k = "char_len c - 1"
    have c: "list_all is_cont_char (take ?k (r @ b))" "utf8_chars (drop ?k (r @ b))"
      using less.prems(1) Cons by simp_all
    show ?thesis
    proof (cases "?k \<le> length r \<or> b = []")
      case True
      then have "utf8_chars (drop ?k r @ b)" using c(2) by auto
      then show ?thesis using less.hyps [of "drop ?k r"] less.prems(2) Cons by simp
    next
      case False
      then have "is_cont_char (hd b)" using c(1) by (cases b; cases "?k - length r") auto
      then show ?thesis using False less.prems(2) by blast
    qed
  qed (use less.prems in simp)
qed

lemma whole_suffix: "whole (a @ b) \<Longrightarrow> b = [] \<or> \<not> is_cont_char (hd b) \<Longrightarrow> whole b"
  using utf8_suffix escapes_drop [of "a @ b" "length a"] by (auto simp: whole_def)

section \<open>No panic\<close>

fun calm :: "lex_failure + ('a \<times> string) \<Rightarrow> bool" where
  "calm (Inl e) = (e \<noteq> LexPanic)"
| "calm (Inr (_, r)) = whole r"

lemma next_char_calm:
  assumes "whole (c # r)"
  shows "calm (next_char c r)"
proof -
  have "drop (char_len c) (c # r) = drop (char_len c - 1) r" using char_len_pos [of c] by (cases "char_len c") auto
  then show ?thesis
    using assms escapes_drop [OF escapes_tl, of c r] by (auto simp: next_char_def whole_def)
qed

lemma hex_ascii: "is_ascii_hexdigit c \<Longrightarrow> code c < 128"
  by (auto simp: is_ascii_hexdigit_def is_ascii_digit_def)

lemma unicode_escape_calm: "unicode_escape start r \<noteq> Inl LexPanic"
  by (auto simp: unicode_escape_def unicode_error_def lex_error_def split: option.splits)

lemma unicode_escape_ascii:
  assumes "unicode_escape start r = Inr t"
  shows "list_all (\<lambda>c. code c < 128) (take 4 r)"
proof -
  let ?s = "take 4 r"
  have "from_str_radix_16 ?s \<noteq> None" using assms by (auto simp: unicode_escape_def split: if_splits option.splits)
  then have "list_all is_ascii_hexdigit (if ?s \<noteq> [] \<and> hd ?s = CHR ''+'' \<and> tl ?s \<noteq> [] then tl ?s else ?s)"
    by (auto simp: from_str_radix_16_def Let_def split: if_splits)
  then show ?thesis
    using hex_ascii by (cases ?s) (auto simp: list_all_iff code_def split: if_splits)
qed

lemma lex_escape_calm:
  assumes "whole (CHR 0x5C # c # r)"
  shows "case lex_escape single start c r of Inl e \<Rightarrow> e \<noteq> LexPanic | Inr (t, n) \<Rightarrow> whole (drop n (c # r))"
proof -
  have c: "code c < 128" "whole (c # r)" using assms whole_tl [OF assms] by (auto simp: whole_def code_def)
  then have r: "whole r" using whole_tl by blast
  show ?thesis
    using r unicode_escape_calm [of start r] whole_drop [OF r unicode_escape_ascii, of start]
    by (auto simp: lex_escape_def bindE_def split: sum.splits)
qed

lemma single_quoted_calm: "whole r \<Longrightarrow> calm (single_quoted start r s)"
proof (induction start r s rule: single_quoted.induct)
  case (2 start c r s)
  show ?case
  proof (cases "c = CHR 0x27")
    case True
    then have r: "whole r" using 2(4) whole_tl [of c r] by (simp add: code_def)
    then have "whole (tl r)" if "r \<noteq> []" "hd r = CHR 0x27"
      using that whole_tl by (cases r) (auto simp: code_def)
    then show ?thesis using True 2(1) r by auto
  next
    case False
    show ?thesis
    proof (cases "c = CHR 0x5C \<and> r \<noteq> []")
      case True
      then have "whole (CHR 0x5C # hd r # tl r)" using 2(4) by simp
      from lex_escape_calm [OF this, of True start] show ?thesis
        using 2(2) [OF False True] True by (auto split: sum.splits)
    next
      case *: False
      show ?thesis using 2(3) [OF False *] False * next_char_calm [OF 2(4)] by (auto split: sum.splits)
    qed
  qed
qed (simp add: whole_def)

lemma double_quoted_calm: "whole r \<Longrightarrow> calm (double_quoted start r s)"
proof (induction start r s rule: double_quoted.induct)
  case (2 start c r s)
  show ?case
  proof (cases "c = CHR 0x22")
    case True
    then show ?thesis using 2(3) whole_tl [of c r] by (simp add: code_def)
  next
    case False
    show ?thesis
    proof (cases "c = CHR 0x5C \<and> r \<noteq> []")
      case True
      then have "whole (CHR 0x5C # hd r # tl r)" using 2(3) by simp
      from lex_escape_calm [OF this, of False start] show ?thesis
        using 2(1) [OF False True] True by (auto split: sum.splits)
    next
      case *: False
      show ?thesis using 2(2) [OF False *] False * next_char_calm [OF 2(3)] by (auto split: sum.splits)
    qed
  qed
qed (simp add: whole_def)

lemma backtick_quoted_calm: "whole r \<Longrightarrow> calm (backtick_quoted r s)"
proof (induction r s rule: backtick_quoted.induct)
  case (2 c r s)
  show ?case
  proof (cases "c = CHR 0x60")
    case True
    then show ?thesis using 2(2) whole_tl [of c r] by (simp add: code_def)
  next
    case False
    show ?thesis using 2(1) [OF False] False next_char_calm [OF 2(2)] by (auto split: sum.splits)
  qed
qed (simp add: whole_def)

lemma num_chars_calm: "whole r \<Longrightarrow> num_chars d e r num = (num', d', r') \<Longrightarrow> whole r'"
proof (induction d e r num rule: num_chars.induct)
  case (2 d e c r num)
  have tl: "whole r" if "code c < 128" using whole_tl [OF "2.prems"(1) that] .
  have sign: "whole (tl r)" if "whole r" "r \<noteq> []" "hd r \<in> {CHR ''+'', CHR ''-''}"
    using that whole_tl [of "hd r" "tl r"] by (auto simp: code_def)
  have c: "code c < 128" if "is_ascii_digit c \<or> c \<in> {CHR ''.'', CHR ''e'', CHR ''E''}"
    using that by (auto simp: is_ascii_digit_def code_def)
  show ?case
    using "2.prems" "2.IH" tl sign c by (auto split: if_splits)
qed simp

lemma radix_token_calm: "whole rest \<Longrightarrow> calm (radix_token b m start ds rest)"
  by (simp add: radix_token_def Let_def lex_error_def overflow_error_def)

lemma number_token_calm: "number_token start num d \<noteq> Inl LexPanic"
  by (simp add: number_token_def lex_error_def overflow_error_def split: option.split)

lemma octdigit_ascii: "is_octdigit c \<Longrightarrow> code c < 128"
  by (simp add: is_octdigit_def)

lemma lex_number_calm:
  assumes "whole rest" and "rest \<noteq> []"
  shows "calm (lex_number start rest)"
proof -
  obtain c r where rest: "rest = c # r" using assms(2) by (cases rest) auto
  have tl: "whole (tl r)" if "c = CHR ''0''" "r \<noteq> []" "hd r \<in> {CHR ''x'', CHR ''X'', CHR ''o'', CHR ''O''}"
    using that assms(1) rest whole_tl [of c r] whole_tl [of "hd r" "tl r"] by (auto simp: code_def)
  have "calm (case num_chars False False rest [] of
      (num, has_dot, rest') \<Rightarrow> bindE (number_token start num has_dot) (\<lambda>t. Inr (t, rest')))"
    using num_chars_calm [OF assms(1), of False False "[]"] number_token_calm [of start]
    by (auto simp: bindE_def split: prod.split sum.split)
  then show ?thesis
    using tl rest radix_token_calm whole_dropWhile [OF tl] hex_ascii octdigit_ascii
    by (auto simp: lex_number_def Let_def)
qed

lemma word_char_ascii: "is_word_char c \<Longrightarrow> code c < 128" "is_ascii_alphabetic c \<Longrightarrow> code c < 128"
  "is_ascii_whitespace c \<Longrightarrow> code c < 128" "is_ascii_digit c \<Longrightarrow> code c < 128"
  by (auto simp: is_word_char_def is_ascii_alphanumeric_def is_ascii_alphabetic_def is_upper_def is_lower_def
      is_ascii_digit_def is_ascii_whitespace_def code_def)

lemma word_token_calm: "whole r \<Longrightarrow> word_token w r = (t, r') \<Longrightarrow> whole r'"
  using word_char_ascii
  by (auto simp: word_token_def two_words_def Let_def whole_dropWhile split: if_splits option.splits)

lemma first_prefix_calm:
  "first_prefix ps s = Some (t, r) \<Longrightarrow> list_all (\<lambda>(p, _). list_all (\<lambda>c. code c < 128) p) ps \<Longrightarrow> whole s \<Longrightarrow> whole r"
  using whole_drop by (induction ps s rule: first_prefix.induct) (auto simp: starts_with_def split: if_splits)

lemma skip_block_comment_calm: "skip_block_comment s = Some r \<Longrightarrow> \<exists>a. s = a @ CHR ''/'' # r"
proof (induction s rule: skip_block_comment.induct)
  case (1 a b s)
  show ?case
  proof (cases "a = CHR ''*'' \<and> b = CHR ''/''")
    case True
    then show ?thesis using 1(2) by (intro exI [of _ "[a]"]) simp
  next
    case False
    then obtain a' where "b # s = a' @ CHR ''/'' # r" using 1 by auto
    then show ?thesis by (intro exI [of _ "a # a'"]) simp
  qed
qed auto

lemma lex_step_calm:
  assumes w: "whole (c # r)"
  shows "calm (lex_step len (c # r))"
proof -
  let ?rest = "c # r"
  have tl: "whole r" if "code c < 128" using whole_tl [OF w that] .
  have line: "whole (dropWhile (\<lambda>c. c \<noteq> CHR 0x0A) ?rest)"
  proof (rule whole_suffix)
    show "whole (takeWhile (\<lambda>c. c \<noteq> CHR 0x0A) ?rest @ dropWhile (\<lambda>c. c \<noteq> CHR 0x0A) ?rest)"
      by (simp only: takeWhile_dropWhile_id w)
    show "dropWhile (\<lambda>c. c \<noteq> CHR 0x0A) ?rest = [] \<or> \<not> is_cont_char (hd (dropWhile (\<lambda>c. c \<noteq> CHR 0x0A) ?rest))"
      using hd_dropWhile [of "\<lambda>c. c \<noteq> CHR 0x0A" ?rest] by (auto simp: is_cont_char_def code_def dropWhile_eq_Nil_conv)
  qed
  have block: "whole r'" if "skip_block_comment (drop 2 ?rest) = Some r'" for r'
  proof -
    obtain a where a: "drop 2 ?rest = a @ CHR ''/'' # r'" using skip_block_comment_calm [OF \<open>skip_block_comment _ = _\<close>] by blast
    have "?rest = (take 2 ?rest @ a) @ CHR ''/'' # r'" by (metis a append_assoc append_take_drop_id)
    then have "whole (CHR ''/'' # r')" using w whole_suffix [of "take 2 ?rest @ a"] by (simp add: is_cont_char_def code_def)
    then show ?thesis by (rule whole_tl) (simp add: code_def)
  qed
  have quote: "calm (quoted_token f x)" if "calm x" for f and x :: "lex_failure + (string \<times> string)"
    using that by (cases x) (auto simp: quoted_token_def)
  have number: "calm (bindE (lex_number start ?rest) (\<lambda>(t, r'). Inr (Some t, r')))" for start
    using lex_number_calm [OF w, of start] by (cases "lex_number start ?rest") auto
  have word: "whole r'" if "word_token (takeWhile is_word_char ?rest) (dropWhile is_word_char ?rest) = (t, r')" for t r'
    using word_token_calm [OF whole_dropWhile [OF w word_char_ascii(1)] that] .
  have punct: "whole r'" if "first_prefix punctuation ?rest = Some (t, r')" for t r'
    by (rule first_prefix_calm [OF that _ w]) (simp add: punctuation_def code_def)
  have ascii: "code c < 128" if "is_ascii_whitespace c \<or> c \<in> {CHR 0x27, CHR 0x22, CHR 0x60, CHR ''$''}"
    using that word_char_ascii(3) by (auto simp: code_def)
  have r: "whole r" if "is_ascii_whitespace c \<or> c \<in> {CHR 0x27, CHR 0x22, CHR 0x60, CHR ''$''}"
    by (rule tl, rule ascii, rule that)
  have par: "whole (dropWhile is_word_char r)" if "c = CHR ''$''"
    using whole_dropWhile [OF r word_char_ascii(1)] that by simp
  show ?thesis
    using r par line block number word punct
    unfolding lex_step_def Let_def list.sel
    by (auto simp: lex_error_def quote single_quoted_calm double_quoted_calm backtick_quoted_calm
        split: option.splits prod.splits)
qed

lemma lex_loop_calm: "whole rest \<Longrightarrow> lex_loop len rest toks \<noteq> Inl LexPanic"
proof (induction len rest toks rule: lex_loop.induct)
  case (2 len c r toks)
  have calm: "calm (lex_step len (c # r))" by (rule lex_step_calm [OF "2.prems"])
  show ?case
  proof (cases "lex_step len (c # r)")
    case (Inl e)
    then show ?thesis using calm by simp
  next
    case (Inr x)
    obtain t r' where x: "x = (t, r')" by (cases x)
    have r': "whole r'" using calm Inr x by simp
    show ?thesis
    proof (cases t)
      case None
      then show ?thesis using "2.IH"(1) [OF Inr x [symmetric] None r'] Inr x by simp
    next
      case (Some t')
      then show ?thesis using "2.IH"(2) [OF Inr x [symmetric] Some r'] Inr x by simp
    qed
  qed
qed simp

lemma lex_calm: "whole s \<Longrightarrow> lex s \<noteq> Inl LexPanic"
  by (simp add: lex_def lex_loop_calm)

end
