(* ===== verification/CypherWf.thy ===== *)
theory CypherWf
  imports CypherClauses CypherLexFacts
begin

text \<open>
  Well-formed syntax trees, and the two judgements on parser methods by which \<open>CypherTotal\<close> shows that
  the parser returns and that what it returns is well formed: \<open>runs m Q f\<close> says that from a state with
  fewer than \<open>m\<close> tokens left \<open>f\<close> is not out of fuel, and that a value it returns satisfies \<open>Q\<close>;
  \<open>eats m Q f\<close> says in addition that \<open>f\<close> has consumed a token then.
\<close>

section \<open>Well-formed syntax trees\<close>

fun alternates :: "'e PatternElement list \<Rightarrow> bool" where
  "alternates [Node _] = True"
| "alternates (Node _ # Relationship _ # es) = alternates es"
| "alternates _ = False"

definition pattern_shape :: "'e Pattern \<Rightarrow> bool" where
  "pattern_shape p \<longleftrightarrow> alternates (elements p)"

definition constant_bound :: "Expr option \<Rightarrow> bool" where
  "constant_bound b \<longleftrightarrow> (case b of None \<Rightarrow> True | Some e \<Rightarrow> validate_skip_limit_expr e [] = Inr ())"

fun set_item_shape :: "Expr SetItem \<Rightarrow> bool" where
  "set_item_shape (SetProperty lhs _) = (\<exists>v k. lhs = Property (Variable v) k)"
| "set_item_shape (SetLabel _ labels) = (labels \<noteq> [])"
| "set_item_shape _ = True"

fun remove_item_shape :: "Expr RemoveItem \<Rightarrow> bool" where
  "remove_item_shape (RemoveProperty e _) = (\<exists>v. e = Variable v)"
| "remove_item_shape (RemoveLabel _ labels) = (labels \<noteq> [])"

fun is_terminal :: "'e QueryClause \<Rightarrow> bool" where
  "is_terminal (Return _ _ _ _ _) = True"
| "is_terminal ShowIndexes = True"
| "is_terminal ShowConstraints = True"
| "is_terminal _ = False"

fun is_write :: "'e QueryClause \<Rightarrow> bool" where
  "is_write (Create _) = True"
| "is_write (Delete _ _) = True"
| "is_write (SetClause _) = True"
| "is_write (Remove _) = True"
| "is_write (Merge _ _ _) = True"
| "is_write (Foreach _ _ _) = True"
| "is_write _ = False"

text \<open>A terminal clause stands last, and before a \<open>UNION\<close> there is one.\<close>

definition pipeline :: "'e QueryClause list \<Rightarrow> bool \<Rightarrow> bool" where
  "pipeline cs has_union \<longleftrightarrow>
     list_all (\<lambda>c. \<not> is_terminal c) (butlast cs) \<and>
     (has_union \<longrightarrow> cs \<noteq> [] \<and> is_terminal (last cs))"

inductive clause_shape :: "clause \<Rightarrow> bool" and query_shape :: "query \<Rightarrow> bool" where
  match_shape: "list_all pattern_shape ps \<Longrightarrow> clause_shape (Match is_opt ps w)"
| unwind_shape: "clause_shape (Unwind e v)"
| subquery_shape: "query_shape q \<Longrightarrow> clause_shape (CallSubquery q)"
| procedure_shape: "(implicit \<longrightarrow> args = []) \<Longrightarrow> clause_shape (CallProcedure name args ys implicit)"
| with_shape:
    "items \<noteq> [] \<Longrightarrow> constant_bound skip \<Longrightarrow> constant_bound limit \<Longrightarrow>
     clause_shape (With dis items order_by skip limit w)"
| return_shape:
    "items \<noteq> [] \<Longrightarrow> constant_bound skip \<Longrightarrow> constant_bound limit \<Longrightarrow>
     clause_shape (Return dis items order_by skip limit)"
| create_shape: "list_all pattern_shape ps \<Longrightarrow> clause_shape (Create ps)"
| merge_shape:
    "pattern_shape p \<Longrightarrow> list_all set_item_shape on_create \<Longrightarrow> list_all set_item_shape on_match \<Longrightarrow>
     clause_shape (Merge p on_create on_match)"
| set_shape: "items \<noteq> [] \<Longrightarrow> list_all set_item_shape items \<Longrightarrow> clause_shape (SetClause items)"
| remove_shape: "items \<noteq> [] \<Longrightarrow> list_all remove_item_shape items \<Longrightarrow> clause_shape (Remove items)"
| delete_shape: "es \<noteq> [] \<Longrightarrow> clause_shape (Delete es detach)"
| foreach_shape: "\<forall>c \<in> set cs. is_write c \<and> clause_shape c \<Longrightarrow> clause_shape (Foreach v e cs)"
| create_index_shape: "clause_shape (CreateIndex label prop)"
| drop_index_shape: "clause_shape (DropIndex label prop)"
| show_indexes_shape: "clause_shape ShowIndexes"
| create_constraint_shape:
    "kind \<in> {''UNIQUE'', ''EXISTS''} \<Longrightarrow> clause_shape (CreateConstraint label prop kind)"
| drop_constraint_shape:
    "kind \<in> {''UNIQUE'', ''EXISTS''} \<Longrightarrow> clause_shape (DropConstraint label prop kind)"
| show_constraints_shape: "clause_shape ShowConstraints"
| single_query: "\<forall>c \<in> set cs. clause_shape c \<Longrightarrow> pipeline cs False \<Longrightarrow> query_shape (Query cs None)"
| union_query:
    "\<forall>c \<in> set cs. clause_shape c \<Longrightarrow> pipeline cs True \<Longrightarrow> query_shape q \<Longrightarrow> \<not> mixes_union all q \<Longrightarrow>
     query_shape (Query cs (Some (all, q)))"

text \<open>
  Every expression inside: integer literals are those the source can denote, floats are finite, label
  tests name a label, patterns alternate, and subqueries have the shape of queries.
\<close>

inductive wf_expr :: "Expr \<Rightarrow> bool" where
  "wf_expr (Variable v)"
| "wf_expr e \<Longrightarrow> wf_expr (Property e k)"
| "0 \<le> sint n \<or> n = i64_MIN \<Longrightarrow> wf_expr (IntLit n)"
| "unat f < F64_INFINITY \<Longrightarrow> wf_expr (FloatLit f)"
| "wf_expr (StringLit s)"
| "wf_expr (BoolLit b)"
| "wf_expr NullLit"
| "wf_expr (Parameter s)"
| "wf_expr a \<Longrightarrow> wf_expr b \<Longrightarrow> wf_expr (Compare a op b)"
| "wf_expr a \<Longrightarrow> wf_expr b \<Longrightarrow> wf_expr (And a b)"
| "wf_expr a \<Longrightarrow> wf_expr b \<Longrightarrow> wf_expr (Or a b)"
| "wf_expr a \<Longrightarrow> wf_expr b \<Longrightarrow> wf_expr (Xor a b)"
| "wf_expr a \<Longrightarrow> wf_expr (Not a)"
| "wf_expr a \<Longrightarrow> wf_expr (IsNull a)"
| "wf_expr a \<Longrightarrow> wf_expr (IsNotNull a)"
| "wf_expr a \<Longrightarrow> wf_expr b \<Longrightarrow> wf_expr (Arith a aop b)"
| "wf_expr a \<Longrightarrow> wf_expr (Neg a)"
| "\<forall>a \<in> set args. wf_expr a \<Longrightarrow> wf_expr (FunctionCall f args)"
| "wf_expr Star"
| "\<forall>a \<in> set args. wf_expr a \<Longrightarrow> wf_expr (List args)"
| "wf_expr a \<Longrightarrow> wf_expr b \<Longrightarrow> wf_expr (InList a b)"
| "wf_expr a \<Longrightarrow> wf_expr b \<Longrightarrow> wf_expr (StartsWith a b)"
| "wf_expr a \<Longrightarrow> wf_expr b \<Longrightarrow> wf_expr (EndsWith a b)"
| "wf_expr a \<Longrightarrow> wf_expr b \<Longrightarrow> wf_expr (Contains a b)"
| "wf_expr a \<Longrightarrow> wf_expr b \<Longrightarrow> wf_expr (Regex a b)"
| "\<forall>b \<in> set bs. wf_expr (fst b) \<and> wf_expr (snd b) \<Longrightarrow> \<forall>e \<in> set_option d. wf_expr e \<Longrightarrow>
   wf_expr (CaseSearched bs d)"
| "wf_expr a \<Longrightarrow> \<forall>b \<in> set bs. wf_expr (fst b) \<and> wf_expr (snd b) \<Longrightarrow> \<forall>e \<in> set_option d. wf_expr e \<Longrightarrow>
   wf_expr (CaseSimple a bs d)"
| "wf_expr l \<Longrightarrow> \<forall>e \<in> set_option pr. wf_expr e \<Longrightarrow> \<forall>e \<in> set_option pj. wf_expr e \<Longrightarrow>
   wf_expr (ListComprehension v l pr pj)"
| "wf_expr l \<Longrightarrow> wf_expr pd \<Longrightarrow> wf_expr (ListPredicate kind v l pd)"
| "wf_expr a \<Longrightarrow> wf_expr i \<Longrightarrow> wf_expr (Subscript a i)"
| "wf_expr l \<Longrightarrow> \<forall>e \<in> set_option lo. wf_expr e \<Longrightarrow> \<forall>e \<in> set_option hi. wf_expr e \<Longrightarrow>
   wf_expr (ListSlice l lo hi)"
| "pattern_shape p \<Longrightarrow> \<forall>e \<in> set_Pattern p. wf_expr e \<Longrightarrow> wf_expr (ShortestPath every p)"
| "pattern_shape p \<Longrightarrow> \<forall>e \<in> set_Pattern p. wf_expr e \<Longrightarrow> \<forall>e \<in> set_option pr. wf_expr e \<Longrightarrow> wf_expr pj \<Longrightarrow>
   wf_expr (PatternComprehension v p pr pj)"
| "query_shape q \<Longrightarrow> \<forall>e \<in> set_Query q. wf_expr e \<Longrightarrow> wf_expr (Exists q implicit)"
| "wf_expr a \<Longrightarrow> labels \<noteq> [] \<Longrightarrow> wf_expr (HasLabel a labels)"
| "\<forall>kv \<in> set kvs. wf_expr (snd kv) \<Longrightarrow> wf_expr (MapLiteral kvs)"

definition wf_query :: "query \<Rightarrow> bool" where
  "wf_query q \<longleftrightarrow> query_shape q \<and> (\<forall>e \<in> set_Query q. wf_expr e)"

definition wf_clause :: "clause \<Rightarrow> bool" where
  "wf_clause c \<longleftrightarrow> clause_shape c \<and> (\<forall>e \<in> set_QueryClause c. wf_expr e)"

definition wf_pattern :: "Expr Pattern \<Rightarrow> bool" where
  "wf_pattern p \<longleftrightarrow> pattern_shape p \<and> (\<forall>e \<in> set_Pattern p. wf_expr e)"

definition wf_entries :: "(string \<times> Expr) list \<Rightarrow> bool" where
  "wf_entries kvs \<longleftrightarrow> (\<forall>kv \<in> set kvs. wf_expr (snd kv))"

section \<open>Judgements on parser methods\<close>

definition wf_parser :: "Parser \<Rightarrow> bool" where
  "wf_parser p \<longleftrightarrow>
     pos p < length (tokens p) \<and>
     token (last (tokens p)) = Eof \<and>
     length (source p) \<le> st_offset (last (tokens p)) \<and>
     list_all (\<lambda>t. token_ok (token t)) (butlast (tokens p))"

definition remaining :: "Parser \<Rightarrow> nat" where
  "remaining p = length (tokens p) - 1 - pos p"

definition after :: "bool \<Rightarrow> Parser \<Rightarrow> Parser \<Rightarrow> bool" where
  "after k p p' \<longleftrightarrow> wf_parser p' \<and> tokens p' = tokens p \<and> source p' = source p \<and> remaining p' + (if k then 1 else 0) \<le> remaining p"

text \<open>The number of tokens left behind a consumed one.\<close>

definition dec :: "nat \<Rightarrow> nat" where
  "dec m = m - 1"

lemma dec_le [simp]: "dec m \<le> m"
  by (simp add: dec_def)

lemma dec_le_trans [simp]: "m \<le> n \<Longrightarrow> dec m \<le> n"
  by (simp add: dec_def)

lemma dec_mono [simp]: "m \<le> Suc n \<Longrightarrow> dec m \<le> n"
  by (simp add: dec_def)

lemma dec_Suc [simp]: "dec (Suc n) = n"
  by (simp add: dec_def)

fun good_result :: "bool \<Rightarrow> ('a \<Rightarrow> bool) \<Rightarrow> Parser \<Rightarrow> (ParseError + 'a \<times> Parser) option \<Rightarrow> bool" where
  "good_result k Q p None = False"
| "good_result k Q p (Some (Inl _)) = True"
| "good_result k Q p (Some (Inr (a, p'))) = (after k p p' \<and> Q a)"

definition costs :: "bool \<Rightarrow> nat \<Rightarrow> ('a \<Rightarrow> bool) \<Rightarrow> 'a parser \<Rightarrow> bool" where
  "costs k m Q f \<longleftrightarrow> (\<forall>p. wf_parser p \<longrightarrow> remaining p < m \<longrightarrow> good_result k Q p (f p))"

abbreviation runs :: "nat \<Rightarrow> ('a \<Rightarrow> bool) \<Rightarrow> 'a parser \<Rightarrow> bool" where
  "runs \<equiv> costs False"

abbreviation eats :: "nat \<Rightarrow> ('a \<Rightarrow> bool) \<Rightarrow> 'a parser \<Rightarrow> bool" where
  "eats \<equiv> costs True"

lemma costsI:
  "(\<And>p. wf_parser p \<Longrightarrow> remaining p < m \<Longrightarrow> good_result k Q p (f p)) \<Longrightarrow> costs k m Q f"
  by (simp add: costs_def)

lemma costsD: "costs k m Q f \<Longrightarrow> wf_parser p \<Longrightarrow> remaining p < m \<Longrightarrow> good_result k Q p (f p)"
  by (simp add: costs_def)

lemma good_result_cases:
  assumes "good_result k Q p r"
  obtains (fails) e where "r = Some (Inl e)"
    | (returns) a p' where "r = Some (Inr (a, p'))" "after k p p'" "Q a"
  using assms by (cases "(k, Q, p, r)" rule: good_result.cases) auto

lemma good_result_weaken:
  "good_result k P p r \<Longrightarrow> (j \<longrightarrow> k) \<Longrightarrow> (\<And>a. P a \<Longrightarrow> Q a) \<Longrightarrow> good_result j Q p r"
  by (erule good_result_cases) (auto simp: after_def split: if_splits)

lemma costs_weaken:
  assumes "costs k m P f" and "j \<longrightarrow> k" and "m' \<le> m" and "\<And>a. P a \<Longrightarrow> Q a"
  shows "costs j m' Q f"
  by (rule costsI, rule good_result_weaken, rule costsD [OF assms(1)]) (use assms in auto)

lemma eats_runs: "eats m Q f \<Longrightarrow> runs m Q f"
  by (erule costs_weaken) simp_all

lemma costs_less: "costs k m Q f \<Longrightarrow> m' \<le> m \<Longrightarrow> costs k m' Q f"
  by (erule costs_weaken) simp_all

lemma costs_post: "costs k m P f \<Longrightarrow> (\<And>a. P a \<Longrightarrow> Q a) \<Longrightarrow> costs k m Q f"
  by (erule costs_weaken) simp_all

lemma after_refl: "wf_parser p \<Longrightarrow> after False p p"
  by (simp add: after_def)

lemma after_trans: "after j p p' \<Longrightarrow> after k p' p'' \<Longrightarrow> after (j \<or> k) p p''"
  by (auto simp: after_def)

lemma costs_ret: "Q a \<Longrightarrow> runs m Q (ret a)"
  by (rule costsI) (simp add: ret_def after_refl)

lemma costs_fail_at: "costs k m Q (fail_at msg off)"
  by (rule costsI) (simp add: fail_at_def)

lemma costs_failP: "costs k m Q (failP msg)"
  by (rule costsI) (simp add: failP_def fail_at_def)

lemma bindP_at: "f p = Some (Inr (a, p')) \<Longrightarrow> bindP f g p = g a p'"
  by (simp add: bindP_def)

lemma good_bind:
  assumes f: "good_result j P p (f p)" and g: "\<And>a. P a \<Longrightarrow> costs k (if j then dec m else m) Q (g a)"
    and p: "remaining p < m"
  shows "good_result (j \<or> k) Q p (bindP f g p)"
  using f
proof (cases rule: good_result_cases)
  case (fails e)
  then show ?thesis by (simp add: bindP_def)
next
  case (returns a p')
  then have "wf_parser p'" "remaining p' < (if j then dec m else m)"
    using p by (auto simp: after_def dec_def split: if_splits)
  from costsD [OF g [OF returns(3)] this] show ?thesis
    by (cases rule: good_result_cases) (auto simp: bindP_def returns(1) intro: after_trans [OF returns(2)])
qed

lemma good_bind_then:
  "good_result True P p (f p) \<Longrightarrow> (\<And>a. P a \<Longrightarrow> runs (dec m) Q (g a)) \<Longrightarrow> remaining p < m \<Longrightarrow>
   good_result True Q p (bindP f g p)"
  using good_bind [where j = True and k = False and f = f and g = g and m = m] by simp

lemma costs_bind:
  assumes "costs j m P f" and "\<And>a. P a \<Longrightarrow> costs k (if j then dec m else m) Q (g a)"
  shows "costs (j \<or> k) m Q (bindP f g)"
  by (rule costsI, rule good_bind [OF costsD [OF assms(1)]]) (use assms(2) in auto)

lemma runs_bind: "runs m P f \<Longrightarrow> (\<And>a. P a \<Longrightarrow> runs m Q (g a)) \<Longrightarrow> runs m Q (bindP f g)"
  using costs_bind [of False m P f False Q g] by simp

lemma eats_bind_then: "eats m P f \<Longrightarrow> (\<And>a. P a \<Longrightarrow> runs (dec m) Q (g a)) \<Longrightarrow> eats m Q (bindP f g)"
  using costs_bind [of True m P f False Q g] by simp

lemma eats_bind: "runs m P f \<Longrightarrow> (\<And>a. P a \<Longrightarrow> eats m Q (g a)) \<Longrightarrow> eats m Q (bindP f g)"
  using costs_bind [of False m P f True Q g] by simp

lemma runs_bind_then: "eats m P f \<Longrightarrow> (\<And>a. P a \<Longrightarrow> runs (dec m) Q (g a)) \<Longrightarrow> runs m Q (bindP f g)"
  by (rule eats_runs) (rule eats_bind_then)

lemma runs_then: "runs m P f \<Longrightarrow> runs m Q g \<Longrightarrow> runs m Q (thenP f g)"
  unfolding thenP_def [abs_def] by (rule runs_bind)

lemma eats_then: "eats m P f \<Longrightarrow> runs (dec m) Q g \<Longrightarrow> eats m Q (thenP f g)"
  unfolding thenP_def [abs_def] by (rule eats_bind_then)

lemma costs_branch: "costs k m Q f \<Longrightarrow> costs k m Q g \<Longrightarrow> costs k m Q (branch c f g)"
  by (simp add: costs_def branch_def)

section \<open>The next token\<close>

lemma tokens_last: "wf_parser p \<Longrightarrow> \<exists>ts e. tokens p = ts @ [e] \<and> token e = Eof"
  by (cases "tokens p" rule: rev_cases) (auto simp: wf_parser_def)

lemma peek_last:
  assumes "wf_parser p" and "remaining p = 0"
  shows "peek p = Eof"
proof -
  obtain ts e where "tokens p = ts @ [e]" "token e = Eof" using tokens_last [OF assms(1)] by blast
  moreover from this have "pos p = length ts" using assms by (simp add: wf_parser_def remaining_def)
  ultimately show ?thesis by (simp add: peek_def)
qed

lemma peek_before:
  assumes "wf_parser p" and "0 < remaining p"
  shows "token_ok (peek p)"
proof -
  obtain ts e where ts: "tokens p = ts @ [e]" using tokens_last [OF assms(1)] by blast
  then have "pos p < length ts" using assms(2) by (simp add: remaining_def)
  then show ?thesis
    using assms(1) ts by (simp add: wf_parser_def peek_def nth_append list_all_length)
qed

lemma peek_ok: "wf_parser p \<Longrightarrow> peek p \<noteq> Eof \<Longrightarrow> token_ok (peek p) \<and> 0 < remaining p"
  using peek_last peek_before by blast

lemma offset_at_end:
  assumes "wf_parser p" and "peek p = Eof"
  shows "length (source p) \<le> offset p"
proof -
  have "remaining p = 0" using peek_before [OF assms(1)] assms(2) by fastforce
  moreover obtain ts e where ts: "tokens p = ts @ [e]" using tokens_last [OF assms(1)] by blast
  ultimately have "pos p = length ts" using assms(1) by (simp add: wf_parser_def remaining_def)
  then show ?thesis using assms(1) ts by (simp add: wf_parser_def offset_def)
qed

lemma advance_good: "wf_parser p \<Longrightarrow> peek p \<noteq> Eof \<Longrightarrow> good_result True (\<lambda>_. True) p (advance p)"
  using peek_ok [of p] by (auto simp: advance_def ret_def after_def wf_parser_def remaining_def)

text \<open>A method that advances behind a test that the input is not at its end.\<close>

lemma advance_then_good:
  assumes "wf_parser p" and "remaining p < m" and "peek p \<noteq> Eof" and "runs (dec m) Q f"
  shows "good_result True Q p (thenP advance f p)"
proof -
  have "costs True m (\<lambda>_. True) (\<lambda>q. if q = p then advance p else fail_at (Message []) 0 q)"
    by (rule costsI) (use advance_good [OF assms(1,3)] in \<open>auto simp: fail_at_def\<close>)
  then have "eats m Q (bindP (\<lambda>q. if q = p then advance p else fail_at (Message []) 0 q) (\<lambda>_. f))"
    by (rule eats_bind_then) (rule assms(4))
  from costsD [OF this assms(1,2)] show ?thesis by (simp add: thenP_def bindP_def)
qed

lemma eats_advance_if:
  assumes "\<And>p. c p \<Longrightarrow> peek p \<noteq> Eof" and "runs (dec m) Q f" and "eats m Q g"
  shows "eats m Q (branch c (thenP advance f) g)"
  by (rule costsI)
    (use assms advance_then_good [of _ m Q f] costsD [OF assms(3)] in \<open>auto simp: branch_def\<close>)

lemma runs_advance_if:
  assumes "\<And>p. c p \<Longrightarrow> peek p \<noteq> Eof" and "runs (dec m) Q f" and "runs m Q g"
  shows "runs m Q (branch c (thenP advance f) g)"
proof (rule costsI)
  fix p assume p: "wf_parser p" "remaining p < m"
  show "good_result False Q p (branch c (thenP advance f) g p)"
    using costsD [OF assms(3) p] assms(1) [of p]
      good_result_weaken [OF advance_then_good [OF p _ assms(2)], of False Q]
    by (auto simp: branch_def)
qed

lemma runs_advance: "runs m (\<lambda>_. True) advance"
  by (rule costsI) (auto simp: advance_def ret_def after_def wf_parser_def remaining_def)

lemma eats_opt: "t \<noteq> Eof \<Longrightarrow> runs (dec m) Q f \<Longrightarrow> eats m Q g \<Longrightarrow> eats m Q (opt t f g)"
  unfolding opt_def [abs_def] by (rule eats_advance_if) auto

lemma runs_opt: "t \<noteq> Eof \<Longrightarrow> runs (dec m) Q f \<Longrightarrow> runs m Q g \<Longrightarrow> runs m Q (opt t f g)"
  unfolding opt_def [abs_def] by (rule runs_advance_if) auto

lemma eats_expect: "t \<noteq> Eof \<Longrightarrow> eats m (\<lambda>_. True) (expect t)"
  by (rule costsI) (use advance_good in \<open>auto simp: expect_def failP_def fail_at_def\<close>)

lemma costs_case_prod:
  "(\<And>x y. a = (x, y) \<Longrightarrow> costs k m Q (g x y)) \<Longrightarrow> costs k m Q (case a of (x, y) \<Rightarrow> g x y)"
  by (cases a) simp

end
