(* ===== verification/CypherTotal.thy ===== *)
theory CypherTotal
  imports CypherWf
begin

text \<open>
  The parser returns, and returns well-formed trees: one lemma per method of \<open>CypherParser\<close> and
  \<open>CypherClauses\<close>, in their order. A method that calls \<open>parse_expr\<close> behind a token needs it only for
  states with fewer tokens left, which is how the induction on the bound closes.
\<close>

section \<open>Rules behind the first token\<close>

lemma runs_opt_same: "t \<noteq> Eof \<Longrightarrow> runs m Q f \<Longrightarrow> runs m Q g \<Longrightarrow> runs m Q (opt t f g)"
  by (rule runs_opt) (auto intro: costs_less)

lemma runs_expect: "t \<noteq> Eof \<Longrightarrow> runs m (\<lambda>_. True) (expect t)"
  by (rule eats_runs) (rule eats_expect)

lemma costs_pred: "costs k m Q f \<Longrightarrow> costs k (dec m) Q f"
  by (erule costs_less) simp

lemma eats_runs_pred: "eats m Q f \<Longrightarrow> runs (dec m) Q f"
  by (rule eats_runs) (rule costs_pred)

lemma costs_vacuous: "costs k 0 Q f"
  by (simp add: costs_def)

lemmas runs_rules =
  costs_case_prod costs_ret costs_failP costs_fail_at runs_bind runs_then runs_opt_same runs_expect
  costs_branch

named_theorems method_runs \<open>what the methods do behind the first token\<close>

lemma advance_ret_good:
  "wf_parser p \<Longrightarrow> peek p \<noteq> Eof \<Longrightarrow> Q a \<Longrightarrow> good_result True Q p (thenP advance (ret a) p)"
  by (rule advance_then_good [where m = "Suc (remaining p)"]) (auto intro: costs_ret)

lemmas Suc_eqs = ext [OF comma_tail.simps(2)] ext [OF colon_labels.simps(2)] ext [OF more_types.simps(2)]
  ext [OF pattern_elements.simps(2)] ext [OF parse_unary.simps(2)] ext [OF parse_not.simps(2)]
  ext [OF test_labels.simps(2)] ext [OF property_chain.simps(2)] ext [OF case_branches.simps(2)]
  ext [OF procedure_name.simps(2)] ext [OF merge_actions.simps(2)] ext [OF nested_foreach_body.simps(2)]
  ext [OF foreach_body.simps(2)] ext [OF parse_clauses.simps(2)]

section \<open>Lists and identifiers\<close>

lemma comma_tail_runs:
  "m \<le> n \<Longrightarrow> eats (dec m) P f \<Longrightarrow> list_all P acc \<Longrightarrow> acc \<noteq> [] \<Longrightarrow>
   runs m (\<lambda>xs. list_all P xs \<and> xs \<noteq> []) (comma_tail n f acc)"
proof (induction n arbitrary: m acc)
  case (Suc n)
  have "runs (dec m) (\<lambda>xs. list_all P xs \<and> xs \<noteq> []) (bindP f (\<lambda>x. comma_tail n f (acc @ [x])))"
    by (rule runs_bind [OF eats_runs [OF Suc.prems(2)]], rule Suc.IH)
      (use Suc.prems in \<open>auto intro: costs_pred\<close>)
  then show ?case
    unfolding Suc_eqs by (rule runs_opt [rotated]) (use Suc.prems in \<open>auto intro: costs_ret\<close>)
qed (simp add: costs_vacuous)

lemma comma_list_eats:
  "m \<le> n \<Longrightarrow> eats m P f \<Longrightarrow> eats m (\<lambda>xs. list_all P xs \<and> xs \<noteq> []) (comma_list n f)"
  unfolding comma_list_def [abs_def]
  by (rule eats_bind_then, assumption, rule comma_tail_runs) (auto intro: costs_pred)

lemma comma_list_until_runs:
  "m \<le> n \<Longrightarrow> eats m P f \<Longrightarrow> runs m (list_all P) (comma_list_until n close f)"
  unfolding comma_list_until_def [abs_def]
  by (rule costs_branch, rule costs_weaken, rule comma_list_eats, assumption+) (auto intro: costs_ret)

lemma optional_runs:
  "t \<noteq> Eof \<Longrightarrow> runs (dec m) P f \<Longrightarrow> runs m (\<lambda>x. \<forall>e \<in> set_option x. P e) (optional t f)"
  unfolding optional_def [abs_def]
  by (rule runs_opt, assumption, rule runs_bind, assumption) (auto intro: costs_ret)

lemma optional_runs_same:
  "t \<noteq> Eof \<Longrightarrow> runs m P f \<Longrightarrow> runs m (\<lambda>x. \<forall>e \<in> set_option x. P e) (optional t f)"
  by (rule optional_runs) (auto intro: costs_pred)

lemma eat_ident_eats: "eats m (\<lambda>_. True) eat_ident"
  by (rule costsI)
    (auto simp: eat_ident_def failP_def fail_at_def split: Token.splits intro: advance_ret_good)

lemma eat_ident_flexible_eats: "eats m (\<lambda>_. True) eat_ident_flexible"
  by (rule costsI)
    (auto simp: eat_ident_flexible_def failP_def fail_at_def split: Token.splits option.splits
       intro: advance_ret_good)

lemma eat_map_key_eats: "eats m (\<lambda>_. True) eat_map_key"
proof (rule costsI)
  fix p assume p: "wf_parser p" "remaining p < m"
  have "good_result True (\<lambda>_. True) p (eat_ident_flexible p)"
    by (rule costsD [OF eat_ident_flexible_eats p])
  moreover have "good_result True (\<lambda>_. True) p (thenP advance (ret a) p)" if "peek p \<noteq> Eof" for a
    using p(1) that by (intro advance_ret_good) auto
  moreover have "eat_ident_flexible p = failP ExpectedIdentifier p" if "peek p = Eof"
    using that by (simp add: eat_ident_flexible_def)
  moreover have "drop (offset p) (source p) = []" if "peek p = Eof"
    using offset_at_end [OF p(1) that] by simp
  ultimately show "good_result True (\<lambda>_. True) p (eat_map_key p)"
    by (cases "peek p = Eof") (auto simp: eat_map_key_def Let_def split: Token.splits)
qed

lemma colon_labels_runs: "m \<le> n \<Longrightarrow> runs m (\<lambda>_. True) (colon_labels n ls)"
proof (induction n arbitrary: m ls)
  case (Suc n)
  show ?case
    unfolding Suc_eqs
    by (rule runs_opt, simp, rule runs_bind [OF eats_runs [OF eat_ident_flexible_eats]])
      (use Suc in \<open>auto intro: costs_ret\<close>)
qed (simp add: costs_vacuous)

section \<open>Patterns\<close>

lemma peek_at_before: "wf_parser p \<Longrightarrow> peek_at p k \<noteq> Eof \<Longrightarrow> k < remaining p"
proof (rule ccontr)
  assume p: "wf_parser p" and k: "peek_at p k \<noteq> Eof" "\<not> k < remaining p"
  obtain ts e where ts: "tokens p = ts @ [e]" "token e = Eof" using tokens_last [OF p] by blast
  then have "min (pos p + k) (length (tokens p) - 1) = length ts"
    using k(2) by (simp add: remaining_def)
  then show False using k(1) ts by (simp add: peek_at_def)
qed

lemma skip_labels_fuel: "wf_parser p \<Longrightarrow> remaining p - off < n \<Longrightarrow> skip_labels n p off \<noteq> None"
proof (induction n arbitrary: off)
  case (Suc n)
  then show ?case using peek_at_before [of p off] by auto
qed simp

lemma skip_braces_fuel: "wf_parser p \<Longrightarrow> remaining p - off < n \<Longrightarrow> skip_braces n p depth off \<noteq> None"
proof (induction n arbitrary: off depth)
  case (Suc n)
  then show ?case using peek_at_before [of p off] by auto
qed simp

lemma looks_like_pattern_predicate_returns:
  assumes "wf_parser p" and "remaining p < n"
  shows "\<exists>b. looks_like_pattern_predicate n p = Some (Inr (b, p))"
proof -
  have "skip_labels n p off \<noteq> None" "skip_braces n p d off \<noteq> None" for off d
    using assms skip_labels_fuel skip_braces_fuel by auto
  then show ?thesis
    by (auto simp: looks_like_pattern_predicate_def Let_def ret_def simp del: not_None_eq
             split: option.splits)
qed

lemma property_entry_eats:
  "eats (dec m) wf_expr pe \<Longrightarrow> eats m (\<lambda>kv. wf_expr (snd kv)) (property_entry pe)"
  unfolding property_entry_def [abs_def]
  by (rule eats_bind_then [OF eat_map_key_eats], rule runs_then, rule runs_expect, simp,
      rule runs_bind, erule eats_runs) (auto intro: costs_ret)

lemma parse_property_map_eats:
  assumes "m \<le> n" and "eats (dec m) wf_expr pe"
  shows "eats m wf_entries (parse_property_map n pe)"
proof -
  have entries: "runs (dec m) (list_all (\<lambda>kv. wf_expr (snd kv))) (comma_list_until n (Sym RBrace) (property_entry pe))"
    by (rule comma_list_until_runs, use assms in simp, rule property_entry_eats, rule costs_pred, rule assms)
  show ?thesis
    unfolding parse_property_map_def [abs_def]
    by (rule eats_then [OF eats_expect], simp, rule runs_bind [OF entries])
      (auto intro!: runs_then [OF runs_expect] costs_ret simp: wf_entries_def list_all_iff)
qed

lemma optional_variable_runs: "runs m (\<lambda>_. True) optional_variable"
  unfolding optional_variable_def [abs_def]
  by (rule costs_branch, rule runs_bind, rule eats_runs [OF eat_ident_eats]) (auto intro: costs_ret)

definition wf_node :: "Expr NodePattern \<Rightarrow> bool" where
  "wf_node n \<longleftrightarrow> (\<forall>e \<in> set_NodePattern n. wf_expr e)"

definition wf_rel :: "Expr RelPattern \<Rightarrow> bool" where
  "wf_rel r \<longleftrightarrow> (\<forall>e \<in> set_RelPattern r. wf_expr e)"

lemma parse_node_pattern_eats:
  assumes "m \<le> n" and "eats (dec m) wf_expr pe"
  shows "eats m wf_node (parse_node_pattern n pe)"
proof -
  have map: "runs (dec m) (\<lambda>pb. wf_entries (fst pb))
      (branch (\<lambda>p. peek p = Sym LBrace)
        (bindP (parse_property_map n pe) (\<lambda>ps. ret (ps, True))) (ret ([], False)))"
    by (rule costs_branch, rule runs_bind, rule eats_runs, rule parse_property_map_eats,
        use assms(1) in simp, rule costs_pred, rule assms(2), rule costs_ret, simp,
        rule costs_ret, simp add: wf_entries_def)
  show ?thesis
    unfolding parse_node_pattern_def [abs_def]
    by (rule eats_then [OF eats_expect], simp, rule runs_bind [OF optional_variable_runs],
        rule runs_bind [OF colon_labels_runs], use assms(1) in simp, rule runs_bind [OF map],
        rule costs_case_prod, rule runs_then [OF runs_expect])
      (auto intro!: costs_ret simp: wf_node_def wf_entries_def, force)
qed

lemma more_types_runs: "m \<le> n \<Longrightarrow> runs m (\<lambda>_. True) (more_types n ts)"
proof (induction n arbitrary: m ts)
  case (Suc n)
  show ?case
    unfolding Suc_eqs
    by (rule runs_opt, simp, rule runs_then, rule runs_opt_same, simp, rule costs_ret, rule TrueI,
        rule costs_ret, rule TrueI, rule runs_bind [OF eats_runs [OF eat_ident_flexible_eats]])
      (use Suc in \<open>auto intro: costs_ret\<close>)
qed (simp add: costs_vacuous)

lemma parse_rel_types_runs: "m \<le> n \<Longrightarrow> runs m (\<lambda>_. True) (parse_rel_types n)"
  unfolding parse_rel_types_def [abs_def]
  by (rule runs_opt, simp, rule runs_bind [OF eats_runs [OF eat_ident_flexible_eats]])
    (auto intro: costs_ret more_types_runs)

lemma int_bound_runs: "runs m (\<lambda>_. True) int_bound"
proof (rule costsI)
  fix p assume p: "wf_parser p" "remaining p < m"
  have "good_result False (\<lambda>_. True) p (thenP advance (ret a) p)" if "peek p \<noteq> Eof" for a :: "u32 option"
    by (rule good_result_weaken [OF advance_ret_good [of p "\<lambda>_. True"]]) (use p that in auto)
  then show "good_result False (\<lambda>_. True) p (int_bound p)"
    using p by (auto simp: int_bound_def ret_def after_refl split: Token.splits)
qed

lemma parse_var_length_runs: "runs m (\<lambda>_. True) parse_var_length"
  unfolding parse_var_length_def [abs_def] Let_def
  by (rule runs_opt_same, simp, rule runs_bind [OF int_bound_runs], rule runs_bind,
      rule runs_opt_same, simp, rule int_bound_runs)
    (auto intro: costs_ret)

lemma parse_rel_detail_runs:
  assumes "m \<le> n" and "eats (dec m) wf_expr pe"
  shows "runs m (\<lambda>(v, ts, ps, l). wf_entries ps) (parse_rel_detail n pe)"
proof -
  have map: "runs (dec m) wf_entries (branch (\<lambda>p. peek p = Sym LBrace) (parse_property_map n pe) (ret []))"
    by (rule costs_branch, rule eats_runs, rule parse_property_map_eats)
      (use assms in \<open>auto intro: costs_ret costs_pred simp: wf_entries_def\<close>)
  show ?thesis
    unfolding parse_rel_detail_def [abs_def]
    by (rule runs_opt, simp, rule runs_bind [OF optional_variable_runs],
        rule runs_bind [OF parse_rel_types_runs], use assms(1) in simp,
        rule runs_bind [OF parse_var_length_runs], rule runs_bind [OF map],
        rule runs_then [OF runs_expect])
      (auto intro!: costs_ret simp: wf_entries_def)
qed

lemma parse_rel_and_node_eats:
  assumes "m \<le> n" and "eats (dec m) wf_expr pe"
  shows "eats m (\<lambda>(r, nd). wf_rel r \<and> wf_node nd) (parse_rel_and_node n pe)"
proof -
  have arrow: "eats m (\<lambda>_. True)
      (opt (Sym LArrow) (thenP (expect (Sym Dash)) (ret True)) (thenP (expect (Sym Dash)) (ret False)))"
    by (rule eats_opt, simp, rule runs_then [OF runs_expect], simp, rule costs_ret, rule TrueI,
        rule eats_then [OF eats_expect]) (auto intro: costs_ret)
  have node: "runs (dec m) wf_node (parse_node_pattern n pe)"
    by (rule eats_runs, rule parse_node_pattern_eats) (use assms in \<open>auto intro: costs_pred\<close>)
  show ?thesis
    unfolding parse_rel_and_node_def [abs_def]
    by (rule eats_bind_then [OF arrow], rule runs_bind [OF parse_rel_detail_runs],
        use assms in simp, rule costs_pred, rule assms, (rule costs_case_prod)+,
        rule runs_then [OF runs_expect], simp, rule runs_bind, rule runs_opt_same, simp,
        rule costs_ret, rule TrueI, rule costs_ret, rule TrueI, rule runs_bind [OF node])
      (force intro!: costs_ret simp: wf_rel_def wf_entries_def)
qed

definition wf_elements :: "Expr PatternElement list \<Rightarrow> bool" where
  "wf_elements es \<longleftrightarrow> alternates es \<and> (\<forall>el \<in> set es. \<forall>e \<in> set_PatternElement el. wf_expr e)"

lemma alternates_snoc: "alternates es \<Longrightarrow> alternates (es @ [Relationship r, Node n])"
  by (induction es rule: alternates.induct) auto

lemma pattern_elements_runs:
  "m \<le> k \<Longrightarrow> m \<le> n \<Longrightarrow> eats (dec m) wf_expr pe \<Longrightarrow> wf_elements acc \<Longrightarrow>
   runs m wf_elements (pattern_elements k n pe acc)"
proof (induction k arbitrary: m acc)
  case (Suc k)
  have "runs (dec m) wf_elements (pattern_elements k n pe (acc @ [Relationship r, Node nd]))"
    if "wf_rel r \<and> wf_node nd" for r nd
    by (rule Suc.IH)
      (use Suc.prems that in \<open>auto intro: costs_pred alternates_snoc simp: wf_elements_def wf_rel_def wf_node_def\<close>)
  then have "eats m wf_elements (bindP (parse_rel_and_node n pe) (\<lambda>(rel, node).
          pattern_elements k n pe (acc @ [Relationship rel, Node node])))"
    by (intro eats_bind_then [OF parse_rel_and_node_eats] costs_case_prod) (use Suc.prems in auto)
  then show ?case
    unfolding Suc_eqs by (rule costs_branch [OF eats_runs costs_ret]) (rule Suc.prems)
qed (simp add: costs_vacuous)

lemma parse_pattern_eats:
  assumes "m \<le> n" and "eats (dec m) wf_expr pe"
  shows "eats m wf_pattern (parse_pattern n pe)"
proof -
  have var: "runs m (\<lambda>_. True) (branch (\<lambda>p. is_ident (peek p) \<and> peek_at p 1 = Sym EqSign)
             (bindP eat_ident (\<lambda>name. thenP advance (ret (Some name)))) (ret None))"
    by (rule costs_branch, rule runs_bind, rule eats_runs [OF eat_ident_eats], rule runs_then [OF runs_advance])
      (auto intro: costs_ret)
  show ?thesis
    unfolding parse_pattern_def [abs_def]
    by (rule eats_bind [OF var], rule eats_bind_then [OF parse_node_pattern_eats [OF assms]],
        rule runs_bind [OF pattern_elements_runs])
      (use assms in \<open>auto intro!: costs_ret costs_pred
          simp: wf_elements_def wf_node_def wf_pattern_def pattern_shape_def\<close>)
qed

lemma parse_patterns_eats:
  "m \<le> n \<Longrightarrow> eats (dec m) wf_expr pe \<Longrightarrow> eats m (\<lambda>ps. list_all wf_pattern ps \<and> ps \<noteq> []) (parse_patterns n pe)"
  unfolding parse_patterns_def [abs_def] by (rule comma_list_eats [OF _ parse_pattern_eats])

section \<open>Operators\<close>

definition wf_op :: "(Token \<Rightarrow> (Expr \<Rightarrow> Expr \<Rightarrow> Expr) option) \<Rightarrow> bool" where
  "wf_op op \<longleftrightarrow>
     (\<forall>t mk. op t = Some mk \<longrightarrow> t \<noteq> Eof \<and> (\<forall>a b. wf_expr a \<longrightarrow> wf_expr b \<longrightarrow> wf_expr (mk a b)))"

lemma wf_ops: "wf_op power_op" "wf_op multiplication_op" "wf_op addition_op" "wf_op and_op" "wf_op xor_op"
  "wf_op or_op"
  by (auto simp: wf_op_def power_op_def multiplication_op_def addition_op_def and_op_def xor_op_def
        or_op_def intro: wf_expr.intros split: if_splits)

lemma binary_loop_runs:
  "wf_op op \<Longrightarrow> m \<le> n \<Longrightarrow> eats (dec m) wf_expr sub \<Longrightarrow> wf_expr l \<Longrightarrow> runs m wf_expr (binary_loop n op sub l)"
proof (induction n arbitrary: m l)
  case (Suc n)
  show ?case
  proof (rule costsI)
    fix p assume p: "wf_parser p" "remaining p < m"
    show "good_result False wf_expr p (binary_loop (Suc n) op sub l p)"
    proof (cases "op (peek p)")
      case None
      then show ?thesis using p Suc.prems(4) by (simp add: ret_def after_refl)
    next
      case (Some mk)
      then have mk: "peek p \<noteq> Eof" "\<And>a b. wf_expr a \<Longrightarrow> wf_expr b \<Longrightarrow> wf_expr (mk a b)"
        using Suc.prems(1) by (auto simp: wf_op_def)
      have "runs (dec m) wf_expr (bindP sub (\<lambda>right. binary_loop n op sub (mk l right)))"
        by (rule runs_bind [OF eats_runs [OF Suc.prems(3)]], rule Suc.IH)
          (use Suc.prems mk(2) in \<open>auto intro: costs_pred\<close>)
      from advance_then_good [OF p mk(1) this] show ?thesis
        using Some by (auto intro: good_result_weaken)
    qed
  qed
qed (simp add: costs_vacuous)

lemma binary_level_eats:
  "wf_op op \<Longrightarrow> m \<le> n \<Longrightarrow> eats m wf_expr sub \<Longrightarrow> eats m wf_expr (binary_level n op sub)"
  unfolding binary_level_def [abs_def]
  by (rule eats_bind_then, assumption, rule binary_loop_runs) (auto intro: costs_pred)

lemma parse_unary_eats: "m \<le> n \<Longrightarrow> eats m wf_expr primary \<Longrightarrow> eats m wf_expr (parse_unary n primary)"
proof (induction n arbitrary: m)
  case (Suc n)
  have "runs (dec m) wf_expr (parse_unary n primary)"
    by (rule eats_runs, rule Suc.IH) (use Suc.prems in \<open>auto intro: costs_pred\<close>)
  then show ?case
    unfolding Suc_eqs
    by (intro eats_opt runs_opt_same runs_bind [of _ wf_expr "parse_unary n primary"] costs_ret Suc.prems)
      (auto intro: wf_expr.intros)
qed (simp add: costs_vacuous)

lemma parse_power_eats: "m \<le> n \<Longrightarrow> eats m wf_expr primary \<Longrightarrow> eats m wf_expr (parse_power n primary)"
  unfolding parse_power_def [abs_def] by (intro binary_level_eats wf_ops parse_unary_eats)

lemma parse_multiplication_eats:
  "m \<le> n \<Longrightarrow> eats m wf_expr primary \<Longrightarrow> eats m wf_expr (parse_multiplication n primary)"
  unfolding parse_multiplication_def [abs_def] by (intro binary_level_eats wf_ops parse_power_eats)

lemma parse_addition_eats:
  "m \<le> n \<Longrightarrow> eats m wf_expr primary \<Longrightarrow> eats m wf_expr (parse_addition n primary)"
  unfolding parse_addition_def [abs_def] by (intro binary_level_eats wf_ops parse_multiplication_eats)

lemma parse_is_null_eats:
  "m \<le> n \<Longrightarrow> eats m wf_expr primary \<Longrightarrow> eats m wf_expr (parse_is_null n primary)"
  unfolding parse_is_null_def [abs_def]
  by (rule eats_bind_then [OF parse_addition_eats], assumption+)
    (intro runs_opt_same runs_then [OF runs_expect] costs_ret, auto intro: wf_expr.intros)

lemma parse_inlist_eats:
  "m \<le> n \<Longrightarrow> eats m wf_expr primary \<Longrightarrow> eats m wf_expr (parse_inlist n primary)"
  unfolding parse_inlist_def [abs_def]
  by (rule eats_bind_then [OF parse_is_null_eats], assumption+, rule runs_opt_same, simp,
      rule runs_bind [OF eats_runs_pred [OF parse_is_null_eats]], assumption+)
    (auto intro: wf_expr.intros costs_ret)

lemma cmp_op_not_Eof: "cmp_op t = Some op \<Longrightarrow> t \<noteq> Eof"
  by (auto simp: cmp_op_def)

lemma compare_loop_runs:
  "m \<le> n \<Longrightarrow> eats (dec m) wf_expr sub \<Longrightarrow> wf_expr result \<Longrightarrow> wf_expr prev \<Longrightarrow>
   runs m wf_expr (compare_loop n sub result prev)"
proof (induction n arbitrary: m result prev)
  case (Suc n)
  show ?case
  proof (rule costsI)
    fix p assume p: "wf_parser p" "remaining p < m"
    show "good_result False wf_expr p (compare_loop (Suc n) sub result prev p)"
    proof (cases "cmp_op (peek p)")
      case None
      then show ?thesis using p Suc.prems(3) by (simp add: ret_def after_refl)
    next
      case (Some op)
      have "runs (dec m) wf_expr (bindP sub (\<lambda>right.
              compare_loop n sub (And result (Compare prev op right)) right))"
        by (rule runs_bind [OF eats_runs [OF Suc.prems(2)]], rule Suc.IH)
          (use Suc.prems in \<open>auto intro: costs_pred wf_expr.intros\<close>)
      from advance_then_good [OF p cmp_op_not_Eof [OF Some] this] show ?thesis
        using Some by (auto intro: good_result_weaken)
    qed
  qed
qed (simp add: costs_vacuous)

lemma comparison_operator_runs:
  assumes "m \<le> n" and "eats m wf_expr sub" and "wf_expr l"
  shows "runs m wf_expr (comparison_operator n sub l)"
proof (rule costsI)
  fix p assume p: "wf_parser p" "remaining p < m"
  show "good_result False wf_expr p (comparison_operator n sub l p)"
  proof (cases "cmp_op (peek p)")
    case None
    then show ?thesis using p assms(3) by (simp add: comparison_operator_def ret_def after_refl)
  next
    case (Some op)
    have "runs (dec m) wf_expr (bindP sub (\<lambda>right. compare_loop n sub (Compare l op right) right))"
      by (rule runs_bind [OF eats_runs_pred [OF assms(2)]], rule compare_loop_runs)
        (use assms in \<open>auto intro: costs_pred wf_expr.intros\<close>)
    from advance_then_good [OF p cmp_op_not_Eof [OF Some] this] show ?thesis
      using Some by (auto simp: comparison_operator_def intro: good_result_weaken)
  qed
qed

lemma comparison_tail_runs:
  assumes "m \<le> n" and sub: "eats m wf_expr sub" and "wf_expr l"
  shows "runs m wf_expr (comparison_tail n sub l)"
proof -
  have operand: "runs (dec m) wf_expr (bindP sub (\<lambda>right. ret (mk l right)))"
    if "\<And>b. wf_expr b \<Longrightarrow> wf_expr (mk l b)" for mk
    by (rule runs_bind [OF eats_runs_pred [OF sub] costs_ret]) (rule that)
  show ?thesis
    unfolding comparison_tail_def [abs_def]
    by (intro runs_advance_if runs_opt runs_then [OF runs_expect] operand comparison_operator_runs assms)
      (use assms(3) in \<open>auto simp: string_predicate_def intro: wf_expr.intros\<close>)
qed

lemma parse_comparison_eats:
  "m \<le> n \<Longrightarrow> eats m wf_expr primary \<Longrightarrow> eats m wf_expr (parse_comparison n primary)"
  unfolding parse_comparison_def [abs_def]
  by (rule eats_bind_then [OF parse_inlist_eats], assumption+, rule comparison_tail_runs)
    (auto intro: costs_pred parse_inlist_eats)

lemma parse_not_eats: "m \<le> n \<Longrightarrow> eats m wf_expr c \<Longrightarrow> eats m wf_expr (parse_not n c)"
proof (induction n arbitrary: m)
  case (Suc n)
  have "runs (dec m) wf_expr (parse_not n c)"
    by (rule eats_runs, rule Suc.IH) (use Suc.prems in \<open>auto intro: costs_pred\<close>)
  then show ?case
    unfolding Suc_eqs
    by (intro eats_opt runs_bind [of _ wf_expr "parse_not n c"] costs_ret Suc.prems)
      (auto intro: wf_expr.intros)
qed (simp add: costs_vacuous)

lemma parse_or_eats:
  assumes "m \<le> n" and "eats m wf_expr primary"
  shows "eats m wf_expr (parse_or n primary)"
  unfolding parse_or_def [abs_def] parse_xor_def [abs_def] parse_and_def [abs_def]
  by (intro binary_level_eats wf_ops parse_not_eats parse_comparison_eats assms)

section \<open>Primary expressions\<close>

text \<open>From here on every method stands behind a token and takes \<open>pe\<close> at its own level.\<close>

lemma option_of_runs: "runs m P f \<Longrightarrow> runs m (\<lambda>x. \<forall>e \<in> set_option x. P e) (bindP f (\<lambda>x. ret (Some x)))"
  by (rule runs_bind, assumption) (auto intro: costs_ret)

lemma slice_end_runs:
  assumes "runs m wf_expr pe" and "wf_expr e" and "\<forall>x \<in> set_option lo. wf_expr x"
  shows "runs m wf_expr (slice_end pe e lo)"
  unfolding slice_end_def [abs_def]
  by (rule runs_bind [OF costs_branch [OF option_of_runs [OF assms(1)]]])
    (use assms in \<open>auto intro!: costs_ret runs_then [OF runs_expect] wf_expr.intros\<close>)

lemma property_access_eats:
  assumes "m \<le> n" and pe: "eats m wf_expr pe" and "wf_expr e"
  shows "eats m wf_expr (property_access n pe e)"
proof -
  have args: "runs (dec m) (\<lambda>args. \<forall>a \<in> set args. wf_expr a)
      (branch (\<lambda>p. peek p \<noteq> Sym RParen) (bindP pe (\<lambda>x. comma_tail n pe [e, x])) (ret [e]))"
    by (rule costs_branch, rule runs_bind [OF eats_runs_pred [OF pe]],
        rule costs_post [OF comma_tail_runs [where P = wf_expr]])
      (use assms in \<open>auto intro: costs_ret costs_pred simp: list_all_iff\<close>)
  show ?thesis
    unfolding property_access_def [abs_def]
    by (rule eats_bind_then [OF eat_ident_flexible_eats], rule runs_opt_same, simp, rule runs_bind [OF args])
      (use assms in \<open>auto intro!: costs_ret runs_then [OF runs_expect] wf_expr.intros\<close>)
qed

lemma subscript_access_runs:
  assumes "runs m wf_expr pe" and "wf_expr e"
  shows "runs m wf_expr (subscript_access pe e)"
  unfolding subscript_access_def [abs_def]
  by (rule runs_opt_same, simp, rule slice_end_runs, use assms in simp, use assms in simp, simp,
      rule runs_bind [OF assms(1)], rule runs_opt_same, simp, rule slice_end_runs)
    (use assms in \<open>auto intro!: costs_ret runs_then [OF runs_expect] wf_expr.intros\<close>)

lemma label_follows_not_Eof: "label_follows p \<Longrightarrow> peek p \<noteq> Eof"
  by (auto simp: label_follows_def)

lemma test_labels_runs: "m \<le> n \<Longrightarrow> runs m (\<lambda>ls. labels \<noteq> [] \<longrightarrow> ls \<noteq> []) (test_labels n labels)"
proof (induction n arbitrary: m labels)
  case (Suc n)
  have "runs (dec m) (\<lambda>ls. labels \<noteq> [] \<longrightarrow> ls \<noteq> [])
      (bindP eat_ident_flexible (\<lambda>l. test_labels n (labels @ [l])))"
    by (rule runs_bind [OF eats_runs [OF eat_ident_flexible_eats]], rule costs_post [OF Suc.IH])
      (use Suc.prems in auto)
  then show ?case
    unfolding Suc_eqs by (intro runs_advance_if costs_ret) (auto dest: label_follows_not_Eof)
qed (simp add: costs_vacuous)

lemma test_labels_first:
  assumes "m \<le> n" and "wf_parser p" and "remaining p < m" and "label_follows p"
  shows "good_result True (\<lambda>ls. ls \<noteq> []) p (test_labels n [] p)"
proof -
  obtain k where n: "n = Suc k" using assms(1,3) by (cases n) auto
  have "runs (dec m) (\<lambda>ls. ls \<noteq> []) (bindP eat_ident_flexible (\<lambda>l. test_labels k ([] @ [l])))"
    by (rule runs_bind [OF eats_runs [OF eat_ident_flexible_eats]], rule costs_post [OF test_labels_runs])
      (use assms(1) n in auto)
  from advance_then_good [OF assms(2,3) label_follows_not_Eof [OF assms(4)] this]
  show ?thesis using assms(4) n by (simp add: branch_def)
qed

lemma property_chain_runs:
  "m \<le> k \<Longrightarrow> m \<le> n \<Longrightarrow> eats (dec m) wf_expr pe \<Longrightarrow> wf_expr e \<Longrightarrow> runs m wf_expr (property_chain k n pe e)"
proof (induction k arbitrary: m e)
  case (Suc k)
  have IH: "runs (dec m) wf_expr (property_chain k n pe e')" if "wf_expr e'" for e'
    by (rule Suc.IH) (use Suc.prems that in \<open>auto intro: costs_pred\<close>)
  have dot: "runs (dec m) wf_expr (bindP (property_access n pe e) (property_chain k n pe))"
    by (rule runs_bind [OF eats_runs [OF property_access_eats]]) (use Suc.prems IH in auto)
  have bracket: "runs (dec m) wf_expr (bindP (subscript_access pe e) (property_chain k n pe))"
    by (rule runs_bind [OF subscript_access_runs [OF eats_runs]]) (use Suc.prems IH in auto)
  have label: "runs m wf_expr (branch label_follows
      (bindP (test_labels n []) (\<lambda>labels. property_chain k n pe (HasLabel e labels))) (ret e))"
  proof (rule costsI)
    fix p assume p: "wf_parser p" "remaining p < m"
    have "good_result False wf_expr p
        (bindP (test_labels n []) (\<lambda>labels. property_chain k n pe (HasLabel e labels)) p)"
      if "label_follows p"
      by (rule good_result_weaken [OF good_bind_then [where m = m and f = "test_labels n []",
              OF test_labels_first [OF Suc.prems(2) p that]]])
        (use p Suc.prems(4) in \<open>auto intro!: IH wf_expr.intros\<close>)
    then show "good_result False wf_expr p (branch label_follows
      (bindP (test_labels n []) (\<lambda>labels. property_chain k n pe (HasLabel e labels))) (ret e) p)"
      using p Suc.prems(4) by (simp add: branch_def ret_def after_refl)
  qed
  show ?case unfolding Suc_eqs by (intro runs_opt dot bracket label) simp_all
qed (simp add: costs_vacuous)

lemma parse_property_chain_runs:
  "m \<le> n \<Longrightarrow> eats (dec m) wf_expr pe \<Longrightarrow> wf_expr e \<Longrightarrow> runs m wf_expr (parse_property_chain n pe e)"
  unfolding parse_property_chain_def [abs_def] by (rule property_chain_runs)

lemma case_branches_runs:
  "m \<le> n \<Longrightarrow> eats (dec m) wf_expr pe \<Longrightarrow> \<forall>b \<in> set acc. wf_expr (fst b) \<and> wf_expr (snd b) \<Longrightarrow>
   runs m (\<lambda>bs. \<forall>b \<in> set bs. wf_expr (fst b) \<and> wf_expr (snd b)) (case_branches n pe acc)"
proof (induction n arbitrary: m acc)
  case (Suc n)
  have pe: "runs (dec m) wf_expr pe" by (rule eats_runs) (rule Suc.prems)
  have "runs (dec m) (\<lambda>bs. \<forall>b \<in> set bs. wf_expr (fst b) \<and> wf_expr (snd b)) (case_branches n pe (acc @ [(w, t)]))"
    if "wf_expr w" "wf_expr t" for w t
    by (rule Suc.IH) (use Suc.prems that in \<open>auto intro: costs_pred\<close>)
  then show ?case
    unfolding Suc_eqs
    by (intro runs_opt runs_bind [OF pe] runs_then [OF runs_expect] costs_ret Suc.prems) simp_all
qed (simp add: costs_vacuous)

lemma parse_case_expr_runs:
  assumes "m \<le> n" and pe: "eats m wf_expr pe"
  shows "runs m wf_expr (parse_case_expr n pe)"
proof -
  note pe' = eats_runs [OF pe]
  have test: "runs m (\<lambda>x. \<forall>e \<in> set_option x. wf_expr e)
      (branch (\<lambda>p. peek p = Kw WHEN) (ret None) (bindP pe (\<lambda>t. ret (Some t))))"
    by (rule costs_branch [OF costs_ret option_of_runs [OF pe']]) simp
  have branches: "runs m (\<lambda>bs. \<forall>b \<in> set bs. wf_expr (fst b) \<and> wf_expr (snd b)) (case_branches n pe [])"
    by (rule case_branches_runs) (use assms in \<open>auto intro: costs_pred\<close>)
  show ?thesis
    unfolding parse_case_expr_def [abs_def]
    by (rule runs_bind [OF test], rule runs_bind [OF branches],
        rule runs_bind [OF optional_runs_same [OF _ pe']], simp, rule runs_then [OF runs_expect])
      (auto intro!: costs_ret wf_expr.intros split: option.split)
qed

lemma parse_paren_good:
  assumes "m \<le> n" and pe: "eats (dec m) wf_expr pe" and p: "wf_parser p" "remaining p < m" "peek p \<noteq> Eof"
  shows "good_result True wf_expr p (parse_paren n pe p)"
proof -
  obtain b where b: "looks_like_pattern_predicate n p = Some (Inr (b, p))"
    using looks_like_pattern_predicate_returns p assms(1) by (meson less_le_trans)
  have pattern: "eats m wf_expr (bindP (parse_pattern n pe) (\<lambda>pat.
         bindP (optional (Kw WHERE) pe) (\<lambda>where_clause.
           ret (Exists (Query [Match False [pat] where_clause] None) True))))"
    by (rule eats_bind_then [OF parse_pattern_eats [OF assms(1,2)]],
        rule runs_bind [OF optional_runs_same [OF _ eats_runs [OF pe]]])
      (auto intro!: costs_ret wf_expr.intros single_query match_shape simp: wf_pattern_def pipeline_def)
  have inner: "runs (dec m) wf_expr (bindP pe (\<lambda>inner. thenP (expect (Sym RParen)) (ret inner)))"
    by (rule runs_bind [OF eats_runs [OF pe] runs_then [OF runs_expect]]) (auto intro: costs_ret)
  show ?thesis
    unfolding parse_paren_def bindP_at [of "looks_like_pattern_predicate n" p, OF b]
    by (cases b) (simp_all add: costsD [OF pattern p(1,2)] advance_then_good [OF p inner])
qed

lemma list_comprehension_runs:
  assumes pe: "runs m wf_expr pe"
  shows "runs m wf_expr (list_comprehension pe)"
  unfolding list_comprehension_def [abs_def]
  by (rule runs_bind [OF eats_runs [OF eat_ident_eats]], rule runs_then [OF runs_advance],
      rule runs_bind [OF pe], rule runs_bind [OF optional_runs_same [OF _ pe]], simp,
      rule runs_bind [OF optional_runs_same [OF _ pe]], simp, rule runs_then [OF runs_expect])
    (auto intro!: costs_ret wf_expr.intros)

lemma pattern_comprehension_runs:
  assumes "m \<le> n" and pe: "eats m wf_expr pe"
  shows "runs m wf_expr (pattern_comprehension n pe named)"
  unfolding pattern_comprehension_def [abs_def]
  by (rule runs_bind [OF eats_runs [OF parse_pattern_eats [OF assms(1) costs_pred [OF pe]]]],
      rule runs_bind [OF optional_runs_same [OF _ eats_runs [OF pe]]], simp,
      rule runs_then [OF runs_expect], simp, rule runs_bind [OF eats_runs [OF pe]],
      rule runs_then [OF runs_expect])
    (auto intro!: costs_ret wf_expr.intros simp: wf_pattern_def)

lemma parse_bracket_runs:
  assumes "m \<le> n" and pe: "eats m wf_expr pe"
  shows "runs m wf_expr (parse_bracket n pe)"
  unfolding parse_bracket_def [abs_def]
  by (intro costs_branch list_comprehension_runs pattern_comprehension_runs assms eats_runs [OF pe]
        runs_bind [OF comma_list_until_runs [OF assms]] runs_then [OF runs_expect] costs_ret wf_expr.intros)
    (auto simp: list_all_iff)

section \<open>Calls\<close>

lemma list_predicate_runs:
  assumes "m \<le> n" and pe: "eats m wf_expr pe"
  shows "runs m wf_expr (list_predicate n pe kind)"
  unfolding list_predicate_def [abs_def]
  by (rule runs_bind [OF eats_runs [OF eat_ident_eats]], rule runs_then [OF runs_expect], simp,
      rule runs_bind [OF eats_runs [OF pe]],
      rule runs_bind [OF runs_opt_same [OF _ eats_runs [OF pe] costs_ret]], simp, rule wf_expr.intros,
      rule runs_then [OF runs_expect], simp, rule parse_property_chain_runs)
    (use assms in \<open>auto intro: costs_pred wf_expr.intros\<close>)

lemma filter_call_runs:
  assumes "m \<le> n" and pe: "eats m wf_expr pe"
  shows "runs m wf_expr (filter_call n pe)"
  unfolding filter_call_def [abs_def]
  by (rule runs_bind [OF eats_runs [OF eat_ident_eats]], rule runs_then [OF runs_expect], simp,
      rule runs_bind [OF eats_runs [OF pe]],
      rule runs_bind [OF optional_runs_same [OF _ eats_runs [OF pe]]], simp,
      rule runs_then [OF runs_expect], simp, rule parse_property_chain_runs)
    (use assms in \<open>auto intro: costs_pred wf_expr.intros\<close>)

lemma extract_call_runs:
  assumes "m \<le> n" and pe: "eats m wf_expr pe"
  shows "runs m wf_expr (extract_call n pe)"
  unfolding extract_call_def [abs_def]
  by (rule runs_bind [OF eats_runs [OF eat_ident_eats]], rule runs_then [OF runs_expect], simp,
      rule runs_bind [OF eats_runs [OF pe]],
      rule runs_bind [OF optional_runs_same [OF _ eats_runs [OF pe]]], simp,
      rule runs_then [OF runs_expect], simp, rule parse_property_chain_runs)
    (use assms in \<open>auto intro: costs_pred wf_expr.intros\<close>)

lemma shortest_path_call_runs:
  assumes "m \<le> n" and pe: "eats m wf_expr pe"
  shows "runs m wf_expr (shortest_path_call n pe every)"
  unfolding shortest_path_call_def [abs_def]
  by (rule runs_bind [OF eats_runs [OF parse_pattern_eats [OF assms(1) costs_pred [OF pe]]]],
      rule runs_then [OF runs_expect])
    (auto intro!: costs_ret wf_expr.intros simp: wf_pattern_def)

lemma call_arguments_runs:
  assumes "m \<le> n" and pe: "eats m wf_expr pe"
  shows "runs m (\<lambda>na. \<forall>a \<in> set (snd na). wf_expr a) (call_arguments n pe name)"
  unfolding call_arguments_def [abs_def]
  by (intro costs_branch runs_opt_same runs_then [OF runs_advance] costs_ret
        runs_bind [OF comma_list_until_runs [OF assms]] runs_bind [OF eats_runs [OF comma_list_eats [OF assms]]])
    (auto simp: list_all_iff intro: wf_expr.intros)

lemma function_call_runs:
  assumes "m \<le> n" and pe: "eats m wf_expr pe"
  shows "runs m wf_expr (function_call n pe name)"
proof -
  have call: "runs m wf_expr (bindP (call_arguments n pe name) (\<lambda>(fn_name, args).
              thenP (expect (Sym RParen)) (parse_property_chain n pe (FunctionCall fn_name args))))"
    by (rule runs_bind [OF call_arguments_runs [OF assms]], rule costs_case_prod,
        rule runs_then [OF runs_expect], simp, rule parse_property_chain_runs)
      (use assms in \<open>auto intro: costs_pred wf_expr.intros\<close>)
  show ?thesis
    unfolding function_call_def [abs_def] Let_def
    by (cases "list_predicate_kind (to_ascii_lowercase name)")
      (simp_all only: option.case, intro costs_branch call filter_call_runs extract_call_runs
        shortest_path_call_runs assms, rule list_predicate_runs [OF assms])
qed

lemma try_parse_where_runs: "runs m wf_expr pe \<Longrightarrow> runs m (\<lambda>x. \<forall>e \<in> set_option x. wf_expr e) (try_parse_where pe)"
  unfolding try_parse_where_def [abs_def] by (rule optional_runs_same) simp_all

lemma match_query_wf:
  "list_all wf_pattern ps \<Longrightarrow> \<forall>e \<in> set_option w. wf_expr e \<Longrightarrow> wf_query (Query [Match b ps w] None)"
  by (auto simp: wf_query_def wf_pattern_def list_all_iff pipeline_def intro!: single_query match_shape)

lemma parse_exists_subquery_runs:
  assumes "m \<le> n" and pe: "eats m wf_expr pe"
  shows "runs m wf_query (parse_exists_subquery n pe)"
  unfolding parse_exists_subquery_def [abs_def]
  by (rule runs_then, rule runs_opt_same, simp, rule costs_ret, rule TrueI, rule costs_ret, rule TrueI,
      rule runs_bind [OF eats_runs [OF parse_patterns_eats [OF assms(1) costs_pred [OF pe]]]],
      rule runs_bind [OF try_parse_where_runs [OF eats_runs [OF pe]]])
    (auto intro!: costs_ret match_query_wf)

lemma exists_block_runs:
  assumes "m \<le> n" and pe: "eats m wf_expr pe" and pq: "runs m wf_query pq"
  shows "runs m wf_expr (exists_block n pe pq)"
  unfolding exists_block_def [abs_def]
  by (rule runs_bind [OF costs_branch [OF parse_exists_subquery_runs [OF assms(1,2)] pq]],
      rule runs_then [OF runs_expect])
    (auto intro!: costs_ret wf_expr.intros simp: wf_query_def)

lemma parse_named_runs:
  assumes "m \<le> n" and pe: "eats m wf_expr pe" and pq: "runs m wf_query pq"
  shows "runs m wf_expr (parse_named n pe pq name)"
  unfolding parse_named_def [abs_def]
  by (intro costs_branch runs_then [OF runs_advance] exists_block_runs runs_opt_same function_call_runs
        parse_property_chain_runs assms wf_expr.intros costs_pred)
    simp_all

lemma literal_wf: "literal t = Some e \<Longrightarrow> token_ok t \<Longrightarrow> wf_expr e"
  by (auto simp: literal_def intro: wf_expr.intros split: Token.splits if_splits)

lemma compound_good:
  assumes "m \<le> n" and pe: "eats (dec m) wf_expr pe" and p: "wf_parser p" "remaining p < m"
  shows "good_result True wf_expr p (compound n pe (peek p) p)"
proof -
  have n: "dec m \<le> n" using assms(1) by simp
  have "eats m wf_expr (bindP (parse_property_map n pe) (\<lambda>pairs. ret (MapLiteral pairs)))"
    by (rule eats_bind_then [OF parse_property_map_eats [OF assms(1,2)]])
      (auto intro!: costs_ret wf_expr.intros simp: wf_entries_def)
  from costsD [OF this p] show ?thesis
    using parse_paren_good [OF assms(1) pe p] advance_then_good [OF p _ parse_bracket_runs [OF n pe]]
      advance_then_good [OF p _ parse_case_expr_runs [OF n pe]] costsD [OF costs_failP p]
    by (auto simp: compound_def simp del: good_result.simps)
qed

lemma parse_primary_eats:
  assumes "m \<le> n" and pe: "eats (dec m) wf_expr pe" and pq: "runs (dec m) wf_query pq"
  shows "eats m wf_expr (parse_primary n pe pq)"
proof (rule costsI)
  fix p assume p: "wf_parser p" "remaining p < m"
  have n: "dec m \<le> n" using assms(1) by simp
  have chain: "runs (dec m) wf_expr (parse_property_chain n pe e)" if "wf_expr e" for e
    by (rule parse_property_chain_runs [OF n costs_pred [OF pe] that])
  have other: "good_result True wf_expr p (bindP (compound n pe (peek p)) (parse_property_chain n pe) p)"
    by (rule good_bind_then [where f = "compound n pe (peek p)", OF compound_good [OF assms(1) pe p] chain p(2)])
  have lit: "good_result True wf_expr p (thenP advance (parse_property_chain n pe e) p)"
    if "literal (peek p) = Some e" for e
  proof (rule advance_then_good [OF p])
    show "peek p \<noteq> Eof" using that by (auto simp: literal_def)
    then show "runs (dec m) wf_expr (parse_property_chain n pe e)"
      using literal_wf [OF that] peek_ok [OF p(1)] chain by blast
  qed
  have named: "good_result True wf_expr p (thenP advance (parse_named n pe pq name) p)"
    if "peek p = Ident name" for name
    by (rule advance_then_good [OF p _ parse_named_runs [OF n pe pq]]) (use that in simp)
  show "good_result True wf_expr p (parse_primary n pe pq p)"
    using other lit named
    by (auto simp: parse_primary_def fail_at_def split: Token.split option.split)
qed

end
