(* ===== verification/CypherQueryTotal.thy ===== *)
theory CypherQueryTotal
  imports CypherTotal
begin

text \<open>
  The same for the clauses and the query loop, and the end of the induction: \<open>parse_expr n\<close> and
  \<open>parse_query n\<close> return from every state with fewer than \<open>n\<close> tokens left.
\<close>

section \<open>Projections\<close>

lemma constant_expr_indep: "constant_expr e c = Inr () \<longleftrightarrow> \<not> expr_contains_variable e"
  by (simp add: constant_expr_def)

lemma constant_bound_indep:
  "validate_skip_limit_expr e c = Inr () \<longleftrightarrow> validate_skip_limit_expr e d = Inr ()"
proof (cases e)
  case (Neg a)
  then show ?thesis by (cases a) (simp_all add: validate_skip_limit_expr_def constant_expr_indep)
qed (simp_all add: validate_skip_limit_expr_def constant_expr_indep)

lemma validated_runs:
  assumes "runs m wf_expr pe"
  shows "runs m (\<lambda>e. wf_expr e \<and> validate_skip_limit_expr e [] = Inr ()) (validated clause pe)"
proof -
  have "runs m (\<lambda>e. wf_expr e \<and> validate_skip_limit_expr e [] = Inr ())
      (\<lambda>p. case validate_skip_limit_expr e clause of
         Inl m \<Rightarrow> fail_at (Message m) (offset p) p
       | Inr _ \<Rightarrow> ret e p)" if "wf_expr e" for e
    by (rule costsI)
      (use that constant_bound_indep [of e clause "[]"] in
        \<open>auto simp: fail_at_def ret_def after_refl split: sum.split\<close>)
  then show ?thesis unfolding validated_def [abs_def] by (rule runs_bind [OF assms])
qed

definition wf_bound :: "Expr option \<Rightarrow> bool" where
  "wf_bound b \<longleftrightarrow> constant_bound b \<and> (\<forall>e \<in> set_option b. wf_expr e)"

lemma bound_runs:
  assumes "runs m wf_expr pe" and "t \<noteq> Eof"
  shows "runs m wf_bound (optional t (validated clause pe))"
  by (rule costs_post [OF optional_runs_same [OF assms(2) validated_runs [OF assms(1)]]])
    (auto simp: wf_bound_def constant_bound_def split: option.split)

lemma try_parse_skip_runs: "runs m wf_expr pe \<Longrightarrow> runs m wf_bound (try_parse_skip pe)"
  unfolding try_parse_skip_def [abs_def] by (rule bound_runs) simp_all

lemma try_parse_limit_runs: "runs m wf_expr pe \<Longrightarrow> runs m wf_bound (try_parse_limit pe)"
  unfolding try_parse_limit_def [abs_def] by (rule bound_runs) simp_all

lemma is_word_not_Eof: "is_word ws t \<Longrightarrow> t \<noteq> Eof"
  by (auto simp: is_word_def)

definition wf_order :: "Expr OrderItem list \<Rightarrow> bool" where
  "wf_order items \<longleftrightarrow> (\<forall>i \<in> set items. \<forall>e \<in> set_OrderItem i. wf_expr e)"

lemma order_item_eats:
  assumes "eats m wf_expr pe"
  shows "eats m (\<lambda>i. \<forall>e \<in> set_OrderItem i. wf_expr e) (order_item pe)"
  unfolding order_item_def [abs_def]
  by (rule eats_bind_then [OF assms], intro costs_branch runs_then [OF runs_advance] costs_ret) simp_all

lemma try_parse_order_by_runs:
  assumes "m \<le> n" and "eats m wf_expr pe"
  shows "runs m wf_order (try_parse_order_by n pe)"
proof -
  have "runs m wf_order (comma_list n (order_item pe))"
    by (rule costs_weaken [OF comma_list_eats [OF assms(1) order_item_eats [OF assms(2)]]])
      (auto simp: wf_order_def list_all_iff)
  then show ?thesis
    unfolding try_parse_order_by_def [abs_def]
    by (intro runs_opt_same costs_ret) (auto simp: wf_order_def)
qed

definition wf_items :: "Expr ReturnItem list \<Rightarrow> bool" where
  "wf_items items \<longleftrightarrow> items \<noteq> [] \<and> (\<forall>i \<in> set items. \<forall>e \<in> set_ReturnItem i. wf_expr e)"

lemma parse_return_item_eats:
  assumes "eats m wf_expr pe"
  shows "eats m (\<lambda>i. \<forall>e \<in> set_ReturnItem i. wf_expr e) (parse_return_item pe)"
  unfolding parse_return_item_def [abs_def]
  by (rule eats_bind_then [OF eats_opt [OF _ costs_ret assms]], simp, rule wf_expr.intros,
      rule runs_bind [OF optional_runs_same [OF _ eats_runs [OF eat_ident_eats]]])
    (auto intro!: costs_ret)

lemma parse_return_items_eats:
  assumes "m \<le> n" and "eats m wf_expr pe"
  shows "runs m (\<lambda>x. wf_items (snd x)) (parse_return_items n pe)"
proof -
  have "runs m wf_items (comma_list n (parse_return_item pe))"
    by (rule costs_weaken [OF comma_list_eats [OF assms(1) parse_return_item_eats [OF assms(2)]]])
      (auto simp: wf_items_def list_all_iff)
  then show ?thesis
    unfolding parse_return_items_def [abs_def] parse_return_clause_items_def [abs_def]
    by (intro runs_bind [OF runs_opt_same [OF _ costs_ret costs_ret]] runs_bind [of _ wf_items] costs_ret)
      simp_all
qed

lemma parse_with_runs:
  assumes "m \<le> n" and pe: "eats m wf_expr pe"
  shows "runs m (\<lambda>c. wf_clause c \<and> \<not> is_terminal c) (parse_with n pe)"
  unfolding parse_with_def [abs_def]
  by (rule runs_bind [OF parse_return_items_eats [OF assms]], rule costs_case_prod,
      rule runs_bind [OF try_parse_order_by_runs [OF assms]],
      rule runs_bind [OF try_parse_skip_runs [OF eats_runs [OF pe]]],
      rule runs_bind [OF try_parse_limit_runs [OF eats_runs [OF pe]]],
      rule runs_bind [OF try_parse_where_runs [OF eats_runs [OF pe]]], rule costs_ret)
    (auto simp: wf_clause_def wf_items_def wf_order_def wf_bound_def intro: with_shape)

section \<open>Reading clauses\<close>

abbreviation pipe_clause :: "clause \<Rightarrow> bool" where
  "pipe_clause c \<equiv> wf_clause c \<and> \<not> is_terminal c"

lemma patterns_shape: "list_all wf_pattern ps \<Longrightarrow> list_all pattern_shape ps"
  by (auto simp: wf_pattern_def list_all_iff)

lemma parse_match_runs:
  assumes "m \<le> n" and pe: "eats m wf_expr pe"
  shows "runs m pipe_clause (parse_match n pe b)"
  unfolding parse_match_def [abs_def]
  by (rule runs_bind [OF eats_runs [OF parse_patterns_eats [OF assms(1) costs_pred [OF pe]]]],
      rule runs_bind [OF try_parse_where_runs [OF eats_runs [OF pe]]], rule costs_ret)
    (auto simp: wf_clause_def wf_pattern_def list_all_iff intro!: match_shape)

lemma expect_as_runs: "runs m (\<lambda>_. True) expect_as"
proof (rule costsI)
  fix p assume p: "wf_parser p" "remaining p < m"
  show "good_result False (\<lambda>_. True) p (expect_as p)"
    using costsD [OF runs_advance p] costsD [OF runs_expect p, of "Kw AS"]
    by (auto simp: expect_as_def failP_def fail_at_def split: Token.split)
qed

lemma parse_unwind_runs: "runs m wf_expr pe \<Longrightarrow> runs m pipe_clause (parse_unwind pe)"
  unfolding parse_unwind_def [abs_def]
  by (rule runs_bind, assumption, rule runs_then [OF expect_as_runs],
      rule runs_bind [OF eats_runs [OF eat_ident_flexible_eats]], rule costs_ret)
    (auto simp: wf_clause_def intro: unwind_shape)

lemma procedure_name_runs: "m \<le> n \<Longrightarrow> runs m (\<lambda>_. True) (procedure_name n name)"
proof (induction n arbitrary: m name)
  case (Suc n)
  show ?case
    unfolding Suc_eqs
    by (rule runs_opt, simp, rule runs_bind [OF eats_runs [OF eat_ident_flexible_eats]])
      (use Suc in \<open>auto intro: costs_ret\<close>)
qed (simp add: costs_vacuous)

lemma yield_item_eats: "eats m (\<lambda>_. True) yield_item"
  unfolding yield_item_def [abs_def]
  by (rule eats_bind_then [OF eat_ident_flexible_eats],
      rule runs_bind [OF optional_runs_same [OF _ eats_runs [OF eat_ident_flexible_eats]]])
    (auto intro: costs_ret)

lemma parse_call_procedure_runs:
  assumes "m \<le> n" and pe: "eats m wf_expr pe"
  shows "runs m pipe_clause (parse_call_procedure n pe)"
proof -
  have name: "runs m (\<lambda>_. True) (bindP eat_ident_flexible (procedure_name n))"
    by (rule runs_bind [OF eats_runs [OF eat_ident_flexible_eats] procedure_name_runs [OF assms(1)]])
  have args: "runs m (\<lambda>x. list_all wf_expr (fst x) \<and> (snd x \<longrightarrow> fst x = []))
      (opt (Sym LParen)
        (bindP (comma_list_until n (Sym RParen) pe) (\<lambda>args. thenP (expect (Sym RParen)) (ret (args, False))))
        (ret ([], True)))"
    by (rule runs_opt_same, simp, rule runs_bind [OF comma_list_until_runs [OF assms]],
        rule runs_then [OF runs_expect]) (auto intro!: costs_ret)
  have yields: "runs m (\<lambda>_. True)
      (opt (Kw YIELD) (opt (Sym StarSign) (ret [(''*'', None)]) (comma_list n yield_item)) (ret []))"
    by (intro runs_opt_same costs_ret costs_weaken [OF comma_list_eats [OF assms(1) yield_item_eats]]) simp_all
  show ?thesis
    unfolding parse_call_procedure_def [abs_def]
    by (rule runs_bind [OF name], rule runs_bind [OF args], rule costs_case_prod, rule runs_bind [OF yields],
        rule costs_ret)
      (auto simp: wf_clause_def list_all_iff intro!: procedure_shape)
qed

lemma parse_call_runs:
  assumes "m \<le> n" and "eats m wf_expr pe" and pq: "runs m wf_query pq"
  shows "runs m pipe_clause (parse_call n pe pq)"
  unfolding parse_call_def [abs_def]
  by (rule runs_opt_same, simp, rule runs_bind [OF pq], rule runs_then [OF runs_expect], simp,
      rule costs_ret, simp add: wf_clause_def wf_query_def subquery_shape,
      rule parse_call_procedure_runs [OF assms(1,2)])

section \<open>Writing clauses\<close>

definition wf_set_items :: "Expr SetItem list \<Rightarrow> bool" where
  "wf_set_items items \<longleftrightarrow>
     items \<noteq> [] \<and> list_all set_item_shape items \<and> (\<forall>i \<in> set items. \<forall>e \<in> set_SetItem i. wf_expr e)"

lemma set_value_runs:
  assumes "runs m wf_expr pe" and "\<And>v. wf_expr v \<Longrightarrow> P (item v)"
  shows "runs m P (set_value item pe)"
  unfolding set_value_def [abs_def] by (rule runs_bind [OF assms(1)]) (auto intro: costs_ret assms(2))

abbreviation wf_set_item :: "Expr SetItem \<Rightarrow> bool" where
  "wf_set_item i \<equiv> set_item_shape i \<and> (\<forall>e \<in> set_SetItem i. wf_expr e)"

lemma set_property_runs: "runs m wf_expr pe \<Longrightarrow> runs m wf_set_item (set_property pe var)"
  unfolding set_property_def [abs_def]
  by (rule runs_bind [OF eats_runs [OF eat_ident_flexible_eats]], rule runs_then [OF runs_expect], simp,
      rule set_value_runs, assumption)
    (auto intro: wf_expr.intros)

lemma colon_labels_first:
  assumes "m \<le> n" and p: "wf_parser p" "remaining p < m" "peek p = Sym Colon"
  shows "good_result True (\<lambda>ls. ls \<noteq> []) p (colon_labels n [] p)"
proof -
  obtain k where n: "n = Suc k" using assms by (cases n) auto
  have grow: "runs m' (\<lambda>ls. ls \<noteq> []) (colon_labels k' ls)" if "m' \<le> k'" "ls \<noteq> []" for m' k' ls
    using that
  proof (induction k' arbitrary: m' ls)
    case (Suc k')
    show ?case
      unfolding Suc_eqs
      by (rule runs_opt, simp, rule runs_bind [OF eats_runs [OF eat_ident_flexible_eats]])
        (use Suc in \<open>auto intro: costs_ret\<close>)
  qed (simp add: costs_vacuous)
  have "runs (dec m) (\<lambda>ls. ls \<noteq> []) (bindP eat_ident_flexible (\<lambda>l. colon_labels k ([] @ [l])))"
    by (rule runs_bind [OF eats_runs [OF eat_ident_flexible_eats] grow]) (use assms(1) n in auto)
  from advance_then_good [OF p(1,2) _ this] show ?thesis
    using p(3) n by (simp add: opt_def branch_def)
qed

lemma labels_branch_runs:
  assumes "m \<le> n" and "\<And>ls. ls \<noteq> [] \<Longrightarrow> P (item ls)" and "runs m P g"
  shows "runs m P (branch (\<lambda>p. peek p = Sym Colon) (bindP (colon_labels n []) (\<lambda>ls. ret (item ls))) g)"
proof (rule costsI)
  fix p assume p: "wf_parser p" "remaining p < m"
  have "good_result False P p (bindP (colon_labels n []) (\<lambda>ls. ret (item ls)) p)" if "peek p = Sym Colon"
    by (rule good_result_weaken [OF good_bind_then [where m = m and f = "colon_labels n []" and Q = P,
          OF colon_labels_first [OF assms(1) p that]]])
      (use p assms(2) in \<open>auto intro: costs_ret\<close>)
  then show "good_result False P p
      (branch (\<lambda>p. peek p = Sym Colon) (bindP (colon_labels n []) (\<lambda>ls. ret (item ls))) g p)"
    using costsD [OF assms(3) p] by (simp add: branch_def)
qed

lemma parse_set_item_eats:
  assumes "m \<le> n" and pe: "eats m wf_expr pe"
  shows "eats m wf_set_item (parse_set_item n pe)"
proof -
  note pe' = eats_runs_pred [OF pe]
  have n: "dec m \<le> n" using assms(1) by simp
  show ?thesis
    unfolding parse_set_item_def [abs_def]
    by (rule eats_opt, simp, rule runs_bind [OF eats_runs [OF eat_ident_flexible_eats]],
        rule runs_then [OF runs_expect], simp, rule runs_then [OF runs_expect], simp,
        rule set_property_runs [OF pe'], rule eats_bind_then [OF eat_ident_flexible_eats],
        rule labels_branch_runs [OF n], simp,
        rule runs_opt_same, simp, rule set_property_runs [OF pe'],
        rule runs_opt_same, simp, rule set_value_runs [OF pe'], simp,
        rule runs_opt_same, simp, rule set_value_runs [OF pe'], simp, rule costs_failP)
qed

lemma parse_set_items_runs:
  assumes "m \<le> n" and pe: "eats m wf_expr pe"
  shows "runs m wf_set_items (parse_set_items n pe)"
  unfolding parse_set_items_def [abs_def]
  by (rule costs_weaken [OF comma_list_eats [OF assms(1) parse_set_item_eats [OF assms]]])
    (auto simp: wf_set_items_def list_all_iff)

lemma parse_remove_item_eats:
  assumes "m \<le> n"
  shows "eats m (\<lambda>i. remove_item_shape i \<and> (\<forall>e \<in> set_RemoveItem i. wf_expr e)) (parse_remove_item n)"
proof -
  have n: "dec m \<le> n" using assms(1) by simp
  show ?thesis
    unfolding parse_remove_item_def [abs_def]
    by (rule eats_bind_then [OF eat_ident_flexible_eats], rule runs_opt_same, simp,
        rule runs_bind [OF eats_runs [OF eat_ident_flexible_eats] costs_ret], simp add: wf_expr.intros,
        rule labels_branch_runs [OF n], simp, rule costs_failP)
qed

lemma parse_create_runs:
  assumes "m \<le> n" and pe: "eats m wf_expr pe"
  shows "runs m (\<lambda>c. pipe_clause c \<and> is_write c) (parse_create n pe)"
  unfolding parse_create_def [abs_def]
  by (rule runs_bind [OF eats_runs [OF parse_patterns_eats [OF assms(1) costs_pred [OF pe]]] costs_ret])
    (auto simp: wf_clause_def wf_pattern_def list_all_iff intro!: create_shape)

lemma parse_delete_runs:
  assumes "m \<le> n" and pe: "eats m wf_expr pe"
  shows "runs m (\<lambda>c. pipe_clause c \<and> is_write c) (parse_delete n pe detach)"
  unfolding parse_delete_def [abs_def] parse_expr_list_def [abs_def]
  by (rule runs_bind [OF eats_runs [OF comma_list_eats [OF assms]] costs_ret])
    (auto simp: wf_clause_def list_all_iff intro!: delete_shape)

lemma parse_detach_runs:
  assumes "m \<le> n" and pe: "eats m wf_expr pe"
  shows "runs m (\<lambda>c. pipe_clause c \<and> is_write c) (parse_detach n pe)"
  unfolding parse_detach_def [abs_def] by (rule runs_then [OF runs_expect parse_delete_runs [OF assms]]) simp

lemma parse_set_runs:
  assumes "m \<le> n" and pe: "eats m wf_expr pe"
  shows "runs m (\<lambda>c. pipe_clause c \<and> is_write c) (parse_set n pe)"
  unfolding parse_set_def [abs_def]
  by (rule runs_bind [OF parse_set_items_runs [OF assms] costs_ret])
    (auto simp: wf_clause_def wf_set_items_def intro!: set_shape)

lemma parse_remove_runs:
  assumes "m \<le> n"
  shows "runs m (\<lambda>c. pipe_clause c \<and> is_write c) (parse_remove n)"
  unfolding parse_remove_def [abs_def] parse_remove_items_def [abs_def]
  by (rule runs_bind [OF eats_runs [OF comma_list_eats [OF assms parse_remove_item_eats [OF assms]]] costs_ret])
    (auto simp: wf_clause_def list_all_iff intro!: remove_shape)

definition wf_actions :: "Expr SetItem list \<Rightarrow> bool" where
  "wf_actions items \<longleftrightarrow> (\<forall>i \<in> set items. wf_set_item i)"

lemma wf_set_items_actions: "wf_set_items items \<Longrightarrow> wf_actions items"
  by (auto simp: wf_set_items_def wf_actions_def list_all_iff)

lemma merge_actions_runs:
  "m \<le> k \<Longrightarrow> m \<le> n \<Longrightarrow> eats m wf_expr pe \<Longrightarrow> wf_actions a \<Longrightarrow> wf_actions b \<Longrightarrow>
   runs m (\<lambda>x. wf_actions (fst x) \<and> wf_actions (snd x)) (merge_actions k n pe a b)"
proof (induction k arbitrary: m a b)
  case (Suc k)
  have pe: "eats (dec m) wf_expr pe" and n: "dec m \<le> n" using Suc.prems by (auto intro: costs_pred)
  have IH: "runs (dec m) (\<lambda>x. wf_actions (fst x) \<and> wf_actions (snd x)) (merge_actions k n pe a' b')"
    if "wf_actions a'" "wf_actions b'" for a' b'
    by (rule Suc.IH) (use Suc.prems that pe in auto)
  have items: "runs (dec m) Q (thenP advance (thenP (expect (Kw SET)) (bindP (parse_set_items n pe) f)))"
    if "\<And>items. wf_actions items \<Longrightarrow> runs (dec m) Q (f items)" for Q :: "Expr SetItem list \<times> Expr SetItem list \<Rightarrow> bool" and f
    by (rule runs_then [OF runs_advance], rule runs_then [OF runs_expect], simp,
        rule runs_bind [OF parse_set_items_runs [OF n pe]]) (rule that [OF wf_set_items_actions])
  show ?case
    unfolding Suc_eqs by (intro runs_opt costs_branch items IH costs_ret costs_failP) (use Suc.prems in simp_all)
qed (simp add: costs_vacuous)

lemma parse_merge_runs:
  assumes "m \<le> n" and pe: "eats m wf_expr pe"
  shows "runs m (\<lambda>c. pipe_clause c \<and> is_write c) (parse_merge n pe)"
proof -
  have act: "runs m (\<lambda>x. wf_actions (fst x) \<and> wf_actions (snd x)) (merge_actions n n pe [] [])"
    by (rule merge_actions_runs) (use assms in \<open>auto simp: wf_actions_def\<close>)
  show ?thesis
    unfolding parse_merge_def [abs_def]
    by (rule runs_bind [OF eats_runs [OF parse_pattern_eats [OF assms(1) costs_pred [OF pe]]]],
        rule runs_bind [OF act], rule costs_case_prod, rule costs_ret)
      (auto simp: wf_clause_def wf_pattern_def wf_actions_def list_all_iff intro!: merge_shape)
qed

section \<open>\<open>FOREACH\<close>\<close>

lemma foreach_head_runs:
  assumes "runs m wf_expr pe"
  shows "runs m (\<lambda>x. wf_expr (snd x)) (foreach_head msg pe)"
proof -
  have var: "runs m (\<lambda>_. True) (\<lambda>p. case peek p of Ident s \<Rightarrow> thenP advance (ret s) p | _ \<Rightarrow> failP msg p)"
  proof (rule costsI)
    fix p assume p: "wf_parser p" "remaining p < m"
    show "good_result False (\<lambda>_. True) p (case peek p of Ident s \<Rightarrow> thenP advance (ret s) p | _ \<Rightarrow> failP msg p)"
      using costsD [OF runs_then [OF runs_advance costs_ret] p, of "\<lambda>_. True"]
      by (auto simp: failP_def fail_at_def split: Token.split)
  qed
  show ?thesis
    unfolding foreach_head_def [abs_def]
    by (rule runs_then [OF runs_expect], simp, rule runs_bind [OF var], rule runs_then [OF runs_expect], simp,
        rule runs_bind [OF assms], rule runs_then [OF runs_expect], simp, rule costs_ret, simp)
qed

abbreviation write_clause :: "clause \<Rightarrow> bool" where
  "write_clause c \<equiv> pipe_clause c \<and> is_write c"

lemma foreach_wf:
  "wf_expr e \<Longrightarrow> list_all write_clause cs \<Longrightarrow> write_clause (Foreach v e cs)"
  by (auto simp: wf_clause_def list_all_iff intro!: foreach_shape)

lemma nested_foreach_body_runs:
  "m \<le> k \<Longrightarrow> m \<le> n \<Longrightarrow> eats (dec m) wf_expr pe \<Longrightarrow> list_all write_clause acc \<Longrightarrow>
   runs m (list_all write_clause) (nested_foreach_body k n pe acc)"
proof (induction k arbitrary: m acc)
  case (Suc k)
  have n: "dec m \<le> n" using Suc.prems by simp
  have "runs (dec m) (list_all write_clause) (nested_foreach_body k n pe (acc @ [c]))" if "write_clause c" for c
    by (rule Suc.IH) (use Suc.prems that in \<open>auto intro: costs_pred\<close>)
  then show ?case
    unfolding Suc_eqs
    by (intro runs_opt costs_ret runs_bind [OF parse_create_runs [OF n Suc.prems(3)]]
          runs_bind [OF parse_set_runs [OF n Suc.prems(3)]] Suc.prems) simp_all
qed (simp add: costs_vacuous)

lemma parse_nested_foreach_runs:
  assumes "m \<le> n" and pe: "eats m wf_expr pe"
  shows "runs m write_clause (parse_nested_foreach n pe)"
  unfolding parse_nested_foreach_def [abs_def]
  by (rule runs_bind [OF foreach_head_runs [OF eats_runs [OF pe]]], rule costs_case_prod,
      rule runs_bind [OF nested_foreach_body_runs], rule assms, rule assms, rule costs_pred [OF pe], simp,
      rule costs_ret, rule foreach_wf)
    auto

lemma foreach_clause_eats:
  assumes "m \<le> n" and pe: "eats (dec m) wf_expr pe"
  shows "eats m write_clause (foreach_clause n pe)"
proof -
  have n: "dec m \<le> n" using assms by simp
  have merge: "runs (dec m) write_clause (bindP (parse_pattern n pe) (\<lambda>pattern. ret (Merge pattern [] [])))"
    by (rule runs_bind [OF eats_runs [OF parse_pattern_eats [OF n costs_pred [OF pe]]] costs_ret])
      (auto simp: wf_clause_def wf_pattern_def intro!: merge_shape)
  show ?thesis
    unfolding foreach_clause_def [abs_def]
    by (intro eats_opt parse_create_runs parse_delete_runs parse_detach_runs parse_set_runs parse_remove_runs
          merge parse_nested_foreach_runs costs_failP n pe) simp_all
qed

lemma foreach_body_runs:
  "m \<le> k \<Longrightarrow> m \<le> n \<Longrightarrow> eats (dec m) wf_expr pe \<Longrightarrow> list_all write_clause acc \<Longrightarrow>
   runs m (list_all write_clause) (foreach_body k n pe acc)"
proof (induction k arbitrary: m acc)
  case (Suc k)
  have "runs (dec m) (list_all write_clause) (foreach_body k n pe (acc @ [c]))" if "write_clause c" for c
    by (rule Suc.IH) (use Suc.prems that in \<open>auto intro: costs_pred\<close>)
  then show ?case
    unfolding Suc_eqs
    by (intro runs_opt costs_ret runs_bind_then [OF foreach_clause_eats] Suc.prems) simp_all
qed (simp add: costs_vacuous)

lemma parse_foreach_runs:
  assumes "m \<le> n" and pe: "eats m wf_expr pe"
  shows "runs m write_clause (parse_foreach n pe)"
  unfolding parse_foreach_def [abs_def]
  by (rule runs_bind [OF foreach_head_runs [OF eats_runs [OF pe]]], rule costs_case_prod,
      rule runs_bind [OF foreach_body_runs], rule assms, rule assms, rule costs_pred [OF pe], simp,
      rule costs_ret, rule foreach_wf)
    auto

section \<open>Schema statements\<close>

lemma index_spec_runs: "runs m (\<lambda>_. True) index_spec"
  unfolding index_spec_def [abs_def]
  by (intro runs_then [OF runs_expect] runs_bind [OF eats_runs [OF eat_ident_flexible_eats]] costs_ret) simp_all

lemma variable_property_runs: "runs m (\<lambda>_. True) variable_property"
  unfolding variable_property_def [abs_def]
  by (intro runs_then [OF eats_runs [OF eat_ident_flexible_eats]] runs_then [OF runs_expect]
        eats_runs [OF eat_ident_flexible_eats]) simp_all

lemma constraint_spec_runs: "runs m (\<lambda>x. snd (snd x) \<in> {''UNIQUE'', ''EXISTS''}) constraint_spec"
proof -
  have kind: "runs m (\<lambda>x. snd x \<in> {''UNIQUE'', ''EXISTS''})
      (branch (\<lambda>p. peek p = Ident ''exists'' \<or> peek p = Ident ''EXISTS'')
                (thenP advance (thenP (expect (Sym LParen))
                  (bindP variable_property (\<lambda>prop. thenP (expect (Sym RParen)) (ret (prop, ''EXISTS''))))))
                (bindP variable_property (\<lambda>prop.
                  thenP (expect (Kw IS)) (thenP (expect (Kw UNIQUE)) (ret (prop, ''UNIQUE''))))))"
    by (intro costs_branch runs_then [OF runs_advance] runs_then [OF runs_expect]
          runs_bind [OF variable_property_runs] costs_ret) simp_all
  show ?thesis
    unfolding constraint_spec_def [abs_def]
    by (intro runs_then [OF runs_expect] runs_then [OF eats_runs [OF eat_ident_flexible_eats]]
          runs_bind [OF eats_runs [OF eat_ident_flexible_eats]] runs_bind [OF kind] costs_case_prod costs_ret)
      auto
qed

lemma parse_create_statement_runs:
  assumes "m \<le> n" and pe: "eats m wf_expr pe"
  shows "runs m pipe_clause (parse_create_statement n pe)"
  unfolding parse_create_statement_def [abs_def]
  by (intro runs_opt_same runs_bind [OF index_spec_runs] runs_bind [OF constraint_spec_runs]
        costs_case_prod costs_ret costs_post [OF parse_create_runs [OF assms]])
    (auto simp: wf_clause_def intro!: create_index_shape create_constraint_shape)

lemma parse_drop_runs: "runs m pipe_clause parse_drop"
  unfolding parse_drop_def [abs_def]
  by (intro runs_opt_same runs_bind [OF index_spec_runs] runs_bind [OF constraint_spec_runs]
        runs_then [OF runs_expect] costs_case_prod costs_ret)
    (auto simp: wf_clause_def intro!: drop_index_shape drop_constraint_shape)

lemma parse_show_runs: "runs m (\<lambda>c. wf_clause c \<and> is_terminal c) parse_show"
  unfolding parse_show_def [abs_def]
  by (intro runs_opt_same runs_then [OF runs_expect] costs_ret)
    (auto simp: wf_clause_def intro: show_indexes_shape show_constraints_shape)

section \<open>Queries\<close>

definition wf_turn :: "clause \<times> bool \<Rightarrow> bool" where
  "wf_turn x \<longleftrightarrow> wf_clause (fst x) \<and> (snd x \<longleftrightarrow> is_terminal (fst x))"

lemma goes_on_runs: "runs m pipe_clause f \<Longrightarrow> runs m wf_turn (goes_on f)"
  unfolding goes_on_def [abs_def] by (rule runs_bind, assumption, rule costs_ret) (simp add: wf_turn_def)

lemma terminal_runs: "runs m (\<lambda>c. wf_clause c \<and> is_terminal c) f \<Longrightarrow> runs m wf_turn (terminal f)"
  unfolding terminal_def [abs_def] by (rule runs_bind, assumption, rule costs_ret) (simp add: wf_turn_def)

lemma write_pipe: "runs m write_clause f \<Longrightarrow> runs m pipe_clause f"
  by (erule costs_post) simp

lemma parse_return_terminal:
  assumes "m \<le> n" and pe: "eats m wf_expr pe"
  shows "runs m (\<lambda>c. wf_clause c \<and> is_terminal c) (parse_return n pe)"
  unfolding parse_return_def [abs_def]
  by (rule runs_bind [OF parse_return_items_eats [OF assms]], rule costs_case_prod,
      rule runs_bind [OF try_parse_order_by_runs [OF assms]],
      rule runs_bind [OF try_parse_skip_runs [OF eats_runs [OF pe]]],
      rule runs_bind [OF try_parse_limit_runs [OF eats_runs [OF pe]]], rule costs_ret)
    (auto simp: wf_clause_def wf_items_def wf_order_def wf_bound_def intro: return_shape)

lemma parse_clause_eats:
  assumes "m \<le> n" and pe: "eats (dec m) wf_expr pe" and pq: "runs (dec m) wf_query pq"
  shows "eats m wf_turn (parse_clause n pe pq)"
proof -
  have n: "dec m \<le> n" using assms by simp
  show ?thesis
    unfolding parse_clause_def [abs_def]
    by (intro eats_opt goes_on_runs terminal_runs parse_match_runs parse_unwind_runs parse_call_runs
          parse_with_runs parse_return_terminal parse_create_statement_runs parse_drop_runs parse_show_runs
          write_pipe [OF parse_delete_runs] write_pipe [OF parse_detach_runs] write_pipe [OF parse_set_runs]
          write_pipe [OF parse_remove_runs] write_pipe [OF parse_merge_runs] write_pipe [OF parse_foreach_runs]
          costs_failP eats_runs [OF pe] n pe pq)
      simp_all
qed

definition wf_pipeline :: "clause list \<Rightarrow> bool" where
  "wf_pipeline cs \<longleftrightarrow> (\<forall>c \<in> set cs. wf_clause c) \<and> list_all (\<lambda>c. \<not> is_terminal c) (butlast cs)"

lemma parse_clauses_runs:
  "m \<le> n \<Longrightarrow> eats m wf_turn f \<Longrightarrow> \<forall>c \<in> set acc. pipe_clause c \<Longrightarrow>
   runs m wf_pipeline (parse_clauses n f acc)"
proof (induction n arbitrary: m acc)
  case (Suc n)
  have "runs (dec m) wf_pipeline (case x of (c, stop) \<Rightarrow>
      if stop then ret (acc @ [c]) else parse_clauses n f (acc @ [c]))" if x: "wf_turn x" for x
  proof (cases x)
    case (Pair c stop)
    have "runs (dec m) wf_pipeline (parse_clauses n f (acc @ [c]))" if "\<not> stop"
      by (rule Suc.IH) (use Suc.prems that x Pair in \<open>auto simp: wf_turn_def intro: costs_pred\<close>)
    moreover have "runs (dec m) wf_pipeline (ret (acc @ [c]))"
      by (rule costs_ret) (use Suc.prems x Pair in \<open>auto simp: wf_turn_def wf_pipeline_def list_all_iff\<close>)
    ultimately show ?thesis using Pair by simp
  qed
  moreover have "wf_pipeline acc"
    using Suc.prems(3) by (auto simp: wf_pipeline_def list_all_iff dest: in_set_butlastD)
  ultimately show ?case
    unfolding Suc_eqs by (intro costs_branch costs_ret runs_bind_then [OF Suc.prems(2)])
qed (simp add: costs_vacuous)

text \<open>The clause loop stops at the end of the query, or behind a terminal clause.\<close>

lemma parse_clauses_stops:
  assumes "eats m wf_turn f"
  shows "wf_parser p \<Longrightarrow> remaining p < m \<Longrightarrow> parse_clauses n f acc p = Some (Inr (cs, p')) \<Longrightarrow> \<not> ends_query p' \<Longrightarrow>
    cs \<noteq> [] \<and> is_terminal (last cs)"
proof (induction n arbitrary: p acc)
  case (Suc n)
  show ?case
  proof (cases "ends_query p")
    case False
    then obtain c stop p1 where f: "f p = Some (Inr ((c, stop), p1))"
      and rest: "(if stop then ret (acc @ [c]) else parse_clauses n f (acc @ [c])) p1 = Some (Inr (cs, p'))"
      using Suc.prems(3) by (auto simp: branch_def bindP_def split: option.splits sum.splits)
    have "after True p p1" "wf_turn (c, stop)" using costsD [OF assms Suc.prems(1,2)] f by auto
    then show ?thesis
      using rest Suc.IH [of p1 "acc @ [c]"] Suc.prems(2,4)
      by (cases stop) (auto simp: after_def wf_turn_def ret_def)
  qed (use Suc.prems in \<open>auto simp: branch_def ret_def\<close>)
qed simp

lemma query_wf:
  "wf_pipeline cs \<Longrightarrow> wf_query (Query cs None)"
  by (auto simp: wf_query_def wf_pipeline_def wf_clause_def pipeline_def intro!: single_query)

lemma union_wf:
  "wf_pipeline cs \<Longrightarrow> cs \<noteq> [] \<Longrightarrow> is_terminal (last cs) \<Longrightarrow> wf_query q \<Longrightarrow> \<not> mixes_union all q \<Longrightarrow>
   wf_query (Query cs (Some (all, q)))"
  by (auto simp: wf_query_def wf_pipeline_def wf_clause_def pipeline_def intro!: union_query)

lemma parse_union_good:
  assumes pq: "runs (dec m) wf_query pq" and cs: "wf_pipeline cs" "cs \<noteq> []" "is_terminal (last cs)"
    and p: "wf_parser p" "remaining p < m" "peek p \<noteq> Eof"
  shows "good_result False wf_query p (parse_union pq cs p)"
proof -
  let ?tail = "\<lambda>all right p. if mixes_union all right then
            fail_at (Message ''SyntaxError::InvalidClauseComposition: cannot mix UNION and UNION ALL'')
              (offset p) p
          else ret (Query cs (Some (all, right))) p"
  have tail: "runs (dec m) wf_query (?tail all right)" if "wf_query right" for all right
    by (rule costsI) (use union_wf [OF cs that] in \<open>auto simp: fail_at_def ret_def after_refl\<close>)
  have "runs (dec m) wf_query
      (bindP (branch (\<lambda>p. is_word [''ALL''] (peek p)) (thenP advance (ret True)) (ret False))
        (\<lambda>all. bindP pq (?tail all)))"
    by (rule runs_bind, rule costs_branch, rule runs_then [OF runs_advance], rule costs_ret, rule TrueI,
        rule costs_ret, rule TrueI, rule runs_bind [OF pq tail])
  from advance_then_good [OF p this] show ?thesis
    unfolding parse_union_def by (auto intro: good_result_weaken)
qed

lemma parse_query_with_runs:
  assumes "m \<le> n" and pe: "eats (dec m) wf_expr pe" and pq: "runs (dec m) wf_query pq"
  shows "runs m wf_query (parse_query_with n pe pq)"
proof (rule costsI)
  fix p assume p: "wf_parser p" "remaining p < m"
  let ?f = "parse_clause n pe pq"
  have f: "eats m wf_turn ?f" by (rule parse_clause_eats [OF assms])
  have "runs m wf_pipeline (parse_clauses n ?f [])"
    by (rule parse_clauses_runs [OF assms(1) f]) simp
  from costsD [OF this p] show "good_result False wf_query p (parse_query_with n pe pq p)"
  proof (cases rule: good_result_cases)
    case (fails e)
    then show ?thesis by (simp add: parse_query_with_def bindP_def)
  next
    case (returns cs p')
    then have p': "wf_parser p'" "remaining p' < m" using p by (auto simp: after_def)
    have "good_result False wf_query p' (parse_union pq cs p')" if "is_word [''UNION''] (peek p')" "\<not> ends_query p'"
      using parse_clauses_stops [OF f p returns(1) that(2)]
      by (intro parse_union_good [OF pq returns(3) _ _ p'] is_word_not_Eof [OF that(1)]) simp_all
    then have "good_result False wf_query p'
        (branch ends_query (ret (Query cs None))
        (branch (\<lambda>p. is_word [''UNION''] (peek p)) (parse_union pq cs) (failP UnexpectedAfterReturn)) p')"
      using query_wf [OF returns(3)] p'
      by (simp add: branch_def ret_def after_refl failP_def fail_at_def)
    then show ?thesis
      by (rule good_result_cases)
        (auto simp: parse_query_with_def bindP_at [of "parse_clauses n ?f []" p, OF returns(1)]
           dest: after_trans [OF returns(2)])
  qed
qed

text \<open>The knot.\<close>

lemma parse_expr_eats: "eats n wf_expr (parse_expr n)"
  and parse_query_runs: "runs n wf_query (parse_query n)"
proof (induction n)
  case 0
  show "eats 0 wf_expr (parse_expr 0)" and "runs 0 wf_query (parse_query 0)" by (rule costs_vacuous)+
next
  case (Suc n)
  have expr: "parse_expr (Suc n) = parse_or (Suc n) (parse_primary (Suc n) (parse_expr n) (parse_query n))"
    and query: "parse_query (Suc n) = parse_query_with (Suc n) (parse_expr n) (parse_query n)"
    by (rule ext, simp)+
  show "eats (Suc n) wf_expr (parse_expr (Suc n))"
    unfolding expr by (rule parse_or_eats, simp, rule parse_primary_eats) (use Suc in simp_all)
  show "runs (Suc n) wf_query (parse_query (Suc n))"
    unfolding query by (rule parse_query_with_runs) (use Suc in simp_all)
qed

section \<open>The entry point\<close>

lemma parser_new_wf:
  assumes "lex s = Inr toks"
  shows "wf_parser (parser_new toks s)" and "remaining (parser_new toks s) < length toks"
proof -
  obtain ts where "toks = ts @ [\<lparr>token = Eof, st_offset = length s\<rparr>]" "spans 0 (length s) ts"
    using lex_ok [OF assms] by blast
  then show "wf_parser (parser_new toks s)" "remaining (parser_new toks s) < length toks"
    by (auto simp: wf_parser_def parser_new_def remaining_def spans_def list_all_iff)
qed

lemma parse_returns:
  "\<exists>r. parse s = Some r \<and> (\<forall>q. r = Inr q \<longrightarrow> wf_query q)"
proof (cases "lex s")
  case (Inl e)
  then show ?thesis by (cases e) (auto simp: parse_def)
next
  case (Inr toks)
  from costsD [OF parse_query_runs parser_new_wf [OF Inr]] show ?thesis
    by (cases rule: good_result_cases) (auto simp: parse_def Inr)
qed

end
