(* ===== verification/CypherGrammar.thy ===== *)
theory CypherGrammar
  imports CypherClauses
begin

text \<open>
  A grammar of Cypher expressions, independent of the parser: \<open>derives k ts e\<close> says that the token
  sequence \<open>ts\<close> is an expression of the precedence level \<open>k\<close> with the syntax tree \<open>e\<close>. The levels are
  those of the methods of the parser: 1 \<open>OR\<close>, 2 \<open>XOR\<close>, 3 \<open>AND\<close>, 4 \<open>NOT\<close>, 5 comparisons, 6 \<open>IN\<close>,
  7 \<open>IS NULL\<close>, 8 sums, 9 products, 10 powers, 11 signs, 12 primary expressions with what hangs on them.

  Left out are the forms with a graph pattern inside, label tests, \<open>filter\<close> and \<open>extract\<close>; and the
  sentences the parser misreads: see \<open>paren_ok\<close> and \<open>list_ok\<close>.
\<close>

section \<open>Tokens\<close>

definition level_op :: "nat \<Rightarrow> Token \<Rightarrow> (Expr \<Rightarrow> Expr \<Rightarrow> Expr) option" where
  "level_op k =
    (if k = 1 then or_op else if k = 2 then xor_op else if k = 3 then and_op
     else if k = 8 then addition_op else if k = 9 then multiplication_op else if k = 10 then power_op
     else (\<lambda>_. None))"

fun text_op :: "Token list \<Rightarrow> (Expr \<Rightarrow> Expr \<Rightarrow> Expr) option" where
  "text_op [t] =
    (if string_predicate t = ''CONTAINS'' then Some Contains
     else if t = Sym RegexMatch then Some Regex else None)"
| "text_op [t, u] =
    (if u \<noteq> Kw WITH then None
     else if string_predicate t = ''STARTS'' then Some StartsWith
     else if string_predicate t = ''ENDS'' then Some EndsWith else None)"
| "text_op _ = None"

definition flexible_name :: "Token \<Rightarrow> string option" where
  "flexible_name t = (case t of Ident s \<Rightarrow> Some s | Kw k \<Rightarrow> map_of flexible k | _ \<Rightarrow> None)"

definition plain_function :: "string \<Rightarrow> bool" where
  "plain_function name \<longleftrightarrow>
    list_predicate_kind (to_ascii_lowercase name) = None \<and>
    to_ascii_lowercase name \<notin> {''filter'', ''extract'', ''shortestpath'', ''allshortestpaths''}"

text \<open>
  After an opening parenthesis: a single variable, a map and a variable with a colon or a brace may
  be taken for a node pattern, as in \<open>(a) - 1\<close>. At the beginning of a list: a parenthesis, \<open>x IN\<close> and
  \<open>x =\<close> are taken for a comprehension, as in \<open>[(1 + 2) * 3]\<close>.
\<close>

fun paren_ok :: "Token list \<Rightarrow> bool" where
  "paren_ok [] = False"
| "paren_ok [t] = (\<not> is_ident t \<and> t \<noteq> Sym LBrace)"
| "paren_ok (t # u # _) =
    (if is_ident t then u \<notin> {Sym Colon, Sym LBrace, Sym RParen} else t \<noteq> Sym LBrace)"

fun list_ok :: "Token list \<Rightarrow> bool" where
  "list_ok [] = True"
| "list_ok [t] = (t \<noteq> Sym LParen)"
| "list_ok (t # u # _) = (t \<noteq> Sym LParen \<and> \<not> (is_ident t \<and> u \<in> {Kw IN_KW, Sym EqSign}))"

section \<open>Sequences\<close>

text \<open>A phrase is a token sequence with its tree.\<close>

type_synonym phrase = "Token list \<times> Expr"

definition more_args :: "phrase list \<Rightarrow> Token list" where
  "more_args is = concat (map (\<lambda>i. Sym Comma # fst i) is)"

definition args :: "phrase list \<Rightarrow> Token list" where
  "args is = (case is of [] \<Rightarrow> [] | i # is \<Rightarrow> fst i @ more_args is)"

definition part :: "Token \<Rightarrow> phrase option \<Rightarrow> Token list" where
  "part t o' = (case o' of None \<Rightarrow> [] | Some i \<Rightarrow> t # fst i)"

definition bare :: "phrase option \<Rightarrow> Token list" where
  "bare o' = (case o' of None \<Rightarrow> [] | Some i \<Rightarrow> fst i)"

definition whens :: "(phrase \<times> phrase) list \<Rightarrow> Token list" where
  "whens bs = concat (map (\<lambda>(w, t). Kw WHEN # fst w @ Kw THEN_KW # fst t) bs)"

definition branches :: "(phrase \<times> phrase) list \<Rightarrow> (Expr \<times> Expr) list" where
  "branches bs = map (\<lambda>(w, t). (snd w, snd t)) bs"

definition entries :: "(string \<times> phrase) list \<Rightarrow> phrase list" where
  "entries kvs = map (\<lambda>(k, i). (Ident k # Sym Colon # fst i, snd i)) kvs"

section \<open>The grammar\<close>

inductive derives :: "nat \<Rightarrow> Token list \<Rightarrow> Expr \<Rightarrow> bool"
  and chain :: "Token list \<Rightarrow> Expr \<Rightarrow> Expr \<Rightarrow> bool"
where
  lift: "derives (Suc k) ts e \<Longrightarrow> k \<in> {1..11} \<Longrightarrow> derives k ts e"
| operator: "derives k ts a \<Longrightarrow> level_op k t = Some mk \<Longrightarrow> derives (Suc k) us b \<Longrightarrow> derives k (ts @ t # us) (mk a b)"
| negation: "derives 4 ts a \<Longrightarrow> derives 4 (Kw NOT_KW # ts) (Not a)"
| comparison: "chain ts e l \<Longrightarrow> derives 5 ts e"
| first_comparison:
    "derives 6 ts a \<Longrightarrow> cmp_op t = Some op \<Longrightarrow> derives 6 us b \<Longrightarrow> chain (ts @ t # us) (Compare a op b) b"
| next_comparison:
    "chain ts e l \<Longrightarrow> cmp_op t = Some op \<Longrightarrow> derives 6 us b \<Longrightarrow> chain (ts @ t # us) (And e (Compare l op b)) b"
| text_predicate: "derives 6 ts a \<Longrightarrow> text_op ws = Some mk \<Longrightarrow> derives 6 us b \<Longrightarrow> derives 5 (ts @ ws @ us) (mk a b)"
| membership: "derives 7 ts a \<Longrightarrow> derives 7 us b \<Longrightarrow> derives 6 (ts @ Kw IN_KW # us) (InList a b)"
| is_null: "derives 8 ts a \<Longrightarrow> derives 7 (ts @ [Kw IS, Kw NULL]) (IsNull a)"
| is_not_null: "derives 8 ts a \<Longrightarrow> derives 7 (ts @ [Kw IS, Kw NOT_KW, Kw NULL]) (IsNotNull a)"
| negative: "derives 11 ts a \<Longrightarrow> derives 11 (Sym Dash # ts) (Neg a)"
| least: "derives 11 [Sym Dash, IntLitBig] (IntLit i64_MIN)"
| literal: "literal t = Some e \<Longrightarrow> derives 12 [t] e"
| variable: "derives 12 [Ident x] (Variable x)"
| paren: "derives 1 ts e \<Longrightarrow> paren_ok ts \<Longrightarrow> derives 12 (Sym LParen # ts @ [Sym RParen]) e"
| empty_list: "derives 12 [Sym LBracket, Sym RBracket] (List [])"
| list: "is \<noteq> [] \<Longrightarrow> \<forall>i \<in> set is. derives 1 (fst i) (snd i) \<Longrightarrow> list_ok (args is) \<Longrightarrow>
    derives 12 (Sym LBracket # args is @ [Sym RBracket]) (List (map snd is))"
| comprehension: "derives 1 ts l \<Longrightarrow> \<forall>i \<in> set_option w. derives 1 (fst i) (snd i) \<Longrightarrow>
    \<forall>i \<in> set_option m. derives 1 (fst i) (snd i) \<Longrightarrow>
    derives 12 (Sym LBracket # Ident x # Kw IN_KW # ts @ part (Kw WHERE) w @ part (Sym Pipe) m @ [Sym RBracket])
      (ListComprehension x l (map_option snd w) (map_option snd m))"
| map_literal: "\<forall>kv \<in> set kvs. derives 1 (fst (snd kv)) (snd (snd kv)) \<Longrightarrow>
    derives 12 (Sym LBrace # args (entries kvs) @ [Sym RBrace]) (MapLiteral (map (\<lambda>kv. (fst kv, snd (snd kv))) kvs))"
| call: "plain_function f \<Longrightarrow> \<forall>i \<in> set is. derives 1 (fst i) (snd i) \<Longrightarrow>
    derives 12 (Ident f # Sym LParen # args is @ [Sym RParen]) (FunctionCall f (map snd is))"
| call_star: "plain_function f \<Longrightarrow>
    derives 12 [Ident f, Sym LParen, Sym StarSign, Sym RParen] (FunctionCall f [Star])"
| quantifier: "list_predicate_kind (to_ascii_lowercase f) = Some kind \<Longrightarrow> derives 1 ts l \<Longrightarrow> derives 1 us b \<Longrightarrow>
    derives 12 (Ident f # Sym LParen # Ident x # Kw IN_KW # ts @ Kw WHERE # us @ [Sym RParen])
      (ListPredicate kind x l b)"
| case_searched: "\<forall>b \<in> set bs. derives 1 (fst (fst b)) (snd (fst b)) \<and> derives 1 (fst (snd b)) (snd (snd b)) \<Longrightarrow>
    \<forall>i \<in> set_option d. derives 1 (fst i) (snd i) \<Longrightarrow> bs \<noteq> [] \<Longrightarrow>
    derives 12 (Kw CASE # whens bs @ part (Kw ELSE) d @ [Kw END]) (CaseSearched (branches bs) (map_option snd d))"
| case_simple: "derives 1 ts e \<Longrightarrow>
    \<forall>b \<in> set bs. derives 1 (fst (fst b)) (snd (fst b)) \<and> derives 1 (fst (snd b)) (snd (snd b)) \<Longrightarrow>
    \<forall>i \<in> set_option d. derives 1 (fst i) (snd i) \<Longrightarrow>
    derives 12 (Kw CASE # ts @ whens bs @ part (Kw ELSE) d @ [Kw END]) (CaseSimple e (branches bs) (map_option snd d))"
| property: "derives 12 ts a \<Longrightarrow> flexible_name t = Some k \<Longrightarrow> derives 12 (ts @ [Sym Dot, t]) (Property a k)"
| call_on: "derives 12 ts a \<Longrightarrow> flexible_name t = Some f \<Longrightarrow> \<forall>i \<in> set is. derives 1 (fst i) (snd i) \<Longrightarrow>
    derives 12 (ts @ Sym Dot # t # Sym LParen # args is @ [Sym RParen]) (FunctionCall f (a # map snd is))"
| subscript: "derives 12 ts a \<Longrightarrow> derives 1 us i \<Longrightarrow>
    derives 12 (ts @ Sym LBracket # us @ [Sym RBracket]) (Subscript a i)"
| slice: "derives 12 ts a \<Longrightarrow> \<forall>i \<in> set_option lo. derives 1 (fst i) (snd i) \<Longrightarrow>
    \<forall>i \<in> set_option hi. derives 1 (fst i) (snd i) \<Longrightarrow>
    derives 12 (ts @ Sym LBracket # bare lo @ Sym DotDot # bare hi @ [Sym RBracket])
      (ListSlice a (map_option snd lo) (map_option snd hi))"

section \<open>How sentences begin\<close>

text \<open>The first token of a sentence of level \<open>k\<close>.\<close>

definition starts :: "nat \<Rightarrow> Token \<Rightarrow> bool" where
  "starts k t \<longleftrightarrow>
    CypherParser.literal t \<noteq> None \<or> is_ident t \<or> t \<in> {Sym LParen, Sym LBracket, Sym LBrace, Kw CASE} \<or>
    k \<le> 11 \<and> t = Sym Dash \<or> k \<le> 4 \<and> t = Kw NOT_KW"

lemma starts_mono: "starts (Suc k) t \<Longrightarrow> starts k t"
  by (auto simp: starts_def)

lemma level_op_level: "level_op k t = Some mk \<Longrightarrow> k \<in> {1, 2, 3, 8, 9, 10}"
  by (auto simp: level_op_def split: if_splits)

lemma derives_starts:
  "derives k ts e \<Longrightarrow> ts \<noteq> [] \<and> starts k (hd ts)"
  "chain ts e l \<Longrightarrow> ts \<noteq> [] \<and> starts 6 (hd ts)"
proof (induction rule: derives_chain.inducts)
  case (lift k ts e)
  then show ?case using starts_mono by blast
next
  case (comparison ts e l)
  then show ?case by (auto simp: starts_def)
next
  case (membership ts a us b)
  then show ?case by (auto simp: starts_def)
next
  case (text_predicate ts a ws mk us b)
  then show ?case by (auto simp: starts_def)
next
  case (is_null ts a)
  then show ?case by (auto simp: starts_def)
next
  case (is_not_null ts a)
  then show ?case by (auto simp: starts_def)
qed (simp_all add: starts_def is_ident_def)

text \<open>A sentence of a level is one of every lower level.\<close>

lemma derives_lower: "derives (i + d) ts e \<Longrightarrow> 1 \<le> i \<Longrightarrow> i + d \<le> 12 \<Longrightarrow> derives i ts e"
proof (induction d)
  case (Suc d)
  then show ?case using lift [of "i + d" ts e] by simp
qed simp

text \<open>The continuations: the tokens that go on with a sentence of the level or of a higher one.\<close>

definition cont :: "Token \<Rightarrow> nat" where
  "cont t =
    (case t of
      Sym s \<Rightarrow>
        (if s \<in> {LParen, LBrace, Colon} then 13 else if s \<in> {Dot, LBracket} then 12 else if s = Caret then 10
         else if s \<in> {StarSign, Slash, Percent} then 9 else if s \<in> {Plus, Dash} then 8
         else if s \<in> {EqSign, NeqSign, LArrow, RArrow, LeSign, GeSign, RegexMatch} then 5 else 0)
    | Kw k \<Rightarrow>
        (if k = IS then 7 else if k = IN_KW then 6 else if k = AND_KW then 3 else if k = XOR_KW then 2
         else if k = OR_KW then 1 else 0)
    | Ident s \<Rightarrow> if to_ascii_uppercase s \<in> {''STARTS'', ''ENDS'', ''CONTAINS''} then 5 else 0
    | _ \<Rightarrow> 0)"

lemma level_op_cont: "level_op k t = Some mk \<Longrightarrow> cont t = k"
  by (auto simp: level_op_def or_op_def xor_op_def and_op_def addition_op_def multiplication_op_def
      power_op_def cont_def split: if_splits)

lemma level_op_none: "cont t \<noteq> k \<Longrightarrow> level_op k t = None"
  using level_op_cont [of k t] by (cases "level_op k t") auto

lemma cmp_op_cont: "cmp_op t = Some op \<Longrightarrow> cont t = 5"
  by (auto simp: cmp_op_def cont_def split: if_splits)

lemma cmp_op_none: "cont t < 5 \<Longrightarrow> cmp_op t = None"
  using cmp_op_cont [of t] by (cases "cmp_op t") auto

lemma string_predicate_cont:
  "cont t < 5 \<Longrightarrow> string_predicate t \<noteq> ''STARTS'' \<and> string_predicate t \<noteq> ''ENDS'' \<and> string_predicate t \<noteq> ''CONTAINS''"
  by (cases t) (auto simp: string_predicate_def cont_def)

lemma cont_simps [simp]:
  "cont (Sym Comma) = 0" "cont (Sym RParen) = 0" "cont (Sym RBracket) = 0" "cont (Sym RBrace) = 0"
  "cont (Sym Pipe) = 0" "cont (Sym DotDot) = 0" "cont (Kw WHERE) = 0" "cont (Kw WHEN) = 0"
  "cont (Kw THEN_KW) = 0" "cont (Kw ELSE) = 0" "cont (Kw END) = 0" "cont Eof = 0"
  "cont (Sym Dot) = 12" "cont (Sym LBracket) = 12" "cont (Kw IS) = 7" "cont (Kw IN_KW) = 6"
  "cont (Sym Caret) = 10" "cont (Sym RegexMatch) = 5" "cont (Sym LParen) = 13" "cont (Sym LBrace) = 13"
  "cont (Sym Colon) = 13"
  by (simp_all add: cont_def)

end
