(* ===== verification/CypherComplete.thy ===== *)
theory CypherComplete
  imports CypherGrammar
begin

text \<open>
  Every sentence of the grammar is read by the parser, with the tree of its derivation: the
  precedences, the associativity and the chained comparisons are those of the grammar.
\<close>

section \<open>Running the parser on given tokens\<close>

definition ahead :: "Parser \<Rightarrow> Token list" where
  "ahead p = map token (drop (pos p) (tokens p))"

definition past :: "nat \<Rightarrow> Parser \<Rightarrow> Parser" where
  "past j p = p\<lparr>pos := pos p + j\<rparr>"

named_theorems run \<open>the parser's combinators on a state whose tokens are known\<close>

lemma ahead_past [simp]: "ahead (past j p) = drop j (ahead p)"
  by (simp add: ahead_def past_def drop_map add.commute)

lemma past_past [simp]: "past i (past j p) = past (j + i) p"
  by (simp add: past_def add.assoc)

lemma past_0 [simp]: "past 0 p = p"
  by (simp add: past_def)

lemma ahead_nth: "k < length (ahead p) \<Longrightarrow> token (tokens p ! (pos p + k)) = ahead p ! k"
  by (simp add: ahead_def)

lemma peek_ahead [run]: "ahead p \<noteq> [] \<Longrightarrow> peek p = hd (ahead p)"
  using ahead_nth [of 0 p] by (simp add: peek_def hd_conv_nth)

lemma peek_at_ahead [run]: "k < length (ahead p) \<Longrightarrow> peek_at p k = ahead p ! k"
proof -
  assume k: "k < length (ahead p)"
  then have "min (pos p + k) (length (tokens p) - 1) = pos p + k" by (simp add: ahead_def)
  then show ?thesis using ahead_nth [OF k] by (simp add: peek_at_def)
qed

lemma advance_ahead: "1 < length (ahead p) \<Longrightarrow> advance p = Some (Inr ((), past 1 p))"
  by (simp add: advance_def ret_def ahead_def past_def)

lemma then_advance [run]: "1 < length (ahead p) \<Longrightarrow> thenP advance f p = f (past 1 p)"
  by (simp add: thenP_def bindP_def advance_ahead)

lemma then_expect [run]:
  "1 < length (ahead p) \<Longrightarrow> hd (ahead p) = t \<Longrightarrow> thenP (expect t) f p = f (past 1 p)"
  using peek_ahead [of p] by (cases "ahead p") (simp_all add: expect_def thenP_def bindP_def advance_ahead)

lemma opt_next [run]:
  "1 < length (ahead p) \<Longrightarrow> opt t f g p = (if hd (ahead p) = t then f (past 1 p) else g p)"
  using peek_ahead [of p] by (cases "ahead p") (simp_all add: opt_def branch_def then_advance)

lemma opt_other [run]: "ahead p \<noteq> [] \<Longrightarrow> hd (ahead p) \<noteq> t \<Longrightarrow> opt t f g p = g p"
  by (simp add: opt_def branch_def run)

lemmas run_defs = branch_def ret_def

lemma bind_ret [run]: "bindP (ret a) g p = g a p"
  by (simp add: bindP_def ret_def)

lemma bind_bind [run]: "bindP (bindP f g) h p = bindP f (\<lambda>a. bindP (g a) h) p"
  by (simp add: bindP_def split: option.split sum.split)

lemma bind_at: "f p = Some (Inr (a, p')) \<Longrightarrow> bindP f g p = g a p'"
  by (simp add: bindP_def)

text \<open>\<open>f\<close> reads the tokens \<open>ts\<close> as \<open>a\<close> when a token of a lower level follows.\<close>

definition reads :: "nat \<Rightarrow> nat \<Rightarrow> 'a parser \<Rightarrow> Token list \<Rightarrow> 'a \<Rightarrow> bool" where
  "reads m k f ts a \<longleftrightarrow>
    (\<forall>p t r. ahead p = ts @ t # r \<longrightarrow> length (ahead p) \<le> m \<longrightarrow> cont t < k \<longrightarrow> f p = Some (Inr (a, past (length ts) p)))"

lemma reads_tokensI:
  "(\<And>p t r. ahead p = ts @ t # r \<Longrightarrow> length (ahead p) \<le> m \<Longrightarrow> cont t < k \<Longrightarrow> f p = Some (Inr (a, past (length ts) p))) \<Longrightarrow>
   reads m k f ts a"
  by (simp add: reads_def)

lemma reads_at:
  assumes "reads m k f ts a" and "take (length ts) (ahead p) = ts" and "length ts < length (ahead p)"
    and "length (ahead p) \<le> m" and "cont (ahead p ! length ts) < k"
  shows "f p = Some (Inr (a, past (length ts) p))"
proof -
  have "ahead p = ts @ ahead p ! length ts # drop (Suc (length ts)) (ahead p)"
    using assms(2,3) by (metis id_take_nth_drop)
  then show ?thesis using assms(1,4,5) unfolding reads_def by blast
qed

lemma reads_bind:
  assumes "reads m k f ts a" and "take (length ts) (ahead p) = ts" and "length ts < length (ahead p)"
    and "length (ahead p) \<le> m" and "cont (ahead p ! length ts) < k"
  shows "bindP f g p = g a (past (length ts) p)"
  by (rule bind_at, rule reads_at [OF assms])

section \<open>The methods of the levels\<close>

definition lvl :: "nat \<Rightarrow> nat \<Rightarrow> Expr parser \<Rightarrow> Expr parser" where
  "lvl n k primary =
    (if k = 1 then parse_or n primary else if k = 2 then parse_xor n primary
     else if k = 3 then parse_and n primary else if k = 4 then parse_not n (parse_comparison n primary)
     else if k = 5 then parse_comparison n primary else if k = 6 then parse_inlist n primary
     else if k = 7 then parse_is_null n primary else if k = 8 then parse_addition n primary
     else if k = 9 then parse_multiplication n primary else if k = 10 then parse_power n primary
     else if k = 11 then parse_unary n primary else primary)"

definition level :: "nat \<Rightarrow> nat \<Rightarrow> Expr parser" where
  "level n k = lvl n k (parse_primary n (parse_expr (n - 1)) (parse_query (n - 1)))"

abbreviation loops :: "nat \<Rightarrow> bool" where
  "loops k \<equiv> k \<in> {1, 2, 3, 8, 9, 10}"

lemma level_loop: "loops k \<Longrightarrow> level n k = binary_level n (level_op k) (level n (Suc k))"
  by (rule ext)
    (auto simp: level_def lvl_def level_op_def parse_or_def [abs_def] parse_xor_def [abs_def] parse_and_def [abs_def]
      parse_addition_def [abs_def] parse_multiplication_def [abs_def] parse_power_def [abs_def])

lemma level_simps:
  "level n 4 = parse_not n (level n 5)" "level n 5 = (\<lambda>p. bindP (level n 6) (comparison_tail n (level n 6)) p)"
  "level n 11 = parse_unary n (level n 12)" "parse_expr (Suc n) = level (Suc n) 1"
  "level (Suc n) 12 = parse_primary (Suc n) (parse_expr n) (parse_query n)"
  by (auto simp: level_def lvl_def parse_comparison_def [abs_def] fun_eq_iff)

lemma level_6: "level n 6 p = bindP (level n 7) (\<lambda>left.
     opt (Kw IN_KW) (bindP (level n 7) (\<lambda>l. ret (InList left l))) (ret left)) p"
  by (simp add: level_def lvl_def parse_inlist_def)

lemma level_7: "level n 7 p = bindP (level n 8) (\<lambda>e.
     opt (Kw IS)
       (opt (Kw NOT_KW) (thenP (expect (Kw NULL)) (ret (IsNotNull e))) (thenP (expect (Kw NULL)) (ret (IsNull e))))
       (ret e)) p"
  by (simp add: level_def lvl_def parse_is_null_def)

text \<open>
  Where a method goes on after the sentence \<open>ts\<close> when a token of its own level may follow: in its loop,
  with enough fuel for the tokens ahead.
\<close>

definition resume :: "nat \<Rightarrow> nat \<Rightarrow> nat \<Rightarrow> Expr \<Rightarrow> Expr parser" where
  "resume n k m e =
    (if k = 12 then property_chain m n (parse_expr (n - 1)) e else binary_loop m (level_op k) (level n (Suc k)) e)"

definition opens :: "nat \<Rightarrow> nat \<Rightarrow> Token list \<Rightarrow> Expr \<Rightarrow> bool" where
  "opens n k ts e \<longleftrightarrow>
    (\<forall>p t r. ahead p = ts @ t # r \<longrightarrow> length (ahead p) \<le> n \<longrightarrow> cont t \<le> k \<longrightarrow>
      (\<exists>m. length r < m \<and> level n k p = resume n k m e (past (length ts) p)))"

lemma resume_stops:
  assumes "loops k \<or> k = 12" and "ahead p = t # r" and "cont t < k" and "0 < m"
  shows "resume n k m e p = Some (Inr (e, p))"
proof (cases "k = 12")
  case True
  have "t \<noteq> Sym Dot \<and> t \<noteq> Sym LBracket \<and> \<not> label_follows p"
    using True assms(2,3) by (auto simp: label_follows_def run)
  then show ?thesis
    using True assms(2,4) by (cases m) (simp_all add: resume_def run run_defs)
next
  case False
  then show ?thesis
    using assms by (cases m) (simp_all add: resume_def run run_defs level_op_none)
qed

lemma opens_reads:
  assumes "opens n k ts e" and "loops k \<or> k = 12"
  shows "reads n k (level n k) ts e"
proof (rule reads_tokensI)
  fix p t r assume p: "ahead p = ts @ t # r" "length (ahead p) \<le> n" "cont t < k"
  then obtain m where m: "length r < m" "level n k p = resume n k m e (past (length ts) p)"
    using assms(1) unfolding opens_def by (meson less_imp_le)
  have "resume n k m e (past (length ts) p) = Some (Inr (e, past (length ts) p))"
    by (rule resume_stops [OF assms(2), of _ t r]) (use p m in simp_all)
  then show "level n k p = Some (Inr (e, past (length ts) p))" using m(2) by simp
qed

section \<open>Operators\<close>

lemma lift_opens:
  assumes "reads n (Suc k) (level n (Suc k)) ts e" and "loops k"
  shows "opens n k ts e"
  unfolding opens_def
proof (intro allI impI)
  fix p t r assume p: "ahead p = ts @ t # r" "length (ahead p) \<le> n" "cont t \<le> k"
  have "level n k p = resume n k n e (past (length ts) p)"
    using assms(2) reads_bind [OF assms(1), of p "binary_loop n (level_op k) (level n (Suc k))"] p
    by (simp add: level_loop [OF assms(2)] binary_level_def resume_def)
      (use assms(2) in auto)
  then show "\<exists>m. length r < m \<and> level n k p = resume n k m e (past (length ts) p)"
    using p by (intro exI [of _ n]) simp
qed

lemma operator_opens:
  assumes a: "opens n k ts a" and t: "level_op k t = Some mk" and b: "reads n (Suc k) (level n (Suc k)) us b"
  shows "opens n k (ts @ t # us) (mk a b)"
  unfolding opens_def
proof (intro allI impI)
  fix p t' r assume p: "ahead p = (ts @ t # us) @ t' # r" "length (ahead p) \<le> n" "cont t' \<le> k"
  have k: "loops k" by (rule level_op_level [OF t])
  obtain m where m: "length (us @ t' # r) < m" "level n k p = resume n k m a (past (length ts) p)"
    using a p level_op_cont [OF t] unfolding opens_def by fastforce
  then obtain m' where m': "m = Suc m'" by (cases m) auto
  have "resume n k m a (past (length ts) p) = resume n k m' (mk a b) (past (length ts + Suc (length us)) p)"
    using k p t by (auto simp: resume_def m' run reads_bind [OF b])
  then show "\<exists>m. length r < m \<and> level n k p = resume n k m (mk a b) (past (length (ts @ t # us)) p)"
    using m m' by (intro exI [of _ m']) simp
qed

text \<open>The prefix operators \<open>NOT\<close> and minus, with a bound \<open>m\<close> of their own.\<close>

definition prefix :: "nat \<Rightarrow> nat \<Rightarrow> nat \<Rightarrow> Expr parser" where
  "prefix n k m = (if k = 4 then parse_not m (level n 5) else parse_unary m (level n 12))"

definition good :: "nat \<Rightarrow> nat \<Rightarrow> Token list \<Rightarrow> Expr \<Rightarrow> bool" where
  "good n k ts e \<longleftrightarrow>
    (if loops k \<or> k = 12 then opens n k ts e
     else if k \<in> {4, 11} then (\<forall>m \<le> n. reads m k (prefix n k m) ts e)
     else reads n k (level n k) ts e)"

lemma good_reads: "good n k ts e \<Longrightarrow> reads n k (level n k) ts e"
  using opens_reads [of n k ts e]
  by (auto simp: good_def prefix_def level_simps split: if_splits)

lemma lift_prefix:
  assumes e: "reads n (Suc k) (level n (Suc k)) ts e" and ts: "ts \<noteq> []" "starts (Suc k) (hd ts)"
    and k: "k \<in> {4, 11}" and m: "m \<le> n"
  shows "reads m k (prefix n k m) ts e"
proof (rule reads_tokensI)
  fix p t r assume p: "ahead p = ts @ t # r" "length (ahead p) \<le> m" "cont t < k"
  obtain m' where m': "m = Suc m'" using p by (cases m) auto
  have step: "level n (Suc k) p = Some (Inr (e, past (length ts) p))"
    by (rule reads_at [OF e]) (use p m in simp_all)
  have "hd ts \<noteq> (if k = 4 then Kw NOT_KW else Sym Dash)"
    using ts k by (auto simp: starts_def CypherParser.literal_def is_ident_def)
  then show "prefix n k m p = Some (Inr (e, past (length ts) p))"
    using k p ts step by (auto simp: prefix_def run m')
qed

lemma negation_reads:
  assumes e: "\<And>m. m \<le> n \<Longrightarrow> reads m 4 (prefix n 4 m) ts a" and m: "m \<le> n"
  shows "reads m 4 (prefix n 4 m) (Kw NOT_KW # ts) (Not a)"
proof (rule reads_tokensI)
  fix p t r assume p: "ahead p = (Kw NOT_KW # ts) @ t # r" "length (ahead p) \<le> m" "cont t < 4"
  obtain m' where m': "m = Suc m'" using p by (cases m) auto
  have "reads m' 4 (parse_not m' (level n 5)) ts a" using e [of m'] m m' by (simp add: prefix_def)
  note bind = reads_bind [OF this]
  show "prefix n 4 m p = Some (Inr (Not a, past (length (Kw NOT_KW # ts)) p))"
    using p by (simp add: prefix_def run run_defs m' bind)
qed

lemma negative_reads:
  assumes e: "\<And>m. m \<le> n \<Longrightarrow> reads m 11 (prefix n 11 m) ts a" and m: "m \<le> n"
    and ts: "ts \<noteq> []" "hd ts \<noteq> IntLitBig"
  shows "reads m 11 (prefix n 11 m) (Sym Dash # ts) (Neg a)"
proof (rule reads_tokensI)
  fix p t r assume p: "ahead p = (Sym Dash # ts) @ t # r" "length (ahead p) \<le> m" "cont t < 11"
  obtain m' where m': "m = Suc m'" using p by (cases m) auto
  have "reads m' 11 (parse_unary m' (level n 12)) ts a" using e [of m'] m m' by (simp add: prefix_def)
  note bind = reads_bind [OF this]
  show "prefix n 11 m p = Some (Inr (Neg a, past (length (Sym Dash # ts)) p))"
    using p ts by (simp add: prefix_def run run_defs m' bind)
qed

lemma least_reads: "reads m 11 (prefix n 11 m) [Sym Dash, IntLitBig] (IntLit i64_MIN)"
proof (rule reads_tokensI)
  fix p t r assume p: "ahead p = [Sym Dash, IntLitBig] @ t # r" "length (ahead p) \<le> m" "cont t < 11"
  then show "prefix n 11 m p = Some (Inr (IntLit i64_MIN, past (length [Sym Dash, IntLitBig]) p))"
    by (cases m) (simp_all add: prefix_def run run_defs)
qed

text \<open>The levels with at most one operator.\<close>

lemma lift_reads:
  assumes e: "reads n (Suc k) (level n (Suc k)) ts e" and k: "k \<in> {5, 6, 7}"
  shows "reads n k (level n k) ts e"
proof (rule reads_tokensI)
  fix p t r assume p: "ahead p = ts @ t # r" "length (ahead p) \<le> n" "cont t < k"
  have step: "level n (Suc k) p = Some (Inr (e, past (length ts) p))"
    by (rule reads_at [OF e]) (use p in simp_all)
  have bind: "bindP (level n (Suc k)) g p = g e (past (length ts) p)" for g :: "Expr \<Rightarrow> Expr parser"
    by (rule bind_at [of "level n (Suc k)", OF step])
  consider "k = 5" | "k = 6" | "k = 7" using k by auto
  then show "level n k p = Some (Inr (e, past (length ts) p))"
  proof cases
    case 1
    then have "cont t < 5" "t \<noteq> Sym RegexMatch" using p(3) by auto
    then show ?thesis
      using 1 p bind string_predicate_cont [of t] cmp_op_none [of t]
      by (auto simp: level_simps comparison_tail_def comparison_operator_def run run_defs)
  next
    case 2
    then have "t \<noteq> Kw IN_KW" using p(3) by auto
    then show ?thesis using 2 p bind by (auto simp: level_6 run run_defs)
  next
    case 3
    then have "t \<noteq> Kw IS" using p(3) by auto
    then show ?thesis using 3 p bind by (auto simp: level_7 run run_defs)
  qed
qed

lemma membership_reads:
  assumes a: "reads n 7 (level n 7) ts a" and b: "reads n 7 (level n 7) us b"
  shows "reads n 6 (level n 6) (ts @ Kw IN_KW # us) (InList a b)"
proof (rule reads_tokensI)
  fix p t r assume p: "ahead p = (ts @ Kw IN_KW # us) @ t # r" "length (ahead p) \<le> n" "cont t < 6"
  then show "level n 6 p = Some (Inr (InList a b, past (length (ts @ Kw IN_KW # us)) p))"
    by (simp add: level_6 run run_defs reads_bind [OF a] reads_bind [OF b])
qed

lemma null_reads:
  assumes a: "reads n 8 (level n 8) ts a"
  shows "reads n 7 (level n 7) (ts @ [Kw IS, Kw NULL]) (IsNull a)"
    and "reads n 7 (level n 7) (ts @ [Kw IS, Kw NOT_KW, Kw NULL]) (IsNotNull a)"
  by (rule reads_tokensI, simp add: level_7 run run_defs reads_bind [OF a])+

section \<open>Comparisons\<close>

definition opens_chain :: "nat \<Rightarrow> Token list \<Rightarrow> Expr \<Rightarrow> Expr \<Rightarrow> bool" where
  "opens_chain n ts e l \<longleftrightarrow>
    (\<forall>p t r. ahead p = ts @ t # r \<longrightarrow> length (ahead p) \<le> n \<longrightarrow> cont t < 6 \<longrightarrow>
      (\<exists>m. length r < m \<and> level n 5 p = compare_loop m (level n 6) e l (past (length ts) p)))"

lemma chain_reads:
  assumes "opens_chain n ts e l"
  shows "reads n 5 (level n 5) ts e"
proof (rule reads_tokensI)
  fix p t r assume p: "ahead p = ts @ t # r" "length (ahead p) \<le> n" "cont t < 5"
  then obtain m where m: "length r < m" "level n 5 p = compare_loop m (level n 6) e l (past (length ts) p)"
    using assms unfolding opens_chain_def by fastforce
  then show "level n 5 p = Some (Inr (e, past (length ts) p))"
    using p cmp_op_none [of t] by (cases m) (simp_all add: run run_defs)
qed

lemma cmp_op_plain:
  assumes "cmp_op t = Some op"
  shows "string_predicate t = []" and "t \<noteq> Sym RegexMatch"
  using assms by (auto simp: cmp_op_def string_predicate_def split: if_splits)

lemma first_comparison_opens:
  assumes a: "reads n 6 (level n 6) ts a" and t: "cmp_op t = Some op" and b: "reads n 6 (level n 6) us b"
  shows "opens_chain n (ts @ t # us) (Compare a op b) b"
  unfolding opens_chain_def
proof (intro allI impI)
  fix p t' r assume p: "ahead p = (ts @ t # us) @ t' # r" "length (ahead p) \<le> n" "cont t' < 6"
  then have "level n 5 p = compare_loop n (level n 6) (Compare a op b) b (past (length (ts @ t # us)) p)"
    using t cmp_op_plain [OF t] cmp_op_cont [OF t]
    by (simp add: level_simps comparison_tail_def comparison_operator_def run run_defs
          reads_bind [OF a] reads_bind [OF b])
  then show "\<exists>m. length r < m \<and>
      level n 5 p = compare_loop m (level n 6) (Compare a op b) b (past (length (ts @ t # us)) p)"
    using p by (intro exI [of _ n]) simp
qed

lemma next_comparison_opens:
  assumes a: "opens_chain n ts e l" and t: "cmp_op t = Some op" and b: "reads n 6 (level n 6) us b"
  shows "opens_chain n (ts @ t # us) (And e (Compare l op b)) b"
  unfolding opens_chain_def
proof (intro allI impI)
  fix p t' r assume p: "ahead p = (ts @ t # us) @ t' # r" "length (ahead p) \<le> n" "cont t' < 6"
  obtain m where m: "length (us @ t' # r) < m"
      "level n 5 p = compare_loop m (level n 6) e l (past (length ts) p)"
    using a p cmp_op_cont [OF t] unfolding opens_chain_def by fastforce
  then obtain m' where m': "m = Suc m'" by (cases m) auto
  have "compare_loop m (level n 6) e l (past (length ts) p) =
      compare_loop m' (level n 6) (And e (Compare l op b)) b (past (length (ts @ t # us)) p)"
    using p t by (simp add: m' run reads_bind [OF b])
  then show "\<exists>m. length r < m \<and>
      level n 5 p = compare_loop m (level n 6) (And e (Compare l op b)) b (past (length (ts @ t # us)) p)"
    using m m' by (intro exI [of _ m']) simp
qed

lemma text_predicate_reads:
  assumes a: "reads n 6 (level n 6) ts a" and ws: "text_op ws = Some mk" and b: "reads n 6 (level n 6) us b"
  shows "reads n 5 (level n 5) (ts @ ws @ us) (mk a b)"
proof (rule reads_tokensI)
  fix p t r assume p: "ahead p = (ts @ ws @ us) @ t # r" "length (ahead p) \<le> n" "cont t < 5"
  have word: "cont w < 6 \<and> string_predicate w \<noteq> []" if "string_predicate w \<in> {''STARTS'', ''ENDS'', ''CONTAINS''}" for w
    using that by (cases w) (auto simp: string_predicate_def cont_def)
  consider w where "ws = [w]" "string_predicate w = ''CONTAINS''" "mk = Contains"
    | "ws = [Sym RegexMatch]" "mk = Regex"
    | w where "ws = [w, Kw WITH]" "string_predicate w = ''STARTS''" "mk = StartsWith"
    | w where "ws = [w, Kw WITH]" "string_predicate w = ''ENDS''" "mk = EndsWith"
    using ws by (cases ws rule: text_op.cases) (auto split: if_splits)
  then show "level n 5 p = Some (Inr (mk a b, past (length (ts @ ws @ us)) p))"
  proof cases
    case (1 w)
    then show ?thesis
      using p word [of w]
      by (simp add: level_simps comparison_tail_def run run_defs reads_bind [OF a] reads_bind [OF b])
  next
    case 2
    then show ?thesis
      using p by (simp add: level_simps comparison_tail_def string_predicate_def run run_defs
          reads_bind [OF a] reads_bind [OF b])
  next
    case (3 w)
    then show ?thesis
      using p word [of w]
      by (simp add: level_simps comparison_tail_def run run_defs reads_bind [OF a] reads_bind [OF b])
  next
    case (4 w)
    then show ?thesis
      using p word [of w]
      by (simp add: level_simps comparison_tail_def run run_defs reads_bind [OF a] reads_bind [OF b])
  qed
qed

section \<open>Sequences\<close>

text \<open>A phrase that \<open>parse_expr m\<close> reads.\<close>

definition phrase_ok :: "nat \<Rightarrow> phrase \<Rightarrow> bool" where
  "phrase_ok m i \<longleftrightarrow> fst i \<noteq> [] \<and> starts 1 (hd (fst i)) \<and> reads m 1 (parse_expr m) (fst i) (snd i)"

lemma starts_not:
  "starts k t \<Longrightarrow> t \<noteq> Sym Comma \<and> t \<noteq> Sym RParen \<and> t \<noteq> Sym RBracket \<and> t \<noteq> Sym RBrace \<and> t \<noteq> Kw DISTINCT \<and>
    t \<noteq> Sym StarSign \<and> t \<noteq> Kw WHEN \<and> t \<noteq> Sym DotDot \<and> t \<noteq> Eof \<and> t \<noteq> IntLitBig"
  by (auto simp: starts_def is_ident_def CypherParser.literal_def)

lemma more_args_Cons [simp]: "more_args (i # is) = Sym Comma # fst i @ more_args is"
  by (simp add: more_args_def)

lemma more_args_Nil [simp]: "more_args [] = []"
  by (simp add: more_args_def)

lemma args_Nil [simp]: "args [] = []"
  by (simp add: args_def)

lemma args_Cons [simp]: "args (i # is) = fst i @ more_args is"
  by (simp add: args_def)

text \<open>The separators of a list, over any reader \<open>f\<close> of its elements.\<close>

lemma comma_tail_reads:
  assumes "\<forall>i \<in> set is. reads m 1 f (fst i) (g i)"
    and "ahead p = more_args is @ t # r" and "length (ahead p) \<le> m" and "length (ahead p) \<le> n"
    and "cont t = 0" and "t \<noteq> Sym Comma"
  shows "comma_tail n f acc p = Some (Inr (acc @ map g is, past (length (more_args is)) p))"
  using assms
proof (induction "is" arbitrary: n acc p)
  case Nil
  then show ?case by (cases n) (simp_all add: run run_defs)
next
  case (Cons i "is")
  obtain n' where n: "n = Suc n'" using Cons.prems(2,4) by (cases n) auto
  have i: "reads m 1 f (fst i) (g i)" using Cons.prems(1) by simp
  have "comma_tail n f acc p = comma_tail n' f (acc @ [g i]) (past (Suc (length (fst i))) p)"
    using Cons.prems by (cases "is") (simp_all add: n run reads_bind [OF i])
  also have "\<dots> = Some (Inr ((acc @ [g i]) @ map g is, past (length (more_args is)) (past (Suc (length (fst i))) p)))"
    by (rule Cons.IH) (use Cons.prems in \<open>simp_all add: n\<close>)
  finally show ?case by simp
qed

lemma comma_list_reads:
  assumes "\<forall>i \<in> set is. reads m 1 f (fst i) (g i)" and "is \<noteq> []"
    and "ahead p = args is @ t # r" and "length (ahead p) \<le> m" and "length (ahead p) \<le> n"
    and "cont t = 0" and "t \<noteq> Sym Comma"
  shows "comma_list n f p = Some (Inr (map g is, past (length (args is)) p))"
proof -
  obtain i is' where i: "is = i # is'" using assms(2) by (cases "is") auto
  have f: "reads m 1 f (fst i) (g i)" using assms(1) i by simp
  have "bindP f (\<lambda>x. comma_tail n f [x]) p = comma_tail n f [g i] (past (length (fst i)) p)"
    using assms i by (cases is') (simp_all add: reads_bind [OF f])
  also have "\<dots> = Some (Inr ([g i] @ map g is', past (length (more_args is')) (past (length (fst i)) p)))"
    by (rule comma_tail_reads [where m = m and t = t and r = r]) (use assms i in simp_all)
  finally show ?thesis by (simp add: comma_list_def i)
qed

lemma comma_until_reads:
  assumes "\<forall>i \<in> set is. reads m 1 f (fst i) (g i) \<and> fst i \<noteq> [] \<and> hd (fst i) \<noteq> t"
    and "ahead p = args is @ t # r" and "length (ahead p) \<le> m" and "length (ahead p) \<le> n"
    and "cont t = 0" and "t \<noteq> Sym Comma"
  shows "comma_list_until n t f p = Some (Inr (map g is, past (length (args is)) p))"
proof (cases "is")
  case Nil
  then show ?thesis using assms by (simp add: comma_list_until_def run run_defs)
next
  case (Cons i is')
  then have "hd (ahead p) \<noteq> t" "ahead p \<noteq> []" using assms(1,2) by auto
  then have "comma_list_until n t f p = comma_list n f p" by (simp add: comma_list_until_def run run_defs)
  then show ?thesis
    using comma_list_reads [of "is" m f g p t r n] assms Cons by simp
qed

lemma part_simps [simp]: "part t None = []" "part t (Some i) = t # fst i"
  by (simp_all add: part_def)

lemma bare_simps [simp]: "bare None = []" "bare (Some i) = fst i"
  by (simp_all add: bare_def)

lemma optional_reads:
  assumes "\<forall>i \<in> set_option o'. phrase_ok m i" and "ahead p = part t o' @ u # r" and "length (ahead p) \<le> m"
    and "cont u = 0" and "u \<noteq> t"
  shows "optional t (parse_expr m) p = Some (Inr (map_option snd o', past (length (part t o')) p))"
proof (cases o')
  case None
  then show ?thesis using assms by (simp add: optional_def run run_defs)
next
  case (Some i)
  then have "reads m 1 (parse_expr m) (fst i) (snd i)" using assms(1) by (simp add: phrase_ok_def)
  note bind = reads_bind [OF this]
  show ?thesis using assms Some by (simp add: optional_def run run_defs bind)
qed

lemma whens_simps [simp]:
  "whens [] = []" "whens ((w, t) # bs) = Kw WHEN # fst w @ Kw THEN_KW # fst t @ whens bs"
  "branches [] = []" "branches ((w, t) # bs) = (snd w, snd t) # branches bs"
  by (simp_all add: whens_def branches_def)

lemma whens_head: "bs \<noteq> [] \<Longrightarrow> whens bs @ ts = Kw WHEN # tl (whens bs) @ ts"
  by (cases bs) auto

lemma case_branches_reads:
  assumes "\<forall>b \<in> set bs. phrase_ok m (fst b) \<and> phrase_ok m (snd b)"
    and "ahead p = whens bs @ t # r" and "length (ahead p) \<le> m" and "length (ahead p) \<le> n"
    and "cont t = 0" and "t \<noteq> Kw WHEN"
  shows "case_branches n (parse_expr m) acc p = Some (Inr (acc @ branches bs, past (length (whens bs)) p))"
  using assms
proof (induction bs arbitrary: n acc p)
  case Nil
  then show ?case by (cases n) (simp_all add: run run_defs)
next
  case (Cons b bs)
  obtain w u where b: "b = (w, u)" by (cases b)
  obtain n' where n: "n = Suc n'" using Cons.prems(2,4) b by (cases n) auto
  have w: "reads m 1 (parse_expr m) (fst w) (snd w)" and u: "reads m 1 (parse_expr m) (fst u) (snd u)"
    using Cons.prems(1) b by (simp_all add: phrase_ok_def)
  have "case_branches n (parse_expr m) acc p =
      case_branches n' (parse_expr m) (acc @ [(snd w, snd u)]) (past (Suc (length (fst w) + Suc (length (fst u)))) p)"
    using Cons.prems b
    by (cases "bs = []") (simp_all add: n run reads_bind [OF w] reads_bind [OF u] whens_head)
  also have "\<dots> = Some (Inr ((acc @ [(snd w, snd u)]) @ branches bs,
      past (length (whens bs)) (past (Suc (length (fst w) + Suc (length (fst u)))) p)))"
    by (rule Cons.IH) (use Cons.prems b in \<open>simp_all add: n\<close>)
  finally show ?case by (simp add: b ac_simps)
qed

section \<open>Primary expressions\<close>

lemma primary_literal:
  "CypherParser.literal (peek p) = Some e \<Longrightarrow>
   parse_primary n pe pq p = thenP advance (parse_property_chain n pe e) p"
  by (cases "peek p") (simp_all add: parse_primary_def CypherParser.literal_def)

lemma primary_compound:
  "peek p \<in> {Sym LParen, Sym LBracket, Sym LBrace, Kw CASE} \<Longrightarrow>
   parse_primary n pe pq p = bindP (compound n pe (peek p)) (parse_property_chain n pe) p"
  by (auto simp: parse_primary_def CypherParser.literal_def)

lemma primary_ident: "peek p = Ident x \<Longrightarrow> parse_primary n pe pq p = thenP advance (parse_named n pe pq x) p"
  by (simp add: parse_primary_def)

lemma primary_opens:
  assumes "\<And>p t r. ahead p = ts @ t # r \<Longrightarrow> length (ahead p) \<le> Suc n \<Longrightarrow> cont t \<le> 12 \<Longrightarrow>
     parse_primary (Suc n) (parse_expr n) (parse_query n) p =
     parse_property_chain (Suc n) (parse_expr n) e (past (length ts) p)"
  shows "opens (Suc n) 12 ts e"
  unfolding opens_def
proof (intro allI impI)
  fix p t r assume p: "ahead p = ts @ t # r" "length (ahead p) \<le> Suc n" "cont t \<le> 12"
  from assms [OF p] have "level (Suc n) 12 p = resume (Suc n) 12 (Suc n) e (past (length ts) p)"
    by (simp add: level_simps resume_def parse_property_chain_def)
  then show "\<exists>m. length r < m \<and> level (Suc n) 12 p = resume (Suc n) 12 m e (past (length ts) p)"
    using p by (intro exI [of _ "Suc n"]) simp
qed

lemma compound_opens:
  assumes t: "u \<in> {Sym LParen, Sym LBracket, Sym LBrace, Kw CASE}"
    and c: "\<And>p t r. ahead p = (u # ts) @ t # r \<Longrightarrow> length (ahead p) \<le> Suc n \<Longrightarrow>
      compound (Suc n) (parse_expr n) u p = Some (Inr (e, past (length (u # ts)) p))"
  shows "opens (Suc n) 12 (u # ts) e"
proof (rule primary_opens)
  fix p t' r assume p: "ahead p = (u # ts) @ t' # r" "length (ahead p) \<le> Suc n" "cont t' \<le> 12"
  then have "peek p = u" by (simp add: run)
  then show "parse_primary (Suc n) (parse_expr n) (parse_query n) p =
      parse_property_chain (Suc n) (parse_expr n) e (past (length (u # ts)) p)"
    using primary_compound [of p "Suc n" "parse_expr n" "parse_query n"] t
      bind_at [of "compound (Suc n) (parse_expr n) u", OF c [OF p(1,2)]] by simp
qed

lemma literal_opens: "CypherParser.literal t = Some e \<Longrightarrow> opens (Suc n) 12 [t] e"
  by (rule primary_opens) (simp add: primary_literal run)

lemma variable_opens: "opens (Suc n) 12 [Ident x] (Variable x)"
proof (rule primary_opens)
  fix p t r assume p: "ahead p = [Ident x] @ t # r" "length (ahead p) \<le> Suc n" "cont t \<le> 12"
  then have "t \<noteq> Sym LBrace" "t \<noteq> Sym LParen" by auto
  then show "parse_primary (Suc n) (parse_expr n) (parse_query n) p =
      parse_property_chain (Suc n) (parse_expr n) (Variable x) (past (length [Ident x]) p)"
    using p by (simp add: primary_ident [of _ x] parse_named_def run run_defs)
qed

lemma paren_not_pattern:
  assumes "paren_ok ts" and "ahead p = Sym LParen # ts @ Sym RParen # r" and "starts 1 (hd ts)"
  shows "looks_like_pattern_predicate (Suc n) p = ret False p"
proof -
  have hd: "hd ts \<notin> {Sym Colon, Sym RParen}" using assms(3) by (auto simp: starts_def CypherParser.literal_def is_ident_def)
  consider t where "ts = [t]" "\<not> is_ident t" "t \<noteq> Sym LBrace" | t u us where "ts = t # u # us" "is_ident t" "u \<notin> {Sym Colon, Sym LBrace, Sym RParen}"
    | t u us where "ts = t # u # us" "\<not> is_ident t" "t \<noteq> Sym LBrace"
    using assms(1) by (cases ts rule: paren_ok.cases) (auto split: if_splits)
  then show ?thesis
    by cases (use hd assms(2) in \<open>simp_all add: looks_like_pattern_predicate_def ends_node_pattern_def run\<close>)
qed

lemma paren_opens:
  assumes e: "phrase_ok n (ts, e)" and ok: "paren_ok ts"
  shows "opens (Suc n) 12 (Sym LParen # ts @ [Sym RParen]) e"
proof (rule compound_opens)
  fix p t r assume p: "ahead p = (Sym LParen # ts @ [Sym RParen]) @ t # r" "length (ahead p) \<le> Suc n"
  have "reads n 1 (parse_expr n) ts e" using e by (simp add: phrase_ok_def)
  note bind = reads_bind [OF this]
  have "looks_like_pattern_predicate (Suc n) p = Some (Inr (False, p))"
    using paren_not_pattern [OF ok, of p] p e by (simp add: phrase_ok_def run_defs)
  note bind' = bind_at [of "looks_like_pattern_predicate (Suc n)", OF this]
  show "compound (Suc n) (parse_expr n) (Sym LParen) p =
      Some (Inr (e, past (length (Sym LParen # ts @ [Sym RParen])) p))"
    using p by (simp add: compound_def parse_paren_def bind' run run_defs bind)
qed simp

lemma empty_list_opens: "opens (Suc n) 12 [Sym LBracket, Sym RBracket] (List [])"
proof (rule compound_opens)
  fix p t r assume p: "ahead p = [Sym LBracket, Sym RBracket] @ t # r" "length (ahead p) \<le> Suc n"
  have "comma_list_until (Suc n) (Sym RBracket) (parse_expr n) (past 1 p) = Some (Inr ([], past 1 p))"
    using p by (simp add: comma_list_until_def run run_defs)
  note bind = bind_at [of "comma_list_until (Suc n) (Sym RBracket) (parse_expr n)", OF this]
  show "compound (Suc n) (parse_expr n) (Sym LBracket) p =
      Some (Inr (List [], past (length [Sym LBracket, Sym RBracket]) p))"
    using p by (simp add: compound_def parse_bracket_def is_ident_def run run_defs bind [simplified])
qed simp

lemma phrases_ok:
  "\<forall>i \<in> set is. phrase_ok m i \<Longrightarrow>
   t \<in> {Sym RParen, Sym RBracket, Sym RBrace} \<Longrightarrow>
   \<forall>i \<in> set is. reads m 1 (parse_expr m) (fst i) (snd i) \<and> fst i \<noteq> [] \<and> hd (fst i) \<noteq> t"
  using starts_not by (auto simp: phrase_ok_def)

lemma list_opens:
  assumes "is \<noteq> []" and es: "\<forall>i \<in> set is. phrase_ok n i" and ok: "list_ok (args is)"
  shows "opens (Suc n) 12 (Sym LBracket # args is @ [Sym RBracket]) (List (map snd is))"
proof (rule compound_opens)
  fix p t r assume p: "ahead p = (Sym LBracket # args is @ [Sym RBracket]) @ t # r" "length (ahead p) \<le> Suc n"
  obtain i is' where i: "is = i # is'" using assms(1) by (cases "is") auto
  then obtain a as where a: "args is = a # as" "starts 1 a" using es by (cases "fst i") (auto simp: phrase_ok_def)
  have q: "ahead (past 1 p) = args is @ Sym RBracket # t # r" using p by simp
  have "comma_list_until (Suc n) (Sym RBracket) (parse_expr n) (past 1 p) =
      Some (Inr (map snd is, past (length (args is)) (past 1 p)))"
    by (rule comma_until_reads [OF phrases_ok [OF es] q]) (use p in simp_all)
  note bind = bind_at [of "comma_list_until (Suc n) (Sym RBracket) (parse_expr n)", OF this]
  have "peek (past 1 p) = a" using p a by (simp add: run)
  moreover have "peek_at (past 1 p) 1 = (as @ [Sym RBracket]) ! 0" using p a by (cases as) (simp_all add: run)
  ultimately have "parse_bracket (Suc n) (parse_expr n) (past 1 p) =
      bindP (comma_list_until (Suc n) (Sym RBracket) (parse_expr n))
        (\<lambda>elems. thenP (expect (Sym RBracket)) (ret (List elems))) (past 1 p)"
    using ok a by (cases as) (auto simp: parse_bracket_def run_defs)
  then show "compound (Suc n) (parse_expr n) (Sym LBracket) p =
      Some (Inr (List (map snd is), past (length (Sym LBracket # args is @ [Sym RBracket])) p))"
    using p by (simp add: compound_def run run_defs bind [simplified])
qed simp

lemma bind_ident [run]:
  "1 < length (ahead p) \<Longrightarrow> hd (ahead p) = Ident x \<Longrightarrow> bindP eat_ident g p = g x (past 1 p)"
  using peek_ahead [of p] by (cases "ahead p") (simp_all add: eat_ident_def bindP_def then_advance ret_def)

lemma bind_then [run]: "bindP (thenP f g) h p = thenP f (bindP g h) p"
  by (simp add: thenP_def bindP_def split: option.split sum.split)

lemma bind_opt [run]: "bindP (opt t f g) h p = opt t (bindP f h) (bindP g h) p"
  by (simp add: opt_def branch_def thenP_def bindP_def split: option.split sum.split)

lemma bind_branch [run]: "bindP (branch c f g) h p = branch c (bindP f h) (bindP g h) p"
  by (simp add: branch_def bindP_def)

lemma bind_map_key [run]:
  "1 < length (ahead p) \<Longrightarrow> hd (ahead p) = Ident x \<Longrightarrow> bindP eat_map_key g p = g x (past 1 p)"
  using peek_ahead [of p] by (cases "ahead p") (simp_all add: eat_map_key_def bindP_def then_advance ret_def)

lemma bind_flexible:
  "1 < length (ahead p) \<Longrightarrow> flexible_name (hd (ahead p)) = Some x \<Longrightarrow> bindP eat_ident_flexible g p = g x (past 1 p)"
  using peek_ahead [of p]
  by (cases "ahead p")
    (auto simp: eat_ident_flexible_def flexible_name_def bindP_def then_advance ret_def split: Token.splits)

lemma phrase_bind:
  assumes "phrase_ok m i" and "take (length (fst i)) (ahead p) = fst i" and "length (fst i) < length (ahead p)"
    and "length (ahead p) \<le> m" and "cont (ahead p ! length (fst i)) < 1"
  shows "bindP (parse_expr m) g p = g (snd i) (past (length (fst i)) p)"
  by (rule reads_bind [where k = 1]) (use assms in \<open>simp_all add: phrase_ok_def\<close>)

lemma optional_bind:
  assumes "\<forall>i \<in> set_option o'. phrase_ok m i" and "take (length (part t o')) (ahead p) = part t o'"
    and "length (part t o') < length (ahead p)" and "length (ahead p) \<le> m"
    and "cont (ahead p ! length (part t o')) = 0" and "ahead p ! length (part t o') \<noteq> t"
  shows "bindP (optional t (parse_expr m)) g p = g (map_option snd o') (past (length (part t o')) p)"
proof -
  have "ahead p = part t o' @ ahead p ! length (part t o') # drop (Suc (length (part t o'))) (ahead p)"
    using assms(2,3) by (metis id_take_nth_drop)
  from optional_reads [OF assms(1) this assms(4-6)]
  show ?thesis by (rule bind_at [of "optional t (parse_expr m)"])
qed

lemma comprehension_opens:
  assumes l: "phrase_ok n l" and w: "\<forall>i \<in> set_option w. phrase_ok n i" and m: "\<forall>i \<in> set_option m. phrase_ok n i"
  shows "opens (Suc n) 12
     (Sym LBracket # Ident x # Kw IN_KW # fst l @ part (Kw WHERE) w @ part (Sym Pipe) m @ [Sym RBracket])
     (ListComprehension x (snd l) (map_option snd w) (map_option snd m))"
proof (rule compound_opens)
  fix p t r
  assume p: "ahead p = (Sym LBracket # Ident x # Kw IN_KW # fst l @ part (Kw WHERE) w @ part (Sym Pipe) m @ [Sym RBracket]) @ t # r"
    "length (ahead p) \<le> Suc n"
  then show "compound (Suc n) (parse_expr n) (Sym LBracket) p =
      Some (Inr (ListComprehension x (snd l) (map_option snd w) (map_option snd m),
        past (length (Sym LBracket # Ident x # Kw IN_KW # fst l @ part (Kw WHERE) w @ part (Sym Pipe) m @ [Sym RBracket])) p))"
    by (cases w; cases m)
      (simp_all add: compound_def parse_bracket_def is_ident_def list_comprehension_def run run_defs
        phrase_bind [OF l] optional_bind [OF w] optional_bind [OF m] add.assoc)
qed simp

lemma map_literal_opens:
  assumes "\<forall>kv \<in> set kvs. phrase_ok n (snd kv)"
  shows "opens (Suc n) 12 (Sym LBrace # args (entries kvs) @ [Sym RBrace])
    (MapLiteral (map (\<lambda>kv. (fst kv, snd (snd kv))) kvs))"
proof (rule compound_opens)
  fix p t r assume p: "ahead p = (Sym LBrace # args (entries kvs) @ [Sym RBrace]) @ t # r" "length (ahead p) \<le> Suc n"
  let ?g = "\<lambda>i. (case hd (fst i) of Ident k \<Rightarrow> k | _ \<Rightarrow> [], snd i)" and ?f = "property_entry (parse_expr n)"
  have entry: "reads n 1 ?f (Ident k # Sym Colon # fst i) (k, snd i)" if "phrase_ok n i" for k i
    by (rule reads_tokensI)
      (simp add: property_entry_def run run_defs phrase_bind [OF that])
  have "\<forall>i \<in> set (entries kvs). reads n 1 ?f (fst i) (?g i) \<and> fst i \<noteq> [] \<and> hd (fst i) \<noteq> Sym RBrace"
    using assms entry by (auto simp: entries_def)
  moreover have "ahead (past 1 p) = args (entries kvs) @ Sym RBrace # t # r" using p by simp
  ultimately have "comma_list_until (Suc n) (Sym RBrace) ?f (past 1 p) =
      Some (Inr (map ?g (entries kvs), past (length (args (entries kvs))) (past 1 p)))"
    by (rule comma_until_reads) (use p in simp_all)
  note bind = bind_at [of "comma_list_until (Suc n) (Sym RBrace) ?f", OF this]
  have "map ?g (entries kvs) = map (\<lambda>kv. (fst kv, snd (snd kv))) kvs" by (auto simp: entries_def)
  then show "compound (Suc n) (parse_expr n) (Sym LBrace) p =
      Some (Inr (MapLiteral (map (\<lambda>kv. (fst kv, snd (snd kv))) kvs),
        past (length (Sym LBrace # args (entries kvs) @ [Sym RBrace])) p))"
    using p by (simp add: compound_def parse_property_map_def [abs_def] run run_defs bind [simplified])
qed simp

text \<open>Arguments in parentheses.\<close>

lemma arguments_bind:
  assumes "\<forall>i \<in> set is. phrase_ok m i" and "is \<noteq> []" and "ahead p = args is @ Sym RParen # r"
    and "length (ahead p) \<le> m" and "m \<le> n"
  shows "bindP (comma_list n (parse_expr m)) g p = g (map snd is) (past (length (args is)) p)"
  by (rule bind_at [of "comma_list n (parse_expr m)"], rule comma_list_reads)
    (use assms in \<open>auto simp: phrase_ok_def\<close>)

lemma call_opens:
  assumes f: "plain_function f" and es: "\<forall>i \<in> set is. phrase_ok n i"
  shows "opens (Suc n) 12 (Ident f # Sym LParen # args is @ [Sym RParen]) (FunctionCall f (map snd is))"
proof (rule primary_opens)
  fix p t r assume p: "ahead p = (Ident f # Sym LParen # args is @ [Sym RParen]) @ t # r"
    "length (ahead p) \<le> Suc n" "cont t \<le> 12"
  have q: "ahead (past 2 p) = args is @ Sym RParen # t # r" using p by simp
  have args: "bindP (call_arguments (Suc n) (parse_expr n) f) g (past 2 p) =
      g (f, map snd is) (past (2 + length (args is)) p)" for g :: "string \<times> Expr list \<Rightarrow> Expr parser"
  proof (cases "is")
    case Nil
    then show ?thesis using q by (simp add: call_arguments_def bindP_def run run_defs)
  next
    case (Cons i is')
    then obtain a as where "fst i = a # as" "starts 1 a" using es by (cases "fst i") (auto simp: phrase_ok_def)
    then have "ahead (past 2 p) \<noteq> []" "starts 1 (hd (ahead (past 2 p)))" using q Cons by simp_all
    then have "call_arguments (Suc n) (parse_expr n) f (past 2 p) =
        bindP (comma_list (Suc n) (parse_expr n)) (\<lambda>args. ret (f, args)) (past 2 p)"
      using starts_not by (auto simp: call_arguments_def run run_defs)
    also have "\<dots> = Some (Inr ((f, map snd is), past (length (args is)) (past 2 p)))"
      using p Cons arguments_bind [OF es _ q, of "Suc n" "\<lambda>args. ret (f, args)"] by (simp add: ret_def)
    finally show ?thesis by (simp add: bindP_def)
  qed
  show "parse_primary (Suc n) (parse_expr n) (parse_query n) p =
      parse_property_chain (Suc n) (parse_expr n) (FunctionCall f (map snd is))
        (past (length (Ident f # Sym LParen # args is @ [Sym RParen])) p)"
    using p f args [unfolded numeral_2_eq_2]
    by (simp add: primary_ident [of _ f] parse_named_def function_call_def Let_def plain_function_def run run_defs)
qed

lemma call_star_opens:
  assumes f: "plain_function f"
  shows "opens (Suc n) 12 [Ident f, Sym LParen, Sym StarSign, Sym RParen] (FunctionCall f [Star])"
proof (rule primary_opens)
  fix p t r assume p: "ahead p = [Ident f, Sym LParen, Sym StarSign, Sym RParen] @ t # r"
  have "call_arguments (Suc n) (parse_expr n) f (past 2 p) = Some (Inr ((f, [Star]), past 3 p))"
    using p by (simp add: call_arguments_def run run_defs)
  note bind = bind_at [of "call_arguments (Suc n) (parse_expr n) f", OF this, unfolded numeral_2_eq_2 numeral_3_eq_3]
  show "parse_primary (Suc n) (parse_expr n) (parse_query n) p =
      parse_property_chain (Suc n) (parse_expr n) (FunctionCall f [Star])
        (past (length [Ident f, Sym LParen, Sym StarSign, Sym RParen]) p)"
    using p f
    by (simp add: primary_ident [of _ f] parse_named_def function_call_def Let_def plain_function_def run run_defs bind)
qed

lemma quantifier_opens:
  assumes f: "list_predicate_kind (to_ascii_lowercase f) = Some kind" and l: "phrase_ok n l" and b: "phrase_ok n b"
  shows "opens (Suc n) 12
    (Ident f # Sym LParen # Ident x # Kw IN_KW # fst l @ Kw WHERE # fst b @ [Sym RParen])
    (ListPredicate kind x (snd l) (snd b))"
proof (rule primary_opens)
  fix p t r
  assume "ahead p = (Ident f # Sym LParen # Ident x # Kw IN_KW # fst l @ Kw WHERE # fst b @ [Sym RParen]) @ t # r"
    "length (ahead p) \<le> Suc n"
  then show "parse_primary (Suc n) (parse_expr n) (parse_query n) p =
      parse_property_chain (Suc n) (parse_expr n) (ListPredicate kind x (snd l) (snd b))
        (past (length (Ident f # Sym LParen # Ident x # Kw IN_KW # fst l @ Kw WHERE # fst b @ [Sym RParen])) p)"
    using f
    by (simp add: primary_ident [of _ f] parse_named_def function_call_def list_predicate_def run run_defs
        phrase_bind [OF l] phrase_bind [OF b])
qed

text \<open>\<open>CASE\<close>, from the first \<open>WHEN\<close> on.\<close>

lemma case_tail_reads:
  assumes bs: "\<forall>b \<in> set bs. phrase_ok m (fst b) \<and> phrase_ok m (snd b)" and d: "\<forall>i \<in> set_option d. phrase_ok m i"
    and p: "ahead p = whens bs @ part (Kw ELSE) d @ Kw END # t # r" and m: "length (ahead p) \<le> m" "m \<le> n"
  shows "bindP (case_branches n (parse_expr m) []) (\<lambda>branches.
      bindP (optional (Kw ELSE) (parse_expr m)) (\<lambda>otherwise. thenP (expect (Kw END)) (ret (g branches otherwise)))) p =
    Some (Inr (g (branches bs) (map_option snd d), past (length (whens bs @ part (Kw ELSE) d @ [Kw END])) p))"
proof -
  obtain a as where a: "part (Kw ELSE) d @ Kw END # t # r = a # as" "cont a = 0" "a \<noteq> Kw WHEN"
    by (cases d) auto
  have "case_branches n (parse_expr m) [] p = Some (Inr ([] @ branches bs, past (length (whens bs)) p))"
    by (rule case_branches_reads [OF bs, of _ a as]) (use p m a in simp_all)
  note bind = bind_at [of "case_branches n (parse_expr m) []", OF this]
  show ?thesis using p m by (simp add: bind optional_bind [OF d] run run_defs add.assoc)
qed

lemma case_searched_opens:
  assumes bs: "\<forall>b \<in> set bs. phrase_ok n (fst b) \<and> phrase_ok n (snd b)" and d: "\<forall>i \<in> set_option d. phrase_ok n i"
    and ne: "bs \<noteq> []"
  shows "opens (Suc n) 12 (Kw CASE # whens bs @ part (Kw ELSE) d @ [Kw END]) (CaseSearched (branches bs) (map_option snd d))"
proof (rule compound_opens)
  fix p t r assume p: "ahead p = (Kw CASE # whens bs @ part (Kw ELSE) d @ [Kw END]) @ t # r" "length (ahead p) \<le> Suc n"
  have q: "ahead (past 1 p) = whens bs @ part (Kw ELSE) d @ Kw END # t # r" using p by simp
  then have "peek (past 1 p) = Kw WHEN" using ne whens_head by (auto simp: peek_ahead)
  then show "compound (Suc n) (parse_expr n) (Kw CASE) p =
      Some (Inr (CaseSearched (branches bs) (map_option snd d),
        past (length (Kw CASE # whens bs @ part (Kw ELSE) d @ [Kw END])) p))"
    using p case_tail_reads [OF bs d q, of "Suc n" CaseSearched]
    by (simp add: compound_def parse_case_expr_def then_advance bind_branch bind_ret run_defs)
qed simp

lemma case_simple_opens:
  assumes e: "phrase_ok n e" and bs: "\<forall>b \<in> set bs. phrase_ok n (fst b) \<and> phrase_ok n (snd b)"
    and d: "\<forall>i \<in> set_option d. phrase_ok n i"
  shows "opens (Suc n) 12 (Kw CASE # fst e @ whens bs @ part (Kw ELSE) d @ [Kw END])
    (CaseSimple (snd e) (branches bs) (map_option snd d))"
proof (rule compound_opens)
  fix p t r assume p: "ahead p = (Kw CASE # fst e @ whens bs @ part (Kw ELSE) d @ [Kw END]) @ t # r"
    "length (ahead p) \<le> Suc n"
  let ?q = "past (length (fst e)) (past 1 p)"
  have q: "ahead ?q = whens bs @ part (Kw ELSE) d @ Kw END # t # r" using p by simp
  obtain a as where a: "whens bs @ part (Kw ELSE) d @ Kw END # t # r = a # as" "cont a = 0"
    by (cases bs; cases d) auto
  have "peek (past 1 p) \<noteq> Kw WHEN"
    using p e starts_not by (auto simp: phrase_ok_def peek_ahead)
  moreover have "bindP (parse_expr n) g (past 1 p) = g (snd e) ?q" for g :: "Expr \<Rightarrow> Expr parser"
    by (rule phrase_bind [OF e]) (use p a in simp_all)
  ultimately show "compound (Suc n) (parse_expr n) (Kw CASE) p =
      Some (Inr (CaseSimple (snd e) (branches bs) (map_option snd d),
        past (length (Kw CASE # fst e @ whens bs @ part (Kw ELSE) d @ [Kw END])) p))"
    using p case_tail_reads [OF bs d q, of "Suc n" "CaseSimple (snd e)"]
    by (simp add: compound_def parse_case_expr_def then_advance bind_branch bind_bind bind_ret run_defs)
qed simp

section \<open>What hangs on a primary expression\<close>

lemma chain_opens:
  assumes a: "opens (Suc n) 12 ts a" and us: "us \<noteq> []" "cont (hd us) \<le> 12"
    and step: "\<And>m p t r. ahead p = us @ t # r \<Longrightarrow> length (ahead p) \<le> n \<Longrightarrow> cont t \<le> 12 \<Longrightarrow>
      property_chain (Suc m) (Suc n) (parse_expr n) a p =
      property_chain m (Suc n) (parse_expr n) e (past (length us) p)"
    and ts: "ts \<noteq> []"
  shows "opens (Suc n) 12 (ts @ us) e"
  unfolding opens_def
proof (intro allI impI)
  fix p t r assume p: "ahead p = (ts @ us) @ t # r" "length (ahead p) \<le> Suc n" "cont t \<le> 12"
  obtain u us' where u: "us = u # us'" using us(1) by (cases us) auto
  obtain m where m: "length (us' @ t # r) < m" "level (Suc n) 12 p = resume (Suc n) 12 m a (past (length ts) p)"
    using a p us(2) u unfolding opens_def by fastforce
  then obtain m' where m': "m = Suc m'" by (cases m) auto
  have "resume (Suc n) 12 m a (past (length ts) p) = resume (Suc n) 12 m' e (past (length us) (past (length ts) p))"
    unfolding resume_def m' using step [of "past (length ts) p" t r m'] p ts by (cases ts) simp_all
  then show "\<exists>m. length r < m \<and> level (Suc n) 12 p = resume (Suc n) 12 m e (past (length (ts @ us)) p)"
    using m m' by (intro exI [of _ m']) simp
qed

lemma property_opens:
  assumes a: "opens (Suc n) 12 ts a" and t: "flexible_name t = Some k" and ts: "ts \<noteq> []"
  shows "opens (Suc n) 12 (ts @ [Sym Dot, t]) (Property a k)"
proof (rule chain_opens [OF a _ _ _ ts])
  fix m p u r assume p: "ahead p = [Sym Dot, t] @ u # r" "cont u \<le> 12"
  then have "u \<noteq> Sym LParen" by auto
  then show "property_chain (Suc m) (Suc n) (parse_expr n) a p =
      property_chain m (Suc n) (parse_expr n) (Property a k) (past (length [Sym Dot, t]) p)"
    using p t by (simp add: property_access_def [abs_def] run bind_flexible [of _ k])
qed simp_all

lemma call_on_opens:
  assumes a: "opens (Suc n) 12 ts a" and t: "flexible_name t = Some f" and es: "\<forall>i \<in> set is. phrase_ok n i"
    and ts: "ts \<noteq> []"
  shows "opens (Suc n) 12 (ts @ Sym Dot # t # Sym LParen # args is @ [Sym RParen]) (FunctionCall f (a # map snd is))"
proof (rule chain_opens [OF a _ _ _ ts])
  fix m p u r
  assume p: "ahead p = (Sym Dot # t # Sym LParen # args is @ [Sym RParen]) @ u # r" "length (ahead p) \<le> n"
  let ?args = "branch (\<lambda>p. peek p \<noteq> Sym RParen) (bindP (parse_expr n) (\<lambda>x. comma_tail (Suc n) (parse_expr n) [a, x])) (ret [a])"
  have "?args (past 3 p) = Some (Inr (a # map snd is, past (3 + length (args is)) p))"
  proof (cases "is")
    case Nil
    then show ?thesis using p by (simp add: run run_defs)
  next
    case (Cons i is')
    then have i: "phrase_ok n i" and is': "\<forall>i \<in> set is'. reads n 1 (parse_expr n) (fst i) (snd i)"
      using es by (auto simp: phrase_ok_def)
    obtain c cs where c: "fst i = c # cs" "starts 1 c" using i by (cases "fst i") (auto simp: phrase_ok_def)
    let ?q = "past (length (fst i)) (past 3 p)"
    have "peek (past 3 p) \<noteq> Sym RParen" using p Cons c starts_not [OF c(2)] by (simp add: run)
    moreover have "bindP (parse_expr n) g (past 3 p) = g (snd i) ?q" for g :: "Expr \<Rightarrow> Expr list parser"
      by (rule phrase_bind [OF i]) (use p Cons in \<open>cases is'; simp\<close>)+
    moreover have "comma_tail (Suc n) (parse_expr n) [a, snd i] ?q =
        Some (Inr ([a, snd i] @ map snd is', past (length (more_args is')) ?q))"
      by (rule comma_tail_reads [OF is', of _ "Sym RParen" "u # r"]) (use p Cons in \<open>simp_all add: numeral_3_eq_3\<close>)
    ultimately show ?thesis using Cons by (simp add: run_defs add.assoc)
  qed
  note bind = bind_at [of ?args, OF this, unfolded numeral_3_eq_3]
  show "property_chain (Suc m) (Suc n) (parse_expr n) a p =
      property_chain m (Suc n) (parse_expr n) (FunctionCall f (a # map snd is))
        (past (length (Sym Dot # t # Sym LParen # args is @ [Sym RParen])) p)"
    using p t by (simp add: property_access_def [abs_def] then_advance then_expect opt_next bind_bind bind_then bind_opt
        bind_ret bind bind_flexible [of _ f])
qed simp_all

lemma subscript_opens:
  assumes a: "opens (Suc n) 12 ts a" and i: "phrase_ok n i" and ts: "ts \<noteq> []"
  shows "opens (Suc n) 12 (ts @ Sym LBracket # fst i @ [Sym RBracket]) (Subscript a (snd i))"
proof (rule chain_opens [OF a _ _ _ ts])
  fix m p u r
  assume p: "ahead p = (Sym LBracket # fst i @ [Sym RBracket]) @ u # r" "length (ahead p) \<le> n"
  obtain c cs where c: "fst i = c # cs" "c \<noteq> Sym DotDot"
    using i starts_not by (cases "fst i") (auto simp: phrase_ok_def)
  have "hd (fst i @ Sym RBracket # u # r) \<noteq> Sym DotDot" using c by simp
  then show "property_chain (Suc m) (Suc n) (parse_expr n) a p =
      property_chain m (Suc n) (parse_expr n) (Subscript a (snd i)) (past (length (Sym LBracket # fst i @ [Sym RBracket])) p)"
    using p by (simp add: subscript_access_def [abs_def] run phrase_bind [OF i])
qed simp_all

lemma slice_end_abs:
  "slice_end pe e lo =
     bindP (branch (\<lambda>p. peek p \<noteq> Sym RBracket) (bindP pe (\<lambda>x. ret (Some x))) (ret None)) (\<lambda>hi.
       thenP (expect (Sym RBracket)) (ret (ListSlice e lo hi)))"
  by (rule ext) (simp add: slice_end_def)

lemma slice_end_reads:
  assumes hi: "\<forall>i \<in> set_option hi. phrase_ok m i" and p: "ahead p = bare hi @ Sym RBracket # t # r" "length (ahead p) \<le> m"
  shows "bindP (slice_end (parse_expr m) a lo) g p =
    g (ListSlice a lo (map_option snd hi)) (past (length (bare hi) + 1) p)"
proof (cases hi)
  case None
  then show ?thesis using p by (simp add: slice_end_abs run run_defs)
next
  case (Some i)
  then have i: "phrase_ok m i" using hi by simp
  then obtain c cs where c: "fst i = c # cs" "c \<noteq> Sym RBracket"
    using starts_not by (cases "fst i") (auto simp: phrase_ok_def)
  then have "hd (ahead p) \<noteq> Sym RBracket" using p Some by simp
  then show ?thesis using p Some by (simp add: slice_end_abs run run_defs phrase_bind [OF i])
qed

lemma slice_opens:
  assumes a: "opens (Suc n) 12 ts a" and lo: "\<forall>i \<in> set_option lo. phrase_ok n i"
    and hi: "\<forall>i \<in> set_option hi. phrase_ok n i" and ts: "ts \<noteq> []"
  shows "opens (Suc n) 12 (ts @ Sym LBracket # bare lo @ Sym DotDot # bare hi @ [Sym RBracket])
    (ListSlice a (map_option snd lo) (map_option snd hi))"
proof (rule chain_opens [OF a _ _ _ ts])
  fix m p u r
  assume p: "ahead p = (Sym LBracket # bare lo @ Sym DotDot # bare hi @ [Sym RBracket]) @ u # r" "length (ahead p) \<le> n"
  have q: "ahead (past (Suc (Suc (length (bare lo)))) p) = bare hi @ Sym RBracket # u # r" using p by simp
  note bind = slice_end_reads [OF hi q]
  show "property_chain (Suc m) (Suc n) (parse_expr n) a p =
      property_chain m (Suc n) (parse_expr n) (ListSlice a (map_option snd lo) (map_option snd hi))
        (past (length (Sym LBracket # bare lo @ Sym DotDot # bare hi @ [Sym RBracket])) p)"
  proof (cases lo)
    case None
    then show ?thesis
      using p by (simp add: subscript_access_def [abs_def] run bind [simplified None, simplified])
  next
    case (Some i)
    then have i: "phrase_ok n i" using lo by simp
    then obtain c cs where c: "fst i = c # cs" "c \<noteq> Sym DotDot"
      using starts_not by (cases "fst i") (auto simp: phrase_ok_def)
    then have "hd (fst i @ Sym DotDot # bare hi @ Sym RBracket # u # r) \<noteq> Sym DotDot" by simp
    then show ?thesis
      using p Some
      by (simp add: subscript_access_def [abs_def] run phrase_bind [OF i] bind [simplified Some, simplified])
  qed
qed simp_all

section \<open>Every sentence\<close>

lemma phrase_okI:
  assumes "derives 1 (fst i) (snd i) \<and> (\<forall>n. good n 1 (fst i) (snd i))"
  shows "phrase_ok m i"
proof (cases m)
  case 0
  then show ?thesis using assms derives_starts(1) by (auto simp: phrase_ok_def reads_def)
next
  case (Suc n)
  then show ?thesis
    using assms derives_starts(1) good_reads [of m 1 "fst i" "snd i"] by (auto simp: phrase_ok_def level_simps)
qed

lemma good_12: "(\<And>n. opens (Suc n) 12 ts e) \<Longrightarrow> \<forall>n. good n 12 ts e"
proof
  fix n
  assume e: "\<And>n. opens (Suc n) 12 ts e"
  show "good n 12 ts e"
  proof (cases n)
    case 0
    then show ?thesis by (simp add: good_def opens_def)
  next
    case (Suc n')
    then show ?thesis using e by (simp add: good_def)
  qed
qed

lemma good_12_opens: "good n 12 ts e \<Longrightarrow> opens n 12 ts e"
  by (simp add: good_def)

lemma lift_good:
  assumes d: "derives (Suc k) ts e" and e: "\<forall>n. good n (Suc k) ts e" and k: "k \<in> {1..11}"
  shows "good n k ts e"
proof -
  have r: "reads n (Suc k) (level n (Suc k)) ts e" for n using e by (simp add: good_reads)
  have s: "ts \<noteq> []" "starts (Suc k) (hd ts)" using derives_starts(1) [OF d] by simp_all
  have "loops k \<or> k \<in> {4, 11} \<or> k \<in> {5, 6, 7}" using k by simp presburger
  then consider "loops k" | "k \<in> {4, 11}" | "k \<in> {5, 6, 7}" by blast
  then show ?thesis
  proof cases
    case 1
    then show ?thesis using lift_opens [OF r 1] by (auto simp: good_def)
  next
    case 2
    then have "\<forall>m \<le> n. reads m k (prefix n k m) ts e" using lift_prefix [OF r s 2] by blast
    then show ?thesis using 2 by (auto simp: good_def)
  next
    case 3
    then show ?thesis using lift_reads [OF r 3] by (auto simp: good_def)
  qed
qed

lemma derives_good:
  "derives k ts e \<Longrightarrow> \<forall>n. good n k ts e"
  "chain ts e l \<Longrightarrow> \<forall>n. opens_chain n ts e l"
proof (induction rule: derives_chain.inducts)
  case (lift k ts e)
  then show ?case using lift_good by blast
next
  case (operator k ts a t mk us b)
  then have k: "loops k" using level_op_level by blast
  show ?case
  proof
    fix n
    have "opens n k ts a" using operator.IH(1) k by (auto simp: good_def)
    moreover have "reads n (Suc k) (level n (Suc k)) us b" using operator.IH(2) by (simp add: good_reads)
    ultimately show "good n k (ts @ t # us) (mk a b)"
      using k operator_opens [OF _ operator.hyps(2), of n ts a us b] by (auto simp: good_def)
  qed
next
  case (negation ts a)
  then show ?case using negation_reads by (simp add: good_def)
next
  case (comparison ts e l)
  then have "reads n 5 (level n 5) ts e" for n using chain_reads by blast
  then show ?case by (simp add: good_def)
next
  case (first_comparison ts a t op us b)
  then show ?case using first_comparison_opens good_reads by blast
next
  case (next_comparison ts e l t op us b)
  then show ?case using next_comparison_opens good_reads by blast
next
  case (text_predicate ts a ws mk us b)
  then have "reads n 5 (level n 5) (ts @ ws @ us) (mk a b)" for n
    using text_predicate_reads good_reads by blast
  then show ?case by (simp add: good_def)
next
  case (membership ts a us b)
  then have "reads n 6 (level n 6) (ts @ Kw IN_KW # us) (InList a b)" for n
    using membership_reads good_reads by blast
  then show ?case by (simp add: good_def)
next
  case (is_null ts a)
  then have "reads n 7 (level n 7) (ts @ [Kw IS, Kw NULL]) (IsNull a)" for n
    using null_reads good_reads by blast
  then show ?case by (simp add: good_def)
next
  case (is_not_null ts a)
  then have "reads n 7 (level n 7) (ts @ [Kw IS, Kw NOT_KW, Kw NULL]) (IsNotNull a)" for n
    using null_reads good_reads by blast
  then show ?case by (simp add: good_def)
next
  case (negative ts a)
  then have "ts \<noteq> []" "hd ts \<noteq> IntLitBig" using derives_starts(1) starts_not by blast+
  then show ?case using negative negative_reads by (simp add: good_def)
next
  case least
  then show ?case using least_reads by (simp add: good_def)
next
  case (literal t e)
  then show ?case using literal_opens by (intro good_12) blast
next
  case (variable x)
  then show ?case using variable_opens by (intro good_12) blast
next
  case (paren ts e)
  then have "phrase_ok n (ts, e)" for n by (intro phrase_okI) simp
  then show ?case using paren_opens paren.hyps(2) by (intro good_12) blast
next
  case empty_list
  then show ?case using empty_list_opens by (intro good_12) blast
next
  case (list "is")
  then have "\<forall>i \<in> set is. phrase_ok n i" for n using phrase_okI by blast
  then show ?case using list_opens list.hyps by (intro good_12) blast
next
  case (comprehension ts l w m x)
  then have "phrase_ok n (ts, l)" "\<forall>i \<in> set_option w. phrase_ok n i" "\<forall>i \<in> set_option m. phrase_ok n i" for n
    using phrase_okI by auto
  then show ?case using comprehension_opens [of _ "(ts, l)"] by (intro good_12) simp
next
  case (map_literal kvs)
  then have "\<forall>kv \<in> set kvs. phrase_ok n (snd kv)" for n using phrase_okI by blast
  then show ?case using map_literal_opens by (intro good_12) blast
next
  case (call f "is")
  then have "\<forall>i \<in> set is. phrase_ok n i" for n using phrase_okI by blast
  then show ?case using call_opens call.hyps by (intro good_12) blast
next
  case (call_star f)
  then show ?case using call_star_opens by (intro good_12) blast
next
  case (quantifier f kind ts l us b x)
  then have "phrase_ok n (ts, l)" "phrase_ok n (us, b)" for n using phrase_okI by auto
  then show ?case using quantifier_opens [OF quantifier.hyps(1), of _ "(ts, l)" "(us, b)"] by (intro good_12) simp
next
  case (case_searched bs d)
  then have "\<forall>b \<in> set bs. phrase_ok n (fst b) \<and> phrase_ok n (snd b)" "\<forall>i \<in> set_option d. phrase_ok n i" for n
    using phrase_okI by blast+
  then show ?case using case_searched_opens case_searched.hyps by (intro good_12) blast
next
  case (case_simple ts e bs d)
  then have "phrase_ok n (ts, e)" "\<forall>b \<in> set bs. phrase_ok n (fst b) \<and> phrase_ok n (snd b)"
    "\<forall>i \<in> set_option d. phrase_ok n i" for n
    using phrase_okI by auto
  then show ?case using case_simple_opens [of _ "(ts, e)"] by (intro good_12) simp
next
  case (property ts a t k)
  have "opens (Suc n) 12 (ts @ [Sym Dot, t]) (Property a k)" for n
    using property_opens [OF good_12_opens property.hyps(2)] property.IH derives_starts(1) [OF property.hyps(1)] by blast
  then show ?case by (rule good_12)
next
  case (call_on ts a t f "is")
  have "\<forall>i \<in> set is. phrase_ok n i" for n using call_on.IH(2) phrase_okI by blast
  then have "opens (Suc n) 12 (ts @ Sym Dot # t # Sym LParen # args is @ [Sym RParen]) (FunctionCall f (a # map snd is))" for n
    using call_on_opens [OF good_12_opens call_on.hyps(2)] call_on.IH(1) derives_starts(1) [OF call_on.hyps(1)] by blast
  then show ?case by (rule good_12)
next
  case (subscript ts a us i)
  have "phrase_ok n (us, i)" for n using subscript by (intro phrase_okI) simp
  then have "opens (Suc n) 12 (ts @ Sym LBracket # us @ [Sym RBracket]) (Subscript a i)" for n
    using subscript_opens [OF good_12_opens, of n ts a "(us, i)"] subscript.IH(1) derives_starts(1) [OF subscript.hyps(1)]
    by simp
  then show ?case by (rule good_12)
next
  case (slice ts a lo hi)
  have "\<forall>i \<in> set_option lo. phrase_ok n i" "\<forall>i \<in> set_option hi. phrase_ok n i" for n
    using slice.IH(2,3) phrase_okI by blast+
  then have "opens (Suc n) 12 (ts @ Sym LBracket # bare lo @ Sym DotDot # bare hi @ [Sym RBracket])
      (ListSlice a (map_option snd lo) (map_option snd hi))" for n
    using slice_opens [OF good_12_opens] slice.IH(1) derives_starts(1) [OF slice.hyps(1)] by blast
  then show ?case by (rule good_12)
qed

text \<open>The method \<open>parse_expr\<close> with as much fuel as there are tokens ahead.\<close>

lemma parse_expr_reads: "derives 1 ts e \<Longrightarrow> reads n 1 (parse_expr n) ts e"
  using phrase_okI [of "(ts, e)" n] derives_good(1) by (simp add: phrase_ok_def)

section \<open>A query\<close>

definition return_query :: "Expr \<Rightarrow> query" where
  "return_query e = Query [Return False [ReturnItem e None] [] None None] None"

lemma parse_return_query:
  assumes toks: "map token toks = Kw RETURN # ts @ t # r" and t: "t \<in> {Eof, Sym RBrace}" and d: "derives 1 ts e"
  shows "\<exists>p. parse_query (length toks) (parser_new toks src) = Some (Inr (return_query e, p))"
proof -
  let ?p = "parser_new toks src"
  have p: "ahead ?p = Kw RETURN # ts @ t # r" using toks by (simp add: ahead_def parser_new_def)
  have "length toks = Suc (Suc (length ts + length r))"
    using arg_cong [OF toks, of length] by simp
  then obtain n where n: "length toks = Suc n" "n = Suc (length ts + length r)" by simp
  have ts: "ts \<noteq> []" "hd ts \<noteq> Kw DISTINCT" "hd ts \<noteq> Sym StarSign"
    using derives_starts(1) [OF d] starts_not by blast+
  let ?pe = "parse_expr n" and ?q = "past (Suc (length ts)) (parser_new toks src)"
  have q: "ahead ?q = t # r" and len: "length ts + length r < n" using p n by simp_all
  have t0: "cont t = 0" "t \<noteq> Kw AS" "t \<noteq> Sym Comma" "t \<notin> {Kw ORDER_BY, Kw SKIP, Kw LIMIT}" using t by auto
  note bind = reads_bind [OF parse_expr_reads [OF d, of n]]
  have "parse_return_item ?pe (past 1 ?p) = Some (Inr (ReturnItem e None, ?q))"
    using p ts len t0 by (simp add: parse_return_item_def optional_def [abs_def] run run_defs bind)
  note item = bind_at [of "parse_return_item ?pe", OF this]
  have "parse_return_clause_items (Suc n) ?pe (past 1 ?p) = Some (Inr ([ReturnItem e None], ?q))"
    using q t0 by (simp add: parse_return_clause_items_def comma_list_def item [simplified] run run_defs)
  note items = bind_at [of "parse_return_clause_items (Suc n) ?pe", OF this]
  have "parse_return_items (Suc n) ?pe (past 1 ?p) = Some (Inr ((False, [ReturnItem e None]), ?q))"
    using p ts by (simp add: parse_return_items_def run run_defs items [simplified])
  note distinct = bind_at [of "parse_return_items (Suc n) ?pe", OF this]
  have none: "bindP (try_parse_order_by (Suc n) ?pe) f ?q = f [] ?q" "bindP (try_parse_skip ?pe) g ?q = g None ?q"
    "bindP (try_parse_limit ?pe) g ?q = g None ?q" for f :: "_ \<Rightarrow> clause parser" and g :: "_ \<Rightarrow> clause parser"
    using q t0 by (simp_all add: try_parse_order_by_def [abs_def] try_parse_skip_def [abs_def] try_parse_limit_def [abs_def]
        optional_def [abs_def] run run_defs)
  have "parse_return (Suc n) ?pe (past 1 ?p) = Some (Inr (Return False [ReturnItem e None] [] None None, ?q))"
    by (simp add: parse_return_def distinct [simplified] none run_defs)
  note return = bind_at [of "parse_return (Suc n) ?pe", OF this]
  have "parse_clause (Suc n) ?pe (parse_query n) ?p =
      Some (Inr ((Return False [ReturnItem e None] [] None None, True), ?q))"
    using p ts by (simp add: parse_clause_def terminal_def return [simplified] run run_defs)
  note clause = bind_at [of "parse_clause (Suc n) ?pe (parse_query n)", OF this]
  have "\<not> ends_query ?p" "ends_query ?q" using p q t by (auto simp: ends_query_def run)
  then have "parse_query_with (Suc n) ?pe (parse_query n) ?p = Some (Inr (return_query e, ?q))"
    by (simp add: parse_query_with_def return_query_def bindP_def [of "parse_clauses _ _ _"] clause run_defs)
  then show ?thesis using n by simp
qed

text \<open>The whole way from the text of a query to its tree.\<close>

lemma parse_return_sentence:
  assumes "lex s = Inr toks" and "map token toks = Kw RETURN # ts @ t # r" and "t \<in> {Eof, Sym RBrace}"
    and "derives 1 ts e"
  shows "parse s = Some (Inr (return_query e))"
  using parse_return_query [OF assms(2-4), of s] assms(1) by (auto simp: parse_def)

end
