(* ===== verification/CypherSpell.thy ===== *)
theory CypherSpell
  imports CypherLexFacts
begin

text \<open>
  A spelling of tokens, and the proof that the tokeniser reads it back: keywords in capitals, plain
  words as they are and any other identifier in backticks, strings in single quotes with quotes and
  backslashes doubled, numbers in decimal, and a space after each token.
\<close>

section \<open>The spelling\<close>

definition keyword_text :: "Keyword \<Rightarrow> string" where
  "keyword_text k =
    (if k = OPTIONAL_MATCH then ''OPTIONAL MATCH''
     else if k = ORDER_BY then ''ORDER BY''
     else the (map_of (map (\<lambda>(s, k). (k, s)) keyword_table) k))"

definition punct_text :: "Punct \<Rightarrow> string" where
  "punct_text p = the (map_of (map (\<lambda>(s, p). (p, s)) punctuation) p)"

definition word_start :: "char \<Rightarrow> bool" where
  "word_start c \<longleftrightarrow> is_ascii_alphabetic c \<or> c = CHR ''_''"

definition plain_word :: "string \<Rightarrow> bool" where
  "plain_word s \<longleftrightarrow>
     s \<noteq> [] \<and> word_start (hd s) \<and> list_all is_word_char s \<and>
     to_ascii_uppercase s \<notin> {''OPTIONAL'', ''ORDER''} \<and>
     map_of keyword_table (to_ascii_uppercase s) = None"

definition quote_char :: "char \<Rightarrow> string" where
  "quote_char c = (if c = CHR 0x27 \<or> c = CHR 0x5C then [c, c] else [c])"

definition quoted :: "string \<Rightarrow> string" where
  "quoted s = concat (map quote_char s)"

fun spell :: "Token \<Rightarrow> string" where
  "spell (Kw k) = keyword_text k"
| "spell (Ident s) = (if plain_word s then s else CHR 0x60 # s @ [CHR 0x60])"
| "spell (StringTok s) = CHR 0x27 # quoted s @ [CHR 0x27]"
| "spell (IntTok v) = decimal (unat v)"
| "spell IntLitBig = ''9223372036854775808''"
| "spell (ParameterTok s) = CHR ''$'' # s"
| "spell (Sym p) = punct_text p"
| "spell _ = []"

fun spellable :: "Token \<Rightarrow> bool" where
  "spellable (Ident s) = (plain_word s \<or> utf8_chars s \<and> CHR 0x60 \<notin> set s)"
| "spellable (StringTok s) = utf8_chars s"
| "spellable (IntTok v) = (0 \<le> sint v)"
| "spellable (ParameterTok s) = list_all is_word_char s"
| "spellable (Sym p) = (p \<noteq> LtSign \<and> p \<noteq> GtSign)"
| "spellable (FloatTok _) = False"
| "spellable Eof = False"
| "spellable _ = True"

definition spelled :: "Token list \<Rightarrow> string" where
  "spelled ts = concat (map (\<lambda>t. spell t @ '' '') ts)"

section \<open>Characters\<close>

lemma code_char_of: "n < 256 \<Longrightarrow> code (char_of n) = n"
  by (simp add: code_def)

lemma ascii_not_cont: "code c < 128 \<Longrightarrow> \<not> is_cont_char c"
  by (simp add: is_cont_char_def)

lemma char_len_ascii: "code c < 128 \<Longrightarrow> char_len c = 1"
  by (simp add: char_len_def)

lemmas char_class_defs = is_ascii_alphanumeric_def is_ascii_alphabetic_def is_upper_def is_lower_def
  is_ascii_digit_def is_ascii_whitespace_def code_def

lemma word_start_class:
  assumes "word_start c"
  shows "\<not> is_ascii_whitespace c" "\<not> is_ascii_digit c" "is_word_char c"
    "c \<notin> {CHR ''/'', CHR 0x27, CHR 0x22, CHR 0x60, CHR ''.'', CHR ''$''}"
  using assms by (auto simp: word_start_def is_word_char_def char_class_defs)

lemma digit_class:
  assumes "is_ascii_digit c"
  shows "\<not> is_ascii_whitespace c"
    "c \<notin> {CHR ''/'', CHR 0x27, CHR 0x22, CHR 0x60, CHR ''.'', CHR ''$'', CHR ''x'', CHR ''X'', CHR ''o'',
        CHR ''O'', CHR '' ''}"
  using assms by (auto simp: char_class_defs)

lemma space_class [simp]:
  "\<not> is_word_char CHR '' ''" "\<not> is_ascii_digit CHR '' ''" "is_ascii_whitespace CHR '' ''"
  "\<not> is_ascii_alphabetic CHR '' ''"
  by (auto simp: is_word_char_def char_class_defs)

lemma takeWhile_word:
  "list_all P w \<Longrightarrow> \<not> P c \<Longrightarrow> takeWhile P (w @ c # r) = w"
  "list_all P w \<Longrightarrow> \<not> P c \<Longrightarrow> dropWhile P (w @ c # r) = c # r"
  by (induction w) auto

lemma no_comment:
  "c \<noteq> CHR ''/'' \<Longrightarrow> \<not> starts_with ''//'' (c # r)" "c \<noteq> CHR ''/'' \<Longrightarrow> \<not> starts_with ''/*'' (c # r)"
  by auto

section \<open>Words\<close>

lemma lex_step_word:
  assumes "w \<noteq> []" and "word_start (hd w)" and "list_all is_word_char w"
    and "word_token w (CHR '' '' # r) = (t, r')"
  shows "lex_step len (w @ CHR '' '' # r) = Inr (Some t, r')"
proof -
  obtain c cs where w: "w = c # cs" using assms(1) by (cases w) auto
  have "takeWhile is_word_char (w @ CHR '' '' # r) = w"
    "dropWhile is_word_char (w @ CHR '' '' # r) = CHR '' '' # r"
    using takeWhile_word [OF assms(3)] by simp_all
  moreover have "c \<noteq> CHR ''/''" "c \<noteq> CHR 0x27" "c \<noteq> CHR 0x22" "c \<noteq> CHR 0x60" "c \<noteq> CHR ''.''" "c \<noteq> CHR ''$''"
    "\<not> is_ascii_whitespace c" "\<not> is_ascii_digit c"
    using assms(2) word_start_class [of c] w by auto
  ultimately show ?thesis
    using assms(2,4) no_comment [of c "cs @ CHR '' '' # r"] w
    by (simp add: lex_step_def Let_def word_start_def del: starts_with_simps)
qed

lemma keyword_table_words:
  "list_all (\<lambda>(w, k). w \<noteq> [] \<and> word_start (hd w) \<and> list_all is_word_char w \<and> to_ascii_uppercase w = w \<and>
     w \<notin> {''OPTIONAL'', ''ORDER''} \<and> map_of keyword_table w = Some k) keyword_table"
  by code_simp

lemma keyword_in_table:
  "k \<noteq> OPTIONAL_MATCH \<Longrightarrow> k \<noteq> ORDER_BY \<Longrightarrow> (keyword_text k, k) \<in> set keyword_table"
  by (cases k) (simp_all add: keyword_text_def keyword_table_def)

lemma two_word_tokens:
  "word_token ''OPTIONAL'' ('' MATCH '' @ r) = (Kw OPTIONAL_MATCH, CHR '' '' # r)"
  "word_token ''ORDER'' ('' BY '' @ r) = (Kw ORDER_BY, CHR '' '' # r)"
  by (simp_all add: word_token_def two_words_def Let_def eq_ignore_ascii_case_def to_lower_def to_upper_def
        char_class_defs)

lemma lex_step_keyword: "lex_step len (keyword_text k @ CHR '' '' # r) = Inr (Some (Kw k), CHR '' '' # r)"
proof (cases "k = OPTIONAL_MATCH \<or> k = ORDER_BY")
  case True
  have "lex_step len (''OPTIONAL'' @ CHR '' '' # ''MATCH '' @ r) = Inr (Some (Kw OPTIONAL_MATCH), CHR '' '' # r)"
    "lex_step len (''ORDER'' @ CHR '' '' # ''BY '' @ r) = Inr (Some (Kw ORDER_BY), CHR '' '' # r)"
    by (rule lex_step_word; use two_word_tokens [of r] in
        \<open>simp add: word_start_def is_word_char_def char_class_defs\<close>)+
  then show ?thesis using True by (auto simp: keyword_text_def)
next
  case False
  then have "(keyword_text k, k) \<in> set keyword_table" using keyword_in_table by blast
  then have w: "keyword_text k \<noteq> []" "word_start (hd (keyword_text k))" "list_all is_word_char (keyword_text k)"
    "word_token (keyword_text k) (CHR '' '' # r) = (Kw k, CHR '' '' # r)"
    using keyword_table_words by (auto simp: list_all_iff word_token_def Let_def)
  show ?thesis by (rule lex_step_word [OF w])
qed

lemma lex_step_plain:
  "plain_word s \<Longrightarrow> lex_step len (s @ CHR '' '' # r) = Inr (Some (Ident s), CHR '' '' # r)"
  by (rule lex_step_word) (simp_all add: plain_word_def word_token_def Let_def)

section \<open>Quotes\<close>

lemma quoted_Cons: "quoted (c # r) = quote_char c @ quoted r"
  by (simp add: quoted_def)

lemma quoted_cont: "list_all is_cont_char s \<Longrightarrow> quoted s = s"
  by (induction s) (auto simp: quoted_def quote_char_def is_cont_char_def code_def)

lemma quoted_append: "quoted (a @ b) = quoted a @ quoted b"
  by (simp add: quoted_def)

text \<open>One character of the body, when it is none of the special ones.\<close>

lemma next_char_whole:
  assumes "\<not> is_cont_char c" and "char_len c \<le> Suc (length r)"
  shows "next_char c (take (char_len c - 1) r @ s) = Inr (c # take (char_len c - 1) r, s)"
  using assms char_len_pos [of c] by (cases "char_len c") (auto simp: next_char_def)

lemma single_quoted_spell:
  "utf8_chars s \<Longrightarrow>
   single_quoted start (quoted s @ CHR 0x27 # CHR '' '' # rest) acc = Inr (acc @ s, CHR '' '' # rest)"
proof (induction s arbitrary: acc rule: utf8_chars.induct)
  case 1
  then show ?case by (simp add: quoted_def)
next
  case (2 c r)
  let ?k = "char_len c - 1"
  have r: "quoted r = take ?k r @ quoted (drop ?k r)"
    using 2(2) quoted_append [of "take ?k r" "drop ?k r"] quoted_cont [of "take ?k r"] by simp
  have IH: "single_quoted start (quoted (drop ?k r) @ CHR 0x27 # CHR '' '' # rest) acc' =
      Inr (acc' @ drop ?k r, CHR '' '' # rest)" for acc'
    using 2 by simp
  show ?case
  proof (cases "c = CHR 0x27 \<or> c = CHR 0x5C")
    case True
    then have "?k = 0" by (auto simp: char_len_def code_def)
    then show ?thesis using True IH by (auto simp: quoted_Cons quote_char_def lex_escape_def)
  next
    case False
    have "next_char c (take ?k r @ quoted (drop ?k r) @ CHR 0x27 # CHR '' '' # rest) =
        Inr (c # take ?k r, quoted (drop ?k r) @ CHR 0x27 # CHR '' '' # rest)"
      using 2(2) next_char_whole [of c r] by simp
    then show ?thesis using False IH r by (simp add: quoted_Cons quote_char_def)
  qed
qed

lemma backtick_quoted_spell:
  "utf8_chars s \<Longrightarrow> CHR 0x60 \<notin> set s \<Longrightarrow> backtick_quoted (s @ CHR 0x60 # rest) acc = Inr (acc @ s, rest)"
proof (induction s arbitrary: acc rule: utf8_chars.induct)
  case (2 c r)
  let ?k = "char_len c - 1"
  have "r @ CHR 0x60 # rest = take ?k r @ drop ?k r @ CHR 0x60 # rest"
    by (metis append_assoc append_take_drop_id)
  then have "next_char c (r @ CHR 0x60 # rest) = next_char c (take ?k r @ drop ?k r @ CHR 0x60 # rest)"
    by (rule arg_cong)
  also have "\<dots> = Inr (c # take ?k r, drop ?k r @ CHR 0x60 # rest)"
    by (rule next_char_whole) (use 2(2) in simp_all)
  finally have "next_char c (r @ CHR 0x60 # rest) = Inr (c # take ?k r, drop ?k r @ CHR 0x60 # rest)" .
  moreover have "backtick_quoted (drop ?k r @ CHR 0x60 # rest) acc' = Inr (acc' @ drop ?k r, rest)" for acc'
    using 2 by (auto dest: in_set_dropD)
  moreover have "c \<noteq> CHR 0x60" using 2(3) by auto
  ultimately show ?case by simp
qed simp

section \<open>Numbers\<close>

lemma decimal_nonempty [simp]: "decimal n \<noteq> []"
  by (subst decimal.simps) simp

lemma digit_char: "(d::nat) < 10 \<Longrightarrow> is_ascii_digit (char_of (48 + d))"
  by (simp add: is_ascii_digit_def code_char_of)

lemma decimal_digits: "list_all is_ascii_digit (decimal n)"
proof (induction n rule: decimal.induct)
  case (1 n)
  show ?case
  proof (cases "n < 10")
    case True
    then show ?thesis by (subst decimal.simps) (simp add: digit_char)
  next
    case False
    then show ?thesis using 1 by (subst decimal.simps) (simp add: digit_char)
  qed
qed

lemma radix_value_snoc: "radix_value b (s @ [c]) = radix_value b s * b + digit_value c"
  by (simp add: radix_value_def)

lemma digit_value_digit: "d < 10 \<Longrightarrow> digit_value (char_of (48 + d)) = d"
  by (simp add: digit_value_def is_ascii_digit_def code_char_of)

lemma radix_value_decimal: "radix_value 10 (decimal n) = n"
proof (induction n rule: decimal.induct)
  case (1 n)
  show ?case
  proof (cases "n < 10")
    case True
    then show ?thesis
      by (subst decimal.simps) (simp add: radix_value_snoc [of _ "[]", simplified] radix_value_def digit_value_digit)
  next
    case False
    then show ?thesis
      using 1 by (subst decimal.simps) (simp add: radix_value_snoc digit_value_digit)
  qed
qed

lemma num_chars_digits:
  "list_all is_ascii_digit ds \<Longrightarrow> num_chars d e (ds @ CHR '' '' # r) acc = (acc @ ds, d, CHR '' '' # r)"
  by (induction ds arbitrary: acc) auto

lemma lex_number_digits:
  assumes "list_all is_ascii_digit ds" and "ds \<noteq> []"
  shows "lex_number start (ds @ CHR '' '' # r) =
    bindE (number_token start ds False) (\<lambda>t. Inr (t, CHR '' '' # r))"
proof -
  obtain d ds' where ds: "ds = d # ds'" using assms(2) by (cases ds) auto
  have "hd (ds' @ CHR '' '' # r) \<notin> {CHR ''x'', CHR ''X'', CHR ''o'', CHR ''O''}"
    using assms(1) ds digit_class by (cases ds') auto
  then show ?thesis
    using num_chars_digits [OF assms(1), of False False r "[]"] ds by (simp add: lex_number_def Let_def)
qed

lemma lex_step_digits:
  assumes "list_all is_ascii_digit ds" and "ds \<noteq> []" and "number_token (len - length (ds @ CHR '' '' # r)) ds False = Inr t"
  shows "lex_step len (ds @ CHR '' '' # r) = Inr (Some t, CHR '' '' # r)"
proof -
  obtain d ds' where ds: "ds = d # ds'" using assms(2) by (cases ds) auto
  then have d: "is_ascii_digit d" using assms(1) by simp
  then have "d \<noteq> CHR ''/''" "d \<noteq> CHR 0x27" "d \<noteq> CHR 0x22" "d \<noteq> CHR 0x60" "\<not> is_ascii_whitespace d"
    using digit_class [of d] by auto
  then show ?thesis
    using lex_number_digits [OF assms(1,2)] assms(3) d no_comment [of d "ds' @ CHR '' '' # r"] ds
    by (simp add: lex_step_def Let_def del: starts_with_simps)
qed

lemma number_token_decimal:
  assumes "0 \<le> sint v"
  shows "number_token start (decimal (unat v)) False = Inr (IntTok v)"
proof -
  have "uint v = sint v mod 2 ^ 64"
    using uint_sint [of v] by (simp add: take_bit_eq_mod)
  then have "uint v = sint v" using assms sint_lt [of v] by simp
  then have "unat v < 2 ^ 63" using sint_lt [of v] by (simp add: nat_less_iff flip: nat_uint_eq)
  then show ?thesis by (simp add: number_token_def parse_i64_def radix_value_decimal)
qed

section \<open>Every token\<close>

lemma lex_step_backtick:
  "utf8_chars s \<Longrightarrow> CHR 0x60 \<notin> set s \<Longrightarrow>
   lex_step len ((CHR 0x60 # s @ [CHR 0x60]) @ CHR '' '' # r) = Inr (Some (Ident s), CHR '' '' # r)"
  using backtick_quoted_spell [of s "CHR '' '' # r" "[]"]
  by (simp add: lex_step_def Let_def is_ascii_whitespace_def quoted_token_def bindE_def)

lemma lex_step_string:
  "utf8_chars s \<Longrightarrow>
   lex_step len ((CHR 0x27 # quoted s @ [CHR 0x27]) @ CHR '' '' # r) = Inr (Some (StringTok s), CHR '' '' # r)"
  by (simp add: lex_step_def Let_def is_ascii_whitespace_def quoted_token_def single_quoted_spell)

lemma lex_step_parameter:
  assumes "list_all is_word_char s"
  shows "lex_step len ((CHR ''$'' # s) @ CHR '' '' # r) = Inr (Some (ParameterTok s), CHR '' '' # r)"
  using takeWhile_word [OF assms, of "CHR '' ''" r]
  by (simp add: lex_step_def Let_def is_ascii_whitespace_def is_ascii_digit_def code_def)

lemma lex_step_punct:
  assumes "p \<noteq> LtSign" and "p \<noteq> GtSign"
  shows "lex_step len (punct_text p @ CHR '' '' # r) = Inr (Some (Sym p), CHR '' '' # r)"
  using assms
  by (cases p)
    (simp_all add: punct_text_def punctuation_def lex_step_def Let_def char_class_defs)

lemma lex_step_spell:
  assumes "spellable t"
  shows "lex_step len (spell t @ CHR '' '' # r) = Inr (Some t, CHR '' '' # r)"
proof (cases t)
  case (Kw k)
  then show ?thesis using lex_step_keyword by simp
next
  case (Ident s)
  then show ?thesis using assms lex_step_plain lex_step_backtick by auto
next
  case (StringTok s)
  then show ?thesis using assms lex_step_string by simp
next
  case (IntTok v)
  then show ?thesis
    using assms by (simp add: lex_step_digits decimal_digits number_token_decimal)
next
  case IntLitBig
  have "number_token k ''9223372036854775808'' False = Inr IntLitBig" for k
    by (simp add: number_token_def parse_i64_def radix_value_def digit_value_def char_class_defs)
  then show ?thesis
    using IntLitBig lex_step_digits [of "''9223372036854775808''" len r IntLitBig]
    by (simp add: char_class_defs)
next
  case (ParameterTok s)
  then show ?thesis using assms lex_step_parameter by simp
next
  case (Sym p)
  then show ?thesis using assms lex_step_punct by simp
qed (use assms in simp_all)

lemma spell_nonempty: "spellable t \<Longrightarrow> spell t \<noteq> []"
  using lex_step_spell [of t 0 "[]"]
  by (cases "spell t") (auto simp: lex_step_def is_ascii_whitespace_def)

lemma lex_loop_space: "lex_loop len (CHR '' '' # r) toks = lex_loop len r toks"
  by (simp add: lex_step_def is_ascii_whitespace_def)

lemma lex_loop_spell:
  "list_all spellable ts \<Longrightarrow>
   \<exists>out. lex_loop len (spelled ts) toks = Inr (toks @ out @ [\<lparr>token = Eof, st_offset = len\<rparr>]) \<and> map token out = ts"
proof (induction ts arbitrary: toks)
  case Nil
  then show ?case by (simp add: spelled_def)
next
  case (Cons t ts)
  then have t: "spellable t" by simp
  then obtain c cs where c: "spell t = c # cs" using spell_nonempty [of t] by (cases "spell t") auto
  let ?st = "\<lparr>token = t, st_offset = len - length (spelled (t # ts))\<rparr>"
  have sp: "spelled (t # ts) = c # cs @ CHR '' '' # spelled ts" by (simp add: spelled_def c)
  have "lex_step len (c # cs @ CHR '' '' # spelled ts) = Inr (Some t, CHR '' '' # spelled ts)"
    using lex_step_spell [OF t, of len "spelled ts"] c by simp
  then have "lex_loop len (spelled (t # ts)) toks = lex_loop len (CHR '' '' # spelled ts) (toks @ [?st])"
    unfolding sp by (simp only: lex_loop.simps sum.case prod.case option.case)
  also have "\<dots> = lex_loop len (spelled ts) (toks @ [?st])"
    by (rule lex_loop_space)
  finally have step: "lex_loop len (spelled (t # ts)) toks = lex_loop len (spelled ts) (toks @ [?st])" .
  obtain out where "lex_loop len (spelled ts) (toks @ [?st]) =
      Inr ((toks @ [?st]) @ out @ [\<lparr>token = Eof, st_offset = len\<rparr>])" "map token out = ts"
    using Cons.IH [of "toks @ [?st]"] Cons.prems by (auto simp only: list.pred_inject)
  then show ?case using step by (intro exI [of _ "?st # out"]) simp
qed

end
