(* ===== verification/CypherProperties.thy ===== *)
theory CypherProperties
  imports CypherQueryTotal CypherComplete CypherSpell "HOL-Library.Code_Target_Numeral"
begin

text \<open>
  The properties of the Cypher front end: the tokeniser neither panics on well-escaped text nor loses
  a token, and the parser always returns, gives well-formed trees, and reads every sentence of the
  expression grammar. At the end, concrete inputs on which the code misbehaves.
\<close>

section \<open>The tokeniser\<close>

text \<open>
  C29. The tokens of a query: exactly one end marker, which is the last token and stands at the end of
  the input; before it strictly ascending offsets inside the input, integer literals that are not
  negative as \<open>i64\<close> and float literals that are finite.
\<close>
theorem lex_bounds:
  assumes "lex s = Inr out"
  shows "\<exists>ts. out = ts @ [\<lparr>token = Eof, st_offset = length s\<rparr>] \<and>
    sorted_wrt (\<lambda>a b. st_offset a < st_offset b) ts \<and>
    list_all (\<lambda>t. st_offset t < length s \<and> token_ok (token t)) ts"
  using lex_ok [OF assms] by (auto simp: spans_def list_all_iff)

theorem lex_bounds_witness:
  "\<exists>ts. [\<lparr>token = Kw RETURN, st_offset = 0\<rparr>, \<lparr>token = IntTok 12, st_offset = 7\<rparr>, \<lparr>token = Eof, st_offset = 9\<rparr>] =
      ts @ [\<lparr>token = Eof, st_offset = length ''RETURN 12''\<rparr>] \<and>
    sorted_wrt (\<lambda>a b. st_offset a < st_offset b) ts \<and>
    list_all (\<lambda>t. st_offset t < length ''RETURN 12'' \<and> token_ok (token t)) ts"
proof (rule lex_bounds)
  show "lex ''RETURN 12'' =
    Inr [\<lparr>token = Kw RETURN, st_offset = 0\<rparr>, \<lparr>token = IntTok 12, st_offset = 7\<rparr>, \<lparr>token = Eof, st_offset = 9\<rparr>]"
    by code_simp
qed

text \<open>
  C27. On text in UTF-8 whose backslashes are all followed by an ASCII character the tokeniser does not
  panic: it never slices the input inside a character.
\<close>
theorem lex_no_panic:
  assumes "utf8_chars s" and "escapes_ascii s"
  shows "lex s \<noteq> Inl LexPanic"
  using assms by (intro lex_calm) (simp add: whole_def)

theorem lex_no_panic_witness:
  "lex ([CHR 0x27] @ utf8_encode 233 @ [CHR 0x5C, CHR ''n'', CHR 0x27]) \<noteq> Inl LexPanic"
  by (rule lex_no_panic) code_simp+

text \<open>The hypothesis on backslashes is needed: a backslash before a letter with an accent is well-formed text.\<close>

lemma lex_panics:
  "utf8_chars ([CHR 0x27, CHR 0x5C] @ utf8_encode 233 @ [CHR 0x27]) \<and>
   lex ([CHR 0x27, CHR 0x5C] @ utf8_encode 233 @ [CHR 0x27]) = Inl LexPanic"
  by code_simp



section \<open>The parser\<close>


text \<open>
  C25. A query that the parser returns is well formed: every clause has the parts it needs, patterns
  alternate between nodes and relationships and begin and end with a node, \<open>SKIP\<close> and \<open>LIMIT\<close> have passed
  their check, \<open>RETURN\<close> and \<open>SHOW\<close> come last, a chain of unions does not mix \<open>UNION\<close> with \<open>UNION ALL\<close>, and
  every literal inside an expression is in range.
\<close>
theorem parse_well_formed:
  assumes "parse s = Some (Inr q)"
  shows "wf_query q"
  using parse_returns [of s] assms by auto

theorem parse_well_formed_witness:
  "wf_query (Query [Match False [Pattern None [Node (NodePattern (Some ''a'') [''P''] [] False),
       Relationship (RelPattern None [''K''] Out [] None), Node (NodePattern None [] [] False)]] None,
     Return False [ReturnItem (Property (Variable ''a'') ''x'') None] [] None (Some (IntLit 5))] None)"
proof (rule parse_well_formed)
  show "parse ''MATCH (a:P)-[:K]->() RETURN a.x LIMIT 5'' =
    Some (Inr (Query [Match False [Pattern None [Node (NodePattern (Some ''a'') [''P''] [] False),
       Relationship (RelPattern None [''K''] Out [] None), Node (NodePattern None [] [] False)]] None,
     Return False [ReturnItem (Property (Variable ''a'') ''x'') None] [] None (Some (IntLit 5))] None))"
    by code_simp
qed

text \<open>
  C12. From text to tree: when the tokens of an expression derive \<open>e\<close> in the grammar of Cypher expressions,
  with its eleven levels of precedence, left-associative operators, chained comparisons, calls, lists,
  maps, comprehensions, \<open>CASE\<close> and accesses, then spelling, tokenising and parsing \<open>RETURN\<close> with it gives
  the query that returns \<open>e\<close>.
\<close>
theorem parse_sentence:
  assumes "derives 1 ts e" and "list_all spellable ts"
  shows "parse (spelled (Kw RETURN # ts)) = Some (Inr (return_query e))"
proof -
  obtain out where "lex (spelled (Kw RETURN # ts)) = Inr out" "map token out = Kw RETURN # ts @ [Eof]"
    using lex_loop_spell [of "Kw RETURN # ts" "length (spelled (Kw RETURN # ts))" "[]"] assms(2)
    by (auto simp: lex_def)
  then show ?thesis by (rule parse_return_sentence [OF _ _ _ assms(1)]) simp
qed

theorem parse_sentence_witness:
  "parse (spelled [Kw RETURN, IntTok 1, Sym Dash, Ident ''x'', Sym Dot, Ident ''y'', Sym StarSign, IntTok 2, Sym LArrow, IntTok 3]) =
   Some (Inr (return_query
     (Compare (Arith (IntLit 1) Sub (Arith (Property (Variable ''x'') ''y'') Mul (IntLit 2))) Lt (IntLit 3))))"
proof (rule parse_sentence)
  have int: "derives k [IntTok v] (IntLit v)" if "1 \<le> k" "k \<le> 12" for k v
    using derives_lower [of k "12 - k"] literal [of "IntTok v" "IntLit v"] that by (simp add: CypherParser.literal_def)
  have "derives 12 ([Ident ''x''] @ [Sym Dot, Ident ''y'']) (Property (Variable ''x'') ''y'')"
    by (rule property, rule variable) (simp add: flexible_name_def)
  then have "derives 9 [Ident ''x'', Sym Dot, Ident ''y''] (Property (Variable ''x'') ''y'')"
    using derives_lower [of 9 3] by simp
  from operator [OF this _ int, of "Sym StarSign" "\<lambda>l r. Arith l Mul r" 2]
  have product: "derives 9 [Ident ''x'', Sym Dot, Ident ''y'', Sym StarSign, IntTok 2]
      (Arith (Property (Variable ''x'') ''y'') Mul (IntLit 2))"
    by (simp add: level_op_def multiplication_op_def)
  from operator [OF int, of 8 "Sym Dash" "\<lambda>l r. Arith l Sub r" _ _ 1] product
  have "derives 8 [IntTok 1, Sym Dash, Ident ''x'', Sym Dot, Ident ''y'', Sym StarSign, IntTok 2]
      (Arith (IntLit 1) Sub (Arith (Property (Variable ''x'') ''y'') Mul (IntLit 2)))"
    by (simp add: level_op_def addition_op_def)
  then have "derives 6 [IntTok 1, Sym Dash, Ident ''x'', Sym Dot, Ident ''y'', Sym StarSign, IntTok 2]
      (Arith (IntLit 1) Sub (Arith (Property (Variable ''x'') ''y'') Mul (IntLit 2)))"
    using derives_lower [of 6 2] by simp
  from comparison [OF first_comparison [OF this _ int, of "Sym LArrow" Lt 3]]
  show "derives 1 [IntTok 1, Sym Dash, Ident ''x'', Sym Dot, Ident ''y'', Sym StarSign, IntTok 2, Sym LArrow, IntTok 3]
      (Compare (Arith (IntLit 1) Sub (Arith (Property (Variable ''x'') ''y'') Mul (IntLit 2))) Lt (IntLit 3))"
    using derives_lower [of 1 4] by (simp add: cmp_op_def)
  show "list_all spellable [IntTok 1, Sym Dash, Ident ''x'', Sym Dot, Ident ''y'', Sym StarSign, IntTok 2, Sym LArrow, IntTok 3]"
    by code_simp
qed

section \<open>Inputs the parser misreads\<close>



text \<open>A parenthesised variable before a minus sign or \<open><\<close> is taken for a pattern, and rejected.\<close>

lemma parenthesised_variable_rejected:
  "parse ''RETURN (a) - 1'' =
   Some (Inl (ParseErr \<lparr>pe_message = ExpectedGot (Sym Dash) (IntTok 1), pe_offset = 13\<rparr>))"
  by code_simp

text \<open>A list that begins with a parenthesis is taken for a pattern comprehension.\<close>

lemma parenthesis_in_list_rejected:
  "parse ''RETURN [(1 + 2) * 3]'' =
   Some (Inl (ParseErr \<lparr>pe_message = ExpectedGot (Sym RParen) (IntTok 1), pe_offset = 9\<rparr>))"
  by code_simp

text \<open>The bounds of a path are cut to 32 bits: here \<open>2 ^ 32 + 1\<close> becomes 1.\<close>

lemma path_bound_truncated:
  "parse ''MATCH (a)-[*4294967297]->(b) RETURN 1'' = parse ''MATCH (a)-[*1]->(b) RETURN 1''"
  by code_simp

text \<open>A variable inside a list passes the check for constant expressions.\<close>

lemma limit_with_variable:
  "parse ''RETURN n LIMIT [n]'' =
   Some (Inr (Query [Return False [ReturnItem (Variable ''n'') None] [] None (Some (List [Variable ''n'']))] None))"
  by code_simp

text \<open>Powers associate to the left.\<close>

lemma power_left_associative:
  "parse ''RETURN 2^3^2'' =
   Some (Inr (return_query (Arith (Arith (IntLit 2) Pow (IntLit 3)) Pow (IntLit 2))))"
  by code_simp

end
