(* ===== verification/CypherPlan.thy ===== *)
theory CypherPlan
  imports CypherAst
begin

text \<open>
  The data of \<open>cypher/planner.rs\<close>: logical plans and the errors of the planner.
\<close>

section \<open>Plans\<close>

datatype VarKind = KindNode | KindRel | KindPath | KindScalar | KindNotNode

text \<open>
  The fields are in the order of the source, with the inputs first as there. The trailing set of
  property names of \<open>LabelScan\<close> and \<open>Expand\<close> is \<open>needed_props\<close> and \<open>needed_dst_props\<close>.
\<close>

datatype (plugins only: code size) LogicalPlan =
    SingleRow
  | LabelScan string "string option" "(string \<times> Expr) list" bool "string set option"
  | Expand LogicalPlan string "string option" string "string list" RelDirection "(string \<times> Expr) list"
      "string list" "(string \<times> Expr) list" bool "string set option"
  | VarLengthExpand LogicalPlan string "string option" string "string list" RelDirection u32 "u32 option" bool
      "string option" "string list"
  | BoundRelListExpand LogicalPlan string string string RelDirection
  | NamedPath LogicalPlan string "string list"
  | CrossProduct LogicalPlan LogicalPlan
  | Filter LogicalPlan Expr
  | Project LogicalPlan "Expr ReturnItem list" bool "Expr OrderItem list" "Expr option" "Expr option"
  | Unwind LogicalPlan Expr string
  | Apply LogicalPlan LogicalPlan
  | LeftJoin LogicalPlan LogicalPlan "string list"
  | Empty
  | CallProcedure LogicalPlan string "Expr list" "(string \<times> string option) list" bool
  | CreatePattern LogicalPlan "Expr Pattern list"
  | SetProp LogicalPlan "Expr SetItem list"
  | RemoveProp LogicalPlan "Expr RemoveItem list"
  | DeleteNodes LogicalPlan "Expr list" bool
  | MergePattern LogicalPlan "Expr Pattern" "Expr SetItem list" "Expr SetItem list"
  | Foreach LogicalPlan string Expr LogicalPlan
  | Union LogicalPlan LogicalPlan bool
  | PropertyIndexScan string string i32 string i32 Expr "(string \<times> Expr) list" bool
  | CreateIndex string string
  | DropIndex string string
  | ShowIndexes
  | CreateConstraint string string string
  | DropConstraint string string string
  | ShowConstraints

datatype PrimTy = PInt | PFloat | PString | PBool

text \<open>The messages of the source: a constructor per format string, with its arguments.\<close>

datatype (plugins only: code) PlanError =
    DifferentColumnsInUnion "string list" "string list"
  | AggregationInCall
  | YieldAlreadyBound string
  | YieldedTwice string
  | PatternInWith
  | NoExpressionAlias
  | WithColumnConflict string
  | WithOrderByAggregation
  | WithOrderByNewAggregation
  | NoVariablesInScope
  | UndefinedVariable string
  | NestedAggregation
  | RandInAggregation
  | QuantifierArith string PrimTy
  | ReturnOrderByAggregation
  | PatternInReturn
  | SizeOfPath string
  | LabelsOfNonNode string
  | TypeOfNonRel string
  | LengthOfNonPath string
  | ReturnColumnConflict string
  | CreateWithoutType
  | CreateManyTypes
  | CreateVarLength
  | CreateAlreadyBound string
  | PatternInSet
  | DeleteUndefined string
  | DeleteNotVariable
  | DeleteLabelPredicate
  | DeleteNotEntity
  | MergeWithoutType
  | MergeManyTypes
  | MergeVarLength
  | MergeRelAlreadyBound string
  | MergeNodeAlreadyBound string
  | WriteInExists
  | SingleNodePredicate
  | PredicateUndefined string
  | PathAlreadyBound string
  | PathConflict string
  | AggregationInWhere
  | PathPropertyAccess string
  | WhereIsEntity string
  | PatternWithoutNode
  | NotANode string
  | NotARel string
  | RelTwice string
  | RelWithoutNode

abbreviation require :: "bool \<Rightarrow> PlanError \<Rightarrow> PlanError + unit" where
  "require b e \<equiv> (if b then Inr () else Inl e)"

end
