(* ===== verification/CypherAnalysis.thy ===== *)
theory CypherAnalysis
  imports CypherPlan CypherLexer
begin

text \<open>
  The planner's analyses of expressions, from \<open>cypher/planner.rs\<close>. Each descends into the constructors
  its source descends into, and into no other. A \<open>HashSet\<close> is a set, a \<open>HashMap\<close> a map.
\<close>

section \<open>Termination of the analyses\<close>

text \<open>\<open>size\<close> decreases from an expression to the parts the analyses descend into.\<close>

lemma list_part: "e \<in> set es \<Longrightarrow> size e \<le> size_list size es" for e :: Expr
  by (simp add: size_list_estimation')

lemma entry_part: "kv \<in> set kvs \<Longrightarrow> size (snd kv) \<le> size_list (size_prod (\<lambda>x. 0) size) kvs"
  for kvs :: "(string \<times> Expr) list"
  by (cases kv) (auto intro: size_list_estimation')

lemma branch_part:
  "b \<in> set bs \<Longrightarrow> size (fst b) \<le> size_list (size_prod size size) bs"
  "b \<in> set bs \<Longrightarrow> size (snd b) \<le> size_list (size_prod size size) bs"
  for bs :: "(Expr \<times> Expr) list"
  by (cases b, auto intro: size_list_estimation')+

lemma some_part: "e \<in> set_option d \<Longrightarrow> size e \<le> size_option size d" for e :: Expr
  by (cases d) auto


lemmas expr_parts = list_part entry_part branch_part some_part

section \<open>Inline patterns and names in patterns\<close>

definition has_inline_match :: "query \<Rightarrow> bool" where
  "has_inline_match q \<longleftrightarrow> (case clauses q of [Match _ _ _] \<Rightarrow> True | _ \<Rightarrow> False)"

function expr_has_inline_pattern :: "Expr \<Rightarrow> bool" where
  "expr_has_inline_pattern e =
    (case e of
      Exists subquery _ \<Rightarrow> has_inline_match subquery
    | And a b \<Rightarrow> expr_has_inline_pattern a \<or> expr_has_inline_pattern b
    | Or a b \<Rightarrow> expr_has_inline_pattern a \<or> expr_has_inline_pattern b
    | Xor a b \<Rightarrow> expr_has_inline_pattern a \<or> expr_has_inline_pattern b
    | Not a \<Rightarrow> expr_has_inline_pattern a
    | IsNull a \<Rightarrow> expr_has_inline_pattern a
    | IsNotNull a \<Rightarrow> expr_has_inline_pattern a
    | Neg a \<Rightarrow> expr_has_inline_pattern a
    | FunctionCall _ args \<Rightarrow> list_ex expr_has_inline_pattern args
    | Property base _ \<Rightarrow> expr_has_inline_pattern base
    | Subscript base idx \<Rightarrow> expr_has_inline_pattern base \<or> expr_has_inline_pattern idx
    | ListSlice list_expr from to \<Rightarrow>
        expr_has_inline_pattern list_expr
        \<or> (case from of Some x \<Rightarrow> expr_has_inline_pattern x | None \<Rightarrow> False)
        \<or> (case to of Some x \<Rightarrow> expr_has_inline_pattern x | None \<Rightarrow> False)
    | Compare base _ rhs \<Rightarrow> expr_has_inline_pattern base \<or> expr_has_inline_pattern rhs
    | Arith a _ b \<Rightarrow> expr_has_inline_pattern a \<or> expr_has_inline_pattern b
    | InList a b \<Rightarrow> expr_has_inline_pattern a \<or> expr_has_inline_pattern b
    | StartsWith a b \<Rightarrow> expr_has_inline_pattern a \<or> expr_has_inline_pattern b
    | EndsWith a b \<Rightarrow> expr_has_inline_pattern a \<or> expr_has_inline_pattern b
    | Contains a b \<Rightarrow> expr_has_inline_pattern a \<or> expr_has_inline_pattern b
    | Regex a b \<Rightarrow> expr_has_inline_pattern a \<or> expr_has_inline_pattern b
    | _ \<Rightarrow> False)"
  by pat_completeness auto
termination
  by (relation "measure size") (auto simp: expr_parts less_Suc_eq_le)

declare expr_has_inline_pattern.simps [simp del]

text \<open>The variable of a pattern element unless it starts with an underscore.\<close>

definition named_var :: "string option \<Rightarrow> string list" where
  "named_var v = (case v of Some v \<Rightarrow> if \<not> starts_with ''_'' v then [v] else [] | None \<Rightarrow> [])"

definition elem_var :: "'e PatternElement \<Rightarrow> string option" where
  "elem_var e = (case e of Node n \<Rightarrow> np_variable n | Relationship r \<Rightarrow> rp_variable r)"

definition collect_pattern_named_vars :: "Expr Pattern \<Rightarrow> string list" where
  "collect_pattern_named_vars p =
     (case p_variable p of Some v \<Rightarrow> [v] | None \<Rightarrow> []) @
     concat (map (\<lambda>e. named_var (elem_var e)) (elements p))"

definition is_relationship :: "'e PatternElement \<Rightarrow> bool" where
  "is_relationship e = (case e of Relationship _ \<Rightarrow> True | Node _ \<Rightarrow> False)"

text \<open>The write clauses that a full \<open>EXISTS\<close> subquery must not contain.\<close>

definition is_write_clause :: "clause \<Rightarrow> bool" where
  "is_write_clause c =
     (case c of
       Create _ \<Rightarrow> True | Delete _ _ \<Rightarrow> True | SetClause _ \<Rightarrow> True | Remove _ \<Rightarrow> True
     | Merge _ _ _ \<Rightarrow> True | QueryClause.Foreach _ _ _ \<Rightarrow> True | _ \<Rightarrow> False)"

text \<open>The loop over the patterns of one \<open>MATCH\<close> in a subquery: the variables it brings into scope.\<close>

definition exists_pattern :: "bool \<Rightarrow> string set \<Rightarrow> string set \<Rightarrow> Expr Pattern \<Rightarrow> PlanError + string set" where
  "exists_pattern implicit bound local p =
     (if implicit then
        bindE (require (list_ex is_relationship (elements p)) SingleNodePredicate) (\<lambda>_.
        bindE (eachE (\<lambda>v. require (v \<in> bound) (PredicateUndefined v)) (collect_pattern_named_vars p)) (\<lambda>_.
        Inr local))
      else Inr (local \<union> set (collect_pattern_named_vars p)))"

lemma subquery_part:
  "c \<in> set (clauses q) \<Longrightarrow> c = Match opt ps (Some w) \<Longrightarrow> size w \<le> size_Query size q"
proof (cases q)
  case (Query cs u)
  assume c: "c \<in> set (clauses q)" "c = Match opt ps (Some w)"
  have "size w \<le> size_QueryClause size c"
    using c by simp
  also have "\<dots> \<le> size_list (size_QueryClause size) cs"
    using c Query by (intro size_list_estimation' [of c]) auto
  finally show ?thesis
    using Query by simp
qed

function validate_inline_patterns_in_expr :: "Expr \<Rightarrow> string set \<Rightarrow> PlanError + unit" where
  "validate_inline_patterns_in_expr e bound =
    (case e of
      Exists subquery implicit \<Rightarrow>
        eachE (\<lambda>c.
          bindE (require (implicit \<or> \<not> is_write_clause c) WriteInExists) (\<lambda>_.
          case c of
            Match _ patterns where_clause \<Rightarrow>
              bindE (foldE (exists_pattern implicit bound) bound patterns) (\<lambda>local_vars.
              case where_clause of
                Some wc \<Rightarrow> validate_inline_patterns_in_expr wc local_vars
              | None \<Rightarrow> Inr ())
          | _ \<Rightarrow> Inr ())) (clauses subquery)
    | And a b \<Rightarrow>
        bindE (validate_inline_patterns_in_expr a bound) (\<lambda>_. validate_inline_patterns_in_expr b bound)
    | Or a b \<Rightarrow>
        bindE (validate_inline_patterns_in_expr a bound) (\<lambda>_. validate_inline_patterns_in_expr b bound)
    | Xor a b \<Rightarrow>
        bindE (validate_inline_patterns_in_expr a bound) (\<lambda>_. validate_inline_patterns_in_expr b bound)
    | Not a \<Rightarrow> validate_inline_patterns_in_expr a bound
    | IsNull a \<Rightarrow> validate_inline_patterns_in_expr a bound
    | IsNotNull a \<Rightarrow> validate_inline_patterns_in_expr a bound
    | Neg a \<Rightarrow> validate_inline_patterns_in_expr a bound
    | _ \<Rightarrow> Inr ())"
  by pat_completeness auto
termination
  by (relation "measure (\<lambda>(e, _). size e)") (auto simp: expr_parts less_Suc_eq_le intro: subquery_part)

declare validate_inline_patterns_in_expr.simps [simp del]

section \<open>Aggregations\<close>

text \<open>
  \<open>str::to_lowercase\<close>, on ASCII letters and on the Kelvin sign U+212A, the one character outside ASCII
  whose lower case is an ASCII letter. Other characters are left as they are, which matters in
  \<open>expr_structural_eq\<close> only.
\<close>

fun to_lowercase :: "string \<Rightarrow> string" where
  "to_lowercase (a # b # c # s) =
     (if [a, b, c] = [CHR 0xE2, CHR 0x84, CHR 0xAA] then CHR ''k'' # to_lowercase s
      else to_lower a # to_lowercase (b # c # s))"
| "to_lowercase s = to_ascii_lowercase s"

definition aggregate_names :: "string list" where
  "aggregate_names =
     [''count'', ''sum'', ''avg'', ''min'', ''max'', ''collect'', ''stdev'', ''stdevp'',
      ''percentilecont'', ''percentiledisc'']"

function expr_contains_aggregation :: "Expr \<Rightarrow> bool" where
  "expr_contains_aggregation e =
    (case e of
      FunctionCall name args \<Rightarrow>
        to_lowercase name \<in> set aggregate_names \<or> list_ex expr_contains_aggregation args
    | Property a _ \<Rightarrow> expr_contains_aggregation a
    | IsNull a \<Rightarrow> expr_contains_aggregation a
    | IsNotNull a \<Rightarrow> expr_contains_aggregation a
    | Not a \<Rightarrow> expr_contains_aggregation a
    | Neg a \<Rightarrow> expr_contains_aggregation a
    | HasLabel a _ \<Rightarrow> expr_contains_aggregation a
    | And l r \<Rightarrow> expr_contains_aggregation l \<or> expr_contains_aggregation r
    | Or l r \<Rightarrow> expr_contains_aggregation l \<or> expr_contains_aggregation r
    | Xor l r \<Rightarrow> expr_contains_aggregation l \<or> expr_contains_aggregation r
    | Arith l _ r \<Rightarrow> expr_contains_aggregation l \<or> expr_contains_aggregation r
    | Compare l _ r \<Rightarrow> expr_contains_aggregation l \<or> expr_contains_aggregation r
    | InList l r \<Rightarrow> expr_contains_aggregation l \<or> expr_contains_aggregation r
    | Subscript l r \<Rightarrow> expr_contains_aggregation l \<or> expr_contains_aggregation r
    | StartsWith l r \<Rightarrow> expr_contains_aggregation l \<or> expr_contains_aggregation r
    | EndsWith l r \<Rightarrow> expr_contains_aggregation l \<or> expr_contains_aggregation r
    | Contains l r \<Rightarrow> expr_contains_aggregation l \<or> expr_contains_aggregation r
    | Regex l r \<Rightarrow> expr_contains_aggregation l \<or> expr_contains_aggregation r
    | List elems \<Rightarrow> list_ex expr_contains_aggregation elems
    | MapLiteral pairs \<Rightarrow> list_ex (\<lambda>kv. expr_contains_aggregation (snd kv)) pairs
    | CaseSearched branches else_ \<Rightarrow>
        list_ex (\<lambda>b. expr_contains_aggregation (fst b) \<or> expr_contains_aggregation (snd b)) branches
        \<or> (case else_ of Some x \<Rightarrow> expr_contains_aggregation x | None \<Rightarrow> False)
    | CaseSimple test branches else_ \<Rightarrow>
        expr_contains_aggregation test
        \<or> list_ex (\<lambda>b. expr_contains_aggregation (fst b) \<or> expr_contains_aggregation (snd b)) branches
        \<or> (case else_ of Some x \<Rightarrow> expr_contains_aggregation x | None \<Rightarrow> False)
    | _ \<Rightarrow> False)"
  by pat_completeness auto
termination
  by (relation "measure size") (auto simp: expr_parts less_Suc_eq_le trans_le_add1 trans_le_add2)

declare expr_contains_aggregation.simps [simp del]

text \<open>The calls are pushed to \<open>out\<close>: the model returns them in the order of the pushes.\<close>

function extract_agg_calls :: "Expr \<Rightarrow> Expr list" where
  "extract_agg_calls e =
    (case e of
      FunctionCall name args \<Rightarrow>
        if to_lowercase name \<in> set aggregate_names then [e] else concat (map extract_agg_calls args)
    | Property a _ \<Rightarrow> extract_agg_calls a
    | IsNull a \<Rightarrow> extract_agg_calls a
    | IsNotNull a \<Rightarrow> extract_agg_calls a
    | Not a \<Rightarrow> extract_agg_calls a
    | Neg a \<Rightarrow> extract_agg_calls a
    | HasLabel a _ \<Rightarrow> extract_agg_calls a
    | And l r \<Rightarrow> extract_agg_calls l @ extract_agg_calls r
    | Or l r \<Rightarrow> extract_agg_calls l @ extract_agg_calls r
    | Xor l r \<Rightarrow> extract_agg_calls l @ extract_agg_calls r
    | Arith l _ r \<Rightarrow> extract_agg_calls l @ extract_agg_calls r
    | Compare l _ r \<Rightarrow> extract_agg_calls l @ extract_agg_calls r
    | InList l r \<Rightarrow> extract_agg_calls l @ extract_agg_calls r
    | Subscript l r \<Rightarrow> extract_agg_calls l @ extract_agg_calls r
    | StartsWith l r \<Rightarrow> extract_agg_calls l @ extract_agg_calls r
    | EndsWith l r \<Rightarrow> extract_agg_calls l @ extract_agg_calls r
    | Contains l r \<Rightarrow> extract_agg_calls l @ extract_agg_calls r
    | Regex l r \<Rightarrow> extract_agg_calls l @ extract_agg_calls r
    | List elems \<Rightarrow> concat (map extract_agg_calls elems)
    | MapLiteral pairs \<Rightarrow> concat (map (\<lambda>kv. extract_agg_calls (snd kv)) pairs)
    | _ \<Rightarrow> [])"
  by pat_completeness auto
termination
  by (relation "measure size") (auto simp: expr_parts less_Suc_eq_le)

declare extract_agg_calls.simps [simp del]

definition is_aggregate_fn :: "string \<Rightarrow> bool" where
  "is_aggregate_fn name \<longleftrightarrow>
     to_ascii_lowercase name \<in> set
       [''count'', ''count_distinct'', ''sum'', ''sum_distinct'', ''avg'', ''avg_distinct'', ''min'', ''max'',
        ''collect'', ''collect_distinct'', ''stdev'', ''stdevp'', ''percentilecont'', ''percentiledisc'']"

function contains_aggregation :: "Expr \<Rightarrow> bool" where
  "contains_aggregation e =
    (case e of
      FunctionCall name args \<Rightarrow> is_aggregate_fn name \<or> list_ex contains_aggregation args
    | Arith l _ r \<Rightarrow> contains_aggregation l \<or> contains_aggregation r
    | Compare l _ r \<Rightarrow> contains_aggregation l \<or> contains_aggregation r
    | And l r \<Rightarrow> contains_aggregation l \<or> contains_aggregation r
    | Or l r \<Rightarrow> contains_aggregation l \<or> contains_aggregation r
    | Xor l r \<Rightarrow> contains_aggregation l \<or> contains_aggregation r
    | StartsWith l r \<Rightarrow> contains_aggregation l \<or> contains_aggregation r
    | EndsWith l r \<Rightarrow> contains_aggregation l \<or> contains_aggregation r
    | Contains l r \<Rightarrow> contains_aggregation l \<or> contains_aggregation r
    | InList l r \<Rightarrow> contains_aggregation l \<or> contains_aggregation r
    | Subscript l r \<Rightarrow> contains_aggregation l \<or> contains_aggregation r
    | Not a \<Rightarrow> contains_aggregation a
    | Neg a \<Rightarrow> contains_aggregation a
    | IsNull a \<Rightarrow> contains_aggregation a
    | IsNotNull a \<Rightarrow> contains_aggregation a
    | HasLabel a _ \<Rightarrow> contains_aggregation a
    | Property a _ \<Rightarrow> contains_aggregation a
    | List items \<Rightarrow> list_ex contains_aggregation items
    | MapLiteral pairs \<Rightarrow> list_ex (\<lambda>kv. contains_aggregation (snd kv)) pairs
    | _ \<Rightarrow> False)"
  by pat_completeness auto
termination
  by (relation "measure size") (auto simp: expr_parts less_Suc_eq_le)

declare contains_aggregation.simps [simp del]

function check_nested_aggregation :: "Expr \<Rightarrow> bool \<Rightarrow> PlanError + unit" where
  "check_nested_aggregation e inside_agg =
    (case e of
      FunctionCall name args \<Rightarrow>
        (let is_agg = is_aggregate_fn name in
         if is_agg \<and> inside_agg then Inl NestedAggregation
         else if inside_agg \<and> eq_ignore_ascii_case name ''rand'' then Inl RandInAggregation
         else eachE (\<lambda>a. check_nested_aggregation a (inside_agg \<or> is_agg)) args)
    | Arith l _ r \<Rightarrow> bindE (check_nested_aggregation l inside_agg) (\<lambda>_. check_nested_aggregation r inside_agg)
    | Compare l _ r \<Rightarrow> bindE (check_nested_aggregation l inside_agg) (\<lambda>_. check_nested_aggregation r inside_agg)
    | And l r \<Rightarrow> bindE (check_nested_aggregation l inside_agg) (\<lambda>_. check_nested_aggregation r inside_agg)
    | Or l r \<Rightarrow> bindE (check_nested_aggregation l inside_agg) (\<lambda>_. check_nested_aggregation r inside_agg)
    | Xor l r \<Rightarrow> bindE (check_nested_aggregation l inside_agg) (\<lambda>_. check_nested_aggregation r inside_agg)
    | StartsWith l r \<Rightarrow> bindE (check_nested_aggregation l inside_agg) (\<lambda>_. check_nested_aggregation r inside_agg)
    | EndsWith l r \<Rightarrow> bindE (check_nested_aggregation l inside_agg) (\<lambda>_. check_nested_aggregation r inside_agg)
    | Contains l r \<Rightarrow> bindE (check_nested_aggregation l inside_agg) (\<lambda>_. check_nested_aggregation r inside_agg)
    | InList l r \<Rightarrow> bindE (check_nested_aggregation l inside_agg) (\<lambda>_. check_nested_aggregation r inside_agg)
    | Subscript l r \<Rightarrow> bindE (check_nested_aggregation l inside_agg) (\<lambda>_. check_nested_aggregation r inside_agg)
    | Not a \<Rightarrow> check_nested_aggregation a inside_agg
    | Neg a \<Rightarrow> check_nested_aggregation a inside_agg
    | IsNull a \<Rightarrow> check_nested_aggregation a inside_agg
    | IsNotNull a \<Rightarrow> check_nested_aggregation a inside_agg
    | HasLabel a _ \<Rightarrow> check_nested_aggregation a inside_agg
    | Property a _ \<Rightarrow> check_nested_aggregation a inside_agg
    | List items \<Rightarrow> eachE (\<lambda>a. check_nested_aggregation a inside_agg) items
    | MapLiteral pairs \<Rightarrow> eachE (\<lambda>kv. check_nested_aggregation (snd kv) inside_agg) pairs
    | _ \<Rightarrow> Inr ())"
  by pat_completeness auto
termination
  by (relation "measure (\<lambda>(e, _). size e)") (auto simp: expr_parts less_Suc_eq_le)

declare check_nested_aggregation.simps [simp del]

text \<open>Equality of expressions, up to the case of function names; \<open>f64\<close> compares by value.\<close>

unbundle bit_operations_syntax

definition f64_is_nan :: "u64 \<Rightarrow> bool" where
  "f64_is_nan x \<longleftrightarrow> 0x7FF0000000000000 < x AND 0x7FFFFFFFFFFFFFFF"

definition f64_eq :: "u64 \<Rightarrow> u64 \<Rightarrow> bool" where
  "f64_eq x y \<longleftrightarrow>
     \<not> f64_is_nan x \<and> \<not> f64_is_nan y \<and> (x = y \<or> (x OR y) AND 0x7FFFFFFFFFFFFFFF = 0)"

function expr_structural_eq :: "Expr \<Rightarrow> Expr \<Rightarrow> bool" where
  "expr_structural_eq a b =
    (case a of
      Variable v1 \<Rightarrow> (case b of Variable v2 \<Rightarrow> v1 = v2 | _ \<Rightarrow> False)
    | IntLit l1 \<Rightarrow> (case b of IntLit l2 \<Rightarrow> l1 = l2 | _ \<Rightarrow> False)
    | FloatLit f1 \<Rightarrow> (case b of FloatLit f2 \<Rightarrow> f64_eq f1 f2 | _ \<Rightarrow> False)
    | StringLit s1 \<Rightarrow> (case b of StringLit s2 \<Rightarrow> s1 = s2 | _ \<Rightarrow> False)
    | BoolLit b1 \<Rightarrow> (case b of BoolLit b2 \<Rightarrow> b1 = b2 | _ \<Rightarrow> False)
    | NullLit \<Rightarrow> (case b of NullLit \<Rightarrow> True | _ \<Rightarrow> False)
    | Property e1 p1 \<Rightarrow> (case b of Property e2 p2 \<Rightarrow> p1 = p2 \<and> expr_structural_eq e1 e2 | _ \<Rightarrow> False)
    | FunctionCall n1 a1 \<Rightarrow>
        (case b of
          FunctionCall n2 a2 \<Rightarrow>
            to_lowercase n1 = to_lowercase n2 \<and> length a1 = length a2 \<and>
            list_all (\<lambda>(x, y). expr_structural_eq x y) (zip a1 a2)
        | _ \<Rightarrow> False)
    | Arith l1 op1 r1 \<Rightarrow>
        (case b of
          Arith l2 op2 r2 \<Rightarrow> op1 = op2 \<and> expr_structural_eq l1 l2 \<and> expr_structural_eq r1 r2
        | _ \<Rightarrow> False)
    | Compare l1 op1 r1 \<Rightarrow>
        (case b of
          Compare l2 op2 r2 \<Rightarrow> op1 = op2 \<and> expr_structural_eq l1 l2 \<and> expr_structural_eq r1 r2
        | _ \<Rightarrow> False)
    | Not e1 \<Rightarrow> (case b of Not e2 \<Rightarrow> expr_structural_eq e1 e2 | _ \<Rightarrow> False)
    | Neg e1 \<Rightarrow> (case b of Neg e2 \<Rightarrow> expr_structural_eq e1 e2 | _ \<Rightarrow> False)
    | IsNull e1 \<Rightarrow> (case b of IsNull e2 \<Rightarrow> expr_structural_eq e1 e2 | _ \<Rightarrow> False)
    | IsNotNull e1 \<Rightarrow> (case b of IsNotNull e2 \<Rightarrow> expr_structural_eq e1 e2 | _ \<Rightarrow> False)
    | And l1 r1 \<Rightarrow> (case b of And l2 r2 \<Rightarrow> expr_structural_eq l1 l2 \<and> expr_structural_eq r1 r2 | _ \<Rightarrow> False)
    | Or l1 r1 \<Rightarrow> (case b of Or l2 r2 \<Rightarrow> expr_structural_eq l1 l2 \<and> expr_structural_eq r1 r2 | _ \<Rightarrow> False)
    | Xor l1 r1 \<Rightarrow> (case b of Xor l2 r2 \<Rightarrow> expr_structural_eq l1 l2 \<and> expr_structural_eq r1 r2 | _ \<Rightarrow> False)
    | List e1 \<Rightarrow>
        (case b of
          List e2 \<Rightarrow> length e1 = length e2 \<and> list_all (\<lambda>(x, y). expr_structural_eq x y) (zip e1 e2)
        | _ \<Rightarrow> False)
    | Subscript b1 i1 \<Rightarrow>
        (case b of Subscript b2 i2 \<Rightarrow> expr_structural_eq b1 b2 \<and> expr_structural_eq i1 i2 | _ \<Rightarrow> False)
    | Star \<Rightarrow> (case b of Star \<Rightarrow> True | _ \<Rightarrow> False)
    | Parameter p1 \<Rightarrow> (case b of Parameter p2 \<Rightarrow> p1 = p2 | _ \<Rightarrow> False)
    | _ \<Rightarrow> False)"
  by pat_completeness auto
termination
  by (relation "measure (\<lambda>(a, _). size a)") (auto simp: expr_parts less_Suc_eq_le dest: set_zip_leftD)

declare expr_structural_eq.simps [simp del]

section \<open>Kinds of expressions\<close>

definition expr_is_definitely_not_node :: "Expr \<Rightarrow> (string \<rightharpoonup> VarKind) \<Rightarrow> bool" where
  "expr_is_definitely_not_node e kinds \<longleftrightarrow>
    (case e of
      IntLit _ \<Rightarrow> True | FloatLit _ \<Rightarrow> True | StringLit _ \<Rightarrow> True | BoolLit _ \<Rightarrow> True
    | List _ \<Rightarrow> True | MapLiteral _ \<Rightarrow> True
    | And _ _ \<Rightarrow> True | Or _ _ \<Rightarrow> True | Not _ \<Rightarrow> True | Xor _ _ \<Rightarrow> True
    | Compare _ _ _ \<Rightarrow> True | IsNull _ \<Rightarrow> True | IsNotNull _ \<Rightarrow> True | HasLabel _ _ \<Rightarrow> True
    | InList _ _ \<Rightarrow> True | StartsWith _ _ \<Rightarrow> True | EndsWith _ _ \<Rightarrow> True | Contains _ _ \<Rightarrow> True | Regex _ _ \<Rightarrow> True
    | Arith _ _ _ \<Rightarrow> True | Neg _ \<Rightarrow> True
    | Variable v \<Rightarrow> kinds v \<in> {Some KindNotNode, Some KindRel, Some KindPath}
    | _ \<Rightarrow> False)"

definition expr_var_kind :: "Expr \<Rightarrow> (string \<rightharpoonup> VarKind) \<Rightarrow> VarKind" where
  "expr_var_kind e kinds =
    (case e of
      Variable v \<Rightarrow> (case kinds v of Some k \<Rightarrow> k | None \<Rightarrow> KindScalar)
    | _ \<Rightarrow> if expr_is_definitely_not_node e kinds then KindNotNode else KindScalar)"

section \<open>Checks\<close>

text \<open>The names the planner makes up are exempt.\<close>

definition is_internal :: "string \<Rightarrow> bool" where
  "is_internal v \<longleftrightarrow> starts_with ''_anon_'' v \<or> starts_with ''_pr_'' v"

function check_expr_vars :: "Expr \<Rightarrow> string set \<Rightarrow> PlanError + unit" where
  "check_expr_vars e bound =
    (case e of
      Variable v \<Rightarrow> require (is_internal v \<or> v \<in> bound) (UndefinedVariable v)
    | Property base _ \<Rightarrow> check_expr_vars base bound
    | Arith l _ r \<Rightarrow> bindE (check_expr_vars l bound) (\<lambda>_. check_expr_vars r bound)
    | Compare l _ r \<Rightarrow> bindE (check_expr_vars l bound) (\<lambda>_. check_expr_vars r bound)
    | And l r \<Rightarrow> bindE (check_expr_vars l bound) (\<lambda>_. check_expr_vars r bound)
    | Or l r \<Rightarrow> bindE (check_expr_vars l bound) (\<lambda>_. check_expr_vars r bound)
    | Xor l r \<Rightarrow> bindE (check_expr_vars l bound) (\<lambda>_. check_expr_vars r bound)
    | StartsWith l r \<Rightarrow> bindE (check_expr_vars l bound) (\<lambda>_. check_expr_vars r bound)
    | EndsWith l r \<Rightarrow> bindE (check_expr_vars l bound) (\<lambda>_. check_expr_vars r bound)
    | Contains l r \<Rightarrow> bindE (check_expr_vars l bound) (\<lambda>_. check_expr_vars r bound)
    | Not a \<Rightarrow> check_expr_vars a bound
    | Neg a \<Rightarrow> check_expr_vars a bound
    | IsNull a \<Rightarrow> check_expr_vars a bound
    | IsNotNull a \<Rightarrow> check_expr_vars a bound
    | HasLabel a _ \<Rightarrow> check_expr_vars a bound
    | FunctionCall _ args \<Rightarrow> eachE (\<lambda>a. check_expr_vars a bound) args
    | List items \<Rightarrow> eachE (\<lambda>a. check_expr_vars a bound) items
    | MapLiteral pairs \<Rightarrow> eachE (\<lambda>kv. check_expr_vars (snd kv) bound) pairs
    | Subscript base idx \<Rightarrow> bindE (check_expr_vars base bound) (\<lambda>_. check_expr_vars idx bound)
    | ListSlice list_expr from to \<Rightarrow>
        bindE (check_expr_vars list_expr bound) (\<lambda>_.
        case from of
          Some idx \<Rightarrow> check_expr_vars idx bound
        | None \<Rightarrow> (case to of Some t \<Rightarrow> check_expr_vars t bound | None \<Rightarrow> Inr ()))
    | CaseSearched branches else_ \<Rightarrow>
        bindE (eachE (\<lambda>b. bindE (check_expr_vars (fst b) bound) (\<lambda>_. check_expr_vars (snd b) bound)) branches) (\<lambda>_.
        case else_ of Some x \<Rightarrow> check_expr_vars x bound | None \<Rightarrow> Inr ())
    | CaseSimple test branches else_ \<Rightarrow>
        bindE (check_expr_vars test bound) (\<lambda>_.
        bindE (eachE (\<lambda>b. bindE (check_expr_vars (fst b) bound) (\<lambda>_. check_expr_vars (snd b) bound)) branches) (\<lambda>_.
        case else_ of Some x \<Rightarrow> check_expr_vars x bound | None \<Rightarrow> Inr ()))
    | _ \<Rightarrow> Inr ())"
  by pat_completeness auto
termination
  by (relation "measure (\<lambda>(e, _). size e)") (auto simp: expr_parts less_Suc_eq_le trans_le_add1 trans_le_add2)

declare check_expr_vars.simps [simp del]

function check_path_property_access :: "Expr \<Rightarrow> (string \<rightharpoonup> VarKind) \<Rightarrow> PlanError + unit" where
  "check_path_property_access e kinds =
    (case e of
      Property base _ \<Rightarrow>
        bindE
          (case base of
            Variable v \<Rightarrow> require (kinds v \<noteq> Some KindPath) (PathPropertyAccess v)
          | _ \<Rightarrow> Inr ())
          (\<lambda>_. check_path_property_access base kinds)
    | Arith l _ r \<Rightarrow> bindE (check_path_property_access l kinds) (\<lambda>_. check_path_property_access r kinds)
    | Compare l _ r \<Rightarrow> bindE (check_path_property_access l kinds) (\<lambda>_. check_path_property_access r kinds)
    | And l r \<Rightarrow> bindE (check_path_property_access l kinds) (\<lambda>_. check_path_property_access r kinds)
    | Or l r \<Rightarrow> bindE (check_path_property_access l kinds) (\<lambda>_. check_path_property_access r kinds)
    | Xor l r \<Rightarrow> bindE (check_path_property_access l kinds) (\<lambda>_. check_path_property_access r kinds)
    | StartsWith l r \<Rightarrow> bindE (check_path_property_access l kinds) (\<lambda>_. check_path_property_access r kinds)
    | EndsWith l r \<Rightarrow> bindE (check_path_property_access l kinds) (\<lambda>_. check_path_property_access r kinds)
    | Contains l r \<Rightarrow> bindE (check_path_property_access l kinds) (\<lambda>_. check_path_property_access r kinds)
    | InList l r \<Rightarrow> bindE (check_path_property_access l kinds) (\<lambda>_. check_path_property_access r kinds)
    | Subscript l r \<Rightarrow> bindE (check_path_property_access l kinds) (\<lambda>_. check_path_property_access r kinds)
    | Not a \<Rightarrow> check_path_property_access a kinds
    | Neg a \<Rightarrow> check_path_property_access a kinds
    | IsNull a \<Rightarrow> check_path_property_access a kinds
    | IsNotNull a \<Rightarrow> check_path_property_access a kinds
    | HasLabel a _ \<Rightarrow> check_path_property_access a kinds
    | FunctionCall _ args \<Rightarrow> eachE (\<lambda>a. check_path_property_access a kinds) args
    | List items \<Rightarrow> eachE (\<lambda>a. check_path_property_access a kinds) items
    | MapLiteral pairs \<Rightarrow> eachE (\<lambda>kv. check_path_property_access (snd kv) kinds) pairs
    | _ \<Rightarrow> Inr ())"
  by pat_completeness auto
termination
  by (relation "measure (\<lambda>(e, _). size e)") (auto simp: expr_parts less_Suc_eq_le)

declare check_path_property_access.simps [simp del]

text \<open>The loop of \<open>infer_homogeneous_list_type\<close>, with the type seen so far.\<close>

definition literal_type :: "Expr \<Rightarrow> PrimTy option" where
  "literal_type e =
    (case e of
      IntLit _ \<Rightarrow> Some PInt | FloatLit _ \<Rightarrow> Some PFloat | StringLit _ \<Rightarrow> Some PString | BoolLit _ \<Rightarrow> Some PBool
    | _ \<Rightarrow> None)"

fun homogeneous :: "PrimTy option \<Rightarrow> Expr list \<Rightarrow> PrimTy option" where
  "homogeneous ty [] = ty"
| "homogeneous ty (it # its) =
     (case literal_type it of
       None \<Rightarrow> None
     | Some t \<Rightarrow> if ty = None \<or> ty = Some t then homogeneous (Some t) its else None)"

definition infer_homogeneous_list_type :: "Expr \<Rightarrow> PrimTy option" where
  "infer_homogeneous_list_type e = (case e of List items \<Rightarrow> homogeneous None items | _ \<Rightarrow> None)"

definition is_var_ref :: "Expr \<Rightarrow> string \<Rightarrow> bool" where
  "is_var_ref e var \<longleftrightarrow> e = Variable var"

function predicate_arith_on_var :: "Expr \<Rightarrow> string \<Rightarrow> bool" where
  "predicate_arith_on_var e var =
    (case e of
      Arith l _ r \<Rightarrow>
        is_var_ref l var \<or> is_var_ref r var \<or> predicate_arith_on_var l var \<or> predicate_arith_on_var r var
    | Compare l _ r \<Rightarrow> predicate_arith_on_var l var \<or> predicate_arith_on_var r var
    | And l r \<Rightarrow> predicate_arith_on_var l var \<or> predicate_arith_on_var r var
    | Or l r \<Rightarrow> predicate_arith_on_var l var \<or> predicate_arith_on_var r var
    | Xor l r \<Rightarrow> predicate_arith_on_var l var \<or> predicate_arith_on_var r var
    | StartsWith l r \<Rightarrow> predicate_arith_on_var l var \<or> predicate_arith_on_var r var
    | EndsWith l r \<Rightarrow> predicate_arith_on_var l var \<or> predicate_arith_on_var r var
    | Contains l r \<Rightarrow> predicate_arith_on_var l var \<or> predicate_arith_on_var r var
    | InList l r \<Rightarrow> predicate_arith_on_var l var \<or> predicate_arith_on_var r var
    | Subscript l r \<Rightarrow> predicate_arith_on_var l var \<or> predicate_arith_on_var r var
    | Not a \<Rightarrow> predicate_arith_on_var a var
    | Neg a \<Rightarrow> predicate_arith_on_var a var
    | IsNull a \<Rightarrow> predicate_arith_on_var a var
    | IsNotNull a \<Rightarrow> predicate_arith_on_var a var
    | HasLabel a _ \<Rightarrow> predicate_arith_on_var a var
    | Property a _ \<Rightarrow> predicate_arith_on_var a var
    | FunctionCall _ args \<Rightarrow> list_ex (\<lambda>a. predicate_arith_on_var a var) args
    | List args \<Rightarrow> list_ex (\<lambda>a. predicate_arith_on_var a var) args
    | MapLiteral pairs \<Rightarrow> list_ex (\<lambda>kv. predicate_arith_on_var (snd kv) var) pairs
    | ListPredicate _ variable list_expr predicate \<Rightarrow>
        predicate_arith_on_var list_expr var \<or> (variable \<noteq> var \<and> predicate_arith_on_var predicate var)
    | _ \<Rightarrow> False)"
  by pat_completeness auto
termination
  by (relation "measure (\<lambda>(e, _). size e)") (auto simp: expr_parts less_Suc_eq_le)

declare predicate_arith_on_var.simps [simp del]

function check_quantifier_type_mismatch :: "Expr \<Rightarrow> PlanError + unit" where
  "check_quantifier_type_mismatch e =
    (case e of
      ListPredicate _ variable list_expr predicate \<Rightarrow>
        bindE (check_quantifier_type_mismatch list_expr) (\<lambda>_.
        bindE
          (case infer_homogeneous_list_type list_expr of
            Some elem_ty \<Rightarrow>
              require (elem_ty \<in> {PInt, PFloat} \<or> \<not> predicate_arith_on_var predicate variable)
                (QuantifierArith variable elem_ty)
          | None \<Rightarrow> Inr ())
          (\<lambda>_. check_quantifier_type_mismatch predicate))
    | Arith l _ r \<Rightarrow> bindE (check_quantifier_type_mismatch l) (\<lambda>_. check_quantifier_type_mismatch r)
    | Compare l _ r \<Rightarrow> bindE (check_quantifier_type_mismatch l) (\<lambda>_. check_quantifier_type_mismatch r)
    | And l r \<Rightarrow> bindE (check_quantifier_type_mismatch l) (\<lambda>_. check_quantifier_type_mismatch r)
    | Or l r \<Rightarrow> bindE (check_quantifier_type_mismatch l) (\<lambda>_. check_quantifier_type_mismatch r)
    | Xor l r \<Rightarrow> bindE (check_quantifier_type_mismatch l) (\<lambda>_. check_quantifier_type_mismatch r)
    | StartsWith l r \<Rightarrow> bindE (check_quantifier_type_mismatch l) (\<lambda>_. check_quantifier_type_mismatch r)
    | EndsWith l r \<Rightarrow> bindE (check_quantifier_type_mismatch l) (\<lambda>_. check_quantifier_type_mismatch r)
    | Contains l r \<Rightarrow> bindE (check_quantifier_type_mismatch l) (\<lambda>_. check_quantifier_type_mismatch r)
    | InList l r \<Rightarrow> bindE (check_quantifier_type_mismatch l) (\<lambda>_. check_quantifier_type_mismatch r)
    | Subscript l r \<Rightarrow> bindE (check_quantifier_type_mismatch l) (\<lambda>_. check_quantifier_type_mismatch r)
    | Not a \<Rightarrow> check_quantifier_type_mismatch a
    | Neg a \<Rightarrow> check_quantifier_type_mismatch a
    | IsNull a \<Rightarrow> check_quantifier_type_mismatch a
    | IsNotNull a \<Rightarrow> check_quantifier_type_mismatch a
    | HasLabel a _ \<Rightarrow> check_quantifier_type_mismatch a
    | Property a _ \<Rightarrow> check_quantifier_type_mismatch a
    | FunctionCall _ args \<Rightarrow> eachE check_quantifier_type_mismatch args
    | List args \<Rightarrow> eachE check_quantifier_type_mismatch args
    | MapLiteral pairs \<Rightarrow> eachE (\<lambda>kv. check_quantifier_type_mismatch (snd kv)) pairs
    | _ \<Rightarrow> Inr ())"
  by pat_completeness auto
termination
  by (relation "measure size") (auto simp: expr_parts less_Suc_eq_le)

declare check_quantifier_type_mismatch.simps [simp del]

definition check_where_is_boolean :: "Expr \<Rightarrow> (string \<rightharpoonup> VarKind) \<Rightarrow> PlanError + unit" where
  "check_where_is_boolean e kinds =
    (case e of
      Variable name \<Rightarrow> require (kinds name \<notin> {Some KindNode, Some KindRel, Some KindPath}) (WhereIsEntity name)
    | _ \<Rightarrow> Inr ())"

end
