(* ===== verification/CypherRewrite.thy ===== *)
theory CypherRewrite
  imports CypherAnalysis
begin

text \<open>
  What \<open>cypher/planner.rs\<close> builds out of expressions: aliases replaced by what they stand for, the
  equalities of a \<open>WHERE\<close> that an index can serve, and the filter that keeps relationships apart.
\<close>

function substitute_aliases_in_expr :: "Expr \<Rightarrow> (string \<rightharpoonup> Expr) \<Rightarrow> Expr" where
  "substitute_aliases_in_expr e m =
    (case e of
      Variable v \<Rightarrow> (case m v of Some replacement \<Rightarrow> replacement | None \<Rightarrow> e)
    | Property base key \<Rightarrow> Property (substitute_aliases_in_expr base m) key
    | Compare l op r \<Rightarrow> Compare (substitute_aliases_in_expr l m) op (substitute_aliases_in_expr r m)
    | And l r \<Rightarrow> And (substitute_aliases_in_expr l m) (substitute_aliases_in_expr r m)
    | Or l r \<Rightarrow> Or (substitute_aliases_in_expr l m) (substitute_aliases_in_expr r m)
    | Xor l r \<Rightarrow> Xor (substitute_aliases_in_expr l m) (substitute_aliases_in_expr r m)
    | Not a \<Rightarrow> Not (substitute_aliases_in_expr a m)
    | IsNull a \<Rightarrow> IsNull (substitute_aliases_in_expr a m)
    | IsNotNull a \<Rightarrow> IsNotNull (substitute_aliases_in_expr a m)
    | Neg a \<Rightarrow> Neg (substitute_aliases_in_expr a m)
    | Arith l op r \<Rightarrow> Arith (substitute_aliases_in_expr l m) op (substitute_aliases_in_expr r m)
    | FunctionCall name args \<Rightarrow> FunctionCall name (map (\<lambda>a. substitute_aliases_in_expr a m) args)
    | InList l r \<Rightarrow> InList (substitute_aliases_in_expr l m) (substitute_aliases_in_expr r m)
    | StartsWith l r \<Rightarrow> StartsWith (substitute_aliases_in_expr l m) (substitute_aliases_in_expr r m)
    | EndsWith l r \<Rightarrow> EndsWith (substitute_aliases_in_expr l m) (substitute_aliases_in_expr r m)
    | Contains l r \<Rightarrow> Contains (substitute_aliases_in_expr l m) (substitute_aliases_in_expr r m)
    | Regex l r \<Rightarrow> Regex (substitute_aliases_in_expr l m) (substitute_aliases_in_expr r m)
    | Subscript l r \<Rightarrow> Subscript (substitute_aliases_in_expr l m) (substitute_aliases_in_expr r m)
    | HasLabel a labels \<Rightarrow> HasLabel (substitute_aliases_in_expr a m) labels
    | List items \<Rightarrow> List (map (\<lambda>a. substitute_aliases_in_expr a m) items)
    | MapLiteral pairs \<Rightarrow> MapLiteral (map (\<lambda>kv. (fst kv, substitute_aliases_in_expr (snd kv) m)) pairs)
    | ListSlice list_expr from to \<Rightarrow>
        ListSlice (substitute_aliases_in_expr list_expr m)
          (map_option (\<lambda>a. substitute_aliases_in_expr a m) from)
          (map_option (\<lambda>a. substitute_aliases_in_expr a m) to)
    | CaseSearched branches else_ \<Rightarrow>
        CaseSearched
          (map (\<lambda>b. (substitute_aliases_in_expr (fst b) m, substitute_aliases_in_expr (snd b) m)) branches)
          (map_option (\<lambda>a. substitute_aliases_in_expr a m) else_)
    | CaseSimple test branches else_ \<Rightarrow>
        CaseSimple (substitute_aliases_in_expr test m)
          (map (\<lambda>b. (substitute_aliases_in_expr (fst b) m, substitute_aliases_in_expr (snd b) m)) branches)
          (map_option (\<lambda>a. substitute_aliases_in_expr a m) else_)
    | ListComprehension variable list_expr predicate projection \<Rightarrow>
        ListComprehension variable (substitute_aliases_in_expr list_expr m)
          (map_option (\<lambda>a. substitute_aliases_in_expr a m) predicate)
          (map_option (\<lambda>a. substitute_aliases_in_expr a m) projection)
    | ListPredicate kind variable list_expr predicate \<Rightarrow>
        ListPredicate kind variable (substitute_aliases_in_expr list_expr m)
          (substitute_aliases_in_expr predicate m)
    | _ \<Rightarrow> e)"
  by pat_completeness auto
termination
  by (relation "measure (\<lambda>(e, _). size e)") (auto simp: expr_parts less_Suc_eq_le trans_le_add1 trans_le_add2)

declare substitute_aliases_in_expr.simps [simp del]

section \<open>Equalities for an index\<close>

definition is_pushable_value :: "Expr \<Rightarrow> bool" where
  "is_pushable_value e =
    (case e of
      IntLit _ \<Rightarrow> True | FloatLit _ \<Rightarrow> True | StringLit _ \<Rightarrow> True | BoolLit _ \<Rightarrow> True | NullLit \<Rightarrow> True
    | Parameter _ \<Rightarrow> True
    | _ \<Rightarrow> False)"

text \<open>\<open>v.p = value\<close>, as variable, property and value.\<close>

definition property_equality :: "Expr \<Rightarrow> Expr \<Rightarrow> (string \<times> string \<times> Expr) option" where
  "property_equality lhs rhs =
    (case lhs of
      Property base prop \<Rightarrow>
        (case base of
          Variable var \<Rightarrow> if is_pushable_value rhs then Some (var, prop, rhs) else None
        | _ \<Rightarrow> None)
    | _ \<Rightarrow> None)"

fun extract_pushdown_equalities :: "Expr \<Rightarrow> (string \<times> string \<times> Expr) list \<times> Expr option" where
  "extract_pushdown_equalities (And left right) =
     (let (leq, lrem) = extract_pushdown_equalities left;
          (req, rrem) = extract_pushdown_equalities right
      in (leq @ req,
          (case (lrem, rrem) of
            (Some l, Some r) \<Rightarrow> Some (And l r)
          | (Some l, None) \<Rightarrow> Some l
          | (None, Some l) \<Rightarrow> Some l
          | (None, None) \<Rightarrow> None)))"
| "extract_pushdown_equalities (Compare lhs Eq rhs) =
     (case property_equality lhs rhs of
       Some eq \<Rightarrow> ([eq], None)
     | None \<Rightarrow>
         (case property_equality rhs lhs of
           Some eq \<Rightarrow> ([eq], None)
         | None \<Rightarrow> ([], Some (Compare lhs Eq rhs))))"
| "extract_pushdown_equalities other = ([], Some other)"

section \<open>Relationships of one clause are different\<close>

definition isomorphism_pair :: "string \<Rightarrow> string \<Rightarrow> Expr" where
  "isomorphism_pair a b =
     Or (IsNull (Variable a))
       (Or (IsNull (Variable b))
         (Compare (FunctionCall ''id'' [Variable a]) Neq (FunctionCall ''id'' [Variable b])))"

fun isomorphism_pairs :: "string list \<Rightarrow> Expr list" where
  "isomorphism_pairs [] = []"
| "isomorphism_pairs (a # bs) = map (isomorphism_pair a) bs @ isomorphism_pairs bs"

definition build_rel_isomorphism_filter :: "string list \<Rightarrow> Expr option" where
  "build_rel_isomorphism_filter rel_vars =
     (if length rel_vars < 2 then None
      else case isomorphism_pairs rel_vars of
        p # ps \<Rightarrow> Some (foldl And p ps)
      | [] \<Rightarrow> None)"

definition build_isomorphism_filter :: "string list \<Rightarrow> Expr option" where
  "build_isomorphism_filter node_vars =
     (if length node_vars < 2 then None
      else case isomorphism_pairs node_vars of
        p # ps \<Rightarrow> Some (foldl And p ps)
      | [] \<Rightarrow> None)"

end
