(* ===== verification/CypherMatch.thy ===== *)
theory CypherMatch
  imports CypherRewrite "HOL-Library.AList_Mapping"
begin

text \<open>
  How \<open>cypher/planner.rs\<close> plans the patterns of a \<open>MATCH\<close>: index scans, the pushdown of equalities into
  them, one pattern as a chain of expands, and the clause with its checks and filters.
\<close>

section \<open>The catalog and the scope\<close>

text \<open>
  What the planner asks the catalog: functions of \<open>catalog/labels.rs\<close> and \<open>catalog/indexes.rs\<close> that run
  SQL queries, and so the fields of a parameter. Counts are \<open>i64\<close> and not negative.
\<close>

record catalog =
  label_id_by_name :: "string \<Rightarrow> i32 option"
  prop_key_id_by_name :: "string \<Rightarrow> i32 option"
  has_property_index :: "i32 \<Rightarrow> i32 \<Rightarrow> bool"
  count_label_nodes :: "string \<Rightarrow> int"
  estimate_total_nodes :: int
  count_index_entries :: "i32 \<Rightarrow> i32 \<Rightarrow> int"

type_synonym kinds = "(string, VarKind) mapping"

text \<open>The state of the loop over the clauses: the plan so far, and the scope.\<close>

record scope =
  current :: LogicalPlan
  bound_vars :: "string set"
  var_kinds :: kinds

section \<open>Index scans\<close>

text \<open>The first filter on a property with an index, as its position and the id of the property.\<close>

fun find_indexed :: "catalog \<Rightarrow> i32 \<Rightarrow> nat \<Rightarrow> (string \<times> Expr) list \<Rightarrow> (nat \<times> i32) option" where
  "find_indexed cat label_id i [] = None"
| "find_indexed cat label_id i ((pname, _) # props) =
     (case prop_key_id_by_name cat pname of
       Some kid \<Rightarrow>
         if has_property_index cat label_id kid then Some (i, kid) else find_indexed cat label_id (Suc i) props
     | None \<Rightarrow> find_indexed cat label_id (Suc i) props)"

definition try_property_index_scan ::
    "catalog \<Rightarrow> string \<Rightarrow> string \<Rightarrow> (string \<times> Expr) list \<Rightarrow> bool \<Rightarrow> LogicalPlan option" where
  "try_property_index_scan cat variable label inline_props opt =
     (if inline_props = [] then None
      else case label_id_by_name cat label of
        None \<Rightarrow> None
      | Some label_id \<Rightarrow>
          (case find_indexed cat label_id 0 inline_props of
            None \<Rightarrow> None
          | Some (idx, key_id) \<Rightarrow>
              (let (prop, value_expr) = inline_props ! idx;
                   remaining = take idx inline_props @ drop (Suc idx) inline_props
               in Some (PropertyIndexScan variable label label_id prop key_id value_expr remaining opt))))"

fun apply_where_pushdown ::
    "catalog \<Rightarrow> LogicalPlan \<Rightarrow> (string \<times> string \<times> Expr) list \<Rightarrow> LogicalPlan \<times> nat list" where
  "apply_where_pushdown cat (LabelScan variable (Some lname) inline_props opt needed) equalities =
     (case first_some (\<lambda>(i, eq_var, eq_prop, eq_val).
         if eq_var = variable then
           map_option (\<lambda>idx_scan. (idx_scan, [i]))
             (try_property_index_scan cat variable lname (inline_props @ [(eq_prop, eq_val)]) opt)
         else None) (enumerate 0 equalities) of
       Some r \<Rightarrow> r
     | None \<Rightarrow> (LabelScan variable (Some lname) inline_props opt needed, []))"
| "apply_where_pushdown cat (Filter inp predicate) equalities =
     (let (new_in, used) = apply_where_pushdown cat inp equalities in (Filter new_in predicate, used))"
| "apply_where_pushdown cat
     (Expand inp src_var rel_var dst_var types dir rel_props dst_labels dst_props opt needed) equalities =
     (let (new_in, used) = apply_where_pushdown cat inp equalities
      in (Expand new_in src_var rel_var dst_var types dir rel_props dst_labels dst_props opt needed, used))"
| "apply_where_pushdown cat (CrossProduct left right) equalities =
     (let (new_l, lu) = apply_where_pushdown cat left equalities;
          (new_r, ru) = apply_where_pushdown cat right equalities
      in (CrossProduct new_l new_r, ru @ lu))"
| "apply_where_pushdown cat plan equalities = (plan, [])"

section \<open>One pattern\<close>

text \<open>
  \<open>while used(name) { name.push('_') }\<close>. The loop ends because each round tries a longer name; the
  number of names in use is enough rounds.
\<close>

fun push_underscores :: "nat \<Rightarrow> string set \<Rightarrow> string \<Rightarrow> string" where
  "push_underscores 0 used name = name"
| "push_underscores (Suc n) used name =
     (if name \<in> used then push_underscores n used (name @ ''_'') else name)"

definition fresh_name :: "string set \<Rightarrow> string \<Rightarrow> string" where
  "fresh_name used name = push_underscores (card used) used name"

definition is_fixed_rel :: "'e PatternElement \<Rightarrow> bool" where
  "is_fixed_rel e = (case e of Relationship r \<Rightarrow> rp_length r = None | Node _ \<Rightarrow> False)"

definition is_varlen_rel :: "'e PatternElement \<Rightarrow> bool" where
  "is_varlen_rel e = (case e of Relationship r \<Rightarrow> rp_length r \<noteq> None | Node _ \<Rightarrow> False)"

text \<open>The names of the fixed-length relationships, known before the hops are planned.\<close>

fun fixed_rel_vars :: "bool \<Rightarrow> bool \<Rightarrow> nat \<Rightarrow> 'e PatternElement list \<Rightarrow> string list" where
  "fixed_rel_vars is_named tracked ac [] = []"
| "fixed_rel_vars is_named tracked ac (Node _ # es) = fixed_rel_vars is_named tracked ac es"
| "fixed_rel_vars is_named tracked ac (Relationship r # es) =
     (if rp_length r = None then
        (case rp_variable r of
          Some rv \<Rightarrow> rv # fixed_rel_vars is_named tracked ac (drop 1 es)
        | None \<Rightarrow>
            if \<not> is_named \<and> tracked then
              (''_anon_rel_'' @ decimal ac) # fixed_rel_vars is_named tracked (Suc ac) (drop 1 es)
            else fixed_rel_vars is_named tracked ac (drop 1 es))
      else fixed_rel_vars is_named tracked ac (drop 1 es))"

definition label_filter :: "string \<Rightarrow> string list \<Rightarrow> LogicalPlan \<Rightarrow> LogicalPlan" where
  "label_filter v labels p = Filter p (HasLabel (Variable v) labels)"

definition prop_eq :: "string \<Rightarrow> string \<times> Expr \<Rightarrow> Expr" where
  "prop_eq v kv = Compare (Property (Variable v) (fst kv)) Eq (snd kv)"

definition prop_filters :: "string \<Rightarrow> (string \<times> Expr) list \<Rightarrow> LogicalPlan \<Rightarrow> LogicalPlan" where
  "prop_filters v props p = foldl (\<lambda>p kv. Filter p (prop_eq v kv)) p props"

text \<open>The plan behind the first node of a pattern, when it is in scope already and when it is new.\<close>

definition bound_first :: "string \<Rightarrow> Expr NodePattern \<Rightarrow> LogicalPlan \<Rightarrow> LogicalPlan" where
  "bound_first v n p =
     prop_filters v (np_properties n) (if np_labels n \<noteq> [] then label_filter v (np_labels n) p else p)"

definition new_first :: "catalog \<Rightarrow> bool \<Rightarrow> string \<Rightarrow> Expr NodePattern \<Rightarrow> LogicalPlan \<Rightarrow> LogicalPlan" where
  "new_first cat opt v n cur =
     (let label = (case np_labels n of l # _ \<Rightarrow> Some l | [] \<Rightarrow> None);
          scan =
            (case (case label of Some lname \<Rightarrow> try_property_index_scan cat v lname (np_properties n) opt | None \<Rightarrow> None) of
              Some scan \<Rightarrow> scan
            | None \<Rightarrow> LabelScan v label (np_properties n) opt None);
          p = (case cur of SingleRow \<Rightarrow> scan | other \<Rightarrow> CrossProduct other scan)
      in foldl (\<lambda>p l. label_filter v [l] p) p (drop 1 (np_labels n)))"

text \<open>The state of the loop over the hops of a pattern.\<close>

record hop_state =
  hop_plan :: LogicalPlan
  hop_kinds :: kinds
  new_node_vars :: "string list"
  new_rel_vars :: "string list"
  element_vars :: "string list"
  anon_rel_counter :: nat
  last_node_var :: string

text \<open>What does not change in the loop.\<close>

record hop_context =
  hop_bound :: "string set"
  hop_optional :: bool
  is_named :: bool
  tracked :: bool
  all_fixed_rel_vars :: "string list"

definition non_node_kinds :: "VarKind option set" where
  "non_node_kinds = {Some KindRel, Some KindPath, Some KindNotNode}"

definition is_prebound_list :: "string set \<Rightarrow> kinds \<Rightarrow> string \<Rightarrow> bool" where
  "is_prebound_list bound ks rv \<longleftrightarrow>
     rv \<in> bound \<and> Mapping.lookup ks rv \<in> {Some KindScalar, Some KindNotNode}"

definition rel_var_name ::
    "hop_context \<Rightarrow> Expr RelPattern \<Rightarrow> hop_state \<Rightarrow> PlanError + string option \<times> nat" where
  "rel_var_name ctx rel st =
     (case rp_variable rel of
       Some rv \<Rightarrow>
         if \<not> (rp_length rel \<noteq> None \<and> is_prebound_list (hop_bound ctx) (hop_kinds st) rv) \<and>
           Mapping.lookup (hop_kinds st) rv \<notin> {None, Some KindRel} then Inl (NotARel rv)
         else if rv \<in> set (new_rel_vars st) then Inl (RelTwice rv)
         else Inr (Some rv, anon_rel_counter st)
     | None \<Rightarrow>
         if is_named ctx then
           Inr (Some (''_pr_'' @ decimal (anon_rel_counter st)), Suc (anon_rel_counter st))
         else if tracked ctx \<and> rp_length rel = None then
           Inr (Some (''_anon_rel_'' @ decimal (anon_rel_counter st)), Suc (anon_rel_counter st))
         else Inr (None, anon_rel_counter st))"

text \<open>The relationship variable becomes an element of a named path and enters the scope.\<close>

definition add_rel_var :: "hop_context \<Rightarrow> Expr RelPattern \<Rightarrow> string \<Rightarrow> hop_state \<Rightarrow> hop_state" where
  "add_rel_var ctx rel rv st =
     (let elem = (if rp_length rel \<noteq> None \<and> rp_variable rel \<noteq> None then ''_path_carry_'' @ rv else rv);
          st = (if is_named ctx then st\<lparr>element_vars := element_vars st @ [elem]\<rparr> else st)
      in if Mapping.lookup (hop_kinds st) rv = None then
           st\<lparr>hop_kinds := Mapping.update rv KindRel (hop_kinds st),
              new_rel_vars :=
                (if rp_variable rel \<noteq> None \<or> starts_with ''_anon_rel_'' rv
                 then new_rel_vars st @ [rv] else new_rel_vars st)\<rparr>
         else st)"

definition add_dst_var :: "hop_context \<Rightarrow> string \<Rightarrow> hop_state \<Rightarrow> hop_state" where
  "add_dst_var ctx v st =
     (let st =
        (if v \<notin> hop_bound ctx \<and> v \<notin> set (new_node_vars st) then
           st\<lparr>new_node_vars := new_node_vars st @ [v],
              hop_kinds := Mapping.update v KindNode (hop_kinds st)\<rparr>
         else st)
      in if is_named ctx then st\<lparr>element_vars := element_vars st @ [v]\<rparr> else st)"

text \<open>
  \<open>all(_r IN rels WHERE _r.key = value AND ...)\<close> for the properties of a variable-length relationship.
\<close>

definition rel_props_filter :: "nat \<Rightarrow> string \<Rightarrow> (string \<times> Expr) list \<Rightarrow> LogicalPlan \<Rightarrow> LogicalPlan" where
  "rel_props_filter i rv props p =
     (let iter_var = ''_r_'' @ decimal i in
      case map (prop_eq iter_var) props of
        [] \<Rightarrow> p
      | c # cs \<Rightarrow> Filter p (ListPredicate All iter_var (Variable rv) (foldl And c cs)))"

definition var_length_plan ::
    "hop_context \<Rightarrow> nat \<Rightarrow> Expr RelPattern \<Rightarrow> VarLength \<Rightarrow> string option \<Rightarrow> string \<Rightarrow> string \<Rightarrow> kinds \<Rightarrow>
     LogicalPlan \<Rightarrow> LogicalPlan" where
  "var_length_plan ctx i rel vl rel_var src_var dst_var ks p =
     (let prebound_list_var =
        (case rp_variable rel of
          Some rv \<Rightarrow> if is_prebound_list (hop_bound ctx) ks rv then Some rv else None
        | None \<Rightarrow> None)
      in case prebound_list_var of
        Some list_var \<Rightarrow> BoundRelListExpand p src_var list_var dst_var (direction rel)
      | None \<Rightarrow>
          (let path_carry =
             (if is_named ctx then
                (if rp_variable rel \<noteq> None
                 then Some (''_path_carry_'' @ (case rel_var of Some rv \<Rightarrow> rv | None \<Rightarrow> ''_''))
                 else rel_var)
              else None);
               synth_rel_var =
             (if rp_properties rel \<noteq> [] \<and> rp_variable rel = None \<and> \<not> is_named ctx
              then Some (''_anon_vrel_'' @ decimal i) else None);
               effective_rel_var =
             (if is_named ctx then rp_variable rel
              else case rp_variable rel of Some rv \<Rightarrow> Some rv | None \<Rightarrow> synth_rel_var);
               p = VarLengthExpand p src_var effective_rel_var dst_var (rel_types rel) (direction rel)
                     (vl_min vl) (vl_max vl) (hop_optional ctx) path_carry (all_fixed_rel_vars ctx)
           in case effective_rel_var of
                Some rv \<Rightarrow> rel_props_filter i rv (rp_properties rel) p
              | None \<Rightarrow> p))"

text \<open>
  A relationship and the node behind it, at the position \<open>i\<close> of the pattern: the relationship enters the
  scope, the node gets its name and enters the scope, and an expand is put on the plan. A
  variable-length expand does not look at the labels and properties of the node: filters do.
\<close>

definition enter_rel ::
    "hop_context \<Rightarrow> Expr RelPattern \<Rightarrow> string option \<Rightarrow> nat \<Rightarrow> hop_state \<Rightarrow> hop_state" where
  "enter_rel ctx rel rel_var counter st =
     (let st = st\<lparr>anon_rel_counter := counter\<rparr>
      in case rel_var of Some rv \<Rightarrow> add_rel_var ctx rel rv st | None \<Rightarrow> st)"

definition dst_name :: "hop_context \<Rightarrow> nat \<Rightarrow> Expr NodePattern \<Rightarrow> hop_state \<Rightarrow> string" where
  "dst_name ctx i n st =
     (case np_variable n of
       Some v \<Rightarrow> v
     | None \<Rightarrow> fresh_name (hop_bound ctx \<union> set (new_node_vars st)) (''_anon_n'' @ decimal (i + 1)))"

definition hop_operator ::
    "hop_context \<Rightarrow> nat \<Rightarrow> Expr RelPattern \<Rightarrow> Expr NodePattern \<Rightarrow> string option \<Rightarrow> string \<Rightarrow> string \<Rightarrow> kinds \<Rightarrow>
     LogicalPlan \<Rightarrow> LogicalPlan" where
  "hop_operator ctx i rel n rel_var src_var dst_var ks p =
     (case rp_length rel of
       Some vl \<Rightarrow>
         prop_filters dst_var (np_properties n)
           (foldl (\<lambda>p l. label_filter dst_var [l] p)
             (var_length_plan ctx i rel vl rel_var src_var dst_var ks p) (np_labels n))
     | None \<Rightarrow>
         Expand p src_var rel_var dst_var (rel_types rel) (direction rel) (rp_properties rel) (np_labels n)
           (np_properties n) (hop_optional ctx) None)"

definition plan_hop ::
    "hop_context \<Rightarrow> nat \<Rightarrow> Expr RelPattern \<Rightarrow> Expr NodePattern \<Rightarrow> hop_state \<Rightarrow> PlanError + hop_state" where
  "plan_hop ctx i rel n st =
     bindE (rel_var_name ctx rel st) (\<lambda>(rel_var, counter).
     let st1 = enter_rel ctx rel rel_var counter st;
         dst_var = dst_name ctx i n st1
     in if np_variable n \<noteq> None \<and> Mapping.lookup (hop_kinds st1) dst_var \<in> non_node_kinds then
          Inl (NotANode dst_var)
        else
          let st2 = add_dst_var ctx dst_var st1
          in Inr (st2\<lparr>hop_plan :=
                       hop_operator ctx i rel n rel_var (last_node_var st) dst_var (hop_kinds st2) (hop_plan st2),
                     last_node_var := dst_var\<rparr>))"

fun plan_hops ::
    "hop_context \<Rightarrow> nat \<Rightarrow> Expr PatternElement list \<Rightarrow> hop_state \<Rightarrow> PlanError + hop_state" where
  "plan_hops ctx i [] st = Inr st"
| "plan_hops ctx i (Node _ # es) st = plan_hops ctx (i + 1) es st"
| "plan_hops ctx i (Relationship rel # Node next_node # es) st =
     bindE (plan_hop ctx i rel next_node st) (\<lambda>st. plan_hops ctx (i + 2) es st)"
| "plan_hops ctx i (Relationship rel # es) st = Inl RelWithoutNode"

text \<open>The result is the new plan, the kinds, and the node and relationship variables introduced.\<close>

definition plan_pattern_onto ::
    "catalog \<Rightarrow> Expr Pattern \<Rightarrow> LogicalPlan \<Rightarrow> string set \<Rightarrow> kinds \<Rightarrow> bool \<Rightarrow>
     PlanError + LogicalPlan \<times> kinds \<times> string list \<times> string list" where
  "plan_pattern_onto cat pattern cur bound ks opt =
     (case elements pattern of
       Node first_node # rest \<Rightarrow>
         (let fixed_hop_count = length (filter is_fixed_rel (elements pattern));
              has_varlen = list_ex is_varlen_rel (elements pattern);
              tracked = (1 < fixed_hop_count \<or> has_varlen);
              named = (p_variable pattern \<noteq> None);
              first_var =
                (case np_variable first_node of Some v \<Rightarrow> v | None \<Rightarrow> fresh_name bound ''_anon_n0'');
              first_is_bound = (np_variable first_node \<noteq> None \<and> first_var \<in> bound)
          in if np_variable first_node \<noteq> None \<and> Mapping.lookup ks first_var \<in> non_node_kinds then
               Inl (NotANode first_var)
             else
               let st =
                     \<lparr>hop_plan =
                        (if first_is_bound then bound_first first_var first_node cur
                         else new_first cat opt first_var first_node cur),
                      hop_kinds = (if first_is_bound then ks else Mapping.update first_var KindNode ks),
                      new_node_vars = (if first_is_bound then [] else [first_var]),
                      new_rel_vars = [],
                      element_vars = (if named then [first_var] else []),
                      anon_rel_counter = 0,
                      last_node_var = first_var\<rparr>;
                   ctx =
                     \<lparr>hop_bound = bound, hop_optional = opt, is_named = named, tracked = tracked,
                      all_fixed_rel_vars = fixed_rel_vars named tracked 0 rest\<rparr>
               in bindE (plan_hops ctx 1 rest st) (\<lambda>st.
                  Inr ((case p_variable pattern of
                         Some path_name \<Rightarrow> NamedPath (hop_plan st) path_name (element_vars st)
                       | None \<Rightarrow> hop_plan st),
                       hop_kinds st, new_node_vars st, new_rel_vars st)))
     | _ \<Rightarrow> Inl PatternWithoutNode)"

section \<open>The clause\<close>

definition push_new :: "string list \<Rightarrow> string list \<Rightarrow> string list" where
  "push_new xs vs = foldl (\<lambda>xs v. if v \<in> set xs then xs else xs @ [v]) xs vs"

text \<open>The variables one pattern of an \<open>OPTIONAL MATCH\<close> adds, and the inner plan behind it.\<close>

definition optional_pattern ::
    "catalog \<Rightarrow> scope \<times> string list \<Rightarrow> Expr Pattern \<Rightarrow> PlanError + scope \<times> string list" where
  "optional_pattern cat = (\<lambda>(inner, null_vars) pattern.
     bindE (plan_pattern_onto cat pattern (current inner) (bound_vars inner) (var_kinds inner) False)
       (\<lambda>(new_plan, ks, nodes, rels).
     let path = (case p_variable pattern of Some pvar \<Rightarrow> [pvar] | None \<Rightarrow> [])
     in Inr (\<lparr>current = new_plan,
              bound_vars = bound_vars inner \<union> set (nodes @ rels @ path),
              var_kinds = foldl (\<lambda>ks v. Mapping.update v KindPath ks) ks path\<rparr>,
             push_new null_vars (nodes @ rels @ path))))"

definition plan_optional_match_left_join ::
    "catalog \<Rightarrow> scope \<Rightarrow> Expr Pattern list \<Rightarrow> Expr option \<Rightarrow> PlanError + scope" where
  "plan_optional_match_left_join cat sc patterns where_clause =
     bindE (foldE (optional_pattern cat) (sc\<lparr>current := SingleRow\<rparr>, []) patterns) (\<lambda>(inner, null_vars).
     let inner_plan = (case where_clause of Some wh \<Rightarrow> Filter (current inner) wh | None \<Rightarrow> current inner)
     in Inr \<lparr>current = LeftJoin (current sc) inner_plan null_vars,
             bound_vars = bound_vars sc \<union> set null_vars,
             var_kinds =
               foldl (\<lambda>ks v.
                 case Mapping.lookup (var_kinds inner) v of
                   Some k \<Rightarrow> Mapping.update v k ks
                 | None \<Rightarrow> ks) (var_kinds sc) null_vars\<rparr>)"

fun varlength_dst_constrained :: "'e PatternElement list \<Rightarrow> bool" where
  "varlength_dst_constrained (Relationship r # Node n # es) =
     (rp_length r \<noteq> None \<and> (np_labels n \<noteq> [] \<or> np_properties n \<noteq> []) \<or> varlength_dst_constrained es)"
| "varlength_dst_constrained (_ # _ # es) = varlength_dst_constrained es"
| "varlength_dst_constrained _ = False"

definition needs_left_join :: "string set \<Rightarrow> Expr Pattern list \<Rightarrow> Expr option \<Rightarrow> bool" where
  "needs_left_join bound patterns where_clause \<longleftrightarrow>
     where_clause \<noteq> None
     \<or> 1 < sum_list (map (\<lambda>pat. length (filter is_relationship (elements pat))) patterns)
     \<or> list_ex (\<lambda>pat. varlength_dst_constrained (drop 1 (elements pat))) patterns
     \<or> list_ex (\<lambda>pat.
         case elements pat of
           Node n # _ \<Rightarrow> (case np_variable n of None \<Rightarrow> True | Some v \<Rightarrow> v \<notin> bound)
         | _ \<Rightarrow> False) patterns"

definition check_path_variable :: "scope \<Rightarrow> Expr Pattern \<Rightarrow> PlanError + unit" where
  "check_path_variable sc pattern =
     (case p_variable pattern of
       None \<Rightarrow> Inr ()
     | Some pvar \<Rightarrow>
         bindE
           (require (Mapping.lookup (var_kinds sc) pvar = None \<and> pvar \<notin> bound_vars sc) (PathAlreadyBound pvar))
           (\<lambda>_. eachE (\<lambda>elem. require (elem_var elem \<noteq> Some pvar) (PathConflict pvar)) (elements pattern)))"

definition match_pattern ::
    "catalog \<Rightarrow> bool \<Rightarrow> scope \<times> string list \<Rightarrow> Expr Pattern \<Rightarrow> PlanError + scope \<times> string list" where
  "match_pattern cat opt = (\<lambda>(sc, rel_vars) pattern.
     bindE (check_path_variable sc pattern) (\<lambda>_.
     bindE (plan_pattern_onto cat pattern (current sc) (bound_vars sc) (var_kinds sc) opt)
       (\<lambda>(new_plan, ks, nodes, rels).
     let path = (case p_variable pattern of Some pvar \<Rightarrow> [pvar] | None \<Rightarrow> [])
     in Inr (\<lparr>current = new_plan,
              bound_vars = bound_vars sc \<union> set (nodes @ rels @ path),
              var_kinds = foldl (\<lambda>ks v. Mapping.update v KindPath ks) ks path\<rparr>,
             push_new rel_vars rels))))"

definition check_where :: "scope \<Rightarrow> Expr \<Rightarrow> PlanError + unit" where
  "check_where sc wc =
     bindE (validate_inline_patterns_in_expr wc (bound_vars sc)) (\<lambda>_.
     bindE (check_expr_vars wc (bound_vars sc)) (\<lambda>_.
     bindE (require (\<not> contains_aggregation wc) AggregationInWhere) (\<lambda>_.
     bindE (check_path_property_access wc (Mapping.lookup (var_kinds sc))) (\<lambda>_.
     check_where_is_boolean wc (Mapping.lookup (var_kinds sc))))))"

text \<open>The relationship variables that stand for one edge.\<close>

definition single_edge_vars :: "Expr Pattern list \<Rightarrow> string list \<Rightarrow> string list" where
  "single_edge_vars patterns rel_vars =
     filter (\<lambda>rv. list_ex (\<lambda>pat. list_ex (\<lambda>e.
       is_fixed_rel e \<and> (elem_var e = Some rv \<or> starts_with ''_anon_rel_'' rv)) (elements pat)) patterns) rel_vars"

text \<open>The plan and the rest of the \<open>WHERE\<close> after the pushdown.\<close>

definition conjoin :: "Expr option \<Rightarrow> Expr \<Rightarrow> Expr option" where
  "conjoin r e = (case r of Some r \<Rightarrow> Some (And r e) | None \<Rightarrow> Some e)"

definition push_where :: "catalog \<Rightarrow> LogicalPlan \<Rightarrow> Expr \<Rightarrow> LogicalPlan \<times> Expr option" where
  "push_where cat p wc =
     (let (equalities, remaining) = extract_pushdown_equalities wc
      in if equalities = [] then (p, Some wc)
         else
           let (new_plan, used) = apply_where_pushdown cat p equalities
           in (new_plan,
               (if used = [] then Some wc
                else foldl (\<lambda>rebuilt (i, var, prop, val).
                       if i \<in> set used then rebuilt else conjoin rebuilt (prop_eq var (prop, val)))
                     remaining (enumerate 0 equalities))))"

text \<open>The guard against repeated relationships and the rest of the \<open>WHERE\<close>, in one filter.\<close>

definition match_filter ::
    "catalog \<Rightarrow> Expr Pattern list \<Rightarrow> Expr option \<Rightarrow> string list \<Rightarrow> LogicalPlan \<Rightarrow> LogicalPlan" where
  "match_filter cat patterns where_clause rel_vars p =
     (let rel_iso_filter = build_rel_isomorphism_filter (single_edge_vars patterns rel_vars);
          (p, effective_where) =
            (case where_clause of Some wc \<Rightarrow> push_where cat p wc | None \<Rightarrow> (p, None));
          combined =
            (case (rel_iso_filter, effective_where) of
              (Some rel_iso, Some wh) \<Rightarrow> Some (And rel_iso wh)
            | (Some rel_iso, None) \<Rightarrow> Some rel_iso
            | (None, wh) \<Rightarrow> wh)
      in case combined of Some predicate \<Rightarrow> Filter p predicate | None \<Rightarrow> p)"

definition plan_match_clause ::
    "catalog \<Rightarrow> scope \<Rightarrow> Expr Pattern list \<Rightarrow> Expr option \<Rightarrow> bool \<Rightarrow> PlanError + scope" where
  "plan_match_clause cat sc patterns where_clause opt =
     (if opt \<and> needs_left_join (bound_vars sc) patterns where_clause then
        plan_optional_match_left_join cat sc patterns where_clause
      else
        bindE (foldE (match_pattern cat opt) (sc, []) patterns) (\<lambda>(sc, rel_vars).
        bindE (case where_clause of Some wc \<Rightarrow> check_where sc wc | None \<Rightarrow> Inr ()) (\<lambda>_.
        Inr (sc\<lparr>current := match_filter cat patterns where_clause rel_vars (current sc)\<rparr>))))"

end
