(* ===== verification/CypherOptimize.thy ===== *)
theory CypherOptimize
  imports CypherMatch
begin

text \<open>
  The passes of \<open>cypher/planner.rs\<close> over whole plans: which properties a plan needs, the annotation of
  scans with them, the order of joins, and the text of \<open>EXPLAIN\<close>.
\<close>

section \<open>Needed properties\<close>

text \<open>A variable without an entry is not referenced; \<open>Some None\<close> stands for all properties.\<close>

type_synonym needed = "string \<rightharpoonup> string set option"

definition mark_all :: "needed \<Rightarrow> string \<Rightarrow> needed" where
  "mark_all m var = m(var \<mapsto> None)"

definition mark_prop :: "needed \<Rightarrow> string \<Rightarrow> string \<Rightarrow> needed" where
  "mark_prop m var key =
     (case m var of
       Some None \<Rightarrow> m
     | Some (Some keys) \<Rightarrow> m(var \<mapsto> Some (insert key keys))
     | None \<Rightarrow> m(var \<mapsto> Some {key}))"

function scan_expr :: "needed \<Rightarrow> Expr \<Rightarrow> needed" where
  "scan_expr m e =
    (case e of
      Property base key \<Rightarrow> (case base of Variable var \<Rightarrow> mark_prop m var key | _ \<Rightarrow> scan_expr m base)
    | Variable var \<Rightarrow> mark_all m var
    | FunctionCall fname args \<Rightarrow>
        (let m =
           (if to_lowercase fname \<in> {''properties'', ''keys''} then
              (case args of Variable var # _ \<Rightarrow> mark_all m var | _ \<Rightarrow> m)
            else m)
         in foldl scan_expr m args)
    | Compare l _ r \<Rightarrow> scan_expr (scan_expr m l) r
    | And l r \<Rightarrow> scan_expr (scan_expr m l) r
    | Or l r \<Rightarrow> scan_expr (scan_expr m l) r
    | Xor l r \<Rightarrow> scan_expr (scan_expr m l) r
    | Arith l _ r \<Rightarrow> scan_expr (scan_expr m l) r
    | InList l r \<Rightarrow> scan_expr (scan_expr m l) r
    | StartsWith l r \<Rightarrow> scan_expr (scan_expr m l) r
    | EndsWith l r \<Rightarrow> scan_expr (scan_expr m l) r
    | Contains l r \<Rightarrow> scan_expr (scan_expr m l) r
    | Regex l r \<Rightarrow> scan_expr (scan_expr m l) r
    | Not a \<Rightarrow> scan_expr m a
    | IsNull a \<Rightarrow> scan_expr m a
    | IsNotNull a \<Rightarrow> scan_expr m a
    | Neg a \<Rightarrow> scan_expr m a
    | CaseSearched branches else_ \<Rightarrow>
        (let m = foldl (\<lambda>m b. scan_expr (scan_expr m (fst b)) (snd b)) m branches
         in case else_ of Some x \<Rightarrow> scan_expr m x | None \<Rightarrow> m)
    | CaseSimple test branches else_ \<Rightarrow>
        (let m = scan_expr m test;
             m = foldl (\<lambda>m b. scan_expr (scan_expr m (fst b)) (snd b)) m branches
         in case else_ of Some x \<Rightarrow> scan_expr m x | None \<Rightarrow> m)
    | ListComprehension _ list_expr predicate projection \<Rightarrow>
        (let m = scan_expr m list_expr;
             m = (case predicate of Some x \<Rightarrow> scan_expr m x | None \<Rightarrow> m)
         in case projection of Some x \<Rightarrow> scan_expr m x | None \<Rightarrow> m)
    | ListPredicate _ _ list_expr predicate \<Rightarrow> scan_expr (scan_expr m list_expr) predicate
    | Subscript l r \<Rightarrow> scan_expr (scan_expr m l) r
    | ListSlice list_expr from to \<Rightarrow>
        (let m = scan_expr m list_expr;
             m = (case from of Some x \<Rightarrow> scan_expr m x | None \<Rightarrow> m)
         in case to of Some x \<Rightarrow> scan_expr m x | None \<Rightarrow> m)
    | List items \<Rightarrow> foldl scan_expr m items
    | MapLiteral pairs \<Rightarrow> foldl (\<lambda>m kv. scan_expr m (snd kv)) m pairs
    | PatternComprehension _ _ predicate projection \<Rightarrow>
        (let m = (case predicate of Some x \<Rightarrow> scan_expr m x | None \<Rightarrow> m)
         in scan_expr m projection)
    | HasLabel base _ \<Rightarrow> scan_expr m base
    | _ \<Rightarrow> m)"
  by pat_completeness auto
termination
  by (relation "measure (\<lambda>(_, e). size e)") (auto simp: expr_parts less_Suc_eq_le trans_le_add1 trans_le_add2)

declare scan_expr.simps [simp del]

definition scan_exprs :: "needed \<Rightarrow> Expr list \<Rightarrow> needed" where
  "scan_exprs m es = foldl scan_expr m es"

definition opt_list :: "'a option \<Rightarrow> 'a list" where
  "opt_list x = (case x of Some a \<Rightarrow> [a] | None \<Rightarrow> [])"

fun scan_plan :: "needed \<Rightarrow> LogicalPlan \<Rightarrow> needed" where
  "scan_plan m (Project inp items _ order_by skip limit) =
     scan_plan
       (scan_exprs m (map ri_expr items @ map oi_expr order_by @ opt_list skip @ opt_list limit)) inp"
| "scan_plan m (Filter inp predicate) = scan_plan (scan_expr m predicate) inp"
| "scan_plan m (Expand inp _ _ _ _ _ rel_props _ dst_props _ _) =
     scan_plan (scan_exprs m (map snd rel_props @ map snd dst_props)) inp"
| "scan_plan m (CrossProduct left right) = scan_plan (scan_plan m left) right"
| "scan_plan m (Union left right _) = scan_plan (scan_plan m left) right"
| "scan_plan m (Apply outer inner) = scan_plan (scan_plan m outer) inner"
| "scan_plan m (LeftJoin outer inner _) = scan_plan (scan_plan m outer) inner"
| "scan_plan m (Unwind inp e _) = scan_plan (scan_expr m e) inp"
| "scan_plan m (VarLengthExpand inp _ _ _ _ _ _ _ _ _ _) = scan_plan m inp"
| "scan_plan m (BoundRelListExpand inp _ _ _ _) = scan_plan m inp"
| "scan_plan m (CallProcedure inp _ _ _ _) = scan_plan m inp"
| "scan_plan m (CreatePattern inp _) = scan_plan m inp"
| "scan_plan m (SetProp inp _) = scan_plan m inp"
| "scan_plan m (RemoveProp inp _) = scan_plan m inp"
| "scan_plan m (DeleteNodes inp _ _) = scan_plan m inp"
| "scan_plan m (MergePattern inp _ _ _) = scan_plan m inp"
| "scan_plan m (Foreach inp _ _ _) = scan_plan m inp"
| "scan_plan m (NamedPath inp _ elems) = scan_plan (foldl mark_all m elems) inp"
| "scan_plan m _ = m"

definition collect_needed_properties :: "LogicalPlan \<Rightarrow> needed" where
  "collect_needed_properties p = scan_plan Map.empty p"

text \<open>What a scan of a variable with filters on its own properties must decode.\<close>

definition needed_of :: "needed \<Rightarrow> string \<Rightarrow> (string \<times> Expr) list \<Rightarrow> string set option" where
  "needed_of needed var props =
     (case needed var of
       Some None \<Rightarrow> None
     | Some (Some keys) \<Rightarrow> Some (keys \<union> set (map fst props))
     | None \<Rightarrow> if props = [] then Some {} else Some (set (map fst props)))"

fun annotate_plan :: "needed \<Rightarrow> LogicalPlan \<Rightarrow> LogicalPlan" where
  "annotate_plan needed (LabelScan v label inline_props opt _) =
     LabelScan v label inline_props opt (needed_of needed v inline_props)"
| "annotate_plan needed (Expand inp src_var rel_var dst_var types dir rel_props dst_labels dst_props opt _) =
     Expand (annotate_plan needed inp) src_var rel_var dst_var types dir rel_props dst_labels dst_props opt
       (needed_of needed dst_var dst_props)"
| "annotate_plan needed (Filter inp predicate) = Filter (annotate_plan needed inp) predicate"
| "annotate_plan needed (Project inp items dist order_by skip limit) =
     Project (annotate_plan needed inp) items dist order_by skip limit"
| "annotate_plan needed (CrossProduct left right) =
     CrossProduct (annotate_plan needed left) (annotate_plan needed right)"
| "annotate_plan needed (Union left right all) =
     Union (annotate_plan needed left) (annotate_plan needed right) all"
| "annotate_plan needed (Apply outer inner) = Apply (annotate_plan needed outer) (annotate_plan needed inner)"
| "annotate_plan needed (LeftJoin outer inner null_vars) =
     LeftJoin (annotate_plan needed outer) (annotate_plan needed inner) null_vars"
| "annotate_plan needed (Unwind inp e alias) = Unwind (annotate_plan needed inp) e alias"
| "annotate_plan needed (VarLengthExpand inp src_var rel_var dst_var types dir lo hi opt carry excluded) =
     VarLengthExpand (annotate_plan needed inp) src_var rel_var dst_var types dir lo hi opt carry excluded"
| "annotate_plan needed (NamedPath inp path_var elems) = NamedPath (annotate_plan needed inp) path_var elems"
| "annotate_plan needed other = other"

definition annotate_needed_properties :: "LogicalPlan \<Rightarrow> LogicalPlan" where
  "annotate_needed_properties p = annotate_plan (collect_needed_properties p) p"

section \<open>Join order\<close>

text \<open>Estimates are \<open>i64\<close>; products and sums saturate.\<close>

definition i64_saturated :: "int \<Rightarrow> int" where
  "i64_saturated n = max (- (2 ^ 63)) (min (2 ^ 63 - 1) n)"

fun estimate_plan_rows :: "catalog \<Rightarrow> LogicalPlan \<Rightarrow> int" where
  "estimate_plan_rows cat (LabelScan _ label _ _ _) =
     (case label of
       Some l \<Rightarrow> max (count_label_nodes cat l) 1
     | None \<Rightarrow> max (estimate_total_nodes cat) 1)"
| "estimate_plan_rows cat (PropertyIndexScan _ _ label_id _ key_id _ _ _) =
     max (count_index_entries cat label_id key_id) 1"
| "estimate_plan_rows cat (Expand inp _ _ _ _ _ _ _ _ _ _) = max (estimate_plan_rows cat inp) 1"
| "estimate_plan_rows cat (Filter inp _) = max (estimate_plan_rows cat inp div 10) 1"
| "estimate_plan_rows cat (CrossProduct left right) =
     i64_saturated (estimate_plan_rows cat left * estimate_plan_rows cat right)"
| "estimate_plan_rows cat (Project inp _ _ _ _ _) = estimate_plan_rows cat inp"
| "estimate_plan_rows cat (Unwind inp _ _) = estimate_plan_rows cat inp"
| "estimate_plan_rows cat (SetProp inp _) = estimate_plan_rows cat inp"
| "estimate_plan_rows cat (RemoveProp inp _) = estimate_plan_rows cat inp"
| "estimate_plan_rows cat (DeleteNodes inp _ _) = estimate_plan_rows cat inp"
| "estimate_plan_rows cat (MergePattern inp _ _ _) = estimate_plan_rows cat inp"
| "estimate_plan_rows cat (CreatePattern inp _) = estimate_plan_rows cat inp"
| "estimate_plan_rows cat (Foreach inp _ _ _) = estimate_plan_rows cat inp"
| "estimate_plan_rows cat (NamedPath inp _ _) = estimate_plan_rows cat inp"
| "estimate_plan_rows cat (CallProcedure inp _ _ _ _) = estimate_plan_rows cat inp"
| "estimate_plan_rows cat (Apply outer _) = estimate_plan_rows cat outer"
| "estimate_plan_rows cat (LeftJoin outer _ _) = estimate_plan_rows cat outer"
| "estimate_plan_rows cat SingleRow = 1"
| "estimate_plan_rows cat (Union left right _) =
     i64_saturated (estimate_plan_rows cat left + estimate_plan_rows cat right)"
| "estimate_plan_rows cat _ = 100"

definition smaller_first :: "catalog \<Rightarrow> LogicalPlan \<Rightarrow> LogicalPlan \<Rightarrow> LogicalPlan" where
  "smaller_first cat left right =
     (if estimate_plan_rows cat right < estimate_plan_rows cat left then CrossProduct right left
      else CrossProduct left right)"

fun reverse_direction :: "RelDirection \<Rightarrow> RelDirection" where
  "reverse_direction Out = In"
| "reverse_direction In = Out"
| "reverse_direction Both = Both"

text \<open>
  The expand of a plain scan whose target label is less than half as frequent as the label scanned
  starts from the target instead. \<open>None\<close> when the expand stays as it is.
\<close>

definition reversed_expand ::
    "catalog \<Rightarrow> LogicalPlan \<Rightarrow> string \<Rightarrow> string option \<Rightarrow> string \<Rightarrow> string list \<Rightarrow> RelDirection \<Rightarrow>
     (string \<times> Expr) list \<Rightarrow> string list \<Rightarrow> (string \<times> Expr) list \<Rightarrow> bool \<Rightarrow> LogicalPlan option" where
  "reversed_expand cat inp src_var rel_var dst_var types dir rel_props dst_labels dst_props opt =
     (case inp of
       LabelScan v src_label [] False _ \<Rightarrow>
         (case dst_labels of
           [dst_label] \<Rightarrow>
             if \<not> opt \<and> dir \<in> {Out, In} \<and> v = src_var \<and>
               count_label_nodes cat dst_label * 2 <
                 (case src_label of Some l \<Rightarrow> count_label_nodes cat l | None \<Rightarrow> estimate_total_nodes cat)
             then
               let new_scan =
                 (case (if dst_props \<noteq> [] then try_property_index_scan cat dst_var dst_label dst_props False else None) of
                   Some scan \<Rightarrow> scan
                 | None \<Rightarrow> LabelScan dst_var (Some dst_label) dst_props False None)
               in Some (Expand new_scan dst_var rel_var src_var types (reverse_direction dir) rel_props
                    (opt_list src_label) [] opt None)
             else None
         | _ \<Rightarrow> None)
     | _ \<Rightarrow> None)"

text \<open>A chain of \<open>CREATE\<close> clauses is taken apart in a loop and built up again.\<close>

fun create_chain :: "LogicalPlan \<Rightarrow> Expr Pattern list list \<Rightarrow> LogicalPlan \<times> Expr Pattern list list" where
  "create_chain (CreatePattern inner pats) chain = create_chain inner (chain @ [pats])"
| "create_chain cur chain = (cur, chain)"

lemma create_chain_size [simp]: "size (fst (create_chain p chain)) \<le> size p"
  by (induction p chain rule: create_chain.induct) auto

function optimize_join_order_inner :: "catalog \<Rightarrow> LogicalPlan \<Rightarrow> LogicalPlan" where
  "optimize_join_order_inner cat p =
    (case p of
      CrossProduct left right \<Rightarrow>
        smaller_first cat (optimize_join_order_inner cat left) (optimize_join_order_inner cat right)
    | Expand inp src_var rel_var dst_var types dir rel_props dst_labels dst_props opt needed \<Rightarrow>
        (let inp = optimize_join_order_inner cat inp in
         case reversed_expand cat inp src_var rel_var dst_var types dir rel_props dst_labels dst_props opt of
           Some q \<Rightarrow> q
         | None \<Rightarrow> Expand inp src_var rel_var dst_var types dir rel_props dst_labels dst_props opt needed)
    | Filter inp predicate \<Rightarrow> Filter (optimize_join_order_inner cat inp) predicate
    | Project inp items dist order_by skip limit \<Rightarrow>
        Project (optimize_join_order_inner cat inp) items dist order_by skip limit
    | Unwind inp e alias \<Rightarrow> Unwind (optimize_join_order_inner cat inp) e alias
    | Apply outer inner \<Rightarrow> Apply (optimize_join_order_inner cat outer) (optimize_join_order_inner cat inner)
    | LeftJoin outer inner null_vars \<Rightarrow>
        LeftJoin (optimize_join_order_inner cat outer) (optimize_join_order_inner cat inner) null_vars
    | NamedPath inp path_var elems \<Rightarrow> NamedPath (optimize_join_order_inner cat inp) path_var elems
    | Union left right all \<Rightarrow>
        Union (optimize_join_order_inner cat left) (optimize_join_order_inner cat right) all
    | CreatePattern inp patterns \<Rightarrow>
        (let (cur, chain) = create_chain inp [patterns]
         in foldl CreatePattern (optimize_join_order_inner cat cur) (rev chain))
    | SetProp inp items \<Rightarrow> SetProp (optimize_join_order_inner cat inp) items
    | RemoveProp inp items \<Rightarrow> RemoveProp (optimize_join_order_inner cat inp) items
    | DeleteNodes inp es detach \<Rightarrow> DeleteNodes (optimize_join_order_inner cat inp) es detach
    | MergePattern inp pattern on_create on_match \<Rightarrow>
        MergePattern (optimize_join_order_inner cat inp) pattern on_create on_match
    | Foreach inp variable list_expr body \<Rightarrow>
        Foreach (optimize_join_order_inner cat inp) variable list_expr (optimize_join_order_inner cat body)
    | CallProcedure inp proc_name args yield_items implicit \<Rightarrow>
        CallProcedure (optimize_join_order_inner cat inp) proc_name args yield_items implicit
    | VarLengthExpand inp src_var rel_var dst_var types dir lo hi opt carry excluded \<Rightarrow>
        VarLengthExpand (optimize_join_order_inner cat inp) src_var rel_var dst_var types dir lo hi opt carry
          excluded
    | BoundRelListExpand inp src_var list_var dst_var dir \<Rightarrow>
        BoundRelListExpand (optimize_join_order_inner cat inp) src_var list_var dst_var dir
    | other \<Rightarrow> other)"
  by pat_completeness auto
termination
  by (relation "measure (\<lambda>(_, p). size p)")
    (auto simp: less_Suc_eq_le, metis create_chain_size fst_conv)

declare optimize_join_order_inner.simps [simp del]

text \<open>The loop over a chain of \<open>CREATE\<close> does what the recursion would do.\<close>

lemma optimize_chain:
  "create_chain p chain = (cur, chain') \<Longrightarrow>
   foldl CreatePattern (optimize_join_order_inner cat cur) (rev chain') =
   foldl CreatePattern (optimize_join_order_inner cat p) (rev chain)"
proof (induction p arbitrary: chain cur chain' rule: measure_induct_rule [of size])
  case (less p)
  show ?case
  proof (cases p)
    case (CreatePattern inner pats)
    obtain cur2 chain2 where c: "create_chain inner [pats] = (cur2, chain2)"
      by force
    have "optimize_join_order_inner cat p = CreatePattern (optimize_join_order_inner cat inner) pats"
      unfolding CreatePattern by (subst optimize_join_order_inner.simps) (use less.IH [OF _ c] CreatePattern c in simp)
    then show ?thesis
      using less.IH [of inner "chain @ [pats]" cur chain'] less.prems CreatePattern by simp
  qed (use less.prems in auto)
qed

lemma optimize_create:
  "optimize_join_order_inner cat (CreatePattern inp pats) = CreatePattern (optimize_join_order_inner cat inp) pats"
  using optimize_chain [of inp "[pats]"] by (subst optimize_join_order_inner.simps) (simp split: prod.split)

lemma optimize_structural:
  "optimize_join_order_inner cat SingleRow = SingleRow"
  "optimize_join_order_inner cat (LabelScan v l props o1 needed) = LabelScan v l props o1 needed"
  "optimize_join_order_inner cat (PropertyIndexScan v lb li pr ki e rest o1) = PropertyIndexScan v lb li pr ki e rest o1"
  "optimize_join_order_inner cat (CrossProduct left right) =
     smaller_first cat (optimize_join_order_inner cat left) (optimize_join_order_inner cat right)"
  "optimize_join_order_inner cat (Filter inp predicate) = Filter (optimize_join_order_inner cat inp) predicate"
  "optimize_join_order_inner cat (Project inp items dist order_by skip limit) =
     Project (optimize_join_order_inner cat inp) items dist order_by skip limit"
  "optimize_join_order_inner cat (Unwind inp e alias) = Unwind (optimize_join_order_inner cat inp) e alias"
  "optimize_join_order_inner cat (Apply outer inner) =
     Apply (optimize_join_order_inner cat outer) (optimize_join_order_inner cat inner)"
  "optimize_join_order_inner cat (LeftJoin outer inner null_vars) =
     LeftJoin (optimize_join_order_inner cat outer) (optimize_join_order_inner cat inner) null_vars"
  "optimize_join_order_inner cat (NamedPath inp path_var elems) =
     NamedPath (optimize_join_order_inner cat inp) path_var elems"
  "optimize_join_order_inner cat (Union left right every) =
     Union (optimize_join_order_inner cat left) (optimize_join_order_inner cat right) every"
  "optimize_join_order_inner cat (SetProp inp sets) = SetProp (optimize_join_order_inner cat inp) sets"
  "optimize_join_order_inner cat (RemoveProp inp removes) = RemoveProp (optimize_join_order_inner cat inp) removes"
  "optimize_join_order_inner cat (DeleteNodes inp es detach) =
     DeleteNodes (optimize_join_order_inner cat inp) es detach"
  "optimize_join_order_inner cat (MergePattern inp pattern on_create on_match) =
     MergePattern (optimize_join_order_inner cat inp) pattern on_create on_match"
  "optimize_join_order_inner cat (Foreach inp variable list_expr body) =
     Foreach (optimize_join_order_inner cat inp) variable list_expr (optimize_join_order_inner cat body)"
  "optimize_join_order_inner cat (CallProcedure inp proc_name args yield_items implicit) =
     CallProcedure (optimize_join_order_inner cat inp) proc_name args yield_items implicit"
  "optimize_join_order_inner cat (VarLengthExpand inp src_var rel_var dst_var types dir lo hi o1 carry excluded) =
     VarLengthExpand (optimize_join_order_inner cat inp) src_var rel_var dst_var types dir lo hi o1 carry excluded"
  "optimize_join_order_inner cat (BoundRelListExpand inp src_var list_var dst_var dir) =
     BoundRelListExpand (optimize_join_order_inner cat inp) src_var list_var dst_var dir"
  "optimize_join_order_inner cat Empty = Empty"
  "optimize_join_order_inner cat (CreateIndex label prop) = CreateIndex label prop"
  "optimize_join_order_inner cat (DropIndex label prop) = DropIndex label prop"
  "optimize_join_order_inner cat ShowIndexes = ShowIndexes"
  "optimize_join_order_inner cat (CreateConstraint label prop kind) = CreateConstraint label prop kind"
  "optimize_join_order_inner cat (DropConstraint label prop kind) = DropConstraint label prop kind"
  "optimize_join_order_inner cat ShowConstraints = ShowConstraints"
  by (subst optimize_join_order_inner.simps, simp)+

lemma optimize_expand:
  "optimize_join_order_inner cat
     (Expand inp src_var rel_var dst_var types dir rel_props dst_labels dst_props opt needed) =
   (case reversed_expand cat (optimize_join_order_inner cat inp) src_var rel_var dst_var types dir rel_props
       dst_labels dst_props opt of
     Some q \<Rightarrow> q
   | None \<Rightarrow>
       Expand (optimize_join_order_inner cat inp) src_var rel_var dst_var types dir rel_props dst_labels dst_props
         opt needed)"
  by (subst optimize_join_order_inner.simps) (simp add: Let_def)

lemmas optimize_simps = optimize_structural optimize_create optimize_expand

definition optimize_join_order :: "catalog \<Rightarrow> LogicalPlan \<Rightarrow> LogicalPlan" where
  "optimize_join_order cat p = optimize_join_order_inner cat p"

end
