(* ===== verification/CypherPlanner.thy ===== *)
theory CypherPlanner
  imports CypherOptimize
begin

text \<open>
  The clauses of a query and the query, from \<open>cypher/planner.rs\<close>: each clause checks its expressions
  against the scope, extends the plan and leaves the scope for the next one.
\<close>

section \<open>Reading clauses\<close>

text \<open>\<open>CALL procedure\<close>.\<close>

definition yield_name :: "string \<times> string option \<Rightarrow> string" where
  "yield_name y = (case snd y of Some alias \<Rightarrow> alias | None \<Rightarrow> fst y)"

definition check_yield :: "string set \<Rightarrow> string set \<Rightarrow> string \<times> string option \<Rightarrow> PlanError + string set" where
  "check_yield bound seen y =
     (if fst y = ''*'' then Inr seen
      else if yield_name y \<in> bound then Inl (YieldAlreadyBound (yield_name y))
      else if yield_name y \<in> seen then Inl (YieldedTwice (yield_name y))
      else Inr (insert (yield_name y) seen))"

definition plan_call_procedure ::
    "scope \<Rightarrow> string \<Rightarrow> Expr list \<Rightarrow> (string \<times> string option) list \<Rightarrow> bool \<Rightarrow> PlanError + scope" where
  "plan_call_procedure sc proc_name args yield_items implicit =
     bindE (eachE (\<lambda>arg. require (\<not> expr_contains_aggregation arg) AggregationInCall) args) (\<lambda>_.
     bindE (foldE (check_yield (bound_vars sc)) {} yield_items) (\<lambda>_.
     let names = map yield_name (filter (\<lambda>y. fst y \<noteq> ''*'') yield_items)
     in Inr \<lparr>current = CallProcedure (current sc) proc_name args yield_items implicit,
             bound_vars = bound_vars sc \<union> set names,
             var_kinds = foldl (\<lambda>ks v. Mapping.update v KindScalar ks) (var_kinds sc) names\<rparr>))"

text \<open>\<open>UNWIND\<close>.\<close>

definition plan_unwind :: "scope \<Rightarrow> Expr \<Rightarrow> string \<Rightarrow> scope" where
  "plan_unwind sc e alias =
     \<lparr>current = Unwind (current sc) e alias,
      bound_vars = insert alias (bound_vars sc),
      var_kinds = Mapping.update alias KindScalar (var_kinds sc)\<rparr>"

text \<open>The name under which an item of \<open>WITH\<close> or of an inner \<open>RETURN\<close> is known afterwards.\<close>

definition exposed_name :: "Expr ReturnItem \<Rightarrow> string option" where
  "exposed_name item =
     (case ri_alias item of
       Some alias \<Rightarrow> Some alias
     | None \<Rightarrow> (case ri_expr item of Variable v \<Rightarrow> Some v | _ \<Rightarrow> None))"

definition collect_projected_vars :: "LogicalPlan \<Rightarrow> string set \<Rightarrow> string set" where
  "collect_projected_vars p bound =
     (case p of
       Project _ items _ _ _ _ \<Rightarrow> bound \<union> set (concat (map (\<lambda>item. opt_list (exposed_name item)) items))
     | _ \<Rightarrow> bound)"

text \<open>\<open>WITH\<close>.\<close>

definition check_with_column :: "string set \<Rightarrow> Expr ReturnItem \<Rightarrow> PlanError + string set" where
  "check_with_column seen item =
     bindE
       (require
         (ri_alias item \<noteq> None \<or> (case ri_expr item of Variable _ \<Rightarrow> True | Star \<Rightarrow> True | _ \<Rightarrow> False))
         NoExpressionAlias)
       (\<lambda>_.
     case exposed_name item of
       None \<Rightarrow> Inr seen
     | Some col_name \<Rightarrow>
         if col_name \<in> seen then Inl (WithColumnConflict col_name) else Inr (insert col_name seen))"

definition items_aggregate :: "Expr ReturnItem list \<Rightarrow> bool" where
  "items_aggregate items \<longleftrightarrow> list_ex (\<lambda>item. expr_contains_aggregation (ri_expr item)) items"

definition check_with_order_by :: "Expr ReturnItem list \<Rightarrow> Expr OrderItem list \<Rightarrow> PlanError + unit" where
  "check_with_order_by items order_by =
     (if \<not> items_aggregate items then
        eachE (\<lambda>ob. require (\<not> expr_contains_aggregation (oi_expr ob)) WithOrderByAggregation) order_by
      else
        let proj_aggs = filter expr_contains_aggregation (map ri_expr items)
        in eachE (\<lambda>ob.
             eachE (\<lambda>ob_agg.
               require
                 (list_ex (\<lambda>pa. list_ex (expr_structural_eq ob_agg) (extract_agg_calls pa)) proj_aggs)
                 WithOrderByNewAggregation)
               (extract_agg_calls (oi_expr ob))) order_by)"

text \<open>A \<open>HashMap\<close> collected from pairs: the last value of a name counts.\<close>

definition alias_map :: "Expr ReturnItem list \<Rightarrow> (string \<rightharpoonup> Expr)" where
  "alias_map items =
     map_of (rev (concat (map (\<lambda>item. map (\<lambda>alias. (alias, ri_expr item)) (opt_list (ri_alias item))) items)))"

text \<open>The scope behind \<open>WITH\<close>; a star keeps the variables that have a kind and no underscore.\<close>

definition with_item :: "kinds \<Rightarrow> string set \<times> kinds \<Rightarrow> Expr ReturnItem \<Rightarrow> string set \<times> kinds" where
  "with_item old = (\<lambda>(bound, ks) item.
     if ri_expr item = Star then
       let visible = Mapping.filter (\<lambda>v _. \<not> starts_with ''_'' v) old
       in (bound \<union> Mapping.keys visible, Mapping.combine (\<lambda>new _. new) visible ks)
     else
       case exposed_name item of
         Some v \<Rightarrow>
           (insert v bound, Mapping.update v (expr_var_kind (ri_expr item) (Mapping.lookup old)) ks)
       | None \<Rightarrow> (bound, ks))"

definition plan_with ::
    "scope \<Rightarrow> bool \<Rightarrow> Expr ReturnItem list \<Rightarrow> Expr OrderItem list \<Rightarrow> Expr option \<Rightarrow> Expr option \<Rightarrow> Expr option \<Rightarrow>
     PlanError + scope" where
  "plan_with sc dist items order_by skip limit where_clause =
     bindE (eachE (\<lambda>item. require (\<not> expr_has_inline_pattern (ri_expr item)) PatternInWith) items) (\<lambda>_.
     bindE (foldE check_with_column {} items) (\<lambda>_.
     bindE (check_with_order_by items order_by) (\<lambda>_.
     let proj_has_agg = items_aggregate items;
         inp =
           (case where_clause of
             Some wh \<Rightarrow>
               if \<not> proj_has_agg then Filter (current sc) (substitute_aliases_in_expr wh (alias_map items))
               else current sc
           | None \<Rightarrow> current sc);
         p = Project inp items dist order_by skip limit;
         (bound, ks) = foldl (with_item (var_kinds sc)) ({}, Mapping.empty) items;
         p =
           (case where_clause of
             Some wh \<Rightarrow> if proj_has_agg then Filter p wh else p
           | None \<Rightarrow> p)
     in Inr \<lparr>current = p, bound_vars = bound, var_kinds = ks\<rparr>)))"

text \<open>\<open>RETURN\<close>.\<close>

definition check_star :: "string set \<Rightarrow> Expr ReturnItem list \<Rightarrow> PlanError + unit" where
  "check_star bound items =
     require
       (\<not> list_ex (\<lambda>item. ri_expr item = Star) items \<or> (\<exists>v \<in> bound. \<not> starts_with ''_'' v))
       NoVariablesInScope"

definition check_return_variable :: "string set \<Rightarrow> Expr ReturnItem \<Rightarrow> PlanError + unit" where
  "check_return_variable bound item =
     (case ri_expr item of Variable v \<Rightarrow> require (v \<in> bound) (UndefinedVariable v) | _ \<Rightarrow> Inr ())"

definition projected_keys :: "Expr ReturnItem list \<Rightarrow> string set" where
  "projected_keys items =
     set (concat (map (\<lambda>item.
       opt_list (ri_alias item) @ (case ri_expr item of Variable v \<Rightarrow> [v] | _ \<Rightarrow> [])) items))"

text \<open>Functions of one variable that do not fit its kind.\<close>

definition check_function_argument :: "kinds \<Rightarrow> Expr \<Rightarrow> PlanError + unit" where
  "check_function_argument ks e =
     (case e of
       FunctionCall fname [Variable v] \<Rightarrow>
         (let lname = to_ascii_lowercase fname; vk = Mapping.lookup ks v in
          if lname = ''size'' \<and> vk = Some KindPath then Inl (SizeOfPath v)
          else if lname = ''labels'' \<and> vk \<in> {Some KindPath, Some KindRel} then Inl (LabelsOfNonNode v)
          else if lname = ''type'' \<and> vk \<in> {Some KindNode, Some KindPath} then Inl (TypeOfNonRel v)
          else if lname = ''length'' \<and> vk \<in> {Some KindNode, Some KindRel} then Inl (LengthOfNonPath v)
          else Inr ())
     | _ \<Rightarrow> Inr ())"

definition return_column :: "nat \<Rightarrow> Expr ReturnItem \<Rightarrow> string option" where
  "return_column idx item =
     (case ri_alias item of
       Some alias \<Rightarrow> Some alias
     | None \<Rightarrow>
         (case ri_expr item of
           Variable v \<Rightarrow> Some v
         | Property base k \<Rightarrow>
             (case base of Variable bv \<Rightarrow> Some (bv @ ''.'' @ k) | _ \<Rightarrow> Some (''_col'' @ decimal idx))
         | _ \<Rightarrow> None))"

definition check_return_column :: "string set \<Rightarrow> nat \<times> Expr ReturnItem \<Rightarrow> PlanError + string set" where
  "check_return_column seen = (\<lambda>(idx, item).
     case return_column idx item of
       None \<Rightarrow> Inr seen
     | Some col_name \<Rightarrow>
         if col_name \<in> seen then Inl (ReturnColumnConflict col_name) else Inr (insert col_name seen))"

definition plan_return ::
    "scope \<Rightarrow> bool \<Rightarrow> Expr ReturnItem list \<Rightarrow> Expr OrderItem list \<Rightarrow> Expr option \<Rightarrow> Expr option \<Rightarrow>
     PlanError + scope" where
  "plan_return sc dist items order_by skip limit =
     bindE (check_star (bound_vars sc) items) (\<lambda>_.
     bindE (eachE (check_return_variable (bound_vars sc)) items) (\<lambda>_.
     bindE (eachE (\<lambda>item.
       bindE (check_nested_aggregation (ri_expr item) False) (\<lambda>_.
       check_quantifier_type_mismatch (ri_expr item))) items) (\<lambda>_.
     bindE
       (if \<not> items_aggregate items then
          eachE (\<lambda>ob. require (\<not> expr_contains_aggregation (oi_expr ob)) ReturnOrderByAggregation) order_by
        else Inr ()) (\<lambda>_.
     bindE
       (if dist \<and> order_by \<noteq> [] then
          eachE (\<lambda>ob. check_expr_vars (oi_expr ob) (projected_keys items)) order_by
        else Inr ()) (\<lambda>_.
     bindE (eachE (\<lambda>item.
       bindE (require (\<not> expr_has_inline_pattern (ri_expr item)) PatternInReturn) (\<lambda>_.
       check_function_argument (var_kinds sc) (ri_expr item))) items) (\<lambda>_.
     bindE (foldE check_return_column {} (enumerate 0 items)) (\<lambda>_.
     Inr (sc\<lparr>current := Project (current sc) items dist order_by skip limit\<rparr>))))))))"

section \<open>Writing clauses\<close>

text \<open>\<open>CREATE\<close>: \<open>bound\<close> is the scope of the query, \<open>pattern_bound\<close> that of the pattern at hand.\<close>

definition check_relationship :: "PlanError \<Rightarrow> PlanError \<Rightarrow> PlanError \<Rightarrow> Expr RelPattern \<Rightarrow> PlanError + unit" where
  "check_relationship no_type many_types var_length r =
     (if rel_types r = [] then Inl no_type
      else if 1 < length (rel_types r) then Inl many_types
      else if rp_length r \<noteq> None then Inl var_length
      else Inr ())"

definition create_element ::
    "bool \<Rightarrow> string set \<times> string set \<Rightarrow> Expr PatternElement \<Rightarrow> PlanError + string set \<times> string set" where
  "create_element is_standalone = (\<lambda>(bound, pattern_bound) elem.
     case elem of
       Relationship r \<Rightarrow>
         bindE (check_relationship CreateWithoutType CreateManyTypes CreateVarLength r) (\<lambda>_.
         bindE (eachE (\<lambda>kv. check_expr_vars (snd kv) pattern_bound) (rp_properties r)) (\<lambda>_.
         Inr (bound \<union> set (opt_list (rp_variable r)), pattern_bound \<union> set (opt_list (rp_variable r)))))
     | Node n \<Rightarrow>
         bindE (eachE (\<lambda>kv. check_expr_vars (snd kv) pattern_bound) (np_properties n)) (\<lambda>_.
         case np_variable n of
           None \<Rightarrow> Inr (bound, pattern_bound)
         | Some v \<Rightarrow>
             if v \<in> bound then
               if np_labels n \<noteq> [] \<or> np_properties n \<noteq> [] \<or> has_explicit_map n \<or> is_standalone
               then Inl (CreateAlreadyBound v)
               else Inr (bound, pattern_bound)
             else Inr (insert v bound, insert v pattern_bound)))"

definition create_pattern :: "string set \<Rightarrow> Expr Pattern \<Rightarrow> PlanError + string set" where
  "create_pattern bound pattern =
     bindE (foldE (create_element (length (elements pattern) = 1)) (bound, bound) (elements pattern))
       (\<lambda>(bound, _). Inr bound)"

definition plan_create :: "scope \<Rightarrow> Expr Pattern list \<Rightarrow> PlanError + scope" where
  "plan_create sc patterns =
     bindE (foldE create_pattern (bound_vars sc) patterns) (\<lambda>bound.
     Inr (sc\<lparr>current := CreatePattern (current sc) patterns, bound_vars := bound\<rparr>))"

text \<open>\<open>SET\<close>, and the items behind \<open>MERGE\<close>.\<close>

definition check_set_item :: "string set \<Rightarrow> Expr SetItem \<Rightarrow> PlanError + unit" where
  "check_set_item bound item =
     (case item of
       SetProperty target value \<Rightarrow>
         bindE (check_expr_vars target bound) (\<lambda>_. check_expr_vars value bound)
     | SetVariable var value \<Rightarrow>
         bindE (require (var \<in> bound) (UndefinedVariable var)) (\<lambda>_. check_expr_vars value bound)
     | MergeMap var value \<Rightarrow>
         bindE (require (var \<in> bound) (UndefinedVariable var)) (\<lambda>_. check_expr_vars value bound)
     | SetLabel var _ \<Rightarrow> require (var \<in> bound) (UndefinedVariable var))"

definition check_set_pattern :: "Expr SetItem \<Rightarrow> PlanError + unit" where
  "check_set_pattern item =
     (case item of
       SetProperty _ value \<Rightarrow> require (\<not> expr_has_inline_pattern value) PatternInSet
     | _ \<Rightarrow> Inr ())"

definition plan_set :: "scope \<Rightarrow> Expr SetItem list \<Rightarrow> PlanError + scope" where
  "plan_set sc items =
     bindE (eachE (\<lambda>item. bindE (check_set_item (bound_vars sc) item) (\<lambda>_. check_set_pattern item)) items) (\<lambda>_.
     Inr (sc\<lparr>current := SetProp (current sc) items\<rparr>))"

text \<open>\<open>DELETE\<close>.\<close>

definition check_delete :: "string set \<Rightarrow> Expr \<Rightarrow> PlanError + unit" where
  "check_delete bound e =
     (case e of
       Variable v \<Rightarrow> require (v \<in> bound) (DeleteUndefined v)
     | IntLit _ \<Rightarrow> Inl DeleteNotVariable
     | FloatLit _ \<Rightarrow> Inl DeleteNotVariable
     | StringLit _ \<Rightarrow> Inl DeleteNotVariable
     | BoolLit _ \<Rightarrow> Inl DeleteNotVariable
     | NullLit \<Rightarrow> Inl DeleteNotVariable
     | List _ \<Rightarrow> Inl DeleteNotVariable
     | MapLiteral _ \<Rightarrow> Inl DeleteNotVariable
     | HasLabel _ _ \<Rightarrow> Inl DeleteLabelPredicate
     | Arith _ _ _ \<Rightarrow> Inl DeleteNotEntity
     | Compare _ _ _ \<Rightarrow> Inl DeleteNotEntity
     | And _ _ \<Rightarrow> Inl DeleteNotEntity
     | Or _ _ \<Rightarrow> Inl DeleteNotEntity
     | Not _ \<Rightarrow> Inl DeleteNotEntity
     | Neg _ \<Rightarrow> Inl DeleteNotEntity
     | _ \<Rightarrow> Inr ())"

definition plan_delete :: "scope \<Rightarrow> Expr list \<Rightarrow> bool \<Rightarrow> PlanError + scope" where
  "plan_delete sc es detach =
     bindE (eachE (check_delete (bound_vars sc)) es) (\<lambda>_.
     Inr (sc\<lparr>current := DeleteNodes (current sc) es detach\<rparr>))"

text \<open>\<open>MERGE\<close>.\<close>

definition check_merge_element :: "string set \<Rightarrow> bool \<Rightarrow> Expr PatternElement \<Rightarrow> PlanError + unit" where
  "check_merge_element bound is_standalone elem =
     (case elem of
       Relationship r \<Rightarrow>
         bindE (check_relationship MergeWithoutType MergeManyTypes MergeVarLength r) (\<lambda>_.
         eachE (\<lambda>v. require (v \<notin> bound) (MergeRelAlreadyBound v)) (opt_list (rp_variable r)))
     | Node n \<Rightarrow>
         eachE (\<lambda>v. require (\<not> (v \<in> bound \<and> (is_standalone \<or> np_labels n \<noteq> []))) (MergeNodeAlreadyBound v))
           (opt_list (np_variable n)))"

definition plan_merge ::
    "scope \<Rightarrow> Expr Pattern \<Rightarrow> Expr SetItem list \<Rightarrow> Expr SetItem list \<Rightarrow> PlanError + scope" where
  "plan_merge sc pattern on_create on_match =
     bindE (eachE (check_merge_element (bound_vars sc) (length (elements pattern) = 1)) (elements pattern)) (\<lambda>_.
     let merge_bound =
           bound_vars sc \<union> set (concat (map (\<lambda>e. opt_list (elem_var e)) (elements pattern)))
             \<union> set (opt_list (p_variable pattern));
         ks = foldl (\<lambda>ks v. Mapping.update v KindPath ks) (var_kinds sc) (opt_list (p_variable pattern))
     in bindE (eachE (check_set_item merge_bound) (on_create @ on_match)) (\<lambda>_.
        Inr \<lparr>current = MergePattern (current sc) pattern on_create on_match,
             bound_vars = merge_bound,
             var_kinds = ks\<rparr>))"

section \<open>The query\<close>

definition return_column_name :: "Expr ReturnItem \<Rightarrow> string" where
  "return_column_name item =
     (case ri_alias item of
       Some alias \<Rightarrow> alias
     | None \<Rightarrow> (case ri_expr item of Variable v \<Rightarrow> v | Property _ k \<Rightarrow> k | _ \<Rightarrow> ''_col''))"

definition return_column_names :: "clause list \<Rightarrow> string list option" where
  "return_column_names cs =
     first_some (\<lambda>c.
       case c of Return _ items _ _ _ \<Rightarrow> Some (map return_column_name items) | _ \<Rightarrow> None) (rev cs)"

definition check_union :: "query \<Rightarrow> query \<Rightarrow> PlanError + unit" where
  "check_union q right_q =
     (case (return_column_names (clauses q), return_column_names (clauses right_q)) of
       (Some lc, Some rc) \<Rightarrow> require (lc = rc) (DifferentColumnsInUnion lc rc)
     | _ \<Rightarrow> Inr ())"

definition start_scope :: "string list \<Rightarrow> scope" where
  "start_scope outer_vars =
     \<lparr>current = SingleRow, bound_vars = set outer_vars,
      var_kinds = Mapping.tabulate outer_vars (\<lambda>_. KindScalar)\<rparr>"

lemma union_part: "union_with q = Some (all, r) \<Longrightarrow> size r < size q" for q r :: query
  by (cases q) auto

lemma clauses_part: "size_list size (clauses q) \<le> size q" for q :: query
  by (cases q) auto

lemma clause_part: "c \<in> set cs \<Longrightarrow> size c \<le> size_list size cs" for c :: clause
  by (rule size_list_estimation') auto

function plan :: "catalog \<Rightarrow> query \<Rightarrow> PlanError + LogicalPlan"
  and plan_single :: "catalog \<Rightarrow> query \<Rightarrow> PlanError + LogicalPlan"
  and plan_clauses :: "catalog \<Rightarrow> clause list \<Rightarrow> scope \<Rightarrow> PlanError + scope"
  and plan_clause :: "catalog \<Rightarrow> scope \<Rightarrow> clause \<Rightarrow> PlanError + scope" where
  "plan cat q =
     bindE (plan_single cat q) (\<lambda>left.
     bindE
       (case union_with q of
         Some (all, right_q) \<Rightarrow>
           bindE (check_union q right_q) (\<lambda>_.
           bindE (plan cat right_q) (\<lambda>right.
           Inr (Union left right all)))
       | None \<Rightarrow> Inr left) (\<lambda>result.
     Inr (annotate_needed_properties (optimize_join_order cat result))))"
| "plan_single cat q = bindE (plan_clauses cat (clauses q) (start_scope [])) (\<lambda>sc. Inr (current sc))"
| "plan_clauses cat cs sc = foldE (plan_clause cat) sc cs"
| "plan_clause cat sc c =
     (case c of
       Match opt patterns where_clause \<Rightarrow> plan_match_clause cat sc patterns where_clause opt
     | QueryClause.Unwind e alias \<Rightarrow> Inr (plan_unwind sc e alias)
     | CallSubquery subquery \<Rightarrow>
         bindE (plan cat subquery) (\<lambda>inner_plan.
         Inr (sc\<lparr>current := Apply (current sc) inner_plan,
                 bound_vars := collect_projected_vars inner_plan (bound_vars sc)\<rparr>))
     | QueryClause.CallProcedure proc_name args yield_items implicit \<Rightarrow>
         plan_call_procedure sc proc_name args yield_items implicit
     | With dist items order_by skip limit where_clause \<Rightarrow>
         plan_with sc dist items order_by skip limit where_clause
     | Return dist items order_by skip limit \<Rightarrow> plan_return sc dist items order_by skip limit
     | Create patterns \<Rightarrow> plan_create sc patterns
     | SetClause items \<Rightarrow> plan_set sc items
     | Remove items \<Rightarrow> Inr (sc\<lparr>current := RemoveProp (current sc) items\<rparr>)
     | Delete es detach \<Rightarrow> plan_delete sc es detach
     | Merge pattern on_create on_match \<Rightarrow> plan_merge sc pattern on_create on_match
     | QueryClause.Foreach variable list_expr body \<Rightarrow>
         bindE (plan_clauses cat body
           \<lparr>current = SingleRow, bound_vars = insert variable (bound_vars sc),
            var_kinds = Mapping.update variable KindScalar (var_kinds sc)\<rparr>) (\<lambda>body_sc.
         Inr (sc\<lparr>current := Foreach (current sc) variable list_expr (current body_sc)\<rparr>))
     | QueryClause.CreateIndex label prop \<Rightarrow> Inr (sc\<lparr>current := CreateIndex label prop\<rparr>)
     | QueryClause.DropIndex label prop \<Rightarrow> Inr (sc\<lparr>current := DropIndex label prop\<rparr>)
     | QueryClause.ShowIndexes \<Rightarrow> Inr (sc\<lparr>current := ShowIndexes\<rparr>)
     | QueryClause.CreateConstraint label prop kind \<Rightarrow> Inr (sc\<lparr>current := CreateConstraint label prop kind\<rparr>)
     | QueryClause.DropConstraint label prop kind \<Rightarrow> Inr (sc\<lparr>current := DropConstraint label prop kind\<rparr>)
     | QueryClause.ShowConstraints \<Rightarrow> Inr (sc\<lparr>current := ShowConstraints\<rparr>))"
  by pat_completeness auto
termination
  by (relation "measure (\<lambda>x. case x of
        Inl (Inl (_, q)) \<Rightarrow> 4 * size q + 3
      | Inl (Inr (_, q)) \<Rightarrow> 4 * size q + 2
      | Inr (Inl (_, cs, _)) \<Rightarrow> 4 * size_list size cs + 1
      | Inr (Inr (_, _, c)) \<Rightarrow> 4 * size c)")
    (auto dest!: union_part clause_part simp: clauses_part less_Suc_eq_le)

declare plan.simps [simp del] plan_single.simps [simp del] plan_clauses.simps [simp del] plan_clause.simps [simp del]

text \<open>The variants for the inner plan of \<open>MERGE\<close> and for a subquery with variables of an outer one.\<close>

function plan_without_opt4 :: "catalog \<Rightarrow> query \<Rightarrow> PlanError + LogicalPlan" where
  "plan_without_opt4 cat q =
     bindE (plan_single cat q) (\<lambda>left.
     bindE
       (case union_with q of
         Some (all, right_q) \<Rightarrow> bindE (plan_without_opt4 cat right_q) (\<lambda>right. Inr (Union left right all))
       | None \<Rightarrow> Inr left) (\<lambda>result.
     Inr (optimize_join_order cat result)))"
  by pat_completeness auto
termination
  by (relation "measure (\<lambda>(_, q). size q)") (auto dest: union_part)

declare plan_without_opt4.simps [simp del]

definition plan_with_outer :: "catalog \<Rightarrow> query \<Rightarrow> string list \<Rightarrow> PlanError + LogicalPlan" where
  "plan_with_outer cat q outer_vars =
     bindE (plan_clauses cat (clauses q) (start_scope outer_vars)) (\<lambda>sc. Inr (current sc))"

end
