(* ===== verification/CypherNeeded.thy ===== *)
theory CypherNeeded
  imports CypherPlanner
begin

text \<open>
  The projection pushdown: the accumulated map of \<open>scan_plan\<close> is a summary of what the operators of a
  plan read, and a scan decodes exactly that and the properties of its own filters.
\<close>

section \<open>What an expression reads\<close>

text \<open>The expressions evaluated on the way to the value of an expression, in the same row.\<close>

definition operands :: "Expr \<Rightarrow> Expr list" where
  "operands e =
    (case e of
      Property base _ \<Rightarrow> [base]
    | FunctionCall _ args \<Rightarrow> args
    | Compare l _ r \<Rightarrow> [l, r] | And l r \<Rightarrow> [l, r] | Or l r \<Rightarrow> [l, r] | Xor l r \<Rightarrow> [l, r] | Arith l _ r \<Rightarrow> [l, r]
    | InList l r \<Rightarrow> [l, r] | StartsWith l r \<Rightarrow> [l, r] | EndsWith l r \<Rightarrow> [l, r] | Contains l r \<Rightarrow> [l, r]
    | Regex l r \<Rightarrow> [l, r] | Subscript l r \<Rightarrow> [l, r]
    | Not a \<Rightarrow> [a] | IsNull a \<Rightarrow> [a] | IsNotNull a \<Rightarrow> [a] | Neg a \<Rightarrow> [a] | HasLabel a _ \<Rightarrow> [a]
    | CaseSearched branches else_ \<Rightarrow> concat (map (\<lambda>b. [fst b, snd b]) branches) @ opt_list else_
    | CaseSimple test branches else_ \<Rightarrow> test # concat (map (\<lambda>b. [fst b, snd b]) branches) @ opt_list else_
    | ListComprehension _ l predicate projection \<Rightarrow> l # opt_list predicate @ opt_list projection
    | ListPredicate _ _ l predicate \<Rightarrow> [l, predicate]
    | ListSlice l from to \<Rightarrow> l # opt_list from @ opt_list to
    | List items \<Rightarrow> items
    | MapLiteral pairs \<Rightarrow> map snd pairs
    | PatternComprehension _ _ predicate projection \<Rightarrow> opt_list predicate @ [projection]
    | _ \<Rightarrow> [])"

text \<open>
  \<open>reads e v (Some k)\<close>: \<open>e\<close> looks at the property \<open>k\<close> of \<open>v\<close>; \<open>reads e v None\<close>: it takes \<open>v\<close> as a
  whole. Patterns and subqueries inside \<open>e\<close> do not count.
\<close>

inductive reads :: "Expr \<Rightarrow> string \<Rightarrow> string option \<Rightarrow> bool" where
  reads_variable: "reads (Variable v) v None"
| reads_property: "reads (Property (Variable v) k) v (Some k)"
| reads_operand:
    "\<forall>v k. e \<noteq> Property (Variable v) k \<Longrightarrow> a \<in> set (operands e) \<Longrightarrow> reads a v x \<Longrightarrow> reads e v x"

definition reads_of :: "Expr \<Rightarrow> (string \<times> string option) set" where
  "reads_of e = {(v, x). reads e v x}"

lemma reads_of_variable [simp]: "reads_of (Variable v) = {(v, None)}"
  by (auto simp: reads_of_def operands_def elim: reads.cases intro: reads.intros)

lemma reads_of_property [simp]: "reads_of (Property (Variable v) k) = {(v, Some k)}"
  by (auto simp: reads_of_def operands_def elim: reads.cases intro: reads.intros)

lemma reads_of_operands:
  assumes "\<forall>v. e \<noteq> Variable v" and "\<forall>v k. e \<noteq> Property (Variable v) k"
  shows "reads_of e = (\<Union>a \<in> set (operands e). reads_of a)"
  using assms by (auto simp: reads_of_def elim: reads.cases intro: reads_operand)

section \<open>The map as a summary\<close>

definition summary :: "(string \<times> string option) set \<Rightarrow> needed" where
  "summary U v =
     (if (v, None) \<in> U then Some None
      else if \<exists>k. (v, Some k) \<in> U then Some (Some {k. (v, Some k) \<in> U})
      else None)"

lemma summary_empty: "summary {} = Map.empty"
  by (rule ext) (simp add: summary_def)

lemma mark_all_summary: "mark_all (summary U) v = summary (insert (v, None) U)"
  by (rule ext) (simp add: summary_def mark_all_def)

lemma mark_prop_summary: "mark_prop (summary U) v k = summary (insert (v, Some k) U)"
  by (rule ext) (auto simp: summary_def mark_prop_def)

definition accumulates :: "(needed \<Rightarrow> 'a \<Rightarrow> needed) \<Rightarrow> ('a \<Rightarrow> (string \<times> string option) set) \<Rightarrow> 'a \<Rightarrow> bool" where
  "accumulates f R a \<longleftrightarrow> (\<forall>U. f (summary U) a = summary (U \<union> R a))"

lemma foldl_accumulates:
  "\<forall>a \<in> set as. accumulates f R a \<Longrightarrow> foldl f (summary U) as = summary (U \<union> (\<Union>a \<in> set as. R a))"
  by (induction as arbitrary: U) (auto simp: accumulates_def Un_assoc)

lemma scan_operands:
  assumes "\<forall>v. e \<noteq> Variable v" and "\<forall>v k. e \<noteq> Property (Variable v) k"
    and "\<And>U. scan_expr (summary U) e = foldl scan_expr (summary U) (operands e)"
    and "\<And>a. a \<in> set (operands e) \<Longrightarrow> accumulates scan_expr reads_of a"
  shows "accumulates scan_expr reads_of e"
  using assms(3, 4) foldl_accumulates [of "operands e" scan_expr reads_of] reads_of_operands [OF assms(1, 2)]
  by (simp add: accumulates_def)

text \<open>Every operand is smaller, and the code scans the operands from left to right.\<close>

lemma pair_parts:
  "(c, t) \<in> set bs \<Longrightarrow> size c \<le> size_list (size_prod size size) bs + n"
  "(c, t) \<in> set bs \<Longrightarrow> size t \<le> size_list (size_prod size size) bs + n"
  "(k, t) \<in> set kvs \<Longrightarrow> size t \<le> size_list (size_prod (\<lambda>x. 0) size) kvs"
  for bs :: "(Expr \<times> Expr) list" and kvs :: "(string \<times> Expr) list"
  using branch_part [of "(c, t)" bs] entry_part [of "(k, t)" kvs] by (auto intro: trans_le_add1)

lemma operand_size: "a \<in> set (operands e) \<Longrightarrow> size a < size e"
  by (cases e)
    (auto simp: operands_def opt_list_def less_Suc_eq_le expr_parts trans_le_add1 trans_le_add2 pair_parts
      split: option.splits)

lemma foldl_pairs:
  "foldl (\<lambda>m b. scan_expr (scan_expr m (fst b)) (snd b)) m bs =
   foldl scan_expr m (concat (map (\<lambda>b. [fst b, snd b]) bs))"
  by (induction bs arbitrary: m) auto

lemma foldl_map: "foldl scan_expr m (map g bs) = foldl (\<lambda>m b. scan_expr m (g b)) m bs"
  by (induction bs arbitrary: m) auto

lemma foldl_opt: "foldl f m (opt_list x) = (case x of Some a \<Rightarrow> f m a | None \<Rightarrow> m)"
  by (simp add: opt_list_def split: option.split)

lemma scan_leaves:
  "scan_expr m (Variable v) = mark_all m v"
  "scan_expr m (Property (Variable v) k) = mark_prop m v k"
  by (subst scan_expr.simps, simp)+

lemma scan_call:
  "foldl scan_expr (summary U) (Variable v # args) =
   foldl scan_expr (mark_all (summary U) v) (Variable v # args)"
  by (simp add: scan_leaves mark_all_summary)

lemma scan_expr_operands:
  assumes "\<forall>v. e \<noteq> Variable v" and "\<forall>v k. e \<noteq> Property (Variable v) k"
  shows "scan_expr (summary U) e = foldl scan_expr (summary U) (operands e)"
proof (cases e)
  case (FunctionCall f args)
  show ?thesis
  proof (cases "\<exists>v as. args = Variable v # as")
    case True
    then show ?thesis
      unfolding FunctionCall using scan_call by (subst scan_expr.simps) (auto simp: operands_def Let_def)
  next
    case False
    then show ?thesis
      unfolding FunctionCall by (subst scan_expr.simps) (auto simp: operands_def Let_def split: list.split Expr.split)
  qed
next
  case (Property b k)
  then show ?thesis
    using assms unfolding Property by (subst scan_expr.simps) (simp add: operands_def split: Expr.split)
qed (use assms in \<open>(hypsubst, subst scan_expr.simps,
    simp add: operands_def foldl_pairs foldl_map foldl_opt Let_def split: option.split)+\<close>)

lemma scan_expr_reads: "accumulates scan_expr reads_of e"
proof (induction e rule: measure_induct_rule [of size])
  case (less e)
  consider (v) v where "e = Variable v" | (p) v k where "e = Property (Variable v) k"
    | (other) "\<forall>v. e \<noteq> Variable v" "\<forall>v k. e \<noteq> Property (Variable v) k"
    by blast
  then show ?case
  proof cases
    case v
    then show ?thesis
      by (simp add: accumulates_def scan_leaves mark_all_summary)
  next
    case p
    then show ?thesis
      by (simp add: accumulates_def scan_leaves mark_prop_summary)
  next
    case other
    then show ?thesis
      using scan_expr_operands [OF other] less operand_size scan_operands [OF other] by blast
  qed
qed

section \<open>What a plan reads\<close>

text \<open>
  The reads of the operators that the analysis looks into. It ignores the filters of \<open>LabelScan\<close> and
  \<open>PropertyIndexScan\<close>, and the expressions of writing clauses and procedure calls.
\<close>

definition reads_all :: "Expr list \<Rightarrow> (string \<times> string option) set" where
  "reads_all es = (\<Union>e \<in> set es. reads_of e)"

fun plan_reads :: "LogicalPlan \<Rightarrow> (string \<times> string option) set" where
  "plan_reads (Project inp items _ order_by skip limit) =
     reads_all (map ri_expr items) \<union> reads_all (map oi_expr order_by) \<union>
     reads_all (opt_list skip) \<union> reads_all (opt_list limit) \<union> plan_reads inp"
| "plan_reads (Filter inp predicate) = reads_of predicate \<union> plan_reads inp"
| "plan_reads (Expand inp _ _ _ _ _ rel_props _ dst_props _ _) =
     reads_all (map snd rel_props) \<union> reads_all (map snd dst_props) \<union> plan_reads inp"
| "plan_reads (Unwind inp e _) = reads_of e \<union> plan_reads inp"
| "plan_reads (NamedPath inp _ elems) = (\<lambda>v. (v, None)) ` set elems \<union> plan_reads inp"
| "plan_reads (CrossProduct left right) = plan_reads left \<union> plan_reads right"
| "plan_reads (Union left right _) = plan_reads left \<union> plan_reads right"
| "plan_reads (Apply outer inner) = plan_reads outer \<union> plan_reads inner"
| "plan_reads (LeftJoin outer inner _) = plan_reads outer \<union> plan_reads inner"
| "plan_reads (VarLengthExpand inp _ _ _ _ _ _ _ _ _ _) = plan_reads inp"
| "plan_reads (BoundRelListExpand inp _ _ _ _) = plan_reads inp"
| "plan_reads (CallProcedure inp _ _ _ _) = plan_reads inp"
| "plan_reads (CreatePattern inp _) = plan_reads inp"
| "plan_reads (SetProp inp _) = plan_reads inp"
| "plan_reads (RemoveProp inp _) = plan_reads inp"
| "plan_reads (DeleteNodes inp _ _) = plan_reads inp"
| "plan_reads (MergePattern inp _ _ _) = plan_reads inp"
| "plan_reads (Foreach inp _ _ _) = plan_reads inp"
| "plan_reads _ = {}"

lemma scan_exprs_reads: "scan_exprs (summary U) es = summary (U \<union> reads_all es)"
  using foldl_accumulates [of es scan_expr reads_of] scan_expr_reads by (simp add: scan_exprs_def reads_all_def)

lemma scan_expr_summary: "scan_expr (summary U) e = summary (U \<union> reads_of e)"
  using scan_expr_reads by (simp add: accumulates_def)

lemma reads_all_append [simp]: "reads_all (xs @ ys) = reads_all xs \<union> reads_all ys"
  by (auto simp: reads_all_def)

lemma mark_elements: "foldl mark_all (summary U) elems = summary (U \<union> (\<lambda>v. (v, None)) ` set elems)"
  by (induction elems arbitrary: U) (simp_all add: mark_all_summary)

lemma scan_plan_reads: "scan_plan (summary U) p = summary (U \<union> plan_reads p)"
  by (induction p arbitrary: U)
    (simp_all add: scan_exprs_reads scan_expr_summary mark_elements Un_assoc Un_left_commute Un_commute)

lemma collect_reads: "collect_needed_properties p = summary (plan_reads p)"
  using scan_plan_reads [of "{}" p] by (simp add: collect_needed_properties_def summary_empty)

section \<open>What the scans decode\<close>

text \<open>
  The scans and expands that the annotation reaches, with the variable they bind, their own filters
  and the properties they decode. It does not go below writing clauses and procedure calls.
\<close>

fun scans :: "LogicalPlan \<Rightarrow> (string \<times> (string \<times> Expr) list \<times> string set option) list" where
  "scans (LabelScan v _ inline_props _ needed) = [(v, inline_props, needed)]"
| "scans (Expand inp _ _ dst_var _ _ _ _ dst_props _ needed) = (dst_var, dst_props, needed) # scans inp"
| "scans (Filter inp _) = scans inp"
| "scans (Project inp _ _ _ _ _) = scans inp"
| "scans (CrossProduct left right) = scans left @ scans right"
| "scans (Union left right _) = scans left @ scans right"
| "scans (Apply outer inner) = scans outer @ scans inner"
| "scans (LeftJoin outer inner _) = scans outer @ scans inner"
| "scans (Unwind inp _ _) = scans inp"
| "scans (VarLengthExpand inp _ _ _ _ _ _ _ _ _ _) = scans inp"
| "scans (NamedPath inp _ _) = scans inp"
| "scans _ = []"

lemma scans_annotate:
  "scans (annotate_plan needed p) =
   map (\<lambda>(v, props, _). (v, props, needed_of needed v props)) (scans p)"
  by (induction needed p rule: annotate_plan.induct) simp_all

text \<open>The reads of a plan do not depend on its annotation.\<close>

lemma plan_reads_annotate: "plan_reads (annotate_plan needed p) = plan_reads p"
  by (induction needed p rule: annotate_plan.induct) simp_all

definition decoded :: "(string \<times> string option) set \<Rightarrow> string \<Rightarrow> (string \<times> Expr) list \<Rightarrow> string set option" where
  "decoded R v props =
     (if (v, None) \<in> R then None else Some ({k. (v, Some k) \<in> R} \<union> set (map fst props)))"

lemma needed_of_summary: "needed_of (summary R) v props = decoded R v props"
  by (auto simp: needed_of_def summary_def decoded_def)

lemma annotate_again: "annotate_plan needed (annotate_plan needed' p) = annotate_plan needed p"
  by (induction needed' p rule: annotate_plan.induct) simp_all


end
