(* ===== verification/CypherScope.thy ===== *)
theory CypherScope
  imports CypherPlanner
begin

text \<open>
  The scope of the planner and the rows of the plan: every variable that the planner takes for bound is
  a column of the rows its plan produces.
\<close>

section \<open>Columns of a plan\<close>

definition item_columns :: "string set \<Rightarrow> Expr ReturnItem \<Rightarrow> string set" where
  "item_columns inp item = (if ri_expr item = Star then inp else set (opt_list (exposed_name item)))"

definition pattern_columns :: "Expr Pattern \<Rightarrow> string set" where
  "pattern_columns p = set (concat (map (\<lambda>e. opt_list (elem_var e)) (elements p)))"

text \<open>
  The names that every row of a plan has, from what the operators do: a join with an optional side has
  the names of the inner plan only where it fills them with null. Names an item gets by default are
  left out, and so are the columns of a procedure that are not yielded by name.
\<close>

fun columns :: "LogicalPlan \<Rightarrow> string set" where
  "columns SingleRow = {}"
| "columns (LabelScan v _ _ _ _) = {v}"
| "columns (PropertyIndexScan v _ _ _ _ _ _ _) = {v}"
| "columns (Expand inp _ rel_var dst_var _ _ _ _ _ _ _) = columns inp \<union> set (opt_list rel_var) \<union> {dst_var}"
| "columns (VarLengthExpand inp _ rel_var dst_var _ _ _ _ _ _ _) =
     columns inp \<union> set (opt_list rel_var) \<union> {dst_var}"
| "columns (BoundRelListExpand inp _ _ dst_var _) = columns inp \<union> {dst_var}"
| "columns (NamedPath inp path_var _) = insert path_var (columns inp)"
| "columns (CrossProduct left right) = columns left \<union> columns right"
| "columns (Filter inp _) = columns inp"
| "columns (Project inp items _ _ _ _) = (\<Union>item \<in> set items. item_columns (columns inp) item)"
| "columns (Unwind inp _ alias) = insert alias (columns inp)"
| "columns (Apply outer inner) = columns outer \<union> columns inner"
| "columns (LeftJoin outer inner null_vars) = columns outer \<union> (set null_vars \<inter> columns inner)"
| "columns (CallProcedure inp _ _ yield_items _) =
     columns inp \<union> set (map yield_name (filter (\<lambda>y. fst y \<noteq> ''*'') yield_items))"
| "columns (CreatePattern inp patterns) = columns inp \<union> (\<Union>p \<in> set patterns. pattern_columns p)"
| "columns (SetProp inp _) = columns inp"
| "columns (RemoveProp inp _) = columns inp"
| "columns (DeleteNodes inp _ _) = columns inp"
| "columns (MergePattern inp p _ _) = columns inp \<union> pattern_columns p \<union> set (opt_list (p_variable p))"
| "columns (Foreach inp _ _ _) = columns inp"
| "columns (Union left right _) = columns left \<inter> columns right"
| "columns _ = {}"

lemma try_property_index_scan_Some:
  "try_property_index_scan cat v label props opt = Some p \<Longrightarrow>
   \<exists>i label_id key_id. i < length props \<and>
     p = PropertyIndexScan v label label_id (fst (props ! i)) key_id (snd (props ! i))
       (take i props @ drop (Suc i) props) opt"
proof -
  have found: "i \<le> j \<and> j < i + length ps" if "find_indexed cat lid i ps = Some (j, k)" for lid i ps j k
    using that by (induction cat lid i ps rule: find_indexed.induct) (fastforce split: option.splits if_splits)+
  assume "try_property_index_scan cat v label props opt = Some p"
  then show ?thesis
    by (auto simp: try_property_index_scan_def case_prod_unfold Let_def split: if_splits option.splits dest!: found)
qed

lemma columns_index_scan: "try_property_index_scan cat v label props opt = Some p \<Longrightarrow> columns p = {v}"
  using try_property_index_scan_Some by fastforce

lemma columns_reversed:
  "reversed_expand cat inp src_var rel_var dst_var types dir rel_props dst_labels dst_props opt = Some q \<Longrightarrow>
   columns q = columns inp \<union> set (opt_list rel_var) \<union> {dst_var}"
  by (auto simp: reversed_expand_def columns_index_scan Let_def
      split: LogicalPlan.splits list.splits bool.splits if_splits option.splits)

text \<open>The order of joins does not matter for the columns, and the annotation does not either.\<close>

lemma columns_optimize: "columns (optimize_join_order_inner cat p) = columns p"
  by (induction p) (auto simp: optimize_simps smaller_first_def dest: columns_reversed split: option.split)

lemma columns_annotate: "columns (annotate_plan needed p) = columns p"
  by (induction needed p rule: annotate_plan.induct) simp_all

section \<open>One pattern\<close>

text \<open>The variables that \<open>WITH *\<close> can bring back.\<close>

definition visible :: "kinds \<Rightarrow> string set" where
  "visible ks = {v \<in> Mapping.keys ks. \<not> starts_with ''_'' v}"

lemma visible_kind [simp]:
  "visible (Mapping.update v k ks) = (if starts_with ''_'' v then visible ks else insert v (visible ks))"
  by (auto simp: visible_def)

lemma visible_updates: "visible (foldl (\<lambda>ks v. Mapping.update v k ks) ks vs) \<subseteq> visible ks \<union> set vs"
proof (induction vs arbitrary: ks)
  case (Cons v vs)
  have "visible (Mapping.update v k ks) \<subseteq> insert v (visible ks)"
    by auto
  then show ?case
    using Cons [of "Mapping.update v k ks"] by auto
qed simp

lemma lookup_visible: "Mapping.lookup ks v \<noteq> None \<longleftrightarrow> v \<in> Mapping.keys ks"
  by (simp add: keys_dom_lookup dom_def)

lemma columns_filters [simp]:
  "columns (prop_filters v props p) = columns p"
  "columns (foldl (\<lambda>p l. label_filter v [l] p) p labels) = columns p"
  "columns (label_filter v labels p) = columns p"
proof -
  show "columns (prop_filters v props p) = columns p"
    unfolding prop_filters_def by (induction props arbitrary: p) auto
  show "columns (foldl (\<lambda>p l. label_filter v [l] p) p labels) = columns p"
    by (induction labels arbitrary: p) (auto simp: label_filter_def)
qed (simp add: label_filter_def)

lemma columns_rel_props_filter [simp]: "columns (rel_props_filter i rv props p) = columns p"
  by (simp add: rel_props_filter_def Let_def split: list.split)

lemma columns_var_length:
  "columns (var_length_plan ctx i rel vl rel_var src dst ks p) = columns p \<union> {dst} \<union>
     (if \<exists>rv. rp_variable rel = Some rv \<and> is_prebound_list (hop_bound ctx) ks rv then {}
      else set (opt_list
        (if is_named ctx \<or> rp_variable rel \<noteq> None then rp_variable rel
         else if rp_properties rel \<noteq> [] then Some (''_anon_vrel_'' @ decimal i) else None)))"
  by (auto simp: var_length_plan_def Let_def opt_list_def split: option.split)

text \<open>What holds in the loop over the hops; \<open>P\<close> is what the pattern started with.\<close>

definition hop_ok :: "string set \<Rightarrow> string set \<Rightarrow> hop_state \<Rightarrow> bool" where
  "hop_ok C V st \<longleftrightarrow>
     C \<subseteq> columns (hop_plan st) \<and>
     set (new_node_vars st) \<subseteq> columns (hop_plan st) \<and>
     set (new_rel_vars st) \<subseteq> columns (hop_plan st) \<and>
     visible (hop_kinds st) \<subseteq> V \<union> columns (hop_plan st)"

lemma add_rel_var_effect:
  "hop_plan (add_rel_var ctx rel rv st) = hop_plan st"
  "new_node_vars (add_rel_var ctx rel rv st) = new_node_vars st"
  "last_node_var (add_rel_var ctx rel rv st) = last_node_var st"
  "hop_kinds (add_rel_var ctx rel rv st) =
     (if Mapping.lookup (hop_kinds st) rv = None then Mapping.update rv KindRel (hop_kinds st) else hop_kinds st)"
  "new_rel_vars (add_rel_var ctx rel rv st) =
     (if Mapping.lookup (hop_kinds st) rv = None \<and> (rp_variable rel \<noteq> None \<or> starts_with ''_anon_rel_'' rv)
      then new_rel_vars st @ [rv] else new_rel_vars st)"
  by (auto simp: add_rel_var_def Let_def)

lemma add_dst_var_effect:
  "hop_plan (add_dst_var ctx v st) = hop_plan st"
  "new_rel_vars (add_dst_var ctx v st) = new_rel_vars st"
  "hop_kinds (add_dst_var ctx v st) =
     (if v \<notin> hop_bound ctx \<and> v \<notin> set (new_node_vars st) then Mapping.update v KindNode (hop_kinds st)
      else hop_kinds st)"
  "new_node_vars (add_dst_var ctx v st) =
     (if v \<notin> hop_bound ctx \<and> v \<notin> set (new_node_vars st) then new_node_vars st @ [v] else new_node_vars st)"
  by (simp_all add: add_dst_var_def Let_def)

text \<open>The name of a relationship: its own, or one the planner makes up.\<close>

lemma rel_var_name_cases:
  assumes "rel_var_name ctx rel st = Inr (rel_var, counter)"
  obtains (own) rv where "rp_variable rel = Some rv" "rel_var = Some rv" "rv \<notin> set (new_rel_vars st)"
  | (named) "rp_variable rel = None" "is_named ctx" "rel_var = Some (''_pr_'' @ decimal (anon_rel_counter st))"
  | (tracked) "rp_variable rel = None" "\<not> is_named ctx" "rp_length rel = None"
      "rel_var = Some (''_anon_rel_'' @ decimal (anon_rel_counter st))"
  | (anonymous) "rp_variable rel = None" "\<not> is_named ctx" "rel_var = None"
  using assms by (auto simp: rel_var_name_def split: option.splits if_splits)

lemma enter_rel_effect:
  "hop_plan (enter_rel ctx rel rel_var counter st) = hop_plan st"
  "new_node_vars (enter_rel ctx rel rel_var counter st) = new_node_vars st"
  "enter_rel ctx rel None counter st = st\<lparr>anon_rel_counter := counter\<rparr>"
  "enter_rel ctx rel (Some rv) counter st = add_rel_var ctx rel rv (st\<lparr>anon_rel_counter := counter\<rparr>)"
  by (simp_all add: enter_rel_def Let_def add_rel_var_effect split: option.split)

lemma plan_hop_Inr:
  assumes "plan_hop ctx i rel n st = Inr st'"
  obtains rel_var counter st1 dst st2 where
    "rel_var_name ctx rel st = Inr (rel_var, counter)"
    "st1 = enter_rel ctx rel rel_var counter st"
    "dst = dst_name ctx i n st1"
    "np_variable n = None \<or> Mapping.lookup (hop_kinds st1) dst \<notin> non_node_kinds"
    "st2 = add_dst_var ctx dst st1"
    "st' = st2\<lparr>hop_plan := hop_operator ctx i rel n rel_var (last_node_var st) dst (hop_kinds st2) (hop_plan st),
        last_node_var := dst\<rparr>"
proof (cases "rel_var_name ctx rel st")
  case (Inr x)
  obtain rel_var counter where x: "x = (rel_var, counter)"
    by force
  define st1 where "st1 = enter_rel ctx rel rel_var counter st"
  define dst where "dst = dst_name ctx i n st1"
  define st2 where "st2 = add_dst_var ctx dst st1"
  have plans: "hop_plan st2 = hop_plan st"
    by (simp add: st1_def st2_def add_dst_var_effect enter_rel_effect)
  have "(if np_variable n \<noteq> None \<and> Mapping.lookup (hop_kinds st1) dst \<in> non_node_kinds then Inl (NotANode dst)
    else Inr (st2\<lparr>hop_plan := hop_operator ctx i rel n rel_var (last_node_var st) dst (hop_kinds st2) (hop_plan st2),
        last_node_var := dst\<rparr>)) = Inr st'"
    using assms unfolding plan_hop_def Inr x bindE_Inr Let_def prod.case st1_def dst_def st2_def .
  then show ?thesis
    using that [of rel_var counter st1 dst st2] Inr x plans
    by (auto simp: st1_def [symmetric] dst_def [symmetric] st2_def [symmetric] split: if_splits)
qed (use assms in \<open>simp add: plan_hop_def\<close>)

lemma columns_hop_operator:
  "columns (hop_operator ctx i rel n rel_var src dst ks p) =
   (case rp_length rel of
     Some vl \<Rightarrow> columns (var_length_plan ctx i rel vl rel_var src dst ks p)
   | None \<Rightarrow> columns p \<union> set (opt_list rel_var) \<union> {dst})"
  by (simp add: hop_operator_def split: option.split)

lemma plan_hop_ok:
  assumes "plan_hop ctx i rel n st = Inr st'" and ok: "hop_ok C V st"
  shows "hop_ok C V st'"
proof -
  obtain rel_var counter st1 dst st2 where
    name: "rel_var_name ctx rel st = Inr (rel_var, counter)" and
    st1: "st1 = enter_rel ctx rel rel_var counter st" and
    "dst = dst_name ctx i n st1" and
    "np_variable n = None \<or> Mapping.lookup (hop_kinds st1) dst \<notin> non_node_kinds" and
    st2: "st2 = add_dst_var ctx dst st1" and
    st': "st' = st2
       \<lparr>hop_plan := hop_operator ctx i rel n rel_var (last_node_var st) dst (hop_kinds st2) (hop_plan st),
        last_node_var := dst\<rparr>"
    using assms(1) by (rule plan_hop_Inr)
  let ?D = "columns (hop_plan st')"
  have base: "columns (hop_plan st) \<union> {dst} \<subseteq> ?D"
    by (auto simp: st' columns_hop_operator columns_var_length split: option.split)
  have rels: "set (new_rel_vars st1) \<subseteq> ?D \<and> visible (hop_kinds st1) \<subseteq> V \<union> ?D"
    using name
  proof (cases rule: rel_var_name_cases)
    case (own rv)
    show ?thesis
    proof (cases "Mapping.lookup (hop_kinds st) rv")
      case None
      then have "rv \<in> ?D"
        using own by (auto simp: st' st2 st1 columns_hop_operator columns_var_length is_prebound_list_def enter_rel_effect
            add_rel_var_effect add_dst_var_effect opt_list_def lookup_update' split: option.split if_splits)
      then show ?thesis
        using None own base ok by (auto simp: st1 enter_rel_effect add_rel_var_effect hop_ok_def)
    qed (use own base ok in \<open>auto simp: st1 enter_rel_effect add_rel_var_effect hop_ok_def\<close>)
  next
    case named
    then show ?thesis
      using base ok by (auto simp: st1 enter_rel_effect add_rel_var_effect hop_ok_def starts_with_def)
  next
    case tracked
    then have "''_anon_rel_'' @ decimal (anon_rel_counter st) \<in> ?D"
      by (auto simp: st' columns_hop_operator opt_list_def)
    then show ?thesis
      using tracked base ok by (auto simp: st1 enter_rel_effect add_rel_var_effect hop_ok_def split: if_splits)
  next
    case anonymous
    then show ?thesis
      using base ok by (auto simp: st1 enter_rel_effect hop_ok_def)
  qed
  have "set (new_node_vars st') \<subseteq> set (new_node_vars st) \<union> {dst}" "set (new_rel_vars st') = set (new_rel_vars st1)"
    "visible (hop_kinds st') \<subseteq> visible (hop_kinds st1) \<union> {dst}"
    by (auto simp: st' st2 st1 add_dst_var_effect enter_rel_effect)
  then show ?thesis
    using base rels ok by (auto simp: hop_ok_def)
qed

lemma plan_hops_ok: "plan_hops ctx i es st = Inr st' \<Longrightarrow> hop_ok C V st \<Longrightarrow> hop_ok C V st'"
  by (induction ctx i es st rule: plan_hops.induct) (auto simp: bindE_eq_Inr intro: plan_hop_ok)

lemma columns_first [simp]:
  "columns (bound_first v n p) = columns p"
  "columns (new_first cat opt v n p) = columns p \<union> {v}"
  by (auto simp: bound_first_def new_first_def Let_def columns_index_scan split: option.split LogicalPlan.split list.split)

lemma plan_pattern_columns:
  assumes "plan_pattern_onto cat pattern cur bound ks opt = Inr (p, ks', nodes, rels)"
  shows "columns cur \<union> set nodes \<union> set rels \<union> set (opt_list (p_variable pattern)) \<subseteq> columns p"
    and "visible ks' \<subseteq> visible ks \<union> columns p"
proof -
  obtain ctx rest st st' where hops: "plan_hops ctx 1 rest st = Inr st'"
    and start: "hop_ok (columns cur) (visible ks) st"
    and res: "p = (case p_variable pattern of
        Some path_name \<Rightarrow> NamedPath (hop_plan st') path_name (element_vars st') | None \<Rightarrow> hop_plan st')"
      "ks' = hop_kinds st'" "nodes = new_node_vars st'" "rels = new_rel_vars st'"
    using assms unfolding plan_pattern_onto_def Let_def bindE_eq_Inr
    by (fastforce simp: hop_ok_def bindE_eq_Inr split: list.splits PatternElement.splits if_splits)
  show "columns cur \<union> set nodes \<union> set rels \<union> set (opt_list (p_variable pattern)) \<subseteq> columns p"
    "visible ks' \<subseteq> visible ks \<union> columns p"
    using plan_hops_ok [OF hops start] by (auto simp: res hop_ok_def opt_list_def split: option.split)
qed

section \<open>The clauses\<close>

definition scoped :: "string set \<Rightarrow> scope \<Rightarrow> bool" where
  "scoped outer sc \<longleftrightarrow>
     bound_vars sc \<subseteq> outer \<union> columns (current sc) \<and> visible (var_kinds sc) \<subseteq> outer \<union> columns (current sc)"

lemma scopedI:
  "bound_vars sc \<subseteq> outer \<union> columns (current sc) \<Longrightarrow> visible (var_kinds sc) \<subseteq> outer \<union> columns (current sc) \<Longrightarrow>
   scoped outer sc"
  by (simp add: scoped_def)

text \<open>An operator that keeps the columns keeps the scope.\<close>

lemma scoped_current [simp]:
  "columns p = columns (current sc) \<Longrightarrow> scoped outer (sc\<lparr>current := p\<rparr>) = scoped outer sc"
  by (simp add: scoped_def)

lemma columns_pushdown: "columns (fst (apply_where_pushdown cat p eqs)) = columns p"
proof (induction p)
  case (LabelScan v label props opt needed)
  then show ?case
    by (cases label) (auto dest!: first_some_in simp: columns_index_scan split: option.split if_splits)
qed (simp_all add: case_prod_unfold Let_def)

lemma columns_push_where: "columns (fst (push_where cat p wc)) = columns p"
  using columns_pushdown [of cat p] by (simp add: push_where_def case_prod_unfold Let_def)

lemma columns_match_filter [simp]: "columns (match_filter cat patterns wh rels p) = columns p"
  using columns_push_where [of cat p]
  by (simp add: match_filter_def case_prod_unfold Let_def split: option.split)

lemma scoped_pattern:
  assumes "plan_pattern_onto cat pattern (current sc) (bound_vars sc) (var_kinds sc) opt = Inr (p, ks, nodes, rels)"
    and "scoped outer sc"
  shows "scoped outer \<lparr>current = p,
    bound_vars = bound_vars sc \<union> set (nodes @ rels @ opt_list (p_variable pattern)),
    var_kinds = foldl (\<lambda>ks v. Mapping.update v KindPath ks) ks (opt_list (p_variable pattern))\<rparr>"
  using plan_pattern_columns [OF assms(1)] assms(2)
    visible_updates [of KindPath ks "opt_list (p_variable pattern)"]
  by (simp add: scoped_def) blast

lemma push_new_set [simp]: "set (push_new xs vs) = set xs \<union> set vs"
  unfolding push_new_def by (induction vs arbitrary: xs) auto

lemma scoped_optional_match:
  assumes "plan_optional_match_left_join cat sc patterns wh = Inr sc'" and "scoped outer sc"
  shows "scoped outer sc'"
proof -
  let ?start = "(sc\<lparr>current := SingleRow\<rparr>, [])"
  obtain inner null_vars where fold: "foldE (optional_pattern cat) ?start patterns = Inr (inner, null_vars)"
    and sc': "current sc' = LeftJoin (current sc)
        (case wh of Some wh \<Rightarrow> Filter (current inner) wh | None \<Rightarrow> current inner) null_vars"
      "bound_vars sc' = bound_vars sc \<union> set null_vars"
      "var_kinds sc' = foldl (\<lambda>ks v. case Mapping.lookup (var_kinds inner) v of
          Some k \<Rightarrow> Mapping.update v k ks | None \<Rightarrow> ks) (var_kinds sc) null_vars"
    using assms(1) by (auto simp: plan_optional_match_left_join_def bindE_eq_Inr)
  have "case (inner, null_vars) of (inner, null_vars) \<Rightarrow> set null_vars \<subseteq> columns (current inner)"
    using fold
  proof (rule foldE_inv)
    fix s pattern s'
    assume IH: "case s of (inner, null_vars) \<Rightarrow> set null_vars \<subseteq> columns (current inner)"
      and step: "optional_pattern cat s pattern = Inr s'"
    obtain i n where s: "s = (i, n)"
      by force
    obtain p ks nodes rels where pat: "plan_pattern_onto cat pattern (current i) (bound_vars i) (var_kinds i) False =
        Inr (p, ks, nodes, rels)"
      and s': "current (fst s') = p" "snd s' = push_new n (nodes @ rels @ opt_list (p_variable pattern))"
      using step by (auto simp: s optional_pattern_def bindE_eq_Inr Let_def opt_list_def)
    show "case s' of (inner, null_vars) \<Rightarrow> set null_vars \<subseteq> columns (current inner)"
      using plan_pattern_columns(1) [OF pat] IH s s' by (auto simp: case_prod_unfold)
  qed simp
  moreover have "visible (foldl (\<lambda>ks v. case Mapping.lookup m v of Some k \<Rightarrow> Mapping.update v k ks | None \<Rightarrow> ks) ks vs)
    \<subseteq> visible ks \<union> set vs" for m :: kinds and ks vs
    by (induction vs arbitrary: ks) (force split: option.splits if_splits)+
  ultimately show ?thesis
    using assms(2) by (fastforce simp: scoped_def sc' split: option.split)
qed

lemma scoped_match:
  assumes "plan_match_clause cat sc patterns wh opt = Inr sc'" and "scoped outer sc"
  shows "scoped outer sc'"
proof (cases "opt \<and> needs_left_join (bound_vars sc) patterns wh")
  case False
  then obtain sc1 rels where fold: "foldE (match_pattern cat opt) (sc, []) patterns = Inr (sc1, rels)"
    and sc': "sc' = sc1\<lparr>current := match_filter cat patterns wh rels (current sc1)\<rparr>"
    using assms(1) by (auto simp: plan_match_clause_def bindE_eq_Inr)
  have "scoped outer (fst (sc1, rels))"
    using fold
  proof (rule foldE_inv)
    fix s pattern s'
    assume "scoped outer (fst s)" "match_pattern cat opt s pattern = Inr s'"
    then show "scoped outer (fst s')"
      by (auto simp: match_pattern_def bindE_eq_Inr Let_def opt_list_def [symmetric] split: prod.splits
          dest: scoped_pattern)
  qed (use assms(2) in simp)
  then show ?thesis
    using sc' by auto
qed (use assms in \<open>auto simp: plan_match_clause_def intro: scoped_optional_match\<close>)

lemma scoped_updates:
  assumes "scoped outer sc" and "bound_vars sc' \<subseteq> bound_vars sc \<union> vs"
    and "var_kinds sc' = foldl (\<lambda>ks v. Mapping.update v k ks) (var_kinds sc) us"
    and "columns (current sc) \<union> vs \<union> set us \<subseteq> columns (current sc')"
  shows "scoped outer sc'"
  using assms visible_updates [of k "var_kinds sc" us] unfolding scoped_def by (simp add: assms(3)) blast

lemma scoped_call_procedure:
  assumes "plan_call_procedure sc name args ys implicit = Inr sc'" and "scoped outer sc"
  shows "scoped outer sc'"
  using assms(1)
  by (intro scoped_updates [OF assms(2), where k = KindScalar and
        vs = "set (map yield_name (filter (\<lambda>y. fst y \<noteq> ''*'') ys))" and us = "map yield_name (filter (\<lambda>y. fst y \<noteq> ''*'') ys)"])
    (auto simp: plan_call_procedure_def bindE_eq_Inr Let_def)

text \<open>\<open>WITH\<close>: a column for every name that enters the scope, and for every one a star brings back.\<close>

lemma visible_star:
  "Mapping.keys (Mapping.filter (\<lambda>v _. \<not> starts_with ''_'' v) ks) = visible ks"
  by (auto simp: visible_def keys_dom_lookup lookup_filter dom_def split: option.splits if_splits)

lemma scoped_with_items:
  assumes "visible old \<subseteq> outer \<union> cols"
    and "bound \<subseteq> outer \<union> D" "visible ks \<subseteq> outer \<union> D"
    and "\<forall>item \<in> set items. item_columns cols item \<subseteq> D"
    and "foldl (with_item old) (bound, ks) items = (bound', ks')"
  shows "bound' \<subseteq> outer \<union> D \<and> visible ks' \<subseteq> outer \<union> D"
  using assms
proof (induction items arbitrary: bound ks)
  case (Cons item items)
  obtain b k where step: "with_item old (bound, ks) item = (b, k)"
    by force
  have "b \<subseteq> outer \<union> D \<and> visible k \<subseteq> outer \<union> D"
  proof (cases "ri_expr item = Star")
    case True
    then have "visible old \<subseteq> outer \<union> D"
      using Cons.prems(1, 4) by (auto simp: item_columns_def)
    moreover have "visible (Mapping.combine (\<lambda>new _. new) (Mapping.filter (\<lambda>v _. \<not> starts_with ''_'' v) old) ks)
        \<subseteq> visible old \<union> visible ks"
      using visible_star [of old] by (auto simp: visible_def)
    ultimately show ?thesis
      using step True Cons.prems(2, 3) by (simp add: with_item_def visible_star Let_def) blast
  next
    case False
    then show ?thesis
      using step Cons.prems(2-4)
      by (auto simp: with_item_def item_columns_def opt_list_def split: option.splits if_splits)
  qed
  then show ?case
    using Cons.IH [of b k] Cons.prems step by simp
qed simp

lemma scoped_with:
  assumes "plan_with sc dist items order_by skip limit wh = Inr sc'" and "scoped outer sc"
  shows "scoped outer sc'"
proof -
  obtain bound ks where items: "foldl (with_item (var_kinds sc)) ({}, Mapping.empty) items = (bound, ks)"
    by force
  let ?D = "\<Union>item \<in> set items. item_columns (columns (current sc)) item"
  have "bound \<subseteq> outer \<union> ?D \<and> visible ks \<subseteq> outer \<union> ?D"
    by (rule scoped_with_items [OF _ _ _ _ items, where cols = "columns (current sc)"])
      (use assms(2) in \<open>auto simp: scoped_def visible_def\<close>)
  moreover have "bound_vars sc' = bound" "var_kinds sc' = ks" "columns (current sc') = ?D"
    using assms(1) items by (auto simp: plan_with_def bindE_eq_Inr Let_def split: option.splits if_splits)
  ultimately show ?thesis
    by (simp add: scoped_def)
qed

lemma scoped_create:
  assumes "plan_create sc patterns = Inr sc'" and "scoped outer sc"
  shows "scoped outer sc'"
proof -
  obtain bound where fold: "foldE create_pattern (bound_vars sc) patterns = Inr bound"
    and sc': "sc' = sc\<lparr>current := CreatePattern (current sc) patterns, bound_vars := bound\<rparr>"
    using assms(1) by (auto simp: plan_create_def bindE_eq_Inr)
  let ?B = "outer \<union> columns (current sc) \<union> (\<Union>p \<in> set patterns. pattern_columns p)"
  have elem: "fst s' \<subseteq> fst s \<union> set (opt_list (elem_var e))" if "create_element alone s e = Inr s'" for alone s e s'
    using that by (auto simp: case_prod_unfold create_element_def bindE_eq_Inr elem_var_def opt_list_def
        split: PatternElement.splits option.splits if_splits)
  have pattern: "b' \<subseteq> b \<union> pattern_columns p" if p: "create_pattern b p = Inr b'" for b p b'
  proof -
    obtain pb where "foldE (create_element (length (elements p) = 1)) (b, b) (elements p) = Inr (b', pb)"
      using p by (auto simp: create_pattern_def bindE_eq_Inr)
    then have "fst (b', pb) \<subseteq> b \<union> pattern_columns p"
    proof (rule foldE_inv)
      fix s e s'
      assume "e \<in> set (elements p)" "fst s \<subseteq> b \<union> pattern_columns p"
        "create_element (length (elements p) = 1) s e = Inr s'"
      moreover from this have "fst s' \<subseteq> fst s \<union> set (opt_list (elem_var e))"
        by (intro elem)
      ultimately show "fst s' \<subseteq> b \<union> pattern_columns p"
        by (auto simp: pattern_columns_def)
    qed simp
    then show ?thesis
      by simp
  qed
  have "bound \<subseteq> ?B"
    using fold by (rule foldE_inv) (use assms(2) in \<open>auto simp: scoped_def dest!: pattern\<close>)
  then show ?thesis
    using assms(2) by (auto simp: sc' scoped_def)
qed

lemma scoped_merge:
  assumes "plan_merge sc pattern on_create on_match = Inr sc'" and "scoped outer sc"
  shows "scoped outer sc'"
  using assms(1)
  by (intro scoped_updates [OF assms(2), where k = KindPath and us = "opt_list (p_variable pattern)" and
        vs = "pattern_columns pattern \<union> set (opt_list (p_variable pattern))"])
    (auto simp: plan_merge_def bindE_eq_Inr Let_def pattern_columns_def)

section \<open>The scope and the rows\<close>

text \<open>
  The clauses that may stand before \<open>RETURN\<close> and leave the plan so far in place. A subquery must not rename a star: after
  \<open>CALL { ... RETURN * AS x }\<close> the planner takes \<open>x\<close> for bound, and no row has it.
\<close>

definition aliased_star :: "Expr ReturnItem \<Rightarrow> bool" where
  "aliased_star item \<longleftrightarrow> ri_expr item = Star \<and> ri_alias item \<noteq> None"

definition keeps_scope :: "catalog \<Rightarrow> clause \<Rightarrow> bool" where
  "keeps_scope cat c \<longleftrightarrow>
     (case c of
       Return _ _ _ _ _ \<Rightarrow> False
     | CallSubquery q \<Rightarrow>
         (case plan cat q of
           Inr (Project _ items _ _ _ _) \<Rightarrow> \<not> list_ex aliased_star items
         | _ \<Rightarrow> True)
     | QueryClause.CreateIndex _ _ \<Rightarrow> False | QueryClause.DropIndex _ _ \<Rightarrow> False
     | QueryClause.ShowIndexes \<Rightarrow> False | QueryClause.ShowConstraints \<Rightarrow> False
     | QueryClause.CreateConstraint _ _ _ \<Rightarrow> False | QueryClause.DropConstraint _ _ _ \<Rightarrow> False
     | _ \<Rightarrow> True)"

lemma projected_columns:
  assumes "case p of Project _ items _ _ _ _ \<Rightarrow> \<not> list_ex aliased_star items | _ \<Rightarrow> True"
  shows "collect_projected_vars p bound \<subseteq> bound \<union> columns p"
proof (cases p)
  case (Project inp items dist order_by skip limit)
  have "set (opt_list (exposed_name item)) \<subseteq> item_columns (columns inp) item" if "item \<in> set items" for item
    using assms that
    by (auto simp: Project list_ex_iff aliased_star_def item_columns_def exposed_name_def opt_list_def split: option.splits)
  then show ?thesis
    by (auto simp: Project collect_projected_vars_def)
qed (auto simp: collect_projected_vars_def)

lemma scoped_clause:
  assumes "plan_clause cat sc c = Inr sc'" and "keeps_scope cat c" and ok: "scoped outer sc"
  shows "scoped outer sc'"
proof (cases c)
  case (CallSubquery q)
  then obtain p where p: "plan cat q = Inr p"
      "sc' = sc\<lparr>current := Apply (current sc) p, bound_vars := collect_projected_vars p (bound_vars sc)\<rparr>"
    using assms(1) by (auto simp: plan_clause.simps bindE_eq_Inr)
  have "collect_projected_vars p (bound_vars sc) \<subseteq> bound_vars sc \<union> columns p"
    by (rule projected_columns) (use assms(2) CallSubquery p in \<open>simp add: keeps_scope_def\<close>)
  then show ?thesis
    using ok by (auto simp: p scoped_def)
next
  case (Unwind e a)
  then show ?thesis
    using assms(1) ok by (auto simp: plan_clause.simps plan_unwind_def scoped_def split: if_splits)
qed (use assms in \<open>auto simp: plan_clause.simps keeps_scope_def bindE_eq_Inr plan_return_def plan_set_def
    plan_delete_def intro: scoped_match scoped_call_procedure scoped_with scoped_create scoped_merge\<close>)

lemma visible_tabulate: "visible (Mapping.tabulate vs f) \<subseteq> set vs"
  by (auto simp: visible_def)


text \<open>A match, an unwinding, and the variables of both returned, next to a variable of an enclosing query.\<close>

definition bare_catalog :: catalog where
  "bare_catalog =
     \<lparr>label_id_by_name = (\<lambda>_. None), prop_key_id_by_name = (\<lambda>_. None), has_property_index = (\<lambda>_ _. False),
      count_label_nodes = (\<lambda>_. 0), estimate_total_nodes = 0, count_index_entries = (\<lambda>_ _. 0)\<rparr>"

definition sample_clauses :: "clause list" where
  "sample_clauses =
     [Match False [Pattern None [Node (NodePattern (Some ''a'') [''Person''] [] False)]] None,
      QueryClause.Unwind (List [IntLit 1, IntLit 2]) ''x'']"

definition sample_items :: "Expr ReturnItem list" where
  "sample_items = [ReturnItem (Variable ''a'') None, ReturnItem (Variable ''x'') (Some ''y'')]"


end
