(* ===== verification/CypherSolutions.thy ===== *)
theory CypherSolutions
  imports CypherScope
begin

text \<open>
  What a \<open>MATCH\<close> means, and that its plan means the same. An assignment of values to variables is a
  solution of a pattern when it maps the nodes and relationships of the pattern to nodes and edges of
  the graph that fit together; a plan of scans, expands, products and filters accepts an assignment when
  each of its operators does.
\<close>

section \<open>Solutions of patterns\<close>

text \<open>
  The graph and the evaluation of expressions are parameters. \<open>edge_to ts a e b\<close>: \<open>e\<close> is an edge from \<open>a\<close>
  to \<open>b\<close> whose type is among \<open>ts\<close>, where no types stand for any; \<open>edge_has\<close>: a property of an edge equals
  the value of an expression; \<open>holds\<close>: an expression evaluates to true.
\<close>

record 'a graph_sem =
  is_node :: "'a \<Rightarrow> bool"
  labelled :: "'a \<Rightarrow> string \<Rightarrow> bool"
  edge_to :: "string list \<Rightarrow> 'a \<Rightarrow> 'a \<Rightarrow> 'a \<Rightarrow> bool"
  edge_has :: "(string \<Rightarrow> 'a) \<Rightarrow> 'a \<Rightarrow> string \<times> Expr \<Rightarrow> bool"
  holds :: "(string \<Rightarrow> 'a) \<Rightarrow> Expr \<Rightarrow> bool"

text \<open>
  Edges join nodes, a conjunction is true when both sides are, a label test tests all its labels, and
  equality is symmetric.
\<close>

definition sem_ok :: "'a graph_sem \<Rightarrow> bool" where
  "sem_ok S \<longleftrightarrow>
     (\<forall>ts a e b. edge_to S ts a e b \<longrightarrow> is_node S a \<and> is_node S b) \<and>
     (\<forall>\<rho> a b. holds S \<rho> (And a b) \<longleftrightarrow> holds S \<rho> a \<and> holds S \<rho> b) \<and>
     (\<forall>\<rho> v labels. holds S \<rho> (HasLabel (Variable v) labels) \<longleftrightarrow> (\<forall>l \<in> set labels. labelled S (\<rho> v) l)) \<and>
     (\<forall>\<rho> a b. holds S \<rho> (Compare a Eq b) \<longleftrightarrow> holds S \<rho> (Compare b Eq a))"

lemma sem_okD:
  assumes "sem_ok S"
  shows "edge_to S ts a e b \<Longrightarrow> is_node S a" and "edge_to S ts a e b \<Longrightarrow> is_node S b"
    and "holds S \<rho> (And x y) \<longleftrightarrow> holds S \<rho> x \<and> holds S \<rho> y"
    and "holds S \<rho> (HasLabel (Variable v) labels) \<longleftrightarrow> (\<forall>l \<in> set labels. labelled S (\<rho> v) l)"
    and "holds S \<rho> (Compare x Eq y) = holds S \<rho> (Compare y Eq x)"
  using assms unfolding sem_ok_def by blast+

fun joined :: "'a graph_sem \<Rightarrow> RelDirection \<Rightarrow> string list \<Rightarrow> 'a \<Rightarrow> 'a \<Rightarrow> 'a \<Rightarrow> bool" where
  "joined S Out ts a e b = edge_to S ts a e b"
| "joined S In ts a e b = edge_to S ts b e a"
| "joined S Both ts a e b = (edge_to S ts a e b \<or> edge_to S ts b e a)"

definition node_sat :: "'a graph_sem \<Rightarrow> (string \<Rightarrow> 'a) \<Rightarrow> string \<Rightarrow> Expr NodePattern \<Rightarrow> bool" where
  "node_sat S \<rho> v n \<longleftrightarrow>
     is_node S (\<rho> v) \<and> (\<forall>l \<in> set (np_labels n). labelled S (\<rho> v) l) \<and>
     (\<forall>kv \<in> set (np_properties n). holds S \<rho> (prop_eq v kv))"

definition rel_sat :: "'a graph_sem \<Rightarrow> (string \<Rightarrow> 'a) \<Rightarrow> string \<Rightarrow> Expr RelPattern \<Rightarrow> string \<Rightarrow> string \<Rightarrow> bool" where
  "rel_sat S \<rho> a r e b \<longleftrightarrow>
     joined S (direction r) (rel_types r) (\<rho> a) (\<rho> e) (\<rho> b) \<and>
     (\<forall>kv \<in> set (rp_properties r). edge_has S \<rho> (\<rho> e) kv)"

text \<open>The hops of a pattern from the node \<open>a\<close> on; all elements have variables.\<close>

fun hops_sat :: "'a graph_sem \<Rightarrow> (string \<Rightarrow> 'a) \<Rightarrow> string \<Rightarrow> Expr PatternElement list \<Rightarrow> bool" where
  "hops_sat S \<rho> a [] = True"
| "hops_sat S \<rho> a (Relationship r # Node n # es) =
     (rel_sat S \<rho> a r (the (rp_variable r)) (the (np_variable n)) \<and>
      node_sat S \<rho> (the (np_variable n)) n \<and> hops_sat S \<rho> (the (np_variable n)) es)"
| "hops_sat S \<rho> a _ = False"

definition pattern_sat :: "'a graph_sem \<Rightarrow> (string \<Rightarrow> 'a) \<Rightarrow> Expr Pattern \<Rightarrow> bool" where
  "pattern_sat S \<rho> p \<longleftrightarrow>
     (case elements p of
       Node n # es \<Rightarrow> node_sat S \<rho> (the (np_variable n)) n \<and> hops_sat S \<rho> (the (np_variable n)) es
     | _ \<Rightarrow> False)"

text \<open>The relationship variables of a pattern, and those that \<open>seen\<close> does not have, without repetition.\<close>

definition rel_names :: "Expr Pattern \<Rightarrow> string list" where
  "rel_names p =
     concat (map (\<lambda>e. case e of Relationship r \<Rightarrow> opt_list (rp_variable r) | Node _ \<Rightarrow> []) (elements p))"

fun new_names :: "string set \<Rightarrow> string list \<Rightarrow> string list" where
  "new_names seen [] = []"
| "new_names seen (x # xs) = (if x \<in> seen then new_names seen xs else x # new_names (insert x seen) xs)"

text \<open>
  The solutions of consecutive \<open>MATCH\<close> clauses: each pattern and each \<open>WHERE\<close> is satisfied, and the
  relationships that a clause brings in are pairwise different.
\<close>

fun match_sat ::
    "'a graph_sem \<Rightarrow> (string \<Rightarrow> 'a) \<Rightarrow> string set \<Rightarrow> (Expr Pattern list \<times> Expr option) list \<Rightarrow> bool" where
  "match_sat S \<rho> seen [] = True"
| "match_sat S \<rho> seen ((ps, wh) # ms) =
     ((\<forall>p \<in> set ps. pattern_sat S \<rho> p) \<and>
      sorted_wrt (\<lambda>a b. holds S \<rho> (isomorphism_pair a b)) (new_names seen (concat (map rel_names ps))) \<and>
      (\<forall>e \<in> set (opt_list wh). holds S \<rho> e) \<and>
      match_sat S \<rho> (seen \<union> set (concat (map rel_names ps))) ms)"

text \<open>Patterns without a path name whose elements all have variables and whose hops have length one.\<close>

fun explicit_hops :: "'e PatternElement list \<Rightarrow> bool" where
  "explicit_hops [] = True"
| "explicit_hops (Relationship r # Node n # es) =
     (rp_variable r \<noteq> None \<and> rp_length r = None \<and> np_variable n \<noteq> None \<and> explicit_hops es)"
| "explicit_hops _ = False"

definition explicit :: "'e Pattern \<Rightarrow> bool" where
  "explicit p \<longleftrightarrow> p_variable p = None \<and>
     (case elements p of Node n # es \<Rightarrow> np_variable n \<noteq> None \<and> explicit_hops es | _ \<Rightarrow> False)"

section \<open>Solutions of plans\<close>

text \<open>
  What an assignment of all variables must satisfy to be among the rows of a plan. It says nothing about the
  order in which variables are bound; an index scan stands for the test of its equality.
\<close>

fun sat :: "'a graph_sem \<Rightarrow> (string \<Rightarrow> 'a) \<Rightarrow> LogicalPlan \<Rightarrow> bool" where
  "sat S \<rho> SingleRow = True"
| "sat S \<rho> (LabelScan v label props _ _) =
     (is_node S (\<rho> v) \<and> (\<forall>l \<in> set (opt_list label). labelled S (\<rho> v) l) \<and>
      (\<forall>kv \<in> set props. holds S \<rho> (prop_eq v kv)))"
| "sat S \<rho> (PropertyIndexScan v label _ prop _ value_expr rest _) =
     (is_node S (\<rho> v) \<and> labelled S (\<rho> v) label \<and>
      (\<forall>kv \<in> set ((prop, value_expr) # rest). holds S \<rho> (prop_eq v kv)))"
| "sat S \<rho> (Expand inp src_var rel_var dst_var types dir rel_props dst_labels dst_props _ _) =
     (sat S \<rho> inp \<and>
      (\<exists>e. (\<forall>rv \<in> set (opt_list rel_var). \<rho> rv = e) \<and> joined S dir types (\<rho> src_var) e (\<rho> dst_var) \<and>
        (\<forall>kv \<in> set rel_props. edge_has S \<rho> e kv)) \<and>
      (\<forall>l \<in> set dst_labels. labelled S (\<rho> dst_var) l) \<and>
      (\<forall>kv \<in> set dst_props. holds S \<rho> (prop_eq dst_var kv)))"
| "sat S \<rho> (CrossProduct left right) = (sat S \<rho> left \<and> sat S \<rho> right)"
| "sat S \<rho> (Filter inp predicate) = (sat S \<rho> inp \<and> holds S \<rho> predicate)"
| "sat S \<rho> _ = False"

section \<open>Index scans and the pushdown\<close>

lemma try_property_index_scan_sat:
  assumes "try_property_index_scan cat v label props opt = Some p"
  shows "sat S \<rho> p = sat S \<rho> (LabelScan v (Some label) props opt' needed)"
proof -
  have found: "i \<le> j \<and> j < i + length ps" if "find_indexed cat lid i ps = Some (j, k)" for lid i ps j k
    using that by (induction cat lid i ps rule: find_indexed.induct) (fastforce split: option.splits if_splits)+
  obtain i lid kid where i: "i < length props" and
    p: "p = PropertyIndexScan v label lid (fst (props ! i)) kid (snd (props ! i)) (take i props @ drop (Suc i) props) opt"
    using assms by (auto simp: try_property_index_scan_def case_prod_unfold Let_def
        split: if_splits option.splits dest!: found)
  have "set props = set (props ! i # take i props @ drop (Suc i) props)"
    using id_take_nth_drop [OF i] by (metis Un_insert_right list.simps(15) set_append)
  then show ?thesis
    by (auto simp: p opt_list_def)
qed

lemma pushdown_sat:
  assumes "apply_where_pushdown cat p eqs = (p', used)"
  shows "set used \<subseteq> {..<length eqs} \<and>
    (sat S \<rho> p' \<longleftrightarrow> sat S \<rho> p \<and>
      (\<forall>i \<in> set used. holds S \<rho> (prop_eq (fst (eqs ! i)) (snd (eqs ! i)))))"
  using assms
proof (induction p arbitrary: p' used)
  case (LabelScan v label props opt needed)
  show ?case
  proof (cases label)
    case (Some lname)
    let ?scan = "\<lambda>(i, eq_var, eq_prop, eq_val).
      if eq_var = v then
        map_option (\<lambda>idx_scan. (idx_scan, [i]))
          (try_property_index_scan cat v lname (props @ [(eq_prop, eq_val)]) opt)
      else None"
    show ?thesis
    proof (cases "first_some ?scan (enumerate 0 eqs)")
      case (Some r)
      then obtain i where i: "i < length eqs" and "?scan (i, eqs ! i) = Some r"
        by (fastforce dest!: first_some_in simp: in_set_enumerate_eq)
      then obtain scan where "fst (eqs ! i) = v" "r = (scan, [i])"
        and "try_property_index_scan cat v lname (props @ [snd (eqs ! i)]) opt = Some scan"
        by (auto simp: case_prod_unfold split: if_splits)
      then show ?thesis
        using i LabelScan \<open>label = Some lname\<close> Some try_property_index_scan_sat
        by (force simp: opt_list_def)
    qed (use LabelScan \<open>label = Some lname\<close> in simp)
  qed (use LabelScan in auto)
next
  case (Filter inp predicate)
  obtain n u where "apply_where_pushdown cat inp eqs = (n, u)"
    by fastforce
  then show ?case
    using Filter by auto
next
  case (Expand inp x3 x4 x5 x6 x7 x8 x9 x10 x11 x12)
  obtain n u where "apply_where_pushdown cat inp eqs = (n, u)"
    by fastforce
  then show ?case
    using Expand by auto
next
  case (CrossProduct left right)
  obtain l lu r ru where parts: "apply_where_pushdown cat left eqs = (l, lu)" "apply_where_pushdown cat right eqs = (r, ru)"
    by fastforce
  show ?case
    using CrossProduct.prems CrossProduct.IH(1) [OF parts(1)] CrossProduct.IH(2) [OF parts(2)]
    by (auto simp: parts)
qed auto

text \<open>A \<open>WHERE\<close> is its equalities and the rest.\<close>

lemma extract_holds:
  assumes "sem_ok S" and "extract_pushdown_equalities wc = (eqs, rest)"
  shows "holds S \<rho> wc \<longleftrightarrow>
    (\<forall>(v, kv) \<in> set eqs. holds S \<rho> (prop_eq v kv)) \<and> (\<forall>r \<in> set (opt_list rest). holds S \<rho> r)"
  using assms(2)
proof (induction wc arbitrary: eqs rest rule: extract_pushdown_equalities.induct)
  case (1 left right)
  obtain le lr re rr where parts: "extract_pushdown_equalities left = (le, lr)"
      "extract_pushdown_equalities right = (re, rr)"
    by fastforce
  have "eqs = le @ re" and rest: "opt_list rest = opt_list (case (lr, rr) of (Some l, Some r) \<Rightarrow> Some (And l r)
      | (Some l, None) \<Rightarrow> Some l | (None, Some l) \<Rightarrow> Some l | (None, None) \<Rightarrow> None)"
    using 1(3) by (simp_all add: parts)
  moreover have "(\<forall>r \<in> set (opt_list rest). holds S \<rho> r) \<longleftrightarrow>
      (\<forall>r \<in> set (opt_list lr). holds S \<rho> r) \<and> (\<forall>r \<in> set (opt_list rr). holds S \<rho> r)"
    unfolding rest by (cases lr; cases rr) (simp_all add: opt_list_def sem_okD(3) [OF assms(1)])
  ultimately show ?case
    unfolding sem_okD(3) [OF assms(1)] 1(1) [OF parts(1)] 1(2) [OF parts(1) [symmetric] refl parts(2)]
    by (simp add: ball_Un conj_ac)
next
  case (2 lhs rhs)
  have eq: "holds S \<rho> (Compare a Eq b) \<longleftrightarrow> holds S \<rho> (prop_eq v (p, e))" if "property_equality a b = Some (v, p, e)" for a b v p e
    using that by (auto simp: property_equality_def prop_eq_def split: Expr.splits if_splits)
  have sym: "holds S \<rho> (Compare lhs Eq rhs) \<longleftrightarrow> holds S \<rho> (Compare rhs Eq lhs)"
    by (rule sem_okD(5) [OF assms(1)])
  show ?case
  proof (cases "property_equality lhs rhs")
    case None
    with 2 sym eq [of rhs lhs] show ?thesis
      by (cases "property_equality rhs lhs") (simp_all only: extract_pushdown_equalities.simps option.case prod.inject, auto simp: opt_list_def)
  qed (use 2 eq [of lhs rhs] in \<open>auto simp: opt_list_def\<close>)
qed (auto simp: opt_list_def)

lemma rebuilt_holds:
  assumes "sem_ok S"
  shows "(\<forall>r \<in> set (opt_list (foldl (\<lambda>rebuilt (i, var, prop, val).
      if i \<in> used then rebuilt else conjoin rebuilt (prop_eq var (prop, val))) rest ieqs)). holds S \<rho> r) \<longleftrightarrow>
    (\<forall>r \<in> set (opt_list rest). holds S \<rho> r) \<and>
    (\<forall>(i, v, kv) \<in> set ieqs. i \<notin> used \<longrightarrow> holds S \<rho> (prop_eq v kv))"
proof (induction ieqs arbitrary: rest)
  case (Cons x ieqs)
  obtain i v k e where x: "x = (i, v, k, e)"
    by (cases x)
  have "(\<forall>r \<in> set (opt_list (conjoin rest (prop_eq v (k, e)))). holds S \<rho> r) \<longleftrightarrow>
      (\<forall>r \<in> set (opt_list rest). holds S \<rho> r) \<and> holds S \<rho> (prop_eq v (k, e))"
    by (simp add: conjoin_def opt_list_def sem_okD(3) [OF assms] split: option.split)
  then show ?case
    unfolding x foldl_Cons by (simp add: Cons del: foldl_Cons)
qed simp

lemma push_where_sat:
  assumes "sem_ok S" and "push_where cat p wc = (p', wh)"
  shows "sat S \<rho> p' \<and> (\<forall>e \<in> set (opt_list wh). holds S \<rho> e) \<longleftrightarrow> sat S \<rho> p \<and> holds S \<rho> wc"
proof -
  obtain eqs rest where parts: "extract_pushdown_equalities wc = (eqs, rest)"
    by fastforce
  obtain q used where push: "apply_where_pushdown cat p eqs = (q, used)"
    by fastforce
  have q: "set used \<subseteq> {..<length eqs}"
      "sat S \<rho> q \<longleftrightarrow> sat S \<rho> p \<and> (\<forall>i \<in> set used. holds S \<rho> (prop_eq (fst (eqs ! i)) (snd (eqs ! i))))"
    using pushdown_sat [OF push] by auto
  consider "eqs = []" "p' = p" "wh = Some wc" | "used = []" "p' = q" "wh = Some wc"
    | "p' = q" "wh = foldl (\<lambda>rebuilt (i, var, prop, val).
        if i \<in> set used then rebuilt else conjoin rebuilt (prop_eq var (prop, val))) rest (enumerate 0 eqs)"
    using assms(2) by (auto simp: push_where_def parts push split: if_splits)
  then show ?thesis
  proof cases
    case 3
    have "(\<forall>(v, kv) \<in> set eqs. holds S \<rho> (prop_eq v kv)) \<longleftrightarrow>
        (\<forall>i < length eqs. holds S \<rho> (prop_eq (fst (eqs ! i)) (snd (eqs ! i))))"
      by (simp add: all_set_conv_all_nth case_prod_unfold)
    moreover have "(\<forall>(i, v, kv) \<in> set (enumerate 0 eqs). i \<notin> set used \<longrightarrow> holds S \<rho> (prop_eq v kv)) \<longleftrightarrow>
        (\<forall>i < length eqs. i \<notin> set used \<longrightarrow> holds S \<rho> (prop_eq (fst (eqs ! i)) (snd (eqs ! i))))"
      by (simp add: all_set_conv_all_nth case_prod_unfold nth_enumerate_eq)
    ultimately show ?thesis
      unfolding 3(1) 3(2) rebuilt_holds [OF assms(1)] extract_holds [OF assms(1) parts] q(2)
      using q(1) by blast
  qed (use q in \<open>auto simp: opt_list_def\<close>)
qed

section \<open>Relationships are different\<close>

lemma isomorphism_holds:
  assumes "sem_ok S"
  shows "(\<forall>e \<in> set (opt_list (build_rel_isomorphism_filter vs)). holds S \<rho> e) \<longleftrightarrow>
    sorted_wrt (\<lambda>a b. holds S \<rho> (isomorphism_pair a b)) vs"
proof -
  have conj: "holds S \<rho> (foldl And p ps) \<longleftrightarrow> holds S \<rho> p \<and> (\<forall>e \<in> set ps. holds S \<rho> e)" for p ps
    by (induction ps arbitrary: p) (simp_all add: sem_okD(3) [OF assms])
  have pairs: "(\<forall>e \<in> set (isomorphism_pairs vs). holds S \<rho> e) \<longleftrightarrow>
      sorted_wrt (\<lambda>a b. holds S \<rho> (isomorphism_pair a b)) vs" for vs
    by (induction vs) (auto simp: ball_Un)
  consider "vs = []" | v where "vs = [v]" | a b ws where "vs = a # b # ws"
    by (cases vs rule: remdups_adj.cases) auto
  then show ?thesis
  proof cases
    case 3
    then show ?thesis
      by (simp add: build_rel_isomorphism_filter_def opt_list_def conj ball_Un pairs conj_ac)
  qed (simp_all add: build_rel_isomorphism_filter_def opt_list_def)
qed

lemma match_filter_sat:
  assumes "sem_ok S" and "single_edge_vars ps vs = vs"
  shows "sat S \<rho> (match_filter cat ps wh vs p) \<longleftrightarrow>
    sat S \<rho> p \<and> sorted_wrt (\<lambda>a b. holds S \<rho> (isomorphism_pair a b)) vs \<and> (\<forall>e \<in> set (opt_list wh). holds S \<rho> e)"
proof -
  obtain q wh' where q: "(case wh of Some wc \<Rightarrow> push_where cat p wc | None \<Rightarrow> (p, None)) = (q, wh')"
    by fastforce
  have "sat S \<rho> q \<and> (\<forall>e \<in> set (opt_list wh'). holds S \<rho> e) \<longleftrightarrow> sat S \<rho> p \<and> (\<forall>e \<in> set (opt_list wh). holds S \<rho> e)"
    using q push_where_sat [OF assms(1)] by (cases wh) (auto simp: opt_list_def)
  moreover have "sat S \<rho> (match_filter cat ps wh vs p) \<longleftrightarrow>
      sat S \<rho> q \<and> (\<forall>e \<in> set (opt_list (build_rel_isomorphism_filter vs)). holds S \<rho> e) \<and>
      (\<forall>e \<in> set (opt_list wh'). holds S \<rho> e)"
    by (auto simp: match_filter_def assms(2) q opt_list_def sem_okD(3) [OF assms(1)] split: option.split)
  ultimately show ?thesis
    unfolding isomorphism_holds [OF assms(1)] by blast
qed

lemma set_new_names: "set (new_names seen xs) = set xs - seen"
  by (induction xs arbitrary: seen) auto

lemma distinct_new_names: "distinct (new_names seen xs)"
  by (induction xs arbitrary: seen) (auto simp: set_new_names)

lemma new_names_append: "new_names seen (xs @ ys) = new_names seen xs @ new_names (seen \<union> set xs) ys"
  by (induction xs arbitrary: seen) (auto simp: insert_absorb)

lemma push_new_fresh: "distinct vs \<Longrightarrow> set vs \<inter> set xs = {} \<Longrightarrow> push_new xs vs = xs @ vs"
  unfolding push_new_def
proof (induction vs arbitrary: xs)
  case (Cons v vs)
  then show ?case
    using Cons.IH [of "xs @ [v]"] by simp
qed simp

section \<open>The hops of a pattern\<close>

definition rels_of :: "kinds \<Rightarrow> string set" where
  "rels_of ks = {v. Mapping.lookup ks v = Some KindRel}"

text \<open>All variables are nodes or relationships, and the plan makes sure of the nodes.\<close>

definition typed :: "'a graph_sem \<Rightarrow> (string \<Rightarrow> 'a) \<Rightarrow> LogicalPlan \<Rightarrow> kinds \<Rightarrow> bool" where
  "typed S \<rho> p ks \<longleftrightarrow>
     (\<forall>v k. Mapping.lookup ks v = Some k \<longrightarrow> k = KindRel \<or> k = KindNode \<and> (sat S \<rho> p \<longrightarrow> is_node S (\<rho> v)))"

definition hop_inv :: "'a graph_sem \<Rightarrow> (string \<Rightarrow> 'a) \<Rightarrow> string set \<Rightarrow> hop_state \<Rightarrow> bool" where
  "hop_inv S \<rho> bound st \<longleftrightarrow>
     typed S \<rho> (hop_plan st) (hop_kinds st) \<and>
     (\<forall>v \<in> bound \<union> set (new_node_vars st) \<union> set (new_rel_vars st). Mapping.lookup (hop_kinds st) v \<noteq> None)"

lemma plan_hop_sat:
  assumes "plan_hop ctx i rel n st = Inr st'" and "sem_ok S" and inv: "hop_inv S \<rho> (hop_bound ctx) st"
    and own: "rp_variable rel = Some rv" "rp_length rel = None" "np_variable n = Some w"
  shows "sat S \<rho> (hop_plan st') \<longleftrightarrow>
      sat S \<rho> (hop_plan st) \<and> rel_sat S \<rho> (last_node_var st) rel rv w \<and> node_sat S \<rho> w n"
    and "last_node_var st' = w"
    and "new_rel_vars st' = new_rel_vars st @ new_names (rels_of (hop_kinds st)) [rv]"
    and "rels_of (hop_kinds st') = insert rv (rels_of (hop_kinds st))"
    and "hop_inv S \<rho> (hop_bound ctx) st'"
proof -
  obtain rel_var counter st1 dst st2 where
    name: "rel_var_name ctx rel st = Inr (rel_var, counter)" and
    st1: "st1 = enter_rel ctx rel rel_var counter st" and
    "dst = dst_name ctx i n st1" and
    kind: "np_variable n = None \<or> Mapping.lookup (hop_kinds st1) dst \<notin> non_node_kinds" and
    st2: "st2 = add_dst_var ctx dst st1" and
    st': "st' = st2
       \<lparr>hop_plan := hop_operator ctx i rel n rel_var (last_node_var st) dst (hop_kinds st2) (hop_plan st),
        last_node_var := dst\<rparr>"
    using assms(1) by (rule plan_hop_Inr)
  then have dst: "dst = w"
    by (simp add: dst_name_def own)
  have rv: "rel_var = Some rv" "Mapping.lookup (hop_kinds st) rv \<in> {None, Some KindRel}"
    using name by (auto simp: rel_var_name_def own split: if_splits)
  show last: "last_node_var st' = w"
    by (simp add: st' dst)
  have joins: "joined S dir ts a e b \<Longrightarrow> is_node S b" for dir ts a e b
    using sem_okD(1,2) [OF assms(2)] by (cases dir) auto
  show sat: "sat S \<rho> (hop_plan st') \<longleftrightarrow>
      sat S \<rho> (hop_plan st) \<and> rel_sat S \<rho> (last_node_var st) rel rv w \<and> node_sat S \<rho> w n"
    by (auto simp: st' dst rv hop_operator_def own rel_sat_def node_sat_def opt_list_def dest: joins)
  have ks1: "hop_kinds st1 = (if Mapping.lookup (hop_kinds st) rv = None then Mapping.update rv KindRel (hop_kinds st)
      else hop_kinds st)"
    by (simp add: st1 rv enter_rel_effect add_rel_var_effect)
  then have rels1: "rels_of (hop_kinds st1) = insert rv (rels_of (hop_kinds st))"
    using rv by (auto simp: rels_of_def lookup_update')
  have ks': "hop_kinds st' = (if w \<notin> hop_bound ctx \<and> w \<notin> set (new_node_vars st)
      then Mapping.update w KindNode (hop_kinds st1) else hop_kinds st1)"
    by (simp add: st' st2 dst add_dst_var_effect st1 enter_rel_effect)
  show "new_rel_vars st' = new_rel_vars st @ new_names (rels_of (hop_kinds st)) [rv]"
    using rv by (auto simp: st' st2 st1 add_dst_var_effect enter_rel_effect add_rel_var_effect own rels_of_def)
  have "Mapping.lookup (hop_kinds st1) w \<noteq> Some KindRel"
    using kind by (auto simp: dst own non_node_kinds_def)
  then show "rels_of (hop_kinds st') = insert rv (rels_of (hop_kinds st))"
    unfolding rels1 [symmetric] ks' by (auto simp: rels_of_def lookup_update')
  have "typed S \<rho> (hop_plan st') (hop_kinds st')"
    using inv sat unfolding typed_def hop_inv_def ks' ks1
    by (auto simp: lookup_update' node_sat_def split: if_splits)
  moreover have "Mapping.lookup (hop_kinds st') v \<noteq> None"
    if "v \<in> hop_bound ctx \<union> set (new_node_vars st') \<union> set (new_rel_vars st')" for v
    using that inv unfolding ks' ks1 hop_inv_def
    by (auto simp: lookup_update' st' st2 st1 dst rv own add_dst_var_effect enter_rel_effect add_rel_var_effect split: if_splits)
  ultimately show "hop_inv S \<rho> (hop_bound ctx) st'"
    by (simp add: hop_inv_def)
qed

fun hop_names :: "'e PatternElement list \<Rightarrow> string list" where
  "hop_names [] = []"
| "hop_names (Relationship r # es) = opt_list (rp_variable r) @ hop_names es"
| "hop_names (Node n # es) = hop_names es"

lemma plan_hops_sat:
  assumes "plan_hops ctx i es st = Inr st'" and "sem_ok S" and "hop_inv S \<rho> (hop_bound ctx) st" and "explicit_hops es"
  shows "(sat S \<rho> (hop_plan st') \<longleftrightarrow> sat S \<rho> (hop_plan st) \<and> hops_sat S \<rho> (last_node_var st) es) \<and>
    new_rel_vars st' = new_rel_vars st @ new_names (rels_of (hop_kinds st)) (hop_names es) \<and>
    rels_of (hop_kinds st') = rels_of (hop_kinds st) \<union> set (hop_names es) \<and>
    hop_inv S \<rho> (hop_bound ctx) st'"
  using assms(1,3,4)
proof (induction ctx i es st rule: plan_hops.induct)
  case (3 ctx i rel n es st)
  obtain st1 where st1: "plan_hop ctx i rel n st = Inr st1" "plan_hops ctx (i + 2) es st1 = Inr st'"
    using 3(2) by (auto simp: bindE_eq_Inr)
  obtain rv w where own: "rp_variable rel = Some rv" "rp_length rel = None" "np_variable n = Some w"
    using 3(4) by auto
  note hop = plan_hop_sat [OF st1(1) assms(2) 3(3) own]
  have "explicit_hops es"
    using 3(4) by simp
  from 3(1) [OF st1 hop(5) this] show ?case
    unfolding hop(1-4) using new_names_append [of "rels_of (hop_kinds st)" "[rv]" "hop_names es"]
    by (auto simp: own opt_list_def hop(2))
qed simp_all

lemma prop_filters_sat:
  "sat S \<rho> (prop_filters v props p) \<longleftrightarrow> sat S \<rho> p \<and> (\<forall>kv \<in> set props. holds S \<rho> (prop_eq v kv))"
  unfolding prop_filters_def by (induction props arbitrary: p) auto

lemma new_first_sat:
  assumes "sem_ok S"
  shows "sat S \<rho> (new_first cat opt v n cur) \<longleftrightarrow> sat S \<rho> cur \<and> node_sat S \<rho> v n"
proof -
  let ?label = "case np_labels n of l # _ \<Rightarrow> Some l | [] \<Rightarrow> None"
  define scan where "scan = (case (case ?label of
      Some lname \<Rightarrow> try_property_index_scan cat v lname (np_properties n) opt | None \<Rightarrow> None) of
    Some scan \<Rightarrow> scan | None \<Rightarrow> LabelScan v ?label (np_properties n) opt None)"
  have scan: "sat S \<rho> scan = sat S \<rho> (LabelScan v ?label (np_properties n) opt None)"
    unfolding scan_def
    by (auto split: option.split list.split simp: try_property_index_scan_sat simp del: sat.simps)
  have labels: "sat S \<rho> (foldl (\<lambda>p l. label_filter v [l] p) p ls) \<longleftrightarrow> sat S \<rho> p \<and> (\<forall>l \<in> set ls. labelled S (\<rho> v) l)"
    for p ls
    by (induction ls arbitrary: p) (auto simp: label_filter_def sem_okD(4) [OF assms])
  have join: "sat S \<rho> (case cur of SingleRow \<Rightarrow> scan | other \<Rightarrow> CrossProduct other scan) \<longleftrightarrow> sat S \<rho> cur \<and> sat S \<rho> scan"
    by (cases cur) simp_all
  show ?thesis
    unfolding new_first_def Let_def scan_def [symmetric] labels join scan
    by (cases "np_labels n") (auto simp: node_sat_def opt_list_def)
qed

lemma bound_first_sat:
  assumes "sem_ok S"
  shows "sat S \<rho> (bound_first v n p) \<longleftrightarrow>
    sat S \<rho> p \<and> (\<forall>l \<in> set (np_labels n). labelled S (\<rho> v) l) \<and> (\<forall>kv \<in> set (np_properties n). holds S \<rho> (prop_eq v kv))"
  by (auto simp: bound_first_def prop_filters_sat label_filter_def sem_okD(4) [OF assms])

section \<open>Patterns\<close>

definition scope_inv :: "'a graph_sem \<Rightarrow> (string \<Rightarrow> 'a) \<Rightarrow> string set \<Rightarrow> LogicalPlan \<Rightarrow> kinds \<Rightarrow> bool" where
  "scope_inv S \<rho> bound p ks \<longleftrightarrow> typed S \<rho> p ks \<and> (\<forall>v \<in> bound. Mapping.lookup ks v \<noteq> None)"

lemma hop_names_concat:
  "hop_names es = concat (map (\<lambda>e. case e of Relationship r \<Rightarrow> opt_list (rp_variable r) | Node _ \<Rightarrow> []) es)"
  by (induction es rule: hop_names.induct) simp_all

lemma plan_pattern_sat:
  assumes "plan_pattern_onto cat pat cur bound ks False = Inr (p, ks', nodes, rels)"
    and "sem_ok S" and inv: "scope_inv S \<rho> bound cur ks" and "explicit pat"
  shows "sat S \<rho> p \<longleftrightarrow> sat S \<rho> cur \<and> pattern_sat S \<rho> pat"
    and "rels = new_names (rels_of ks) (rel_names pat)"
    and "rels_of ks' = rels_of ks \<union> set (rel_names pat)"
    and "scope_inv S \<rho> (bound \<union> set (nodes @ rels)) p ks'"
proof -
  obtain n es v where pat: "elements pat = Node n # es" "np_variable n = Some v" "explicit_hops es" "p_variable pat = None"
    using assms(4) by (auto simp: explicit_def split: list.splits PatternElement.splits)
  define st where "st =
    \<lparr>hop_plan = (if v \<in> bound then bound_first v n cur else new_first cat False v n cur),
     hop_kinds = (if v \<in> bound then ks else Mapping.update v KindNode ks),
     new_node_vars = (if v \<in> bound then [] else [v]), new_rel_vars = [], element_vars = [],
     anon_rel_counter = 0, last_node_var = v\<rparr>"
  obtain ctx st' where hops: "plan_hops ctx 1 es st = Inr st'" "hop_bound ctx = bound"
    and res: "p = hop_plan st'" "ks' = hop_kinds st'" "nodes = new_node_vars st'" "rels = new_rel_vars st'"
    and kind: "Mapping.lookup ks v \<notin> non_node_kinds"
    using assms(1) unfolding plan_pattern_onto_def pat list.case PatternElement.case option.case Let_def
    by (auto simp: bindE_eq_Inr st_def split: if_splits)
  have node: "v \<in> bound \<Longrightarrow> sat S \<rho> cur \<Longrightarrow> is_node S (\<rho> v)"
    using inv kind by (fastforce simp: scope_inv_def typed_def non_node_kinds_def)
  have first: "sat S \<rho> (hop_plan st) \<longleftrightarrow> sat S \<rho> cur \<and> node_sat S \<rho> v n"
    using node by (auto simp: st_def new_first_sat [OF assms(2)] bound_first_sat [OF assms(2)] node_sat_def)
  have "hop_inv S \<rho> (hop_bound ctx) st"
    using inv first unfolding hop_inv_def hops(2) scope_inv_def typed_def
    by (auto simp: st_def lookup_update' node_sat_def split: if_splits)
  note hop = plan_hops_sat [OF hops(1) assms(2) this pat(3)]
  have "rels_of (hop_kinds st) = rels_of ks"
    using kind by (auto simp: st_def rels_of_def lookup_update' non_node_kinds_def)
  moreover have "rel_names pat = hop_names es"
    by (simp add: rel_names_def pat hop_names_concat)
  ultimately show "rels = new_names (rels_of ks) (rel_names pat)" "rels_of ks' = rels_of ks \<union> set (rel_names pat)"
    using hop by (simp_all add: res st_def)
  show "sat S \<rho> p \<longleftrightarrow> sat S \<rho> cur \<and> pattern_sat S \<rho> pat"
    using hop first by (auto simp: res pattern_sat_def pat st_def)
  show "scope_inv S \<rho> (bound \<union> set (nodes @ rels)) p ks'"
    using hop by (auto simp: res scope_inv_def hop_inv_def hops(2))
qed

section \<open>The clause\<close>

lemma explicit_rel_names:
  assumes "explicit pat" and "rv \<in> set (rel_names pat)"
  shows "list_ex (\<lambda>e. is_fixed_rel e \<and> elem_var e = Some rv) (elements pat)"
proof -
  have "list_ex (\<lambda>e. is_fixed_rel e \<and> elem_var e = Some rv) es" if "explicit_hops es" "rv \<in> set (hop_names es)"
    for es :: "Expr PatternElement list"
    using that by (induction es rule: explicit_hops.induct) (auto simp: opt_list_def is_fixed_rel_def elem_var_def)
  then show ?thesis
    using assms by (auto simp: explicit_def rel_names_def hop_names_concat opt_list_def
        split: list.splits PatternElement.splits)
qed

lemma match_patterns_sat:
  assumes "foldE (match_pattern cat False) (sc, vs) ps = Inr (sc', vs')"
    and "sem_ok S" and "scope_inv S \<rho> (bound_vars sc) (current sc) (var_kinds sc)"
    and "\<forall>p \<in> set ps. explicit p" and "set vs \<subseteq> rels_of (var_kinds sc)"
  shows "(sat S \<rho> (current sc') \<longleftrightarrow> sat S \<rho> (current sc) \<and> (\<forall>p \<in> set ps. pattern_sat S \<rho> p)) \<and>
    vs' = vs @ new_names (rels_of (var_kinds sc)) (concat (map rel_names ps)) \<and>
    rels_of (var_kinds sc') = rels_of (var_kinds sc) \<union> set (concat (map rel_names ps)) \<and>
    scope_inv S \<rho> (bound_vars sc') (current sc') (var_kinds sc')"
  using assms(1,3-5)
proof (induction ps arbitrary: sc vs)
  case (Cons p ps)
  have p: "explicit p" "p_variable p = None"
    using Cons.prems(3) by (auto simp: explicit_def)
  then obtain q ks nodes rels where
    pat: "plan_pattern_onto cat p (current sc) (bound_vars sc) (var_kinds sc) False = Inr (q, ks, nodes, rels)"
    and rest: "foldE (match_pattern cat False)
      (\<lparr>current = q, bound_vars = bound_vars sc \<union> set (nodes @ rels), var_kinds = ks\<rparr>, push_new vs rels) ps = Inr (sc', vs')"
    using Cons.prems(1) by (auto simp: match_pattern_def bindE_eq_Inr Let_def)
  note step = plan_pattern_sat [OF pat assms(2) Cons.prems(2) p(1)]
  have "push_new vs rels = vs @ rels"
    using Cons.prems(4) by (intro push_new_fresh) (auto simp: step(2) distinct_new_names set_new_names)
  moreover from this have "set (push_new vs rels) \<subseteq> rels_of ks"
    using Cons.prems(4) by (auto simp: step(2,3) set_new_names)
  ultimately show ?case
    using Cons.IH [OF rest] Cons.prems(3) step by (simp add: new_names_append Un_assoc conj_assoc)
qed simp

lemma match_clause_sat:
  assumes "plan_match_clause cat sc ps wh False = Inr sc'"
    and "sem_ok S" and "scope_inv S \<rho> (bound_vars sc) (current sc) (var_kinds sc)" and "\<forall>p \<in> set ps. explicit p"
  shows "(sat S \<rho> (current sc') \<longleftrightarrow> sat S \<rho> (current sc) \<and> match_sat S \<rho> (rels_of (var_kinds sc)) [(ps, wh)]) \<and>
    rels_of (var_kinds sc') = rels_of (var_kinds sc) \<union> set (concat (map rel_names ps)) \<and>
    scope_inv S \<rho> (bound_vars sc') (current sc') (var_kinds sc')"
proof -
  obtain sc1 vs where fold: "foldE (match_pattern cat False) (sc, []) ps = Inr (sc1, vs)"
    and sc': "sc' = sc1\<lparr>current := match_filter cat ps wh vs (current sc1)\<rparr>"
    using assms(1) by (auto simp: plan_match_clause_def bindE_eq_Inr)
  have ps: "sat S \<rho> (current sc1) \<longleftrightarrow> sat S \<rho> (current sc) \<and> (\<forall>p \<in> set ps. pattern_sat S \<rho> p)"
      "vs = new_names (rels_of (var_kinds sc)) (concat (map rel_names ps))"
      "rels_of (var_kinds sc1) = rels_of (var_kinds sc) \<union> set (concat (map rel_names ps))"
      "scope_inv S \<rho> (bound_vars sc1) (current sc1) (var_kinds sc1)"
    using match_patterns_sat [OF fold assms(2-4)] by auto
  have "set vs \<subseteq> (\<Union>p \<in> set ps. set (rel_names p))"
    by (auto simp: ps(2) set_new_names)
  then have "single_edge_vars ps vs = vs"
    unfolding single_edge_vars_def using explicit_rel_names assms(4)
    by (intro filter_True) (fastforce simp: list_ex_iff)
  note sat = match_filter_sat [OF assms(2) this, of \<rho> cat wh "current sc1"]
  have "scope_inv S \<rho> (bound_vars sc1) (match_filter cat ps wh vs (current sc1)) (var_kinds sc1)"
    using ps(4) sat by (auto simp: scope_inv_def typed_def)
  then show ?thesis
    using ps sat by (simp add: sc' conj_ac)
qed

lemma plan_clause_read:
  "plan_clause cat sc (Match opt ps wh) = plan_match_clause cat sc ps wh opt"
  "plan_clause cat sc (Return dist items order_by skip limit) = plan_return sc dist items order_by skip limit"
  by (simp_all add: plan_clause.simps)

lemma match_clauses_sat:
  assumes "foldE (plan_clause cat) sc (map (\<lambda>(ps, wh). Match False ps wh) ms) = Inr sc'"
    and "sem_ok S" and "scope_inv S \<rho> (bound_vars sc) (current sc) (var_kinds sc)"
    and "\<forall>(ps, wh) \<in> set ms. \<forall>p \<in> set ps. explicit p"
  shows "sat S \<rho> (current sc') \<longleftrightarrow> sat S \<rho> (current sc) \<and> match_sat S \<rho> (rels_of (var_kinds sc)) ms"
  using assms(1,3,4)
proof (induction ms arbitrary: sc)
  case (Cons m ms)
  obtain ps wh where m: "m = (ps, wh)"
    by force
  obtain sc1 where sc1: "plan_match_clause cat sc ps wh False = Inr sc1"
      "foldE (plan_clause cat) sc1 (map (\<lambda>(ps, wh). Match False ps wh) ms) = Inr sc'"
    using Cons.prems(1) by (auto simp: m bindE_eq_Inr plan_clause_read)
  have "\<forall>p \<in> set ps. explicit p" and rest: "\<forall>(ps, wh) \<in> set ms. \<forall>p \<in> set ps. explicit p"
    using Cons.prems(3) by (auto simp: m)
  with match_clause_sat [OF sc1(1) assms(2) Cons.prems(2)]
  have step: "sat S \<rho> (current sc1) \<longleftrightarrow> sat S \<rho> (current sc) \<and> match_sat S \<rho> (rels_of (var_kinds sc)) [(ps, wh)]"
    "rels_of (var_kinds sc1) = rels_of (var_kinds sc) \<union> set (concat (map rel_names ps))"
    "scope_inv S \<rho> (bound_vars sc1) (current sc1) (var_kinds sc1)"
    by blast+
  show ?case
    using Cons.IH [OF sc1(2) step(3) rest] step(1,2) by (auto simp: m)
qed simp

section \<open>Optimisations\<close>

lemma joined_reverse: "dir \<in> {Out, In} \<Longrightarrow> joined S (reverse_direction dir) ts b e a = joined S dir ts a e b"
  by (cases dir) auto

lemma reversed_expand_sat:
  assumes "sem_ok S"
    and "reversed_expand cat inp src_var rel_var dst_var types dir rel_props dst_labels dst_props opt = Some q"
  shows "sat S \<rho> q = sat S \<rho> (Expand inp src_var rel_var dst_var types dir rel_props dst_labels dst_props opt needed)"
proof -
  obtain src_label needed' dst_label where inp: "inp = LabelScan src_var src_label [] False needed'"
      and dst: "dst_labels = [dst_label]" "dir \<in> {Out, In}"
    and q: "q = Expand
      (case (if dst_props \<noteq> [] then try_property_index_scan cat dst_var dst_label dst_props False else None) of
        Some scan \<Rightarrow> scan | None \<Rightarrow> LabelScan dst_var (Some dst_label) dst_props False None)
      dst_var rel_var src_var types (reverse_direction dir) rel_props (opt_list src_label) [] opt None"
    using assms(2) by (auto simp: reversed_expand_def Let_def split: LogicalPlan.splits list.splits bool.splits if_splits)
  define scan where "scan = (case (if dst_props \<noteq> [] then try_property_index_scan cat dst_var dst_label dst_props False else None) of
        Some scan \<Rightarrow> scan | None \<Rightarrow> LabelScan dst_var (Some dst_label) dst_props False None)"
  have "sat S \<rho> scan = sat S \<rho> (LabelScan dst_var (Some dst_label) dst_props False None)"
    unfolding scan_def by (auto split: option.split simp: try_property_index_scan_sat simp del: sat.simps)
  moreover have "joined S dir ts a e b \<Longrightarrow> is_node S a \<and> is_node S b" for ts a e b
    using sem_okD(1,2) [OF assms(1)] by (cases dir) auto
  ultimately show ?thesis
    unfolding q scan_def [symmetric] inp dst(1)
    by (auto simp: opt_list_def joined_reverse [OF dst(2)] split: option.split)
qed

lemma optimize_sat: "sem_ok S \<Longrightarrow> sat S \<rho> (optimize_join_order_inner cat p) = sat S \<rho> p"
proof (induction p)
  case (Expand inp src_var rel_var dst_var types dir rel_props dst_labels dst_props opt needed)
  let ?inp = "optimize_join_order_inner cat inp"
  show ?case
  proof (cases "reversed_expand cat ?inp src_var rel_var dst_var types dir rel_props dst_labels dst_props opt")
    case (Some q)
    then show ?thesis
      using Expand reversed_expand_sat [OF Expand.prems Some] by (simp add: optimize_simps)
  qed (use Expand in \<open>simp add: optimize_simps\<close>)
qed (auto simp: optimize_simps smaller_first_def)

lemma annotate_sat: "sat S \<rho> (annotate_plan needed p) = sat S \<rho> p"
  by (induction needed p rule: annotate_plan.induct) simp_all


section \<open>An example\<close>

text \<open>
  Two people who know each other: the nodes 0 and 1, aged 30 and 40, and the edges 2 and 3. The catalog has an index on
  the age of people, so that the \<open>WHERE\<close> of the query moves into an index scan.
\<close>

definition sample_value :: "(string \<Rightarrow> nat) \<Rightarrow> Expr \<Rightarrow> nat option" where
  "sample_value \<rho> e =
     (case e of
       Property base k \<Rightarrow>
         (case base of Variable v \<Rightarrow> if k = ''age'' then map_of [(0, 30), (1, 40)] (\<rho> v) else None | _ \<Rightarrow> None)
     | IntLit i \<Rightarrow> Some (unat i)
     | FunctionCall f args \<Rightarrow> (case args of [Variable v] \<Rightarrow> Some (\<rho> v) | _ \<Rightarrow> None)
     | _ \<Rightarrow> None)"

fun sample_holds :: "(string \<Rightarrow> nat) \<Rightarrow> Expr \<Rightarrow> bool" where
  "sample_holds \<rho> (And a b) = (sample_holds \<rho> a \<and> sample_holds \<rho> b)"
| "sample_holds \<rho> (Or a b) = (sample_holds \<rho> a \<or> sample_holds \<rho> b)"
| "sample_holds \<rho> (HasLabel e labels) =
     (case e of Variable v \<Rightarrow> \<forall>l \<in> set labels. \<rho> v < 2 \<and> l = ''Person'' | _ \<Rightarrow> False)"
| "sample_holds \<rho> (Compare a op b) =
     (case (sample_value \<rho> a, sample_value \<rho> b) of
       (Some x, Some y) \<Rightarrow> if op = Eq then x = y else op = Neq \<and> x \<noteq> y
     | _ \<Rightarrow> False)"
| "sample_holds \<rho> _ = False"

definition sample_sem :: "nat graph_sem" where
  "sample_sem =
     \<lparr>is_node = (\<lambda>n. n < 2), labelled = (\<lambda>n l. n < 2 \<and> l = ''Person''),
      edge_to = (\<lambda>ts a e b. (a, e, b) \<in> {(0, 2, 1), (1, 3, 0)} \<and> (ts = [] \<or> ''KNOWS'' \<in> set ts)),
      edge_has = (\<lambda>_ _ _. False), holds = sample_holds\<rparr>"

lemma sample_sem_ok: "sem_ok sample_sem"
  by (auto simp: sem_ok_def sample_sem_def split: option.splits)

definition indexed_catalog :: catalog where
  "indexed_catalog = bare_catalog
     \<lparr>label_id_by_name := (\<lambda>_. Some 1), prop_key_id_by_name := (\<lambda>_. Some 2), has_property_index := (\<lambda>_ _. True)\<rparr>"

definition sample_matches :: "(Expr Pattern list \<times> Expr option) list" where
  "sample_matches =
     [([Pattern None
          [Node (NodePattern (Some ''a'') [''Person''] [] False),
           Relationship (RelPattern (Some ''r'') [''KNOWS''] Out [] None),
           Node (NodePattern (Some ''b'') [''Person''] [] False),
           Relationship (RelPattern (Some ''s'') [''KNOWS''] Out [] None),
           Node (NodePattern (Some ''c'') [] [] False)]],
       Some (Compare (Property (Variable ''a'') ''age'') Eq (IntLit 30)))]"

definition sample_row :: "string \<Rightarrow> nat" where
  "sample_row = (\<lambda>_. 0)(''b'' := 1, ''r'' := 2, ''s'' := 3)"


end
