(* ===== verification/CypherExplain.thy ===== *)
theory CypherExplain
  imports CypherPlanner
begin

text \<open>
  The text of \<open>EXPLAIN\<close>, from \<open>cypher/planner.rs\<close>. \<open>debug\<close> is the derived \<open>Debug\<close> output of an expression.
\<close>

definition line_break :: string where
  "line_break = [CHR 0x0A]"

fun join :: "string \<Rightarrow> string list \<Rightarrow> string" where
  "join sep [] = []"
| "join sep [x] = x"
| "join sep (x # xs) = x @ sep @ join sep xs"

definition indent_text :: "nat \<Rightarrow> string" where
  "indent_text n = concat (replicate n ''  '')"

definition direction_text :: "RelDirection \<Rightarrow> string" where
  "direction_text dir = (case dir of Out \<Rightarrow> ''->'' | In \<Rightarrow> ''<-'' | Both \<Rightarrow> ''--'')"

definition types_text :: "string list \<Rightarrow> string" where
  "types_text types = (if types = [] then ''*'' else join ''|'' types)"

definition var_text :: "string option \<Rightarrow> string" where
  "var_text v = (case v of Some v \<Rightarrow> v | None \<Rightarrow> ''_'')"

definition rows_text :: "int \<Rightarrow> string \<Rightarrow> string" where
  "rows_text n what = '' [est. '' @ decimal (nat n) @ what"

definition column_text :: "(Expr \<Rightarrow> string) \<Rightarrow> Expr ReturnItem \<Rightarrow> string" where
  "column_text debug item =
     (case ri_alias item of
       Some a \<Rightarrow> debug (ri_expr item) @ '' AS '' @ a
     | None \<Rightarrow> debug (ri_expr item))"

definition label_rows :: "catalog \<Rightarrow> string option \<Rightarrow> int" where
  "label_rows cat label =
     (case label of Some l \<Rightarrow> count_label_nodes cat l | None \<Rightarrow> estimate_total_nodes cat)"

fun explain :: "(Expr \<Rightarrow> string) \<Rightarrow> catalog \<Rightarrow> LogicalPlan \<Rightarrow> nat \<Rightarrow> string" where
  "explain debug cat (LabelScan v label inline_props _ _) ind =
     (let label_str = (case label of Some l \<Rightarrow> l | None \<Rightarrow> ''*'');
          props_str = (if inline_props = [] then [] else '' props=['' @ join '', '' (map fst inline_props) @ '']'')
      in indent_text ind @ ''LabelScan('' @ v @ '':'' @ label_str @ props_str @ '')'' @
         rows_text (label_rows cat label) '' rows]'')"
| "explain debug cat (Expand inp src_var rel_var dst_var types dir _ dst_labels _ _ _) ind =
     (let dst_label_str = (if dst_labels = [] then [] else '':'' @ join '':'' dst_labels);
          n = label_rows cat (case dst_labels of l # _ \<Rightarrow> Some l | [] \<Rightarrow> None)
      in indent_text ind @ ''Expand('' @ src_var @ '')-['' @ var_text rel_var @ '':'' @ types_text types @ '']'' @
         direction_text dir @ ''('' @ dst_var @ dst_label_str @ '')'' @ rows_text n '' dst rows]'' @
         line_break @ explain debug cat inp (ind + 1))"
| "explain debug cat (CrossProduct left right) ind =
     indent_text ind @ ''CrossProduct'' @ line_break @ explain debug cat left (ind + 1) @ line_break @
     explain debug cat right (ind + 1)"
| "explain debug cat (Filter inp predicate) ind =
     indent_text ind @ ''Filter('' @ debug predicate @ '')'' @ line_break @ explain debug cat inp (ind + 1)"
| "explain debug cat (Project inp items dist _ _ _) ind =
     indent_text ind @ ''Project'' @ (if dist then '' DISTINCT'' else []) @ ''('' @
     join '', '' (map (column_text debug) items) @ '')'' @ line_break @ explain debug cat inp (ind + 1)"
| "explain debug cat SingleRow ind = indent_text ind @ ''SingleRow''"
| "explain debug cat (Unwind inp e alias) ind =
     indent_text ind @ ''Unwind('' @ debug e @ '' AS '' @ alias @ '')'' @ line_break @
     explain debug cat inp (ind + 1)"
| "explain debug cat (VarLengthExpand inp src_var rel_var dst_var types dir lo hi _ _ _) ind =
     (let range =
        (case hi of
          Some hi \<Rightarrow> ''*'' @ decimal (unat lo) @ ''..'' @ decimal (unat hi)
        | None \<Rightarrow> ''*'' @ decimal (unat lo) @ ''..'')
      in indent_text ind @ ''VarLengthExpand('' @ src_var @ '')-['' @ var_text rel_var @ '':'' @ types_text types @
         '' '' @ range @ '']'' @ direction_text dir @ ''('' @ dst_var @ '')'' @ line_break @
         explain debug cat inp (ind + 1))"
| "explain debug cat (BoundRelListExpand inp src_var list_var dst_var dir) ind =
     indent_text ind @ ''BoundRelListExpand('' @ src_var @ '')-['' @ list_var @ ''*]'' @ direction_text dir @
     ''('' @ dst_var @ '')'' @ line_break @ explain debug cat inp (ind + 1)"
| "explain debug cat (NamedPath inp path_var elems) ind =
     indent_text ind @ ''NamedPath('' @ path_var @ '' = ['' @ join '', '' elems @ ''])'' @ line_break @
     explain debug cat inp (ind + 1)"
| "explain debug cat (Apply outer inner) ind =
     indent_text ind @ ''Apply'' @ line_break @ explain debug cat outer (ind + 1) @ line_break @
     explain debug cat inner (ind + 1)"
| "explain debug cat (LeftJoin outer inner null_vars) ind =
     indent_text ind @ ''LeftJoin(null_vars=['' @ join '', '' null_vars @ ''])'' @ line_break @
     explain debug cat outer (ind + 1) @ line_break @ explain debug cat inner (ind + 1)"
| "explain debug cat Empty ind = indent_text ind @ ''Empty''"
| "explain debug cat (CallProcedure inp proc_name _ _ _) ind =
     indent_text ind @ ''CallProcedure('' @ proc_name @ '')'' @ line_break @ explain debug cat inp (ind + 1)"
| "explain debug cat (CreatePattern inp _) ind =
     indent_text ind @ ''CreatePattern'' @ line_break @ explain debug cat inp (ind + 1)"
| "explain debug cat (SetProp inp items) ind =
     indent_text ind @ ''SetProp('' @ decimal (length items) @ '' items)'' @ line_break @
     explain debug cat inp (ind + 1)"
| "explain debug cat (RemoveProp inp items) ind =
     indent_text ind @ ''RemoveProp('' @ decimal (length items) @ '' items)'' @ line_break @
     explain debug cat inp (ind + 1)"
| "explain debug cat (DeleteNodes inp _ detach) ind =
     indent_text ind @ (if detach then ''DETACH '' else []) @ ''DeleteNodes'' @ line_break @
     explain debug cat inp (ind + 1)"
| "explain debug cat (MergePattern inp _ _ _) ind =
     indent_text ind @ ''MergePattern'' @ line_break @ explain debug cat inp (ind + 1)"
| "explain debug cat (Foreach inp variable _ _) ind =
     indent_text ind @ ''Foreach('' @ variable @ '' IN list)'' @ line_break @ explain debug cat inp (ind + 1)"
| "explain debug cat (Union left right all) ind =
     indent_text ind @ ''Union'' @ (if all then ''ALL'' else []) @ line_break @
     explain debug cat left (ind + 1) @ line_break @ explain debug cat right (ind + 1)"
| "explain debug cat (PropertyIndexScan v label label_id prop key_id _ _ _) ind =
     indent_text ind @ ''PropertyIndexScan('' @ v @ '':'' @ label @ '' ['' @ prop @ ''=?])'' @
     rows_text (count_index_entries cat label_id key_id) '' rows]''"
| "explain debug cat (CreateIndex label prop) ind =
     indent_text ind @ ''CreateIndex(:'' @ label @ ''('' @ prop @ ''))''"
| "explain debug cat (DropIndex label prop) ind =
     indent_text ind @ ''DropIndex(:'' @ label @ ''('' @ prop @ ''))''"
| "explain debug cat ShowIndexes ind = indent_text ind @ ''ShowIndexes''"
| "explain debug cat (CreateConstraint label prop kind) ind =
     indent_text ind @ ''CreateConstraint(:'' @ label @ ''('' @ prop @ '') '' @ kind @ '')''"
| "explain debug cat (DropConstraint label prop kind) ind =
     indent_text ind @ ''DropConstraint(:'' @ label @ ''('' @ prop @ '') '' @ kind @ '')''"
| "explain debug cat ShowConstraints ind = indent_text ind @ ''ShowConstraints''"

text \<open>
  The elements of a named path as \<open>exec_pattern_inline\<close> derives them again, for a pattern behind
  \<open>shortestPath\<close> or in a comprehension. The counters are those of \<open>plan_pattern_onto\<close>, but no name is
  made fresh, and a variable-length relationship has its own name here.
\<close>

fun inline_element_vars :: "nat \<Rightarrow> nat \<Rightarrow> 'e PatternElement list \<Rightarrow> string list" where
  "inline_element_vars counter i [] = []"
| "inline_element_vars counter i (Node _ # es) = inline_element_vars counter (i + 1) es"
| "inline_element_vars counter i (Relationship rel # es) =
     (let (rel_var, counter) =
        (case rp_variable rel of
          Some rv \<Rightarrow> (rv, counter)
        | None \<Rightarrow> (''_pr_'' @ decimal counter, Suc counter))
      in case es of
        Node n # es' \<Rightarrow>
          rel_var # (case np_variable n of Some v \<Rightarrow> v | None \<Rightarrow> ''_anon_n'' @ decimal (i + 1)) #
          inline_element_vars counter (i + 2) es'
      | _ \<Rightarrow> [rel_var])"

definition inline_path_elements :: "Expr Pattern \<Rightarrow> string list" where
  "inline_path_elements pattern =
     (if p_variable pattern = None then []
      else case elements pattern of
        Node n # rest \<Rightarrow>
          (case np_variable n of Some v \<Rightarrow> v | None \<Rightarrow> ''_anon_n0'') # inline_element_vars 0 1 rest
      | _ \<Rightarrow> [])"

end
