(* ===== verification/ExecFloat.thy ===== *)
theory ExecFloat
  imports CypherAnalysis
begin

text \<open>
  The \<open>f64\<close> of Rust as its bit pattern: comparisons, casts and arithmetic with the rounding of IEEE 754, as
  \<open>cypher/executor.rs\<close> uses them.
\<close>

section \<open>Order\<close>

text \<open>\<open>std::cmp::Ordering\<close>.\<close>

datatype Ordering = Less | Equal | Greater

definition ord_of :: "'a::linorder \<Rightarrow> 'a \<Rightarrow> Ordering" where
  "ord_of x y = (if x < y then Less else if x = y then Equal else Greater)"

fun reverse_ord :: "Ordering \<Rightarrow> Ordering" where
  "reverse_ord Less = Greater"
| "reverse_ord Equal = Equal"
| "reverse_ord Greater = Less"

definition f64_negative :: "u64 \<Rightarrow> bool" where
  "f64_negative x \<longleftrightarrow> 0x8000000000000000 \<le> x"

definition f64_magnitude :: "u64 \<Rightarrow> nat" where
  "f64_magnitude x = unat (x AND 0x7FFFFFFFFFFFFFFF)"

text \<open>Without NaN, the order of floats is that of these integers; both zeros are 0.\<close>

definition f64_key :: "u64 \<Rightarrow> int" where
  "f64_key x = (if f64_negative x then - int (f64_magnitude x) else int (f64_magnitude x))"

definition f64_partial_cmp :: "u64 \<Rightarrow> u64 \<Rightarrow> Ordering option" where
  "f64_partial_cmp x y =
     (if f64_is_nan x \<or> f64_is_nan y then None else Some (ord_of (f64_key x) (f64_key y)))"

section \<open>Values\<close>

text \<open>A finite float is \<open>(- 1) ^ s * significand * 2 ^ exponent\<close>.\<close>

definition f64_significand :: "u64 \<Rightarrow> nat" where
  "f64_significand x =
     (let m = f64_magnitude x in if m < 2 ^ 52 then m else m mod 2 ^ 52 + 2 ^ 52)"

definition f64_exponent :: "u64 \<Rightarrow> int" where
  "f64_exponent x = int (max 1 (f64_magnitude x div 2 ^ 52)) - 1075"

definition f64_is_infinite :: "u64 \<Rightarrow> bool" where
  "f64_is_infinite x \<longleftrightarrow> f64_magnitude x = F64_INFINITY"

definition f64_is_zero :: "u64 \<Rightarrow> bool" where
  "f64_is_zero x \<longleftrightarrow> f64_magnitude x = 0"

definition F64_NAN :: u64 where "F64_NAN = 0x7FF8000000000000"

definition f64_signed :: "bool \<Rightarrow> nat \<Rightarrow> u64" where
  "f64_signed neg m = (if neg then 0x8000000000000000 else 0) + of_nat m"

definition f64_neg :: "u64 \<Rightarrow> u64" where
  "f64_neg x = x XOR 0x8000000000000000"

text \<open>\<open>i as f64\<close>, and \<open>f as i64\<close>, which saturates and takes NaN to 0.\<close>

definition i64_as_f64 :: "i64 \<Rightarrow> u64" where
  "i64_as_f64 i = f64_signed (sint i < 0) (f64_of_ratio (nat \<bar>sint i\<bar>) 1)"

definition f64_truncated :: "u64 \<Rightarrow> int" where
  "f64_truncated x =
     (let n = scale2 (f64_significand x) (f64_exponent x) div scale2 1 (- f64_exponent x)
      in if f64_negative x then - int n else int n)"

definition f64_as_i64 :: "u64 \<Rightarrow> i64" where
  "f64_as_i64 x =
     (if f64_is_nan x then 0
      else word_of_int (max (- (2 ^ 63)) (min (2 ^ 63 - 1) (f64_truncated x))))"

text \<open>\<open>f.fract() != 0.0\<close>.\<close>

definition f64_has_fract :: "u64 \<Rightarrow> bool" where
  "f64_has_fract x \<longleftrightarrow>
     f64_is_nan x \<or> f64_is_infinite x \<or>
     f64_significand x mod scale2 1 (- f64_exponent x) \<noteq> 0"

section \<open>Arithmetic\<close>

text \<open>The significand as an integer in units of \<open>2 ^ k\<close>, for \<open>k\<close> up to the exponent.\<close>

definition f64_units :: "int \<Rightarrow> u64 \<Rightarrow> int" where
  "f64_units k x =
     (let n = int (scale2 (f64_significand x) (f64_exponent x - k)) in if f64_negative x then - n else n)"

definition f64_add :: "u64 \<Rightarrow> u64 \<Rightarrow> u64" where
  "f64_add x y =
     (if f64_is_nan x \<or> f64_is_nan y then F64_NAN
      else if f64_is_infinite x then
        (if f64_is_infinite y \<and> f64_negative x \<noteq> f64_negative y then F64_NAN else x)
      else if f64_is_infinite y then y
      else
        let k = min (f64_exponent x) (f64_exponent y);
            s = f64_units k x + f64_units k y
        in if s = 0 then f64_signed (f64_negative x \<and> f64_negative y) 0
           else f64_signed (s < 0) (f64_of_ratio (scale2 (nat \<bar>s\<bar>) k) (scale2 1 (- k))))"

definition f64_sub :: "u64 \<Rightarrow> u64 \<Rightarrow> u64" where
  "f64_sub x y = (if f64_is_nan y then F64_NAN else f64_add x (f64_neg y))"

definition f64_mul :: "u64 \<Rightarrow> u64 \<Rightarrow> u64" where
  "f64_mul x y =
     (let neg = (f64_negative x \<noteq> f64_negative y) in
      if f64_is_nan x \<or> f64_is_nan y then F64_NAN
      else if f64_is_infinite x \<or> f64_is_infinite y then
        (if f64_is_zero x \<or> f64_is_zero y then F64_NAN else f64_signed neg F64_INFINITY)
      else
        let k = f64_exponent x + f64_exponent y
        in f64_signed neg
             (f64_of_ratio (scale2 (f64_significand x * f64_significand y) k) (scale2 1 (- k))))"

definition f64_div :: "u64 \<Rightarrow> u64 \<Rightarrow> u64" where
  "f64_div x y =
     (let neg = (f64_negative x \<noteq> f64_negative y) in
      if f64_is_nan x \<or> f64_is_nan y then F64_NAN
      else if f64_is_infinite x then (if f64_is_infinite y then F64_NAN else f64_signed neg F64_INFINITY)
      else if f64_is_infinite y then f64_signed neg 0
      else if f64_is_zero y then (if f64_is_zero x then F64_NAN else f64_signed neg F64_INFINITY)
      else
        let k = f64_exponent x - f64_exponent y
        in f64_signed neg
             (f64_of_ratio (scale2 (f64_significand x) k) (scale2 (f64_significand y) (- k))))"

text \<open>\<open>%\<close> has the sign of the dividend and is exact.\<close>

definition f64_rem :: "u64 \<Rightarrow> u64 \<Rightarrow> u64" where
  "f64_rem x y =
     (if f64_is_nan x \<or> f64_is_nan y \<or> f64_is_infinite x \<or> f64_is_zero y then F64_NAN
      else if f64_is_infinite y then x
      else
        let k = min (f64_exponent x) (f64_exponent y);
            r = nat \<bar>f64_units k x\<bar> mod nat \<bar>f64_units k y\<bar>
        in f64_signed (f64_negative x) (f64_of_ratio (scale2 r k) (scale2 1 (- k))))"

section \<open>The cast of an integer\<close>

lemma bit_len_pos: "0 < n \<Longrightarrow> bit_len n = Suc (bit_len (n div 2))"
  by (subst bit_len.simps) simp

lemma bit_len_bounds: "0 < n \<Longrightarrow> 2 ^ (bit_len n - 1) \<le> n \<and> n < 2 ^ bit_len n"
proof (induction n rule: bit_len.induct)
  case (1 n)
  show ?case
  proof (cases "n = 1")
    case True
    then show ?thesis
      by (simp add: bit_len.simps)
  next
    case False
    then have IH: "2 ^ (bit_len (n div 2) - 1) \<le> n div 2" "n div 2 < 2 ^ bit_len (n div 2)" and "0 < n div 2"
      using 1 by auto
    then obtain k where k: "bit_len (n div 2) = Suc k"
      by (meson bit_len_pos)
    have "2 ^ k \<le> n div 2" "n div 2 < 2 * 2 ^ k"
      using IH by (simp_all add: k)
    then have "2 * 2 ^ k \<le> n" "n < 2 * (2 * 2 ^ k)"
      by linarith+
    then show ?thesis
      using 1(2) by (simp add: bit_len_pos [of n] k)
  qed
qed

text \<open>Up to \<open>2 ^ 53\<close> the cast is exact, and so keeps the order.\<close>

lemma f64_of_small:
  assumes "0 < n" and "n < 2 ^ 53"
  shows "f64_of_ratio n 1 = (bit_len n + 1021) * 2 ^ 52 + n * 2 ^ (53 - bit_len n)"
    and "f64_of_ratio n 1 < (bit_len n + 1023) * 2 ^ 52" and "(bit_len n + 1022) * 2 ^ 52 \<le> f64_of_ratio n 1"
proof -
  let ?b = "bit_len n"
  have b: "0 < ?b" "2 ^ (?b - 1) \<le> n" "n < 2 ^ ?b"
    using assms(1) bit_len_bounds [of n] by (simp_all add: bit_len_pos)
  have "?b - 1 < 53"
    by (rule power_less_imp_less_exp [of "2::nat"]) (use b(2) assms(2) in simp_all)
  then have "?b \<le> 53"
    by simp
  have "(2::nat) ^ ?b = 2 ^ (?b - 1) * 2 ^ 1"
    using b(1) by (subst power_add [symmetric]) simp
  have scaled: "2 ^ 52 \<le> n * 2 ^ (53 - ?b)" "n * 2 ^ (53 - ?b) < 2 ^ 53"
  proof -
    have "(2::nat) ^ 52 = 2 ^ (?b - 1) * 2 ^ (53 - ?b)" "(2::nat) ^ 53 = 2 ^ ?b * 2 ^ (53 - ?b)"
      using b(1) \<open>?b \<le> 53\<close> by (simp_all flip: power_add)
    then show "2 ^ 52 \<le> n * 2 ^ (53 - ?b)" "n * 2 ^ (53 - ?b) < 2 ^ 53"
      using b(2,3) by (simp_all only: mult_le_mono1 mult_less_mono1 zero_less_power zero_less_numeral)
  qed
  have "bit_len 1 = 1"
    by (simp add: bit_len.simps)
  then have e: "(if scale2 1 (int ?b - int (bit_len 1)) \<le> scale2 n (- (int ?b - int (bit_len 1)))
      then int ?b - int (bit_len 1) else int ?b - int (bit_len 1) - 1) = int ?b - 1"
    using b by (simp add: scale2_def nat_diff_distrib' flip: of_nat_Suc) (auto simp: nat_diff_distrib)
  have exponent: "max (int ?b - 1 - 52) (- 1074) = int ?b - 53"
    by simp
  have significand: "round_div (scale2 n (- (int ?b - 53))) (scale2 1 (int ?b - 53)) = n * 2 ^ (53 - ?b)"
    using \<open>?b \<le> 53\<close> by (cases "?b = 53") (simp_all add: scale2_def round_div_def nat_diff_distrib')
  have eq: "f64_of_ratio n 1 = min (nat (int ?b - 53 + 1074) * 2 ^ 52 + n * 2 ^ (53 - ?b)) F64_INFINITY"
    unfolding f64_of_ratio_def Let_def e exponent significand using assms(1) by simp
  have k: "nat (int ?b - 53 + 1074) = ?b + 1021"
    by simp
  have "(?b + 1021) * 2 ^ 52 + n * 2 ^ (53 - ?b) < F64_INFINITY"
    using scaled \<open>?b \<le> 53\<close> by (simp add: F64_INFINITY_def)
  then show val: "f64_of_ratio n 1 = (?b + 1021) * 2 ^ 52 + n * 2 ^ (53 - ?b)"
    unfolding eq k by simp
  show "f64_of_ratio n 1 < (?b + 1023) * 2 ^ 52" "(?b + 1022) * 2 ^ 52 \<le> f64_of_ratio n 1"
    unfolding val using scaled by (simp_all add: algebra_simps)
qed

lemma f64_of_ratio_0 [simp]: "f64_of_ratio 0 q = 0"
  by (simp add: f64_of_ratio_def)

lemma bit_len_mono: "m \<le> n \<Longrightarrow> bit_len m \<le> bit_len n"
proof (cases "m = 0")
  case False
  assume "m \<le> n"
  then have "(2::nat) ^ (bit_len m - 1) < 2 ^ bit_len n"
    using False bit_len_bounds [of m] bit_len_bounds [of n] by linarith
  then have "bit_len m - 1 < bit_len n"
    by (rule power_less_imp_less_exp [rotated]) simp
  then show ?thesis
    by simp
qed (simp add: bit_len.simps)

lemma f64_of_ratio_less:
  assumes "m < n" and "n < 2 ^ 53"
  shows "f64_of_ratio m 1 < f64_of_ratio n 1"
proof (cases "m = 0")
  case True
  then show ?thesis
    using f64_of_small(3) [of n] assms by simp
next
  case False
  note m = f64_of_small [of m] and n = f64_of_small [of n]
  consider "bit_len m = bit_len n" | "bit_len m + 1 \<le> bit_len n"
    using bit_len_mono [of m n] assms by linarith
  then show ?thesis
  proof cases
    case 1
    then show ?thesis
      using m(1) n(1) assms False by simp
  next
    case 2
    then have "(bit_len m + 1023) * 2 ^ 52 \<le> (bit_len n + 1022) * (2::nat) ^ 52"
      by (intro mult_right_mono) simp_all
    then show ?thesis
      using m(2) n(3) assms False by linarith
  qed
qed

lemma f64_of_ratio_below: "n < 2 ^ 53 \<Longrightarrow> f64_of_ratio n 1 < F64_INFINITY"
proof (cases "n = 0")
  case False
  assume n: "n < 2 ^ 53"
  have "bit_len n \<le> bit_len (2 ^ 53 - 1)"
    using n by (intro bit_len_mono) simp
  also have "\<dots> = 53"
    by (simp add: bit_len.simps)
  finally have "(bit_len n + 1023) * 2 ^ 52 \<le> F64_INFINITY"
    by (simp add: F64_INFINITY_def)
  then show ?thesis
    using f64_of_small(2) [of n] n False by linarith
qed (simp add: F64_INFINITY_def)

lemma f64_signed_parts:
  assumes "m < 2 ^ 63"
  shows "f64_magnitude (f64_signed neg m) = m" and "f64_negative (f64_signed neg m) = neg"
proof -
  have of: "unat (of_nat m :: u64) = m"
    using assms by (simp add: unat_of_nat)
  have "unat (f64_signed neg m) = (if neg then 2 ^ 63 else 0) + m"
    using assms of by (simp add: f64_signed_def unat_word_ariths)
  moreover have "x AND 0x7FFFFFFFFFFFFFFF = take_bit 63 x" for x :: u64
    by (simp add: take_bit_eq_mask mask_eq_exp_minus_1)
  ultimately show "f64_magnitude (f64_signed neg m) = m" "f64_negative (f64_signed neg m) = neg"
    using assms by (auto simp: f64_magnitude_def f64_negative_def unsigned_take_bit_eq take_bit_nat_def word_le_nat_alt)
qed

lemma i64_as_f64_parts:
  assumes "\<bar>sint i\<bar> < 2 ^ 53"
  shows "f64_key (i64_as_f64 i) = (if sint i < 0 then - int (f64_of_ratio (nat \<bar>sint i\<bar>) 1) else int (f64_of_ratio (nat \<bar>sint i\<bar>) 1))"
    and "\<not> f64_is_nan (i64_as_f64 i)"
proof -
  let ?m = "f64_of_ratio (nat \<bar>sint i\<bar>) 1"
  have "?m < F64_INFINITY"
    using assms by (intro f64_of_ratio_below) simp
  then have "?m < 2 ^ 63"
    by (simp add: F64_INFINITY_def)
  note parts = f64_signed_parts [OF this]
  show "f64_key (i64_as_f64 i) = (if sint i < 0 then - int ?m else int ?m)"
    unfolding f64_key_def i64_as_f64_def parts by simp
  have "f64_magnitude (i64_as_f64 i) \<le> F64_INFINITY"
    unfolding i64_as_f64_def parts using \<open>?m < F64_INFINITY\<close> by simp
  then show "\<not> f64_is_nan (i64_as_f64 i)"
    by (simp add: f64_is_nan_def f64_magnitude_def word_less_nat_alt F64_INFINITY_def)
qed

lemma i64_as_f64_less:
  assumes "\<bar>sint i\<bar> < 2 ^ 53" and "\<bar>sint j\<bar> < 2 ^ 53" and "sint i < sint j"
  shows "f64_key (i64_as_f64 i) < f64_key (i64_as_f64 j)"
proof -
  have less: "nat a < nat b \<Longrightarrow> b < 2 ^ 53 \<Longrightarrow> f64_of_ratio (nat a) 1 < f64_of_ratio (nat b) 1" for a b :: int
    by (rule f64_of_ratio_less) simp_all
  consider "sint j < 0" | "sint i < 0" "0 \<le> sint j" | "0 \<le> sint i"
    using assms(3) by linarith
  then show ?thesis
  proof cases
    case 1
    then show ?thesis
      using less [of "- sint j" "- sint i"] assms by (simp add: i64_as_f64_parts)
  next
    case 2
    then show ?thesis
      using less [of 0 "- sint i"] assms by (simp add: i64_as_f64_parts)
  next
    case 3
    then show ?thesis
      using less [of "sint i" "sint j"] assms by (simp add: i64_as_f64_parts)
  qed
qed

end
