(* ===== verification/ExecDuration.thy ===== *)
theory ExecDuration
  imports ExecFloat RustJson "HOL-Library.Signed_Division"
begin

text \<open>
  The durations of \<open>cypher/executor.rs\<close> and their arithmetic. Integer operations wrap around at 64 bits, as
  in a release build; division and remainder truncate. The totals of a duration are what its arithmetic
  promises, so long as no operation wraps.
\<close>

section \<open>Integers\<close>

definition i64_div :: "i64 \<Rightarrow> i64 \<Rightarrow> i64" where
  "i64_div a b = word_of_int (sint a sdiv sint b)"

definition i64_rem :: "i64 \<Rightarrow> i64 \<Rightarrow> i64" where
  "i64_rem a b = word_of_int (sint a smod sint b)"

definition unsigned_abs :: "i64 \<Rightarrow> nat" where
  "unsigned_abs i = nat \<bar>sint i\<bar>"

definition i64_text :: "i64 \<Rightarrow> string" where
  "i64_text i = (if sint i < 0 then ''-'' else []) @ decimal (unsigned_abs i)"

definition I64_MIN :: i64 where "I64_MIN = 0x8000000000000000"

text \<open>The bounds of a signed result that did not wrap.\<close>

definition in_i64 :: "int \<Rightarrow> bool" where
  "in_i64 k \<longleftrightarrow> - (2 ^ 63) \<le> k \<and> k < 2 ^ 63"

lemma sint_of_int: "in_i64 k \<Longrightarrow> sint (word_of_int k :: i64) = k"
  by (simp add: in_i64_def signed_of_int signed_take_bit_int_eq_self)

lemma sint_plus: "in_i64 (sint a + sint b) \<Longrightarrow> sint (a + b) = sint a + sint b" for a b :: i64
  using sint_of_int [of "sint a + sint b"] by simp

lemma sint_diff: "in_i64 (sint a - sint b) \<Longrightarrow> sint (a - b) = sint a - sint b" for a b :: i64
  using sint_of_int [of "sint a - sint b"] by simp

lemma sint_times: "in_i64 (sint a * sint b) \<Longrightarrow> sint (a * b) = sint a * sint b" for a b :: i64
  using sint_of_int [of "sint a * sint b"] by simp

lemma trunc_div:
  fixes a b :: int
  assumes "0 < b"
  shows "a sdiv b = (if 0 \<le> a then a div b else - (- a div b))"
    and "a smod b = (if 0 \<le> a then a mod b else - (- a mod b))"
  using assms by (auto simp: signed_divide_int_def signed_modulo_int_def sgn_if)

lemma trunc_div_facts:
  fixes a b :: int
  assumes "0 < b"
  shows "a sdiv b * b + a smod b = a" and "\<bar>a sdiv b\<bar> \<le> \<bar>a\<bar>" and "\<bar>a smod b\<bar> < b"
    and "0 \<le> a \<Longrightarrow> 0 \<le> a sdiv b \<and> 0 \<le> a smod b" and "a \<le> 0 \<Longrightarrow> a sdiv b \<le> 0 \<and> a smod b \<le> 0"
proof -
  show "a sdiv b * b + a smod b = a"
    by (rule sdiv_mult_smod_eq)
  have "x div b \<le> x" if "0 \<le> x" for x
    using zdiv_mono2 [of x 1 b] that assms by simp
  from this [of a] this [of "- a"] show "\<bar>a sdiv b\<bar> \<le> \<bar>a\<bar>"
    using assms by (cases "0 \<le> a") (simp_all add: trunc_div pos_imp_zdiv_nonneg_iff abs_of_nonneg abs_of_neg)
  show "\<bar>a smod b\<bar> < b"
    using assms by (auto simp: trunc_div)
  show "0 \<le> a \<Longrightarrow> 0 \<le> a sdiv b \<and> 0 \<le> a smod b" "a \<le> 0 \<Longrightarrow> a sdiv b \<le> 0 \<and> a smod b \<le> 0"
    using assms by (auto simp: trunc_div pos_imp_zdiv_nonneg_iff)
qed

lemma smod_minus: "0 \<le> x \<Longrightarrow> 0 < b \<Longrightarrow> - x smod b = - (x mod b)" for x b :: int
  by (cases "x = 0") (simp_all add: trunc_div)

lemma smod_smod: "0 < b \<Longrightarrow> 0 < c \<Longrightarrow> b dvd c \<Longrightarrow> a smod c smod b = a smod b" for a b c :: int
  by (cases "0 \<le> a") (simp_all add: trunc_div(2) [of c] trunc_div(2) [of b a] trunc_div(2) [of b "a mod c"]
      smod_minus trunc_div(2) [of b "- a mod c"] mod_mod_cancel)

lemma in_i64_sint: "in_i64 (sint (a :: i64))"
  using sint_lt [of a] sint_ge [of a] by (simp add: in_i64_def)

section \<open>Rounding to an integer\<close>

definition f64_trunc :: "u64 \<Rightarrow> u64" where
  "f64_trunc x =
     (if f64_is_nan x \<or> f64_is_infinite x then x
      else f64_signed (f64_negative x) (f64_of_ratio (nat \<bar>f64_truncated x\<bar>) 1))"

definition f64_fract :: "u64 \<Rightarrow> u64" where
  "f64_fract x = f64_sub x (f64_trunc x)"

text \<open>\<open>round\<close> takes halves away from zero.\<close>

definition f64_round :: "u64 \<Rightarrow> u64" where
  "f64_round x =
     (if f64_is_nan x \<or> f64_is_infinite x then x
      else
        let d = scale2 1 (- f64_exponent x)
        in f64_signed (f64_negative x)
             (f64_of_ratio ((2 * scale2 (f64_significand x) (f64_exponent x) + d) div (2 * d)) 1))"

section \<open>Durations\<close>

datatype CypherDuration = CypherDuration
  (du_years: i64) (du_months: i64) (du_weeks: i64) (du_days: i64)
  (du_hours: i64) (du_minutes: i64) (du_seconds: i64) (du_nanoseconds: i64)
  (du_iso: string)

definition total_months :: "CypherDuration \<Rightarrow> i64" where
  "total_months d = du_years d * 12 + du_months d"

definition total_days :: "CypherDuration \<Rightarrow> i64" where
  "total_days d = du_weeks d * 7 + du_days d"

definition total_seconds :: "CypherDuration \<Rightarrow> i64" where
  "total_seconds d = du_hours d * 3600 + du_minutes d * 60 + du_seconds d"

definition trim_zeros :: "string \<Rightarrow> string" where
  "trim_zeros s = rev (dropWhile (\<lambda>c. c = CHR ''0'') (rev s))"

definition build_iso :: "i64 \<Rightarrow> i64 \<Rightarrow> i64 \<Rightarrow> i64 \<Rightarrow> i64 \<Rightarrow> i64 \<Rightarrow> i64 \<Rightarrow> i64 \<Rightarrow> string" where
  "build_iso years months weeks days hours minutes seconds nanos =
     (let sec_str =
            (if nanos \<noteq> 0 then
               let frac = decimal (unsigned_abs nanos);
                   s = trim_zeros (replicate (9 - length frac) CHR ''0'' @ frac);
                   neg = sint seconds < 0 \<or> (seconds = 0 \<and> sint nanos < 0)
               in (if neg then ''-'' else []) @ decimal (unsigned_abs seconds) @ ''.'' @ s @ ''S''
             else if seconds \<noteq> 0 \<or> (hours = 0 \<and> minutes = 0 \<and> days = 0 \<and> weeks = 0 \<and> months = 0 \<and> years = 0) then
               i64_text seconds @ ''S''
             else []);
          unit = (\<lambda>v u. if v \<noteq> 0 then i64_text v @ u else []);
          out = ''P'' @ unit years ''Y'' @ unit months ''M'' @ unit weeks ''W'' @ unit days ''D''
            @ (if hours \<noteq> 0 \<or> minutes \<noteq> 0 \<or> sec_str \<noteq> [] then
                 ''T'' @ unit hours ''H'' @ unit minutes ''M'' @ sec_str
               else [])
      in if out = ''P'' then ''PT0S'' else out)"

definition duration_normalize :: "i64 \<Rightarrow> i64 \<Rightarrow> i64 \<Rightarrow> i64 \<Rightarrow> i64 \<Rightarrow> i64 \<Rightarrow> i64 \<Rightarrow> i64 \<Rightarrow> CypherDuration" where
  "duration_normalize years months weeks days hours minutes seconds nanoseconds =
     (let total_months = years * 12 + months;
          y = i64_div total_months 12;
          m = i64_rem total_months 12;
          total_ns = seconds * 1000000000 + nanoseconds;
          s = i64_div total_ns 1000000000;
          ns = i64_rem total_ns 1000000000;
          d = weeks * 7 + days;
          total_s = hours * 3600 + minutes * 60 + s;
          hours = i64_div total_s 3600;
          minutes = i64_div (i64_rem total_s 3600) 60;
          seconds = i64_rem total_s 60
      in CypherDuration y m 0 d hours minutes seconds ns (build_iso y m 0 d hours minutes seconds ns))"

definition duration_add :: "CypherDuration \<Rightarrow> CypherDuration \<Rightarrow> CypherDuration" where
  "duration_add a b =
     duration_normalize
       (du_years a + du_years b) (du_months a + du_months b) (du_weeks a + du_weeks b) (du_days a + du_days b)
       (du_hours a + du_hours b) (du_minutes a + du_minutes b) (du_seconds a + du_seconds b)
       (du_nanoseconds a + du_nanoseconds b)"

definition duration_sub :: "CypherDuration \<Rightarrow> CypherDuration \<Rightarrow> CypherDuration" where
  "duration_sub a b =
     duration_normalize
       (du_years a - du_years b) (du_months a - du_months b) (du_weeks a - du_weeks b) (du_days a - du_days b)
       (du_hours a - du_hours b) (du_minutes a - du_minutes b) (du_seconds a - du_seconds b)
       (du_nanoseconds a - du_nanoseconds b)"

definition duration_mul :: "CypherDuration \<Rightarrow> i64 \<Rightarrow> CypherDuration" where
  "duration_mul d n =
     duration_normalize
       (du_years d * n) (du_months d * n) (du_weeks d * n) (du_days d * n)
       (du_hours d * n) (du_minutes d * n) (du_seconds d * n) (du_nanoseconds d * n)"

text \<open>Dividing the least \<open>i64\<close> by -1 panics, in a release build too.\<close>

definition div_panics :: "i64 \<Rightarrow> i64 \<Rightarrow> bool" where
  "div_panics a b \<longleftrightarrow> a = I64_MIN \<and> b = -1"

definition f64_days_per_month :: u64 where "f64_days_per_month = 0x403E6FD70A3D70A4"
definition f64_secs_per_day :: u64 where "f64_secs_per_day = 0x40F5180000000000"
definition f64_billion :: u64 where "f64_billion = 0x41CDCD6500000000"

text \<open>The callers exclude a divisor of zero; \<open>None\<close> is a panic.\<close>

definition duration_div :: "CypherDuration \<Rightarrow> i64 \<Rightarrow> CypherDuration option" where
  "duration_div d n =
     (let nf = i64_as_f64 n;
          months_total = total_months d;
          m = i64_div months_total n;
          months_rem = i64_rem months_total n;
          extra_days_f = f64_mul (i64_as_f64 months_rem) f64_days_per_month;
          total_days_f = f64_add (i64_as_f64 (total_days d)) extra_days_f;
          dd = f64_as_i64 (f64_trunc (f64_div total_days_f nf));
          days_rem_f = f64_sub total_days_f (f64_mul (i64_as_f64 dd) nf);
          extra_secs_f = f64_mul days_rem_f f64_secs_per_day;
          total_secs_f = f64_add (i64_as_f64 (total_seconds d)) extra_secs_f;
          total_time_ns = f64_as_i64 (f64_round (f64_mul total_secs_f f64_billion)) + du_nanoseconds d;
          result_ns = i64_div total_time_ns n;
          final_secs = i64_div result_ns 1000000000;
          final_ns = i64_rem result_ns 1000000000;
          yrs = i64_div m 12;
          mos = i64_rem m 12;
          hrs = i64_div final_secs 3600;
          mins = i64_div (i64_rem final_secs 3600) 60;
          scs = i64_rem final_secs 60
      in if div_panics months_total n \<or> div_panics total_time_ns n then None
         else Some (CypherDuration yrs mos 0 dd hrs mins scs final_ns (build_iso yrs mos 0 dd hrs mins scs final_ns)))"

definition duration_mul_f :: "CypherDuration \<Rightarrow> u64 \<Rightarrow> CypherDuration" where
  "duration_mul_f d f =
     (let total_months = f64_mul (i64_as_f64 (total_months d)) f;
          months = f64_as_i64 (f64_trunc total_months);
          frac_months_days = f64_mul (f64_fract total_months) f64_days_per_month;
          total_days = f64_add (f64_mul (i64_as_f64 (total_days d)) f) frac_months_days;
          days = f64_as_i64 (f64_trunc total_days);
          frac_days_secs = f64_mul (f64_fract total_days) f64_secs_per_day;
          total_secs = f64_add (f64_mul (i64_as_f64 (total_seconds d)) f) frac_days_secs;
          total_ns = f64_add (f64_mul (i64_as_f64 (du_nanoseconds d)) f) (f64_mul (f64_fract total_secs) f64_billion);
          secs = f64_as_i64 (f64_trunc total_secs);
          nanos = f64_as_i64 (f64_trunc total_ns);
          total_nanos = secs * 1000000000 + nanos;
          final_secs = i64_div total_nanos 1000000000;
          final_ns = i64_rem total_nanos 1000000000;
          y = i64_div months 12;
          m = i64_rem months 12;
          hours = i64_div final_secs 3600;
          minutes = i64_div (i64_rem final_secs 3600) 60;
          seconds = i64_rem final_secs 60
      in CypherDuration y m 0 days hours minutes seconds final_ns (build_iso y m 0 days hours minutes seconds final_ns))"

text \<open>\<open>duration_get_property\<close>, before its result is wrapped as a value; \<open>None\<close> is \<open>Null\<close>.\<close>

definition duration_component :: "CypherDuration \<Rightarrow> string \<Rightarrow> i64 option" where
  "duration_component d key =
     (let total_months = total_months d; total_days = total_days d; total_secs = total_seconds d;
          sub_sec_ns = du_nanoseconds d;
          ns = (if sint sub_sec_ns < 0 then sub_sec_ns + 1000000000 else sub_sec_ns);
          s = (if sint sub_sec_ns < 0 then total_secs - 1 else total_secs)
      in if key = ''years'' then Some (i64_div total_months 12)
         else if key = ''quarters'' then Some (i64_div total_months 3)
         else if key = ''months'' then Some total_months
         else if key = ''weeks'' then Some (i64_div total_days 7)
         else if key = ''days'' then Some total_days
         else if key = ''hours'' then Some (i64_div total_secs 3600)
         else if key = ''minutes'' then Some (i64_div total_secs 60)
         else if key = ''seconds'' then Some s
         else if key = ''milliseconds'' then Some (s * 1000 + i64_div ns 1000000)
         else if key = ''microseconds'' then Some (s * 1000000 + i64_div ns 1000)
         else if key = ''nanoseconds'' then Some (s * 1000000000 + ns)
         else if key = ''quartersOfYear'' then Some (i64_div (du_months d) 3)
         else if key = ''monthsOfQuarter'' then Some (i64_rem (du_months d) 3)
         else if key = ''monthsOfYear'' then Some (du_months d)
         else if key = ''daysOfWeek'' then Some (i64_rem total_days 7)
         else if key = ''minutesOfHour'' then Some (du_minutes d)
         else if key = ''secondsOfMinute'' then Some (du_seconds d)
         else if key = ''millisecondsOfSecond'' then Some (i64_div sub_sec_ns 1000000)
         else if key = ''microsecondsOfSecond'' then Some (i64_div sub_sec_ns 1000)
         else if key = ''nanosecondsOfSecond'' then Some ns
         else None)"

section \<open>The totals of a result\<close>

definition months_of :: "CypherDuration \<Rightarrow> int" where
  "months_of d = sint (du_years d) * 12 + sint (du_months d)"

definition days_of :: "CypherDuration \<Rightarrow> int" where
  "days_of d = sint (du_weeks d) * 7 + sint (du_days d)"

definition nanos_of :: "CypherDuration \<Rightarrow> int" where
  "nanos_of d =
     (sint (du_hours d) * 3600 + sint (du_minutes d) * 60 + sint (du_seconds d)) * 1000000000
     + sint (du_nanoseconds d)"

text \<open>Components so small that no operation below wraps; \<open>normal\<close> is what \<open>duration_normalize\<close> leaves.\<close>

definition small :: "int \<Rightarrow> i64 \<Rightarrow> bool" where
  "small k v \<longleftrightarrow> \<bar>sint v\<bar> < k"

definition dur_small :: "CypherDuration \<Rightarrow> bool" where
  "dur_small d \<longleftrightarrow>
     small (2 ^ 48) (du_years d) \<and> small (2 ^ 48) (du_months d) \<and> small (2 ^ 48) (du_weeks d) \<and> small (2 ^ 48) (du_days d)
     \<and> small (2 ^ 48) (du_hours d) \<and> small (2 ^ 48) (du_minutes d) \<and> small (2 ^ 31) (du_seconds d)
     \<and> small (2 ^ 61) (du_nanoseconds d)"

definition dur_normal :: "CypherDuration \<Rightarrow> bool" where
  "dur_normal d \<longleftrightarrow>
     du_weeks d = 0 \<and> small 12 (du_months d) \<and> small 60 (du_minutes d) \<and> small 60 (du_seconds d)
     \<and> small 1000000000 (du_nanoseconds d)"

lemma sint_div: "0 < sint b \<Longrightarrow> sint (i64_div a b) = sint a sdiv sint b"
  using trunc_div_facts(2,5) [of "sint b" "sint a"] in_i64_sint [of a]
  unfolding i64_div_def by (intro sint_of_int) (simp add: in_i64_def abs_if split: if_splits)

lemma sint_rem: "0 < sint b \<Longrightarrow> sint (i64_rem a b) = sint a smod sint b"
  using trunc_div_facts(3) [of "sint b" "sint a"] in_i64_sint [of b]
  unfolding i64_rem_def by (intro sint_of_int) (simp add: in_i64_def abs_less_iff)

lemma sint_scaled:
  fixes a b :: i64
  assumes "\<bar>sint a\<bar> < k" and "\<bar>sint b\<bar> < l" and "0 < c" and "k * c + l < 2 ^ 63" and "c < 2 ^ 62"
  shows "sint (a * word_of_int c + b) = sint a * c + sint b"
proof -
  have c: "sint (word_of_int c :: i64) = c"
    using assms by (intro sint_of_int) (simp add: in_i64_def)
  have "\<bar>sint a * c\<bar> \<le> k * c"
    using assms by (simp add: abs_mult mult_right_mono)
  moreover have "0 < l"
    using assms(2) by linarith
  ultimately have "in_i64 (sint a * c)" "in_i64 (sint a * c + sint b)"
    using assms unfolding in_i64_def abs_le_iff abs_less_iff by linarith+
  then show ?thesis
    using sint_times [of a "word_of_int c"] c by (simp add: sint_plus)
qed

lemma div_rem_sum: "0 < sint b \<Longrightarrow> sint (i64_div a b) * sint b + sint (i64_rem a b) = sint a"
  by (simp add: sint_div sint_rem sdiv_mult_smod_eq)

lemma rem_small: "0 < sint b \<Longrightarrow> \<bar>sint (i64_rem a b)\<bar> < sint b"
  by (simp add: sint_rem trunc_div_facts)

lemma div_small: "0 < sint b \<Longrightarrow> \<bar>sint (i64_div a b)\<bar> \<le> \<bar>sint a\<bar>"
  by (simp add: sint_div trunc_div_facts)

lemma duration_normalize_totals:
  assumes "small (2 ^ 49) y" "small (2 ^ 49) m" "small (2 ^ 49) w" "small (2 ^ 49) d"
    and "small (2 ^ 49) h" "small (2 ^ 49) mi" "small (2 ^ 32) s" "small (2 ^ 62) ns"
  shows "months_of (duration_normalize y m w d h mi s ns) = sint y * 12 + sint m"
    and "days_of (duration_normalize y m w d h mi s ns) = sint w * 7 + sint d"
    and "nanos_of (duration_normalize y m w d h mi s ns)
      = (sint h * 3600 + sint mi * 60 + sint s) * 1000000000 + sint ns"
    and "dur_normal (duration_normalize y m w d h mi s ns)"
proof -
  note bounds = assms [unfolded small_def]
  have months: "sint (y * 12 + m) = sint y * 12 + sint m"
    using sint_scaled [of y "2 ^ 49" m "2 ^ 49" 12] bounds by simp
  have days: "sint (w * 7 + d) = sint w * 7 + sint d"
    using sint_scaled [of w "2 ^ 49" d "2 ^ 49" 7] bounds by simp
  have ns: "sint (s * 1000000000 + ns) = sint s * 1000000000 + sint ns"
    using sint_scaled [of s "2 ^ 32" ns "2 ^ 62" 1000000000] bounds by simp
  let ?s = "i64_div (s * 1000000000 + ns) 1000000000"
  have s: "\<bar>sint ?s\<bar> < 2 ^ 34"
  proof -
    have "\<bar>sint (s * 1000000000 + ns)\<bar> < 2 ^ 63"
      unfolding ns using bounds(7,8) by (simp add: abs_less_iff)
    then show ?thesis
      using div_rem_sum [of 1000000000 "s * 1000000000 + ns"] rem_small [of 1000000000 "s * 1000000000 + ns"]
      by simp
  qed
  have minutes: "sint (mi * 60 + ?s) = sint mi * 60 + sint ?s"
    using sint_scaled [of mi "2 ^ 49" ?s "2 ^ 34" 60] bounds s by simp
  have secs: "sint (h * 3600 + mi * 60 + ?s) = sint h * 3600 + sint mi * 60 + sint ?s"
  proof -
    have "\<bar>sint (mi * 60 + ?s)\<bar> < 2 ^ 56"
      unfolding minutes using bounds(6) s by (simp add: abs_less_iff)
    then show ?thesis
      using sint_scaled [of h "2 ^ 49" "mi * 60 + ?s" "2 ^ 56" 3600] bounds(5) minutes by (simp add: add.assoc)
  qed
  let ?t = "h * 3600 + mi * 60 + ?s"
  have t: "(sint (i64_div ?t 3600) * 60 + sint (i64_div (i64_rem ?t 3600) 60)) * 60 + sint (i64_rem ?t 60) = sint ?t"
  proof -
    have "sint ?t smod 3600 smod 60 = sint ?t smod 60"
      by (rule smod_smod) simp_all
    then have "sint (i64_rem (i64_rem ?t 3600) 60) = sint (i64_rem ?t 60)"
      by (simp add: sint_rem)
    then show ?thesis
      using div_rem_sum [of 3600 ?t] div_rem_sum [of 60 "i64_rem ?t 3600"] by simp
  qed
  show "months_of (duration_normalize y m w d h mi s ns) = sint y * 12 + sint m"
    using div_rem_sum [of 12 "y * 12 + m"] months by (simp add: duration_normalize_def Let_def months_of_def)
  show "days_of (duration_normalize y m w d h mi s ns) = sint w * 7 + sint d"
    using days by (simp add: duration_normalize_def Let_def days_of_def)
  show "nanos_of (duration_normalize y m w d h mi s ns)
      = (sint h * 3600 + sint mi * 60 + sint s) * 1000000000 + sint ns"
    using t secs ns div_rem_sum [of 1000000000 "s * 1000000000 + ns"]
    by (simp add: duration_normalize_def Let_def nanos_of_def algebra_simps)
  have "\<bar>sint (i64_div (i64_rem ?t 3600) 60)\<bar> < 60"
    using div_rem_sum [of 60 "i64_rem ?t 3600"] rem_small [of 60 "i64_rem ?t 3600"] rem_small [of 3600 ?t]
      trunc_div_facts(4,5) [of 60 "sint (i64_rem ?t 3600)"]
    by (simp add: sint_div sint_rem) linarith
  then show "dur_normal (duration_normalize y m w d h mi s ns)"
    using rem_small [of 12 "y * 12 + m"] rem_small [of 60 ?t] rem_small [of 1000000000 "s * 1000000000 + ns"]
    by (simp add: duration_normalize_def Let_def dur_normal_def small_def)
qed

lemma small_sum:
  "small k a \<Longrightarrow> small k b \<Longrightarrow> k \<le> 2 ^ 61 \<Longrightarrow> small (2 * k) (a + b) \<and> sint (a + b) = sint a + sint b"
  "small k a \<Longrightarrow> small k b \<Longrightarrow> k \<le> 2 ^ 61 \<Longrightarrow> small (2 * k) (a - b) \<and> sint (a - b) = sint a - sint b"
  using sint_plus [of a b] sint_diff [of a b] by (auto simp: small_def in_i64_def abs_less_iff)

text \<open>
  Addition and subtraction keep the totals of months, days and time apart and add or subtract each; the
  result is normal.
\<close>

lemma duration_add_totals:
  assumes "dur_small a" and "dur_small b"
  shows "months_of (duration_add a b) = months_of a + months_of b"
    and "days_of (duration_add a b) = days_of a + days_of b"
    and "nanos_of (duration_add a b) = nanos_of a + nanos_of b"
    and "dur_normal (duration_add a b)"
  unfolding duration_add_def using assms
  by (simp_all add: duration_normalize_totals dur_small_def small_sum(1) [where k = "2 ^ 48", simplified]
      small_sum(1) [where k = "2 ^ 31", simplified] small_sum(1) [where k = "2 ^ 61", simplified]
      months_of_def [of a] months_of_def [of b] days_of_def [of a] days_of_def [of b]
      nanos_of_def [of a] nanos_of_def [of b] algebra_simps)

lemma duration_sub_totals:
  assumes "dur_small a" and "dur_small b"
  shows "months_of (duration_sub a b) = months_of a - months_of b"
    and "days_of (duration_sub a b) = days_of a - days_of b"
    and "nanos_of (duration_sub a b) = nanos_of a - nanos_of b"
    and "dur_normal (duration_sub a b)"
  unfolding duration_sub_def using assms
  by (simp_all add: duration_normalize_totals dur_small_def small_sum(2) [where k = "2 ^ 48", simplified]
      small_sum(2) [where k = "2 ^ 31", simplified] small_sum(2) [where k = "2 ^ 61", simplified]
      months_of_def [of a] months_of_def [of b] days_of_def [of a] days_of_def [of b]
      nanos_of_def [of a] nanos_of_def [of b] algebra_simps)

end
