(* ===== verification/ExecValue.thy ===== *)
theory ExecValue
  imports ExecDuration
begin

text \<open>
  The values of \<open>cypher/executor.rs\<close>: their passage to JSON and back, the three comparisons (of operators,
  of \<open>CASE\<close> and \<open>IN\<close>, and of \<open>ORDER BY\<close>), and truth.
\<close>

section \<open>Values\<close>

datatype TemporalKind = Date | LocalTime | Time | LocalDateTime | DateTime

text \<open>
  A \<open>chrono::NaiveDate\<close> is its number of days from the common era, a \<open>NaiveTime\<close> its four components.
\<close>

datatype NaiveTime = NaiveTime (hour: nat) (minute: nat) (second: nat) (nanosecond: nat)

datatype TemporalValue = TemporalValue
  (tv_kind: TemporalKind)
  (tv_iso: rust_str)
  (tv_date: "int option")
  (tv_time: "NaiveTime option")
  (offset_secs: "i32 option")
  (tz_name: "rust_str option")

datatype 'n Value =
    VNode i64 "rust_str list" "'n json_map"
  | VEdge i64 rust_str i64 i64 "'n json_map"
  | VPath "'n Value list" "'n Value list"
  | VInt i64
  | VFloat u64
  | VStr rust_str
  | VBool bool
  | VNull
  | VJson "'n Json"
  | VTemporal TemporalValue
  | VDuration CypherDuration

text \<open>
  What the values need from outside this theory: \<open>serde_json\<close> numbers, \<open>serde_json::to_string\<close> with
  \<open>unwrap_or_default\<close>, and the temporal functions of \<open>cypher/executor.rs\<close> that parse with \<open>chrono\<close>:
  \<open>try_parse_temporal_iso\<close>, \<open>try_parse_duration_iso\<close>, \<open>temporal_get_property\<close>.
\<close>

record 'n host =
  nums :: "'n num_ops"
  json_text :: "'n Json \<Rightarrow> rust_str"
  try_parse_temporal_iso :: "rust_str \<Rightarrow> TemporalValue option"
  try_parse_duration_iso :: "rust_str \<Rightarrow> CypherDuration option"
  temporal_get_property :: "TemporalValue \<Rightarrow> string \<Rightarrow> 'n Value"

text \<open>Text of the syntax tree is a list of characters that stand for bytes.\<close>

definition bytes_of :: "string \<Rightarrow> rust_str" where
  "bytes_of s = map of_char s"

definition text_of :: "rust_str \<Rightarrow> string" where
  "text_of bs = map (\<lambda>b. char_of (unat b)) bs"

section \<open>JSON\<close>

definition object_of :: "(string \<times> 'n Json) list \<Rightarrow> 'n Json" where
  "object_of kvs = Object (foldl (\<lambda>m (k, v). map_insert (bytes_of k) v m) [] kvs)"

fun interleave :: "'a list \<Rightarrow> 'a list \<Rightarrow> 'a list" where
  "interleave [] rels = []"
| "interleave (n # nodes) [] = n # interleave nodes []"
| "interleave (n # nodes) (r # rels) = n # r # interleave nodes rels"

fun to_json :: "'n host \<Rightarrow> 'n Value \<Rightarrow> 'n Json" where
  "to_json h (VNode node_id labels properties) =
     object_of
       [(''node_id'', Number (of_i64 (nums h) node_id)), (''labels'', Array (map String labels)),
        (''properties'', Object properties)]"
| "to_json h (VEdge edge_id rel_type source target properties) =
     object_of
       [(''rel_id'', Number (of_i64 (nums h) edge_id)), (''rel_type'', String rel_type),
        (''source_node_id'', Number (of_i64 (nums h) source)), (''target_node_id'', Number (of_i64 (nums h) target)),
        (''properties'', Object properties)]"
| "to_json h (VPath nodes rels) = Array (interleave (map (to_json h) nodes) (map (to_json h) rels))"
| "to_json h (VInt v) = Number (of_i64 (nums h) v)"
| "to_json h (VFloat v) =
     (if f64_is_nan v then String (bytes_of ''NaN'')
      else case from_f64 (nums h) v of Some n \<Rightarrow> Number n | None \<Rightarrow> Null)"
| "to_json h (VStr s) = String s"
| "to_json h (VBool b) = Bool b"
| "to_json h VNull = Null"
| "to_json h (VJson v) = v"
| "to_json h (VTemporal tv) = String (tv_iso tv)"
| "to_json h (VDuration d) = String (bytes_of (du_iso d))"

definition as_str :: "'n Json \<Rightarrow> rust_str list" where
  "as_str j = (case j of String s \<Rightarrow> [s] | _ \<Rightarrow> [])"

text \<open>A serialised node and a serialised edge are recognised by their keys.\<close>

definition json_node :: "'n host \<Rightarrow> 'n json_map \<Rightarrow> 'n Value option" where
  "json_node h m =
     (case (map_of m (bytes_of ''node_id''), map_of m (bytes_of ''labels''), map_of m (bytes_of ''properties'')) of
       (Some (Number nid), Some (Array lbls), Some (Object props)) \<Rightarrow>
         map_option (\<lambda>node_id. VNode node_id (concat (map as_str lbls)) props) (as_i64 (nums h) nid)
     | _ \<Rightarrow> None)"

definition json_edge :: "'n host \<Rightarrow> 'n json_map \<Rightarrow> 'n Value option" where
  "json_edge h m =
     (case (map_of m (bytes_of ''rel_id''), map_of m (bytes_of ''rel_type''), map_of m (bytes_of ''source_node_id''),
         map_of m (bytes_of ''target_node_id''), map_of m (bytes_of ''properties'')) of
       (Some (Number eid), Some (String rtype), Some (Number src), Some (Number tgt), Some (Object props)) \<Rightarrow>
         (case (as_i64 (nums h) eid, as_i64 (nums h) src, as_i64 (nums h) tgt) of
           (Some edge_id, Some source, Some target) \<Rightarrow> Some (VEdge edge_id rtype source target props)
         | _ \<Rightarrow> None)
     | _ \<Rightarrow> None)"

definition has_key :: "string \<Rightarrow> 'n Json \<Rightarrow> bool" where
  "has_key k j = (case j of Object m \<Rightarrow> bytes_of k \<in> set (map fst m) | _ \<Rightarrow> False)"

definition is_path_array :: "'n Json list \<Rightarrow> bool" where
  "is_path_array arr \<longleftrightarrow>
     arr \<noteq> [] \<and> list_all (\<lambda>(i, item). has_key (if even i then ''node_id'' else ''rel_id'') item) (enumerate 0 arr)"

fun every_other :: "'a list \<Rightarrow> 'a list" where
  "every_other [] = []"
| "every_other [x] = [x]"
| "every_other (x # y # xs) = x # every_other xs"

fun json_to_value :: "'n host \<Rightarrow> 'n Json \<Rightarrow> 'n Value" where
  "json_to_value h Null = VNull"
| "json_to_value h (Bool b) = VBool b"
| "json_to_value h (Number n) =
     (case as_i64 (nums h) n of
       Some i \<Rightarrow> VInt i
     | None \<Rightarrow> VFloat (case as_f64 (nums h) n of Some f \<Rightarrow> f | None \<Rightarrow> 0))"
| "json_to_value h (String s) =
     (if s = bytes_of ''NaN'' then VFloat F64_NAN
      else case try_parse_temporal_iso h s of
        Some tv \<Rightarrow> VTemporal tv
      | None \<Rightarrow> (case try_parse_duration_iso h s of Some d \<Rightarrow> VDuration d | None \<Rightarrow> VStr s))"
| "json_to_value h (Object m) =
     (case json_node h m of
       Some v \<Rightarrow> v
     | None \<Rightarrow> (case json_edge h m of Some v \<Rightarrow> v | None \<Rightarrow> VJson (Object m)))"
| "json_to_value h (Array arr) =
     (if is_path_array arr then
        let vals = map (json_to_value h) arr in VPath (every_other vals) (every_other (tl vals))
      else VJson (Array arr))"

definition duration_get_property :: "CypherDuration \<Rightarrow> string \<Rightarrow> 'n Value" where
  "duration_get_property d key = (case duration_component d key of Some i \<Rightarrow> VInt i | None \<Rightarrow> VNull)"

definition get_property :: "'n host \<Rightarrow> 'n Value \<Rightarrow> string \<Rightarrow> 'n Value" where
  "get_property h v key =
     (let lookup = (\<lambda>m. case map_of m (bytes_of key) of Some j \<Rightarrow> json_to_value h j | None \<Rightarrow> VNull)
      in case v of
        VNode _ _ properties \<Rightarrow> lookup properties
      | VEdge _ _ _ _ properties \<Rightarrow> lookup properties
      | VJson (Object m) \<Rightarrow> lookup m
      | VTemporal tv \<Rightarrow> temporal_get_property h tv key
      | VDuration d \<Rightarrow> duration_get_property d key
      | _ \<Rightarrow> VNull)"

definition node_id :: "'n Value \<Rightarrow> i64 option" where
  "node_id v = (case v of VNode i _ _ \<Rightarrow> Some i | _ \<Rightarrow> None)"

definition edge_id :: "'n Value \<Rightarrow> i64 option" where
  "edge_id v = (case v of VEdge i _ _ _ _ \<Rightarrow> Some i | _ \<Rightarrow> None)"

section \<open>Truth\<close>

definition is_truthy :: "'n Value \<Rightarrow> bool" where
  "is_truthy v =
     (case v of VBool b \<Rightarrow> b | VNull \<Rightarrow> False | VInt i \<Rightarrow> i \<noteq> 0 | VStr s \<Rightarrow> s \<noteq> [] | _ \<Rightarrow> True)"

definition truthy3 :: "'n Value \<Rightarrow> bool option" where
  "truthy3 v = (case v of VNull \<Rightarrow> None | other \<Rightarrow> Some (is_truthy other))"

definition value_type_name :: "'n Value \<Rightarrow> string" where
  "value_type_name v =
     (case v of
       VBool _ \<Rightarrow> ''Boolean'' | VInt _ \<Rightarrow> ''Integer'' | VFloat _ \<Rightarrow> ''Float'' | VStr _ \<Rightarrow> ''String'' | VNull \<Rightarrow> ''Null''
     | VNode _ _ _ \<Rightarrow> ''Node'' | VEdge _ _ _ _ _ \<Rightarrow> ''Relationship'' | VPath _ _ \<Rightarrow> ''Path''
     | VJson (Array _) \<Rightarrow> ''List'' | VJson (Object _) \<Rightarrow> ''Map'' | VJson _ \<Rightarrow> ''Any''
     | VTemporal _ \<Rightarrow> ''DateTime'' | VDuration _ \<Rightarrow> ''Duration'')"

section \<open>Comparisons of scalars\<close>

definition op_holds :: "CmpOp \<Rightarrow> Ordering \<Rightarrow> bool" where
  "op_holds op ord =
     (case op of
       Eq \<Rightarrow> ord = Equal | Neq \<Rightarrow> ord \<noteq> Equal | Lt \<Rightarrow> ord = Less | Gt \<Rightarrow> ord = Greater
     | Le \<Rightarrow> ord \<noteq> Greater | Ge \<Rightarrow> ord \<noteq> Less)"

definition int_cmp :: "i64 \<Rightarrow> CmpOp \<Rightarrow> i64 \<Rightarrow> bool" where
  "int_cmp a op b = op_holds op (ord_of (sint a) (sint b))"

definition float_cmp :: "u64 \<Rightarrow> CmpOp \<Rightarrow> u64 \<Rightarrow> bool" where
  "float_cmp a op b =
     (case f64_partial_cmp a b of None \<Rightarrow> op = Neq | Some ord \<Rightarrow> op_holds op ord)"

definition str_ord :: "rust_str \<Rightarrow> rust_str \<Rightarrow> Ordering" where
  "str_ord a b = (if str_less a b then Less else if a = b then Equal else Greater)"

definition str_cmp :: "rust_str \<Rightarrow> CmpOp \<Rightarrow> rust_str \<Rightarrow> bool" where
  "str_cmp a op b = op_holds op (str_ord a b)"

definition time_to_ns :: "NaiveTime \<Rightarrow> int" where
  "time_to_ns t =
     int (hour t) * 3600000000000 + int (minute t) * 60000000000 + int (second t) * 1000000000 + int (nanosecond t)"

definition temporal_cmp :: "TemporalValue \<Rightarrow> TemporalValue \<Rightarrow> Ordering" where
  "temporal_cmp a b =
     (case (offset_secs a, offset_secs b, tv_time a, tv_time b) of
       (Some a_off, Some b_off, Some at, Some bt) \<Rightarrow>
         (let a_utc_ns = time_to_ns at - sint a_off * 1000000000;
              b_utc_ns = time_to_ns bt - sint b_off * 1000000000;
              day = 86400000000000
          in case (tv_date a, tv_date b) of
            (Some ad, Some bd) \<Rightarrow> ord_of (ad * day + a_utc_ns) (bd * day + b_utc_ns)
          | _ \<Rightarrow> ord_of (a_utc_ns mod day) (b_utc_ns mod day))
     | _ \<Rightarrow> str_ord (tv_iso a) (tv_iso b))"

definition is_null :: "'n Value \<Rightarrow> bool" where
  "is_null v = (case v of VNull \<Rightarrow> True | _ \<Rightarrow> False)"

definition is_nan_value :: "'n Value \<Rightarrow> bool" where
  "is_nan_value v = (case v of VFloat f \<Rightarrow> f64_is_nan f | _ \<Rightarrow> False)"

definition is_numeric :: "'n Value \<Rightarrow> bool" where
  "is_numeric v = (case v of VInt _ \<Rightarrow> True | VFloat _ \<Rightarrow> True | _ \<Rightarrow> False)"

definition bool_num :: "bool \<Rightarrow> int" where
  "bool_num b = (if b then 1 else 0)"

definition elem_ordering :: "'n Value \<Rightarrow> 'n Value \<Rightarrow> Ordering option" where
  "elem_ordering a b =
     (case (a, b) of
       (VInt x, VInt y) \<Rightarrow> Some (ord_of (sint x) (sint y))
     | (VFloat x, VFloat y) \<Rightarrow> f64_partial_cmp x y
     | (VInt x, VFloat y) \<Rightarrow> f64_partial_cmp (i64_as_f64 x) y
     | (VFloat x, VInt y) \<Rightarrow> f64_partial_cmp x (i64_as_f64 y)
     | (VStr x, VStr y) \<Rightarrow> Some (str_ord x y)
     | (VBool x, VBool y) \<Rightarrow> Some (ord_of (bool_num x) (bool_num y))
     | _ \<Rightarrow> None)"

definition compare_nan :: "'n Value \<Rightarrow> CmpOp \<Rightarrow> 'n Value \<Rightarrow> bool option" where
  "compare_nan left op right =
     (if op = Eq \<or> op = Neq then Some (op = Neq)
      else if is_numeric left \<and> is_numeric right then Some False
      else None)"

definition compare_scalars :: "'n Value \<Rightarrow> CmpOp \<Rightarrow> 'n Value \<Rightarrow> bool option" where
  "compare_scalars left op right =
     (case (left, right) of
       (VInt a, VInt b) \<Rightarrow> Some (int_cmp a op b)
     | (VFloat a, VFloat b) \<Rightarrow> Some (float_cmp a op b)
     | (VInt a, VFloat b) \<Rightarrow> Some (float_cmp (i64_as_f64 a) op b)
     | (VFloat a, VInt b) \<Rightarrow> Some (float_cmp a op (i64_as_f64 b))
     | (VStr a, VStr b) \<Rightarrow> Some (str_cmp a op b)
     | (VBool a, VBool b) \<Rightarrow> Some (op_holds op (ord_of (bool_num a) (bool_num b)))
     | (VNode a _ _, VNode b _ _) \<Rightarrow> Some (int_cmp a op b)
     | (VEdge a _ _ _ _, VEdge b _ _ _ _) \<Rightarrow> Some (int_cmp a op b)
     | (VTemporal a, VTemporal b) \<Rightarrow> Some (op_holds op (temporal_cmp a b))
     | (VTemporal a, VStr b) \<Rightarrow> Some (str_cmp (tv_iso a) op b)
     | (VStr a, VTemporal b) \<Rightarrow> Some (str_cmp a op (tv_iso b))
     | (VDuration a, VDuration b) \<Rightarrow> Some (int_cmp (total_seconds a) op (total_seconds b))
     | (VDuration a, VStr b) \<Rightarrow> Some (str_cmp (bytes_of (du_iso a)) op b)
     | (VStr a, VDuration b) \<Rightarrow> Some (str_cmp a op (bytes_of (du_iso b)))
     | _ \<Rightarrow> (case op of Eq \<Rightarrow> Some False | Neq \<Rightarrow> Some True | _ \<Rightarrow> None))"

text \<open>
  The loops over the elements of two lists or maps: \<open>eq_loop\<close> on the results of comparing them, and
  \<open>order_loop\<close> on their orderings; the flag remembers an element that compared as null.
\<close>

fun eq_loop :: "CmpOp \<Rightarrow> bool \<Rightarrow> bool option list \<Rightarrow> bool option" where
  "eq_loop op has_null [] = (if has_null then None else Some (op = Eq))"
| "eq_loop op has_null (r # rs) =
     (case r of
       None \<Rightarrow> eq_loop op True rs
     | Some False \<Rightarrow> Some (op = Neq)
     | Some True \<Rightarrow> eq_loop op has_null rs)"

fun order_loop :: "CmpOp \<Rightarrow> nat \<Rightarrow> nat \<Rightarrow> bool \<Rightarrow> Ordering option list \<Rightarrow> bool option" where
  "order_loop op m n has_null [] =
     (case ord_of m n of
       Greater \<Rightarrow> Some (op = Gt \<or> op = Ge \<or> op = Neq)
     | Less \<Rightarrow> Some (op = Lt \<or> op = Le \<or> op = Neq)
     | Equal \<Rightarrow> if has_null then None else Some (op = Eq \<or> op = Le \<or> op = Ge))"
| "order_loop op m n has_null (r # rs) =
     (case r of
       None \<Rightarrow> order_loop op m n True rs
     | Some Equal \<Rightarrow> order_loop op m n has_null rs
     | Some Less \<Rightarrow> Some (op = Lt \<or> op = Le \<or> op = Neq)
     | Some Greater \<Rightarrow> Some (op = Gt \<or> op = Ge \<or> op = Neq))"

section \<open>Comparison of values\<close>

text \<open>What decreases from a value to the elements that the comparisons descend into.\<close>

fun jweight :: "'n Json \<Rightarrow> nat" where
  "jweight (Array js) = Suc (sum_list (map jweight js))"
| "jweight (Object m) = Suc (sum_list (map (\<lambda>kv. jweight (snd kv)) m))"
| "jweight _ = 0"

fun vweight :: "'n Value \<Rightarrow> nat" where
  "vweight (VJson j) = jweight j"
| "vweight (VPath nodes rels) = Suc (sum_list (map vweight nodes) + sum_list (map vweight rels))"
| "vweight _ = 0"

lemma every_other_Cons: "every_other (x # xs) = x # every_other (tl xs)"
  by (cases xs) simp_all

lemma every_other_sum:
  "sum_list (map f (every_other xs)) + sum_list (map f (every_other (tl xs))) = sum_list (map f xs)"
  for f :: "'a \<Rightarrow> nat"
  by (induction xs) (simp_all add: every_other_Cons)

lemma set_every_other: "set (every_other xs) \<subseteq> set xs"
  by (induction xs rule: every_other.induct) auto

lemma vweight_json_node: "json_node h m = Some v \<Longrightarrow> vweight v = 0"
  by (auto simp: json_node_def split: option.split_asm Json.split_asm)

lemma vweight_json_edge: "json_edge h m = Some v \<Longrightarrow> vweight v = 0"
  by (auto simp: json_edge_def split: option.split_asm Json.split_asm)

lemma vweight_json_to_value: "vweight (json_to_value h j) \<le> jweight j"
proof (induction h j rule: json_to_value.induct)
  case (6 h arr)
  show ?case
  proof (cases "is_path_array arr")
    case True
    have "sum_list (map vweight (map (json_to_value h) arr)) \<le> sum_list (map jweight arr)"
      using 6 True by (simp add: comp_def sum_list_mono)
    then show ?thesis
      using True every_other_sum [of vweight "map (json_to_value h) arr"] by (simp add: Let_def)
  qed simp
qed (auto simp: vweight_json_node vweight_json_edge split: option.splits)

lemma vweight_node: "v \<in> set vs \<Longrightarrow> vweight v \<le> sum_list (map vweight vs)"
  by (simp add: member_le_sum_list)

lemma vweight_elem: "j \<in> set js \<Longrightarrow> vweight (json_to_value h j) \<le> sum_list (map jweight js)"
  using vweight_json_to_value [of h j] member_le_sum_list [of "jweight j" "map jweight js"] by simp

lemma vweight_entry:
  "(k, j) \<in> set m \<Longrightarrow> vweight (json_to_value h j) \<le> sum_list (map (\<lambda>kv. jweight (snd kv)) m)"
  using vweight_json_to_value [of h j] member_le_sum_list [of "jweight j" "map (\<lambda>kv. jweight (snd kv)) m"]
  by force

function compare_values :: "'n host \<Rightarrow> 'n Value \<Rightarrow> CmpOp \<Rightarrow> 'n Value \<Rightarrow> bool option"
  and compare_lists :: "'n host \<Rightarrow> 'n Json list \<Rightarrow> 'n Json list \<Rightarrow> CmpOp \<Rightarrow> bool option"
  and values_equal :: "'n host \<Rightarrow> 'n Value \<Rightarrow> 'n Value \<Rightarrow> bool" where
  "compare_values h left op right =
     (if is_null left \<or> is_null right then None
      else if is_nan_value left \<or> is_nan_value right then compare_nan left op right
      else case (left, right) of
        (VPath an ar, VPath bn br) \<Rightarrow>
          (if op = Eq \<or> op = Neq then
             if length an \<noteq> length bn \<or> length ar \<noteq> length br then Some (op = Neq)
             else if list_all (\<lambda>(a, b). values_equal h a b) (zip an bn)
                  \<and> list_all (\<lambda>(a, b). values_equal h a b) (zip ar br) then Some (op = Eq)
             else Some (op = Neq)
           else None)
      | (VJson (Array a), VJson (Array b)) \<Rightarrow> compare_lists h a b op
      | (VJson (Object a), VJson (Object b)) \<Rightarrow>
          (if op = Eq \<or> op = Neq then
             if length a \<noteq> length b then Some (op = Neq)
             else eq_loop op False
                    (map (\<lambda>(k, av).
                       case map_of b k of
                         None \<Rightarrow> Some False
                       | Some bv \<Rightarrow> compare_values h (json_to_value h av) Eq (json_to_value h bv)) a)
           else None)
      | _ \<Rightarrow> compare_scalars left op right)"
| "compare_lists h a b op =
     (if op = Eq \<or> op = Neq then
        if length a \<noteq> length b then Some (op = Neq)
        else eq_loop op False
               (map (\<lambda>(x, y). compare_values h (json_to_value h x) Eq (json_to_value h y)) (zip a b))
      else
        order_loop op (length a) (length b) False
          (map (\<lambda>(x, y). elem_ordering (json_to_value h x) (json_to_value h y)) (zip a b)))"
| "values_equal h a b =
     (if is_nan_value a \<or> is_nan_value b then False
      else case (a, b) of
        (VJson (Array aa), VJson (Array bb)) \<Rightarrow>
          length aa = length bb
          \<and> list_all (\<lambda>(x, y). values_equal h (json_to_value h x) (json_to_value h y)) (zip aa bb)
      | _ \<Rightarrow> compare_values h a Eq b = Some True)"
  by pat_completeness auto
termination
  by (relation "measure (\<lambda>x. case x of
        Inl (h, l, op, r) \<Rightarrow> 3 * vweight l
      | Inr (Inl (h, a, b, op)) \<Rightarrow> 3 * sum_list (map jweight a) + 2
      | Inr (Inr (h, a, b)) \<Rightarrow> 3 * vweight a + 1)")
    (auto dest!: set_zip_leftD dest: vweight_node simp: less_Suc_eq_le
      intro!: le_SucI mult_le_mono2 vweight_elem vweight_entry)

end
