(* ===== verification/ExecOrder.thy ===== *)
theory ExecOrder
  imports ExecValue "HOL-Library.Multiset"
begin

text \<open>
  The order of \<open>ORDER BY\<close> in \<open>cypher/executor.rs\<close>, \<open>sort_by\<close> of the standard library, and the laws that
  \<open>sort_by\<close> asks of a comparison. The order of the executor keeps them on values that hold no temporal
  value, no duration and no integer of 53 bits or more.
\<close>

section \<open>Comparisons for sorting\<close>

text \<open>What \<open>sort_by\<close> asks of a comparison: a total preorder.\<close>

locale sort_order =
  fixes cmp :: "'a \<Rightarrow> 'a \<Rightarrow> Ordering" and S :: "'a set"
  assumes rev: "x \<in> S \<Longrightarrow> y \<in> S \<Longrightarrow> cmp y x = reverse_ord (cmp x y)"
    and trans: "x \<in> S \<Longrightarrow> y \<in> S \<Longrightarrow> z \<in> S \<Longrightarrow> cmp x y \<noteq> Greater \<Longrightarrow> cmp y z \<noteq> Greater \<Longrightarrow> cmp x z \<noteq> Greater"

text \<open>
  \<open>slice::sort_by\<close> is stable: an element goes before those it compares equal with that follow it. For a
  comparison that is no total preorder Rust promises no order, and may panic.
\<close>

fun insert_by :: "('a \<Rightarrow> 'a \<Rightarrow> Ordering) \<Rightarrow> 'a \<Rightarrow> 'a list \<Rightarrow> 'a list" where
  "insert_by cmp x [] = [x]"
| "insert_by cmp x (y # ys) = (if cmp x y = Greater then y # insert_by cmp x ys else x # y # ys)"

definition sort_by :: "('a \<Rightarrow> 'a \<Rightarrow> Ordering) \<Rightarrow> 'a list \<Rightarrow> 'a list" where
  "sort_by cmp xs = foldr (insert_by cmp) xs []"

definition ordered :: "('a \<Rightarrow> 'a \<Rightarrow> Ordering) \<Rightarrow> 'a list \<Rightarrow> bool" where
  "ordered cmp xs \<longleftrightarrow> sorted_wrt (\<lambda>x y. cmp x y \<noteq> Greater) xs"

lemma mset_insert_by [simp]: "mset (insert_by cmp x ys) = add_mset x (mset ys)"
  by (induction ys) auto

lemma mset_sort_by [simp]: "mset (sort_by cmp xs) = mset xs"
  by (induction xs) (simp_all add: sort_by_def)

lemma set_insert_by [simp]: "set (insert_by cmp x ys) = insert x (set ys)"
  by (metis mset_insert_by set_mset_add_mset_insert set_mset_mset)

lemma set_sort_by [simp]: "set (sort_by cmp xs) = set xs"
  by (metis mset_sort_by set_mset_mset)

context sort_order
begin

lemma refl: "x \<in> S \<Longrightarrow> cmp x x = Equal"
  using rev [of x x] by (cases "cmp x x") simp_all

lemma total: "x \<in> S \<Longrightarrow> y \<in> S \<Longrightarrow> cmp x y = Greater \<Longrightarrow> cmp y x = Less"
  using rev [of x y] by simp

lemma equal_left:
  assumes "x \<in> S" "y \<in> S" "z \<in> S" and "cmp x y = Equal"
  shows "cmp x z = cmp y z"
proof -
  have yx: "cmp y x = Equal"
    using rev [of x y] assms by simp
  show ?thesis
  proof (cases "cmp y z")
    case Less
    have "cmp x z \<noteq> Greater"
      using trans [of x y z] assms Less by simp
    moreover have "cmp z x \<noteq> Equal"
      using trans [of z x y] rev [of y z] assms Less by auto
    ultimately show ?thesis
      using rev [of x z] assms Less by (cases "cmp x z") auto
  next
    case Equal
    then have "cmp x z \<noteq> Greater" "cmp z x \<noteq> Greater"
      using trans [of x y z] trans [of z y x] rev [of y z] yx assms by simp_all
    then show ?thesis
      using rev [of x z] assms Equal by (cases "cmp x z") auto
  next
    case Greater
    have "cmp z x \<noteq> Greater"
      using trans [of z y x] rev [of y z] yx assms Greater by simp
    moreover have "cmp x z \<noteq> Equal"
      using trans [of y x z] yx assms Greater by auto
    ultimately show ?thesis
      using rev [of x z] assms Greater by (cases "cmp x z") auto
  qed
qed

lemma insert_ordered:
  "x \<in> S \<Longrightarrow> set ys \<subseteq> S \<Longrightarrow> ordered cmp ys \<Longrightarrow> ordered cmp (insert_by cmp x ys)"
proof (induction ys)
  case (Cons y ys)
  show ?case
  proof (cases "cmp x y = Greater")
    case True
    then have "cmp y x \<noteq> Greater"
      using Cons.prems total [of x y] by simp
    then show ?thesis
      using Cons True by (simp add: ordered_def)
  next
    case False
    have "cmp x z \<noteq> Greater" if "z \<in> set ys" for z
      using trans [of x y z] False Cons.prems that by (auto simp: ordered_def)
    then show ?thesis
      using Cons.prems False by (simp add: ordered_def)
  qed
qed (simp add: ordered_def)

lemma sort_ordered: "set xs \<subseteq> S \<Longrightarrow> ordered cmp (sort_by cmp xs)"
proof (induction xs)
  case (Cons x xs)
  then show ?case
    using insert_ordered [of x "sort_by cmp xs"] set_sort_by [of cmp xs] by (simp add: sort_by_def)
qed (simp add: sort_by_def ordered_def)

end

section \<open>Comparisons from comparisons\<close>

lemma sort_order_ord_of: "sort_order (\<lambda>x y. ord_of (f x) (f y)) S" for f :: "'a \<Rightarrow> 'k::linorder"
  by unfold_locales (auto simp: ord_of_def split: if_splits)

lemma sort_order_subset: "sort_order cmp S \<Longrightarrow> T \<subseteq> S \<Longrightarrow> sort_order cmp T"
  unfolding sort_order_def by blast

lemma sort_order_agree:
  assumes "sort_order c S" and agree: "\<And>x y. x \<in> S \<Longrightarrow> y \<in> S \<Longrightarrow> d x y = c x y"
  shows "sort_order d S"
proof
  fix x y z
  show "x \<in> S \<Longrightarrow> y \<in> S \<Longrightarrow> d y x = reverse_ord (d x y)"
    using sort_order.rev [OF assms(1), of x y] agree [of x y] agree [of y x] by simp
  show "x \<in> S \<Longrightarrow> y \<in> S \<Longrightarrow> z \<in> S \<Longrightarrow> d x y \<noteq> Greater \<Longrightarrow> d y z \<noteq> Greater \<Longrightarrow> d x z \<noteq> Greater"
    using sort_order.trans [OF assms(1), of x y z] agree by simp
qed

lemma reverse_reverse_ord [simp]: "reverse_ord (reverse_ord c) = c"
  by (cases c) simp_all

lemma reverse_ord_eq_Greater [simp]: "reverse_ord c = Greater \<longleftrightarrow> c = Less"
  by (cases c) simp_all

lemma reverse_ord_eq_iff [simp]:
  "reverse_ord c = Equal \<longleftrightarrow> c = Equal" "reverse_ord c = Less \<longleftrightarrow> c = Greater"
  by (cases c; simp)+

lemma sort_order_image:
  assumes "sort_order cmp S" and "\<And>x. x \<in> T \<Longrightarrow> f x \<in> S"
  shows "sort_order (\<lambda>x y. cmp (f x) (f y)) T"
proof
  fix x y z
  show "x \<in> T \<Longrightarrow> y \<in> T \<Longrightarrow> cmp (f y) (f x) = reverse_ord (cmp (f x) (f y))"
    by (intro sort_order.rev [OF assms(1)] assms(2))
  show "x \<in> T \<Longrightarrow> y \<in> T \<Longrightarrow> z \<in> T \<Longrightarrow> cmp (f x) (f y) \<noteq> Greater \<Longrightarrow> cmp (f y) (f z) \<noteq> Greater
    \<Longrightarrow> cmp (f x) (f z) \<noteq> Greater"
    by (rule sort_order.trans [OF assms(1) assms(2) assms(2) assms(2)])
qed

lemma sort_order_reverse:
  assumes "sort_order cmp S"
  shows "sort_order (\<lambda>x y. reverse_ord (cmp x y)) S"
proof
  note rev = sort_order.rev [OF assms]
  fix x y z
  show "x \<in> S \<Longrightarrow> y \<in> S \<Longrightarrow> reverse_ord (cmp y x) = reverse_ord (reverse_ord (cmp x y))"
    using rev [of x y] by simp
  show "x \<in> S \<Longrightarrow> y \<in> S \<Longrightarrow> z \<in> S \<Longrightarrow> reverse_ord (cmp x y) \<noteq> Greater \<Longrightarrow> reverse_ord (cmp y z) \<noteq> Greater
    \<Longrightarrow> reverse_ord (cmp x z) \<noteq> Greater"
    using rev [of x y] rev [of y z] rev [of x z] sort_order.trans [OF assms, of z y x] by simp
qed

text \<open>One comparison, and on a tie another.\<close>

definition then_ord :: "Ordering \<Rightarrow> Ordering \<Rightarrow> Ordering" where
  "then_ord c d = (if c = Equal then d else c)"

lemma sort_order_then:
  assumes c: "sort_order c S" and d: "sort_order d S"
  shows "sort_order (\<lambda>x y. then_ord (c x y) (d x y)) S"
proof -
  note rev_c = sort_order.rev [OF c] and rev_d = sort_order.rev [OF d]
  show ?thesis
  proof
    fix x y
    assume "x \<in> S" "y \<in> S"
    then show "then_ord (c y x) (d y x) = reverse_ord (then_ord (c x y) (d x y))"
      using rev_c [of x y] rev_d [of x y] by (cases "c x y") (simp_all add: then_ord_def)
  next
    fix x y z
    assume S: "x \<in> S" "y \<in> S" "z \<in> S"
      and le: "then_ord (c x y) (d x y) \<noteq> Greater" "then_ord (c y z) (d y z) \<noteq> Greater"
    then have "c x y \<noteq> Greater" "c y z \<noteq> Greater"
      by (auto simp: then_ord_def split: if_splits)
    then have "c x z \<noteq> Greater"
      using S by (rule_tac sort_order.trans [OF c])
    moreover have "d x z \<noteq> Greater" if "c x z = Equal"
    proof -
      have "c x y = Equal"
        using sort_order.trans [OF c S(2,3,1)] \<open>c x y \<noteq> Greater\<close> \<open>c y z \<noteq> Greater\<close> that rev_c [OF S(1,3)] rev_c [OF S(1,2)] by (cases "c x y") auto
      moreover have "c y z = Equal"
        using sort_order.equal_left [OF c S calculation] that by simp
      ultimately show ?thesis
        using le sort_order.trans [OF d S] by (simp add: then_ord_def)
    qed
    ultimately show "then_ord (c x z) (d x z) \<noteq> Greater"
      by (simp add: then_ord_def)
  qed
qed

lemma sort_order_Equal: "sort_order (\<lambda>x y. Equal) S"
  by unfold_locales simp_all

text \<open>Lists in lexicographic order.\<close>

fun lex_cmp :: "('a \<Rightarrow> 'a \<Rightarrow> Ordering) \<Rightarrow> 'a list \<Rightarrow> 'a list \<Rightarrow> Ordering" where
  "lex_cmp cmp [] [] = Equal"
| "lex_cmp cmp [] (y # ys) = Less"
| "lex_cmp cmp (x # xs) [] = Greater"
| "lex_cmp cmp (x # xs) (y # ys) = then_ord (cmp x y) (lex_cmp cmp xs ys)"

lemma sort_order_lex:
  assumes "sort_order cmp S"
  shows "sort_order (lex_cmp cmp) (lists S)"
proof
  fix xs ys
  assume "xs \<in> lists S" "ys \<in> lists S"
  then show "lex_cmp cmp ys xs = reverse_ord (lex_cmp cmp xs ys)"
  proof (induction xs arbitrary: ys)
    case (Cons x xs)
    then show ?case
      using sort_order.rev [OF assms, of x] by (cases ys) (auto simp: then_ord_def)
  next
    case Nil
    then show ?case by (cases ys) simp_all
  qed
next
  fix xs ys zs
  assume "xs \<in> lists S" "ys \<in> lists S" "zs \<in> lists S"
    and "lex_cmp cmp xs ys \<noteq> Greater" "lex_cmp cmp ys zs \<noteq> Greater"
  then show "lex_cmp cmp xs zs \<noteq> Greater"
  proof (induction xs arbitrary: ys zs)
    case Nil
    then show ?case by (cases ys; cases zs) simp_all
  next
    case (Cons x xs)
    then obtain y ys' where ys: "ys = y # ys'"
      by (cases ys) auto
    with Cons.prems obtain z zs' where zs: "zs = z # zs'"
      by (cases zs) auto
    show ?case
    proof (cases "cmp x y = Equal \<and> cmp y z = Equal")
      case True
      then show ?thesis
        using Cons ys zs sort_order.equal_left [OF assms, of x y z] by (auto simp: then_ord_def)
    next
      case False
      have S: "x \<in> S" "y \<in> S" "z \<in> S"
        using Cons.hyps Cons.prems(1,2) unfolding ys zs by simp_all
      have "cmp x y \<noteq> Greater" "cmp y z \<noteq> Greater"
        using Cons.prems ys zs by (auto simp: then_ord_def split: if_splits)
      moreover from this have "cmp x z \<noteq> Greater"
        by (rule sort_order.trans [OF assms S])
      moreover have "cmp x z \<noteq> Equal"
        using False calculation sort_order.equal_left [OF assms S(1,3,2)] sort_order.rev [OF assms S(2,3)]
          sort_order.equal_left [OF assms S(1,2,3)] by (cases "cmp x y"; cases "cmp y z") auto
      ultimately show ?thesis
        using zs by (simp add: then_ord_def)
    qed
  qed
qed

section \<open>The order of values\<close>

definition type_rank :: "'n Value \<Rightarrow> nat" where
  "type_rank v =
     (case v of
       VJson (Object _) \<Rightarrow> 0
     | VNode _ _ _ \<Rightarrow> 1
     | VEdge _ _ _ _ _ \<Rightarrow> 2
     | VJson (Array _) \<Rightarrow> 3
     | VPath _ _ \<Rightarrow> 4
     | VStr _ \<Rightarrow> 5
     | VBool _ \<Rightarrow> 6
     | VFloat f \<Rightarrow> if f64_is_nan f then 8 else 7
     | VInt _ \<Rightarrow> 7
     | VNull \<Rightarrow> 9
     | _ \<Rightarrow> 5)"

text \<open>\<open>i128\<close> does not overflow here.\<close>

definition duration_approx :: "CypherDuration \<Rightarrow> int" where
  "duration_approx d =
     sint (du_months d) * 2629746000000000 + sint (du_days d) * 86400000000000
     + sint (du_hours d) * 3600000000000 + sint (du_minutes d) * 60000000000
     + sint (du_seconds d) * 1000000000 + sint (du_nanoseconds d)"

definition float_ordering :: "u64 \<Rightarrow> u64 \<Rightarrow> Ordering" where
  "float_ordering x y = (case f64_partial_cmp x y of Some ord \<Rightarrow> ord | None \<Rightarrow> Equal)"

text \<open>The first difference between two lists decides, then their lengths.\<close>

fun first_difference :: "Ordering list \<Rightarrow> Ordering \<Rightarrow> Ordering" where
  "first_difference [] lens = lens"
| "first_difference (c # cs) lens = (if c \<noteq> Equal then c else first_difference cs lens)"

function value_ordering :: "'n host \<Rightarrow> 'n Value \<Rightarrow> 'n Value \<Rightarrow> Ordering"
  and list_ordering :: "'n host \<Rightarrow> 'n Json list \<Rightarrow> 'n Json list \<Rightarrow> Ordering" where
  "value_ordering h a b =
     (case (a, b) of
       (VNull, VNull) \<Rightarrow> Equal
     | (VNull, _) \<Rightarrow> Greater
     | (_, VNull) \<Rightarrow> Less
     | (VInt x, VInt y) \<Rightarrow> ord_of (sint x) (sint y)
     | (VFloat x, VFloat y) \<Rightarrow>
         (if f64_is_nan x \<and> f64_is_nan y then Equal
          else if f64_is_nan x then Greater
          else if f64_is_nan y then Less
          else float_ordering x y)
     | (VInt x, VFloat y) \<Rightarrow> if f64_is_nan y then Less else float_ordering (i64_as_f64 x) y
     | (VFloat x, VInt y) \<Rightarrow> if f64_is_nan x then Greater else float_ordering x (i64_as_f64 y)
     | (VStr x, VStr y) \<Rightarrow> str_ord x y
     | (VBool x, VBool y) \<Rightarrow> ord_of (bool_num x) (bool_num y)
     | (VTemporal x, VTemporal y) \<Rightarrow> temporal_cmp x y
     | (VDuration x, VDuration y) \<Rightarrow> ord_of (duration_approx x) (duration_approx y)
     | (VJson (Array xa), VJson (Array ya)) \<Rightarrow> list_ordering h xa ya
     | _ \<Rightarrow> ord_of (type_rank a) (type_rank b))"
| "list_ordering h a b =
     first_difference
       (map (\<lambda>(x, y). value_ordering h (json_to_value h x) (json_to_value h y)) (zip a b))
       (ord_of (length a) (length b))"
  by pat_completeness auto
termination
  by (relation "measure (\<lambda>x. case x of
        Inl (h, a, b) \<Rightarrow> 2 * vweight a
      | Inr (h, a, b) \<Rightarrow> 2 * sum_list (map jweight a) + 1)")
    (auto dest!: set_zip_leftD simp: less_Suc_eq_le intro!: mult_le_mono2 vweight_elem)

declare value_ordering.simps [simp del] list_ordering.simps [simp del]

text \<open>
  The values whose order is sound. A number counts for its float; so an integer that a float does not hold
  exactly is out, and temporal values and durations, which share the rank of strings.
\<close>

inductive orderable :: "'n host \<Rightarrow> 'n Value \<Rightarrow> bool" for h where
  "orderable h VNull"
| "orderable h (VNode i ls ps)"
| "orderable h (VEdge i t s g ps)"
| "orderable h (VPath ns rs)"
| "\<bar>sint i\<bar> < 2 ^ 53 \<Longrightarrow> orderable h (VInt i)"
| "orderable h (VFloat f)"
| "orderable h (VStr s)"
| "orderable h (VBool b)"
| "orderable h (VJson (Object m))"
| "(\<And>j. j \<in> set js \<Longrightarrow> orderable h (json_to_value h j)) \<Longrightarrow> orderable h (VJson (Array js))"

inductive_simps orderable_simps:
  "orderable h (VInt i)" "orderable h (VJson j)" "orderable h (VTemporal t)" "orderable h (VDuration d)"

text \<open>The order of two values of the same rank.\<close>

definition number_key :: "'n Value \<Rightarrow> int" where
  "number_key v =
     (case v of
       VInt i \<Rightarrow> f64_key (i64_as_f64 i)
     | VFloat f \<Rightarrow> if f64_is_nan f then 0 else f64_key f
     | _ \<Rightarrow> 0)"

definition list_items :: "'n host \<Rightarrow> 'n Value \<Rightarrow> 'n Value list" where
  "list_items h v = (case v of VJson (Array js) \<Rightarrow> map (json_to_value h) js | _ \<Rightarrow> [])"

definition text_key :: "'n Value \<Rightarrow> rust_str" where
  "text_key v = (case v of VStr s \<Rightarrow> s | _ \<Rightarrow> [])"

definition bool_key :: "'n Value \<Rightarrow> int" where
  "bool_key v = (case v of VBool b \<Rightarrow> bool_num b | _ \<Rightarrow> 0)"

lemma ord_of_Suc [simp]: "ord_of (Suc m) (Suc n) = ord_of m n"
  by (simp add: ord_of_def)

lemma list_ordering_lex:
  "list_ordering h a b = lex_cmp (value_ordering h) (map (json_to_value h) a) (map (json_to_value h) b)"
proof (induction a arbitrary: b)
  case Nil
  then show ?case by (cases b) (simp_all add: list_ordering.simps ord_of_def)
next
  case (Cons x a)
  then show ?case
    by (cases b) (simp_all add: list_ordering.simps ord_of_def [of "Suc _" 0] then_ord_def)
qed

lemma int_ordering:
  assumes "\<bar>sint i\<bar> < 2 ^ 53" and "\<bar>sint j\<bar> < 2 ^ 53"
  shows "ord_of (sint i) (sint j) = ord_of (f64_key (i64_as_f64 i)) (f64_key (i64_as_f64 j))"
proof (cases "i = j")
  case False
  then have "sint i \<noteq> sint j"
    by (metis signed_word_eqI)
  then show ?thesis
    using i64_as_f64_less [OF assms] i64_as_f64_less [OF assms(2,1)] by (auto simp: ord_of_def)
qed (simp add: ord_of_def)

text \<open>The order is that of the ranks, and among equal ranks of the keys.\<close>

definition key_ordering :: "'n host \<Rightarrow> 'n Value \<Rightarrow> 'n Value \<Rightarrow> Ordering" where
  "key_ordering h a b =
     then_ord (ord_of (type_rank a) (type_rank b))
       (then_ord (ord_of (number_key a) (number_key b))
         (then_ord (ord_of (bool_key a) (bool_key b))
           (then_ord (str_ord (text_key a) (text_key b))
             (lex_cmp (value_ordering h) (list_items h a) (list_items h b)))))"

lemmas key_simps =
  value_ordering.simps key_ordering_def type_rank_def number_key_def text_key_def bool_key_def list_items_def
  then_ord_def ord_of_def [of "_ :: nat"] ord_of_def [of 0 "0 :: int"] str_ord_def [of "[]" "[]"]
  list_ordering_lex float_ordering_def f64_partial_cmp_def i64_as_f64_parts

lemma value_ordering_key:
  assumes "orderable h a" and "orderable h b"
  shows "value_ordering h a b = key_ordering h a b"
  using assms(1)
proof cases
  case 5
  from assms(2) this show ?thesis
    by cases (auto simp: key_simps int_ordering)
qed (use assms(2) in \<open>cases; auto simp: key_simps\<close>)+

lemma sort_order_str: "sort_order str_ord S"
proof
  show "str_ord x z \<noteq> Greater" if "str_ord x y \<noteq> Greater" "str_ord y z \<noteq> Greater" for x y z
    using that str_less_trans [of x y z] str_less_trans [of y x z] by (auto simp: str_ord_def split: if_splits)
qed (use str_less_linear str_less_asym in \<open>auto simp: str_ord_def\<close>)

lemma list_items_below:
  assumes "orderable h v" and "vweight v < Suc n"
  shows "list_items h v \<in> lists {v. orderable h v \<and> vweight v < n}"
proof (cases "\<exists>js. v = VJson (Array js)")
  case True
  then obtain js where "v = VJson (Array js)" ..
  then show ?thesis
    using assms vweight_elem [of _ js h] by (fastforce simp: list_items_def orderable_simps)
qed (auto simp: list_items_def split: Value.splits Json.splits)

lemma value_ordering_below: "sort_order (value_ordering h) {v. orderable h v \<and> vweight v < n}"
proof (induction n)
  case 0
  show ?case by unfold_locales simp_all
next
  case (Suc n)
  have "sort_order (key_ordering h) {v. orderable h v \<and> vweight v < Suc n}"
    unfolding key_ordering_def
    by (intro sort_order_then sort_order_ord_of sort_order_image [OF sort_order_str [of UNIV]]
        sort_order_image [OF sort_order_lex [OF Suc]]) (simp_all add: list_items_below)
  then show ?case
    by (rule sort_order_agree) (simp add: value_ordering_key)
qed

lemma value_ordering_sort_order: "sort_order (value_ordering h) {v. orderable h v}"
proof
  note below = value_ordering_below [of h]
  fix x y z
  show "x \<in> {v. orderable h v} \<Longrightarrow> y \<in> {v. orderable h v} \<Longrightarrow>
    value_ordering h y x = reverse_ord (value_ordering h x y)"
    by (rule sort_order.rev [OF below [of "Suc (vweight x + vweight y)"]]) simp_all
  show "x \<in> {v. orderable h v} \<Longrightarrow> y \<in> {v. orderable h v} \<Longrightarrow> z \<in> {v. orderable h v} \<Longrightarrow>
    value_ordering h x y \<noteq> Greater \<Longrightarrow> value_ordering h y z \<noteq> Greater \<Longrightarrow> value_ordering h x z \<noteq> Greater"
    by (rule sort_order.trans [OF below [of "Suc (vweight x + vweight y + vweight z)"], of x y z]) simp_all
qed

interpretation value_order: sort_order "value_ordering h" "{v. orderable h v}" for h
  by (rule value_ordering_sort_order)

end
