(* ===== verification/ExecExpr.thy ===== *)
theory ExecExpr
  imports ExecOrder "HOL-Library.AList"
begin

text \<open>
  The evaluation of expressions in \<open>cypher/executor.rs\<close>: arithmetic, the functions on values, and
  \<open>eval_expr\<close> itself. Whatever it reaches outside the theory is a field of \<open>exec\<close>.
\<close>

section \<open>Rows, errors, and what lies outside\<close>

text \<open>
  A row is a \<open>HashMap\<close> from variables to values: an association list with distinct keys. The messages of
  the source are constructors with their arguments; \<open>Failed\<close> carries a message from outside, \<open>Panicked\<close> is
  a panic and \<open>Diverges\<close> a loop that does not end.
\<close>

type_synonym 'n Row = "(string \<times> 'n Value) list"
type_synonym 'n Params = "string \<rightharpoonup> 'n Json"

datatype ExecError =
    UnboundVariable string
  | NoProperty string string
  | MissingParameter string
  | ExpectedBoolean string
  | InNeedsList
  | MapNeedsStringKey
  | ListNeedsInteger
  | ListIndexNotInteger
  | ListIndexIsFloat
  | ElementNeedsList
  | TakesArguments string nat
  | InvalidArgument string
  | RangeTakesIntegers string string string
  | RangeStepZero
  | UnknownFunction string
  | UnboundInOrderBy string
  | AmbiguousAggregation
  | AmbiguousAggregationInOrderBy
  | RequiresArgument string
  | PercentileOutOfRange
  | UnknownAggregate string
  | NegativeCount
  | FloatCount
  | Failed string
  | Panicked
  | Diverges

type_synonym 'a exec_result = "ExecError + 'a"

definition row_insert :: "string \<Rightarrow> 'v \<Rightarrow> (string \<times> 'v) list \<Rightarrow> (string \<times> 'v) list" where
  "row_insert k v row = AList.update k v row"

text \<open>\<open>or_insert\<close> on every entry: bindings of the first row win.\<close>

definition row_fill :: "(string \<times> 'v) list \<Rightarrow> (string \<times> 'v) list \<Rightarrow> (string \<times> 'v) list" where
  "row_fill row other = foldl (\<lambda>r (k, v). if map_of r k = None then row_insert k v r else r) row other"

text \<open>
  \<open>try_parse_temporal_str\<close> and the sum of a temporal value and a duration rest on \<open>chrono\<close>; \<open>powf\<close>, \<open>sqrt\<close>, the text of a float and its
  parsing are of the standard library; \<open>regex_match\<close> runs SQL; the patterns and subqueries in expressions go
  to the planner and back to \<open>execute\<close>. \<open>other_function\<close> stands for the functions that \<open>eval_function\<close> below
  leaves out, on the name and the arguments with their results.
\<close>

record 'n exec =
  host :: "'n host"
  try_parse_temporal_str :: "rust_str \<Rightarrow> TemporalValue option"
  temporal_add_duration :: "TemporalValue \<Rightarrow> CypherDuration \<Rightarrow> TemporalValue exec_result"
  temporal_sub_duration :: "TemporalValue \<Rightarrow> CypherDuration \<Rightarrow> TemporalValue exec_result"
  powf :: "u64 \<Rightarrow> u64 \<Rightarrow> u64"
  f64_sqrt :: "u64 \<Rightarrow> u64"
  f64_text :: "u64 \<Rightarrow> rust_str"
  parse_i64_text :: "rust_str \<Rightarrow> i64 option"
  parse_f64_text :: "rust_str \<Rightarrow> u64 option"
  str_trim :: "rust_str \<Rightarrow> rust_str"
  regex_match :: "rust_str \<Rightarrow> rust_str \<Rightarrow> bool"
  shortest_path :: "Expr Pattern \<Rightarrow> bool \<Rightarrow> 'n Row \<Rightarrow> 'n Params \<Rightarrow> 'n Value exec_result"
  pattern_rows :: "Expr Pattern \<Rightarrow> 'n Row \<Rightarrow> 'n Params \<Rightarrow> ('n Row list \<times> string list) exec_result"
  subquery_rows :: "query \<Rightarrow> 'n Row \<Rightarrow> 'n Params \<Rightarrow> 'n Row list exec_result"
  other_function :: "string \<Rightarrow> (Expr \<times> 'n Value exec_result) list \<Rightarrow> 'n Value exec_result"

section \<open>Arithmetic\<close>

definition coerce_temporal_str :: "'n exec \<Rightarrow> 'n Value \<Rightarrow> 'n Value" where
  "coerce_temporal_str x v =
     (case v of
       VStr s \<Rightarrow>
         (case try_parse_duration_iso (host x) s of
           Some dur \<Rightarrow> VDuration dur
         | None \<Rightarrow> (case try_parse_temporal_iso (host x) s of Some tv \<Rightarrow> VTemporal tv | None \<Rightarrow> v))
     | _ \<Rightarrow> v)"

definition require_bool :: "'n Value \<Rightarrow> bool option exec_result" where
  "require_bool v =
     (case v of
       VBool b \<Rightarrow> Inr (Some b)
     | VNull \<Rightarrow> Inr None
     | other \<Rightarrow> Inl (ExpectedBoolean (value_type_name other)))"

definition of_bool3 :: "bool option \<Rightarrow> 'n Value" where
  "of_bool3 r = (case r of Some b \<Rightarrow> VBool b | None \<Rightarrow> VNull)"

definition float_arith :: "'n exec \<Rightarrow> u64 \<Rightarrow> ArithOp \<Rightarrow> u64 \<Rightarrow> 'n Value" where
  "float_arith x a op b =
     (case op of
       Add \<Rightarrow> VFloat (f64_add a b)
     | Sub \<Rightarrow> VFloat (f64_sub a b)
     | Mul \<Rightarrow> VFloat (f64_mul a b)
     | Div \<Rightarrow>
         (if f64_is_zero b then (if f64_is_zero a then VFloat F64_NAN else VNull) else VFloat (f64_div a b))
     | Mod \<Rightarrow> (if f64_is_zero b then VNull else VFloat (f64_rem a b))
     | Pow \<Rightarrow> VFloat (powf x a b))"

definition int_arith :: "'n exec \<Rightarrow> i64 \<Rightarrow> ArithOp \<Rightarrow> i64 \<Rightarrow> 'n Value exec_result" where
  "int_arith x a op b =
     (case op of
       Add \<Rightarrow> Inr (VInt (a + b))
     | Sub \<Rightarrow> Inr (VInt (a - b))
     | Mul \<Rightarrow> Inr (VInt (a * b))
     | Div \<Rightarrow> (if b = 0 then Inr VNull else if div_panics a b then Inl Panicked else Inr (VInt (i64_div a b)))
     | Mod \<Rightarrow> (if b = 0 then Inr VNull else if div_panics a b then Inl Panicked else Inr (VInt (i64_rem a b)))
     | Pow \<Rightarrow> Inr (VFloat (powf x (i64_as_f64 a) (i64_as_f64 b))))"

definition f64_one :: u64 where "f64_one = 0x3FF0000000000000"

definition eval_arith :: "'n exec \<Rightarrow> 'n Value \<Rightarrow> ArithOp \<Rightarrow> 'n Value \<Rightarrow> 'n Value exec_result" where
  "eval_arith x left op right =
     (let left = coerce_temporal_str x left; right = coerce_temporal_str x right
      in case (left, right) of
        (VInt a, VInt b) \<Rightarrow> int_arith x a op b
      | (VFloat a, VFloat b) \<Rightarrow> Inr (float_arith x a op b)
      | (VInt a, VFloat b) \<Rightarrow> Inr (float_arith x (i64_as_f64 a) op b)
      | (VFloat a, VInt b) \<Rightarrow> Inr (float_arith x a op (i64_as_f64 b))
      | (VStr a, VStr b) \<Rightarrow> Inr (if op = Add then VStr (a @ b) else VNull)
      | (VJson (Array a), VJson (Array b)) \<Rightarrow> Inr (if op = Add then VJson (Array (a @ b)) else VNull)
      | (VJson (Array a), _) \<Rightarrow> Inr (if op = Add then VJson (Array (a @ [to_json (host x) right])) else VNull)
      | (_, VJson (Array b)) \<Rightarrow> Inr (if op = Add then VJson (Array (to_json (host x) left # b)) else VNull)
      | (VTemporal tv, VDuration dur) \<Rightarrow>
          (case op of
            Add \<Rightarrow> bindE (temporal_add_duration x tv dur) (\<lambda>r. Inr (VTemporal r))
          | Sub \<Rightarrow> bindE (temporal_sub_duration x tv dur) (\<lambda>r. Inr (VTemporal r))
          | _ \<Rightarrow> Inr VNull)
      | (VDuration a, VDuration b) \<Rightarrow>
          Inr (case op of
            Add \<Rightarrow> VDuration (duration_add a b) | Sub \<Rightarrow> VDuration (duration_sub a b) | _ \<Rightarrow> VNull)
      | (VDuration d, VInt n) \<Rightarrow>
          (case op of
            Mul \<Rightarrow> Inr (VDuration (duration_mul d n))
          | Div \<Rightarrow>
              (if n = 0 then Inr VNull
               else case duration_div d n of Some r \<Rightarrow> Inr (VDuration r) | None \<Rightarrow> Inl Panicked)
          | _ \<Rightarrow> Inr VNull)
      | (VDuration d, VFloat f) \<Rightarrow>
          Inr (case op of
            Mul \<Rightarrow> VDuration (duration_mul_f d f)
          | Div \<Rightarrow> (if f64_is_zero f then VNull else VDuration (duration_mul_f d (f64_div f64_one f)))
          | _ \<Rightarrow> VNull)
      | (VInt n, VDuration d) \<Rightarrow> Inr (if op = Mul then VDuration (duration_mul d n) else VNull)
      | (VFloat f, VDuration d) \<Rightarrow> Inr (if op = Mul then VDuration (duration_mul_f d f) else VNull)
      | (VDuration dur, VTemporal tv) \<Rightarrow>
          (if op = Add then bindE (temporal_add_duration x tv dur) (\<lambda>r. Inr (VTemporal r)) else Inr VNull)
      | _ \<Rightarrow> Inr VNull)"

section \<open>Functions\<close>

text \<open>\<open>s.chars()\<close>, each character as its bytes.\<close>

function chars :: "rust_str \<Rightarrow> bytes list" where
  "chars s = (if s = [] then [] else take (snd (utf8_step s)) s # chars (drop (snd (utf8_step s)) s))"
  by pat_completeness auto
termination
  by (relation "measure length") (use utf8_step_shrinks in auto)

declare chars.simps [simp del]

text \<open>The loop of \<open>range\<close>. In a release build \<open>cur += st\<close> wraps, and the loop may not end.\<close>

partial_function (option) range_loop :: "i64 \<Rightarrow> i64 \<Rightarrow> i64 \<Rightarrow> i64 list option" where
  "range_loop cur e st =
     (if (0 < sint st \<and> sint cur \<le> sint e) \<or> (sint st < 0 \<and> sint e \<le> sint cur) then
        Option.bind (range_loop (cur + st) e st) (\<lambda>r. Some (cur # r))
      else Some [])"

definition range_values :: "'n exec \<Rightarrow> 'n Value \<Rightarrow> 'n Value \<Rightarrow> 'n Value \<Rightarrow> 'n Value exec_result" where
  "range_values x start stop step =
     (case (start, stop, step) of
       (VInt s, VInt e, VInt st) \<Rightarrow>
         (if st = 0 then Inl RangeStepZero
          else case range_loop s e st of
            Some r \<Rightarrow> Inr (VJson (Array (map (\<lambda>i. Number (of_i64 (nums (host x)) i)) r)))
          | None \<Rightarrow> Inl Diverges)
     | _ \<Rightarrow>
         (if is_null start \<or> is_null stop \<or> is_null step then Inr VNull
          else Inl (RangeTakesIntegers (value_type_name start) (value_type_name stop) (value_type_name step))))"

definition nat_of :: "i64 \<Rightarrow> nat" where
  "nat_of i = nat (max 0 (sint i))"

definition substring_value :: "'n Value \<Rightarrow> 'n Value \<Rightarrow> 'n Value option \<Rightarrow> 'n Value" where
  "substring_value s start len_val =
     (case (s, start) of
       (VStr s, VInt start) \<Rightarrow>
         (let rest = drop (nat_of start) (chars s)
          in case len_val of
            Some (VInt len) \<Rightarrow> VStr (concat (take (nat_of len) rest))
          | Some VNull \<Rightarrow> VNull
          | _ \<Rightarrow> VStr (concat rest))
     | _ \<Rightarrow> VNull)"

definition bool_text :: "bool \<Rightarrow> rust_str" where
  "bool_text b = bytes_of (if b then ''true'' else ''false'')"

definition json_list :: "rust_str list \<Rightarrow> 'n Value" where
  "json_list ss = VJson (Array (map String ss))"

text \<open>The functions of one argument, on its value.\<close>

definition math1 :: "(i64 \<Rightarrow> i64) \<Rightarrow> (u64 \<Rightarrow> u64) \<Rightarrow> 'n Value \<Rightarrow> 'n Value exec_result" where
  "math1 int_fn float_fn v =
     Inr (case v of VInt i \<Rightarrow> VInt (int_fn i) | VFloat f \<Rightarrow> VFloat (float_fn f) | _ \<Rightarrow> VNull)"

definition function1 :: "'n exec \<Rightarrow> string \<Rightarrow> ('n Value \<Rightarrow> 'n Value exec_result) option" where
  "function1 x name =
     (if name = ''id'' then
        Some (\<lambda>v. Inr (case v of VNode i _ _ \<Rightarrow> VInt i | VEdge i _ _ _ _ \<Rightarrow> VInt i | _ \<Rightarrow> VNull))
      else if name = ''labels'' then
        Some (\<lambda>v. case v of
          VNode _ labels _ \<Rightarrow> Inr (json_list labels) | VNull \<Rightarrow> Inr VNull | _ \<Rightarrow> Inl (InvalidArgument name))
      else if name = ''type'' then
        Some (\<lambda>v. case v of
          VEdge _ rel_type _ _ _ \<Rightarrow> Inr (VStr rel_type) | VNull \<Rightarrow> Inr VNull | _ \<Rightarrow> Inl (InvalidArgument name))
      else if name = ''properties'' then
        Some (\<lambda>v. case v of
          VNode _ _ properties \<Rightarrow> Inr (VJson (Object properties))
        | VEdge _ _ _ _ properties \<Rightarrow> Inr (VJson (Object properties))
        | VJson (Object m) \<Rightarrow> Inr (VJson (Object m))
        | VNull \<Rightarrow> Inr VNull
        | _ \<Rightarrow> Inl (InvalidArgument name))
      else if name = ''keys'' then
        Some (\<lambda>v. Inr (case v of
          VNode _ _ properties \<Rightarrow> json_list (map fst (filter (\<lambda>kv. snd kv \<noteq> Null) properties))
        | VEdge _ _ _ _ properties \<Rightarrow> json_list (map fst (filter (\<lambda>kv. snd kv \<noteq> Null) properties))
        | VJson (Object obj) \<Rightarrow> json_list (map fst obj)
        | _ \<Rightarrow> VNull))
      else if name = ''tostring'' then
        Some (\<lambda>v. case v of
          VInt i \<Rightarrow> Inr (VStr (bytes_of (i64_text i)))
        | VFloat f \<Rightarrow> Inr (VStr (f64_text x f))
        | VStr s \<Rightarrow> Inr (VStr s)
        | VBool b \<Rightarrow> Inr (VStr (bool_text b))
        | VTemporal tv \<Rightarrow> Inr (VStr (tv_iso tv))
        | VDuration d \<Rightarrow> Inr (VStr (bytes_of (du_iso d)))
        | VNull \<Rightarrow> Inr VNull
        | _ \<Rightarrow> Inl (InvalidArgument name))
      else if name = ''tointeger'' then
        Some (\<lambda>v. case v of
          VInt i \<Rightarrow> Inr (VInt i)
        | VFloat f \<Rightarrow> Inr (VInt (f64_as_i64 f))
        | VBool b \<Rightarrow> Inr (VInt (if b then 1 else 0))
        | VStr s \<Rightarrow>
            Inr (case parse_i64_text x (str_trim x s) of
              Some i \<Rightarrow> VInt i
            | None \<Rightarrow> (case parse_f64_text x (str_trim x s) of Some f \<Rightarrow> VInt (f64_as_i64 f) | None \<Rightarrow> VNull))
        | VNull \<Rightarrow> Inr VNull
        | _ \<Rightarrow> Inl (InvalidArgument name))
      else if name = ''tofloat'' then
        Some (\<lambda>v. case v of
          VInt i \<Rightarrow> Inr (VFloat (i64_as_f64 i))
        | VFloat f \<Rightarrow> Inr (VFloat f)
        | VStr s \<Rightarrow> Inr (case parse_f64_text x s of Some f \<Rightarrow> VFloat f | None \<Rightarrow> VNull)
        | VNull \<Rightarrow> Inr VNull
        | _ \<Rightarrow> Inl (InvalidArgument name))
      else if name = ''toboolean'' then
        Some (\<lambda>v. case v of
          VBool b \<Rightarrow> Inr (VBool b)
        | VInt i \<Rightarrow> Inr (VBool (i \<noteq> 0))
        | VStr s \<Rightarrow>
            Inr (if to_ascii_lowercase (text_of s) = ''true'' then VBool True
              else if to_ascii_lowercase (text_of s) = ''false'' then VBool False
              else VNull)
        | VNull \<Rightarrow> Inr VNull
        | _ \<Rightarrow> Inl (InvalidArgument name))
      else if name = ''size'' then
        Some (\<lambda>v. Inr (case v of
          VStr s \<Rightarrow> VInt (of_nat (length (chars s))) | VJson (Array a) \<Rightarrow> VInt (of_nat (length a)) | _ \<Rightarrow> VNull))
      else if name = ''length'' then
        Some (\<lambda>v. Inr (case v of
          VStr s \<Rightarrow> VInt (of_nat (length (chars s)))
        | VJson (Array a) \<Rightarrow> VInt (of_nat (length a))
        | VPath _ rels \<Rightarrow> VInt (of_nat (length rels))
        | _ \<Rightarrow> VNull))
      else if name = ''nodes'' then
        Some (\<lambda>v. Inr (case v of
          VPath nodes _ \<Rightarrow> VJson (Array (map (to_json (host x)) nodes)) | _ \<Rightarrow> VNull))
      else if name = ''relationships'' \<or> name = ''rels'' then
        Some (\<lambda>v. Inr (case v of
          VPath _ rels \<Rightarrow> VJson (Array (map (to_json (host x)) rels)) | _ \<Rightarrow> VNull))
      else if name = ''head'' then
        Some (\<lambda>v. Inr (case v of VJson (Array (j # _)) \<Rightarrow> json_to_value (host x) j | _ \<Rightarrow> VNull))
      else if name = ''tail'' then
        Some (\<lambda>v. Inr (case v of VJson (Array a) \<Rightarrow> VJson (Array (tl a)) | _ \<Rightarrow> VNull))
      else if name = ''last'' then
        Some (\<lambda>v. Inr (case v of
          VJson (Array a) \<Rightarrow> if a = [] then VNull else json_to_value (host x) (last a) | _ \<Rightarrow> VNull))
      else if name = ''reverse'' then
        Some (\<lambda>v. Inr (case v of
          VStr s \<Rightarrow> VStr (concat (rev (chars s))) | VJson (Array a) \<Rightarrow> VJson (Array (rev a)) | _ \<Rightarrow> VNull))
      else if name = ''abs'' then Some (math1 (\<lambda>i. if sint i < 0 then - i else i) (\<lambda>f. of_nat (f64_magnitude f)))
      else if name = ''round'' then Some (math1 id f64_round)
      else None)"

definition first_value :: "'n Value exec_result list \<Rightarrow> 'n Value exec_result" where
  "first_value rs =
     foldr (\<lambda>r rest. bindE r (\<lambda>v. if is_null v then rest else Inr v)) rs (Inr VNull)"

definition function2 ::
  "nat \<Rightarrow> ('n Value \<Rightarrow> 'n Value \<Rightarrow> 'n Value) \<Rightarrow> string \<Rightarrow> 'n Value exec_result list \<Rightarrow> 'n Value exec_result" where
  "function2 n f name rs =
     (case rs of [r1, r2] \<Rightarrow> bindE r1 (\<lambda>a. bindE r2 (\<lambda>b. Inr (f a b))) | _ \<Rightarrow> Inl (TakesArguments name n))"

definition left_value :: "'n Value \<Rightarrow> 'n Value \<Rightarrow> 'n Value" where
  "left_value s n = (case (s, n) of (VStr s, VInt n) \<Rightarrow> VStr (concat (take (nat_of n) (chars s))) | _ \<Rightarrow> VNull)"

definition right_value :: "'n Value \<Rightarrow> 'n Value \<Rightarrow> 'n Value" where
  "right_value s n =
     (case (s, n) of
       (VStr s, VInt n) \<Rightarrow> VStr (concat (drop (length (chars s) - nat_of n) (chars s)))
     | _ \<Rightarrow> VNull)"

text \<open>
  \<open>eval_function\<close> on the results of its arguments. A result that a function does not reach is not looked at,
  so evaluating them all beforehand changes nothing.
\<close>

definition eval_function ::
  "'n exec \<Rightarrow> string \<Rightarrow> (Expr \<times> 'n Value exec_result) list \<Rightarrow> 'n Value exec_result" where
  "eval_function x name args =
     (let lower = to_ascii_lowercase name; rs = map snd args
      in case function1 x lower of
        Some f \<Rightarrow> (case rs of [r] \<Rightarrow> bindE r f | _ \<Rightarrow> Inl (TakesArguments lower 1))
      | None \<Rightarrow>
          if lower = ''coalesce'' then first_value rs
          else if lower = ''range'' then
            (case rs of
              [r1, r2] \<Rightarrow> bindE r1 (\<lambda>s. bindE r2 (\<lambda>e. range_values x s e (VInt 1)))
            | [r1, r2, r3] \<Rightarrow> bindE r1 (\<lambda>s. bindE r2 (\<lambda>e. bindE r3 (\<lambda>st. range_values x s e st)))
            | _ \<Rightarrow> Inl (TakesArguments lower 2))
          else if lower = ''substring'' then
            (case rs of
              [r1, r2] \<Rightarrow> bindE r1 (\<lambda>s. bindE r2 (\<lambda>st. Inr (substring_value s st None)))
            | [r1, r2, r3] \<Rightarrow> bindE r1 (\<lambda>s. bindE r2 (\<lambda>st. bindE r3 (\<lambda>len. Inr (substring_value s st (Some len)))))
            | _ \<Rightarrow> Inl (UnknownFunction name))
          else if lower = ''left'' then function2 2 left_value lower rs
          else if lower = ''right'' then function2 2 right_value lower rs
          else other_function x name args)"

section \<open>The loop of \<open>range\<close>\<close>

lemmas range_step = range_loop.simps

text \<open>The values that the loop pushes when no addition wraps, for a positive and for a negative step.\<close>

definition range_count :: "int \<Rightarrow> int \<Rightarrow> int \<Rightarrow> nat" where
  "range_count s e st = (if st = 0 then 0 else nat ((e - s) div st + 1))"

lemma range_count_step:
  assumes "0 < st \<and> s \<le> e \<or> st < 0 \<and> e \<le> s"
  shows "range_count s e st = Suc (range_count (s + st) e st)"
proof -
  have "st \<noteq> 0" and "0 \<le> (e - s) div st"
    using assms by (auto simp: pos_imp_zdiv_nonneg_iff neg_imp_zdiv_nonneg_iff)
  moreover have "(e - (s + st)) div st = (e - s) div st - 1"
  proof -
    have "(e - s + (- 1) * st) div st = - 1 + (e - s) div st"
      using \<open>st \<noteq> 0\<close> by (rule div_mult_self1)
    then show ?thesis
      by (simp add: diff_diff_eq)
  qed
  ultimately show ?thesis
    by (simp add: range_count_def)
qed

lemma range_count_0:
  "\<not> (0 < st \<and> s \<le> e \<or> st < 0 \<and> e \<le> s) \<Longrightarrow> range_count s e st = 0"
  by (auto simp: range_count_def not_le pos_imp_zdiv_neg_iff neg_imp_zdiv_neg_iff intro!: nat_0_iff [THEN iffD2])
    (smt (verit) pos_imp_zdiv_neg_iff neg_imp_zdiv_neg_iff)+

lemma range_loop_ends:
  assumes "in_i64 (sint e + sint st)" and "st \<noteq> 0"
  shows "range_loop cur e st
    = Some (map (\<lambda>k. cur + of_nat k * st) [0..<range_count (sint cur) (sint e) (sint st)])"
proof (induction "range_count (sint cur) (sint e) (sint st)" arbitrary: cur)
  case 0
  have "\<not> (0 < sint st \<and> sint cur \<le> sint e \<or> sint st < 0 \<and> sint e \<le> sint cur)"
    using 0 range_count_step [of "sint st" "sint cur" "sint e"] by auto
  then show ?case
    using 0 by (subst range_step) (simp only: if_False, simp)
next
  case (Suc n)
  then have go: "0 < sint st \<and> sint cur \<le> sint e \<or> sint st < 0 \<and> sint e \<le> sint cur"
    using range_count_0 [of "sint st" "sint cur" "sint e"] by fastforce
  then have "in_i64 (sint cur + sint st)"
    using assms(1) in_i64_sint [of cur] by (auto simp: in_i64_def)
  then have "sint (cur + st) = sint cur + sint st"
    by (rule sint_plus)
  with Suc(2) range_count_step [OF go] have n: "n = range_count (sint (cur + st)) (sint e) (sint st)"
    by simp
  have "range_loop (cur + st) e st = Some (map (\<lambda>k. cur + st + of_nat k * st) [0..<n])"
    using Suc(1) [OF n] n by simp
  then show ?case
    using go by (subst range_step) (simp add: Suc(2) [symmetric] map_upt_Suc algebra_simps del: upt_Suc)
qed

lemma range_loop_diverges:
  assumes "0 < sint st"
  shows "range_loop cur 0x7FFFFFFFFFFFFFFF st = None"
proof -
  have "\<not> (e = 0x7FFFFFFFFFFFFFFF \<and> 0 < sint st)" if "range_loop cur e st = Some r" for cur e st r
  proof (rule range_loop.raw_induct [of "\<lambda>cur e st r. \<not> (e = 0x7FFFFFFFFFFFFFFF \<and> 0 < sint st)", OF _ that])
    fix loop :: "i64 \<Rightarrow> i64 \<Rightarrow> i64 \<Rightarrow> i64 list option" and cur e st :: i64 and r
    assume IH: "\<And>cur e st r. loop cur e st = Some r \<Longrightarrow> \<not> (e = 0x7FFFFFFFFFFFFFFF \<and> 0 < sint st)"
      and step: "(if 0 < sint st \<and> sint cur \<le> sint e \<or> sint st < 0 \<and> sint e \<le> sint cur
        then Option.bind (loop (cur + st) e st) (\<lambda>r. Some (cur # r)) else Some []) = Some r"
    have "sint cur \<le> sint (0x7FFFFFFFFFFFFFFF :: i64)"
      using in_i64_sint [of cur] by (simp add: in_i64_def)
    then show "\<not> (e = 0x7FFFFFFFFFFFFFFF \<and> 0 < sint st)"
      using step IH [of "cur + st" e st] by (auto split: if_splits Option.bind_splits)
  qed
  with assms show ?thesis
    by (metis option.exhaust)
qed

section \<open>Operators\<close>

definition compare_value :: "'n exec \<Rightarrow> 'n Value \<Rightarrow> CmpOp \<Rightarrow> 'n Value \<Rightarrow> 'n Value" where
  "compare_value x l op r = of_bool3 (compare_values (host x) l op r)"

definition and3 :: "bool option \<Rightarrow> bool option \<Rightarrow> bool option" where
  "and3 a b =
     (if a = Some False \<or> b = Some False then Some False
      else if a = Some True \<and> b = Some True then Some True else None)"

definition or3 :: "bool option \<Rightarrow> bool option \<Rightarrow> bool option" where
  "or3 a b =
     (if a = Some True \<or> b = Some True then Some True
      else if a = Some False \<and> b = Some False then Some False else None)"

definition xor3 :: "bool option \<Rightarrow> bool option \<Rightarrow> bool option" where
  "xor3 a b = (case (a, b) of (Some a, Some b) \<Rightarrow> Some (a \<noteq> b) | _ \<Rightarrow> None)"

definition not3 :: "bool option \<Rightarrow> bool option" where
  "not3 a = map_option (\<lambda>b. \<not> b) a"

text \<open>\<open>AND\<close> and its kind evaluate both sides before they check the types.\<close>

definition bool_op ::
  "(bool option \<Rightarrow> bool option \<Rightarrow> bool option) \<Rightarrow> 'n Value \<Rightarrow> 'n Value \<Rightarrow> 'n Value exec_result" where
  "bool_op f l r = bindE (require_bool l) (\<lambda>a. bindE (require_bool r) (\<lambda>b. Inr (of_bool3 (f a b))))"

definition neg_value :: "'n Value \<Rightarrow> 'n Value" where
  "neg_value v = (case v of VInt i \<Rightarrow> VInt (- i) | VFloat f \<Rightarrow> VFloat (f64_neg f) | _ \<Rightarrow> VNull)"

definition has_label :: "'n Value \<Rightarrow> string list \<Rightarrow> 'n Value" where
  "has_label v labels =
     (case v of
       VNull \<Rightarrow> VNull
     | VNode _ node_labels _ \<Rightarrow> VBool (list_all (\<lambda>l. bytes_of l \<in> set node_labels) labels)
     | VEdge _ rel_type _ _ _ \<Rightarrow> VBool (list_all (\<lambda>l. bytes_of l = rel_type) labels)
     | _ \<Rightarrow> VBool False)"

definition property_value :: "'n exec \<Rightarrow> 'n Value \<Rightarrow> string \<Rightarrow> 'n Value exec_result" where
  "property_value x base key =
     (let h = host x; err = Inl (NoProperty (value_type_name base) key)
      in case base of
        VNode _ _ _ \<Rightarrow> Inr (get_property h base key)
      | VEdge _ _ _ _ _ \<Rightarrow> Inr (get_property h base key)
      | VNull \<Rightarrow> Inr (get_property h base key)
      | VTemporal _ \<Rightarrow> Inr (get_property h base key)
      | VDuration _ \<Rightarrow> Inr (get_property h base key)
      | VJson (Object _) \<Rightarrow> Inr (get_property h base key)
      | VStr s \<Rightarrow>
          (case try_parse_temporal_str x s of
            Some tv \<Rightarrow> Inr (temporal_get_property h tv key)
          | None \<Rightarrow>
              (case try_parse_duration_iso h s of
                Some dur \<Rightarrow> Inr (duration_get_property dur key)
              | None \<Rightarrow> err))
      | _ \<Rightarrow> err)"

text \<open>\<open>IN\<close>: a match decides, else an element that compares as null makes the answer null.\<close>

fun in_loop :: "bool \<Rightarrow> bool option list \<Rightarrow> bool option" where
  "in_loop has_null [] = (if has_null then None else Some False)"
| "in_loop has_null (r # rs) =
     (case r of
       Some True \<Rightarrow> Some True
     | None \<Rightarrow> in_loop True rs
     | Some False \<Rightarrow> in_loop has_null rs)"

definition in_list :: "'n exec \<Rightarrow> 'n Value \<Rightarrow> 'n Value \<Rightarrow> 'n Value exec_result" where
  "in_list x val lst =
     (case lst of
       VJson (Array arr) \<Rightarrow>
         Inr (if is_null val then (if arr = [] then VBool False else VNull)
           else of_bool3 (in_loop False (map (\<lambda>item. compare_values (host x) val Eq (json_to_value (host x) item)) arr)))
     | VNull \<Rightarrow> Inr VNull
     | _ \<Rightarrow> Inl InNeedsList)"

definition str_test :: "(rust_str \<Rightarrow> rust_str \<Rightarrow> bool) \<Rightarrow> 'n Value \<Rightarrow> 'n Value \<Rightarrow> 'n Value" where
  "str_test p l r = (case (l, r) of (VStr a, VStr b) \<Rightarrow> VBool (p a b) | _ \<Rightarrow> VNull)"

definition str_starts_with :: "rust_str \<Rightarrow> rust_str \<Rightarrow> bool" where
  "str_starts_with s p \<longleftrightarrow> take (length p) s = p"

definition str_ends_with :: "rust_str \<Rightarrow> rust_str \<Rightarrow> bool" where
  "str_ends_with s p \<longleftrightarrow> str_starts_with (rev s) (rev p)"

fun str_contains :: "rust_str \<Rightarrow> rust_str \<Rightarrow> bool" where
  "str_contains [] p = (p = [])"
| "str_contains (c # s) p = (str_starts_with (c # s) p \<or> str_contains s p)"

definition map_get :: "'n exec \<Rightarrow> 'n json_map \<Rightarrow> rust_str \<Rightarrow> 'n Value" where
  "map_get x m k = (case map_of m k of Some j \<Rightarrow> json_to_value (host x) j | None \<Rightarrow> VNull)"

definition index_value :: "'n exec \<Rightarrow> 'n Json list \<Rightarrow> i64 \<Rightarrow> 'n Value" where
  "index_value x arr idx =
     (let len = int (length arr); actual = (if sint idx < 0 then len + sint idx else sint idx)
      in if actual < 0 \<or> len \<le> actual then VNull else json_to_value (host x) (arr ! nat actual))"

definition subscript_value :: "'n exec \<Rightarrow> 'n Value \<Rightarrow> 'n Value \<Rightarrow> 'n Value exec_result" where
  "subscript_value x list_val idx_val =
     (case (list_val, idx_val) of
       (VJson (Object m), VNull) \<Rightarrow> Inr VNull
     | (VJson (Object m), VStr s) \<Rightarrow> Inr (map_get x m s)
     | (VJson (Object m), _) \<Rightarrow> Inl MapNeedsStringKey
     | (VNode _ _ properties, VStr key) \<Rightarrow> Inr (map_get x properties key)
     | (VEdge _ _ _ _ properties, VStr key) \<Rightarrow> Inr (map_get x properties key)
     | (VJson (Array arr), VStr key) \<Rightarrow> Inl ListNeedsInteger
     | (VJson (Array arr), VInt i) \<Rightarrow> Inr (index_value x arr i)
     | (VJson (Array arr), VFloat f) \<Rightarrow>
         (if f64_has_fract f then Inl ListIndexIsFloat else Inr (index_value x arr (f64_as_i64 f)))
     | (VJson (Array arr), VNull) \<Rightarrow> Inr VNull
     | (VJson (Array arr), _) \<Rightarrow> Inl ListIndexNotInteger
     | (VNull, _) \<Rightarrow> Inr VNull
     | (_, VNull) \<Rightarrow> Inr VNull
     | _ \<Rightarrow> Inl ElementNeedsList)"

text \<open>A bound of a slice, clamped to the list; \<open>None\<close> is a null bound.\<close>

definition slice_bound :: "int \<Rightarrow> int \<Rightarrow> 'n Value \<Rightarrow> int option" where
  "slice_bound len dflt v =
     (let clamp = (\<lambda>i :: i64. if sint i < 0 then max 0 (len + sint i) else min (sint i) len)
      in case v of
        VNull \<Rightarrow> None
      | VInt i \<Rightarrow> Some (clamp i)
      | VFloat f \<Rightarrow> Some (clamp (f64_as_i64 f))
      | _ \<Rightarrow> Some dflt)"

definition slice_list :: "'n Json list \<Rightarrow> int \<Rightarrow> int \<Rightarrow> 'n Value" where
  "slice_list arr start stop = VJson (Array (take (nat (max 0 (stop - start))) (drop (nat start) arr)))"

definition list_predicate :: "ListPredicateKind \<Rightarrow> bool option list \<Rightarrow> 'n Value" where
  "list_predicate kind rs =
     (let true_count = length (filter (\<lambda>r. r = Some True) rs);
          null_count = length (filter (\<lambda>r. r = None) rs);
          false_count = length rs - true_count - null_count;
          has_null = 0 < null_count
      in case kind of
        Any \<Rightarrow> if 0 < true_count then VBool True else if has_null then VNull else VBool False
      | All \<Rightarrow> if 0 < false_count then VBool False else if has_null then VNull else VBool True
      | NoneOf \<Rightarrow> if 0 < true_count then VBool False else if has_null then VNull else VBool True
      | Single \<Rightarrow>
          if 1 < true_count then VBool False
          else if true_count = 1 \<and> \<not> has_null then VBool True
          else if true_count = 0 \<and> \<not> has_null then VBool False
          else VNull)"

definition array_of :: "'n Value \<Rightarrow> 'n Json list option" where
  "array_of v = (case v of VJson (Array a) \<Rightarrow> Some a | _ \<Rightarrow> None)"

definition seqE :: "('e + 'a) list \<Rightarrow> 'e + 'a list" where
  "seqE rs = mapE id rs"

text \<open>\<open>CASE\<close> takes the first branch whose condition holds, and evaluates no condition after it.\<close>

fun run_case :: "('v \<Rightarrow> bool) \<Rightarrow> (('e + 'v) \<times> ('e + 'v)) list \<Rightarrow> 'e + 'v \<Rightarrow> 'e + 'v" where
  "run_case p [] otherwise = otherwise"
| "run_case p ((cond, result) # branches) otherwise =
     bindE cond (\<lambda>v. if p v then result else run_case p branches otherwise)"

definition holds :: "'n Value \<Rightarrow> bool" where
  "holds v \<longleftrightarrow> truthy3 v = Some True"

definition row_json :: "'n exec \<Rightarrow> 'n Row \<Rightarrow> (string \<times> 'n Json) list" where
  "row_json x row = map (\<lambda>(k, v). (k, to_json (host x) v)) row"

definition get_or_null :: "'n Row \<Rightarrow> string \<Rightarrow> 'n Value" where
  "get_or_null row k = (case map_of row k of Some v \<Rightarrow> v | None \<Rightarrow> VNull)"

definition build_path_from_elem_vars :: "string list \<Rightarrow> 'n Row \<Rightarrow> 'n Value" where
  "build_path_from_elem_vars elem_vars row =
     (let vals = map (get_or_null row) elem_vars in VPath (every_other vals) (every_other (tl vals)))"

definition is_path :: "'n Value \<Rightarrow> bool" where
  "is_path v = (case v of VPath _ _ \<Rightarrow> True | _ \<Rightarrow> False)"

text \<open>The row of a pattern comprehension: the outer bindings it lacks, then its path.\<close>

definition comprehension_row :: "string option \<Rightarrow> string list \<Rightarrow> 'n Row \<Rightarrow> 'n Row \<Rightarrow> 'n Row" where
  "comprehension_row path_variable element_vars row inner_row =
     (let r = row_fill inner_row row
      in case path_variable of
        None \<Rightarrow> r
      | Some pv \<Rightarrow>
          (let r1 = (if map_of r pv = None \<or> element_vars = []
                 then row_insert pv (build_path_from_elem_vars element_vars r) r else r);
               has_subpath = list_ex (\<lambda>v. case map_of r1 v of Some u \<Rightarrow> is_path u | None \<Rightarrow> False)
                 (every_other (tl element_vars))
           in if \<not> has_subpath \<and> element_vars \<noteq> []
              then row_insert pv (build_path_from_elem_vars element_vars r1) r1 else r1))"

definition compatible_row :: "'n exec \<Rightarrow> 'n Row \<Rightarrow> 'n Row \<Rightarrow> bool" where
  "compatible_row x row inner_row \<longleftrightarrow>
     list_all (\<lambda>(k, outer_val).
       case map_of inner_row k of Some inner_val \<Rightarrow> values_equal (host x) outer_val inner_val | None \<Rightarrow> True) row"

section \<open>Expressions\<close>

function eval_expr :: "'n exec \<Rightarrow> Expr \<Rightarrow> 'n Row \<Rightarrow> 'n Params \<Rightarrow> 'n Value exec_result" where
  "eval_expr x e row params =
    (case e of
      Variable name \<Rightarrow>
        (case map_of row name of
          Some v \<Rightarrow> Inr v
        | None \<Rightarrow>
            (case params name of
              Some pv \<Rightarrow> Inr (json_to_value (host x) pv)
            | None \<Rightarrow> Inl (UnboundVariable name)))
    | Property base key \<Rightarrow> bindE (eval_expr x base row params) (\<lambda>b. property_value x b key)
    | IntLit v \<Rightarrow> Inr (VInt v)
    | FloatLit v \<Rightarrow> Inr (VFloat v)
    | StringLit s \<Rightarrow> Inr (VStr (bytes_of s))
    | BoolLit b \<Rightarrow> Inr (VBool b)
    | NullLit \<Rightarrow> Inr VNull
    | Parameter name \<Rightarrow>
        (case params name of
          Some v \<Rightarrow> Inr (json_to_value (host x) v)
        | None \<Rightarrow> Inl (MissingParameter name))
    | Compare left op right \<Rightarrow>
        bindE (eval_expr x left row params) (\<lambda>l.
        bindE (eval_expr x right row params) (\<lambda>r. Inr (compare_value x l op r)))
    | And left right \<Rightarrow>
        bindE (eval_expr x left row params) (\<lambda>l.
        bindE (eval_expr x right row params) (\<lambda>r. bool_op and3 l r))
    | Or left right \<Rightarrow>
        bindE (eval_expr x left row params) (\<lambda>l.
        bindE (eval_expr x right row params) (\<lambda>r. bool_op or3 l r))
    | Xor left right \<Rightarrow>
        bindE (eval_expr x left row params) (\<lambda>l.
        bindE (eval_expr x right row params) (\<lambda>r. bool_op xor3 l r))
    | Not inner \<Rightarrow>
        bindE (eval_expr x inner row params) (\<lambda>v.
        bindE (require_bool v) (\<lambda>b. Inr (of_bool3 (not3 b))))
    | IsNull inner \<Rightarrow> bindE (eval_expr x inner row params) (\<lambda>v. Inr (VBool (is_null v)))
    | IsNotNull inner \<Rightarrow> bindE (eval_expr x inner row params) (\<lambda>v. Inr (VBool (\<not> is_null v)))
    | HasLabel inner labels \<Rightarrow> bindE (eval_expr x inner row params) (\<lambda>v. Inr (has_label v labels))
    | Arith left op right \<Rightarrow>
        bindE (eval_expr x left row params) (\<lambda>l.
        bindE (eval_expr x right row params) (\<lambda>r. eval_arith x l op r))
    | Neg inner \<Rightarrow> bindE (eval_expr x inner row params) (\<lambda>v. Inr (neg_value v))
    | FunctionCall name args \<Rightarrow>
        eval_function x name (map (\<lambda>a. (a, eval_expr x a row params)) args)
    | Star \<Rightarrow> Inr (VJson (object_of (row_json x row)))
    | List exprs \<Rightarrow>
        bindE (seqE (map (\<lambda>e. eval_expr x e row params) exprs)) (\<lambda>vs.
        Inr (VJson (Array (map (to_json (host x)) vs))))
    | InList left right \<Rightarrow>
        bindE (eval_expr x left row params) (\<lambda>val.
        bindE (eval_expr x right row params) (\<lambda>lst. in_list x val lst))
    | StartsWith left right \<Rightarrow>
        bindE (eval_expr x left row params) (\<lambda>l.
        bindE (eval_expr x right row params) (\<lambda>r. Inr (str_test str_starts_with l r)))
    | EndsWith left right \<Rightarrow>
        bindE (eval_expr x left row params) (\<lambda>l.
        bindE (eval_expr x right row params) (\<lambda>r. Inr (str_test str_ends_with l r)))
    | Contains left right \<Rightarrow>
        bindE (eval_expr x left row params) (\<lambda>l.
        bindE (eval_expr x right row params) (\<lambda>r. Inr (str_test str_contains l r)))
    | Regex left right \<Rightarrow>
        bindE (eval_expr x left row params) (\<lambda>l.
        bindE (eval_expr x right row params) (\<lambda>r. Inr (str_test (regex_match x) l r)))
    | CaseSearched branches otherwise \<Rightarrow>
        run_case holds
          (map (\<lambda>b. (eval_expr x (fst b) row params, eval_expr x (snd b) row params)) branches)
          (case otherwise of Some els \<Rightarrow> eval_expr x els row params | None \<Rightarrow> Inr VNull)
    | CaseSimple test branches otherwise \<Rightarrow>
        bindE (eval_expr x test row params) (\<lambda>test_val.
        run_case (values_equal (host x) test_val)
          (map (\<lambda>b. (eval_expr x (fst b) row params, eval_expr x (snd b) row params)) branches)
          (case otherwise of Some els \<Rightarrow> eval_expr x els row params | None \<Rightarrow> Inr VNull))
    | ListComprehension variable list_expr predicate projection \<Rightarrow>
        bindE (eval_expr x list_expr row params) (\<lambda>list_val.
        case array_of list_val of
          None \<Rightarrow> Inr (VJson (Array []))
        | Some arr \<Rightarrow>
            bindE
              (seqE (map (\<lambda>item.
                let v = json_to_value (host x) item; inner_row = row_insert variable v row
                in bindE (case predicate of
                       Some pred \<Rightarrow> bindE (eval_expr x pred inner_row params) (\<lambda>pv. Inr (holds pv))
                     | None \<Rightarrow> Inr True) (\<lambda>keep.
                   if \<not> keep then Inr []
                   else bindE (case projection of
                       Some proj \<Rightarrow> eval_expr x proj inner_row params
                     | None \<Rightarrow> Inr v) (\<lambda>out. Inr [to_json (host x) out]))) arr))
              (\<lambda>outs. Inr (VJson (Array (concat outs)))))
    | ListPredicate kind variable list_expr predicate \<Rightarrow>
        bindE (eval_expr x list_expr row params) (\<lambda>list_val.
        case array_of list_val of
          None \<Rightarrow> Inr (if is_null list_val then VNull else VBool False)
        | Some arr \<Rightarrow>
            bindE
              (seqE (map (\<lambda>item.
                bindE (eval_expr x predicate (row_insert variable (json_to_value (host x) item) row) params) (\<lambda>pv.
                Inr (truthy3 pv))) arr))
              (\<lambda>rs. Inr (list_predicate kind rs)))
    | Subscript list_expr index_expr \<Rightarrow>
        bindE (eval_expr x list_expr row params) (\<lambda>list_val.
        bindE (eval_expr x index_expr row params) (\<lambda>idx_val. subscript_value x list_val idx_val))
    | ListSlice list_expr from to \<Rightarrow>
        bindE (eval_expr x list_expr row params) (\<lambda>list_val.
        case array_of list_val of
          None \<Rightarrow> Inr (VJson (Array []))
        | Some arr \<Rightarrow>
            bindE (case from of
                Some f \<Rightarrow> bindE (eval_expr x f row params) (\<lambda>v. Inr (slice_bound (int (length arr)) 0 v))
              | None \<Rightarrow> Inr (Some 0)) (\<lambda>start.
            case start of
              None \<Rightarrow> Inr VNull
            | Some start \<Rightarrow>
                bindE (case to of
                    Some t \<Rightarrow> bindE (eval_expr x t row params) (\<lambda>v. Inr (slice_bound (int (length arr)) (int (length arr)) v))
                  | None \<Rightarrow> Inr (Some (int (length arr)))) (\<lambda>stop.
                case stop of None \<Rightarrow> Inr VNull | Some stop \<Rightarrow> Inr (slice_list arr start stop))))
    | ShortestPath all pattern \<Rightarrow> shortest_path x pattern all row params
    | PatternComprehension path_variable pattern predicate projection \<Rightarrow>
        bindE (pattern_rows x pattern row params) (\<lambda>(inner_rows, element_vars).
        bindE
          (seqE (map (\<lambda>inner.
            let inner_row = comprehension_row path_variable element_vars row inner
            in bindE (case predicate of
                   Some pred \<Rightarrow> bindE (eval_expr x pred inner_row params) (\<lambda>pv. Inr (holds pv))
                 | None \<Rightarrow> Inr True) (\<lambda>keep.
               if \<not> keep then Inr []
               else bindE (eval_expr x projection inner_row params) (\<lambda>out. Inr [to_json (host x) out]))) inner_rows))
          (\<lambda>outs. Inr (VJson (Array (concat outs)))))
    | Exists subquery _ \<Rightarrow>
        bindE (subquery_rows x subquery row params) (\<lambda>inner_rows.
        Inr (VBool (list_ex (compatible_row x row) inner_rows)))
    | MapLiteral pairs \<Rightarrow>
        bindE (seqE (map (\<lambda>kv. bindE (eval_expr x (snd kv) row params) (\<lambda>v. Inr (fst kv, to_json (host x) v))) pairs)) (\<lambda>kvs.
        Inr (VJson (object_of kvs))))"
  by pat_completeness auto
termination
  by (relation "measure (\<lambda>(x, e, row, params). size e)")
    (auto simp: expr_parts less_Suc_eq_le trans_le_add1 trans_le_add2)

declare eval_expr.simps [simp del]

end
