(* ===== verification/ExecAggregate.thy ===== *)
theory ExecAggregate
  imports ExecExpr
begin

text \<open>
  Aggregation in \<open>cypher/executor.rs\<close>: which expressions aggregate, their value over the rows of a group,
  and the default names of columns. Where the source evaluates under \<open>unwrap_or(Null)\<close> or \<open>ok()\<close>, the model
  takes \<open>Panicked\<close> and \<open>Diverges\<close> for errors like the others.
\<close>

section \<open>Default names\<close>

definition join :: "string \<Rightarrow> string list \<Rightarrow> string" where
  "join sep parts = (case parts of [] \<Rightarrow> [] | p # ps \<Rightarrow> p @ concat (map (\<lambda>q. sep @ q) ps))"

definition strip_distinct :: "string \<Rightarrow> string option" where
  "strip_distinct name =
     (let n = length name - 9 in
      if 9 \<le> length name \<and> drop n name = ''_distinct'' then Some (take n name) else None)"

function expr_default_name :: "'n exec \<Rightarrow> Expr \<Rightarrow> nat \<Rightarrow> string" where
  "expr_default_name x e idx =
    (case e of
      Variable name \<Rightarrow> name
    | Property base prop \<Rightarrow> expr_default_name x base idx @ ''.'' @ prop
    | FunctionCall name args \<Rightarrow>
        (let arg_names = map (\<lambda>(i, a). expr_default_name x a i) (enumerate 0 args)
         in case strip_distinct name of
           Some base \<Rightarrow> base @ ''(DISTINCT '' @ join '', '' arg_names @ '')''
         | None \<Rightarrow> name @ ''('' @ join '', '' arg_names @ '')'')
    | Star \<Rightarrow> ''*''
    | NullLit \<Rightarrow> ''null''
    | IntLit v \<Rightarrow> i64_text v
    | FloatLit v \<Rightarrow> text_of (f64_text x v)
    | BoolLit b \<Rightarrow> (if b then ''true'' else ''false'')
    | StringLit s \<Rightarrow> [CHR 39] @ s @ [CHR 39]
    | Parameter name \<Rightarrow> ''$'' @ name
    | IsNull e \<Rightarrow> expr_default_name x e idx @ '' IS NULL''
    | IsNotNull e \<Rightarrow> expr_default_name x e idx @ '' IS NOT NULL''
    | Not e \<Rightarrow> ''NOT ('' @ expr_default_name x e idx @ '')''
    | Neg e \<Rightarrow> ''-('' @ expr_default_name x e idx @ '')''
    | Compare l op r \<Rightarrow> expr_default_name x l idx @ '' '' @ cmp_op_text op @ '' '' @ expr_default_name x r idx
    | Arith l op r \<Rightarrow> expr_default_name x l idx @ '' '' @ arith_op_text op @ '' '' @ expr_default_name x r idx
    | And l r \<Rightarrow> expr_default_name x l idx @ '' AND '' @ expr_default_name x r idx
    | Or l r \<Rightarrow> expr_default_name x l idx @ '' OR '' @ expr_default_name x r idx
    | Subscript base i \<Rightarrow> expr_default_name x base idx @ ''['' @ expr_default_name x i idx @ '']''
    | List items \<Rightarrow>
        ''['' @ join '', '' (map (\<lambda>(i, a). expr_default_name x a i) (enumerate 0 items)) @ '']''
    | HasLabel inner labels \<Rightarrow> expr_default_name x inner idx @ '':'' @ join '':'' labels
    | MapLiteral pairs \<Rightarrow>
        ''{'' @ join '', '' (map (\<lambda>kv. fst kv @ '': '' @ expr_default_name x (snd kv) idx) pairs) @ ''}''
    | _ \<Rightarrow> ''_col'' @ decimal idx)"
  by pat_completeness auto
termination
  by (relation "measure (\<lambda>(x, e, idx). size e)")
    (auto simp: expr_parts less_Suc_eq_le in_set_enumerate_eq)

declare expr_default_name.simps [simp del]

section \<open>Aggregating expressions\<close>

definition is_aggregate_name :: "string \<Rightarrow> bool" where
  "is_aggregate_name name \<longleftrightarrow>
     to_ascii_lowercase name \<in> set
       [''count'', ''count_distinct'', ''sum'', ''sum_distinct'', ''avg'', ''avg_distinct'', ''min'', ''max'',
        ''collect'', ''collect_distinct'', ''stdev'', ''stdevp'', ''percentilecont'', ''percentiledisc'']"

function expr_has_aggregate :: "Expr \<Rightarrow> bool" where
  "expr_has_aggregate e =
    (case e of
      FunctionCall name args \<Rightarrow> is_aggregate_name name \<or> list_ex expr_has_aggregate args
    | Arith l _ r \<Rightarrow> expr_has_aggregate l \<or> expr_has_aggregate r
    | Compare l _ r \<Rightarrow> expr_has_aggregate l \<or> expr_has_aggregate r
    | And l r \<Rightarrow> expr_has_aggregate l \<or> expr_has_aggregate r
    | Or l r \<Rightarrow> expr_has_aggregate l \<or> expr_has_aggregate r
    | Xor l r \<Rightarrow> expr_has_aggregate l \<or> expr_has_aggregate r
    | StartsWith l r \<Rightarrow> expr_has_aggregate l \<or> expr_has_aggregate r
    | EndsWith l r \<Rightarrow> expr_has_aggregate l \<or> expr_has_aggregate r
    | Contains l r \<Rightarrow> expr_has_aggregate l \<or> expr_has_aggregate r
    | Regex l r \<Rightarrow> expr_has_aggregate l \<or> expr_has_aggregate r
    | InList l r \<Rightarrow> expr_has_aggregate l \<or> expr_has_aggregate r
    | Not a \<Rightarrow> expr_has_aggregate a
    | Neg a \<Rightarrow> expr_has_aggregate a
    | IsNull a \<Rightarrow> expr_has_aggregate a
    | IsNotNull a \<Rightarrow> expr_has_aggregate a
    | Property a _ \<Rightarrow> expr_has_aggregate a
    | HasLabel a _ \<Rightarrow> expr_has_aggregate a
    | Subscript l r \<Rightarrow> expr_has_aggregate l \<or> expr_has_aggregate r
    | ListSlice l from to \<Rightarrow>
        expr_has_aggregate l
        \<or> (case from of Some f \<Rightarrow> expr_has_aggregate f | None \<Rightarrow> False)
        \<or> (case to of Some t \<Rightarrow> expr_has_aggregate t | None \<Rightarrow> False)
    | List exprs \<Rightarrow> list_ex expr_has_aggregate exprs
    | MapLiteral pairs \<Rightarrow> list_ex (\<lambda>kv. expr_has_aggregate (snd kv)) pairs
    | CaseSearched branches otherwise \<Rightarrow>
        list_ex (\<lambda>b. expr_has_aggregate (fst b) \<or> expr_has_aggregate (snd b)) branches
        \<or> (case otherwise of Some els \<Rightarrow> expr_has_aggregate els | None \<Rightarrow> False)
    | CaseSimple test branches otherwise \<Rightarrow>
        expr_has_aggregate test
        \<or> list_ex (\<lambda>b. expr_has_aggregate (fst b) \<or> expr_has_aggregate (snd b)) branches
        \<or> (case otherwise of Some els \<Rightarrow> expr_has_aggregate els | None \<Rightarrow> False)
    | ListComprehension _ l predicate projection \<Rightarrow>
        expr_has_aggregate l
        \<or> (case predicate of Some p \<Rightarrow> expr_has_aggregate p | None \<Rightarrow> False)
        \<or> (case projection of Some p \<Rightarrow> expr_has_aggregate p | None \<Rightarrow> False)
    | ListPredicate _ _ l p \<Rightarrow> expr_has_aggregate l \<or> expr_has_aggregate p
    | _ \<Rightarrow> False)"
  by pat_completeness auto
termination
  by (relation "measure size") (auto simp: expr_parts less_Suc_eq_le trans_le_add1 trans_le_add2)

declare expr_has_aggregate.simps [simp del]

text \<open>The references are pushed to \<open>acc\<close>: the model returns them in the order of the pushes.\<close>

function collect_free_var_refs :: "Expr \<Rightarrow> Expr list" where
  "collect_free_var_refs e =
    (case e of
      Variable _ \<Rightarrow> [e]
    | Property base _ \<Rightarrow> (case base of Variable _ \<Rightarrow> [e] | _ \<Rightarrow> collect_free_var_refs base)
    | FunctionCall name args \<Rightarrow> if is_aggregate_name name then [] else concat (map collect_free_var_refs args)
    | Arith l _ r \<Rightarrow> collect_free_var_refs l @ collect_free_var_refs r
    | Compare l _ r \<Rightarrow> collect_free_var_refs l @ collect_free_var_refs r
    | And l r \<Rightarrow> collect_free_var_refs l @ collect_free_var_refs r
    | Or l r \<Rightarrow> collect_free_var_refs l @ collect_free_var_refs r
    | Xor l r \<Rightarrow> collect_free_var_refs l @ collect_free_var_refs r
    | StartsWith l r \<Rightarrow> collect_free_var_refs l @ collect_free_var_refs r
    | EndsWith l r \<Rightarrow> collect_free_var_refs l @ collect_free_var_refs r
    | Contains l r \<Rightarrow> collect_free_var_refs l @ collect_free_var_refs r
    | Regex l r \<Rightarrow> collect_free_var_refs l @ collect_free_var_refs r
    | InList l r \<Rightarrow> collect_free_var_refs l @ collect_free_var_refs r
    | Not a \<Rightarrow> collect_free_var_refs a
    | Neg a \<Rightarrow> collect_free_var_refs a
    | IsNull a \<Rightarrow> collect_free_var_refs a
    | IsNotNull a \<Rightarrow> collect_free_var_refs a
    | HasLabel a _ \<Rightarrow> collect_free_var_refs a
    | Subscript l r \<Rightarrow> collect_free_var_refs l @ collect_free_var_refs r
    | List es \<Rightarrow> concat (map collect_free_var_refs es)
    | MapLiteral pairs \<Rightarrow> concat (map (\<lambda>kv. collect_free_var_refs (snd kv)) pairs)
    | CaseSearched branches otherwise \<Rightarrow>
        concat (map (\<lambda>b. collect_free_var_refs (fst b) @ collect_free_var_refs (snd b)) branches)
        @ (case otherwise of Some els \<Rightarrow> collect_free_var_refs els | None \<Rightarrow> [])
    | CaseSimple test branches otherwise \<Rightarrow>
        collect_free_var_refs test
        @ concat (map (\<lambda>b. collect_free_var_refs (fst b) @ collect_free_var_refs (snd b)) branches)
        @ (case otherwise of Some els \<Rightarrow> collect_free_var_refs els | None \<Rightarrow> [])
    | _ \<Rightarrow> [])"
  by pat_completeness auto
termination
  by (relation "measure size") (auto simp: expr_parts less_Suc_eq_le trans_le_add1 trans_le_add2)

declare collect_free_var_refs.simps [simp del]

function same_reference :: "Expr \<Rightarrow> Expr \<Rightarrow> bool" where
  "same_reference a b =
    (case a of
      Variable x \<Rightarrow> (case b of Variable y \<Rightarrow> to_lowercase x = to_lowercase y | _ \<Rightarrow> False)
    | Property ba fa \<Rightarrow>
        (case b of
          Property bb fb \<Rightarrow> to_lowercase fa = to_lowercase fb \<and> same_reference ba bb
        | _ \<Rightarrow> False)
    | _ \<Rightarrow> False)"
  by pat_completeness auto
termination
  by (relation "measure (\<lambda>(a, b). size a)") auto

declare same_reference.simps [simp del]

section \<open>Aggregate functions\<close>

definition value_or_null :: "'n Value exec_result \<Rightarrow> 'n Value" where
  "value_or_null r = (case r of Inr v \<Rightarrow> v | Inl _ \<Rightarrow> VNull)"

definition or_elseE :: "'a exec_result \<Rightarrow> 'a exec_result \<Rightarrow> 'a exec_result" where
  "or_elseE a b = (case a of Inr v \<Rightarrow> Inr v | Inl _ \<Rightarrow> b)"

definition value_fingerprint :: "'n exec \<Rightarrow> 'n Value \<Rightarrow> rust_str" where
  "value_fingerprint x v = json_text (host x) (to_json (host x) v)"

text \<open>\<open>retain(|y| seen.insert(f(y)))\<close>.\<close>

fun retain_new :: "('a \<Rightarrow> 'k) \<Rightarrow> 'k set \<Rightarrow> 'a list \<Rightarrow> 'a list" where
  "retain_new f seen [] = []"
| "retain_new f seen (y # ys) =
     (if f y \<in> seen then retain_new f seen ys else y # retain_new f (insert (f y) seen) ys)"

definition float_of :: "'n Value \<Rightarrow> u64 list" where
  "float_of v = (case v of VInt i \<Rightarrow> [i64_as_f64 i] | VFloat f \<Rightarrow> [f] | _ \<Rightarrow> [])"

definition usize_as_f64 :: "nat \<Rightarrow> u64" where
  "usize_as_f64 n = f64_signed False (f64_of_ratio n 1)"

definition count_values :: "'n exec \<Rightarrow> bool \<Rightarrow> 'n Value list \<Rightarrow> 'n Value" where
  "count_values x uniq vals =
     (let vals = filter (\<lambda>v. \<not> is_null v) vals
      in VInt (of_nat (length (if uniq then retain_new (value_fingerprint x) {} vals else vals))))"

definition sum_step :: "i64 \<times> u64 \<times> bool \<Rightarrow> 'n Value \<Rightarrow> i64 \<times> u64 \<times> bool" where
  "sum_step acc v =
     (case acc of (sum_i, sum_f, is_float) \<Rightarrow>
       (case v of
         VInt i \<Rightarrow> (sum_i + i, sum_f, is_float)
       | VFloat f \<Rightarrow> (sum_i, f64_add sum_f f, True)
       | _ \<Rightarrow> (sum_i, sum_f, is_float)))"

definition sum_values :: "'n Value list \<Rightarrow> 'n Value" where
  "sum_values vals =
     (case foldl sum_step (0, 0, False) vals of (sum_i, sum_f, is_float) \<Rightarrow>
       if is_float then VFloat (f64_add sum_f (i64_as_f64 sum_i)) else VInt sum_i)"

definition avg_values :: "'n Value list \<Rightarrow> 'n Value" where
  "avg_values vals =
     (let fs = concat (map float_of vals)
      in if fs = [] then VNull else VFloat (f64_div (foldl f64_add 0 fs) (usize_as_f64 (length fs))))"

text \<open>\<open>min\<close> and \<open>max\<close>: the first of the values that the order puts before, or after, all others.\<close>

definition extreme :: "'n exec \<Rightarrow> Ordering \<Rightarrow> 'n Value list \<Rightarrow> 'n Value" where
  "extreme x want vals =
     (case filter (\<lambda>v. \<not> is_null v) vals of
       [] \<Rightarrow> VNull
     | v # vs \<Rightarrow> foldl (\<lambda>cur v. if value_ordering (host x) v cur = want then v else cur) v vs)"

definition collect_values :: "'n exec \<Rightarrow> bool \<Rightarrow> 'n Value list \<Rightarrow> 'n Value" where
  "collect_values x uniq vals =
     (let js = map (to_json (host x)) (filter (\<lambda>v. \<not> is_null v) vals)
      in VJson (Array (if uniq then retain_new (json_text (host x)) {} js else js)))"

definition stdev_values :: "'n exec \<Rightarrow> bool \<Rightarrow> 'n Value list \<Rightarrow> 'n Value" where
  "stdev_values x sample vals =
     (let fs = concat (map float_of vals); n = length fs
      in if n = 0 \<or> (sample \<and> n = 1) then VFloat 0
         else
           let mean = f64_div (foldl f64_add 0 fs) (usize_as_f64 n);
               squares = map (\<lambda>f. f64_mul (f64_sub f mean) (f64_sub f mean)) fs;
               variance = f64_div (foldl f64_add 0 squares) (usize_as_f64 (if sample then n - 1 else n))
           in VFloat (f64_sqrt x variance))"

definition f64_floor_nat :: "u64 \<Rightarrow> nat" where
  "f64_floor_nat f = nat (f64_truncated f)"

definition f64_ceil_nat :: "u64 \<Rightarrow> nat" where
  "f64_ceil_nat f = f64_floor_nat f + (if f64_has_fract f then 1 else 0)"

definition unit_interval :: "u64 \<Rightarrow> bool" where
  "unit_interval f \<longleftrightarrow> \<not> f64_is_nan f \<and> 0 \<le> f64_key f \<and> f64_key f \<le> f64_key f64_one"

definition percentile_values :: "bool \<Rightarrow> u64 \<Rightarrow> 'n Value list \<Rightarrow> 'n Value exec_result" where
  "percentile_values interpolate pct vals =
     (let fs = sort_by float_ordering (concat (map float_of vals)); n = length fs
      in if \<not> unit_interval pct then Inl PercentileOutOfRange
         else if n = 0 then Inr VNull
         else if interpolate then
           let idx = f64_mul pct (usize_as_f64 (n - 1));
               lo = f64_floor_nat idx;
               hi = min (lo + 1) (n - 1);
               frac = f64_sub idx (usize_as_f64 lo)
           in Inr (VFloat (f64_add (f64_mul (fs ! lo) (f64_sub f64_one frac)) (f64_mul (fs ! hi) frac)))
         else
           let idx = min (f64_ceil_nat (f64_mul pct (usize_as_f64 n)) - 1) (n - 1)
           in Inr (VFloat (fs ! idx)))"

definition with_arg ::
  "string \<Rightarrow> Expr list \<Rightarrow> (Expr \<Rightarrow> 'n Value exec_result) \<Rightarrow> 'n Value exec_result" where
  "with_arg base args f = (case args of [] \<Rightarrow> Inl (RequiresArgument base) | a # _ \<Rightarrow> f a)"

definition oks :: "'a exec_result list \<Rightarrow> 'a list" where
  "oks rs = concat (map (\<lambda>r. case r of Inr v \<Rightarrow> [v] | Inl _ \<Rightarrow> []) rs)"

definition eval_aggregate_call ::
  "'n exec \<Rightarrow> string \<Rightarrow> Expr list \<Rightarrow> 'n Row list \<Rightarrow> 'n Params \<Rightarrow> 'n Value exec_result" where
  "eval_aggregate_call x name args group_rows params =
     (let lc = to_ascii_lowercase name;
          uniq = (strip_distinct lc \<noteq> None);
          base = (case strip_distinct lc of Some b \<Rightarrow> b | None \<Rightarrow> lc);
          results = (\<lambda>a. map (\<lambda>row. eval_expr x a row params) group_rows);
          values = (\<lambda>a. map value_or_null (results a));
          percentile = (\<lambda>interpolate.
            case args of
              a # p # _ \<Rightarrow>
                (case value_or_null (eval_expr x p (case group_rows of [] \<Rightarrow> [] | r # _ \<Rightarrow> r) params) of
                  VFloat f \<Rightarrow> percentile_values interpolate f (oks (results a))
                | VInt i \<Rightarrow> percentile_values interpolate (i64_as_f64 i) (oks (results a))
                | _ \<Rightarrow> Inr VNull)
            | _ \<Rightarrow> Inl (TakesArguments base 2))
      in if base = ''count'' then
           (case args of
             [] \<Rightarrow> Inr (VInt (of_nat (length group_rows)))
           | [Star] \<Rightarrow> Inr (VInt (of_nat (length group_rows)))
           | a # _ \<Rightarrow> Inr (count_values x uniq (oks (results a))))
         else if base = ''sum'' then with_arg base args (\<lambda>a. Inr (sum_values (values a)))
         else if base = ''avg'' then with_arg base args (\<lambda>a. Inr (avg_values (values a)))
         else if base = ''min'' then with_arg base args (\<lambda>a. Inr (extreme x Less (values a)))
         else if base = ''max'' then with_arg base args (\<lambda>a. Inr (extreme x Greater (values a)))
         else if base = ''collect'' then with_arg base args (\<lambda>a. Inr (collect_values x uniq (values a)))
         else if base = ''stdev'' then with_arg base args (\<lambda>a. Inr (stdev_values x True (oks (results a))))
         else if base = ''stdevp'' then with_arg base args (\<lambda>a. Inr (stdev_values x False (oks (results a))))
         else if base = ''percentilecont'' then percentile True
         else if base = ''percentiledisc'' then percentile False
         else Inl (UnknownAggregate name))"

text \<open>The arguments of a function over aggregates are variables of a synthetic row.\<close>

definition eval_function_with_vals :: "'n exec \<Rightarrow> string \<Rightarrow> 'n Value list \<Rightarrow> 'n Value exec_result" where
  "eval_function_with_vals x name vals =
     eval_function x name (map (\<lambda>(i, v). (Variable (''__fn_arg_'' @ decimal i), Inr v)) (enumerate 0 vals))"

definition agg_and :: "'n Value \<Rightarrow> 'n Value exec_result \<Rightarrow> 'n Value exec_result" where
  "agg_and lv r =
     bindE (require_bool lv) (\<lambda>a.
     if a = Some False then Inr (VBool False)
     else bindE r (\<lambda>rv. bindE (require_bool rv) (\<lambda>b. Inr (of_bool3 (and3 a b)))))"

definition agg_or :: "'n Value \<Rightarrow> 'n Value exec_result \<Rightarrow> 'n Value exec_result" where
  "agg_or lv r =
     bindE (require_bool lv) (\<lambda>a.
     if a = Some True then Inr (VBool True)
     else bindE r (\<lambda>rv. bindE (require_bool rv) (\<lambda>b. Inr (of_bool3 (or3 a b)))))"

definition base_row :: "'n Row list \<Rightarrow> 'n Row \<Rightarrow> 'n Row" where
  "base_row group_rows fallback_row = (case group_rows of [] \<Rightarrow> fallback_row | r # _ \<Rightarrow> r)"

text \<open>The predicate of a list comprehension over an aggregate counts an error as null; its projection does not.\<close>

definition agg_comprehension ::
  "'n exec \<Rightarrow> string \<Rightarrow> Expr option \<Rightarrow> Expr option \<Rightarrow> 'n Row \<Rightarrow> 'n Params \<Rightarrow> 'n Json list \<Rightarrow> 'n Value exec_result" where
  "agg_comprehension x variable predicate projection row params arr =
     bindE
       (seqE (map (\<lambda>item.
         let v = json_to_value (host x) item; iter_row = row_insert variable v row
         in if (case predicate of Some pred \<Rightarrow> \<not> holds (value_or_null (eval_expr x pred iter_row params)) | None \<Rightarrow> False)
            then Inr []
            else bindE (case projection of Some proj \<Rightarrow> eval_expr x proj iter_row params | None \<Rightarrow> Inr v) (\<lambda>out.
              Inr [to_json (host x) out])) arr))
       (\<lambda>outs. Inr (VJson (Array (concat outs))))"

definition agg_predicate ::
  "'n exec \<Rightarrow> ListPredicateKind \<Rightarrow> string \<Rightarrow> Expr \<Rightarrow> 'n Row \<Rightarrow> 'n Params \<Rightarrow> 'n Json list \<Rightarrow> 'n Value exec_result" where
  "agg_predicate x kind variable predicate row params arr =
     bindE
       (seqE (map (\<lambda>item.
         bindE (eval_expr x predicate (row_insert variable (json_to_value (host x) item) row) params) (\<lambda>pv.
         Inr (truthy3 pv))) arr))
       (\<lambda>rs. Inr (list_predicate kind rs))"

function eval_with_agg ::
  "'n exec \<Rightarrow> Expr \<Rightarrow> 'n Row list \<Rightarrow> 'n Row \<Rightarrow> 'n Params \<Rightarrow> 'n Value exec_result" where
  "eval_with_agg x e rows fallback params =
    (if \<not> expr_has_aggregate e then eval_expr x e (base_row rows fallback) params
     else case e of
      FunctionCall name args \<Rightarrow>
        if is_aggregate_name name then eval_aggregate_call x name args rows params
        else bindE (seqE (map (\<lambda>a. eval_with_agg x a rows fallback params) args)) (eval_function_with_vals x name)
    | Arith l op r \<Rightarrow>
        bindE (eval_with_agg x l rows fallback params) (\<lambda>lv.
        bindE (eval_with_agg x r rows fallback params) (\<lambda>rv. eval_arith x lv op rv))
    | Compare l op r \<Rightarrow>
        bindE (eval_with_agg x l rows fallback params) (\<lambda>lv.
        bindE (eval_with_agg x r rows fallback params) (\<lambda>rv. Inr (compare_value x lv op rv)))
    | And l r \<Rightarrow>
        bindE (eval_with_agg x l rows fallback params) (\<lambda>lv. agg_and lv (eval_with_agg x r rows fallback params))
    | Or l r \<Rightarrow>
        bindE (eval_with_agg x l rows fallback params) (\<lambda>lv. agg_or lv (eval_with_agg x r rows fallback params))
    | Xor l r \<Rightarrow>
        bindE (eval_with_agg x l rows fallback params) (\<lambda>lv.
        bindE (eval_with_agg x r rows fallback params) (\<lambda>rv. bool_op xor3 lv rv))
    | Not a \<Rightarrow>
        bindE (eval_with_agg x a rows fallback params) (\<lambda>v.
        bindE (require_bool v) (\<lambda>b. Inr (of_bool3 (not3 b))))
    | IsNull a \<Rightarrow> bindE (eval_with_agg x a rows fallback params) (\<lambda>v. Inr (VBool (is_null v)))
    | IsNotNull a \<Rightarrow> bindE (eval_with_agg x a rows fallback params) (\<lambda>v. Inr (VBool (\<not> is_null v)))
    | Neg a \<Rightarrow> bindE (eval_with_agg x a rows fallback params) (\<lambda>v. Inr (neg_value v))
    | CaseSearched branches otherwise \<Rightarrow>
        run_case holds
          (map (\<lambda>b. (eval_with_agg x (fst b) rows fallback params, eval_with_agg x (snd b) rows fallback params))
            branches)
          (case otherwise of Some els \<Rightarrow> eval_with_agg x els rows fallback params | None \<Rightarrow> Inr VNull)
    | MapLiteral pairs \<Rightarrow>
        bindE (seqE (map (\<lambda>kv.
          bindE (eval_with_agg x (snd kv) rows fallback params) (\<lambda>v. Inr (fst kv, to_json (host x) v))) pairs)) (\<lambda>kvs.
        Inr (VJson (object_of kvs)))
    | List items \<Rightarrow>
        bindE (seqE (map (\<lambda>a. eval_with_agg x a rows fallback params) items)) (\<lambda>vs.
        Inr (VJson (Array (map (to_json (host x)) vs))))
    | ListComprehension variable l predicate projection \<Rightarrow>
        bindE (eval_with_agg x l rows fallback params) (\<lambda>list_val.
        case array_of list_val of
          Some arr \<Rightarrow> agg_comprehension x variable predicate projection (base_row rows fallback) params arr
        | None \<Rightarrow> Inr (if is_null list_val then VJson (Array []) else VNull))
    | ListPredicate kind variable l predicate \<Rightarrow>
        bindE (eval_with_agg x l rows fallback params) (\<lambda>list_val.
        case array_of list_val of
          Some arr \<Rightarrow> agg_predicate x kind variable predicate (base_row rows fallback) params arr
        | None \<Rightarrow> Inr (if is_null list_val then VNull else VBool False))
    | _ \<Rightarrow> eval_expr x e (base_row rows fallback) params)"
  by pat_completeness auto
termination
  by (relation "measure (\<lambda>(x, e, rows, fallback, params). size e)")
    (auto simp: expr_parts less_Suc_eq_le trans_le_add1 trans_le_add2)

declare eval_with_agg.simps [simp del]

end
