(* ===== verification/ExecRows.thy ===== *)
theory ExecRows
  imports ExecAggregate
begin

text \<open>
  The operators of \<open>cypher/executor.rs\<close> on rows, and \<open>execute\<close>. The operators that read or write the graph or
  the catalog are the parameter \<open>graph_op\<close>, a function of the plan node, the rows of its input, and the
  parameters: the model is of a run in which the stored graph does not change.
\<close>

section \<open>Names of functions\<close>

definition KNOWN_FUNCTIONS :: "string list" where
  "KNOWN_FUNCTIONS =
     [''labels'', ''type'', ''properties'', ''keys'', ''id'', ''elementid'',
      ''tostring'', ''tointeger'', ''tofloat'', ''toboolean'',
      ''size'', ''length'', ''nodes'', ''relationships'', ''rels'',
      ''head'', ''last'', ''tail'', ''range'', ''reverse'', ''coalesce'',
      ''abs'', ''sign'', ''ceil'', ''floor'', ''round'', ''sqrt'',
      ''sin'', ''cos'', ''tan'', ''asin'', ''acos'', ''atan'', ''atan2'',
      ''degrees'', ''radians'', ''pi'', ''e'', ''log'', ''log10'', ''exp'',
      ''rand'', ''tostring'', ''replace'', ''substring'', ''trim'',
      ''ltrim'', ''rtrim'', ''toupper'', ''tolower'', ''split'',
      ''left'', ''right'', ''starts with'', ''ends with'', ''contains'',
      ''exists'', ''collect'', ''count'', ''sum'', ''avg'', ''min'', ''max'',
      ''stdev'', ''stdevp'', ''percentilecont'', ''percentiledisc'',
      ''date'', ''localtime'', ''time'', ''localdatetime'', ''datetime'',
      ''duration'', ''duration.between'', ''duration.inmonths'',
      ''duration.indays'', ''duration.inseconds'',
      ''date.truncate'', ''localtime.truncate'', ''time.truncate'',
      ''localdatetime.truncate'', ''datetime.truncate'',
      ''date.realtime'', ''date.statement'', ''date.transaction'',
      ''localtime.realtime'', ''localtime.statement'', ''localtime.transaction'',
      ''time.realtime'', ''time.statement'', ''time.transaction'',
      ''localdatetime.realtime'', ''localdatetime.statement'', ''localdatetime.transaction'',
      ''datetime.realtime'', ''datetime.statement'', ''datetime.transaction'',
      ''timestamp'', ''point'', ''distance'',
      ''tointegerornull'', ''tofloatornull'', ''tobooleanornull'',
      ''tostringornull'', ''valuetype'',
      ''between'', ''inmonths'', ''indays'', ''inseconds'',
      ''transaction'', ''statement'', ''realtime'', ''truncate'', ''fromepoch'',
      ''fromepochmillis'',
      ''count_distinct'', ''collect_distinct'', ''sum_distinct'', ''avg_distinct'',
      ''startnode'', ''endnode'']"

function validate_function_names :: "Expr \<Rightarrow> unit exec_result" where
  "validate_function_names e =
    (case e of
      FunctionCall name args \<Rightarrow>
        if to_ascii_lowercase name \<notin> set KNOWN_FUNCTIONS then Inl (UnknownFunction name)
        else eachE validate_function_names args
    | Arith l _ r \<Rightarrow> bindE (validate_function_names l) (\<lambda>_. validate_function_names r)
    | And l r \<Rightarrow> bindE (validate_function_names l) (\<lambda>_. validate_function_names r)
    | Or l r \<Rightarrow> bindE (validate_function_names l) (\<lambda>_. validate_function_names r)
    | Xor l r \<Rightarrow> bindE (validate_function_names l) (\<lambda>_. validate_function_names r)
    | Compare l _ r \<Rightarrow> bindE (validate_function_names l) (\<lambda>_. validate_function_names r)
    | InList l r \<Rightarrow> bindE (validate_function_names l) (\<lambda>_. validate_function_names r)
    | StartsWith l r \<Rightarrow> bindE (validate_function_names l) (\<lambda>_. validate_function_names r)
    | EndsWith l r \<Rightarrow> bindE (validate_function_names l) (\<lambda>_. validate_function_names r)
    | Contains l r \<Rightarrow> bindE (validate_function_names l) (\<lambda>_. validate_function_names r)
    | Regex l r \<Rightarrow> bindE (validate_function_names l) (\<lambda>_. validate_function_names r)
    | Not a \<Rightarrow> validate_function_names a
    | IsNull a \<Rightarrow> validate_function_names a
    | IsNotNull a \<Rightarrow> validate_function_names a
    | Neg a \<Rightarrow> validate_function_names a
    | CaseSearched branches otherwise \<Rightarrow>
        bindE (eachE (\<lambda>b. bindE (validate_function_names (fst b)) (\<lambda>_. validate_function_names (snd b))) branches) (\<lambda>_.
        case otherwise of Some els \<Rightarrow> validate_function_names els | None \<Rightarrow> Inr ())
    | CaseSimple test branches otherwise \<Rightarrow>
        bindE (validate_function_names test) (\<lambda>_.
        bindE (eachE (\<lambda>b. bindE (validate_function_names (fst b)) (\<lambda>_. validate_function_names (snd b))) branches) (\<lambda>_.
        case otherwise of Some els \<Rightarrow> validate_function_names els | None \<Rightarrow> Inr ()))
    | List items \<Rightarrow> eachE validate_function_names items
    | Property a _ \<Rightarrow> validate_function_names a
    | Subscript a i \<Rightarrow> bindE (validate_function_names a) (\<lambda>_. validate_function_names i)
    | ListSlice l from to \<Rightarrow>
        bindE (validate_function_names l) (\<lambda>_.
        bindE (case from of Some f \<Rightarrow> validate_function_names f | None \<Rightarrow> Inr ()) (\<lambda>_.
        case to of Some t \<Rightarrow> validate_function_names t | None \<Rightarrow> Inr ()))
    | _ \<Rightarrow> Inr ())"
  by pat_completeness auto
termination
  by (relation "measure size") (auto simp: expr_parts less_Suc_eq_le trans_le_add1 trans_le_add2)

declare validate_function_names.simps [simp del]

section \<open>Order, distinct rows, skip and limit\<close>

text \<open>The parts of a fingerprint are sorted, so it does not depend on the order of the bindings.\<close>

definition intercalate :: "rust_str \<Rightarrow> rust_str list \<Rightarrow> rust_str" where
  "intercalate sep parts = (case parts of [] \<Rightarrow> [] | p # ps \<Rightarrow> p @ concat (map (\<lambda>q. sep @ q) ps))"

definition row_fingerprint :: "'n exec \<Rightarrow> 'n Row \<Rightarrow> rust_str" where
  "row_fingerprint x row =
     intercalate (bytes_of ''|'')
       (sort_by str_ord (map (\<lambda>(k, v). bytes_of (k @ ''='') @ value_fingerprint x v) row))"

type_synonym 'n projected = "'n Row \<times> 'n Row"

text \<open>The sort key of a projected row with its input row: the first that the expression evaluates on.\<close>

definition order_key :: "'n exec \<Rightarrow> 'n Params \<Rightarrow> Expr \<Rightarrow> 'n projected \<Rightarrow> 'n Value" where
  "order_key x params e p = value_or_null (or_elseE (eval_expr x e (fst p) params) (eval_expr x e (snd p) params))"

text \<open>After an aggregation the column of that name stands before the input row.\<close>

definition agg_order_key :: "'n exec \<Rightarrow> 'n Params \<Rightarrow> Expr \<Rightarrow> 'n projected \<Rightarrow> 'n Value" where
  "agg_order_key x params e p =
     (case eval_expr x e (fst p) params of
       Inr v \<Rightarrow> v
     | Inl _ \<Rightarrow>
         (case map_of (fst p) (expr_default_name x e 0) of
           Some v \<Rightarrow> v
         | None \<Rightarrow> value_or_null (eval_expr x e (snd p) params)))"

definition rows_ordering ::
  "'n exec \<Rightarrow> (Expr \<Rightarrow> 'n projected \<Rightarrow> 'n Value) \<Rightarrow> Expr OrderItem list \<Rightarrow> 'n projected \<Rightarrow> 'n projected \<Rightarrow> Ordering" where
  "rows_ordering x key order_by a b =
     first_difference
       (map (\<lambda>item.
         let c = value_ordering (host x) (key (oi_expr item) a) (key (oi_expr item) b)
         in if ascending item then c else reverse_ord c) order_by)
       Equal"

definition unbound_error :: "ExecError \<Rightarrow> unit exec_result" where
  "unbound_error e =
     (case e of
       UnboundVariable v \<Rightarrow> Inl (UnboundInOrderBy v)
     | Failed msg \<Rightarrow> if starts_with ''unbound variable'' msg then Inl (UnboundInOrderBy msg) else Inr ()
     | _ \<Rightarrow> Inr ())"

definition check_order :: "'n exec \<Rightarrow> 'n Params \<Rightarrow> Expr OrderItem list \<Rightarrow> 'n projected list \<Rightarrow> unit exec_result" where
  "check_order x params order_by projected =
     (case projected of
       [] \<Rightarrow> Inr ()
     | (proj, inp) # _ \<Rightarrow>
         eachE (\<lambda>item.
           case or_elseE (eval_expr x (oi_expr item) proj params) (eval_expr x (oi_expr item) inp params) of
             Inl e \<Rightarrow> unbound_error e
           | Inr _ \<Rightarrow> Inr ()) order_by)"

definition eval_const_usize :: "'n exec \<Rightarrow> Expr \<Rightarrow> 'n Params \<Rightarrow> nat exec_result" where
  "eval_const_usize x e params =
     (case value_or_null (eval_expr x e [] params) of
       VInt n \<Rightarrow> if sint n < 0 then Inl NegativeCount else Inr (nat (sint n))
     | VFloat _ \<Rightarrow> Inl FloatCount
     | _ \<Rightarrow> Inr 0)"

definition finish_project ::
  "'n exec \<Rightarrow> (Expr \<Rightarrow> 'n projected \<Rightarrow> 'n Value) \<Rightarrow> bool \<Rightarrow> Expr OrderItem list \<Rightarrow> Expr option \<Rightarrow> Expr option \<Rightarrow>
   'n Params \<Rightarrow> 'n projected list \<Rightarrow> 'n Row list exec_result" where
  "finish_project x key uniq order_by skip limit params projected =
     bindE (check_order x params order_by projected) (\<lambda>_.
     let sorted = (if order_by = [] then projected else sort_by (rows_ordering x key order_by) projected);
         kept = (if uniq then retain_new (\<lambda>p. row_fingerprint x (fst p)) {} sorted else sorted)
     in bindE (case skip of Some e \<Rightarrow> eval_const_usize x e params | None \<Rightarrow> Inr 0) (\<lambda>n.
        bindE (case limit of
            Some e \<Rightarrow> bindE (eval_const_usize x e params) (\<lambda>m. Inr (Some m))
          | None \<Rightarrow> Inr None) (\<lambda>m.
        let rest = drop n kept
        in Inr (map fst (case m of Some m \<Rightarrow> take m rest | None \<Rightarrow> rest)))))"

section \<open>Projection\<close>

definition column_name :: "'n exec \<Rightarrow> nat \<Rightarrow> Expr ReturnItem \<Rightarrow> string" where
  "column_name x idx item =
     (case ri_alias item of Some a \<Rightarrow> a | None \<Rightarrow> expr_default_name x (ri_expr item) idx)"

definition project_row :: "'n exec \<Rightarrow> Expr ReturnItem list \<Rightarrow> 'n Params \<Rightarrow> 'n Row \<Rightarrow> 'n Row exec_result" where
  "project_row x items params row =
     foldE (\<lambda>out (idx, item).
       if ri_expr item = Star then Inr (row_fill out row)
       else bindE (eval_expr x (ri_expr item) row params) (\<lambda>val.
         Inr (row_insert (column_name x idx item) val out))) [] (enumerate 0 items)"

definition key_exprs :: "Expr ReturnItem list \<Rightarrow> Expr list" where
  "key_exprs items =
     concat (map (\<lambda>item.
       if expr_has_aggregate (ri_expr item) then []
       else ri_expr item # (case ri_alias item of Some a \<Rightarrow> [Variable a] | None \<Rightarrow> [])) items)"

definition covered_refs :: "Expr list \<Rightarrow> Expr \<Rightarrow> bool" where
  "covered_refs keys e \<longleftrightarrow>
     (expr_has_aggregate e \<longrightarrow> list_all (\<lambda>r. list_ex (\<lambda>k. same_reference k r) keys) (collect_free_var_refs e))"

text \<open>A group: its fingerprint, the row of its keys, its rows in order, and the first of them.\<close>

type_synonym 'n group = "rust_str \<times> 'n Row \<times> 'n Row list \<times> 'n Row"

fun add_to_group :: "rust_str \<Rightarrow> 'n Row \<Rightarrow> 'n Row \<Rightarrow> 'n group list \<Rightarrow> 'n group list" where
  "add_to_group fp key_row row [] = [(fp, key_row, [row], row)]"
| "add_to_group fp key_row row ((fp', k, rs, r) # gs) =
     (if fp = fp' then (fp', k, rs @ [row], r) # gs else (fp', k, rs, r) # add_to_group fp key_row row gs)"

definition group_key :: "'n exec \<Rightarrow> Expr ReturnItem list \<Rightarrow> 'n Params \<Rightarrow> 'n Row \<Rightarrow> rust_str \<times> 'n Row" where
  "group_key x items params row =
     (let cols = map (\<lambda>(idx, item). (column_name x idx item, value_or_null (eval_expr x (ri_expr item) row params)))
            (filter (\<lambda>(idx, item). \<not> expr_has_aggregate (ri_expr item)) (enumerate 0 items))
      in (intercalate [0] (map (\<lambda>(col, val). bytes_of (col @ ''='') @ value_fingerprint x val) cols),
          foldl (\<lambda>r (col, val). row_insert col val r) [] cols))"

definition group_rows :: "'n exec \<Rightarrow> Expr ReturnItem list \<Rightarrow> 'n Params \<Rightarrow> 'n Row list \<Rightarrow> 'n group list" where
  "group_rows x items params rows =
     foldl (\<lambda>gs row. case group_key x items params row of (fp, k) \<Rightarrow> add_to_group fp k row gs) [] rows"

text \<open>Without rows and without keys there is one group, so that \<open>count\<close> is 0.\<close>

definition groups_of :: "'n exec \<Rightarrow> Expr ReturnItem list \<Rightarrow> 'n Params \<Rightarrow> 'n Row list \<Rightarrow> 'n group list" where
  "groups_of x items params rows =
     (let groups = group_rows x items params rows
      in if groups = [] \<and> list_all (\<lambda>i. expr_has_aggregate (ri_expr i)) items then [([], [], [], [])] else groups)"

definition exec_project_aggregate ::
  "'n exec \<Rightarrow> 'n Row list \<Rightarrow> Expr ReturnItem list \<Rightarrow> bool \<Rightarrow> Expr OrderItem list \<Rightarrow> Expr option \<Rightarrow> Expr option \<Rightarrow>
   'n Params \<Rightarrow> 'n Row list exec_result" where
  "exec_project_aggregate x rows items uniq order_by skip limit params =
     (if \<not> list_all (\<lambda>i. covered_refs (key_exprs items) (ri_expr i)) items then Inl AmbiguousAggregation
      else if \<not> list_all (\<lambda>ob. covered_refs (key_exprs items) (oi_expr ob)) order_by then
        Inl AmbiguousAggregationInOrderBy
      else
        bindE (seqE (map (\<lambda>(fp, key_row, group_rows, first_row).
          bindE (foldE (\<lambda>out (idx, item).
            bindE (eval_with_agg x (ri_expr item) group_rows key_row params) (\<lambda>val.
            Inr (row_insert (column_name x idx item) val out))) [] (enumerate 0 items)) (\<lambda>out_row.
          Inr (out_row, row_fill first_row key_row))) (groups_of x items params rows))) (\<lambda>projected.
        finish_project x (agg_order_key x params) uniq order_by skip limit params projected))"

definition exec_project ::
  "'n exec \<Rightarrow> 'n Row list exec_result \<Rightarrow> Expr ReturnItem list \<Rightarrow> bool \<Rightarrow> Expr OrderItem list \<Rightarrow> Expr option \<Rightarrow>
   Expr option \<Rightarrow> 'n Params \<Rightarrow> 'n Row list exec_result" where
  "exec_project x input items uniq order_by skip limit params =
     bindE (eachE (\<lambda>i. validate_function_names (ri_expr i)) items) (\<lambda>_.
     bindE (eachE (\<lambda>i. validate_function_names (oi_expr i)) order_by) (\<lambda>_.
     bindE input (\<lambda>rows.
     if list_ex (\<lambda>i. expr_has_aggregate (ri_expr i)) items then
       exec_project_aggregate x rows items uniq order_by skip limit params
     else
       bindE (seqE (map (\<lambda>row. bindE (project_row x items params row) (\<lambda>out. Inr (out, row))) rows)) (\<lambda>projected.
       finish_project x (order_key x params) uniq order_by skip limit params projected))))"

section \<open>Operators on rows\<close>

text \<open>\<open>row.extend(other)\<close>: the bindings of the second row win.\<close>

definition row_extend :: "'n Row \<Rightarrow> 'n Row \<Rightarrow> 'n Row" where
  "row_extend row other = foldl (\<lambda>r (k, v). row_insert k v r) row other"

definition with_row :: "'n exec \<Rightarrow> 'n Params \<Rightarrow> 'n Row \<Rightarrow> 'n Params" where
  "with_row x params row = foldl (\<lambda>p (k, v). p(k \<mapsto> to_json (host x) v)) params row"

definition exec_filter :: "'n exec \<Rightarrow> 'n Row list \<Rightarrow> Expr \<Rightarrow> 'n Params \<Rightarrow> 'n Row list exec_result" where
  "exec_filter x rows predicate params =
     bindE (seqE (map (\<lambda>row.
       bindE (eval_expr x predicate row params) (\<lambda>val. Inr (if is_truthy val then [row] else []))) rows)) (\<lambda>kept.
     Inr (concat kept))"

definition exec_unwind :: "'n exec \<Rightarrow> 'n Row list \<Rightarrow> Expr \<Rightarrow> string \<Rightarrow> 'n Params \<Rightarrow> 'n Row list exec_result" where
  "exec_unwind x rows e name params =
     bindE (seqE (map (\<lambda>row.
       bindE (eval_expr x e row params) (\<lambda>val.
       let items = (case array_of val of
             Some arr \<Rightarrow> arr | None \<Rightarrow> if is_null val then [] else [to_json (host x) val])
       in Inr (map (\<lambda>item. row_insert name (json_to_value (host x) item) row) items))) rows)) (\<lambda>out.
     Inr (concat out))"

text \<open>The inner plan is run once for each outer row, with the bindings of that row among its parameters.\<close>

definition for_each_row ::
  "'n exec \<Rightarrow> 'n Row list \<Rightarrow> ('n Params \<Rightarrow> 'n Row list exec_result) \<Rightarrow> 'n Params \<Rightarrow>
   ('n Row \<Rightarrow> 'n Row list \<Rightarrow> 'n Row list) \<Rightarrow> 'n Row list exec_result" where
  "for_each_row x outer_rows inner params merge =
     bindE (seqE (map (\<lambda>row. bindE (inner (with_row x params row)) (\<lambda>rs. Inr (merge row rs))) outer_rows)) (\<lambda>out.
     Inr (concat out))"

definition merge_all :: "'n Row \<Rightarrow> 'n Row list \<Rightarrow> 'n Row list" where
  "merge_all row rs = map (row_extend row) rs"

definition merge_or_nulls :: "string list \<Rightarrow> 'n Row \<Rightarrow> 'n Row list \<Rightarrow> 'n Row list" where
  "merge_or_nulls null_vars row rs =
     (if rs = [] then [foldl (\<lambda>r v. row_insert v VNull r) row null_vars] else merge_all row rs)"

text \<open>
  The walk over the elements of a named path, with a flag for the place of a node. A path in the place of a
  relationship is spliced in, and takes the place of the node after it too.
\<close>

fun path_walk :: "'n Row \<Rightarrow> bool \<Rightarrow> string list \<Rightarrow> 'n Value list \<times> 'n Value list" where
  "path_walk row at_node [] = ([], [])"
| "path_walk row True (v # vars) = (case path_walk row False vars of (ns, rs) \<Rightarrow> (get_or_null row v # ns, rs))"
| "path_walk row False (v # vars) =
     (case get_or_null row v of
       VPath pnodes prels \<Rightarrow>
         (case path_walk row False (tl vars) of (ns, rs) \<Rightarrow> (take (length prels) (tl pnodes) @ ns, prels @ rs))
     | r \<Rightarrow> (case path_walk row True vars of (ns, rs) \<Rightarrow> (ns, r # rs)))"

definition edge_ids :: "'n Value list \<Rightarrow> i64 list" where
  "edge_ids rels = concat (map (\<lambda>r. case edge_id r of Some i \<Rightarrow> [i] | None \<Rightarrow> []) rels)"

definition named_path_row :: "string \<Rightarrow> string list \<Rightarrow> 'n Row \<Rightarrow> 'n Row list" where
  "named_path_row path_var element_vars row =
     (case element_vars of
       [v] \<Rightarrow> [row_insert path_var (VPath [get_or_null row v] []) row]
     | _ \<Rightarrow>
         if list_ex (\<lambda>v. is_null (get_or_null row v)) (every_other (tl element_vars)) then
           [row_insert path_var VNull row]
         else
           (case path_walk row True element_vars of (nodes, rels) \<Rightarrow>
             if \<not> distinct (edge_ids rels) then [] else [row_insert path_var (VPath nodes rels) row]))"

section \<open>Plans\<close>

text \<open>
  Expansions and procedure calls get the rows of their input; scans, statements on the schema and plans that
  write are left to \<open>graph_op\<close> whole.
\<close>

function execute ::
  "'n exec \<Rightarrow> (LogicalPlan \<Rightarrow> 'n Row list \<Rightarrow> 'n Params \<Rightarrow> 'n Row list exec_result) \<Rightarrow> LogicalPlan \<Rightarrow> 'n Params \<Rightarrow>
   'n Row list exec_result" where
  "execute x graph_op plan params =
    (case plan of
      SingleRow \<Rightarrow> Inr [[]]
    | Empty \<Rightarrow> Inr []
    | CrossProduct left right \<Rightarrow>
        bindE (execute x graph_op left params) (\<lambda>rows.
        for_each_row x rows (\<lambda>p. execute x graph_op right p) params merge_all)
    | Filter input predicate \<Rightarrow>
        bindE (execute x graph_op input params) (\<lambda>rows. exec_filter x rows predicate params)
    | Project input items uniq order_by skip limit \<Rightarrow>
        exec_project x (execute x graph_op input params) items uniq order_by skip limit params
    | Unwind input e name \<Rightarrow>
        bindE (execute x graph_op input params) (\<lambda>rows. exec_unwind x rows e name params)
    | NamedPath input path_var element_vars \<Rightarrow>
        bindE (execute x graph_op input params) (\<lambda>rows.
        Inr (concat (map (named_path_row path_var element_vars) rows)))
    | Apply outer inner \<Rightarrow>
        bindE (execute x graph_op outer params) (\<lambda>rows.
        for_each_row x rows (\<lambda>p. execute x graph_op inner p) params merge_all)
    | LeftJoin outer inner null_vars \<Rightarrow>
        bindE (execute x graph_op outer params) (\<lambda>rows.
        for_each_row x rows (\<lambda>p. execute x graph_op inner p) params (merge_or_nulls null_vars))
    | Union left right all \<Rightarrow>
        bindE (execute x graph_op left params) (\<lambda>ls.
        bindE (execute x graph_op right params) (\<lambda>rs.
        Inr (if all then ls @ rs else retain_new (row_fingerprint x) {} (ls @ rs))))
    | Expand input _ _ _ _ _ _ _ _ _ _ \<Rightarrow>
        bindE (execute x graph_op input params) (\<lambda>rows. graph_op plan rows params)
    | VarLengthExpand input _ _ _ _ _ _ _ _ _ _ \<Rightarrow>
        bindE (execute x graph_op input params) (\<lambda>rows. graph_op plan rows params)
    | BoundRelListExpand input _ _ _ _ \<Rightarrow>
        bindE (execute x graph_op input params) (\<lambda>rows. graph_op plan rows params)
    | CallProcedure input _ _ _ _ \<Rightarrow>
        bindE (execute x graph_op input params) (\<lambda>rows. graph_op plan rows params)
    | _ \<Rightarrow> graph_op plan [] params)"
  by pat_completeness auto
termination
  by (relation "measure (\<lambda>(x, g, plan, params). size plan)") auto

declare execute.simps [simp del]

end
