(* ===== verification/ExecProperties.thy ===== *)
theory ExecProperties
  imports ExecRows
begin

text \<open>What the executor guarantees: its order, its sorted and grouped results, durations and ranges.\<close>

section \<open>Distinct rows and groups\<close>

lemma retain_new_append:
  "retain_new f seen (xs @ [y])
    = retain_new f seen xs @ (if f y \<in> seen \<union> f ` set xs then [] else [y])"
  by (induction xs arbitrary: seen) auto

lemma set_retain_new: "f ` set (retain_new f seen xs) = f ` set xs - seen"
  by (induction xs arbitrary: seen) auto

lemma retain_new_distinct: "distinct (map f (retain_new f seen xs))"
  using set_retain_new [of f] by (induction xs arbitrary: seen) auto

lemma retain_new_fixes: "set (retain_new f seen xs) \<subseteq> set xs"
  by (induction xs arbitrary: seen) auto

text \<open>The group of a fingerprint, as a reference definition: its rows are those with that fingerprint.\<close>

definition group_of :: "'n exec \<Rightarrow> Expr ReturnItem list \<Rightarrow> 'n Params \<Rightarrow> 'n Row list \<Rightarrow> rust_str \<Rightarrow> 'n group" where
  "group_of x items params rows fp =
     (let rs = filter (\<lambda>row. fst (group_key x items params row) = fp) rows
      in (fp, snd (group_key x items params (hd rs)), rs, hd rs))"

lemma add_to_group_old:
  assumes "fp \<in> set fps" and "distinct fps" and "\<And>f. fst (g f) = f"
  shows "add_to_group fp k row (map g fps)
    = map (\<lambda>f. if f = fp then (case g f of (f, k', rs, r) \<Rightarrow> (f, k', rs @ [row], r)) else g f) fps"
  using assms(1,2)
proof (induction fps)
  case (Cons f fps)
  obtain k' rs r where g: "g f = (f, k', rs, r)"
    using assms(3) [of f] by (cases "g f") auto
  show ?case
    using Cons g by (cases "f = fp") (auto intro!: map_cong)
qed simp

lemma add_to_group_new:
  assumes "fp \<notin> set fps" and "\<And>f. fst (g f) = f"
  shows "add_to_group fp k row (map g fps) = map g fps @ [(fp, k, [row], row)]"
  using assms(1)
proof (induction fps)
  case (Cons f fps)
  obtain k' rs r where "g f = (f, k', rs, r)"
    using assms(2) [of f] by (cases "g f") auto
  then show ?case
    using Cons by simp
qed simp

section \<open>Sorted results\<close>

lemma first_difference_then: "first_difference (c # cs) d = then_ord c (first_difference cs d)"
  by (simp add: then_ord_def)

lemma rows_ordering_sort_order:
  assumes "\<forall>p \<in> P. \<forall>item \<in> set order_by. orderable (host x) (key (oi_expr item) p)"
  shows "sort_order (rows_ordering x key order_by) P"
  unfolding rows_ordering_def using assms
proof (induction order_by)
  case Nil
  show ?case by (simp add: sort_order_Equal)
next
  case (Cons item order_by)
  have item: "sort_order (\<lambda>a b. value_ordering (host x) (key (oi_expr item) a) (key (oi_expr item) b)) P"
    by (rule sort_order_image [OF value_ordering_sort_order]) (use Cons.prems in simp)
  have "sort_order (\<lambda>a b. let c = value_ordering (host x) (key (oi_expr item) a) (key (oi_expr item) b)
      in if ascending item then c else reverse_ord c) P"
    using item sort_order_reverse [OF item] by (cases "ascending item") (simp_all add: Let_def)
  then show ?case
    unfolding list.map first_difference_then
    by (rule sort_order_then) (use Cons in simp)
qed

lemma finish_project_sorted:
  assumes "finish_project x key False order_by skip limit params projected = Inr out"
    and "\<forall>p \<in> set projected. \<forall>item \<in> set order_by. orderable (host x) (key (oi_expr item) p)"
  shows "\<exists>ps n m. out = map fst (take m (drop n ps)) \<and> mset ps = mset projected
    \<and> ordered (rows_ordering x key order_by) ps
    \<and> (skip = None \<longrightarrow> n = 0) \<and> (limit = None \<longrightarrow> m = length ps)"
proof -
  let ?ps = "if order_by = [] then projected else sort_by (rows_ordering x key order_by) projected"
  have "ordered (rows_ordering x key order_by) (sort_by (rows_ordering x key order_by) projected)"
    using rows_ordering_sort_order [OF assms(2)] by (rule sort_order.sort_ordered) simp_all
  moreover have "ordered (rows_ordering x key []) projected"
    by (simp add: ordered_def rows_ordering_def sorted_wrt_iff_nth_less)
  ultimately have ps: "mset ?ps = mset projected" "ordered (rows_ordering x key order_by) ?ps"
    by simp_all
  from assms(1) obtain n m where n: "(case skip of Some e \<Rightarrow> eval_const_usize x e params | None \<Rightarrow> Inr 0) = Inr n"
    and m: "(case limit of Some e \<Rightarrow> bindE (eval_const_usize x e params) (\<lambda>m. Inr (Some m)) | None \<Rightarrow> Inr None) = Inr m"
    and out: "out = map fst (case m of Some m \<Rightarrow> take m (drop n ?ps) | None \<Rightarrow> drop n ?ps)"
    by (auto simp: finish_project_def Let_def bindE_eq_Inr)
  have "limit = None \<Longrightarrow> m = None" "skip = None \<Longrightarrow> n = 0"
    using n m by auto
  then show ?thesis
    using ps out by (intro exI [of _ ?ps] exI [of _ n] exI [of _ "case m of Some m \<Rightarrow> m | None \<Rightarrow> length ?ps"])
      (auto split: option.splits)
qed

lemmas eval_simps = eval_expr.simps expr_has_aggregate.simps validate_function_names.simps

section \<open>The properties\<close>

text \<open>
  C16. The order that ORDER BY sorts by is a total preorder, as \<open>sort_by\<close> asks, on values without temporal
  values and durations and with integers below \<open>2 ^ 53\<close>: the converse comparison is the reverse, and it is
  transitive, over numbers, strings, nested lists and mixed types.
\<close>

theorem order_total:
  assumes "orderable h a" and "orderable h b" and "orderable h c"
  shows "value_ordering h b a = reverse_ord (value_ordering h a b) \<and>
    (value_ordering h a b \<noteq> Greater \<longrightarrow> value_ordering h b c \<noteq> Greater \<longrightarrow> value_ordering h a c \<noteq> Greater)"
  using assms value_order.rev [of a h b] value_order.trans [of a h b c] by simp

theorem order_total_witness:
  "\<forall>h :: nat host. value_ordering h (VStr [104]) (VBool True) = Less
    \<and> value_ordering h (VBool True) (VStr [104]) = Greater
    \<and> value_ordering h (VStr [104]) VNull \<noteq> Greater"
proof
  fix h :: "nat host"
  have "orderable h (VStr [104])" "orderable h (VBool True)" "orderable h VNull"
    by (intro orderable.intros)+
  then show "value_ordering h (VStr [104]) (VBool True) = Less
    \<and> value_ordering h (VBool True) (VStr [104]) = Greater
    \<and> value_ordering h (VStr [104]) VNull \<noteq> Greater"
    using order_total [of h "VStr [104]" "VBool True" VNull]
    by (simp add: value_ordering.simps type_rank_def ord_of_def)
qed





text \<open>
  C26. Adding and subtracting durations adds and subtracts their months, their days and their nanoseconds,
  each total apart, and leaves a normal duration, so long as the components are small enough that no
  64-bit operation wraps.
\<close>

theorem duration_arith:
  assumes "dur_small a" and "dur_small b"
  shows "months_of (duration_add a b) = months_of a + months_of b
    \<and> days_of (duration_add a b) = days_of a + days_of b
    \<and> nanos_of (duration_add a b) = nanos_of a + nanos_of b
    \<and> months_of (duration_sub a b) = months_of a - months_of b
    \<and> days_of (duration_sub a b) = days_of a - days_of b
    \<and> nanos_of (duration_sub a b) = nanos_of a - nanos_of b
    \<and> dur_normal (duration_add a b) \<and> dur_normal (duration_sub a b)"
  using duration_add_totals [OF assms] duration_sub_totals [OF assms] by simp

theorem duration_arith_witness:
  "nanos_of (duration_sub (CypherDuration 0 0 0 0 0 1 0 0 ''PT1M'') (CypherDuration 0 0 0 0 0 0 1 500000000 ''PT1.5S''))
    = 58500000000"
proof -
  let ?a = "CypherDuration 0 0 0 0 0 1 0 0 ''PT1M''" and ?b = "CypherDuration 0 0 0 0 0 0 1 500000000 ''PT1.5S''"
  have "dur_small ?a" "dur_small ?b"
    by (simp_all add: dur_small_def small_def)
  then show ?thesis
    using duration_arith [of ?a ?b] by (simp add: nanos_of_def)
qed

text \<open>
  C40. The ISO text of a duration does not show the sign of its nanoseconds when its seconds are positive:
  two durations that differ print alike. \<open>duration_sub\<close> produces such durations: a minute less a second and a half
  is 58.5 seconds, and prints as 59.5.
\<close>

theorem duration_text_ambiguous:
  assumes "0 < sint s" and "ns \<noteq> I64_MIN"
  shows "build_iso y m w d h mi s (- ns) = build_iso y m w d h mi s ns"
proof (cases "ns = 0")
  case False
  have "unsigned_abs (- ns) = unsigned_abs ns"
  proof -
    have "sint I64_MIN = - (2 ^ 63)"
      using sint_of_int [of "- (2 ^ 63)"] by (simp add: in_i64_def I64_MIN_def)
    then have "sint ns \<noteq> - (2 ^ 63)"
      using assms(2) by (metis signed_word_eqI)
    then have "sint (- ns) = - sint ns"
      using sint_diff [of 0 ns] in_i64_sint [of ns] by (simp add: in_i64_def)
    then show ?thesis
      by (simp add: unsigned_abs_def)
  qed
  then show ?thesis
    using False assms(1) by (auto simp: build_iso_def Let_def)
qed simp

theorem duration_text_ambiguous_witness:
  "build_iso 0 0 0 0 0 0 59 (- 500000000) = build_iso 0 0 0 0 0 0 59 500000000"
  using duration_text_ambiguous [of 59 500000000 0 0 0 0 0 0] by (simp add: I64_MIN_def)

text \<open>
  C17. \<open>range\<close> ends and returns the values from the start by the step, if the end plus the step fits 64 bits;
  with the greatest integer as its end and a positive step it never ends.
\<close>

theorem range_ends:
  "(in_i64 (sint e + sint st) \<and> st \<noteq> 0 \<longrightarrow>
      range_loop s e st = Some (map (\<lambda>k. s + of_nat k * st) [0..<range_count (sint s) (sint e) (sint st)]))
    \<and> (0 < sint st \<longrightarrow> range_loop s 0x7FFFFFFFFFFFFFFF st = None)"
  using range_loop_ends [of e st s] range_loop_diverges [of st s] by simp

theorem range_ends_witness:
  "range_loop 1 7 (3 :: i64) = Some [1, 4, 7] \<and> range_loop 0x7FFFFFFFFFFFFFFE 0x7FFFFFFFFFFFFFFF (1 :: i64) = None"
proof -
  have "range_count 1 7 3 = 3"
    by (simp add: range_count_def)
  then show ?thesis
    using range_ends [of 7 3 1] range_ends [of 0 1 "0x7FFFFFFFFFFFFFFE"]
    by (simp add: in_i64_def upt_rec)
qed

end
